(* ===== verification/Prelude.thy ===== *)
theory Prelude
  imports Main "HOL-Library.Word" "HOL-Library.Monad_Syntax"
begin

text \<open>
  The shared ground of the development: the return codes of
  \<^verbatim>\<open>Kernel/mxwl/mach/mach_types.h\<close>, the treatment of C assertions, and the generic
  facts about lists, options and maps that the component theories use.

  A C function that can abort (a failed \<^verbatim>\<open>assert\<close>) or dereference a null pointer is
  a function into \<open>option\<close>: \<open>None\<close> means that the run of the kernel ends there.
\<close>

section \<open>Collections of rewrite rules\<close>

named_theorems port_simps \<open>definitions of the Mach port layer\<close>
named_theorems splay_simps \<open>definitions of the splay tree layer\<close>
named_theorems srv_simps \<open>definitions of the server layer\<close>

section \<open>Kernel return codes\<close>

text \<open>The codes of \<^verbatim>\<open>mach_types.h\<close> (and \<open>KERN_RESOURCE_SHORTAGE\<close> of
  \<^verbatim>\<open>compat/mach/kern_return.h\<close>), as constructors.\<close>

datatype kern_return_t =
    KERN_SUCCESS
  | KERN_INVALID_ARGUMENT
  | KERN_FAILURE
  | KERN_RESOURCE_SHORTAGE
  | KERN_INVALID_HOST
  | KERN_INVALID_RIGHT
  | KERN_INVALID_OBJECT
  | KERN_INVALID_NAME
  | KERN_NOT_RECEIVER
  | KERN_NO_SPACE
  | KERN_INVALID_CAPABILITY
  | KERN_TERMINATED
  | KERN_MSG_TOO_LARGE
  | KERN_INVALID_TASK
  | KERN_NOT_IN_SET
  | KERN_NAME_EXISTS
  | KERN_ABORTED
  | KERN_INVALID_MEMORY_CONTROL

text \<open>The number of a code, as it goes into a message.\<close>

fun kern_code :: "kern_return_t \<Rightarrow> int" where
  "kern_code KERN_SUCCESS = 0"
| "kern_code KERN_INVALID_ARGUMENT = 4"
| "kern_code KERN_FAILURE = 5"
| "kern_code KERN_RESOURCE_SHORTAGE = 85"
| "kern_code KERN_INVALID_HOST = 7"
| "kern_code KERN_INVALID_RIGHT = 8"
| "kern_code KERN_INVALID_OBJECT = 9"
| "kern_code KERN_INVALID_NAME = 10"
| "kern_code KERN_NOT_RECEIVER = 14"
| "kern_code KERN_NO_SPACE = 29"
| "kern_code KERN_INVALID_CAPABILITY = 30"
| "kern_code KERN_TERMINATED = 46"
| "kern_code KERN_MSG_TOO_LARGE = 52"
| "kern_code KERN_INVALID_TASK = 73"
| "kern_code KERN_NOT_IN_SET = 77"
| "kern_code KERN_NAME_EXISTS = 78"
| "kern_code KERN_ABORTED = 90"
| "kern_code KERN_INVALID_MEMORY_CONTROL = 94"

text \<open>\<^verbatim>\<open>mach_port_t\<close> is a C \<^verbatim>\<open>int\<close>: names are compared as signed numbers and never
  computed with, so \<open>int\<close> is exact.\<close>

type_synonym mach_port_t = int

definition MACH_PORT_NULL :: mach_port_t where
  "MACH_PORT_NULL = 0"

definition MACH_PORT_DEAD :: mach_port_t where
  "MACH_PORT_DEAD = - 2"

section \<open>Assertions\<close>

definition c_assert :: "bool \<Rightarrow> unit option" where
  "c_assert b = (if b then Some () else None)"

lemma c_assert_True [simp]: "c_assert True = Some ()"
  by (simp add: c_assert_def)

lemma c_assert_False [simp]: "c_assert False = None"
  by (simp add: c_assert_def)

lemma c_assert_bind [simp]: "(c_assert b \<bind> f = Some r) \<longleftrightarrow> b \<and> f () = Some r"
  by (cases b) simp_all

lemma c_assert_bind_None [simp]: "(c_assert b \<bind> f = None) \<longleftrightarrow> \<not> b \<or> f () = None"
  by (cases b) simp_all

section \<open>Strictly sorted association lists\<close>

text \<open>The abstract value of an ordered table: its bindings in increasing key order.\<close>

definition keys_of :: "(int \<times> 'a) list \<Rightarrow> int list" where
  "keys_of xs = map fst xs"

lemma keys_of_simps [simp]:
  "keys_of [] = []"
  "keys_of (x # xs) = fst x # keys_of xs"
  "keys_of (xs @ ys) = keys_of xs @ keys_of ys"
  by (simp_all add: keys_of_def)

text \<open>All keys of a list are below, or above, a bound; all keys of one list are below those of
  another.\<close>

definition below :: "(int \<times> 'a) list \<Rightarrow> int \<Rightarrow> bool" where
  "below xs m \<longleftrightarrow> (\<forall>k \<in> set (keys_of xs). k < m)"

definition above :: "(int \<times> 'a) list \<Rightarrow> int \<Rightarrow> bool" where
  "above xs m \<longleftrightarrow> (\<forall>k \<in> set (keys_of xs). m < k)"

definition cross :: "(int \<times> 'a) list \<Rightarrow> (int \<times> 'a) list \<Rightarrow> bool" where
  "cross xs ys \<longleftrightarrow> (\<forall>a \<in> set (keys_of xs). \<forall>b \<in> set (keys_of ys). a < b)"

lemma below_simps [simp]:
  "below [] m"
  "below (x # xs) m \<longleftrightarrow> fst x < m \<and> below xs m"
  "below (xs @ ys) m \<longleftrightarrow> below xs m \<and> below ys m"
  by (auto simp: below_def)

lemma above_simps [simp]:
  "above [] m"
  "above (x # xs) m \<longleftrightarrow> m < fst x \<and> above xs m"
  "above (xs @ ys) m \<longleftrightarrow> above xs m \<and> above ys m"
  by (auto simp: above_def)

lemma cross_simps [simp]:
  "cross [] ys"
  "cross xs []"
  "cross (x # xs) ys \<longleftrightarrow> above ys (fst x) \<and> cross xs ys"
  "cross xs (y # ys) \<longleftrightarrow> below xs (fst y) \<and> cross xs ys"
  "cross (xs @ xs') ys \<longleftrightarrow> cross xs ys \<and> cross xs' ys"
  "cross xs (ys @ ys') \<longleftrightarrow> cross xs ys \<and> cross xs ys'"
  by (auto simp: cross_def above_def below_def)

lemma below_trans: "below xs n \<Longrightarrow> n \<le> m \<Longrightarrow> below xs m"
  by (force simp: below_def)

lemma above_trans: "above xs n \<Longrightarrow> m \<le> n \<Longrightarrow> above xs m"
  by (force simp: above_def)

lemma below_less: "below xs n \<Longrightarrow> n < m \<Longrightarrow> below xs m"
  by (auto elim: below_trans)

lemma above_less: "above xs n \<Longrightarrow> m < n \<Longrightarrow> above xs m"
  by (auto elim: above_trans)

lemma cross_between: "below xs m \<Longrightarrow> above ys m \<Longrightarrow> cross xs ys"
  by (force simp: cross_def below_def above_def)

definition ksorted :: "(int \<times> 'a) list \<Rightarrow> bool" where
  "ksorted xs \<longleftrightarrow> sorted_wrt (<) (keys_of xs)"

lemma ksorted_Nil [simp]: "ksorted []"
  by (simp add: ksorted_def)

lemma ksorted_Cons [simp]: "ksorted (x # xs) \<longleftrightarrow> above xs (fst x) \<and> ksorted xs"
  by (auto simp: ksorted_def above_def)

lemma ksorted_append [simp]: "ksorted (xs @ ys) \<longleftrightarrow> ksorted xs \<and> ksorted ys \<and> cross xs ys"
  by (auto simp: ksorted_def sorted_wrt_append cross_def)

lemma below_notin: "below xs m \<Longrightarrow> m \<notin> set (keys_of xs)"
  by (auto simp: below_def)

lemma above_notin: "above xs m \<Longrightarrow> m \<notin> set (keys_of xs)"
  by (auto simp: above_def)

lemma map_of_notin [simp]: "k \<notin> set (keys_of xs) \<Longrightarrow> map_of xs k = None"
  by (simp add: keys_of_def map_of_eq_None_iff)

lemma map_of_None_keys: "map_of xs k = None \<longleftrightarrow> k \<notin> set (keys_of xs)"
  by (simp add: keys_of_def map_of_eq_None_iff)

lemma map_of_middle:
  assumes "below xs n"
  shows "map_of (xs @ (n, e) # ys) = (map_of (xs @ ys))(n \<mapsto> e)"
  using below_notin [OF assms] by (auto simp: map_add_def fun_eq_iff split: option.splits)

lemma map_of_middle_key: "below xs n \<Longrightarrow> map_of (xs @ (n, e) # ys) n = Some e"
  by (simp add: map_of_middle del: map_of_append)

lemma map_of_absent: "below xs n \<Longrightarrow> above ys n \<Longrightarrow> map_of (xs @ ys) n = None"
  using below_notin [of xs n] above_notin [of ys n] by (simp add: map_add_def)

text \<open>The part of a list below, or not below, a bound.\<close>

lemma filter_below [simp]:
  "below xs m \<Longrightarrow> filter (\<lambda>x. fst x < m) xs = xs"
  "below xs m \<Longrightarrow> filter (\<lambda>x. m < fst x) xs = []"
  "below xs m \<Longrightarrow> filter (\<lambda>x. m \<le> fst x) xs = []"
  "below xs m \<Longrightarrow> filter (\<lambda>x. fst x \<le> m) xs = xs"
  by (induction xs) auto

lemma filter_above [simp]:
  "above xs m \<Longrightarrow> filter (\<lambda>x. fst x < m) xs = []"
  "above xs m \<Longrightarrow> filter (\<lambda>x. m < fst x) xs = xs"
  "above xs m \<Longrightarrow> filter (\<lambda>x. m \<le> fst x) xs = xs"
  "above xs m \<Longrightarrow> filter (\<lambda>x. fst x \<le> m) xs = []"
  by (induction xs) auto

text \<open>Keys that are not negative.  The code does not enforce this of port names, which are signed.\<close>

definition nonneg_keys :: "(int \<times> 'a) list \<Rightarrow> bool" where
  "nonneg_keys xs \<longleftrightarrow> (\<forall>k \<in> set (keys_of xs). 0 \<le> k)"

lemma nonneg_keys_simps [simp]:
  "nonneg_keys []"
  "nonneg_keys (x # xs) \<longleftrightarrow> 0 \<le> fst x \<and> nonneg_keys xs"
  "nonneg_keys (xs @ ys) \<longleftrightarrow> nonneg_keys xs \<and> nonneg_keys ys"
  by (auto simp: nonneg_keys_def)

lemma nonneg_below: "nonneg_keys xs \<Longrightarrow> below xs m \<Longrightarrow> m \<le> 0 \<Longrightarrow> xs = []"
  by (cases xs) auto

lemma dom_map_of_keys: "dom (map_of xs) = set (keys_of xs)"
  by (simp add: keys_of_def dom_map_of_conv_image_fst)

section \<open>Arrays\<close>

text \<open>Writing an element of an array: behind its end the write is undefined.\<close>

definition c_set :: "nat \<Rightarrow> 'a \<Rightarrow> 'a list \<Rightarrow> 'a list option" where
  "c_set i v xs = (if i < length xs then Some (xs[i := v]) else None)"

section \<open>Ring indices\<close>

lemma mod_add_neq:
  fixes h :: nat
  assumes "j < k" "k < j + n"
  shows "(h + j) mod n \<noteq> (h + k) mod n"
proof
  assume "(h + j) mod n = (h + k) mod n"
  then have "n dvd (h + k) - (h + j)"
    using assms(1) by (metis add_le_cancel_left less_imp_le mod_eq_dvd_iff_nat)
  with assms show False
    by (auto dest: dvd_imp_le)
qed

section \<open>Counting and finding in tables\<close>

lemma length_filter_update:
  "i < length xs \<Longrightarrow>
   length (filter P (xs[i := y])) + (if P (xs ! i) then 1 else 0) =
   length (filter P xs) + (if P y then 1 else 0)"
proof (induction xs arbitrary: i)
  case (Cons x xs)
  then show ?case by (cases i) auto
qed simp

lemma find_upt_Some:
  "find P [0..<n] = Some i \<longleftrightarrow> i < n \<and> P i \<and> (\<forall>j < i. \<not> P j)"
  by (auto simp: find_Some_iff)

lemma find_upt_None: "find P [0..<n] = None \<longleftrightarrow> (\<forall>j < n. \<not> P j)"
  by (auto simp: find_None_iff)

lemma find_append: "find P (xs @ ys) = (case find P xs of None \<Rightarrow> find P ys | Some x \<Rightarrow> Some x)"
  by (induction xs) auto

lemma find_upt_Suc:
  "find P [0..<Suc n] = (case find P [0..<n] of None \<Rightarrow> if P n then Some n else None | Some x \<Rightarrow> Some x)"
  by (simp add: find_append split: option.splits)

lemma find_upt_cong:
  "(\<And>i. i < n \<Longrightarrow> P i = Q i) \<Longrightarrow> find P [0..<n] = find Q [0..<n]"
  by (rule find_cong) auto

end
