(* ===== verification/Ipc_Splay.thy ===== *)
theory Ipc_Splay
  imports Prelude
begin

text \<open>
  The splay tree of port names, \<^verbatim>\<open>Kernel/mxwl/ipc/ipc_splay.c\<close>.

  A node is the \<^verbatim>\<open>ipc_tree_entry\<close> of \<^verbatim>\<open>compat/ipc/ipc_entry.h\<close>: its two children, its
  name and its payload \<open>'a\<close> (the embedded \<^verbatim>\<open>ipc_entry\<close>; for the code's pointer comparison
  \<^verbatim>\<open>root == entry\<close> the payload carries the identity of the entry).  The tree is kept
  unassembled: \<^verbatim>\<open>ist_root\<close> is the middle tree, and \<^verbatim>\<open>ist_ltree\<close> is a tree with a hole, the
  right child field that \<^verbatim>\<open>ist_ltreep\<close> points to.  A tree with a hole at the end of its right
  spine is the list of the nodes on that spine, from its root to the hole, each with its left
  child; \<^verbatim>\<open>ist_rtree\<close> and \<^verbatim>\<open>ist_rtreep\<close> are the mirror image.  A store through
  \<^verbatim>\<open>*ltreep\<close> fills the hole (\<open>plug_l\<close>), and \<^verbatim>\<open>ist_ltreep == &ist_ltree\<close> says that the list is
  empty.  What the hole holds before it is filled is never read by the code.
\<close>

section \<open>Data\<close>

datatype 'a ite =
    ITE_NULL
  | ITE (ite_lchild: "'a ite") (ite_name: mach_port_t) (ite_entry: 'a) (ite_rchild: "'a ite")

type_synonym 'a lctx = "('a ite \<times> mach_port_t \<times> 'a) list"
type_synonym 'a rctx = "(mach_port_t \<times> 'a \<times> 'a ite) list"

record 'a ipc_splay_tree =
  ist_name :: mach_port_t
  ist_root :: "'a ite"
  ist_ltree :: "'a lctx"
  ist_rtree :: "'a rctx"

definition MACH_PORT_SMALLEST :: mach_port_t where
  "MACH_PORT_SMALLEST = 0"

text \<open>\<^verbatim>\<open>(mach_port_t) ~0\<close>: the name type is a signed \<^verbatim>\<open>int\<close> here, so this is minus one.\<close>

definition MACH_PORT_LARGEST :: mach_port_t where
  "MACH_PORT_LARGEST = - 1"

text \<open>Filling the holes.\<close>

definition plug_l :: "'a lctx \<Rightarrow> 'a ite \<Rightarrow> 'a ite" where
  "plug_l L t = foldr (\<lambda>(l, n, e) t'. ITE l n e t') L t"

definition plug_r :: "'a rctx \<Rightarrow> 'a ite \<Rightarrow> 'a ite" where
  "plug_r R t = foldr (\<lambda>(n, e, r) t'. ITE t' n e r) R t"

section \<open>The top-down splay\<close>

text \<open>
  The macros \<^verbatim>\<open>link_left\<close>, \<^verbatim>\<open>link_right\<close>, \<^verbatim>\<open>rotate_left\<close> and \<^verbatim>\<open>rotate_right\<close>, on the three
  variables \<^verbatim>\<open>tree\<close>, \<^verbatim>\<open>ltreep\<close> and \<^verbatim>\<open>rtreep\<close> of the loop.  The code applies them to nodes only;
  on a null pointer they would fault, which is \<open>None\<close>.
\<close>

type_synonym 'a splay_vars = "'a ite \<times> 'a lctx \<times> 'a rctx"

fun link_left :: "'a splay_vars \<Rightarrow> 'a splay_vars option" where
  "link_left (ITE_NULL, L, R) = None"
| "link_left (ITE l n e r, L, R) = Some (r, L @ [(l, n, e)], R)"

fun link_right :: "'a splay_vars \<Rightarrow> 'a splay_vars option" where
  "link_right (ITE_NULL, L, R) = None"
| "link_right (ITE l n e r, L, R) = Some (l, L, R @ [(n, e, r)])"

fun rotate_left :: "'a splay_vars \<Rightarrow> 'a splay_vars option" where
  "rotate_left (ITE l n e (ITE rl rn re rr), L, R) = Some (ITE (ITE l n e rl) rn re rr, L, R)"
| "rotate_left _ = None"

fun rotate_right :: "'a splay_vars \<Rightarrow> 'a splay_vars option" where
  "rotate_right (ITE (ITE ll ln le lr) n e r, L, R) = Some (ITE ll ln le (ITE lr n e r), L, R)"
| "rotate_right _ = None"

text \<open>
  One pass of the loop body: \<open>Inr\<close> when the loop goes on with new variables, \<open>Inl\<close> when
  it is left (the name is found, or the child to descend to is missing).
\<close>

fun splay_step ::
  "mach_port_t \<Rightarrow> 'a splay_vars \<Rightarrow> ('a splay_vars + 'a splay_vars) option" where
  "splay_step name (ITE_NULL, L, R) = None"
| "splay_step name (ITE l tname e r, L, R) =
     (let v = (ITE l tname e r, L, R) in
      if name = tname then Some (Inl v)
      else if name < tname then
        (if l = ITE_NULL then Some (Inl v)
         else do {
           v \<leftarrow> (if name < ite_name l \<and> ite_lchild l \<noteq> ITE_NULL then rotate_right v else Some v);
           v \<leftarrow> link_right v;
           v \<leftarrow> (if ite_name l < name \<and> ite_rchild l \<noteq> ITE_NULL then link_left v else Some v);
           c_assert (fst v \<noteq> ITE_NULL);
           Some (Inr v)
         })
      else
        (if r = ITE_NULL then Some (Inl v)
         else do {
           v \<leftarrow> (if ite_name r < name \<and> ite_rchild r \<noteq> ITE_NULL then rotate_left v else Some v);
           v \<leftarrow> link_left v;
           v \<leftarrow> (if name < ite_name r \<and> ite_lchild r \<noteq> ITE_NULL then link_right v else Some v);
           c_assert (fst v \<noteq> ITE_NULL);
           Some (Inr v)
         }))"

text \<open>The cases of a step on a node: the name is there, or one side is taken, which may be empty.\<close>

lemma splay_step_cases [case_names found l_end l_node r_end r_node]:
  fixes name n :: mach_port_t and l r :: "'a ite"
  obtains "name = n"
  | "name < n" and "l = ITE_NULL"
  | ll ln le lr where "name < n" and "l = ITE ll ln le lr"
  | "n < name" and "r = ITE_NULL"
  | rl rn re rr where "n < name" and "r = ITE rl rn re rr"
  by (metis ite.exhaust linorder_less_linear)

lemma splay_step_smaller:
  "splay_step name (t, L, R) = Some (Inr (t', L', R')) \<Longrightarrow> size t' < size t"
proof (cases t)
  case (ITE l n e r)
  assume "splay_step name (t, L, R) = Some (Inr (t', L', R'))"
  then show ?thesis
    by (cases rule: splay_step_cases [where name = name and n = n and l = l and r = r]) (auto simp: ITE Let_def split: if_splits)
qed simp

function splay_loop :: "mach_port_t \<Rightarrow> 'a splay_vars \<Rightarrow> 'a splay_vars option" where
  "splay_loop name v =
     (case splay_step name v of
        None \<Rightarrow> None
      | Some (Inl v') \<Rightarrow> Some v'
      | Some (Inr v') \<Rightarrow> splay_loop name v')"
  by pat_completeness auto
termination
  by (relation "measure (\<lambda>(name, v). size (fst v))") (auto dest: splay_step_smaller)

declare splay_loop.simps [simp del]

definition ipc_splay_prim_lookup :: "mach_port_t \<Rightarrow> 'a ite \<Rightarrow> 'a splay_vars option" where
  "ipc_splay_prim_lookup name tree = do {
     c_assert (tree \<noteq> ITE_NULL);
     splay_loop name (tree, [], [])
   }"

text \<open>\<^verbatim>\<open>ipc_splay_prim_assemble\<close>: fill both holes with the children of the middle root.\<close>

fun ipc_splay_prim_assemble :: "'a ite \<Rightarrow> 'a lctx \<Rightarrow> 'a rctx \<Rightarrow> 'a ite option" where
  "ipc_splay_prim_assemble ITE_NULL L R = None"
| "ipc_splay_prim_assemble (ITE l n e r) L R = Some (ITE (plug_l L l) n e (plug_r R r))"

section \<open>The operations\<close>

text \<open>\<^verbatim>\<open>ipc_splay_tree_init\<close> sets the root only; the other fields keep what they held.\<close>

definition ipc_splay_tree_init :: "'a ipc_splay_tree \<Rightarrow> 'a ipc_splay_tree" where
  "ipc_splay_tree_init splay = splay\<lparr>ist_root := ITE_NULL\<rparr>"

text \<open>\<^verbatim>\<open>ipc_splay_tree_pick\<close>: the name and entry at the root, if there is one.\<close>

definition ipc_splay_tree_pick :: "'a ipc_splay_tree \<Rightarrow> (mach_port_t \<times> 'a) option" where
  "ipc_splay_tree_pick splay =
     (case ist_root splay of
        ITE_NULL \<Rightarrow> None
      | ITE l n e r \<Rightarrow> Some (n, e))"

text \<open>
  The common opening of the operations: unless \<^verbatim>\<open>ist_name\<close> already is the name, assemble the
  tree and split it again at the name.  The result is the root of the middle tree and the two
  trees with holes.
\<close>

definition splay_to :: "'a ipc_splay_tree \<Rightarrow> mach_port_t \<Rightarrow> 'a splay_vars option" where
  "splay_to splay name =
     (if ist_name splay \<noteq> name then do {
        root \<leftarrow> ipc_splay_prim_assemble (ist_root splay) (ist_ltree splay) (ist_rtree splay);
        ipc_splay_prim_lookup name root
      }
      else Some (ist_root splay, ist_ltree splay, ist_rtree splay))"

definition ipc_splay_tree_lookup ::
  "'a ipc_splay_tree \<Rightarrow> mach_port_t \<Rightarrow> ('a ipc_splay_tree \<times> 'a option) option" where
  "ipc_splay_tree_lookup splay name =
     (if ist_root splay = ITE_NULL then Some (splay, None)
      else do {
        (root, lt, rt) \<leftarrow> splay_to splay name;
        Some (\<lparr>ist_name = name, ist_root = root, ist_ltree = lt, ist_rtree = rt\<rparr>,
              (if name \<noteq> ite_name root then None else Some (ite_entry root)))
      })"

definition ipc_splay_tree_insert ::
  "'a ipc_splay_tree \<Rightarrow> mach_port_t \<Rightarrow> 'a \<Rightarrow> 'a ipc_splay_tree option" where
  "ipc_splay_tree_insert splay name entry = do {
     (lchild, rchild) \<leftarrow>
       (if ist_root splay = ITE_NULL then Some (ITE_NULL, ITE_NULL)
        else do {
          (root, lt, rt) \<leftarrow> splay_to splay name;
          c_assert (ite_name root \<noteq> name);
          if name < ite_name root then do {
            c_assert (ite_lchild root = ITE_NULL);
            Some (plug_l lt ITE_NULL, plug_r rt root)
          } else do {
            c_assert (ite_rchild root = ITE_NULL);
            Some (plug_l lt root, plug_r rt ITE_NULL)
          }
        });
     Some \<lparr>ist_name = name, ist_root = ITE lchild name entry rchild, ist_ltree = [], ist_rtree = []\<rparr>
   }"

text \<open>Making a tree with a given root the assembled tree; a null root makes it empty, and then no
  other field is read.\<close>

definition splay_of_root :: "'a ipc_splay_tree \<Rightarrow> 'a ite \<Rightarrow> 'a ipc_splay_tree" where
  "splay_of_root splay root =
     (if root \<noteq> ITE_NULL
      then \<lparr>ist_name = ite_name root, ist_root = root, ist_ltree = [], ist_rtree = []\<rparr>
      else splay\<lparr>ist_root := ITE_NULL\<rparr>)"

text \<open>
  \<^verbatim>\<open>ipc_splay_tree_delete\<close>.  The two subtrees around the found node are joined by splaying
  \<open>MACH_PORT_LARGEST\<close> to the root of the left one; the code then asserts that this root
  has no right child and hangs the right subtree there.
\<close>

definition ipc_splay_tree_delete ::
  "'a ipc_splay_tree \<Rightarrow> mach_port_t \<Rightarrow> 'a \<Rightarrow> 'a ipc_splay_tree option" where
  "ipc_splay_tree_delete splay name entry = do {
     c_assert (ist_root splay \<noteq> ITE_NULL);
     (root, lt, rt) \<leftarrow> splay_to splay name;
     c_assert (ite_name root = name);
     c_assert (ite_entry root = entry);
     let ltree = plug_l lt (ite_lchild root);
     let saved = plug_r rt (ite_rchild root);
     root \<leftarrow>
       (if ltree = ITE_NULL then Some saved
        else if saved \<noteq> ITE_NULL then do {
          (root, lt, rt) \<leftarrow> ipc_splay_prim_lookup MACH_PORT_LARGEST ltree;
          root \<leftarrow> ipc_splay_prim_assemble root lt rt;
          c_assert (ite_rchild root = ITE_NULL);
          Some (ITE (ite_lchild root) (ite_name root) (ite_entry root) saved)
        }
        else Some ltree);
     Some (splay_of_root splay root)
   }"

text \<open>
  \<^verbatim>\<open>ipc_splay_tree_split\<close>: the entries below the name move to \<open>small\<close>.  The result is
  the pair of the splayed tree and \<open>small\<close>.
\<close>

definition ipc_splay_tree_split ::
  "'a ipc_splay_tree \<Rightarrow> mach_port_t \<Rightarrow> 'a ipc_splay_tree \<Rightarrow>
   ('a ipc_splay_tree \<times> 'a ipc_splay_tree) option" where
  "ipc_splay_tree_split splay name small0 =
     (let small = ipc_splay_tree_init small0 in
      if ist_root splay = ITE_NULL then Some (splay, small)
      else do {
        (root, lt, rt) \<leftarrow> splay_to splay name;
        if ite_name root < name then do {
          let ltree = plug_l lt (ite_lchild root);
          let rtree = plug_r rt ITE_NULL;
          c_assert (ite_rchild root = ITE_NULL);
          Some (splay_of_root splay rtree,
                splay_of_root small (ITE ltree (ite_name root) (ite_entry root) (ite_rchild root)))
        } else do {
          let ltree = plug_l lt (ite_lchild root);
          Some (\<lparr>ist_name = name,
                 ist_root = ITE ITE_NULL (ite_name root) (ite_entry root) (ite_rchild root),
                 ist_ltree = [], ist_rtree = rt\<rparr>,
                splay_of_root small ltree)
        }
      })"

text \<open>\<^verbatim>\<open>ipc_splay_tree_join\<close>: the entries of \<open>small\<close>, all below those of the tree, go under
  its smallest entry.\<close>

definition ipc_splay_tree_join ::
  "'a ipc_splay_tree \<Rightarrow> 'a ipc_splay_tree \<Rightarrow> ('a ipc_splay_tree \<times> 'a ipc_splay_tree) option" where
  "ipc_splay_tree_join splay small =
     (if ist_root small = ITE_NULL then Some (splay, small)
      else do {
        sroot \<leftarrow> ipc_splay_prim_assemble (ist_root small) (ist_ltree small) (ist_rtree small);
        root \<leftarrow>
          (if ist_root splay = ITE_NULL then Some sroot
           else do {
             (root, lt, rt) \<leftarrow> splay_to splay MACH_PORT_SMALLEST;
             root \<leftarrow> ipc_splay_prim_assemble root lt rt;
             c_assert (ite_lchild root = ITE_NULL);
             c_assert (ite_name sroot < ite_name root);
             Some (ITE sroot (ite_name root) (ite_entry root) (ite_rchild root))
           });
        Some (splay_of_root splay root, small\<lparr>ist_root := ITE_NULL\<rparr>)
      })"

text \<open>\<^verbatim>\<open>ipc_splay_tree_bounds\<close>: the nodes that hold the two holes are the neighbours of the
  name in the order of the tree.\<close>

definition ipc_splay_tree_bounds ::
  "'a ipc_splay_tree \<Rightarrow> mach_port_t \<Rightarrow>
   ('a ipc_splay_tree \<times> mach_port_t \<times> mach_port_t) option" where
  "ipc_splay_tree_bounds splay name =
     (if ist_root splay = ITE_NULL then Some (splay, MACH_PORT_LARGEST, MACH_PORT_SMALLEST)
      else do {
        (root, lt, rt) \<leftarrow> splay_to splay name;
        let rname = ite_name root;
        let lower = (if rname \<le> name then rname
                     else if lt = [] then MACH_PORT_LARGEST
                     else (case last lt of (l, n, e) \<Rightarrow> n));
        let upper = (if name \<le> rname then rname
                     else if rt = [] then MACH_PORT_SMALLEST
                     else (case last rt of (n, e, r) \<Rightarrow> n));
        Some (\<lparr>ist_name = name, ist_root = root, ist_ltree = lt, ist_rtree = rt\<rparr>, lower, upper)
      })"

section \<open>The abstract value and the invariant\<close>

text \<open>The bindings of a tree in symmetric order, and of the unassembled parts.\<close>

fun inorder :: "'a ite \<Rightarrow> (mach_port_t \<times> 'a) list" where
  "inorder ITE_NULL = []"
| "inorder (ITE l n e r) = inorder l @ (n, e) # inorder r"

definition l_list :: "'a lctx \<Rightarrow> (mach_port_t \<times> 'a) list" where
  "l_list L = concat (map (\<lambda>(l, n, e). inorder l @ [(n, e)]) L)"

definition r_list :: "'a rctx \<Rightarrow> (mach_port_t \<times> 'a) list" where
  "r_list R = concat (map (\<lambda>(n, e, r). (n, e) # inorder r) (rev R))"

fun vars_list :: "'a splay_vars \<Rightarrow> (mach_port_t \<times> 'a) list" where
  "vars_list (t, L, R) = l_list L @ inorder t @ r_list R"

definition entries :: "'a ipc_splay_tree \<Rightarrow> (mach_port_t \<times> 'a) list" where
  "entries s = (if ist_root s = ITE_NULL then []
                else vars_list (ist_root s, ist_ltree s, ist_rtree s))"

definition tree_map :: "'a ipc_splay_tree \<Rightarrow> mach_port_t \<Rightarrow> 'a option" where
  "tree_map s = map_of (entries s)"

fun around :: "mach_port_t \<Rightarrow> 'a splay_vars \<Rightarrow> bool" where
  "around name (t, L, R) \<longleftrightarrow> below (l_list L) name \<and> above (r_list R) name"

fun settled :: "mach_port_t \<Rightarrow> 'a ite \<Rightarrow> bool" where
  "settled name ITE_NULL = False"
| "settled name (ITE l n e r) \<longleftrightarrow> name = n \<or> name < n \<and> l = ITE_NULL \<or> n < name \<and> r = ITE_NULL"

text \<open>The invariant of the code's unassembled form: the bindings are ordered, and the tree is split
  at \<^verbatim>\<open>ist_name\<close> as a lookup of that name would leave it, so that the lookup can be skipped.\<close>

definition splay_inv :: "'a ipc_splay_tree \<Rightarrow> bool" where
  "splay_inv s \<longleftrightarrow>
     ist_root s = ITE_NULL \<or>
     ksorted (entries s) \<and>
     around (ist_name s) (ist_root s, ist_ltree s, ist_rtree s) \<and>
     settled (ist_name s) (ist_root s)"

lemma l_list_simps [simp]:
  "l_list [] = []"
  "l_list (L @ [(l, n, e)]) = l_list L @ inorder l @ [(n, e)]"
  by (simp_all add: l_list_def)

lemma r_list_simps [simp]:
  "r_list [] = []"
  "r_list (R @ [(n, e, r)]) = (n, e) # inorder r @ r_list R"
  by (simp_all add: r_list_def)

lemma l_list_empty [simp]: "l_list L = [] \<longleftrightarrow> L = []"
  by (cases L rule: rev_cases) auto

lemma r_list_empty [simp]: "r_list R = [] \<longleftrightarrow> R = []"
  by (cases R rule: rev_cases) auto

lemma inorder_empty [simp]: "inorder t = [] \<longleftrightarrow> t = ITE_NULL"
  by (cases t) auto

lemma plug_simps [simp]:
  "plug_l [] t = t" "plug_r [] t = t"
  by (simp_all add: plug_l_def plug_r_def)

lemma inorder_plug_l [simp]: "inorder (plug_l L t) = l_list L @ inorder t"
  by (induction L) (auto simp: plug_l_def l_list_def)

lemma inorder_plug_r [simp]: "inorder (plug_r R t) = inorder t @ r_list R"
  by (induction R) (auto simp: plug_r_def r_list_def)

lemma plug_empty [simp]:
  "plug_l L t = ITE_NULL \<longleftrightarrow> L = [] \<and> t = ITE_NULL"
  "plug_r R t = ITE_NULL \<longleftrightarrow> R = [] \<and> t = ITE_NULL"
  using inorder_plug_l [of L t] inorder_plug_r [of R t]
  by (auto simp flip: inorder_empty simp del: inorder_plug_l inorder_plug_r)

section \<open>The splay itself\<close>

lemma splay_step_not_None: "t \<noteq> ITE_NULL \<Longrightarrow> splay_step name (t, L, R) \<noteq> None"
proof (cases t)
  case (ITE l n e r)
  then show ?thesis
    by (cases rule: splay_step_cases [where name = name and n = n and l = l and r = r]) (simp_all add: Let_def)
qed simp

lemma splay_step_Inr:
  assumes "splay_step name (t, L, R) = Some (Inr v')"
    and "ksorted (vars_list (t, L, R))" and "around name (t, L, R)"
  shows "vars_list v' = vars_list (t, L, R) \<and> around name v' \<and> fst v' \<noteq> ITE_NULL"
proof (cases t)
  case (ITE l n e r)
  from assms show ?thesis
    by (cases rule: splay_step_cases [where name = name and n = n and l = l and r = r])
       (auto simp: ITE Let_def not_less split: if_splits
         intro: below_less above_less below_trans above_trans)
qed (use assms in simp)

lemma splay_step_Inl:
  assumes "splay_step name (t, L, R) = Some (Inl v')"
  shows "v' = (t, L, R) \<and> settled name t"
proof (cases t)
  case (ITE l n e r)
  from assms show ?thesis
    by (cases rule: splay_step_cases [where name = name and n = n and l = l and r = r]) (auto simp: ITE Let_def split: if_splits)
qed (use assms in simp)

lemma splay_loop_correct:
  assumes "fst v \<noteq> ITE_NULL" and "ksorted (vars_list v)" and "around name v"
  shows "\<exists>v'. splay_loop name v = Some v' \<and> vars_list v' = vars_list v \<and>
              around name v' \<and> settled name (fst v')"
  using assms
proof (induction name v rule: splay_loop.induct)
  case (1 name v)
  obtain t L R where v: "v = (t, L, R)" by (cases v)
  from 1(2) splay_step_not_None [of t name L R] obtain w where w: "splay_step name v = Some w"
    by (auto simp: v)
  show ?case
  proof (cases w)
    case (Inl v')
    with w have "v' = v \<and> settled name (fst v)"
      by (simp add: v splay_step_Inl)
    with w Inl 1(4) show ?thesis
      by (simp add: splay_loop.simps [of name v])
  next
    case (Inr v')
    with w splay_step_Inr [of name t L R v'] 1(3,4)
    have v': "vars_list v' = vars_list v" "around name v'" "fst v' \<noteq> ITE_NULL"
      by (auto simp: v)
    with 1(1) [OF w Inr] 1(3) w Inr show ?thesis
      by (simp add: splay_loop.simps [of name v])
  qed
qed

lemma assemble_inorder:
  "t \<noteq> ITE_NULL \<Longrightarrow> \<exists>t'. ipc_splay_prim_assemble t L R = Some t' \<and> t' \<noteq> ITE_NULL \<and>
     inorder t' = vars_list (t, L, R)"
  by (cases t) auto

lemma prim_lookup_correct:
  assumes "t \<noteq> ITE_NULL" and "ksorted (inorder t)"
  shows "\<exists>l n e r L R. ipc_splay_prim_lookup name t = Some (ITE l n e r, L, R) \<and>
           vars_list (ITE l n e r, L, R) = inorder t \<and>
           around name (ITE l n e r, L, R) \<and> settled name (ITE l n e r)"
proof -
  from assms splay_loop_correct [of "(t, [], [])" name] obtain u L R where
    "splay_loop name (t, [], []) = Some (u, L, R)" "vars_list (u, L, R) = inorder t"
    "around name (u, L, R)" "settled name u"
    by auto
  with assms(1) show ?thesis
    by (cases u) (auto simp: ipc_splay_prim_lookup_def)
qed

lemma entries_ksorted: "splay_inv s \<Longrightarrow> ksorted (entries s)"
  by (auto simp: splay_inv_def entries_def)

lemma splay_to_correct:
  assumes "splay_inv s" and "ist_root s \<noteq> ITE_NULL"
  obtains l n e r L R where "splay_to s name = Some (ITE l n e r, L, R)"
    and "entries s = l_list L @ inorder l @ (n, e) # inorder r @ r_list R"
    and "below (l_list L) name" and "above (r_list R) name"
    and "settled name (ITE l n e r)"
proof (cases "ist_name s = name")
  case True
  with assms that show ?thesis
    by (cases "ist_root s") (auto simp: splay_inv_def splay_to_def entries_def)
next
  case False
  from assms(2) assemble_inorder [of "ist_root s" "ist_ltree s" "ist_rtree s"]
  obtain t where t: "ipc_splay_prim_assemble (ist_root s) (ist_ltree s) (ist_rtree s) = Some t"
    "t \<noteq> ITE_NULL" "inorder t = entries s"
    by (auto simp: entries_def)
  with prim_lookup_correct [of t name] entries_ksorted [OF assms(1)] False that
  show ?thesis
    by (fastforce simp: splay_to_def)
qed

lemma splay_of_root_inv:
  "ksorted (inorder t) \<Longrightarrow> splay_inv (splay_of_root s t) \<and> entries (splay_of_root s t) = inorder t"
  by (cases t) (auto simp: splay_of_root_def splay_inv_def entries_def)

section \<open>The operations against the abstract map\<close>

text \<open>What the code finds after it has splayed a name: the name itself at the root, or the gap
  where it belongs on one side of the root.\<close>

lemma splay_to_cases [consumes 2, case_names found left right]:
  assumes inv: "splay_inv s" and root: "ist_root s \<noteq> ITE_NULL"
  obtains l e r L R where "splay_to s name = Some (ITE l name e r, L, R)"
      "entries s = l_list L @ inorder l @ (name, e) # inorder r @ r_list R"
      "below (l_list L) name" "below (inorder l) name"
      "above (inorder r) name" "above (r_list R) name"
  | n e r L R where "splay_to s name = Some (ITE ITE_NULL n e r, L, R)" "name < n"
      "entries s = l_list L @ (n, e) # inorder r @ r_list R"
      "below (l_list L) name" "above (inorder r) name" "above (r_list R) name"
  | l n e L R where "splay_to s name = Some (ITE l n e ITE_NULL, L, R)" "n < name"
      "entries s = l_list L @ inorder l @ (n, e) # r_list R"
      "below (l_list L) name" "below (inorder l) name" "above (r_list R) name"
proof -
  obtain l n e r L R where w: "splay_to s name = Some (ITE l n e r, L, R)"
    "entries s = l_list L @ inorder l @ (n, e) # inorder r @ r_list R"
    "below (l_list L) name" "above (r_list R) name" "settled name (ITE l n e r)"
    using splay_to_correct [OF inv root] .
  from w(2) entries_ksorted [OF inv] have "below (inorder l) n" "above (inorder r) n"
    by auto
  with w that show ?thesis
    by (auto intro: below_less above_less)
qed

lemma lookup_in_map:
  assumes "splay_inv s" "ist_root s \<noteq> ITE_NULL" "splay_to s name = Some (t, L, R)"
  shows "tree_map s name = (if name = ite_name t then Some (ite_entry t) else None)"
  using assms(1,2)
proof (cases rule: splay_to_cases [where name = name])
  case (found l e r L R)
  from found(3,4) have "below (l_list L @ inorder l) name" by simp
  from map_of_middle_key [OF this, of e "inorder r @ r_list R"] found(1,2) assms(3) show ?thesis
    by (auto simp: tree_map_def)
next
  case (left n e r L R)
  with map_of_absent [of "l_list L" name "(n, e) # inorder r @ r_list R"] assms(3) show ?thesis
    by (auto simp: tree_map_def)
next
  case (right l n e L R)
  with map_of_absent [of "l_list L @ inorder l @ [(n, e)]" name "r_list R"] assms(3) show ?thesis
    by (auto simp: tree_map_def)
qed

text \<open>Leaving the tree split at the name is a state that satisfies the invariant.\<close>

lemma splay_to_inv:
  assumes "splay_inv s" "ist_root s \<noteq> ITE_NULL" "splay_to s name = Some (t, L, R)"
  shows "splay_inv \<lparr>ist_name = name, ist_root = t, ist_ltree = L, ist_rtree = R\<rparr> \<and>
         entries \<lparr>ist_name = name, ist_root = t, ist_ltree = L, ist_rtree = R\<rparr> = entries s"
proof -
  obtain l n e r L' R' where w: "splay_to s name = Some (ITE l n e r, L', R')"
    "entries s = l_list L' @ inorder l @ (n, e) # inorder r @ r_list R'"
    "below (l_list L') name" "above (r_list R') name" "settled name (ITE l n e r)"
    using splay_to_correct [OF assms(1,2)] .
  with assms(3) have "t = ITE l n e r" "L' = L" "R' = R" by auto
  with w(2-) entries_ksorted [OF assms(1)] show ?thesis
    unfolding splay_inv_def entries_def [of "\<lparr>ist_name = _, ist_root = _, ist_ltree = _, ist_rtree = _\<rparr>"]
    by simp
qed

lemma splay_to_defined:
  assumes "splay_inv s" "ist_root s \<noteq> ITE_NULL"
  shows "\<exists>t L R. splay_to s name = Some (t, L, R)"
  by (rule splay_to_correct [OF assms, of name]) blast

lemma lookup_correct:
  assumes "splay_inv s"
  shows "\<exists>s'. ipc_splay_tree_lookup s name = Some (s', tree_map s name) \<and>
              splay_inv s' \<and> entries s' = entries s"
proof (cases "ist_root s = ITE_NULL")
  case True
  with assms show ?thesis
    by (simp add: ipc_splay_tree_lookup_def tree_map_def entries_def)
next
  case False
  with assms splay_to_defined [of s name] obtain t L R where w: "splay_to s name = Some (t, L, R)"
    by blast
  with splay_to_inv [OF assms False w] lookup_in_map [OF assms False w] False show ?thesis
    by (simp add: ipc_splay_tree_lookup_def)
qed

lemma insert_correct:
  assumes "splay_inv s" and "tree_map s name = None"
  shows "\<exists>s'. ipc_splay_tree_insert s name e = Some s' \<and> splay_inv s' \<and>
              tree_map s' = (tree_map s)(name \<mapsto> e) \<and>
              length (entries s') = Suc (length (entries s))"
proof (cases "ist_root s = ITE_NULL")
  case True
  with assms show ?thesis
    by (simp add: ipc_splay_tree_insert_def tree_map_def entries_def splay_inv_def)
next
  case False
  from assms(1) False show ?thesis
  proof (cases rule: splay_to_cases [where name = name])
    case (found l e' r L R)
    with lookup_in_map [OF assms(1) False found(1)] assms(2) show ?thesis by simp
  next
    case (left n e' r L R)
    let ?t = "ITE (plug_l L ITE_NULL) name e (plug_r R (ITE ITE_NULL n e' r))"
    have 1: "ipc_splay_tree_insert s name e =
        Some \<lparr>ist_name = name, ist_root = ?t, ist_ltree = [], ist_rtree = []\<rparr>"
      using False left(1,2) by (simp add: ipc_splay_tree_insert_def)
    have 2: "ksorted (inorder ?t)"
      using left entries_ksorted [OF assms(1)] by (auto intro: cross_between)
    have 3: "map_of (inorder ?t) = (tree_map s)(name \<mapsto> e)"
      using map_of_middle [OF left(4), of e "(n, e') # inorder r @ r_list R"]
      by (simp add: tree_map_def left(3) del: map_of_append)
    from 1 2 3 left(3) show ?thesis
      by (simp add: splay_inv_def tree_map_def entries_def [of "\<lparr>ist_name = _, ist_root = _, ist_ltree = _, ist_rtree = _\<rparr>"])
  next
    case (right l n e' L R)
    let ?t = "ITE (plug_l L (ITE l n e' ITE_NULL)) name e (plug_r R ITE_NULL)"
    have 1: "ipc_splay_tree_insert s name e =
        Some \<lparr>ist_name = name, ist_root = ?t, ist_ltree = [], ist_rtree = []\<rparr>"
      using False right(1,2) by (simp add: ipc_splay_tree_insert_def)
    have 2: "ksorted (inorder ?t)"
      using right entries_ksorted [OF assms(1)] by (auto intro: cross_between)
    have 3: "map_of (inorder ?t) = (tree_map s)(name \<mapsto> e)"
      using map_of_middle [of "l_list L @ inorder l @ [(n, e')]" name e "r_list R"] right(2,4,5)
      by (simp add: tree_map_def right(3) del: map_of_append)
    from 1 2 3 right(3) show ?thesis
      by (simp add: splay_inv_def tree_map_def entries_def [of "\<lparr>ist_name = _, ist_root = _, ist_ltree = _, ist_rtree = _\<rparr>"])
  qed
qed

text \<open>An insertion of a name that is present stops at the code's assertion.\<close>

lemma insert_present:
  assumes "splay_inv s" and "tree_map s name \<noteq> None"
  shows "ipc_splay_tree_insert s name e = None"
proof -
  from assms(2) have root: "ist_root s \<noteq> ITE_NULL"
    by (auto simp: tree_map_def entries_def)
  from splay_to_defined [OF assms(1) this] obtain t L R where w: "splay_to s name = Some (t, L, R)"
    by blast
  with lookup_in_map [OF assms(1) root w] assms(2) root show ?thesis
    by (auto simp: ipc_splay_tree_insert_def split: if_splits)
qed

text \<open>
  Whether the two holes at the root of a splayed tree are closed, that is, whether nothing lies on the one
  or the other side of the root, in terms of the entries: \<open>L\<close> and \<open>R\<close> are those of the spines, \<open>I\<close> and \<open>J\<close>
  those of the subtrees.
\<close>

lemma nothing_right:
  assumes "ksorted (L @ inorder l @ (n, e) # inorder r @ R)" "below L X" "above R X" "settled X (ITE l n e r)"
  defines "xs \<equiv> L @ inorder l @ (n, e) # inorder r @ R"
  shows "filter (\<lambda>x. X < fst x) xs = [] \<or> length xs = 1 \<Longrightarrow> inorder r @ R = []"
    and "inorder r @ R = [] \<Longrightarrow> length (filter (\<lambda>x. X < fst x) xs) \<le> 1 \<and>
      (filter (\<lambda>x. X < fst x) xs = [] \<or> X \<notin> set (keys_of xs))"
proof -
  consider "X = n" | "X < n" "l = ITE_NULL" | "n < X" "r = ITE_NULL" using assms(4) by auto
  note c = this
  show "filter (\<lambda>x. X < fst x) xs = [] \<or> length xs = 1 \<Longrightarrow> inorder r @ R = []"
    using assms(1-3) by (cases rule: c) (auto simp: xs_def)
  show "inorder r @ R = [] \<Longrightarrow> length (filter (\<lambda>x. X < fst x) xs) \<le> 1 \<and>
      (filter (\<lambda>x. X < fst x) xs = [] \<or> X \<notin> set (keys_of xs))"
    using assms(1,2) below_notin [of L X] below_trans [of "inorder l" n X]
    by (cases rule: c) (auto simp: xs_def)
qed

lemma nothing_left:
  assumes "ksorted (L @ inorder l @ (n, e) # inorder r @ R)" "below L X" "above R X" "settled X (ITE l n e r)"
  defines "xs \<equiv> L @ inorder l @ (n, e) # inorder r @ R"
  shows "filter (\<lambda>x. fst x < X) xs = [] \<or> length xs = 1 \<Longrightarrow> L @ inorder l = []"
    and "L @ inorder l = [] \<Longrightarrow> length (filter (\<lambda>x. fst x < X) xs) \<le> 1 \<and>
      (filter (\<lambda>x. fst x < X) xs = [] \<or> X \<notin> set (keys_of xs))"
proof -
  consider "X = n" | "X < n" "l = ITE_NULL" | "n < X" "r = ITE_NULL" using assms(4) by auto
  note c = this
  show "filter (\<lambda>x. fst x < X) xs = [] \<or> length xs = 1 \<Longrightarrow> L @ inorder l = []"
    using assms(1-3) by (cases rule: c) (auto simp: xs_def)
  show "L @ inorder l = [] \<Longrightarrow> length (filter (\<lambda>x. fst x < X) xs) \<le> 1 \<and>
      (filter (\<lambda>x. fst x < X) xs = [] \<or> X \<notin> set (keys_of xs))"
    using assms(1,3) above_notin [of R X] above_trans [of "inorder r" n X]
    by (cases rule: c) (auto simp: xs_def)
qed

text \<open>
  Splaying \<open>MACH_PORT_LARGEST\<close> in a tree of names that are not negative brings the \<^emph>\<open>smallest\<close> name to the
  root, because that constant is minus one and the names are signed.
\<close>

lemma splay_largest_is_leftmost:
  assumes "t \<noteq> ITE_NULL" "ksorted (inorder t)" "nonneg_keys (inorder t)"
  obtains n e r R where "ipc_splay_prim_lookup MACH_PORT_LARGEST t = Some (ITE ITE_NULL n e r, [], R)"
    and "inorder t = (n, e) # inorder r @ r_list R"
proof -
  obtain l n e r L R where w: "ipc_splay_prim_lookup MACH_PORT_LARGEST t = Some (ITE l n e r, L, R)"
    "vars_list (ITE l n e r, L, R) = inorder t"
    "around MACH_PORT_LARGEST (ITE l n e r, L, R)" "settled MACH_PORT_LARGEST (ITE l n e r)"
    using prim_lookup_correct [OF assms(1,2), of MACH_PORT_LARGEST] by blast
  from w(2) [symmetric] assms(3) have nn: "nonneg_keys (l_list L)" "0 \<le> n"
    by auto
  with w(3) have "L = []"
    using nonneg_below [of "l_list L" "- 1"] by (simp add: MACH_PORT_LARGEST_def)
  moreover from w(4) nn(2) have "l = ITE_NULL"
    by (auto simp: MACH_PORT_LARGEST_def)
  ultimately show ?thesis
    using that w by simp
qed

text \<open>What a deletion does, in terms of the entries below and above the name and, among those below,
  the ones above \<open>MACH_PORT_LARGEST\<close>.\<close>

lemma delete_outcome:
  assumes inv: "splay_inv s" and present: "tree_map s name = Some e"
  defines "A \<equiv> filter (\<lambda>x. fst x < name) (entries s)"
    and "B \<equiv> filter (\<lambda>x. name < fst x) (entries s)"
  defines "hi \<equiv> filter (\<lambda>x. MACH_PORT_LARGEST < fst x) A"
  shows "B = [] \<or> hi = [] \<or> length A = 1 \<Longrightarrow> ipc_splay_tree_delete s name e \<noteq> None"
    and "B \<noteq> [] \<Longrightarrow> 1 < length hi \<or> hi \<noteq> [] \<and> MACH_PORT_LARGEST \<in> set (keys_of A) \<Longrightarrow>
      ipc_splay_tree_delete s name e = None"
    and "ipc_splay_tree_delete s name e = Some s' \<Longrightarrow> splay_inv s' \<and> entries s' = A @ B"
proof -
  have root: "ist_root s \<noteq> ITE_NULL"
    using present by (auto simp: tree_map_def entries_def)
  obtain l e' r L R where found: "splay_to s name = Some (ITE l name e' r, L, R)"
      "entries s = l_list L @ inorder l @ (name, e') # inorder r @ r_list R"
      "below (l_list L) name" "below (inorder l) name" "above (inorder r) name" "above (r_list R) name"
    using inv root lookup_in_map [OF inv root] present by (cases rule: splay_to_cases [where name = name]) auto
  let ?lt = "plug_l L l" and ?sv = "plug_r R r"
  have e: "e' = e"
    using lookup_in_map [OF inv root found(1)] present by simp
  have AB: "A = inorder ?lt" "B = inorder ?sv"
    using found(2-) by (simp_all add: A_def B_def)
  have ks: "ksorted (A @ B)" and ksA: "ksorted A"
    using entries_ksorted [OF inv] found(2-) unfolding AB by auto
  note step = root found(1) e
  have "(B = [] \<or> hi = [] \<or> length A = 1 \<longrightarrow> ipc_splay_tree_delete s name e \<noteq> None) \<and>
    (B \<noteq> [] \<and> (1 < length hi \<or> hi \<noteq> [] \<and> MACH_PORT_LARGEST \<in> set (keys_of A)) \<longrightarrow>
      ipc_splay_tree_delete s name e = None) \<and>
    (\<forall>s'. ipc_splay_tree_delete s name e = Some s' \<longrightarrow> splay_inv s' \<and> entries s' = A @ B)"
  proof (cases "?lt = ITE_NULL \<or> ?sv = ITE_NULL")
    case True
    with AB ks step splay_of_root_inv [of ?lt s] splay_of_root_inv [of ?sv s] show ?thesis
      by (cases "?lt = ITE_NULL") (auto simp: ipc_splay_tree_delete_def Let_def hi_def)
  next
    case False
    with ksA AB obtain l2 n2 e2 r2 L2 R2 where
      w: "ipc_splay_prim_lookup MACH_PORT_LARGEST ?lt = Some (ITE l2 n2 e2 r2, L2, R2)"
      "A = l_list L2 @ inorder l2 @ (n2, e2) # inorder r2 @ r_list R2"
      "below (l_list L2) MACH_PORT_LARGEST" "above (r_list R2) MACH_PORT_LARGEST" "settled MACH_PORT_LARGEST (ITE l2 n2 e2 r2)"
      using prim_lookup_correct [of ?lt MACH_PORT_LARGEST] by fastforce
    have closed: "plug_r R2 r2 = ITE_NULL \<longleftrightarrow> inorder r2 @ r_list R2 = []"
      using inorder_plug_r [of R2 r2] by (simp flip: inorder_empty)
    note right = nothing_right [OF ksA [unfolded w(2)] w(3-5), folded w(2) hi_def]
    have "entries (splay_of_root s (ITE (plug_l L2 l2) n2 e2 ?sv)) = A @ B \<and>
        splay_inv (splay_of_root s (ITE (plug_l L2 l2) n2 e2 ?sv))" if "plug_r R2 r2 = ITE_NULL"
      using splay_of_root_inv [of "ITE (plug_l L2 l2) n2 e2 ?sv" s] ks that w(2) closed AB by simp
    moreover have "ipc_splay_tree_delete s name e =
        (if plug_r R2 r2 = ITE_NULL then Some (splay_of_root s (ITE (plug_l L2 l2) n2 e2 ?sv)) else None)"
      using w(1) False step by (auto simp: ipc_splay_tree_delete_def Let_def)
    moreover have "B \<noteq> []" using False AB by (auto simp flip: inorder_empty)
    ultimately show ?thesis using right unfolding closed by auto
  qed
  then show "B = [] \<or> hi = [] \<or> length A = 1 \<Longrightarrow> ipc_splay_tree_delete s name e \<noteq> None"
    and "B \<noteq> [] \<Longrightarrow> 1 < length hi \<or> hi \<noteq> [] \<and> MACH_PORT_LARGEST \<in> set (keys_of A) \<Longrightarrow>
      ipc_splay_tree_delete s name e = None"
    and "ipc_splay_tree_delete s name e = Some s' \<Longrightarrow> splay_inv s' \<and> entries s' = A @ B"
    by blast+
qed

text \<open>For names that are not negative the outcome depends on the entries alone.\<close>

lemma delete_correct:
  assumes inv: "splay_inv s" and nn: "nonneg_keys (entries s)"
    and present: "tree_map s name = Some e"
  defines "A \<equiv> filter (\<lambda>x. fst x < name) (entries s)"
    and "B \<equiv> filter (\<lambda>x. name < fst x) (entries s)"
  shows "if B = [] \<or> length A \<le> 1
         then \<exists>s'. ipc_splay_tree_delete s name e = Some s' \<and> splay_inv s' \<and> entries s' = A @ B
         else ipc_splay_tree_delete s name e = None"
proof -
  have "filter (\<lambda>x. MACH_PORT_LARGEST < fst x) A = A"
    using nn by (intro filter_True) (auto simp: A_def nonneg_keys_def keys_of_def MACH_PORT_LARGEST_def)
  note hi = this
  note d = delete_outcome [OF inv present, folded A_def B_def, unfolded hi]
  show ?thesis
  proof (cases "B = [] \<or> length A \<le> 1")
    case True
    then have "B = [] \<or> A = [] \<or> length A = 1" by (cases A) auto
    with d(1) obtain s' where "ipc_splay_tree_delete s name e = Some s'" by blast
    with d(3) True show ?thesis by auto
  next
    case False
    then have "ipc_splay_tree_delete s name e = None" by (intro d(2)) auto
    with False show ?thesis by simp
  qed
qed

lemma delete_absent:
  assumes "splay_inv s" and "tree_map s name \<noteq> Some e"
  shows "ipc_splay_tree_delete s name e = None"
proof (cases "ist_root s = ITE_NULL")
  case True
  then show ?thesis by (simp add: ipc_splay_tree_delete_def)
next
  case False
  with assms(1) splay_to_defined [of s name] obtain t L R where w: "splay_to s name = Some (t, L, R)"
    by blast
  with lookup_in_map [OF assms(1) False w] assms(2) False show ?thesis
    by (cases "ite_name t = name"; cases "ite_entry t = e") (auto simp: ipc_splay_tree_delete_def)
qed

lemma split_correct:
  assumes inv: "splay_inv s"
  shows "\<exists>s' sm. ipc_splay_tree_split s name small0 = Some (s', sm) \<and> splay_inv s' \<and> splay_inv sm \<and>
           entries sm = filter (\<lambda>x. fst x < name) (entries s) \<and>
           entries s' = filter (\<lambda>x. name \<le> fst x) (entries s)"
proof (cases "ist_root s = ITE_NULL")
  case True
  with inv show ?thesis
    by (simp add: ipc_splay_tree_split_def ipc_splay_tree_init_def splay_inv_def entries_def)
next
  case root: False
  note ks = entries_ksorted [OF inv]
  from inv root show ?thesis
  proof (cases rule: splay_to_cases [where name = name])
    case (found l e r L R)
    with root ks splay_of_root_inv [of "plug_l L l"] show ?thesis
      by (auto simp: ipc_splay_tree_split_def Let_def)
         (auto simp: splay_inv_def entries_def [of "\<lparr>ist_name = _, ist_root = _, ist_ltree = _, ist_rtree = _\<rparr>"])
  next
    case (left n e r L R)
    with root ks splay_of_root_inv [of "plug_l L ITE_NULL"] show ?thesis
      by (auto simp: ipc_splay_tree_split_def Let_def)
         (auto simp: splay_inv_def entries_def [of "\<lparr>ist_name = _, ist_root = _, ist_ltree = _, ist_rtree = _\<rparr>"])
  next
    case (right l n e L R)
    with root ks splay_of_root_inv [of "ITE (plug_l L l) n e ITE_NULL"]
      splay_of_root_inv [of "plug_r R ITE_NULL"] show ?thesis
      by (auto simp: ipc_splay_tree_split_def Let_def)
  qed
qed

text \<open>What joining a smaller tree does, in terms of the entries below \<open>MACH_PORT_SMALLEST\<close>.\<close>

lemma join_outcome:
  assumes inv: "splay_inv s" "splay_inv small" and sep: "cross (entries small) (entries s)"
  defines "lo \<equiv> filter (\<lambda>x. fst x < MACH_PORT_SMALLEST) (entries s)"
  shows "entries small = [] \<or> lo = [] \<or> length (entries s) = 1 \<Longrightarrow> ipc_splay_tree_join s small \<noteq> None"
    and "entries small \<noteq> [] \<Longrightarrow> 1 < length lo \<or> lo \<noteq> [] \<and> MACH_PORT_SMALLEST \<in> set (keys_of (entries s)) \<Longrightarrow>
      ipc_splay_tree_join s small = None"
    and "ipc_splay_tree_join s small = Some (s', sm) \<Longrightarrow>
      splay_inv s' \<and> entries s' = entries small @ entries s \<and> ist_root sm = ITE_NULL"
proof -
  have "(entries small = [] \<or> lo = [] \<or> length (entries s) = 1 \<longrightarrow> ipc_splay_tree_join s small \<noteq> None) \<and>
    (entries small \<noteq> [] \<and> (1 < length lo \<or> lo \<noteq> [] \<and> MACH_PORT_SMALLEST \<in> set (keys_of (entries s))) \<longrightarrow>
      ipc_splay_tree_join s small = None) \<and>
    (\<forall>s' sm. ipc_splay_tree_join s small = Some (s', sm) \<longrightarrow>
      splay_inv s' \<and> entries s' = entries small @ entries s \<and> ist_root sm = ITE_NULL)"
  proof (cases "ist_root small = ITE_NULL")
    case True
    with inv show ?thesis
      by (simp add: ipc_splay_tree_join_def entries_def)
  next
    case False
    from assemble_inorder [OF this, of "ist_ltree small" "ist_rtree small"] False obtain sl sn se sr where
      sr: "ipc_splay_prim_assemble (ist_root small) (ist_ltree small) (ist_rtree small) = Some (ITE sl sn se sr)"
      "inorder (ITE sl sn se sr) = entries small"
      by (metis entries_def ite.exhaust)
    have ks: "ksorted (entries small)" "ksorted (entries s)"
      using inv entries_ksorted by auto
    show ?thesis
    proof (cases "ist_root s = ITE_NULL")
      case True
      with False sr ks splay_of_root_inv [of "ITE sl sn se sr" s] show ?thesis
        by (simp add: ipc_splay_tree_join_def entries_def [of s] lo_def)
    next
      case root: False
      obtain l n e r L R where w: "splay_to s MACH_PORT_SMALLEST = Some (ITE l n e r, L, R)"
        "entries s = l_list L @ inorder l @ (n, e) # inorder r @ r_list R"
        "below (l_list L) MACH_PORT_SMALLEST" "above (r_list R) MACH_PORT_SMALLEST"
        "settled MACH_PORT_SMALLEST (ITE l n e r)"
        using splay_to_correct [OF inv(1) root] .
      have closed: "plug_l L l = ITE_NULL \<longleftrightarrow> l_list L @ inorder l = []"
        using inorder_plug_l [of L l] by (simp flip: inorder_empty)
      note left = nothing_left [OF ks(2) [unfolded w(2)] w(3-5), folded w(2) lo_def]
      let ?t = "ITE (ITE sl sn se sr) n e (plug_r R r)"
      have "splay_inv (splay_of_root s ?t) \<and> entries (splay_of_root s ?t) = entries small @ entries s"
        if "plug_l L l = ITE_NULL"
      proof -
        have "inorder ?t = entries small @ entries s"
          using that closed unfolding w(2) sr(2) [symmetric] by simp
        then show ?thesis
          using splay_of_root_inv [of ?t s] ks sep by auto
      qed
      moreover have "sn < n"
        using sep sr(2) [symmetric] w(2) by simp
      moreover have "entries small \<noteq> []" using sr(2) by auto
      ultimately show ?thesis
        using False root sr(1) w(1) left unfolding closed [symmetric] by (auto simp: ipc_splay_tree_join_def)
    qed
  qed
  then show "entries small = [] \<or> lo = [] \<or> length (entries s) = 1 \<Longrightarrow> ipc_splay_tree_join s small \<noteq> None"
    and "entries small \<noteq> [] \<Longrightarrow> 1 < length lo \<or> lo \<noteq> [] \<and> MACH_PORT_SMALLEST \<in> set (keys_of (entries s)) \<Longrightarrow>
      ipc_splay_tree_join s small = None"
    and "ipc_splay_tree_join s small = Some (s', sm) \<Longrightarrow>
      splay_inv s' \<and> entries s' = entries small @ entries s \<and> ist_root sm = ITE_NULL"
    by blast+
qed

text \<open>The neighbours of a name in an ordered list, as the code's comment describes them.\<close>

definition greatest_le :: "(int \<times> 'a) list \<Rightarrow> int \<Rightarrow> int" where
  "greatest_le xs name =
     (let ks = filter (\<lambda>k. k \<le> name) (keys_of xs) in if ks = [] then MACH_PORT_LARGEST else last ks)"

definition least_ge :: "(int \<times> 'a) list \<Rightarrow> int \<Rightarrow> int" where
  "least_ge xs name =
     (let ks = filter (\<lambda>k. name \<le> k) (keys_of xs) in if ks = [] then MACH_PORT_SMALLEST else hd ks)"

lemma filter_keys:
  "below xs m \<Longrightarrow> filter (\<lambda>k. k \<le> m) (keys_of xs) = keys_of xs"
  "below xs m \<Longrightarrow> filter (\<lambda>k. m \<le> k) (keys_of xs) = []"
  "above xs m \<Longrightarrow> filter (\<lambda>k. k \<le> m) (keys_of xs) = []"
  "above xs m \<Longrightarrow> filter (\<lambda>k. m \<le> k) (keys_of xs) = keys_of xs"
  by (induction xs) auto

lemma keys_of_empty [simp]: "keys_of xs = [] \<longleftrightarrow> xs = []"
  by (simp add: keys_of_def)

lemma last_l_list: "L \<noteq> [] \<Longrightarrow> last (keys_of (l_list L)) = (case last L of (l, n, e) \<Rightarrow> n)"
  by (cases L rule: rev_cases) auto

lemma hd_r_list: "R \<noteq> [] \<Longrightarrow> hd (keys_of (r_list R)) = (case last R of (n, e, r) \<Rightarrow> n)"
  by (cases R rule: rev_cases) auto

lemma bounds_correct:
  assumes inv: "splay_inv s"
  shows "\<exists>s'. ipc_splay_tree_bounds s name =
           Some (s', greatest_le (entries s) name, least_ge (entries s) name) \<and>
           splay_inv s' \<and> entries s' = entries s"
proof (cases "ist_root s = ITE_NULL")
  case True
  with inv show ?thesis
    by (simp add: ipc_splay_tree_bounds_def greatest_le_def least_ge_def entries_def)
next
  case root: False
  from inv root show ?thesis
  proof (cases rule: splay_to_cases [where name = name])
    case (found l e r L R)
    with root splay_to_inv [OF inv root found(1)] show ?thesis
      by (simp add: ipc_splay_tree_bounds_def greatest_le_def least_ge_def filter_keys)
  next
    case (left n e r L R)
    with root splay_to_inv [OF inv root left(1)] show ?thesis
      by (simp add: ipc_splay_tree_bounds_def greatest_le_def least_ge_def filter_keys last_l_list
          split: prod.splits)
  next
    case (right l n e L R)
    with root splay_to_inv [OF inv root right(1)] show ?thesis
      by (simp add: ipc_splay_tree_bounds_def greatest_le_def least_ge_def filter_keys hd_r_list
          split: prod.splits)
  qed
qed

text \<open>Leaving a name out of the ordered list is leaving it out of the map; the two halves of an
  ordered list make it up.\<close>

lemma sorted_without:
  assumes "ksorted xs"
  shows "map_of (filter (\<lambda>x. fst x < name) xs @ filter (\<lambda>x. name < fst x) xs) = (map_of xs)(name := None)"
proof -
  have "map_of (filter (\<lambda>x. fst x < name) xs @ filter (\<lambda>x. name < fst x) xs) k =
        ((map_of xs)(name := None)) k" for k
    using assms
    by (induction xs) (auto simp: map_add_def above_def split: option.splits)
  then show ?thesis by blast
qed

lemma tree_map_without:
  "splay_inv s \<Longrightarrow> splay_inv s' \<Longrightarrow>
   entries s' = filter (\<lambda>x. fst x < name) (entries s) @ filter (\<lambda>x. name < fst x) (entries s) \<Longrightarrow>
   tree_map s' = (tree_map s)(name := None)"
  using sorted_without [OF entries_ksorted, of s name] by (simp add: tree_map_def)

lemma sorted_halves:
  assumes "ksorted xs"
  shows "filter (\<lambda>x. fst x < name) xs @ filter (\<lambda>x. name \<le> fst x) xs = xs"
  using assms
proof (induction xs)
  case (Cons x xs)
  show ?case
  proof (cases "fst x < name")
    case True
    with Cons show ?thesis by simp
  next
    case False
    with Cons.prems have "above xs name \<or> fst x = name" "above xs (fst x)"
      by (auto intro: above_trans)
    then have "filter (\<lambda>x. fst x < name) xs = []" "filter (\<lambda>x. name \<le> fst x) xs = xs"
      using False by (auto simp: above_def keys_of_def filter_empty_conv intro!: filter_True)
    with False show ?thesis by simp
  qed
qed simp

end
