(* ===== verification/Ipc_Splay_Traverse.thy ===== *)
theory Ipc_Splay_Traverse
  imports Ipc_Splay
begin

text \<open>
  The symmetric order traversal of \<^verbatim>\<open>Kernel/mxwl/ipc/ipc_splay.c\<close>
  (\<^verbatim>\<open>ipc_splay_traverse_start\<close>, \<^verbatim>\<open>_next\<close>, \<^verbatim>\<open>_finish\<close>).  While it runs, \<^verbatim>\<open>ist_ltree\<close> holds the current
  node and \<^verbatim>\<open>ist_rtree\<close> its parent.  The links on the way to the root are reversed: the child
  field that led from a node to the current position holds that node's parent, so the chain of
  parents is itself a value of the tree type.  Which of the two fields was reversed is decided by
  comparing names, as the code does.  A dereference of a null pointer is \<open>None\<close>.
\<close>

section \<open>The traversal\<close>

record 'a traversal =
  tr_root :: "'a ite"     \<comment> \<open>\<^verbatim>\<open>ist_root\<close>; not read before the traversal has set it\<close>
  tr_current :: "'a ite"  \<comment> \<open>\<^verbatim>\<open>ist_ltree\<close>\<close>
  tr_parent :: "'a ite"   \<comment> \<open>\<^verbatim>\<open>ist_rtree\<close>\<close>

type_synonym 'a position = "'a ite \<times> 'a ite"

text \<open>The loop at label \<^verbatim>\<open>traverse_left\<close> (and in \<^verbatim>\<open>ipc_splay_traverse_start\<close>).\<close>

fun traverse_left :: "'a ite \<Rightarrow> 'a ite \<Rightarrow> 'a position" where
  "traverse_left (ITE (ITE ll ln le lr) n e r) parent =
     traverse_left (ITE ll ln le lr) (ITE parent n e r)"
| "traverse_left current parent = (current, parent)"

text \<open>Label \<^verbatim>\<open>traverse_back\<close>: \<open>Inl root\<close> when the walk is over and \<^verbatim>\<open>ist_root\<close> is set,
  \<open>Inr\<close> of the position when an entry is reached.\<close>

fun traverse_back :: "'a ite \<Rightarrow> 'a ite \<Rightarrow> ('a ite + 'a position) option" where
  "traverse_back current ITE_NULL = Some (Inl current)"
| "traverse_back ITE_NULL (ITE pl pn pe pr) = None"
| "traverse_back (ITE l n e r) (ITE pl pn pe pr) =
     (if n < pn then Some (Inr (ITE (ITE l n e r) pn pe pr, pl))
      else traverse_back (ITE pl pn pe (ITE l n e r)) pr)"

text \<open>Label \<^verbatim>\<open>traverse_right\<close>.\<close>

fun traverse_right :: "'a ite \<Rightarrow> 'a ite \<Rightarrow> ('a ite + 'a position) option" where
  "traverse_right ITE_NULL parent = None"
| "traverse_right (ITE l n e r) parent =
     (if r \<noteq> ITE_NULL then Some (Inr (traverse_left r (ITE l n e parent)))
      else traverse_back (ITE l n e r) parent)"

text \<open>The branch that deletes the current entry and patches the tree.\<close>

fun traverse_delete :: "'a ite \<Rightarrow> 'a ite \<Rightarrow> ('a ite + 'a position) option" where
  "traverse_delete ITE_NULL parent = None"
| "traverse_delete (ITE l n e r) parent =
     (if l = ITE_NULL then
        (if r = ITE_NULL then
           (case parent of
              ITE_NULL \<Rightarrow> Some (Inl ITE_NULL)
            | ITE pl pn pe pr \<Rightarrow>
                if n < pn then Some (Inr (ITE ITE_NULL pn pe pr, pl))
                else traverse_back (ITE pl pn pe ITE_NULL) pr)
         else Some (Inr (traverse_left r parent)))
      else if r = ITE_NULL then traverse_back l parent
      else do {
        (current, lt, rt) \<leftarrow> ipc_splay_prim_lookup MACH_PORT_LARGEST l;
        current \<leftarrow> ipc_splay_prim_assemble current lt rt;
        c_assert (ite_rchild current = ITE_NULL);
        traverse_right (ITE (ite_lchild current) (ite_name current) (ite_entry current) r) parent
      })"

definition ipc_splay_traverse_start :: "'a ipc_splay_tree \<Rightarrow> 'a traversal option" where
  "ipc_splay_traverse_start splay =
     (if ist_root splay = ITE_NULL
      then Some \<lparr>tr_root = ITE_NULL, tr_current = ITE_NULL, tr_parent = ITE_NULL\<rparr>
      else do {
        current \<leftarrow> ipc_splay_prim_assemble (ist_root splay) (ist_ltree splay) (ist_rtree splay);
        let (current, parent) = traverse_left current ITE_NULL;
        Some \<lparr>tr_root = ist_root splay, tr_current = current, tr_parent = parent\<rparr>
      })"

text \<open>The next position; the second component is the entry the code returns.\<close>

definition ipc_splay_traverse_next ::
  "'a traversal \<Rightarrow> bool \<Rightarrow> ('a traversal \<times> (mach_port_t \<times> 'a) option) option" where
  "ipc_splay_traverse_next splay delete = do {
     c_assert (tr_current splay \<noteq> ITE_NULL);
     p \<leftarrow> (if \<not> delete then traverse_right (tr_current splay) (tr_parent splay)
          else traverse_delete (tr_current splay) (tr_parent splay));
     Some (case p of
             Inl root \<Rightarrow> (splay\<lparr>tr_root := root\<rparr>, None)
           | Inr (current, parent) \<Rightarrow>
               (splay\<lparr>tr_current := current, tr_parent := parent\<rparr>,
                Some (ite_name current, ite_entry current)))
   }"

definition ipc_splay_traverse_finish :: "'a ipc_splay_tree \<Rightarrow> 'a traversal \<Rightarrow> 'a ipc_splay_tree" where
  "ipc_splay_traverse_finish splay tr = splay_of_root splay (tr_root tr)"

text \<open>
  The loop of the code's usage comment: it visits the entries one after the other, and
  \<open>visit\<close> says whether the current one is to be deleted.  Fuel bounds the number of entries.
\<close>

fun traverse_loop ::
  "nat \<Rightarrow> (mach_port_t \<times> 'a \<Rightarrow> bool) \<Rightarrow> 'a traversal \<Rightarrow> (mach_port_t \<times> 'a) option \<Rightarrow>
   ((mach_port_t \<times> 'a) list \<times> 'a traversal) option" where
  "traverse_loop fuel visit tr None = Some ([], tr)"
| "traverse_loop 0 visit tr (Some x) = None"
| "traverse_loop (Suc fuel) visit tr (Some x) = do {
     (tr, next) \<leftarrow> ipc_splay_traverse_next tr (visit x);
     (xs, tr) \<leftarrow> traverse_loop fuel visit tr next;
     Some (x # xs, tr)
   }"

definition traverse_first :: "'a traversal \<Rightarrow> (mach_port_t \<times> 'a) option" where
  "traverse_first tr =
     (case tr_current tr of ITE_NULL \<Rightarrow> None | ITE l n e r \<Rightarrow> Some (n, e))"

definition ipc_splay_traverse ::
  "nat \<Rightarrow> (mach_port_t \<times> 'a \<Rightarrow> bool) \<Rightarrow> 'a ipc_splay_tree \<Rightarrow>
   ((mach_port_t \<times> 'a) list \<times> 'a ipc_splay_tree) option" where
  "ipc_splay_traverse fuel visit splay = do {
     tr \<leftarrow> ipc_splay_traverse_start splay;
     (xs, tr) \<leftarrow> traverse_loop fuel visit tr (traverse_first tr);
     Some (xs, ipc_splay_traverse_finish splay tr)
   }"

section \<open>The tree a position stands for\<close>

text \<open>The entries before and after the subtree at a position, read off the chain of parents.\<close>

fun left_of :: "mach_port_t \<Rightarrow> 'a ite \<Rightarrow> (mach_port_t \<times> 'a) list" where
  "left_of n ITE_NULL = []"
| "left_of n (ITE pl pn pe pr) =
     (if n < pn then left_of pn pl else left_of pn pr @ inorder pl @ [(pn, pe)])"

fun right_of :: "mach_port_t \<Rightarrow> 'a ite \<Rightarrow> (mach_port_t \<times> 'a) list" where
  "right_of n ITE_NULL = []"
| "right_of n (ITE pl pn pe pr) =
     (if n < pn then (pn, pe) # inorder pr @ right_of pn pl else right_of pn pr)"

fun visited :: "'a position \<Rightarrow> (mach_port_t \<times> 'a) list" where
  "visited (ITE_NULL, parent) = []"
| "visited (ITE l n e r, parent) = left_of n parent @ inorder l"

fun todo :: "'a position \<Rightarrow> (mach_port_t \<times> 'a) list" where
  "todo (ITE_NULL, parent) = []"
| "todo (ITE l n e r, parent) = inorder r @ right_of n parent"

fun whole :: "'a position \<Rightarrow> (mach_port_t \<times> 'a) list" where
  "whole (ITE_NULL, parent) = []"
| "whole (ITE l n e r, parent) = left_of n parent @ inorder l @ (n, e) # inorder r @ right_of n parent"

lemma traverse_left_correct:
  assumes "ksorted (whole (t, parent))" and "t \<noteq> ITE_NULL"
  shows "\<exists>n e r p. traverse_left t parent = (ITE ITE_NULL n e r, p) \<and>
           whole (ITE ITE_NULL n e r, p) = whole (t, parent) \<and>
           left_of n p = left_of (ite_name t) parent"
  using assms by (induction t parent rule: traverse_left.induct) auto

text \<open>Names in the same gap of the parents see the same entries on either side.\<close>

lemma same_gap:
  "below (left_of n p) m \<Longrightarrow> above (right_of n p) m \<Longrightarrow>
   left_of m p = left_of n p \<and> right_of m p = right_of n p"
  by (cases p) auto

lemma traverse_back_correct:
  assumes "ksorted (whole (ITE l n e r, parent))"
  shows "(right_of n parent = [] \<and>
          (\<exists>t. traverse_back (ITE l n e r) parent = Some (Inl t) \<and>
               inorder t = whole (ITE l n e r, parent))) \<or>
         (\<exists>cl cn ce cr p. traverse_back (ITE l n e r) parent = Some (Inr (ITE cl cn ce cr, p)) \<and>
            whole (ITE cl cn ce cr, p) = whole (ITE l n e r, parent) \<and>
            right_of n parent = (cn, ce) # todo (ITE cl cn ce cr, p))"
  using assms
proof (induction "ITE l n e r" parent arbitrary: l n e r rule: traverse_back.induct)
  case (1 vv)
  then show ?case by simp
next
  case (3 l n e r pl pn pe pr)
  then show ?case by (cases "n < pn") auto
qed

text \<open>
  One step from the entry \<open>(n, e)\<close>.  \<open>stepped\<close> says what the next position must be: nothing is left
  and the root holds the kept entries, or the next entry is the first that was left.
\<close>

definition stepped ::
  "(mach_port_t \<times> 'a) list \<Rightarrow> (mach_port_t \<times> 'a) list \<Rightarrow> ('a ite + 'a position) \<Rightarrow> bool" where
  "stepped kept rest p \<longleftrightarrow>
     (case p of
        Inl t \<Rightarrow> rest = [] \<and> inorder t = kept
      | Inr (c, parent) \<Rightarrow> c \<noteq> ITE_NULL \<and> whole (c, parent) = kept @ rest \<and>
          rest = (ite_name c, ite_entry c) # todo (c, parent))"

lemma whole_split:
  "c \<noteq> ITE_NULL \<Longrightarrow>
   whole (c, p) = visited (c, p) @ (ite_name c, ite_entry c) # todo (c, p)"
  by (cases c) auto

lemma traverse_back_stepped:
  assumes "ksorted (whole (ITE l n e r, parent))" and "kept = left_of n parent @ inorder (ITE l n e r)"
  shows "\<exists>p. traverse_back (ITE l n e r) parent = Some p \<and> stepped kept (right_of n parent) p"
  using traverse_back_correct [OF assms(1)] assms(2) by (auto simp: stepped_def)

lemma traverse_left_stepped:
  assumes "ksorted (whole (t, parent))" and "t \<noteq> ITE_NULL"
    and "kept = left_of (ite_name t) parent"
    and "rest = inorder t @ right_of (ite_name t) parent"
  shows "stepped kept rest (Inr (traverse_left t parent))"
proof -
  obtain n e r p where w: "traverse_left t parent = (ITE ITE_NULL n e r, p)"
    "whole (ITE ITE_NULL n e r, p) = whole (t, parent)"
    "left_of n p = left_of (ite_name t) parent"
    using traverse_left_correct [OF assms(1,2)] by auto
  with assms(2-) show ?thesis
    by (cases t) (auto simp: stepped_def)
qed

lemma traverse_right_stepped:
  assumes "ksorted (whole (ITE l n e r, parent))"
  shows "\<exists>p. traverse_right (ITE l n e r) parent = Some p \<and>
             stepped (visited (ITE l n e r, parent) @ [(n, e)]) (todo (ITE l n e r, parent)) p"
proof (cases r)
  case ITE_NULL
  with traverse_back_stepped [OF assms] show ?thesis by simp
next
  case (ITE rl rn re rr)
  with assms have "stepped (visited (ITE l n e r, parent) @ [(n, e)]) (todo (ITE l n e r, parent))
      (Inr (traverse_left r (ITE l n e parent)))"
    by (intro traverse_left_stepped) auto
  with ITE show ?thesis by simp
qed

text \<open>Deletion of an entry whose left subtree is empty or whose right subtree is: the tree loses
  that entry and nothing else.\<close>

lemma traverse_delete_stepped:
  assumes "ksorted (whole (ITE l n e r, parent))" and "l = ITE_NULL \<or> r = ITE_NULL"
  shows "\<exists>p. traverse_delete (ITE l n e r) parent = Some p \<and>
             stepped (visited (ITE l n e r, parent)) (todo (ITE l n e r, parent)) p"
proof -
  consider "l = ITE_NULL" "r = ITE_NULL" "parent = ITE_NULL"
    | pl pn pe pr where "l = ITE_NULL" "r = ITE_NULL" "parent = ITE pl pn pe pr"
    | "l = ITE_NULL" "r \<noteq> ITE_NULL"
    | ll ln le lr where "l = ITE ll ln le lr" "r = ITE_NULL"
    using assms(2) by (metis ite.exhaust)
  then show ?thesis
  proof cases
    case 1
    then show ?thesis by (simp add: stepped_def)
  next
    case (2 pl pn pe pr)
    show ?thesis
    proof (cases "n < pn")
      case True
      with 2 show ?thesis by (simp add: stepped_def)
    next
      case False
      with 2 assms have "ksorted (whole (ITE pl pn pe ITE_NULL, pr))" by auto
      from traverse_back_stepped [OF this refl] 2 False show ?thesis by simp
    qed
  next
    case 3
    then obtain rl rn re rr where r: "r = ITE rl rn re rr" by (cases r) auto
    with assms(1) have "left_of rn parent = left_of n parent \<and> right_of rn parent = right_of n parent"
      by (intro same_gap) auto
    with 3 r assms(1) have "stepped (visited (ITE l n e r, parent)) (todo (ITE l n e r, parent))
        (Inr (traverse_left r parent))"
      by (intro traverse_left_stepped) auto
    with 3 show ?thesis by simp
  next
    case (4 ll ln le lr)
    with assms(1) have "left_of ln parent = left_of n parent \<and> right_of ln parent = right_of n parent"
      by (intro same_gap) auto
    with 4 assms(1) traverse_back_stepped [of ll ln le lr parent, OF _ refl] show ?thesis by simp
  qed
qed

text \<open>The deletion of an entry that has both children, in a tree of names that are not negative, is possible for a
  left subtree of one entry only; otherwise the code's assertion fails.\<close>

lemma traverse_delete_both:
  assumes "ksorted (whole (ITE l n e r, parent))" and "nonneg_keys (inorder l)"
    and "l \<noteq> ITE_NULL" and "r \<noteq> ITE_NULL" and "length (inorder l) \<noteq> 1"
  shows "traverse_delete (ITE l n e r) parent = None"
proof -
  from assms(1) have ks: "ksorted (inorder l)" by simp
  obtain n2 e2 r2 R2 where
    w: "ipc_splay_prim_lookup MACH_PORT_LARGEST l = Some (ITE ITE_NULL n2 e2 r2, [], R2)"
    "inorder l = (n2, e2) # inorder r2 @ r_list R2"
    using splay_largest_is_leftmost [OF assms(3) ks assms(2)] .
  with assms(5) have "\<not> (R2 = [] \<and> r2 = ITE_NULL)" by auto
  with w(1) assms(3,4) show ?thesis by simp
qed

section \<open>A complete run\<close>

lemma start_stepped:
  assumes "splay_inv s" and "ist_root s \<noteq> ITE_NULL"
  shows "\<exists>tr c p. ipc_splay_traverse_start s = Some tr \<and> tr_current tr = c \<and> tr_parent tr = p \<and>
           stepped [] (entries s) (Inr (c, p))"
proof -
  obtain t where t: "ipc_splay_prim_assemble (ist_root s) (ist_ltree s) (ist_rtree s) = Some t"
    "t \<noteq> ITE_NULL" "inorder t = entries s"
    using assemble_inorder [OF assms(2)] assms(2) by (auto simp: entries_def)
  with entries_ksorted [OF assms(1)] have "stepped [] (entries s) (Inr (traverse_left t ITE_NULL))"
    by (intro traverse_left_stepped) (cases t; simp; fail)+
  with t(1) assms(2) show ?thesis
    by (auto simp: ipc_splay_traverse_start_def split: prod.splits)
qed

lemma loop_keep:
  assumes "stepped kept rest (Inr (tr_current tr, tr_parent tr))" and "ksorted (kept @ rest)"
    and "length rest \<le> fuel"
  shows "\<exists>tr'. traverse_loop fuel (\<lambda>_. False) tr
             (Some (ite_name (tr_current tr), ite_entry (tr_current tr))) = Some (rest, tr') \<and>
           inorder (tr_root tr') = kept @ rest"
  using assms
proof (induction fuel arbitrary: tr kept rest)
  case 0
  then show ?case by (simp add: stepped_def)
next
  case (Suc fuel)
  let ?c = "tr_current tr" and ?p = "tr_parent tr"
  let ?x = "(ite_name ?c, ite_entry ?c)"
  from Suc.prems(1) have c: "?c \<noteq> ITE_NULL" "whole (?c, ?p) = kept @ rest" "rest = ?x # todo (?c, ?p)"
    by (auto simp: stepped_def)
  with whole_split [of ?c ?p] have kept: "visited (?c, ?p) = kept" by simp
  obtain q where q: "traverse_right ?c ?p = Some q" "stepped (kept @ [?x]) (todo (?c, ?p)) q"
    using traverse_right_stepped [of "ite_lchild ?c" "ite_name ?c" "ite_entry ?c" "ite_rchild ?c" ?p]
      c Suc.prems(2) kept by auto
  show ?case
  proof (cases q)
    case (Inl t)
    with q c show ?thesis
      by (auto simp: ipc_splay_traverse_next_def stepped_def)
  next
    case (Inr pos)
    obtain c' p' where pos: "pos = (c', p')" by (cases pos)
    let ?tr = "tr\<lparr>tr_current := c', tr_parent := p'\<rparr>"
    from q(2) Inr pos have "stepped (kept @ [?x]) (todo (?c, ?p)) (Inr (tr_current ?tr, tr_parent ?tr))"
      by simp
    from Suc.IH [OF this] Suc.prems(2,3) c obtain tr' where
      "traverse_loop fuel (\<lambda>_. False) ?tr (Some (ite_name c', ite_entry c')) = Some (todo (?c, ?p), tr')"
      "inorder (tr_root tr') = kept @ rest"
      by auto
    with q(1) Inr pos c show ?thesis
      by (auto simp: ipc_splay_traverse_next_def)
  qed
qed

lemma loop_delete:
  assumes "stepped [] rest (Inr (tr_current tr, tr_parent tr))" and "ksorted rest"
    and "length rest \<le> fuel"
  shows "\<exists>tr'. traverse_loop fuel (\<lambda>_. True) tr
             (Some (ite_name (tr_current tr), ite_entry (tr_current tr))) = Some (rest, tr') \<and>
           tr_root tr' = ITE_NULL"
  using assms
proof (induction fuel arbitrary: tr rest)
  case 0
  then show ?case by (simp add: stepped_def)
next
  case (Suc fuel)
  let ?c = "tr_current tr" and ?p = "tr_parent tr"
  from Suc.prems(1) obtain l n e r where c: "?c = ITE l n e r"
    "whole (?c, ?p) = rest" "rest = (n, e) # todo (?c, ?p)"
    by (cases ?c) (auto simp: stepped_def)
  with whole_split [of ?c ?p] have vis: "visited (?c, ?p) = []" by simp
  with c(1) have "l = ITE_NULL" by simp
  with traverse_delete_stepped [of l n e r ?p] c vis Suc.prems(2)
  obtain q where q: "traverse_delete ?c ?p = Some q" "stepped [] (todo (?c, ?p)) q"
    by auto
  show ?case
  proof (cases q)
    case (Inl t)
    with q c show ?thesis
      by (auto simp: ipc_splay_traverse_next_def stepped_def)
  next
    case (Inr pos)
    obtain c' p' where pos: "pos = (c', p')" by (cases pos)
    let ?tr = "tr\<lparr>tr_current := c', tr_parent := p'\<rparr>"
    from q(2) Inr pos have "stepped [] (todo (?c, ?p)) (Inr (tr_current ?tr, tr_parent ?tr))"
      by simp
    moreover have "ksorted (todo (?c, ?p))" "length (todo (?c, ?p)) \<le> fuel"
      using Suc.prems(2,3) c(3) by (metis ksorted_Cons, metis Suc_le_mono length_Cons)
    ultimately obtain tr' where
      "traverse_loop fuel (\<lambda>_. True) ?tr (Some (ite_name c', ite_entry c')) = Some (todo (?c, ?p), tr')"
      "tr_root tr' = ITE_NULL"
      using Suc.IH [of "todo (?c, ?p)" ?tr] by auto
    with q(1) Inr pos c show ?thesis
      by (auto simp: ipc_splay_traverse_next_def)
  qed
qed

lemma traverse_first_simp [simp]:
  "tr_current tr \<noteq> ITE_NULL \<Longrightarrow>
   traverse_first tr = Some (ite_name (tr_current tr), ite_entry (tr_current tr))"
  by (cases "tr_current tr") (auto simp: traverse_first_def)

lemma traverse_empty:
  assumes "ist_root s = ITE_NULL"
  shows "ipc_splay_traverse fuel visit s = Some ([], s) \<and> entries s = []"
  using assms
  by (simp add: ipc_splay_traverse_def ipc_splay_traverse_start_def ipc_splay_traverse_finish_def
      traverse_first_def splay_of_root_def entries_def)

lemma traverse_keep:
  assumes "splay_inv s" and "length (entries s) \<le> fuel"
  shows "\<exists>s'. ipc_splay_traverse fuel (\<lambda>_. False) s = Some (entries s, s') \<and>
              splay_inv s' \<and> entries s' = entries s"
proof (cases "ist_root s = ITE_NULL")
  case True
  with traverse_empty [OF True] assms(1) show ?thesis by auto
next
  case False
  obtain tr where tr: "ipc_splay_traverse_start s = Some tr"
    "stepped [] (entries s) (Inr (tr_current tr, tr_parent tr))"
    using start_stepped [OF assms(1) False] by auto
  with loop_keep [OF tr(2) _ assms(2)] entries_ksorted [OF assms(1)] obtain tr' where
    "traverse_loop fuel (\<lambda>_. False) tr (traverse_first tr) = Some (entries s, tr')"
    "inorder (tr_root tr') = entries s"
    by (auto simp: stepped_def)
  with tr(1) splay_of_root_inv [of "tr_root tr'" s] entries_ksorted [OF assms(1)] show ?thesis
    by (simp add: ipc_splay_traverse_def ipc_splay_traverse_finish_def)
qed

lemma traverse_delete_all:
  assumes "splay_inv s" and "length (entries s) \<le> fuel"
  shows "\<exists>s'. ipc_splay_traverse fuel (\<lambda>_. True) s = Some (entries s, s') \<and>
              splay_inv s' \<and> entries s' = []"
proof (cases "ist_root s = ITE_NULL")
  case True
  with traverse_empty [OF True] assms(1) show ?thesis by auto
next
  case False
  obtain tr where tr: "ipc_splay_traverse_start s = Some tr"
    "stepped [] (entries s) (Inr (tr_current tr, tr_parent tr))"
    using start_stepped [OF assms(1) False] by auto
  with loop_delete [OF tr(2) _ assms(2)] entries_ksorted [OF assms(1)] obtain tr' where
    "traverse_loop fuel (\<lambda>_. True) tr (traverse_first tr) = Some (entries s, tr')"
    "tr_root tr' = ITE_NULL"
    by (auto simp: stepped_def)
  with tr(1) splay_of_root_inv [of "tr_root tr'" s] show ?thesis
    by (simp add: ipc_splay_traverse_def ipc_splay_traverse_finish_def)
qed

end
