(* ===== verification/Name_Table.thy ===== *)
theory Name_Table
  imports Prelude
begin

text \<open>
  The contract of a table of port names, as the layers above it use it: a lookup may reorganise
  the table but not change its bindings, an insertion adds one binding, and inserting a name that
  is present is an error that stops the kernel.
\<close>

datatype 'a table_op = Insert mach_port_t 'a | Lookup mach_port_t

text \<open>A client's run over a table, and over the partial map it stands for: the answers to the
  lookups and the final value.\<close>

fun table_run ::
  "('t \<Rightarrow> mach_port_t \<Rightarrow> 'a \<Rightarrow> 't option) \<Rightarrow> ('t \<Rightarrow> mach_port_t \<Rightarrow> ('t \<times> 'a option) option) \<Rightarrow>
   'a table_op list \<Rightarrow> 't \<Rightarrow> ('a option list \<times> 't) option" where
  "table_run ins look [] t = Some ([], t)"
| "table_run ins look (Insert n e # ops) t = ins t n e \<bind> table_run ins look ops"
| "table_run ins look (Lookup n # ops) t = do {
     (t, r) \<leftarrow> look t n;
     (rs, t) \<leftarrow> table_run ins look ops t;
     Some (r # rs, t)
   }"

fun map_run :: "'a table_op list \<Rightarrow> (mach_port_t \<rightharpoonup> 'a) \<Rightarrow> ('a option list \<times> (mach_port_t \<rightharpoonup> 'a)) option" where
  "map_run [] m = Some ([], m)"
| "map_run (Insert n e # ops) m = (if m n = None then map_run ops (m(n \<mapsto> e)) else None)"
| "map_run (Lookup n # ops) m = map_option (\<lambda>(rs, m'). (m n # rs, m')) (map_run ops m)"

locale name_table =
  fixes abs :: "'t \<Rightarrow> mach_port_t \<rightharpoonup> 'a"
    and inv :: "'t \<Rightarrow> bool"
    and ins :: "'t \<Rightarrow> mach_port_t \<Rightarrow> 'a \<Rightarrow> 't option"
    and look :: "'t \<Rightarrow> mach_port_t \<Rightarrow> ('t \<times> 'a option) option"
  assumes ins_new: "inv t \<Longrightarrow> abs t n = None \<Longrightarrow>
      \<exists>t'. ins t n e = Some t' \<and> inv t' \<and> abs t' = (abs t)(n \<mapsto> e)"
    and ins_present: "inv t \<Longrightarrow> abs t n \<noteq> None \<Longrightarrow> ins t n e = None"
    and look_law: "inv t \<Longrightarrow> \<exists>t'. look t n = Some (t', abs t n) \<and> inv t' \<and> abs t' = abs t"
begin

text \<open>A run over the table gives the answers, and stops, exactly as the map does.\<close>

lemma run_refines:
  "inv t \<Longrightarrow>
   case map_run ops (abs t) of
     None \<Rightarrow> table_run ins look ops t = None
   | Some (rs, m) \<Rightarrow> \<exists>t'. table_run ins look ops t = Some (rs, t') \<and> inv t' \<and> abs t' = m"
proof (induction ops arbitrary: t)
  case (Cons op ops)
  show ?case
  proof (cases op)
    case (Insert n e)
    show ?thesis
    proof (cases "abs t n")
      case None
      from ins_new [OF Cons.prems this, of e] obtain t' where
        t': "ins t n e = Some t'" "inv t'" and abs: "abs t' = (abs t)(n \<mapsto> e)" by blast
      from Cons.IH [OF t'(2)] show ?thesis
        unfolding abs using t'(1)
        by (cases "map_run ops ((abs t)(n \<mapsto> e))") (auto simp: Insert None simp del: fun_upd_apply)
    next
      case (Some e')
      with ins_present [OF Cons.prems, of n e] show ?thesis
        by (simp add: Insert)
    qed
  next
    case (Lookup n)
    from look_law [OF Cons.prems, of n] obtain t' where
      "look t n = Some (t', abs t n)" "inv t'" "abs t' = abs t" by blast
    with Cons.IH [of t'] show ?thesis
      by (auto simp: Lookup split: option.splits)
  qed
qed simp

end

end
