(* ===== verification/Ipc_Splay_Props.thy ===== *)
theory Ipc_Splay_Props
  imports Ipc_Splay_Traverse Name_Table
begin

text \<open>
  The properties of the splay tree of port names (\<^verbatim>\<open>Kernel/mxwl/ipc/ipc_splay.c\<close>), each with
  an instance on a concrete tree.
\<close>

interpretation splay_table: name_table tree_map splay_inv ipc_splay_tree_insert ipc_splay_tree_lookup
proof unfold_locales
  fix t :: "'a ipc_splay_tree" and n e
  assume inv: "splay_inv t"
  show "tree_map t n = None \<Longrightarrow> \<exists>t'. ipc_splay_tree_insert t n e = Some t' \<and> splay_inv t' \<and> tree_map t' = (tree_map t)(n \<mapsto> e)"
    using insert_correct [OF inv] by blast
  show "tree_map t n \<noteq> None \<Longrightarrow> ipc_splay_tree_insert t n e = None"
    by (rule insert_present [OF inv])
  show "\<exists>t'. ipc_splay_tree_lookup t n = Some (t', tree_map t n) \<and> splay_inv t' \<and> tree_map t' = tree_map t"
    using lookup_correct [OF inv] unfolding tree_map_def by metis
qed

text \<open>A tree for the instances: the names 5, 3 and 8 inserted in this order.\<close>

definition sample_tree :: "nat ipc_splay_tree" where
  "sample_tree = \<lparr>ist_name = 5, ist_root = ITE (ITE ITE_NULL 3 30 ITE_NULL) 5 50 (ITE ITE_NULL 8 80 ITE_NULL),
     ist_ltree = [], ist_rtree = []\<rparr>"

lemma sample_facts [simp]:
  "splay_inv sample_tree" "entries sample_tree = [(3, 30), (5, 50), (8, 80)]"
  "tree_map sample_tree = [3 \<mapsto> 30, 5 \<mapsto> 50, 8 \<mapsto> 80]"
  by (auto simp: sample_tree_def splay_inv_def tree_map_def entries_def)

text \<open>The same with a second name below 5.\<close>

definition sample_tree4 :: "nat ipc_splay_tree" where
  "sample_tree4 = sample_tree\<lparr>ist_root :=
     ITE (ITE ITE_NULL 3 30 (ITE ITE_NULL 4 40 ITE_NULL)) 5 50 (ITE ITE_NULL 8 80 ITE_NULL)\<rparr>"

lemma sample4_facts [simp]:
  "splay_inv sample_tree4" "entries sample_tree4 = [(3, 30), (4, 40), (5, 50), (8, 80)]"
  "tree_map sample_tree4 = [3 \<mapsto> 30, 4 \<mapsto> 40, 5 \<mapsto> 50, 8 \<mapsto> 80]"
  by (auto simp: sample_tree4_def sample_tree_def splay_inv_def tree_map_def entries_def)

text \<open>
  C1. Any run of insertions and lookups over the splay tree answers every lookup as the partial
  map it stands for does, ends in a tree that stands for the resulting map, and stops at the
  code's assertion exactly when a name is inserted that is present.
\<close>

theorem splay_runs_as_map:
  assumes "splay_inv s"
  shows "case map_run ops (tree_map s) of
      None \<Rightarrow> table_run ipc_splay_tree_insert ipc_splay_tree_lookup ops s = None
    | Some (rs, m) \<Rightarrow> \<exists>s'. table_run ipc_splay_tree_insert ipc_splay_tree_lookup ops s = Some (rs, s') \<and>
                       splay_inv s' \<and> tree_map s' = m"
  using assms by (rule splay_table.run_refines)

theorem splay_runs_as_map_witness:
  "\<exists>s'. table_run ipc_splay_tree_insert ipc_splay_tree_lookup
      [Insert 4 40, Lookup 3, Lookup 4, Lookup 7] sample_tree = Some ([Some 30, Some 40, None], s') \<and>
    splay_inv s' \<and> tree_map s' = (tree_map sample_tree)(4 \<mapsto> 40)"
  using splay_runs_as_map [of sample_tree "[Insert 4 40, Lookup 3, Lookup 4, Lookup 7]"] by simp

text \<open>Two trees with the same names.  Below 5 there is one name below and one above \<open>MACH_PORT_LARGEST\<close>, which
  is minus one; the trees differ in which of the two is the upper one.\<close>

definition sample_signed :: "bool \<Rightarrow> nat ipc_splay_tree" where
  "sample_signed up = sample_tree\<lparr>ist_root :=
     ITE (if up then ITE ITE_NULL (-5) 1 (ITE ITE_NULL 3 30 ITE_NULL)
          else ITE (ITE ITE_NULL (-5) 1 ITE_NULL) 3 30 ITE_NULL) 5 50 (ITE ITE_NULL 8 80 ITE_NULL)\<rparr>"

lemma sample_signed_facts [simp]:
  "splay_inv (sample_signed up)" "entries (sample_signed up) = [(-5, 1), (3, 30), (5, 50), (8, 80)]"
  "tree_map (sample_signed up) = [-5 \<mapsto> 1, 3 \<mapsto> 30, 5 \<mapsto> 50, 8 \<mapsto> 80]"
  by (auto simp: sample_signed_def sample_tree_def splay_inv_def tree_map_def entries_def)

text \<open>
  C2.  Deleting a present name, of any sign.  \<open>MACH_PORT_LARGEST\<close> is minus one here, the names are signed, and the
  deletion splays it to the root of the part below the name, with the assertion that nothing is left to its right.
  So the kernel stops at that assertion when there are names above the deleted one and, below it, two or more
  names above minus one, or one such name and minus one itself.  It does not when there is no name above, no name
  between minus one and the deleted one, or just one name below.  In the cases left, with one name between minus
  one and the deleted one and further names below minus one, it depends on the shape of the tree.
  Whenever the deletion comes to its end, it has removed that binding and no other.
\<close>

theorem splay_delete_outcome:
  assumes "splay_inv s" and "tree_map s name = Some e"
    and "A = filter (\<lambda>x. fst x < name) (entries s)" and "B = filter (\<lambda>x. name < fst x) (entries s)"
    and "hi = filter (\<lambda>x. MACH_PORT_LARGEST < fst x) A"
  shows "(B = [] \<or> hi = [] \<or> length A = 1 \<longrightarrow> ipc_splay_tree_delete s name e \<noteq> None) \<and>
    (B \<noteq> [] \<and> (1 < length hi \<or> hi \<noteq> [] \<and> MACH_PORT_LARGEST \<in> set (keys_of A)) \<longrightarrow>
      ipc_splay_tree_delete s name e = None) \<and>
    (\<forall>s'. ipc_splay_tree_delete s name e = Some s' \<longrightarrow> splay_inv s' \<and> tree_map s' = (tree_map s)(name := None))"
  using delete_outcome [OF assms(1,2)] tree_map_without [OF assms(1)] unfolding assms(3-5) by blast

text \<open>Deleting 5: with one name below it succeeds, with two it stops; with the same names, one of them negative,
  it does the one or the other.\<close>

theorem splay_delete_outcome_witness:
  "(\<exists>s'. ipc_splay_tree_delete sample_tree 5 50 = Some s' \<and> splay_inv s' \<and>
      tree_map s' = (tree_map sample_tree)(5 := None)) \<and>
   ipc_splay_tree_delete sample_tree4 5 50 = None \<and>
   (\<exists>s'. ipc_splay_tree_delete (sample_signed True) 5 50 = Some s' \<and> tree_map s' = [-5 \<mapsto> 1, 3 \<mapsto> 30, 8 \<mapsto> 80]) \<and>
   ipc_splay_tree_delete (sample_signed False) 5 50 = None"
proof -
  have some: "ipc_splay_tree_delete (sample_signed True) 5 50 \<noteq> None"
    and none: "ipc_splay_tree_delete (sample_signed False) 5 50 = None"
    by code_simp+
  from splay_delete_outcome [of sample_tree 5 50, OF _ _ refl refl refl]
    splay_delete_outcome [of sample_tree4 5 50, OF _ _ refl refl refl]
    splay_delete_outcome [of "sample_signed True" 5 50, OF _ _ refl refl refl] some none
  show ?thesis by (auto simp: MACH_PORT_LARGEST_def fun_upd_twist)
qed

text \<open>
  C3.  Splitting a tree at a name, of any sign, always succeeds, and the small part has exactly the names below
  the split, the other part the rest.  Joining the two again gives back the entries whenever it comes to its end.
  It does when the small part is empty, or the other has no negative name or just one name.  It stops at the
  assertion that nothing is left of \<open>MACH_PORT_SMALLEST\<close>, which is zero and not the least signed name, when the
  small part is not empty and the other has two negative names, or a negative name and zero.  With one
  negative name and further names above zero it depends on the shape of the tree.
\<close>

theorem splay_split_then_join:
  assumes "splay_inv s" and "A = filter (\<lambda>x. fst x < name) (entries s)" and "B = filter (\<lambda>x. name \<le> fst x) (entries s)"
    and "lo = filter (\<lambda>x. fst x < MACH_PORT_SMALLEST) B"
  shows "\<exists>big small. ipc_splay_tree_split s name small0 = Some (big, small) \<and> entries small = A \<and> entries big = B \<and>
    (A = [] \<or> lo = [] \<or> length B = 1 \<longrightarrow> ipc_splay_tree_join big small \<noteq> None) \<and>
    (A \<noteq> [] \<and> (1 < length lo \<or> lo \<noteq> [] \<and> MACH_PORT_SMALLEST \<in> set (keys_of B)) \<longrightarrow>
      ipc_splay_tree_join big small = None) \<and>
    (\<forall>s' small'. ipc_splay_tree_join big small = Some (s', small') \<longrightarrow>
      splay_inv s' \<and> entries s' = entries s \<and> ist_root small' = ITE_NULL)"
proof -
  obtain big small where 1: "ipc_splay_tree_split s name small0 = Some (big, small)"
    "splay_inv big" "splay_inv small" "entries small = A" "entries big = B"
    using split_correct [OF assms(1)] unfolding assms(2,3) by blast
  have "cross (entries small) (entries big)"
    by (auto simp: 1(4,5) assms(2,3) cross_def keys_of_def)
  note join = join_outcome [OF 1(2,3) this, unfolded 1(4,5), folded assms(4)]
  have "A @ B = entries s"
    using sorted_halves [OF entries_ksorted [OF assms(1)], of name] unfolding assms(2,3) by simp
  then have "\<forall>s' small'. ipc_splay_tree_join big small = Some (s', small') \<longrightarrow>
      splay_inv s' \<and> entries s' = entries s \<and> ist_root small' = ITE_NULL"
    using join(3) by metis
  moreover have "A = [] \<or> lo = [] \<or> length B = 1 \<longrightarrow> ipc_splay_tree_join big small \<noteq> None"
    "A \<noteq> [] \<and> (1 < length lo \<or> lo \<noteq> [] \<and> MACH_PORT_SMALLEST \<in> set (keys_of B)) \<longrightarrow>
      ipc_splay_tree_join big small = None"
    using join(1,2) by blast+
  ultimately show ?thesis using 1(1,4,5) by blast
qed

text \<open>The second tree has the negative names -5, -3 and -2 besides 5 and 8.  Split at -4 it cannot be joined again;
  split at -5 it can, for nothing is below.\<close>

definition sample_negative :: "nat ipc_splay_tree" where
  "sample_negative = sample_tree\<lparr>ist_root :=
     ITE (ITE ITE_NULL (-5) 1 (ITE ITE_NULL (-3) 2 (ITE ITE_NULL (-2) 3 ITE_NULL))) 5 50 (ITE ITE_NULL 8 80 ITE_NULL)\<rparr>"

lemma sample_negative_facts [simp]:
  "splay_inv sample_negative" "entries sample_negative = [(-5, 1), (-3, 2), (-2, 3), (5, 50), (8, 80)]"
  by (auto simp: sample_negative_def sample_tree_def splay_inv_def entries_def)

theorem splay_split_then_join_witness:
  "(\<exists>big small s' small'. ipc_splay_tree_split sample_tree 5 sample_tree = Some (big, small) \<and>
    entries small = [(3, 30)] \<and> entries big = [(5, 50), (8, 80)] \<and>
    ipc_splay_tree_join big small = Some (s', small') \<and> entries s' = entries sample_tree) \<and>
   (\<exists>big small. ipc_splay_tree_split sample_negative (-5) sample_tree = Some (big, small) \<and>
    entries small = [] \<and> ipc_splay_tree_join big small \<noteq> None) \<and>
   (\<exists>big small. ipc_splay_tree_split sample_negative (-4) sample_tree = Some (big, small) \<and>
    ipc_splay_tree_join big small = None)"
proof -
  obtain big small where 1: "ipc_splay_tree_split sample_tree 5 sample_tree = Some (big, small)"
    "entries small = [(3, 30)]" "entries big = [(5, 50), (8, 80)]" "ipc_splay_tree_join big small \<noteq> None"
    "\<forall>s' small'. ipc_splay_tree_join big small = Some (s', small') \<longrightarrow> entries s' = entries sample_tree"
    using splay_split_then_join [of sample_tree _ 5 _ _ sample_tree, OF _ refl refl refl]
    by (auto simp: MACH_PORT_SMALLEST_def)
  then obtain s' small' where "ipc_splay_tree_join big small = Some (s', small')" by fastforce
  moreover obtain big' small2 where "ipc_splay_tree_split sample_negative (-5) sample_tree = Some (big', small2)"
    "entries small2 = []" "ipc_splay_tree_join big' small2 \<noteq> None"
    using splay_split_then_join [of sample_negative _ "-5" _ _ sample_tree, OF _ refl refl refl] by auto
  moreover obtain big3 small3 where "ipc_splay_tree_split sample_negative (-4) sample_tree = Some (big3, small3)"
    "ipc_splay_tree_join big3 small3 = None"
    using splay_split_then_join [of sample_negative _ "-4" _ _ sample_tree, OF _ refl refl refl]
    by (auto simp: MACH_PORT_SMALLEST_def)
  ultimately show ?thesis using 1 by blast
qed

text \<open>
  The bounds of a name are its nearest neighbours in the tree, the name itself when it is
  present: the greatest name not above it and the least name not below it, or the constants the
  code returns when there is none.
\<close>

lemma splay_bounds_are_neighbours:
  assumes "splay_inv s"
  shows "\<exists>s'. ipc_splay_tree_bounds s name =
      Some (s', greatest_le (entries s) name, least_ge (entries s) name) \<and>
    splay_inv s' \<and> tree_map s' = tree_map s"
  using bounds_correct [OF assms, of name] by (auto simp: tree_map_def)

lemma splay_bounds_are_neighbours_witness:
  "(\<exists>s'. ipc_splay_tree_bounds sample_tree 6 = Some (s', 5, 8)) \<and>
   (\<exists>s'. ipc_splay_tree_bounds sample_tree 9 = Some (s', 8, MACH_PORT_SMALLEST))"
  using splay_bounds_are_neighbours [of sample_tree 6] splay_bounds_are_neighbours [of sample_tree 9]
  by (auto simp: greatest_le_def least_ge_def)

text \<open>
  C4. The traversal by link reversal visits every entry once, in the order of the names, and the
  tree it puts together again has the same entries; the same walk deleting every entry it visits
  ends with the empty tree.  As much fuel as there are entries is enough.
\<close>

theorem splay_traverse_visits_all:
  assumes "splay_inv s" and "length (entries s) \<le> fuel"
  shows "\<exists>s' s''. ipc_splay_traverse fuel (\<lambda>_. False) s = Some (entries s, s') \<and>
      splay_inv s' \<and> entries s' = entries s \<and>
    ipc_splay_traverse fuel (\<lambda>_. True) s = Some (entries s, s'') \<and> entries s'' = []"
  using traverse_keep [OF assms] traverse_delete_all [OF assms] by blast

theorem splay_traverse_visits_all_witness:
  "\<exists>s' s''. ipc_splay_traverse 3 (\<lambda>_. False) sample_tree = Some ([(3, 30), (5, 50), (8, 80)], s') \<and>
    ipc_splay_traverse 3 (\<lambda>_. True) sample_tree = Some ([(3, 30), (5, 50), (8, 80)], s'') \<and> entries s'' = []"
  using splay_traverse_visits_all [of sample_tree 3] by auto

end
