(* ===== verification/C_Memory.thy ===== *)
theory C_Memory
  imports Prelude
begin

unbundle bit_operations_syntax

text \<open>
  Memory as the kernel's C code sees it: byte buffers with 32-bit fields in little-endian order
  (the hosts the Makefile builds for), block copies, and NUL-terminated strings in fixed-size
  character arrays.  An access outside a buffer is \<open>None\<close>.
\<close>

section \<open>Bytes and 32-bit fields\<close>

type_synonym byte = "8 word"
type_synonym uint32 = "32 word"

definition byte_of :: "uint32 \<Rightarrow> nat \<Rightarrow> byte" where
  "byte_of w k = ucast (drop_bit (8 * k) w)"

definition word_of :: "byte \<Rightarrow> byte \<Rightarrow> byte \<Rightarrow> byte \<Rightarrow> uint32" where
  "word_of b0 b1 b2 b3 =
     ucast b0 OR push_bit 8 (ucast b1) OR push_bit 16 (ucast b2) OR push_bit 24 (ucast b3)"

definition rd32 :: "byte list \<Rightarrow> nat \<Rightarrow> uint32 option" where
  "rd32 bs off =
     (if off + 4 \<le> length bs
      then Some (word_of (bs ! off) (bs ! (off + 1)) (bs ! (off + 2)) (bs ! (off + 3)))
      else None)"

definition wr32 :: "byte list \<Rightarrow> nat \<Rightarrow> uint32 \<Rightarrow> byte list option" where
  "wr32 bs off w =
     (if off + 4 \<le> length bs
      then Some (take off bs @ [byte_of w 0, byte_of w 1, byte_of w 2, byte_of w 3] @ drop (off + 4) bs)
      else None)"

text \<open>\<^verbatim>\<open>memcpy(dst, src, n)\<close> into the start of \<open>dst\<close>.\<close>

definition c_memcpy :: "byte list \<Rightarrow> byte list \<Rightarrow> nat \<Rightarrow> byte list option" where
  "c_memcpy dst src n =
     (if n \<le> length dst \<and> n \<le> length src then Some (take n src @ drop n dst) else None)"

lemma word_of_byte_of: "word_of (byte_of w 0) (byte_of w 1) (byte_of w 2) (byte_of w 3) = w"
proof (rule bit_word_eqI)
  fix n assume "n < LENGTH(32)"
  then have "n < 8 \<or> 8 \<le> n \<and> n < 16 \<or> 16 \<le> n \<and> n < 24 \<or> 24 \<le> n \<and> n < 32" by auto
  then show "bit (word_of (byte_of w 0) (byte_of w 1) (byte_of w 2) (byte_of w 3)) n = bit w n"
    by (auto simp: word_of_def byte_of_def bit_simps)
qed

lemma rd32_Some: "off + 4 \<le> length bs \<Longrightarrow> \<exists>w. rd32 bs off = Some w"
  by (simp add: rd32_def)

lemma wr32_Some: "off + 4 \<le> length bs \<Longrightarrow> \<exists>bs'. wr32 bs off w = Some bs'"
  by (simp add: wr32_def)

lemma wr32_length: "wr32 bs off w = Some bs' \<Longrightarrow> length bs' = length bs"
  by (auto simp: wr32_def split: if_splits)

lemma nth_wr32:
  assumes "wr32 bs off w = Some bs'"
  shows "bs' ! off = byte_of w 0" "bs' ! (off + 1) = byte_of w 1"
    "bs' ! (off + 2) = byte_of w 2" "bs' ! (off + 3) = byte_of w 3"
  using assms by (auto simp: wr32_def nth_append split: if_splits)

lemma nth_wr32_other:
  assumes "wr32 bs off w = Some bs'" and "i < off \<or> off + 4 \<le> i"
  shows "bs' ! i = bs ! i"
proof -
  from assms(1) have len: "off + 4 \<le> length bs"
    and bs': "bs' = take off bs @ [byte_of w 0, byte_of w 1, byte_of w 2, byte_of w 3] @ drop (off + 4) bs"
    by (auto simp: wr32_def split: if_splits)
  show ?thesis
  proof (cases "i < off")
    case True
    with len show ?thesis by (simp add: bs' nth_append)
  next
    case False
    with assms(2) obtain j where "i = off + 4 + j" by (metis le_Suc_ex)
    with len show ?thesis by (simp add: bs' nth_append)
  qed
qed

lemma rd32_wr32_same: "wr32 bs off w = Some bs' \<Longrightarrow> rd32 bs' off = Some w"
  using nth_wr32 [of bs off w bs'] wr32_length [of bs off w bs'] word_of_byte_of [of w]
  by (auto simp: rd32_def wr32_def [of bs] split: if_splits)

lemma rd32_wr32_other:
  assumes "wr32 bs off w = Some bs'" and "off' + 4 \<le> off \<or> off + 4 \<le> off'"
  shows "rd32 bs' off' = rd32 bs off'"
proof -
  have "bs' ! i = bs ! i" if "i \<in> {off', off' + 1, off' + 2, off' + 3}" for i
    using that assms(2) by (intro nth_wr32_other [OF assms(1)]) auto
  then show ?thesis
    using wr32_length [OF assms(1)] by (simp add: rd32_def)
qed

lemma rd32_take: "off + 4 \<le> n \<Longrightarrow> n \<le> length bs \<Longrightarrow> rd32 (take n bs) off = rd32 bs off"
  by (auto simp: rd32_def)

section \<open>Strings\<close>

text \<open>A C string by its bytes before the NUL.  \<open>c_string_at\<close> reads one out of a buffer.\<close>

type_synonym cstr = "byte list"

definition c_string_at :: "byte list \<Rightarrow> nat \<Rightarrow> cstr option" where
  "c_string_at bs off =
     (if 0 \<in> set (drop off bs) then Some (takeWhile (\<lambda>b. b \<noteq> 0) (drop off bs)) else None)"

text \<open>\<^verbatim>\<open>strncpy(dst, src, n - 1); dst[n - 1] = 0\<close> on a character array of \<open>n\<close> bytes.\<close>

definition c_strlcpy :: "nat \<Rightarrow> cstr \<Rightarrow> cstr" where
  "c_strlcpy n src = take (n - 1) src"

text \<open>\<^verbatim>\<open>memset(buf, 0, n)\<close> on a whole buffer of \<open>n\<close> bytes.\<close>

definition c_zeroed :: "nat \<Rightarrow> byte list" where
  "c_zeroed n = replicate n 0"

lemma c_string_at_append:
  assumes "0 \<notin> set str" "length pre = off"
  shows "c_string_at (pre @ str @ 0 # post) off = Some str"
proof -
  have "takeWhile (\<lambda>b. b \<noteq> 0) (str @ 0 # post) = str"
    using assms(1) by (subst takeWhile_append2) auto
  with assms(2) show ?thesis
    by (simp add: c_string_at_def)
qed

lemma rd32_beyond: "length bs < off + 4 \<Longrightarrow> rd32 bs off = None"
  by (simp add: rd32_def)

lemma wr32_beyond: "length bs < off + 4 \<Longrightarrow> wr32 bs off w = None"
  by (simp add: wr32_def)

end
