(* ===== verification/Fifo.thy ===== *)
theory Fifo
  imports Prelude
begin

text \<open>
  The contract of a message queue, as its clients see it: a \<open>put\<close> is accepted or refused, an
  accepted message is appended to the contents, and \<open>get\<close> takes the oldest message.  The
  stored form of a message may differ from what the client passed (\<open>img\<close>).
\<close>

datatype 'm fifo_op = Put 'm | Get

text \<open>A client's run: the messages got, the messages accepted and the final queue.\<close>

fun fifo_run ::
  "('m \<Rightarrow> 'q \<Rightarrow> bool \<times> 'q) \<Rightarrow> ('q \<Rightarrow> 'n option \<times> 'q) \<Rightarrow> 'm fifo_op list \<Rightarrow> 'q \<Rightarrow>
   'n list \<times> 'm list \<times> 'q" where
  "fifo_run put get [] q = ([], [], q)"
| "fifo_run put get (Put m # ops) q =
     (let (ok, q) = put m q;
          (outs, acc, q) = fifo_run put get ops q
      in (outs, (if ok then m # acc else acc), q))"
| "fifo_run put get (Get # ops) q =
     (let (r, q) = get q;
          (outs, acc, q) = fifo_run put get ops q
      in ((case r of None \<Rightarrow> outs | Some m \<Rightarrow> m # outs), acc, q))"

locale fifo =
  fixes contents :: "'q \<Rightarrow> 'n list"
    and inv :: "'q \<Rightarrow> bool"
    and img :: "'m \<Rightarrow> 'n"
    and put :: "'m \<Rightarrow> 'q \<Rightarrow> bool \<times> 'q"
    and get :: "'q \<Rightarrow> 'n option \<times> 'q"
  assumes put_law: "inv q \<Longrightarrow> put m q = (ok, q') \<Longrightarrow>
      inv q' \<and> contents q' = contents q @ (if ok then [img m] else [])"
    and get_law: "inv q \<Longrightarrow> get q = (r, q') \<Longrightarrow>
      inv q' \<and> contents q = (case r of None \<Rightarrow> [] | Some m \<Rightarrow> [m]) @ contents q' \<and>
      (r = None \<longleftrightarrow> contents q = [])"
begin

text \<open>What came out, followed by what is left, is what was there followed by what was accepted:
  nothing is lost, duplicated or reordered.\<close>

lemma run_in_order:
  "inv q \<Longrightarrow> fifo_run put get ops q = (outs, acc, q') \<Longrightarrow>
   inv q' \<and> outs @ contents q' = contents q @ map img acc"
proof (induction ops arbitrary: q outs acc q')
  case (Cons op ops)
  show ?case
  proof (cases op)
    case (Put m)
    obtain ok q1 where 1: "put m q = (ok, q1)" by force
    obtain outs1 acc1 q2 where 2: "fifo_run put get ops q1 = (outs1, acc1, q2)"
      by (metis prod_cases3)
    have eqs: "outs = outs1" "acc = (if ok then m # acc1 else acc1)" "q' = q2"
      using Cons.prems(2) by (simp_all add: Put 1 2)
    from put_law [OF Cons.prems(1) 1] have "inv q1" "contents q1 = contents q @ (if ok then [img m] else [])"
      by simp_all
    with Cons.IH [OF _ 2] show ?thesis
      by (cases ok) (simp_all add: eqs)
  next
    case Get
    obtain r q1 where 1: "get q = (r, q1)" by force
    obtain outs1 acc1 q2 where 2: "fifo_run put get ops q1 = (outs1, acc1, q2)"
      by (metis prod_cases3)
    have eqs: "outs = (case r of None \<Rightarrow> outs1 | Some m \<Rightarrow> m # outs1)" "acc = acc1" "q' = q2"
      using Cons.prems(2) by (simp_all add: Get 1 2)
    from get_law [OF Cons.prems(1) 1]
    have "inv q1" "contents q = (case r of None \<Rightarrow> [] | Some m \<Rightarrow> [m]) @ contents q1"
      by simp_all
    with Cons.IH [OF _ 2] show ?thesis
      by (cases r) (simp_all add: eqs)
  qed
qed simp

end

end
