(* ===== verification/Mach_Port.thy ===== *)
theory Mach_Port
  imports C_Memory Fifo
begin

text \<open>
  The port table, \<^verbatim>\<open>Kernel/mxwl/mach/mach_port.c\<close> and \<^verbatim>\<open>mach_port.h\<close>: a global array of port
  objects, each with a ring of queued messages.  A port name is the index of its object plus one.

  The host below the kernel abstraction layer decides whether an allocation succeeds and which
  descriptors a socket pair gets: these are functions of the number of the call, held in the state
  (\<open>khost\<close>, \<open>kclock\<close>), so every theorem holds for every host.  Descriptors the kernel closes are
  logged in \<open>kclosed\<close>.  A queued message is the copy the code allocates, held by value.
\<close>

section \<open>Data\<close>

definition MACH_PORT_TABLE_SIZE :: nat where "MACH_PORT_TABLE_SIZE = 256"
definition MACH_PORT_QUEUE_MAX :: nat where "MACH_PORT_QUEUE_MAX = 64"
definition MACH_PORT_RIGHT_SEND :: int where "MACH_PORT_RIGHT_SEND = 0"
definition MACH_PORT_RIGHT_RECEIVE :: int where "MACH_PORT_RIGHT_RECEIVE = 1"
definition MACH_PORT_TYPE_DYNAMIC :: int where "MACH_PORT_TYPE_DYNAMIC = 0"

type_synonym msg_buf = "byte list"

record mach_port_object =
  po_name :: mach_port_t
  po_type :: int
  po_rights :: int
  po_fd :: int
  po_ref_count :: int
  po_in_use :: bool
  po_queue :: "msg_buf option list"
  po_head :: nat
  po_tail :: nat
  po_count :: nat

record host =
  host_malloc :: "nat \<Rightarrow> bool"
  host_socket_pair :: "nat \<Rightarrow> (int \<times> int) option"

record kport =
  khost :: host
  kclock :: nat
  kclosed :: "int list"
  mxwl_port_table :: "mach_port_object list"
  mxwl_port_table_count :: int

section \<open>Calls to the host\<close>

definition kal_malloc :: "'a kport_scheme \<Rightarrow> bool \<times> 'a kport_scheme" where
  "kal_malloc s = (host_malloc (khost s) (kclock s), s\<lparr>kclock := Suc (kclock s)\<rparr>)"

definition kal_socket_pair :: "'a kport_scheme \<Rightarrow> (int \<times> int) option \<times> 'a kport_scheme" where
  "kal_socket_pair s = (host_socket_pair (khost s) (kclock s), s\<lparr>kclock := Suc (kclock s)\<rparr>)"

definition kal_close :: "int \<Rightarrow> 'a kport_scheme \<Rightarrow> 'a kport_scheme" where
  "kal_close fd s = s\<lparr>kclosed := kclosed s @ [fd]\<rparr>"

section \<open>The table\<close>

definition port_obj :: "nat \<Rightarrow> 'a kport_scheme \<Rightarrow> mach_port_object" where
  "port_obj i s = mxwl_port_table s ! i"

definition upd_port ::
  "nat \<Rightarrow> (mach_port_object \<Rightarrow> mach_port_object) \<Rightarrow> 'a kport_scheme \<Rightarrow> 'a kport_scheme" where
  "upd_port i f s = s\<lparr>mxwl_port_table := (mxwl_port_table s)[i := f (port_obj i s)]\<rparr>"

text \<open>\<^verbatim>\<open>mach_port_lookup\<close>: the index of the object, where the code returns its address.\<close>

definition mach_port_lookup :: "mach_port_t \<Rightarrow> 'a kport_scheme \<Rightarrow> nat option" where
  "mach_port_lookup port s =
     (if port \<le> 0 \<or> int MACH_PORT_TABLE_SIZE < port then None
      else if \<not> po_in_use (port_obj (nat (port - 1)) s) then None
      else Some (nat (port - 1)))"

definition mach_port_create_socket_pair :: "nat \<Rightarrow> 'a kport_scheme \<Rightarrow> int \<times> 'a kport_scheme" where
  "mach_port_create_socket_pair i s =
     (case kal_socket_pair s of
        (None, s) \<Rightarrow> (- 1, s)
      | (Some (fd0, fd1), s) \<Rightarrow>
          (fd0, kal_close fd1 (upd_port i (\<lambda>obj. obj\<lparr>po_fd := fd0\<rparr>) s)))"

definition find_free_port :: "'a kport_scheme \<Rightarrow> nat option" where
  "find_free_port s = find (\<lambda>i. \<not> po_in_use (port_obj i s)) [0..<MACH_PORT_TABLE_SIZE]"

definition fresh_port_object :: "nat \<Rightarrow> int \<Rightarrow> mach_port_object" where
  "fresh_port_object i right =
     \<lparr>po_name = int i + 1, po_type = MACH_PORT_TYPE_DYNAMIC, po_rights = right, po_fd = - 1,
      po_ref_count = 1, po_in_use = True, po_queue = replicate MACH_PORT_QUEUE_MAX None,
      po_head = 0, po_tail = 0, po_count = 0\<rparr>"

definition mach_port_allocate :: "int \<Rightarrow> 'a kport_scheme \<Rightarrow> mach_port_t \<times> 'a kport_scheme" where
  "mach_port_allocate right s =
     (case find_free_port s of
        None \<Rightarrow> (MACH_PORT_NULL, s)
      | Some i \<Rightarrow>
          (let s = upd_port i (\<lambda>_. fresh_port_object i right) s;
               (rc, s) = (if right = MACH_PORT_RIGHT_RECEIVE then mach_port_create_socket_pair i s
                          else (0, s))
           in if rc < 0 then (MACH_PORT_NULL, upd_port i (\<lambda>obj. obj\<lparr>po_in_use := False\<rparr>) s)
              else (po_name (port_obj i s),
                    s\<lparr>mxwl_port_table_count := mxwl_port_table_count s + 1\<rparr>)))"

section \<open>The message ring\<close>

definition ring_put :: "msg_buf \<Rightarrow> mach_port_object \<Rightarrow> mach_port_object" where
  "ring_put m obj =
     obj\<lparr>po_queue := (po_queue obj)[po_tail obj := Some m],
         po_tail := (po_tail obj + 1) mod MACH_PORT_QUEUE_MAX,
         po_count := po_count obj + 1\<rparr>"

definition ring_get :: "mach_port_object \<Rightarrow> msg_buf option \<times> mach_port_object" where
  "ring_get obj =
     (po_queue obj ! po_head obj,
      obj\<lparr>po_queue := (po_queue obj)[po_head obj := None],
          po_head := (po_head obj + 1) mod MACH_PORT_QUEUE_MAX,
          po_count := po_count obj - 1\<rparr>)"

text \<open>
  \<^verbatim>\<open>mach_port_queue_message\<close>: the copy has the size the message's header (its first field)
  declares; a declared size beyond the buffer is a read outside it.
\<close>

definition mach_port_queue_message ::
  "mach_port_t \<Rightarrow> msg_buf \<Rightarrow> 'a kport_scheme \<Rightarrow> (kern_return_t \<times> 'a kport_scheme) option" where
  "mach_port_queue_message port msg s =
     (case mach_port_lookup port s of
        None \<Rightarrow> Some (KERN_INVALID_RIGHT, s)
      | Some i \<Rightarrow>
          if MACH_PORT_QUEUE_MAX \<le> po_count (port_obj i s) then Some (KERN_NO_SPACE, s)
          else do {
            size \<leftarrow> rd32 msg 0;
            let (ok, s) = kal_malloc s;
            if \<not> ok then Some (KERN_FAILURE, s)
            else do {
              copy \<leftarrow> c_memcpy (replicate (unat size) 0) msg (unat size);
              Some (KERN_SUCCESS, upd_port i (ring_put copy) s)
            }
          })"

definition mach_port_dequeue_message ::
  "mach_port_t \<Rightarrow> 'a kport_scheme \<Rightarrow> msg_buf option \<times> 'a kport_scheme" where
  "mach_port_dequeue_message port s =
     (case mach_port_lookup port s of
        None \<Rightarrow> (None, s)
      | Some i \<Rightarrow>
          if po_count (port_obj i s) = 0 then (None, s)
          else (fst (ring_get (port_obj i s)), upd_port i (\<lambda>obj. snd (ring_get obj)) s))"

text \<open>The loop of \<^verbatim>\<open>mach_port_deallocate\<close> that drains the queue: one dequeue per queued message.\<close>

fun drain_port :: "nat \<Rightarrow> mach_port_t \<Rightarrow> 'a kport_scheme \<Rightarrow> 'a kport_scheme" where
  "drain_port 0 port s = s"
| "drain_port (Suc n) port s = drain_port n port (snd (mach_port_dequeue_message port s))"

definition mach_port_deallocate ::
  "mach_port_t \<Rightarrow> 'a kport_scheme \<Rightarrow> kern_return_t \<times> 'a kport_scheme" where
  "mach_port_deallocate port s =
     (case mach_port_lookup port s of
        None \<Rightarrow> (KERN_INVALID_RIGHT, s)
      | Some i \<Rightarrow>
          (let fd = po_fd (port_obj i s);
               s = (if 0 \<le> fd then upd_port i (\<lambda>obj. obj\<lparr>po_fd := - 1\<rparr>) (kal_close fd s) else s);
               s = drain_port (po_count (port_obj i s)) port s;
               s = upd_port i (\<lambda>obj. obj\<lparr>po_in_use := False, po_ref_count := po_ref_count obj - 1\<rparr>) s
           in (KERN_SUCCESS, s\<lparr>mxwl_port_table_count := mxwl_port_table_count s - 1\<rparr>)))"

definition mach_port_destroy ::
  "mach_port_t \<Rightarrow> 'a kport_scheme \<Rightarrow> kern_return_t \<times> 'a kport_scheme" where
  "mach_port_destroy port s =
     (case mach_port_lookup port s of
        None \<Rightarrow> (KERN_INVALID_RIGHT, s)
      | Some i \<Rightarrow> mach_port_deallocate port (upd_port i (\<lambda>obj. obj\<lparr>po_ref_count := 0\<rparr>) s))"

text \<open>\<^verbatim>\<open>mach_port_insert_send\<close> and \<^verbatim>\<open>mach_port_insert_receive\<close>: the name is not used.\<close>

definition mach_port_insert_send ::
  "mach_port_t \<Rightarrow> mach_port_t \<Rightarrow> 'a kport_scheme \<Rightarrow> kern_return_t \<times> 'a kport_scheme" where
  "mach_port_insert_send port name s =
     (case mach_port_lookup port s of
        None \<Rightarrow> (KERN_INVALID_RIGHT, s)
      | Some i \<Rightarrow> (KERN_SUCCESS, upd_port i (\<lambda>obj. obj\<lparr>po_rights := MACH_PORT_RIGHT_SEND\<rparr>) s))"

definition mach_port_insert_receive ::
  "mach_port_t \<Rightarrow> mach_port_t \<Rightarrow> 'a kport_scheme \<Rightarrow> kern_return_t \<times> 'a kport_scheme" where
  "mach_port_insert_receive port name s =
     (case mach_port_lookup port s of
        None \<Rightarrow> (KERN_INVALID_RIGHT, s)
      | Some i \<Rightarrow> (KERN_SUCCESS, upd_port i (\<lambda>obj. obj\<lparr>po_rights := MACH_PORT_RIGHT_RECEIVE\<rparr>) s))"

section \<open>The ring as a list of messages\<close>

lemma MACH_PORT_QUEUE_MAX_pos [simp]: "0 < MACH_PORT_QUEUE_MAX"
  by (simp add: MACH_PORT_QUEUE_MAX_def)

definition ring_slot :: "mach_port_object \<Rightarrow> nat \<Rightarrow> nat" where
  "ring_slot obj j = (po_head obj + j) mod MACH_PORT_QUEUE_MAX"

definition ring_list :: "mach_port_object \<Rightarrow> msg_buf list" where
  "ring_list obj = map (\<lambda>j. the (po_queue obj ! ring_slot obj j)) [0..<po_count obj]"

definition ring_inv :: "mach_port_object \<Rightarrow> bool" where
  "ring_inv obj \<longleftrightarrow>
     length (po_queue obj) = MACH_PORT_QUEUE_MAX \<and>
     po_head obj < MACH_PORT_QUEUE_MAX \<and>
     po_tail obj = ring_slot obj (po_count obj) \<and>
     po_count obj \<le> MACH_PORT_QUEUE_MAX \<and>
     (\<forall>j < po_count obj. po_queue obj ! ring_slot obj j \<noteq> None)"

lemma ring_list_length [simp]: "length (ring_list obj) = po_count obj"
  by (simp add: ring_list_def)

lemma ring_slot_less [simp]: "ring_slot obj j < MACH_PORT_QUEUE_MAX"
  by (simp add: ring_slot_def)

lemma ring_slot_inj:
  "j < k \<Longrightarrow> k < MACH_PORT_QUEUE_MAX \<Longrightarrow> ring_slot obj j \<noteq> ring_slot obj k"
  unfolding ring_slot_def by (rule mod_add_neq) auto

lemma ring_fresh [simp]:
  "ring_inv (fresh_port_object i right)" "ring_list (fresh_port_object i right) = []"
  by (simp_all add: ring_inv_def ring_list_def ring_slot_def fresh_port_object_def)

text \<open>The ring depends on its four fields only.\<close>

lemma ring_other_fields [simp]:
  "ring_inv (obj\<lparr>po_fd := fd\<rparr>) = ring_inv obj" "ring_list (obj\<lparr>po_fd := fd\<rparr>) = ring_list obj"
  "ring_inv (obj\<lparr>po_rights := r\<rparr>) = ring_inv obj" "ring_list (obj\<lparr>po_rights := r\<rparr>) = ring_list obj"
  "ring_inv (obj\<lparr>po_ref_count := c\<rparr>) = ring_inv obj" "ring_list (obj\<lparr>po_ref_count := c\<rparr>) = ring_list obj"
  by (simp_all add: ring_inv_def ring_list_def ring_slot_def)

lemma ring_put_fields [simp]:
  "po_head (ring_put m obj) = po_head obj" "po_count (ring_put m obj) = Suc (po_count obj)"
  "po_in_use (ring_put m obj) = po_in_use obj" "po_name (ring_put m obj) = po_name obj"
  by (simp_all add: ring_put_def)

lemma ring_get_fields [simp]:
  "po_count (snd (ring_get obj)) = po_count obj - 1"
  "po_in_use (snd (ring_get obj)) = po_in_use obj" "po_name (snd (ring_get obj)) = po_name obj"
  "po_fd (snd (ring_get obj)) = po_fd obj"
  by (simp_all add: ring_get_def)

lemma ring_put_correct:
  assumes "ring_inv obj" "po_count obj < MACH_PORT_QUEUE_MAX"
  shows "ring_inv (ring_put m obj)" "ring_list (ring_put m obj) = ring_list obj @ [m]"
proof -
  let ?o = "ring_put m obj"
  have slot: "ring_slot ?o j = ring_slot obj j" for j
    by (simp add: ring_slot_def)
  have nth: "po_queue ?o ! ring_slot obj j = (if j = po_count obj then Some m else po_queue obj ! ring_slot obj j)"
    if "j \<le> po_count obj" for j
    using that assms ring_slot_inj [of j "po_count obj" obj]
    by (auto simp: ring_put_def ring_inv_def nth_list_update)
  show "ring_list ?o = ring_list obj @ [m]"
    by (auto simp: ring_list_def slot nth)
  show "ring_inv ?o"
    using assms nth unfolding ring_inv_def slot
    by (auto simp: less_Suc_eq_le) (auto simp: ring_put_def ring_slot_def mod_Suc_eq)
qed

lemma ring_get_correct:
  assumes "ring_inv obj" "0 < po_count obj"
  shows "fst (ring_get obj) = Some (hd (ring_list obj))"
    "ring_inv (snd (ring_get obj))" "ring_list (snd (ring_get obj)) = tl (ring_list obj)"
proof -
  let ?o = "snd (ring_get obj)"
  have slot0: "ring_slot obj 0 = po_head obj"
    using assms by (simp add: ring_slot_def ring_inv_def)
  have slot: "ring_slot ?o j = ring_slot obj (Suc j)" for j
    by (simp add: ring_slot_def ring_get_def mod_Suc_eq)
       (metis add_Suc mod_Suc_eq mod_add_left_eq)
  have nth: "po_queue ?o ! ring_slot obj (Suc j) = po_queue obj ! ring_slot obj (Suc j)"
    if "Suc j < po_count obj" for j
    using that assms ring_slot_inj [of 0 "Suc j" obj]
    by (auto simp: ring_get_def ring_inv_def slot0)
  show "fst (ring_get obj) = Some (hd (ring_list obj))"
    using assms by (simp add: ring_get_def ring_list_def ring_inv_def slot0 hd_map upt_conv_Cons)
      (metis not_None_eq option.sel slot0)
  have "ring_list ?o = map (\<lambda>j. the (po_queue obj ! ring_slot obj (Suc j))) [0..<po_count obj - 1]"
    by (auto simp: ring_list_def slot nth)
  also have "\<dots> = tl (ring_list obj)"
    using assms(2) by (cases "po_count obj") (simp_all add: ring_list_def map_tl [symmetric] upt_rec [of 0] map_Suc_upt [symmetric] del: upt_Suc)
  finally show "ring_list ?o = tl (ring_list obj)" .
  have "po_tail ?o = ring_slot ?o (po_count ?o)"
    unfolding slot using assms by (simp add: ring_get_def ring_inv_def)
  then show "ring_inv ?o"
    using assms nth unfolding ring_inv_def slot
    by (auto simp: ring_get_def)
qed

end
