(* ===== verification/Mach_Port_Correct.thy ===== *)
theory Mach_Port_Correct
  imports Mach_Port
begin

text \<open>
  What the port table guarantees.  The abstract value of the table is the partial map \<open>ports\<close>
  from the names in use to their queued messages, oldest first; the operations of
  \<^verbatim>\<open>mach_port.c\<close> are shown to implement the corresponding map operations, and \<open>kport_inv\<close> to
  hold in every state they reach.
\<close>

section \<open>The table under an update\<close>

lemma upd_port_fields [simp]:
  "length (mxwl_port_table (upd_port i f s)) = length (mxwl_port_table s)"
  "mxwl_port_table_count (upd_port i f s) = mxwl_port_table_count s"
  "kclosed (upd_port i f s) = kclosed s" "kclock (upd_port i f s) = kclock s"
  "khost (upd_port i f s) = khost s" "kport.more (upd_port i f s) = kport.more s"
  by (simp_all add: upd_port_def)

lemma port_obj_upd_port [simp]:
  "i < length (mxwl_port_table s) \<Longrightarrow>
   port_obj j (upd_port i f s) = (if j = i then f (port_obj i s) else port_obj j s)"
  by (simp add: port_obj_def upd_port_def)

lemma port_obj_other [simp]:
  "port_obj i (s\<lparr>kclock := t\<rparr>) = port_obj i s" "port_obj i (s\<lparr>kclosed := c\<rparr>) = port_obj i s"
  "port_obj i (s\<lparr>mxwl_port_table_count := n\<rparr>) = port_obj i s"
  by (simp_all add: port_obj_def)

lemma lookup_other [simp]:
  "mach_port_lookup p (s\<lparr>kclock := t\<rparr>) = mach_port_lookup p s"
  "mach_port_lookup p (s\<lparr>kclosed := c\<rparr>) = mach_port_lookup p s"
  "mach_port_lookup p (s\<lparr>mxwl_port_table_count := n\<rparr>) = mach_port_lookup p s"
  by (simp_all add: mach_port_lookup_def)

section \<open>Abstract value and invariant\<close>

definition ports :: "'a kport_scheme \<Rightarrow> mach_port_t \<rightharpoonup> msg_buf list" where
  "ports s = (\<lambda>p. map_option (\<lambda>i. ring_list (port_obj i s)) (mach_port_lookup p s))"

definition port_ok :: "nat \<Rightarrow> mach_port_object \<Rightarrow> bool" where
  "port_ok i obj \<longleftrightarrow> (po_in_use obj \<longrightarrow> po_name obj = int i + 1 \<and> ring_inv obj)"

definition kport_inv :: "'a kport_scheme \<Rightarrow> bool" where
  "kport_inv s \<longleftrightarrow>
     length (mxwl_port_table s) = MACH_PORT_TABLE_SIZE \<and>
     (\<forall>i < MACH_PORT_TABLE_SIZE. port_ok i (port_obj i s)) \<and>
     mxwl_port_table_count s = int (length (filter po_in_use (mxwl_port_table s)))"

lemma lookup_Some:
  "mach_port_lookup p s = Some i \<longleftrightarrow>
   i < MACH_PORT_TABLE_SIZE \<and> p = int i + 1 \<and> po_in_use (port_obj i s)"
  by (auto simp: mach_port_lookup_def)

lemma lookup_index [simp]:
  "i < MACH_PORT_TABLE_SIZE \<Longrightarrow>
   mach_port_lookup (int i + 1) s = (if po_in_use (port_obj i s) then Some i else None)"
  by (auto simp: mach_port_lookup_def)

lemma lookup_upd_port:
  assumes "i < MACH_PORT_TABLE_SIZE" "length (mxwl_port_table s) = MACH_PORT_TABLE_SIZE"
  shows "mach_port_lookup p (upd_port i f s) =
    (if p = int i + 1 then (if po_in_use (f (port_obj i s)) then Some i else None)
     else mach_port_lookup p s)"
  using assms by (auto simp: mach_port_lookup_def)

lemma ports_None: "ports s p = None \<longleftrightarrow> mach_port_lookup p s = None"
  by (simp add: ports_def)

lemma ports_upd_port:
  assumes "i < MACH_PORT_TABLE_SIZE" "length (mxwl_port_table s) = MACH_PORT_TABLE_SIZE"
  shows "ports (upd_port i f s) = (ports s)(int i + 1 :=
    (if po_in_use (f (port_obj i s)) then Some (ring_list (f (port_obj i s))) else None))"
  using assms by (auto simp: ports_def lookup_upd_port fun_eq_iff lookup_Some split: option.splits)
    (auto simp: lookup_Some map_option_case split: option.splits)

lemma ports_other [simp]:
  "ports (s\<lparr>kclock := t\<rparr>) = ports s" "ports (s\<lparr>kclosed := c\<rparr>) = ports s"
  "ports (s\<lparr>mxwl_port_table_count := n\<rparr>) = ports s"
  by (simp_all add: ports_def)

lemma kport_inv_other [simp]:
  "kport_inv (s\<lparr>kclock := t\<rparr>) = kport_inv s" "kport_inv (s\<lparr>kclosed := c\<rparr>) = kport_inv s"
  "kport_inv (s\<lparr>kclock := t, mxwl_port_table_count := n\<rparr>) = kport_inv (s\<lparr>mxwl_port_table_count := n\<rparr>)"
  "kport_inv (s\<lparr>kclosed := c, mxwl_port_table_count := n\<rparr>) = kport_inv (s\<lparr>mxwl_port_table_count := n\<rparr>)"
  "kport_inv (s\<lparr>kclock := t, kclosed := c, mxwl_port_table_count := n\<rparr>) =
   kport_inv (s\<lparr>mxwl_port_table_count := n\<rparr>)"
  by (simp_all add: kport_inv_def)

lemma kport_inv_length: "kport_inv s \<Longrightarrow> length (mxwl_port_table s) = MACH_PORT_TABLE_SIZE"
  by (simp add: kport_inv_def)

lemma kport_inv_ring:
  assumes "kport_inv s" "mach_port_lookup p s = Some i"
  shows "ring_inv (port_obj i s)" "po_name (port_obj i s) = int i + 1"
  using assms by (auto simp: kport_inv_def port_ok_def lookup_Some)

text \<open>An update of one object with the change of the count that belongs to it.\<close>

lemma kport_inv_upd_port:
  assumes "kport_inv s" "i < MACH_PORT_TABLE_SIZE" "port_ok i (f (port_obj i s))"
    and "n = mxwl_port_table_count s + (if po_in_use (f (port_obj i s)) then 1 else 0)
           - (if po_in_use (port_obj i s) then 1 else 0)"
  shows "kport_inv ((upd_port i f s)\<lparr>mxwl_port_table_count := n\<rparr>)"
proof -
  have len: "i < length (mxwl_port_table s)"
    using assms(1,2) by (simp add: kport_inv_def)
  from length_filter_update [OF this, of po_in_use "f (port_obj i s)"] assms(4)
  have "n = int (length (filter po_in_use (mxwl_port_table (upd_port i f s))))"
    using assms(1) by (simp add: kport_inv_def upd_port_def port_obj_def split: if_splits)
  with assms len show ?thesis
    by (auto simp: kport_inv_def)
qed

lemma count_id [simp]: "s\<lparr>mxwl_port_table_count := mxwl_port_table_count s\<rparr> = s"
  by simp

lemma kport_inv_upd_same:
  assumes "kport_inv s" "i < MACH_PORT_TABLE_SIZE" "port_ok i (f (port_obj i s))"
    "po_in_use (f (port_obj i s)) = po_in_use (port_obj i s)"
  shows "kport_inv (upd_port i f s)"
  using kport_inv_upd_port [of s i f "mxwl_port_table_count s"] assms
  by simp (metis count_id upd_port_fields(2))

section \<open>Allocation\<close>

definition port_table_full :: "'a kport_scheme \<Rightarrow> bool" where
  "port_table_full s \<longleftrightarrow> (\<forall>i < MACH_PORT_TABLE_SIZE. po_in_use (port_obj i s))"

text \<open>The host refuses the socket pair of the next call, or gives a negative descriptor.\<close>

definition socket_refused :: "'a kport_scheme \<Rightarrow> bool" where
  "socket_refused s =
     (case host_socket_pair (khost s) (kclock s) of None \<Rightarrow> True | Some (fd0, fd1) \<Rightarrow> fd0 < 0)"

lemma find_free_port_None: "find_free_port s = None \<longleftrightarrow> port_table_full s"
  by (simp add: find_free_port_def port_table_full_def find_upt_None)

lemma find_free_port_Some:
  "find_free_port s = Some i \<Longrightarrow> i < MACH_PORT_TABLE_SIZE \<and> \<not> po_in_use (port_obj i s)"
  by (simp add: find_free_port_def find_upt_Some)

text \<open>A new object in a free slot, whatever descriptor it gets.\<close>

lemma fresh_port:
  assumes "kport_inv s" "i < MACH_PORT_TABLE_SIZE" "\<not> po_in_use (port_obj i s)"
    and "f (port_obj i s) = (fresh_port_object i right)\<lparr>po_fd := fd\<rparr>"
  shows "ports (upd_port i f s) = (ports s)(int i + 1 \<mapsto> [])"
    "kport_inv ((upd_port i f s)\<lparr>mxwl_port_table_count := mxwl_port_table_count s + 1\<rparr>)"
proof -
  have "po_in_use (f (port_obj i s))" "ring_list (f (port_obj i s)) = []" "port_ok i (f (port_obj i s))"
    using assms(4) by (simp_all add: port_ok_def) (simp_all add: fresh_port_object_def)
  with assms show "ports (upd_port i f s) = (ports s)(int i + 1 \<mapsto> [])"
    "kport_inv ((upd_port i f s)\<lparr>mxwl_port_table_count := mxwl_port_table_count s + 1\<rparr>)"
    by (auto simp: ports_upd_port kport_inv_length intro!: kport_inv_upd_port)
qed

lemma upd_port_twice [simp]:
  "i < length (mxwl_port_table s) \<Longrightarrow> upd_port i g (upd_port i f s) = upd_port i (g \<circ> f) s"
  by (simp add: upd_port_def port_obj_def)

lemma upd_port_commute [simp]:
  "upd_port i f (s\<lparr>kclock := t\<rparr>) = (upd_port i f s)\<lparr>kclock := t\<rparr>"
  "upd_port i f (s\<lparr>kclosed := c\<rparr>) = (upd_port i f s)\<lparr>kclosed := c\<rparr>"
  by (simp_all add: upd_port_def port_obj_def)

lemma allocate_result:
  assumes "kport_inv s" "find_free_port s = Some i"
  shows "mach_port_allocate right s =
    (if right \<noteq> MACH_PORT_RIGHT_RECEIVE then
       (int i + 1, (upd_port i (\<lambda>_. fresh_port_object i right) s)
                     \<lparr>mxwl_port_table_count := mxwl_port_table_count s + 1\<rparr>)
     else (case host_socket_pair (khost s) (kclock s) of
         None \<Rightarrow> (MACH_PORT_NULL,
                  upd_port i (\<lambda>_. (fresh_port_object i right)\<lparr>po_in_use := False\<rparr>) (s\<lparr>kclock := Suc (kclock s)\<rparr>))
       | Some (fd0, fd1) \<Rightarrow>
           (let s1 = s\<lparr>kclock := Suc (kclock s), kclosed := kclosed s @ [fd1]\<rparr> in
            if fd0 < 0
            then (MACH_PORT_NULL,
                  upd_port i (\<lambda>_. (fresh_port_object i right)\<lparr>po_fd := fd0, po_in_use := False\<rparr>) s1)
            else (int i + 1, (upd_port i (\<lambda>_. (fresh_port_object i right)\<lparr>po_fd := fd0\<rparr>) s1)
                     \<lparr>mxwl_port_table_count := mxwl_port_table_count s + 1\<rparr>))))"
  using assms find_free_port_Some [OF assms(2)] kport_inv_length [OF assms(1)]
  by (auto simp: mach_port_allocate_def mach_port_create_socket_pair_def kal_socket_pair_def
      kal_close_def comp_def split: option.splits)
    (simp_all add: fresh_port_object_def)

lemma allocate_correct:
  assumes "kport_inv s" "mach_port_allocate right s = (p, s')"
  shows "kport_inv s'"
    "if port_table_full s \<or> right = MACH_PORT_RIGHT_RECEIVE \<and> socket_refused s
     then p = MACH_PORT_NULL \<and> ports s' = ports s
     else 1 \<le> p \<and> p \<le> int MACH_PORT_TABLE_SIZE \<and> ports s p = None \<and> ports s' = (ports s)(p \<mapsto> [])"
proof -
  have "kport_inv s' \<and> (if port_table_full s \<or> right = MACH_PORT_RIGHT_RECEIVE \<and> socket_refused s
     then p = MACH_PORT_NULL \<and> ports s' = ports s
     else 1 \<le> p \<and> p \<le> int MACH_PORT_TABLE_SIZE \<and> ports s p = None \<and> ports s' = (ports s)(p \<mapsto> []))"
  proof (cases "find_free_port s")
    case None
    with assms show ?thesis
      by (simp add: find_free_port_None mach_port_allocate_def)
  next
    case (Some i)
    note i = find_free_port_Some [OF Some]
    have nf: "\<not> port_table_full s"
      using Some by (simp flip: find_free_port_None)
    have none: "ports s (int i + 1) = None"
      using i by (simp add: ports_None)
    have undo: "kport_inv (upd_port i (\<lambda>_. obj) s)" "ports (upd_port i (\<lambda>_. obj) s) = ports s"
      if "\<not> po_in_use obj" for obj
      using that i none kport_inv_length [OF assms(1)]
      by (auto simp: port_ok_def ports_upd_port fun_eq_iff intro!: kport_inv_upd_same assms(1))
    have new: "ports (upd_port i (\<lambda>_. (fresh_port_object i right)\<lparr>po_fd := fd\<rparr>) s) = (ports s)(int i + 1 \<mapsto> [])"
      "kport_inv ((upd_port i (\<lambda>_. (fresh_port_object i right)\<lparr>po_fd := fd\<rparr>) s)
         \<lparr>mxwl_port_table_count := mxwl_port_table_count s + 1\<rparr>)" for fd
      using fresh_port [OF assms(1), of i _ fd right] i by simp_all
    have plain: "fresh_port_object i right = (fresh_port_object i right)\<lparr>po_fd := - 1\<rparr>"
      by (simp add: fresh_port_object_def)
    note new_plain = new [of "- 1", folded plain]
    show ?thesis
      using assms(2) i nf none undo new new_plain
      unfolding allocate_result [OF assms(1) Some] socket_refused_def
      by (auto simp: Let_def split: if_splits option.splits)
  qed
  then show "kport_inv s'" "if port_table_full s \<or> right = MACH_PORT_RIGHT_RECEIVE \<and> socket_refused s
     then p = MACH_PORT_NULL \<and> ports s' = ports s
     else 1 \<le> p \<and> p \<le> int MACH_PORT_TABLE_SIZE \<and> ports s p = None \<and> ports s' = (ports s)(p \<mapsto> [])"
    by blast+
qed

end
