(* ===== verification/Mach_Port_Queue.thy ===== *)
theory Mach_Port_Queue
  imports Mach_Port_Correct
begin

text \<open>
  Messages in and out of a port, and the end of a port: what \<^verbatim>\<open>mach_port_queue_message\<close>,
  \<^verbatim>\<open>mach_port_dequeue_message\<close>, \<^verbatim>\<open>mach_port_deallocate\<close> and
  \<^verbatim>\<open>mach_port_destroy\<close> do to the map of ports, branch by branch.
\<close>

section \<open>Queueing\<close>

text \<open>The size a message declares in its first field, when it can be read.\<close>

definition declared_size :: "msg_buf \<Rightarrow> nat" where
  "declared_size msg = (case rd32 msg 0 of None \<Rightarrow> 0 | Some w \<Rightarrow> unat w)"

text \<open>A buffer that holds as many bytes as its header declares.\<close>

definition msg_fits :: "msg_buf \<Rightarrow> bool" where
  "msg_fits msg \<longleftrightarrow> rd32 msg 0 \<noteq> None \<and> declared_size msg \<le> length msg"

definition queued_copy :: "msg_buf \<Rightarrow> msg_buf" where
  "queued_copy msg = take (declared_size msg) msg"

lemma memcpy_fresh: "c_memcpy (replicate n 0) src n = (if n \<le> length src then Some (take n src) else None)"
  by (simp add: c_memcpy_def)

lemma ports_Some_lookup:
  assumes "ports s p = Some ms"
  obtains i where "mach_port_lookup p s = Some i" "ms = ring_list (port_obj i s)"
    "i < MACH_PORT_TABLE_SIZE" "p = int i + 1" "po_in_use (port_obj i s)"
  using assms by (auto simp: ports_def lookup_Some)

text \<open>Replacing the ring of a live port.\<close>

lemma ring_update:
  assumes "kport_inv s" "mach_port_lookup p s = Some i"
    and "ring_inv (f (port_obj i s))" "po_in_use (f (port_obj i s)) = po_in_use (port_obj i s)"
      "po_name (f (port_obj i s)) = po_name (port_obj i s)"
  shows "kport_inv (upd_port i f s)"
    "ports (upd_port i f s) = (ports s)(p \<mapsto> ring_list (f (port_obj i s)))"
  using assms kport_inv_ring(2) [OF assms(1,2)]
  by (auto simp: lookup_Some ports_upd_port kport_inv_length port_ok_def intro!: kport_inv_upd_same)

lemma queue_invalid:
  "ports s p = None \<Longrightarrow> mach_port_queue_message p msg s = Some (KERN_INVALID_RIGHT, s)"
  by (simp add: ports_None mach_port_queue_message_def)

lemma queue_full:
  "ports s p = Some ms \<Longrightarrow> MACH_PORT_QUEUE_MAX \<le> length ms \<Longrightarrow>
   mach_port_queue_message p msg s = Some (KERN_NO_SPACE, s)"
  by (erule ports_Some_lookup) (simp add: mach_port_queue_message_def)

lemma queue_correct:
  assumes "kport_inv s" "ports s p = Some ms" "length ms < MACH_PORT_QUEUE_MAX" "msg_fits msg"
  shows "\<exists>s'. mach_port_queue_message p msg s =
      Some ((if host_malloc (khost s) (kclock s) then KERN_SUCCESS else KERN_FAILURE), s') \<and>
    kport_inv s' \<and>
    ports s' = (if host_malloc (khost s) (kclock s) then (ports s)(p \<mapsto> ms @ [queued_copy msg]) else ports s)"
proof -
  from assms(2) obtain i where i: "mach_port_lookup p s = Some i" "ms = ring_list (port_obj i s)"
    by (rule ports_Some_lookup)
  from assms(4) obtain w where w: "rd32 msg 0 = Some w" "unat w \<le> length msg" "queued_copy msg = take (unat w) msg"
    by (auto simp: msg_fits_def declared_size_def queued_copy_def split: option.splits)
  from i have i1: "mach_port_lookup p (s\<lparr>kclock := t\<rparr>) = Some i" for t by simp
  note put = ring_put_correct [OF kport_inv_ring(1) [OF assms(1) i(1)]]
  show ?thesis
    using assms(1,3) i w put ring_update [OF _ i1, of "Suc (kclock s)" "ring_put (queued_copy msg)"]
    by (auto simp: mach_port_queue_message_def kal_malloc_def memcpy_fresh)
qed

text \<open>A message shorter than it declares makes the copy read outside the buffer.\<close>

lemma queue_overrun:
  assumes "ports s p = Some ms" "length ms < MACH_PORT_QUEUE_MAX" "\<not> msg_fits msg"
    "host_malloc (khost s) (kclock s)"
  shows "mach_port_queue_message p msg s = None"
proof -
  from assms(1) obtain i where "mach_port_lookup p s = Some i" "ms = ring_list (port_obj i s)"
    by (rule ports_Some_lookup)
  with assms show ?thesis
    by (auto simp: mach_port_queue_message_def msg_fits_def declared_size_def kal_malloc_def memcpy_fresh
        split: option.splits)
qed

section \<open>Dequeueing\<close>

lemma dequeue_nothing:
  "ports s p = None \<or> ports s p = Some [] \<Longrightarrow> mach_port_dequeue_message p s = (None, s)"
  by (auto simp: mach_port_dequeue_message_def ports_def dest: arg_cong [where f = length]
      split: option.splits)

lemma dequeue_correct:
  assumes "kport_inv s" "ports s p = Some (m # ms)"
  shows "\<exists>s'. mach_port_dequeue_message p s = (Some m, s') \<and> kport_inv s' \<and>
    ports s' = (ports s)(p \<mapsto> ms)"
proof -
  from assms(2) obtain i where i: "mach_port_lookup p s = Some i" "m # ms = ring_list (port_obj i s)"
    by (rule ports_Some_lookup)
  from i(2) have len: "0 < po_count (port_obj i s)"
    using ring_list_length [of "port_obj i s"] by (metis length_greater_0_conv list.simps(3))
  note get = ring_get_correct [OF kport_inv_ring(1) [OF assms(1) i(1)] len]
  from i(2) [symmetric] len ring_update [OF assms(1) i(1), of "\<lambda>obj. snd (ring_get obj)"] get
  show ?thesis
    by (simp add: mach_port_dequeue_message_def i(1))
qed

section \<open>The queue of a port as a fifo\<close>

definition kport_messages :: "mach_port_t \<Rightarrow> 'a kport_scheme \<Rightarrow> msg_buf list" where
  "kport_messages p s = (case ports s p of None \<Rightarrow> [] | Some ms \<Rightarrow> ms)"

text \<open>The client's view of the two operations: accepted or not, and a message or nothing.\<close>

definition kport_put :: "mach_port_t \<Rightarrow> msg_buf \<Rightarrow> 'a kport_scheme \<Rightarrow> bool \<times> 'a kport_scheme" where
  "kport_put p msg s =
     (if \<not> msg_fits msg then (False, s)
      else case mach_port_queue_message p msg s of
          None \<Rightarrow> (False, s)
        | Some (kr, s') \<Rightarrow> (kr = KERN_SUCCESS, s'))"

lemma kport_put_law:
  assumes "kport_inv s" "kport_put p msg s = (ok, s')"
  shows "kport_inv s' \<and> kport_messages p s' = kport_messages p s @ (if ok then [queued_copy msg] else [])"
proof (cases "ports s p")
  case None
  with assms queue_invalid [OF None, of msg] show ?thesis
    by (auto simp: kport_put_def split: if_splits)
next
  case (Some ms)
  then show ?thesis
    using assms queue_full [OF Some, of msg] queue_correct [OF assms(1) Some, of msg]
    by (cases "length ms < MACH_PORT_QUEUE_MAX")
       (auto simp: kport_put_def kport_messages_def split: if_splits)
qed

lemma kport_get_law:
  assumes "kport_inv s" "mach_port_dequeue_message p s = (r, s')"
  shows "kport_inv s' \<and> kport_messages p s = (case r of None \<Rightarrow> [] | Some m \<Rightarrow> [m]) @ kport_messages p s' \<and>
    (r = None \<longleftrightarrow> kport_messages p s = [])"
proof (cases "kport_messages p s")
  case Nil
  then have "ports s p = None \<or> ports s p = Some []"
    by (auto simp: kport_messages_def split: option.splits)
  with dequeue_nothing assms Nil show ?thesis by fastforce
next
  case (Cons m ms)
  then have "ports s p = Some (m # ms)"
    by (auto simp: kport_messages_def split: option.splits)
  from dequeue_correct [OF assms(1) this] assms(2) Cons show ?thesis
    by (auto simp: kport_messages_def)
qed

interpretation port_fifo: fifo "kport_messages p" kport_inv queued_copy "kport_put p" "mach_port_dequeue_message p"
  for p
  using kport_put_law kport_get_law by unfold_locales blast+

section \<open>Deallocation\<close>

lemma drain_correct:
  "kport_inv s \<Longrightarrow> ports s p = Some ms \<Longrightarrow> n = length ms \<Longrightarrow>
   kport_inv (drain_port n p s) \<and> ports (drain_port n p s) = (ports s)(p \<mapsto> [])"
proof (induction ms arbitrary: n s)
  case Nil
  then show ?case by (simp add: fun_upd_idem)
next
  case (Cons m ms)
  from dequeue_correct [OF Cons.prems(1,2)] obtain s' where
    s': "mach_port_dequeue_message p s = (Some m, s')" "kport_inv s'" "ports s' = (ports s)(p \<mapsto> ms)"
    by blast
  with Cons.IH [OF s'(2)] Cons.prems(3) show ?case by (simp add: fun_upd_twist fun_eq_iff)
qed

text \<open>Draining leaves everything but the rings alone.\<close>

lemma dequeue_frame:
  assumes "mach_port_dequeue_message p s = (r, s')"
  shows "kclosed s' = kclosed s" "mxwl_port_table_count s' = mxwl_port_table_count s"
    "length (mxwl_port_table s') = length (mxwl_port_table s)" "kport.more s' = kport.more s"
    "kclock s' = kclock s" "khost s' = khost s"
  using assms by (auto simp: mach_port_dequeue_message_def split: option.splits if_splits)

lemma drain_frame [simp]:
  "kclosed (drain_port n p s) = kclosed s"
  "mxwl_port_table_count (drain_port n p s) = mxwl_port_table_count s"
  "length (mxwl_port_table (drain_port n p s)) = length (mxwl_port_table s)"
  "kport.more (drain_port n p s) = kport.more s"
  "kclock (drain_port n p s) = kclock s" "khost (drain_port n p s) = khost s"
  by (induction n p s rule: drain_port.induct) (simp_all add: dequeue_frame [OF surjective_pairing])

lemma deallocate_invalid:
  "ports s p = None \<Longrightarrow> mach_port_deallocate p s = (KERN_INVALID_RIGHT, s)"
  "ports s p = None \<Longrightarrow> mach_port_destroy p s = (KERN_INVALID_RIGHT, s)"
  by (simp_all add: ports_None mach_port_deallocate_def mach_port_destroy_def)

text \<open>The descriptor of a port that is in use, if it holds one.\<close>

definition held_fds :: "mach_port_t \<Rightarrow> 'a kport_scheme \<Rightarrow> int list" where
  "held_fds p s =
     (case mach_port_lookup p s of
        None \<Rightarrow> []
      | Some i \<Rightarrow> if 0 \<le> po_fd (port_obj i s) then [po_fd (port_obj i s)] else [])"

lemma kport_inv_close [simp]: "kport_inv (kal_close fd s) = kport_inv s"
  "ports (kal_close fd s) = ports s" "mach_port_lookup p (kal_close fd s) = mach_port_lookup p s"
  "port_obj i (kal_close fd s) = port_obj i s"
  by (simp_all add: kal_close_def)

lemma deallocate_correct:
  assumes "kport_inv s" "ports s p = Some ms"
  shows "\<exists>s'. mach_port_deallocate p s = (KERN_SUCCESS, s') \<and> kport_inv s' \<and>
    ports s' = (ports s)(p := None) \<and> kclosed s' = kclosed s @ held_fds p s"
proof -
  from assms(2) obtain i where i: "mach_port_lookup p s = Some i" "ms = ring_list (port_obj i s)"
    "i < MACH_PORT_TABLE_SIZE" "p = int i + 1" "po_in_use (port_obj i s)"
    by (rule ports_Some_lookup)
  define s1 where "s1 = (if 0 \<le> po_fd (port_obj i s)
    then upd_port i (\<lambda>obj. obj\<lparr>po_fd := - 1\<rparr>) (kal_close (po_fd (port_obj i s)) s) else s)"
  have 1: "kport_inv s1" "ports s1 = ports s" "kclosed s1 = kclosed s @ held_fds p s"
    using assms i ring_update [of "kal_close (po_fd (port_obj i s)) s" p i "\<lambda>obj. obj\<lparr>po_fd := - 1\<rparr>"]
      kport_inv_ring(1) [OF assms(1) i(1)]
    by (auto simp: s1_def held_fds_def kal_close_def fun_upd_idem)
  define s2 where "s2 = drain_port (po_count (port_obj i s1)) p s1"
  have "po_count (port_obj i s1) = length ms"
    using i 1(2) assms(2) by (metis lookup_index option.sel ports_Some_lookup ring_list_length)
  with drain_correct [OF 1(1), of p ms] 1 assms(2)
  have 2: "kport_inv s2" "ports s2 = (ports s)(p \<mapsto> [])" "kclosed s2 = kclosed s1"
    by (simp_all add: s2_def)
  from 2(2) obtain j where "mach_port_lookup p s2 = Some j"
    by (metis fun_upd_same ports_Some_lookup)
  with i(3,4) have l2: "mach_port_lookup p s2 = Some i" "po_in_use (port_obj i s2)"
    by (auto split: if_splits)
  let ?f = "\<lambda>obj. obj\<lparr>po_in_use := False, po_ref_count := po_ref_count obj - 1\<rparr>"
  let ?s3 = "(upd_port i ?f s2)\<lparr>mxwl_port_table_count := mxwl_port_table_count s2 - 1\<rparr>"
  have "mach_port_deallocate p s = (KERN_SUCCESS, ?s3)"
    unfolding mach_port_deallocate_def i(1) s2_def s1_def by (simp add: Let_def)
  moreover have "kport_inv ?s3"
    using 2(1) i(3) l2 by (intro kport_inv_upd_port) (simp_all add: port_ok_def)
  moreover have "ports ?s3 = (ports s)(p := None)"
    using 2(1,2) i(3,4) by (simp add: ports_upd_port kport_inv_length)
  ultimately show ?thesis
    using 1(3) 2(3) by auto
qed

lemma destroy_correct:
  assumes "kport_inv s" "ports s p = Some ms"
  shows "\<exists>s'. mach_port_destroy p s = (KERN_SUCCESS, s') \<and> kport_inv s' \<and>
    ports s' = (ports s)(p := None) \<and> kclosed s' = kclosed s @ held_fds p s"
proof -
  from assms(2) obtain i where i: "mach_port_lookup p s = Some i" "ms = ring_list (port_obj i s)"
    "i < MACH_PORT_TABLE_SIZE" "p = int i + 1" "po_in_use (port_obj i s)"
    by (rule ports_Some_lookup)
  let ?s1 = "upd_port i (\<lambda>obj. obj\<lparr>po_ref_count := 0\<rparr>) s"
  have "kport_inv ?s1" "ports ?s1 = ports s"
    using assms i ring_update [of s p i "\<lambda>obj. obj\<lparr>po_ref_count := 0\<rparr>"] kport_inv_ring(1) [OF assms(1) i(1)]
    by (auto simp: fun_upd_idem)
  moreover have "held_fds p ?s1 = held_fds p s" "kclosed ?s1 = kclosed s"
    using i kport_inv_length [OF assms(1)] by (simp_all add: held_fds_def lookup_upd_port)
  ultimately show ?thesis
    using deallocate_correct [of ?s1 p ms] assms(2) i(1) by (simp add: mach_port_destroy_def)
qed

section \<open>The layers above\<close>

lemma ports_cong: "mxwl_port_table s = mxwl_port_table s' \<Longrightarrow> ports s = ports s'"
  by (simp add: ports_def mach_port_lookup_def port_obj_def cong: if_cong)

lemma kport_inv_cong:
  "mxwl_port_table s = mxwl_port_table s' \<Longrightarrow> mxwl_port_table_count s = mxwl_port_table_count s' \<Longrightarrow>
   kport_inv s = kport_inv s'"
  by (simp add: kport_inv_def port_obj_def)

lemma allocate_more [simp]: "kport.more (snd (mach_port_allocate right s)) = kport.more s"
  by (auto simp: mach_port_allocate_def mach_port_create_socket_pair_def kal_socket_pair_def kal_close_def
      Let_def split: option.splits prod.splits if_splits)

lemma deallocate_more [simp]:
  "kport.more (snd (mach_port_deallocate p s)) = kport.more s"
  "kport.more (snd (mach_port_destroy p s)) = kport.more s"
  by (auto simp: mach_port_destroy_def mach_port_deallocate_def kal_close_def Let_def split: option.splits)

lemma queue_message_more:
  "mach_port_queue_message p msg s = Some (kr, s') \<Longrightarrow> kport.more s' = kport.more s"
  by (auto simp: mach_port_queue_message_def kal_malloc_def Option.bind_eq_Some_conv split: option.splits if_splits)

lemma dequeue_more [simp]: "kport.more (snd (mach_port_dequeue_message p s)) = kport.more s"
  by (auto simp: mach_port_dequeue_message_def split: option.splits)

end
