(* ===== verification/Mach_Ipc.thy ===== *)
theory Mach_Ipc
  imports Mach_Port_Queue
begin

text \<open>
  Message passing and the bootstrap name service, \<^verbatim>\<open>Kernel/mxwl/ipc/ipc.c\<close>.

  A message is a byte buffer.  Its header (\<^verbatim>\<open>mach_msg_header_t\<close>) has the size at offset 0, the
  remote port at 4, the local port at 8, the voucher at 12 and the message id at 16; a body starts
  at 20.  What happens while the receiver waits in \<^verbatim>\<open>kal_poll\<close> (the host, and other threads of the
  kernel) is a parameter of the receiving operations: a function from the polled descriptor and
  the state to the result, the \<^verbatim>\<open>POLLIN\<close> bit and the new state.
\<close>

section \<open>Data\<close>

definition MSGH_SIZE :: nat where "MSGH_SIZE = 0"
definition MSGH_REMOTE_PORT :: nat where "MSGH_REMOTE_PORT = 4"
definition MSGH_LOCAL_PORT :: nat where "MSGH_LOCAL_PORT = 8"
definition MSGH_ID :: nat where "MSGH_ID = 16"
definition SIZEOF_MACH_MSG :: nat where "SIZEOF_MACH_MSG = 20"

lemmas msgh_offsets = MSGH_SIZE_def MSGH_REMOTE_PORT_def MSGH_LOCAL_PORT_def MSGH_ID_def SIZEOF_MACH_MSG_def

definition IPC_MAX_SERVICES :: nat where "IPC_MAX_SERVICES = 128"
definition SERVICE_NAME_SIZE :: nat where "SERVICE_NAME_SIZE = 128"

record ipc_service_entry =
  se_name :: cstr
  se_port :: mach_port_t
  se_in_use :: bool

record kipc = kport +
  ipc_service_table :: "ipc_service_entry list"
  ipc_service_count :: nat
  ipc_bootstrap_port :: mach_port_t

type_synonym 's poller = "int \<Rightarrow> 's \<Rightarrow> (int \<times> bool) \<times> 's"

section \<open>Sending and receiving\<close>

text \<open>\<^verbatim>\<open>mach_msg_send\<close> writes the header of the caller's buffer, which is returned.\<close>

definition mach_msg_send ::
  "mach_port_t \<Rightarrow> msg_buf \<Rightarrow> uint32 \<Rightarrow> 'a kport_scheme \<Rightarrow>
   (kern_return_t \<times> msg_buf \<times> 'a kport_scheme) option" where
  "mach_msg_send dest msg sz s =
     (if mach_port_lookup dest s = None then Some (KERN_INVALID_RIGHT, msg, s)
      else do {
        msg \<leftarrow> wr32 msg MSGH_REMOTE_PORT (word_of_int dest);
        msg \<leftarrow> wr32 msg MSGH_SIZE sz;
        (kr, s) \<leftarrow> mach_port_queue_message dest msg s;
        Some (kr, msg, s)
      })"

text \<open>
  The loop of \<^verbatim>\<open>mach_msg_receive\<close>: a message (\<open>Inr\<close>), or the code of the failure.  \<^verbatim>\<open>timeout_ms\<close> and
  \<^verbatim>\<open>elapsed\<close> are of the type \<^verbatim>\<open>int\<close> of C; \<open>None\<close> is the overflow of \<^verbatim>\<open>elapsed += 100\<close>, which is undefined.
\<close>

definition INT_MAX :: int where "INT_MAX = 2147483647"

partial_function (option) rcv_loop ::
  "'a kport_scheme poller \<Rightarrow> mach_port_t \<Rightarrow> int \<Rightarrow> int \<Rightarrow> int \<Rightarrow> 'a kport_scheme \<Rightarrow>
   ((kern_return_t + msg_buf) \<times> 'a kport_scheme) option" where
  "rcv_loop kal_poll src fd timeout_ms elapsed s =
     (case mach_port_dequeue_message src s of
        (Some queued, s) \<Rightarrow> Some (Inr queued, s)
      | (None, s) \<Rightarrow>
          (case kal_poll fd s of
             ((ret, pollin), s) \<Rightarrow>
               if ret < 0 then Some (Inl KERN_FAILURE, s)
               else
                 (case (if 0 < ret \<and> pollin then mach_port_dequeue_message src s else (None, s)) of
                    (Some queued, s) \<Rightarrow> Some (Inr queued, s)
                  | (None, s) \<Rightarrow>
                      if INT_MAX < elapsed + 100 then None
                      else if 0 < timeout_ms \<and> timeout_ms \<le> elapsed + 100 then Some (Inl KERN_ABORTED, s)
                      else rcv_loop kal_poll src fd timeout_ms (elapsed + 100) s)))"

definition mach_msg_receive ::
  "'a kport_scheme poller \<Rightarrow> mach_port_t \<Rightarrow> msg_buf \<Rightarrow> uint32 \<Rightarrow> int \<Rightarrow> 'a kport_scheme \<Rightarrow>
   (kern_return_t \<times> msg_buf \<times> 'a kport_scheme) option" where
  "mach_msg_receive kal_poll src msg sz timeout_ms s =
     (case mach_port_lookup src s of
        None \<Rightarrow> Some (KERN_INVALID_RIGHT, msg, s)
      | Some i \<Rightarrow> do {
          (r, s) \<leftarrow> rcv_loop kal_poll src (po_fd (port_obj i s)) timeout_ms 0 s;
          (case r of
             Inl kr \<Rightarrow> Some (kr, msg, s)
           | Inr queued \<Rightarrow> do {
               copy_size \<leftarrow> rd32 queued MSGH_SIZE;
               msg \<leftarrow> c_memcpy msg queued (unat (min copy_size sz));
               Some (KERN_SUCCESS, msg, s)
             })
        })"

text \<open>\<^verbatim>\<open>mach_msg_rpc\<close>: the result is the code, the request buffer and the reply buffer.\<close>

definition mach_msg_rpc ::
  "'a kport_scheme poller \<Rightarrow> mach_port_t \<Rightarrow> msg_buf \<Rightarrow> uint32 \<Rightarrow> msg_buf \<Rightarrow> uint32 \<Rightarrow> int \<Rightarrow>
   'a kport_scheme \<Rightarrow> (kern_return_t \<times> msg_buf \<times> msg_buf \<times> 'a kport_scheme) option" where
  "mach_msg_rpc kal_poll dest msg send_size reply reply_size timeout_ms s =
     (case mach_port_allocate MACH_PORT_RIGHT_RECEIVE s of
        (reply_port, s) \<Rightarrow>
          if reply_port = MACH_PORT_NULL then Some (KERN_FAILURE, msg, reply, s)
          else do {
            msg \<leftarrow> wr32 msg MSGH_LOCAL_PORT (word_of_int reply_port);
            (kr, msg, s) \<leftarrow> mach_msg_send dest msg send_size s;
            if kr \<noteq> KERN_SUCCESS then Some (kr, msg, reply, snd (mach_port_destroy reply_port s))
            else do {
              (kr, reply, s) \<leftarrow> mach_msg_receive kal_poll reply_port reply reply_size timeout_ms s;
              Some (kr, msg, reply, snd (mach_port_destroy reply_port s))
            }
          })"

section \<open>The bootstrap name service\<close>

text \<open>The search both operations share: the first entry in use with the name.\<close>

definition service_find :: "cstr \<Rightarrow> 'a kipc_scheme \<Rightarrow> nat option" where
  "service_find name s =
     find (\<lambda>i. se_in_use (ipc_service_table s ! i) \<and> se_name (ipc_service_table s ! i) = name)
       [0..<ipc_service_count s]"

definition bootstrap_register ::
  "cstr option \<Rightarrow> mach_port_t \<Rightarrow> 'a kipc_scheme \<Rightarrow> kern_return_t \<times> 'a kipc_scheme" where
  "bootstrap_register name port s =
     (case name of
        None \<Rightarrow> (KERN_FAILURE, s)
      | Some name \<Rightarrow>
          if IPC_MAX_SERVICES \<le> ipc_service_count s then (KERN_FAILURE, s)
          else if service_find name s \<noteq> None then (KERN_NAME_EXISTS, s)
          else (KERN_SUCCESS,
                s\<lparr>ipc_service_table := (ipc_service_table s)[ipc_service_count s :=
                     \<lparr>se_name = c_strlcpy SERVICE_NAME_SIZE name, se_port = port, se_in_use = True\<rparr>],
                  ipc_service_count := ipc_service_count s + 1\<rparr>))"

text \<open>\<^verbatim>\<open>bootstrap_lookup\<close>: the port is what goes to \<^verbatim>\<open>*out_port\<close>; \<open>has_out\<close> says that this
  pointer is not null.\<close>

definition bootstrap_lookup ::
  "cstr option \<Rightarrow> bool \<Rightarrow> 'a kipc_scheme \<Rightarrow> kern_return_t \<times> mach_port_t option" where
  "bootstrap_lookup name has_out s =
     (case name of
        None \<Rightarrow> (KERN_INVALID_ARGUMENT, None)
      | Some name \<Rightarrow>
          if \<not> has_out then (KERN_INVALID_ARGUMENT, None)
          else (case service_find name s of
                  Some i \<Rightarrow> (KERN_SUCCESS, Some (se_port (ipc_service_table s ! i)))
                | None \<Rightarrow> (KERN_INVALID_NAME, None)))"

definition MACH_MSG_ID_BOOTSTRAP_REGISTER :: int where "MACH_MSG_ID_BOOTSTRAP_REGISTER = 0x101"
definition MACH_MSG_ID_BOOTSTRAP_LOOKUP :: int where "MACH_MSG_ID_BOOTSTRAP_LOOKUP = 0x102"

text \<open>Offsets in \<^verbatim>\<open>mach_bootstrap_request_t\<close>, \<^verbatim>\<open>mach_reply_t\<close> and \<^verbatim>\<open>mach_bootstrap_reply_t\<close>.\<close>

definition REQ_SERVICE_NAME :: nat where "REQ_SERVICE_NAME = 24"
definition REP_RET_CODE :: nat where "REP_RET_CODE = 20"
definition REP_SERVICE_PORT :: nat where "REP_SERVICE_PORT = 20"
definition SIZEOF_BOOTSTRAP_REPLY :: uint32 where "SIZEOF_BOOTSTRAP_REPLY = 24"

definition bootstrap_handle_request ::
  "msg_buf option \<Rightarrow> msg_buf option \<Rightarrow> 'a kipc_scheme \<Rightarrow>
   (kern_return_t \<times> msg_buf option \<times> 'a kipc_scheme) option" where
  "bootstrap_handle_request request reply s =
     (case (request, reply) of
        (Some req, Some rep) \<Rightarrow> do {
          idw \<leftarrow> rd32 req MSGH_ID;
          let id = sint idw;
          if id = MACH_MSG_ID_BOOTSTRAP_REGISTER then do {
            name \<leftarrow> c_string_at req REQ_SERVICE_NAME;
            port \<leftarrow> rd32 req MSGH_LOCAL_PORT;
            let (kr, s) = bootstrap_register (Some name) (sint port) s;
            rep \<leftarrow> wr32 rep MSGH_ID (word_of_int (id + 1));
            rep \<leftarrow> wr32 rep REP_RET_CODE (word_of_int (kern_code kr));
            Some (kr, Some rep, s)
          }
          else if id = MACH_MSG_ID_BOOTSTRAP_LOOKUP then do {
            name \<leftarrow> c_string_at req REQ_SERVICE_NAME;
            let (kr, found) = bootstrap_lookup (Some name) True s;
            let svc_port = (case found of None \<Rightarrow> MACH_PORT_NULL | Some p \<Rightarrow> p);
            rep \<leftarrow> wr32 rep MSGH_ID (word_of_int (id + 1));
            rep \<leftarrow> wr32 rep REP_SERVICE_PORT (word_of_int svc_port);
            rep \<leftarrow> wr32 rep MSGH_SIZE SIZEOF_BOOTSTRAP_REPLY;
            Some (kr, Some rep, s)
          }
          else Some (KERN_INVALID_ARGUMENT, Some rep, s)
        }
      | _ \<Rightarrow> Some (KERN_INVALID_ARGUMENT, reply, s))"

section \<open>Starting and stopping\<close>

definition empty_service :: ipc_service_entry where
  "empty_service = \<lparr>se_name = [], se_port = 0, se_in_use = False\<rparr>"

text \<open>\<^verbatim>\<open>ipc_init\<close>: \<open>compat_kr\<close> is the result of \<^verbatim>\<open>ipc_mach_compat_init\<close>, which sets up the
  other IPC layer and shares no state with this one.\<close>

definition ipc_init :: "kern_return_t \<Rightarrow> 'a kipc_scheme \<Rightarrow> kern_return_t \<times> 'a kipc_scheme" where
  "ipc_init compat_kr s =
     (if compat_kr \<noteq> KERN_SUCCESS then (compat_kr, s)
      else (case mach_port_allocate MACH_PORT_RIGHT_RECEIVE s of
        (bp, s) \<Rightarrow>
          let s = s\<lparr>ipc_bootstrap_port := bp\<rparr> in
          if bp = MACH_PORT_NULL then (KERN_FAILURE, s)
          else (KERN_SUCCESS,
                s\<lparr>ipc_service_count := 0,
                  ipc_service_table := replicate IPC_MAX_SERVICES empty_service\<rparr>)))"

definition ipc_shutdown :: "'a kipc_scheme \<Rightarrow> 'a kipc_scheme" where
  "ipc_shutdown s =
     (if ipc_bootstrap_port s \<noteq> MACH_PORT_NULL
      then (snd (mach_port_destroy (ipc_bootstrap_port s) s))\<lparr>ipc_bootstrap_port := MACH_PORT_NULL\<rparr>
      else s)"

end
