(* ===== verification/Mach_Ipc_Correct.thy ===== *)
theory Mach_Ipc_Correct
  imports Mach_Ipc
begin

text \<open>
  Message passing end to end: what is sent is what is received, the receiver's wait ends, an RPC
  leaves no reply port behind; and the bootstrap name service as a partial map from names to ports.
\<close>

section \<open>Sending\<close>

lemma send_invalid: "ports s dest = None \<Longrightarrow> mach_msg_send dest msg sz s = Some (KERN_INVALID_RIGHT, msg, s)"
  by (simp add: mach_msg_send_def ports_None)

text \<open>The header the sender's buffer ends up with.\<close>

definition sent_header :: "mach_port_t \<Rightarrow> uint32 \<Rightarrow> msg_buf \<Rightarrow> msg_buf \<Rightarrow> bool" where
  "sent_header dest sz msg msg' \<longleftrightarrow>
     length msg' = length msg \<and> rd32 msg' MSGH_SIZE = Some sz \<and>
     rd32 msg' MSGH_REMOTE_PORT = Some (word_of_int dest) \<and> drop 8 msg' = drop 8 msg"

lemma drop_wr32: "wr32 bs off w = Some bs' \<Longrightarrow> off + 4 \<le> n \<Longrightarrow> drop n bs' = drop n bs"
  by (rule nth_equalityI) (auto simp: wr32_length nth_wr32_other)

lemma send_header_written:
  assumes "8 \<le> length msg"
  obtains msg1 msg2 where "wr32 msg MSGH_REMOTE_PORT (word_of_int dest) = Some msg1"
    "wr32 msg1 MSGH_SIZE sz = Some msg2" "sent_header dest sz msg msg2"
proof -
  obtain msg1 where 1: "wr32 msg MSGH_REMOTE_PORT (word_of_int dest) = Some msg1"
    using wr32_Some [of MSGH_REMOTE_PORT msg] assms by (auto simp: MSGH_REMOTE_PORT_def)
  note len1 = wr32_length [OF 1]
  obtain msg2 where 2: "wr32 msg1 MSGH_SIZE sz = Some msg2"
    using wr32_Some [of MSGH_SIZE msg1] assms len1 by (auto simp: MSGH_SIZE_def)
  have "sent_header dest sz msg msg2"
    using wr32_length [OF 2] len1 rd32_wr32_same [OF 2] rd32_wr32_same [OF 1]
      rd32_wr32_other [OF 2, of MSGH_REMOTE_PORT] drop_wr32 [OF 2, of 8] drop_wr32 [OF 1, of 8]
    by (simp add: sent_header_def) (simp add: msgh_offsets)
  with 1 2 that show ?thesis by blast
qed

lemma sent_header_fits:
  "sent_header dest sz msg msg' \<Longrightarrow> unat sz \<le> length msg \<Longrightarrow> msg_fits msg' \<and> queued_copy msg' = take (unat sz) msg'"
  by (simp add: sent_header_def msg_fits_def queued_copy_def declared_size_def MSGH_SIZE_def)

lemma send_correct:
  assumes "kport_inv s" "ports s dest = Some ms" "length ms < MACH_PORT_QUEUE_MAX"
    "8 \<le> length msg" "unat sz \<le> length msg"
  shows "\<exists>msg' s'. mach_msg_send dest msg sz s =
      Some ((if host_malloc (khost s) (kclock s) then KERN_SUCCESS else KERN_FAILURE), msg', s') \<and>
    sent_header dest sz msg msg' \<and> kport_inv s' \<and>
    ports s' = (if host_malloc (khost s) (kclock s) then (ports s)(dest \<mapsto> ms @ [take (unat sz) msg'])
                else ports s)"
proof -
  from send_header_written [OF assms(4), of dest sz] obtain msg1 msg2 where
    w: "wr32 msg MSGH_REMOTE_PORT (word_of_int dest) = Some msg1"
    "wr32 msg1 MSGH_SIZE sz = Some msg2" "sent_header dest sz msg msg2"
    by blast
  have "mach_port_lookup dest s \<noteq> None"
    using assms(2) by (auto simp flip: ports_None)
  with w sent_header_fits [OF w(3) assms(5)] queue_correct [OF assms(1-3), of msg2] show ?thesis
    by (auto simp: mach_msg_send_def)
qed

lemma send_full:
  assumes "ports s dest = Some ms" "MACH_PORT_QUEUE_MAX \<le> length ms" "8 \<le> length msg"
  shows "\<exists>msg'. mach_msg_send dest msg sz s = Some (KERN_NO_SPACE, msg', s) \<and> sent_header dest sz msg msg'"
proof -
  from send_header_written [OF assms(3), of dest sz] obtain msg1 msg2 where
    w: "wr32 msg MSGH_REMOTE_PORT (word_of_int dest) = Some msg1"
    "wr32 msg1 MSGH_SIZE sz = Some msg2" "sent_header dest sz msg msg2"
    by blast
  have "mach_port_lookup dest s \<noteq> None"
    using assms(1) by (auto simp flip: ports_None)
  with w queue_full [OF assms(1,2)] show ?thesis
    by (auto simp: mach_msg_send_def)
qed

section \<open>Receiving\<close>

lemma rcv_loop_ready:
  "mach_port_dequeue_message src s = (Some m, s') \<Longrightarrow>
   rcv_loop kal_poll src fd timeout_ms elapsed s = Some (Inr m, s')"
  by (subst rcv_loop.simps) simp

lemma receive_ready:
  assumes "kport_inv s" "ports s src = Some (m # ms)"
    "rd32 m MSGH_SIZE = Some w" "unat w \<le> length m" "unat (min w sz) \<le> length buf"
  shows "\<exists>s'. mach_msg_receive kal_poll src buf sz timeout_ms s =
      Some (KERN_SUCCESS, take (unat (min w sz)) m @ drop (unat (min w sz)) buf, s') \<and>
    kport_inv s' \<and> ports s' = (ports s)(src \<mapsto> ms)"
proof -
  from dequeue_correct [OF assms(1,2)] obtain s' where
    s': "mach_port_dequeue_message src s = (Some m, s')" "kport_inv s'" "ports s' = (ports s)(src \<mapsto> ms)"
    by blast
  from assms(2) obtain i where "mach_port_lookup src s = Some i"
    by (rule ports_Some_lookup)
  moreover have "unat (min w sz) \<le> length m"
    using assms(4) by (metis le_trans min.cobounded1 word_le_nat_alt)
  ultimately show ?thesis
    using s' assms(3,5) rcv_loop_ready [OF s'(1)] by (simp add: mach_msg_receive_def c_memcpy_def)
qed

text \<open>
  With a timeout that the counter can reach in steps of 100, the loop ends whatever happens while it waits.
\<close>

lemma rcv_loop_ends:
  assumes "0 < timeout_ms" "timeout_ms \<le> 2147483600"
  shows "elapsed mod 100 = 0 \<Longrightarrow> elapsed < timeout_ms \<Longrightarrow> \<exists>r. rcv_loop kal_poll src fd timeout_ms elapsed s = Some r"
proof (induction "nat (timeout_ms - elapsed)" arbitrary: elapsed s rule: less_induct)
  case less
  have "elapsed + 100 \<le> 2147483600" using less.prems assms(2) by presburger
  then have max: "\<not> INT_MAX < elapsed + 100" by (simp add: INT_MAX_def)
  have "\<exists>r. rcv_loop kal_poll src fd timeout_ms (elapsed + 100) s = Some r"
    if "\<not> timeout_ms \<le> elapsed + 100" for s
    using that less by simp
  with assms max show ?case
    by (subst rcv_loop.simps) (auto split: prod.splits option.splits)
qed

text \<open>What the wait preserves: a property kept by \<^verbatim>\<open>kal_poll\<close> and by taking messages.\<close>

lemma rcv_loop_preserves:
  assumes "rcv_loop kal_poll src fd timeout_ms elapsed s = Some (r, s')" "P s"
    and "\<And>s. P s \<Longrightarrow> P (snd (kal_poll fd s))"
    and "\<And>s. P s \<Longrightarrow> P (snd (mach_port_dequeue_message src s))"
  shows "P s'"
proof -
  have poll: "P s1" if "kal_poll fd s = (x, s1)" "P s" for x s s1
    using assms(3) [OF that(2)] that(1) by simp
  have deq: "P s1" if "mach_port_dequeue_message src s = (x, s1)" "P s" for x s s1
    using assms(4) [OF that(2)] that(1) by simp
  have "kp = kal_poll \<longrightarrow> sr = src \<longrightarrow> f = fd \<longrightarrow> P s \<longrightarrow> P (snd y)"
    if "rcv_loop kp sr f t e s = Some y" for kp sr f t e s y
    using that
  proof (induction rule: rcv_loop.raw_induct [rotated, consumes 1, case_names step])
    case (step loop kp sr f t e s y)
    have ih: "P (snd y)" if "loop kal_poll src fd t' e' s1 = Some y" "P s1" for t' e' s1 y
      using step.IH [OF that(1)] that(2) by simp
    from step.hyps show ?case
      by (auto split: prod.splits option.splits if_splits dest: ih dest!: poll deq)
  qed
  from this [OF assms(1)] assms(2) show ?thesis by simp
qed

text \<open>
  A wait in which nothing arrives and the host does not fail: one iteration.
\<close>

definition silent :: "('a kport_scheme \<Rightarrow> bool) \<Rightarrow> 'a kport_scheme poller \<Rightarrow> mach_port_t \<Rightarrow> int \<Rightarrow> bool" where
  "silent P kal_poll src fd \<longleftrightarrow> (\<forall>s. P s \<longrightarrow> kport_inv s \<and> kport_messages src s = [] \<and>
     P (snd (kal_poll fd s)) \<and> 0 \<le> fst (fst (kal_poll fd s)))"

lemma rcv_loop_silent_step:
  assumes "silent P kal_poll src fd" "P s"
  shows "rcv_loop kal_poll src fd timeout_ms elapsed s =
    (if INT_MAX < elapsed + 100 then None
     else if 0 < timeout_ms \<and> timeout_ms \<le> elapsed + 100 then Some (Inl KERN_ABORTED, snd (kal_poll fd s))
     else rcv_loop kal_poll src fd timeout_ms (elapsed + 100) (snd (kal_poll fd s)))"
    and "P (snd (kal_poll fd s))"
proof -
  have none: "mach_port_dequeue_message src s = (None, s)" if "P s" for s
  proof (rule dequeue_nothing)
    have "kport_messages src s = []" using assms(1) that by (simp add: silent_def)
    then show "ports s src = None \<or> ports s src = Some []" by (auto simp: kport_messages_def split: option.splits)
  qed
  obtain ret pollin s1 where p: "kal_poll fd s = ((ret, pollin), s1)" by (metis prod.exhaust)
  with assms have 1: "P s1" "0 \<le> ret" by (auto simp: silent_def)
  then show "P (snd (kal_poll fd s))" by (simp add: p)
  show "rcv_loop kal_poll src fd timeout_ms elapsed s =
    (if INT_MAX < elapsed + 100 then None
     else if 0 < timeout_ms \<and> timeout_ms \<le> elapsed + 100 then Some (Inl KERN_ABORTED, snd (kal_poll fd s))
     else rcv_loop kal_poll src fd timeout_ms (elapsed + 100) (snd (kal_poll fd s)))"
    using 1 none [OF assms(2)] none [OF 1(1)] by (subst rcv_loop.simps) (auto simp: p)
qed

text \<open>It is given up after one poll for every 100 milliseconds begun.\<close>

lemma rcv_loop_idle:
  assumes "0 < timeout_ms" "timeout_ms \<le> 2147483600" "silent P kal_poll src fd"
  shows "P s \<Longrightarrow> elapsed mod 100 = 0 \<Longrightarrow> elapsed < timeout_ms \<Longrightarrow> int n = (timeout_ms - elapsed + 99) div 100 \<Longrightarrow>
    rcv_loop kal_poll src fd timeout_ms elapsed s =
    Some (Inl KERN_ABORTED, ((\<lambda>s. snd (kal_poll fd s)) ^^ n) s)"
proof (induction n arbitrary: elapsed s)
  case 0
  then show ?case by simp
next
  case (Suc n)
  let ?s1 = "snd (kal_poll fd s)"
  note step = rcv_loop_silent_step [OF assms(3) Suc.prems(1)]
  have "elapsed + 100 \<le> 2147483600" using Suc.prems(2,3) assms(2) by presburger
  then have "rcv_loop kal_poll src fd timeout_ms elapsed s =
      (if timeout_ms \<le> elapsed + 100 then Some (Inl KERN_ABORTED, ?s1)
       else rcv_loop kal_poll src fd timeout_ms (elapsed + 100) ?s1)"
    using assms(1) by (simp add: step(1) INT_MAX_def)
  also have "\<dots> = Some (Inl KERN_ABORTED, ((\<lambda>s. snd (kal_poll fd s)) ^^ n) ?s1)"
  proof (cases "timeout_ms \<le> elapsed + 100")
    case True
    with Suc.prems(3,4) have "n = 0" by linarith
    with True show ?thesis by simp
  next
    case False
    moreover have "int n = (timeout_ms - (elapsed + 100) + 99) div 100"
      using Suc.prems(4) by linarith
    ultimately show ?thesis
      using Suc.IH [OF step(2), of "elapsed + 100"] Suc.prems(2) by simp
  qed
  finally show ?case
    by (simp only: funpow_Suc_right comp_apply)
qed

text \<open>Without a timeout, or with one beyond the last multiple of 100, the counter overflows.\<close>

lemma rcv_loop_overflows:
  assumes "timeout_ms \<le> 0 \<or> 2147483600 < timeout_ms" "silent P kal_poll src fd"
  shows "P s \<Longrightarrow> elapsed mod 100 = 0 \<Longrightarrow> elapsed \<le> 2147483600 \<Longrightarrow> rcv_loop kal_poll src fd timeout_ms elapsed s = None"
proof (induction "nat (2147483600 - elapsed)" arbitrary: elapsed s rule: less_induct)
  case less
  note step = rcv_loop_silent_step [OF assms(2) less.prems(1)]
  show ?case
  proof (cases "elapsed = 2147483600")
    case True
    then show ?thesis by (simp add: step(1) INT_MAX_def)
  next
    case False
    then have "elapsed + 100 \<le> 2147483600" using less.prems(2,3) by presburger
    with less.hyps [OF _ step(2), of "elapsed + 100"] less.prems(2) assms(1) show ?thesis
      by (auto simp: step(1))
  qed
qed

section \<open>Remote procedure calls\<close>

text \<open>What an RPC leaves behind: whatever its outcome, its reply port is gone.\<close>

lemma send_preserves_inv:
  assumes "kport_inv s" "mach_msg_send dest msg sz s = Some (kr, msg', s')"
  shows "kport_inv s' \<and> dom (ports s') = dom (ports s)"
proof -
  have q: "kport_inv s' \<and> dom (ports s') = dom (ports s)"
    if "mach_port_queue_message dest m s = Some (kr, s')" for m kr s'
  proof (cases "ports s dest")
    case None
    with that assms(1) show ?thesis by (simp add: queue_invalid)
  next
    case (Some ms)
    show ?thesis
    proof (cases "length ms < MACH_PORT_QUEUE_MAX \<and> msg_fits m")
      case True
      with that queue_correct [OF assms(1) Some, of m] Some show ?thesis
        by (auto split: if_splits)
    next
      case False
      with that assms(1) Some queue_full [OF Some, of m] queue_overrun [OF Some, of m] show ?thesis
        by (cases "length ms < MACH_PORT_QUEUE_MAX")
           (auto simp: mach_port_queue_message_def kal_malloc_def Option.bind_eq_Some_conv
             split: option.splits if_splits)
    qed
  qed
  moreover from assms(2) have "s' = s \<or> (\<exists>m. mach_port_queue_message dest m s = Some (kr, s'))"
    by (auto simp: mach_msg_send_def Option.bind_eq_Some_conv split: if_splits)
  ultimately show ?thesis
    using assms(1) by metis
qed

lemma destroy_removes:
  "kport_inv s \<Longrightarrow> kport_inv (snd (mach_port_destroy p s)) \<and> ports (snd (mach_port_destroy p s)) = (ports s)(p := None)"
  using destroy_correct [of s p] deallocate_invalid(2) [of s p]
  by (cases "ports s p") (auto simp: fun_upd_idem)

lemma receive_preserves_inv:
  assumes "mach_msg_receive kal_poll src msg sz timeout_ms s = Some (kr, msg', s')"
    and "kport_inv s" "\<And>fd s. kport_inv s \<Longrightarrow> kport_inv (snd (kal_poll fd s))"
  shows "kport_inv s'"
proof -
  have deq: "kport_inv (snd (mach_port_dequeue_message src s))" if "kport_inv s" for s
    using kport_get_law [OF that surjective_pairing] by blast
  show ?thesis
  proof (cases "mach_port_lookup src s")
    case None
    with assms show ?thesis by (simp add: mach_msg_receive_def)
  next
    case (Some i)
    with assms(1) obtain r s1 where 1: "rcv_loop kal_poll src (po_fd (port_obj i s)) timeout_ms 0 s = Some (r, s1)"
      by (auto simp: mach_msg_receive_def Option.bind_eq_Some_conv)
    with assms(1) Some have "s1 = s'"
      by (cases r) (auto simp: mach_msg_receive_def Option.bind_eq_Some_conv)
    with 1 have "rcv_loop kal_poll src (po_fd (port_obj i s)) timeout_ms 0 s = Some (r, s')"
      by simp
    then show ?thesis
      using assms(2,3) deq by (auto intro: rcv_loop_preserves [where P = kport_inv])
  qed
qed

lemma rpc_correct:
  assumes "mach_msg_rpc kal_poll dest msg send_size reply reply_size timeout_ms s =
      Some (kr, msg', reply', s')"
    and "kport_inv s" "\<And>fd s. kport_inv s \<Longrightarrow> kport_inv (snd (kal_poll fd s))"
    and "mach_port_allocate MACH_PORT_RIGHT_RECEIVE s = (rp, s1)"
  shows "kport_inv s' \<and> ports s' rp = None"
proof (cases "rp = MACH_PORT_NULL")
  case True
  with assms allocate_correct [OF assms(2,4)] show ?thesis
    by (auto simp: mach_msg_rpc_def ports_None mach_port_lookup_def MACH_PORT_NULL_def)
next
  case False
  note inv1 = allocate_correct(1) [OF assms(2,4)]
  from assms(1,4) False obtain m2 kr2 m3 s2 where
    2: "mach_msg_send dest m2 send_size s1 = Some (kr2, m3, s2)"
    and rest: "s' = snd (mach_port_destroy rp s2) \<or>
      (\<exists>kr3 r3 s3. mach_msg_receive kal_poll rp reply reply_size timeout_ms s2 = Some (kr3, r3, s3) \<and>
        s' = snd (mach_port_destroy rp s3))"
    by (auto simp: mach_msg_rpc_def Option.bind_eq_Some_conv split: if_splits)
  have inv2: "kport_inv s2"
    using send_preserves_inv [OF inv1 2] by blast
  from rest show ?thesis
    using destroy_removes receive_preserves_inv [OF _ inv2 assms(3)] inv2 by fastforce
qed

section \<open>The name service\<close>

definition services :: "'a kipc_scheme \<Rightarrow> cstr \<rightharpoonup> mach_port_t" where
  "services s = (\<lambda>name. map_option (\<lambda>i. se_port (ipc_service_table s ! i)) (service_find name s))"

definition service_inv :: "'a kipc_scheme \<Rightarrow> bool" where
  "service_inv s \<longleftrightarrow>
     length (ipc_service_table s) = IPC_MAX_SERVICES \<and> ipc_service_count s \<le> IPC_MAX_SERVICES"

lemma lookup_services:
  "bootstrap_lookup (Some name) True s =
     (case services s name of
        None \<Rightarrow> (KERN_INVALID_NAME, None)
      | Some p \<Rightarrow> (KERN_SUCCESS, Some p))"
  by (simp add: bootstrap_lookup_def services_def split: option.splits)

lemma service_find_append:
  assumes "service_inv s" "ipc_service_count s < IPC_MAX_SERVICES"
  shows "service_find name (s\<lparr>ipc_service_table := (ipc_service_table s)[ipc_service_count s := e],
            ipc_service_count := ipc_service_count s + 1\<rparr>) =
     (case service_find name s of
        None \<Rightarrow> if se_in_use e \<and> se_name e = name then Some (ipc_service_count s) else None
      | Some i \<Rightarrow> Some i)"
proof -
  let ?P = "\<lambda>t i. se_in_use (t ! i) \<and> se_name (t ! i) = name"
  have "find (?P ((ipc_service_table s)[ipc_service_count s := e])) [0..<ipc_service_count s] =
        find (?P (ipc_service_table s)) [0..<ipc_service_count s]"
    by (rule find_upt_cong) simp
  with assms show ?thesis
    by (simp add: service_find_def find_upt_Suc service_inv_def del: upt_Suc split: option.splits)
qed

lemma service_find_less: "service_find name s = Some i \<Longrightarrow> i < ipc_service_count s"
  by (simp add: service_find_def find_upt_Some)

lemma register_correct:
  assumes "service_inv s" "bootstrap_register (Some name) port s = (kr, s')"
  shows "service_inv s'"
    "kr = (if IPC_MAX_SERVICES \<le> ipc_service_count s then KERN_FAILURE
           else if services s name \<noteq> None then KERN_NAME_EXISTS else KERN_SUCCESS)"
    "kr \<noteq> KERN_SUCCESS \<Longrightarrow> s' = s"
    "kr = KERN_SUCCESS \<Longrightarrow> services s' =
       (let stored = c_strlcpy SERVICE_NAME_SIZE name in
        if services s stored = None then (services s)(stored \<mapsto> port) else services s)"
proof -
  let ?stored = "c_strlcpy SERVICE_NAME_SIZE name"
  let ?e = "\<lparr>se_name = ?stored, se_port = port, se_in_use = True\<rparr>"
  from assms show "service_inv s'"
    by (auto simp: bootstrap_register_def service_inv_def split: if_splits)
  from assms show "kr = (if IPC_MAX_SERVICES \<le> ipc_service_count s then KERN_FAILURE
      else if services s name \<noteq> None then KERN_NAME_EXISTS else KERN_SUCCESS)"
    by (auto simp: bootstrap_register_def services_def split: if_splits)
  from assms show "kr \<noteq> KERN_SUCCESS \<Longrightarrow> s' = s"
    by (auto simp: bootstrap_register_def split: if_splits)
  assume "kr = KERN_SUCCESS"
  with assms have free: "ipc_service_count s < IPC_MAX_SERVICES"
    and s': "s' = s\<lparr>ipc_service_table := (ipc_service_table s)[ipc_service_count s := ?e],
                 ipc_service_count := ipc_service_count s + 1\<rparr>"
    by (auto simp: bootstrap_register_def split: if_splits)
  have "services s' n = (if services s n = None \<and> n = ?stored then Some port else services s n)" for n
    using service_find_append [OF assms(1) free, of n ?e] service_find_less [of n s] free assms(1)
    by (auto simp: services_def s' service_inv_def split: option.splits)
  then show "services s' =
       (let stored = ?stored in if services s stored = None then (services s)(stored \<mapsto> port) else services s)"
    by (auto simp: Let_def fun_eq_iff)
qed

text \<open>A name that does not fit in the table is stored cut off, so the service is not found under
  the name it was registered with, and a second registration is not refused.\<close>

lemma stored_name:
  "length name < SERVICE_NAME_SIZE \<Longrightarrow> c_strlcpy SERVICE_NAME_SIZE name = name"
  "SERVICE_NAME_SIZE \<le> length name \<Longrightarrow> c_strlcpy SERVICE_NAME_SIZE name \<noteq> name"
  by (auto simp: c_strlcpy_def SERVICE_NAME_SIZE_def dest: arg_cong [where f = length])

lemma register_long_name:
  assumes "service_inv s" "SERVICE_NAME_SIZE \<le> length name" "services s name = None"
    "bootstrap_register (Some name) port s = (KERN_SUCCESS, s')"
  shows "services s' name = None"
  using register_correct(4) [OF assms(1,4)] assms(3) stored_name(2) [OF assms(2)]
  by (auto simp: Let_def split: if_splits)

section \<open>Bootstrap requests\<close>

lemma handle_needs_room:
  assumes "rd32 req MSGH_ID = Some idw" "length rep = SIZEOF_MACH_MSG"
    "sint idw = MACH_MSG_ID_BOOTSTRAP_REGISTER \<or> sint idw = MACH_MSG_ID_BOOTSTRAP_LOOKUP"
  shows "bootstrap_handle_request (Some req) (Some rep) s = None"
proof -
  have no: "wr32 y REP_RET_CODE v = None" "wr32 y REP_SERVICE_PORT v = None"
    if "wr32 rep MSGH_ID w = Some y" for w v y
    using assms(2) wr32_length [OF that]
    by (simp_all add: REP_RET_CODE_def REP_SERVICE_PORT_def SIZEOF_MACH_MSG_def wr32_beyond)
  show ?thesis
  proof (rule ccontr)
    assume "bootstrap_handle_request (Some req) (Some rep) s \<noteq> None"
    with assms(1,3) show False
      by (auto simp: bootstrap_handle_request_def Option.bind_eq_Some_conv case_prod_unfold Let_def no
          split: if_splits)
  qed
qed

end
