(* ===== verification/Mach_Port_Props.thy ===== *)
theory Mach_Port_Props
  imports Mach_Port_Queue
begin

text \<open>
  The properties of the port table (\<^verbatim>\<open>Kernel/mxwl/mach/mach_port.c\<close>): the states it can
  reach, and what its operations guarantee.
\<close>

section \<open>The states the operations reach\<close>

text \<open>The table as the program starts: static storage, all zero.\<close>

definition empty_port_object :: mach_port_object where
  "empty_port_object =
     \<lparr>po_name = 0, po_type = 0, po_rights = 0, po_fd = 0, po_ref_count = 0, po_in_use = False,
      po_queue = replicate MACH_PORT_QUEUE_MAX None, po_head = 0, po_tail = 0, po_count = 0\<rparr>"

definition kport_boot :: "host \<Rightarrow> kport" where
  "kport_boot h = \<lparr>khost = h, kclock = 0, kclosed = [],
     mxwl_port_table = replicate MACH_PORT_TABLE_SIZE empty_port_object, mxwl_port_table_count = 0\<rparr>"

inductive port_step :: "kport \<Rightarrow> kport \<Rightarrow> bool" where
  allocate: "port_step s (snd (mach_port_allocate right s))"
| deallocate: "port_step s (snd (mach_port_deallocate p s))"
| destroy: "port_step s (snd (mach_port_destroy p s))"
| insert_send: "port_step s (snd (mach_port_insert_send p name s))"
| insert_receive: "port_step s (snd (mach_port_insert_receive p name s))"
| queue: "mach_port_queue_message p msg s = Some (kr, s') \<Longrightarrow> port_step s s'"
| dequeue: "port_step s (snd (mach_port_dequeue_message p s))"

inductive_cases port_stepE: "port_step s s'"

lemma boot_inv: "kport_inv (kport_boot h)"
  by (simp add: kport_inv_def kport_boot_def port_obj_def port_ok_def empty_port_object_def)

lemma boot_ports [simp]: "ports (kport_boot h) = Map.empty"
  by (auto simp: ports_def mach_port_lookup_def port_obj_def kport_boot_def empty_port_object_def
      MACH_PORT_TABLE_SIZE_def fun_eq_iff)

lemma queue_preserves:
  assumes "kport_inv s" "mach_port_queue_message p msg s = Some (kr, s')"
  shows "kport_inv s'"
proof -
  consider "s' = s" | t where "s' = s\<lparr>kclock := t\<rparr>" | "msg_fits msg"
    using assms(2)
    by (auto simp: mach_port_queue_message_def kal_malloc_def c_memcpy_def msg_fits_def declared_size_def
        Option.bind_eq_Some_conv split: option.splits if_splits)
  then show ?thesis
  proof cases
    case 3
    with assms kport_put_law [OF assms(1), of p msg] show ?thesis
      by (simp add: kport_put_def)
  qed (use assms(1) in simp_all)
qed

lemma rights_preserve:
  assumes "kport_inv s" "mach_port_lookup p s = Some i"
  shows "kport_inv (upd_port i (\<lambda>obj. obj\<lparr>po_rights := r\<rparr>) s)"
    "ports (upd_port i (\<lambda>obj. obj\<lparr>po_rights := r\<rparr>) s) = ports s"
  using assms ring_update [OF assms, of "\<lambda>obj. obj\<lparr>po_rights := r\<rparr>"] kport_inv_ring [OF assms]
  by (auto simp: ports_def fun_upd_idem)

lemma port_step_inv: "port_step s s' \<Longrightarrow> kport_inv s \<Longrightarrow> kport_inv s'"
proof (induction rule: port_step.induct)
  case (allocate s right)
  then show ?case using allocate_correct(1) surjective_pairing by blast
next
  case (deallocate s p)
  then show ?case
    using deallocate_correct [of s p] deallocate_invalid(1) [of s p] by (cases "ports s p") auto
next
  case (destroy s p)
  then show ?case
    using destroy_correct [of s p] deallocate_invalid(2) [of s p] by (cases "ports s p") auto
next
  case (insert_send s p name)
  then show ?case by (simp add: mach_port_insert_send_def rights_preserve split: option.splits)
next
  case (insert_receive s p name)
  then show ?case by (simp add: mach_port_insert_receive_def rights_preserve split: option.splits)
next
  case (queue p msg s kr s')
  then show ?case using queue_preserves by blast
next
  case (dequeue s p)
  then show ?case using kport_get_law [OF _ surjective_pairing] by blast
qed

text \<open>The counter of the table is the number of names in use.\<close>

lemma ports_dom: "kport_inv s \<Longrightarrow>
  dom (ports s) = (\<lambda>i. int i + 1) ` {i. i < MACH_PORT_TABLE_SIZE \<and> po_in_use (port_obj i s)}"
  by (auto simp: ports_def lookup_Some)

lemma ports_card:
  assumes "kport_inv s"
  shows "mxwl_port_table_count s = int (card (dom (ports s)))"
proof -
  have "card (dom (ports s)) = card {i. i < MACH_PORT_TABLE_SIZE \<and> po_in_use (port_obj i s)}"
    unfolding ports_dom [OF assms] by (rule card_image) (simp add: inj_on_def)
  then show ?thesis
    using assms by (simp add: kport_inv_def length_filter_conv_card port_obj_def)
qed

lemma queue_bound:
  assumes "kport_inv s" "ports s p = Some ms"
  shows "length ms \<le> MACH_PORT_QUEUE_MAX"
proof -
  from assms(2) obtain i where "mach_port_lookup p s = Some i" "ms = ring_list (port_obj i s)"
    by (rule ports_Some_lookup)
  with kport_inv_ring(1) [OF assms(1)] show ?thesis
    by (simp add: ring_inv_def)
qed

section \<open>A host and messages for the instances\<close>

definition sample_host :: host where
  "sample_host = \<lparr>host_malloc = \<lambda>_. True, host_socket_pair = \<lambda>n. Some (int (10 + 2 * n), int (11 + 2 * n))\<rparr>"

definition sample_msg :: "byte \<Rightarrow> msg_buf" where
  "sample_msg b = [21, 0, 0, 0,  0, 0, 0, 0,  0, 0, 0, 0,  0, 0, 0, 0,  0, 0, 0, 0,  b]"

definition sample_kport :: kport where
  "sample_kport = snd (mach_port_allocate MACH_PORT_RIGHT_RECEIVE (kport_boot sample_host))"

lemma sample_allocate:
  "mach_port_allocate MACH_PORT_RIGHT_RECEIVE (kport_boot sample_host) = (1, sample_kport)"
  "kport_inv sample_kport" "ports sample_kport = [1 \<mapsto> []]" "khost sample_kport = sample_host"
  "kclosed sample_kport = [11]" "mach_port_lookup 1 sample_kport = Some 0"
  "po_fd (port_obj 0 sample_kport) = 10"
proof -
  have free: "find_free_port (kport_boot sample_host) = Some 0"
    by (simp add: find_free_port_def find_upt_Some port_obj_def kport_boot_def empty_port_object_def
        MACH_PORT_TABLE_SIZE_def)
  have fields: "kclock (kport_boot sample_host) = 0" "kclosed (kport_boot sample_host) = []"
    "khost (kport_boot sample_host) = sample_host"
    "length (mxwl_port_table (kport_boot sample_host)) = MACH_PORT_TABLE_SIZE"
    by (simp_all add: kport_boot_def)
  have host: "host_socket_pair sample_host 0 = Some (10, 11)"
    by (simp add: sample_host_def)
  note res = allocate_result [OF boot_inv free, of MACH_PORT_RIGHT_RECEIVE]
  show 1: "mach_port_allocate MACH_PORT_RIGHT_RECEIVE (kport_boot sample_host) = (1, sample_kport)"
    by (simp add: prod_eq_iff sample_kport_def res fields host)
  show "kport_inv sample_kport"
    using allocate_correct(1) [OF boot_inv 1] .
  have "\<not> socket_refused (kport_boot sample_host)" "\<not> port_table_full (kport_boot sample_host)"
    using free by (simp_all add: socket_refused_def fields host flip: find_free_port_None)
  with allocate_correct(2) [OF boot_inv 1] show "ports sample_kport = [1 \<mapsto> []]"
    by simp
  show "khost sample_kport = sample_host" "kclosed sample_kport = [11]"
    by (simp_all add: sample_kport_def res fields host)
  show "mach_port_lookup 1 sample_kport = Some 0" "po_fd (port_obj 0 sample_kport) = 10"
    using fields(4)
    by (simp_all add: sample_kport_def res fields host mach_port_lookup_def MACH_PORT_TABLE_SIZE_def)
       (simp_all add: fresh_port_object_def)
qed

lemma sample_msg_fits:
  "length (sample_msg b) = 21" "msg_fits (sample_msg b)" "queued_copy (sample_msg b) = sample_msg b"
proof -
  show "length (sample_msg b) = 21" by (simp add: sample_msg_def)
  have "rd32 (sample_msg b) 0 = Some 21"
    by (simp add: rd32_def sample_msg_def word_of_def)
  then show "msg_fits (sample_msg b)" "queued_copy (sample_msg b) = sample_msg b"
    by (simp_all add: msg_fits_def queued_copy_def declared_size_def sample_msg_def)
qed

section \<open>Properties\<close>

text \<open>
  C5. In every state that calls of the port operations reach from the empty table, the counter
  \<^verbatim>\<open>mxwl_port_table_count\<close> is the number of names that can be looked up, every such name is its
  slot plus one, and no port queues more than \<open>MACH_PORT_QUEUE_MAX\<close> messages.
\<close>

theorem port_table_consistent:
  assumes "port_step\<^sup>*\<^sup>* (kport_boot h) s"
  shows "mxwl_port_table_count s = int (card (dom (ports s))) \<and>
    (\<forall>p i. mach_port_lookup p s = Some i \<longrightarrow> p = po_name (port_obj i s) \<and> p = int i + 1) \<and>
    (\<forall>p ms. ports s p = Some ms \<longrightarrow> length ms \<le> MACH_PORT_QUEUE_MAX)"
proof -
  from assms have inv: "kport_inv s"
    by (induction rule: rtranclp_induct) (auto intro: port_step_inv boot_inv)
  then show ?thesis
    using ports_card [OF inv] queue_bound [OF inv] kport_inv_ring(2) [OF inv] by (auto simp: lookup_Some)
qed

theorem port_table_consistent_witness:
  "mxwl_port_table_count sample_kport = int (card (dom (ports sample_kport))) \<and> ports sample_kport 1 = Some []"
proof -
  have "port_step\<^sup>*\<^sup>* (kport_boot sample_host) sample_kport"
    unfolding sample_kport_def by (rule r_into_rtranclp) (rule port_step.allocate)
  from port_table_consistent [OF this] show ?thesis
    by (simp add: sample_allocate)
qed

text \<open>
  Allocation fails exactly when the table is full or the host refuses the socket pair of a
  receive right, and then no name appears or disappears; otherwise it returns a name between 1 and
  256 that was free, now bound to an empty queue, and touches no other port.
\<close>

lemma port_allocate_outcome:
  assumes "kport_inv s" and "mach_port_allocate right s = (p, s')"
  shows "if port_table_full s \<or> right = MACH_PORT_RIGHT_RECEIVE \<and> socket_refused s
     then p = MACH_PORT_NULL \<and> ports s' = ports s
     else 1 \<le> p \<and> p \<le> 256 \<and> ports s p = None \<and> ports s' = (ports s)(p \<mapsto> [])"
  using allocate_correct(2) [OF assms] by (auto simp: MACH_PORT_TABLE_SIZE_def split: if_splits)

lemma port_allocate_outcome_witness:
  "ports (kport_boot sample_host) 1 = None \<and> ports sample_kport = (ports (kport_boot sample_host))(1 \<mapsto> [])"
  using port_allocate_outcome [OF boot_inv sample_allocate(1)]
  by (auto simp: MACH_PORT_NULL_def split: if_splits)

text \<open>
  C6. The queue of a port is a fifo: in any sequence of sends to and receives from it, the messages
  received, followed by those still queued, are the messages queued at the start followed by the
  copies of those accepted, in this order.
\<close>

theorem port_queue_is_fifo:
  assumes "kport_inv s" and "fifo_run (kport_put p) (mach_port_dequeue_message p) ops s = (outs, acc, s')"
  shows "outs @ kport_messages p s' = kport_messages p s @ map queued_copy acc"
  using port_fifo.run_in_order [OF assms] by blast

theorem port_queue_is_fifo_witness:
  "\<exists>outs acc s'. fifo_run (kport_put 1) (mach_port_dequeue_message 1)
      [Put (sample_msg 7), Put (sample_msg 8), Get, Put (sample_msg 9), Get] sample_kport = (outs, acc, s') \<and>
    outs @ kport_messages 1 s' = map queued_copy acc"
  using port_queue_is_fifo [OF sample_allocate(2), of 1
      "[Put (sample_msg 7), Put (sample_msg 8), Get, Put (sample_msg 9), Get]"]
  by (metis append_Nil kport_messages_def fun_upd_same option.simps(5) sample_allocate(3) prod_cases3)

text \<open>
  Queueing a message answers by the state of the port: \<open>KERN_INVALID_RIGHT\<close> for a name not in
  use, \<open>KERN_NO_SPACE\<close> for a full queue, \<open>KERN_FAILURE\<close> when the copy cannot be allocated, and no port
  changes; otherwise success, and the port's queue has the copy appended.  A buffer shorter than
  the size it declares is read beyond its end.
\<close>

lemma port_queue_outcome:
  assumes "kport_inv s"
  shows "case ports s p of
      None \<Rightarrow> mach_port_queue_message p msg s = Some (KERN_INVALID_RIGHT, s)
    | Some ms \<Rightarrow>
        if MACH_PORT_QUEUE_MAX \<le> length ms then mach_port_queue_message p msg s = Some (KERN_NO_SPACE, s)
        else if \<not> host_malloc (khost s) (kclock s) then
          msg_fits msg \<longrightarrow> (\<exists>s'. mach_port_queue_message p msg s = Some (KERN_FAILURE, s') \<and> ports s' = ports s)
        else if \<not> msg_fits msg then mach_port_queue_message p msg s = None
        else \<exists>s'. mach_port_queue_message p msg s = Some (KERN_SUCCESS, s') \<and>
               ports s' = (ports s)(p \<mapsto> ms @ [queued_copy msg])"
proof (cases "ports s p")
  case None
  then show ?thesis by (simp add: queue_invalid)
next
  case (Some ms)
  then show ?thesis
    using queue_full [OF Some, of msg] queue_correct [OF assms Some, of msg] queue_overrun [OF Some, of msg]
    by auto
qed

lemma port_queue_outcome_witness:
  "\<exists>s'. mach_port_queue_message 1 (sample_msg 7) sample_kport = Some (KERN_SUCCESS, s') \<and>
    ports s' = [1 \<mapsto> [sample_msg 7]]"
  using port_queue_outcome [OF sample_allocate(2), of 1 "sample_msg 7"]
  by (simp add: sample_allocate sample_msg_fits MACH_PORT_QUEUE_MAX_def sample_host_def split: if_splits)

text \<open>
  Deallocating or destroying a port in use ends it: the queue is drained, the name is free,
  exactly its own descriptor is closed, and every other port keeps its messages.  A name not in use
  is refused and nothing changes.
\<close>

theorem port_deallocate_outcome:
  assumes "kport_inv s" and "op = mach_port_deallocate \<or> op = mach_port_destroy"
  shows "if ports s p = None then op p s = (KERN_INVALID_RIGHT, s)
    else \<exists>s'. op p s = (KERN_SUCCESS, s') \<and> kport_inv s' \<and> ports s' = (ports s)(p := None) \<and>
           kclosed s' = kclosed s @ held_fds p s"
  using assms deallocate_correct [OF assms(1), of p] destroy_correct [OF assms(1), of p]
    deallocate_invalid [of s p] by auto

theorem port_deallocate_outcome_witness:
  "\<exists>s'. mach_port_destroy 1 sample_kport = (KERN_SUCCESS, s') \<and> ports s' = Map.empty \<and> kclosed s' = [11, 10]"
  using port_deallocate_outcome [OF sample_allocate(2), of mach_port_destroy 1]
  by (auto simp: sample_allocate held_fds_def)

end
