(* ===== verification/Mach_Ipc_Props.thy ===== *)
theory Mach_Ipc_Props
  imports Mach_Ipc_Correct Mach_Port_Props
begin

text \<open>
  The properties of message passing and of the bootstrap name service
  (\<^verbatim>\<open>Kernel/mxwl/ipc/ipc.c\<close>).
\<close>

text \<open>
  C7. What is sent is what is received: a message of at least eight bytes sent to a port with an
  empty queue and received into a buffer as large arrives with the size and the destination in its
  header and everything after the first eight bytes as sent, and the queue is empty again.
\<close>

theorem send_then_receive:
  assumes "kport_inv s" and "ports s dest = Some []" and "host_malloc (khost s) (kclock s)"
    and "8 \<le> unat sz" and "unat sz \<le> length msg" and "unat sz \<le> length buf"
  shows "\<exists>msg' s1 got s2.
    mach_msg_send dest msg sz s = Some (KERN_SUCCESS, msg', s1) \<and>
    mach_msg_receive kal_poll dest buf sz timeout_ms s1 = Some (KERN_SUCCESS, got, s2) \<and>
    rd32 got MSGH_SIZE = Some sz \<and> rd32 got MSGH_REMOTE_PORT = Some (word_of_int dest) \<and>
    take (unat sz - 8) (drop 8 got) = take (unat sz - 8) (drop 8 msg) \<and>
    ports s2 = ports s"
proof -
  have "(0::nat) < MACH_PORT_QUEUE_MAX" "8 \<le> length msg" using assms by auto
  with send_correct [OF assms(1,2) _ _ assms(5)] assms(3) obtain msg' s1 where
    s: "mach_msg_send dest msg sz s = Some (KERN_SUCCESS, msg', s1)" "sent_header dest sz msg msg'"
    "kport_inv s1" "ports s1 = (ports s)(dest \<mapsto> [take (unat sz) msg'])"
    by auto
  note hdr = s(2) [unfolded sent_header_def]
  let ?m = "take (unat sz) msg'"
  have rd: "rd32 (?m @ drop (unat sz) buf) off = rd32 msg' off" if "off + 4 \<le> 8" for off
    using that assms(4,5) hdr by (simp add: rd32_def nth_append)
  have "rd32 ?m MSGH_SIZE = Some sz"
    using assms(4,5) hdr by (simp add: MSGH_SIZE_def rd32_take)
  then obtain s2 where r: "mach_msg_receive kal_poll dest buf sz timeout_ms s1 =
      Some (KERN_SUCCESS, ?m @ drop (unat sz) buf, s2)" "ports s2 = (ports s1)(dest \<mapsto> [])"
    using receive_ready [OF s(3), of dest ?m "[]" sz sz buf kal_poll timeout_ms] s(4) assms(5,6) hdr by auto
  have "take (unat sz - 8) (drop 8 (?m @ drop (unat sz) buf)) = take (unat sz - 8) (drop 8 msg)"
    using assms(4,5) hdr by (simp add: drop_take)
  with s r hdr rd assms(2) show ?thesis
    by (auto simp: msgh_offsets fun_upd_idem)
qed

theorem send_then_receive_witness:
  "\<exists>msg' s1 got s2.
    mach_msg_send 1 (sample_msg 7) 21 sample_kport = Some (KERN_SUCCESS, msg', s1) \<and>
    mach_msg_receive (\<lambda>fd s. ((0, False), s)) 1 (replicate 32 0) 21 500 s1 = Some (KERN_SUCCESS, got, s2) \<and>
    rd32 got MSGH_SIZE = Some 21 \<and> rd32 got MSGH_REMOTE_PORT = Some 1"
  using send_then_receive [OF sample_allocate(2), of 1 21 "sample_msg 7" "replicate 32 0"
      "\<lambda>fd s. ((0, False), s)" 500]
  by (auto simp: sample_allocate sample_msg_fits sample_host_def)

text \<open>
  C8. A receive with a timeout of at most 2147483600 milliseconds comes back whatever happens while it
  waits.  When nothing arrives and the host does not fail, it gives up with \<open>KERN_ABORTED\<close> after exactly one
  poll for every 100 milliseconds of the timeout begun; a wait without a timeout, or with one above that
  bound, then runs into the overflow of the counter, which is an \<^verbatim>\<open>int\<close>.
\<close>

theorem receive_times_out:
  shows "(0 < timeout_ms \<and> timeout_ms \<le> 2147483600 \<longrightarrow> (\<exists>r. rcv_loop kal_poll src fd timeout_ms 0 s = Some r)) \<and>
    (silent P kal_poll src fd \<and> P s \<longrightarrow>
      rcv_loop kal_poll src fd timeout_ms 0 s =
        (if 0 < timeout_ms \<and> timeout_ms \<le> 2147483600
         then Some (Inl KERN_ABORTED, ((\<lambda>s. snd (kal_poll fd s)) ^^ nat ((timeout_ms + 99) div 100)) s)
         else None))"
  using rcv_loop_ends [of timeout_ms 0] rcv_loop_idle [of timeout_ms P kal_poll src fd s 0]
    rcv_loop_overflows [of timeout_ms P kal_poll src fd s 0] by auto

theorem receive_times_out_witness:
  "rcv_loop (\<lambda>fd s. ((0, False), s\<lparr>kclock := Suc (kclock s)\<rparr>)) 1 10 250 0 sample_kport =
     Some (Inl KERN_ABORTED, sample_kport\<lparr>kclock := kclock sample_kport + 3\<rparr>) \<and>
   rcv_loop (\<lambda>fd s. ((0, False), s\<lparr>kclock := Suc (kclock s)\<rparr>)) 1 10 0 0 sample_kport = None"
proof -
  define poll :: "kport poller" where "poll = (\<lambda>fd s. ((0, False), s\<lparr>kclock := Suc (kclock s)\<rparr>))"
  define quiet :: "kport \<Rightarrow> bool" where "quiet s \<longleftrightarrow> kport_inv s \<and> ports s = [1 \<mapsto> []]" for s
  have q: "silent quiet poll 1 10 \<and> quiet sample_kport"
    by (simp add: silent_def sample_allocate kport_messages_def poll_def quiet_def)
  then have "rcv_loop poll 1 10 250 0 sample_kport =
      Some (Inl KERN_ABORTED, ((\<lambda>s. snd (poll 10 s)) ^^ nat ((250 + 99) div 100)) sample_kport)"
    using receive_times_out [of 250 poll 1 10 sample_kport quiet] by simp
  moreover have "rcv_loop poll 1 10 0 0 sample_kport = None"
    using receive_times_out [of 0 poll 1 10 sample_kport quiet] q by simp
  ultimately show ?thesis
    by (simp add: poll_def eval_nat_numeral)
qed

text \<open>
  A remote procedure call leaves no reply port behind: whatever its outcome, and whatever
  the other threads do while it waits, the port it allocated for the reply is gone at the end.
\<close>

theorem rpc_releases_reply_port:
  assumes "mach_msg_rpc kal_poll dest msg send_size reply reply_size timeout_ms s = Some (kr, msg', reply', s')"
    and "kport_inv s" and "\<And>fd s. kport_inv s \<Longrightarrow> kport_inv (snd (kal_poll fd s))"
  shows "kport_inv s' \<and> ports s' (fst (mach_port_allocate MACH_PORT_RIGHT_RECEIVE s)) = None"
  using rpc_correct [OF assms] by (metis prod.collapse)

theorem rpc_releases_reply_port_witness:
  "\<exists>m r s'. mach_msg_rpc (\<lambda>fd s. ((0, False), s)) 5 (sample_msg 7) 21 (replicate 32 0) 32 100
      (kport_boot sample_host) = Some (KERN_INVALID_RIGHT, m, r, s') \<and> ports s' 1 = None"
proof -
  obtain m where m: "wr32 (sample_msg 7) MSGH_LOCAL_PORT (word_of_int 1) = Some m"
    using wr32_Some [of MSGH_LOCAL_PORT "sample_msg 7"] by (auto simp: sample_msg_fits MSGH_LOCAL_PORT_def)
  have "mach_msg_rpc (\<lambda>fd s. ((0, False), s)) 5 (sample_msg 7) 21 (replicate 32 0) 32 100
      (kport_boot sample_host) =
      Some (KERN_INVALID_RIGHT, m, replicate 32 0, snd (mach_port_destroy 1 sample_kport))"
    using m send_invalid [of sample_kport 5 m 21]
    by (simp add: mach_msg_rpc_def sample_allocate MACH_PORT_NULL_def)
  with rpc_releases_reply_port [OF this boot_inv] show ?thesis
    by (simp add: sample_allocate)
qed

text \<open>
  The bootstrap name service is a partial map from names to ports: a registration answers by
  the table's room and by the map, changes nothing unless it succeeds, and then binds the name
  when it is shorter than 128 bytes.  A longer name is stored cut off, so a successful registration
  of one leaves the service unknown under the name it was registered with.
\<close>

theorem bootstrap_names_as_map:
  assumes "service_inv s" and "bootstrap_register (Some name) port s = (kr, s')"
  shows "kr = (if IPC_MAX_SERVICES \<le> ipc_service_count s then KERN_FAILURE
               else if services s name \<noteq> None then KERN_NAME_EXISTS else KERN_SUCCESS) \<and>
    (if kr \<noteq> KERN_SUCCESS then s' = s
     else if length name < SERVICE_NAME_SIZE then services s' = (services s)(name \<mapsto> port)
     else bootstrap_lookup (Some name) True s' = (KERN_INVALID_NAME, None))"
  using register_correct [OF assms] register_long_name [OF assms(1), of name port s'] assms(2)
    stored_name(1) [of name]
  by (auto simp: lookup_services Let_def split: if_splits)

definition sample_kipc :: kipc where
  "sample_kipc = kport.extend (kport_boot sample_host)
     \<lparr>ipc_service_table = replicate IPC_MAX_SERVICES empty_service, ipc_service_count = 0,
      ipc_bootstrap_port = 1\<rparr>"

theorem bootstrap_names_as_map_witness:
  "\<exists>s'. bootstrap_register (Some [65, 66]) 7 sample_kipc = (KERN_SUCCESS, s') \<and>
    services s' = (services sample_kipc)([65, 66] \<mapsto> 7)"
proof -
  have inv: "service_inv sample_kipc" "ipc_service_count sample_kipc = 0"
    by (simp_all add: service_inv_def sample_kipc_def kport.defs)
  then have none: "services sample_kipc n = None" for n
    by (simp add: services_def service_find_def)
  obtain kr s' where r: "bootstrap_register (Some [65, 66]) 7 sample_kipc = (kr, s')"
    by force
  from bootstrap_names_as_map [OF inv(1) r] r show ?thesis
    by (simp add: inv none IPC_MAX_SERVICES_def SERVICE_NAME_SIZE_def)
qed

end
