(* ===== verification/Task.thy ===== *)
theory Task
  imports Mach_Ipc_Correct
begin

text \<open>
  Tasks and threads, \<^verbatim>\<open>Kernel/mxwl/task/task.c\<close>.  A pointer to a task is its index in the table,
  \<open>None\<close> where the code may pass a null pointer; a pointer to a thread is a key of the heap of
  allocated threads.  What the kernel asks of the host's processes is logged in \<open>kproc\<close>; whether a
  process can be started, and its number, is a function of the number of the call (\<open>kspawn\<close>).
\<close>

section \<open>Data\<close>

definition TASK_MAX :: nat where "TASK_MAX = 128"
definition TASK_PORT_MAX :: nat where "TASK_PORT_MAX = 64"
definition TASK_NAME_MAX :: nat where "TASK_NAME_MAX = 64"
definition THREAD_MAX :: nat where "THREAD_MAX = 256"
definition TASK_PATH_SIZE :: nat where "TASK_PATH_SIZE = 512"

record mxwl_thread =
  th_id :: int
  th_host_tid :: int
  th_active :: bool
  th_suspended :: bool

record mxwl_task =
  tk_id :: int
  tk_name :: cstr
  tk_host_pid :: int
  tk_in_use :: bool
  tk_running :: bool
  tk_terminated :: bool
  tk_ports :: "int list"
  tk_port_objects :: "mach_port_t list"
  tk_port_count :: nat
  tk_bootstrap_port :: mach_port_t
  tk_threads :: "nat option list"
  tk_thread_count :: nat
  tk_binary_path :: cstr
  tk_userfs_root :: cstr

text \<open>Requests to the host.\<close>

datatype proc_event =
    Kill int
  | Wait int
  | Setenv cstr cstr
  | Spawn cstr int

record ktask = kipc +
  mxwl_task_table :: "mxwl_task list"
  mxwl_task_count :: int
  mxwl_current_task :: "nat option"
  kthreads :: "nat \<Rightarrow> mxwl_thread option"
  knext_thread :: nat
  kproc :: "proc_event list"
  kspawn :: "nat \<Rightarrow> int option"
  kgetpid :: int

section \<open>Access to the table\<close>

definition task_obj :: "nat \<Rightarrow> 'a ktask_scheme \<Rightarrow> mxwl_task" where
  "task_obj t s = mxwl_task_table s ! t"

definition upd_task :: "nat \<Rightarrow> (mxwl_task \<Rightarrow> mxwl_task) \<Rightarrow> 'a ktask_scheme \<Rightarrow> 'a ktask_scheme" where
  "upd_task t f s = s\<lparr>mxwl_task_table := (mxwl_task_table s)[t := f (task_obj t s)]\<rparr>"

definition proc_log :: "proc_event list \<Rightarrow> 'a ktask_scheme \<Rightarrow> 'a ktask_scheme" where
  "proc_log es s = s\<lparr>kproc := kproc s @ es\<rparr>"

text \<open>The task \<^verbatim>\<open>memset\<close> to zero.\<close>

definition zero_task :: mxwl_task where
  "zero_task =
     \<lparr>tk_id = 0, tk_name = [], tk_host_pid = 0, tk_in_use = False, tk_running = False,
      tk_terminated = False, tk_ports = replicate TASK_PORT_MAX 0,
      tk_port_objects = replicate TASK_PORT_MAX 0, tk_port_count = 0, tk_bootstrap_port = 0,
      tk_threads = replicate THREAD_MAX None, tk_thread_count = 0, tk_binary_path = [],
      tk_userfs_root = []\<rparr>"

text \<open>Decimal notation, as \<^verbatim>\<open>printf\<close> writes it for \<^verbatim>\<open>%d\<close>.\<close>

fun dec_nat :: "nat \<Rightarrow> cstr" where
  "dec_nat n = (if n < 10 then [48 + of_nat n] else dec_nat (n div 10) @ [48 + of_nat (n mod 10)])"

declare dec_nat.simps [simp del]

definition dec_int :: "int \<Rightarrow> cstr" where
  "dec_int i = (if i < 0 then 45 # dec_nat (nat (- i)) else dec_nat (nat i))"

definition cstr_of :: "string \<Rightarrow> cstr" where
  "cstr_of str = map (\<lambda>c. of_nat (of_char c)) str"

section \<open>Starting the task table\<close>

definition mxwl_kernel_task_init :: "'a ktask_scheme \<Rightarrow> kern_return_t \<times> 'a ktask_scheme" where
  "mxwl_kernel_task_init s =
     (let s = upd_task 0 (\<lambda>_. zero_task
            \<lparr>tk_host_pid := kgetpid s, tk_in_use := True, tk_running := True,
             tk_name := cstr_of ''kernel'', tk_bootstrap_port := ipc_bootstrap_port s\<rparr>) s
      in (KERN_SUCCESS, s\<lparr>mxwl_task_count := 1, mxwl_current_task := Some 0\<rparr>))"

definition mxwl_task_init :: "'a ktask_scheme \<Rightarrow> kern_return_t \<times> 'a ktask_scheme" where
  "mxwl_task_init s =
     mxwl_kernel_task_init
       (s\<lparr>mxwl_task_table := replicate TASK_MAX zero_task, mxwl_task_count := 0,
          mxwl_current_task := None\<rparr>)"

section \<open>Tasks\<close>

definition find_free_task :: "'a ktask_scheme \<Rightarrow> nat option" where
  "find_free_task s = find (\<lambda>t. \<not> tk_in_use (task_obj t s)) [0..<TASK_MAX]"

definition fresh_task :: "nat \<Rightarrow> cstr option \<Rightarrow> mxwl_task" where
  "fresh_task t name =
     zero_task
       \<lparr>tk_id := int t, tk_host_pid := - 1, tk_in_use := True,
        tk_name := (case name of
                      Some n \<Rightarrow> c_strlcpy TASK_NAME_MAX n
                    | None \<Rightarrow> c_strlcpy TASK_NAME_MAX (cstr_of ''task'' @ dec_int (int t)))\<rparr>"

text \<open>\<^verbatim>\<open>mxwl_task_create\<close>: the code, the task that \<^verbatim>\<open>*out_task\<close> is set to, and the state.\<close>

definition mxwl_task_create ::
  "cstr option \<Rightarrow> 'a ktask_scheme \<Rightarrow> kern_return_t \<times> nat option \<times> 'a ktask_scheme" where
  "mxwl_task_create name s =
     (if int TASK_MAX \<le> mxwl_task_count s then (KERN_NO_SPACE, None, s)
      else
        (case find_free_task s of
           None \<Rightarrow> (KERN_NO_SPACE, None, s)
         | Some t \<Rightarrow>
             (let s = upd_task t (\<lambda>_. fresh_task t name) s;
                  (bp, s) = mach_port_allocate MACH_PORT_RIGHT_RECEIVE s;
                  s = upd_task t (\<lambda>task. task\<lparr>tk_bootstrap_port := bp\<rparr>) s
              in if bp = MACH_PORT_NULL
                 then (KERN_FAILURE, None, upd_task t (\<lambda>task. task\<lparr>tk_in_use := False\<rparr>) s)
                 else (KERN_SUCCESS, Some t, s\<lparr>mxwl_task_count := mxwl_task_count s + 1\<rparr>))))"

text \<open>The loop that gives back the ports of a task.\<close>

fun deallocate_ports :: "mach_port_t list \<Rightarrow> 'a kport_scheme \<Rightarrow> 'a kport_scheme" where
  "deallocate_ports [] s = s"
| "deallocate_ports (p # ps) s = deallocate_ports ps (snd (mach_port_deallocate p s))"

definition mxwl_task_terminate :: "nat option \<Rightarrow> 'a ktask_scheme \<Rightarrow> kern_return_t \<times> 'a ktask_scheme" where
  "mxwl_task_terminate task s =
     (case task of
        None \<Rightarrow> (KERN_INVALID_TASK, s)
      | Some t \<Rightarrow>
          if \<not> tk_in_use (task_obj t s) then (KERN_INVALID_TASK, s)
          else
            (let pid = tk_host_pid (task_obj t s);
                 s = (if 0 < pid then proc_log [Kill pid, Wait pid] s else s);
                 s = deallocate_ports
                       (take (tk_port_count (task_obj t s)) (tk_port_objects (task_obj t s))) s;
                 bp = tk_bootstrap_port (task_obj t s);
                 s = (if bp \<noteq> MACH_PORT_NULL then snd (mach_port_destroy bp s) else s);
                 s = upd_task t (\<lambda>task. task\<lparr>tk_running := False, tk_terminated := True, tk_in_use := False\<rparr>) s
             in (KERN_SUCCESS, s\<lparr>mxwl_task_count := mxwl_task_count s - 1\<rparr>)))"

definition mxwl_task_lookup :: "int \<Rightarrow> 'a ktask_scheme \<Rightarrow> nat option" where
  "mxwl_task_lookup task_id s =
     (if task_id < 0 \<or> int TASK_MAX \<le> task_id then None
      else if \<not> tk_in_use (task_obj (nat task_id) s) then None
      else Some (nat task_id))"

definition mxwl_task_insert_port ::
  "nat option \<Rightarrow> int \<Rightarrow> mach_port_t \<Rightarrow> 'a ktask_scheme \<Rightarrow> (kern_return_t \<times> 'a ktask_scheme) option" where
  "mxwl_task_insert_port task name port s =
     (case task of
        None \<Rightarrow> Some (KERN_NO_SPACE, s)
      | Some t \<Rightarrow>
          let n = tk_port_count (task_obj t s) in
          if TASK_PORT_MAX \<le> n then Some (KERN_NO_SPACE, s)
          else do {
            ns \<leftarrow> c_set n name (tk_ports (task_obj t s));
            ps \<leftarrow> c_set n port (tk_port_objects (task_obj t s));
            Some (KERN_SUCCESS,
                  upd_task t (\<lambda>task. task\<lparr>tk_ports := ns, tk_port_objects := ps, tk_port_count := n + 1\<rparr>) s)
          })"

text \<open>The inner loop of \<^verbatim>\<open>mxwl_task_remove_port\<close>, from index \<open>j\<close> up to the last but one.\<close>

function shift_down :: "nat \<Rightarrow> nat \<Rightarrow> 'b list \<Rightarrow> 'b list" where
  "shift_down j lst xs = (if j < lst then shift_down (j + 1) lst (xs[j := xs ! (j + 1)]) else xs)"
  by pat_completeness auto
termination by (relation "measure (\<lambda>(j, lst, xs). lst - j)") auto

declare shift_down.simps [simp del]

definition mxwl_task_remove_port ::
  "nat option \<Rightarrow> int \<Rightarrow> 'a ktask_scheme \<Rightarrow> kern_return_t \<times> 'a ktask_scheme" where
  "mxwl_task_remove_port task name s =
     (case task of
        None \<Rightarrow> (KERN_INVALID_TASK, s)
      | Some t \<Rightarrow>
          let n = tk_port_count (task_obj t s) in
          (case find (\<lambda>i. tk_ports (task_obj t s) ! i = name) [0..<n] of
             None \<Rightarrow> (KERN_INVALID_NAME, s)
           | Some i \<Rightarrow>
               (KERN_SUCCESS,
                upd_task t (\<lambda>task. task\<lparr>tk_ports := shift_down i (n - 1) (tk_ports task),
                                        tk_port_objects := shift_down i (n - 1) (tk_port_objects task),
                                        tk_port_count := n - 1\<rparr>) s)))"

definition mxwl_task_get_bootstrap_port :: "nat option \<Rightarrow> 'a ktask_scheme \<Rightarrow> mach_port_t" where
  "mxwl_task_get_bootstrap_port task s =
     (case task of None \<Rightarrow> MACH_PORT_NULL | Some t \<Rightarrow> tk_bootstrap_port (task_obj t s))"

section \<open>Threads\<close>

definition mxwl_thread_create ::
  "nat option \<Rightarrow> 'a ktask_scheme \<Rightarrow> kern_return_t \<times> nat option \<times> 'a ktask_scheme" where
  "mxwl_thread_create task s =
     (case task of
        None \<Rightarrow> (KERN_NO_SPACE, None, s)
      | Some t \<Rightarrow>
          let n = tk_thread_count (task_obj t s) in
          if THREAD_MAX \<le> n then (KERN_NO_SPACE, None, s)
          else (case kal_malloc s of
                  (ok, s) \<Rightarrow>
                    if \<not> ok then (KERN_FAILURE, None, s)
                    else
                      (let th = knext_thread s;
                           thread = \<lparr>th_id = int n, th_host_tid = - 1, th_active = True, th_suspended = False\<rparr>;
                           s = s\<lparr>kthreads := (kthreads s)(th \<mapsto> thread), knext_thread := Suc th\<rparr>
                       in (KERN_SUCCESS, Some th,
                           upd_task t (\<lambda>task. task\<lparr>tk_threads := (tk_threads task)[n := Some th],
                                                   tk_thread_count := n + 1\<rparr>) s))))"

text \<open>The operations on one thread; a pointer to a freed thread is \<open>None\<close>.\<close>

definition mxwl_thread_terminate ::
  "nat option \<Rightarrow> 'a ktask_scheme \<Rightarrow> (kern_return_t \<times> 'a ktask_scheme) option" where
  "mxwl_thread_terminate thread s =
     (case thread of
        None \<Rightarrow> Some (KERN_INVALID_ARGUMENT, s)
      | Some th \<Rightarrow> do {
          _ \<leftarrow> kthreads s th;
          Some (KERN_SUCCESS, s\<lparr>kthreads := (kthreads s)(th := None)\<rparr>)
        })"

definition mxwl_thread_suspend ::
  "nat option \<Rightarrow> 'a ktask_scheme \<Rightarrow> (kern_return_t \<times> 'a ktask_scheme) option" where
  "mxwl_thread_suspend thread s =
     (case thread of
        None \<Rightarrow> Some (KERN_INVALID_ARGUMENT, s)
      | Some th \<Rightarrow> do {
          obj \<leftarrow> kthreads s th;
          Some (KERN_SUCCESS, s\<lparr>kthreads := (kthreads s)(th \<mapsto> obj\<lparr>th_suspended := True\<rparr>)\<rparr>)
        })"

definition mxwl_thread_resume ::
  "nat option \<Rightarrow> 'a ktask_scheme \<Rightarrow> (kern_return_t \<times> 'a ktask_scheme) option" where
  "mxwl_thread_resume thread s =
     (case thread of
        None \<Rightarrow> Some (KERN_INVALID_ARGUMENT, s)
      | Some th \<Rightarrow> do {
          obj \<leftarrow> kthreads s th;
          Some (KERN_SUCCESS, s\<lparr>kthreads := (kthreads s)(th \<mapsto> obj\<lparr>th_suspended := False\<rparr>)\<rparr>)
        })"

section \<open>The init process\<close>

text \<open>\<^verbatim>\<open>snprintf\<close> into an array of \<open>n\<close> bytes keeps what fits.\<close>

definition c_snprintf :: "nat \<Rightarrow> cstr \<Rightarrow> cstr" where
  "c_snprintf n str = take (n - 1) str"

definition kal_process_spawn :: "cstr \<Rightarrow> 'a ktask_scheme \<Rightarrow> int option \<times> 'a ktask_scheme" where
  "kal_process_spawn path s =
     (let r = kspawn s (kclock s);
          s = s\<lparr>kclock := Suc (kclock s)\<rparr>
      in (r, case r of None \<Rightarrow> s | Some pid \<Rightarrow> proc_log [Spawn path pid] s))"

text \<open>The search for an init binary under the user file system.\<close>

definition init_search :: "(cstr \<Rightarrow> bool) \<Rightarrow> cstr \<Rightarrow> cstr option" where
  "init_search kal_can_exec root =
     (let path = c_snprintf 1024 (root @ cstr_of ''/private/init'')
      in if kal_can_exec path then Some path else None)"

definition mxwl_launch_init ::
  "(cstr \<Rightarrow> bool) \<Rightarrow> cstr option \<Rightarrow> cstr option \<Rightarrow> 'a ktask_scheme \<Rightarrow> kern_return_t \<times> 'a ktask_scheme" where
  "mxwl_launch_init kal_can_exec userfs_root init_path s =
     (case userfs_root of
        None \<Rightarrow> (KERN_INVALID_ARGUMENT, s)
      | Some root \<Rightarrow>
          let path = (case init_path of
                        Some p \<Rightarrow> if p \<noteq> [] then Some (c_strlcpy 1024 p) else init_search kal_can_exec root
                      | None \<Rightarrow> init_search kal_can_exec root)
          in (case path of
                None \<Rightarrow> (KERN_FAILURE, s)
              | Some resolved \<Rightarrow>
                  (case mxwl_task_create (Some (cstr_of ''init'')) s of
                     (kr, None, s) \<Rightarrow> (kr, s)
                   | (kr, Some t, s) \<Rightarrow>
                       (let s = upd_task t (\<lambda>task. task\<lparr>tk_binary_path := c_strlcpy TASK_PATH_SIZE resolved,
                                                        tk_userfs_root := c_strlcpy TASK_PATH_SIZE root\<rparr>) s;
                            port_str = c_snprintf 32 (dec_int (tk_bootstrap_port (task_obj t s)));
                            s = proc_log [Setenv (cstr_of ''USERFSROOT'') root,
                                          Setenv (cstr_of ''MXWL_BOOTSTRAP_PORT'') port_str] s
                        in (case kal_process_spawn resolved s of
                              (None, s) \<Rightarrow> (KERN_FAILURE, snd (mxwl_task_terminate (Some t) s))
                            | (Some pid, s) \<Rightarrow>
                                (KERN_SUCCESS,
                                 upd_task t (\<lambda>task. task\<lparr>tk_host_pid := pid, tk_running := True\<rparr>) s))))))"

end
