(* ===== verification/Task_Correct.thy ===== *)
theory Task_Correct
  imports Task
begin

text \<open>
  The task table.  Its abstract value is the partial map \<open>tasks\<close> from the indices of live tasks to
  their objects; the port rights of a task are the list \<open>task_rights\<close> of pairs of a name and a port.
\<close>

section \<open>Ports and tasks are separate state\<close>

lemma upd_task_ports [simp]:
  "ports (upd_task t f s) = ports s" "kport_inv (upd_task t f s) = kport_inv s"
  "ports (proc_log es s) = ports s" "kport_inv (proc_log es s) = kport_inv s"
  "ports (s\<lparr>mxwl_task_count := n\<rparr>) = ports s" "kport_inv (s\<lparr>mxwl_task_count := n\<rparr>) = kport_inv s"
  by (auto simp: upd_task_def proc_log_def intro!: ports_cong kport_inv_cong)

text \<open>The fields of a state beyond the port table.\<close>

lemma ktask_fields_more:
  assumes "kport.more s = kport.more (s' :: 'a ktask_scheme)"
  shows "mxwl_task_table s = mxwl_task_table s'" "mxwl_task_count s = mxwl_task_count s'"
    "kproc s = kproc s'" "ipc_bootstrap_port s = ipc_bootstrap_port s'" "kthreads s = kthreads s'"
    "mxwl_current_task s = mxwl_current_task s'" "ipc_service_table s = ipc_service_table s'"
    "ipc_service_count s = ipc_service_count s'" "kspawn s = kspawn s'"
  using assms by (cases s, cases s', simp)+

lemma more_updates [simp]:
  "kport.more (s\<lparr>kclock := t\<rparr>) = kport.more s" "kport.more (s\<lparr>kclosed := c\<rparr>) = kport.more s"
  "kport.more (s\<lparr>mxwl_port_table_count := n\<rparr>) = kport.more s"
  by (cases s, simp)+

lemma deallocate_ports_more [simp]: "kport.more (deallocate_ports ps s) = kport.more s"
  by (induction ps s rule: deallocate_ports.induct) simp_all

section \<open>Abstract value and invariant\<close>

definition tasks :: "'a ktask_scheme \<Rightarrow> nat \<rightharpoonup> mxwl_task" where
  "tasks s = (\<lambda>t. if t < TASK_MAX \<and> tk_in_use (task_obj t s) then Some (task_obj t s) else None)"

text \<open>The rights in the used part of the two arrays; \<open>task_ok\<close> says that this part lies within them.\<close>

definition task_rights :: "mxwl_task \<Rightarrow> (int \<times> mach_port_t) list" where
  "task_rights task = zip (take (tk_port_count task) (tk_ports task)) (take (tk_port_count task) (tk_port_objects task))"

definition task_ok :: "nat \<Rightarrow> mxwl_task \<Rightarrow> bool" where
  "task_ok t task \<longleftrightarrow>
     tk_id task = int t \<and>
     length (tk_ports task) = TASK_PORT_MAX \<and> length (tk_port_objects task) = TASK_PORT_MAX \<and>
     tk_port_count task \<le> TASK_PORT_MAX \<and>
     length (tk_threads task) = THREAD_MAX \<and> tk_thread_count task \<le> THREAD_MAX"

definition task_inv :: "'a ktask_scheme \<Rightarrow> bool" where
  "task_inv s \<longleftrightarrow>
     length (mxwl_task_table s) = TASK_MAX \<and>
     (\<forall>t < TASK_MAX. tk_in_use (task_obj t s) \<longrightarrow> task_ok t (task_obj t s)) \<and>
     mxwl_task_count s = int (length (filter tk_in_use (mxwl_task_table s)))"

lemma tasks_Some:
  "tasks s t = Some task \<longleftrightarrow> t < TASK_MAX \<and> tk_in_use (task_obj t s) \<and> task = task_obj t s"
  by (auto simp: tasks_def)

lemma tasks_cong: "mxwl_task_table s = mxwl_task_table s' \<Longrightarrow> tasks s = tasks s'"
  by (simp add: tasks_def task_obj_def cong: if_cong)

lemma task_inv_cong:
  "mxwl_task_table s = mxwl_task_table s' \<Longrightarrow> mxwl_task_count s = mxwl_task_count s' \<Longrightarrow> task_inv s = task_inv s'"
  by (simp add: task_inv_def task_obj_def)

lemma tasks_more: "kport.more s = kport.more (s' :: 'a ktask_scheme) \<Longrightarrow> tasks s = tasks s' \<and> task_inv s = task_inv s'"
  using ktask_fields_more [of s s'] tasks_cong task_inv_cong by metis

lemma proc_log_tasks [simp]:
  "tasks (proc_log es s) = tasks s" "task_inv (proc_log es s) = task_inv s" "task_obj t (proc_log es s) = task_obj t s"
  by (auto simp: proc_log_def task_obj_def intro!: tasks_cong task_inv_cong)

lemma tasks_upd_task:
  assumes "length (mxwl_task_table s) = TASK_MAX" "t < TASK_MAX"
  shows "tasks (upd_task t f s) =
    (tasks s)(t := if tk_in_use (f (task_obj t s)) then Some (f (task_obj t s)) else None)"
  using assms by (auto simp: tasks_def task_obj_def upd_task_def fun_eq_iff nth_list_update)

lemma tasks_count [simp]: "tasks (s\<lparr>mxwl_task_count := n\<rparr>) = tasks s"
  by (auto intro: tasks_cong)

lemma task_inv_upd_task:
  assumes "task_inv s" "t < TASK_MAX" "tk_in_use (f (task_obj t s)) \<Longrightarrow> task_ok t (f (task_obj t s))"
    and "n = mxwl_task_count s + (if tk_in_use (f (task_obj t s)) then 1 else 0)
           - (if tk_in_use (task_obj t s) then 1 else 0)"
  shows "task_inv ((upd_task t f s)\<lparr>mxwl_task_count := n\<rparr>)"
proof -
  have len: "t < length (mxwl_task_table s)"
    using assms(1,2) by (simp add: task_inv_def)
  from length_filter_update [OF this, of tk_in_use "f (task_obj t s)"] assms(4)
  have "n = int (length (filter tk_in_use (mxwl_task_table (upd_task t f s))))"
    using assms(1) by (simp add: task_inv_def upd_task_def task_obj_def split: if_splits)
  with assms len show ?thesis
    by (auto simp: task_inv_def task_obj_def upd_task_def nth_list_update)
qed

lemma task_inv_upd_same:
  assumes "task_inv s" "t < TASK_MAX" "tk_in_use (f (task_obj t s)) \<Longrightarrow> task_ok t (f (task_obj t s))"
    "tk_in_use (f (task_obj t s)) = tk_in_use (task_obj t s)"
  shows "task_inv (upd_task t f s)"
proof -
  have "(upd_task t f s)\<lparr>mxwl_task_count := mxwl_task_count s\<rparr> = upd_task t f s"
    by (simp add: upd_task_def)
  with task_inv_upd_task [of s t f "mxwl_task_count s"] assms show ?thesis by simp
qed

lemma upd_task_twice [simp]:
  "t < length (mxwl_task_table s) \<Longrightarrow> upd_task t g (upd_task t f s) = upd_task t (g \<circ> f) s"
  by (simp add: upd_task_def task_obj_def)

lemma upd_task_fields [simp]:
  "length (mxwl_task_table (upd_task t f s)) = length (mxwl_task_table s)"
  "mxwl_task_count (upd_task t f s) = mxwl_task_count s" "kproc (upd_task t f s) = kproc s"
  "ipc_bootstrap_port (upd_task t f s) = ipc_bootstrap_port s" "kthreads (upd_task t f s) = kthreads s"
  "khost (upd_task t f s) = khost s" "kclock (upd_task t f s) = kclock s" "kclosed (upd_task t f s) = kclosed s"
  by (simp_all add: upd_task_def)

lemma task_obj_upd_task [simp]:
  "t < length (mxwl_task_table s) \<Longrightarrow>
   task_obj u (upd_task t f s) = (if u = t then f (task_obj t s) else task_obj u s)"
  by (simp add: task_obj_def upd_task_def)

lemma task_inv_length: "task_inv s \<Longrightarrow> length (mxwl_task_table s) = TASK_MAX"
  by (simp add: task_inv_def)

lemma lookup_tasks:
  "mxwl_task_lookup i s = (if i < 0 then None else if tasks s (nat i) = None then None else Some (nat i))"
  by (auto simp: mxwl_task_lookup_def tasks_def)

section \<open>Creation\<close>

lemma find_free_task_None: "find_free_task s = None \<longleftrightarrow> (\<forall>t < TASK_MAX. tasks s t \<noteq> None)"
  by (auto simp: find_free_task_def find_upt_None tasks_def)

lemma find_free_task_Some: "find_free_task s = Some t \<Longrightarrow> t < TASK_MAX \<and> tasks s t = None \<and> \<not> tk_in_use (task_obj t s)"
  by (auto simp: find_free_task_def find_upt_Some tasks_def)

lemma task_count_full:
  assumes "task_inv s"
  shows "int TASK_MAX \<le> mxwl_task_count s \<longleftrightarrow> (\<forall>t < TASK_MAX. tasks s t \<noteq> None)"
proof -
  have "int TASK_MAX \<le> mxwl_task_count s \<longleftrightarrow> length (filter tk_in_use (mxwl_task_table s)) = length (mxwl_task_table s)"
    using assms length_filter_le [of tk_in_use "mxwl_task_table s"] by (auto simp: task_inv_def)
  also have "\<dots> \<longleftrightarrow> (\<forall>x \<in> set (mxwl_task_table s). tk_in_use x)"
    using length_filter_less [of _ "mxwl_task_table s" tk_in_use]
    by (metis filter_True less_irrefl)
  also have "\<dots> \<longleftrightarrow> (\<forall>t < TASK_MAX. tasks s t \<noteq> None)"
    using assms by (auto simp: task_inv_def tasks_def task_obj_def all_set_conv_all_nth)
  finally show ?thesis .
qed

lemma fresh_task_ok [simp]:
  "tk_in_use (fresh_task t name)" "task_ok t (fresh_task t name)" "task_rights (fresh_task t name) = []"
  by (simp_all add: fresh_task_def zero_task_def task_ok_def task_rights_def)

lemma task_ok_fields [simp]:
  "task_ok t (task\<lparr>tk_bootstrap_port := bp\<rparr>) = task_ok t task"
  "task_ok t (task\<lparr>tk_host_pid := pid, tk_running := r\<rparr>) = task_ok t task"
  "task_ok t (task\<lparr>tk_running := r, tk_terminated := b\<rparr>) = task_ok t task"
  "task_ok t (task\<lparr>tk_binary_path := path, tk_userfs_root := root\<rparr>) = task_ok t task"
  by (simp_all add: task_ok_def)

lemma create_correct:
  assumes "task_inv s" "kport_inv s" "mxwl_task_create name s = (kr, out, s')"
  shows "task_inv s' \<and> kport_inv s' \<and>
    (case out of
       None \<Rightarrow> kr \<in> {KERN_NO_SPACE, KERN_FAILURE} \<and> tasks s' = tasks s \<and> ports s' = ports s
     | Some t \<Rightarrow> kr = KERN_SUCCESS \<and> t < TASK_MAX \<and> tasks s t = None \<and>
         (\<exists>bp. ports s bp = None \<and> ports s' = (ports s)(bp \<mapsto> []) \<and>
               tasks s' = (tasks s)(t \<mapsto> (fresh_task t name)\<lparr>tk_bootstrap_port := bp\<rparr>)))"
proof (cases "int TASK_MAX \<le> mxwl_task_count s \<or> find_free_task s = None")
  case True
  with assms show ?thesis
    by (auto simp: mxwl_task_create_def split: if_splits)
next
  case False
  then obtain t where t: "find_free_task s = Some t" and room: "\<not> int TASK_MAX \<le> mxwl_task_count s" by auto
  note free = find_free_task_Some [OF t] and len = task_inv_length [OF assms(1)]
  define s1 where "s1 = upd_task t (\<lambda>_. fresh_task t name) s"
  obtain bp s2 where al: "mach_port_allocate MACH_PORT_RIGHT_RECEIVE s1 = (bp, s2)" by force
  have inv1: "kport_inv s1" and p1: "ports s1 = ports s"
    using assms(2) by (simp_all add: s1_def)
  have "kport.more s2 = kport.more s1"
    using allocate_more [of MACH_PORT_RIGHT_RECEIVE s1] al by simp
  note fields2 = ktask_fields_more [OF this]
  note inv2 = allocate_correct [OF inv1 al]
  let ?f = "\<lambda>task. task\<lparr>tk_bootstrap_port := bp\<rparr>"
  have obj2: "task_obj t s2 = fresh_task t name" "length (mxwl_task_table s2) = TASK_MAX"
    using fields2(1) free len by (simp_all add: task_obj_def s1_def upd_task_def)
  have "tasks s2 = tasks s1" using fields2(1) by (rule tasks_cong)
  then have t2: "tasks s2 = (tasks s)(t \<mapsto> fresh_task t name)"
    using tasks_upd_task [OF len, of t "\<lambda>_. fresh_task t name"] free by (simp add: s1_def)
  have "task_inv (s1\<lparr>mxwl_task_count := mxwl_task_count s + 1\<rparr>)"
    unfolding s1_def using assms(1) free by (intro task_inv_upd_task) simp_all
  then have i2: "task_inv (s2\<lparr>mxwl_task_count := mxwl_task_count s + 1\<rparr>)"
    using fields2(1) by (subst task_inv_cong) auto
  have c2: "mxwl_task_count s2 = mxwl_task_count s"
    using fields2(2) by (simp add: s1_def upd_task_def)
  have swap: "(upd_task t g s2)\<lparr>mxwl_task_count := n\<rparr> = upd_task t g (s2\<lparr>mxwl_task_count := n\<rparr>)" for g n
    by (simp add: upd_task_def task_obj_def)
  have def': "mxwl_task_create name s =
    (if bp = MACH_PORT_NULL
     then (KERN_FAILURE, None, upd_task t (\<lambda>task. task\<lparr>tk_in_use := False\<rparr>) (upd_task t ?f s2))
     else (KERN_SUCCESS, Some t, (upd_task t ?f s2)\<lparr>mxwl_task_count := mxwl_task_count s + 1\<rparr>))"
    using room t al c2 by (simp add: mxwl_task_create_def s1_def [symmetric])
  show ?thesis
  proof (cases "bp = MACH_PORT_NULL")
    case True
    let ?g = "\<lambda>task. task\<lparr>tk_bootstrap_port := bp, tk_in_use := False\<rparr>"
    have "task_inv ((upd_task t ?g (s2\<lparr>mxwl_task_count := mxwl_task_count s + 1\<rparr>))
            \<lparr>mxwl_task_count := mxwl_task_count s\<rparr>)"
      using i2 free obj2 by (intro task_inv_upd_task) (simp_all add: task_obj_def)
    also have "(upd_task t ?g (s2\<lparr>mxwl_task_count := mxwl_task_count s + 1\<rparr>))
            \<lparr>mxwl_task_count := mxwl_task_count s\<rparr> = upd_task t ?g s2"
      using c2 by (simp add: upd_task_def task_obj_def)
    finally have "task_inv (upd_task t ?g s2)" .
    moreover have "tasks (upd_task t ?g s2) = tasks s"
      using tasks_upd_task [OF obj2(2), of t ?g] free t2 by (auto simp: fun_upd_idem)
    ultimately show ?thesis
      using True def' assms(3) inv2 p1 free obj2 by (auto simp: comp_def MACH_PORT_NULL_def split: if_splits)
  next
    case False
    have "tasks (upd_task t ?f s2) = (tasks s)(t \<mapsto> (fresh_task t name)\<lparr>tk_bootstrap_port := bp\<rparr>)"
      using tasks_upd_task [OF obj2(2), of t ?f] free t2 obj2 by simp
    moreover have "task_inv (upd_task t ?f (s2\<lparr>mxwl_task_count := mxwl_task_count s + 1\<rparr>))"
      using i2 free obj2 by (intro task_inv_upd_same) (simp_all add: task_obj_def)
    ultimately show ?thesis
      using False def' assms(3) inv2 p1 free
      by (auto simp: swap [symmetric] split: if_splits intro!: exI [of _ bp])
  qed
qed

section \<open>Termination\<close>

lemma deallocate_ports_correct:
  "kport_inv s \<Longrightarrow> kport_inv (deallocate_ports ps s) \<and> ports (deallocate_ports ps s) = (ports s) |` (- set ps)"
proof (induction ps s rule: deallocate_ports.induct)
  case (2 p ps s)
  have "kport_inv (snd (mach_port_deallocate p s)) \<and> ports (snd (mach_port_deallocate p s)) = (ports s)(p := None)"
    using 2(2) deallocate_correct [of s p] deallocate_invalid(1) [of s p]
    by (cases "ports s p") (auto simp: fun_upd_idem)
  with 2(1) show ?case
    by (auto simp: restrict_map_def fun_eq_iff)
qed (simp add: restrict_map_def)

lemma ports_null: "ports s MACH_PORT_NULL = None"
  by (simp add: ports_None mach_port_lookup_def MACH_PORT_NULL_def)

text \<open>The ports a task gives back when it ends.\<close>

definition task_port_set :: "mxwl_task \<Rightarrow> mach_port_t set" where
  "task_port_set task = insert (tk_bootstrap_port task) (set (take (tk_port_count task) (tk_port_objects task)))"

lemma terminate_invalid:
  "tasks s t = None \<Longrightarrow> t < TASK_MAX \<Longrightarrow> mxwl_task_terminate (Some t) s = (KERN_INVALID_TASK, s)"
  by (auto simp: mxwl_task_terminate_def tasks_def)

lemma terminate_correct:
  assumes "task_inv s" "kport_inv s" "tasks s t = Some task"
  shows "\<exists>s'. mxwl_task_terminate (Some t) s = (KERN_SUCCESS, s') \<and> task_inv s' \<and> kport_inv s' \<and>
    tasks s' = (tasks s)(t := None) \<and> ports s' = (ports s) |` (- task_port_set task) \<and>
    kproc s' = kproc s @ (if 0 < tk_host_pid task then [Kill (tk_host_pid task), Wait (tk_host_pid task)] else []) \<and>
    ipc_bootstrap_port s' = ipc_bootstrap_port s"
proof -
  from assms(3) have t: "t < TASK_MAX" "tk_in_use (task_obj t s)" "task = task_obj t s"
    by (simp_all add: tasks_Some)
  define s1 where "s1 = (if 0 < tk_host_pid task then proc_log [Kill (tk_host_pid task), Wait (tk_host_pid task)] s else s)"
  let ?ps = "take (tk_port_count task) (tk_port_objects task)" and ?bp = "tk_bootstrap_port task"
  define s2 where "s2 = deallocate_ports ?ps s1"
  define s3 where "s3 = (if ?bp \<noteq> MACH_PORT_NULL then snd (mach_port_destroy ?bp s2) else s2)"
  have 1: "kport_inv s1" "ports s1 = ports s" "tasks s1 = tasks s" "task_inv s1" "task_obj t s1 = task"
    using assms(1,2) t(3) by (simp_all add: s1_def)
  have bp1: "ipc_bootstrap_port s1 = ipc_bootstrap_port s"
    by (simp add: s1_def proc_log_def)
  have m: "kport.more s2 = kport.more s1" "kport.more s3 = kport.more s1"
    by (simp_all add: s2_def s3_def)
  note f3 = ktask_fields_more [OF m(2)] and f2 = ktask_fields_more [OF m(1)]
  have obj: "task_obj t s2 = task" "task_obj t s3 = task"
    using 1(5) f2(1) f3(1) by (simp_all add: task_obj_def)
  have 2: "kport_inv s2" "ports s2 = (ports s) |` (- set ?ps)"
    using deallocate_ports_correct [OF 1(1), of ?ps] 1(2) by (simp_all add: s2_def)
  have 3: "kport_inv s3" "ports s3 = (ports s) |` (- task_port_set task)"
    using 2 destroy_removes [OF 2(1), of ?bp] ports_null [of s]
    by (auto simp: s3_def task_port_set_def restrict_map_def fun_eq_iff)
  let ?f = "\<lambda>task. task\<lparr>tk_running := False, tk_terminated := True, tk_in_use := False\<rparr>"
  let ?s4 = "(upd_task t ?f s3)\<lparr>mxwl_task_count := mxwl_task_count s3 - 1\<rparr>"
  have "mxwl_task_terminate (Some t) s = (KERN_SUCCESS, ?s4)"
    using t(2) unfolding mxwl_task_terminate_def Let_def option.case t(3) [symmetric] s1_def [symmetric]
      1(5) s2_def [symmetric] obj s3_def [symmetric]
    by simp
  moreover have i3: "task_inv s3" "tasks s3 = tasks s"
    using tasks_more [OF m(2)] 1 by simp_all
  then have "task_inv ?s4"
    using t obj by (intro task_inv_upd_task) simp_all
  moreover have "tasks ?s4 = (tasks s)(t := None)"
    using i3 t(1) obj by (simp add: tasks_upd_task task_inv_length)
  moreover have "kproc ?s4 = kproc s @ (if 0 < tk_host_pid task then [Kill (tk_host_pid task), Wait (tk_host_pid task)] else [])"
    using f3(3) by (simp add: s1_def proc_log_def)
  ultimately show ?thesis
    using 3 bp1 f3(4) by simp
qed

section \<open>The port rights of a task\<close>

lemma shift_down_eq:
  "j \<le> lst \<Longrightarrow> lst < length xs \<Longrightarrow>
   shift_down j lst xs = take j xs @ take (lst - j) (drop (j + 1) xs) @ drop lst xs"
proof (induction j lst xs rule: shift_down.induct)
  case (1 j lst xs)
  show ?case
  proof (cases "j < lst")
    case True
    let ?ys = "xs[j := xs ! (j + 1)]"
    have "shift_down j lst xs = shift_down (j + 1) lst ?ys"
      using True by (subst shift_down.simps) simp
    also have "\<dots> = take (j + 1) ?ys @ take (lst - (j + 1)) (drop (j + 1 + 1) ?ys) @ drop lst ?ys"
      using 1 True by simp
    also have "take (j + 1) ?ys = take j xs @ [xs ! (j + 1)]"
      using True 1(3) by (simp add: take_Suc_conv_app_nth)
    also have "drop (j + 1 + 1) ?ys = drop (j + 1 + 1) xs"
      by simp
    also have "drop lst ?ys = drop lst xs"
      using True by simp
    finally have eq: "shift_down j lst xs =
      take j xs @ (xs ! (j + 1) # take (lst - (j + 1)) (drop (j + 1 + 1) xs)) @ drop lst xs"
      by simp
    have "lst - j = Suc (lst - (j + 1))" "drop (j + 1) xs = xs ! (j + 1) # drop (j + 1 + 1) xs"
      using True 1(3) by (simp_all add: Cons_nth_drop_Suc)
    then have "take (lst - j) (drop (j + 1) xs) = xs ! (j + 1) # take (lst - (j + 1)) (drop (j + 1 + 1) xs)"
      by (metis take_Suc_Cons)
    with eq show ?thesis by simp
  next
    case False
    with 1(2) show ?thesis by (subst shift_down.simps) simp
  qed
qed

text \<open>Leaving out one element of the used part of an array.\<close>

lemma take_shift_down:
  assumes "i < n" "n \<le> length xs"
  shows "take (n - 1) (shift_down i (n - 1) xs) = take i (take n xs) @ drop (i + 1) (take n xs)"
proof -
  have "take (n - 1) (take i xs @ take (n - 1 - i) (drop (i + 1) xs) @ drop (n - 1) xs) =
        take i xs @ take (n - 1 - i) (drop (i + 1) xs)"
    using assms by (cases "i = n - 1") auto
  with assms shift_down_eq [of i "n - 1" xs] show ?thesis
    by (simp add: drop_take)
qed

lemma shift_down_length [simp]: "length (shift_down j lst xs) = length xs"
proof (induction j lst xs rule: shift_down.induct)
  case (1 j lst xs)
  have "shift_down j lst xs = (if j < lst then shift_down (j + 1) lst (xs[j := xs ! (j + 1)]) else xs)"
    by (rule shift_down.simps)
  with 1 show ?case
    by (cases "j < lst") (simp_all only: if_True if_False length_list_update)
qed

fun remove_name :: "int \<Rightarrow> (int \<times> 'b) list \<Rightarrow> (int \<times> 'b) list" where
  "remove_name name [] = []"
| "remove_name name (x # xs) = (if fst x = name then xs else x # remove_name name xs)"

lemma remove_name_at:
  "find (\<lambda>i. fst (xs ! i) = name) [0..<length xs] = Some i \<Longrightarrow>
   remove_name name xs = take i xs @ drop (i + 1) xs"
proof (induction xs arbitrary: i)
  case (Cons x xs)
  show ?case
  proof (cases "fst x = name")
    case True
    with Cons.prems have "i = 0" by (auto simp: find_upt_Some simp del: upt_Suc)
    with True show ?thesis by simp
  next
    case False
    with Cons.prems obtain k where k: "i = Suc k" by (cases i) (auto simp: find_upt_Some simp del: upt_Suc)
    with Cons.prems have "find (\<lambda>i. fst (xs ! i) = name) [0..<length xs] = Some k"
      by (auto simp: find_upt_Some simp del: upt_Suc)
    with Cons.IH False k show ?thesis by simp
  qed
qed simp

lemma rights_length: "task_ok t task \<Longrightarrow> length (task_rights task) = tk_port_count task"
  by (simp add: task_rights_def task_ok_def)

lemma rights_nth:
  "task_ok t task \<Longrightarrow> i < tk_port_count task \<Longrightarrow>
   task_rights task ! i = (tk_ports task ! i, tk_port_objects task ! i)"
  by (simp add: task_rights_def task_ok_def)

lemma insert_port_correct:
  assumes "task_inv s" "tasks s t = Some task"
  shows "if length (task_rights task) = TASK_PORT_MAX
    then mxwl_task_insert_port (Some t) name port s = Some (KERN_NO_SPACE, s)
    else \<exists>s' task'. mxwl_task_insert_port (Some t) name port s = Some (KERN_SUCCESS, s') \<and> task_inv s' \<and>
           tasks s' = (tasks s)(t \<mapsto> task') \<and> task_rights task' = task_rights task @ [(name, port)] \<and>
           ports s' = ports s \<and> kport_inv s' = kport_inv s"
proof -
  from assms(2) have t: "t < TASK_MAX" "tk_in_use (task_obj t s)" "task = task_obj t s"
    by (simp_all add: tasks_Some)
  with assms(1) have ok: "task_ok t task" by (simp add: task_inv_def)
  show ?thesis
  proof (cases "tk_port_count task = TASK_PORT_MAX")
    case True
    with t ok show ?thesis by (simp add: mxwl_task_insert_port_def rights_length)
  next
    case False
    let ?n = "tk_port_count task"
    let ?f = "\<lambda>x. x\<lparr>tk_ports := (tk_ports task)[?n := name],
                          tk_port_objects := (tk_port_objects task)[?n := port], tk_port_count := ?n + 1\<rparr>"
    have n: "?n < TASK_PORT_MAX" "length (tk_ports task) = TASK_PORT_MAX" "length (tk_port_objects task) = TASK_PORT_MAX"
      using ok False by (simp_all add: task_ok_def)
    have ok': "task_ok t (?f task)"
      using ok False by (simp add: task_ok_def)
    have "mxwl_task_insert_port (Some t) name port s = Some (KERN_SUCCESS, upd_task t ?f s)"
      using n t(3) by (simp add: mxwl_task_insert_port_def Let_def c_set_def)
    moreover have "task_inv (upd_task t ?f s)"
      using assms(1) t ok' by (intro task_inv_upd_same) simp_all
    moreover have "tasks (upd_task t ?f s) = (tasks s)(t \<mapsto> ?f task)"
      using t assms(1) by (simp add: tasks_upd_task task_inv_length)
    moreover have "task_rights (?f task) = task_rights task @ [(name, port)]"
      using n by (simp add: task_rights_def take_Suc_conv_app_nth)
    ultimately show ?thesis
      using False ok n by (auto simp: rights_length)
  qed
qed

lemma remove_port_correct:
  assumes "task_inv s" "tasks s t = Some task"
  shows "if name \<notin> set (map fst (task_rights task))
    then mxwl_task_remove_port (Some t) name s = (KERN_INVALID_NAME, s)
    else \<exists>s' task'. mxwl_task_remove_port (Some t) name s = (KERN_SUCCESS, s') \<and> task_inv s' \<and>
           tasks s' = (tasks s)(t \<mapsto> task') \<and> task_rights task' = remove_name name (task_rights task) \<and>
           ports s' = ports s \<and> kport_inv s' = kport_inv s"
proof -
  from assms(2) have t: "t < TASK_MAX" "tk_in_use (task_obj t s)" "task = task_obj t s"
    by (simp_all add: tasks_Some)
  with assms(1) have ok: "task_ok t task" by (simp add: task_inv_def)
  let ?n = "tk_port_count task"
  have find: "find (\<lambda>i. tk_ports task ! i = name) [0..<?n] =
      find (\<lambda>i. fst (task_rights task ! i) = name) [0..<length (task_rights task)]"
    unfolding rights_length [OF ok] by (rule find_upt_cong) (simp add: rights_nth [OF ok])
  show ?thesis
  proof (cases "find (\<lambda>i. tk_ports task ! i = name) [0..<?n]")
    case None
    then have "name \<notin> set (map fst (task_rights task))"
      unfolding find by (auto simp: find_upt_None in_set_conv_nth) (metis fst_conv)
    with None t show ?thesis by (simp add: mxwl_task_remove_port_def)
  next
    case (Some i)
    then have i: "i < ?n" by (simp add: find_upt_Some)
    let ?f = "\<lambda>task. task\<lparr>tk_ports := shift_down i (?n - 1) (tk_ports task),
                          tk_port_objects := shift_down i (?n - 1) (tk_port_objects task), tk_port_count := ?n - 1\<rparr>"
    have ok': "task_ok t (?f task)"
      using ok by (auto simp: task_ok_def)
    have "mxwl_task_remove_port (Some t) name s = (KERN_SUCCESS, upd_task t ?f s)"
      using Some t(3) by (simp add: mxwl_task_remove_port_def Let_def)
    moreover have "task_inv (upd_task t ?f s)"
      using assms(1) t ok' by (intro task_inv_upd_same) simp_all
    moreover have "tasks (upd_task t ?f s) = (tasks s)(t \<mapsto> ?f task)"
      using t assms(1) by (simp add: tasks_upd_task task_inv_length)
    moreover have "task_rights (?f task) = remove_name name (task_rights task)"
    proof -
      have len: "?n \<le> length (tk_ports task)" "?n \<le> length (tk_port_objects task)"
        using ok by (simp_all add: task_ok_def)
      have "task_rights (?f task) = zip (take i (take ?n (tk_ports task)) @ drop (i + 1) (take ?n (tk_ports task)))
          (take i (take ?n (tk_port_objects task)) @ drop (i + 1) (take ?n (tk_port_objects task)))"
        using take_shift_down [OF i len(1)] take_shift_down [OF i len(2)] by (simp add: task_rights_def)
      also have "\<dots> = take i (task_rights task) @ drop (i + 1) (task_rights task)"
        using len i by (simp add: zip_append task_rights_def take_zip drop_zip)
      finally show ?thesis
        using remove_name_at [OF Some [unfolded find]] by simp
    qed
    moreover have "name \<in> set (map fst (task_rights task))"
      using Some unfolding find by (simp add: find_upt_Some) (metis image_eqI nth_mem)
    ultimately show ?thesis by auto
  qed
qed

end
