(* ===== verification/Mach_Kernel.thy ===== *)
theory Mach_Kernel
  imports Task_Correct
begin

text \<open>
  The kernel's life, \<^verbatim>\<open>Kernel/mxwl/mach/mach_kernel.c\<close>: initialisation, the dispatch loop,
  shutdown.  The loop runs until a signal clears \<^verbatim>\<open>_mxwl_running\<close>; a run is therefore given by
  its list of rounds, each with the children reaped in it and what the other threads of the kernel
  do to the state while it sleeps.  \<open>None\<close> is a run that leaves the bounds of a buffer.
\<close>

section \<open>Data\<close>

definition MXWL_BOOT_VERBOSE :: uint32 where "MXWL_BOOT_VERBOSE = 1"
definition MXWL_BOOT_SINGLE_USER :: uint32 where "MXWL_BOOT_SINGLE_USER = 2"

record kernel = ktask +
  kn_initialized :: bool
  kn_running :: bool
  kn_boot_flags :: uint32
  kn_userfs_root :: cstr
  kn_kernel_pid :: int
  kn_init_pid :: int
  kn_host_port :: mach_port_t
  kn_host_priv_port :: mach_port_t
  kn_kernel_port :: mach_port_t

type_synonym 'a round = "(int \<times> int) list \<times> ('a kernel_scheme \<Rightarrow> 'a kernel_scheme)"

section \<open>Initialisation\<close>

definition zero_kernel_state :: "uint32 \<Rightarrow> 'a kernel_scheme \<Rightarrow> 'a kernel_scheme" where
  "zero_kernel_state boot_flags s =
     s\<lparr>kn_initialized := False, kn_running := False, kn_boot_flags := boot_flags,
       kn_userfs_root := [], kn_kernel_pid := kgetpid s, kn_init_pid := 0, kn_host_port := 0,
       kn_host_priv_port := 0, kn_kernel_port := 0\<rparr>"

definition mxwl_kernel_init ::
  "kern_return_t \<Rightarrow> uint32 \<Rightarrow> 'a kernel_scheme \<Rightarrow> kern_return_t \<times> 'a kernel_scheme" where
  "mxwl_kernel_init compat_kr boot_flags s =
     (let s = zero_kernel_state boot_flags s;
          (kr, s) = ipc_init compat_kr s
      in if kr \<noteq> KERN_SUCCESS then (kr, s)
         else (let (kr, s) = mxwl_task_init s
               in if kr \<noteq> KERN_SUCCESS then (kr, s)
                  else (let s = s\<lparr>kn_initialized := True\<rparr>;
                            (hp, s) = mach_port_allocate MACH_PORT_RIGHT_RECEIVE s;
                            s = s\<lparr>kn_host_port := hp\<rparr>;
                            (pp, s) = mach_port_allocate MACH_PORT_RIGHT_RECEIVE s
                        in (KERN_SUCCESS, s\<lparr>kn_host_priv_port := pp\<rparr>))))"

section \<open>The dispatch loop\<close>

text \<open>A child that ended: the first task in use with its number is marked.\<close>

definition reap_child :: "int \<Rightarrow> 'a ktask_scheme \<Rightarrow> 'a ktask_scheme" where
  "reap_child pid s =
     (case find (\<lambda>t. tk_in_use (task_obj t s) \<and> tk_host_pid (task_obj t s) = pid) [0..<TASK_MAX] of
        None \<Rightarrow> s
      | Some t \<Rightarrow> upd_task t (\<lambda>task. task\<lparr>tk_running := False, tk_terminated := True\<rparr>) s)"

definition reap_children :: "(int \<times> int) list \<Rightarrow> 'a ktask_scheme \<Rightarrow> 'a ktask_scheme" where
  "reap_children exits s = fold (\<lambda>(pid, status). reap_child pid) exits s"

text \<open>One bootstrap request: a reply of just the header, on the stack, is handed to the handler.\<close>

definition dispatch_bootstrap :: "'a kipc_scheme \<Rightarrow> 'a kipc_scheme option" where
  "dispatch_bootstrap s =
     (case mach_port_lookup (ipc_bootstrap_port s) s of
        None \<Rightarrow> Some s
      | Some i \<Rightarrow>
          if po_count (port_obj i s) = 0 then Some s
          else
            (case mach_port_dequeue_message (ipc_bootstrap_port s) s of
               (None, s) \<Rightarrow> Some s
             | (Some msg, s) \<Rightarrow> do {
                 reply \<leftarrow> wr32 (c_zeroed SIZEOF_MACH_MSG) MSGH_SIZE (of_nat SIZEOF_MACH_MSG);
                 (kr, reply, s) \<leftarrow> bootstrap_handle_request (Some msg) (Some reply) s;
                 local \<leftarrow> rd32 msg MSGH_LOCAL_PORT;
                 if sint local \<noteq> MACH_PORT_NULL then do {
                   reply \<leftarrow> reply;
                   sz \<leftarrow> rd32 reply MSGH_SIZE;
                   (kr, reply, s) \<leftarrow> mach_msg_send (sint local) reply sz s;
                   Some s
                 }
                 else Some s
               }))"

definition kernel_round :: "'a round \<Rightarrow> 'a kernel_scheme \<Rightarrow> 'a kernel_scheme option" where
  "kernel_round r s = map_option (snd r) (dispatch_bootstrap (reap_children (fst r) s))"

fun kernel_rounds :: "'a round list \<Rightarrow> 'a kernel_scheme \<Rightarrow> 'a kernel_scheme option" where
  "kernel_rounds [] s = Some s"
| "kernel_rounds (r # rs) s = kernel_round r s \<bind> kernel_rounds rs"

definition mxwl_kernel_loop :: "'a round list \<Rightarrow> 'a kernel_scheme \<Rightarrow> 'a kernel_scheme option" where
  "mxwl_kernel_loop rounds s = kernel_rounds rounds (s\<lparr>kn_running := True\<rparr>)"

section \<open>Shutdown\<close>

text \<open>The loop over the task table, from the last slot down.\<close>

fun shutdown_tasks :: "nat \<Rightarrow> 'a ktask_scheme \<Rightarrow> 'a ktask_scheme" where
  "shutdown_tasks 0 s = s"
| "shutdown_tasks (Suc i) s =
     shutdown_tasks i
       (if tk_in_use (task_obj i s) \<and> tk_id (task_obj i s) \<noteq> 0
        then snd (mxwl_task_terminate (Some i) s) else s)"

definition mxwl_kernel_shutdown :: "'a kernel_scheme \<Rightarrow> 'a kernel_scheme" where
  "mxwl_kernel_shutdown s =
     (ipc_shutdown (shutdown_tasks TASK_MAX s))\<lparr>kn_running := False, kn_initialized := False\<rparr>"

section \<open>The user file system and the entry point\<close>

definition mxwl_get_userfs_root :: "cstr option \<Rightarrow> 'a kernel_scheme \<Rightarrow> cstr" where
  "mxwl_get_userfs_root env s =
     (case env of
        Some path \<Rightarrow> if path \<noteq> [] then path
                     else if kn_userfs_root s \<noteq> [] then kn_userfs_root s else cstr_of ''/''
      | None \<Rightarrow> if kn_userfs_root s \<noteq> [] then kn_userfs_root s else cstr_of ''/'')"

definition mxwl_set_userfs_root :: "cstr option \<Rightarrow> 'a kernel_scheme \<Rightarrow> 'a kernel_scheme" where
  "mxwl_set_userfs_root path s =
     (case path of None \<Rightarrow> s | Some p \<Rightarrow> s\<lparr>kn_userfs_root := c_strlcpy 512 p\<rparr>)"

text \<open>An environment variable that is set and not empty.\<close>

definition env_set :: "cstr option \<Rightarrow> bool" where
  "env_set v = (case v of None \<Rightarrow> False | Some str \<Rightarrow> str \<noteq> [])"

definition mxwl_kernel_main ::
  "kern_return_t \<Rightarrow> (cstr \<Rightarrow> bool) \<Rightarrow> (string \<Rightarrow> cstr option) \<Rightarrow> 'a round list \<Rightarrow> cstr option \<Rightarrow>
   'a kernel_scheme \<Rightarrow> 'a kernel_scheme option" where
  "mxwl_kernel_main compat_kr kal_can_exec kal_env_get rounds init_path s =
     (let flags = (if env_set (kal_env_get ''MXWL_BOOT_VERBOSE'') then MXWL_BOOT_VERBOSE else 0)
                  OR (if env_set (kal_env_get ''MXWL_BOOT_SINGLE_USER'') then MXWL_BOOT_SINGLE_USER else 0);
          userfs = kal_env_get ''USERFSROOT'';
          s = (if env_set userfs then mxwl_set_userfs_root userfs s else s);
          (kr, s) = mxwl_kernel_init compat_kr flags s
      in if kr \<noteq> KERN_SUCCESS then Some s
         else
           (let s = (if flags AND MXWL_BOOT_SINGLE_USER = 0
                     then snd (mxwl_launch_init kal_can_exec (Some (mxwl_get_userfs_root userfs s)) init_path s)
                     else s)
            in map_option mxwl_kernel_shutdown (mxwl_kernel_loop rounds s)))"

section \<open>Requests in the loop\<close>

lemma dispatch_dequeues:
  assumes "kport_inv s" "ports s (ipc_bootstrap_port s) = Some (m # ms)"
  obtains s1 where "kport_inv s1" "ports s1 = (ports s)(ipc_bootstrap_port s \<mapsto> ms)"
    "mach_port_dequeue_message (ipc_bootstrap_port s) s = (Some m, s1)"
    "\<exists>i. mach_port_lookup (ipc_bootstrap_port s) s = Some i \<and> po_count (port_obj i s) \<noteq> 0"
    "kport.more s1 = kport.more s" "kclock s1 = kclock s" "khost s1 = khost s"
proof -
  from dequeue_correct [OF assms] obtain s1 where 1:
    "mach_port_dequeue_message (ipc_bootstrap_port s) s = (Some m, s1)" "kport_inv s1"
    "ports s1 = (ports s)(ipc_bootstrap_port s \<mapsto> ms)" by blast
  from assms(2) obtain i where i: "mach_port_lookup (ipc_bootstrap_port s) s = Some i"
    "m # ms = ring_list (port_obj i s)"
    by (rule ports_Some_lookup)
  have "po_count (port_obj i s) \<noteq> 0"
    using i(2) ring_list_length [of "port_obj i s"] by (metis length_0_conv list.distinct(1))
  with 1 i(1) dequeue_frame [OF 1(1)] that show ?thesis by blast
qed

text \<open>The reply the loop prepares.\<close>

lemma prepared_reply:
  obtains reply where "wr32 (c_zeroed SIZEOF_MACH_MSG) MSGH_SIZE (of_nat SIZEOF_MACH_MSG) = Some reply"
    "length reply = SIZEOF_MACH_MSG" "rd32 reply MSGH_SIZE = Some 20"
proof -
  obtain reply where 1: "wr32 (c_zeroed SIZEOF_MACH_MSG) MSGH_SIZE (of_nat SIZEOF_MACH_MSG) = Some reply"
    using wr32_Some [of MSGH_SIZE "c_zeroed SIZEOF_MACH_MSG"] by (auto simp: msgh_offsets c_zeroed_def)
  from that [OF 1] wr32_length [OF 1] rd32_wr32_same [OF 1] show ?thesis
    by (simp add: c_zeroed_def SIZEOF_MACH_MSG_def)
qed

lemma dispatch_overruns:
  assumes "kport_inv s" "ports s (ipc_bootstrap_port s) = Some (m # ms)"
    and "rd32 m MSGH_ID = Some idw"
    and "sint idw = MACH_MSG_ID_BOOTSTRAP_REGISTER \<or> sint idw = MACH_MSG_ID_BOOTSTRAP_LOOKUP"
  shows "dispatch_bootstrap s = None"
proof -
  obtain s1 where 1: "mach_port_dequeue_message (ipc_bootstrap_port s) s = (Some m, s1)"
    "\<exists>i. mach_port_lookup (ipc_bootstrap_port s) s = Some i \<and> po_count (port_obj i s) \<noteq> 0"
    using dispatch_dequeues [OF assms(1,2)] by metis
  obtain reply where 2: "wr32 (c_zeroed SIZEOF_MACH_MSG) MSGH_SIZE (of_nat SIZEOF_MACH_MSG) = Some reply"
    "length reply = SIZEOF_MACH_MSG"
    using prepared_reply by metis
  from 1 2 handle_needs_room [OF assms(3) 2(2) assms(4), of s1] show ?thesis
    by (auto simp: dispatch_bootstrap_def)
qed

section \<open>Reaping\<close>

lemma reap_child_correct:
  assumes "task_inv s"
  shows "task_inv (reap_child pid s) \<and> ports (reap_child pid s) = ports s \<and>
    kport_inv (reap_child pid s) = kport_inv s \<and> dom (tasks (reap_child pid s)) = dom (tasks s) \<and>
    (\<forall>t. tasks (reap_child pid s) t = tasks s t \<or>
         (\<exists>task. tasks s t = Some task \<and> tk_host_pid task = pid \<and>
            tasks (reap_child pid s) t = Some (task\<lparr>tk_running := False, tk_terminated := True\<rparr>)))"
proof (cases "find (\<lambda>t. tk_in_use (task_obj t s) \<and> tk_host_pid (task_obj t s) = pid) [0..<TASK_MAX]")
  case None
  with assms show ?thesis by (simp add: reap_child_def)
next
  case (Some t)
  then have t: "t < TASK_MAX" "tk_in_use (task_obj t s)" "tk_host_pid (task_obj t s) = pid"
    by (simp_all add: find_upt_Some)
  let ?f = "\<lambda>task. task\<lparr>tk_running := False, tk_terminated := True\<rparr>"
  have r: "reap_child pid s = upd_task t ?f s"
    using Some by (simp add: reap_child_def)
  have "task_inv (upd_task t ?f s)"
    using assms t by (intro task_inv_upd_same) (simp_all add: task_inv_def)
  moreover have "tasks (upd_task t ?f s) = (tasks s)(t \<mapsto> ?f (task_obj t s))" "tasks s t = Some (task_obj t s)"
    using assms t by (simp_all add: tasks_upd_task task_inv_length tasks_Some)
  ultimately show ?thesis
    using t by (auto simp: r)
qed

lemma reap_children_ports [simp]:
  "ports (reap_children exits s) = ports s" "kport_inv (reap_children exits s) = kport_inv s"
  "ipc_bootstrap_port (reap_children exits s) = ipc_bootstrap_port s"
proof -
  have one: "ports (reap_child pid s) = ports s" "kport_inv (reap_child pid s) = kport_inv s"
    "ipc_bootstrap_port (reap_child pid s) = ipc_bootstrap_port s" for pid s
    by (auto simp: reap_child_def split: option.splits)
  show "ports (reap_children exits s) = ports s" "kport_inv (reap_children exits s) = kport_inv s"
    "ipc_bootstrap_port (reap_children exits s) = ipc_bootstrap_port s"
    unfolding reap_children_def by (induction exits arbitrary: s) (auto simp: one)
qed

section \<open>Shutting down\<close>

lemma shutdown_tasks_correct:
  assumes "task_inv s" "kport_inv s" "n \<le> TASK_MAX"
  shows "task_inv (shutdown_tasks n s) \<and> kport_inv (shutdown_tasks n s) \<and>
    tasks (shutdown_tasks n s) = (tasks s) |` (- {0<..<n}) \<and>
    ports (shutdown_tasks n s) = (ports s) |` (- (\<Union>t \<in> {0<..<n}. case tasks s t of None \<Rightarrow> {} | Some task \<Rightarrow> task_port_set task)) \<and>
    ipc_bootstrap_port (shutdown_tasks n s) = ipc_bootstrap_port s"
  using assms
proof (induction n arbitrary: s)
  case 0
  then show ?case by (simp add: restrict_map_def)
next
  case (Suc n)
  let ?s1 = "if tk_in_use (task_obj n s) \<and> tk_id (task_obj n s) \<noteq> 0
             then snd (mxwl_task_terminate (Some n) s) else s"
  let ?P = "\<lambda>s t. case tasks s t of None \<Rightarrow> {} | Some task \<Rightarrow> task_port_set task"
  have ins: "{0<..<Suc n} = (if n = 0 then {} else insert n {0<..<n})"
    by auto
  have "task_inv ?s1 \<and> kport_inv ?s1 \<and> ipc_bootstrap_port ?s1 = ipc_bootstrap_port s \<and>
    tasks ?s1 = (if n = 0 then tasks s else (tasks s)(n := None)) \<and>
    ports ?s1 = (if n = 0 then ports s else (ports s) |` (- ?P s n))"
  proof (cases "tasks s n")
    case None
    with Suc.prems have "\<not> tk_in_use (task_obj n s)" by (auto simp: tasks_def)
    with None Suc.prems show ?thesis by (auto simp: fun_upd_idem restrict_map_def)
  next
    case (Some task)
    with Suc.prems have "tk_in_use (task_obj n s)" "tk_id (task_obj n s) = int n"
      by (auto simp: tasks_Some task_inv_def task_ok_def)
    with terminate_correct [OF Suc.prems(1,2) Some] Suc.prems Some show ?thesis
      by auto
  qed
  moreover from this have "?P ?s1 t = (if n \<noteq> 0 \<and> t = n then {} else ?P s t)" for t
    by (auto simp: fun_upd_apply)
  ultimately show ?case
    using Suc.IH [of ?s1] Suc.prems(3) unfolding ins
    by (cases "n = 0") (auto simp: restrict_map_def fun_eq_iff)
qed

end
