(* ===== verification/Kernel_Props.thy ===== *)
theory Kernel_Props
  imports Mach_Kernel Mach_Ipc_Props
begin

text \<open>
  The properties of the task table (\<^verbatim>\<open>Kernel/mxwl/task/task.c\<close>) and of the kernel's loop and
  shutdown (\<^verbatim>\<open>Kernel/mxwl/mach/mach_kernel.c\<close>).
\<close>

section \<open>The states of the task table\<close>

inductive task_step :: "'a ktask_scheme \<Rightarrow> 'a ktask_scheme \<Rightarrow> bool" where
  create: "mxwl_task_create name s = (kr, out, s') \<Longrightarrow> task_step s s'"
| terminate: "t < TASK_MAX \<Longrightarrow> task_step s (snd (mxwl_task_terminate (Some t) s))"
| insert_port: "tasks s t \<noteq> None \<Longrightarrow> mxwl_task_insert_port (Some t) name port s = Some (kr, s') \<Longrightarrow> task_step s s'"
| remove_port: "tasks s t \<noteq> None \<Longrightarrow> task_step s (snd (mxwl_task_remove_port (Some t) name s))"
| thread_create: "tasks s t \<noteq> None \<Longrightarrow> mxwl_thread_create (Some t) s = (kr, out, s') \<Longrightarrow> task_step s s'"
| reap: "task_step s (reap_child pid s)"

inductive_cases task_stepE: "task_step s s'"

lemma more_only_ports:
  "task_inv (s\<lparr>kclock := c\<rparr>) = task_inv s" "tasks (s\<lparr>kclock := c\<rparr>) = tasks s"
  "task_inv (s\<lparr>kthreads := h, knext_thread := n\<rparr>) = task_inv s"
  "tasks (s\<lparr>kthreads := h, knext_thread := n\<rparr>) = tasks s"
  "kport_inv (s\<lparr>kthreads := h, knext_thread := n\<rparr>) = kport_inv s"
  "task_obj t (s\<lparr>kclock := c\<rparr>) = task_obj t s"
  by (auto simp: task_obj_def intro!: task_inv_cong tasks_cong kport_inv_cong)

lemma thread_create_inv:
  assumes "task_inv s" "kport_inv s" "tasks s t = Some task" "mxwl_thread_create (Some t) s = (kr, out, s')"
  shows "task_inv s' \<and> kport_inv s' \<and> dom (tasks s') = dom (tasks s)"
proof -
  from assms(3) have t: "t < TASK_MAX" "tk_in_use (task_obj t s)" "task = task_obj t s"
    by (simp_all add: tasks_Some)
  with assms(1) have ok: "task_ok t task" by (simp add: task_inv_def)
  define h where "h = s\<lparr>kclock := Suc (kclock s)\<rparr>"
  let ?n = "tk_thread_count task"
  let ?f = "\<lambda>task. task\<lparr>tk_threads := (tk_threads task)[?n := Some (knext_thread s)], tk_thread_count := ?n + 1\<rparr>"
  consider "s' = s \<or> s' = h"
    | "?n < THREAD_MAX"
      "s' = upd_task t ?f (h\<lparr>kthreads := (kthreads s)(knext_thread s \<mapsto>
          \<lparr>th_id = int ?n, th_host_tid = - 1, th_active = True, th_suspended = False\<rparr>),
          knext_thread := Suc (knext_thread s)\<rparr>)"
    using assms(4) t(3)
    by (auto simp: mxwl_thread_create_def kal_malloc_def Let_def h_def split: if_splits)
  then show ?thesis
  proof cases
    case 1
    with assms show ?thesis by (auto simp: h_def more_only_ports)
  next
    case 2
    let ?g = "h\<lparr>kthreads := (kthreads s)(knext_thread s \<mapsto>
          \<lparr>th_id = int ?n, th_host_tid = - 1, th_active = True, th_suspended = False\<rparr>),
          knext_thread := Suc (knext_thread s)\<rparr>"
    have g: "task_inv ?g" "kport_inv ?g" "tasks ?g = tasks s" "task_obj t ?g = task"
      using assms t by (simp_all add: h_def more_only_ports) (simp add: task_obj_def)
    have f: "task_ok t (?f task)" "tk_in_use (?f task)" "tk_in_use task"
      using ok 2(1) t by (simp_all add: task_ok_def)
    have "task_inv (upd_task t ?f ?g)"
      by (rule task_inv_upd_same [OF g(1) t(1)]) (use f in \<open>simp_all only: g(4)\<close>)
    moreover have "tasks (upd_task t ?f ?g) = (tasks s)(t \<mapsto> ?f task)"
      using tasks_upd_task [OF task_inv_length [OF g(1)] t(1), of ?f] f(2) by (simp only: g(3,4) if_True)
    moreover have "kport_inv (upd_task t ?f ?g)"
      using g(2) by (simp only: upd_task_ports)
    ultimately show ?thesis
      using 2(2) assms(3) by auto
  qed
qed

lemma task_step_inv: "task_step s s' \<Longrightarrow> task_inv s \<and> kport_inv s \<Longrightarrow> task_inv s' \<and> kport_inv s'"
proof (induction rule: task_step.induct)
  case (create name s kr out s')
  then show ?case using create_correct by blast
next
  case (terminate t s)
  then show ?case
    using terminate_correct [of s t] terminate_invalid [of s t] by (cases "tasks s t") auto
next
  case (insert_port s t name port kr s')
  then obtain task where "tasks s t = Some task" by blast
  from insert_port_correct [OF _ this, of name port] insert_port show ?case
    by (auto split: if_splits)
next
  case (remove_port s t name)
  then obtain task where "tasks s t = Some task" by blast
  from remove_port_correct [OF _ this, of name] remove_port.prems show ?case
    by (auto split: if_splits)
next
  case (thread_create s t kr out s')
  then show ?case using thread_create_inv by blast
next
  case (reap s pid)
  then show ?case using reap_child_correct by blast
qed

lemma tasks_card:
  assumes "task_inv s"
  shows "mxwl_task_count s = int (card (dom (tasks s)))"
proof -
  have "dom (tasks s) = {i. i < length (mxwl_task_table s) \<and> tk_in_use (mxwl_task_table s ! i)}"
    using assms by (auto simp: tasks_def task_obj_def task_inv_length split: if_splits)
  then show ?thesis
    using assms by (simp add: task_inv_def length_filter_conv_card)
qed

lemma task_init_inv:
  assumes "kport_inv s"
  shows "task_inv (snd (mxwl_task_init s)) \<and> kport_inv (snd (mxwl_task_init s)) \<and>
    dom (tasks (snd (mxwl_task_init s))) = {0} \<and> ports (snd (mxwl_task_init s)) = ports s"
proof -
  let ?s0 = "s\<lparr>mxwl_task_table := replicate TASK_MAX zero_task, mxwl_task_count := 0, mxwl_current_task := None\<rparr>"
  let ?k = "zero_task\<lparr>tk_host_pid := kgetpid s, tk_in_use := True, tk_running := True,
             tk_name := cstr_of ''kernel'', tk_bootstrap_port := ipc_bootstrap_port s\<rparr>"
  have pos: "0 < TASK_MAX" by (simp add: TASK_MAX_def)
  have 0: "task_inv ?s0" "tasks ?s0 = Map.empty" "\<not> tk_in_use (task_obj 0 ?s0)"
    using pos by (auto simp: task_inv_def tasks_def task_obj_def zero_task_def fun_eq_iff)
  have "task_ok 0 ?k" "tk_in_use ?k"
    by (simp_all add: task_ok_def zero_task_def)
  then have "task_inv ((upd_task 0 (\<lambda>_. ?k) ?s0)\<lparr>mxwl_task_count := 1\<rparr>)"
    using 0 pos by (intro task_inv_upd_task) simp_all
  moreover have "task_inv (x\<lparr>mxwl_task_count := 1, mxwl_current_task := c\<rparr>) = task_inv (x\<lparr>mxwl_task_count := 1\<rparr>)"
    "tasks (x\<lparr>mxwl_task_count := 1, mxwl_current_task := c\<rparr>) = tasks x"
    "ports (x\<lparr>mxwl_task_count := 1, mxwl_current_task := c\<rparr>) = ports x"
    "kport_inv (x\<lparr>mxwl_task_count := 1, mxwl_current_task := c\<rparr>) = kport_inv x" for x :: "'a ktask_scheme" and c
    by (auto intro!: task_inv_cong tasks_cong ports_cong kport_inv_cong)
  moreover have "tasks (upd_task 0 (\<lambda>_. ?k) ?s0) = [0 \<mapsto> ?k]"
    using 0 pos by (simp add: tasks_upd_task)
  moreover have "ports ?s0 = ports s" "kport_inv ?s0 = kport_inv s"
    by (auto intro!: ports_cong kport_inv_cong)
  ultimately show ?thesis
    using assms by (simp add: mxwl_task_init_def mxwl_kernel_task_init_def Let_def)
qed

lemma ipc_shutdown_correct:
  assumes "kport_inv s"
  shows "kport_inv (ipc_shutdown s) \<and> ports (ipc_shutdown s) = (ports s)(ipc_bootstrap_port s := None) \<and>
    kport.more (ipc_shutdown s) = kport.more (s\<lparr>ipc_bootstrap_port := MACH_PORT_NULL\<rparr>)"
proof (cases "ipc_bootstrap_port s = MACH_PORT_NULL")
  case True
  then have "kport.more s = kport.more (s\<lparr>ipc_bootstrap_port := MACH_PORT_NULL\<rparr>)"
    by (cases s) simp
  with True assms ports_null [of s] show ?thesis
    by (simp add: ipc_shutdown_def fun_upd_idem)
next
  case False
  let ?d = "snd (mach_port_destroy (ipc_bootstrap_port s) s)"
  have "ports (?d\<lparr>ipc_bootstrap_port := b\<rparr>) = ports ?d" "kport_inv (?d\<lparr>ipc_bootstrap_port := b\<rparr>) = kport_inv ?d" for b
    by (auto intro!: ports_cong kport_inv_cong)
  moreover have "kport.more (?d\<lparr>ipc_bootstrap_port := MACH_PORT_NULL\<rparr>) = kport.more (s\<lparr>ipc_bootstrap_port := MACH_PORT_NULL\<rparr>)"
    using deallocate_more(2) [of "ipc_bootstrap_port s" s] by (cases ?d, cases s) simp
  ultimately show ?thesis
    using False destroy_removes [OF assms, of "ipc_bootstrap_port s"] by (simp add: ipc_shutdown_def)
qed

section \<open>A kernel for the instances\<close>

definition sample_ktask :: ktask where
  "sample_ktask = kipc.extend sample_kipc
     \<lparr>mxwl_task_table = [], mxwl_task_count = 0, mxwl_current_task = None, kthreads = (\<lambda>_. None),
      knext_thread = 0, kproc = [], kspawn = (\<lambda>_. Some 99), kgetpid = 1\<rparr>"

lemma sample_ktask_table: "mxwl_port_table sample_ktask = mxwl_port_table (kport_boot sample_host)"
  "khost sample_ktask = sample_host" "kclock sample_ktask = 0"
  by (simp_all add: sample_ktask_def sample_kipc_def kport.defs kipc.defs kport_boot_def)

lemma sample_ktask_inv: "kport_inv sample_ktask" "ports sample_ktask = Map.empty"
proof -
  have "mxwl_port_table_count sample_ktask = mxwl_port_table_count (kport_boot sample_host)"
    by (simp add: sample_ktask_def sample_kipc_def kport.defs kipc.defs kport_boot_def)
  with sample_ktask_table(1) have "kport_inv sample_ktask = kport_inv (kport_boot sample_host)"
    by (rule kport_inv_cong)
  then show "kport_inv sample_ktask"
    using boot_inv by simp
  show "ports sample_ktask = Map.empty"
    using ports_cong [OF sample_ktask_table(1)] by simp
qed

definition sample_tasks :: ktask where
  "sample_tasks = snd (mxwl_task_init sample_ktask)"

lemma sample_tasks_inv:
  "task_inv sample_tasks" "kport_inv sample_tasks" "dom (tasks sample_tasks) = {0}" "ports sample_tasks = Map.empty"
  using task_init_inv [OF sample_ktask_inv(1)] by (simp_all add: sample_tasks_def sample_ktask_inv(2))

section \<open>Properties\<close>

text \<open>
  C9. In every state that creating, ending and reaping tasks, creating threads and changing port
  rights reach from the initial task table, \<^verbatim>\<open>mxwl_task_count\<close> is the number of live tasks and at most
  \<open>TASK_MAX\<close>, the number of every live task is its slot, and its counters of rights and threads stay within
  the arrays they count in.  So a further right can be given to any live task: the call comes back, refused when
  the arrays are full, and never writes behind them.
\<close>

theorem task_table_consistent:
  assumes "task_step\<^sup>*\<^sup>* (snd (mxwl_task_init s0)) s" and "kport_inv s0"
  shows "mxwl_task_count s = int (card (dom (tasks s))) \<and> mxwl_task_count s \<le> int TASK_MAX \<and>
    (\<forall>t task. tasks s t = Some task \<longrightarrow> tk_id task = int t \<and>
       tk_port_count task \<le> TASK_PORT_MAX \<and> tk_port_count task \<le> length (tk_ports task) \<and>
       tk_port_count task \<le> length (tk_port_objects task) \<and>
       tk_thread_count task \<le> THREAD_MAX \<and> tk_thread_count task \<le> length (tk_threads task) \<and>
       (\<exists>s'. mxwl_task_insert_port (Some t) name port s =
          Some (if tk_port_count task = TASK_PORT_MAX then KERN_NO_SPACE else KERN_SUCCESS, s')))"
proof -
  have "task_inv s \<and> kport_inv s"
    using assms(1) task_init_inv [OF assms(2)]
    by (induction rule: rtranclp_induct) (auto dest: task_step_inv)
  then have inv: "task_inv s" by simp
  then have "task_ok t task" if "tasks s t = Some task" for t task
    using that by (auto simp: tasks_Some task_inv_def)
  moreover have "mxwl_task_count s \<le> int TASK_MAX"
    using inv length_filter_le [of tk_in_use "mxwl_task_table s"] by (simp add: task_inv_def)
  moreover have "\<exists>s'. mxwl_task_insert_port (Some t) name port s =
      Some (if tk_port_count task = TASK_PORT_MAX then KERN_NO_SPACE else KERN_SUCCESS, s')"
    if "tasks s t = Some task" for t task
    using insert_port_correct [OF inv that, of name port] rights_length [OF calculation(1) [OF that]] by (auto split: if_splits)
  ultimately show ?thesis
    using tasks_card [OF inv] unfolding task_ok_def by auto
qed

theorem task_table_consistent_witness:
  "\<exists>s. task_step\<^sup>*\<^sup>* sample_tasks s \<and> mxwl_task_count s = int (card (dom (tasks s))) \<and>
    mxwl_task_insert_port (Some 0) 5 6 s \<noteq> None"
proof -
  obtain task where "tasks sample_tasks 0 = Some task" using sample_tasks_inv(3) by blast
  moreover have "task_step\<^sup>*\<^sup>* (snd (mxwl_task_init sample_ktask)) sample_tasks" by (simp add: sample_tasks_def)
  note task_table_consistent [OF this sample_ktask_inv(1), of 5 6]
  ultimately have "mxwl_task_count sample_tasks = int (card (dom (tasks sample_tasks)))"
    "mxwl_task_insert_port (Some 0) 5 6 sample_tasks \<noteq> None" by fastforce+
  then show ?thesis by blast
qed

text \<open>
  Creating a task either fails, and then tasks and ports are as before, or takes a free slot:
  the task there has no rights and a bootstrap port that was free and is now live with an empty
  queue, and every other task and port is as before.
\<close>

theorem task_create_outcome:
  assumes "task_inv s" and "kport_inv s" and "mxwl_task_create name s = (kr, out, s')"
  shows "case out of
      None \<Rightarrow> kr \<in> {KERN_NO_SPACE, KERN_FAILURE} \<and> tasks s' = tasks s \<and> ports s' = ports s
    | Some t \<Rightarrow> kr = KERN_SUCCESS \<and> tasks s t = None \<and>
        (\<exists>task. tasks s' = (tasks s)(t \<mapsto> task) \<and> task_rights task = [] \<and> tk_id task = int t \<and>
           ports s (tk_bootstrap_port task) = None \<and>
           ports s' = (ports s)(tk_bootstrap_port task \<mapsto> []))"
proof (cases out)
  case None
  with create_correct [OF assms] show ?thesis by simp
next
  case (Some t)
  with create_correct [OF assms] obtain bp where "kr = KERN_SUCCESS" "tasks s t = None" "ports s bp = None"
    "ports s' = (ports s)(bp \<mapsto> [])" "tasks s' = (tasks s)(t \<mapsto> (fresh_task t name)\<lparr>tk_bootstrap_port := bp\<rparr>)"
    by auto
  moreover have "task_rights ((fresh_task t name)\<lparr>tk_bootstrap_port := bp\<rparr>) = []" "tk_id (fresh_task t name) = int t"
    using fresh_task_ok(2,3) [of t name] by (simp_all add: task_rights_def task_ok_def)
  ultimately show ?thesis
    using Some by (auto intro!: exI [of _ "(fresh_task t name)\<lparr>tk_bootstrap_port := bp\<rparr>"])
qed

theorem task_create_outcome_witness:
  "\<exists>kr out s'. mxwl_task_create (Some [97]) sample_tasks = (kr, out, s') \<and>
    (case out of None \<Rightarrow> tasks s' = tasks sample_tasks | Some t \<Rightarrow> tasks sample_tasks t = None \<and> tasks s' t \<noteq> None)"
proof -
  obtain kr out s' where 1: "mxwl_task_create (Some [97]) sample_tasks = (kr, out, s')"
    by (metis prod_cases3)
  from task_create_outcome [OF sample_tasks_inv(1,2) 1] 1 show ?thesis
    by (auto split: option.splits)
qed

text \<open>
  Ending a live task frees its slot, gives back exactly its ports (its bootstrap port and
  every port among its rights), leaves every other task and port alone, and kills and waits for
  its process when it has one.
\<close>

theorem task_terminate_outcome:
  assumes "task_inv s" and "kport_inv s" and "tasks s t = Some task"
  shows "\<exists>s'. mxwl_task_terminate (Some t) s = (KERN_SUCCESS, s') \<and> task_inv s' \<and> kport_inv s' \<and>
    tasks s' = (tasks s)(t := None) \<and>
    ports s' = (ports s) |` (- insert (tk_bootstrap_port task) (snd ` set (task_rights task))) \<and>
    kproc s' = kproc s @ (if 0 < tk_host_pid task then [Kill (tk_host_pid task), Wait (tk_host_pid task)] else [])"
proof -
  have "task_ok t task"
    using assms(1,3) by (auto simp: tasks_Some task_inv_def)
  then have "map snd (task_rights task) = take (tk_port_count task) (tk_port_objects task)"
    by (simp add: task_rights_def task_ok_def map_snd_zip)
  then have "insert (tk_bootstrap_port task) (snd ` set (task_rights task)) = task_port_set task"
    unfolding task_port_set_def by (metis list.set_map)
  with terminate_correct [OF assms] show ?thesis by auto
qed

theorem task_terminate_outcome_witness:
  "\<exists>s'. mxwl_task_terminate (Some 0) sample_tasks = (KERN_SUCCESS, s') \<and> tasks s' 0 = None"
proof -
  obtain task where "tasks sample_tasks 0 = Some task"
    using sample_tasks_inv(3) by blast
  from task_terminate_outcome [OF sample_tasks_inv(1,2) this] show ?thesis by auto
qed

text \<open>
  C10. The rights of a task are a list: inserting appends a name with its port until 64 are held
  and is then refused, and removing a name deletes its first occurrence and keeps the order of the
  others, or answers \<open>KERN_INVALID_NAME\<close> when the name is not there.
\<close>

theorem task_rights_as_list:
  assumes "task_inv s" and "tasks s t = Some task"
  shows "(if length (task_rights task) = TASK_PORT_MAX
          then mxwl_task_insert_port (Some t) name port s = Some (KERN_NO_SPACE, s)
          else \<exists>s' task'. mxwl_task_insert_port (Some t) name port s = Some (KERN_SUCCESS, s') \<and>
                 tasks s' = (tasks s)(t \<mapsto> task') \<and> task_rights task' = task_rights task @ [(name, port)]) \<and>
    (if name \<notin> fst ` set (task_rights task)
     then mxwl_task_remove_port (Some t) name s = (KERN_INVALID_NAME, s)
     else \<exists>s' task'. mxwl_task_remove_port (Some t) name s = (KERN_SUCCESS, s') \<and>
            tasks s' = (tasks s)(t \<mapsto> task') \<and> task_rights task' = remove_name name (task_rights task))"
  using insert_port_correct [OF assms, of name port] remove_port_correct [OF assms, of name]
  by (auto split: if_splits)

theorem task_rights_as_list_witness:
  "\<exists>s' task'. mxwl_task_insert_port (Some 0) 5 7 sample_tasks = Some (KERN_SUCCESS, s') \<and>
    tasks s' 0 = Some task' \<and> task_rights task' = [(5, 7)]"
proof -
  obtain task where t: "tasks sample_tasks 0 = Some task"
    using sample_tasks_inv(3) by blast
  then have "task = task_obj 0 sample_tasks" by (simp add: tasks_Some)
  moreover have "TASK_MAX = Suc 127" by (simp add: TASK_MAX_def)
  ultimately have "task_rights task = []"
    by (simp add: sample_tasks_def mxwl_task_init_def mxwl_kernel_task_init_def task_obj_def upd_task_def Let_def
        zero_task_def task_rights_def)
  with task_rights_as_list [OF sample_tasks_inv(1) t, of 5 7] show ?thesis
    by (auto simp: TASK_PORT_MAX_def)
qed

text \<open>
  C11. A bootstrap request to register or look up a service that reaches the kernel's loop makes
  it write past the reply it keeps on its stack: the reply has the 20 bytes of a bare header, the
  handler writes four more.
\<close>

theorem kernel_loop_overruns_reply:
  assumes "kport_inv s" and "ports s (ipc_bootstrap_port s) = Some (m # ms)"
    and "rd32 m MSGH_ID = Some idw"
    and "sint idw = MACH_MSG_ID_BOOTSTRAP_REGISTER \<or> sint idw = MACH_MSG_ID_BOOTSTRAP_LOOKUP"
  shows "kernel_round (exits, env) s = None"
  using dispatch_overruns [of "reap_children exits s" m ms idw] assms by (simp add: kernel_round_def)

definition sample_request :: msg_buf where
  "sample_request = [26, 0, 0, 0,  0, 0, 0, 0,  0, 0, 0, 0,  0, 0, 0, 0,  2, 1, 0, 0,  1, 0, 0, 0,  65, 0]"

definition sample_kernel :: kernel where
  "sample_kernel = (ktask.extend sample_tasks
     \<lparr>kn_initialized = True, kn_running = True, kn_boot_flags = 0, kn_userfs_root = [], kn_kernel_pid = 1,
      kn_init_pid = 0, kn_host_port = 2, kn_host_priv_port = 3, kn_kernel_port = 0\<rparr>)
     \<lparr>mxwl_port_table := mxwl_port_table (snd (kport_put 1 sample_request sample_kport)),
      mxwl_port_table_count := mxwl_port_table_count (snd (kport_put 1 sample_request sample_kport)),
      ipc_bootstrap_port := 1\<rparr>"

lemma sample_kernel_ports:
  "kport_inv sample_kernel" "ports sample_kernel = [1 \<mapsto> [sample_request]]" "ipc_bootstrap_port sample_kernel = 1"
proof -
  have fits: "msg_fits sample_request" "queued_copy sample_request = sample_request"
    by (simp_all add: msg_fits_def queued_copy_def declared_size_def sample_request_def rd32_def word_of_def)
  have put: "kport_inv (snd (kport_put 1 sample_request sample_kport))"
    "ports (snd (kport_put 1 sample_request sample_kport)) = [1 \<mapsto> [sample_request]]"
    using queue_correct [OF sample_allocate(2), of 1 "[]" sample_request] fits
    by (auto simp: kport_put_def sample_allocate sample_host_def)
  have tbl: "mxwl_port_table sample_kernel = mxwl_port_table (snd (kport_put 1 sample_request sample_kport))"
    "mxwl_port_table_count sample_kernel = mxwl_port_table_count (snd (kport_put 1 sample_request sample_kport))"
    by (simp_all add: sample_kernel_def)
  show "ports sample_kernel = [1 \<mapsto> [sample_request]]"
    using ports_cong [OF tbl(1)] put(2) by simp
  show "kport_inv sample_kernel"
    using kport_inv_cong [OF tbl] put(1) by simp
  show "ipc_bootstrap_port sample_kernel = 1"
    by (simp add: sample_kernel_def)
qed

theorem kernel_loop_overruns_reply_witness:
  "kernel_round ([(7, 0)], id) sample_kernel = None"
proof -
  have "rd32 sample_request MSGH_ID = Some 0x102"
    by (simp add: rd32_def sample_request_def word_of_def MSGH_ID_def)
  from kernel_loop_overruns_reply [OF sample_kernel_ports(1) _ this, of "[]" "[(7, 0)]" id] show ?thesis
    by (simp add: sample_kernel_ports MACH_MSG_ID_BOOTSTRAP_LOOKUP_def)
qed

text \<open>
  Shutting the kernel down ends every task but the kernel's own and gives back exactly the
  ports these tasks held and the bootstrap port; no other port is touched.
\<close>

theorem kernel_shutdown_releases:
  assumes "task_inv s" and "kport_inv s"
  shows "tasks (mxwl_kernel_shutdown s) = (tasks s) |` {0} \<and>
    ports (mxwl_kernel_shutdown s) =
      (ports s) |` (- insert (ipc_bootstrap_port s)
        (\<Union>t \<in> dom (tasks s) - {0}. task_port_set (the (tasks s t))))"
proof -
  let ?d = "shutdown_tasks TASK_MAX s"
  let ?P = "\<Union>t \<in> {0<..<TASK_MAX}. case tasks s t of None \<Rightarrow> {} | Some task \<Rightarrow> task_port_set task"
  note d = shutdown_tasks_correct [OF assms order.refl]
  then have i: "ports (ipc_shutdown ?d) = (ports ?d)(ipc_bootstrap_port s := None)"
    "kport.more (ipc_shutdown ?d) = kport.more (?d\<lparr>ipc_bootstrap_port := MACH_PORT_NULL\<rparr>)"
    using ipc_shutdown_correct [of ?d] by simp_all
  have more: "ports (x\<lparr>kn_running := a, kn_initialized := b\<rparr>) = ports x"
    "tasks (x\<lparr>kn_running := a, kn_initialized := b\<rparr>) = tasks x" for x :: "'a kernel_scheme" and a b
    by (auto intro!: ports_cong tasks_cong)
  have "tasks (ipc_shutdown ?d) = tasks (?d\<lparr>ipc_bootstrap_port := MACH_PORT_NULL\<rparr>)"
    using tasks_more [OF i(2)] by simp
  also have "\<dots> = tasks ?d" by (auto intro: tasks_cong)
  also have "\<dots> = (tasks s) |` {0}"
    using d by (auto simp: restrict_map_def fun_eq_iff tasks_def)
  finally have "tasks (ipc_shutdown ?d) = (tasks s) |` {0}" .
  moreover have "?P = (\<Union>t \<in> dom (tasks s) - {0}. task_port_set (the (tasks s t)))"
    by (force simp: tasks_def split: if_splits option.splits)
  then have "ports (ipc_shutdown ?d) = (ports s) |` (- insert (ipc_bootstrap_port s)
        (\<Union>t \<in> dom (tasks s) - {0}. task_port_set (the (tasks s t))))"
    using i(1) d by (auto simp: restrict_map_def fun_eq_iff)
  ultimately show ?thesis
    by (simp add: mxwl_kernel_shutdown_def more)
qed

lemma sample_kernel_tasks: "task_inv sample_kernel" "dom (tasks sample_kernel) = {0}"
proof -
  have "mxwl_task_table sample_kernel = mxwl_task_table sample_tasks"
    "mxwl_task_count sample_kernel = mxwl_task_count sample_tasks"
    by (simp_all add: sample_kernel_def ktask.defs)
  from task_inv_cong [OF this] tasks_cong [OF this(1)] sample_tasks_inv
  show "task_inv sample_kernel" "dom (tasks sample_kernel) = {0}" by simp_all
qed

theorem kernel_shutdown_releases_witness:
  "ports (mxwl_kernel_shutdown sample_kernel) = Map.empty \<and> dom (tasks (mxwl_kernel_shutdown sample_kernel)) = {0}"
  using kernel_shutdown_releases [OF sample_kernel_tasks(1) sample_kernel_ports(1)]
  by (simp add: sample_kernel_ports sample_kernel_tasks(2))

end
