(* ===== verification/Mach_Loader.thy ===== *)
theory Mach_Loader
  imports Task_Correct
begin

text \<open>
  The loader of \<^verbatim>\<open>.mach\<close> binaries, \<^verbatim>\<open>Kernel/mxwl/loader/mach_loader.c\<close>.  The host's file system is
  a parameter (\<open>loader_host\<close>): the bytes of the files that can be opened, the outcome of seeking, of
  making a temporary file and of each write, which may store fewer bytes than it is given.  The
  temporary files that exist are part of the state (\<open>ktmp\<close>).
\<close>

section \<open>Data\<close>

definition MACH_BINARY_MAGIC_BE :: uint32 where "MACH_BINARY_MAGIC_BE = 0x4D414E47"
definition MACH_BINARY_MAGIC_LE :: uint32 where "MACH_BINARY_MAGIC_LE = 0x474E414D"
definition MACH_BINARY_VERSION_1 :: uint32 where "MACH_BINARY_VERSION_1 = 1"
definition SIZEOF_MACH_BINARY_HEADER :: nat where "SIZEOF_MACH_BINARY_HEADER = 56"

record mach_binary_header =
  hd_magic :: uint32
  hd_version :: uint32
  hd_header_size :: uint32
  hd_binary_offset :: uint32
  hd_binary_size :: uint32
  hd_interface_offset :: uint32
  hd_interface_size :: uint32
  hd_metadata_offset :: uint32
  hd_metadata_size :: uint32
  hd_flags :: uint32

record loader_host =
  lh_file :: "cstr \<Rightarrow> byte list option"
  lh_seek :: "nat \<Rightarrow> bool"
  lh_mkstemp :: "nat \<Rightarrow> cstr option"
  lh_write :: "nat \<Rightarrow> nat \<Rightarrow> byte list \<Rightarrow> int"

record kloader = ktask +
  ktmp :: "cstr \<Rightarrow> byte list option"
  kloader_host :: loader_host

section \<open>Validation\<close>

text \<open>The header as \<^verbatim>\<open>fread\<close> fills the structure.\<close>

definition parse_header :: "byte list \<Rightarrow> mach_binary_header option" where
  "parse_header bs =
     (if length bs < SIZEOF_MACH_BINARY_HEADER then None
      else do {
        magic \<leftarrow> rd32 bs 0;
        version \<leftarrow> rd32 bs 4;
        header_size \<leftarrow> rd32 bs 8;
        binary_offset \<leftarrow> rd32 bs 12;
        binary_size \<leftarrow> rd32 bs 16;
        interface_offset \<leftarrow> rd32 bs 20;
        interface_size \<leftarrow> rd32 bs 24;
        metadata_offset \<leftarrow> rd32 bs 28;
        metadata_size \<leftarrow> rd32 bs 32;
        flags \<leftarrow> rd32 bs 36;
        Some \<lparr>hd_magic = magic, hd_version = version, hd_header_size = header_size,
          hd_binary_offset = binary_offset, hd_binary_size = binary_size,
          hd_interface_offset = interface_offset, hd_interface_size = interface_size,
          hd_metadata_offset = metadata_offset, hd_metadata_size = metadata_size, hd_flags = flags\<rparr>
      })"

text \<open>\<open>has_out\<close>: the pointer to the header to fill is not null.\<close>

definition mxwl_loader_validate ::
  "cstr option \<Rightarrow> bool \<Rightarrow> loader_host \<Rightarrow> kern_return_t + mach_binary_header" where
  "mxwl_loader_validate mach_path has_out h =
     (case mach_path of
        None \<Rightarrow> Inl KERN_INVALID_ARGUMENT
      | Some path \<Rightarrow>
          if \<not> has_out then Inl KERN_INVALID_ARGUMENT
          else (case lh_file h path of
                  None \<Rightarrow> Inl KERN_INVALID_OBJECT
                | Some bs \<Rightarrow>
                    (case parse_header bs of
                       None \<Rightarrow> Inl KERN_INVALID_OBJECT
                     | Some hdr \<Rightarrow>
                         if hd_magic hdr \<noteq> MACH_BINARY_MAGIC_BE \<and> hd_magic hdr \<noteq> MACH_BINARY_MAGIC_LE
                         then Inl KERN_INVALID_OBJECT
                         else if hd_version hdr \<noteq> MACH_BINARY_VERSION_1 then Inl KERN_INVALID_ARGUMENT
                         else Inr hdr)))"

section \<open>Extraction\<close>

text \<open>
  The copying loop: \<open>rest\<close> is the file from the read position on, \<open>n\<close> numbers the writes.  The
  result is the count of bytes that remain and what the temporary file holds.  A write that stores
  only part of a chunk moves the count on by that part, and the read position by the whole chunk.
\<close>

function extract_loop ::
  "(nat \<Rightarrow> byte list \<Rightarrow> int) \<Rightarrow> nat \<Rightarrow> byte list \<Rightarrow> nat \<Rightarrow> byte list \<Rightarrow> nat \<times> byte list" where
  "extract_loop wr n rest remaining out =
     (if remaining = 0 then (0, out)
      else
        (let chunk = take (min 4096 remaining) rest in
         if chunk = [] then (remaining, out)
         else
           (let nwritten = wr n chunk in
            if nwritten < 0 then (remaining, out)
            else extract_loop wr (n + 1) (drop (length chunk) rest) (remaining - nat nwritten)
                   (out @ take (nat nwritten) chunk))))"
  by pat_completeness auto
termination
  by (relation "measure (\<lambda>(wr, n, rest, remaining, out). length rest)")
     (auto simp: min_def split: if_splits)

declare extract_loop.simps [simp del]

text \<open>\<^verbatim>\<open>mxwl_loader_extract_binary\<close>: the code and the path of the temporary file.\<close>

definition mxwl_loader_extract_binary ::
  "cstr \<Rightarrow> mach_binary_header \<Rightarrow> nat \<Rightarrow> 'a kloader_scheme \<Rightarrow> (kern_return_t + cstr) \<times> 'a kloader_scheme" where
  "mxwl_loader_extract_binary path header tmp_path_size s =
     (let h = kloader_host s; n = kclock s; s = s\<lparr>kclock := Suc n\<rparr> in
      case lh_file h path of
        None \<Rightarrow> (Inl KERN_FAILURE, s)
      | Some src \<Rightarrow>
          (case lh_mkstemp h n of
             None \<Rightarrow> (Inl KERN_FAILURE, s)
           | Some tmp \<Rightarrow>
               let off = unat (hd_binary_offset header) in
               if \<not> lh_seek h off then (Inl KERN_FAILURE, s\<lparr>ktmp := (ktmp s)(tmp := None)\<rparr>)
               else
                 (let (remaining, out) =
                        extract_loop (lh_write h n) 0 (drop off src) (unat (hd_binary_size header)) []
                  in if 0 < remaining then (Inl KERN_FAILURE, s\<lparr>ktmp := (ktmp s)(tmp := None)\<rparr>)
                     else (Inr (c_strlcpy tmp_path_size tmp), s\<lparr>ktmp := (ktmp s)(tmp \<mapsto> out)\<rparr>))))"

section \<open>Execution\<close>

definition mxwl_loader_exec ::
  "nat option \<Rightarrow> cstr option \<Rightarrow> mach_binary_header option \<Rightarrow> 'a kloader_scheme \<Rightarrow>
   kern_return_t \<times> 'a kloader_scheme" where
  "mxwl_loader_exec task mach_path header s =
     (case (task, mach_path, header) of
        (Some t, Some path, Some hdr) \<Rightarrow>
          (case mxwl_loader_extract_binary path hdr 512 s of
             (Inl kr, s) \<Rightarrow> (kr, s)
           | (Inr tmp, s) \<Rightarrow>
               (let s = upd_task t (\<lambda>task. task\<lparr>tk_binary_path := c_strlcpy TASK_PATH_SIZE path\<rparr>) s;
                    s = proc_log [Setenv (cstr_of ''MXWL_BOOTSTRAP_PORT'')
                                    (c_snprintf 32 (dec_int (tk_bootstrap_port (task_obj t s)))),
                                  Setenv (cstr_of ''MXWL_TASK_ID'') (c_snprintf 32 (dec_int (tk_id (task_obj t s))))] s;
                    s = (if tk_userfs_root (task_obj t s) \<noteq> []
                         then proc_log [Setenv (cstr_of ''USERFSROOT'') (tk_userfs_root (task_obj t s))] s
                         else s)
                in (case kal_process_spawn tmp s of
                      (None, s) \<Rightarrow> (KERN_FAILURE, s\<lparr>ktmp := (ktmp s)(tmp := None)\<rparr>)
                    | (Some pid, s) \<Rightarrow>
                        (KERN_SUCCESS,
                         upd_task t (\<lambda>task. task\<lparr>tk_host_pid := pid, tk_running := True\<rparr>) s))))
      | _ \<Rightarrow> (KERN_INVALID_ARGUMENT, s))"

definition mxwl_loader_load ::
  "cstr option \<Rightarrow> 'a kloader_scheme \<Rightarrow> kern_return_t \<times> nat option \<times> 'a kloader_scheme" where
  "mxwl_loader_load mach_path s =
     (case mach_path of
        None \<Rightarrow> (KERN_INVALID_ARGUMENT, None, s)
      | Some path \<Rightarrow>
          (case mxwl_loader_validate mach_path True (kloader_host s) of
             Inl kr \<Rightarrow> (kr, None, s)
           | Inr header \<Rightarrow>
               (case mxwl_task_create mach_path s of
                  (kr, None, s) \<Rightarrow> (kr, None, s)
                | (kr, Some t, s) \<Rightarrow>
                    (case mxwl_loader_exec (Some t) mach_path (Some header) s of
                       (kr, s) \<Rightarrow>
                         if kr \<noteq> KERN_SUCCESS then (kr, None, snd (mxwl_task_terminate (Some t) s))
                         else (KERN_SUCCESS, Some t, s)))))"

definition mxwl_loader_cleanup :: "nat option \<Rightarrow> 'a kloader_scheme \<Rightarrow> kern_return_t \<times> 'a kloader_scheme" where
  "mxwl_loader_cleanup task s =
     (case task of
        None \<Rightarrow> (KERN_INVALID_TASK, s)
      | Some t \<Rightarrow>
          (KERN_SUCCESS,
           if 0 < tk_host_pid (task_obj t s)
           then proc_log [Kill (tk_host_pid (task_obj t s)), Wait (tk_host_pid (task_obj t s))] s else s))"

section \<open>What extraction stores\<close>

lemma chunk_simps [simp]:
  "min 4096 r = 0 \<longleftrightarrow> r = (0::nat)" "take (min (length xs) m) xs = take m xs"
  by (auto simp: min_def)

text \<open>When every write stores its whole chunk, the loop copies exactly the binary, as far as the
  file goes.\<close>

lemma extract_complete:
  assumes "\<And>n c. wr n c = int (length c)"
  shows "extract_loop wr n rest remaining out = (remaining - length rest, out @ take remaining rest)"
proof (induction "length rest" arbitrary: n rest remaining out rule: less_induct)
  case less
  let ?chunk = "take (min 4096 remaining) rest"
  show ?case
  proof (cases "remaining = 0 \<or> rest = []")
    case True
    then show ?thesis by (auto simp: extract_loop.simps [of wr n rest remaining out])
  next
    case False
    let ?k = "length ?chunk"
    have k: "0 < ?k" "?k \<le> remaining" "?chunk = take ?k rest"
      using False by auto
    have "extract_loop wr n rest remaining out =
        extract_loop wr (n + 1) (drop ?k rest) (remaining - ?k) (out @ ?chunk)"
      using False assms by (subst extract_loop.simps) (simp add: Let_def)
    also have "\<dots> = (remaining - ?k - length (drop ?k rest), (out @ ?chunk) @ take (remaining - ?k) (drop ?k rest))"
      using less [of "drop ?k rest" "n + 1" "remaining - ?k" "out @ ?chunk"] k(1) by simp
    finally have "extract_loop wr n rest remaining out =
        (remaining - ?k - length (drop ?k rest), out @ (?chunk @ take (remaining - ?k) (drop ?k rest)))"
      by simp
    moreover have "?chunk @ take (remaining - ?k) (drop ?k rest) = take remaining rest"
      using k(2,3) by (metis le_add_diff_inverse take_add)
    ultimately show ?thesis
      using k by (simp only: length_drop) simp
  qed
qed

text \<open>Success always means as many bytes as the header says.\<close>

lemma extract_length:
  assumes "\<And>n c. wr n c \<le> int (length c)"
  shows "extract_loop wr n rest remaining out = (0, bs) \<Longrightarrow> length bs = length out + remaining"
proof (induction "length rest" arbitrary: n rest remaining out rule: less_induct)
  case less
  let ?chunk = "take (min 4096 remaining) rest"
  show ?case
  proof (cases "remaining = 0 \<or> rest = []")
    case True
    with less.prems show ?thesis
      by (auto simp: extract_loop.simps [of wr n rest remaining out] split: if_splits)
  next
    case False
    then have ne: "?chunk \<noteq> []" "0 < length ?chunk" by auto
    with less.prems False have nn: "0 \<le> wr n ?chunk"
      and eq: "extract_loop wr (n + 1) (drop (length ?chunk) rest) (remaining - nat (wr n ?chunk))
            (out @ take (nat (wr n ?chunk)) ?chunk) = (0, bs)"
      by (auto simp: extract_loop.simps [of wr n rest remaining out] Let_def split: if_splits)
    have le: "nat (wr n ?chunk) \<le> length ?chunk"
      using assms [of n ?chunk] by linarith
    have "length bs = length (out @ take (nat (wr n ?chunk)) ?chunk) + (remaining - nat (wr n ?chunk))"
      using ne by (intro less.hyps [OF _ eq]) simp
    moreover have "nat (wr n ?chunk) \<le> remaining" "length (take (nat (wr n ?chunk)) ?chunk) = nat (wr n ?chunk)"
      using le by simp_all
    ultimately show ?thesis by simp
  qed
qed

text \<open>A write that stores only \<open>k\<close> bytes of the chunk loses the rest of it: the copy goes on with
  the bytes after the chunk.\<close>

lemma extract_short_write:
  assumes "\<And>n c. 0 < n \<Longrightarrow> wr n c = int (length c)" and "wr 0 (take (min 4096 remaining) rest) = int k"
    and "0 < remaining" "rest \<noteq> []"
  shows "extract_loop wr 0 rest remaining [] =
    (let m = length (take (min 4096 remaining) rest) in
     (remaining - k - (length rest - m), take k (take (min 4096 remaining) rest) @ take (remaining - k) (drop m rest)))"
proof -
  let ?chunk = "take (min 4096 remaining) rest" and ?w = "\<lambda>n. wr (Suc n)"
  have shift: "extract_loop wr (Suc n) rs r out = extract_loop ?w n rs r out" for n rs r out
  proof (induction "length rs" arbitrary: n rs r out rule: less_induct)
    case less
    show ?case
    proof (cases "r = 0 \<or> rs = []")
      case True
      then show ?thesis
        by (auto simp: extract_loop.simps [of wr "Suc n" rs r out] extract_loop.simps [of ?w n rs r out])
    next
      case False
      then have "length (drop (length (take (min 4096 r) rs)) rs) < length rs" by auto
      from less [OF this] False show ?thesis
        by (simp add: extract_loop.simps [of wr "Suc n" rs r out] extract_loop.simps [of ?w n rs r out] Let_def)
    qed
  qed
  have "extract_loop wr 0 rest remaining [] =
      extract_loop wr (Suc 0) (drop (length ?chunk) rest) (remaining - k) (take k ?chunk)"
    using assms(2-4) by (subst extract_loop.simps) (simp add: Let_def)
  also have "\<dots> = extract_loop ?w 0 (drop (length ?chunk) rest) (remaining - k) (take k ?chunk)"
    by (rule shift)
  also have "\<dots> = (remaining - k - length (drop (length ?chunk) rest),
      take k ?chunk @ take (remaining - k) (drop (length ?chunk) rest))"
    using assms(1) by (intro extract_complete) simp
  finally show ?thesis
    by (simp add: Let_def)
qed

end
