(* ===== verification/Loader_Props.thy ===== *)
theory Loader_Props
  imports Mach_Loader Kernel_Props
begin

text \<open>The properties of the binary loader (\<^verbatim>\<open>Kernel/mxwl/loader/mach_loader.c\<close>).\<close>

section \<open>What the loader does to the task it starts\<close>

lemma loader_fields [simp]:
  "tasks (s\<lparr>kclock := c\<rparr>) = tasks s" "task_inv (s\<lparr>kclock := c\<rparr>) = task_inv s"
  "task_obj t (s\<lparr>kclock := c\<rparr>) = task_obj t s"
  by (auto simp: task_obj_def intro!: tasks_cong task_inv_cong)

lemma ktmp_fields [simp]:
  "tasks (s\<lparr>ktmp := f\<rparr>) = tasks s" "task_inv (s\<lparr>ktmp := f\<rparr>) = task_inv s"
  "task_obj t (s\<lparr>ktmp := f\<rparr>) = task_obj t s"
  "ports (s\<lparr>ktmp := f\<rparr>) = ports s" "kport_inv (s\<lparr>ktmp := f\<rparr>) = kport_inv s"
  by (auto simp: task_obj_def intro!: tasks_cong task_inv_cong ports_cong kport_inv_cong)

definition same_tables :: "'a ktask_scheme \<Rightarrow> 'a ktask_scheme \<Rightarrow> bool" where
  "same_tables s s' \<longleftrightarrow>
     tasks s' = tasks s \<and> task_inv s' = task_inv s \<and> ports s' = ports s \<and> kport_inv s' = kport_inv s"

lemma same_tables_refl [simp]: "same_tables s s"
  by (simp add: same_tables_def)

lemma extract_same_tables:
  "mxwl_loader_extract_binary path hdr n s = (r, s') \<Longrightarrow> same_tables s s'"
  by (auto simp: mxwl_loader_extract_binary_def same_tables_def Let_def split: option.splits if_splits prod.splits)

lemma spawn_same_tables: "kal_process_spawn path s = (r, s') \<Longrightarrow> same_tables s s'"
  by (auto simp: kal_process_spawn_def same_tables_def Let_def split: option.splits)

lemma same_tables_trans: "same_tables s s1 \<Longrightarrow> same_tables s1 s2 \<Longrightarrow> same_tables s s2"
  by (simp add: same_tables_def)

text \<open>Two tasks that hold the same ports.\<close>

definition same_ports :: "mxwl_task \<Rightarrow> mxwl_task \<Rightarrow> bool" where
  "same_ports task task' \<longleftrightarrow> task_port_set task' = task_port_set task"

lemma exec_keeps_ports:
  assumes "mxwl_loader_exec (Some t) path hdr s = (kr, s')"
    and "task_inv s" "tasks s t = Some task"
  shows "\<exists>task'. tasks s' = (tasks s)(t \<mapsto> task') \<and> same_ports task task' \<and> task_inv s' \<and>
    ports s' = ports s \<and> kport_inv s' = kport_inv s"
proof -
  have self: "\<exists>task'. tasks s = (tasks s)(t \<mapsto> task') \<and> same_ports task task'"
    using assms(3) by (intro exI [of _ task]) (simp add: fun_upd_idem same_ports_def)
  show ?thesis
  proof (cases "path = None \<or> hdr = None")
  case True
  with assms(1) have "s' = s"
    by (auto simp: mxwl_loader_exec_def split: option.splits)
  with self assms(2) show ?thesis by simp
next
  case False
  then obtain p h where ph: "path = Some p" "hdr = Some h" by auto
  obtain r s1 where 1: "mxwl_loader_extract_binary p h 512 s = (r, s1)" by force
  note same1 = extract_same_tables [OF 1, unfolded same_tables_def]
  have upd: "\<exists>task'. tasks (upd_task t f x) = (tasks x)(t \<mapsto> task') \<and> same_ports task task' \<and> task_inv (upd_task t f x)"
    if "task_inv x" "tasks x t = Some y" "same_ports task y" "task_ok t (f y)" "tk_in_use (f y)"
      "task_port_set (f y) = task_port_set y" for f and x :: "'a kloader_scheme" and y
    using that task_inv_length [OF that(1)]
    by (auto simp: tasks_Some tasks_upd_task same_ports_def intro!: task_inv_upd_same)
  show ?thesis
  proof (cases r)
    case (Inl kr')
    with 1 ph assms(1) have "s' = s1"
      by (simp add: mxwl_loader_exec_def)
    with self assms(2) same1 show ?thesis by simp
  next
    case (Inr tmp)
    have ok: "task_ok t task" "tk_in_use task"
      using assms(2,3) by (auto simp: tasks_Some task_inv_def)
    let ?f = "\<lambda>task. task\<lparr>tk_binary_path := c_strlcpy TASK_PATH_SIZE p\<rparr>"
    let ?s2 = "upd_task t ?f s1"
    from upd [of s1 task ?f] ok same1 assms obtain task2 where
      2: "tasks ?s2 = (tasks s)(t \<mapsto> task2)" "same_ports task task2" "task_inv ?s2"
      by (auto simp: same_ports_def task_ok_def task_port_set_def)
    from Inr 1 ph assms(1) obtain es x s3 where
      3: "kal_process_spawn tmp (proc_log es ?s2) = (x, s3)"
      and s': "(case x of None \<Rightarrow> s' = s3\<lparr>ktmp := (ktmp s3)(tmp := None)\<rparr>
        | Some pid \<Rightarrow> s' = upd_task t (\<lambda>task. task\<lparr>tk_host_pid := pid, tk_running := True\<rparr>) s3)"
      by (auto simp: mxwl_loader_exec_def Let_def proc_log_def split: prod.splits option.splits if_splits)
    note same3 = spawn_same_tables [OF 3, unfolded same_tables_def]
    show ?thesis
    proof (cases x)
      case None
      with s' same1 same3 2 show ?thesis by auto
    next
      case (Some pid)
      have "tasks s3 t = Some task2" "task_inv s3" using same3 2 by simp_all
      moreover from this have "task_ok t task2" "tk_in_use task2"
        by (auto simp: tasks_Some task_inv_def)
      ultimately obtain task3 where "tasks s' = (tasks s3)(t \<mapsto> task3)" "same_ports task task3" "task_inv s'"
        using upd [of s3 task2 "\<lambda>task. task\<lparr>tk_host_pid := pid, tk_running := True\<rparr>"] 2(2) s' Some
        by (auto simp: task_port_set_def)
      with s' Some same1 same3 2 show ?thesis by auto
    qed
  qed
  qed
qed

lemma load_failure:
  assumes "task_inv s" "kport_inv s" "mxwl_loader_load path s = (kr, out, s')" "kr \<noteq> KERN_SUCCESS"
  shows "out = None \<and> tasks s' = tasks s \<and> ports s' = ports s \<and> task_inv s' \<and> kport_inv s'"
proof (cases path)
  case None
  with assms show ?thesis by (simp add: mxwl_loader_load_def)
next
  case (Some p)
  show ?thesis
  proof (cases "mxwl_loader_validate path True (kloader_host s)")
    case (Inl kr')
    with assms Some show ?thesis by (simp add: mxwl_loader_load_def)
  next
    case (Inr hdr)
    obtain kr1 out1 s1 where 1: "mxwl_task_create path s = (kr1, out1, s1)" by (metis prod_cases3)
    note c = create_correct [OF assms(1,2) 1]
    show ?thesis
    proof (cases out1)
      case None
      with assms Some Inr 1 c show ?thesis by (auto simp: mxwl_loader_load_def)
    next
      case (Some t)
      with c obtain bp where t: "t < TASK_MAX" "tasks s t = None" "ports s bp = None" "ports s1 = (ports s)(bp \<mapsto> [])"
        "tasks s1 = (tasks s)(t \<mapsto> (fresh_task t path)\<lparr>tk_bootstrap_port := bp\<rparr>)" "task_inv s1" "kport_inv s1"
        by auto
      obtain kr2 s2 where 2: "mxwl_loader_exec (Some t) path (Some hdr) s1 = (kr2, s2)" by force
      from exec_keeps_ports [OF 2 t(6)] t obtain task' where
        s2: "tasks s2 = (tasks s)(t \<mapsto> task')" "same_ports ((fresh_task t path)\<lparr>tk_bootstrap_port := bp\<rparr>) task'"
        "task_inv s2" "ports s2 = (ports s)(bp \<mapsto> [])" "kport_inv s2"
        by auto
      have set': "task_port_set task' = {bp}"
        using s2(2) by (simp add: same_ports_def task_port_set_def fresh_task_def zero_task_def)
      have "tasks s2 t = Some task'" using s2(1) by simp
      from terminate_correct [OF s2(3,5) this] obtain s3 where
        3: "mxwl_task_terminate (Some t) s2 = (KERN_SUCCESS, s3)" "task_inv s3" "kport_inv s3"
        "tasks s3 = (tasks s2)(t := None)" "ports s3 = (ports s2) |` (- {bp})"
        unfolding set' by blast
      have "kr2 \<noteq> KERN_SUCCESS \<and> out = None \<and> s' = s3"
        using assms(3,4) \<open>path = Some p\<close> Inr 1 2 3 Some by (auto simp: mxwl_loader_load_def split: if_splits)
      moreover have "tasks s3 = tasks s" "ports s3 = ports s"
        using 3 s2 t(2,3) by (auto simp: fun_eq_iff restrict_map_def)
      ultimately show ?thesis
        using 3 by simp
    qed
  qed
qed

section \<open>Properties\<close>

text \<open>
  C12. When the host's writes are complete, extracting a binary succeeds exactly when the file
  holds as many bytes as the header says from the given offset on; the temporary file then has
  exactly these bytes, and on failure it is removed.
\<close>

theorem loader_extracts_binary:
  assumes "lh_file (kloader_host s) path = Some src" and "lh_mkstemp (kloader_host s) (kclock s) = Some tmp"
    and "\<And>k. lh_seek (kloader_host s) k" and "\<And>m n c. lh_write (kloader_host s) m n c = int (length c)"
  shows "\<exists>r s'. mxwl_loader_extract_binary path hdr tsz s = (r, s') \<and>
    (let off = unat (hd_binary_offset hdr); sz = unat (hd_binary_size hdr) in
     if sz \<le> length src - off
     then r = Inr (c_strlcpy tsz tmp) \<and> ktmp s' tmp = Some (take sz (drop off src))
     else r = Inl KERN_FAILURE \<and> ktmp s' tmp = None)"
  using assms extract_complete [of "lh_write (kloader_host s) (kclock s)" 0
      "drop (unat (hd_binary_offset hdr)) src" "unat (hd_binary_size hdr)" "[]"]
  by (auto simp: mxwl_loader_extract_binary_def Let_def)

definition sample_loader_host :: loader_host where
  "sample_loader_host = \<lparr>lh_file = (\<lambda>_. Some [1, 2, 3, 4, 5]), lh_seek = (\<lambda>_. True),
     lh_mkstemp = (\<lambda>_. Some [116]), lh_write = (\<lambda>m n c. int (length c))\<rparr>"

definition sample_header :: mach_binary_header where
  "sample_header = \<lparr>hd_magic = MACH_BINARY_MAGIC_BE, hd_version = 1, hd_header_size = 56, hd_binary_offset = 1,
     hd_binary_size = 3, hd_interface_offset = 0, hd_interface_size = 0, hd_metadata_offset = 0,
     hd_metadata_size = 0, hd_flags = 0\<rparr>"

lemma sample_header_fields: "hd_binary_offset sample_header = 1" "hd_binary_size sample_header = 3"
  by (simp_all add: sample_header_def)

definition sample_kloader :: kloader where
  "sample_kloader = ktask.extend sample_tasks \<lparr>ktmp = Map.empty, kloader_host = sample_loader_host\<rparr>"

lemma sample_kloader_facts:
  "kloader_host sample_kloader = sample_loader_host" "task_inv sample_kloader" "kport_inv sample_kloader"
proof -
  show "kloader_host sample_kloader = sample_loader_host"
    by (simp add: sample_kloader_def ktask.defs)
  have "mxwl_task_table sample_kloader = mxwl_task_table sample_tasks"
    "mxwl_task_count sample_kloader = mxwl_task_count sample_tasks"
    "mxwl_port_table sample_kloader = mxwl_port_table sample_tasks"
    "mxwl_port_table_count sample_kloader = mxwl_port_table_count sample_tasks"
    by (simp_all add: sample_kloader_def ktask.defs)
  from task_inv_cong [OF this(1,2)] kport_inv_cong [OF this(3,4)] sample_tasks_inv
  show "task_inv sample_kloader" "kport_inv sample_kloader" by simp_all
qed

theorem loader_extracts_binary_witness:
  "\<exists>s'. mxwl_loader_extract_binary [120] sample_header 512 sample_kloader = (Inr [116], s') \<and>
    ktmp s' [116] = Some [2, 3, 4]"
  using loader_extracts_binary [of sample_kloader "[120]" "[1, 2, 3, 4, 5]" "[116]" sample_header 512]
  by (auto simp: sample_kloader_facts sample_loader_host_def sample_header_fields c_strlcpy_def Let_def)

text \<open>
  A write that the host cuts short is not noticed: when the first write stores only \<open>k\<close>
  bytes of its chunk and the file has enough bytes after it, the extraction succeeds, and the
  temporary file has these \<open>k\<close> bytes followed by those after the chunk; the bytes between are lost.
\<close>

theorem loader_short_write_corrupts:
  assumes "\<And>n c. 0 < n \<Longrightarrow> wr n c = int (length c)" and "wr 0 (take (min 4096 remaining) rest) = int k"
    and "0 < remaining" and "remaining + min 4096 remaining \<le> length rest + k"
    and "min 4096 remaining \<le> length rest"
  shows "extract_loop wr 0 rest remaining [] =
    (0, take k (take (min 4096 remaining) rest) @ take (remaining - k) (drop (min 4096 remaining) rest))"
proof -
  have "rest \<noteq> []" using assms(3,5) by auto
  with extract_short_write [of wr remaining rest k] assms show ?thesis
    by (auto simp: Let_def min_absorb2)
qed

theorem loader_short_write_corrupts_witness:
  "extract_loop (\<lambda>n c. if n = 0 then 1 else int (length c)) 0 [1, 2, 3, 4, 5, 6] 3 [] = (0, [1, 4, 5])"
  using loader_short_write_corrupts [of "\<lambda>n c. if n = 0 then 1 else int (length c)" 3 "[1, 2, 3, 4, 5, 6]" 1]
  by (simp add: numeral_eq_Suc)

text \<open>
  A load that fails, at whatever step, leaves no task and no port behind: the tables have the
  same live tasks and the same ports with the same messages as before.
\<close>

theorem loader_failure_leaves_nothing:
  assumes "task_inv s" and "kport_inv s" and "mxwl_loader_load path s = (kr, out, s')" and "kr \<noteq> KERN_SUCCESS"
  shows "out = None \<and> tasks s' = tasks s \<and> ports s' = ports s"
  using load_failure [OF assms] by blast

theorem loader_failure_leaves_nothing_witness:
  "\<exists>s'. mxwl_loader_load (Some [120]) sample_kloader = (KERN_INVALID_OBJECT, None, s') \<and>
    tasks s' = tasks sample_kloader"
proof -
  have "mxwl_loader_load (Some [120]) sample_kloader = (KERN_INVALID_OBJECT, None, sample_kloader)"
    by (simp add: mxwl_loader_load_def mxwl_loader_validate_def sample_kloader_facts sample_loader_host_def
        parse_header_def SIZEOF_MACH_BINARY_HEADER_def)
  with loader_failure_leaves_nothing [OF sample_kloader_facts(2,3) this] show ?thesis by simp
qed

end
