(* ===== verification/Server.thy ===== *)
theory Server
  imports Task_Correct
begin

text \<open>
  Servers and their registry, \<^verbatim>\<open>Kernel/mxwl/server/server.c\<close> and \<^verbatim>\<open>registry.c\<close>.  Server
  objects live in a heap (\<open>kservers\<close>); the registry is the list they form through their
  \<^verbatim>\<open>next\<close> fields.  The loops over this list follow the pointers as the code does: \<open>None\<close> is a
  dangling pointer or a loop that never ends.
\<close>

section \<open>Data\<close>

definition MX_SERVER_MAX :: int where "MX_SERVER_MAX = 64"
definition MX_SERVER_NAME_MAX :: nat where "MX_SERVER_NAME_MAX = 64"
definition MX_SERVER_PATH_MAX :: nat where "MX_SERVER_PATH_MAX = 256"

datatype mx_server_state =
    MX_SERVER_STOPPED
  | MX_SERVER_LOADING
  | MX_SERVER_STARTING
  | MX_SERVER_READY
  | MX_SERVER_WAITING
  | MX_SERVER_FAILED
  | MX_SERVER_PANIC
  | MX_SERVER_STOPPING

record mx_server =
  sv_id :: uint32
  sv_name :: cstr
  sv_version :: cstr
  sv_path :: cstr
  sv_state :: mx_server_state
  sv_task :: "nat option"
  sv_thread :: "nat option"
  sv_endpoint :: mach_port_t
  sv_mgmt_port :: mach_port_t
  sv_capabilities :: uint32
  sv_flags :: uint32
  sv_permissions :: uint32
  sv_restart_count :: int
  sv_restart_delay_ms :: int
  sv_next :: "nat option"

record mx_server_info =
  si_server_id :: uint32
  si_name :: cstr
  si_version :: cstr
  si_state :: mx_server_state
  si_capabilities :: uint32
  si_flags :: uint32
  si_endpoint :: mach_port_t
  si_pid :: int

record kserver = ktask +
  kservers :: "nat \<Rightarrow> mx_server option"
  knext_server :: nat
  next_server_id :: uint32
  registry :: "nat option"
  registry_count :: int
  kmonitor :: bool
  kmonitored :: "msg_buf list"

definition upd_server :: "nat \<Rightarrow> (mx_server \<Rightarrow> mx_server) \<Rightarrow> 'a kserver_scheme \<Rightarrow> 'a kserver_scheme" where
  "upd_server a f s = s\<lparr>kservers := (kservers s)(a := map_option f (kservers s a))\<rparr>"

definition zero_server :: mx_server where
  "zero_server =
     \<lparr>sv_id = 0, sv_name = [], sv_version = [], sv_path = [], sv_state = MX_SERVER_STOPPED, sv_task = None,
      sv_thread = None, sv_endpoint = 0, sv_mgmt_port = 0, sv_capabilities = 0, sv_flags = 0,
      sv_permissions = 0, sv_restart_count = 0, sv_restart_delay_ms = 0, sv_next = None\<rparr>"

section \<open>Server objects\<close>

text \<open>\<^verbatim>\<open>__atomic_fetch_add\<close> on a 32-bit counter wraps around.\<close>

definition mx_server_init ::
  "nat option \<Rightarrow> cstr option \<Rightarrow> 'a kserver_scheme \<Rightarrow> kern_return_t \<times> 'a kserver_scheme" where
  "mx_server_init server name s =
     (case (server, name) of
        (Some a, Some n) \<Rightarrow>
          (KERN_SUCCESS,
           upd_server a (\<lambda>_. zero_server\<lparr>sv_id := next_server_id s,
                                         sv_name := c_strlcpy MX_SERVER_NAME_MAX n,
                                         sv_restart_delay_ms := 1000\<rparr>)
             (s\<lparr>next_server_id := next_server_id s + 1\<rparr>))
      | _ \<Rightarrow> (KERN_INVALID_ARGUMENT, s))"

definition mx_server_destroy :: "nat option \<Rightarrow> 'a kserver_scheme \<Rightarrow> 'a kserver_scheme" where
  "mx_server_destroy server s =
     (case server of
        None \<Rightarrow> s
      | Some a \<Rightarrow>
          upd_server a (\<lambda>sv. sv\<lparr>sv_state := MX_SERVER_STOPPED, sv_task := None, sv_thread := None,
                               sv_endpoint := MACH_PORT_NULL, sv_mgmt_port := MACH_PORT_NULL\<rparr>) s)"

definition mx_server_set_state ::
  "nat option \<Rightarrow> mx_server_state \<Rightarrow> 'a kserver_scheme \<Rightarrow> kern_return_t \<times> 'a kserver_scheme" where
  "mx_server_set_state server state s =
     (case server of
        None \<Rightarrow> (KERN_INVALID_ARGUMENT, s)
      | Some a \<Rightarrow> (KERN_SUCCESS, upd_server a (\<lambda>sv. sv\<lparr>sv_state := state\<rparr>) s))"

definition mx_server_get_state :: "nat option \<Rightarrow> 'a kserver_scheme \<Rightarrow> mx_server_state" where
  "mx_server_get_state server s =
     (case server of
        None \<Rightarrow> MX_SERVER_STOPPED
      | Some a \<Rightarrow> (case kservers s a of None \<Rightarrow> MX_SERVER_STOPPED | Some sv \<Rightarrow> sv_state sv))"

fun mx_server_state_string :: "mx_server_state \<Rightarrow> string" where
  "mx_server_state_string MX_SERVER_STOPPED = ''STOPPED''"
| "mx_server_state_string MX_SERVER_LOADING = ''LOADING''"
| "mx_server_state_string MX_SERVER_STARTING = ''STARTING''"
| "mx_server_state_string MX_SERVER_READY = ''READY''"
| "mx_server_state_string MX_SERVER_WAITING = ''WAITING''"
| "mx_server_state_string MX_SERVER_FAILED = ''FAILED''"
| "mx_server_state_string MX_SERVER_PANIC = ''PANIC''"
| "mx_server_state_string MX_SERVER_STOPPING = ''STOPPING''"

definition cap_names :: "cstr list" where
  "cap_names = map cstr_of
     [''filesystem'', ''display'', ''network'', ''audio'', ''process'',
      ''bsd'', ''device'', ''storage'', ''ipc'', ''monitor'', ''input'']"

text \<open>
  \<^verbatim>\<open>mx_server_caps_string\<close> on the caller's buffer: the loop over the eleven capability bits,
  with the write position and whether no name was met yet.
\<close>

definition buf_write :: "nat \<Rightarrow> byte list \<Rightarrow> byte list \<Rightarrow> byte list" where
  "buf_write pos bs buf = take pos buf @ bs @ drop (pos + length bs) buf"

definition caps_step ::
  "uint32 \<Rightarrow> nat \<Rightarrow> nat \<Rightarrow> byte list \<times> nat \<times> bool \<Rightarrow> byte list \<times> nat \<times> bool" where
  "caps_step capabilities n i st =
     (case st of (buf, pos, first) \<Rightarrow>
        if \<not> bit capabilities i then st
        else
          (let (buf, pos) = (if \<not> first \<and> pos < n - 1 then (buf_write pos [44] buf, pos + 1) else (buf, pos));
               name = cap_names ! i
           in if pos + length name < n - 1
              then (buf_write pos name buf, pos + length name, False)
              else (buf, pos, False)))"

definition mx_server_caps_string :: "uint32 \<Rightarrow> byte list \<Rightarrow> nat \<Rightarrow> byte list" where
  "mx_server_caps_string capabilities buf n =
     (if n = 0 then buf
      else
        (let (buf, pos, first) = fold (caps_step capabilities n) [0..<11] (buf_write 0 [0] buf, 0, True)
         in if pos = 0 then buf_write 0 [0] buf else buf))"

section \<open>The registry\<close>

definition mx_registry_init :: "'a kserver_scheme \<Rightarrow> kern_return_t \<times> 'a kserver_scheme" where
  "mx_registry_init s = (KERN_SUCCESS, s\<lparr>registry := None, registry_count := 0\<rparr>)"

text \<open>The search every lookup makes: the first server from \<open>p\<close> on that satisfies \<open>P\<close>.\<close>

partial_function (option) find_server ::
  "(mx_server \<Rightarrow> bool) \<Rightarrow> nat option \<Rightarrow> (nat \<Rightarrow> mx_server option) \<Rightarrow> nat option option" where
  "find_server P p h =
     (case p of
        None \<Rightarrow> Some None
      | Some a \<Rightarrow>
          (case h a of
             None \<Rightarrow> None
           | Some sv \<Rightarrow> if P sv then Some (Some a) else find_server P (sv_next sv) h))"

definition mx_server_lookup_id :: "uint32 \<Rightarrow> 'a kserver_scheme \<Rightarrow> nat option option" where
  "mx_server_lookup_id server_id s = find_server (\<lambda>sv. sv_id sv = server_id) (registry s) (kservers s)"

definition mx_server_lookup_name :: "cstr option \<Rightarrow> 'a kserver_scheme \<Rightarrow> nat option option" where
  "mx_server_lookup_name name s =
     (case name of
        None \<Rightarrow> Some None
      | Some n \<Rightarrow> find_server (\<lambda>sv. sv_name sv = n) (registry s) (kservers s))"

definition mx_server_lookup_capability :: "uint32 \<Rightarrow> 'a kserver_scheme \<Rightarrow> nat option option" where
  "mx_server_lookup_capability cap s =
     find_server (\<lambda>sv. sv_state sv = MX_SERVER_READY \<and> sv_capabilities sv AND cap \<noteq> 0) (registry s) (kservers s)"

definition mx_server_lookup_capability_any :: "uint32 \<Rightarrow> 'a kserver_scheme \<Rightarrow> nat option option" where
  "mx_server_lookup_capability_any caps s =
     find_server (\<lambda>sv. sv_state sv = MX_SERVER_READY \<and> sv_capabilities sv AND caps \<noteq> 0) (registry s) (kservers s)"

definition mx_server_register ::
  "nat option \<Rightarrow> 'a kserver_scheme \<Rightarrow> (kern_return_t \<times> 'a kserver_scheme) option" where
  "mx_server_register server s =
     (case server of
        None \<Rightarrow> Some (KERN_INVALID_ARGUMENT, s)
      | Some a \<Rightarrow>
          if MX_SERVER_MAX \<le> registry_count s then Some (KERN_NO_SPACE, s)
          else do {
            sv \<leftarrow> kservers s a;
            found \<leftarrow> mx_server_lookup_name (Some (sv_name sv)) s;
            if found \<noteq> None then Some (KERN_NAME_EXISTS, s)
            else Some (KERN_SUCCESS,
                       (upd_server a (\<lambda>sv. sv\<lparr>sv_next := registry s\<rparr>) s)
                         \<lparr>registry := Some a, registry_count := registry_count s + 1\<rparr>)
          })"

text \<open>The loop of \<^verbatim>\<open>mx_server_unregister\<close>: \<open>prev\<close> is the link that is read and written, the head
  of the registry (\<open>None\<close>) or the \<^verbatim>\<open>next\<close> field of a server.\<close>

definition read_link :: "nat option \<Rightarrow> 'a kserver_scheme \<Rightarrow> nat option option" where
  "read_link prev s = (case prev of None \<Rightarrow> Some (registry s) | Some a \<Rightarrow> map_option sv_next (kservers s a))"

definition write_link :: "nat option \<Rightarrow> nat option \<Rightarrow> 'a kserver_scheme \<Rightarrow> 'a kserver_scheme" where
  "write_link prev p s =
     (case prev of None \<Rightarrow> s\<lparr>registry := p\<rparr> | Some a \<Rightarrow> upd_server a (\<lambda>sv. sv\<lparr>sv_next := p\<rparr>) s)"

partial_function (option) unlink_loop ::
  "nat \<Rightarrow> nat option \<Rightarrow> 'a kserver_scheme \<Rightarrow> (kern_return_t \<times> 'a kserver_scheme) option" where
  "unlink_loop server prev s =
     (case read_link prev s of
        None \<Rightarrow> None
      | Some None \<Rightarrow> Some (KERN_INVALID_OBJECT, s)
      | Some (Some a) \<Rightarrow>
          if a = server then
            (case kservers s a of
               None \<Rightarrow> None
             | Some sv \<Rightarrow>
                 (let s = write_link prev (sv_next sv) s;
                      s = upd_server a (\<lambda>sv. sv\<lparr>sv_next := None\<rparr>) s
                  in Some (KERN_SUCCESS, s\<lparr>registry_count := registry_count s - 1\<rparr>)))
          else unlink_loop server (Some a) s)"

definition mx_server_unregister ::
  "nat option \<Rightarrow> 'a kserver_scheme \<Rightarrow> (kern_return_t \<times> 'a kserver_scheme) option" where
  "mx_server_unregister server s =
     (case server of
        None \<Rightarrow> Some (KERN_INVALID_ARGUMENT, s)
      | Some a \<Rightarrow> if registry s = None then Some (KERN_INVALID_ARGUMENT, s) else unlink_loop a None s)"

text \<open>\<^verbatim>\<open>strtol(str, &end, 10)\<close>: white space, a sign, digits; the value, which saturates at the bounds
  of \<^verbatim>\<open>long\<close>, and the rest of the string, which is the whole string when there is no digit.\<close>

definition is_space :: "byte \<Rightarrow> bool" where
  "is_space b \<longleftrightarrow> b = 32 \<or> (9 \<le> b \<and> b \<le> 13)"

definition is_digit :: "byte \<Rightarrow> bool" where
  "is_digit b \<longleftrightarrow> 48 \<le> b \<and> b \<le> 57"

definition c_strtol :: "cstr \<Rightarrow> int \<times> cstr" where
  "c_strtol str =
     (let t = dropWhile is_space str;
          neg = (t \<noteq> [] \<and> hd t = 45);
          t = (if t \<noteq> [] \<and> (hd t = 45 \<or> hd t = 43) then tl t else t);
          ds = takeWhile is_digit t;
          v = foldl (\<lambda>acc d. 10 * acc + (uint d - 48)) 0 ds;
          v = (if neg then - v else v)
      in if ds = [] then (0, str)
         else (max (- (2 ^ 63)) (min (2 ^ 63 - 1) v), dropWhile is_digit t))"

text \<open>\<^verbatim>\<open>mx_server_find\<close>: by name, else by number; the server is what \<^verbatim>\<open>*out\<close> is set to.\<close>

definition mx_server_find ::
  "cstr option \<Rightarrow> bool \<Rightarrow> 'a kserver_scheme \<Rightarrow> (kern_return_t \<times> nat option) option" where
  "mx_server_find query has_out s =
     (case query of
        None \<Rightarrow> Some (KERN_INVALID_ARGUMENT, None)
      | Some q \<Rightarrow>
          if \<not> has_out then Some (KERN_INVALID_ARGUMENT, None)
          else do {
            by_name \<leftarrow> mx_server_lookup_name (Some q) s;
            if by_name \<noteq> None then Some (KERN_SUCCESS, by_name)
            else (case c_strtol q of
                    (num, rest) \<Rightarrow>
                      if rest = [] \<and> 0 < num then do {
                        by_id \<leftarrow> mx_server_lookup_id (word_of_int num) s;
                        if by_id \<noteq> None then Some (KERN_SUCCESS, by_id) else Some (KERN_INVALID_NAME, None)
                      }
                      else Some (KERN_INVALID_NAME, None))
          })"

definition server_info :: "mx_server \<Rightarrow> 'a kserver_scheme \<Rightarrow> mx_server_info" where
  "server_info sv s =
     \<lparr>si_server_id = sv_id sv, si_name = sv_name sv, si_version = sv_version sv, si_state = sv_state sv,
      si_capabilities = sv_capabilities sv, si_flags = sv_flags sv, si_endpoint = sv_endpoint sv,
      si_pid = (case sv_task sv of None \<Rightarrow> - 1 | Some t \<Rightarrow> tk_host_pid (task_obj t s))\<rparr>"

text \<open>\<^verbatim>\<open>mx_server_list\<close>: at most \<open>mx\<close> entries, in the order of the list.\<close>

fun list_loop :: "nat \<Rightarrow> nat option \<Rightarrow> 'a kserver_scheme \<Rightarrow> mx_server_info list option" where
  "list_loop 0 p s = Some []"
| "list_loop (Suc n) None s = Some []"
| "list_loop (Suc n) (Some a) s = do {
     sv \<leftarrow> kservers s a;
     rest \<leftarrow> list_loop n (sv_next sv) s;
     Some (server_info sv s # rest)
   }"

definition mx_server_list :: "bool \<Rightarrow> int \<Rightarrow> 'a kserver_scheme \<Rightarrow> mx_server_info list option" where
  "mx_server_list has_buf mx s = (if \<not> has_buf \<or> mx \<le> 0 then Some [] else list_loop (nat mx) (registry s) s)"

definition mx_server_count :: "'a kserver_scheme \<Rightarrow> int" where
  "mx_server_count s = registry_count s"

definition mx_server_first :: "'a kserver_scheme \<Rightarrow> nat option" where
  "mx_server_first s = registry s"

definition mx_server_next :: "nat option \<Rightarrow> 'a kserver_scheme \<Rightarrow> nat option option" where
  "mx_server_next current s = (case current of None \<Rightarrow> Some None | Some a \<Rightarrow> map_option sv_next (kservers s a))"

section \<open>The registry as a list\<close>

text \<open>The nodes from a pointer on.\<close>

fun linked :: "(nat \<Rightarrow> mx_server option) \<Rightarrow> nat option \<Rightarrow> nat list \<Rightarrow> bool" where
  "linked h p [] \<longleftrightarrow> p = None"
| "linked h p (a # as) \<longleftrightarrow> p = Some a \<and> (\<exists>sv. h a = Some sv \<and> linked h (sv_next sv) as)"

definition registry_inv :: "'a kserver_scheme \<Rightarrow> nat list \<Rightarrow> bool" where
  "registry_inv s as \<longleftrightarrow>
     linked (kservers s) (registry s) as \<and> distinct as \<and> registry_count s = int (length as) \<and>
     length as \<le> nat MX_SERVER_MAX \<and> distinct (map (\<lambda>a. sv_name (the (kservers s a))) as)"

lemma linked_unique: "linked h p as \<Longrightarrow> linked h p bs \<Longrightarrow> as = bs"
proof (induction as arbitrary: p bs)
  case Nil
  then show ?case by (cases bs) auto
next
  case (Cons a as)
  then show ?case by (cases bs) auto
qed

lemma linked_cong: "(\<And>a. a \<in> set as \<Longrightarrow> h' a = h a) \<Longrightarrow> linked h' p as = linked h p as"
  by (induction as arbitrary: p) auto

lemma linked_valid: "linked h p as \<Longrightarrow> a \<in> set as \<Longrightarrow> h a \<noteq> None"
  by (induction as arbitrary: p) auto

lemma find_server_linked:
  "linked h p as \<Longrightarrow> find_server P p h = Some (find (\<lambda>a. P (the (h a))) as)"
proof (induction as arbitrary: p)
  case Nil
  then show ?case by (subst find_server.simps) simp
next
  case (Cons a as)
  then show ?case by (subst find_server.simps) (auto simp: Cons.IH)
qed

lemma server_register_correct:
  assumes "registry_inv s as" "kservers s a = Some sv"
  shows "mx_server_register (Some a) s =
      (if length as = nat MX_SERVER_MAX then Some (KERN_NO_SPACE, s)
       else if sv_name sv \<in> (\<lambda>b. sv_name (the (kservers s b))) ` set as then Some (KERN_NAME_EXISTS, s)
       else Some (KERN_SUCCESS, (upd_server a (\<lambda>sv. sv\<lparr>sv_next := registry s\<rparr>) s)
                         \<lparr>registry := Some a, registry_count := registry_count s + 1\<rparr>))"
    and "mx_server_register (Some a) s = Some (KERN_SUCCESS, s') \<Longrightarrow> registry_inv s' (a # as)"
proof -
  note inv = assms(1) [unfolded registry_inv_def]
  have full: "MX_SERVER_MAX \<le> registry_count s \<longleftrightarrow> length as = nat MX_SERVER_MAX"
    using inv by (auto simp: MX_SERVER_MAX_def)
  have found: "find (\<lambda>b. sv_name (the (kservers s b)) = sv_name sv) as \<noteq> None \<longleftrightarrow>
      sv_name sv \<in> (\<lambda>b. sv_name (the (kservers s b))) ` set as"
    by (force simp: find_None_iff)
  show eq: "mx_server_register (Some a) s =
      (if length as = nat MX_SERVER_MAX then Some (KERN_NO_SPACE, s)
       else if sv_name sv \<in> (\<lambda>b. sv_name (the (kservers s b))) ` set as then Some (KERN_NAME_EXISTS, s)
       else Some (KERN_SUCCESS, (upd_server a (\<lambda>sv. sv\<lparr>sv_next := registry s\<rparr>) s)
                         \<lparr>registry := Some a, registry_count := registry_count s + 1\<rparr>))"
  proof -
    have "find_server (\<lambda>sv'. sv_name sv' = sv_name sv) (registry s) (kservers s) =
        Some (find (\<lambda>b. sv_name (the (kservers s b)) = sv_name sv) as)"
      using inv by (intro find_server_linked) simp
    with assms(2) found show ?thesis
      unfolding mx_server_register_def mx_server_lookup_name_def full
      by (auto simp del: not_None_eq not_Some_eq)
  qed
  assume "mx_server_register (Some a) s = Some (KERN_SUCCESS, s')"
  with eq have s': "s' = (upd_server a (\<lambda>sv. sv\<lparr>sv_next := registry s\<rparr>) s)
                         \<lparr>registry := Some a, registry_count := registry_count s + 1\<rparr>"
    and room: "length as \<noteq> nat MX_SERVER_MAX"
    and new: "sv_name sv \<notin> (\<lambda>b. sv_name (the (kservers s b))) ` set as"
    by (auto split: if_splits)
  have notin: "a \<notin> set as"
    using new assms(2) by (metis image_eqI option.sel)
  have same: "kservers s' b = kservers s b" if "b \<in> set as" for b
    using that notin by (auto simp: s' upd_server_def)
  have head: "kservers s' a = Some (sv\<lparr>sv_next := registry s\<rparr>)" "registry s' = Some a"
    "registry_count s' = registry_count s + 1"
    using assms(2) by (simp_all add: s' upd_server_def)
  have "map (\<lambda>b. sv_name (the (kservers s' b))) as = map (\<lambda>b. sv_name (the (kservers s b))) as"
    using same by simp
  moreover have "linked (kservers s') (registry s) as"
    using inv linked_cong [of as "kservers s'" "kservers s"] same by simp
  ultimately show "registry_inv s' (a # as)"
    using inv room new notin head
    by (simp add: registry_inv_def image_iff cong: map_cong)
qed

text \<open>Taking a node out of a linked list, with the link that leads to it.\<close>

lemma unlink_loop_correct:
  "linked (kservers s) p as \<Longrightarrow> read_link prev s = Some p \<Longrightarrow> distinct as \<Longrightarrow>
   (\<And>b. prev = Some b \<Longrightarrow> b \<notin> set as) \<Longrightarrow>
   if a \<notin> set as then unlink_loop a prev s = Some (KERN_INVALID_OBJECT, s)
   else \<exists>s'. unlink_loop a prev s = Some (KERN_SUCCESS, s') \<and>
          registry_count s' = registry_count s - 1 \<and>
          (\<exists>p'. read_link prev s' = Some p' \<and> linked (kservers s') p' (remove1 a as)) \<and>
          (\<forall>b. map_option (\<lambda>sv. sv\<lparr>sv_next := None\<rparr>) (kservers s' b) =
               map_option (\<lambda>sv. sv\<lparr>sv_next := None\<rparr>) (kservers s b)) \<and>
          (\<forall>b. b \<notin> set as \<longrightarrow> prev \<noteq> Some b \<longrightarrow> kservers s' b = kservers s b) \<and>
          (prev \<noteq> None \<longrightarrow> registry s' = registry s)"
proof (induction as arbitrary: p prev)
  case Nil
  then show ?case by (subst unlink_loop.simps) simp
next
  case (Cons b bs)
  then obtain sv where sv: "p = Some b" "kservers s b = Some sv" "linked (kservers s) (sv_next sv) bs"
    by auto
  show ?case
  proof (cases "b = a")
    case True
    let ?s' = "(upd_server b (\<lambda>sv. sv\<lparr>sv_next := None\<rparr>) (write_link prev (sv_next sv) s))"
    let ?s'' = "?s'\<lparr>registry_count := registry_count ?s' - 1\<rparr>"
    have "unlink_loop a prev s = Some (KERN_SUCCESS, ?s'')"
      using Cons.prems(2) sv True by (subst unlink_loop.simps) (simp add: Let_def)
    moreover have "linked (kservers ?s'') (sv_next sv) bs"
    proof (subst linked_cong [of bs _ "kservers s"])
      fix c assume "c \<in> set bs"
      with Cons.prems(3,4) show "kservers ?s'' c = kservers s c"
        by (auto simp: upd_server_def write_link_def split: option.splits)
    qed (rule sv(3))
    moreover have "read_link prev ?s'' = Some (sv_next sv)"
      using Cons.prems(2,4) by (auto simp: read_link_def write_link_def upd_server_def split: option.splits)
    moreover have "registry_count ?s'' = registry_count s - 1"
      by (simp add: upd_server_def write_link_def split: option.splits)
    moreover have "map_option (\<lambda>sv. sv\<lparr>sv_next := None\<rparr>) (kservers ?s'' c) =
        map_option (\<lambda>sv. sv\<lparr>sv_next := None\<rparr>) (kservers s c)" for c
      by (auto simp: upd_server_def write_link_def option.map_comp comp_def split: option.splits)
    moreover have "c \<notin> set (b # bs) \<longrightarrow> prev \<noteq> Some c \<longrightarrow> kservers ?s'' c = kservers s c" for c
      by (auto simp: upd_server_def write_link_def split: option.splits)
    moreover have "prev \<noteq> None \<longrightarrow> registry ?s'' = registry s"
      by (auto simp: upd_server_def write_link_def split: option.splits)
    ultimately show ?thesis
      using True by (auto simp del: linked.simps)
  next
    case False
    have step: "unlink_loop a prev s = unlink_loop a (Some b) s"
      using Cons.prems(2) sv False by (subst unlink_loop.simps) simp
    have rd: "read_link (Some b) s = Some (sv_next sv)"
      using sv by (simp add: read_link_def)
    have "\<And>c. Some b = Some c \<Longrightarrow> c \<notin> set bs" "distinct bs"
      using Cons.prems(3) by auto
    note ih = Cons.IH [OF sv(3) rd this(2,1)]
    show ?thesis
    proof (cases "a \<in> set bs")
      case True
      with ih obtain s' p' where s': "unlink_loop a (Some b) s = Some (KERN_SUCCESS, s')"
        "registry_count s' = registry_count s - 1"
        "read_link (Some b) s' = Some p'" "linked (kservers s') p' (remove1 a bs)"
        "\<forall>c. map_option (\<lambda>sv. sv\<lparr>sv_next := None\<rparr>) (kservers s' c) =
             map_option (\<lambda>sv. sv\<lparr>sv_next := None\<rparr>) (kservers s c)"
        "\<forall>c. c \<notin> set bs \<longrightarrow> Some b \<noteq> Some c \<longrightarrow> kservers s' c = kservers s c"
        "registry s' = registry s"
        by auto
      from s'(3,4) have "linked (kservers s') (Some b) (b # remove1 a bs)"
        by (auto simp: read_link_def)
      moreover have "read_link prev s' = Some (Some b)"
        using Cons.prems(2,4) sv(1) s'(6,7) by (auto simp: read_link_def split: option.splits)
      ultimately show ?thesis
        using True False step s' by auto
    next
      case notin: False
      with ih step False show ?thesis by simp
    qed
  qed
qed

lemma server_unregister_correct:
  assumes "registry_inv s as" "as \<noteq> []"
  shows "if a \<notin> set as then mx_server_unregister (Some a) s = Some (KERN_INVALID_OBJECT, s)
    else \<exists>s'. mx_server_unregister (Some a) s = Some (KERN_SUCCESS, s') \<and> registry_inv s' (remove1 a as) \<and>
      (\<forall>b \<in> set as. sv_name (the (kservers s' b)) = sv_name (the (kservers s b)))"
proof -
  note inv = assms(1) [unfolded registry_inv_def]
  have reg: "registry s \<noteq> None"
    using inv assms(2) by (cases as) auto
  have loop: "mx_server_unregister (Some a) s = unlink_loop a None s"
    using reg by (auto simp: mx_server_unregister_def)
  have rd: "read_link None s = Some (registry s)"
    by (simp add: read_link_def)
  note ul = unlink_loop_correct [of s "registry s" as None a, OF _ rd]
  show ?thesis
  proof (cases "a \<in> set as")
    case False
    with ul inv loop show ?thesis by auto
  next
    case True
    with ul inv obtain s' where s': "unlink_loop a None s = Some (KERN_SUCCESS, s')"
      "registry_count s' = registry_count s - 1" "linked (kservers s') (registry s') (remove1 a as)"
      "\<forall>b. map_option (\<lambda>sv. sv\<lparr>sv_next := None\<rparr>) (kservers s' b) =
           map_option (\<lambda>sv. sv\<lparr>sv_next := None\<rparr>) (kservers s b)"
      by (auto simp: read_link_def)
    have names: "sv_name (the (kservers s' b)) = sv_name (the (kservers s b))" if mem: "b \<in> set as" for b
    proof -
      obtain sv where "kservers s b = Some sv"
        using linked_valid [OF inv [THEN conjunct1] mem] by blast
      with s'(4) [rule_format, of b] show ?thesis
        by (cases "kservers s' b") (auto dest: arg_cong [where f = sv_name])
    qed
    have "map (\<lambda>b. sv_name (the (kservers s' b))) (remove1 a as) = map (\<lambda>b. sv_name (the (kservers s b))) (remove1 a as)"
      using names set_remove1_subset by (metis (no_types, lifting) map_cong subsetD)
    moreover have "distinct (map (\<lambda>b. sv_name (the (kservers s b))) (remove1 a as))"
      using inv by (auto simp: distinct_map inj_on_def)
    ultimately have "distinct (map (\<lambda>b. sv_name (the (kservers s' b))) (remove1 a as))"
      by (simp only:)
    then have "registry_inv s' (remove1 a as)"
      using s' inv True by (auto simp: registry_inv_def length_remove1 Suc_leI length_pos_if_in_set int_ops)
    with s'(1) loop True names show ?thesis by simp
  qed
qed

end
