(* ===== verification/Server_Ipc.thy ===== *)
theory Server_Ipc
  imports Server
begin

text \<open>
  Messages between servers, \<^verbatim>\<open>Kernel/mxwl/server/message.c\<close> and \<^verbatim>\<open>ipc.c\<close>.  A \<^verbatim>\<open>mx_message_t\<close> is a
  byte buffer: sender at offset 0, destination at 4, message id at 8, type at 12, payload size at
  16, flags at 20, payload from 24 on.  The monitor is a callback of which only its calls matter:
  \<open>kmonitored\<close> lists the messages it was given.  \<open>None\<close> is an access outside a buffer, or through
  a pointer to a server that does not exist.
\<close>

section \<open>Messages\<close>

definition MX_MSG_MAX_PAYLOAD :: uint32 where "MX_MSG_MAX_PAYLOAD = 65536"
definition MX_MSG_HEADER_SIZE :: nat where "MX_MSG_HEADER_SIZE = 24"

definition MX_MSG_SYNC :: uint32 where "MX_MSG_SYNC = 1"
definition MX_MSG_NOTIFY :: uint32 where "MX_MSG_NOTIFY = 3"
definition MX_MSG_REPLY :: uint32 where "MX_MSG_REPLY = 4"
definition MX_MSG_RESPONSE :: uint32 where "MX_MSG_RESPONSE = 6"
definition MX_MSG_FLAG_NONE :: uint32 where "MX_MSG_FLAG_NONE = 0"
definition MX_MSG_FLAG_EXPECT_REPLY :: uint32 where "MX_MSG_FLAG_EXPECT_REPLY = 2"

definition MXM_SENDER :: nat where "MXM_SENDER = 0"
definition MXM_DESTINATION :: nat where "MXM_DESTINATION = 4"
definition MXM_ID :: nat where "MXM_ID = 8"
definition MXM_TYPE :: nat where "MXM_TYPE = 12"
definition MXM_PAYLOAD_SIZE :: nat where "MXM_PAYLOAD_SIZE = 16"
definition MXM_FLAGS :: nat where "MXM_FLAGS = 20"

lemmas mxm_offsets = MXM_SENDER_def MXM_DESTINATION_def MXM_ID_def MXM_TYPE_def MXM_PAYLOAD_SIZE_def
  MXM_FLAGS_def MX_MSG_HEADER_SIZE_def

text \<open>\<^verbatim>\<open>memcpy(msg->payload, payload, payload_size)\<close>.\<close>

definition put_payload :: "msg_buf \<Rightarrow> byte list \<Rightarrow> nat \<Rightarrow> msg_buf option" where
  "put_payload msg payload n =
     map_option (\<lambda>body. take MX_MSG_HEADER_SIZE msg @ body) (c_memcpy (drop MX_MSG_HEADER_SIZE msg) payload n)"

definition mx_msg_create ::
  "bool \<Rightarrow> mach_port_t \<Rightarrow> mach_port_t \<Rightarrow> uint32 \<Rightarrow> uint32 \<Rightarrow> uint32 \<Rightarrow> byte list option \<Rightarrow> uint32 \<Rightarrow>
   'a kport_scheme \<Rightarrow> (kern_return_t \<times> msg_buf option \<times> 'a kport_scheme) option" where
  "mx_msg_create has_out sender destination msg_id type flags payload payload_size s =
     (if \<not> has_out then Some (KERN_INVALID_ARGUMENT, None, s)
      else if type < MX_MSG_SYNC \<or> MX_MSG_RESPONSE < type then Some (KERN_INVALID_ARGUMENT, None, s)
      else if MX_MSG_MAX_PAYLOAD < payload_size then Some (KERN_MSG_TOO_LARGE, None, s)
      else
        (let total = MX_MSG_HEADER_SIZE + unat payload_size;
             (ok, s) = kal_malloc s
         in if \<not> ok then Some (KERN_FAILURE, None, s)
            else do {
              msg \<leftarrow> wr32 (c_zeroed total) MXM_SENDER (word_of_int sender);
              msg \<leftarrow> wr32 msg MXM_DESTINATION (word_of_int destination);
              msg \<leftarrow> wr32 msg MXM_ID msg_id;
              msg \<leftarrow> wr32 msg MXM_TYPE type;
              msg \<leftarrow> wr32 msg MXM_PAYLOAD_SIZE payload_size;
              msg \<leftarrow> wr32 msg MXM_FLAGS flags;
              msg \<leftarrow> (case payload of
                       None \<Rightarrow> Some msg
                     | Some bytes \<Rightarrow> if 0 < payload_size then put_payload msg bytes (unat payload_size) else Some msg);
              Some (KERN_SUCCESS, Some msg, s)
            }))"

definition mx_msg_validate :: "msg_buf option \<Rightarrow> kern_return_t option" where
  "mx_msg_validate msg =
     (case msg of
        None \<Rightarrow> Some KERN_INVALID_ARGUMENT
      | Some m \<Rightarrow> do {
          type \<leftarrow> rd32 m MXM_TYPE;
          if type < MX_MSG_SYNC \<or> MX_MSG_RESPONSE < type then Some KERN_INVALID_ARGUMENT
          else do {
            size \<leftarrow> rd32 m MXM_PAYLOAD_SIZE;
            sender \<leftarrow> rd32 m MXM_SENDER;
            destination \<leftarrow> rd32 m MXM_DESTINATION;
            if MX_MSG_MAX_PAYLOAD < size then Some KERN_MSG_TOO_LARGE
            else if sint sender = MACH_PORT_NULL \<or> sint sender = MACH_PORT_DEAD then Some KERN_INVALID_ARGUMENT
            else if sint destination = MACH_PORT_NULL \<or> sint destination = MACH_PORT_DEAD
            then Some KERN_INVALID_ARGUMENT
            else Some KERN_SUCCESS
          }
        })"

definition mx_msg_dup :: "msg_buf option \<Rightarrow> 'a kport_scheme \<Rightarrow> (msg_buf option \<times> 'a kport_scheme) option" where
  "mx_msg_dup msg s =
     (case msg of
        None \<Rightarrow> Some (None, s)
      | Some m \<Rightarrow> do {
          sender \<leftarrow> rd32 m MXM_SENDER;
          destination \<leftarrow> rd32 m MXM_DESTINATION;
          msg_id \<leftarrow> rd32 m MXM_ID;
          type \<leftarrow> rd32 m MXM_TYPE;
          size \<leftarrow> rd32 m MXM_PAYLOAD_SIZE;
          flags \<leftarrow> rd32 m MXM_FLAGS;
          (kr, copy, s) \<leftarrow> mx_msg_create True (sint sender) (sint destination) msg_id type flags
                           (if 0 < size then Some (drop MX_MSG_HEADER_SIZE m) else None) size s;
          Some (if kr \<noteq> KERN_SUCCESS then None else copy, s)
        })"

definition mx_msg_total_size :: "msg_buf option \<Rightarrow> uint32 option" where
  "mx_msg_total_size msg =
     (case msg of
        None \<Rightarrow> Some 0
      | Some m \<Rightarrow> map_option (\<lambda>size. of_nat MX_MSG_HEADER_SIZE + size) (rd32 m MXM_PAYLOAD_SIZE))"

section \<open>Endpoints\<close>

definition mx_ipc_init :: "'a kserver_scheme \<Rightarrow> kern_return_t \<times> 'a kserver_scheme" where
  "mx_ipc_init s = (KERN_SUCCESS, s)"

definition mx_ipc_shutdown :: "'a kserver_scheme \<Rightarrow> 'a kserver_scheme" where
  "mx_ipc_shutdown s = s\<lparr>kmonitor := False\<rparr>"

definition mx_ipc_set_monitor :: "bool \<Rightarrow> 'a kserver_scheme \<Rightarrow> 'a kserver_scheme" where
  "mx_ipc_set_monitor monitor s = s\<lparr>kmonitor := monitor\<rparr>"

definition call_monitor :: "msg_buf \<Rightarrow> 'a kserver_scheme \<Rightarrow> 'a kserver_scheme" where
  "call_monitor msg s = (if kmonitor s then s\<lparr>kmonitored := kmonitored s @ [msg]\<rparr> else s)"

definition mx_ipc_server_endpoint_create ::
  "nat option \<Rightarrow> 'a kserver_scheme \<Rightarrow> kern_return_t \<times> 'a kserver_scheme" where
  "mx_ipc_server_endpoint_create server s =
     (case server of
        None \<Rightarrow> (KERN_INVALID_ARGUMENT, s)
      | Some a \<Rightarrow>
          (let (ep, s) = mach_port_allocate MACH_PORT_RIGHT_RECEIVE s
           in if ep = MACH_PORT_NULL then (KERN_FAILURE, s)
              else (let (mgmt, s) = mach_port_allocate MACH_PORT_RIGHT_RECEIVE s
                    in if mgmt = MACH_PORT_NULL then (KERN_FAILURE, snd (mach_port_destroy ep s))
                       else (KERN_SUCCESS, upd_server a (\<lambda>sv. sv\<lparr>sv_endpoint := ep, sv_mgmt_port := mgmt\<rparr>) s))))"

text \<open>\<open>server_at\<close> reads a server object that exists.\<close>

definition server_at :: "nat \<Rightarrow> 'a kserver_scheme \<Rightarrow> mx_server" where
  "server_at a s = (case kservers s a of None \<Rightarrow> zero_server | Some sv \<Rightarrow> sv)"

definition mx_ipc_server_endpoint_destroy :: "nat option \<Rightarrow> 'a kserver_scheme \<Rightarrow> 'a kserver_scheme" where
  "mx_ipc_server_endpoint_destroy server s =
     (case server of
        None \<Rightarrow> s
      | Some a \<Rightarrow>
          (let ep = sv_endpoint (server_at a s);
               s = (if ep \<noteq> MACH_PORT_NULL then snd (mach_port_destroy ep s) else s);
               mgmt = sv_mgmt_port (server_at a s);
               s = (if mgmt \<noteq> MACH_PORT_NULL then snd (mach_port_destroy mgmt s) else s)
           in upd_server a (\<lambda>sv. sv\<lparr>sv_endpoint := MACH_PORT_NULL, sv_mgmt_port := MACH_PORT_NULL\<rparr>) s))"

section \<open>Sending\<close>

text \<open>\<^verbatim>\<open>mx_server_send\<close>: the code, the caller's buffer afterwards, the state.\<close>

definition mx_server_send ::
  "nat option \<Rightarrow> msg_buf option \<Rightarrow> 'a kserver_scheme \<Rightarrow>
   (kern_return_t \<times> msg_buf option \<times> 'a kserver_scheme) option" where
  "mx_server_send dest msg s =
     (case (dest, msg) of
        (Some a, Some m) \<Rightarrow> do {
          sv \<leftarrow> kservers s a;
          if sv_state sv \<noteq> MX_SERVER_READY \<and> sv_state sv \<noteq> MX_SERVER_WAITING
          then Some (KERN_NOT_RECEIVER, msg, s)
          else if sv_endpoint sv = MACH_PORT_NULL then Some (KERN_INVALID_OBJECT, msg, s)
          else do {
            kr \<leftarrow> mx_msg_validate msg;
            if kr \<noteq> KERN_SUCCESS then Some (kr, msg, s)
            else do {
              m \<leftarrow> wr32 m MXM_DESTINATION (word_of_int (sv_endpoint sv));
              let s = call_monitor m s;
              size \<leftarrow> mx_msg_total_size (Some m);
              (kr, m, s) \<leftarrow> mach_msg_send (sv_endpoint sv) m size s;
              Some (kr, Some m, s)
            }
          }
        }
      | _ \<Rightarrow> Some (KERN_INVALID_ARGUMENT, msg, s))"

definition mx_server_reply ::
  "msg_buf option \<Rightarrow> msg_buf option \<Rightarrow> 'a kserver_scheme \<Rightarrow>
   (kern_return_t \<times> msg_buf option \<times> 'a kserver_scheme) option" where
  "mx_server_reply request reply s =
     (case (request, reply) of
        (Some req, Some rep) \<Rightarrow> do {
          sender \<leftarrow> rd32 req MXM_SENDER;
          rep \<leftarrow> wr32 rep MXM_DESTINATION sender;
          rep \<leftarrow> wr32 rep MXM_TYPE MX_MSG_REPLY;
          flags \<leftarrow> rd32 rep MXM_FLAGS;
          rep \<leftarrow> wr32 rep MXM_FLAGS (flags OR MX_MSG_REPLY);
          found \<leftarrow> mx_server_lookup_name (Some (cstr_of ''kernel'')) s;
          (case found of
             None \<Rightarrow> Some (KERN_INVALID_OBJECT, Some rep, s)
           | Some a \<Rightarrow> do {
               sv \<leftarrow> kservers s a;
               if sv_endpoint sv = MACH_PORT_NULL then Some (KERN_INVALID_OBJECT, Some rep, s)
               else do {
                 size \<leftarrow> mx_msg_total_size (Some rep);
                 (kr, rep, s) \<leftarrow> mach_msg_send (sv_endpoint sv) rep size s;
                 Some (kr, Some rep, s)
               }
             })
        }
      | _ \<Rightarrow> Some (KERN_INVALID_ARGUMENT, reply, s))"

text \<open>The loop of \<^verbatim>\<open>mx_server_broadcast\<close>, with the code so far.\<close>

partial_function (option) broadcast_loop ::
  "uint32 \<Rightarrow> nat option \<Rightarrow> msg_buf option \<Rightarrow> kern_return_t \<Rightarrow> 'a kserver_scheme \<Rightarrow>
   (kern_return_t \<times> msg_buf option \<times> 'a kserver_scheme) option" where
  "broadcast_loop caps_mask p msg result s =
     (case p of
        None \<Rightarrow> Some (result, msg, s)
      | Some a \<Rightarrow> do {
          sv \<leftarrow> kservers s a;
          (kr, msg, s) \<leftarrow> (if sv_state sv = MX_SERVER_READY \<and> sv_capabilities sv AND caps_mask \<noteq> 0
                          then mx_server_send (Some a) msg s else Some (KERN_SUCCESS, msg, s));
          next_p \<leftarrow> mx_server_next (Some a) s;
          broadcast_loop caps_mask next_p msg (if kr \<noteq> KERN_SUCCESS then kr else result) s
        })"

definition mx_server_broadcast ::
  "uint32 \<Rightarrow> msg_buf option \<Rightarrow> 'a kserver_scheme \<Rightarrow>
   (kern_return_t \<times> msg_buf option \<times> 'a kserver_scheme) option" where
  "mx_server_broadcast caps_mask msg s =
     (if msg = None then Some (KERN_INVALID_ARGUMENT, msg, s)
      else broadcast_loop caps_mask (mx_server_first s) msg KERN_SUCCESS s)"

definition mx_server_notify ::
  "nat option \<Rightarrow> uint32 \<Rightarrow> byte list option \<Rightarrow> uint32 \<Rightarrow> 'a kserver_scheme \<Rightarrow>
   (kern_return_t \<times> 'a kserver_scheme) option" where
  "mx_server_notify server event data data_size s =
     (case server of
        None \<Rightarrow> Some (KERN_INVALID_ARGUMENT, s)
      | Some a \<Rightarrow> do {
          sv \<leftarrow> kservers s a;
          (kr, msg, s) \<leftarrow> mx_msg_create True MACH_PORT_NULL (sv_endpoint sv) event MX_MSG_NOTIFY
                           MX_MSG_FLAG_NONE data data_size s;
          if kr \<noteq> KERN_SUCCESS then Some (kr, s)
          else do {
            (kr, msg, s) \<leftarrow> mx_server_send server msg s;
            Some (kr, s)
          }
        })"

text \<open>\<^verbatim>\<open>mx_server_rpc\<close>: \<open>reply\<close> is the buffer \<^verbatim>\<open>*reply\<close>; the request and the reply afterwards are
  part of the result.\<close>

definition mx_server_rpc ::
  "'a kserver_scheme poller \<Rightarrow> nat option \<Rightarrow> msg_buf option \<Rightarrow> msg_buf option \<Rightarrow> int \<Rightarrow> 'a kserver_scheme \<Rightarrow>
   (kern_return_t \<times> msg_buf option \<times> msg_buf option \<times> 'a kserver_scheme) option" where
  "mx_server_rpc kal_poll server request reply timeout_ms s =
     (case (server, request, reply) of
        (Some a, Some req, Some rep) \<Rightarrow> do {
          flags \<leftarrow> rd32 req MXM_FLAGS;
          req \<leftarrow> wr32 req MXM_FLAGS (flags OR MX_MSG_FLAG_EXPECT_REPLY);
          (kr, req, s) \<leftarrow> mx_server_send server (Some req) s;
          if kr \<noteq> KERN_SUCCESS then Some (kr, req, reply, s)
          else do {
            sv \<leftarrow> kservers s a;
            (kr, rep, s) \<leftarrow> mach_msg_receive kal_poll (sv_endpoint sv) rep
                              (of_nat MX_MSG_HEADER_SIZE + MX_MSG_MAX_PAYLOAD) timeout_ms s;
            Some (kr, req, Some rep, s)
          }
        }
      | _ \<Rightarrow> Some (KERN_INVALID_ARGUMENT, request, reply, s))"

text \<open>\<^verbatim>\<open>mx_ipc_poll\<close>: one queued message of every server goes to the monitor and is freed.\<close>

definition poll_server :: "mach_port_t \<Rightarrow> 'a kserver_scheme \<Rightarrow> 'a kserver_scheme" where
  "poll_server ep s =
     (case mach_port_lookup ep s of
        None \<Rightarrow> s
      | Some i \<Rightarrow>
          if po_count (port_obj i s) = 0 then s
          else (case mach_port_dequeue_message ep s of
                  (None, s) \<Rightarrow> s
                | (Some raw, s) \<Rightarrow> call_monitor raw s))"

partial_function (option) poll_loop :: "nat option \<Rightarrow> 'a kserver_scheme \<Rightarrow> 'a kserver_scheme option" where
  "poll_loop p s =
     (case p of
        None \<Rightarrow> Some s
      | Some a \<Rightarrow> do {
          sv \<leftarrow> kservers s a;
          let s = (if sv_endpoint sv \<noteq> MACH_PORT_NULL then poll_server (sv_endpoint sv) s else s);
          next_p \<leftarrow> mx_server_next (Some a) s;
          poll_loop next_p s
        })"

definition mx_ipc_poll :: "'a kserver_scheme \<Rightarrow> 'a kserver_scheme option" where
  "mx_ipc_poll s = poll_loop (mx_server_first s) s"

end
