(* ===== verification/Server_Manager.thy ===== *)
theory Server_Manager
  imports Server_Ipc
begin

text \<open>
  The life of a server, \<^verbatim>\<open>Kernel/mxwl/server/loader.c\<close> and \<^verbatim>\<open>manager.c\<close>: loading (endpoint, task
  and thread), starting, stopping, and the manager's commands.  Pointers to servers are to objects
  that exist (\<open>server_at\<close>); what other threads do while a function sleeps is a parameter
  (\<open>kal_usleep\<close>).  \<open>None\<close> is the use of a freed thread.
\<close>

section \<open>The loader\<close>

definition mx_loader_init :: "'a kserver_scheme \<Rightarrow> kern_return_t \<times> 'a kserver_scheme" where
  "mx_loader_init s = (KERN_SUCCESS, s)"

definition set_state :: "nat \<Rightarrow> mx_server_state \<Rightarrow> 'a kserver_scheme \<Rightarrow> 'a kserver_scheme" where
  "set_state a state s = snd (mx_server_set_state (Some a) state s)"

text \<open>\<^verbatim>\<open>mx_loader_load\<close> in its three steps: the thread, the task, the endpoint before them.\<close>

definition load_thread :: "nat \<Rightarrow> 'a kserver_scheme \<Rightarrow> kern_return_t \<times> 'a kserver_scheme" where
  "load_thread a s =
     (let (kr, out, s) = mxwl_thread_create (sv_task (server_at a s)) s;
          s = (if out = None then s else upd_server a (\<lambda>sv. sv\<lparr>sv_thread := out\<rparr>) s)
      in if kr \<noteq> KERN_SUCCESS
         then (let s = snd (mxwl_task_terminate (sv_task (server_at a s)) s);
                   s = upd_server a (\<lambda>sv. sv\<lparr>sv_task := None\<rparr>) s;
                   s = mx_ipc_server_endpoint_destroy (Some a) s
               in (kr, set_state a MX_SERVER_FAILED s))
         else (KERN_SUCCESS, s))"

definition load_task :: "nat \<Rightarrow> 'a kserver_scheme \<Rightarrow> kern_return_t \<times> 'a kserver_scheme" where
  "load_task a s =
     (let (kr, out, s) = mxwl_task_create (Some (sv_name (server_at a s))) s;
          s = (if out = None then s else upd_server a (\<lambda>sv. sv\<lparr>sv_task := out\<rparr>) s)
      in if kr \<noteq> KERN_SUCCESS
         then (kr, set_state a MX_SERVER_FAILED (mx_ipc_server_endpoint_destroy (Some a) s))
         else load_thread a s)"

definition mx_loader_load ::
  "nat option \<Rightarrow> cstr option \<Rightarrow> 'a kserver_scheme \<Rightarrow> kern_return_t \<times> 'a kserver_scheme" where
  "mx_loader_load server exec_path s =
     (case (server, exec_path) of
        (Some a, Some path) \<Rightarrow>
          (let s = upd_server a (\<lambda>sv. sv\<lparr>sv_path := c_strlcpy MX_SERVER_PATH_MAX path\<rparr>) s;
               s = set_state a MX_SERVER_LOADING s;
               (kr, s) = mx_ipc_server_endpoint_create server s
           in if kr \<noteq> KERN_SUCCESS then (kr, set_state a MX_SERVER_FAILED s) else load_task a s)
      | _ \<Rightarrow> (KERN_INVALID_ARGUMENT, s))"

definition mx_loader_stop :: "nat option \<Rightarrow> 'a kserver_scheme \<Rightarrow> kern_return_t \<times> 'a kserver_scheme" where
  "mx_loader_stop server s =
     (case server of
        None \<Rightarrow> (KERN_INVALID_ARGUMENT, s)
      | Some a \<Rightarrow>
          if sv_state (server_at a s) = MX_SERVER_STOPPED \<or> sv_state (server_at a s) = MX_SERVER_STOPPING
          then (KERN_SUCCESS, s)
          else
            (let s = set_state a MX_SERVER_STOPPING s;
                 s = (case sv_task (server_at a s) of
                        None \<Rightarrow> s
                      | Some t \<Rightarrow>
                          let pid = tk_host_pid (task_obj t s)
                          in if 0 < pid then proc_log [Kill pid, Wait pid] s else s)
             in (KERN_SUCCESS, set_state a MX_SERVER_STOPPED s)))"

definition mx_loader_unload ::
  "nat option \<Rightarrow> 'a kserver_scheme \<Rightarrow> (kern_return_t \<times> 'a kserver_scheme) option" where
  "mx_loader_unload server s =
     (case server of
        None \<Rightarrow> Some (KERN_INVALID_ARGUMENT, s)
      | Some a \<Rightarrow> do {
          let s = snd (mx_loader_stop server s);
          s \<leftarrow> (if sv_thread (server_at a s) \<noteq> None then do {
                  (kr, s) \<leftarrow> mxwl_thread_terminate (sv_thread (server_at a s)) s;
                  Some (upd_server a (\<lambda>sv. sv\<lparr>sv_thread := None\<rparr>) s)
                } else Some s);
          let s = (if sv_task (server_at a s) \<noteq> None
                   then upd_server a (\<lambda>sv. sv\<lparr>sv_task := None\<rparr>)
                          (snd (mxwl_task_terminate (sv_task (server_at a s)) s))
                   else s);
          let s = mx_ipc_server_endpoint_destroy server s;
          Some (KERN_SUCCESS, set_state a MX_SERVER_STOPPED s)
        })"

definition mx_loader_start :: "nat option \<Rightarrow> 'a kserver_scheme \<Rightarrow> kern_return_t \<times> 'a kserver_scheme" where
  "mx_loader_start server s =
     (case server of
        None \<Rightarrow> (KERN_INVALID_ARGUMENT, s)
      | Some a \<Rightarrow>
          (case sv_task (server_at a s) of
             None \<Rightarrow> (KERN_INVALID_ARGUMENT, s)
           | Some t \<Rightarrow>
               (let s = set_state a MX_SERVER_STARTING s;
                    sv = server_at a s;
                    s = upd_task t (\<lambda>task. task\<lparr>tk_bootstrap_port := sv_endpoint sv\<rparr>) s;
                    port_str = c_snprintf 32 (dec_int (sv_endpoint sv));
                    s = proc_log [Setenv (cstr_of ''MXWL_SERVER_PORT'') port_str,
                                  Setenv (cstr_of ''MXWL_SERVER_NAME'') (sv_name sv),
                                  Setenv (cstr_of ''MXWL_SERVER_ID'') port_str] s;
                    s = (if sv_path sv \<noteq> []
                         then upd_task t (\<lambda>task. task\<lparr>tk_binary_path := c_strlcpy TASK_PATH_SIZE (sv_path sv)\<rparr>) s
                         else s)
                in (KERN_SUCCESS, s))))"

definition mx_loader_setup_ipc :: "nat option \<Rightarrow> 'a kserver_scheme \<Rightarrow> kern_return_t \<times> 'a kserver_scheme" where
  "mx_loader_setup_ipc server s =
     (if server = None then (KERN_INVALID_ARGUMENT, s) else mx_ipc_server_endpoint_create server s)"

text \<open>The loop counts the milliseconds in an \<^verbatim>\<open>int\<close>; where that would overflow, the result is \<open>None\<close>.\<close>

function wait_loop ::
  "('a kserver_scheme \<Rightarrow> 'a kserver_scheme) \<Rightarrow> nat \<Rightarrow> int \<Rightarrow> int \<Rightarrow> 'a kserver_scheme \<Rightarrow>
   (kern_return_t \<times> 'a kserver_scheme) option" where
  "wait_loop kal_usleep a waited timeout_ms s =
     (if \<not> waited < timeout_ms then Some (KERN_ABORTED, s)
      else if sv_state (server_at a s) = MX_SERVER_READY then Some (KERN_SUCCESS, s)
      else if sv_state (server_at a s) = MX_SERVER_FAILED \<or> sv_state (server_at a s) = MX_SERVER_PANIC
      then Some (KERN_FAILURE, s)
      else if INT_MAX < waited + 10 then None
      else wait_loop kal_usleep a (waited + 10) timeout_ms (kal_usleep s))"
  by pat_completeness auto
termination by (relation "measure (\<lambda>(f, a, waited, timeout_ms, s). nat (timeout_ms - waited))") auto

declare wait_loop.simps [simp del]

definition mx_loader_wait_ready ::
  "('a kserver_scheme \<Rightarrow> 'a kserver_scheme) \<Rightarrow> nat option \<Rightarrow> int \<Rightarrow> 'a kserver_scheme \<Rightarrow>
   (kern_return_t \<times> 'a kserver_scheme) option" where
  "mx_loader_wait_ready kal_usleep server timeout_ms s =
     (case server of
        None \<Rightarrow> Some (KERN_INVALID_ARGUMENT, s)
      | Some a \<Rightarrow>
          if sv_state (server_at a s) = MX_SERVER_READY then Some (KERN_SUCCESS, s)
          else wait_loop kal_usleep a 0 timeout_ms s)"

section \<open>The manager\<close>

definition mx_manager_init :: "'a kserver_scheme \<Rightarrow> kern_return_t \<times> 'a kserver_scheme" where
  "mx_manager_init s = (KERN_SUCCESS, s)"

definition mx_manager_start_server ::
  "('a kserver_scheme \<Rightarrow> 'a kserver_scheme) \<Rightarrow> nat option \<Rightarrow> 'a kserver_scheme \<Rightarrow>
   (kern_return_t \<times> 'a kserver_scheme) option" where
  "mx_manager_start_server kal_usleep server s =
     (case server of
        None \<Rightarrow> Some (KERN_INVALID_ARGUMENT, s)
      | Some a \<Rightarrow>
          (let (kr, s) = (if sv_path (server_at a s) \<noteq> []
                          then mx_loader_load server (Some (sv_path (server_at a s))) s else (KERN_SUCCESS, s))
           in if kr \<noteq> KERN_SUCCESS then Some (kr, s)
              else
                (let (kr, s) = mx_loader_start server s
                 in if kr \<noteq> KERN_SUCCESS then do {
                      (_, s) \<leftarrow> mx_loader_unload server s;
                      Some (kr, s)
                    }
                    else do {
                      (_, s) \<leftarrow> mx_loader_wait_ready kal_usleep server 5000 s;
                      Some (KERN_SUCCESS, s)
                    })))"

definition mx_manager_stop_server ::
  "nat option \<Rightarrow> 'a kserver_scheme \<Rightarrow> (kern_return_t \<times> 'a kserver_scheme) option" where
  "mx_manager_stop_server server s =
     (case server of
        None \<Rightarrow> Some (KERN_INVALID_ARGUMENT, s)
      | Some a \<Rightarrow>
          if sv_state (server_at a s) = MX_SERVER_STOPPED then Some (KERN_SUCCESS, s)
          else do {
            let s = snd (mx_loader_stop server s);
            (_, s) \<leftarrow> mx_loader_unload server s;
            Some (KERN_SUCCESS, s)
          })"

definition mx_manager_restart_server ::
  "('a kserver_scheme \<Rightarrow> 'a kserver_scheme) \<Rightarrow> nat option \<Rightarrow> 'a kserver_scheme \<Rightarrow>
   (kern_return_t \<times> 'a kserver_scheme) option" where
  "mx_manager_restart_server kal_usleep server s =
     (if server = None then Some (KERN_INVALID_ARGUMENT, s)
      else do {
        (_, s) \<leftarrow> mx_manager_stop_server server s;
        mx_manager_start_server kal_usleep server s
      })"

text \<open>\<^verbatim>\<open>mx_server_start\<close>, \<^verbatim>\<open>mx_server_stop\<close>, \<^verbatim>\<open>mx_server_restart\<close> and their variants by name.\<close>

definition on_server ::
  "(nat option \<Rightarrow> 'a kserver_scheme \<Rightarrow> (kern_return_t \<times> 'a kserver_scheme) option) \<Rightarrow> nat option \<Rightarrow>
   'a kserver_scheme \<Rightarrow> (kern_return_t \<times> 'a kserver_scheme) option" where
  "on_server f server s = (if server = None then Some (KERN_INVALID_OBJECT, s) else f server s)"

definition mx_server_start where
  "mx_server_start kal_usleep server_id s =
     mx_server_lookup_id server_id s \<bind> (\<lambda>server. on_server (mx_manager_start_server kal_usleep) server s)"

definition mx_server_start_by_name where
  "mx_server_start_by_name kal_usleep name s =
     mx_server_lookup_name name s \<bind> (\<lambda>server. on_server (mx_manager_start_server kal_usleep) server s)"

definition mx_server_stop where
  "mx_server_stop server_id s =
     mx_server_lookup_id server_id s \<bind> (\<lambda>server. on_server mx_manager_stop_server server s)"

definition mx_server_stop_by_name where
  "mx_server_stop_by_name name s =
     mx_server_lookup_name name s \<bind> (\<lambda>server. on_server mx_manager_stop_server server s)"

definition mx_server_restart where
  "mx_server_restart kal_usleep server_id s =
     mx_server_lookup_id server_id s \<bind> (\<lambda>server. on_server (mx_manager_restart_server kal_usleep) server s)"

definition mx_server_restart_by_name where
  "mx_server_restart_by_name kal_usleep name s =
     mx_server_lookup_name name s \<bind> (\<lambda>server. on_server (mx_manager_restart_server kal_usleep) server s)"

partial_function (option) shutdown_loop ::
  "nat option \<Rightarrow> 'a kserver_scheme \<Rightarrow> 'a kserver_scheme option" where
  "shutdown_loop p s =
     (case p of
        None \<Rightarrow> Some s
      | Some a \<Rightarrow> do {
          (_, s) \<leftarrow> mx_manager_stop_server p s;
          next_p \<leftarrow> mx_server_next p s;
          shutdown_loop next_p s
        })"

definition mx_manager_shutdown :: "'a kserver_scheme \<Rightarrow> 'a kserver_scheme option" where
  "mx_manager_shutdown s = map_option mx_ipc_shutdown (shutdown_loop (mx_server_first s) s)"

definition mx_manager_poll :: "'a kserver_scheme \<Rightarrow> 'a kserver_scheme option" where
  "mx_manager_poll s = mx_ipc_poll s"

section \<open>Commands\<close>

text \<open>
  A command returns its code, its text and the state; the output buffer receives the first
  \<^verbatim>\<open>out_size - 1\<close> bytes of the text.  \<open>stack\<close> is what the stack holds where \<^verbatim>\<open>caps\<close> is allocated
  (in the \<open>k\<close>-th round of a loop): the array is not initialised, and reading the capability string
  out of it is \<open>None\<close> when it has no NUL.
\<close>

definition server_command ::
  "string \<Rightarrow> (nat option \<Rightarrow> 'a kserver_scheme \<Rightarrow> (kern_return_t \<times> cstr \<times> 'a kserver_scheme) option) \<Rightarrow>
   cstr list \<Rightarrow> 'a kserver_scheme \<Rightarrow> (kern_return_t \<times> cstr \<times> 'a kserver_scheme) option" where
  "server_command verb act argv s =
     (if length argv < 2
      then Some (KERN_INVALID_ARGUMENT, cstr_of (''usage: '' @ verb @ '' <server>'') @ [10], s)
      else do {
        (kr, server) \<leftarrow> mx_server_find (Some (argv ! 1)) True s;
        if kr \<noteq> KERN_SUCCESS
        then Some (kr, cstr_of ''server '' @ [39] @ argv ! 1 @ [39] @ cstr_of '' not found'' @ [10], s)
        else act server s
      })"

definition name_of :: "nat option \<Rightarrow> 'a kserver_scheme \<Rightarrow> cstr" where
  "name_of server s = sv_name (server_at (the server) s)"

definition outcome_text :: "string \<Rightarrow> kern_return_t \<Rightarrow> nat option \<Rightarrow> 'a kserver_scheme \<Rightarrow> cstr" where
  "outcome_text verb kr server s =
     cstr_of (verb @ '' '') @ name_of server s @ cstr_of (if kr = KERN_SUCCESS then '': ok'' else '': failed'') @ [10]"

definition cmd_start where
  "cmd_start kal_usleep = server_command ''start'' (\<lambda>server s. do {
     (kr, s) \<leftarrow> mx_manager_start_server kal_usleep server s;
     Some (kr, outcome_text ''start'' kr server s, s)
   })"

definition cmd_stop where
  "cmd_stop = server_command ''stop'' (\<lambda>server s. do {
     (kr, s) \<leftarrow> mx_manager_stop_server server s;
     Some (kr, outcome_text ''stop'' kr server s, s)
   })"

definition cmd_restart where
  "cmd_restart kal_usleep = server_command ''restart'' (\<lambda>server s. do {
     (kr, s) \<leftarrow> mx_manager_restart_server kal_usleep server s;
     Some (kr, outcome_text ''restart'' kr server s, s)
   })"

definition cmd_panic where
  "cmd_panic = server_command ''panic'' (\<lambda>server s.
     let s = snd (mx_server_set_state server MX_SERVER_PANIC s)
     in Some (KERN_SUCCESS, cstr_of ''server '' @ name_of server s @ cstr_of '' set to PANIC'' @ [10], s))"

definition cmd_trace where
  "cmd_trace argv s = Some (KERN_FAILURE, cstr_of ''server trace: not implemented'' @ [10], s)"

definition MX_SERVER_CAPS_STR_MAX :: nat where "MX_SERVER_CAPS_STR_MAX = 256"

definition pad_right :: "nat \<Rightarrow> cstr \<Rightarrow> cstr" where
  "pad_right n str = str @ replicate (n - length str) 32"

fun hex_nat :: "nat \<Rightarrow> cstr" where
  "hex_nat n = (if n < 16 then [] else hex_nat (n div 16)) @
     [of_nat (if n mod 16 < 10 then 48 + n mod 16 else 87 + n mod 16)]"

declare hex_nat.simps [simp del]

text \<open>\<^verbatim>\<open>%02x\<close>.\<close>

definition hex2 :: "uint32 \<Rightarrow> cstr" where
  "hex2 w = (let h = hex_nat (unat w) in replicate (2 - length h) 48 @ h)"

definition caps_text :: "uint32 \<Rightarrow> byte list \<Rightarrow> cstr option" where
  "caps_text capabilities stack =
     c_string_at (mx_server_caps_string capabilities stack MX_SERVER_CAPS_STR_MAX) 0"

definition server_line :: "mx_server \<Rightarrow> cstr \<Rightarrow> cstr" where
  "server_line sv caps =
     cstr_of ''  '' @ pad_right 3 (dec_nat (unat (sv_id sv))) @ cstr_of ''  '' @ pad_right 20 (sv_name sv) @
     cstr_of ''  '' @ pad_right 8 (cstr_of (mx_server_state_string (sv_state sv))) @
     cstr_of ''  flags='' @ hex2 (sv_flags sv) @ cstr_of ''  caps='' @ caps @ [10]"

partial_function (option) servers_loop ::
  "(nat \<Rightarrow> byte list) \<Rightarrow> nat \<Rightarrow> nat \<Rightarrow> nat option \<Rightarrow> cstr \<Rightarrow> 'a kserver_scheme \<Rightarrow> cstr option" where
  "servers_loop stack k out_size p text s =
     (case p of
        None \<Rightarrow> Some text
      | Some a \<Rightarrow>
          if out_size \<le> length text then Some text
          else do {
            sv \<leftarrow> kservers s a;
            caps \<leftarrow> caps_text (sv_capabilities sv) (stack k);
            servers_loop stack (k + 1) out_size (sv_next sv) (text @ server_line sv caps) s
          })"

definition cmd_servers where
  "cmd_servers stack out_size argv s = do {
     text \<leftarrow> servers_loop stack 0 out_size (mx_server_first s)
              (cstr_of ''Servers: '' @ dec_int (mx_server_count s) @ [10]) s;
     Some (KERN_SUCCESS, text, s)
   }"

definition info_text :: "nat \<Rightarrow> cstr \<Rightarrow> 'a kserver_scheme \<Rightarrow> cstr" where
  "info_text a caps s =
     (let sv = server_at a s;
          task_field = (\<lambda>f. dec_int (case sv_task sv of None \<Rightarrow> - 1 | Some t \<Rightarrow> f (task_obj t s)));
          line = (\<lambda>label str. cstr_of label @ str @ [10])
      in line ''Server:   '' (sv_name sv) @ line ''ID:       '' (dec_nat (unat (sv_id sv))) @
         line ''Version:  '' (sv_version sv) @ line ''Path:     '' (sv_path sv) @
         line ''State:    '' (cstr_of (mx_server_state_string (sv_state sv))) @
         line ''Task ID:  '' (task_field tk_id) @ line ''PID:      '' (task_field tk_host_pid) @
         line ''Endpoint: '' (dec_int (sv_endpoint sv)) @ line ''Mgmt:     '' (dec_int (sv_mgmt_port sv)) @
         line ''Caps:     '' caps @ line ''Flags:    0x'' (hex2 (sv_flags sv)) @
         line ''Restarts: '' (dec_int (sv_restart_count sv)))"

definition cmd_info where
  "cmd_info stack = server_command ''info'' (\<lambda>server s. do {
     caps \<leftarrow> caps_text (sv_capabilities (server_at (the server) s)) stack;
     Some (KERN_SUCCESS, info_text (the server) caps s, s)
   })"

text \<open>The table of commands and its dispatcher; \<open>argv\<close> is \<open>None\<close> for a null pointer.\<close>

definition commands where
  "commands kal_usleep stack out_size =
     [(cstr_of ''servers'', cmd_servers stack out_size), (cstr_of ''start'', cmd_start kal_usleep),
      (cstr_of ''stop'', cmd_stop), (cstr_of ''restart'', cmd_restart kal_usleep),
      (cstr_of ''info'', cmd_info (stack 0)), (cstr_of ''trace'', cmd_trace), (cstr_of ''panic'', cmd_panic)]"

definition mx_manager_handle_command where
  "mx_manager_handle_command kal_usleep stack out_size argv has_out s =
     (case argv of
        Some (name # args) \<Rightarrow>
          if \<not> has_out then Some (KERN_INVALID_ARGUMENT, [], s)
          else
            (case map_of (commands kal_usleep stack out_size) name of
               Some handler \<Rightarrow> handler (name # args) s
             | None \<Rightarrow> Some (KERN_INVALID_ARGUMENT, cstr_of ''unknown command: '' @ name @ [10], s))
      | _ \<Rightarrow> Some (KERN_INVALID_ARGUMENT, [], s))"

end
