(* ===== verification/Server_Boot.thy ===== *)
theory Server_Boot
  imports Server_Manager
begin

text \<open>
  Bringing up the servers, \<^verbatim>\<open>Kernel/mxwl/server/bootstrap.c\<close>: the boot arguments and the
  bootstrap sequence.  The kernel monitor it may enter (\<^verbatim>\<open>mx_monitor_run\<close>) reads commands from
  the terminal until it is left; it is a parameter.
\<close>

definition MX_CAP_BOOTSTRAP :: uint32 where "MX_CAP_BOOTSTRAP = 0x80000000"
definition MX_CAP_PROCESS :: uint32 where "MX_CAP_PROCESS = 0x10"
definition MX_CAP_IPC :: uint32 where "MX_CAP_IPC = 0x100"
definition MX_SERVER_AUTOSTART :: uint32 where "MX_SERVER_AUTOSTART = 1"
definition MX_SERVER_SYSTEM :: uint32 where "MX_SERVER_SYSTEM = 16"

record kboot = kserver +
  boot_server_path :: cstr
  boot_timeout_ms :: int
  boot_autostart :: bool
  bootstrapped :: bool

definition mx_bootstrap_init :: "'a kboot_scheme \<Rightarrow> kern_return_t \<times> 'a kboot_scheme" where
  "mx_bootstrap_init s =
     (KERN_SUCCESS, s\<lparr>boot_server_path := [], boot_timeout_ms := 30000, boot_autostart := True, bootstrapped := False\<rparr>)"

section \<open>Boot arguments\<close>

definition srv_prefix :: cstr where "srv_prefix = cstr_of ''-srv=''"

text \<open>One round of the loop: the server path afterwards, and the rest of the arguments (\<open>None\<close>
  when there is no further space).\<close>

definition configure_step :: "cstr \<Rightarrow> cstr \<Rightarrow> cstr \<times> cstr option" where
  "configure_step arg path0 =
     (let arg = dropWhile (\<lambda>b. b = 32) arg;
          path0 = (if take (length srv_prefix) arg = srv_prefix
                   then (let path = drop (length srv_prefix) arg;
                             path_len = length (takeWhile (\<lambda>b. b \<noteq> 32) path);
                             copy = (if path_len < MX_SERVER_PATH_MAX - 1 then path_len else MX_SERVER_PATH_MAX - 1)
                         in take copy path)
                   else path0);
          rest = dropWhile (\<lambda>b. b \<noteq> 32) arg
      in (path0, if rest = [] then None else Some (tl rest)))"

text \<open>The arguments from the space after the first token on.\<close>

definition after_token :: "cstr \<Rightarrow> cstr" where
  "after_token arg = dropWhile (\<lambda>b. b \<noteq> 32) (dropWhile (\<lambda>b. b = 32) arg)"

lemma after_token_length: "length (after_token arg) \<le> length arg"
  unfolding after_token_def by (rule order_trans [OF length_dropWhile_le length_dropWhile_le])

lemma rest_shorter: "after_token arg \<noteq> [] \<Longrightarrow> length (tl (after_token arg)) < length arg"
  using after_token_length [of arg] by (cases "after_token arg") auto

lemma snd_configure_step:
  "snd (configure_step arg path0) = (if after_token arg = [] then None else Some (tl (after_token arg)))"
  unfolding configure_step_def Let_def snd_conv after_token_def by (rule refl)

lemma configure_step_decreases: "configure_step arg path0 = (path, Some rest) \<Longrightarrow> length rest < length arg"
  using snd_configure_step [of arg path0] rest_shorter [of arg] by (simp split: if_splits)

function configure_loop :: "cstr \<Rightarrow> cstr \<Rightarrow> cstr" where
  "configure_loop arg path0 =
     (if arg = [] then path0
      else (case configure_step arg path0 of
              (path0, None) \<Rightarrow> path0
            | (path0, Some rest) \<Rightarrow> configure_loop rest path0))"
  by pat_completeness auto
termination by (relation "measure (\<lambda>(arg, path0). length arg)") (auto dest: configure_step_decreases [OF sym])

declare configure_loop.simps [simp del]

definition mx_bootstrap_configure :: "cstr option \<Rightarrow> 'a kboot_scheme \<Rightarrow> kern_return_t \<times> 'a kboot_scheme" where
  "mx_bootstrap_configure boot_args s =
     (case boot_args of
        None \<Rightarrow> (KERN_INVALID_ARGUMENT, s)
      | Some args \<Rightarrow> (KERN_SUCCESS, s\<lparr>boot_server_path := configure_loop args (boot_server_path s)\<rparr>))"

definition mx_bootstrap_get_server_path :: "'a kboot_scheme \<Rightarrow> cstr option" where
  "mx_bootstrap_get_server_path s = (if boot_server_path s \<noteq> [] then Some (boot_server_path s) else None)"

section \<open>The bootstrap sequence\<close>

definition mx_bootstrap_start_server ::
  "('a kserver_scheme \<Rightarrow> 'a kserver_scheme) \<Rightarrow> cstr option \<Rightarrow> cstr option \<Rightarrow> uint32 \<Rightarrow> 'a kserver_scheme \<Rightarrow>
   (kern_return_t \<times> 'a kserver_scheme) option" where
  "mx_bootstrap_start_server kal_usleep name path capabilities s =
     (if name = None then Some (KERN_INVALID_ARGUMENT, s)
      else do {
        existing \<leftarrow> mx_server_lookup_name name s;
        if existing \<noteq> None then Some (KERN_NAME_EXISTS, s)
        else
          (let (ok, s) = kal_malloc s
           in if \<not> ok then Some (KERN_FAILURE, s)
              else
                (let a = knext_server s;
                     s = s\<lparr>kservers := (kservers s)(a \<mapsto> zero_server), knext_server := Suc a\<rparr>;
                     (kr, s) = mx_server_init (Some a) name s
                 in if kr \<noteq> KERN_SUCCESS then Some (kr, s\<lparr>kservers := (kservers s)(a := None)\<rparr>)
                    else
                      (let s = upd_server a (\<lambda>sv. sv\<lparr>sv_capabilities := capabilities,
                                                     sv_flags := MX_SERVER_SYSTEM OR MX_SERVER_AUTOSTART\<rparr>) s;
                           s = (case path of
                                  None \<Rightarrow> s
                                | Some p \<Rightarrow> upd_server a (\<lambda>sv. sv\<lparr>sv_path := c_strlcpy MX_SERVER_PATH_MAX p\<rparr>) s)
                       in do {
                            (kr, s) \<leftarrow> mx_server_register (Some a) s;
                            if kr \<noteq> KERN_SUCCESS then Some (kr, s\<lparr>kservers := (kservers s)(a := None)\<rparr>)
                            else mx_manager_start_server kal_usleep (Some a) s
                          })))
      })"

definition mx_bootstrap_launch_mswaiter ::
  "('s \<Rightarrow> 's) \<Rightarrow> 's \<Rightarrow> kern_return_t \<times> 's" where
  "mx_bootstrap_launch_mswaiter mx_monitor_run s = (KERN_SUCCESS, mx_monitor_run s)"

definition start_default_servers where
  "start_default_servers kal_usleep mx_monitor_run s =
     (if \<not> boot_autostart s then Some (KERN_SUCCESS, s)
      else if boot_server_path s \<noteq> [] then do {
        (kr, s) \<leftarrow> mx_bootstrap_start_server kal_usleep (Some (cstr_of ''bootstrap'')) (Some (boot_server_path s))
                    (MX_CAP_BOOTSTRAP OR MX_CAP_PROCESS OR MX_CAP_IPC) s;
        if kr \<noteq> KERN_SUCCESS then Some (mx_bootstrap_launch_mswaiter mx_monitor_run s)
        else Some (KERN_SUCCESS, s)
      }
      else Some (mx_bootstrap_launch_mswaiter mx_monitor_run s))"

definition mx_bootstrap_sequence where
  "mx_bootstrap_sequence kal_usleep mx_monitor_run s = do {
     (kr, s) \<leftarrow> start_default_servers kal_usleep mx_monitor_run s;
     Some (if kr \<noteq> KERN_SUCCESS then kr else KERN_SUCCESS, s)
   }"

definition mx_bootstrap_start ::
  "('b kboot_scheme \<Rightarrow> 'b kboot_scheme) \<Rightarrow> ('b kboot_scheme \<Rightarrow> 'b kboot_scheme) \<Rightarrow> 'b kboot_scheme \<Rightarrow>
   (kern_return_t \<times> 'b kboot_scheme) option" where
  "mx_bootstrap_start kal_usleep mx_monitor_run s =
     (let (kr, s) = mx_registry_init s
      in if kr \<noteq> KERN_SUCCESS then Some (kr, s)
         else
           (let (kr, s) = mx_ipc_init s
            in if kr \<noteq> KERN_SUCCESS then Some (kr, s)
               else
                 (let (kr, s) = mx_loader_init s
                  in if kr \<noteq> KERN_SUCCESS then Some (kr, s)
                     else
                       (let (kr, s) = mx_manager_init s
                        in if kr \<noteq> KERN_SUCCESS then Some (kr, s)
                           else do {
                             (kr, s) \<leftarrow> mx_bootstrap_sequence kal_usleep mx_monitor_run s;
                             Some (KERN_SUCCESS, s\<lparr>bootstrapped := True\<rparr>)
                           }))))"

section \<open>Boot arguments as tokens\<close>

text \<open>The arguments between spaces, and what one of them does.\<close>

fun tokens :: "cstr \<Rightarrow> cstr list" where
  "tokens [] = [[]]"
| "tokens (b # bs) = (if b = 32 then [] # tokens bs else (b # hd (tokens bs)) # tl (tokens bs))"

definition token_path :: "cstr \<Rightarrow> cstr \<Rightarrow> cstr" where
  "token_path tok path0 =
     (if take (length srv_prefix) tok = srv_prefix then take (MX_SERVER_PATH_MAX - 1) (drop (length srv_prefix) tok)
      else path0)"

lemma tokens_nonempty [simp]: "tokens bs \<noteq> []"
  by (cases bs) auto

lemma tokens_split:
  "tokens bs = takeWhile (\<lambda>b. b \<noteq> 32) bs #
     (case dropWhile (\<lambda>b. b \<noteq> 32) bs of [] \<Rightarrow> [] | _ # rest \<Rightarrow> tokens rest)"
  by (induction bs) (auto split: list.splits)

lemma srv_prefix_no_space: "32 \<notin> set srv_prefix"
  by (simp add: srv_prefix_def cstr_of_def)

lemma prefix_of_token:
  assumes "c \<notin> set p"
  shows "take (length p) xs = p \<longleftrightarrow> take (length p) (takeWhile (\<lambda>b. b \<noteq> c) xs) = p"
  using assms
proof (induction p arbitrary: xs)
  case Nil
  then show ?case by simp
next
  case (Cons a p)
  then show ?case by (cases xs) auto
qed

lemma drop_token:
  assumes "take (length p) xs = p" "c \<notin> set p"
  shows "takeWhile (\<lambda>b. b \<noteq> c) (drop (length p) xs) = drop (length p) (takeWhile (\<lambda>b. b \<noteq> c) xs)"
  using assms
proof (induction p arbitrary: xs)
  case Nil
  then show ?case by simp
next
  case (Cons a p)
  then show ?case by (cases xs) auto
qed

lemma take_length_takeWhile: "take (length (takeWhile P xs)) xs = takeWhile P xs"
  by (metis append_eq_conv_conj takeWhile_dropWhile_id)

lemma configure_step_token:
  "configure_step arg path0 =
     (token_path (takeWhile (\<lambda>b. b \<noteq> 32) (dropWhile (\<lambda>b. b = 32) arg)) path0,
      if after_token arg = [] then None else Some (tl (after_token arg)))"
proof -
  have clip: "take (if length (takeWhile (\<lambda>b. b \<noteq> 32) path) < m then length (takeWhile (\<lambda>b. b \<noteq> 32) path) else m) path =
      take m (takeWhile (\<lambda>b. b \<noteq> 32) path)" for m and path :: cstr
  proof (cases "length (takeWhile (\<lambda>b. b \<noteq> 32) path) < m")
    case True
    then show ?thesis by (simp add: take_length_takeWhile)
  next
    case False
    then have "take m (take (length (takeWhile (\<lambda>b. b \<noteq> 32) path)) path) = take m path"
      by (simp add: min_absorb1)
    with False show ?thesis by (simp add: take_length_takeWhile)
  qed
  let ?arg = "dropWhile (\<lambda>b. b = 32) arg"
  show ?thesis
  proof (cases "take (length srv_prefix) ?arg = srv_prefix")
    case True
    with prefix_of_token [OF srv_prefix_no_space, of ?arg]
    have "take (length srv_prefix) (takeWhile (\<lambda>b. b \<noteq> 32) ?arg) = srv_prefix" by simp
    with True show ?thesis
      unfolding configure_step_def Let_def clip drop_token [OF True srv_prefix_no_space] token_path_def
        after_token_def [symmetric] by simp
  next
    case False
    with prefix_of_token [OF srv_prefix_no_space, of ?arg]
    have "take (length srv_prefix) (takeWhile (\<lambda>b. b \<noteq> 32) ?arg) \<noteq> srv_prefix" by simp
    with False show ?thesis
      unfolding configure_step_def Let_def token_path_def after_token_def [symmetric] by simp
  qed
qed

lemma tokens_skip_spaces: "fold token_path (tokens (dropWhile (\<lambda>b. b = 32) arg)) path0 = fold token_path (tokens arg) path0"
  by (induction arg arbitrary: path0) (auto simp: token_path_def srv_prefix_def cstr_of_def)

text \<open>The loop goes through the tokens from left to right.\<close>

lemma configure_loop_tokens: "configure_loop arg path0 = fold token_path (tokens arg) path0"
proof (induction "length arg" arbitrary: arg path0 rule: less_induct)
  case less
  let ?arg = "dropWhile (\<lambda>b. b = 32) arg"
  show ?case
  proof (cases "arg = []")
    case True
    then show ?thesis
      by (simp add: configure_loop.simps token_path_def srv_prefix_def cstr_of_def)
  next
    case False
    have toks: "tokens ?arg = takeWhile (\<lambda>b. b \<noteq> 32) ?arg #
        (case after_token arg of [] \<Rightarrow> [] | _ # rest \<Rightarrow> tokens rest)"
      unfolding after_token_def by (rule tokens_split)
    have loop: "configure_loop arg path0 = (case configure_step arg path0 of (path0, None) \<Rightarrow> path0
        | (path0, Some rest) \<Rightarrow> configure_loop rest path0)"
      using False by (subst configure_loop.simps) simp
    have "configure_loop arg path0 = fold token_path (tokens ?arg) path0"
    proof (cases "after_token arg")
      case Nil
      then show ?thesis unfolding loop configure_step_token toks by simp
    next
      case (Cons b rest)
      then have "length rest < length arg" using rest_shorter [of arg] by simp
      from Cons less [OF this] show ?thesis unfolding loop configure_step_token toks by simp
    qed
    then show ?thesis by (simp add: tokens_skip_spaces)
  qed
qed

end
