(* ===== verification/Server_Correct.thy ===== *)
theory Server_Correct
  imports Server_Boot Kernel_Props
begin

text \<open>
  What the server layer does to the tables below it: which part of the state each layer touches,
  and the ports and tasks a server holds after loading, starting and stopping.
\<close>

section \<open>Layers of the state\<close>

lemma kserver_fields_more:
  assumes "ktask.more s = ktask.more (s' :: 'a kserver_scheme)"
  shows "kservers s = kservers s'" "registry s = registry s'" "registry_count s = registry_count s'"
    "kmonitor s = kmonitor s'" "kmonitored s = kmonitored s'" "server_at a s = server_at a s'"
  using assms by (cases s, cases s', simp add: server_at_def)+

lemma kport_more_ktask: "kport.more s = kport.more (s' :: 'a ktask_scheme) \<Longrightarrow> ktask.more s = ktask.more s'"
  by (cases s, cases s', simp)

lemma ktask_more_updates [simp]:
  "ktask.more (upd_task t f s) = ktask.more s" "ktask.more (proc_log es s) = ktask.more s"
  "ktask.more (s\<lparr>mxwl_task_count := n\<rparr>) = ktask.more s" "ktask.more (s\<lparr>kclock := c\<rparr>) = ktask.more s"
  "ktask.more (s\<lparr>kthreads := h\<rparr>) = ktask.more s"
  "ktask.more (s\<lparr>kthreads := h, knext_thread := k\<rparr>) = ktask.more s"
  by (cases s, simp add: upd_task_def proc_log_def)+

lemma ktask_more_ports [simp]:
  "ktask.more (snd (mach_port_allocate right s)) = ktask.more s"
  "ktask.more (snd (mach_port_deallocate p s)) = ktask.more s"
  "ktask.more (snd (mach_port_destroy p s)) = ktask.more s"
  "ktask.more (deallocate_ports ps s) = ktask.more s"
  by (rule kport_more_ktask, simp)+

lemma create_more: "mxwl_task_create name s = (kr, out, s') \<Longrightarrow> ktask.more s' = ktask.more s"
  using ktask_more_ports(1) [of MACH_PORT_RIGHT_RECEIVE]
  by (auto simp: mxwl_task_create_def case_prod_unfold Let_def split: if_splits option.splits)

lemma terminate_more [simp]: "ktask.more (snd (mxwl_task_terminate t s)) = ktask.more s"
  by (auto simp: mxwl_task_terminate_def Let_def split: option.split)

lemma thread_create_more: "mxwl_thread_create t s = (kr, out, s') \<Longrightarrow> ktask.more s' = ktask.more s"
  by (auto simp: mxwl_thread_create_def kal_malloc_def Let_def split: if_splits option.splits)

lemma upd_server_below [simp]:
  "ports (upd_server a f s) = ports s" "kport_inv (upd_server a f s) = kport_inv s"
  "tasks (upd_server a f s) = tasks s" "task_inv (upd_server a f s) = task_inv s"
  "task_obj t (upd_server a f s) = task_obj t s" "kthreads (upd_server a f s) = kthreads s"
  by (auto simp: upd_server_def task_obj_def intro!: ports_cong kport_inv_cong tasks_cong task_inv_cong)

lemma kthreads_below [simp]:
  "ports (s\<lparr>kthreads := h\<rparr>) = ports s" "kport_inv (s\<lparr>kthreads := h\<rparr>) = kport_inv s"
  "tasks (s\<lparr>kthreads := h\<rparr>) = tasks s" "task_inv (s\<lparr>kthreads := h\<rparr>) = task_inv s"
  by (auto intro!: ports_cong kport_inv_cong tasks_cong task_inv_cong)

lemma set_state_eq: "set_state a st s = upd_server a (\<lambda>sv. sv\<lparr>sv_state := st\<rparr>) s"
  by (simp add: set_state_def mx_server_set_state_def)

lemma server_at_upd [simp]:
  "server_at b (upd_server a f s) =
     (if a = b \<and> kservers s a \<noteq> None then f (server_at a s) else server_at b s)"
  by (auto simp: server_at_def upd_server_def split: option.splits)

lemma kservers_upd: "kservers (upd_server a f s) = (kservers s)(a := map_option f (kservers s a))"
  by (simp add: upd_server_def)

lemma server_at_Some: "kservers s a = Some sv \<Longrightarrow> server_at a s = sv"
  by (simp add: server_at_def)

section \<open>Endpoints\<close>

lemma endpoint_create_correct:
  assumes "kport_inv s" "mx_ipc_server_endpoint_create (Some a) s = (kr, s')"
  shows "kport_inv s' \<and> tasks s' = tasks s \<and> task_inv s' = task_inv s \<and>
    (if kr = KERN_SUCCESS
     then \<exists>ep mgmt. ports s ep = None \<and> ports s mgmt = None \<and> ep \<noteq> mgmt \<and> ep \<noteq> MACH_PORT_NULL \<and>
       mgmt \<noteq> MACH_PORT_NULL \<and> ports s' = (ports s)(ep \<mapsto> [], mgmt \<mapsto> []) \<and>
       kservers s' = (kservers s)(a := map_option (\<lambda>sv. sv\<lparr>sv_endpoint := ep, sv_mgmt_port := mgmt\<rparr>) (kservers s a))
     else kr = KERN_FAILURE \<and> ports s' = ports s \<and> kservers s' = kservers s)"
proof -
  obtain ep s1 where 1: "mach_port_allocate MACH_PORT_RIGHT_RECEIVE s = (ep, s1)" by force
  obtain mgmt s2 where 2: "mach_port_allocate MACH_PORT_RIGHT_RECEIVE s1 = (mgmt, s2)" by force
  note al1 = allocate_correct [OF assms(1) 1]
  note al2 = allocate_correct [OF al1(1) 2]
  have m1: "kport.more s1 = kport.more s" using allocate_more [of MACH_PORT_RIGHT_RECEIVE s] 1 by simp
  have m2: "kport.more s2 = kport.more s" using allocate_more [of MACH_PORT_RIGHT_RECEIVE s1] 2 m1 by simp
  let ?d = "snd (mach_port_destroy ep s2)"
  have m3: "kport.more ?d = kport.more s" using m2 by simp
  note t = tasks_more [OF m1] tasks_more [OF m2] tasks_more [OF m3]
    kserver_fields_more(1) [OF kport_more_ktask [OF m1]] kserver_fields_more(1) [OF kport_more_ktask [OF m2]]
    kserver_fields_more(1) [OF kport_more_ktask [OF m3]]
  show ?thesis
  proof (cases "ep = MACH_PORT_NULL")
    case True
    with assms(2) 1 al1 t show ?thesis
      by (auto simp: mx_ipc_server_endpoint_create_def MACH_PORT_NULL_def split: if_splits)
  next
    case ep: False
    have p1: "ports s ep = None" "ports s1 = (ports s)(ep \<mapsto> [])"
      using al1 ep by (auto split: if_splits)
    show ?thesis
    proof (cases "mgmt = MACH_PORT_NULL")
      case True
      with al2 have "ports s2 = ports s1" by (auto simp: MACH_PORT_NULL_def split: if_splits)
      with destroy_removes [OF al2(1), of ep] p1 have "ports ?d = ports s" "kport_inv ?d" by (auto simp: fun_upd_idem)
      with assms(2) 1 2 ep True t show ?thesis
        by (auto simp: mx_ipc_server_endpoint_create_def)
    next
      case False
      with al2 p1 have "ports s mgmt = None" "ep \<noteq> mgmt" "ports s2 = (ports s)(ep \<mapsto> [], mgmt \<mapsto> [])"
        by (auto split: if_splits)
      moreover from assms(2) 1 2 ep False have "kr = KERN_SUCCESS"
        "s' = upd_server a (\<lambda>sv. sv\<lparr>sv_endpoint := ep, sv_mgmt_port := mgmt\<rparr>) s2"
        by (auto simp: mx_ipc_server_endpoint_create_def)
      ultimately show ?thesis
        using ep False t al2(1) p1
        by (simp add: kservers_upd) (rule exI [of _ ep], simp, rule exI [of _ mgmt], simp)
    qed
  qed
qed

lemma destroy_port_frame:
  fixes s :: "'a kserver_scheme" and p :: mach_port_t
  assumes "kport_inv s"
  defines "s' \<equiv> if p \<noteq> MACH_PORT_NULL then snd (mach_port_destroy p s) else s"
  shows "kport_inv s'" "ports s' = (ports s)(p := None)" "tasks s' = tasks s" "task_inv s' = task_inv s"
    "kservers s' = kservers s" "kthreads s' = kthreads s" "server_at a s' = server_at a s"
proof -
  have m: "kport.more s' = kport.more s" by (simp add: s'_def)
  show "kport_inv s'" "ports s' = (ports s)(p := None)"
    using destroy_removes [OF assms(1), of p] ports_null [of s] assms(1) by (auto simp: s'_def fun_upd_idem)
  show "tasks s' = tasks s" "task_inv s' = task_inv s"
    using tasks_more [OF m] by simp_all
  show "kservers s' = kservers s" "server_at a s' = server_at a s"
    using kserver_fields_more(1,6) [OF kport_more_ktask [OF m]] by simp_all
  show "kthreads s' = kthreads s"
    using ktask_fields_more(5) [OF m] .
qed

lemma endpoint_destroy_correct:
  assumes "kport_inv s"
  shows "let s' = mx_ipc_server_endpoint_destroy (Some a) s in
    kport_inv s' \<and> tasks s' = tasks s \<and> task_inv s' = task_inv s \<and>
    ports s' = (ports s)(sv_endpoint (server_at a s) := None, sv_mgmt_port (server_at a s) := None) \<and>
    kservers s' = (kservers s)(a := map_option (\<lambda>sv. sv\<lparr>sv_endpoint := MACH_PORT_NULL, sv_mgmt_port := MACH_PORT_NULL\<rparr>)
                     (kservers s a))"
proof -
  let ?ep = "sv_endpoint (server_at a s)" and ?mgmt = "sv_mgmt_port (server_at a s)"
  define s1 where "s1 = (if ?ep \<noteq> MACH_PORT_NULL then snd (mach_port_destroy ?ep s) else s)"
  define s2 where "s2 = (if ?mgmt \<noteq> MACH_PORT_NULL then snd (mach_port_destroy ?mgmt s1) else s1)"
  note 1 = destroy_port_frame(1-6) [OF assms, where p = ?ep, folded s1_def]
    destroy_port_frame(7) [OF assms, where p = ?ep and a = a, folded s1_def]
  note 2 = destroy_port_frame(1-6) [OF 1(1), where p = ?mgmt, folded s2_def]
  have "mx_ipc_server_endpoint_destroy (Some a) s =
      upd_server a (\<lambda>sv. sv\<lparr>sv_endpoint := MACH_PORT_NULL, sv_mgmt_port := MACH_PORT_NULL\<rparr>) s2"
    unfolding mx_ipc_server_endpoint_destroy_def Let_def option.case s1_def [symmetric] 1(7) s2_def [symmetric]
    by (rule refl)
  with 1 2 show ?thesis by (simp add: Let_def kservers_upd)
qed

section \<open>Loading\<close>

lemma only_bootstrap_port: "tk_port_count task = 0 \<Longrightarrow> task_port_set task = {tk_bootstrap_port task}"
  by (simp add: task_port_set_def)

lemma restrict_remove: "m |` (- {x}) = m(x := None)"
  by (auto simp: restrict_map_def)

text \<open>A thread of a live task.\<close>

lemma thread_create_result:
  assumes "task_inv s" "tasks s t = Some task" "mxwl_thread_create (Some t) s = (kr, out, s')"
  shows "if kr = KERN_SUCCESS
    then \<exists>th task'. out = Some th \<and> kthreads s' th \<noteq> None \<and> ports s' = ports s \<and>
      tasks s' = (tasks s)(t \<mapsto> task') \<and> tk_bootstrap_port task' = tk_bootstrap_port task \<and>
      tk_port_count task' = tk_port_count task \<and> tk_host_pid task' = tk_host_pid task
    else out = None \<and> ports s' = ports s \<and> tasks s' = tasks s"
proof -
  from assms(2) have t: "t < TASK_MAX" "tk_in_use (task_obj t s)" "task = task_obj t s"
    by (simp_all add: tasks_Some)
  define h where "h = s\<lparr>kclock := Suc (kclock s)\<rparr>"
  let ?n = "tk_thread_count task" and ?th = "knext_thread s"
  let ?f = "\<lambda>task. task\<lparr>tk_threads := (tk_threads task)[?n := Some ?th], tk_thread_count := ?n + 1\<rparr>"
  let ?g = "h\<lparr>kthreads := (kthreads s)(?th \<mapsto>
      \<lparr>th_id = int ?n, th_host_tid = - 1, th_active = True, th_suspended = False\<rparr>), knext_thread := Suc ?th\<rparr>"
  have "if THREAD_MAX \<le> ?n then (kr, out, s') = (KERN_NO_SPACE, None, s)
      else if \<not> host_malloc (khost s) (kclock s) then (kr, out, s') = (KERN_FAILURE, None, h)
      else (kr, out, s') = (KERN_SUCCESS, Some ?th, upd_task t ?f ?g)"
    using assms(3) unfolding mxwl_thread_create_def kal_malloc_def Let_def option.case t(3) [symmetric] prod.case h_def
    by (cases "THREAD_MAX \<le> ?n"; cases "host_malloc (khost s) (kclock s)") simp_all
  then consider "kr \<noteq> KERN_SUCCESS" "out = None" "s' = s \<or> s' = h"
    | "kr = KERN_SUCCESS" "out = Some ?th" "s' = upd_task t ?f ?g"
    by (simp split: if_splits)
  then show ?thesis
  proof cases
    case 1
    then show ?thesis by (auto simp: h_def more_only_ports)
  next
    case 2
    have g: "tasks ?g = tasks s" "task_obj t ?g = task" "length (mxwl_task_table ?g) = TASK_MAX"
      using t(3) task_inv_length [OF assms(1)] by (simp_all add: h_def more_only_ports) (simp add: task_obj_def)
    have "tasks s' = (tasks s)(t \<mapsto> ?f task)"
      using tasks_upd_task [OF g(3) t(1), of ?f] t g by (simp add: 2(3))
    moreover have "kthreads s' ?th \<noteq> None"
      by (simp add: 2(3))
    moreover have "ports s' = ports s"
      unfolding 2(3) by (auto simp: h_def intro!: ports_cong)
    ultimately show ?thesis using 2(1,2) by auto
  qed
qed

text \<open>Giving back the endpoint after a failure.\<close>

lemma fail_correct:
  assumes "kport_inv s" "task_inv s" "kservers s a = Some sv"
  shows "let s' = set_state a MX_SERVER_FAILED (mx_ipc_server_endpoint_destroy (Some a) s) in
    kport_inv s' \<and> task_inv s' \<and> tasks s' = tasks s \<and>
    ports s' = (ports s)(sv_endpoint sv := None, sv_mgmt_port sv := None) \<and>
    sv_state (server_at a s') = MX_SERVER_FAILED"
  using endpoint_destroy_correct [OF assms(1), of a] assms(2,3)
  by (simp add: Let_def set_state_eq server_at_Some)

lemma load_thread_correct:
  assumes inv: "kport_inv s" "task_inv s" and sv: "kservers s a = Some sv" "sv_task sv = Some t"
    and task: "tasks s t = Some task" "tk_port_count task = 0" and load: "load_thread a s = (kr, s')"
  shows "kport_inv s' \<and> task_inv s' \<and>
    (if kr = KERN_SUCCESS
     then \<exists>th task'. kthreads s' th \<noteq> None \<and> ports s' = ports s \<and> tasks s' = (tasks s)(t \<mapsto> task') \<and>
       tk_bootstrap_port task' = tk_bootstrap_port task \<and> tk_port_count task' = 0 \<and>
       tk_host_pid task' = tk_host_pid task \<and> kservers s' = (kservers s)(a \<mapsto> sv\<lparr>sv_thread := Some th\<rparr>)
     else ports s' = (ports s)(tk_bootstrap_port task := None, sv_endpoint sv := None, sv_mgmt_port sv := None) \<and>
       tasks s' = (tasks s)(t := None) \<and> sv_state (server_at a s') = MX_SERVER_FAILED)"
proof -
  obtain kr1 out1 s1 where e1: "mxwl_thread_create (Some t) s = (kr1, out1, s1)" by (metis prod_cases3)
  note m1 = kserver_fields_more [OF thread_create_more [OF e1]] and at = server_at_Some [OF sv(1)]
  note c1 = thread_create_result [OF inv(2) task(1) e1] and i1 = thread_create_inv [OF inv(2,1) task(1) e1]
  show ?thesis
  proof (cases "kr1 = KERN_SUCCESS")
    case True
    with c1 task obtain th task' where 2: "out1 = Some th" "kthreads s1 th \<noteq> None" "ports s1 = ports s"
      "tasks s1 = (tasks s)(t \<mapsto> task')" "tk_bootstrap_port task' = tk_bootstrap_port task"
      "tk_port_count task' = 0" "tk_host_pid task' = tk_host_pid task"
      by auto
    with load e1 True have "kr = KERN_SUCCESS" "s' = upd_server a (\<lambda>sv. sv\<lparr>sv_thread := Some th\<rparr>) s1"
      by (simp_all add: load_thread_def at sv(2))
    with 2 i1 m1(1) sv(1) show ?thesis by (auto simp: kservers_upd)
  next
    case False
    with c1 have 2: "out1 = None" "ports s1 = ports s" "tasks s1 = tasks s" by auto
    from terminate_correct [of s1 t task] i1 2(3) task obtain s2 where
      3: "mxwl_task_terminate (Some t) s1 = (KERN_SUCCESS, s2)" "task_inv s2" "kport_inv s2"
      "tasks s2 = (tasks s)(t := None)" "ports s2 = (ports s)(tk_bootstrap_port task := None)"
      using 2(2) by (auto simp: task_port_set_def restrict_map_def fun_eq_iff)
    have m2: "kservers s2 = kservers s"
      using kserver_fields_more(1) [OF terminate_more [of "Some t" s1]] m1(1) 3(1) by simp
    let ?s3 = "upd_server a (\<lambda>sv. sv\<lparr>sv_task := None\<rparr>) s2"
    from load e1 False 2(1) 3(1) m1(6) have
      "kr \<noteq> KERN_SUCCESS \<and> s' = set_state a MX_SERVER_FAILED (mx_ipc_server_endpoint_destroy (Some a) ?s3)"
      by (auto simp: load_thread_def at sv(2) Let_def)
    with fail_correct [of ?s3 a "sv\<lparr>sv_task := None\<rparr>"] 3 m2 sv(1) show ?thesis
      by (simp add: Let_def kservers_upd)
  qed
qed

text \<open>The task and thread that a server gets, with the bootstrap port of the task.\<close>

lemma load_task_correct:
  assumes inv: "kport_inv s" "task_inv s" and sv: "kservers s a = Some sv"
    and load: "load_task a s = (kr, s')" and ep: "sv_endpoint sv \<noteq> MACH_PORT_NULL"
  shows "kport_inv s' \<and> task_inv s' \<and>
    (if kr = KERN_SUCCESS
     then \<exists>bp t th task. kthreads s' th \<noteq> None \<and> ports s bp = None \<and> ports s' = (ports s)(bp \<mapsto> []) \<and>
       tasks s t = None \<and> tasks s' = (tasks s)(t \<mapsto> task) \<and>
       tk_bootstrap_port task = bp \<and> tk_port_count task = 0 \<and> tk_host_pid task = - 1 \<and>
       kservers s' = (kservers s)(a \<mapsto> sv\<lparr>sv_task := Some t, sv_thread := Some th\<rparr>)
     else ports s' = (ports s)(sv_endpoint sv := None, sv_mgmt_port sv := None) \<and>
       tasks s' = tasks s \<and> sv_state (server_at a s') = MX_SERVER_FAILED)"
proof -
  obtain kr1 out1 s1 where e1: "mxwl_task_create (Some (sv_name sv)) s = (kr1, out1, s1)" by (metis prod_cases3)
  note m1 = kserver_fields_more [OF create_more [OF e1]] and at = server_at_Some [OF sv]
  note c1 = create_correct [OF inv(2,1) e1]
  show ?thesis
  proof (cases out1)
    case None
    with c1 have 2: "kr1 \<noteq> KERN_SUCCESS" "task_inv s1" "kport_inv s1" "tasks s1 = tasks s" "ports s1 = ports s"
      by auto
    with load e1 None have "kr \<noteq> KERN_SUCCESS \<and> s' = set_state a MX_SERVER_FAILED (mx_ipc_server_endpoint_destroy (Some a) s1)"
      by (auto simp: load_task_def at)
    with fail_correct [OF 2(3,2), of a sv] 2 m1 sv show ?thesis
      by (simp add: Let_def)
  next
    case (Some t)
    let ?task = "\<lambda>bp. (fresh_task t (Some (sv_name sv)))\<lparr>tk_bootstrap_port := bp\<rparr>"
    from c1 Some obtain bp where 2: "kr1 = KERN_SUCCESS" "task_inv s1" "kport_inv s1" "tasks s t = None"
      "ports s bp = None" "ports s1 = (ports s)(bp \<mapsto> [])" "tasks s1 = (tasks s)(t \<mapsto> ?task bp)"
      by auto
    let ?s2 = "upd_server a (\<lambda>sv. sv\<lparr>sv_task := Some t\<rparr>) s1"
    have "load_thread a ?s2 = (kr, s')"
      using load e1 2(1) Some by (simp add: load_task_def at)
    from load_thread_correct [OF _ _ _ _ _ _ this, of "sv\<lparr>sv_task := Some t\<rparr>" t "?task bp"] 2 m1(1) sv ep
    show ?thesis
      by (auto simp: kservers_upd fresh_task_def zero_task_def fun_upd_idem split: if_splits)
  qed
qed

text \<open>What a loaded server holds: three ports, a task and a thread.\<close>

definition loaded ::
  "nat \<Rightarrow> mx_server \<Rightarrow> cstr \<Rightarrow> 'a kserver_scheme \<Rightarrow> 'a kserver_scheme \<Rightarrow> mach_port_t \<Rightarrow> mach_port_t \<Rightarrow> mach_port_t \<Rightarrow>
   nat \<Rightarrow> nat \<Rightarrow> mxwl_task \<Rightarrow> bool" where
  "loaded a sv path s s' ep mgmt bp t th task \<longleftrightarrow>
     distinct [ep, mgmt, bp] \<and> ports s ep = None \<and> ports s mgmt = None \<and> ports s bp = None \<and>
     ep \<noteq> MACH_PORT_NULL \<and> ports s' = (ports s)(ep \<mapsto> [], mgmt \<mapsto> [], bp \<mapsto> []) \<and>
     tasks s t = None \<and> tasks s' = (tasks s)(t \<mapsto> task) \<and> tk_bootstrap_port task = bp \<and>
     tk_port_count task = 0 \<and> tk_host_pid task = - 1 \<and> kthreads s' th \<noteq> None \<and>
     kservers s' = (kservers s)(a \<mapsto> sv\<lparr>sv_path := c_strlcpy MX_SERVER_PATH_MAX path,
       sv_state := MX_SERVER_LOADING, sv_endpoint := ep, sv_mgmt_port := mgmt, sv_task := Some t, sv_thread := Some th\<rparr>)"

lemma load_correct:
  assumes inv: "kport_inv s" "task_inv s" and sv: "kservers s a = Some sv"
    and load: "mx_loader_load (Some a) (Some path) s = (kr, s')"
  shows "kport_inv s' \<and> task_inv s' \<and>
    (if kr = KERN_SUCCESS then \<exists>ep mgmt bp t th task. loaded a sv path s s' ep mgmt bp t th task
     else ports s' = ports s \<and> tasks s' = tasks s \<and> sv_state (server_at a s') = MX_SERVER_FAILED)"
proof -
  define s1 where "s1 = set_state a MX_SERVER_LOADING (upd_server a (\<lambda>sv. sv\<lparr>sv_path := c_strlcpy MX_SERVER_PATH_MAX path\<rparr>) s)"
  let ?sv1 = "sv\<lparr>sv_path := c_strlcpy MX_SERVER_PATH_MAX path, sv_state := MX_SERVER_LOADING\<rparr>"
  have 1: "ports s1 = ports s" "tasks s1 = tasks s" "kport_inv s1" "task_inv s1"
    "kservers s1 = (kservers s)(a \<mapsto> ?sv1)"
    using inv sv by (simp_all add: s1_def set_state_eq kservers_upd)
  obtain kr2 s2 where e2: "mx_ipc_server_endpoint_create (Some a) s1 = (kr2, s2)" by force
  note 2 = endpoint_create_correct [OF 1(3) e2]
  show ?thesis
  proof (cases "kr2 = KERN_SUCCESS")
    case False
    with load e2 have "kr = kr2" "s' = set_state a MX_SERVER_FAILED s2"
      by (simp_all add: mx_loader_load_def s1_def)
    with 1 2 False show ?thesis by (auto simp: set_state_eq)
  next
    case True
    with 2 1 obtain ep mgmt where 3: "kport_inv s2" "task_inv s2" "tasks s2 = tasks s" "ports s ep = None"
      "ports s mgmt = None" "ep \<noteq> mgmt" "ep \<noteq> MACH_PORT_NULL" "ports s2 = (ports s)(ep \<mapsto> [], mgmt \<mapsto> [])"
      "kservers s2 = (kservers s)(a \<mapsto> ?sv1\<lparr>sv_endpoint := ep, sv_mgmt_port := mgmt\<rparr>)"
      by auto
    have "load_task a s2 = (kr, s')"
      using load e2 True by (simp add: mx_loader_load_def s1_def)
    note r = load_task_correct [OF 3(1,2) _ this, of "?sv1\<lparr>sv_endpoint := ep, sv_mgmt_port := mgmt\<rparr>"]
    have undo: "(ports s)(ep \<mapsto> [], mgmt \<mapsto> [], ep := None, mgmt := None) = ports s"
      using 3(4,5) by (auto simp: fun_eq_iff)
    show ?thesis
    proof (cases "kr = KERN_SUCCESS")
      case False
      with r 3 undo show ?thesis by simp
    next
      case ok: True
      have "kservers s2 a = Some (?sv1\<lparr>sv_endpoint := ep, sv_mgmt_port := mgmt\<rparr>)"
        "sv_endpoint (?sv1\<lparr>sv_endpoint := ep, sv_mgmt_port := mgmt\<rparr>) \<noteq> MACH_PORT_NULL"
        using 3 by simp_all
      from r [OF this] ok obtain bp t th task where 4: "kport_inv s'" "task_inv s'" "kthreads s' th \<noteq> None"
        "ports s2 bp = None" "ports s' = (ports s2)(bp \<mapsto> [])" "tasks s2 t = None" "tasks s' = (tasks s2)(t \<mapsto> task)"
        "tk_bootstrap_port task = bp" "tk_port_count task = 0" "tk_host_pid task = - 1"
        "kservers s' = (kservers s2)(a \<mapsto> ?sv1\<lparr>sv_endpoint := ep, sv_mgmt_port := mgmt, sv_task := Some t, sv_thread := Some th\<rparr>)"
        by (simp only: refl if_True simp_thms) blast
      then have "loaded a sv path s s' ep mgmt bp t th task"
        using 3 by (auto simp: loaded_def split: if_splits)
      with 4(1,2) ok show ?thesis by (simp only: refl if_True simp_thms) blast
    qed
  qed
qed

section \<open>Starting\<close>

lemma start_correct:
  assumes inv: "kport_inv s" "task_inv s" and sv: "kservers s a = Some sv" "sv_task sv = Some t" "tasks s t = Some task"
  shows "\<exists>s' task'. mx_loader_start (Some a) s = (KERN_SUCCESS, s') \<and> kport_inv s' \<and> task_inv s' \<and>
    ports s' = ports s \<and> tasks s' = (tasks s)(t \<mapsto> task') \<and> tk_bootstrap_port task' = sv_endpoint sv \<and>
    tk_port_count task' = tk_port_count task \<and> tk_host_pid task' = tk_host_pid task \<and>
    kthreads s' = kthreads s \<and> kservers s' = (kservers s)(a \<mapsto> sv\<lparr>sv_state := MX_SERVER_STARTING\<rparr>)"
proof -
  have t: "t < TASK_MAX" "task = task_obj t s" "tk_in_use task" "task_ok t task"
    using sv(3) inv(2) by (auto simp: tasks_Some task_inv_def)
  let ?sv = "sv\<lparr>sv_state := MX_SERVER_STARTING\<rparr>"
  define es where "es = [Setenv (cstr_of ''MXWL_SERVER_PORT'') (c_snprintf 32 (dec_int (sv_endpoint sv))),
      Setenv (cstr_of ''MXWL_SERVER_NAME'') (sv_name sv),
      Setenv (cstr_of ''MXWL_SERVER_ID'') (c_snprintf 32 (dec_int (sv_endpoint sv)))]"
  let ?f = "\<lambda>task. task\<lparr>tk_bootstrap_port := sv_endpoint sv\<rparr>"
  let ?g = "\<lambda>task. task\<lparr>tk_binary_path := c_strlcpy TASK_PATH_SIZE (sv_path sv)\<rparr>"
  define s1 where "s1 = set_state a MX_SERVER_STARTING s"
  define s2 where "s2 = proc_log es (upd_task t ?f s1)"
  define s3 where "s3 = (if sv_path sv \<noteq> [] then upd_task t ?g s2 else s2)"
  have 1: "kport_inv s1" "task_inv s1" "ports s1 = ports s" "tasks s1 = tasks s" "task_obj t s1 = task"
    "kthreads s1 = kthreads s" "kservers s1 = (kservers s)(a \<mapsto> ?sv)" "server_at a s1 = ?sv"
    using inv sv t by (simp_all add: s1_def set_state_eq kservers_upd server_at_Some)
  have def': "mx_loader_start (Some a) s = (KERN_SUCCESS, s3)"
    using sv 1(8) by (simp add: mx_loader_start_def server_at_Some s1_def [symmetric] s3_def s2_def es_def Let_def)
  have upd: "task_inv (upd_task t f x)" "tasks (upd_task t f x) = (tasks x)(t \<mapsto> f (task_obj t x))"
    if "task_inv x" "task_ok t (f (task_obj t x))" "tk_in_use (f (task_obj t x))" "tk_in_use (task_obj t x)"
    for f and x :: "'a kserver_scheme"
    using that t(1) task_inv_length [OF that(1)] by (simp_all add: tasks_upd_task task_inv_upd_same)
  have ok: "task_ok t (?f task)" "task_ok t (?g (?f task))"
    using t(4) by (simp_all add: task_ok_def)
  have 2: "task_inv s2" "tasks s2 = (tasks s)(t \<mapsto> ?f task)" "task_obj t s2 = ?f task" "kport_inv s2" "ports s2 = ports s"
    "kthreads s2 = kthreads s" "kservers s2 = kservers s1"
    using upd [OF 1(2), of ?f] ok(1) t 1 task_inv_length [OF 1(2)] kserver_fields_more(1) [of s2 s1]
    by (simp_all add: s2_def proc_log_def [of es "upd_task t ?f s1", THEN arg_cong [where f = kthreads]])
  have 3: "task_inv s3" "kport_inv s3" "ports s3 = ports s" "kthreads s3 = kthreads s" "kservers s3 = kservers s1"
    "tasks s3 = (tasks s)(t \<mapsto> if sv_path sv \<noteq> [] then ?g (?f task) else ?f task)"
    using upd [OF 2(1), of ?g] ok(2) t 2 kserver_fields_more(1) [of s3 s2] by (simp_all add: s3_def)
  show ?thesis
    using def' 3 1(7) by (auto intro!: exI [of _ s3])
qed

text \<open>Waiting alone changes nothing.\<close>

lemma wait_loop_idle: "wait_loop id a waited timeout s = Some (kr, s') \<Longrightarrow> s' = s"
proof (induction "nat (timeout - waited)" arbitrary: waited rule: less_induct)
  case less
  from less(2) show ?case
    using less(1) [of "waited + 10"] by (subst (asm) wait_loop.simps) (auto split: if_splits)
qed

lemma wait_loop_returns: "timeout + 9 \<le> INT_MAX \<Longrightarrow> \<exists>kr s'. wait_loop kal_usleep a waited timeout s = Some (kr, s')"
proof (induction kal_usleep a waited timeout s rule: wait_loop.induct)
  case (1 kal_usleep a waited timeout s)
  then show ?case by (subst wait_loop.simps) auto
qed

lemma wait_ready_returns:
  "timeout + 9 \<le> INT_MAX \<Longrightarrow> \<exists>kr s'. mx_loader_wait_ready kal_usleep server timeout s = Some (kr, s')"
  using wait_loop_returns by (auto simp: mx_loader_wait_ready_def split: option.split)

section \<open>Stopping\<close>

lemma loader_stop_quiet:
  assumes "kservers s a = Some sv" "sv_task sv = Some t" "tk_host_pid (task_obj t s) \<le> 0"
    "sv_state sv \<notin> {MX_SERVER_STOPPED, MX_SERVER_STOPPING}"
  shows "snd (mx_loader_stop (Some a) s) = set_state a MX_SERVER_STOPPED (set_state a MX_SERVER_STOPPING s)"
  using assms by (simp add: mx_loader_stop_def server_at_Some set_state_eq Let_def)

lemma stop_correct:
  assumes inv: "kport_inv s" "task_inv s" and sv: "kservers s a = Some sv" "sv_task sv = Some t" "sv_thread sv = Some th"
    and state: "sv_state sv \<notin> {MX_SERVER_STOPPED, MX_SERVER_STOPPING}"
    and task: "tasks s t = Some task" "tk_port_count task = 0" "tk_host_pid task \<le> 0" and th: "kthreads s th \<noteq> None"
  shows "\<exists>s'. mx_manager_stop_server (Some a) s = Some (KERN_SUCCESS, s') \<and> kport_inv s' \<and> task_inv s' \<and>
    ports s' = (ports s)(tk_bootstrap_port task := None, sv_endpoint sv := None, sv_mgmt_port sv := None) \<and>
    tasks s' = (tasks s)(t := None) \<and>
    kservers s' = (kservers s)(a \<mapsto> sv\<lparr>sv_state := MX_SERVER_STOPPED, sv_task := None, sv_thread := None,
      sv_endpoint := MACH_PORT_NULL, sv_mgmt_port := MACH_PORT_NULL\<rparr>)"
proof -
  define s1 where "s1 = set_state a MX_SERVER_STOPPED (set_state a MX_SERVER_STOPPING s)"
  let ?sv1 = "sv\<lparr>sv_state := MX_SERVER_STOPPED\<rparr>"
  have 1: "kport_inv s1" "task_inv s1" "ports s1 = ports s" "tasks s1 = tasks s" "kthreads s1 = kthreads s"
    "kservers s1 = (kservers s)(a \<mapsto> ?sv1)"
    using inv sv by (simp_all add: s1_def set_state_eq kservers_upd)
  have at1: "server_at a s1 = ?sv1" using 1(6) by (simp add: server_at_def)
  have stop: "snd (mx_loader_stop (Some a) s) = s1" "snd (mx_loader_stop (Some a) s1) = s1"
    using loader_stop_quiet [OF sv(1,2) _ state] task at1
    by (simp_all add: tasks_Some s1_def [symmetric]) (simp add: mx_loader_stop_def)
  define s2 where "s2 = upd_server a (\<lambda>sv. sv\<lparr>sv_thread := None\<rparr>) (s1\<lparr>kthreads := (kthreads s)(th := None)\<rparr>)"
  have 2: "kport_inv s2" "task_inv s2" "ports s2 = ports s" "tasks s2 = tasks s"
    "kservers s2 = (kservers s)(a \<mapsto> ?sv1\<lparr>sv_thread := None\<rparr>)"
    using 1 by (simp_all add: s2_def kservers_upd)
  have "tasks s2 t = Some task" using task(1) 2(4) by simp
  from terminate_correct [OF 2(2,1) this] obtain s3 where
    3: "mxwl_task_terminate (Some t) s2 = (KERN_SUCCESS, s3)" "task_inv s3" "kport_inv s3"
    "tasks s3 = (tasks s)(t := None)" "ports s3 = (ports s)(tk_bootstrap_port task := None)"
    unfolding 2(3,4) only_bootstrap_port [OF task(2)] restrict_remove by blast
  have m3: "kservers s3 = kservers s2"
    using kserver_fields_more(1) [OF terminate_more [of "Some t" s2]] 3(1) by simp
  define s4 where "s4 = upd_server a (\<lambda>sv. sv\<lparr>sv_task := None\<rparr>) s3"
  have 4: "kport_inv s4" "task_inv s4" "tasks s4 = tasks s3" "ports s4 = ports s3"
    "kservers s4 = (kservers s)(a \<mapsto> ?sv1\<lparr>sv_thread := None, sv_task := None\<rparr>)"
    using 3 2(5) m3 by (simp_all add: s4_def kservers_upd)
  let ?s5 = "set_state a MX_SERVER_STOPPED (mx_ipc_server_endpoint_destroy (Some a) s4)"
  have at2: "server_at a s2 = ?sv1\<lparr>sv_thread := None\<rparr>"
    using 2(5) by (simp add: server_at_def)
  have "mx_loader_unload (Some a) s1 = Some (KERN_SUCCESS, ?s5)"
    using th 1(5) sv at1 at2 3(1)
    by (auto simp: mx_loader_unload_def stop Let_def mxwl_thread_terminate_def s2_def [symmetric] s4_def)
  then have "mx_manager_stop_server (Some a) s = Some (KERN_SUCCESS, ?s5)"
    using sv(1) state by (simp add: mx_manager_stop_server_def stop server_at_Some Let_def)
  moreover have order: "sv\<lparr>sv_thread := None, sv_task := None, sv_endpoint := e, sv_mgmt_port := m, sv_state := st\<rparr> =
      sv\<lparr>sv_state := st, sv_task := None, sv_thread := None, sv_endpoint := e, sv_mgmt_port := m\<rparr>" for e m st
    by (cases sv) simp
  moreover have "server_at a s4 = ?sv1\<lparr>sv_thread := None, sv_task := None\<rparr>"
    using 4(5) by (simp add: server_at_def)
  ultimately show ?thesis
    using endpoint_destroy_correct [OF 4(1), of a] 4 3
    by (simp add: Let_def set_state_eq kservers_upd order)
qed

section \<open>A life of a server\<close>

text \<open>Starting a server that has a path, and stopping it: the port that the task got when it was
  made stays behind.\<close>

lemma start_loaded:
  assumes "kport_inv s" "task_inv s" "kservers s a = Some sv" "sv_path sv \<noteq> []"
    and "mx_manager_start_server id (Some a) s = Some (KERN_SUCCESS, s')"
  shows "\<exists>ep mgmt bp t th task s1. loaded a sv (sv_path sv) s s1 ep mgmt bp t th task \<and> kport_inv s1 \<and> task_inv s1 \<and>
    (\<exists>s2. mx_loader_start (Some a) s1 = (KERN_SUCCESS, s2) \<and> (\<exists>kr. mx_loader_wait_ready id (Some a) 5000 s2 = Some (kr, s')))"
proof -
  obtain kr s1 where 1: "mx_loader_load (Some a) (Some (sv_path sv)) s = (kr, s1)" by force
  note c = load_correct [OF assms(1,2,3) 1]
  have "kr = KERN_SUCCESS"
    using assms(3-5) 1 by (auto simp: mx_manager_start_server_def server_at_Some split: if_splits)
  with c obtain ep mgmt bp t th task where l: "loaded a sv (sv_path sv) s s1 ep mgmt bp t th task"
    "kport_inv s1" "task_inv s1" by auto
  let ?sv = "sv\<lparr>sv_path := c_strlcpy MX_SERVER_PATH_MAX (sv_path sv), sv_state := MX_SERVER_LOADING,
    sv_endpoint := ep, sv_mgmt_port := mgmt, sv_task := Some t, sv_thread := Some th\<rparr>"
  have "kservers s1 a = Some ?sv" "sv_task ?sv = Some t" "tasks s1 t = Some task"
    using l(1) by (simp_all add: loaded_def)
  from start_correct [OF l(2,3) this] obtain s2 where "mx_loader_start (Some a) s1 = (KERN_SUCCESS, s2)"
    by blast
  with l assms(3-5) 1 \<open>kr = KERN_SUCCESS\<close> show ?thesis
    by (auto simp: mx_manager_start_server_def server_at_Some Option.bind_eq_Some_conv) blast
qed

lemma start_stop_leaks:
  assumes inv: "kport_inv s" "task_inv s" and sv: "kservers s a = Some sv" "sv_path sv \<noteq> []"
    and start: "mx_manager_start_server id (Some a) s = Some (KERN_SUCCESS, s')"
  shows "sv_state (server_at a s') = MX_SERVER_STARTING \<and>
    (\<exists>s'' bp. mx_manager_stop_server (Some a) s' = Some (KERN_SUCCESS, s'') \<and> kport_inv s'' \<and> task_inv s'' \<and>
      ports s bp = None \<and> ports s'' = (ports s)(bp \<mapsto> []) \<and> tasks s'' = tasks s)"
proof -
  from start_loaded [OF inv sv start] obtain ep mgmt bp t th task s1 s2 kr where
    l: "loaded a sv (sv_path sv) s s1 ep mgmt bp t th task" "kport_inv s1" "task_inv s1"
    and st: "mx_loader_start (Some a) s1 = (KERN_SUCCESS, s2)" "mx_loader_wait_ready id (Some a) 5000 s2 = Some (kr, s')"
    by blast
  note l1 = l(1) [unfolded loaded_def]
  let ?sv = "sv\<lparr>sv_path := c_strlcpy MX_SERVER_PATH_MAX (sv_path sv), sv_state := MX_SERVER_LOADING,
    sv_endpoint := ep, sv_mgmt_port := mgmt, sv_task := Some t, sv_thread := Some th\<rparr>"
  have "kservers s1 a = Some ?sv" "sv_task ?sv = Some t" "tasks s1 t = Some task"
    using l1 by simp_all
  from start_correct [OF l(2,3) this] st(1) obtain task' where
    2: "kport_inv s2" "task_inv s2" "ports s2 = ports s1" "tasks s2 = (tasks s1)(t \<mapsto> task')"
    "tk_bootstrap_port task' = ep" "tk_port_count task' = tk_port_count task" "tk_host_pid task' = tk_host_pid task"
    "kthreads s2 = kthreads s1" "kservers s2 = (kservers s1)(a \<mapsto> ?sv\<lparr>sv_state := MX_SERVER_STARTING\<rparr>)"
    by auto
  have at2: "server_at a s2 = ?sv\<lparr>sv_state := MX_SERVER_STARTING\<rparr>"
    using 2(9) by (simp add: server_at_def)
  have s': "s' = s2"
    using st(2) at2 by (auto simp: mx_loader_wait_ready_def dest: wait_loop_idle)
  have "\<exists>s''. mx_manager_stop_server (Some a) s2 = Some (KERN_SUCCESS, s'') \<and> kport_inv s'' \<and> task_inv s'' \<and>
      ports s'' = (ports s2)(ep := None, ep := None, mgmt := None) \<and> tasks s'' = (tasks s2)(t := None)"
    using stop_correct [OF 2(1,2), of a "?sv\<lparr>sv_state := MX_SERVER_STARTING\<rparr>" t th task'] 2 l1 by auto
  moreover have "(ports s2)(ep := None, ep := None, mgmt := None) = (ports s)(bp \<mapsto> [])"
    "(tasks s2)(t := None) = tasks s"
    using l1 2(3,4) by (auto simp: fun_eq_iff)
  moreover have "ports s bp = None" using l1 by simp
  ultimately show ?thesis
    using at2 unfolding s' by auto
qed

end
