(* ===== verification/Server_Ipc_Correct.thy ===== *)
theory Server_Ipc_Correct
  imports Server_Correct
begin

text \<open>
  What messages between servers come to: the buffer \<^verbatim>\<open>mx_msg_create\<close> makes, what a send leaves in
  the caller's buffer and in the queue, and what an RPC returns.
\<close>

section \<open>Layers of the state\<close>

lemma msg_send_more: "mach_msg_send p msg sz s = Some (kr, msg', s') \<Longrightarrow> kport.more s' = kport.more s"
  by (auto simp: mach_msg_send_def Option.bind_eq_Some_conv queue_message_more split: if_splits)

lemma call_monitor_below [simp]:
  "ports (call_monitor m s) = ports s" "kport_inv (call_monitor m s) = kport_inv s"
  "khost (call_monitor m s) = khost s" "kclock (call_monitor m s) = kclock s"
  "kservers (call_monitor m s) = kservers s" "registry (call_monitor m s) = registry s"
  by (auto simp: call_monitor_def intro!: ports_cong kport_inv_cong)

section \<open>Messages\<close>

text \<open>A message that \<^verbatim>\<open>mx_msg_validate\<close> accepts, in a buffer as long as it says.\<close>

definition mx_valid :: "msg_buf \<Rightarrow> bool" where
  "mx_valid m \<longleftrightarrow>
     mx_msg_validate (Some m) = Some KERN_SUCCESS \<and>
     (\<exists>size. rd32 m MXM_PAYLOAD_SIZE = Some size \<and> size \<le> MX_MSG_MAX_PAYLOAD \<and>
        length m = MX_MSG_HEADER_SIZE + unat size)"

definition mx_size :: "msg_buf \<Rightarrow> uint32" where
  "mx_size m = of_nat (length m)"

lemma mx_valid_total:
  assumes "mx_valid m" "rd32 m' MXM_PAYLOAD_SIZE = rd32 m MXM_PAYLOAD_SIZE"
  shows "mx_msg_total_size (Some m') = Some (mx_size m)" "unat (mx_size m) = length m"
    "24 \<le> length m" "length m \<le> 24 + 65536"
proof -
  from assms obtain size where size: "rd32 m MXM_PAYLOAD_SIZE = Some size" "size \<le> MX_MSG_MAX_PAYLOAD"
    "length m = MX_MSG_HEADER_SIZE + unat size"
    by (auto simp: mx_valid_def)
  from size(2) have le: "unat size \<le> 65536"
    by (simp add: word_le_nat_alt MX_MSG_MAX_PAYLOAD_def)
  show "mx_msg_total_size (Some m') = Some (mx_size m)"
    using assms(2) size by (simp add: mx_msg_total_size_def mx_size_def)
  show "24 \<le> length m" "length m \<le> 24 + 65536"
    using size(3) le by (simp_all add: MX_MSG_HEADER_SIZE_def)
  then show "unat (mx_size m) = length m"
    by (simp add: mx_size_def unat_of_nat take_bit_nat_eq_self)
qed

section \<open>Sending\<close>

text \<open>A server that can be sent to.\<close>

definition reachable_server :: "nat \<Rightarrow> mx_server \<Rightarrow> msg_buf list \<Rightarrow> 'a kserver_scheme \<Rightarrow> bool" where
  "reachable_server a sv ms s \<longleftrightarrow>
     kservers s a = Some sv \<and> sv_state sv \<in> {MX_SERVER_READY, MX_SERVER_WAITING} \<and>
     ports s (sv_endpoint sv) = Some ms \<and> length ms < MACH_PORT_QUEUE_MAX"

lemma server_send_correct:
  assumes "kport_inv s" "reachable_server a sv ms s" "mx_valid m" "host_malloc (khost s) (kclock s)"
  shows "\<exists>m' s'. mx_server_send (Some a) (Some m) s = Some (KERN_SUCCESS, Some m', s') \<and> kport_inv s' \<and>
    ports s' = (ports s)(sv_endpoint sv \<mapsto> ms @ [m']) \<and> kservers s' = kservers s \<and>
    rd32 m' MXM_SENDER = Some (mx_size m) \<and> rd32 m' MXM_DESTINATION = Some (word_of_int (sv_endpoint sv)) \<and>
    drop 8 m' = drop 8 m \<and> length m' = length m"
proof -
  from assms(2) have sv: "kservers s a = Some sv" "sv_state sv \<in> {MX_SERVER_READY, MX_SERVER_WAITING}"
    "ports s (sv_endpoint sv) = Some ms" "length ms < MACH_PORT_QUEUE_MAX"
    by (simp_all add: reachable_server_def)
  note tot = mx_valid_total [OF assms(3)]
  obtain m1 where w: "wr32 m MXM_DESTINATION (word_of_int (sv_endpoint sv)) = Some m1"
    using wr32_Some [of MXM_DESTINATION m] tot(3) [OF refl] by (auto simp: MXM_DESTINATION_def)
  have m1: "length m1 = length m" "drop 8 m1 = drop 8 m" "rd32 m1 MXM_PAYLOAD_SIZE = rd32 m MXM_PAYLOAD_SIZE"
    using wr32_length [OF w] drop_wr32 [OF w, of 8] rd32_wr32_other [OF w, of MXM_PAYLOAD_SIZE]
    by (simp_all add: mxm_offsets)
  let ?s1 = "call_monitor m1 s"
  have "kport_inv ?s1" "ports ?s1 (sv_endpoint sv) = Some ms" "8 \<le> length m1" "unat (mx_size m) \<le> length m1"
    using assms(1) sv(3) m1(1) tot(2,3) [OF refl] by simp_all
  from send_correct [OF this(1,2) sv(4) this(3,4)] obtain m' s' where
    send: "mach_msg_send (sv_endpoint sv) m1 (mx_size m) ?s1 = Some (KERN_SUCCESS, m', s')"
    "sent_header (sv_endpoint sv) (mx_size m) m1 m'" "kport_inv s'"
    "ports s' = (ports s)(sv_endpoint sv \<mapsto> ms @ [take (unat (mx_size m)) m'])"
    using assms(4) by auto
  have len: "length m' = length m"
    using send(2) m1(1) by (simp add: sent_header_def)
  have "sv_endpoint sv \<noteq> MACH_PORT_NULL"
    using sv(3) ports_null [of s] by auto
  moreover have "mx_msg_validate (Some m) = Some KERN_SUCCESS"
    using assms(3) by (simp add: mx_valid_def)
  ultimately have "mx_server_send (Some a) (Some m) s = Some (KERN_SUCCESS, Some m', s')"
    using sv(1,2) w send(1) tot(1) [OF m1(3)] by (auto simp: mx_server_send_def Let_def)
  moreover have "kservers s' = kservers s"
    using kserver_fields_more(1) [OF kport_more_ktask [OF msg_send_more [OF send(1)]]] by simp
  ultimately show ?thesis
    using send(2-4) m1(1,2) len tot(2) [OF refl]
    by (auto simp: sent_header_def mxm_offsets msgh_offsets)
qed

text \<open>Setting the flags of a message keeps it valid.\<close>

lemma mx_valid_flags:
  assumes "mx_valid m" "wr32 m MXM_FLAGS w = Some m1"
  shows "mx_valid m1" "length m1 = length m"
proof -
  note other = rd32_wr32_other [OF assms(2)]
  have same: "rd32 m1 MXM_TYPE = rd32 m MXM_TYPE" "rd32 m1 MXM_PAYLOAD_SIZE = rd32 m MXM_PAYLOAD_SIZE"
    "rd32 m1 MXM_SENDER = rd32 m MXM_SENDER" "rd32 m1 MXM_DESTINATION = rd32 m MXM_DESTINATION"
    using other by (simp_all add: mxm_offsets)
  show len: "length m1 = length m"
    by (rule wr32_length [OF assms(2)])
  show "mx_valid m1"
    using assms(1) unfolding mx_valid_def mx_msg_validate_def option.case same len .
qed

section \<open>The reply of an RPC\<close>

lemma rpc_echo:
  assumes "kport_inv s" "reachable_server a sv [] s" "mx_valid req" "host_malloc (khost s) (kclock s)"
    and "length reply = 24 + 65536"
  shows "\<exists>req' s'. mx_server_rpc kal_poll (Some a) (Some req) (Some reply) timeout_ms s =
      Some (KERN_SUCCESS, Some req', Some (req' @ drop (length req) reply), s') \<and>
    ports s' = ports s \<and> length req' = length req \<and>
    drop MX_MSG_HEADER_SIZE req' = drop MX_MSG_HEADER_SIZE req \<and> rd32 req' MXM_SENDER = Some (mx_size req)"
proof -
  have len: "24 \<le> length req" "length req \<le> 24 + 65536" "unat (mx_size req) = length req"
    using mx_valid_total [OF assms(3) refl] by blast+
  obtain flags where fl: "rd32 req MXM_FLAGS = Some flags"
    using rd32_Some [of MXM_FLAGS req] len(1) by (auto simp: MXM_FLAGS_def)
  obtain r1 where w: "wr32 req MXM_FLAGS (flags OR MX_MSG_FLAG_EXPECT_REPLY) = Some r1"
    using wr32_Some [of MXM_FLAGS req] len(1) by (auto simp: MXM_FLAGS_def)
  note v1 = mx_valid_flags [OF assms(3) w]
  have d1: "drop MX_MSG_HEADER_SIZE r1 = drop MX_MSG_HEADER_SIZE req"
    using drop_wr32 [OF w, of MX_MSG_HEADER_SIZE] by (simp add: mxm_offsets)
  from server_send_correct [OF assms(1,2) v1(1) assms(4)] obtain r2 s1 where
    send: "mx_server_send (Some a) (Some r1) s = Some (KERN_SUCCESS, Some r2, s1)" "kport_inv s1"
    "ports s1 = (ports s)(sv_endpoint sv \<mapsto> [r2])" "kservers s1 = kservers s"
    "rd32 r2 MXM_SENDER = Some (mx_size req)" "drop 8 r2 = drop 8 r1" "length r2 = length req"
    using v1(2) by (auto simp: mx_size_def)
  have "mx_size req \<le> of_nat MX_MSG_HEADER_SIZE + MX_MSG_MAX_PAYLOAD"
    unfolding word_le_nat_alt len(3) using len(2) by (simp add: MX_MSG_HEADER_SIZE_def MX_MSG_MAX_PAYLOAD_def)
  then have min: "min (mx_size req) (of_nat MX_MSG_HEADER_SIZE + MX_MSG_MAX_PAYLOAD) = mx_size req"
    by (simp add: min_absorb1)
  have "rd32 r2 MSGH_SIZE = Some (mx_size req)"
    using send(5) by (simp add: mxm_offsets msgh_offsets)
  from receive_ready [OF send(2) _ this, of "sv_endpoint sv" "[]" "of_nat MX_MSG_HEADER_SIZE + MX_MSG_MAX_PAYLOAD" reply]
  obtain s2 where rcv: "mach_msg_receive kal_poll (sv_endpoint sv) reply (of_nat MX_MSG_HEADER_SIZE + MX_MSG_MAX_PAYLOAD)
      timeout_ms s1 = Some (KERN_SUCCESS, r2 @ drop (length req) reply, s2)"
    "ports s2 = (ports s1)(sv_endpoint sv \<mapsto> [])"
    using send(3,7) len assms(5) unfolding min len(3) by auto
  have "ports s2 = ports s"
    using rcv(2) send(3) assms(2) by (simp add: reachable_server_def fun_upd_idem)
  moreover have "drop MX_MSG_HEADER_SIZE r2 = drop MX_MSG_HEADER_SIZE req"
    using arg_cong [OF send(6), of "drop 16"] d1 by (simp add: MX_MSG_HEADER_SIZE_def)
  moreover have "mx_server_rpc kal_poll (Some a) (Some req) (Some reply) timeout_ms s =
      Some (KERN_SUCCESS, Some r2, Some (r2 @ drop (length req) reply), s2)"
    using fl w send(1,4) rcv(1) assms(2) by (simp add: mx_server_rpc_def reachable_server_def)
  ultimately show ?thesis
    using send(5,7) by auto
qed

section \<open>Notifications\<close>

text \<open>The message \<^verbatim>\<open>mx_msg_create\<close> makes has the sender it is given.\<close>

lemma create_sender:
  assumes "mx_msg_create True sender destination msg_id type flags payload psize s = Some (KERN_SUCCESS, Some m, s')"
  shows "rd32 m MXM_SENDER = Some (word_of_int sender)" "rd32 m MXM_TYPE = Some type"
    "rd32 m MXM_PAYLOAD_SIZE = Some psize" "24 \<le> length m" "ports s' = ports s" "kservers s' = kservers (s :: 'a kserver_scheme)"
proof -
  from assms obtain m1 m2 m3 m4 m5 m6 where
    w: "wr32 (c_zeroed (MX_MSG_HEADER_SIZE + unat psize)) MXM_SENDER (word_of_int sender) = Some m1"
    "wr32 m1 MXM_DESTINATION (word_of_int destination) = Some m2" "wr32 m2 MXM_ID msg_id = Some m3"
    "wr32 m3 MXM_TYPE type = Some m4" "wr32 m4 MXM_PAYLOAD_SIZE psize = Some m5" "wr32 m5 MXM_FLAGS flags = Some m6"
    and m: "(case payload of None \<Rightarrow> Some m6
       | Some bytes \<Rightarrow> if 0 < psize then put_payload m6 bytes (unat psize) else Some m6) = Some m"
    and s': "s' = snd (kal_malloc s)"
    by (auto simp: mx_msg_create_def Option.bind_eq_Some_conv case_prod_unfold Let_def split: if_splits)
  note len = w [THEN wr32_length]
  have l6: "length m6 = MX_MSG_HEADER_SIZE + unat psize"
    using len by (simp add: c_zeroed_def)
  have hdr: "rd32 m6 MXM_SENDER = Some (word_of_int sender)" "rd32 m6 MXM_TYPE = Some type"
    "rd32 m6 MXM_PAYLOAD_SIZE = Some psize"
    using rd32_wr32_same [OF w(1)] rd32_wr32_same [OF w(4)] rd32_wr32_same [OF w(5)]
      rd32_wr32_other [OF w(2), of MXM_SENDER] rd32_wr32_other [OF w(3), of MXM_SENDER]
      rd32_wr32_other [OF w(4), of MXM_SENDER] rd32_wr32_other [OF w(5)] rd32_wr32_other [OF w(6)]
    by (simp_all add: mxm_offsets)
  have "m = m6 \<or> (\<exists>body. m = take MX_MSG_HEADER_SIZE m6 @ body)"
    using m by (auto simp: put_payload_def split: option.splits if_splits)
  then have "rd32 m off = rd32 m6 off" if "off + 4 \<le> 24" for off
  proof
    assume "\<exists>body. m = take MX_MSG_HEADER_SIZE m6 @ body"
    then obtain body where m: "m = take 24 m6 @ body" by (auto simp: MX_MSG_HEADER_SIZE_def)
    have "24 \<le> length m6" using l6 by (simp add: MX_MSG_HEADER_SIZE_def)
    with that show ?thesis unfolding m by (simp add: rd32_def nth_append)
  qed simp
  then show "rd32 m MXM_SENDER = Some (word_of_int sender)" "rd32 m MXM_TYPE = Some type"
    "rd32 m MXM_PAYLOAD_SIZE = Some psize"
    using hdr by (simp_all add: mxm_offsets)
  show "24 \<le> length m"
    using \<open>m = m6 \<or> _\<close> l6 by (auto simp: MX_MSG_HEADER_SIZE_def)
  show "ports s' = ports s" "kservers s' = kservers s"
    by (simp_all add: s' kal_malloc_def)
qed

lemma create_bounds:
  "mx_msg_create True sender destination msg_id type flags payload psize s = Some (KERN_SUCCESS, out, s') \<Longrightarrow>
   out \<noteq> None \<and> MX_MSG_SYNC \<le> type \<and> type \<le> MX_MSG_RESPONSE \<and> psize \<le> MX_MSG_MAX_PAYLOAD"
  by (auto simp: mx_msg_create_def Option.bind_eq_Some_conv case_prod_unfold Let_def not_less split: if_splits)

lemma notify_rejected:
  assumes "mx_server_notify (Some a) event data data_size s = Some (kr, s')"
  shows "kr \<noteq> KERN_SUCCESS \<and> ports s' = ports s"
proof -
  from assms obtain sv kr1 out s1 where 1: "kservers s a = Some sv"
    "mx_msg_create True MACH_PORT_NULL (sv_endpoint sv) event MX_MSG_NOTIFY MX_MSG_FLAG_NONE data data_size s = Some (kr1, out, s1)"
    and rest: "if kr1 \<noteq> KERN_SUCCESS then kr = kr1 \<and> s' = s1 else \<exists>m. mx_server_send (Some a) out s1 = Some (kr, m, s')"
    by (auto simp: mx_server_notify_def Option.bind_eq_Some_conv split: if_splits)
  show ?thesis
  proof (cases "kr1 = KERN_SUCCESS")
    case False
    with 1(2) have "ports s1 = ports s"
      by (auto simp: mx_msg_create_def kal_malloc_def Option.bind_eq_Some_conv Let_def split: if_splits)
    with False rest show ?thesis by simp
  next
    case True
    with create_bounds 1(2) obtain m where m: "out = Some m" by blast
    note c = create_sender [OF 1(2) [unfolded True m]]
    have "mx_msg_validate out = Some KERN_INVALID_ARGUMENT"
      using c rd32_Some [of MXM_DESTINATION m] create_bounds [OF 1(2) [unfolded True]]
      by (auto simp: mx_msg_validate_def m MACH_PORT_NULL_def MXM_DESTINATION_def not_less)
    with rest True m c(5,6) 1(1) show ?thesis
      by (auto simp: mx_server_send_def split: if_splits)
  qed
qed

end
