(* ===== verification/Server_States.thy ===== *)
theory Server_States
  imports Server_Ipc_Correct
begin

text \<open>
  The states a server can be in.  Every operation of the server layer is a step; only \<^verbatim>\<open>mx_server_set_state\<close>
  called for a server, as the server itself does when it is up, makes it \<^verbatim>\<open>READY\<close> or \<^verbatim>\<open>WAITING\<close>, the states in
  which it can be sent to.
\<close>

section \<open>Servers that can be sent to\<close>

definition can_receive :: "mx_server \<Rightarrow> bool" where
  "can_receive sv \<longleftrightarrow> sv_state sv = MX_SERVER_READY \<or> sv_state sv = MX_SERVER_WAITING"

text \<open>\<open>W\<close> stands for the servers that signal their readiness.\<close>

definition ready_within :: "nat set \<Rightarrow> 'a kserver_scheme \<Rightarrow> bool" where
  "ready_within W s \<longleftrightarrow> (\<forall>a sv. kservers s a = Some sv \<longrightarrow> can_receive sv \<longrightarrow> a \<in> W)"

named_theorems ready_within_intros \<open>operations that make no further server ready\<close>

lemma ready_within_cong: "kservers s' = kservers s \<Longrightarrow> ready_within W s \<Longrightarrow> ready_within W s'"
  by (simp add: ready_within_def)

lemma ready_within_upd [ready_within_intros]:
  "ready_within W s \<Longrightarrow> (\<And>sv. \<not> can_receive sv \<Longrightarrow> \<not> can_receive (f sv)) \<Longrightarrow> ready_within W (upd_server a f s)"
  by (auto simp: ready_within_def kservers_upd)

lemma ready_within_more: "ktask.more s' = ktask.more s \<Longrightarrow> ready_within W s \<Longrightarrow> ready_within W (s' :: 'a kserver_scheme)"
  using kserver_fields_more(1) by (rule ready_within_cong)

lemma ready_within_ports [ready_within_intros]:
  "ready_within W s \<Longrightarrow> ready_within W (snd (mach_port_allocate right s))"
  "ready_within W s \<Longrightarrow> ready_within W (snd (mach_port_destroy p s))"
  "ready_within W s \<Longrightarrow> ready_within W (snd (mxwl_task_terminate t s))"
  "ready_within W s \<Longrightarrow> ready_within W (proc_log es s)"
  "ready_within W s \<Longrightarrow> ready_within W (upd_task i f s)"
  "ready_within W s \<Longrightarrow> ready_within W (s\<lparr>kthreads := h\<rparr>)"
  by (auto intro: ready_within_more)

lemma can_receive_fields [simp]:
  "can_receive (sv\<lparr>sv_task := t\<rparr>) = can_receive sv" "can_receive (sv\<lparr>sv_thread := th\<rparr>) = can_receive sv"
  "can_receive (sv\<lparr>sv_path := p\<rparr>) = can_receive sv" "can_receive (sv\<lparr>sv_next := n\<rparr>) = can_receive sv"
  "can_receive (sv\<lparr>sv_endpoint := ep, sv_mgmt_port := m\<rparr>) = can_receive sv"
  "can_receive (sv\<lparr>sv_capabilities := c, sv_flags := fl\<rparr>) = can_receive sv"
  by (simp_all add: can_receive_def)

lemma ready_within_state [ready_within_intros]:
  "ready_within W s \<Longrightarrow> st \<notin> {MX_SERVER_READY, MX_SERVER_WAITING} \<or> a \<in> W \<Longrightarrow> ready_within W (set_state a st s)"
  unfolding set_state_eq by (auto simp: ready_within_def kservers_upd can_receive_def split: if_splits)

section \<open>The loader and the manager\<close>

lemma ready_within_endpoint [ready_within_intros]:
  "ready_within W s \<Longrightarrow> ready_within W (snd (mx_ipc_server_endpoint_create server s))"
  "ready_within W s \<Longrightarrow> ready_within W (mx_ipc_server_endpoint_destroy server s)"
  by (auto simp: mx_ipc_server_endpoint_create_def mx_ipc_server_endpoint_destroy_def case_prod_unfold Let_def
      intro!: ready_within_intros split: option.split)

lemma ready_within_load_thread [ready_within_intros]: "ready_within W s \<Longrightarrow> ready_within W (snd (load_thread a s))"
proof -
  obtain kr out s1 where 1: "mxwl_thread_create (sv_task (server_at a s)) s = (kr, out, s1)" by (metis prod_cases3)
  assume "ready_within W s"
  with ready_within_more [OF thread_create_more [OF 1]] have "ready_within W s1" .
  then show ?thesis
    unfolding load_thread_def 1 by (auto simp: Let_def intro!: ready_within_intros)
qed

lemma ready_within_load_task [ready_within_intros]: "ready_within W s \<Longrightarrow> ready_within W (snd (load_task a s))"
proof -
  obtain kr out s1 where 1: "mxwl_task_create (Some (sv_name (server_at a s))) s = (kr, out, s1)" by (metis prod_cases3)
  assume "ready_within W s"
  with ready_within_more [OF create_more [OF 1]] have "ready_within W s1" .
  then show ?thesis
    unfolding load_task_def 1 by (auto simp: Let_def intro!: ready_within_intros)
qed

lemma ready_within_loader [ready_within_intros]:
  "ready_within W s \<Longrightarrow> ready_within W (snd (mx_loader_load server path s))"
  "ready_within W s \<Longrightarrow> ready_within W (snd (mx_loader_start server s))"
  "ready_within W s \<Longrightarrow> ready_within W (snd (mx_loader_stop server s))"
  by (auto simp: mx_loader_load_def mx_loader_start_def mx_loader_stop_def case_prod_unfold Let_def
      intro!: ready_within_intros split: option.split)

lemma ready_within_load: "mx_loader_load server path s = (kr, s') \<Longrightarrow> ready_within W s \<Longrightarrow> ready_within W s'"
  using ready_within_loader(1) [of W s server path] by simp

lemma ready_within_unload:
  "mx_loader_unload server s = Some (kr, s') \<Longrightarrow> ready_within W s \<Longrightarrow> ready_within W s'"
  by (auto simp: mx_loader_unload_def mxwl_thread_terminate_def Let_def Option.bind_eq_Some_conv
      intro!: ready_within_intros split: option.splits if_splits)

lemma ready_within_wait:
  "wait_loop kal_usleep a waited timeout s = Some (kr, s') \<Longrightarrow>
   (\<And>s. ready_within W s \<Longrightarrow> ready_within W (kal_usleep s)) \<Longrightarrow> ready_within W s \<Longrightarrow> ready_within W s'"
proof (induction kal_usleep a waited timeout s rule: wait_loop.induct)
  case (1 kal_usleep a waited timeout s)
  from 1(2) show ?case
    using 1(1) 1(3,4) by (subst (asm) wait_loop.simps) (auto split: if_splits)
qed

lemma ready_within_wait_ready:
  "mx_loader_wait_ready kal_usleep server t s = Some (kr, s') \<Longrightarrow>
   (\<And>s. ready_within W s \<Longrightarrow> ready_within W (kal_usleep s)) \<Longrightarrow> ready_within W s \<Longrightarrow> ready_within W s'"
  by (auto simp: mx_loader_wait_ready_def elim: ready_within_wait split: option.splits if_splits)

lemma ready_within_start_server:
  "mx_manager_start_server kal_usleep server s = Some (kr, s') \<Longrightarrow>
   (\<And>s. ready_within W s \<Longrightarrow> ready_within W (kal_usleep s)) \<Longrightarrow> ready_within W s \<Longrightarrow> ready_within W s'"
  by (auto simp: mx_manager_start_server_def case_prod_unfold Let_def
      Option.bind_eq_Some_conv intro!: ready_within_intros elim: ready_within_unload ready_within_load
      elim!: ready_within_wait_ready split: option.splits if_splits)

lemma ready_within_stop_server:
  "mx_manager_stop_server server s = Some (kr, s') \<Longrightarrow> ready_within W s \<Longrightarrow> ready_within W s'"
  by (auto simp: mx_manager_stop_server_def Option.bind_eq_Some_conv Let_def
      intro!: ready_within_intros elim!: ready_within_unload split: option.splits if_splits)

section \<open>The registry\<close>

lemma ready_within_register:
  "mx_server_register server s = Some (kr, s') \<Longrightarrow> ready_within W s \<Longrightarrow> ready_within W s'"
  by (auto simp: mx_server_register_def Option.bind_eq_Some_conv intro!: ready_within_intros
      intro: ready_within_cong [of _ "upd_server _ _ s"] split: option.splits if_splits)

lemma ready_within_unlink:
  assumes "unlink_loop server prev s = Some r"
  shows "ready_within W s \<longrightarrow> ready_within W (snd r)"
  using assms
proof (induction rule: unlink_loop.raw_induct [rotated, consumes 1, case_names step])
  case (step f server prev s r)
  show ?case
  proof
    assume nr: "ready_within W s"
    have w: "ready_within W (write_link prev p s)" for p
      using nr ready_within_upd [OF nr, of "\<lambda>sv. sv\<lparr>sv_next := p\<rparr>"] ready_within_cong [of "s\<lparr>registry := p\<rparr>" s]
      by (cases prev) (simp_all add: write_link_def)
    have u: "ready_within W ((upd_server a (\<lambda>sv. sv\<lparr>sv_next := None\<rparr>) (write_link prev p s))\<lparr>registry_count := n\<rparr>)" for a p n
      using ready_within_upd [OF w [of p], of "\<lambda>sv. sv\<lparr>sv_next := None\<rparr>" a]
      by (rule ready_within_cong [of _ "upd_server a (\<lambda>sv. sv\<lparr>sv_next := None\<rparr>) (write_link prev p s)", rotated]) simp_all
    show "ready_within W (snd r)"
    proof (cases "read_link prev s")
      case (Some p)
      show ?thesis
      proof (cases p)
        case None
        with step(2) Some nr show ?thesis by auto
      next
        case (Some a)
        show ?thesis
        proof (cases "a = server")
          case True
          with step(2) \<open>read_link prev s = Some p\<close> Some u show ?thesis
            by (auto simp: Let_def split: option.splits)
        next
          case False
          with step(2) \<open>read_link prev s = Some p\<close> Some have "f server (Some a) s = Some r" by simp
          with step(1) nr show ?thesis by blast
        qed
      qed
    qed (use step(2) in simp)
  qed
qed

lemma ready_within_unregister:
  "mx_server_unregister server s = Some (kr, s') \<Longrightarrow> ready_within W s \<Longrightarrow> ready_within W s'"
  using ready_within_unlink by (fastforce simp: mx_server_unregister_def split: option.splits if_splits)

section \<open>Bootstrap\<close>

lemma ready_within_init_server:
  "mx_server_init (Some a) name s = (kr, s') \<Longrightarrow> ready_within W s \<Longrightarrow> ready_within W s'"
  by (auto simp: mx_server_init_def ready_within_def kservers_upd can_receive_def zero_server_def
      split: option.splits if_splits)

lemma ready_within_free [ready_within_intros]: "ready_within W s \<Longrightarrow> ready_within W (s\<lparr>kservers := (kservers s)(a := None)\<rparr>)"
  by (simp add: ready_within_def)

lemma ready_within_boot_server:
  assumes "mx_bootstrap_start_server kal_usleep name path caps s = Some (kr, s')"
    and sleep: "\<And>s. ready_within W s \<Longrightarrow> ready_within W (kal_usleep s)" and nr: "ready_within W s"
  shows "ready_within W s'"
proof -
  define s1 where "s1 = (snd (kal_malloc s))
    \<lparr>kservers := (kservers s)(knext_server s \<mapsto> zero_server), knext_server := Suc (knext_server s)\<rparr>"
  have 1: "ready_within W s1" "ready_within W (snd (kal_malloc s))"
    using nr by (auto simp: s1_def ready_within_def can_receive_def zero_server_def kal_malloc_def)
  obtain kr2 s2 where 2: "mx_server_init (Some (knext_server s)) name s1 = (kr2, s2)" by force
  note nr2 = ready_within_init_server [OF 2 1(1)]
  define s3 where "s3 = upd_server (knext_server s) (\<lambda>sv. sv\<lparr>sv_capabilities := caps,
      sv_flags := MX_SERVER_SYSTEM OR MX_SERVER_AUTOSTART\<rparr>) s2"
  define s4 where "s4 = (case path of None \<Rightarrow> s3
      | Some p \<Rightarrow> upd_server (knext_server s) (\<lambda>sv. sv\<lparr>sv_path := c_strlcpy MX_SERVER_PATH_MAX p\<rparr>) s3)"
  have nr4: "ready_within W s4"
    using nr2 by (auto simp: s4_def s3_def intro!: ready_within_intros split: option.split)
  have "s' = s \<or> s' = snd (kal_malloc s) \<or> s' = s2\<lparr>kservers := (kservers s2)(knext_server s := None)\<rparr> \<or>
      (\<exists>kr5 s5. mx_server_register (Some (knext_server s)) s4 = Some (kr5, s5) \<and>
        (s' = s5\<lparr>kservers := (kservers s5)(knext_server s := None)\<rparr> \<or>
         mx_manager_start_server kal_usleep (Some (knext_server s)) s5 = Some (kr, s')))"
    using assms(1) 2 unfolding s4_def s3_def s1_def
    by (auto simp: mx_bootstrap_start_server_def kal_malloc_def Option.bind_eq_Some_conv Let_def split: if_splits)
  then consider "s' = s" | "s' = snd (kal_malloc s)" | "s' = s2\<lparr>kservers := (kservers s2)(knext_server s := None)\<rparr>"
    | s5 where "ready_within W s5" "s' = s5\<lparr>kservers := (kservers s5)(knext_server s := None)\<rparr>"
    | s5 where "ready_within W s5" "mx_manager_start_server kal_usleep (Some (knext_server s)) s5 = Some (kr, s')"
    using ready_within_register [OF _ nr4] by blast
  then show ?thesis
  proof cases
    case 5
    show ?thesis by (rule ready_within_start_server [OF 5(2) sleep 5(1)])
  qed (use nr 1(2) nr2 in \<open>auto intro: ready_within_free\<close>)
qed

section \<open>The steps\<close>

text \<open>
  Every operation on servers is a step; \<open>below\<close> is what leaves the server objects as they are: lookups,
  messages, and all that happens in the kernel below.  A server in \<open>W\<close> may be set to any state, the others
  to any but \<^verbatim>\<open>READY\<close> and \<^verbatim>\<open>WAITING\<close>.
\<close>

inductive server_step ::
  "('a kserver_scheme \<Rightarrow> 'a kserver_scheme) \<Rightarrow> nat set \<Rightarrow> 'a kserver_scheme \<Rightarrow> 'a kserver_scheme \<Rightarrow> bool"
  for kal_usleep W where
  below: "kservers s' = kservers s \<Longrightarrow> server_step kal_usleep W s s'"
| init: "server_step kal_usleep W s (snd (mx_server_init server name s))"
| destroy: "server_step kal_usleep W s (mx_server_destroy server s)"
| state: "(\<forall>a. server = Some a \<and> st \<in> {MX_SERVER_READY, MX_SERVER_WAITING} \<longrightarrow> a \<in> W) \<Longrightarrow>
    server_step kal_usleep W s (snd (mx_server_set_state server st s))"
| register: "mx_server_register server s = Some (kr, s') \<Longrightarrow> server_step kal_usleep W s s'"
| unregister: "mx_server_unregister server s = Some (kr, s') \<Longrightarrow> server_step kal_usleep W s s'"
| endpoint: "server_step kal_usleep W s (snd (mx_ipc_server_endpoint_create server s))"
| endpoint_gone: "server_step kal_usleep W s (mx_ipc_server_endpoint_destroy server s)"
| load: "server_step kal_usleep W s (snd (mx_loader_load server path s))"
| launch: "server_step kal_usleep W s (snd (mx_loader_start server s))"
| halt: "server_step kal_usleep W s (snd (mx_loader_stop server s))"
| unload: "mx_loader_unload server s = Some (kr, s') \<Longrightarrow> server_step kal_usleep W s s'"
| setup_ipc: "server_step kal_usleep W s (snd (mx_loader_setup_ipc server s))"
| wait: "mx_loader_wait_ready kal_usleep server t s = Some (kr, s') \<Longrightarrow> server_step kal_usleep W s s'"
| start: "mx_manager_start_server kal_usleep server s = Some (kr, s') \<Longrightarrow> server_step kal_usleep W s s'"
| stop: "mx_manager_stop_server server s = Some (kr, s') \<Longrightarrow> server_step kal_usleep W s s'"
| restart: "mx_manager_restart_server kal_usleep server s = Some (kr, s') \<Longrightarrow> server_step kal_usleep W s s'"
| boot: "mx_bootstrap_start_server kal_usleep name path caps s = Some (kr, s') \<Longrightarrow> server_step kal_usleep W s s'"

inductive_cases server_stepE: "server_step kal_usleep W s s'"

lemma ready_within_init: "ready_within W s \<Longrightarrow> ready_within W (snd (mx_server_init server name s))"
  by (auto simp: mx_server_init_def ready_within_def kservers_upd can_receive_def zero_server_def
      split: option.splits if_splits)

lemma ready_within_destroy: "ready_within W s \<Longrightarrow> ready_within W (mx_server_destroy server s)"
  by (auto simp: mx_server_destroy_def ready_within_def kservers_upd can_receive_def split: option.splits if_splits)

lemma ready_within_set_state:
  "ready_within W s \<Longrightarrow> \<forall>a. server = Some a \<and> st \<in> {MX_SERVER_READY, MX_SERVER_WAITING} \<longrightarrow> a \<in> W \<Longrightarrow>
   ready_within W (snd (mx_server_set_state server st s))"
  by (auto simp: mx_server_set_state_def ready_within_def kservers_upd can_receive_def split: option.splits if_splits)

lemma ready_within_restart:
  "mx_manager_restart_server kal_usleep server s = Some (kr, s') \<Longrightarrow>
   (\<And>s. ready_within W s \<Longrightarrow> ready_within W (kal_usleep s)) \<Longrightarrow> ready_within W s \<Longrightarrow> ready_within W s'"
  unfolding mx_manager_restart_server_def Option.bind_eq_Some_conv
  by (auto split: if_splits simp: Option.bind_eq_Some_conv elim!: ready_within_start_server ready_within_stop_server)

lemma server_step_ready_within:
  assumes "server_step kal_usleep W s s'" "\<And>s. ready_within W s \<Longrightarrow> ready_within W (kal_usleep s)" "ready_within W s"
  shows "ready_within W s'"
  using assms(1)
proof cases
  case below
  then show ?thesis using assms(3) by (rule ready_within_cong)
next
  case (wait server t kr)
  show ?thesis by (rule ready_within_wait_ready [OF wait assms(2,3)])
next
  case (start server kr)
  show ?thesis by (rule ready_within_start_server [OF start assms(2,3)])
next
  case (restart server kr)
  show ?thesis by (rule ready_within_restart [OF restart assms(2,3)])
next
  case (boot name path caps kr)
  show ?thesis by (rule ready_within_boot_server [OF boot assms(2,3)])
qed (use assms(3) in \<open>simp_all add: ready_within_register ready_within_unregister ready_within_loader ready_within_stop_server
       ready_within_unload mx_loader_setup_ipc_def ready_within_endpoint ready_within_init ready_within_destroy ready_within_set_state\<close>)

lemma send_step: "mx_server_send server msg s = Some (kr, msg', s') \<Longrightarrow> server_step kal_usleep W s s'"
  by (auto simp: mx_server_send_def Option.bind_eq_Some_conv Let_def split: option.splits if_splits
      intro!: server_step.below dest!: msg_send_more [THEN kport_more_ktask, THEN kserver_fields_more(1)])

text \<open>What a search through the registry finds, if it comes to an end, has what is searched for.\<close>

lemma find_server_found:
  assumes "find_server P p h = Some (Some a)"
  shows "\<exists>sv. h a = Some sv \<and> P sv"
proof -
  have "case ((P, p), h) of ((P, p), h) \<Rightarrow> \<forall>a. r = Some a \<longrightarrow> (\<exists>sv. h a = Some sv \<and> P sv)"
    if "find_server P p h = Some r" for r
    by (rule find_server.raw_induct [where Pa = "\<lambda>x r. case x of ((P, p), h) \<Rightarrow> \<forall>a. r = Some a \<longrightarrow> (\<exists>sv. h a = Some sv \<and> P sv)",
          rotated, OF that]) (auto split: option.splits if_splits)
  with assms show ?thesis by blast
qed

text \<open>A wait for a server that never signals does not succeed.\<close>

lemma wait_loop_unready:
  "(\<And>s. ready_within W s \<Longrightarrow> ready_within W (kal_usleep s)) \<Longrightarrow>
   (\<And>s. kservers s a \<noteq> None \<Longrightarrow> kservers (kal_usleep s) a \<noteq> None) \<Longrightarrow>
   ready_within W s \<Longrightarrow> kservers s a \<noteq> None \<Longrightarrow> a \<notin> W \<Longrightarrow> wait_loop kal_usleep a waited t s \<noteq> Some (KERN_SUCCESS, s')"
proof (induction kal_usleep a waited t s rule: wait_loop.induct)
  case (1 kal_usleep a waited t s)
  have "sv_state (server_at a s) \<noteq> MX_SERVER_READY"
    using 1(4-6) by (auto simp: ready_within_def can_receive_def server_at_def)
  with 1 show ?case by (subst wait_loop.simps) auto
qed

end
