(* ===== verification/Server_Room.thy ===== *)
theory Server_Room
  imports Server_States
begin

text \<open>
  When operations succeed: a host that refuses nothing and tables with room.  The lemmas here
  complement those about failures; they make the runs of the server layer live.
\<close>

section \<open>Ports\<close>

definition generous :: "host \<Rightarrow> bool" where
  "generous h \<longleftrightarrow> (\<forall>n. host_malloc h n) \<and> (\<forall>n. case host_socket_pair h n of None \<Rightarrow> False | Some (fd0, fd1) \<Rightarrow> 0 \<le> fd0)"

lemma allocate_khost [simp]: "khost (snd (mach_port_allocate right s)) = khost s"
  by (auto simp: mach_port_allocate_def mach_port_create_socket_pair_def kal_socket_pair_def kal_close_def upd_port_def
      Let_def split: option.splits prod.splits if_splits)

lemma full_card:
  assumes "port_table_full s"
  shows "256 \<le> card (dom (ports s))"
proof -
  have "(\<lambda>i. int i + 1) ` {..<256} \<subseteq> dom (ports s)"
    using assms by (auto simp: port_table_full_def ports_def MACH_PORT_TABLE_SIZE_def mach_port_lookup_def)
  moreover have "finite (dom (ports s))"
    by (rule finite_subset [of _ "{1..256}"])
       (auto simp: ports_def mach_port_lookup_def MACH_PORT_TABLE_SIZE_def split: if_splits)
  ultimately have "card ((\<lambda>i. int i + 1) ` {..<256::nat}) \<le> card (dom (ports s))"
    by (rule card_mono [rotated])
  then show ?thesis
    by (simp add: card_image inj_on_def)
qed

lemma ports_finite [simp]: "finite (dom (ports s))"
  by (rule finite_subset [of _ "{1..256}"])
     (auto simp: ports_def mach_port_lookup_def MACH_PORT_TABLE_SIZE_def split: if_splits)

lemma allocate_succeeds:
  assumes "kport_inv s" "generous (khost s)" "card (dom (ports s)) < 256" "mach_port_allocate right s = (p, s')"
  shows "p \<noteq> MACH_PORT_NULL \<and> ports s p = None \<and> ports s' = (ports s)(p \<mapsto> []) \<and> kport_inv s' \<and> khost s' = khost s"
proof -
  have "\<not> port_table_full s"
    using full_card [of s] assms(3) by auto
  moreover have "case host_socket_pair (khost s) (kclock s) of None \<Rightarrow> False | Some (fd0, fd1) \<Rightarrow> 0 \<le> fd0"
    using assms(2) by (simp add: generous_def)
  then have "\<not> socket_refused s"
    by (auto simp: socket_refused_def split: option.splits)
  ultimately show ?thesis
    using allocate_correct [OF assms(1,4)] allocate_khost [of right s] assms(4)
    by (auto simp: MACH_PORT_NULL_def)
qed

lemma card_ports_add: "m p = None \<Longrightarrow> finite (dom m) \<Longrightarrow> card (dom (m(p \<mapsto> x))) = Suc (card (dom m))"
  by (simp add: domIff)

section \<open>Tasks and threads\<close>

lemma create_succeeds:
  assumes inv: "task_inv s" "kport_inv s" and room: "generous (khost s)" "card (dom (ports s)) < 256" "card (dom (tasks s)) < 128"
    and create: "mxwl_task_create name s = (kr, out, s')"
  shows "kr = KERN_SUCCESS \<and> khost s' = khost s"
proof -
  have nf: "\<not> int TASK_MAX \<le> mxwl_task_count s"
    using room(3) tasks_card [OF inv(1)] by (simp add: TASK_MAX_def)
  then obtain t where t: "find_free_task s = Some t"
    using task_count_full [OF inv(1)] find_free_task_None [of s] by (cases "find_free_task s") auto
  define s1 where "s1 = upd_task t (\<lambda>_. fresh_task t name) s"
  obtain bp s2 where al: "mach_port_allocate MACH_PORT_RIGHT_RECEIVE s1 = (bp, s2)" by force
  have "bp \<noteq> MACH_PORT_NULL \<and> khost s2 = khost s"
    using allocate_succeeds [OF _ _ _ al] inv(2) room(1,2) by (simp add: s1_def)
  with create t nf al show ?thesis
    by (auto simp: mxwl_task_create_def s1_def [symmetric] Let_def)
qed

lemma thread_create_succeeds:
  assumes "tk_thread_count (task_obj t s) < THREAD_MAX" "generous (khost s)" "mxwl_thread_create (Some t) s = (kr, out, s')"
  shows "kr = KERN_SUCCESS"
  using assms by (auto simp: mxwl_thread_create_def kal_malloc_def generous_def Let_def)

section \<open>Loading and starting\<close>

lemma khost_upd_server [simp]: "khost (upd_server a f s) = khost s"
  by (simp add: upd_server_def)

lemma endpoint_create_succeeds:
  assumes "kport_inv s" "generous (khost s)" "card (dom (ports s)) < 255"
    and "mx_ipc_server_endpoint_create (Some a) s = (kr, s')"
  shows "kr = KERN_SUCCESS \<and> khost s' = khost s \<and> card (dom (ports s')) = card (dom (ports s)) + 2"
proof -
  obtain ep s1 where 1: "mach_port_allocate MACH_PORT_RIGHT_RECEIVE s = (ep, s1)" by force
  obtain mgmt s2 where 2: "mach_port_allocate MACH_PORT_RIGHT_RECEIVE s1 = (mgmt, s2)" by force
  from allocate_succeeds [OF assms(1,2) _ 1] assms(3) have
    a: "ep \<noteq> MACH_PORT_NULL" "ports s ep = None" "ports s1 = (ports s)(ep \<mapsto> [])" "kport_inv s1" "khost s1 = khost s"
    by auto
  have c1: "card (dom (ports s1)) = Suc (card (dom (ports s)))"
    using card_ports_add [of "ports s" ep] a(2,3) by simp
  from allocate_succeeds [OF a(4) _ _ 2] assms(2,3) a(5) c1 have
    b: "mgmt \<noteq> MACH_PORT_NULL" "ports s1 mgmt = None" "ports s2 = (ports s1)(mgmt \<mapsto> [])" "khost s2 = khost s"
    by auto
  have c2: "card (dom (ports s2)) = Suc (card (dom (ports s1)))"
    using card_ports_add [of "ports s1" mgmt] b(2,3) by simp
  from assms(4) 1 2 a(1) b(1) have "kr = KERN_SUCCESS" "s' = upd_server a (\<lambda>sv. sv\<lparr>sv_endpoint := ep, sv_mgmt_port := mgmt\<rparr>) s2"
    by (auto simp: mx_ipc_server_endpoint_create_def)
  with b(4) c1 c2 show ?thesis by simp
qed

definition roomy :: "'a kserver_scheme \<Rightarrow> bool" where
  "roomy s \<longleftrightarrow> generous (khost s) \<and> card (dom (ports s)) + 3 \<le> 256 \<and> card (dom (tasks s)) < 128"

lemma fresh_thread_count: "tk_thread_count ((fresh_task t name)\<lparr>tk_bootstrap_port := bp\<rparr>) = 0"
  by (simp add: fresh_task_def zero_task_def)

lemma load_succeeds:
  assumes inv: "kport_inv s" "task_inv s" and sv: "kservers s a = Some sv" and room: "roomy s"
    and load: "mx_loader_load (Some a) (Some path) s = (kr, s')"
  shows "kr = KERN_SUCCESS"
proof -
  define s1 where "s1 = set_state a MX_SERVER_LOADING (upd_server a (\<lambda>sv. sv\<lparr>sv_path := c_strlcpy MX_SERVER_PATH_MAX path\<rparr>) s)"
  have 1: "kport_inv s1" "task_inv s1" "ports s1 = ports s" "tasks s1 = tasks s" "khost s1 = khost s"
    "kservers s1 a \<noteq> None"
    using inv sv by (simp_all add: s1_def set_state_eq kservers_upd)
  obtain kr2 s2 where e2: "mx_ipc_server_endpoint_create (Some a) s1 = (kr2, s2)" by force
  from endpoint_create_succeeds [OF 1(1) _ _ e2] room 1 have
    2: "kr2 = KERN_SUCCESS" "khost s2 = khost s" "card (dom (ports s2)) < 256" by (auto simp: roomy_def)
  from endpoint_create_correct [OF 1(1) e2] 1 2(1) have
    3: "kport_inv s2" "task_inv s2" "tasks s2 = tasks s" "kservers s2 a \<noteq> None" by auto
  obtain kr3 out3 s3 where e3: "mxwl_task_create (Some (sv_name (server_at a s2))) s2 = (kr3, out3, s3)" by (metis prod_cases3)
  from create_succeeds [OF 3(2,1) _ _ _ e3] 2 3(3) room have
    4: "kr3 = KERN_SUCCESS" "khost s3 = khost s" by (auto simp: roomy_def)
  from create_correct [OF 3(2,1) e3] 4(1) obtain t bp where
    5: "out3 = Some t" "tasks s3 t = Some ((fresh_task t (Some (sv_name (server_at a s2))))\<lparr>tk_bootstrap_port := bp\<rparr>)"
    by (cases out3) auto
  define s4 where "s4 = upd_server a (\<lambda>sv. sv\<lparr>sv_task := Some t\<rparr>) s3"
  have "kservers s3 a \<noteq> None"
    using kserver_fields_more(1) [OF create_more [OF e3]] 3(4) by simp
  then have at4: "sv_task (server_at a s4) = Some t" by (simp add: s4_def)
  obtain kr5 out5 s5 where e5: "mxwl_thread_create (Some t) s4 = (kr5, out5, s5)" by (metis prod_cases3)
  have "tk_thread_count (task_obj t s4) < THREAD_MAX"
  proof -
    have "tk_thread_count (task_obj t s4) = 0"
      using 5(2) by (simp add: s4_def tasks_Some) (metis fresh_thread_count)
    then show ?thesis by (simp add: THREAD_MAX_def)
  qed
  from thread_create_succeeds [OF this _ e5] 4(2) room have "kr5 = KERN_SUCCESS"
    by (simp add: s4_def roomy_def)
  with load e2 2(1) e3 4(1) 5(1) e5 at4 show ?thesis
    by (auto simp: mx_loader_load_def load_task_def load_thread_def s1_def s4_def)
qed

lemma start_server_succeeds:
  assumes inv: "kport_inv s" "task_inv s" and sv: "kservers s a = Some sv" "sv_path sv \<noteq> []" and room: "roomy s"
  shows "\<exists>s'. mx_manager_start_server kal_usleep (Some a) s = Some (KERN_SUCCESS, s')"
proof -
  obtain kr s1 where 1: "mx_loader_load (Some a) (Some (sv_path sv)) s = (kr, s1)" by force
  from load_succeeds [OF inv sv(1) room 1] have kr: "kr = KERN_SUCCESS" .
  with load_correct [OF inv sv(1) 1] obtain ep mgmt bp t th task where
    "loaded a sv (sv_path sv) s s1 ep mgmt bp t th task" by auto
  then have "sv_task (server_at a s1) \<noteq> None"
    by (simp add: loaded_def server_at_def)
  then obtain s2 where "mx_loader_start (Some a) s1 = (KERN_SUCCESS, s2)"
    by (auto simp: mx_loader_start_def Let_def)
  moreover obtain kr' s3 where "mx_loader_wait_ready kal_usleep (Some a) 5000 s2 = Some (kr', s3)"
    using wait_ready_returns [of 5000 kal_usleep "Some a" s2] by (auto simp: INT_MAX_def)
  ultimately show ?thesis
    using 1 kr sv by (simp add: mx_manager_start_server_def server_at_Some)
qed

end
