(* ===== verification/Server_Props.thy ===== *)
theory Server_Props
  imports Server_Room
begin

text \<open>The properties of the server layer (\<^verbatim>\<open>Kernel/mxwl/server\<close>).\<close>

section \<open>Capability strings\<close>

fun join_names :: "cstr list \<Rightarrow> cstr" where
  "join_names [] = []"
| "join_names [x] = x"
| "join_names (x # y # ys) = x @ 44 # join_names (y # ys)"

lemma join_names_snoc: "join_names (xs @ [x]) = (if xs = [] then x else join_names xs @ 44 # x)"
  by (induction xs rule: join_names.induct) auto

definition caps_names :: "uint32 \<Rightarrow> nat \<Rightarrow> cstr list" where
  "caps_names capabilities k = map (\<lambda>i. cap_names ! i) (filter (bit capabilities) [0..<k])"

lemma caps_names_Suc:
  "caps_names capabilities (Suc k) = caps_names capabilities k @ (if bit capabilities k then [cap_names ! k] else [])"
  by (simp add: caps_names_def)

text \<open>The names before bit \<open>k\<close>, with their commas, have fewer than \<open>8 * k\<close> and \<open>11 * k\<close> bytes.\<close>

lemma name_length:
  assumes "k < 11"
  shows "1 \<le> length (cap_names ! k) \<and> length (cap_names ! k) \<le> 10 \<and> 0 \<notin> set (cap_names ! k)"
proof -
  have "\<forall>x \<in> set cap_names. 1 \<le> length x \<and> length x \<le> 10 \<and> 0 \<notin> set x" "length cap_names = 11"
    by (simp_all add: cap_names_def cstr_of_def)
  with assms show ?thesis by simp
qed

lemma caps_names_nonempty: "k \<le> 11 \<Longrightarrow> caps_names capabilities k \<noteq> [] \<Longrightarrow> join_names (caps_names capabilities k) \<noteq> []"
proof (induction k)
  case (Suc k)
  with name_length [of k] show ?case
    by (auto simp: caps_names_Suc join_names_snoc split: if_splits)
qed (simp add: caps_names_def)

lemma join_length: "k \<le> 11 \<Longrightarrow> length (join_names (caps_names capabilities k)) \<le> 11 * k"
proof (induction k)
  case (Suc k)
  with name_length [of k] show ?case
    by (auto simp: caps_names_Suc join_names_snoc)
qed (simp add: caps_names_def)

lemma buf_write_end: "buf_write (length xs) bs (xs @ drop (length xs) buf) = xs @ bs @ drop (length (xs @ bs)) buf"
  by (simp add: buf_write_def add.commute)

lemma caps_fold:
  assumes "130 \<le> n" "n \<le> length buf"
  shows "k \<le> 11 \<Longrightarrow> fold (caps_step capabilities n) [0..<k] (buf_write 0 [0] buf, 0, True) =
    (let names = caps_names capabilities k; str = join_names names in
     (if names = [] then buf_write 0 [0] buf else str @ drop (length str) buf, length str, names = []))"
proof (induction k)
  case 0
  then show ?case by (simp add: caps_names_def)
next
  case (Suc k)
  let ?names = "caps_names capabilities k"
  let ?str = "join_names ?names"
  have len: "length ?str + 1 + length (cap_names ! k) < n - 1" "k < 11"
    using assms(1) join_length [of k capabilities] name_length [of k] Suc.prems by auto
  have ne: "cap_names ! k \<noteq> []" using name_length [OF len(2)] by auto
  show ?case
  proof (cases "bit capabilities k")
    case False
    with Suc show ?thesis by (simp add: caps_step_def caps_names_Suc)
  next
    case True
    have head: "buf_write 0 bs (buf_write 0 [0] buf) = bs @ drop (length bs) buf" if "bs \<noteq> []" for bs
      using that assms by (cases bs; cases buf) (simp_all add: buf_write_def)
    have comma: "buf_write (length ?str) [44] (?str @ drop (length ?str) buf) = (?str @ [44]) @ drop (Suc (length ?str)) buf"
      using buf_write_end [of ?str "[44]" buf] by simp
    have name: "buf_write (Suc (length ?str)) bs ((?str @ [44]) @ drop (Suc (length ?str)) buf) =
        (?str @ 44 # bs) @ drop (Suc (length ?str + length bs)) buf" for bs
      using buf_write_end [of "?str @ [44]" bs buf] by simp
    show ?thesis
      using Suc True len ne
      by (cases "?names = []")
         (simp_all add: caps_step_def caps_names_Suc Let_def join_names_snoc head comma name del: append_assoc append.simps)
  qed
qed

lemma caps_string_correct:
  assumes "130 \<le> n" "n \<le> length buf"
  shows "mx_server_caps_string capabilities buf n =
    (let str = join_names (caps_names capabilities 11) in
     if str = [] then buf_write 0 [0] buf else str @ drop (length str) buf)"
proof -
  have "join_names (caps_names capabilities 11) = [] \<longleftrightarrow> caps_names capabilities 11 = []"
    using caps_names_nonempty [of 11 capabilities] by auto
  moreover have "buf_write 0 [0] (buf_write 0 [0] buf) = buf_write 0 [0] buf"
    by (simp add: buf_write_def)
  ultimately show ?thesis
    using caps_fold [OF assms, of 11 capabilities] assms(1) by (simp add: mx_server_caps_string_def Let_def)
qed

section \<open>A kernel with servers for the instances\<close>

definition sample_servers :: "nat \<Rightarrow> mx_server option" where
  "sample_servers = [0 \<mapsto> zero_server\<lparr>sv_name := [97], sv_path := [47]\<rparr>, 1 \<mapsto> zero_server\<lparr>sv_name := [98], sv_path := [47]\<rparr>]"

definition sample_kserver :: kserver where
  "sample_kserver = ktask.extend sample_tasks
     \<lparr>kservers = sample_servers, knext_server = 2, next_server_id = 1, registry = None, registry_count = 0,
      kmonitor = False, kmonitored = []\<rparr>"

lemma sample_kserver_fields:
  "kservers sample_kserver = sample_servers" "registry sample_kserver = None" "registry_count sample_kserver = 0"
  "mxwl_port_table sample_kserver = mxwl_port_table sample_tasks" "mxwl_task_table sample_kserver = mxwl_task_table sample_tasks"
  "mxwl_port_table_count sample_kserver = mxwl_port_table_count sample_tasks"
  "mxwl_task_count sample_kserver = mxwl_task_count sample_tasks" "khost sample_kserver = sample_host"
  "kclock sample_kserver = 0"
  by (simp_all add: sample_kserver_def ktask.defs sample_tasks_def mxwl_task_init_def mxwl_kernel_task_init_def
      sample_ktask_table upd_task_def)

lemma sample_kserver_inv:
  "kport_inv sample_kserver" "task_inv sample_kserver" "ports sample_kserver = Map.empty" "dom (tasks sample_kserver) = {0}"
  using kport_inv_cong [OF sample_kserver_fields(4,6)] task_inv_cong [OF sample_kserver_fields(5,7)]
    ports_cong [OF sample_kserver_fields(4)] tasks_cong [OF sample_kserver_fields(5)] sample_tasks_inv
  by simp_all

lemma sample_generous: "generous sample_host"
  by (simp add: generous_def sample_host_def)

lemma sample_roomy: "roomy sample_kserver"
  by (simp add: roomy_def sample_kserver_fields sample_kserver_inv sample_generous)

lemma sample_registry: "registry_inv sample_kserver []"
  by (simp add: registry_inv_def sample_kserver_fields)

lemma sample_server_names: "sample_servers 0 = Some (zero_server\<lparr>sv_name := [97], sv_path := [47]\<rparr>)"
  "sample_servers 1 = Some (zero_server\<lparr>sv_name := [98], sv_path := [47]\<rparr>)"
  by (simp_all add: sample_servers_def)

section \<open>The registry\<close>

lemma lookup_name_registry:
  "registry_inv s as \<Longrightarrow>
   mx_server_lookup_name (Some n) s = Some (find (\<lambda>a. sv_name (the (kservers s a)) = n) as)"
  unfolding mx_server_lookup_name_def option.case registry_inv_def by (rule find_server_linked) simp

lemma registered_at: "registry_inv s as \<Longrightarrow> a \<in> set as \<Longrightarrow> the (kservers s a) = server_at a s"
  using linked_valid [of "kservers s" "registry s" as a] by (auto simp: registry_inv_def server_at_def)

text \<open>
  Registering a server in a consistent registry fails exactly when 64 servers are registered or
  one of them has its name, and then changes nothing; otherwise the registry is consistent with the
  new server at its head, and a lookup of the name finds it.
\<close>

theorem registry_register_outcome:
  assumes "registry_inv s as" and "kservers s a = Some sv"
  shows "\<exists>kr s'. mx_server_register (Some a) s = Some (kr, s') \<and>
    (if length as = 64 then kr = KERN_NO_SPACE \<and> s' = s
     else if \<exists>b \<in> set as. sv_name (server_at b s) = sv_name sv then kr = KERN_NAME_EXISTS \<and> s' = s
     else kr = KERN_SUCCESS \<and> registry_inv s' (a # as) \<and>
       mx_server_lookup_name (Some (sv_name sv)) s' = Some (Some a))"
proof -
  note at = registered_at [OF assms(1)]
  have new: "mx_server_lookup_name (Some (sv_name sv)) s' = Some (Some a)"
    if "registry_inv s' (a # as)" "sv_name (the (kservers s' a)) = sv_name sv" for s' :: "'a kserver_scheme"
    using lookup_name_registry [OF that(1)] that(2) by simp
  show ?thesis
    using server_register_correct(1) [OF assms] server_register_correct(2) [OF assms] at new assms(2)
    by (auto simp: MX_SERVER_MAX_def image_iff kservers_upd)
qed

theorem registry_register_outcome_witness:
  "\<exists>s'. mx_server_register (Some 0) sample_kserver = Some (KERN_SUCCESS, s') \<and>
    mx_server_lookup_name (Some [97]) s' = Some (Some 0)"
  using registry_register_outcome [OF sample_registry, of 0] by (auto simp: sample_kserver_fields sample_server_names)

text \<open>
  Unregistering from a consistent registry fails exactly when the server is not registered (with
  another code when nothing is), and then changes nothing; otherwise the registry is consistent
  without the server, the others in their order, and its name is not found any more.
\<close>

theorem registry_unregister_outcome:
  assumes "registry_inv s as"
  shows "\<exists>kr s'. mx_server_unregister (Some a) s = Some (kr, s') \<and>
    (if a \<in> set as
     then kr = KERN_SUCCESS \<and> registry_inv s' (remove1 a as) \<and>
       mx_server_lookup_name (Some (sv_name (server_at a s))) s' = Some None
     else kr = (if as = [] then KERN_INVALID_ARGUMENT else KERN_INVALID_OBJECT) \<and> s' = s)"
proof (cases "as = []")
  case True
  with assms show ?thesis by (simp add: mx_server_unregister_def registry_inv_def)
next
  case False
  note u = server_unregister_correct [OF assms False, of a]
  show ?thesis
  proof (cases "a \<in> set as")
    case True
    with u obtain s' where s': "mx_server_unregister (Some a) s = Some (KERN_SUCCESS, s')" "registry_inv s' (remove1 a as)"
      "\<forall>b \<in> set as. sv_name (the (kservers s' b)) = sv_name (the (kservers s b))"
      by auto
    have same: "sv_name (the (kservers s' b)) = sv_name (server_at b s)" if "b \<in> set as" for b
      using s'(3) that registered_at [OF assms that] by simp
    have "inj_on (\<lambda>a. sv_name (the (kservers s a))) (set as)" "distinct as"
      using assms by (auto simp: registry_inv_def distinct_map)
    then have "sv_name (server_at b s) \<noteq> sv_name (server_at a s)" if "b \<in> set (remove1 a as)" for b
      using that True registered_at [OF assms, of a] registered_at [OF assms, of b] by (auto simp: inj_on_def)
    then have "find (\<lambda>b. sv_name (the (kservers s' b)) = sv_name (server_at a s)) (remove1 a as) = None"
      using same subsetD [OF set_remove1_subset [of a as]] by (auto simp: find_None_iff)
    with lookup_name_registry [OF s'(2)] have "mx_server_lookup_name (Some (sv_name (server_at a s))) s' = Some None"
      by simp
    with s' True show ?thesis by auto
  next
    case notin: False
    with u False show ?thesis by simp
  qed
qed

definition sample_registered :: kserver where
  "sample_registered = snd (the (mx_server_register (Some 0) sample_kserver))"

lemma sample_registered_inv: "registry_inv sample_registered [0]" "sv_name (server_at 0 sample_registered) = [97]"
proof -
  note r = server_register_correct [OF sample_registry, of 0] 
  have k: "kservers sample_kserver 0 = Some (zero_server\<lparr>sv_name := [97], sv_path := [47]\<rparr>)"
    by (simp add: sample_kserver_fields sample_server_names)
  have eq: "mx_server_register (Some 0) sample_kserver = Some (KERN_SUCCESS, sample_registered)"
    using r(1) [OF k] by (simp add: sample_registered_def MX_SERVER_MAX_def)
  from r(2) [OF k eq] show "registry_inv sample_registered [0]" .
  show "sv_name (server_at 0 sample_registered) = [97]"
    using r(1) [OF k] k by (simp add: sample_registered_def MX_SERVER_MAX_def server_at_def kservers_upd)
qed

theorem registry_unregister_outcome_witness:
  "\<exists>s'. mx_server_unregister (Some 0) sample_registered = Some (KERN_SUCCESS, s') \<and> registry_inv s' [] \<and>
    mx_server_lookup_name (Some [97]) s' = Some None"
  using registry_unregister_outcome [OF sample_registered_inv(1), of 0] by (auto simp: sample_registered_inv(2))

text \<open>
  In a buffer of at least 130 bytes, \<^verbatim>\<open>mx_server_caps_string\<close> writes the names of the known
  capabilities in bit order, separated by commas, and nothing after them: a NUL is written only when
  there is no name, so the string ends where the buffer's old contents happen to have one.
\<close>

theorem caps_string_unterminated:
  assumes "130 \<le> n" and "n \<le> length buf"
  shows "mx_server_caps_string capabilities buf n =
    (let str = join_names (caps_names capabilities 11) in
     if str = [] then 0 # drop 1 buf else str @ drop (length str) buf)"
  using caps_string_correct [OF assms, of capabilities] by (simp add: buf_write_def Let_def)

theorem caps_string_unterminated_witness:
  "mx_server_caps_string 0x204 (replicate 256 120) 256 = cstr_of ''network,monitor'' @ replicate 241 120"
proof -
  have "filter (bit (0x204 :: uint32)) [0..<11] = [2, 9]"
    by code_simp
  then have "join_names (caps_names 0x204 11) = cstr_of ''network,monitor''"
    by (simp add: caps_names_def cap_names_def cstr_of_def)
  then show ?thesis
    using caps_string_unterminated [of 256 "replicate 256 120" "0x204"] by (simp add: cstr_of_def)
qed

section \<open>The life of a server\<close>

text \<open>
  C13. Loading a server succeeds when the host refuses nothing and three ports and a task are free;
  whenever it succeeds the server has an endpoint, a management port and a task with its own
  bootstrap port and one thread, all new; whenever it fails, no port and no task is left behind and
  the server is \<^verbatim>\<open>FAILED\<close>.
\<close>

theorem server_load_outcome:
  assumes "kport_inv s" and "task_inv s" and "kservers s a = Some sv"
    and "mx_loader_load (Some a) (Some path) s = (kr, s')"
  shows "(roomy s \<longrightarrow> kr = KERN_SUCCESS) \<and>
    (if kr = KERN_SUCCESS then \<exists>ep mgmt bp t th task. loaded a sv path s s' ep mgmt bp t th task
     else ports s' = ports s \<and> tasks s' = tasks s \<and> sv_state (server_at a s') = MX_SERVER_FAILED)"
  using load_correct [OF assms] load_succeeds [OF assms(1-3) _ assms(4)] by blast

theorem server_load_outcome_witness:
  "\<exists>s' ep mgmt bp. mx_loader_load (Some 0) (Some [47]) sample_kserver = (KERN_SUCCESS, s') \<and>
    ports s' = [ep \<mapsto> [], mgmt \<mapsto> [], bp \<mapsto> []] \<and> distinct [ep, mgmt, bp]"
proof -
  obtain kr s' where 1: "mx_loader_load (Some 0) (Some [47]) sample_kserver = (kr, s')" by force
  have "kservers sample_kserver 0 = Some (zero_server\<lparr>sv_name := [97], sv_path := [47]\<rparr>)"
    by (simp add: sample_kserver_fields sample_server_names)
  from server_load_outcome [OF sample_kserver_inv(1,2) this 1] sample_roomy 1 show ?thesis
    by (auto simp: loaded_def sample_kserver_inv(3) simp del: distinct.simps) blast
qed

text \<open>
  A server that is started is still \<^verbatim>\<open>STARTING\<close> when the manager reports success, if nothing
  else touches it; stopping it then gives back its task and its two ports, but not the bootstrap port
  its task was created with, which stays allocated: every start and stop leaks one port.
\<close>

theorem server_start_stop_leaks_port:
  assumes "kport_inv s" and "task_inv s" and "kservers s a = Some sv" and "sv_path sv \<noteq> []" and "roomy s"
  shows "\<exists>s' s'' bp. mx_manager_start_server id (Some a) s = Some (KERN_SUCCESS, s') \<and>
    sv_state (server_at a s') = MX_SERVER_STARTING \<and>
    mx_manager_stop_server (Some a) s' = Some (KERN_SUCCESS, s'') \<and> tasks s'' = tasks s \<and>
    ports s bp = None \<and> ports s'' = (ports s)(bp \<mapsto> [])"
proof -
  obtain s' where "mx_manager_start_server id (Some a) s = Some (KERN_SUCCESS, s')"
    using start_server_succeeds [OF assms(1-5)] by blast
  with start_stop_leaks [OF assms(1-4) this] show ?thesis by blast
qed

theorem server_start_stop_leaks_port_witness:
  "\<exists>s' s'' bp. mx_manager_start_server id (Some 0) sample_kserver = Some (KERN_SUCCESS, s') \<and>
    mx_manager_stop_server (Some 0) s' = Some (KERN_SUCCESS, s'') \<and> ports s'' = [bp \<mapsto> []]"
proof -
  have "kservers sample_kserver 0 = Some (zero_server\<lparr>sv_name := [97], sv_path := [47]\<rparr>)"
    by (simp add: sample_kserver_fields sample_server_names)
  from server_start_stop_leaks_port [OF sample_kserver_inv(1,2) this _ sample_roomy] show ?thesis
    by (auto simp: sample_kserver_inv(3))
qed

text \<open>
  C14.  \<^verbatim>\<open>W\<close> are the servers that \<^verbatim>\<open>mx_server_set_state\<close> is called for with \<^verbatim>\<open>READY\<close> or \<^verbatim>\<open>WAITING\<close>.  Whatever
  operations of the server layer are performed, in any order, from a state in which no other server can be
  sent to, and whatever other threads that keep to this do while a function sleeps: a send to a server outside
  \<^verbatim>\<open>W\<close> is rejected and changes nothing, waiting for it does not succeed, and a lookup by capabilities finds
  only servers in \<^verbatim>\<open>W\<close>.  So being loaded, registered, started or restarted does not make a server reachable.
\<close>

theorem servers_receive_only_when_signalled:
  assumes "(server_step kal_usleep W)\<^sup>*\<^sup>* s s'" and "ready_within W s"
    and "\<And>s. ready_within W s \<Longrightarrow> ready_within W (kal_usleep s)"
    and "\<And>s a. kservers s a \<noteq> None \<Longrightarrow> kservers (kal_usleep s) a \<noteq> None"
  shows "(kservers s' a \<noteq> None \<and> a \<notin> W \<longrightarrow>
      mx_server_send (Some a) (Some m) s' = Some (KERN_NOT_RECEIVER, Some m, s') \<and>
      (\<forall>s''. mx_loader_wait_ready kal_usleep (Some a) t s' \<noteq> Some (KERN_SUCCESS, s''))) \<and>
    (mx_server_lookup_capability caps s' = Some (Some b) \<longrightarrow> b \<in> W) \<and>
    (mx_server_lookup_capability_any caps s' = Some (Some b) \<longrightarrow> b \<in> W)"
proof -
  have w: "ready_within W s'"
    using assms(1,2) by (induction rule: rtranclp_induct) (auto intro: server_step_ready_within assms(3))
  have "mx_loader_wait_ready kal_usleep (Some a) t s' \<noteq> Some (KERN_SUCCESS, s'')" if "kservers s' a \<noteq> None" "a \<notin> W" for s''
    using wait_loop_unready [of W kal_usleep a s', OF assms(3,4) w that] w that
    by (auto simp: mx_loader_wait_ready_def ready_within_def can_receive_def server_at_def)
  with w show ?thesis
    by (auto simp: mx_server_send_def mx_server_lookup_capability_def mx_server_lookup_capability_any_def
        ready_within_def can_receive_def dest!: find_server_found)
qed

lemma sample_ready_within: "ready_within W sample_kserver"
  by (auto simp: ready_within_def sample_kserver_fields sample_servers_def can_receive_def zero_server_def split: if_splits)

text \<open>Of two registered servers the first signals that it is ready; a send to the second is still rejected.\<close>

theorem servers_receive_only_when_signalled_witness:
  "\<exists>s' s''. mx_server_register (Some 0) sample_kserver = Some (KERN_SUCCESS, s') \<and>
    mx_server_set_state (Some 0) MX_SERVER_READY s' = (KERN_SUCCESS, s'') \<and>
    can_receive (server_at 0 s'') \<and>
    mx_server_send (Some 1) (Some []) s'' = Some (KERN_NOT_RECEIVER, Some [], s'')"
proof -
  note r = server_register_correct [OF sample_registry, of 0 "zero_server\<lparr>sv_name := [97], sv_path := [47]\<rparr>"]
  have k: "kservers sample_kserver 0 = Some (zero_server\<lparr>sv_name := [97], sv_path := [47]\<rparr>)"
      "kservers sample_kserver 1 \<noteq> None"
    by (simp_all add: sample_kserver_fields sample_server_names sample_servers_def)
  from r(1) [OF k(1)] k(2) obtain s' where 1: "mx_server_register (Some 0) sample_kserver = Some (KERN_SUCCESS, s')"
    "kservers s' 0 \<noteq> None" "kservers s' 1 \<noteq> None" by (auto simp: MX_SERVER_MAX_def kservers_upd k)
  define s'' where "s'' = snd (mx_server_set_state (Some 0) MX_SERVER_READY s')"
  have 2: "kservers s'' 1 \<noteq> None" "can_receive (server_at 0 s'')"
    using 1 by (auto simp: s''_def mx_server_set_state_def kservers_upd can_receive_def server_at_def)
  have "server_step id {0} sample_kserver s'" "server_step id {0} s' s''"
    unfolding s''_def by (rule server_step.register [OF 1(1)], rule server_step.state) simp
  then have "(server_step id {0})\<^sup>*\<^sup>* sample_kserver s''" by simp
  from servers_receive_only_when_signalled [OF this sample_ready_within, of 1 "[]"] 1 2 show ?thesis
    by (auto simp: s''_def mx_server_set_state_def)
qed

section \<open>Messages between servers\<close>

text \<open>
  An RPC to a server whose queue is empty returns at once with the caller's own request as the
  reply: the function receives from the endpoint it has just sent to.  The sender field of the
  message has been overwritten by its size on the way.
\<close>

theorem server_rpc_returns_request:
  assumes "kport_inv s" and "reachable_server a sv [] s" and "mx_valid req" and "host_malloc (khost s) (kclock s)"
    and "length reply = 24 + 65536"
  shows "\<exists>req' s'. mx_server_rpc kal_poll (Some a) (Some req) (Some reply) timeout_ms s =
      Some (KERN_SUCCESS, Some req', Some (req' @ drop (length req) reply), s') \<and>
    ports s' = ports s \<and> length req' = length req \<and>
    drop MX_MSG_HEADER_SIZE req' = drop MX_MSG_HEADER_SIZE req \<and> rd32 req' MXM_SENDER = Some (of_nat (length req))"
  using rpc_echo [OF assms] by (simp add: mx_size_def)

definition sample_ready :: kserver where
  "sample_ready = (let (ep, s) = mach_port_allocate MACH_PORT_RIGHT_RECEIVE sample_kserver
     in upd_server 0 (\<lambda>sv. sv\<lparr>sv_endpoint := ep, sv_state := MX_SERVER_READY\<rparr>) s)"

definition sample_mx_message :: msg_buf where
  "sample_mx_message = [7, 0, 0, 0,  9, 0, 0, 0,  1, 0, 0, 0,  5, 0, 0, 0,  2, 0, 0, 0,  0, 0, 0, 0,  104, 105]"

lemma sample_mx_valid: "mx_valid sample_mx_message"
proof -
  have "rd32 sample_mx_message MXM_TYPE = Some 5" "rd32 sample_mx_message MXM_PAYLOAD_SIZE = Some 2"
    "rd32 sample_mx_message MXM_SENDER = Some 7" "rd32 sample_mx_message MXM_DESTINATION = Some 9"
    by (simp_all add: sample_mx_message_def rd32_def mxm_offsets word_of_def)
  then show ?thesis
    by (simp add: mx_valid_def mx_msg_validate_def MX_MSG_SYNC_def MX_MSG_RESPONSE_def MX_MSG_MAX_PAYLOAD_def
        MACH_PORT_NULL_def MACH_PORT_DEAD_def) (simp add: sample_mx_message_def MX_MSG_HEADER_SIZE_def)
qed

lemma sample_ready_facts:
  "\<exists>sv. kport_inv sample_ready \<and> reachable_server 0 sv [] sample_ready \<and> khost sample_ready = sample_host"
proof -
  obtain ep s where 1: "mach_port_allocate MACH_PORT_RIGHT_RECEIVE sample_kserver = (ep, s)" by force
  from allocate_succeeds [OF sample_kserver_inv(1) _ _ 1] have
    2: "ports s ep = Some []" "kport_inv s" "khost s = sample_host"
    by (auto simp: sample_kserver_fields sample_generous sample_kserver_inv(3))
  have "kservers s = sample_servers"
    using kserver_fields_more(1) [OF ktask_more_ports(1) [of MACH_PORT_RIGHT_RECEIVE sample_kserver]] 1
    by (simp add: sample_kserver_fields)
  with 2 1 show ?thesis
    by (auto simp: sample_ready_def reachable_server_def kservers_upd sample_server_names MACH_PORT_QUEUE_MAX_def)
qed

theorem server_rpc_returns_request_witness:
  "\<exists>req' s'. mx_server_rpc (\<lambda>fd s. ((0, False), s)) (Some 0) (Some sample_mx_message)
      (Some (replicate (24 + 65536) 0)) 1000 sample_ready =
      Some (KERN_SUCCESS, Some req', Some (req' @ drop (length sample_mx_message) (replicate (24 + 65536) 0)), s')"
proof -
  obtain sv where "kport_inv sample_ready" "reachable_server 0 sv [] sample_ready"
    "host_malloc (khost sample_ready) (kclock sample_ready)"
    using sample_ready_facts by (auto simp: sample_host_def)
  from server_rpc_returns_request [OF this(1,2) sample_mx_valid this(3)] show ?thesis
    by (metis length_replicate)
qed

text \<open>
  A notification is never sent: whatever the server and the event, \<^verbatim>\<open>mx_server_notify\<close> fails, since
  the message it makes has a null sender, and no port gets a message.
\<close>

lemma server_notify_never_sent:
  assumes "mx_server_notify (Some a) event data data_size s = Some (kr, s')"
  shows "kr \<noteq> KERN_SUCCESS \<and> ports s' = ports s"
  using notify_rejected [OF assms] .

lemma server_notify_never_sent_witness:
  "\<exists>kr s'. mx_server_notify (Some 0) 1 None 0 sample_kserver = Some (kr, s') \<and> kr \<noteq> KERN_SUCCESS"
proof -
  have k: "kservers sample_kserver 0 = Some (zero_server\<lparr>sv_name := [97], sv_path := [47]\<rparr>)"
    by (simp add: sample_kserver_fields sample_server_names)
  define created where "created = mx_msg_create True MACH_PORT_NULL 0 1 MX_MSG_NOTIFY MX_MSG_FLAG_NONE None 0 sample_kserver"
  have "created \<noteq> None"
    by (simp add: created_def mx_msg_create_def kal_malloc_def wr32_def c_zeroed_def mxm_offsets Let_def)
  then obtain kr m s1 where c: "created = Some (kr, m, s1)" by auto
  have "kservers s1 0 = kservers sample_kserver 0"
    using c by (auto simp: created_def mx_msg_create_def kal_malloc_def Option.bind_eq_Some_conv Let_def split: if_splits)
  then have "mx_server_send (Some 0) m s1 \<noteq> None"
    by (simp add: mx_server_send_def k zero_server_def split: option.split)
  then have "mx_server_notify (Some 0) 1 None 0 sample_kserver \<noteq> None"
    using c [unfolded created_def] k by (auto simp: mx_server_notify_def zero_server_def)
  then obtain r where "mx_server_notify (Some 0) 1 None 0 sample_kserver = Some r" by blast
  with server_notify_never_sent [of 0 1 None 0 sample_kserver] show ?thesis
    by (cases r) auto
qed

section \<open>Boot arguments\<close>

text \<open>
  Configuring from the boot arguments always terminates, and is the fold over the arguments
  between spaces in which each one that starts with \<^verbatim>\<open>-srv=\<close> sets the server path to the rest of it,
  cut at 255 bytes: the last one wins.
\<close>

theorem boot_arguments_by_token:
  "mx_bootstrap_configure (Some args) s =
     (KERN_SUCCESS, s\<lparr>boot_server_path := fold token_path (tokens args) (boot_server_path s)\<rparr>)"
  by (simp add: mx_bootstrap_configure_def configure_loop_tokens)

end
