(* ===== verification/Bsd.thy ===== *)
theory Bsd
  imports Mach_Ipc
begin

text \<open>
  The data of the BSD server, \<^verbatim>\<open>Developer/BSD/bsd.h\<close>, and its calls to the host.

  The server turns requests of Mach tasks into calls of the POSIX host it runs on.  The host is a
  parameter: \<open>bh_call\<close> gives the result of a call from the number of calls made before it, so that
  every theorem holds for every host, and the state keeps the calls made with their results
  (\<open>bsd_trace\<close>).  \<open>errno\<close> is what the last call left there.  The server's address space is read
  through the host too: the string, the pointer array or the descriptor set at an address, as the
  calls made so far left it.  Pointers are 64-bit words, a null pointer is 0.  A process is named
  by its index in the process table, where the code passes the address of the entry; \<open>None\<close> is a
  null pointer.  The lines printed on \<^verbatim>\<open>stderr\<close> are not modelled.
\<close>

section \<open>Limits and numbers\<close>

definition BSD_MAX_PROCESSES :: nat where "BSD_MAX_PROCESSES = 128"
definition BSD_MAX_FD :: nat where "BSD_MAX_FD = 256"
definition BSD_MAX_SIGNALS :: nat where "BSD_MAX_SIGNALS = 32"
definition BSD_MAX_CWD :: nat where "BSD_MAX_CWD = 1024"
definition BSD_MAX_ENV :: nat where "BSD_MAX_ENV = 256"
definition BSD_MAX_ARGS :: nat where "BSD_MAX_ARGS = 64"

text \<open>Constants of the host's headers, with the values Linux gives them.\<close>

definition O_CLOEXEC :: int where "O_CLOEXEC = 0x80000"
definition FD_CLOEXEC :: int where "FD_CLOEXEC = 1"
definition FD_SETSIZE :: int where "FD_SETSIZE = 1024"
definition WNOHANG :: int where "WNOHANG = 1"
definition X_OK :: int where "X_OK = 1"
definition SIGTERM :: int where "SIGTERM = 15"
definition SIGCHLD :: nat where "SIGCHLD = 17"
definition SIGURG :: nat where "SIGURG = 23"
definition SIGWINCH :: nat where "SIGWINCH = 28"
definition ESRCH :: int where "ESRCH = 3"
definition EBADF :: int where "EBADF = 9"
definition ECHILD :: int where "ECHILD = 10"
definition EINVAL :: int where "EINVAL = 22"
definition EMFILE :: int where "EMFILE = 24"
definition ENOSYS :: int where "ENOSYS = 38"

text \<open>Conversions to \<^verbatim>\<open>int\<close>, \<^verbatim>\<open>unsigned int\<close> and \<^verbatim>\<open>size_t\<close>.\<close>

definition c_int :: "int \<Rightarrow> int" where
  "c_int x = signed_take_bit 31 x"

definition c_uint :: "int \<Rightarrow> int" where
  "c_uint x = take_bit 32 x"

definition c_size :: "int \<Rightarrow> int" where
  "c_size x = take_bit 64 x"

type_synonym uint64 = "64 word"
type_synonym addr = uint64

section \<open>The host\<close>

datatype host_call =
    HOpen addr int int
  | HClose int
  | HRead int addr int
  | HWrite int addr int
  | HLseek int int int
  | HDup int
  | HDup2 int int
  | HPipe
  | HIoctl int int addr
  | HFcntl int int int
  | HStat addr addr
  | HFstat int addr
  | HAccess addr int
  | HChdir addr
  | HGetcwd addr int
  | HCwd
  | HChmod addr int
  | HUnlink addr
  | HRename addr addr
  | HMkdir addr int
  | HRmdir addr
  | HSelect int "int list option" "int list option" "int list option" addr
  | HFork
  | HWaitpid
  | HKill int int
  | HSbrk int
  | HMmap addr int int int int int
  | HMunmap addr int
  | HGettimeofday addr
  | HGetrusage int addr
  | HStrdup addr
  | HFree addr
  | HStore addr int
  | HStoreSet addr "int list"

text \<open>The result of a call: its value, a second value (the write end of a pipe, a wait status), a
  string or descriptor sets it fills in, and \<open>errno\<close> after it.\<close>

record host_result =
  hr_ret :: int
  hr_ret2 :: int
  hr_errno :: int
  hr_str :: cstr
  hr_sets :: "int list \<times> int list \<times> int list"

record host_ids =
  hi_pid :: int
  hi_sid :: int
  hi_uid :: int
  hi_euid :: int
  hi_gid :: int
  hi_egid :: int

record bsd_host =
  bh_call :: "nat \<Rightarrow> host_call \<Rightarrow> host_result"
  bh_ids :: "nat \<Rightarrow> host_ids"
  bh_string :: "nat \<Rightarrow> addr \<Rightarrow> cstr"
  bh_pointers :: "nat \<Rightarrow> addr \<Rightarrow> addr list"
  bh_fd_set :: "nat \<Rightarrow> addr \<Rightarrow> int list"
  bh_stack :: "nat \<Rightarrow> int \<times> int"

section \<open>The server's state\<close>

record bsd_fd_entry =
  fe_host_fd :: int
  fe_flags :: int
  fe_access_mode :: int
  fe_in_use :: bool
  fe_path :: cstr

record bsd_process =
  bp_pid :: int
  bp_ppid :: int
  bp_pgid :: int
  bp_sid :: int
  bp_exit_status :: int
  bp_exit_signal :: int
  bp_in_use :: bool
  bp_running :: bool
  bp_stopped :: bool
  bp_zombie :: bool
  bp_task_port :: mach_port_t
  bp_bootstrap_port :: mach_port_t
  bp_uid :: int
  bp_euid :: int
  bp_gid :: int
  bp_egid :: int
  bp_cwd :: cstr
  bp_argv :: "addr list"
  bp_argc :: nat
  bp_envp :: "addr list"
  bp_envc :: nat
  bp_fd_table :: "bsd_fd_entry list"
  bp_fd_count :: int
  bp_signal_actions :: uint64
  bp_signal_pending :: uint64
  bp_signal_mask :: uint64
  bp_brk_addr :: addr
  bp_mmap_base :: addr
  bp_mmap_size :: uint64

text \<open>\<open>bs_counter\<close> is the file's static \<^verbatim>\<open>_bsd_process_count\<close>, beside the field
  \<^verbatim>\<open>process_count\<close> of the server's state.\<close>

record bsd = kipc +
  bsd_host :: bsd_host
  bsd_trace :: "(host_call \<times> host_result) list"
  bsd_errno :: int
  bs_initialized :: bool
  bs_running :: bool
  bs_bsd_port :: mach_port_t
  bs_host_port :: mach_port_t
  bs_host_priv_port :: mach_port_t
  bs_process_table :: "bsd_process list"
  bs_process_count :: int
  bs_next_pid :: int
  bs_counter :: int

definition zero_fd :: bsd_fd_entry where
  "zero_fd = \<lparr>fe_host_fd = 0, fe_flags = 0, fe_access_mode = 0, fe_in_use = False, fe_path = []\<rparr>"

definition zero_process :: bsd_process where
  "zero_process =
     \<lparr>bp_pid = 0, bp_ppid = 0, bp_pgid = 0, bp_sid = 0, bp_exit_status = 0, bp_exit_signal = 0,
      bp_in_use = False, bp_running = False, bp_stopped = False, bp_zombie = False,
      bp_task_port = 0, bp_bootstrap_port = 0, bp_uid = 0, bp_euid = 0, bp_gid = 0, bp_egid = 0,
      bp_cwd = [], bp_argv = replicate BSD_MAX_ARGS 0, bp_argc = 0,
      bp_envp = replicate BSD_MAX_ENV 0, bp_envc = 0,
      bp_fd_table = replicate BSD_MAX_FD zero_fd, bp_fd_count = 0,
      bp_signal_actions = 0, bp_signal_pending = 0, bp_signal_mask = 0,
      bp_brk_addr = 0, bp_mmap_base = 0, bp_mmap_size = 0\<rparr>"

section \<open>Access to the state\<close>

definition host_now :: "'a bsd_scheme \<Rightarrow> nat" where
  "host_now s = length (bsd_trace s)"

definition host_do :: "host_call \<Rightarrow> 'a bsd_scheme \<Rightarrow> host_result \<times> 'a bsd_scheme" where
  "host_do c s =
     (let r = bh_call (bsd_host s) (host_now s) c
      in (r, s\<lparr>bsd_trace := bsd_trace s @ [(c, r)], bsd_errno := hr_errno r\<rparr>))"

definition set_errno :: "int \<Rightarrow> 'a bsd_scheme \<Rightarrow> 'a bsd_scheme" where
  "set_errno e s = s\<lparr>bsd_errno := e\<rparr>"

definition string_at :: "addr \<Rightarrow> 'a bsd_scheme \<Rightarrow> cstr" where
  "string_at a s = bh_string (bsd_host s) (host_now s) a"

definition proc_obj :: "nat \<Rightarrow> 'a bsd_scheme \<Rightarrow> bsd_process" where
  "proc_obj p s = bs_process_table s ! p"

definition upd_proc ::
  "nat \<Rightarrow> (bsd_process \<Rightarrow> bsd_process) \<Rightarrow> 'a bsd_scheme \<Rightarrow> 'a bsd_scheme" where
  "upd_proc p f s = s\<lparr>bs_process_table := (bs_process_table s)[p := f (proc_obj p s)]\<rparr>"

definition fd_obj :: "nat \<Rightarrow> nat \<Rightarrow> 'a bsd_scheme \<Rightarrow> bsd_fd_entry" where
  "fd_obj p fd s = bp_fd_table (proc_obj p s) ! fd"

definition upd_fd ::
  "nat \<Rightarrow> nat \<Rightarrow> (bsd_fd_entry \<Rightarrow> bsd_fd_entry) \<Rightarrow> 'a bsd_scheme \<Rightarrow> 'a bsd_scheme" where
  "upd_fd p fd f = upd_proc p (\<lambda>q. q\<lparr>bp_fd_table := (bp_fd_table q)[fd := f (bp_fd_table q ! fd)]\<rparr>)"

section \<open>Frame rules\<close>

lemma upd_proc_fields [simp]:
  "bsd_host (upd_proc p f s) = bsd_host s" "bsd_trace (upd_proc p f s) = bsd_trace s"
  "bsd_errno (upd_proc p f s) = bsd_errno s" "bs_running (upd_proc p f s) = bs_running s"
  "bs_counter (upd_proc p f s) = bs_counter s"
  "bs_process_count (upd_proc p f s) = bs_process_count s"
  "bs_bsd_port (upd_proc p f s) = bs_bsd_port s"
  "mxwl_port_table (upd_proc p f s) = mxwl_port_table s"
  "length (bs_process_table (upd_proc p f s)) = length (bs_process_table s)"
  by (simp_all add: upd_proc_def)

lemma proc_upd_proc [simp]:
  "p < length (bs_process_table s) \<Longrightarrow> proc_obj p (upd_proc p f s) = f (proc_obj p s)"
  "p \<noteq> q \<Longrightarrow> proc_obj q (upd_proc p f s) = proc_obj q s"
  by (simp_all add: upd_proc_def proc_obj_def)

lemma host_do_fields [simp]:
  "bsd_host (snd (host_do c s)) = bsd_host s"
  "bs_running (snd (host_do c s)) = bs_running s"
  "bs_counter (snd (host_do c s)) = bs_counter s"
  "bs_process_count (snd (host_do c s)) = bs_process_count s"
  "bs_bsd_port (snd (host_do c s)) = bs_bsd_port s"
  "mxwl_port_table (snd (host_do c s)) = mxwl_port_table s"
  "bs_process_table (snd (host_do c s)) = bs_process_table s"
  "proc_obj p (snd (host_do c s)) = proc_obj p s"
  "fd_obj p fd (snd (host_do c s)) = fd_obj p fd s"
  "bsd_errno (snd (host_do c s)) = hr_errno (fst (host_do c s))"
  "bsd_trace (snd (host_do c s)) = bsd_trace s @ [(c, fst (host_do c s))]"
  by (simp_all add: host_do_def Let_def proc_obj_def fd_obj_def)

lemma set_errno_fields [simp]:
  "bsd_host (set_errno e s) = bsd_host s" "bsd_trace (set_errno e s) = bsd_trace s"
  "bsd_errno (set_errno e s) = e" "bs_running (set_errno e s) = bs_running s"
  "bs_counter (set_errno e s) = bs_counter s" "bs_process_count (set_errno e s) = bs_process_count s"
  "bs_bsd_port (set_errno e s) = bs_bsd_port s"
  "mxwl_port_table (set_errno e s) = mxwl_port_table s"
  "bs_process_table (set_errno e s) = bs_process_table s"
  "proc_obj p (set_errno e s) = proc_obj p s" "fd_obj p fd (set_errno e s) = fd_obj p fd s"
  by (simp_all add: set_errno_def proc_obj_def fd_obj_def)

end
