(* ===== verification/Bsd_Fd.thy ===== *)
theory Bsd_Fd
  imports Bsd
begin

text \<open>
  The descriptor tables of the BSD server, \<^verbatim>\<open>Developer/BSD/bsd_fd.c\<close>: per process a table from
  descriptor numbers to descriptors of the host.
\<close>

definition O_RDONLY :: int where "O_RDONLY = 0"
definition O_WRONLY :: int where "O_WRONLY = 1"

text \<open>\<^verbatim>\<open>strncpy\<close> into \<^verbatim>\<open>path\<close> and \<^verbatim>\<open>cwd\<close>: the last byte of these arrays stays 0.\<close>

definition path_copy :: "cstr \<Rightarrow> cstr" where
  "path_copy src = c_strlcpy BSD_MAX_CWD src"

section \<open>The table\<close>

definition fd_init_std :: "nat \<Rightarrow> nat \<Rightarrow> int \<Rightarrow> 'a bsd_scheme \<Rightarrow> 'a bsd_scheme" where
  "fd_init_std p fd mode s =
     (let (r, s) = host_do (HDup (int fd)) s
      in upd_fd p fd (\<lambda>e. e\<lparr>fe_host_fd := hr_ret r, fe_in_use := True, fe_access_mode := mode,
                            fe_flags := 0\<rparr>) s)"

definition bsd_fd_init :: "nat option \<Rightarrow> 'a bsd_scheme \<Rightarrow> kern_return_t \<times> 'a bsd_scheme" where
  "bsd_fd_init proc s =
     (case proc of
        None \<Rightarrow> (KERN_INVALID_TASK, s)
      | Some p \<Rightarrow>
          (let s = upd_proc p (\<lambda>q. q\<lparr>bp_fd_table :=
                     map (\<lambda>e. e\<lparr>fe_in_use := False, fe_host_fd := - 1\<rparr>) (bp_fd_table q)\<rparr>) s;
               s = fd_init_std p 0 O_RDONLY s;
               s = fd_init_std p 1 O_WRONLY s;
               s = fd_init_std p 2 O_WRONLY s
           in (KERN_SUCCESS, upd_proc p (\<lambda>q. q\<lparr>bp_fd_count := 3\<rparr>) s)))"

definition bsd_fd_find_free :: "nat \<Rightarrow> 'a bsd_scheme \<Rightarrow> nat option" where
  "bsd_fd_find_free p s = find (\<lambda>i. \<not> fe_in_use (fd_obj p i s)) [0..<BSD_MAX_FD]"

text \<open>The two tests every operation on a descriptor starts with; \<open>None\<close> is the answer
  \<^verbatim>\<open>EBADF\<close>.\<close>

definition fd_check :: "nat option \<Rightarrow> int \<Rightarrow> 'a bsd_scheme \<Rightarrow> (nat \<times> nat) option" where
  "fd_check proc fd s =
     (case proc of
        None \<Rightarrow> None
      | Some p \<Rightarrow>
          if fd < 0 \<or> int BSD_MAX_FD \<le> fd then None
          else if \<not> fe_in_use (fd_obj p (nat fd) s) then None
          else Some (p, nat fd))"

definition bad_fd :: "'a bsd_scheme \<Rightarrow> int \<times> 'a bsd_scheme" where
  "bad_fd s = (- 1, set_errno EBADF s)"

section \<open>Opening, closing and duplicating\<close>

definition bsd_fd_open :: "nat option \<Rightarrow> addr \<Rightarrow> int \<Rightarrow> int \<Rightarrow> 'a bsd_scheme \<Rightarrow> int \<times> 'a bsd_scheme" where
  "bsd_fd_open proc path flags mode s =
     (case proc of
        None \<Rightarrow> (- 1, set_errno EINVAL s)
      | Some p \<Rightarrow>
          if path = 0 then (- 1, set_errno EINVAL s)
          else (case bsd_fd_find_free p s of
            None \<Rightarrow> (- 1, set_errno EMFILE s)
          | Some slot \<Rightarrow>
              (let (r, s) = host_do (HOpen path flags mode) s
               in if hr_ret r < 0 then (- 1, s)
                  else (int slot,
                        upd_fd p slot (\<lambda>e. e\<lparr>fe_host_fd := hr_ret r, fe_in_use := True,
                          fe_access_mode := flags AND 3,
                          fe_flags := (if flags AND O_CLOEXEC \<noteq> 0 then FD_CLOEXEC else 0),
                          fe_path := path_copy (string_at path s)\<rparr>) s))))"

definition bsd_fd_close :: "nat option \<Rightarrow> int \<Rightarrow> 'a bsd_scheme \<Rightarrow> int \<times> 'a bsd_scheme" where
  "bsd_fd_close proc fd s =
     (case fd_check proc fd s of
        None \<Rightarrow> bad_fd s
      | Some (p, i) \<Rightarrow>
          (let s = snd (host_do (HClose (fe_host_fd (fd_obj p i s))) s);
               s = upd_fd p i (\<lambda>e. e\<lparr>fe_in_use := False, fe_host_fd := - 1\<rparr>) s
           in (0, upd_proc p (\<lambda>q. q\<lparr>bp_fd_count := bp_fd_count q - 1\<rparr>) s)))"

text \<open>The entry a duplicate gets: the access mode, flags and path of the original.\<close>

definition dup_entry :: "int \<Rightarrow> bsd_fd_entry \<Rightarrow> bsd_fd_entry \<Rightarrow> bsd_fd_entry" where
  "dup_entry host_fd old e =
     e\<lparr>fe_host_fd := host_fd, fe_in_use := True, fe_access_mode := fe_access_mode old,
       fe_flags := fe_flags old, fe_path := path_copy (fe_path old)\<rparr>"

definition bsd_fd_dup :: "nat option \<Rightarrow> int \<Rightarrow> 'a bsd_scheme \<Rightarrow> int \<times> 'a bsd_scheme" where
  "bsd_fd_dup proc oldfd s =
     (case fd_check proc oldfd s of
        None \<Rightarrow> bad_fd s
      | Some (p, old) \<Rightarrow>
          (case bsd_fd_find_free p s of
             None \<Rightarrow> (- 1, set_errno EMFILE s)
           | Some slot \<Rightarrow>
               (let (r, s) = host_do (HDup (fe_host_fd (fd_obj p old s))) s
                in if hr_ret r < 0 then (- 1, s)
                   else (int slot, upd_fd p slot (dup_entry (hr_ret r) (fd_obj p old s)) s))))"

definition bsd_fd_dup2 :: "nat option \<Rightarrow> int \<Rightarrow> int \<Rightarrow> 'a bsd_scheme \<Rightarrow> int \<times> 'a bsd_scheme" where
  "bsd_fd_dup2 proc oldfd newfd s =
     (if proc = None \<or> oldfd < 0 \<or> int BSD_MAX_FD \<le> oldfd then bad_fd s
      else if newfd < 0 \<or> int BSD_MAX_FD \<le> newfd then bad_fd s
      else (case fd_check proc oldfd s of
        None \<Rightarrow> bad_fd s
      | Some (p, old) \<Rightarrow>
          if oldfd = newfd then (newfd, s)
          else
            (let new = nat newfd;
                 target = (if 0 \<le> fe_host_fd (fd_obj p new s) then fe_host_fd (fd_obj p new s) else newfd);
                 (r, s) = host_do (HDup2 (fe_host_fd (fd_obj p old s)) target) s
             in if hr_ret r < 0 then (- 1, s)
                else (newfd, upd_fd p new (dup_entry (hr_ret r) (fd_obj p old s)) s))))"

text \<open>\<^verbatim>\<open>bsd_fd_pipe\<close>: \<open>fds\<close> is the caller's array, \<open>None\<close> a null pointer.\<close>

definition bsd_fd_pipe ::
  "nat option \<Rightarrow> (int \<times> int) option \<Rightarrow> 'a bsd_scheme \<Rightarrow> int \<times> (int \<times> int) option \<times> 'a bsd_scheme" where
  "bsd_fd_pipe proc fds s =
     (case (proc, fds) of
        (Some p, Some _) \<Rightarrow>
          (case bsd_fd_find_free p s of
             None \<Rightarrow> (- 1, fds, set_errno EMFILE s)
           | Some slot_r \<Rightarrow>
               (case bsd_fd_find_free p s of
                  None \<Rightarrow> (- 1, fds, set_errno EMFILE s)
                | Some slot_w \<Rightarrow>
                    (let (r, s) = host_do HPipe s
                     in if hr_ret r < 0 then (- 1, fds, s)
                        else
                          (let s = upd_fd p slot_r (\<lambda>e. e\<lparr>fe_host_fd := hr_ret r,
                                     fe_in_use := True, fe_access_mode := O_RDONLY\<rparr>) s;
                               s = upd_fd p slot_w (\<lambda>e. e\<lparr>fe_host_fd := hr_ret2 r,
                                     fe_in_use := True, fe_access_mode := O_WRONLY\<rparr>) s
                           in (0, Some (int slot_r, int slot_w), s)))))
      | _ \<Rightarrow> (- 1, fds, set_errno EINVAL s))"

section \<open>Calls on an open descriptor\<close>

text \<open>A call the server passes on to the host; its result goes through an \<^verbatim>\<open>int\<close> where the code
  returns one.\<close>

definition host_int :: "host_call \<Rightarrow> 'a bsd_scheme \<Rightarrow> int \<times> 'a bsd_scheme" where
  "host_int c s = (let (r, s) = host_do c s in (c_int (hr_ret r), s))"

definition bsd_fd_read :: "nat option \<Rightarrow> int \<Rightarrow> addr \<Rightarrow> int \<Rightarrow> 'a bsd_scheme \<Rightarrow> int \<times> 'a bsd_scheme" where
  "bsd_fd_read proc fd buf nbyte s =
     (case fd_check proc fd s of
        None \<Rightarrow> bad_fd s
      | Some (p, i) \<Rightarrow> host_int (HRead (fe_host_fd (fd_obj p i s)) buf nbyte) s)"

definition bsd_fd_write :: "nat option \<Rightarrow> int \<Rightarrow> addr \<Rightarrow> int \<Rightarrow> 'a bsd_scheme \<Rightarrow> int \<times> 'a bsd_scheme" where
  "bsd_fd_write proc fd buf nbyte s =
     (case fd_check proc fd s of
        None \<Rightarrow> bad_fd s
      | Some (p, i) \<Rightarrow> host_int (HWrite (fe_host_fd (fd_obj p i s)) buf nbyte) s)"

text \<open>\<^verbatim>\<open>bsd_fd_lseek\<close> returns an \<^verbatim>\<open>off_t\<close>, which has 64 bits.\<close>

definition bsd_fd_lseek :: "nat option \<Rightarrow> int \<Rightarrow> int \<Rightarrow> int \<Rightarrow> 'a bsd_scheme \<Rightarrow> int \<times> 'a bsd_scheme" where
  "bsd_fd_lseek proc fd offset whence s =
     (case fd_check proc fd s of
        None \<Rightarrow> bad_fd s
      | Some (p, i) \<Rightarrow>
          (let (r, s) = host_do (HLseek (fe_host_fd (fd_obj p i s)) offset whence) s in (hr_ret r, s)))"

definition bsd_fd_ioctl :: "nat option \<Rightarrow> int \<Rightarrow> int \<Rightarrow> addr \<Rightarrow> 'a bsd_scheme \<Rightarrow> int \<times> 'a bsd_scheme" where
  "bsd_fd_ioctl proc fd req arg s =
     (case fd_check proc fd s of
        None \<Rightarrow> bad_fd s
      | Some (p, i) \<Rightarrow> host_int (HIoctl (fe_host_fd (fd_obj p i s)) req arg) s)"

definition bsd_fd_fcntl :: "nat option \<Rightarrow> int \<Rightarrow> int \<Rightarrow> int \<Rightarrow> 'a bsd_scheme \<Rightarrow> int \<times> 'a bsd_scheme" where
  "bsd_fd_fcntl proc fd cmd arg s =
     (case fd_check proc fd s of
        None \<Rightarrow> bad_fd s
      | Some (p, i) \<Rightarrow> host_int (HFcntl (fe_host_fd (fd_obj p i s)) cmd arg) s)"

section \<open>Paths\<close>

definition bsd_fd_stat :: "nat option \<Rightarrow> addr \<Rightarrow> addr \<Rightarrow> 'a bsd_scheme \<Rightarrow> int \<times> 'a bsd_scheme" where
  "bsd_fd_stat proc path buf s =
     (if path = 0 \<or> buf = 0 then (- 1, set_errno EINVAL s) else host_int (HStat path buf) s)"

definition bsd_fd_fstat :: "nat option \<Rightarrow> int \<Rightarrow> addr \<Rightarrow> 'a bsd_scheme \<Rightarrow> int \<times> 'a bsd_scheme" where
  "bsd_fd_fstat proc fd buf s =
     (if proc = None \<or> buf = 0 then (- 1, set_errno EINVAL s)
      else (case fd_check proc fd s of
        None \<Rightarrow> bad_fd s
      | Some (p, i) \<Rightarrow> host_int (HFstat (fe_host_fd (fd_obj p i s)) buf) s))"

definition bsd_fd_access :: "nat option \<Rightarrow> addr \<Rightarrow> int \<Rightarrow> 'a bsd_scheme \<Rightarrow> int \<times> 'a bsd_scheme" where
  "bsd_fd_access proc path mode s =
     (if path = 0 then (- 1, set_errno EINVAL s) else host_int (HAccess path mode) s)"

definition bsd_fd_chdir :: "nat option \<Rightarrow> addr \<Rightarrow> 'a bsd_scheme \<Rightarrow> int \<times> 'a bsd_scheme" where
  "bsd_fd_chdir proc path s =
     (case proc of
        None \<Rightarrow> (- 1, set_errno EINVAL s)
      | Some p \<Rightarrow>
          if path = 0 then (- 1, set_errno EINVAL s)
          else (let (r, s) = host_do (HChdir path) s
                in if hr_ret r < 0 then (- 1, s)
                   else (0, upd_proc p (\<lambda>q. q\<lparr>bp_cwd := path_copy (string_at path s)\<rparr>) s)))"

text \<open>\<^verbatim>\<open>getcwd\<close> has the value 0 when it returns NULL.\<close>

definition bsd_fd_getcwd :: "nat option \<Rightarrow> addr \<Rightarrow> int \<Rightarrow> 'a bsd_scheme \<Rightarrow> int \<times> 'a bsd_scheme" where
  "bsd_fd_getcwd proc buf sz s =
     (if proc = None \<or> buf = 0 then (- 1, set_errno EINVAL s)
      else (let (r, s) = host_do (HGetcwd buf sz) s in (if hr_ret r \<noteq> 0 then 0 else - 1, s)))"

definition bsd_fd_chmod :: "nat option \<Rightarrow> addr \<Rightarrow> int \<Rightarrow> 'a bsd_scheme \<Rightarrow> int \<times> 'a bsd_scheme" where
  "bsd_fd_chmod proc path mode s =
     (if path = 0 then (- 1, set_errno EINVAL s) else host_int (HChmod path mode) s)"

definition bsd_fd_unlink :: "nat option \<Rightarrow> addr \<Rightarrow> 'a bsd_scheme \<Rightarrow> int \<times> 'a bsd_scheme" where
  "bsd_fd_unlink proc path s =
     (if path = 0 then (- 1, set_errno EINVAL s) else host_int (HUnlink path) s)"

definition bsd_fd_rename :: "nat option \<Rightarrow> addr \<Rightarrow> addr \<Rightarrow> 'a bsd_scheme \<Rightarrow> int \<times> 'a bsd_scheme" where
  "bsd_fd_rename proc old new_path s =
     (if old = 0 \<or> new_path = 0 then (- 1, set_errno EINVAL s) else host_int (HRename old new_path) s)"

definition bsd_fd_mkdir :: "nat option \<Rightarrow> addr \<Rightarrow> int \<Rightarrow> 'a bsd_scheme \<Rightarrow> int \<times> 'a bsd_scheme" where
  "bsd_fd_mkdir proc path mode s =
     (if path = 0 then (- 1, set_errno EINVAL s) else host_int (HMkdir path mode) s)"

definition bsd_fd_rmdir :: "nat option \<Rightarrow> addr \<Rightarrow> 'a bsd_scheme \<Rightarrow> int \<times> 'a bsd_scheme" where
  "bsd_fd_rmdir proc path s =
     (if path = 0 then (- 1, set_errno EINVAL s) else host_int (HRmdir path) s)"

section \<open>Select\<close>

text \<open>
  A descriptor set is the list of its members.  \<open>select_in\<close> translates one to descriptors of the
  host, \<open>select_out\<close> translates the answer back; the C code indexes the table and the bit arrays
  without a test, and \<open>None\<close> is an access outside them.  A null set is \<open>None\<close> inside.
\<close>

definition fd_set_ok :: "int \<Rightarrow> bool" where
  "fd_set_ok fd \<longleftrightarrow> 0 \<le> fd \<and> fd < FD_SETSIZE"

definition select_in :: "nat \<Rightarrow> int \<Rightarrow> int list option \<Rightarrow> 'a bsd_scheme \<Rightarrow> int list option option" where
  "select_in p nfds fds s =
     (case fds of
        None \<Rightarrow> Some None
      | Some fds \<Rightarrow>
          if FD_SETSIZE < nfds then None
          else
            (let asked = filter (\<lambda>i. i \<in> set fds) [0..nfds - 1];
                 hosts = map (\<lambda>i. fe_host_fd (fd_obj p (nat i) s))
                           (filter (\<lambda>i. fe_in_use (fd_obj p (nat i) s)) asked)
             in if list_ex (\<lambda>i. int BSD_MAX_FD \<le> i) asked \<or> \<not> list_all fd_set_ok hosts then None
                else Some (Some hosts)))"

definition select_out ::
  "nat \<Rightarrow> int \<Rightarrow> int list option \<Rightarrow> int list \<Rightarrow> 'a bsd_scheme \<Rightarrow> int list option option" where
  "select_out p nfds fds ready s =
     (case fds of
        None \<Rightarrow> Some None
      | Some _ \<Rightarrow>
          if int BSD_MAX_FD < nfds then None
          else
            (let used = filter (\<lambda>i. fe_in_use (fd_obj p (nat i) s)) [0..nfds - 1]
             in if \<not> list_all (\<lambda>i. fd_set_ok (fe_host_fd (fd_obj p (nat i) s))) used then None
                else Some (Some (filter (\<lambda>i. fe_host_fd (fd_obj p (nat i) s) \<in> set ready) used))))"

definition select_max :: "int list option \<Rightarrow> int \<Rightarrow> int" where
  "select_max hosts m = (case hosts of None \<Rightarrow> m | Some hs \<Rightarrow> fold max hs m)"

definition bsd_fd_select ::
  "nat option \<Rightarrow> int \<Rightarrow> int list option \<Rightarrow> int list option \<Rightarrow> int list option \<Rightarrow> addr \<Rightarrow>
   'a bsd_scheme \<Rightarrow>
   (int \<times> (int list option \<times> int list option \<times> int list option) \<times> 'a bsd_scheme) option" where
  "bsd_fd_select proc nfds readfds writefds errorfds timeout s =
     (case proc of
        None \<Rightarrow> Some (- 1, (readfds, writefds, errorfds), set_errno EINVAL s)
      | Some p \<Rightarrow> do {
          host_rfds \<leftarrow> select_in p nfds readfds s;
          host_wfds \<leftarrow> select_in p nfds writefds s;
          host_efds \<leftarrow> select_in p nfds errorfds s;
          let max_fd = select_max host_efds (select_max host_wfds (select_max host_rfds 0));
          let (r, s) = host_do (HSelect (max_fd + 1) host_rfds host_wfds host_efds timeout) s;
          if hr_ret r < 0 then Some (- 1, (readfds, writefds, errorfds), s)
          else do {
            let (rr, wr, er) = hr_sets r;
            readfds \<leftarrow> select_out p nfds readfds rr s;
            writefds \<leftarrow> select_out p nfds writefds wr s;
            errorfds \<leftarrow> select_out p nfds errorfds er s;
            Some (hr_ret r, (readfds, writefds, errorfds), s)
          }
        })"

end
