(* ===== verification/Bsd_Process.thy ===== *)
theory Bsd_Process
  imports Bsd_Fd
begin

text \<open>
  Processes of the BSD server: \<^verbatim>\<open>Developer/BSD/bsd_process.c\<close>, with \<^verbatim>\<open>bsd_signal.c\<close> and
  \<^verbatim>\<open>bsd_memory.c\<close>.  The reply of a system call is \<open>bsd_reply\<close>, with the fields the handlers
  write; a handler's reply pointer is the address of the dispatcher's own variable, never null.
\<close>

section \<open>Signals\<close>

definition bsd_signal_init :: "nat option \<Rightarrow> 'a bsd_scheme \<Rightarrow> kern_return_t \<times> 'a bsd_scheme" where
  "bsd_signal_init proc s =
     (case proc of
        None \<Rightarrow> (KERN_INVALID_TASK, s)
      | Some p \<Rightarrow>
          (KERN_SUCCESS, upd_proc p (\<lambda>q. q\<lparr>bp_signal_pending := 0, bp_signal_mask := 0,
                                          bp_signal_actions := 0\<rparr>) s))"

text \<open>Both branches of the code make the same call.\<close>

definition bsd_signal_kill :: "int \<Rightarrow> int \<Rightarrow> 'a bsd_scheme \<Rightarrow> int \<times> 'a bsd_scheme" where
  "bsd_signal_kill pid sig s =
     (if pid \<le> 0 then host_int (HKill pid sig) s else host_int (HKill pid sig) s)"

text \<open>One turn of the loop of \<^verbatim>\<open>bsd_signal_deliver\<close>, on the process.\<close>

definition deliver_one :: "uint64 \<Rightarrow> nat \<Rightarrow> bsd_process \<Rightarrow> bsd_process" where
  "deliver_one pending sig q =
     (if pending AND push_bit sig 1 = 0 then q
      else
        (let q = q\<lparr>bp_signal_pending := bp_signal_pending q AND NOT (push_bit sig 1)\<rparr>
         in if sig = SIGCHLD \<or> sig = SIGURG \<or> sig = SIGWINCH then q
            else q\<lparr>bp_running := False, bp_exit_signal := int sig\<rparr>))"

definition deliver_signals :: "bsd_process \<Rightarrow> bsd_process" where
  "deliver_signals q =
     (if \<not> bp_running q then q
      else
        (let pending = bp_signal_pending q AND NOT (bp_signal_mask q)
         in if pending = 0 then q else fold (deliver_one pending) [1..<BSD_MAX_SIGNALS] q))"

definition bsd_signal_deliver :: "nat option \<Rightarrow> 'a bsd_scheme \<Rightarrow> 'a bsd_scheme" where
  "bsd_signal_deliver proc s =
     (case proc of None \<Rightarrow> s | Some p \<Rightarrow> upd_proc p deliver_signals s)"

section \<open>Memory\<close>

definition sbrk :: "int \<Rightarrow> 'a bsd_scheme \<Rightarrow> addr \<times> 'a bsd_scheme" where
  "sbrk incr s = (let (r, s) = host_do (HSbrk incr) s in (word_of_int (hr_ret r), s))"

definition bsd_memory_init :: "nat option \<Rightarrow> 'a bsd_scheme \<Rightarrow> kern_return_t \<times> 'a bsd_scheme" where
  "bsd_memory_init proc s =
     (case proc of
        None \<Rightarrow> (KERN_INVALID_TASK, s)
      | Some p \<Rightarrow>
          (let (b, s) = sbrk 0 s
           in (KERN_SUCCESS, upd_proc p (\<lambda>q. q\<lparr>bp_brk_addr := b, bp_mmap_base := 0,
                                               bp_mmap_size := 0\<rparr>) s)))"

definition bsd_memory_brk :: "nat option \<Rightarrow> addr \<Rightarrow> 'a bsd_scheme \<Rightarrow> addr \<times> 'a bsd_scheme" where
  "bsd_memory_brk proc a s =
     (case proc of
        None \<Rightarrow> (- 1, s)
      | Some p \<Rightarrow>
          if a = 0 then (bp_brk_addr (proc_obj p s), s)
          else
            (let (current, s) = sbrk 0 s;
                 diff = sint (a - current);
                 (failed, s) = (if 0 < diff then (let (r, s) = sbrk diff s in (r = - 1, s)) else (False, s))
             in if failed then (- 1, s)
                else (a, upd_proc p (\<lambda>q. q\<lparr>bp_brk_addr := a\<rparr>) s)))"

definition bsd_memory_sbrk :: "nat option \<Rightarrow> int \<Rightarrow> 'a bsd_scheme \<Rightarrow> addr \<times> 'a bsd_scheme" where
  "bsd_memory_sbrk proc incr s =
     (case proc of
        None \<Rightarrow> (- 1, s)
      | Some p \<Rightarrow>
          (let (old, s) = sbrk 0 s;
               (r, s) = sbrk incr s
           in if r = - 1 then (- 1, s)
              else (let (b, s) = sbrk 0 s in (old, upd_proc p (\<lambda>q. q\<lparr>bp_brk_addr := b\<rparr>) s))))"

text \<open>\<^verbatim>\<open>MAP_FAILED\<close> is the address of all ones.\<close>

definition bsd_memory_mmap ::
  "nat option \<Rightarrow> addr \<Rightarrow> uint64 \<Rightarrow> int \<Rightarrow> int \<Rightarrow> int \<Rightarrow> int \<Rightarrow> 'a bsd_scheme \<Rightarrow> addr \<times> 'a bsd_scheme" where
  "bsd_memory_mmap proc a len prot flags fd offset s =
     (case proc of
        None \<Rightarrow> (- 1, s)
      | Some p \<Rightarrow>
          (let host_fd = (case fd_check proc fd s of None \<Rightarrow> - 1 | Some (_, i) \<Rightarrow> fe_host_fd (fd_obj p i s));
               (r, s) = host_do (HMmap a (uint len) prot flags host_fd offset) s;
               result = word_of_int (hr_ret r)
           in if result = - 1 then (- 1, s)
              else (result, upd_proc p (\<lambda>q.
                if bp_mmap_base q = 0 then q\<lparr>bp_mmap_base := result, bp_mmap_size := len\<rparr>
                else (let total = result + len - bp_mmap_base q
                      in if bp_mmap_size q < total then q\<lparr>bp_mmap_size := total\<rparr> else q)) s)))"

definition bsd_memory_munmap :: "nat option \<Rightarrow> addr \<Rightarrow> uint64 \<Rightarrow> 'a bsd_scheme \<Rightarrow> int \<times> 'a bsd_scheme" where
  "bsd_memory_munmap proc a len s =
     (if proc = None then (- 1, s) else host_int (HMunmap a (uint len)) s)"

section \<open>The process table\<close>

definition ids_now :: "'a bsd_scheme \<Rightarrow> host_ids" where
  "ids_now s = bh_ids (bsd_host s) (host_now s)"

text \<open>\<^verbatim>\<open>getcwd(proc->cwd, BSD_MAX_CWD - 1)\<close>; a failure, which is not tested, leaves the zeros.\<close>

definition read_cwd :: "nat \<Rightarrow> 'a bsd_scheme \<Rightarrow> 'a bsd_scheme" where
  "read_cwd p s =
     (let (r, s) = host_do HCwd s
      in if hr_ret r \<noteq> 0 then upd_proc p (\<lambda>q. q\<lparr>bp_cwd := take (BSD_MAX_CWD - 2) (hr_str r)\<rparr>) s else s)"

definition bsd_process_init :: "'a bsd_scheme \<Rightarrow> kern_return_t \<times> 'a bsd_scheme" where
  "bsd_process_init s =
     (let s = s\<lparr>bs_process_table := replicate BSD_MAX_PROCESSES zero_process,
                bs_process_count := 0, bs_counter := 0\<rparr>;
          ids = ids_now s;
          (b, s) = sbrk 0 s;
          s = upd_proc 0 (\<lambda>q. q\<lparr>bp_pid := hi_pid ids, bp_ppid := 0, bp_pgid := hi_pid ids,
                 bp_sid := hi_sid ids, bp_in_use := True, bp_running := True, bp_zombie := False,
                 bp_stopped := False, bp_uid := hi_uid ids, bp_euid := hi_euid ids,
                 bp_gid := hi_gid ids, bp_egid := hi_egid ids, bp_exit_status := 0,
                 bp_exit_signal := 0, bp_task_port := MACH_PORT_NULL,
                 bp_bootstrap_port := MACH_PORT_NULL, bp_fd_count := 0, bp_argc := 0, bp_envc := 0,
                 bp_brk_addr := b, bp_mmap_base := 0, bp_mmap_size := 0, bp_signal_pending := 0,
                 bp_signal_mask := 0, bp_signal_actions := 0\<rparr>) s;
          s = read_cwd 0 s;
          s = snd (bsd_fd_init (Some 0) s);
          s = snd (bsd_signal_init (Some 0) s);
          s = snd (bsd_memory_init (Some 0) s)
      in (KERN_SUCCESS, s\<lparr>bs_counter := 1, bs_process_count := 1\<rparr>))"

definition find_free_process :: "'a bsd_scheme \<Rightarrow> nat option" where
  "find_free_process s = find (\<lambda>i. \<not> bp_in_use (proc_obj i s)) [0..<BSD_MAX_PROCESSES]"

definition bsd_process_alloc ::
  "int \<Rightarrow> 'a bsd_scheme \<Rightarrow> kern_return_t \<times> nat option \<times> 'a bsd_scheme" where
  "bsd_process_alloc pid s =
     (if int BSD_MAX_PROCESSES \<le> bs_counter s then (KERN_NO_SPACE, None, s)
      else (case find_free_process s of
        None \<Rightarrow> (KERN_NO_SPACE, None, s)
      | Some p \<Rightarrow>
          (let ids = ids_now s;
               s = upd_proc p (\<lambda>_. zero_process\<lparr>bp_pid := pid, bp_ppid := hi_pid ids,
                     bp_in_use := True, bp_running := True, bp_uid := hi_uid ids,
                     bp_euid := hi_euid ids, bp_gid := hi_gid ids, bp_egid := hi_egid ids\<rparr>) s;
               s = read_cwd p s;
               (tp, s) = mach_port_allocate MACH_PORT_RIGHT_RECEIVE s;
               s = upd_proc p (\<lambda>q. q\<lparr>bp_task_port := tp\<rparr>) s;
               (bp, s) = mach_port_allocate MACH_PORT_RIGHT_RECEIVE s;
               s = upd_proc p (\<lambda>q. q\<lparr>bp_bootstrap_port := bp\<rparr>) s;
               s = snd (bsd_fd_init (Some p) s);
               s = snd (bsd_signal_init (Some p) s);
               s = snd (bsd_memory_init (Some p) s);
               s = s\<lparr>bs_counter := bs_counter s + 1\<rparr>
           in (KERN_SUCCESS, Some p, s\<lparr>bs_process_count := bs_counter s\<rparr>))))"

definition bsd_process_lookup :: "int \<Rightarrow> 'a bsd_scheme \<Rightarrow> nat option" where
  "bsd_process_lookup pid s =
     find (\<lambda>i. bp_in_use (proc_obj i s) \<and> bp_pid (proc_obj i s) = pid) [0..<BSD_MAX_PROCESSES]"

text \<open>The loops of the file that close the descriptors of a process that are in use and meet a
  condition.  They leave the host descriptor in the entry.\<close>

definition close_fd_if :: "(bsd_fd_entry \<Rightarrow> bool) \<Rightarrow> nat \<Rightarrow> nat \<Rightarrow> 'a bsd_scheme \<Rightarrow> 'a bsd_scheme" where
  "close_fd_if P p i s =
     (if fe_in_use (fd_obj p i s) \<and> P (fd_obj p i s)
      then upd_fd p i (\<lambda>e. e\<lparr>fe_in_use := False\<rparr>) (snd (host_do (HClose (fe_host_fd (fd_obj p i s))) s))
      else s)"

definition close_fds :: "(bsd_fd_entry \<Rightarrow> bool) \<Rightarrow> nat \<Rightarrow> 'a bsd_scheme \<Rightarrow> 'a bsd_scheme" where
  "close_fds P p s = fold (close_fd_if P p) [0..<BSD_MAX_FD] s"

definition free_strings :: "addr list \<Rightarrow> 'a bsd_scheme \<Rightarrow> 'a bsd_scheme" where
  "free_strings as s = fold (\<lambda>a s. if a \<noteq> 0 then snd (host_do (HFree a) s) else s) as s"

definition bsd_process_free :: "nat option \<Rightarrow> 'a bsd_scheme \<Rightarrow> 'a bsd_scheme" where
  "bsd_process_free proc s =
     (case proc of
        None \<Rightarrow> s
      | Some p \<Rightarrow>
          if \<not> bp_in_use (proc_obj p s) then s
          else
            (let s = close_fds (\<lambda>_. True) p s;
                 s = free_strings (take (bp_argc (proc_obj p s)) (bp_argv (proc_obj p s))) s;
                 s = upd_proc p (\<lambda>q. q\<lparr>bp_argc := 0\<rparr>) s;
                 s = free_strings (take (bp_envc (proc_obj p s)) (bp_envp (proc_obj p s))) s;
                 s = upd_proc p (\<lambda>q. q\<lparr>bp_envc := 0, bp_in_use := False, bp_running := False\<rparr>) s;
                 s = s\<lparr>bs_counter := bs_counter s - 1\<rparr>
             in s\<lparr>bs_process_count := bs_counter s\<rparr>))"

text \<open>\<^verbatim>\<open>WEXITSTATUS\<close>.  \<open>None\<close> is a host that always has another child to report.\<close>

definition WEXITSTATUS :: "int \<Rightarrow> int" where
  "WEXITSTATUS status = drop_bit 8 (status AND 0xff00)"

definition reap_one :: "int \<Rightarrow> int \<Rightarrow> 'a bsd_scheme \<Rightarrow> 'a bsd_scheme" where
  "reap_one pid status s =
     (case bsd_process_lookup pid s of
        None \<Rightarrow> s
      | Some p \<Rightarrow>
          (let s = upd_proc p (\<lambda>q. q\<lparr>bp_exit_status := WEXITSTATUS status, bp_running := False,
                                     bp_zombie := True\<rparr>) s
           in if 0 < bp_ppid (proc_obj p s)
              then snd (bsd_signal_kill (bp_ppid (proc_obj p s)) (int SIGCHLD) s) else s))"

partial_function (option) reap_loop :: "'a bsd_scheme \<Rightarrow> 'a bsd_scheme option" where
  "reap_loop s =
     (let r = fst (host_do HWaitpid s); s' = snd (host_do HWaitpid s)
      in if hr_ret r \<le> 0 then Some s' else reap_loop (reap_one (hr_ret r) (hr_ret2 r) s'))"

definition bsd_process_reap :: "'a bsd_scheme \<Rightarrow> (kern_return_t \<times> 'a bsd_scheme) option" where
  "bsd_process_reap s = (case reap_loop s of None \<Rightarrow> None | Some s \<Rightarrow> Some (KERN_SUCCESS, s))"

section \<open>System calls on processes\<close>

record bsd_reply =
  rp_ret_code :: int
  rp_errno_val :: int
  rp_out_arg1 :: int
  rp_out_arg2 :: int

definition bsd_syscall_exit :: "nat option \<Rightarrow> int \<Rightarrow> 'a bsd_scheme \<Rightarrow> kern_return_t \<times> 'a bsd_scheme" where
  "bsd_syscall_exit proc status s =
     (case proc of
        None \<Rightarrow> (KERN_INVALID_TASK, s)
      | Some p \<Rightarrow>
          if \<not> bp_in_use (proc_obj p s) then (KERN_INVALID_TASK, s)
          else
            (let s = upd_proc p (\<lambda>q. q\<lparr>bp_exit_status := status, bp_running := False,
                                       bp_zombie := True\<rparr>) s;
                 s = close_fds (\<lambda>_. True) p s;
                 s = (if 0 < bp_ppid (proc_obj p s)
                      then snd (bsd_signal_kill (bp_ppid (proc_obj p s)) (int SIGCHLD) s) else s)
             in (KERN_SUCCESS, s)))"

text \<open>\<^verbatim>\<open>fork\<close> returns in both processes: the host's answer 0 is the run of the child.\<close>

definition bsd_syscall_fork ::
  "nat option \<Rightarrow> bsd_reply \<Rightarrow> 'a bsd_scheme \<Rightarrow> kern_return_t \<times> bsd_reply \<times> 'a bsd_scheme" where
  "bsd_syscall_fork proc reply s =
     (case proc of
        None \<Rightarrow> (KERN_INVALID_ARGUMENT, reply, s)
      | Some p \<Rightarrow>
          (let (r, s) = host_do HFork s; child_pid = hr_ret r
           in if child_pid < 0
              then (KERN_FAILURE, reply\<lparr>rp_ret_code := - 1, rp_errno_val := bsd_errno s\<rparr>, s)
              else if child_pid = 0
              then (KERN_SUCCESS, reply\<lparr>rp_ret_code := 0, rp_out_arg1 := hi_pid (ids_now s)\<rparr>, s)
              else
                (let (kr, child, s) = bsd_process_alloc child_pid s;
                     s = (case child of
                            None \<Rightarrow> s
                          | Some c \<Rightarrow>
                              (let q = proc_obj p s
                               in upd_proc c (\<lambda>ch. ch\<lparr>bp_ppid := bp_pid q, bp_pgid := bp_pgid q,
                                    bp_sid := bp_sid q, bp_uid := bp_uid q, bp_euid := bp_euid q,
                                    bp_gid := bp_gid q, bp_egid := bp_egid q,
                                    bp_cwd := path_copy (bp_cwd q)\<rparr>) s))
                 in (KERN_SUCCESS, reply\<lparr>rp_ret_code := child_pid, rp_out_arg1 := child_pid\<rparr>, s))))"

text \<open>Copying an argument vector of at most \<open>n - 1\<close> strings into an array of \<open>n\<close> pointers; the
  vector is the pointers before the null one.\<close>

fun dup_strings :: "addr list \<Rightarrow> 'a bsd_scheme \<Rightarrow> addr list \<times> 'a bsd_scheme" where
  "dup_strings [] s = ([], s)"
| "dup_strings (a # as) s =
     (let (r, s) = host_do (HStrdup a) s; (bs, s) = dup_strings as s
      in (word_of_int (hr_ret r) # bs, s))"

definition fill_vector :: "addr list \<Rightarrow> addr list \<Rightarrow> addr list" where
  "fill_vector new old = new @ 0 # drop (length new + 1) old"

definition copy_vector :: "nat \<Rightarrow> addr list \<Rightarrow> 'a bsd_scheme \<Rightarrow> addr list \<times> 'a bsd_scheme" where
  "copy_vector n src s = dup_strings (take (n - 1) src) s"

definition bsd_syscall_exec ::
  "nat option \<Rightarrow> addr \<Rightarrow> addr list option \<Rightarrow> addr list option \<Rightarrow> 'a bsd_scheme \<Rightarrow>
   kern_return_t \<times> 'a bsd_scheme" where
  "bsd_syscall_exec proc path argv envp s =
     (case proc of
        None \<Rightarrow> (KERN_INVALID_ARGUMENT, s)
      | Some p \<Rightarrow>
          if path = 0 then (KERN_INVALID_ARGUMENT, s)
          else
            (let s = close_fds (\<lambda>e. fe_flags e AND FD_CLOEXEC \<noteq> 0) p s;
                 s = free_strings (take (bp_argc (proc_obj p s)) (bp_argv (proc_obj p s))) s;
                 s = upd_proc p (\<lambda>q. q\<lparr>bp_argc := 0\<rparr>) s;
                 s = (case argv of
                        None \<Rightarrow> s
                      | Some src \<Rightarrow>
                          (let (new, s) = copy_vector BSD_MAX_ARGS src s
                           in upd_proc p (\<lambda>q. q\<lparr>bp_argc := length new,
                                                bp_argv := fill_vector new (bp_argv q)\<rparr>) s));
                 s = free_strings (take (bp_envc (proc_obj p s)) (bp_envp (proc_obj p s))) s;
                 s = upd_proc p (\<lambda>q. q\<lparr>bp_envc := 0\<rparr>) s;
                 s = (case envp of
                        None \<Rightarrow> s
                      | Some src \<Rightarrow>
                          (let (new, s) = copy_vector BSD_MAX_ENV src s
                           in upd_proc p (\<lambda>q. q\<lparr>bp_envc := length new,
                                                bp_envp := fill_vector new (bp_envp q)\<rparr>) s));
                 (r, s) = host_do (HAccess path X_OK) s
             in (if hr_ret r \<noteq> 0 then KERN_FAILURE else KERN_SUCCESS, s)))"

text \<open>The entry \<^verbatim>\<open>bsd_syscall_waitpid\<close> reaps.\<close>

definition wait_target :: "nat \<Rightarrow> int \<Rightarrow> 'a bsd_scheme \<Rightarrow> nat option" where
  "wait_target p wait_pid s =
     (if wait_pid = - 1
      then find (\<lambda>i. bp_in_use (proc_obj i s) \<and> bp_ppid (proc_obj i s) = bp_pid (proc_obj p s) \<and>
                     bp_zombie (proc_obj i s)) [0..<BSD_MAX_PROCESSES]
      else (case bsd_process_lookup wait_pid s of
              None \<Rightarrow> None
            | Some t \<Rightarrow>
                if bp_ppid (proc_obj t s) = bp_pid (proc_obj p s) \<and> bp_zombie (proc_obj t s)
                then Some t else None))"

definition bsd_syscall_waitpid ::
  "nat option \<Rightarrow> int \<Rightarrow> addr \<Rightarrow> int \<Rightarrow> bsd_reply \<Rightarrow> 'a bsd_scheme \<Rightarrow>
   kern_return_t \<times> bsd_reply \<times> 'a bsd_scheme" where
  "bsd_syscall_waitpid proc wait_pid status options reply s =
     (case proc of
        None \<Rightarrow> (KERN_INVALID_ARGUMENT, reply, s)
      | Some p \<Rightarrow>
          (let (found_pid, exit_status, s) =
                 (case wait_target p wait_pid s of
                    None \<Rightarrow> (0, 0, s)
                  | Some t \<Rightarrow>
                      (bp_pid (proc_obj t s), bp_exit_status (proc_obj t s), bsd_process_free (Some t) s))
           in if found_pid = 0 then
                (if options AND WNOHANG \<noteq> 0 then (KERN_SUCCESS, reply\<lparr>rp_ret_code := 0\<rparr>, s)
                 else (KERN_SUCCESS, reply\<lparr>rp_ret_code := - 1, rp_errno_val := ECHILD\<rparr>, s))
              else
                (let s = (if status \<noteq> 0 then snd (host_do (HStore status exit_status) s) else s)
                 in (KERN_SUCCESS, reply\<lparr>rp_ret_code := found_pid, rp_out_arg1 := exit_status\<rparr>, s))))"

text \<open>The queries: the field goes through the reply's \<^verbatim>\<open>int32_t\<close>.\<close>

definition query :: "(bsd_process \<Rightarrow> int) \<Rightarrow> nat option \<Rightarrow> bsd_reply \<Rightarrow> 'a bsd_scheme \<Rightarrow>
    kern_return_t \<times> bsd_reply \<times> 'a bsd_scheme" where
  "query field proc reply s =
     (case proc of
        None \<Rightarrow> (KERN_INVALID_ARGUMENT, reply, s)
      | Some p \<Rightarrow> (KERN_SUCCESS, reply\<lparr>rp_ret_code := c_int (field (proc_obj p s))\<rparr>, s))"

definition bsd_syscall_getpid ::
  "nat option \<Rightarrow> bsd_reply \<Rightarrow> 'a bsd_scheme \<Rightarrow> kern_return_t \<times> bsd_reply \<times> 'a bsd_scheme" where
  "bsd_syscall_getpid proc = query bp_pid proc"

definition bsd_syscall_getppid ::
  "nat option \<Rightarrow> bsd_reply \<Rightarrow> 'a bsd_scheme \<Rightarrow> kern_return_t \<times> bsd_reply \<times> 'a bsd_scheme" where
  "bsd_syscall_getppid proc = query bp_ppid proc"

definition bsd_syscall_getuid ::
  "nat option \<Rightarrow> bsd_reply \<Rightarrow> 'a bsd_scheme \<Rightarrow> kern_return_t \<times> bsd_reply \<times> 'a bsd_scheme" where
  "bsd_syscall_getuid proc = query bp_uid proc"

definition bsd_syscall_geteuid ::
  "nat option \<Rightarrow> bsd_reply \<Rightarrow> 'a bsd_scheme \<Rightarrow> kern_return_t \<times> bsd_reply \<times> 'a bsd_scheme" where
  "bsd_syscall_geteuid proc = query bp_euid proc"

definition bsd_syscall_getgid ::
  "nat option \<Rightarrow> bsd_reply \<Rightarrow> 'a bsd_scheme \<Rightarrow> kern_return_t \<times> bsd_reply \<times> 'a bsd_scheme" where
  "bsd_syscall_getgid proc = query bp_gid proc"

definition bsd_syscall_getegid ::
  "nat option \<Rightarrow> bsd_reply \<Rightarrow> 'a bsd_scheme \<Rightarrow> kern_return_t \<times> bsd_reply \<times> 'a bsd_scheme" where
  "bsd_syscall_getegid proc = query bp_egid proc"

definition bsd_syscall_setuid :: "nat option \<Rightarrow> int \<Rightarrow> 'a bsd_scheme \<Rightarrow> kern_return_t \<times> 'a bsd_scheme" where
  "bsd_syscall_setuid proc uid s =
     (case proc of
        None \<Rightarrow> (KERN_INVALID_TASK, s)
      | Some p \<Rightarrow> (KERN_SUCCESS, upd_proc p (\<lambda>q. q\<lparr>bp_euid := uid, bp_uid := uid\<rparr>) s))"

definition bsd_syscall_setgid :: "nat option \<Rightarrow> int \<Rightarrow> 'a bsd_scheme \<Rightarrow> kern_return_t \<times> 'a bsd_scheme" where
  "bsd_syscall_setgid proc gid s =
     (case proc of
        None \<Rightarrow> (KERN_INVALID_TASK, s)
      | Some p \<Rightarrow> (KERN_SUCCESS, upd_proc p (\<lambda>q. q\<lparr>bp_egid := gid, bp_gid := gid\<rparr>) s))"

end
