(* ===== verification/Bsd_Syscall.thy ===== *)
theory Bsd_Syscall
  imports Bsd_Process
begin

text \<open>
  System call dispatch of the BSD server, \<^verbatim>\<open>Developer/BSD/bsd_syscall.c\<close>.  The one \<^verbatim>\<open>switch\<close> of
  the code is a chain of tests here, cut at the comments that divide it.  Arguments are 32-bit
  signed fields; one that stands for a pointer is widened with its sign.
\<close>

record bsd_request =
  rq_syscall_num :: int
  rq_arg1 :: int
  rq_arg2 :: int
  rq_arg3 :: int
  rq_arg4 :: int
  rq_arg5 :: int
  rq_arg6 :: int
  rq_caller_pid :: int

abbreviation BSD_SYSCALL_EXIT :: int where "BSD_SYSCALL_EXIT \<equiv> 1"
abbreviation BSD_SYSCALL_FORK :: int where "BSD_SYSCALL_FORK \<equiv> 2"
abbreviation BSD_SYSCALL_EXEC :: int where "BSD_SYSCALL_EXEC \<equiv> 3"
abbreviation BSD_SYSCALL_WAIT :: int where "BSD_SYSCALL_WAIT \<equiv> 4"
abbreviation BSD_SYSCALL_WAITPID :: int where "BSD_SYSCALL_WAITPID \<equiv> 5"
abbreviation BSD_SYSCALL_READ :: int where "BSD_SYSCALL_READ \<equiv> 6"
abbreviation BSD_SYSCALL_WRITE :: int where "BSD_SYSCALL_WRITE \<equiv> 7"
abbreviation BSD_SYSCALL_OPEN :: int where "BSD_SYSCALL_OPEN \<equiv> 8"
abbreviation BSD_SYSCALL_CLOSE :: int where "BSD_SYSCALL_CLOSE \<equiv> 9"
abbreviation BSD_SYSCALL_LSEEK :: int where "BSD_SYSCALL_LSEEK \<equiv> 10"
abbreviation BSD_SYSCALL_DUP :: int where "BSD_SYSCALL_DUP \<equiv> 11"
abbreviation BSD_SYSCALL_DUP2 :: int where "BSD_SYSCALL_DUP2 \<equiv> 12"
abbreviation BSD_SYSCALL_PIPE :: int where "BSD_SYSCALL_PIPE \<equiv> 13"
abbreviation BSD_SYSCALL_IOCTL :: int where "BSD_SYSCALL_IOCTL \<equiv> 14"
abbreviation BSD_SYSCALL_GETPID :: int where "BSD_SYSCALL_GETPID \<equiv> 15"
abbreviation BSD_SYSCALL_GETPPID :: int where "BSD_SYSCALL_GETPPID \<equiv> 16"
abbreviation BSD_SYSCALL_GETUID :: int where "BSD_SYSCALL_GETUID \<equiv> 17"
abbreviation BSD_SYSCALL_GETEUID :: int where "BSD_SYSCALL_GETEUID \<equiv> 18"
abbreviation BSD_SYSCALL_GETGID :: int where "BSD_SYSCALL_GETGID \<equiv> 19"
abbreviation BSD_SYSCALL_GETEGID :: int where "BSD_SYSCALL_GETEGID \<equiv> 20"
abbreviation BSD_SYSCALL_SETUID :: int where "BSD_SYSCALL_SETUID \<equiv> 21"
abbreviation BSD_SYSCALL_SETGID :: int where "BSD_SYSCALL_SETGID \<equiv> 22"
abbreviation BSD_SYSCALL_KILL :: int where "BSD_SYSCALL_KILL \<equiv> 23"
abbreviation BSD_SYSCALL_BRK :: int where "BSD_SYSCALL_BRK \<equiv> 26"
abbreviation BSD_SYSCALL_SBRK :: int where "BSD_SYSCALL_SBRK \<equiv> 27"
abbreviation BSD_SYSCALL_MMAP :: int where "BSD_SYSCALL_MMAP \<equiv> 28"
abbreviation BSD_SYSCALL_MUNMAP :: int where "BSD_SYSCALL_MUNMAP \<equiv> 29"
abbreviation BSD_SYSCALL_CHDIR :: int where "BSD_SYSCALL_CHDIR \<equiv> 30"
abbreviation BSD_SYSCALL_GETCWD :: int where "BSD_SYSCALL_GETCWD \<equiv> 31"
abbreviation BSD_SYSCALL_STAT :: int where "BSD_SYSCALL_STAT \<equiv> 32"
abbreviation BSD_SYSCALL_FSTAT :: int where "BSD_SYSCALL_FSTAT \<equiv> 33"
abbreviation BSD_SYSCALL_ACCESS :: int where "BSD_SYSCALL_ACCESS \<equiv> 34"
abbreviation BSD_SYSCALL_FCNTL :: int where "BSD_SYSCALL_FCNTL \<equiv> 35"
abbreviation BSD_SYSCALL_CHMOD :: int where "BSD_SYSCALL_CHMOD \<equiv> 36"
abbreviation BSD_SYSCALL_UNLINK :: int where "BSD_SYSCALL_UNLINK \<equiv> 37"
abbreviation BSD_SYSCALL_RENAME :: int where "BSD_SYSCALL_RENAME \<equiv> 38"
abbreviation BSD_SYSCALL_MKDIR :: int where "BSD_SYSCALL_MKDIR \<equiv> 39"
abbreviation BSD_SYSCALL_RMDIR :: int where "BSD_SYSCALL_RMDIR \<equiv> 40"
abbreviation BSD_SYSCALL_SELECT :: int where "BSD_SYSCALL_SELECT \<equiv> 41"
abbreviation BSD_SYSCALL_GETTIMEOFDAY :: int where "BSD_SYSCALL_GETTIMEOFDAY \<equiv> 42"
abbreviation BSD_SYSCALL_GETRUSAGE :: int where "BSD_SYSCALL_GETRUSAGE \<equiv> 43"

text \<open>\<^verbatim>\<open>(void *)(uintptr_t)arg\<close>, and \<^verbatim>\<open>(int32_t)(uintptr_t)result\<close>.\<close>

definition ptr :: "int \<Rightarrow> addr" where
  "ptr arg = word_of_int arg"

definition ptr_ret :: "addr \<Rightarrow> int" where
  "ptr_ret a = c_int (uint a)"

definition zero_reply :: bsd_reply where
  "zero_reply = \<lparr>rp_ret_code = 0, rp_errno_val = 0, rp_out_arg1 = 0, rp_out_arg2 = 0\<rparr>"

section \<open>Answers\<close>

text \<open>A call that gives a C result: \<^verbatim>\<open>errno\<close> is passed on when the result is negative.\<close>

definition answer :: "bsd_reply \<Rightarrow> int \<times> 'a bsd_scheme \<Rightarrow> kern_return_t \<times> bsd_reply \<times> 'a bsd_scheme" where
  "answer reply res =
     (case res of
        (ret, s) \<Rightarrow>
          (KERN_SUCCESS,
           reply\<lparr>rp_ret_code := c_int ret, rp_errno_val := (if ret < 0 then bsd_errno s else 0)\<rparr>, s))"

text \<open>A call that gives a kernel code: \<^verbatim>\<open>errno\<close> is passed on in either case.\<close>

definition answer_kr ::
  "bsd_reply \<Rightarrow> kern_return_t \<times> 'a bsd_scheme \<Rightarrow> kern_return_t \<times> bsd_reply \<times> 'a bsd_scheme" where
  "answer_kr reply res =
     (case res of
        (kr, s) \<Rightarrow>
          (KERN_SUCCESS,
           reply\<lparr>rp_ret_code := (if kr = KERN_SUCCESS then 0 else - 1), rp_errno_val := bsd_errno s\<rparr>, s))"

definition fd_set_at :: "addr \<Rightarrow> 'a bsd_scheme \<Rightarrow> int list option" where
  "fd_set_at a s = (if a = 0 then None else Some (bh_fd_set (bsd_host s) (host_now s) a))"

definition put_fd_set :: "addr \<Rightarrow> int list option \<Rightarrow> 'a bsd_scheme \<Rightarrow> 'a bsd_scheme" where
  "put_fd_set a fds s = (case fds of None \<Rightarrow> s | Some f \<Rightarrow> snd (host_do (HStoreSet a f) s))"

section \<open>The groups of the switch\<close>

text \<open>Time, and the default.\<close>

definition dispatch_time ::
  "bsd_request \<Rightarrow> nat \<Rightarrow> bsd_reply \<Rightarrow> 'a bsd_scheme \<Rightarrow> kern_return_t \<times> bsd_reply \<times> 'a bsd_scheme" where
  "dispatch_time req p reply s =
     (if rq_syscall_num req = BSD_SYSCALL_GETTIMEOFDAY then
        (if ptr (rq_arg1 req) \<noteq> 0 then answer reply (host_int (HGettimeofday (ptr (rq_arg1 req))) s)
         else (KERN_SUCCESS, reply\<lparr>rp_ret_code := - 1, rp_errno_val := EINVAL\<rparr>, s))
      else if rq_syscall_num req = BSD_SYSCALL_GETRUSAGE then
        (if ptr (rq_arg2 req) \<noteq> 0
         then answer reply (host_int (HGetrusage (rq_arg1 req) (ptr (rq_arg2 req))) s)
         else (KERN_SUCCESS, reply\<lparr>rp_ret_code := - 1, rp_errno_val := EINVAL\<rparr>, s))
      else (KERN_INVALID_ARGUMENT, reply\<lparr>rp_ret_code := - 1, rp_errno_val := ENOSYS\<rparr>, s))"

text \<open>Signals and memory.\<close>

definition dispatch_memory ::
  "bsd_request \<Rightarrow> nat \<Rightarrow> bsd_reply \<Rightarrow> 'a bsd_scheme \<Rightarrow> kern_return_t \<times> bsd_reply \<times> 'a bsd_scheme" where
  "dispatch_memory req p reply s =
     (let n = rq_syscall_num req; a1 = rq_arg1 req; a2 = rq_arg2 req in
      if n = BSD_SYSCALL_KILL then answer reply (bsd_signal_kill a1 a2 s)
      else if n = BSD_SYSCALL_BRK then
        (let (r, s) = bsd_memory_brk (Some p) (ptr a1) s
         in (KERN_SUCCESS, reply\<lparr>rp_ret_code := ptr_ret r\<rparr>, s))
      else if n = BSD_SYSCALL_SBRK then
        (let (r, s) = bsd_memory_sbrk (Some p) a1 s
         in (KERN_SUCCESS, reply\<lparr>rp_ret_code := ptr_ret r\<rparr>, s))
      else if n = BSD_SYSCALL_MMAP then
        (let (r, s) = bsd_memory_mmap (Some p) (ptr a1) (word_of_int a2) (rq_arg3 req) (rq_arg4 req)
                        (rq_arg5 req) (rq_arg6 req) s
         in (KERN_SUCCESS, reply\<lparr>rp_ret_code := ptr_ret r,
               rp_errno_val := (if r = - 1 then bsd_errno s else 0)\<rparr>, s))
      else if n = BSD_SYSCALL_MUNMAP then
        answer reply (bsd_memory_munmap (Some p) (ptr a1) (word_of_int a2) s)
      else dispatch_time req p reply s)"

text \<open>Paths and select.\<close>

definition dispatch_path ::
  "bsd_request \<Rightarrow> nat \<Rightarrow> bsd_reply \<Rightarrow> 'a bsd_scheme \<Rightarrow>
   (kern_return_t \<times> bsd_reply \<times> 'a bsd_scheme) option" where
  "dispatch_path req p reply s =
     (let n = rq_syscall_num req; a1 = rq_arg1 req; a2 = rq_arg2 req in
      if n = BSD_SYSCALL_STAT then Some (answer reply (bsd_fd_stat (Some p) (ptr a1) (ptr a2) s))
      else if n = BSD_SYSCALL_FSTAT then Some (answer reply (bsd_fd_fstat (Some p) a1 (ptr a2) s))
      else if n = BSD_SYSCALL_ACCESS then Some (answer reply (bsd_fd_access (Some p) (ptr a1) a2 s))
      else if n = BSD_SYSCALL_CHDIR then Some (answer reply (bsd_fd_chdir (Some p) (ptr a1) s))
      else if n = BSD_SYSCALL_GETCWD then
        Some (answer reply (bsd_fd_getcwd (Some p) (ptr a1) (c_size a2) s))
      else if n = BSD_SYSCALL_CHMOD then
        Some (answer reply (bsd_fd_chmod (Some p) (ptr a1) (c_uint a2) s))
      else if n = BSD_SYSCALL_UNLINK then Some (answer reply (bsd_fd_unlink (Some p) (ptr a1) s))
      else if n = BSD_SYSCALL_RENAME then
        Some (answer reply (bsd_fd_rename (Some p) (ptr a1) (ptr a2) s))
      else if n = BSD_SYSCALL_MKDIR then
        Some (answer reply (bsd_fd_mkdir (Some p) (ptr a1) (c_uint a2) s))
      else if n = BSD_SYSCALL_RMDIR then Some (answer reply (bsd_fd_rmdir (Some p) (ptr a1) s))
      else if n = BSD_SYSCALL_SELECT then do {
        let (pr, pw, pe) = (ptr a2, ptr (rq_arg3 req), ptr (rq_arg4 req));
        (ret, (r, w, e), s) \<leftarrow> bsd_fd_select (Some p) a1 (fd_set_at pr s) (fd_set_at pw s)
                               (fd_set_at pe s) (ptr (rq_arg5 req)) s;
        let s = (if ret < 0 then s else put_fd_set pe e (put_fd_set pw w (put_fd_set pr r s)));
        Some (answer reply (ret, s))
      }
      else Some (dispatch_memory req p reply s))"

text \<open>File I/O.\<close>

definition dispatch_file ::
  "bsd_request \<Rightarrow> nat \<Rightarrow> bsd_reply \<Rightarrow> 'a bsd_scheme \<Rightarrow>
   (kern_return_t \<times> bsd_reply \<times> 'a bsd_scheme) option" where
  "dispatch_file req p reply s =
     (let n = rq_syscall_num req; a1 = rq_arg1 req; a2 = rq_arg2 req; a3 = rq_arg3 req in
      if n = BSD_SYSCALL_OPEN then Some (answer reply (bsd_fd_open (Some p) (ptr a1) a2 a3 s))
      else if n = BSD_SYSCALL_CLOSE then Some (answer reply (bsd_fd_close (Some p) a1 s))
      else if n = BSD_SYSCALL_READ then
        Some (answer reply (bsd_fd_read (Some p) a1 (ptr a2) (c_size a3) s))
      else if n = BSD_SYSCALL_WRITE then
        Some (answer reply (bsd_fd_write (Some p) a1 (ptr a2) (c_size a3) s))
      else if n = BSD_SYSCALL_LSEEK then Some (answer reply (bsd_fd_lseek (Some p) a1 a2 a3 s))
      else if n = BSD_SYSCALL_DUP then Some (answer reply (bsd_fd_dup (Some p) a1 s))
      else if n = BSD_SYSCALL_DUP2 then Some (answer reply (bsd_fd_dup2 (Some p) a1 a2 s))
      else if n = BSD_SYSCALL_PIPE then
        (let (ret, fds, s) = bsd_fd_pipe (Some p) (Some (bh_stack (bsd_host s) (host_now s))) s;
             (r0, r1) = the fds
         in Some (answer (reply\<lparr>rp_out_arg1 := r0, rp_out_arg2 := r1\<rparr>) (ret, s)))
      else if n = BSD_SYSCALL_IOCTL then
        Some (answer reply (bsd_fd_ioctl (Some p) a1 (c_size a2) (ptr a3) s))
      else if n = BSD_SYSCALL_FCNTL then Some (answer reply (bsd_fd_fcntl (Some p) a1 a2 a3 s))
      else dispatch_path req p reply s)"

text \<open>Processes.\<close>

definition dispatch_process ::
  "bsd_request \<Rightarrow> nat \<Rightarrow> bsd_reply \<Rightarrow> 'a bsd_scheme \<Rightarrow>
   (kern_return_t \<times> bsd_reply \<times> 'a bsd_scheme) option" where
  "dispatch_process req p reply s =
     (let n = rq_syscall_num req; a1 = rq_arg1 req in
      if n = BSD_SYSCALL_EXIT then
        Some (KERN_SUCCESS, reply\<lparr>rp_ret_code := 0\<rparr>, snd (bsd_syscall_exit (Some p) a1 s))
      else if n = BSD_SYSCALL_FORK then Some (bsd_syscall_fork (Some p) reply s)
      else if n = BSD_SYSCALL_EXEC then
        Some (answer_kr reply (bsd_syscall_exec (Some p) (ptr a1) None None s))
      else if n = BSD_SYSCALL_WAITPID then
        Some (bsd_syscall_waitpid (Some p) a1 (ptr (rq_arg2 req)) (rq_arg3 req) reply s)
      else if n = BSD_SYSCALL_GETPID then Some (bsd_syscall_getpid (Some p) reply s)
      else if n = BSD_SYSCALL_GETPPID then Some (bsd_syscall_getppid (Some p) reply s)
      else if n = BSD_SYSCALL_GETUID then Some (bsd_syscall_getuid (Some p) reply s)
      else if n = BSD_SYSCALL_GETEUID then Some (bsd_syscall_geteuid (Some p) reply s)
      else if n = BSD_SYSCALL_GETGID then Some (bsd_syscall_getgid (Some p) reply s)
      else if n = BSD_SYSCALL_GETEGID then Some (bsd_syscall_getegid (Some p) reply s)
      else if n = BSD_SYSCALL_SETUID then
        Some (answer_kr reply (bsd_syscall_setuid (Some p) (c_uint a1) s))
      else if n = BSD_SYSCALL_SETGID then
        Some (answer_kr reply (bsd_syscall_setgid (Some p) (c_uint a1) s))
      else dispatch_file req p reply s)"

definition bsd_syscall_dispatch ::
  "bsd_request \<Rightarrow> 'a bsd_scheme \<Rightarrow> (kern_return_t \<times> bsd_reply \<times> 'a bsd_scheme) option" where
  "bsd_syscall_dispatch req s =
     (case bsd_process_lookup (rq_caller_pid req) s of
        None \<Rightarrow> Some (KERN_INVALID_TASK, zero_reply\<lparr>rp_ret_code := - 1, rp_errno_val := ESRCH\<rparr>, s)
      | Some p \<Rightarrow> dispatch_process req p zero_reply s)"

end
