(* ===== verification/Bsd_Server.thy ===== *)
theory Bsd_Server
  imports Bsd_Syscall
begin

text \<open>
  The BSD server itself: \<^verbatim>\<open>Developer/BSD/bsd_ipc.c\<close> and \<^verbatim>\<open>bsd.c\<close>.  Messages are the byte buffers
  of the port layer.  What other threads do while the server sleeps is a parameter of the
  operations that sleep.
\<close>

section \<open>Message passing\<close>

definition bsd_ipc_init :: "'a bsd_scheme \<Rightarrow> kern_return_t \<times> 'a bsd_scheme" where
  "bsd_ipc_init s =
     (let (port, s) = mach_port_allocate MACH_PORT_RIGHT_RECEIVE s;
          s = s\<lparr>bs_bsd_port := port\<rparr>
      in (if port = MACH_PORT_NULL then KERN_FAILURE else KERN_SUCCESS, s))"

definition bsd_ipc_shutdown :: "'a bsd_scheme \<Rightarrow> 'a bsd_scheme" where
  "bsd_ipc_shutdown s =
     (if bs_bsd_port s \<noteq> MACH_PORT_NULL
      then (snd (mach_port_destroy (bs_bsd_port s) s))\<lparr>bs_bsd_port := MACH_PORT_NULL\<rparr>
      else s)"

text \<open>\<open>msg\<close> is the caller's buffer, \<open>None\<close> a null pointer; the buffer with the header written is
  returned.\<close>

definition bsd_ipc_send ::
  "mach_port_t \<Rightarrow> msg_buf option \<Rightarrow> uint32 \<Rightarrow> 'a bsd_scheme \<Rightarrow>
   (kern_return_t \<times> msg_buf option \<times> 'a bsd_scheme) option" where
  "bsd_ipc_send dest msg sz s =
     (if dest = MACH_PORT_NULL then Some (KERN_INVALID_ARGUMENT, msg, s)
      else (case msg of
        None \<Rightarrow> Some (KERN_INVALID_ARGUMENT, msg, s)
      | Some m \<Rightarrow>
          if mach_port_lookup dest s = None then Some (KERN_INVALID_RIGHT, msg, s)
          else do {
            m \<leftarrow> wr32 m MSGH_REMOTE_PORT (word_of_int dest);
            m \<leftarrow> wr32 m MSGH_SIZE sz;
            (kr, s) \<leftarrow> mach_port_queue_message dest m s;
            Some (kr, Some m, s)
          }))"

definition bsd_ipc_receive ::
  "('a bsd_scheme \<Rightarrow> 'a bsd_scheme) \<Rightarrow> mach_port_t \<Rightarrow> msg_buf option \<Rightarrow> uint32 \<Rightarrow> int \<Rightarrow>
   'a bsd_scheme \<Rightarrow> (kern_return_t \<times> msg_buf option \<times> 'a bsd_scheme) option" where
  "bsd_ipc_receive usleep src msg sz timeout s =
     (if src = MACH_PORT_NULL then Some (KERN_INVALID_ARGUMENT, msg, s)
      else (case msg of
        None \<Rightarrow> Some (KERN_INVALID_ARGUMENT, msg, s)
      | Some m \<Rightarrow>
          if mach_port_lookup src s = None then Some (KERN_INVALID_RIGHT, msg, s)
          else
            (let (queued, s) = mach_port_dequeue_message src s;
                 (queued, s) = (case queued of
                                  None \<Rightarrow> mach_port_dequeue_message src (usleep s)
                                | Some q \<Rightarrow> (Some q, s))
             in (case queued of
                   None \<Rightarrow> Some (if 0 < timeout then KERN_ABORTED else KERN_FAILURE, msg, s)
                 | Some q \<Rightarrow> do {
                     copy_size \<leftarrow> rd32 q MSGH_SIZE;
                     m \<leftarrow> c_memcpy m q (unat (min copy_size sz));
                     Some (KERN_SUCCESS, Some m, s)
                   }))))"

definition bsd_ipc_register_service ::
  "cstr option \<Rightarrow> 'a bsd_scheme \<Rightarrow> kern_return_t \<times> 'a bsd_scheme" where
  "bsd_ipc_register_service name s = bootstrap_register name (bs_bsd_port s) s"

section \<open>Start\<close>

text \<open>\<open>port_str\<close> is \<^verbatim>\<open>MANGO_BOOTSTRAP_PORT\<close> of the environment, as \<^verbatim>\<open>atoi\<close> reads it; \<open>bsd_name\<close>
  is the string \<^verbatim>\<open>"bsd"\<close>.\<close>

definition bsd_name :: cstr where
  "bsd_name = [98, 115, 100]"

definition zero_bsd_server :: "'a bsd_scheme \<Rightarrow> 'a bsd_scheme" where
  "zero_bsd_server s =
     s\<lparr>bs_initialized := False, bs_running := False, bs_bsd_port := 0, bs_host_port := MACH_PORT_NULL,
       bs_host_priv_port := MACH_PORT_NULL,
       bs_process_table := replicate BSD_MAX_PROCESSES zero_process, bs_process_count := 0,
       bs_next_pid := 0\<rparr>"

definition bsd_server_start :: "int option \<Rightarrow> 'a bsd_scheme \<Rightarrow> kern_return_t \<times> 'a bsd_scheme" where
  "bsd_server_start port_str s =
     (let s = zero_bsd_server s;
          s = (case port_str of None \<Rightarrow> s | Some n \<Rightarrow> s\<lparr>bs_host_port := n\<rparr>);
          (kr, s) = bsd_ipc_init s
      in if kr \<noteq> KERN_SUCCESS then (kr, s)
         else
           (let (kr, s) = bsd_ipc_register_service (Some bsd_name) s
            in if kr \<noteq> KERN_SUCCESS then (kr, s)
               else
                 (let (kr, s) = bsd_process_init s
                  in if kr \<noteq> KERN_SUCCESS then (kr, s)
                     else (KERN_SUCCESS, s\<lparr>bs_initialized := True\<rparr>))))"

section \<open>The dispatch loop\<close>

definition BSD_MSG_ID_SYSCALL :: int where "BSD_MSG_ID_SYSCALL = 0x600"
definition BSD_MSG_ID_SYSCALL_RET :: int where "BSD_MSG_ID_SYSCALL_RET = 0x601"
definition SIZEOF_SYSCALL_REPLY :: nat where "SIZEOF_SYSCALL_REPLY = 36"

text \<open>The fields of \<^verbatim>\<open>bsd_syscall_request_t\<close> follow the header; \<^verbatim>\<open>bsd_syscall_reply_t\<close> too.\<close>

definition read_request :: "msg_buf \<Rightarrow> bsd_request option" where
  "read_request m = do {
     n \<leftarrow> rd32 m 20; a1 \<leftarrow> rd32 m 24; a2 \<leftarrow> rd32 m 28; a3 \<leftarrow> rd32 m 32; a4 \<leftarrow> rd32 m 36;
     a5 \<leftarrow> rd32 m 40; a6 \<leftarrow> rd32 m 44; pid \<leftarrow> rd32 m 48;
     Some \<lparr>rq_syscall_num = sint n, rq_arg1 = sint a1, rq_arg2 = sint a2, rq_arg3 = sint a3,
           rq_arg4 = sint a4, rq_arg5 = sint a5, rq_arg6 = sint a6, rq_caller_pid = sint pid\<rparr>
   }"

definition reply_bytes :: "bsd_reply \<Rightarrow> mach_port_t \<Rightarrow> msg_buf option" where
  "reply_bytes r remote = do {
     m \<leftarrow> wr32 (c_zeroed SIZEOF_SYSCALL_REPLY) MSGH_SIZE (of_nat SIZEOF_SYSCALL_REPLY);
     m \<leftarrow> wr32 m MSGH_ID (word_of_int BSD_MSG_ID_SYSCALL_RET);
     m \<leftarrow> wr32 m 20 (word_of_int (rp_ret_code r));
     m \<leftarrow> wr32 m 24 (word_of_int (rp_errno_val r));
     m \<leftarrow> wr32 m 28 (word_of_int (rp_out_arg1 r));
     m \<leftarrow> wr32 m 32 (word_of_int (rp_out_arg2 r));
     wr32 m MSGH_REMOTE_PORT (word_of_int remote)
   }"

definition serve_syscall :: "msg_buf \<Rightarrow> 'a bsd_scheme \<Rightarrow> 'a bsd_scheme option" where
  "serve_syscall msg s = do {
     req \<leftarrow> read_request msg;
     (_, reply, s) \<leftarrow> bsd_syscall_dispatch req s;
     local \<leftarrow> rd32 msg MSGH_LOCAL_PORT;
     if sint local \<noteq> MACH_PORT_NULL then do {
       out \<leftarrow> reply_bytes reply (sint local);
       (_, s) \<leftarrow> mach_port_queue_message (sint local) out s;
       Some s
     } else Some s
   }"

text \<open>The reply buffer of a bootstrap request is a bare header.\<close>

definition serve_bootstrap :: "msg_buf \<Rightarrow> 'a bsd_scheme \<Rightarrow> 'a bsd_scheme option" where
  "serve_bootstrap msg s = do {
     reply_msg \<leftarrow> wr32 (c_zeroed SIZEOF_MACH_MSG) MSGH_SIZE (of_nat SIZEOF_MACH_MSG);
     (_, reply_msg, s) \<leftarrow> bootstrap_handle_request (Some msg) (Some reply_msg) s;
     local \<leftarrow> rd32 msg MSGH_LOCAL_PORT;
     if sint local \<noteq> MACH_PORT_NULL then do {
       (_, s) \<leftarrow> mach_port_queue_message (sint local) (the reply_msg) s;
       Some s
     } else Some s
   }"

definition serve_message :: "msg_buf \<Rightarrow> 'a bsd_scheme \<Rightarrow> 'a bsd_scheme option" where
  "serve_message msg s = do {
     idw \<leftarrow> rd32 msg MSGH_ID;
     let id = sint idw;
     if id = BSD_MSG_ID_SYSCALL then serve_syscall msg s
     else if id = MACH_MSG_ID_BOOTSTRAP_REGISTER \<or> id = MACH_MSG_ID_BOOTSTRAP_LOOKUP
     then serve_bootstrap msg s
     else Some s
   }"

definition deliver_all :: "'a bsd_scheme \<Rightarrow> 'a bsd_scheme" where
  "deliver_all s =
     fold (\<lambda>i s. if bp_in_use (proc_obj i s) \<and> bp_running (proc_obj i s)
                  then bsd_signal_deliver (Some i) s else s) [0..<BSD_MAX_PROCESSES] s"

definition bsd_poll_port :: "'a bsd_scheme \<Rightarrow> 'a bsd_scheme option" where
  "bsd_poll_port s =
     (case mach_port_lookup (bs_bsd_port s) s of
        None \<Rightarrow> Some s
      | Some i \<Rightarrow>
          if po_count (port_obj i s) = 0 then Some s
          else (case mach_port_dequeue_message (bs_bsd_port s) s of
                  (None, s) \<Rightarrow> Some s
                | (Some msg, s) \<Rightarrow> serve_message msg s))"

definition bsd_round :: "('a bsd_scheme \<Rightarrow> 'a bsd_scheme) \<Rightarrow> 'a bsd_scheme \<Rightarrow> 'a bsd_scheme option" where
  "bsd_round usleep s = do {
     (_, s) \<leftarrow> bsd_process_reap s;
     let s = deliver_all s;
     s \<leftarrow> bsd_poll_port s;
     Some (usleep s)
   }"

text \<open>\<^verbatim>\<open>bsd_server_loop\<close>, cut after as many rounds as the list of sleeps is long: the state then, and
  whether the loop has ended.\<close>

fun bsd_loop ::
  "('a bsd_scheme \<Rightarrow> 'a bsd_scheme) list \<Rightarrow> 'a bsd_scheme \<Rightarrow> (bool \<times> 'a bsd_scheme) option" where
  "bsd_loop [] s = Some (\<not> bs_running s, s)"
| "bsd_loop (usleep # rest) s =
     (if \<not> bs_running s then Some (True, s)
      else do { s \<leftarrow> bsd_round usleep s; bsd_loop rest s })"

definition bsd_server_loop ::
  "('a bsd_scheme \<Rightarrow> 'a bsd_scheme) list \<Rightarrow> 'a bsd_scheme \<Rightarrow> (bool \<times> 'a bsd_scheme) option" where
  "bsd_server_loop sleeps s = bsd_loop sleeps (s\<lparr>bs_running := True\<rparr>)"

section \<open>Shutdown\<close>

definition terminate_process :: "nat \<Rightarrow> 'a bsd_scheme \<Rightarrow> 'a bsd_scheme" where
  "terminate_process i s =
     (if bp_in_use (proc_obj i s) \<and> bp_running (proc_obj i s)
      then snd (bsd_syscall_exit (Some i) 0 (snd (host_do (HKill (bp_pid (proc_obj i s)) SIGTERM) s)))
      else s)"

definition bsd_server_shutdown :: "'a bsd_scheme \<Rightarrow> 'a bsd_scheme" where
  "bsd_server_shutdown s =
     (let s = fold terminate_process (rev [0..<BSD_MAX_PROCESSES]) s;
          s = bsd_ipc_shutdown s
      in s\<lparr>bs_running := False, bs_initialized := False\<rparr>)"

text \<open>\<^verbatim>\<open>bsd_server_main\<close>, as far as the given number of rounds.\<close>

definition bsd_server_main ::
  "int option \<Rightarrow> ('a bsd_scheme \<Rightarrow> 'a bsd_scheme) list \<Rightarrow> 'a bsd_scheme \<Rightarrow> 'a bsd_scheme option" where
  "bsd_server_main port_str sleeps s =
     (case bsd_server_start port_str s of
        (kr, s) \<Rightarrow>
          if kr \<noteq> KERN_SUCCESS then Some s
          else do {
            (ended, s) \<leftarrow> bsd_server_loop sleeps s;
            Some (if ended then bsd_server_shutdown s else s)
          })"

end
