(* ===== verification/Bsd_Fd_Correct.thy ===== *)
theory Bsd_Fd_Correct
  imports Bsd_Process
begin

text \<open>
  Which host descriptors the server holds open, and which descriptor table entry owns which.
  \<open>host_live\<close> replays the calls made; \<open>trace_ok\<close> is the promise of POSIX that a call which opens a
  descriptor returns one that was not open.
\<close>

section \<open>Open descriptors of the host\<close>

fun opens :: "host_call \<Rightarrow> bool" where
  "opens (HOpen _ _ _) = True"
| "opens (HDup _) = True"
| "opens _ = False"

definition live_after :: "host_call \<times> host_result \<Rightarrow> int list \<Rightarrow> int list" where
  "live_after e live =
     (case e of
        (HClose fd, r) \<Rightarrow> removeAll fd live
      | (HPipe, r) \<Rightarrow> if hr_ret r < 0 then live else hr_ret r # hr_ret2 r # live
      | (HDup2 _ _, r) \<Rightarrow> if hr_ret r < 0 then live else hr_ret r # live
      | (c, r) \<Rightarrow> if opens c \<and> 0 \<le> hr_ret r then hr_ret r # live else live)"

definition host_live :: "int list \<Rightarrow> 'a bsd_scheme \<Rightarrow> int list" where
  "host_live base s = fold live_after (bsd_trace s) base"

definition fresh_result :: "int list \<Rightarrow> host_call \<times> host_result \<Rightarrow> bool" where
  "fresh_result live e =
     (case e of
        (HPipe, r) \<Rightarrow> 0 \<le> hr_ret r \<longrightarrow> 0 \<le> hr_ret2 r \<and> hr_ret r \<noteq> hr_ret2 r \<and>
                       hr_ret r \<notin> set live \<and> hr_ret2 r \<notin> set live
      | (HDup2 _ target, r) \<Rightarrow> 0 \<le> hr_ret r \<longrightarrow> hr_ret r = target
      | (c, r) \<Rightarrow> opens c \<and> 0 \<le> hr_ret r \<longrightarrow> hr_ret r \<notin> set live)"

fun trace_ok :: "int list \<Rightarrow> (host_call \<times> host_result) list \<Rightarrow> bool" where
  "trace_ok live [] = True"
| "trace_ok live (e # es) \<longleftrightarrow> fresh_result live e \<and> trace_ok (live_after e live) es"

lemma trace_ok_append [simp]:
  "trace_ok live (xs @ ys) \<longleftrightarrow> trace_ok live xs \<and> trace_ok (fold live_after xs live) ys"
  by (induction xs arbitrary: live) auto

lemma host_live_do [simp]:
  "host_live base (snd (host_do c s)) = live_after (c, fst (host_do c s)) (host_live base s)"
  by (simp add: host_live_def)

lemma host_live_upd [simp]:
  "host_live base (upd_proc p f s) = host_live base s" "host_live base (set_errno e s) = host_live base s"
  by (simp_all add: host_live_def)

section \<open>Shape of the tables\<close>

definition tables_ok :: "'a bsd_scheme \<Rightarrow> bool" where
  "tables_ok s \<longleftrightarrow>
     length (bs_process_table s) = BSD_MAX_PROCESSES \<and>
     (\<forall>p < BSD_MAX_PROCESSES. length (bp_fd_table (proc_obj p s)) = BSD_MAX_FD)"

lemma tables_ok_host_do [simp]: "tables_ok (snd (host_do c s)) = tables_ok s"
  by (simp add: tables_ok_def)

lemma tables_ok_set_errno [simp]: "tables_ok (set_errno e s) = tables_ok s"
  by (simp add: tables_ok_def)

lemma upd_fd_fields [simp]:
  "bsd_trace (upd_fd p i f s) = bsd_trace s" "bsd_host (upd_fd p i f s) = bsd_host s"
  "bsd_errno (upd_fd p i f s) = bsd_errno s" "host_live base (upd_fd p i f s) = host_live base s"
  "mxwl_port_table (upd_fd p i f s) = mxwl_port_table s"
  by (simp_all add: upd_fd_def)

lemma tables_ok_upd:
  "tables_ok s \<Longrightarrow> (\<And>q. length (bp_fd_table (f q)) = length (bp_fd_table q)) \<Longrightarrow>
   tables_ok (upd_proc p f s)"
  unfolding tables_ok_def
  by (cases "p < BSD_MAX_PROCESSES")
     (auto simp: upd_proc_def proc_obj_def nth_list_update)

lemma tables_ok_upd_fd [simp]: "tables_ok s \<Longrightarrow> tables_ok (upd_fd p i f s)"
  unfolding upd_fd_def by (rule tables_ok_upd) simp_all

lemma fd_obj_upd_fd:
  "tables_ok s \<Longrightarrow> p < BSD_MAX_PROCESSES \<Longrightarrow> i < BSD_MAX_FD \<Longrightarrow>
   fd_obj q j (upd_fd p i f s) = (if q = p \<and> j = i then f (fd_obj p i s) else fd_obj q j s)"
  unfolding tables_ok_def upd_fd_def fd_obj_def
  by (cases "q = p") (auto simp: nth_list_update)

lemma fd_obj_upd_proc:
  "tables_ok s \<Longrightarrow> p < BSD_MAX_PROCESSES \<Longrightarrow> (\<And>q. bp_fd_table (f q) = bp_fd_table q) \<Longrightarrow>
   fd_obj q j (upd_proc p f s) = fd_obj q j s"
  unfolding tables_ok_def fd_obj_def by (cases "q = p") auto

lemma find_free_fd:
  "bsd_fd_find_free p s = Some i \<Longrightarrow> i < BSD_MAX_FD \<and> \<not> fe_in_use (fd_obj p i s)"
  by (simp add: bsd_fd_find_free_def find_upt_Some)

lemma fd_check_Some:
  "fd_check proc fd s = Some (p, i) \<Longrightarrow>
   proc = Some p \<and> i = nat fd \<and> 0 \<le> fd \<and> i < BSD_MAX_FD \<and> fe_in_use (fd_obj p i s)"
  by (auto simp: fd_check_def split: option.splits if_splits)

section \<open>Ownership\<close>

text \<open>The entries in use of all tables, and the invariant: no two hold the same descriptor, and each
  descriptor they hold is open.\<close>

definition used_fds :: "'a bsd_scheme \<Rightarrow> (nat \<times> nat) set" where
  "used_fds s = {(p, i). p < BSD_MAX_PROCESSES \<and> i < BSD_MAX_FD \<and> fe_in_use (fd_obj p i s)}"

definition held :: "'a bsd_scheme \<Rightarrow> nat \<times> nat \<Rightarrow> int" where
  "held s pi = fe_host_fd (fd_obj (fst pi) (snd pi) s)"

definition fds_owned :: "int list \<Rightarrow> 'a bsd_scheme \<Rightarrow> bool" where
  "fds_owned base s \<longleftrightarrow>
     tables_ok s \<and> inj_on (held s) (used_fds s) \<and> held s ` used_fds s \<subseteq> set (host_live base s)"

text \<open>An entry that takes over a free place, with a descriptor that was not open.\<close>

lemma owned_take:
  assumes "fds_owned base s" "p < BSD_MAX_PROCESSES" "i < BSD_MAX_FD" "\<not> fe_in_use (fd_obj p i s)"
    and "fd \<notin> set (host_live base s)" "set (host_live base s') = insert fd (set (host_live base s))"
    and "tables_ok s'" "fe_in_use (fd_obj p i s')" "fe_host_fd (fd_obj p i s') = fd"
    and "\<And>q j. (q, j) \<noteq> (p, i) \<Longrightarrow> fd_obj q j s' = fd_obj q j s"
  shows "fds_owned base s'"
proof -
  have used: "used_fds s' = insert (p, i) (used_fds s)"
  proof (rule set_eqI)
    fix x
    show "x \<in> used_fds s' \<longleftrightarrow> x \<in> insert (p, i) (used_fds s)"
    proof (cases "x = (p, i)")
      case True
      then show ?thesis using assms(2,3,8) by (simp add: used_fds_def)
    next
      case False
      then show ?thesis using assms(10) [of "fst x" "snd x"] by (cases x) (auto simp: used_fds_def)
    qed
  qed
  have eq: "held s' x = held s x" if "x \<in> used_fds s" for x
  proof -
    have "x \<noteq> (p, i)" using that assms(4) by (auto simp: used_fds_def)
    then show ?thesis using assms(10) [of "fst x" "snd x"] by (simp add: held_def)
  qed
  have "held s' (p, i) = fd"
    using assms(9) by (simp add: held_def)
  moreover have "fd \<notin> held s ` used_fds s"
    using assms(1,5) by (auto simp: fds_owned_def)
  ultimately show ?thesis
    using assms(1,6,7) eq unfolding fds_owned_def used
    by (auto simp: inj_on_def image_iff)
qed

text \<open>An entry that is given up, with its descriptor closed.\<close>

lemma owned_drop:
  assumes "fds_owned base s" "(p, i) \<in> used_fds s"
    and "set (host_live base s') = set (host_live base s) - {fe_host_fd (fd_obj p i s)}"
    and "tables_ok s'" "\<not> fe_in_use (fd_obj p i s')"
    and "\<And>q j. (q, j) \<noteq> (p, i) \<Longrightarrow> fd_obj q j s' = fd_obj q j s"
  shows "fds_owned base s'"
proof -
  have used: "used_fds s' = used_fds s - {(p, i)}"
  proof (rule set_eqI)
    fix x
    show "x \<in> used_fds s' \<longleftrightarrow> x \<in> used_fds s - {(p, i)}"
    proof (cases "x = (p, i)")
      case True
      then show ?thesis using assms(5) by (simp add: used_fds_def)
    next
      case False
      then show ?thesis using assms(6) [of "fst x" "snd x"] by (cases x) (auto simp: used_fds_def)
    qed
  qed
  have eq: "held s' x = held s x" if "x \<in> used_fds s - {(p, i)}" for x
    using that assms(6) [of "fst x" "snd x"] by (simp add: held_def)
  have "held s x \<noteq> fe_host_fd (fd_obj p i s)" if "x \<in> used_fds s - {(p, i)}" for x
    using that assms(1,2) by (auto simp: fds_owned_def inj_on_def held_def)
  with eq show ?thesis
    using assms(1,3,4) unfolding fds_owned_def used
    by (auto simp: inj_on_def)
qed

text \<open>Operations that leave the tables and the open descriptors alone.\<close>

lemma owned_same:
  assumes "fds_owned base s" "tables_ok s'" "set (host_live base s') = set (host_live base s)"
    and "\<And>q j. fd_obj q j s' = fd_obj q j s"
  shows "fds_owned base s'"
  using assms by (auto simp: fds_owned_def used_fds_def held_def inj_on_def)

lemma host_doE: obtains r s' where "host_do c s = (r, s')" "r = fst (host_do c s)" "s' = snd (host_do c s)"
  by (cases "host_do c s") simp

lemma owned_open:
  assumes "fds_owned base s" "proc = Some p" "p < BSD_MAX_PROCESSES"
    and "trace_ok base (bsd_trace (snd (bsd_fd_open proc path flags mode s)))"
  shows "fds_owned base (snd (bsd_fd_open proc path flags mode s))"
proof -
  let ?c = "HOpen path flags mode"
  let ?r = "fst (host_do ?c s)" and ?s = "snd (host_do ?c s)"
  have ok: "tables_ok s" using assms(1) by (simp add: fds_owned_def)
  show ?thesis
  proof (cases "path = 0 \<or> bsd_fd_find_free p s = None \<or> hr_ret ?r < 0")
    case True
    then show ?thesis
      using assms(1) ok
      by (intro owned_same [OF assms(1)])
        (auto simp: bsd_fd_open_def assms(2) Let_def case_prod_unfold live_after_def split: option.splits)
  next
    case False
    then obtain slot where slot: "bsd_fd_find_free p s = Some slot" and ge: "0 \<le> hr_ret ?r" and "path \<noteq> 0"
      by auto
    note free = find_free_fd [OF slot]
    let ?f = "\<lambda>e. e\<lparr>fe_host_fd := hr_ret ?r, fe_in_use := True, fe_access_mode := flags AND 3,
                fe_flags := (if flags AND O_CLOEXEC \<noteq> 0 then FD_CLOEXEC else 0),
                fe_path := path_copy (string_at path ?s)\<rparr>"
    have res: "snd (bsd_fd_open proc path flags mode s) = upd_fd p slot ?f ?s"
      using slot ge \<open>path \<noteq> 0\<close> by (simp add: bsd_fd_open_def assms(2) Let_def case_prod_unfold)
    have "hr_ret ?r \<notin> set (host_live base s)"
      using assms(4) ge unfolding res by (simp add: fresh_result_def host_live_def)
    then show ?thesis
      unfolding res using assms(3) ok free ge
      by (intro owned_take [OF assms(1), of p slot "hr_ret ?r"])
        (auto simp: fd_obj_upd_fd live_after_def)
  qed
qed

lemma owned_dup:
  assumes "fds_owned base s" "proc = Some p" "p < BSD_MAX_PROCESSES"
    and "trace_ok base (bsd_trace (snd (bsd_fd_dup proc oldfd s)))"
  shows "fds_owned base (snd (bsd_fd_dup proc oldfd s))"
proof (cases "fd_check proc oldfd s")
  case None
  then show ?thesis
    using assms(1) by (intro owned_same [OF assms(1)]) (auto simp: bsd_fd_dup_def bad_fd_def fds_owned_def)
next
  case (Some po)
  then obtain old where chk: "fd_check proc oldfd s = Some (p, old)"
    using assms(2) fd_check_Some by (cases po) fastforce
  let ?c = "HDup (fe_host_fd (fd_obj p old s))"
  let ?r = "fst (host_do ?c s)" and ?s = "snd (host_do ?c s)"
  have ok: "tables_ok s" using assms(1) by (simp add: fds_owned_def)
  show ?thesis
  proof (cases "bsd_fd_find_free p s = None \<or> hr_ret ?r < 0")
    case True
    then show ?thesis
      using ok chk
      by (intro owned_same [OF assms(1)])
        (auto simp: bsd_fd_dup_def Let_def case_prod_unfold live_after_def split: option.splits)
  next
    case False
    then obtain slot where slot: "bsd_fd_find_free p s = Some slot" and ge: "0 \<le> hr_ret ?r"
      by auto
    note free = find_free_fd [OF slot]
    have res: "snd (bsd_fd_dup proc oldfd s) = upd_fd p slot (dup_entry (hr_ret ?r) (fd_obj p old ?s)) ?s"
      using slot ge chk by (simp add: bsd_fd_dup_def Let_def case_prod_unfold)
    have "hr_ret ?r \<notin> set (host_live base s)"
      using assms(4) ge unfolding res by (simp add: fresh_result_def host_live_def)
    then show ?thesis
      unfolding res using assms(3) ok free ge
      by (intro owned_take [OF assms(1), of p slot "hr_ret ?r"])
        (auto simp: fd_obj_upd_fd live_after_def dup_entry_def)
  qed
qed

lemma owned_close:
  assumes "fds_owned base s" "proc = Some p" "p < BSD_MAX_PROCESSES"
  shows "fds_owned base (snd (bsd_fd_close proc fd s))"
proof (cases "fd_check proc fd s")
  case None
  then show ?thesis
    using assms(1) by (intro owned_same [OF assms(1)]) (auto simp: bsd_fd_close_def bad_fd_def fds_owned_def)
next
  case (Some po)
  then obtain i where chk: "fd_check proc fd s = Some (p, i)"
    using assms(2) fd_check_Some by (cases po) fastforce
  have i: "i < BSD_MAX_FD" "fe_in_use (fd_obj p i s)"
    using fd_check_Some [OF chk] by blast+
  let ?s = "snd (host_do (HClose (fe_host_fd (fd_obj p i s))) s)"
  let ?s' = "upd_fd p i (\<lambda>e. e\<lparr>fe_in_use := False, fe_host_fd := - 1\<rparr>) ?s"
  have ok: "tables_ok s" using assms(1) by (simp add: fds_owned_def)
  have res: "snd (bsd_fd_close proc fd s) = upd_proc p (\<lambda>q. q\<lparr>bp_fd_count := bp_fd_count q - 1\<rparr>) ?s'"
    using chk by (simp add: bsd_fd_close_def Let_def case_prod_unfold)
  have obj: "fd_obj q j (upd_proc p (\<lambda>q. q\<lparr>bp_fd_count := bp_fd_count q - 1\<rparr>) ?s') = fd_obj q j ?s'" for q j
    using ok assms(3) by (intro fd_obj_upd_proc) simp_all
  show ?thesis
    unfolding res using assms(3) ok i
    by (intro owned_drop [OF assms(1), of p i])
      (auto simp: obj fd_obj_upd_fd live_after_def used_fds_def intro!: tables_ok_upd)
qed

text \<open>Closing every descriptor of a process that meets a condition.\<close>

lemma owned_close_fd_if:
  assumes "fds_owned base s" "p < BSD_MAX_PROCESSES" "i < BSD_MAX_FD"
  shows "fds_owned base (close_fd_if P p i s)"
proof (cases "fe_in_use (fd_obj p i s) \<and> P (fd_obj p i s)")
  case True
  then show ?thesis
    using assms unfolding close_fd_if_def
    by (simp, intro owned_drop [OF assms(1), of p i])
       (auto simp: fd_obj_upd_fd live_after_def used_fds_def fds_owned_def)
qed (use assms(1) in \<open>auto simp: close_fd_if_def\<close>)

lemma owned_close_fds:
  assumes "fds_owned base s" "p < BSD_MAX_PROCESSES"
  shows "fds_owned base (close_fds P p s)"
proof -
  have "fds_owned base (fold (close_fd_if P p) is s)" if "\<forall>i \<in> set is. i < BSD_MAX_FD" for "is"
    using that assms(1) by (induction "is" arbitrary: s) (simp_all add: owned_close_fd_if assms(2))
  then show ?thesis
    unfolding close_fds_def by simp
qed

lemma close_fds_trace: "\<exists>t. bsd_trace (close_fds P p s) = bsd_trace s @ t"
proof -
  have "\<exists>t. bsd_trace (fold (close_fd_if P p) is s) = bsd_trace s @ t" for "is"
  proof (induction "is" arbitrary: s)
    case (Cons i "is")
    have "\<exists>t. bsd_trace (close_fd_if P p i s) = bsd_trace s @ t"
      by (simp add: close_fd_if_def)
    with Cons.IH [of "close_fd_if P p i s"] show ?case
      by auto
  qed simp
  then show ?thesis by (simp add: close_fds_def)
qed

lemma owned_kill: "fds_owned base s \<Longrightarrow> fds_owned base (snd (host_do (HKill a b) s))"
  by (rule owned_same) (auto simp: live_after_def fds_owned_def)

lemma owned_exit:
  assumes "fds_owned base s" "p < BSD_MAX_PROCESSES"
  shows "fds_owned base (snd (bsd_syscall_exit (Some p) status s))"
proof (cases "bp_in_use (proc_obj p s)")
  case True
  let ?f = "\<lambda>q :: bsd_process. q\<lparr>bp_exit_status := status, bp_running := False, bp_zombie := True\<rparr>"
  let ?s1 = "upd_proc p ?f s" and ?s2 = "close_fds (\<lambda>_. True) p (upd_proc p ?f s)"
  have "fds_owned base ?s1"
    using assms by (intro owned_same [OF assms(1)])
      (auto simp: fd_obj_upd_proc fds_owned_def intro!: tables_ok_upd)
  then have own: "fds_owned base ?s2"
    by (rule owned_close_fds) (rule assms(2))
  have "snd (bsd_syscall_exit (Some p) status s) = ?s2 \<or>
        (\<exists>a b. snd (bsd_syscall_exit (Some p) status s) = snd (host_do (HKill a b) ?s2))"
    using True by (auto simp: bsd_syscall_exit_def bsd_signal_kill_def host_int_def Let_def case_prod_unfold)
  then show ?thesis
    using own owned_kill [OF own] by auto
qed (use assms in \<open>simp add: bsd_syscall_exit_def\<close>)

lemma exit_trace: "\<exists>t. bsd_trace (snd (bsd_syscall_exit proc status s)) = bsd_trace s @ t"
proof (cases proc)
  case (Some p)
  obtain t where "bsd_trace (close_fds (\<lambda>_. True) p
      (upd_proc p (\<lambda>q. q\<lparr>bp_exit_status := status, bp_running := False, bp_zombie := True\<rparr>) s)) = bsd_trace s @ t"
    using close_fds_trace [of "\<lambda>_. True" p "upd_proc p (\<lambda>q. q\<lparr>bp_exit_status := status, bp_running := False, bp_zombie := True\<rparr>) s"]
    by auto
  with Some show ?thesis
    by (simp add: bsd_syscall_exit_def bsd_signal_kill_def host_int_def Let_def case_prod_unfold)
qed (simp add: bsd_syscall_exit_def)

section \<open>Sequences of operations\<close>

datatype fd_op =
    Fd_Open addr int int
  | Fd_Close int
  | Fd_Dup int
  | Fd_Exit int

text \<open>An operation of the process \<open>p\<close>, and a sequence of them by any processes.\<close>

fun fd_step :: "nat \<times> fd_op \<Rightarrow> 'a bsd_scheme \<Rightarrow> 'a bsd_scheme" where
  "fd_step (p, Fd_Open path flags mode) s = snd (bsd_fd_open (Some p) path flags mode s)"
| "fd_step (p, Fd_Close fd) s = snd (bsd_fd_close (Some p) fd s)"
| "fd_step (p, Fd_Dup fd) s = snd (bsd_fd_dup (Some p) fd s)"
| "fd_step (p, Fd_Exit status) s = snd (bsd_syscall_exit (Some p) status s)"

definition fd_run :: "(nat \<times> fd_op) list \<Rightarrow> 'a bsd_scheme \<Rightarrow> 'a bsd_scheme" where
  "fd_run ops s = fold fd_step ops s"

text \<open>The record of calls only grows, so the promise for the whole holds for a part.\<close>

lemma open_trace: "\<exists>t. bsd_trace (snd (bsd_fd_open proc path flags mode s)) = bsd_trace s @ t"
  by (auto simp: bsd_fd_open_def Let_def case_prod_unfold split: option.splits)

lemma close_trace: "\<exists>t. bsd_trace (snd (bsd_fd_close proc fd s)) = bsd_trace s @ t"
  by (auto simp: bsd_fd_close_def bad_fd_def Let_def case_prod_unfold split: option.splits)

lemma dup_trace: "\<exists>t. bsd_trace (snd (bsd_fd_dup proc fd s)) = bsd_trace s @ t"
  by (auto simp: bsd_fd_dup_def bad_fd_def Let_def case_prod_unfold split: option.splits)

lemma fd_step_trace: "\<exists>t. bsd_trace (fd_step po s) = bsd_trace s @ t"
  by (cases "(po, s)" rule: fd_step.cases) (simp_all add: open_trace close_trace dup_trace exit_trace)

lemma fd_run_trace: "\<exists>t. bsd_trace (fd_run ops s) = bsd_trace s @ t"
proof (induction ops arbitrary: s)
  case (Cons po ops)
  from Cons.IH [of "fd_step po s"] fd_step_trace [of po s] show ?case
    by (auto simp: fd_run_def)
qed (simp add: fd_run_def)

lemma fd_step_owned:
  "fds_owned base s \<Longrightarrow> fst po < BSD_MAX_PROCESSES \<Longrightarrow> trace_ok base (bsd_trace (fd_step po s)) \<Longrightarrow>
   fds_owned base (fd_step po s)"
  by (cases "(po, s)" rule: fd_step.cases) (auto intro: owned_open owned_close owned_dup owned_exit)

lemma fd_run_owned:
  assumes "fds_owned base s" "\<forall>po \<in> set ops. fst po < BSD_MAX_PROCESSES"
    and "trace_ok base (bsd_trace (fd_run ops s))"
  shows "fds_owned base (fd_run ops s)"
  using assms
proof (induction ops arbitrary: s)
  case (Cons po ops)
  have run: "fd_run (po # ops) s = fd_run ops (fd_step po s)"
    by (simp add: fd_run_def)
  obtain t where "bsd_trace (fd_run ops (fd_step po s)) = bsd_trace (fd_step po s) @ t"
    using fd_run_trace by blast
  with Cons.prems have "fds_owned base (fd_step po s)"
    by (intro fd_step_owned) (auto simp: run)
  with Cons show ?case
    by (simp add: run)
qed (simp add: fd_run_def)

section \<open>Pipes and \<^verbatim>\<open>dup2\<close>\<close>

text \<open>Both searches of \<^verbatim>\<open>bsd_fd_pipe\<close> see the same table.\<close>

lemma pipe_success:
  assumes "bsd_fd_find_free p s = Some i" "0 \<le> hr_ret (fst (host_do HPipe s))"
  shows "bsd_fd_pipe (Some p) (Some fds) s =
    (0, Some (int i, int i),
     upd_fd p i (\<lambda>e. e\<lparr>fe_host_fd := hr_ret2 (fst (host_do HPipe s)), fe_in_use := True,
                       fe_access_mode := O_WRONLY\<rparr>)
      (upd_fd p i (\<lambda>e. e\<lparr>fe_host_fd := hr_ret (fst (host_do HPipe s)), fe_in_use := True,
                       fe_access_mode := O_RDONLY\<rparr>) (snd (host_do HPipe s))))"
  using assms by (simp add: bsd_fd_pipe_def Let_def case_prod_unfold)

end
