(* ===== verification/Bsd_Correct.thy ===== *)
theory Bsd_Correct
  imports Bsd_Server Bsd_Fd_Correct
begin

text \<open>
  The process table of the BSD server under every system call and every round of the dispatch loop.
  \<open>obs\<close> is what the counters have to agree with: the flag of the loop, the two counters, and for
  each entry whether it is in use and how long its descriptor table is.  Most operations leave it
  alone; the equations that say so are rewrite rules.
\<close>

definition shape :: "bsd_process \<Rightarrow> bool \<times> nat" where
  "shape q = (bp_in_use q, length (bp_fd_table q))"

definition obs :: "'a bsd_scheme \<Rightarrow> bool \<times> int \<times> int \<times> (bool \<times> nat) list" where
  "obs s = (bs_running s, bs_counter s, bs_process_count s, map shape (bs_process_table s))"

lemma obs_host_do [simp]: "obs (snd (host_do c s)) = obs s"
  by (simp add: obs_def)

lemma obs_set_errno [simp]: "obs (set_errno e s) = obs s"
  by (simp add: obs_def)

lemma obs_upd_proc [simp]:
  assumes "\<And>q. bp_in_use (f q) = bp_in_use q" "\<And>q. length (bp_fd_table (f q)) = length (bp_fd_table q)"
  shows "obs (upd_proc p f s) = obs s"
proof -
  have "shape (f q) = shape q" for q
    using assms by (simp add: shape_def)
  then have "map shape ((bs_process_table s)[p := f (proc_obj p s)]) = map shape (bs_process_table s)"
    by (cases "p < length (bs_process_table s)")
       (simp_all add: map_update proc_obj_def list_update_beyond, metis list_update_id nth_map)
  then show ?thesis
    by (simp add: obs_def upd_proc_def)
qed

lemma obs_upd_fd [simp]: "obs (upd_fd p i f s) = obs s"
  by (simp add: upd_fd_def)

lemma obs_upd_all:
  "obs (upd_proc p f s) =
     (bs_running s, bs_counter s, bs_process_count s,
      (map shape (bs_process_table s))[p := shape (f (proc_obj p s))])"
  by (simp add: obs_def upd_proc_def map_update)

lemma obs_fold:
  "(\<And>x s. obs (f x s) = obs s) \<Longrightarrow> obs (fold f xs s) = obs s"
  by (induction xs arbitrary: s) auto

section \<open>The port layer\<close>

lemma obs_more: "kport.more s' = kport.more s \<Longrightarrow> obs s' = obs s"
  by (cases s, cases s') (simp add: obs_def)

lemma obs_ports [simp]:
  "obs (snd (mach_port_allocate right s)) = obs s"
  "obs (snd (mach_port_destroy port s)) = obs s"
  "obs (snd (mach_port_dequeue_message port s)) = obs s"
  by (rule obs_more, simp)+

lemma obs_queue: "mach_port_queue_message port msg s = Some (kr, s') \<Longrightarrow> obs s' = obs s"
  by (rule obs_more, rule queue_message_more)

lemma obs_register [simp]: "obs (snd (bootstrap_register name port s)) = obs s"
  by (auto simp: bootstrap_register_def obs_def split: option.splits)

lemma obs_bootstrap:
  "bootstrap_handle_request req rep s = Some (kr, rep', s') \<Longrightarrow> obs s' = obs s"
  using obs_register
  by (auto simp: bootstrap_handle_request_def Let_def case_prod_unfold Option.bind_eq_Some_conv
      split: option.splits if_splits)

section \<open>Operations that leave the shape alone\<close>

lemma obs_host_int [simp]: "obs (snd (host_int c s)) = obs s"
  by (simp add: host_int_def Let_def case_prod_unfold)

lemma obs_fd_ops [simp]:
  "obs (snd (bad_fd s)) = obs s"
  "obs (snd (bsd_fd_open proc path flags mode s)) = obs s"
  "obs (snd (bsd_fd_close proc fd s)) = obs s"
  "obs (snd (bsd_fd_dup proc fd s)) = obs s"
  "obs (snd (bsd_fd_dup2 proc fd fd' s)) = obs s"
  "obs (snd (snd (bsd_fd_pipe proc fds s))) = obs s"
  by (auto simp: bad_fd_def bsd_fd_open_def bsd_fd_close_def bsd_fd_dup_def bsd_fd_dup2_def
      bsd_fd_pipe_def Let_def case_prod_unfold split: option.splits)

lemma obs_fd_calls [simp]:
  "obs (snd (bsd_fd_read proc fd buf n s)) = obs s"
  "obs (snd (bsd_fd_write proc fd buf n s)) = obs s"
  "obs (snd (bsd_fd_lseek proc fd off wh s)) = obs s"
  "obs (snd (bsd_fd_ioctl proc fd rq arg s)) = obs s"
  "obs (snd (bsd_fd_fcntl proc fd cmd n s)) = obs s"
  "obs (snd (bsd_fd_fstat proc fd buf s)) = obs s"
  by (auto simp: bsd_fd_read_def bsd_fd_write_def bsd_fd_lseek_def bsd_fd_ioctl_def bsd_fd_fcntl_def
      bsd_fd_fstat_def Let_def case_prod_unfold split: option.splits)

lemma obs_paths [simp]:
  "obs (snd (bsd_fd_stat proc path buf s)) = obs s"
  "obs (snd (bsd_fd_access proc path n s)) = obs s"
  "obs (snd (bsd_fd_chdir proc path s)) = obs s"
  "obs (snd (bsd_fd_getcwd proc buf n s)) = obs s"
  "obs (snd (bsd_fd_chmod proc path n s)) = obs s"
  "obs (snd (bsd_fd_unlink proc path s)) = obs s"
  "obs (snd (bsd_fd_rename proc path path' s)) = obs s"
  "obs (snd (bsd_fd_mkdir proc path n s)) = obs s"
  "obs (snd (bsd_fd_rmdir proc path s)) = obs s"
  by (auto simp: bsd_fd_stat_def bsd_fd_access_def bsd_fd_chdir_def bsd_fd_getcwd_def bsd_fd_chmod_def
      bsd_fd_unlink_def bsd_fd_rename_def bsd_fd_mkdir_def bsd_fd_rmdir_def Let_def case_prod_unfold
      split: option.splits)

lemma obs_select:
  "bsd_fd_select proc nfds r w e timeout s = Some (ret, sets, s') \<Longrightarrow> obs s' = obs s"
  by (auto simp: bsd_fd_select_def Let_def case_prod_unfold Option.bind_eq_Some_conv
      split: option.splits if_splits)

lemma obs_sbrk [simp]: "obs (snd (sbrk n s)) = obs s"
  by (simp add: sbrk_def Let_def case_prod_unfold)

lemma deliver_one_shape [simp]:
  "bp_in_use (deliver_one pending sig q) = bp_in_use q"
  "bp_fd_table (deliver_one pending sig q) = bp_fd_table q"
  by (simp_all add: deliver_one_def Let_def)

lemma deliver_shape [simp]:
  "bp_in_use (deliver_signals q) = bp_in_use q" "bp_fd_table (deliver_signals q) = bp_fd_table q"
proof -
  have "bp_in_use (fold (deliver_one pending) sigs q) = bp_in_use q \<and>
        bp_fd_table (fold (deliver_one pending) sigs q) = bp_fd_table q" for pending sigs
    by (induction sigs arbitrary: q) simp_all
  then show "bp_in_use (deliver_signals q) = bp_in_use q" "bp_fd_table (deliver_signals q) = bp_fd_table q"
    by (simp_all add: deliver_signals_def Let_def)
qed

lemma obs_signals_memory [simp]:
  "obs (snd (bsd_signal_init proc s)) = obs s"
  "obs (snd (bsd_signal_kill pid sig s)) = obs s"
  "obs (bsd_signal_deliver proc s) = obs s"
  "obs (snd (bsd_memory_init proc s)) = obs s"
  "obs (snd (bsd_memory_brk proc a s)) = obs s"
  "obs (snd (bsd_memory_sbrk proc n s)) = obs s"
  "obs (snd (bsd_memory_mmap proc a len pr fl fd off s)) = obs s"
  "obs (snd (bsd_memory_munmap proc a len s)) = obs s"
  by (auto simp: bsd_signal_init_def bsd_signal_kill_def bsd_signal_deliver_def bsd_memory_init_def
      bsd_memory_brk_def bsd_memory_sbrk_def bsd_memory_mmap_def bsd_memory_munmap_def Let_def
      case_prod_unfold split: option.splits)

lemma obs_fd_init [simp]: "obs (snd (bsd_fd_init proc s)) = obs s"
  by (auto simp: bsd_fd_init_def fd_init_std_def Let_def case_prod_unfold split: option.splits)

lemma obs_read_cwd [simp]: "obs (read_cwd p s) = obs s"
  by (simp add: read_cwd_def Let_def case_prod_unfold)

lemma obs_close_fds [simp]: "obs (close_fds P p s) = obs s"
  unfolding close_fds_def by (rule obs_fold) (simp add: close_fd_if_def)

lemma obs_free_strings [simp]: "obs (free_strings as s) = obs s"
  unfolding free_strings_def by (rule obs_fold) simp

lemma obs_dup_strings [simp]: "obs (snd (dup_strings as s)) = obs s"
  by (induction as arbitrary: s) (simp_all add: Let_def case_prod_unfold)

lemma obs_exec_exit [simp]:
  "obs (snd (bsd_syscall_exec proc path argv envp s)) = obs s"
  "obs (snd (bsd_syscall_exit proc status s)) = obs s"
  by (auto simp: bsd_syscall_exec_def bsd_syscall_exit_def copy_vector_def Let_def case_prod_unfold
      split: option.splits)

lemma obs_ids [simp]:
  "obs (snd (bsd_syscall_setuid proc n s)) = obs s"
  "obs (snd (bsd_syscall_setgid proc n s)) = obs s"
  "obs (snd (snd (query field proc reply s))) = obs s"
  by (auto simp: bsd_syscall_setuid_def bsd_syscall_setgid_def query_def split: option.splits)

lemma obs_reap_one [simp]: "obs (reap_one pid status s) = obs s"
  by (auto simp: reap_one_def Let_def split: option.splits)

lemma obs_reap_loop: "reap_loop s = Some s' \<Longrightarrow> obs s' = obs s"
proof (induction rule: reap_loop.raw_induct [rotated, consumes 1, case_names step])
  case (step f s r)
  then show ?case
    by (auto simp: Let_def split: if_splits)
qed

section \<open>Taking and releasing entries\<close>

lemma obs_counters [simp]:
  "obs (s\<lparr>bs_counter := n\<rparr>) = (fst (obs s), n, snd (snd (obs s)))"
  "obs (s\<lparr>bs_process_count := n\<rparr>) = (fst (obs s), fst (snd (obs s)), n, snd (snd (snd (obs s))))"
  by (simp_all add: obs_def)

lemma obs_proj [simp]: "fst (snd (obs s)) = bs_counter s"
  by (simp add: obs_def)

lemma counter_obs: "obs s' = obs s \<Longrightarrow> bs_counter s' = bs_counter s"
  by (simp add: obs_def)

text \<open>The entry an allocation fills in, and the state before the counters are moved.\<close>

definition new_process :: "int \<Rightarrow> host_ids \<Rightarrow> bsd_process" where
  "new_process pid ids =
     zero_process\<lparr>bp_pid := pid, bp_ppid := hi_pid ids, bp_in_use := True, bp_running := True,
       bp_uid := hi_uid ids, bp_euid := hi_euid ids, bp_gid := hi_gid ids, bp_egid := hi_egid ids\<rparr>"

definition alloc_body :: "int \<Rightarrow> nat \<Rightarrow> 'a bsd_scheme \<Rightarrow> 'a bsd_scheme" where
  "alloc_body pid p s =
     (let s1 = read_cwd p (upd_proc p (\<lambda>_. new_process pid (ids_now s)) s);
          (tp, s2) = mach_port_allocate MACH_PORT_RIGHT_RECEIVE s1;
          (bp, s3) = mach_port_allocate MACH_PORT_RIGHT_RECEIVE (upd_proc p (\<lambda>q. q\<lparr>bp_task_port := tp\<rparr>) s2);
          s4 = snd (bsd_fd_init (Some p) (upd_proc p (\<lambda>q. q\<lparr>bp_bootstrap_port := bp\<rparr>) s3))
      in snd (bsd_memory_init (Some p) (snd (bsd_signal_init (Some p) s4))))"

lemma process_alloc_body:
  assumes "bs_counter s < int BSD_MAX_PROCESSES" "find_free_process s = Some p"
  shows "bsd_process_alloc pid s =
    (KERN_SUCCESS, Some p,
     (alloc_body pid p s)\<lparr>bs_counter := bs_counter (alloc_body pid p s) + 1,
                         bs_process_count := bs_counter (alloc_body pid p s) + 1\<rparr>)"
  using assms by (simp add: bsd_process_alloc_def alloc_body_def new_process_def Let_def case_prod_unfold)

lemma alloc_body_obs:
  "obs (alloc_body pid p s) =
    (bs_running s, bs_counter s, bs_process_count s,
     (map shape (bs_process_table s))[p := (True, BSD_MAX_FD)])"
proof -
  have "shape (new_process pid ids) = (True, BSD_MAX_FD)" for ids
    by (simp add: shape_def new_process_def zero_process_def)
  then have "obs (upd_proc p (\<lambda>_. new_process pid (ids_now s)) s) =
      (bs_running s, bs_counter s, bs_process_count s, (map shape (bs_process_table s))[p := (True, BSD_MAX_FD)])"
    by (simp add: obs_upd_all)
  then show ?thesis
    by (simp add: alloc_body_def Let_def case_prod_unfold)
qed

lemma process_alloc_obs:
  assumes "bs_counter s < int BSD_MAX_PROCESSES" "find_free_process s = Some p"
  shows "obs (snd (snd (bsd_process_alloc pid s))) =
    (bs_running s, bs_counter s + 1, bs_counter s + 1,
     (map shape (bs_process_table s))[p := (True, BSD_MAX_FD)])"
proof -
  have "bs_counter (alloc_body pid p s) = bs_counter s"
    using alloc_body_obs [of pid p s] by (simp add: obs_def)
  then show ?thesis
    by (simp add: process_alloc_body [OF assms] alloc_body_obs)
qed

lemma process_alloc_fails:
  "int BSD_MAX_PROCESSES \<le> bs_counter s \<or> find_free_process s = None \<Longrightarrow>
   bsd_process_alloc pid s = (KERN_NO_SPACE, None, s)"
  by (auto simp: bsd_process_alloc_def)

text \<open>Releasing an entry, before it is marked free.\<close>

definition free_body :: "nat \<Rightarrow> 'a bsd_scheme \<Rightarrow> 'a bsd_scheme" where
  "free_body p s =
     (let s1 = close_fds (\<lambda>_. True) p s;
          s2 = free_strings (take (bp_argc (proc_obj p s1)) (bp_argv (proc_obj p s1))) s1;
          s3 = upd_proc p (\<lambda>q. q\<lparr>bp_argc := 0\<rparr>) s2
      in free_strings (take (bp_envc (proc_obj p s3)) (bp_envp (proc_obj p s3))) s3)"

lemma free_body_obs [simp]: "obs (free_body p s) = obs s"
  by (simp add: free_body_def Let_def)

lemma process_free_body:
  "bp_in_use (proc_obj p s) \<Longrightarrow>
   bsd_process_free (Some p) s =
     (upd_proc p (\<lambda>q. q\<lparr>bp_envc := 0, bp_in_use := False, bp_running := False\<rparr>) (free_body p s))
       \<lparr>bs_counter := bs_counter (free_body p s) - 1, bs_process_count := bs_counter (free_body p s) - 1\<rparr>"
  by (simp add: bsd_process_free_def free_body_def Let_def)

lemma process_free_obs:
  assumes "tables_ok s" "p < BSD_MAX_PROCESSES" "bp_in_use (proc_obj p s)"
  shows "obs (bsd_process_free (Some p) s) =
    (bs_running s, bs_counter s - 1, bs_counter s - 1,
     (map shape (bs_process_table s))[p := (False, BSD_MAX_FD)])"
proof -
  have o: "bs_running (free_body p s) = bs_running s" "bs_counter (free_body p s) = bs_counter s"
    "map shape (bs_process_table (free_body p s)) = map shape (bs_process_table s)"
    using free_body_obs [of p s] by (simp_all add: obs_def)
  have "length (bs_process_table (free_body p s)) = BSD_MAX_PROCESSES"
    using o(3) assms(1) by (metis length_map tables_ok_def)
  then have "shape (proc_obj p (free_body p s)) = shape (proc_obj p s)"
    using o(3) assms(1,2) by (metis nth_map proc_obj_def tables_ok_def)
  then have "length (bp_fd_table (proc_obj p (free_body p s))) = BSD_MAX_FD"
    using assms(1,2) by (simp add: shape_def tables_ok_def)
  with o show ?thesis
    by (simp add: process_free_body [OF assms(3)] obs_upd_all) (simp add: shape_def)
qed

section \<open>The invariant of the table\<close>

definition used_count :: "(bool \<times> nat) list \<Rightarrow> nat" where
  "used_count shapes = length (filter fst shapes)"

definition procs_ok :: "'a bsd_scheme \<Rightarrow> bool" where
  "procs_ok s \<longleftrightarrow>
     tables_ok s \<and> bs_counter s = int (length (filter bp_in_use (bs_process_table s))) \<and>
     bs_process_count s = bs_counter s"

definition obs_ok :: "bool \<times> int \<times> int \<times> (bool \<times> nat) list \<Rightarrow> bool" where
  "obs_ok ob \<longleftrightarrow>
     (case ob of
        (_, n, m, shapes) \<Rightarrow>
          length shapes = BSD_MAX_PROCESSES \<and> list_all (\<lambda>x. snd x = BSD_MAX_FD) shapes \<and>
          n = int (used_count shapes) \<and> m = n)"

lemma procs_ok_obs: "procs_ok s \<longleftrightarrow> obs_ok (obs s)"
proof -
  have "length (filter bp_in_use (bs_process_table s)) = used_count (map shape (bs_process_table s))"
    by (simp add: used_count_def filter_map o_def shape_def)
  then show ?thesis
    by (auto simp: procs_ok_def obs_ok_def obs_def tables_ok_def list_all_length shape_def proc_obj_def)
qed

lemma obs_ok_take:
  "obs_ok (r, n, m, shapes) \<Longrightarrow> p < BSD_MAX_PROCESSES \<Longrightarrow> \<not> fst (shapes ! p) \<Longrightarrow>
   obs_ok (r', n + 1, n + 1, shapes[p := (True, BSD_MAX_FD)])"
  using length_filter_update [of p shapes fst "(True, BSD_MAX_FD)"]
  by (auto simp: obs_ok_def used_count_def list_all_length nth_list_update)

lemma obs_ok_release:
  "obs_ok (r, n, m, shapes) \<Longrightarrow> p < BSD_MAX_PROCESSES \<Longrightarrow> fst (shapes ! p) \<Longrightarrow>
   obs_ok (r', n - 1, n - 1, shapes[p := (False, BSD_MAX_FD)])"
  using length_filter_update [of p shapes fst "(False, BSD_MAX_FD)"]
  by (auto simp: obs_ok_def used_count_def list_all_length nth_list_update)

text \<open>What every operation keeps: the invariant and the flag of the loop.\<close>

definition kept :: "'a bsd_scheme \<Rightarrow> 'a bsd_scheme \<Rightarrow> bool" where
  "kept s s' \<longleftrightarrow> (procs_ok s \<longrightarrow> procs_ok s' \<and> bs_running s' = bs_running s)"

lemma kept_obs: "obs s' = obs s \<Longrightarrow> kept s s'"
  by (simp add: kept_def procs_ok_obs) (simp add: obs_def)

lemma kept_trans: "kept s s' \<Longrightarrow> kept s' s'' \<Longrightarrow> kept s s''"
  by (simp add: kept_def)

lemma kept_obs_trans: "kept s s' \<Longrightarrow> obs s'' = obs s' \<Longrightarrow> kept s s''"
  by (blast intro: kept_trans kept_obs)

lemma procs_ok_tables: "procs_ok s \<Longrightarrow> tables_ok s"
  by (simp add: procs_ok_def)

lemma kept_alloc: "kept s (snd (snd (bsd_process_alloc pid s)))"
proof (cases "int BSD_MAX_PROCESSES \<le> bs_counter s \<or> find_free_process s = None")
  case True
  then show ?thesis by (simp add: process_alloc_fails kept_def)
next
  case False
  then obtain p where lt: "bs_counter s < int BSD_MAX_PROCESSES" and p: "find_free_process s = Some p"
    by auto
  have free: "p < BSD_MAX_PROCESSES" "\<not> bp_in_use (proc_obj p s)"
    using p by (simp_all add: find_free_process_def find_upt_Some)
  show ?thesis
    unfolding kept_def
  proof
    assume ok: "procs_ok s"
    then have "\<not> fst (map shape (bs_process_table s) ! p)"
      using free by (simp add: procs_ok_def tables_ok_def shape_def proc_obj_def)
    with ok have "obs_ok (obs (snd (snd (bsd_process_alloc pid s))))"
      unfolding process_alloc_obs [OF lt p] procs_ok_obs obs_def [of s] using free(1) by (intro obs_ok_take)
    with process_alloc_obs [OF lt p, of pid]
    show "procs_ok (snd (snd (bsd_process_alloc pid s))) \<and>
          bs_running (snd (snd (bsd_process_alloc pid s))) = bs_running s"
      unfolding procs_ok_obs by (simp add: obs_def)
  qed
qed

lemma kept_free: "p < BSD_MAX_PROCESSES \<Longrightarrow> kept s (bsd_process_free (Some p) s)"
proof (cases "bp_in_use (proc_obj p s)")
  case True
  assume p: "p < BSD_MAX_PROCESSES"
  show ?thesis
    unfolding kept_def
  proof
    assume ok: "procs_ok s"
    then have "fst (map shape (bs_process_table s) ! p)"
      using p True by (simp add: procs_ok_def tables_ok_def shape_def proc_obj_def)
    note eq = process_free_obs [OF procs_ok_tables [OF ok] p True]
    have "obs_ok (obs (bsd_process_free (Some p) s))"
      unfolding eq by (rule obs_ok_release [OF _ p]) (use ok in \<open>simp add: procs_ok_obs obs_def\<close>, fact)
    with eq show "procs_ok (bsd_process_free (Some p) s) \<and> bs_running (bsd_process_free (Some p) s) = bs_running s"
      unfolding procs_ok_obs by (simp add: obs_def)
  qed
qed (simp add: bsd_process_free_def kept_def)

section \<open>System calls\<close>

lemma process_lookup_Some:
  "bsd_process_lookup pid s = Some p \<Longrightarrow>
   p < BSD_MAX_PROCESSES \<and> bp_in_use (proc_obj p s) \<and> bp_pid (proc_obj p s) = pid"
  by (simp add: bsd_process_lookup_def find_upt_Some)

lemma wait_target_Some:
  "wait_target p pid s = Some t \<Longrightarrow>
   t < BSD_MAX_PROCESSES \<and> bp_in_use (proc_obj t s) \<and> bp_zombie (proc_obj t s) \<and>
   bp_ppid (proc_obj t s) = bp_pid (proc_obj p s)"
  by (auto simp: wait_target_def find_upt_Some dest: process_lookup_Some split: if_splits option.splits)

lemma kept_fork: "kept s (snd (snd (bsd_syscall_fork proc reply s)))"
proof -
  have "kept s (snd (snd (bsd_process_alloc pid (snd (host_do HFork s)))))" for pid
    using kept_trans [OF kept_obs [OF obs_host_do] kept_alloc] .
  then have "kept s (upd_proc c f (snd (snd (bsd_process_alloc pid (snd (host_do HFork s))))))"
    if "\<And>q. bp_in_use (f q) = bp_in_use q" "\<And>q. length (bp_fd_table (f q)) = length (bp_fd_table q)" for c f pid
    using obs_upd_proc [OF that] by (rule kept_obs_trans)
  with \<open>\<And>pid. kept s (snd (snd (bsd_process_alloc pid (snd (host_do HFork s)))))\<close> show ?thesis
    by (auto simp: bsd_syscall_fork_def Let_def case_prod_unfold kept_obs split: option.splits)
qed

lemma kept_waitpid: "kept s (snd (snd (bsd_syscall_waitpid proc pid st opt reply s)))"
proof (cases proc)
  case None
  then show ?thesis by (simp add: bsd_syscall_waitpid_def kept_obs)
next
  case (Some p)
  show ?thesis
  proof (cases "wait_target p pid s")
    case None
    with Some show ?thesis by (simp add: bsd_syscall_waitpid_def kept_obs)
  next
    case (Some t)
    have "kept s (bsd_process_free (Some t) s)"
      using wait_target_Some [OF Some] by (intro kept_free) simp
    with Some \<open>proc = Some p\<close> show ?thesis
      by (auto simp: bsd_syscall_waitpid_def Let_def intro: kept_obs_trans)
  qed
qed

lemma answer_state [simp]:
  "snd (snd (answer reply res)) = snd res" "snd (snd (answer_kr reply res')) = snd res'"
  by (simp_all add: answer_def answer_kr_def split: prod.splits)

lemma obs_dispatch_time: "obs (snd (snd (dispatch_time req p reply s))) = obs s"
  by (simp add: dispatch_time_def)

lemma obs_dispatch_memory: "obs (snd (snd (dispatch_memory req p reply s))) = obs s"
  by (simp add: dispatch_memory_def Let_def case_prod_unfold obs_dispatch_time)

lemma obs_put_fd_set [simp]: "obs (put_fd_set a fds s) = obs s"
  by (simp add: put_fd_set_def split: option.splits)

lemma obs_dispatch_path: "dispatch_path req p reply s = Some r \<Longrightarrow> obs (snd (snd r)) = obs s"
  by (auto simp: dispatch_path_def Let_def case_prod_unfold Option.bind_eq_Some_conv obs_dispatch_memory
      dest: obs_select split: if_splits)

lemma obs_dispatch_file: "dispatch_file req p reply s = Some r \<Longrightarrow> obs (snd (snd r)) = obs s"
  by (auto simp: dispatch_file_def Let_def case_prod_unfold dest: obs_dispatch_path split: if_splits)

lemma obs_queries [simp]:
  "obs (snd (snd (bsd_syscall_getpid proc reply s))) = obs s"
  "obs (snd (snd (bsd_syscall_getppid proc reply s))) = obs s"
  "obs (snd (snd (bsd_syscall_getuid proc reply s))) = obs s"
  "obs (snd (snd (bsd_syscall_geteuid proc reply s))) = obs s"
  "obs (snd (snd (bsd_syscall_getgid proc reply s))) = obs s"
  "obs (snd (snd (bsd_syscall_getegid proc reply s))) = obs s"
  by (simp_all add: bsd_syscall_getpid_def bsd_syscall_getppid_def bsd_syscall_getuid_def
      bsd_syscall_geteuid_def bsd_syscall_getgid_def bsd_syscall_getegid_def)

lemma kept_dispatch_process: "dispatch_process req p reply s = Some r \<Longrightarrow> kept s (snd (snd r))"
  by (auto simp: dispatch_process_def Let_def kept_fork kept_waitpid
      intro: kept_obs dest: obs_dispatch_file split: if_splits)

lemma kept_dispatch: "bsd_syscall_dispatch req s = Some (kr, reply, s') \<Longrightarrow> kept s s'"
  by (auto simp: bsd_syscall_dispatch_def kept_obs dest: kept_dispatch_process split: option.splits)

section \<open>Rounds of the dispatch loop\<close>

lemma kept_serve_syscall: "serve_syscall msg s = Some s' \<Longrightarrow> kept s s'"
  by (auto simp: serve_syscall_def Option.bind_eq_Some_conv split: if_splits
      dest: kept_dispatch obs_queue intro: kept_obs_trans)

lemma kept_serve_bootstrap: "serve_bootstrap msg s = Some s' \<Longrightarrow> kept s s'"
  by (auto simp: serve_bootstrap_def Option.bind_eq_Some_conv split: if_splits
      dest!: obs_bootstrap obs_queue intro: kept_obs)

lemma kept_serve: "serve_message msg s = Some s' \<Longrightarrow> kept s s'"
  by (auto simp: serve_message_def Let_def Option.bind_eq_Some_conv kept_obs split: if_splits
      dest: kept_serve_syscall kept_serve_bootstrap)

lemma obs_deliver_all [simp]: "obs (deliver_all s) = obs s"
  unfolding deliver_all_def by (rule obs_fold) simp

lemma kept_poll: "bsd_poll_port s = Some s' \<Longrightarrow> kept s s'"
proof -
  assume poll: "bsd_poll_port s = Some s'"
  show ?thesis
  proof (cases "mach_port_lookup (bs_bsd_port s) s = None \<or>
                po_count (port_obj (the (mach_port_lookup (bs_bsd_port s) s)) s) = 0 \<or>
                fst (mach_port_dequeue_message (bs_bsd_port s) s) = None")
    case True
    with poll have "s' = s \<or> s' = snd (mach_port_dequeue_message (bs_bsd_port s) s)"
      by (cases "mach_port_dequeue_message (bs_bsd_port s) s")
         (auto simp: bsd_poll_port_def split: option.splits if_splits)
    then have "obs s' = obs s" by auto
    then show ?thesis by (rule kept_obs)
  next
    case False
    then obtain msg t where dq: "mach_port_dequeue_message (bs_bsd_port s) s = (Some msg, t)"
      by (cases "mach_port_dequeue_message (bs_bsd_port s) s") auto
    with poll False have "serve_message msg t = Some s'"
      by (auto simp: bsd_poll_port_def)
    moreover have "obs t = obs s"
      using obs_ports(3) [of "bs_bsd_port s" s] dq by simp
    ultimately show ?thesis
      by (blast intro: kept_trans kept_obs kept_serve)
  qed
qed

lemma kept_round:
  assumes "bsd_round usleep s = Some s'" "\<And>t. obs (usleep t) = obs t"
  shows "kept s s'"
proof -
  from assms(1) obtain kr s1 s2 where
    "bsd_process_reap s = Some (kr, s1)" "bsd_poll_port (deliver_all s1) = Some s2" "s' = usleep s2"
    by (auto simp: bsd_round_def Let_def Option.bind_eq_Some_conv)
  then have "obs s1 = obs s" "kept (deliver_all s1) s2" "obs s' = obs s2"
    using assms(2) by (auto simp: bsd_process_reap_def kept_poll split: option.splits dest: obs_reap_loop)
  then show ?thesis
    by (metis kept_obs kept_obs_trans kept_trans obs_deliver_all)
qed

lemma kept_loop:
  assumes "bsd_loop sleeps s = Some (ended, s')" "\<forall>u \<in> set sleeps. \<forall>t. obs (u t) = obs t"
    and "procs_ok s" "bs_running s"
  shows "\<not> ended \<and> procs_ok s' \<and> bs_running s'"
  using assms
proof (induction sleeps arbitrary: s)
  case (Cons u sleeps)
  from Cons.prems obtain s1 where "bsd_round u s = Some s1" and rest: "bsd_loop sleeps s1 = Some (ended, s')"
    by (auto simp: Option.bind_eq_Some_conv)
  then have "kept s s1"
    using Cons.prems(2) by (intro kept_round [of u]) auto
  with Cons rest show ?case
    by (auto simp: kept_def)
qed simp

text \<open>The table after a start.\<close>

lemma process_init_ok: "procs_ok (snd (bsd_process_init s))"
proof -
  let ?s0 = "s\<lparr>bs_process_table := replicate BSD_MAX_PROCESSES zero_process,
                bs_process_count := 0, bs_counter := 0\<rparr>"
  let ?s1 = "snd (sbrk 0 ?s0)"
  define f :: "bsd_process \<Rightarrow> bsd_process" where
    "f = (\<lambda>q. q\<lparr>bp_pid := hi_pid (ids_now ?s0), bp_ppid := 0, bp_pgid := hi_pid (ids_now ?s0),
                 bp_sid := hi_sid (ids_now ?s0), bp_in_use := True, bp_running := True, bp_zombie := False,
                 bp_stopped := False, bp_uid := hi_uid (ids_now ?s0), bp_euid := hi_euid (ids_now ?s0),
                 bp_gid := hi_gid (ids_now ?s0), bp_egid := hi_egid (ids_now ?s0), bp_exit_status := 0,
                 bp_exit_signal := 0, bp_task_port := MACH_PORT_NULL,
                 bp_bootstrap_port := MACH_PORT_NULL, bp_fd_count := 0, bp_argc := 0, bp_envc := 0,
                 bp_brk_addr := fst (sbrk 0 ?s0), bp_mmap_base := 0, bp_mmap_size := 0,
                 bp_signal_pending := 0, bp_signal_mask := 0, bp_signal_actions := 0\<rparr>)"
  have tab: "bs_process_table ?s1 = replicate BSD_MAX_PROCESSES zero_process"
    by (simp add: sbrk_def Let_def case_prod_unfold)
  have "obs (upd_proc 0 f ?s1) =
      (bs_running ?s1, bs_counter ?s1, bs_process_count ?s1,
       (replicate BSD_MAX_PROCESSES (False, BSD_MAX_FD))[0 := (True, BSD_MAX_FD)])"
  proof -
    have "proc_obj 0 ?s1 = zero_process"
      unfolding proc_obj_def tab by (simp add: BSD_MAX_PROCESSES_def)
    moreover have "shape (f zero_process) = (True, BSD_MAX_FD)" "shape zero_process = (False, BSD_MAX_FD)"
      by (simp_all add: shape_def f_def zero_process_def)
    ultimately show ?thesis
      unfolding obs_upd_all tab by simp
  qed
  then have "obs (snd (bsd_process_init s)) =
      (bs_running ?s1, 1, 1, (replicate BSD_MAX_PROCESSES (False, BSD_MAX_FD))[0 := (True, BSD_MAX_FD)])"
    by (simp add: bsd_process_init_def Let_def case_prod_unfold f_def [symmetric] del: obs_upd_proc)
  moreover have "obs_ok (r, 0, 0, replicate BSD_MAX_PROCESSES (False, BSD_MAX_FD))" for r
    by (simp add: obs_ok_def used_count_def list_all_length)
  then have "obs_ok (r, 0 + 1, 0 + 1, (replicate BSD_MAX_PROCESSES (False, BSD_MAX_FD))[0 := (True, BSD_MAX_FD)])" for r
    by (rule obs_ok_take) (simp_all add: BSD_MAX_PROCESSES_def)
  ultimately show ?thesis
    by (simp add: procs_ok_obs)
qed

end
