(* ===== verification/Bsd_Props.thy ===== *)
theory Bsd_Props
  imports Bsd_Correct Mach_Ipc_Props
begin

text \<open>
  What the BSD server promises: ownership of host descriptors, the two operations that break it, the
  process table under any system call, the reaping of children and the delivery of signals.
\<close>

section \<open>Signal delivery in closed form\<close>

definition fatal_signals :: "uint64 \<Rightarrow> nat \<Rightarrow> nat list" where
  "fatal_signals pending n =
     filter (\<lambda>sig. bit pending sig \<and> sig \<notin> {SIGCHLD, SIGURG, SIGWINCH}) [1..<n]"

lemma deliver_one_bit:
  "deliver_one pending sig q =
     (if bit pending sig
      then (if sig \<in> {SIGCHLD, SIGURG, SIGWINCH}
            then q\<lparr>bp_signal_pending := bp_signal_pending q AND NOT (push_bit sig 1)\<rparr>
            else q\<lparr>bp_signal_pending := bp_signal_pending q AND NOT (push_bit sig 1),
                   bp_running := False, bp_exit_signal := int sig\<rparr>)
      else q)"
  by (simp add: deliver_one_def Let_def bit_iff_and_push_bit_not_eq_0)

lemma mask_Suc_split:
  fixes w :: uint64
  assumes "1 \<le> n" "n < 64"
  shows "w AND mask (Suc n) AND NOT 1 = (w AND mask n AND NOT 1) OR (if bit w n then push_bit n 1 else 0)"
proof (rule bit_word_eqI)
  fix k assume "k < LENGTH(64)"
  with assms show "bit (w AND mask (Suc n) AND NOT 1) k =
      bit ((w AND mask n AND NOT 1) OR (if bit w n then push_bit n 1 else 0)) k"
    by (cases "k = n") (auto simp: bit_simps)
qed

lemma deliver_fold:
  assumes "1 \<le> n" "n \<le> 64"
  shows "fold (deliver_one pending) [1..<n] q =
    q\<lparr>bp_signal_pending := bp_signal_pending q AND NOT (pending AND mask n AND NOT 1),
      bp_running := (bp_running q \<and> fatal_signals pending n = []),
      bp_exit_signal := (if fatal_signals pending n = [] then bp_exit_signal q
                         else int (last (fatal_signals pending n)))\<rparr>"
  using assms
proof (induction n rule: dec_induct)
  case base
  have "pending AND mask 1 AND NOT 1 = 0"
    by (rule bit_word_eqI) (auto simp: bit_simps)
  then show ?case by (simp add: fatal_signals_def)
next
  case (step n)
  have pend: "x AND NOT (pending AND mask (Suc n) AND NOT 1) =
      (if bit pending n then x AND NOT (pending AND mask n AND NOT 1) AND NOT (push_bit n 1)
       else x AND NOT (pending AND mask n AND NOT 1))" for x :: uint64
  proof -
    define low where "low = pending AND mask n AND NOT 1"
    have "1 \<le> n" "n < 64" using step.hyps step.prems by simp_all
    then have "pending AND mask (Suc n) AND NOT 1 = low OR (if bit pending n then push_bit n 1 else 0)"
      unfolding low_def by (rule mask_Suc_split)
    note eq = this low_def [symmetric]
    show ?thesis
      unfolding eq by (cases "bit pending n") (simp_all add: and.assoc)
  qed
  have fatal: "fatal_signals pending (Suc n) =
      fatal_signals pending n @ (if bit pending n \<and> n \<notin> {SIGCHLD, SIGURG, SIGWINCH} then [n] else [])"
    using step.hyps by (simp add: fatal_signals_def)
  define r where "r = fold (deliver_one pending) [1..<n] q"
  define low where "low = pending AND mask n AND NOT 1"
  have IH: "r = q\<lparr>bp_signal_pending := bp_signal_pending q AND NOT low,
      bp_running := (bp_running q \<and> fatal_signals pending n = []),
      bp_exit_signal := (if fatal_signals pending n = [] then bp_exit_signal q
                         else int (last (fatal_signals pending n)))\<rparr>"
    using step.IH step.prems unfolding r_def low_def by simp
  have fold: "fold (deliver_one pending) [1..<Suc n] q = deliver_one pending n r"
    using step.hyps by (simp add: r_def)
  show ?case
    unfolding fold
    unfolding fatal pend low_def [symmetric] deliver_one_bit
    by (cases q; cases "bit pending n"; cases "n \<in> {SIGCHLD, SIGURG, SIGWINCH}"; simp add: IH and.assoc)
qed

text \<open>
  C16.  Delivering signals to a process that runs takes every signal from 1 to 31 that is pending and
  not masked out of the pending set, in one go; the process is stopped exactly when one of them is
  not among SIGCHLD, SIGURG and SIGWINCH, and its exit signal is then the largest such signal.
  Bit 0 and the bits from 32 on stay pending for ever.
\<close>

theorem bsd_signal_deliver_effect:
  "deliver_signals q =
    (if bp_running q
     then (let due = bp_signal_pending q AND NOT (bp_signal_mask q);
               fatal = filter (\<lambda>sig. bit due sig \<and> sig \<notin> {SIGCHLD, SIGURG, SIGWINCH}) [1..<32]
           in q\<lparr>bp_signal_pending := bp_signal_pending q AND NOT (due AND mask 32 AND NOT 1),
                bp_running := (fatal = []),
                bp_exit_signal := (if fatal = [] then bp_exit_signal q else int (last fatal))\<rparr>)
     else q)"
proof (cases "bp_running q")
  case True
  define due where "due = bp_signal_pending q AND NOT (bp_signal_mask q)"
  have none: "fatal_signals 0 32 = []"
    by (simp add: fatal_signals_def)
  have "deliver_signals q = fold (deliver_one due) [1..<32] q"
  proof (cases "due = 0")
    case zero: True
    with deliver_fold [of 32 due q] True none show ?thesis
      by (simp add: deliver_signals_def Let_def due_def [symmetric])
  qed (use True in \<open>simp add: deliver_signals_def Let_def due_def [symmetric] BSD_MAX_SIGNALS_def\<close>)
  also have "\<dots> = q\<lparr>bp_signal_pending := bp_signal_pending q AND NOT (due AND mask 32 AND NOT 1),
      bp_running := (fatal_signals due 32 = []),
      bp_exit_signal := (if fatal_signals due 32 = [] then bp_exit_signal q else int (last (fatal_signals due 32)))\<rparr>"
    using deliver_fold [of 32 due q] True by simp
  finally show ?thesis
    using True by (simp only: due_def [symmetric] fatal_signals_def Let_def if_True)
qed (simp add: deliver_signals_def)

section \<open>Releasing a process\<close>

lemma close_fd_if_frame [simp]:
  "mxwl_port_table (close_fd_if P p i s) = mxwl_port_table s"
  "q \<noteq> p \<Longrightarrow> proc_obj q (close_fd_if P p i s) = proc_obj q s"
  by (simp_all add: close_fd_if_def upd_fd_def)

lemma close_fds_frame [simp]:
  "mxwl_port_table (close_fds P p s) = mxwl_port_table s"
  "q \<noteq> p \<Longrightarrow> proc_obj q (close_fds P p s) = proc_obj q s"
proof -
  have "mxwl_port_table (fold (close_fd_if P p) is s) = mxwl_port_table s" for "is"
    by (induction "is" arbitrary: s) simp_all
  then show "mxwl_port_table (close_fds P p s) = mxwl_port_table s"
    by (simp add: close_fds_def)
  assume "q \<noteq> p"
  then have "proc_obj q (fold (close_fd_if P p) is s) = proc_obj q s" for "is"
    by (induction "is" arbitrary: s) simp_all
  then show "proc_obj q (close_fds P p s) = proc_obj q s"
    by (simp add: close_fds_def)
qed

text \<open>No descriptor of the process is left in use.\<close>

lemma close_fds_all:
  assumes "tables_ok s" "p < BSD_MAX_PROCESSES" "i < BSD_MAX_FD"
  shows "\<not> fe_in_use (fd_obj p i (close_fds (\<lambda>_. True) p s))"
proof -
  have one: "tables_ok (close_fd_if (\<lambda>_. True) p j t)"
    "fe_in_use (fd_obj p k (close_fd_if (\<lambda>_. True) p j t)) \<longleftrightarrow> fe_in_use (fd_obj p k t) \<and> k \<noteq> j"
    if "tables_ok t" "j < BSD_MAX_FD" for j k and t :: "'a bsd_scheme"
    using that assms(2) by (auto simp: close_fd_if_def fd_obj_upd_fd)
  have "fe_in_use (fd_obj p i (fold (close_fd_if (\<lambda>_. True) p) is s)) \<longleftrightarrow>
        fe_in_use (fd_obj p i s) \<and> i \<notin> set is" if "\<forall>j \<in> set is. j < BSD_MAX_FD" for "is"
    using that assms(1) by (induction "is" arbitrary: s) (auto simp: one)
  then show ?thesis
    using assms(3) by (simp add: close_fds_def)
qed

lemma free_strings_frame [simp]:
  "mxwl_port_table (free_strings as s) = mxwl_port_table s"
  "bs_process_table (free_strings as s) = bs_process_table s"
proof -
  let ?f = "\<lambda>a s. if a \<noteq> 0 then snd (host_do (HFree a) s) else s"
  have "mxwl_port_table (fold ?f as s) = mxwl_port_table s \<and> bs_process_table (fold ?f as s) = bs_process_table s"
    by (induction "as" arbitrary: s) simp_all
  then show "mxwl_port_table (free_strings as s) = mxwl_port_table s"
    "bs_process_table (free_strings as s) = bs_process_table s"
    by (simp_all add: free_strings_def)
qed

lemma free_strings_objs [simp]:
  "proc_obj q (free_strings as s) = proc_obj q s" "fd_obj q i (free_strings as s) = fd_obj q i s"
  by (simp_all add: proc_obj_def fd_obj_def)

lemma process_free_frame:
  assumes "tables_ok s" "p < BSD_MAX_PROCESSES" "bp_in_use (proc_obj p s)"
  shows "mxwl_port_table (bsd_process_free (Some p) s) = mxwl_port_table s"
    and "q \<noteq> p \<Longrightarrow> proc_obj q (bsd_process_free (Some p) s) = proc_obj q s"
    and "\<not> bp_in_use (proc_obj p (bsd_process_free (Some p) s))"
    and "i < BSD_MAX_FD \<Longrightarrow> \<not> fe_in_use (fd_obj p i (bsd_process_free (Some p) s))"
proof -
  let ?s1 = "close_fds (\<lambda>_. True) p s"
  have count: "proc_obj r (t\<lparr>bs_counter := m, bs_process_count := n\<rparr>) = proc_obj r t"
    "fd_obj r j (t\<lparr>bs_counter := m, bs_process_count := n\<rparr>) = fd_obj r j t"
    for r j m n and t :: "'a bsd_scheme"
    by (simp_all add: proc_obj_def fd_obj_def)
  have len: "p < length (bs_process_table ?s1)"
    using obs_close_fds [of "\<lambda>_. True" p s] assms(1,2) unfolding obs_def tables_ok_def
    by (metis length_map prod.inject)
  note free = process_free_body [OF assms(3)] free_body_def Let_def
  show "mxwl_port_table (bsd_process_free (Some p) s) = mxwl_port_table s"
    by (simp add: free)
  show "proc_obj q (bsd_process_free (Some p) s) = proc_obj q s" if "q \<noteq> p"
    using that by (simp add: free count)
  show "\<not> bp_in_use (proc_obj p (bsd_process_free (Some p) s))"
    using len by (simp add: free count)
  show "\<not> fe_in_use (fd_obj p i (bsd_process_free (Some p) s))" if "i < BSD_MAX_FD"
    using len close_fds_all [OF assms(1,2) that] by (simp add: free count fd_obj_def)
qed

section \<open>A server for the instances\<close>

text \<open>A host that numbers descriptors by the calls made before, gives \<^verbatim>\<open>dup2\<close> the target it asks for,
  and has no child to report.\<close>

definition sample_result :: "int \<Rightarrow> host_result" where
  "sample_result n = \<lparr>hr_ret = n, hr_ret2 = n + 100, hr_errno = 0, hr_str = [], hr_sets = ([], [], [])\<rparr>"

definition sample_bsd_host :: bsd_host where
  "sample_bsd_host =
     \<lparr>bh_call = (\<lambda>n c. case c of
          HClose _ \<Rightarrow> sample_result 0
        | HDup2 _ target \<Rightarrow> sample_result target
        | HWaitpid \<Rightarrow> sample_result 0
        | _ \<Rightarrow> sample_result (int n + 3)),
      bh_ids = (\<lambda>_. \<lparr>hi_pid = 7, hi_sid = 7, hi_uid = 0, hi_euid = 0, hi_gid = 0, hi_egid = 0\<rparr>),
      bh_string = (\<lambda>_ _. [47, 97]), bh_pointers = (\<lambda>_ _. []), bh_fd_set = (\<lambda>_ _. []),
      bh_stack = (\<lambda>_. (0, 0))\<rparr>"

definition sample_bsd :: bsd where
  "sample_bsd = kipc.extend sample_kipc
     \<lparr>bsd_host = sample_bsd_host, bsd_trace = [], bsd_errno = 0, bs_initialized = False,
      bs_running = False, bs_bsd_port = 0, bs_host_port = 0, bs_host_priv_port = 0,
      bs_process_table = replicate BSD_MAX_PROCESSES zero_process, bs_process_count = 0,
      bs_next_pid = 0, bs_counter = 0\<rparr>"

lemma sample_bsd_fields [simp]:
  "bsd_host sample_bsd = sample_bsd_host" "bsd_trace sample_bsd = []"
  "bs_process_table sample_bsd = replicate BSD_MAX_PROCESSES zero_process"
  by (simp_all add: sample_bsd_def kipc.defs)

lemma sample_bsd_entry:
  "p < BSD_MAX_PROCESSES \<Longrightarrow> i < BSD_MAX_FD \<Longrightarrow> fd_obj p i sample_bsd = zero_fd"
  by (simp add: fd_obj_def proc_obj_def zero_process_def)

lemma sample_bsd_owned: "fds_owned [] sample_bsd"
proof -
  have "used_fds sample_bsd = {}"
    by (auto simp: used_fds_def sample_bsd_entry zero_fd_def)
  moreover have "tables_ok sample_bsd"
    by (simp add: tables_ok_def proc_obj_def zero_process_def)
  ultimately show ?thesis
    by (simp add: fds_owned_def)
qed

lemma limits_pos [simp]: "0 < BSD_MAX_PROCESSES" "0 < BSD_MAX_FD"
  by (simp_all add: BSD_MAX_PROCESSES_def BSD_MAX_FD_def)

lemma sample_free: "bsd_fd_find_free 0 sample_bsd = Some 0"
  by (simp add: bsd_fd_find_free_def find_upt_Some sample_bsd_entry zero_fd_def)

section \<open>Properties\<close>

text \<open>
  C15.  Whatever sequence of open, close, dup and exit calls the processes make, no two entries of
  the server's descriptor tables hold the same host descriptor, and every entry in use holds one that
  is open: a process reaches no descriptor of another one, and none is closed twice.  The host is
  assumed to return, when it opens a descriptor, one that is not open.
\<close>

theorem bsd_fds_stay_owned:
  assumes "fds_owned base s" "\<forall>po \<in> set ops. fst po < BSD_MAX_PROCESSES"
    and "trace_ok base (bsd_trace (fd_run ops s))"
  shows "fds_owned base (fd_run ops s)"
  using assms by (rule fd_run_owned)

theorem bsd_fds_stay_owned_witness:
  "fds_owned [] (fd_run [(0, Fd_Open 4096 0 0), (0, Fd_Close 0)] sample_bsd) \<and>
   bsd_trace (fd_run [(0, Fd_Open 4096 0 0), (0, Fd_Close 0)] sample_bsd) =
     [(HOpen 4096 0 0, sample_result 3), (HClose 3, sample_result 0)]"
proof -
  let ?s1 = "fd_step (0, Fd_Open 4096 0 0) sample_bsd"
  let ?r = "sample_result 3"
  have r: "fst (host_do (HOpen 4096 0 0) sample_bsd) = ?r"
    by (simp add: host_do_def Let_def host_now_def sample_bsd_host_def)
  obtain f where s1: "?s1 = upd_fd 0 0 f (snd (host_do (HOpen 4096 0 0) sample_bsd))"
    and f: "\<And>e. fe_in_use (f e)" "\<And>e. fe_host_fd (f e) = 3"
    by (rule that [of "\<lambda>e. e\<lparr>fe_host_fd := 3, fe_in_use := True, fe_access_mode := 0 AND 3,
          fe_flags := (if 0 AND O_CLOEXEC \<noteq> 0 then FD_CLOEXEC else 0),
          fe_path := path_copy (string_at 4096 (snd (host_do (HOpen 4096 0 0) sample_bsd)))\<rparr>"])
       (simp_all add: bsd_fd_open_def sample_free Let_def case_prod_unfold r sample_result_def)
  have ok: "tables_ok sample_bsd" using sample_bsd_owned by (simp add: fds_owned_def)
  have obj: "fe_in_use (fd_obj 0 0 ?s1)" "fe_host_fd (fd_obj 0 0 ?s1) = 3"
    unfolding s1 using ok f by (simp_all add: fd_obj_upd_fd)
  have t1: "bsd_trace ?s1 = [(HOpen 4096 0 0, ?r)]" and h1: "bsd_host ?s1 = sample_bsd_host"
    unfolding s1 by (simp_all add: r)
  have "fd_check (Some 0) 0 ?s1 = Some (0, 0)"
    using obj by (simp add: fd_check_def BSD_MAX_FD_def)
  then have "bsd_trace (fd_step (0, Fd_Close 0) ?s1) =
      [(HOpen 4096 0 0, ?r), (HClose 3, fst (host_do (HClose 3) ?s1))]"
    using obj t1 by (simp add: bsd_fd_close_def Let_def case_prod_unfold)
  moreover have "fst (host_do (HClose 3) ?s1) = sample_result 0"
    using h1 by (simp add: host_do_def Let_def sample_bsd_host_def)
  ultimately have t: "bsd_trace (fd_run [(0, Fd_Open 4096 0 0), (0, Fd_Close 0)] sample_bsd) =
      [(HOpen 4096 0 0, ?r), (HClose 3, sample_result 0)]"
    by (simp add: fd_run_def)
  moreover have "trace_ok [] [(HOpen 4096 0 0, ?r), (HClose 3, sample_result 0)]"
    by (simp add: fresh_result_def live_after_def)
  ultimately show ?thesis
    using bsd_fds_stay_owned [OF sample_bsd_owned, of "[(0, Fd_Open 4096 0 0), (0, Fd_Close 0)]"] by simp
qed

text \<open>
  A successful pipe call gives one descriptor number twice: both ends go to the same entry, which
  keeps the write end.  The read end stays open in the server and no entry of any process holds it, so
  nothing can read from the pipe or close that end.
\<close>

theorem bsd_pipe_loses_read_end:
  assumes "fds_owned base s" "p < BSD_MAX_PROCESSES" "bsd_fd_find_free p s = Some i"
    and "0 \<le> hr_ret (fst (host_do HPipe s))"
    and "fresh_result (host_live base s) (HPipe, fst (host_do HPipe s))"
  shows "\<exists>s'. bsd_fd_pipe (Some p) (Some fds) s = (0, Some (int i, int i), s') \<and>
    held s' (p, i) = hr_ret2 (fst (host_do HPipe s)) \<and>
    fe_access_mode (fd_obj p i s') = O_WRONLY \<and>
    hr_ret (fst (host_do HPipe s)) \<in> set (host_live base s') \<and>
    hr_ret (fst (host_do HPipe s)) \<notin> held s' ` used_fds s'"
proof -
  let ?r = "fst (host_do HPipe s)" and ?t = "snd (host_do HPipe s)"
  let ?s1 = "upd_fd p i (\<lambda>e. e\<lparr>fe_host_fd := hr_ret ?r, fe_in_use := True, fe_access_mode := O_RDONLY\<rparr>) ?t"
  let ?s2 = "upd_fd p i (\<lambda>e. e\<lparr>fe_host_fd := hr_ret2 ?r, fe_in_use := True, fe_access_mode := O_WRONLY\<rparr>) ?s1"
  have ok: "tables_ok s" using assms(1) by (simp add: fds_owned_def)
  note i = find_free_fd [OF assms(3)]
  define s' where "s' = ?s2"
  have obj: "fd_obj q j s' = (if q = p \<and> j = i
      then (fd_obj p i s)\<lparr>fe_host_fd := hr_ret2 ?r, fe_in_use := True, fe_access_mode := O_WRONLY\<rparr>
      else fd_obj q j s)" for q j
    unfolding s'_def using ok assms(2) i by (simp add: fd_obj_upd_fd)
  have fresh: "hr_ret ?r \<notin> set (host_live base s)" "hr_ret ?r \<noteq> hr_ret2 ?r"
    using assms(4,5) by (simp_all add: fresh_result_def)
  have "held s' x \<noteq> hr_ret ?r" if "x \<in> used_fds s'" for x
  proof (cases "x = (p, i)")
    case True
    with fresh(2) show ?thesis by (simp add: held_def obj)
  next
    case False
    with that have "x \<in> used_fds s" "held s' x = held s x"
      by (cases x; auto simp: used_fds_def held_def obj)+
    with fresh(1) assms(1) show ?thesis by (auto simp: fds_owned_def)
  qed
  then have "hr_ret ?r \<notin> held s' ` used_fds s'"
    unfolding image_iff by metis
  moreover have "hr_ret ?r \<in> set (host_live base s')"
    unfolding s'_def using assms(4) by (simp add: live_after_def)
  ultimately show ?thesis
    using pipe_success [OF assms(3,4), of fds] by (simp add: held_def obj s'_def [symmetric])
qed

theorem bsd_pipe_loses_read_end_witness:
  "\<exists>s'. bsd_fd_pipe (Some 0) (Some (8, 9)) sample_bsd = (0, Some (0, 0), s') \<and>
    held s' (0, 0) = 103 \<and> 3 \<in> set (host_live [] s') \<and> 3 \<notin> held s' ` used_fds s'"
proof -
  have r: "fst (host_do HPipe sample_bsd) = sample_result 3"
    by (simp add: host_do_def Let_def host_now_def sample_bsd_host_def)
  show ?thesis
    using bsd_pipe_loses_read_end [OF sample_bsd_owned, of 0 0 "(8, 9)"]
    by (simp add: sample_free r fresh_result_def host_live_def) (auto simp: sample_result_def)
qed

text \<open>
  Duplicating onto a number that is not open duplicates onto the host descriptor of that number,
  whoever holds it: when another entry does, that entry, of the same or of another process, now refers
  to what the caller duplicated, and the two entries share one descriptor.
\<close>

theorem bsd_dup2_takes_foreign_descriptor:
  assumes "tables_ok s" "p < BSD_MAX_PROCESSES" "fd_check (Some p) oldfd s = Some (p, old)"
    and "0 \<le> newfd" "newfd < int BSD_MAX_FD" "oldfd \<noteq> newfd"
    and "fe_host_fd (fd_obj p (nat newfd) s) = - 1"
    and "(q, j) \<in> used_fds s" "held s (q, j) = newfd" "(q, j) \<noteq> (p, nat newfd)"
    and "hr_ret (fst (host_do (HDup2 (held s (p, old)) newfd) s)) = newfd"
  shows "\<exists>s'. bsd_fd_dup2 (Some p) oldfd newfd s = (newfd, s') \<and>
    bsd_trace s' = bsd_trace s @ [(HDup2 (held s (p, old)) newfd, fst (host_do (HDup2 (held s (p, old)) newfd) s))] \<and>
    {(p, nat newfd), (q, j)} \<subseteq> used_fds s' \<and> held s' (p, nat newfd) = held s' (q, j)"
proof -
  let ?c = "HDup2 (held s (p, old)) newfd"
  let ?r = "fst (host_do ?c s)" and ?t = "snd (host_do ?c s)"
  let ?s' = "upd_fd p (nat newfd) (dup_entry newfd (fd_obj p old s)) ?t"
  have bound: "0 \<le> oldfd" "oldfd < int BSD_MAX_FD" and new: "nat newfd < BSD_MAX_FD"
    using fd_check_Some [OF assms(3)] assms(5) by auto
  have c: "HDup2 (fe_host_fd (fd_obj p old s)) newfd = ?c"
    by (simp add: held_def)
  have res: "bsd_fd_dup2 (Some p) oldfd newfd s = (newfd, ?s')"
    using assms(3-7,11) bound by (simp add: bsd_fd_dup2_def Let_def case_prod_unfold c)
  define s' where "s' = ?s'"
  have obj: "fd_obj a b s' = (if a = p \<and> b = nat newfd
      then dup_entry newfd (fd_obj p old s) (fd_obj p (nat newfd) s) else fd_obj a b s)" for a b
    unfolding s'_def using assms(1,2) new by (simp add: fd_obj_upd_fd)
  have trace: "bsd_trace s' = bsd_trace s @ [(?c, ?r)]"
    by (simp add: s'_def)
  have "held s' (p, nat newfd) = newfd" "(p, nat newfd) \<in> used_fds s'"
    using assms(2) new by (simp_all add: held_def used_fds_def obj dup_entry_def)
  moreover have "held s' (q, j) = newfd" "(q, j) \<in> used_fds s'"
    using assms(8-10) by (auto simp: held_def used_fds_def obj)
  ultimately show ?thesis
    unfolding res s'_def [symmetric] using trace by simp
qed

definition sample_dup_bsd :: bsd where
  "sample_dup_bsd = upd_fd 1 2 (\<lambda>e. e\<lparr>fe_host_fd := 9, fe_in_use := True\<rparr>)
     (upd_fd 0 9 (\<lambda>e. e\<lparr>fe_host_fd := - 1\<rparr>)
       (upd_fd 0 0 (\<lambda>e. e\<lparr>fe_host_fd := 3, fe_in_use := True\<rparr>) sample_bsd))"

theorem bsd_dup2_takes_foreign_descriptor_witness:
  "\<exists>s'. bsd_fd_dup2 (Some 0) 0 9 sample_dup_bsd = (9, s') \<and>
    {(0, 9), (1, 2)} \<subseteq> used_fds s' \<and> held s' (0, 9) = held s' (1, 2)"
proof -
  have ok0: "tables_ok sample_bsd" using sample_bsd_owned by (simp add: fds_owned_def)
  then have ok: "tables_ok sample_dup_bsd" by (simp add: sample_dup_bsd_def)
  have obj: "fd_obj a b sample_dup_bsd =
      (if (a, b) = (1, 2) then (fd_obj 1 2 sample_bsd)\<lparr>fe_host_fd := 9, fe_in_use := True\<rparr>
       else if (a, b) = (0, 9) then (fd_obj 0 9 sample_bsd)\<lparr>fe_host_fd := - 1\<rparr>
       else if (a, b) = (0, 0) then (fd_obj 0 0 sample_bsd)\<lparr>fe_host_fd := 3, fe_in_use := True\<rparr>
       else fd_obj a b sample_bsd)" for a b
    unfolding sample_dup_bsd_def using ok0
    by (simp add: fd_obj_upd_fd BSD_MAX_PROCESSES_def BSD_MAX_FD_def)
  have chk: "fd_check (Some 0) 0 sample_dup_bsd = Some (0, 0)"
    by (simp add: fd_check_def obj BSD_MAX_FD_def)
  have h: "held sample_dup_bsd (0, 0) = 3" "held sample_dup_bsd (1, 2) = 9" "(1, 2) \<in> used_fds sample_dup_bsd"
    by (simp_all add: held_def used_fds_def obj BSD_MAX_PROCESSES_def BSD_MAX_FD_def)
  have r: "hr_ret (fst (host_do (HDup2 3 9) sample_dup_bsd)) = 9"
    by (simp add: host_do_def Let_def sample_dup_bsd_def sample_bsd_host_def sample_result_def)
  show ?thesis
    using bsd_dup2_takes_foreign_descriptor [OF ok _ chk, of 9 1 2] h r
    by (auto simp: obj BSD_MAX_FD_def)
qed

text \<open>
  C17.  From a successful start, whatever messages arrive, whatever system calls they ask for and
  however often children are reaped: the dispatch loop does not end, the two process counters are the
  number of entries in use, at most \<open>BSD_MAX_PROCESSES\<close>, and the tables keep their size.  The shutdown
  that follows the loop is never reached.
\<close>

theorem bsd_loop_keeps_process_table:
  assumes "bsd_server_start port_str s = (KERN_SUCCESS, s1)"
    and "bsd_server_loop sleeps s1 = Some (ended, s')"
    and "\<forall>usleep \<in> set sleeps. \<forall>t. bs_running (usleep t) = bs_running t \<and>
           bs_counter (usleep t) = bs_counter t \<and> bs_process_count (usleep t) = bs_process_count t \<and>
           bs_process_table (usleep t) = bs_process_table t"
  shows "\<not> ended \<and> bs_running s' \<and>
    bs_process_count s' = int (length (filter bp_in_use (bs_process_table s'))) \<and>
    bs_counter s' = bs_process_count s' \<and>
    0 \<le> bs_process_count s' \<and> bs_process_count s' \<le> int BSD_MAX_PROCESSES \<and>
    length (bs_process_table s') = BSD_MAX_PROCESSES"
proof -
  obtain t where "s1 = (snd (bsd_process_init t))\<lparr>bs_initialized := True\<rparr>"
    using assms(1) by (auto simp: bsd_server_start_def Let_def case_prod_unfold split: if_splits)
  then have "obs s1 = obs (snd (bsd_process_init t))"
    by (simp add: obs_def)
  then have "procs_ok s1"
    using process_init_ok [of t] by (simp add: procs_ok_obs)
  then have "procs_ok (s1\<lparr>bs_running := True\<rparr>)"
    by (simp add: procs_ok_def tables_ok_def proc_obj_def)
  moreover have "\<forall>u \<in> set sleeps. \<forall>t. obs (u t) = obs t"
    using assms(3) by (simp add: obs_def)
  ultimately have "\<not> ended \<and> procs_ok s' \<and> bs_running s'"
    using kept_loop [of sleeps "s1\<lparr>bs_running := True\<rparr>" ended s'] assms(2)
    by (simp add: bsd_server_loop_def)
  then show ?thesis
    using length_filter_le [of bp_in_use "bs_process_table s'"] by (auto simp: procs_ok_def tables_ok_def)
qed

text \<open>What starting the process table and delivering signals leave alone.\<close>

definition low :: "'a bsd_scheme \<Rightarrow> mach_port_object list \<times> mach_port_t \<times> bsd_host" where
  "low s = (mxwl_port_table s, bs_bsd_port s, bsd_host s)"

lemma low_basic [simp]:
  "low (snd (host_do c s)) = low s" "low (upd_proc p f s) = low s" "low (upd_fd p i g s) = low s"
  by (simp_all add: low_def upd_fd_def)

lemma low_init [simp]:
  "low (snd (sbrk n s)) = low s" "low (read_cwd p s) = low s" "low (snd (bsd_fd_init proc s)) = low s"
  "low (snd (bsd_signal_init proc s)) = low s" "low (snd (bsd_memory_init proc s)) = low s"
  by (auto simp: sbrk_def read_cwd_def bsd_fd_init_def fd_init_std_def bsd_signal_init_def bsd_memory_init_def
      Let_def case_prod_unfold split: option.splits)

lemma low_updates [simp]:
  "low (s\<lparr>bs_counter := n\<rparr>) = low s" "low (s\<lparr>bs_process_count := n\<rparr>) = low s"
  "low (s\<lparr>bs_process_table := t\<rparr>) = low s" "low (s\<lparr>bs_running := b\<rparr>) = low s"
  "low (s\<lparr>bs_initialized := b\<rparr>) = low s"
  by (simp_all add: low_def)

lemma low_process_init [simp]: "low (snd (bsd_process_init s)) = low s"
  by (simp add: bsd_process_init_def Let_def case_prod_unfold)

lemma low_deliver_all [simp]: "low (deliver_all s) = low s"
proof -
  have "low (fold f xs s) = low s" if "\<And>x s. low (f x s) = low s"
    for f :: "nat \<Rightarrow> 'a bsd_scheme \<Rightarrow> 'a bsd_scheme" and xs
    using that by (induction xs arbitrary: s) auto
  then show ?thesis
    unfolding deliver_all_def by (simp add: bsd_signal_deliver_def)
qed

text \<open>A round with an empty port and no child to reap.\<close>

lemma idle_round:
  assumes "bsd_host s = sample_bsd_host" "ports s (bs_bsd_port s) = Some []"
  shows "\<exists>s'. bsd_round usleep s = Some (usleep s')"
proof -
  let ?s1 = "snd (host_do HWaitpid s)"
  let ?s2 = "deliver_all ?s1"
  have "hr_ret (fst (host_do HWaitpid s)) = 0"
    using assms(1) by (simp add: host_do_def Let_def sample_bsd_host_def sample_result_def)
  then have reap: "bsd_process_reap s = Some (KERN_SUCCESS, ?s1)"
    by (simp add: bsd_process_reap_def reap_loop.simps Let_def)
  have "low ?s2 = low s" by simp
  then have "mxwl_port_table ?s2 = mxwl_port_table s" "bs_bsd_port ?s2 = bs_bsd_port s"
    by (simp_all only: low_def prod.inject)
  then have "ports ?s2 (bs_bsd_port ?s2) = Some []"
    using ports_cong [of ?s2 s] assms(2) by simp
  then obtain i where "mach_port_lookup (bs_bsd_port ?s2) ?s2 = Some i" "po_count (port_obj i ?s2) = 0"
    by (auto simp: ports_def simp flip: length_0_conv)
  then have "bsd_poll_port ?s2 = Some ?s2"
    by (simp add: bsd_poll_port_def)
  with reap have "bsd_round usleep s = Some (usleep ?s2)"
    by (simp add: bsd_round_def Let_def)
  then show ?thesis by blast
qed

lemma bsd_fields_more:
  fixes s s' :: "'a bsd_scheme"
  shows "kport.more s' = kport.more s \<Longrightarrow>
    ipc_service_count s' = ipc_service_count s \<and> bsd_host s' = bsd_host s"
  by (cases s, cases s') simp

theorem bsd_loop_keeps_process_table_witness:
  "\<exists>s1 ended s'. bsd_server_start None sample_bsd = (KERN_SUCCESS, s1) \<and>
    bsd_server_loop [\<lambda>t. t] s1 = Some (ended, s') \<and> \<not> ended \<and>
    bs_process_count s' \<le> int BSD_MAX_PROCESSES"
proof -
  let ?s0 = "zero_bsd_server sample_bsd"
  have tab: "mxwl_port_table ?s0 = mxwl_port_table (kport_boot sample_host)"
    "mxwl_port_table_count ?s0 = mxwl_port_table_count (kport_boot sample_host)"
    "khost ?s0 = sample_host" "kclock ?s0 = 0" "ipc_service_count ?s0 = 0"
    by (simp_all add: zero_bsd_server_def sample_bsd_def sample_kipc_def kport.defs kipc.defs kport_boot_def)
  have inv0: "kport_inv ?s0"
    using kport_inv_cong [OF tab(1,2)] boot_inv by simp
  obtain port s1 where al: "mach_port_allocate MACH_PORT_RIGHT_RECEIVE ?s0 = (port, s1)"
    by force
  have "find_free_port ?s0 = Some 0"
    by (simp add: find_free_port_def find_upt_Some port_obj_def tab kport_boot_def empty_port_object_def
        MACH_PORT_TABLE_SIZE_def)
  then have "\<not> port_table_full ?s0" "\<not> socket_refused ?s0"
    by (simp_all add: socket_refused_def tab sample_host_def flip: find_free_port_None)
  with allocate_correct [OF inv0 al] have port: "1 \<le> port" "ports s1 port = Some []"
    by (auto simp: fun_upd_same)
  have more: "kport.more s1 = kport.more ?s0"
    using allocate_more [of MACH_PORT_RIGHT_RECEIVE ?s0] al by simp
  then have s1: "ipc_service_count s1 = 0" "bsd_host s1 = sample_bsd_host"
    using tab(5) bsd_fields_more [OF more] by (simp_all add: zero_bsd_server_def)
  define s2 where "s2 = snd (bootstrap_register (Some bsd_name) port (s1\<lparr>bs_bsd_port := port\<rparr>))"
  have reg: "bootstrap_register (Some bsd_name) port (s1\<lparr>bs_bsd_port := port\<rparr>) = (KERN_SUCCESS, s2)"
    using s1(1) by (simp add: s2_def bootstrap_register_def service_find_def IPC_MAX_SERVICES_def)
  have s2: "mxwl_port_table s2 = mxwl_port_table s1" "bs_bsd_port s2 = port" "bsd_host s2 = sample_bsd_host"
    using reg s1 by (auto simp: bootstrap_register_def split: if_splits)
  define s3 where "s3 = (snd (bsd_process_init s2))\<lparr>bs_initialized := True\<rparr>"
  have "fst (bsd_process_init s2) = KERN_SUCCESS"
    by (simp add: bsd_process_init_def Let_def case_prod_unfold)
  then have start: "bsd_server_start None sample_bsd = (KERN_SUCCESS, s3)"
    using port(1) reg
    by (simp add: bsd_server_start_def bsd_ipc_init_def bsd_ipc_register_service_def al Let_def
        case_prod_unfold s3_def MACH_PORT_NULL_def)
  have "low (s3\<lparr>bs_running := True\<rparr>) = low s2"
    by (simp add: s3_def)
  then have s3: "mxwl_port_table (s3\<lparr>bs_running := True\<rparr>) = mxwl_port_table s1"
    "bs_bsd_port (s3\<lparr>bs_running := True\<rparr>) = port" "bsd_host (s3\<lparr>bs_running := True\<rparr>) = sample_bsd_host"
    unfolding low_def s2 by (simp_all only: prod.inject)
  have "ports (s3\<lparr>bs_running := True\<rparr>) = ports s1"
    using s3(1) by (rule ports_cong)
  with port(2) s3 obtain s4 where "bsd_round (\<lambda>t. t) (s3\<lparr>bs_running := True\<rparr>) = Some s4"
    using idle_round [of "s3\<lparr>bs_running := True\<rparr>" "\<lambda>t. t"] by auto
  then have loop: "bsd_server_loop [\<lambda>t. t] s3 = Some (\<not> bs_running s4, s4)"
    by (simp add: bsd_server_loop_def)
  show ?thesis
    using start loop bsd_loop_keeps_process_table [OF start loop] by auto
qed

text \<open>
  \<^verbatim>\<open>waitpid\<close> never waits.  With no child to report it answers at once, 0 under \<open>WNOHANG\<close> and
  \<open>ECHILD\<close> otherwise, and nothing changes.  Else it reports the pid and exit status of a zombie child of
  the caller, and releases its entry and its descriptors, touching no other process; the two ports the
  entry was given stay allocated.
\<close>

theorem bsd_waitpid_outcome:
  assumes "tables_ok s"
    and "bsd_syscall_waitpid (Some p) wait_pid status options reply s = (kr, reply', s')"
  shows "kr = KERN_SUCCESS \<and>
    (case wait_target p wait_pid s of
       None \<Rightarrow> s' = s \<and>
         reply' = (if options AND WNOHANG \<noteq> 0 then reply\<lparr>rp_ret_code := 0\<rparr>
                   else reply\<lparr>rp_ret_code := - 1, rp_errno_val := ECHILD\<rparr>)
     | Some t \<Rightarrow>
         bp_ppid (proc_obj t s) = bp_pid (proc_obj p s) \<and> bp_zombie (proc_obj t s) \<and>
         (bp_pid (proc_obj t s) \<noteq> 0 \<longrightarrow>
            reply' = reply\<lparr>rp_ret_code := bp_pid (proc_obj t s), rp_out_arg1 := bp_exit_status (proc_obj t s)\<rparr>) \<and>
         \<not> bp_in_use (proc_obj t s') \<and>
         (\<forall>i < BSD_MAX_FD. \<not> fe_in_use (fd_obj t i s')) \<and>
         (\<forall>q. q \<noteq> t \<longrightarrow> proc_obj q s' = proc_obj q s) \<and>
         mxwl_port_table s' = mxwl_port_table s)"
proof (cases "wait_target p wait_pid s")
  case None
  with assms(2) show ?thesis
    by (auto simp: bsd_syscall_waitpid_def)
next
  case (Some t)
  let ?f = "bsd_process_free (Some t) s"
  have t: "t < BSD_MAX_PROCESSES" "bp_in_use (proc_obj t s)" "bp_zombie (proc_obj t s)"
    "bp_ppid (proc_obj t s) = bp_pid (proc_obj p s)"
    using wait_target_Some [OF Some] by simp_all
  note free = process_free_frame [OF assms(1) t(1,2)]
  have res: "kr = KERN_SUCCESS" "s' = ?f \<or> (\<exists>a b. s' = snd (host_do (HStore a b) ?f))"
    "bp_pid (proc_obj t s) \<noteq> 0 \<longrightarrow>
       reply' = reply\<lparr>rp_ret_code := bp_pid (proc_obj t s), rp_out_arg1 := bp_exit_status (proc_obj t s)\<rparr>"
    using assms(2) Some by (auto simp: bsd_syscall_waitpid_def Let_def split: if_splits)
  from res(2) have same: "mxwl_port_table s' = mxwl_port_table ?f" "\<And>q. proc_obj q s' = proc_obj q ?f"
    "\<And>i. fd_obj t i s' = fd_obj t i ?f"
    by auto
  show ?thesis
    unfolding Some option.case same using res(1,3) t(3,4) free by simp
qed

definition sample_child_bsd :: bsd where
  "sample_child_bsd =
     upd_proc 3 (\<lambda>q. q\<lparr>bp_pid := 42, bp_ppid := 7, bp_in_use := True, bp_zombie := True, bp_exit_status := 5\<rparr>)
       (upd_proc 0 (\<lambda>q. q\<lparr>bp_pid := 7, bp_in_use := True, bp_running := True\<rparr>) sample_bsd)"

theorem bsd_waitpid_outcome_witness:
  "\<exists>s'. bsd_syscall_waitpid (Some 0) 42 0 0 zero_reply sample_child_bsd =
      (KERN_SUCCESS, zero_reply\<lparr>rp_ret_code := 42, rp_out_arg1 := 5\<rparr>, s') \<and>
    \<not> bp_in_use (proc_obj 3 s') \<and> proc_obj 0 s' = proc_obj 0 sample_child_bsd"
proof -
  have "tables_ok sample_bsd" using sample_bsd_owned by (simp add: fds_owned_def)
  then have ok: "tables_ok sample_child_bsd"
    unfolding sample_child_bsd_def by (intro tables_ok_upd) simp_all
  have zero: "proc_obj i sample_bsd = zero_process" if "i < BSD_MAX_PROCESSES" for i
    using that by (simp add: proc_obj_def)
  have obj: "proc_obj i sample_child_bsd =
      (if i = 3 then zero_process\<lparr>bp_pid := 42, bp_ppid := 7, bp_in_use := True, bp_zombie := True, bp_exit_status := 5\<rparr>
       else if i = 0 then zero_process\<lparr>bp_pid := 7, bp_in_use := True, bp_running := True\<rparr>
       else zero_process)" if "i < BSD_MAX_PROCESSES" for i
    using that zero by (simp add: sample_child_bsd_def BSD_MAX_PROCESSES_def)
  have "bsd_process_lookup 42 sample_child_bsd = Some 3"
    by (simp add: bsd_process_lookup_def find_upt_Some obj BSD_MAX_PROCESSES_def zero_process_def)
  then have target: "wait_target 0 42 sample_child_bsd = Some 3"
    by (simp add: wait_target_def obj BSD_MAX_PROCESSES_def)
  obtain kr reply' s' where
    w: "bsd_syscall_waitpid (Some 0) 42 0 0 zero_reply sample_child_bsd = (kr, reply', s')"
    by (metis prod_cases3)
  from bsd_waitpid_outcome [OF ok w] show ?thesis
    by (simp add: w target obj BSD_MAX_PROCESSES_def)
qed

end
