(* ===== verification/Ipc_Hash.thy ===== *)
theory Ipc_Hash
  imports Ipc_Splay C_Memory
begin

text \<open>
  The reverse hash tables of the entry layer, \<^verbatim>\<open>Kernel/mxwl/ipc/ipc_hash.c\<close>: from a space and an
  object to the name the space has for the object.  A name whose index lies in the space's entry
  table is found through open addressing in the table itself (the field \<^verbatim>\<open>ie_index\<close>), any other
  through a global table of chains of splay tree entries.

  An address is a natural number, null is 0.  Spaces and splay tree entries live at addresses in the
  state \<open>ipcs\<close>; an entry of a table is named by its index.  A failed assertion, an access outside a
  table and a loop that never ends are \<open>None\<close>.  \<^verbatim>\<open>PORT_GENERATIONS\<close> is off in the sources: the index
  of a name is the name, a negative one widened to 64 bits.  The union of \<^verbatim>\<open>next\<close> and \<^verbatim>\<open>request\<close> in an
  entry is one field.  Locks are left out.
\<close>

section \<open>Data\<close>

record ipc_entry =
  ie_bits :: uint32
  ie_object :: nat
  ie_next :: nat
  ie_index :: nat

record ipc_tree_entry =
  te_bits :: uint32
  te_object :: nat
  te_request :: nat
  te_next :: nat
  te_name :: mach_port_t
  te_space :: nat

record ipc_space =
  is_active :: bool
  is_growing :: bool
  is_table :: "ipc_entry list"
  is_table_size :: nat
  is_table_next :: nat
  is_tree :: "nat ipc_splay_tree"
  is_tree_total :: nat
  is_tree_small :: nat
  is_tree_hash :: nat

record ipcs =
  ihg_size :: "64 word"
  ihg_mask :: "64 word"
  ihg_table :: "nat list option"
  tree_entry_max :: uint32
  spaces :: "nat \<Rightarrow> ipc_space"
  tents :: "nat \<Rightarrow> ipc_tree_entry"

text \<open>An \<^verbatim>\<open>ipc_entry_t\<close>: an entry of the space's table, or the entry inside a tree entry.\<close>

datatype entry_ref = Tab nat | Tree nat

definition MACH_PORT_INDEX :: "mach_port_t \<Rightarrow> nat" where
  "MACH_PORT_INDEX name = nat (take_bit 64 name)"

definition MACH_PORT_MAKEB :: "nat \<Rightarrow> mach_port_t" where
  "MACH_PORT_MAKEB index = signed_take_bit 31 (int index)"

definition upd_space :: "nat \<Rightarrow> (ipc_space \<Rightarrow> ipc_space) \<Rightarrow> 'a ipcs_scheme \<Rightarrow> 'a ipcs_scheme" where
  "upd_space sp f s = s\<lparr>spaces := (spaces s)(sp := f (spaces s sp))\<rparr>"

definition upd_tent :: "nat \<Rightarrow> (ipc_tree_entry \<Rightarrow> ipc_tree_entry) \<Rightarrow> 'a ipcs_scheme \<Rightarrow> 'a ipcs_scheme" where
  "upd_tent e f s = s\<lparr>tents := (tents s)(e := f (tents s e))\<rparr>"

section \<open>The local table\<close>

definition tab_at :: "ipc_entry list \<Rightarrow> nat \<Rightarrow> ipc_entry option" where
  "tab_at tab i = (if i < length tab then Some (tab ! i) else None)"

definition set_index :: "nat \<Rightarrow> nat \<Rightarrow> ipc_entry list \<Rightarrow> ipc_entry list" where
  "set_index h i tab = tab[h := (tab ! h)\<lparr>ie_index := i\<rparr>]"

definition IH_LOCAL_HASH :: "nat \<Rightarrow> nat \<Rightarrow> nat" where
  "IH_LOCAL_HASH obj n = obj div 64 mod n"

definition next_hindex :: "nat \<Rightarrow> nat \<Rightarrow> nat" where
  "next_hindex n h = (if h + 1 = n then 0 else h + 1)"

text \<open>The loop of a lookup: \<open>Some None\<close> is an empty slot, \<open>Some (Some i)\<close> the index of the entry.\<close>

partial_function (option) local_probe ::
  "ipc_entry list \<Rightarrow> nat \<Rightarrow> nat \<Rightarrow> nat \<Rightarrow> nat option option" where
  "local_probe tab n obj h = do {
     slot \<leftarrow> tab_at tab h;
     if ie_index slot = 0 then Some None
     else do {
       e \<leftarrow> tab_at tab (ie_index slot);
       if ie_object e = obj then Some (Some (ie_index slot))
       else local_probe tab n obj (next_hindex n h)
     }
   }"

definition ipc_hash_local_lookup ::
  "nat \<Rightarrow> nat \<Rightarrow> 'a ipcs_scheme \<Rightarrow> (mach_port_t \<times> nat) option option" where
  "ipc_hash_local_lookup sp obj s = do {
     c_assert (sp \<noteq> 0);
     c_assert (obj \<noteq> 0);
     let table = is_table (spaces s sp);
     let n = is_table_size (spaces s sp);
     c_assert (n \<noteq> 0);
     r \<leftarrow> local_probe table n obj (IH_LOCAL_HASH obj n);
     Some (case r of None \<Rightarrow> None | Some i \<Rightarrow> Some (MACH_PORT_MAKEB i, i))
   }"

partial_function (option) free_slot :: "ipc_entry list \<Rightarrow> nat \<Rightarrow> nat \<Rightarrow> nat option" where
  "free_slot tab n h = do {
     slot \<leftarrow> tab_at tab h;
     if ie_index slot = 0 then Some h else free_slot tab n (next_hindex n h)
   }"

definition local_insert :: "nat \<Rightarrow> nat \<Rightarrow> nat \<Rightarrow> ipc_entry list \<Rightarrow> ipc_entry list option" where
  "local_insert n obj index tab = do {
     h \<leftarrow> free_slot tab n (IH_LOCAL_HASH obj n);
     Some (set_index h index tab)
   }"

definition ipc_hash_local_insert ::
  "nat \<Rightarrow> nat \<Rightarrow> nat \<Rightarrow> entry_ref \<Rightarrow> 'a ipcs_scheme \<Rightarrow> 'a ipcs_scheme option" where
  "ipc_hash_local_insert sp obj index entry s = do {
     c_assert (index \<noteq> 0);
     c_assert (sp \<noteq> 0);
     c_assert (obj \<noteq> 0);
     let table = is_table (spaces s sp);
     let n = is_table_size (spaces s sp);
     c_assert (n \<noteq> 0);
     c_assert (entry = Tab index);
     e \<leftarrow> tab_at table index;
     c_assert (ie_object e = obj);
     table \<leftarrow> local_insert n obj index table;
     Some (upd_space sp (\<lambda>x. x\<lparr>is_table := table\<rparr>) s)
   }"

text \<open>The search of a deletion: \<open>Some None\<close> when the entry is not in the table.\<close>

partial_function (option) find_slot :: "ipc_entry list \<Rightarrow> nat \<Rightarrow> nat \<Rightarrow> nat \<Rightarrow> nat option option" where
  "find_slot tab n index h = do {
     slot \<leftarrow> tab_at tab h;
     if ie_index slot = index then Some (Some h)
     else if ie_index slot = 0 then Some None
     else find_slot tab n index (next_hindex n h)
   }"

text \<open>Is an object at \<open>d\<close>, whose own position is \<open>t\<close>, displaced from the hole \<open>h\<close> or from before it?\<close>

definition displaced :: "nat \<Rightarrow> nat \<Rightarrow> nat \<Rightarrow> bool" where
  "displaced h d t = (if d < h then d < t \<and> t \<le> h else d < t \<or> t \<le> h)"

text \<open>The inner loop: the next displaced entry after \<open>d\<close>, with its slot, or the end of the clump.\<close>

partial_function (option) clump_scan :: "ipc_entry list \<Rightarrow> nat \<Rightarrow> nat \<Rightarrow> nat \<Rightarrow> (nat \<times> nat) option" where
  "clump_scan tab n h d = do {
     let d = next_hindex n d;
     c_assert (d \<noteq> h);
     slot \<leftarrow> tab_at tab d;
     let index = ie_index slot;
     if index = 0 then Some (d, 0)
     else do {
       e \<leftarrow> tab_at tab index;
       c_assert (ie_object e \<noteq> 0);
       if displaced h d (IH_LOCAL_HASH (ie_object e) n) then Some (d, index)
       else clump_scan tab n h d
     }
   }"

text \<open>The outer loop moves entries into the hole until the clump ends.\<close>

partial_function (option) clump_close :: "ipc_entry list \<Rightarrow> nat \<Rightarrow> nat \<Rightarrow> ipc_entry list option" where
  "clump_close tab n h = do {
     (d, index) \<leftarrow> clump_scan tab n h h;
     (if index = 0 then Some (set_index h index tab)
      else clump_close (set_index h index tab) n d)
   }"

definition local_delete :: "nat \<Rightarrow> nat \<Rightarrow> nat \<Rightarrow> ipc_entry list \<Rightarrow> ipc_entry list option" where
  "local_delete n obj index tab = do {
     r \<leftarrow> find_slot tab n index (IH_LOCAL_HASH obj n);
     (case r of None \<Rightarrow> Some tab | Some h \<Rightarrow> clump_close tab n h)
   }"

definition ipc_hash_local_delete ::
  "nat \<Rightarrow> nat \<Rightarrow> nat \<Rightarrow> entry_ref \<Rightarrow> 'a ipcs_scheme \<Rightarrow> 'a ipcs_scheme option" where
  "ipc_hash_local_delete sp obj index entry s = do {
     c_assert (index \<noteq> 0);
     c_assert (sp \<noteq> 0);
     c_assert (obj \<noteq> 0);
     let table = is_table (spaces s sp);
     let n = is_table_size (spaces s sp);
     c_assert (n \<noteq> 0);
     c_assert (entry = Tab index);
     e \<leftarrow> tab_at table index;
     c_assert (ie_object e = obj);
     table \<leftarrow> local_delete n obj index table;
     Some (upd_space sp (\<lambda>x. x\<lparr>is_table := table\<rparr>) s)
   }"

section \<open>The global table\<close>

definition IH_GLOBAL_HASH :: "nat \<Rightarrow> nat \<Rightarrow> 'a ipcs_scheme \<Rightarrow> nat" where
  "IH_GLOBAL_HASH sp obj s =
     unat ((drop_bit 4 (of_nat sp) + drop_bit 6 (of_nat obj)) AND ihg_mask s)"

text \<open>The head of a bucket, and storing it; \<open>None\<close> when there is no table or no such bucket.\<close>

definition bucket_head :: "nat \<Rightarrow> 'a ipcs_scheme \<Rightarrow> nat option" where
  "bucket_head b s =
     (case ihg_table s of
        None \<Rightarrow> None
      | Some t \<Rightarrow> if b < length t then Some (t ! b) else None)"

definition set_bucket :: "nat \<Rightarrow> nat \<Rightarrow> 'a ipcs_scheme \<Rightarrow> 'a ipcs_scheme" where
  "set_bucket b e s = s\<lparr>ihg_table := map_option (\<lambda>t. t[b := e]) (ihg_table s)\<rparr>"

definition ite_matches :: "nat \<Rightarrow> nat \<Rightarrow> ipc_tree_entry \<Rightarrow> bool" where
  "ite_matches sp obj t \<longleftrightarrow> te_object t = obj \<and> te_space t = sp"

text \<open>The walk after the first entry: the entry found, with the one before it.\<close>

partial_function (option) chain_find ::
  "(nat \<Rightarrow> ipc_tree_entry) \<Rightarrow> nat \<Rightarrow> nat \<Rightarrow> nat \<Rightarrow> (nat \<times> nat) option option" where
  "chain_find heap sp obj prev =
     (let this = te_next (heap prev)
      in if this = 0 then Some None
         else if ite_matches sp obj (heap this) then Some (Some (prev, this))
         else chain_find heap sp obj this)"

definition ipc_hash_global_lookup ::
  "nat \<Rightarrow> nat \<Rightarrow> 'a ipcs_scheme \<Rightarrow> ((mach_port_t \<times> nat) option \<times> 'a ipcs_scheme) option" where
  "ipc_hash_global_lookup sp obj s = do {
     c_assert (sp \<noteq> 0);
     c_assert (obj \<noteq> 0);
     let b = IH_GLOBAL_HASH sp obj s;
     this \<leftarrow> bucket_head b s;
     if this = 0 then Some (None, s)
     else if ite_matches sp obj (tents s this) then Some (Some (te_name (tents s this), this), s)
     else do {
       r \<leftarrow> chain_find (tents s) sp obj this;
       (case r of
          None \<Rightarrow> Some (None, s)
        | Some (prev, found) \<Rightarrow>
            (let s' = upd_tent prev (\<lambda>t. t\<lparr>te_next := te_next (tents s found)\<rparr>) s;
                 s' = upd_tent found (\<lambda>t. t\<lparr>te_next := this\<rparr>) s'
             in Some (Some (te_name (tents s found), found), set_bucket b found s')))
     }
   }"

definition check_tree_entry :: "nat \<Rightarrow> nat \<Rightarrow> mach_port_t \<Rightarrow> nat \<Rightarrow> 'a ipcs_scheme \<Rightarrow> bool" where
  "check_tree_entry sp obj name entry s \<longleftrightarrow>
     te_name (tents s entry) = name \<and> sp \<noteq> 0 \<and> te_space (tents s entry) = sp \<and> obj \<noteq> 0 \<and>
     te_object (tents s entry) = obj"

definition ipc_hash_global_insert ::
  "nat \<Rightarrow> nat \<Rightarrow> mach_port_t \<Rightarrow> nat \<Rightarrow> 'a ipcs_scheme \<Rightarrow> 'a ipcs_scheme option" where
  "ipc_hash_global_insert sp obj name entry s = do {
     c_assert (check_tree_entry sp obj name entry s);
     let s = upd_space sp (\<lambda>x. x\<lparr>is_tree_hash := is_tree_hash x + 1\<rparr>) s;
     c_assert (is_tree_hash (spaces s sp) \<le> is_tree_total (spaces s sp));
     let b = IH_GLOBAL_HASH sp obj s;
     head \<leftarrow> bucket_head b s;
     Some (set_bucket b entry (upd_tent entry (\<lambda>t. t\<lparr>te_next := head\<rparr>) s))
   }"

text \<open>The walk of a deletion: the entry before the one wanted.\<close>

partial_function (option) chain_before ::
  "(nat \<Rightarrow> ipc_tree_entry) \<Rightarrow> nat \<Rightarrow> nat \<Rightarrow> nat option option" where
  "chain_before heap entry prev =
     (let this = te_next (heap prev)
      in if this = 0 then Some None
         else if this = entry then Some (Some prev)
         else chain_before heap entry this)"

definition ipc_hash_global_delete ::
  "nat \<Rightarrow> nat \<Rightarrow> mach_port_t \<Rightarrow> nat \<Rightarrow> 'a ipcs_scheme \<Rightarrow> 'a ipcs_scheme option" where
  "ipc_hash_global_delete sp obj name entry s = do {
     c_assert (check_tree_entry sp obj name entry s);
     c_assert (0 < is_tree_hash (spaces s sp));
     let s = upd_space sp (\<lambda>x. x\<lparr>is_tree_hash := is_tree_hash x - 1\<rparr>) s;
     let b = IH_GLOBAL_HASH sp obj s;
     this \<leftarrow> bucket_head b s;
     c_assert (this \<noteq> 0);
     if this = entry then Some (set_bucket b (te_next (tents s entry)) s)
     else do {
       r \<leftarrow> chain_before (tents s) entry this;
       (case r of
          None \<Rightarrow> None
        | Some prev \<Rightarrow> Some (upd_tent prev (\<lambda>t. t\<lparr>te_next := te_next (tents s entry)\<rparr>) s))
     }
   }"

section \<open>Both tables\<close>

definition ipc_hash_lookup ::
  "nat \<Rightarrow> nat \<Rightarrow> 'a ipcs_scheme \<Rightarrow> ((mach_port_t \<times> entry_ref) option \<times> 'a ipcs_scheme) option" where
  "ipc_hash_lookup sp obj s = do {
     l \<leftarrow> ipc_hash_local_lookup sp obj s;
     (case l of
        Some (name, i) \<Rightarrow> Some (Some (name, Tab i), s)
      | None \<Rightarrow>
          if 0 < is_tree_hash (spaces s sp) then do {
            (g, s) \<leftarrow> ipc_hash_global_lookup sp obj s;
            Some (map_option (\<lambda>(name, e). (name, Tree e)) g, s)
          }
          else Some (None, s))
   }"

definition ipc_hash_insert ::
  "nat \<Rightarrow> nat \<Rightarrow> mach_port_t \<Rightarrow> entry_ref \<Rightarrow> 'a ipcs_scheme \<Rightarrow> 'a ipcs_scheme option" where
  "ipc_hash_insert sp obj name entry s =
     (let index = MACH_PORT_INDEX name
      in if index < is_table_size (spaces s sp) \<and> entry = Tab index
         then ipc_hash_local_insert sp obj index entry s
         else (case entry of Tree e \<Rightarrow> ipc_hash_global_insert sp obj name e s | Tab _ \<Rightarrow> None))"

definition ipc_hash_delete ::
  "nat \<Rightarrow> nat \<Rightarrow> mach_port_t \<Rightarrow> entry_ref \<Rightarrow> 'a ipcs_scheme \<Rightarrow> 'a ipcs_scheme option" where
  "ipc_hash_delete sp obj name entry s =
     (let index = MACH_PORT_INDEX name
      in if index < is_table_size (spaces s sp) \<and> entry = Tab index
         then ipc_hash_local_delete sp obj index entry s
         else (case entry of Tree e \<Rightarrow> ipc_hash_global_delete sp obj name e s | Tab _ \<Rightarrow> None))"

section \<open>Initialisation\<close>

text \<open>The loop that rounds the size up to a power of two; the second argument counts the bits of the
  word that are left.\<close>

fun round_mask :: "nat \<Rightarrow> 64 word \<Rightarrow> 64 word \<Rightarrow> 64 word option" where
  "round_mask 0 b m = None"
| "round_mask (Suc k) b m =
     (let m = m OR b
      in if (m + 1) AND m = 0 then Some m else round_mask k (push_bit 1 b) m)"

text \<open>\<open>ok\<close> says whether the allocation succeeds.\<close>

definition ipc_hash_init :: "bool \<Rightarrow> 'a ipcs_scheme \<Rightarrow> 'a ipcs_scheme option" where
  "ipc_hash_init ok s = do {
     let sz = (if ihg_size s = 0
                 then (let m = drop_bit 8 (ucast (tree_entry_max s)) in if m < 32 then 32 else m)
                 else ihg_size s);
     m \<leftarrow> (if sz AND (sz - 1) \<noteq> 0 then round_mask 64 1 (sz - 1) else Some (sz - 1));
     c_assert ok;
     Some (s\<lparr>ihg_size := m + 1, ihg_mask := m,
             ihg_table := Some (replicate (unat (m + 1)) 0)\<rparr>)
   }"

end
