(* ===== verification/Ipc_Probe.thy ===== *)
theory Ipc_Probe
  imports Ipc_Hash
begin

text \<open>
  The local table is a linear probing hash table in the index fields of the entries.  Its invariant
  says that no slot is empty between the position an object hashes to and the slot that holds it.
  A lookup finds exactly the entries that were inserted; a deletion, which moves displaced entries
  into the hole it makes, keeps the invariant and removes exactly one entry.
\<close>

section \<open>Positions on the ring\<close>

text \<open>\<open>inside a s b\<close>: going up from \<open>a\<close>, around the ring, \<open>s\<close> comes before \<open>b\<close>.\<close>

definition inside :: "nat \<Rightarrow> nat \<Rightarrow> nat \<Rightarrow> bool" where
  "inside a s b = (if a \<le> b then a \<le> s \<and> s < b else a \<le> s \<or> s < b)"

definition ahead :: "nat \<Rightarrow> nat \<Rightarrow> nat \<Rightarrow> nat" where
  "ahead n a b = (if a \<le> b then b - a else b + n - a)"

lemma inside_self [simp]: "\<not> inside a s a"
  by (simp add: inside_def)

lemma inside_end [simp]: "\<not> inside a b b"
  by (simp add: inside_def)

lemma next_less [simp]: "h < n \<Longrightarrow> next_hindex n h < n"
  by (auto simp: next_hindex_def)

lemma next_neq: "h < n \<Longrightarrow> 1 < n \<Longrightarrow> next_hindex n h \<noteq> h"
  by (auto simp: next_hindex_def)

lemma inside_next:
  "a < n \<Longrightarrow> b < n \<Longrightarrow> s < n \<Longrightarrow> a \<noteq> b \<Longrightarrow> inside a s b \<longleftrightarrow> s = a \<or> inside (next_hindex n a) s b"
  by (auto simp: inside_def next_hindex_def)

lemma ahead_next: "a < n \<Longrightarrow> b < n \<Longrightarrow> a \<noteq> b \<Longrightarrow> Suc (ahead n (next_hindex n a) b) = ahead n a b"
  by (auto simp: ahead_def next_hindex_def)

lemma ahead_inside: "a < n \<Longrightarrow> b < n \<Longrightarrow> c < n \<Longrightarrow> inside a b c \<Longrightarrow> a \<noteq> b \<Longrightarrow> ahead n b c < ahead n a c"
  by (auto simp: ahead_def inside_def split: if_splits)

lemma inside_all: "h < n \<Longrightarrow> s < n \<Longrightarrow> s \<noteq> h \<Longrightarrow> inside (next_hindex n h) s h"
  by (auto simp: inside_def next_hindex_def)

lemma displaced_inside: "d \<noteq> h \<Longrightarrow> displaced h d t \<longleftrightarrow> inside t h d"
  by (auto simp: displaced_def inside_def)

lemma inside_total: "u \<noteq> s \<Longrightarrow> \<not> inside a u s \<Longrightarrow> inside a s u"
  by (auto simp: inside_def split: if_splits)

lemma inside_shift:
  "h < n \<Longrightarrow> s < n \<Longrightarrow> u < n \<Longrightarrow> t < n \<Longrightarrow> inside t h u \<Longrightarrow> inside (next_hindex n h) s u \<Longrightarrow> inside t s u"
  by (auto simp: inside_def next_hindex_def split: if_splits)

lemma inside_prefix: "inside t h d \<Longrightarrow> inside t s h \<Longrightarrow> inside t s d"
  by (auto simp: inside_def split: if_splits)

section \<open>The first position that stops a search\<close>

fun seek :: "nat \<Rightarrow> (nat \<Rightarrow> bool) \<Rightarrow> nat \<Rightarrow> nat \<Rightarrow> nat option" where
  "seek n P 0 a = None"
| "seek n P (Suc k) a = (if P a then Some a else seek n P k (next_hindex n a))"

lemma seek_found:
  assumes "a < n" "z < n" "P z" "ahead n a z < k"
  shows "\<exists>h < n. seek n P k a = Some h \<and> P h \<and> (\<forall>s < n. inside a s h \<longrightarrow> \<not> P s)"
  using assms
proof (induction k arbitrary: a)
  case (Suc k)
  show ?case
  proof (cases "P a")
    case True
    with Suc.prems show ?thesis by auto
  next
    case False
    with Suc.prems have "a \<noteq> z" by auto
    then have "ahead n (next_hindex n a) z < k"
      using Suc.prems ahead_next [of a n z] by simp
    then obtain h where h: "h < n" "seek n P k (next_hindex n a) = Some h" "P h"
      "\<forall>s < n. inside (next_hindex n a) s h \<longrightarrow> \<not> P s"
      using Suc.IH [OF next_less [OF Suc.prems(1)] Suc.prems(2,3)] by blast
    moreover have "\<not> P s" if "s < n" "inside a s h" for s
      using that h False Suc.prems(1) inside_next [of a n h s] by (cases "a = h") auto
    ultimately show ?thesis
      using False by auto
  qed
qed simp

lemma ahead_less: "a < n \<Longrightarrow> z < n \<Longrightarrow> ahead n a z < n"
  by (auto simp: ahead_def)

lemma seekE:
  assumes "a < n" "z < n" "P z"
  obtains h where "h < n" "seek n P n a = Some h" "P h" "\<And>s. s < n \<Longrightarrow> inside a s h \<Longrightarrow> \<not> P s"
  using seek_found [of a n z P n] ahead_less [of a n z] assms by blast

section \<open>The invariant\<close>

definition slot :: "ipc_entry list \<Rightarrow> nat \<Rightarrow> nat" where
  "slot tab h = ie_index (tab ! h)"

definition obj_of :: "ipc_entry list \<Rightarrow> nat \<Rightarrow> nat" where
  "obj_of tab i = ie_object (tab ! i)"

definition home :: "ipc_entry list \<Rightarrow> nat \<Rightarrow> nat" where
  "home tab i = IH_LOCAL_HASH (obj_of tab i) (length tab)"

text \<open>The indices in the table.\<close>

definition hashed :: "ipc_entry list \<Rightarrow> nat set" where
  "hashed tab = {i. i \<noteq> 0 \<and> (\<exists>h < length tab. slot tab h = i)}"

definition slots_ok :: "ipc_entry list \<Rightarrow> nat set \<Rightarrow> bool" where
  "slots_ok tab hs \<longleftrightarrow>
     (\<forall>h < length tab. h \<notin> hs \<longrightarrow> slot tab h < length tab) \<and>
     (\<forall>h < length tab. \<forall>h' < length tab. h \<notin> hs \<longrightarrow> h' \<notin> hs \<longrightarrow> slot tab h \<noteq> 0 \<longrightarrow> slot tab h = slot tab h' \<longrightarrow> h = h') \<and>
     (\<forall>h < length tab. h \<notin> hs \<longrightarrow> slot tab h \<noteq> 0 \<longrightarrow> obj_of tab (slot tab h) \<noteq> 0) \<and>
     (\<forall>h < length tab. h \<notin> hs \<longrightarrow> slot tab h \<noteq> 0 \<longrightarrow>
        (\<forall>s < length tab. inside (home tab (slot tab h)) s h \<longrightarrow> s \<in> hs \<or> slot tab s \<noteq> 0))"

lemma slots_okD:
  assumes "slots_ok tab hs" "h < length tab" "h \<notin> hs"
  shows "slot tab h < length tab"
    and "slot tab h \<noteq> 0 \<Longrightarrow> obj_of tab (slot tab h) \<noteq> 0"
    and "slot tab h \<noteq> 0 \<Longrightarrow> s < length tab \<Longrightarrow> inside (home tab (slot tab h)) s h \<Longrightarrow> s \<in> hs \<or> slot tab s \<noteq> 0"
  using assms unfolding slots_ok_def by blast+

lemma slots_ok_inj:
  "slots_ok tab hs \<Longrightarrow> h < length tab \<Longrightarrow> h' < length tab \<Longrightarrow> h \<notin> hs \<Longrightarrow> h' \<notin> hs \<Longrightarrow> slot tab h \<noteq> 0 \<Longrightarrow>
   slot tab h = slot tab h' \<Longrightarrow> h = h'"
  unfolding slots_ok_def by blast

definition lhash_inv :: "ipc_entry list \<Rightarrow> bool" where
  "lhash_inv tab \<longleftrightarrow>
     tab \<noteq> [] \<and> slots_ok tab {} \<and> inj_on (obj_of tab) (hashed tab)"

lemma set_index_simps [simp]:
  "length (set_index h i tab) = length tab"
  "obj_of (set_index h i tab) j = obj_of tab j"
  "home (set_index h i tab) j = home tab j"
  "h < length tab \<Longrightarrow> slot (set_index h i tab) s = (if s = h then i else slot tab s)"
proof -
  show 1: "length (set_index h i tab) = length tab"
    by (simp add: set_index_def)
  show 2: "obj_of (set_index h i tab) j = obj_of tab j" for j
    by (cases "h < length tab") (auto simp: set_index_def obj_of_def nth_list_update list_update_beyond)
  show "home (set_index h i tab) j = home tab j"
    by (simp add: home_def 1 2)
  show "h < length tab \<Longrightarrow> slot (set_index h i tab) s = (if s = h then i else slot tab s)"
    by (auto simp: set_index_def slot_def nth_list_update)
qed

lemma home_less [simp]: "tab \<noteq> [] \<Longrightarrow> home tab i < length tab"
  by (simp add: home_def IH_LOCAL_HASH_def)

text \<open>There is an empty slot, and one besides a hole: more slots than indices.\<close>

lemma zero_among:
  assumes "slots_ok tab hs" "S \<subseteq> {..<length tab}" "S \<inter> hs = {}"
    and "finite T" "T \<subseteq> {1..<length tab}" "\<And>s. s \<in> S \<Longrightarrow> slot tab s \<noteq> 0 \<Longrightarrow> slot tab s \<in> T" "card T < card S"
  shows "\<exists>z \<in> S. slot tab z = 0"
proof (rule ccontr)
  assume "\<not> (\<exists>z \<in> S. slot tab z = 0)"
  then have nz: "\<forall>s \<in> S. slot tab s \<noteq> 0"
    by simp
  have "inj_on (slot tab) S"
  proof (rule inj_onI)
    fix x y assume xy: "x \<in> S" "y \<in> S" and eq: "slot tab x = slot tab y"
    then have "x < length tab" "y < length tab" "x \<notin> hs" "y \<notin> hs" "slot tab x \<noteq> 0"
      using assms(2,3) nz by blast+
    then show "x = y"
      using eq by (rule slots_ok_inj [OF assms(1)])
  qed
  moreover have "slot tab ` S \<subseteq> T"
    using assms(6) nz by blast
  ultimately have "card S \<le> card T"
    using assms(4) by (metis card_image card_mono)
  with assms(7) show False by simp
qed

lemma zero_slot:
  assumes "slots_ok tab {}" "tab \<noteq> []"
  obtains z where "z < length tab" "slot tab z = 0"
proof -
  have "slot tab s \<in> {1..<length tab}" if "s \<in> {..<length tab}" "slot tab s \<noteq> 0" for s
    using slots_okD(1) [OF assms(1)] that by (simp add: Suc_le_eq)
  then have "\<exists>z \<in> {..<length tab}. slot tab z = 0"
    using assms(2) by (intro zero_among [OF assms(1), of _ "{1..<length tab}"]) auto
  with that show thesis by blast
qed

lemma zero_slot_besides:
  assumes "slots_ok tab {h}" "h < length tab" "0 < i" "i < length tab"
    and "\<And>s. s < length tab \<Longrightarrow> s \<noteq> h \<Longrightarrow> slot tab s \<noteq> i"
  obtains z where "z < length tab" "z \<noteq> h" "slot tab z = 0"
proof -
  let ?S = "{..<length tab} - {h}" and ?T = "{1..<length tab} - {i}"
  have "slot tab s \<in> ?T" if "s \<in> ?S" "slot tab s \<noteq> 0" for s
    using slots_okD(1) [OF assms(1)] assms(5) that by (simp add: Suc_le_eq)
  moreover have "card ?T < card ?S"
    using assms(2-4) by (simp add: card_Diff_singleton)
  ultimately have "\<exists>z \<in> ?S. slot tab z = 0"
    by (intro zero_among [OF assms(1), of _ ?T]) auto
  with that show thesis by auto
qed

section \<open>Lookup\<close>

lemma tab_at_less [simp]: "h < length tab \<Longrightarrow> tab_at tab h = Some (tab ! h)"
  by (simp add: tab_at_def)

lemma local_probe_seek:
  assumes "seek (length tab) (\<lambda>h. slot tab h = 0 \<or> obj_of tab (slot tab h) = obj) k a = Some h"
    and "a < length tab" "\<And>h. h < length tab \<Longrightarrow> slot tab h < length tab"
  shows "local_probe tab (length tab) obj a = Some (if slot tab h = 0 then None else Some (slot tab h))"
  using assms(1,2)
proof (induction k arbitrary: a)
  case (Suc k)
  have "slot tab a < length tab"
    using Suc.prems(2) assms(3) by simp
  with Suc show ?case
    by (subst local_probe.simps) (auto simp: slot_def obj_of_def split: if_splits)
qed simp

lemma hashed_slot: "i \<in> hashed tab \<Longrightarrow> \<exists>h < length tab. slot tab h = i \<and> i \<noteq> 0"
  by (auto simp: hashed_def)

lemma local_probe_correct:
  assumes "lhash_inv tab"
  shows "local_probe tab (length tab) obj (IH_LOCAL_HASH obj (length tab)) =
    Some (if \<exists>i \<in> hashed tab. obj_of tab i = obj then Some (THE i. i \<in> hashed tab \<and> obj_of tab i = obj) else None)"
proof -
  let ?n = "length tab" and ?a = "IH_LOCAL_HASH obj (length tab)"
  let ?P = "\<lambda>h. slot tab h = 0 \<or> obj_of tab (slot tab h) = obj"
  have ok: "tab \<noteq> []" "slots_ok tab {}" "inj_on (obj_of tab) (hashed tab)"
    using assms by (simp_all add: lhash_inv_def)
  have a: "?a < ?n"
    using ok(1) by (simp add: IH_LOCAL_HASH_def)
  obtain z where "z < ?n" "slot tab z = 0"
    using zero_slot [OF ok(2,1)] .
  then obtain h where h: "h < ?n" "seek ?n ?P ?n ?a = Some h" "?P h" "\<And>s. s < ?n \<Longrightarrow> inside ?a s h \<Longrightarrow> \<not> ?P s"
    using seekE [OF a, of z ?P] by blast
  have probe: "local_probe tab ?n obj ?a = Some (if slot tab h = 0 then None else Some (slot tab h))"
    using local_probe_seek [OF h(2) a] slots_okD(1) [OF ok(2)] by simp
  show ?thesis
  proof (cases "\<exists>i \<in> hashed tab. obj_of tab i = obj")
    case False
    then have "slot tab h = 0"
      using h(1,3) by (auto simp: hashed_def)
    with False probe show ?thesis by simp
  next
    case True
    then obtain i where i: "i \<in> hashed tab" "obj_of tab i = obj" by blast
    then obtain g where g: "g < ?n" "slot tab g = i" "i \<noteq> 0"
      using hashed_slot by blast
    have "slot tab h \<noteq> 0"
    proof
      assume zero: "slot tab h = 0"
      then have "g \<noteq> h" using g by auto
      moreover have "\<not> inside ?a g h"
        using h(4) [of g] g i by auto
      ultimately have "inside ?a h g"
        by (rule inside_total)
      moreover have "home tab (slot tab g) = ?a"
        using g i by (simp add: home_def)
      ultimately show False
        using slots_okD(3) [OF ok(2) g(1), of h] g h(1) zero by simp
    qed
    then have "slot tab h \<in> hashed tab" "obj_of tab (slot tab h) = obj"
      using h(1,3) by (auto simp: hashed_def)
    then have "slot tab h = i"
      using ok(3) i by (auto simp: inj_on_def)
    moreover have "(THE j. j \<in> hashed tab \<and> obj_of tab j = obj) = i"
      using i ok(3) by (auto simp: inj_on_def intro!: the_equality)
    ultimately show ?thesis
      using probe True g(3) by simp
  qed
qed

section \<open>Insertion\<close>

lemma free_slot_seek:
  assumes "seek (length tab) (\<lambda>h. slot tab h = 0) k a = Some h" "a < length tab"
  shows "free_slot tab (length tab) a = Some h"
  using assms
proof (induction k arbitrary: a)
  case (Suc k)
  then show ?case
    by (subst free_slot.simps) (auto simp: slot_def split: if_splits)
qed simp

lemma slots_ok_weaken: "slots_ok tab {} \<Longrightarrow> slots_ok tab hs"
  unfolding slots_ok_def by blast

text \<open>Filling an empty slot, or a hole, with an entry whose path to it is occupied.\<close>

lemma fill_slot:
  assumes "slots_ok tab hs" "h < length tab" "slot tab h = 0 \<or> h \<in> hs" "0 < i" "i < length tab"
    and "obj_of tab i \<noteq> 0" "\<And>s. s < length tab \<Longrightarrow> s \<notin> hs' \<Longrightarrow> s \<noteq> h \<Longrightarrow> slot tab s \<noteq> i"
    and "\<And>s. s < length tab \<Longrightarrow> inside (home tab i) s h \<Longrightarrow> s \<in> hs' \<or> slot tab s \<noteq> 0"
    and "hs - {h} \<subseteq> hs'" "h \<notin> hs'"
  shows "slots_ok (set_index h i tab) hs'"
proof -
  let ?t = "set_index h i tab"
  have notin: "s \<notin> hs" if "s \<notin> hs'" "s \<noteq> h" for s
    using that assms(9) by blast
  show ?thesis
    unfolding slots_ok_def set_index_simps(1)
  proof (intro conjI allI impI)
    fix s assume s: "s < length tab" "s \<notin> hs'"
    show "slot ?t s < length tab"
      using s assms(2,5) slots_okD(1) [OF assms(1) s(1)] notin by auto
  next
    fix s s' assume s: "s < length tab" "s' < length tab" "s \<notin> hs'" "s' \<notin> hs'" "slot ?t s \<noteq> 0" "slot ?t s = slot ?t s'"
    show "s = s'"
    proof (cases "s = h \<or> s' = h")
      case True
      with s assms(2) assms(7) [of s] assms(7) [of s'] show ?thesis by (auto split: if_splits)
    next
      case False
      with s assms(2) have "slot tab s \<noteq> 0" "slot tab s = slot tab s'" by simp_all
      with s False notin show ?thesis
        by (metis slots_ok_inj [OF assms(1)])
    qed
  next
    fix s assume s: "s < length tab" "s \<notin> hs'" "slot ?t s \<noteq> 0"
    show "obj_of ?t (slot ?t s) \<noteq> 0"
      using s assms(2,6) slots_okD(2) [OF assms(1) s(1)] notin by auto
  next
    fix s u assume s: "s < length tab" "s \<notin> hs'" "slot ?t s \<noteq> 0" and u: "u < length tab" "inside (home ?t (slot ?t s)) u s"
    show "u \<in> hs' \<or> slot ?t u \<noteq> 0"
    proof (cases "u = h \<or> s = h")
      case True
      then show ?thesis
        using u assms(2,4) assms(8) [OF u(1)] by auto
    next
      case False
      then have "u \<in> hs \<or> slot tab u \<noteq> 0"
        using slots_okD(3) [OF assms(1) s(1) _ _ u(1)] s u assms(2) notin by simp
      with False assms(2,9) show ?thesis by auto
    qed
  qed
qed

lemma hashed_fill:
  assumes "h < length tab" "slot tab h = 0" "i \<noteq> 0"
  shows "hashed (set_index h i tab) = insert i (hashed tab)"
proof (intro equalityI subsetI)
  fix j assume "j \<in> hashed (set_index h i tab)"
  then obtain g where "g < length tab" "j \<noteq> 0" "(if g = h then i else slot tab g) = j"
    using assms(1) by (auto simp: hashed_def)
  then show "j \<in> insert i (hashed tab)"
    by (auto simp: hashed_def split: if_splits)
next
  fix j assume "j \<in> insert i (hashed tab)"
  then consider "j = i" | g where "g < length tab" "slot tab g = j" "j \<noteq> 0" "g \<noteq> h"
    using assms(2) hashed_slot by fastforce
  then show "j \<in> hashed (set_index h i tab)"
    using assms by cases (auto simp: hashed_def)
qed

lemma local_insert_correct:
  assumes "lhash_inv tab" "0 < i" "i < length tab" "obj_of tab i \<noteq> 0"
    and "\<And>j. j \<in> hashed tab \<Longrightarrow> obj_of tab j \<noteq> obj_of tab i"
  shows "\<exists>tab'. local_insert (length tab) (obj_of tab i) i tab = Some tab' \<and> lhash_inv tab' \<and>
    hashed tab' = insert i (hashed tab) \<and> (\<exists>h < length tab. tab' = set_index h i tab)"
proof -
  let ?n = "length tab" and ?a = "IH_LOCAL_HASH (obj_of tab i) (length tab)"
  have ok: "tab \<noteq> []" "slots_ok tab {}" "inj_on (obj_of tab) (hashed tab)"
    using assms(1) by (simp_all add: lhash_inv_def)
  have a: "?a < ?n"
    using ok(1) by (simp add: IH_LOCAL_HASH_def)
  obtain z where "z < ?n" "slot tab z = 0"
    using zero_slot [OF ok(2,1)] .
  then obtain h where h: "h < ?n" "seek ?n (\<lambda>h. slot tab h = 0) ?n ?a = Some h" "slot tab h = 0"
    "\<And>s. s < ?n \<Longrightarrow> inside ?a s h \<Longrightarrow> slot tab s \<noteq> 0"
    using seekE [OF a, of z "\<lambda>h. slot tab h = 0"] by blast
  have run: "local_insert ?n (obj_of tab i) i tab = Some (set_index h i tab)"
    using free_slot_seek [OF h(2) a] by (simp add: local_insert_def)
  have new: "i \<notin> hashed tab"
    using assms(5) by blast
  have "slots_ok (set_index h i tab) {}"
    using h assms(2-4) new
    by (intro fill_slot [OF ok(2)]) (auto simp: hashed_def home_def)
  moreover have hashed: "hashed (set_index h i tab) = insert i (hashed tab)"
    using h(1,3) assms(2) by (intro hashed_fill) auto
  moreover have "inj_on (obj_of tab) (insert i (hashed tab))"
  proof -
    have "obj_of tab i \<notin> obj_of tab ` hashed tab"
      using assms(5) by (metis imageE)
    then show ?thesis
      using ok(3) new by (simp add: inj_on_insert)
  qed
  then have "inj_on (obj_of (set_index h i tab)) (insert i (hashed tab))"
    by (simp add: inj_on_def)
  ultimately have "lhash_inv (set_index h i tab)"
    using ok(1) by (simp add: lhash_inv_def) (simp add: set_index_def)
  with run hashed h(1) show ?thesis by blast
qed

section \<open>Deletion\<close>

lemma find_slot_seek:
  assumes "seek (length tab) (\<lambda>h. slot tab h = i \<or> slot tab h = 0) k a = Some h" "a < length tab"
  shows "find_slot tab (length tab) i a = Some (if slot tab h = i then Some h else None)"
  using assms
proof (induction k arbitrary: a)
  case (Suc k)
  then show ?case
    by (subst find_slot.simps) (auto simp: slot_def split: if_splits)
qed simp

text \<open>The slot of an entry is found from where its object hashes to.\<close>

lemma find_slot_correct:
  assumes "lhash_inv tab" "i < length tab" "i \<noteq> 0"
  shows "find_slot tab (length tab) i (home tab i) =
    Some (if i \<in> hashed tab then Some (THE h. h < length tab \<and> slot tab h = i) else None)"
proof -
  let ?n = "length tab" and ?P = "\<lambda>h. slot tab h = i \<or> slot tab h = 0"
  have ok: "tab \<noteq> []" "slots_ok tab {}"
    using assms(1) by (simp_all add: lhash_inv_def)
  obtain z where "z < ?n" "slot tab z = 0"
    using zero_slot [OF ok(2,1)] .
  then obtain h where h: "h < ?n" "seek ?n ?P ?n (home tab i) = Some h" "?P h"
    "\<And>s. s < ?n \<Longrightarrow> inside (home tab i) s h \<Longrightarrow> \<not> ?P s"
    using seekE [OF home_less [OF ok(1)], of z ?P] by blast
  have find: "find_slot tab ?n i (home tab i) = Some (if slot tab h = i then Some h else None)"
    using find_slot_seek [OF h(2) home_less [OF ok(1)]] .
  show ?thesis
  proof (cases "i \<in> hashed tab")
    case False
    then have "slot tab h \<noteq> i"
      using h(1) assms(3) by (auto simp: hashed_def)
    with False find show ?thesis by simp
  next
    case True
    then obtain g where g: "g < ?n" "slot tab g = i"
      using hashed_slot by blast
    have "slot tab h = i"
    proof (rule ccontr)
      assume "slot tab h \<noteq> i"
      then have zero: "slot tab h = 0" and "g \<noteq> h"
        using h(3) g(2) by auto
      moreover have "\<not> inside (home tab i) g h"
        using h(4) [of g] g by auto
      ultimately have "inside (home tab i) h g"
        by (intro inside_total)
      then show False
        using slots_okD(3) [OF ok(2) g(1), of h] g assms(3) h(1) zero by simp
    qed
    moreover have "(THE h. h < ?n \<and> slot tab h = i) = h"
    proof (rule the_equality)
      show "h < ?n \<and> slot tab h = i" using h(1) calculation by simp
      show "f = h" if "f < ?n \<and> slot tab f = i" for f
      proof -
        have "slot tab f \<noteq> 0" "slot tab f = slot tab h"
          using that calculation assms(3) by simp_all
        then show ?thesis
          using that h(1) by (intro slots_ok_inj [OF ok(2), of f h]) simp_all
      qed
    qed
    ultimately show ?thesis
      using find True by simp
  qed
qed

text \<open>The inner loop finds the first slot after the hole that is empty or displaced.\<close>

lemma inside_start: "a \<noteq> b \<Longrightarrow> inside a a b"
  by (auto simp: inside_def)

lemma clump_scan_seek:
  assumes "seek (length tab) (\<lambda>s. slot tab s = 0 \<or> displaced h s (home tab (slot tab s))) k (next_hindex (length tab) d) = Some e"
    and "d < length tab" "e < length tab"
    and "\<And>s. s < length tab \<Longrightarrow> inside (next_hindex (length tab) d) s e \<Longrightarrow> s \<noteq> h"
    and "h < length tab" "slots_ok tab {h}" "e \<noteq> h"
    and "slot tab e = 0 \<or> displaced h e (home tab (slot tab e))"
  shows "clump_scan tab (length tab) h d = Some (e, slot tab e)"
  using assms(1,2,4)
proof (induction k arbitrary: d)
  case (Suc k)
  let ?n = "length tab"
  let ?d = "next_hindex ?n d"
  have less: "?d < ?n" using Suc.prems(2) by simp
  have neq: "?d \<noteq> h"
    using Suc.prems(3) [OF less] assms(7) inside_start [of ?d e] by (cases "?d = e") auto
  have slot: "slot tab ?d < ?n" "slot tab ?d \<noteq> 0 \<Longrightarrow> obj_of tab (slot tab ?d) \<noteq> 0"
    using slots_okD(1,2) [OF assms(6) less] neq by auto
  have step: "clump_scan tab ?n h d =
      (if slot tab ?d = 0 then Some (?d, 0)
       else if displaced h ?d (home tab (slot tab ?d)) then Some (?d, slot tab ?d)
       else clump_scan tab ?n h ?d)"
    using less neq slot
    by (subst clump_scan.simps) (simp add: Let_def slot_def [symmetric] obj_of_def [symmetric] home_def)
  show ?case
  proof (cases "slot tab ?d = 0 \<or> displaced h ?d (home tab (slot tab ?d))")
    case True
    with Suc.prems(1) have "?d = e" by simp
    with True show ?thesis unfolding step by auto
  next
    case False
    then have "seek ?n (\<lambda>s. slot tab s = 0 \<or> displaced h s (home tab (slot tab s))) k (next_hindex ?n ?d) = Some e"
      using Suc.prems(1) by simp
    moreover have "?d \<noteq> e"
      using False assms(8) by auto
    then have "s \<noteq> h" if "s < ?n" "inside (next_hindex ?n ?d) s e" for s
      using that Suc.prems(3) [OF that(1)] inside_next [OF less assms(3) that(1)] by auto
    ultimately have "clump_scan tab ?n h ?d = Some (e, slot tab e)"
      using less by (intro Suc.IH)
    with False show ?thesis unfolding step by simp
  qed
qed simp

text \<open>What the table holds besides the slot that is being emptied.\<close>

definition others :: "ipc_entry list \<Rightarrow> nat \<Rightarrow> nat set" where
  "others tab h = {i. i \<noteq> 0 \<and> (\<exists>s < length tab. s \<noteq> h \<and> slot tab s = i)}"

lemma clump_scan_correct:
  assumes "slots_ok tab {h}" "h < length tab" "z < length tab" "z \<noteq> h" "slot tab z = 0"
  obtains e where "clump_scan tab (length tab) h h = Some (e, slot tab e)" "e < length tab" "e \<noteq> h"
    "slot tab e = 0 \<or> inside (home tab (slot tab e)) h e"
    "\<And>s. s < length tab \<Longrightarrow> inside (next_hindex (length tab) h) s e \<Longrightarrow>
       slot tab s \<noteq> 0 \<and> \<not> inside (home tab (slot tab s)) h s"
proof -
  let ?n = "length tab" and ?a = "next_hindex (length tab) h"
  let ?P = "\<lambda>s. slot tab s = 0 \<or> displaced h s (home tab (slot tab s))"
  have "?P z" using assms(5) by simp
  then obtain e where e: "e < ?n" "seek ?n ?P ?n ?a = Some e" "?P e"
    "\<And>s. s < ?n \<Longrightarrow> inside ?a s e \<Longrightarrow> \<not> ?P s"
    using seekE [OF next_less [OF assms(2)] assms(3), of ?P] by blast
  have neq: "e \<noteq> h"
    using e(4) [OF assms(3)] inside_all [OF assms(2-4)] \<open>?P z\<close> by blast
  have nothole: "s \<noteq> h" if "s < ?n" "inside ?a s e" for s
    using that neq assms(2) e(1) by (auto simp: inside_def next_hindex_def split: if_splits)
  have "clump_scan tab ?n h h = Some (e, slot tab e)"
    using clump_scan_seek [OF e(2) assms(2) e(1) nothole assms(2,1) neq e(3)] by blast
  then show thesis
    using e(1,3,4) neq nothole by (intro that [of e]) (auto simp: displaced_inside)
qed

text \<open>At the end of the clump the hole is emptied: nobody's path crosses it.\<close>

lemma clump_end:
  assumes "slots_ok tab {h}" "h < length tab" "e < length tab" "e \<noteq> h" "slot tab e = 0"
    and "\<And>s. s < length tab \<Longrightarrow> inside (next_hindex (length tab) h) s e \<Longrightarrow>
           \<not> inside (home tab (slot tab s)) h s"
  shows "slots_ok (set_index h 0 tab) {}" "hashed (set_index h 0 tab) = others tab h"
proof -
  have path: "slot tab t \<noteq> 0 \<and> t \<noteq> h"
    if u: "u < length tab" "u \<noteq> h" "slot tab u \<noteq> 0" and t: "t < length tab" "inside (home tab (slot tab u)) t u" for t u
  proof -
    have occupied: "s = h \<or> slot tab s \<noteq> 0" if "s < length tab" "inside (home tab (slot tab u)) s u" for s
      using slots_okD(3) [OF assms(1) u(1) _ u(3) that] u(2) by simp
    have "\<not> inside (home tab (slot tab u)) h u"
    proof
      assume cross: "inside (home tab (slot tab u)) h u"
      have "tab \<noteq> []" using u(1) by auto
      have "\<not> inside (next_hindex (length tab) h) u e"
        using assms(6) [OF u(1)] cross by blast
      moreover have "u \<noteq> e" using u(3) assms(5) by auto
      ultimately have "inside (next_hindex (length tab) h) e u"
        by (intro inside_total) auto
      with cross have "inside (home tab (slot tab u)) e u"
        using inside_shift [OF assms(2,3) u(1) home_less] \<open>tab \<noteq> []\<close> by blast
      with occupied [OF assms(3)] assms(4,5) show False by blast
    qed
    then show ?thesis
      using t occupied by blast
  qed
  show "slots_ok (set_index h 0 tab) {}"
    unfolding slots_ok_def set_index_simps(1)
  proof (intro conjI allI impI)
    fix s assume s: "s < length tab"
    show "slot (set_index h 0 tab) s < length tab"
      using assms(2) slots_okD(1) [OF assms(1) s] by auto
  next
    fix s s' assume s: "s < length tab" "s' < length tab" "slot (set_index h 0 tab) s \<noteq> 0"
      "slot (set_index h 0 tab) s = slot (set_index h 0 tab) s'"
    then have "s \<noteq> h" "s' \<noteq> h" "slot tab s \<noteq> 0" "slot tab s = slot tab s'"
      using assms(2) by (auto split: if_splits)
    with s show "s = s'"
      by (intro slots_ok_inj [OF assms(1), of s s']) simp_all
  next
    fix s assume s: "s < length tab" "slot (set_index h 0 tab) s \<noteq> 0"
    then show "obj_of (set_index h 0 tab) (slot (set_index h 0 tab) s) \<noteq> 0"
      using assms(2) slots_okD(2) [OF assms(1) s(1)] by (auto split: if_splits)
  next
    fix u t assume u: "u < length tab" "slot (set_index h 0 tab) u \<noteq> 0"
      and t: "t < length tab" "inside (home (set_index h 0 tab) (slot (set_index h 0 tab) u)) t u"
    then have "u \<noteq> h" "slot tab u \<noteq> 0" "inside (home tab (slot tab u)) t u"
      using assms(2) by (auto split: if_splits)
    with path [OF u(1)] t(1) show "t \<in> {} \<or> slot (set_index h 0 tab) t \<noteq> 0"
      using assms(2) by simp
  qed
  show "hashed (set_index h 0 tab) = others tab h"
    using assms(2) by (auto simp: hashed_def others_def split: if_splits)
qed

text \<open>A displaced entry moves into the hole, and its old slot is the new hole.\<close>

lemma clump_move:
  assumes "slots_ok tab {h}" "h < length tab" "e < length tab" "e \<noteq> h" "slot tab e \<noteq> 0"
    and "inside (home tab (slot tab e)) h e"
  shows "slots_ok (set_index h (slot tab e) tab) {e}"
    "others (set_index h (slot tab e) tab) e = others tab h"
proof -
  have e: "slot tab e < length tab" "obj_of tab (slot tab e) \<noteq> 0"
    using slots_okD [OF assms(1,3)] assms(4,5) by auto
  have distinct: "slot tab s \<noteq> slot tab e" if "s < length tab" "s \<notin> {e}" "s \<noteq> h" for s
  proof
    assume "slot tab s = slot tab e"
    then have "s = e"
      using that assms(3-5) by (intro slots_ok_inj [OF assms(1), of s e]) simp_all
    with that show False by simp
  qed
  have path: "s \<in> {e} \<or> slot tab s \<noteq> 0" if "s < length tab" "inside (home tab (slot tab e)) s h" for s
  proof -
    have "inside (home tab (slot tab e)) s e"
      using inside_prefix [OF assms(6) that(2)] .
    then have "s = h \<or> slot tab s \<noteq> 0"
      using slots_okD(3) [OF assms(1,3) _ assms(5) that(1)] assms(4) by simp
    with that(2) show ?thesis by auto
  qed
  show "slots_ok (set_index h (slot tab e) tab) {e}"
    using assms(2-5) e distinct path by (intro fill_slot [OF assms(1)]) auto
  show "others (set_index h (slot tab e) tab) e = others tab h"
  proof (intro equalityI subsetI)
    fix i assume "i \<in> others (set_index h (slot tab e) tab) e"
    then obtain s where "s < length tab" "s \<noteq> e" "i \<noteq> 0" "(if s = h then slot tab e else slot tab s) = i"
      using assms(2) by (auto simp: others_def)
    then show "i \<in> others tab h"
      using assms(3,4) by (auto simp: others_def split: if_splits)
  next
    fix i assume "i \<in> others tab h"
    then obtain s where s: "s < length tab" "s \<noteq> h" "slot tab s = i" "i \<noteq> 0"
      by (auto simp: others_def)
    show "i \<in> others (set_index h (slot tab e) tab) e"
    proof (cases "s = e")
      case True
      with s assms(2,4) have "slot (set_index h (slot tab e) tab) h = i" by simp
      with s(4) assms(2,4) show ?thesis unfolding others_def by (simp only: set_index_simps(1)) blast
    next
      case False
      with s assms(2) have "slot (set_index h (slot tab e) tab) s = i" by simp
      with s(1,4) False show ?thesis unfolding others_def by (simp only: set_index_simps(1)) blast
    qed
  qed
qed

text \<open>Everything but the index fields: what insertion and deletion leave alone.\<close>

definition contents :: "ipc_entry list \<Rightarrow> ipc_entry list" where
  "contents tab = map (\<lambda>e. e\<lparr>ie_index := 0\<rparr>) tab"

lemma contents_set_index [simp]: "contents (set_index h i tab) = contents tab"
proof (cases "h < length tab")
  case True
  then have "(map (\<lambda>e. e\<lparr>ie_index := 0\<rparr>) tab)[h := (tab ! h)\<lparr>ie_index := 0\<rparr>] = map (\<lambda>e. e\<lparr>ie_index := 0\<rparr>) tab"
    by (metis (no_types, lifting) list_update_id nth_map)
  then show ?thesis
    by (simp add: contents_def set_index_def map_update)
qed (simp add: set_index_def list_update_beyond)

lemma contents_length: "contents tab = contents tab' \<Longrightarrow> length tab = length tab'"
  unfolding contents_def by (metis length_map)

lemma contents_obj: "contents tab = contents tab' \<Longrightarrow> i < length tab \<Longrightarrow> obj_of tab i = obj_of tab' i"
proof -
  assume eq: "contents tab = contents tab'" and i: "i < length tab"
  have "i < length tab'"
    using i contents_length [OF eq] by simp
  moreover have "contents tab ! i = contents tab' ! i"
    by (simp only: eq)
  ultimately have "(tab ! i)\<lparr>ie_index := 0\<rparr> = (tab' ! i)\<lparr>ie_index := 0\<rparr>"
    using i by (simp add: contents_def)
  then show ?thesis
    by (cases "tab ! i", cases "tab' ! i") (simp add: obj_of_def)
qed

lemma hashed_less: "slots_ok tab {} \<Longrightarrow> i \<in> hashed tab \<Longrightarrow> i < length tab"
proof -
  assume ok: "slots_ok tab {}" and "i \<in> hashed tab"
  then obtain h where "h < length tab" "slot tab h = i"
    using hashed_slot by blast
  then show ?thesis
    using slots_okD(1) [OF ok, of h] by simp
qed

lemma clump_close_correct:
  assumes "slots_ok tab {h}" "h < length tab" "z < length tab" "z \<noteq> h" "slot tab z = 0"
  shows "\<exists>tab'. clump_close tab (length tab) h = Some tab' \<and> slots_ok tab' {} \<and>
    hashed tab' = others tab h \<and> contents tab' = contents tab"
  using assms
proof (induction "ahead (length tab) h z" arbitrary: tab h rule: less_induct)
  case less
  let ?n = "length tab"
  from clump_scan_correct [OF less.prems] obtain e where e: "clump_scan tab ?n h h = Some (e, slot tab e)"
    "e < ?n" "e \<noteq> h" "slot tab e = 0 \<or> inside (home tab (slot tab e)) h e"
    "\<And>s. s < ?n \<Longrightarrow> inside (next_hindex ?n h) s e \<Longrightarrow>
       slot tab s \<noteq> 0 \<and> \<not> inside (home tab (slot tab s)) h s"
    by blast
  show ?case
  proof (cases "slot tab e = 0")
    case True
    then have "clump_close tab ?n h = Some (set_index h 0 tab)"
      using e(1) by (subst clump_close.simps) simp
    with clump_end [OF less.prems(1,2) e(2,3) True] e(5) show ?thesis by simp
  next
    case False
    let ?t = "set_index h (slot tab e) tab"
    have cross: "inside (home tab (slot tab e)) h e" using e(4) False by blast
    note move = clump_move [OF less.prems(1,2) e(2,3) False cross]
    have run: "clump_close tab ?n h = clump_close ?t ?n e"
      using e(1) False by (subst clump_close.simps) simp
    have "z \<noteq> e" using less.prems(5) False by auto
    have "\<not> inside (next_hindex ?n h) z e"
      using e(5) [OF less.prems(3)] less.prems(5) by blast
    then have "inside (next_hindex ?n h) e z"
      using \<open>z \<noteq> e\<close> by (intro inside_total) auto
    then have "inside h e z"
      using inside_next [of h ?n z e] less.prems(2-4) e(2) by auto
    then have "ahead ?n e z < ahead ?n h z"
      using less.prems(2,3) e(2,3) by (intro ahead_inside) auto
    then obtain tab' where "clump_close ?t (length ?t) e = Some tab'" "slots_ok tab' {}"
      "hashed tab' = others ?t e" "contents tab' = contents ?t"
      using less.hyps [of ?t e] move(1) less.prems(2-5) e(2) \<open>z \<noteq> e\<close> by auto
    then show ?thesis
      using run move(2) by simp
  qed
qed

lemma local_delete_correct:
  assumes "lhash_inv tab" "i < length tab" "i \<noteq> 0"
  shows "\<exists>tab'. local_delete (length tab) (obj_of tab i) i tab = Some tab' \<and> lhash_inv tab' \<and>
    hashed tab' = hashed tab - {i} \<and> contents tab' = contents tab"
proof (cases "i \<in> hashed tab")
  case False
  then have "local_delete (length tab) (obj_of tab i) i tab = Some tab"
    using find_slot_correct [OF assms] by (simp add: local_delete_def home_def)
  with False assms(1) show ?thesis by simp
next
  case True
  let ?n = "length tab"
  have ok: "tab \<noteq> []" "slots_ok tab {}" "inj_on (obj_of tab) (hashed tab)"
    using assms(1) by (simp_all add: lhash_inv_def)
  obtain h where h: "h < ?n" "slot tab h = i"
    using hashed_slot [OF True] by blast
  have the: "(THE g. g < ?n \<and> slot tab g = i) = h"
  proof (rule the_equality)
    show "g = h" if g: "g < ?n \<and> slot tab g = i" for g
      using g h assms(3) by (intro slots_ok_inj [OF ok(2), of g h]) simp_all
  qed (use h in simp)
  have besides: "slot tab s \<noteq> i" if "s < ?n" "s \<noteq> h" for s
  proof
    assume "slot tab s = i"
    with that h assms(3) have "s = h"
      by (intro slots_ok_inj [OF ok(2), of s h]) simp_all
    with that show False by simp
  qed
  have hole: "slots_ok tab {h}"
    using slots_ok_weaken [OF ok(2)] .
  obtain z where "z < ?n" "z \<noteq> h" "slot tab z = 0"
    using zero_slot_besides [OF hole h(1) _ assms(2) besides] assms(3) by auto
  then obtain tab' where tab': "clump_close tab ?n h = Some tab'" "slots_ok tab' {}"
    "hashed tab' = others tab h" "contents tab' = contents tab"
    using clump_close_correct [OF hole h(1)] by blast
  have others: "others tab h = hashed tab - {i}"
    using besides h by (auto simp: others_def hashed_def)
  have "inj_on (obj_of tab') (hashed tab - {i})"
  proof (rule inj_onI)
    fix x y assume xy: "x \<in> hashed tab - {i}" "y \<in> hashed tab - {i}" "obj_of tab' x = obj_of tab' y"
    then have "x < length tab" "y < length tab"
      using hashed_less [OF ok(2)] by simp_all
    then show "x = y"
      using xy ok(3) contents_obj [OF tab'(4) [symmetric]] by (simp add: inj_on_def)
  qed
  moreover have "tab' \<noteq> []"
    using contents_length [OF tab'(4)] ok(1) by auto
  ultimately show ?thesis
    using find_slot_correct [OF assms] True the tab' others
    by (simp add: local_delete_def lhash_inv_def home_def)
qed

end
