(* ===== verification/Ipc_Hash_Correct.thy ===== *)
theory Ipc_Hash_Correct
  imports Ipc_Probe
begin

text \<open>
  What the operations of the reverse hash tables do: the local one is the set of the indices inserted
  and not deleted, and with it a map from objects to indices; a bucket of the global one is a list
  that a lookup searches and reorders.
\<close>

section \<open>The local table of a space\<close>

definition space_table_ok :: "nat \<Rightarrow> 'a ipcs_scheme \<Rightarrow> bool" where
  "space_table_ok sp s \<longleftrightarrow>
     sp \<noteq> 0 \<and> is_table_size (spaces s sp) = length (is_table (spaces s sp)) \<and> lhash_inv (is_table (spaces s sp))"

lemma upd_space_same [simp]: "spaces (upd_space sp f s) sp = f (spaces s sp)"
  by (simp add: upd_space_def)

lemma space_lookup:
  assumes "space_table_ok sp s" "obj \<noteq> 0"
  shows "\<exists>r. ipc_hash_local_lookup sp obj s = Some r \<and>
    (case r of
       None \<Rightarrow> \<forall>i \<in> hashed (is_table (spaces s sp)). obj_of (is_table (spaces s sp)) i \<noteq> obj
     | Some (name, i) \<Rightarrow> i \<in> hashed (is_table (spaces s sp)) \<and> obj_of (is_table (spaces s sp)) i = obj \<and>
         name = MACH_PORT_MAKEB i)"
proof -
  let ?t = "is_table (spaces s sp)"
  have ok: "sp \<noteq> 0" "is_table_size (spaces s sp) = length ?t" "lhash_inv ?t" "?t \<noteq> []"
    using assms(1) by (auto simp: space_table_ok_def lhash_inv_def)
  note probe = local_probe_correct [OF ok(3), of obj]
  show ?thesis
  proof (cases "\<exists>i \<in> hashed ?t. obj_of ?t i = obj")
    case True
    then obtain i where i: "i \<in> hashed ?t" "obj_of ?t i = obj" by blast
    have "(THE j. j \<in> hashed ?t \<and> obj_of ?t j = obj) = i"
      using i ok(3) by (auto simp: lhash_inv_def inj_on_def intro!: the_equality)
    with probe True i ok assms(2) show ?thesis
      by (simp add: ipc_hash_local_lookup_def Let_def)
  next
    case False
    with probe ok assms(2) show ?thesis
      by (simp add: ipc_hash_local_lookup_def Let_def)
  qed
qed

lemma space_insert:
  assumes "space_table_ok sp s" "0 < i" "i < length (is_table (spaces s sp))"
    and "obj_of (is_table (spaces s sp)) i \<noteq> 0"
    and "\<forall>j \<in> hashed (is_table (spaces s sp)). obj_of (is_table (spaces s sp)) j \<noteq> obj_of (is_table (spaces s sp)) i"
  shows "\<exists>s'. ipc_hash_local_insert sp (obj_of (is_table (spaces s sp)) i) i (Tab i) s = Some s' \<and>
    space_table_ok sp s' \<and>
    hashed (is_table (spaces s' sp)) = insert i (hashed (is_table (spaces s sp))) \<and>
    contents (is_table (spaces s' sp)) = contents (is_table (spaces s sp))"
proof -
  let ?t = "is_table (spaces s sp)"
  have ok: "sp \<noteq> 0" "is_table_size (spaces s sp) = length ?t" "lhash_inv ?t" "?t \<noteq> []"
    using assms(1) by (auto simp: space_table_ok_def lhash_inv_def)
  obtain t' where t': "local_insert (length ?t) (obj_of ?t i) i ?t = Some t'" "lhash_inv t'"
    "hashed t' = insert i (hashed ?t)" "\<exists>h < length ?t. t' = set_index h i ?t"
    using local_insert_correct [OF ok(3) assms(2-4)] assms(5) by auto
  then have same: "contents t' = contents ?t" "length t' = length ?t"
    by auto
  have "ipc_hash_local_insert sp (obj_of ?t i) i (Tab i) s = Some (upd_space sp (\<lambda>x. x\<lparr>is_table := t'\<rparr>) s)"
    using ok t'(1) assms(2-4) by (simp add: ipc_hash_local_insert_def Let_def obj_of_def [symmetric])
  with ok t' same show ?thesis
    by (simp add: space_table_ok_def)
qed

lemma space_delete:
  assumes "space_table_ok sp s" "0 < i" "i < length (is_table (spaces s sp))"
    and "obj_of (is_table (spaces s sp)) i \<noteq> 0"
  shows "\<exists>s'. ipc_hash_local_delete sp (obj_of (is_table (spaces s sp)) i) i (Tab i) s = Some s' \<and>
    space_table_ok sp s' \<and>
    hashed (is_table (spaces s' sp)) = hashed (is_table (spaces s sp)) - {i} \<and>
    contents (is_table (spaces s' sp)) = contents (is_table (spaces s sp))"
proof -
  let ?t = "is_table (spaces s sp)"
  have ok: "sp \<noteq> 0" "is_table_size (spaces s sp) = length ?t" "lhash_inv ?t" "?t \<noteq> []"
    using assms(1) by (auto simp: space_table_ok_def lhash_inv_def)
  obtain t' where t': "local_delete (length ?t) (obj_of ?t i) i ?t = Some t'" "lhash_inv t'"
    "hashed t' = hashed ?t - {i}" "contents t' = contents ?t"
    using local_delete_correct [OF ok(3) assms(3)] assms(2) by auto
  have "ipc_hash_local_delete sp (obj_of ?t i) i (Tab i) s = Some (upd_space sp (\<lambda>x. x\<lparr>is_table := t'\<rparr>) s)"
    using ok t'(1) assms(2-4) by (simp add: ipc_hash_local_delete_def Let_def obj_of_def [symmetric])
  with ok t' contents_length [OF t'(4)] show ?thesis
    by (simp add: space_table_ok_def)
qed

section \<open>A bucket of the global table\<close>

fun chain :: "(nat \<Rightarrow> ipc_tree_entry) \<Rightarrow> nat \<Rightarrow> nat list \<Rightarrow> bool" where
  "chain H a [] \<longleftrightarrow> a = 0"
| "chain H a (x # xs) \<longleftrightarrow> a = x \<and> x \<noteq> 0 \<and> chain H (te_next (H x)) xs"

lemma chain_other: "e \<notin> set xs \<Longrightarrow> chain (H(e := t)) a xs = chain H a xs"
  by (induction xs arbitrary: a) auto

lemma chain_cut:
  assumes "chain H a (xs @ p # m # ys)" "distinct (xs @ p # m # ys)" "te_next t = te_next (H m)"
  shows "chain (H(p := t)) a (xs @ p # ys)"
  using assms(1,2)
proof (induction xs arbitrary: a)
  case Nil
  then show ?case using assms(3) by (auto simp: chain_other [unfolded fun_upd_def])
qed (use assms(3) in auto)

lemma chain_find_none:
  "chain H p (p # xs) \<Longrightarrow> \<forall>x \<in> set xs. \<not> ite_matches sp obj (H x) \<Longrightarrow> chain_find H sp obj p = Some None"
proof (induction xs arbitrary: p)
  case (Cons x xs)
  then have "te_next (H p) = x" "x \<noteq> 0" "chain_find H sp obj x = Some None"
    using Cons.IH [of x] by auto
  with Cons.prems show ?case
    by (subst chain_find.simps) (simp add: Let_def)
qed (subst chain_find.simps, simp add: Let_def)

lemma chain_find_some:
  "chain H p (p # xs @ m # ys) \<Longrightarrow> \<forall>x \<in> set xs. \<not> ite_matches sp obj (H x) \<Longrightarrow>
   ite_matches sp obj (H m) \<Longrightarrow> chain_find H sp obj p = Some (Some (last (p # xs), m))"
proof (induction xs arbitrary: p)
  case (Cons x xs)
  then have "te_next (H p) = x" "x \<noteq> 0" "chain_find H sp obj x = Some (Some (last (x # xs), m))"
    using Cons.IH [of x] by auto
  with Cons.prems show ?case
    by (subst chain_find.simps) (simp add: Let_def)
qed (subst chain_find.simps, simp add: Let_def)

lemma chain_before_some:
  "chain H p (p # xs @ m # ys) \<Longrightarrow> m \<notin> set xs \<Longrightarrow> chain_before H m p = Some (Some (last (p # xs)))"
proof (induction xs arbitrary: p)
  case (Cons x xs)
  then have "te_next (H p) = x" "x \<noteq> 0" "chain_before H m x = Some (Some (last (x # xs)))"
    using Cons.IH [of x] by auto
  with Cons.prems show ?case
    by (subst chain_before.simps) (auto simp: Let_def)
qed (subst chain_before.simps, simp add: Let_def)

lemma chain_zero: "chain H a xs \<Longrightarrow> 0 \<notin> set xs"
  by (induction xs arbitrary: a) auto

text \<open>Moving an entry to the front.\<close>

lemma chain_front:
  assumes "chain H a (xs @ p # m # ys)" "distinct (xs @ p # m # ys)"
    and "te_next t = te_next (H m)" "te_next u = a"
  shows "chain ((H(p := t))(m := u)) m (m # xs @ p # ys)"
proof -
  have "chain ((H(p := t))(m := u)) a (xs @ p # ys)"
    using chain_cut [OF assms(1-3)] assms(2) by (simp add: chain_other del: fun_upd_apply)
  moreover have "m \<noteq> 0" using chain_zero [OF assms(1)] by auto
  ultimately show ?thesis using assms(4) by simp
qed

definition bucket_list :: "nat \<Rightarrow> 'a ipcs_scheme \<Rightarrow> nat list \<Rightarrow> bool" where
  "bucket_list b s xs \<longleftrightarrow> (\<exists>a. bucket_head b s = Some a \<and> chain (tents s) a xs \<and> distinct xs)"

lemma bucket_set [simp]:
  "bucket_head b s \<noteq> None \<Longrightarrow> bucket_head b (set_bucket b e s) = Some e"
  "bucket_head b (upd_tent x f s) = bucket_head b s" "tents (set_bucket b e s) = tents s"
  "bucket_head b (upd_space sp g s) = bucket_head b s" "tents (upd_space sp g s) = tents s"
  "IH_GLOBAL_HASH sp' obj (upd_space sp g s) = IH_GLOBAL_HASH sp' obj s"
  by (auto simp: bucket_head_def set_bucket_def upd_tent_def upd_space_def IH_GLOBAL_HASH_def
      split: option.splits if_splits)

lemma set_bucket_other [simp]: "c \<noteq> b \<Longrightarrow> bucket_head c (set_bucket b e s) = bucket_head c s"
  by (auto simp: bucket_head_def set_bucket_def split: option.splits)

lemma bucket_listE:
  assumes "bucket_list b s xs"
  obtains a where "bucket_head b s = Some a" "chain (tents s) a xs" "distinct xs"
  using assms by (auto simp: bucket_list_def)

text \<open>What the chains do not change of an entry.\<close>

definition te_key :: "'a ipcs_scheme \<Rightarrow> nat \<Rightarrow> nat \<times> nat \<times> mach_port_t" where
  "te_key s e = (te_object (tents s e), te_space (tents s e), te_name (tents s e))"

lemma te_key_simps [simp]:
  "te_key (set_bucket b e s) = te_key s" "te_key (upd_space sp g s) = te_key s"
  "te_key (upd_tent e (\<lambda>t. t\<lparr>te_next := n\<rparr>) s) = te_key s"
  by (auto simp: te_key_def set_bucket_def upd_space_def upd_tent_def)

lemma find_split:
  "(List.find P xs = Some m) = (\<exists>us vs. xs = us @ m # vs \<and> P m \<and> (\<forall>u \<in> set us. \<not> P u))"
proof (induction xs)
  case (Cons x xs)
  show ?case
  proof (cases "P x")
    case True
    then show ?thesis by (auto simp: Cons_eq_append_conv) 
  next
    case False
    with Cons show ?thesis
      by (auto simp: Cons_eq_append_conv) (metis (no_types, opaque_lifting) list.set_intros set_ConsD)
  qed
qed simp

lemma global_lookup_none:
  assumes "bucket_list (IH_GLOBAL_HASH sp obj s) s xs" "sp \<noteq> 0" "obj \<noteq> 0"
    and "\<forall>x \<in> set xs. \<not> ite_matches sp obj (tents s x)"
  shows "ipc_hash_global_lookup sp obj s = Some (None, s)"
  using assms(1)
proof (rule bucket_listE)
  fix a assume a: "bucket_head (IH_GLOBAL_HASH sp obj s) s = Some a" "chain (tents s) a xs"
  show ?thesis
  proof (cases xs)
    case Nil
    with a assms(2,3) show ?thesis by (simp add: ipc_hash_global_lookup_def Let_def)
  next
    case (Cons x ys)
    with a have "chain_find (tents s) sp obj x = Some None" "a = x" "x \<noteq> 0"
      using assms(4) chain_find_none [of "tents s" x ys sp obj] by auto
    with a assms Cons show ?thesis by (simp add: ipc_hash_global_lookup_def Let_def)
  qed
qed

lemma global_lookup_some:
  assumes "bucket_list (IH_GLOBAL_HASH sp obj s) s (us @ m # vs)" "sp \<noteq> 0" "obj \<noteq> 0"
    and "\<forall>x \<in> set us. \<not> ite_matches sp obj (tents s x)" "ite_matches sp obj (tents s m)"
  shows "\<exists>s'. ipc_hash_global_lookup sp obj s = Some (Some (te_name (tents s m), m), s') \<and>
    bucket_list (IH_GLOBAL_HASH sp obj s) s' (m # us @ vs) \<and> te_key s' = te_key s \<and>
    (\<forall>c. c \<noteq> IH_GLOBAL_HASH sp obj s \<longrightarrow> bucket_head c s' = bucket_head c s) \<and>
    (\<forall>e. e \<notin> set us \<union> {m} \<longrightarrow> tents s' e = tents s e)"
  using assms(1)
proof (rule bucket_listE)
  let ?b = "IH_GLOBAL_HASH sp obj s"
  fix a assume a: "bucket_head ?b s = Some a" "chain (tents s) a (us @ m # vs)" "distinct (us @ m # vs)"
  show ?thesis
  proof (cases us)
    case Nil
    with a have "a = m" "m \<noteq> 0" by auto
    with a(1) assms Nil show ?thesis by (simp add: ipc_hash_global_lookup_def Let_def)
  next
    case (Cons x ws)
    then obtain zs p where p: "us = zs @ [p]" by (metis append_butlast_last_id list.discI)
    have x: "a = x" "x \<noteq> 0" using a Cons by auto
    have "last (x # ws) = p" using p Cons by (metis last_snoc)
    then have find: "chain_find (tents s) sp obj x = Some (Some (p, m))"
      using chain_find_some [of "tents s" x ws m vs sp obj] a x Cons assms(4,5) by simp
    define s' where "s' = set_bucket ?b m (upd_tent m (\<lambda>t. t\<lparr>te_next := x\<rparr>)
      (upd_tent p (\<lambda>t. t\<lparr>te_next := te_next (tents s m)\<rparr>) s))"
    have eq: "ipc_hash_global_lookup sp obj s = Some (Some (te_name (tents s m), m), s')"
      using a x find assms Cons by (simp add: ipc_hash_global_lookup_def Let_def s'_def)
    have "chain (tents s') m (m # zs @ p # vs)"
      using chain_front [of "tents s" x zs p m vs "(tents s p)\<lparr>te_next := te_next (tents s m)\<rparr>"
        "(tents s m)\<lparr>te_next := x\<rparr>"] a p x
      by (auto simp: s'_def upd_tent_def)
    then have "bucket_list ?b s' (m # us @ vs)"
      using a p by (auto simp: bucket_list_def s'_def)
    moreover have "tents s' e = tents s e" if "e \<notin> set us \<union> {m}" for e
      using that p by (simp add: s'_def upd_tent_def)
    ultimately show ?thesis using eq by (auto simp: s'_def)
  qed
qed

lemma global_insert:
  assumes "bucket_list (IH_GLOBAL_HASH sp obj s) s xs" "check_tree_entry sp obj name e s" "e \<noteq> 0"
    and "e \<notin> set xs" "is_tree_hash (spaces s sp) < is_tree_total (spaces s sp)"
  shows "\<exists>s'. ipc_hash_global_insert sp obj name e s = Some s' \<and>
    bucket_list (IH_GLOBAL_HASH sp obj s) s' (e # xs) \<and> te_key s' = te_key s \<and>
    (\<forall>c. c \<noteq> IH_GLOBAL_HASH sp obj s \<longrightarrow> bucket_head c s' = bucket_head c s) \<and>
    (\<forall>x. x \<noteq> e \<longrightarrow> tents s' x = tents s x) \<and>
    is_tree_hash (spaces s' sp) = is_tree_hash (spaces s sp) + 1"
  using assms(1)
proof (rule bucket_listE)
  let ?b = "IH_GLOBAL_HASH sp obj s"
  fix a assume a: "bucket_head ?b s = Some a" "chain (tents s) a xs" "distinct xs"
  define s' where "s' = set_bucket ?b e (upd_tent e (\<lambda>t. t\<lparr>te_next := a\<rparr>)
    (upd_space sp (\<lambda>x. x\<lparr>is_tree_hash := is_tree_hash x + 1\<rparr>) s))"
  have "ipc_hash_global_insert sp obj name e s = Some s'"
    using a assms(2,5) by (simp add: ipc_hash_global_insert_def s'_def check_tree_entry_def Let_def)
  moreover have "chain (tents s') e (e # xs)"
    using a assms(3,4) by (auto simp: s'_def upd_tent_def chain_other chain_other [unfolded fun_upd_def])
  moreover have "spaces s' sp = (spaces s sp)\<lparr>is_tree_hash := is_tree_hash (spaces s sp) + 1\<rparr>"
    by (simp add: s'_def set_bucket_def upd_tent_def)
  ultimately show ?thesis
    using a assms(4) by (auto simp: bucket_list_def s'_def) (simp add: upd_tent_def)
qed

lemma global_delete:
  assumes "bucket_list (IH_GLOBAL_HASH sp obj s) s (us @ e # vs)" "check_tree_entry sp obj name e s"
    and "0 < is_tree_hash (spaces s sp)"
  shows "\<exists>s'. ipc_hash_global_delete sp obj name e s = Some s' \<and>
    bucket_list (IH_GLOBAL_HASH sp obj s) s' (us @ vs) \<and> te_key s' = te_key s \<and>
    (\<forall>c. c \<noteq> IH_GLOBAL_HASH sp obj s \<longrightarrow> bucket_head c s' = bucket_head c s) \<and>
    (\<forall>x. x \<notin> set us \<longrightarrow> tents s' x = tents s x) \<and>
    is_tree_hash (spaces s' sp) = is_tree_hash (spaces s sp) - 1"
  using assms(1)
proof (rule bucket_listE)
  let ?b = "IH_GLOBAL_HASH sp obj s"
  let ?s = "upd_space sp (\<lambda>x. x\<lparr>is_tree_hash := is_tree_hash x - 1\<rparr>) s"
  fix a assume a: "bucket_head ?b s = Some a" "chain (tents s) a (us @ e # vs)" "distinct (us @ e # vs)"
  show ?thesis
  proof (cases us)
    case Nil
    define s' where "s' = set_bucket ?b (te_next (tents s e)) ?s"
    have "ipc_hash_global_delete sp obj name e s = Some s'"
      using a assms(2,3) Nil by (simp add: ipc_hash_global_delete_def s'_def Let_def)
    moreover have "spaces s' = spaces ?s" by (simp add: s'_def set_bucket_def)
    ultimately show ?thesis
      using a Nil by (auto simp: bucket_list_def s'_def)
  next
    case (Cons x ws)
    then obtain zs p where p: "us = zs @ [p]" by (metis append_butlast_last_id list.discI)
    have x: "a = x" "x \<noteq> 0" "x \<noteq> e" "e \<notin> set ws" using a Cons by auto
    have "last (x # ws) = p" using p Cons by (metis last_snoc)
    then have find: "chain_before (tents s) e x = Some (Some p)"
      using chain_before_some [of "tents s" x ws e vs] a x Cons by simp
    define s' where "s' = upd_tent p (\<lambda>t. t\<lparr>te_next := te_next (tents s e)\<rparr>) ?s"
    have "ipc_hash_global_delete sp obj name e s = Some s'"
      using a x find assms(2,3) by (simp add: ipc_hash_global_delete_def s'_def Let_def)
    moreover have "spaces s' = spaces ?s" by (simp add: s'_def upd_tent_def)
    moreover have "chain (tents s') x (zs @ p # vs)"
      using chain_cut [of "tents s" x zs p e vs "(tents s p)\<lparr>te_next := te_next (tents s e)\<rparr>"] a x p
      by (simp add: s'_def upd_tent_def)
    moreover have "tents s' y = tents s y" if "y \<notin> set us" for y
      using that p by (simp add: s'_def upd_tent_def)
    ultimately show ?thesis
      using a x p by (auto simp: bucket_list_def s'_def)
  qed
qed

text \<open>A chain is not changed by what happens to other entries.\<close>

lemma chain_cong: "(\<And>x. x \<in> set xs \<Longrightarrow> H x = H' x) \<Longrightarrow> chain H a xs = chain H' a xs"
  by (induction xs arbitrary: a) auto

lemma bucket_list_other:
  assumes "bucket_list c s ys" "bucket_head c s' = bucket_head c s" "\<And>x. x \<in> set ys \<Longrightarrow> tents s' x = tents s x"
  shows "bucket_list c s' ys"
  using assms(1,2) chain_cong [of ys "tents s'" "tents s"] assms(3) by (auto simp: bucket_list_def)

text \<open>The same in terms of the whole list, and of the other buckets.\<close>

lemma bucket_lookup:
  assumes "bucket_list (IH_GLOBAL_HASH sp obj s) s xs" "sp \<noteq> 0" "obj \<noteq> 0"
  shows "case List.find (\<lambda>e. ite_matches sp obj (tents s e)) xs of
      None \<Rightarrow> ipc_hash_global_lookup sp obj s = Some (None, s)
    | Some e \<Rightarrow> \<exists>s'. ipc_hash_global_lookup sp obj s = Some (Some (te_name (tents s e), e), s') \<and>
        bucket_list (IH_GLOBAL_HASH sp obj s) s' (e # remove1 e xs) \<and> te_key s' = te_key s \<and>
        (\<forall>c ys. c \<noteq> IH_GLOBAL_HASH sp obj s \<longrightarrow> set ys \<inter> set xs = {} \<longrightarrow> bucket_list c s ys \<longrightarrow> bucket_list c s' ys)"
proof (cases "List.find (\<lambda>e. ite_matches sp obj (tents s e)) xs")
  case None
  then have "\<forall>x \<in> set xs. \<not> ite_matches sp obj (tents s x)" by (auto simp: find_None_iff)
  with global_lookup_none [OF assms] None show ?thesis by simp
next
  case (Some e)
  then obtain us vs where xs: "xs = us @ e # vs" "ite_matches sp obj (tents s e)"
    "\<forall>u \<in> set us. \<not> ite_matches sp obj (tents s u)"
    unfolding find_split by blast
  from xs have rem: "remove1 e xs = us @ vs" by (auto simp: remove1_append)
  obtain s' where s': "ipc_hash_global_lookup sp obj s = Some (Some (te_name (tents s e), e), s')"
    "bucket_list (IH_GLOBAL_HASH sp obj s) s' (e # us @ vs)" "te_key s' = te_key s"
    "\<And>c. c \<noteq> IH_GLOBAL_HASH sp obj s \<Longrightarrow> bucket_head c s' = bucket_head c s"
    "\<And>x. x \<notin> set us \<union> {e} \<Longrightarrow> tents s' x = tents s x"
    using global_lookup_some [OF assms(1) [unfolded xs(1)] assms(2,3) xs(3,2)] by blast
  have "bucket_list c s' ys"
    if "c \<noteq> IH_GLOBAL_HASH sp obj s" "set ys \<inter> set xs = {}" "bucket_list c s ys" for c ys
  proof (rule bucket_list_other [OF that(3) s'(4) [OF that(1)] s'(5)])
    show "x \<notin> set us \<union> {e}" if "x \<in> set ys" for x
      using that \<open>set ys \<inter> set xs = {}\<close> xs(1) by auto
  qed
  with s' rem Some show ?thesis by auto
qed

lemma bucket_insert:
  assumes "bucket_list (IH_GLOBAL_HASH sp obj s) s xs" "check_tree_entry sp obj name e s" "e \<noteq> 0"
    and "e \<notin> set xs" "is_tree_hash (spaces s sp) < is_tree_total (spaces s sp)"
  shows "\<exists>s'. ipc_hash_global_insert sp obj name e s = Some s' \<and>
    bucket_list (IH_GLOBAL_HASH sp obj s) s' (e # xs) \<and> te_key s' = te_key s \<and>
    is_tree_hash (spaces s' sp) = is_tree_hash (spaces s sp) + 1 \<and>
    (\<forall>c ys. c \<noteq> IH_GLOBAL_HASH sp obj s \<longrightarrow> e \<notin> set ys \<longrightarrow> bucket_list c s ys \<longrightarrow> bucket_list c s' ys)"
proof -
  obtain s' where s': "ipc_hash_global_insert sp obj name e s = Some s'"
    "bucket_list (IH_GLOBAL_HASH sp obj s) s' (e # xs)" "te_key s' = te_key s"
    "\<And>c. c \<noteq> IH_GLOBAL_HASH sp obj s \<Longrightarrow> bucket_head c s' = bucket_head c s"
    "\<And>x. x \<noteq> e \<Longrightarrow> tents s' x = tents s x"
    "is_tree_hash (spaces s' sp) = is_tree_hash (spaces s sp) + 1"
    using global_insert [OF assms] by blast
  have "bucket_list c s' ys"
    if "c \<noteq> IH_GLOBAL_HASH sp obj s" "e \<notin> set ys" "bucket_list c s ys" for c ys
    using bucket_list_other [OF that(3) s'(4) [OF that(1)] s'(5)] that(2) by blast
  with s' show ?thesis by auto
qed

lemma bucket_delete:
  assumes "bucket_list (IH_GLOBAL_HASH sp obj s) s xs" "check_tree_entry sp obj name e s"
    and "e \<in> set xs" "0 < is_tree_hash (spaces s sp)"
  shows "\<exists>s'. ipc_hash_global_delete sp obj name e s = Some s' \<and>
    bucket_list (IH_GLOBAL_HASH sp obj s) s' (remove1 e xs) \<and> te_key s' = te_key s \<and>
    is_tree_hash (spaces s' sp) = is_tree_hash (spaces s sp) - 1 \<and>
    (\<forall>c ys. c \<noteq> IH_GLOBAL_HASH sp obj s \<longrightarrow> set ys \<inter> set xs = {} \<longrightarrow> bucket_list c s ys \<longrightarrow> bucket_list c s' ys)"
proof -
  obtain us vs where xs: "xs = us @ e # vs" "e \<notin> set us" using assms(3) by (meson split_list_first)
  then have rem: "remove1 e xs = us @ vs" by (simp add: remove1_append)
  obtain s' where s': "ipc_hash_global_delete sp obj name e s = Some s'"
    "bucket_list (IH_GLOBAL_HASH sp obj s) s' (us @ vs)" "te_key s' = te_key s"
    "\<And>c. c \<noteq> IH_GLOBAL_HASH sp obj s \<Longrightarrow> bucket_head c s' = bucket_head c s"
    "\<And>x. x \<notin> set us \<Longrightarrow> tents s' x = tents s x"
    "is_tree_hash (spaces s' sp) = is_tree_hash (spaces s sp) - 1"
    using global_delete [OF assms(1) [unfolded xs(1)] assms(2,4)] by blast
  have "bucket_list c s' ys"
    if "c \<noteq> IH_GLOBAL_HASH sp obj s" "set ys \<inter> set xs = {}" "bucket_list c s ys" for c ys
    using bucket_list_other [OF that(3) s'(4) [OF that(1)] s'(5)] that(2) xs(1) by auto
  with s' rem show ?thesis by auto
qed

section \<open>The local table is a map\<close>

definition local_map :: "ipc_entry list \<Rightarrow> nat \<rightharpoonup> nat" where
  "local_map tab obj =
     (if \<exists>i \<in> hashed tab. obj_of tab i = obj
      then Some (THE i. i \<in> hashed tab \<and> obj_of tab i = obj) else None)"

lemma local_map_Some:
  assumes "lhash_inv tab"
  shows "local_map tab obj = Some i \<longleftrightarrow> i \<in> hashed tab \<and> obj_of tab i = obj"
proof -
  have "(THE j. j \<in> hashed tab \<and> obj_of tab j = obj) = i" if "i \<in> hashed tab" "obj_of tab i = obj" for i
    using that assms by (auto simp: lhash_inv_def inj_on_def intro!: the_equality)
  then show ?thesis by (auto simp: local_map_def)
qed

lemma local_map_ext:
  assumes "lhash_inv tab" "\<And>obj i. m obj = Some i \<longleftrightarrow> i \<in> hashed tab \<and> obj_of tab i = obj"
  shows "local_map tab = m"
proof
  fix obj
  show "local_map tab obj = m obj"
    using assms(2) [of obj] local_map_Some [OF assms(1), of obj] by (metis option.exhaust)
qed

lemma hashed_bound: "lhash_inv tab \<Longrightarrow> i \<in> hashed tab \<Longrightarrow> i < length tab"
  unfolding lhash_inv_def by (metis hashed_slot slots_okD(1) empty_iff)

lemma local_map_lookup:
  assumes "space_table_ok sp s" "obj \<noteq> 0"
  shows "ipc_hash_local_lookup sp obj s =
    Some (map_option (\<lambda>i. (MACH_PORT_MAKEB i, i)) (local_map (is_table (spaces s sp)) obj))"
proof -
  let ?t = "is_table (spaces s sp)"
  have inv: "lhash_inv ?t" using assms(1) by (simp add: space_table_ok_def)
  obtain r where r: "ipc_hash_local_lookup sp obj s = Some r"
    "case r of None \<Rightarrow> \<forall>i \<in> hashed ?t. obj_of ?t i \<noteq> obj
     | Some (name, i) \<Rightarrow> i \<in> hashed ?t \<and> obj_of ?t i = obj \<and> name = MACH_PORT_MAKEB i"
    using space_lookup [OF assms] by blast
  show ?thesis
  proof (cases r)
    case None
    with r(2) have "local_map ?t obj = None" by (auto simp: local_map_def)
    with None r(1) show ?thesis by simp
  next
    case (Some p)
    with r(2) obtain i where "p = (MACH_PORT_MAKEB i, i)" "i \<in> hashed ?t" "obj_of ?t i = obj"
      by (auto split: prod.splits)
    with Some r(1) local_map_Some [OF inv, of obj i] show ?thesis by simp
  qed
qed

lemma local_map_insert:
  assumes "lhash_inv t" "lhash_inv t'" "hashed t' = insert i (hashed t)" "contents t' = contents t"
    and "i < length t" "local_map t (obj_of t i) = None"
  shows "local_map t' = (local_map t)(obj_of t i \<mapsto> i)"
proof (rule local_map_ext [OF assms(2)])
  fix obj j
  have same: "obj_of t' k = obj_of t k" if "k \<in> insert i (hashed t)" for k
    using that hashed_bound [OF assms(1)] assms(5) contents_obj [OF assms(4)] contents_length [OF assms(4)]
    by auto
  have "obj_of t k \<noteq> obj_of t i" if "k \<in> hashed t" for k
    using assms(6) local_map_Some [OF assms(1), of "obj_of t i" k] that by auto
  then show "((local_map t)(obj_of t i \<mapsto> i)) obj = Some j \<longleftrightarrow> j \<in> hashed t' \<and> obj_of t' j = obj"
    using same assms(3) local_map_Some [OF assms(1), of obj j] by auto
qed

lemma local_map_delete:
  assumes "lhash_inv t" "lhash_inv t'" "hashed t' = hashed t - {i}" "contents t' = contents t"
    and "local_map t obj = Some i"
  shows "local_map t' = (local_map t)(obj := None)"
proof (rule local_map_ext [OF assms(2)])
  fix x j
  have same: "obj_of t' k = obj_of t k" if "k \<in> hashed t" for k
    using that hashed_bound [OF assms(1)] contents_obj [OF assms(4)] contents_length [OF assms(4)] by auto
  have i: "i \<in> hashed t" "obj_of t i = obj" using assms(5) local_map_Some [OF assms(1)] by auto
  have "k = i" if "k \<in> hashed t" "obj_of t k = obj" for k
    using that i inj_onD [of "obj_of t" "hashed t" k i] assms(1) by (simp add: lhash_inv_def)
  moreover have "j \<in> hashed t' \<longleftrightarrow> j \<in> hashed t \<and> j \<noteq> i" using assms(3) by blast
  ultimately show "((local_map t)(obj := None)) x = Some j \<longleftrightarrow> j \<in> hashed t' \<and> obj_of t' j = x"
    using same [of j] i(2) by (auto simp: local_map_Some [OF assms(1)])
qed

lemma space_map_insert:
  assumes "space_table_ok sp s" "0 < i" "i < length (is_table (spaces s sp))"
    and "ie_object (is_table (spaces s sp) ! i) = obj" "obj \<noteq> 0" "local_map (is_table (spaces s sp)) obj = None"
  shows "\<exists>s'. ipc_hash_local_insert sp obj i (Tab i) s = Some s' \<and> space_table_ok sp s' \<and>
    local_map (is_table (spaces s' sp)) = (local_map (is_table (spaces s sp)))(obj \<mapsto> i) \<and>
    contents (is_table (spaces s' sp)) = contents (is_table (spaces s sp))"
proof -
  let ?t = "is_table (spaces s sp)"
  have inv: "lhash_inv ?t" using assms(1) by (simp add: space_table_ok_def)
  have o: "obj_of ?t i = obj" using assms(4) by (simp add: obj_of_def)
  have "obj_of ?t i \<noteq> 0" "\<forall>j \<in> hashed ?t. obj_of ?t j \<noteq> obj_of ?t i"
    using assms(5,6) o local_map_Some [OF inv, of obj] by simp_all
  from space_insert [OF assms(1-3) this] obtain s' where
    s': "ipc_hash_local_insert sp (obj_of ?t i) i (Tab i) s = Some s'" "space_table_ok sp s'"
      "hashed (is_table (spaces s' sp)) = insert i (hashed ?t)"
      "contents (is_table (spaces s' sp)) = contents ?t" by blast
  then have "lhash_inv (is_table (spaces s' sp))" by (simp add: space_table_ok_def)
  from local_map_insert [OF inv this s'(3,4) assms(3)] assms(6) o
  have "local_map (is_table (spaces s' sp)) = (local_map ?t)(obj \<mapsto> i)" by simp
  with s' show ?thesis unfolding o by (intro exI [of _ s'] conjI)
qed

lemma space_map_delete:
  assumes "space_table_ok sp s" "obj \<noteq> 0" "local_map (is_table (spaces s sp)) obj = Some i"
  shows "\<exists>s'. ipc_hash_local_delete sp obj i (Tab i) s = Some s' \<and> space_table_ok sp s' \<and>
    local_map (is_table (spaces s' sp)) = (local_map (is_table (spaces s sp)))(obj := None) \<and>
    contents (is_table (spaces s' sp)) = contents (is_table (spaces s sp))"
proof -
  let ?t = "is_table (spaces s sp)"
  have inv: "lhash_inv ?t" using assms(1) by (simp add: space_table_ok_def)
  have o: "i \<in> hashed ?t" "obj_of ?t i = obj" using assms(3) local_map_Some [OF inv] by auto
  have "i \<noteq> 0" using o(1) unfolding hashed_def by blast
  then have "0 < i" by simp
  moreover have "i < length ?t" using hashed_bound [OF inv o(1)] .
  moreover have "obj_of ?t i \<noteq> 0" using o(2) assms(2) by simp
  ultimately have pos: "0 < i" "i < length ?t" "obj_of ?t i \<noteq> 0" .
  from space_delete [OF assms(1) pos] obtain s' where
    s': "ipc_hash_local_delete sp (obj_of ?t i) i (Tab i) s = Some s'" "space_table_ok sp s'"
      "hashed (is_table (spaces s' sp)) = hashed ?t - {i}"
      "contents (is_table (spaces s' sp)) = contents ?t" by blast
  then have "lhash_inv (is_table (spaces s' sp))" by (simp add: space_table_ok_def)
  from local_map_delete [OF inv this s'(3,4) assms(3)] s' show ?thesis
    unfolding o(2) by (intro exI [of _ s'] conjI)
qed

end
