(* ===== verification/Ipc_Hash_Props.thy ===== *)
theory Ipc_Hash_Props
  imports Ipc_Hash_Correct
begin

text \<open>
  The properties of the reverse hash tables (\<^verbatim>\<open>Kernel/mxwl/ipc/ipc_hash.c\<close>): the local one is a finite
  map whatever collisions there are, a bucket of the global one is a list.
\<close>

text \<open>
  C18.  The open addressing table inside a space's entry table implements a finite map from objects to
  indices, whatever collisions there are: on a table whose clumps are intact, a lookup returns the
  map's value (and always ends); an insertion of an entry whose object is not in the map adds the
  binding; a deletion removes the binding of its entry and closes the clump so that every other
  binding is still found.  The operations keep the invariant and change nothing of the entries but
  the hash indices, and no assertion of theirs fails.
\<close>

theorem ipc_hash_local_refines_map:
  assumes "space_table_ok sp s" "obj \<noteq> 0"
  defines "tab \<equiv> is_table (spaces s sp)"
  shows "ipc_hash_local_lookup sp obj s = Some (map_option (\<lambda>i. (MACH_PORT_MAKEB i, i)) (local_map tab obj)) \<and>
    (\<forall>i. 0 < i \<longrightarrow> i < length tab \<longrightarrow> ie_object (tab ! i) = obj \<longrightarrow> local_map tab obj = None \<longrightarrow>
      (\<exists>s'. ipc_hash_local_insert sp obj i (Tab i) s = Some s' \<and> space_table_ok sp s' \<and>
        local_map (is_table (spaces s' sp)) = (local_map tab)(obj \<mapsto> i) \<and>
        contents (is_table (spaces s' sp)) = contents tab)) \<and>
    (\<forall>i. local_map tab obj = Some i \<longrightarrow>
      (\<exists>s'. ipc_hash_local_delete sp obj i (Tab i) s = Some s' \<and> space_table_ok sp s' \<and>
        local_map (is_table (spaces s' sp)) = (local_map tab)(obj := None) \<and>
        contents (is_table (spaces s' sp)) = contents tab))"
  unfolding tab_def
  by (intro conjI allI impI local_map_lookup space_map_insert space_map_delete assms(1,2))

text \<open>Two objects with one position, 64 and 320 in a table of four, and a chain of two tree entries.\<close>

definition te_demo :: "nat \<Rightarrow> nat \<Rightarrow> mach_port_t \<Rightarrow> ipc_tree_entry" where
  "te_demo obj nxt name =
     \<lparr>te_bits = 0, te_object = obj, te_request = 0, te_next = nxt, te_name = name, te_space = 16\<rparr>"

definition hash_demo :: ipcs where
  "hash_demo = \<lparr>ihg_size = 2, ihg_mask = 1, ihg_table = Some [3, 0], tree_entry_max = 0,
     spaces = (\<lambda>_. \<lparr>is_active = True, is_growing = False,
       is_table = [\<lparr>ie_bits = 0, ie_object = 0, ie_next = 0, ie_index = 0\<rparr>,
         \<lparr>ie_bits = 0, ie_object = 64, ie_next = 0, ie_index = 1\<rparr>,
         \<lparr>ie_bits = 0, ie_object = 320, ie_next = 0, ie_index = 2\<rparr>,
         \<lparr>ie_bits = 0, ie_object = 128, ie_next = 0, ie_index = 0\<rparr>],
       is_table_size = 4, is_table_next = 0,
       is_tree = \<lparr>ist_name = 0, ist_root = ITE_NULL, ist_ltree = [], ist_rtree = []\<rparr>,
       is_tree_total = 3, is_tree_small = 0, is_tree_hash = 2\<rparr>),
     tents = (\<lambda>e. if e = 3 then te_demo 64 7 1000 else if e = 7 then te_demo 192 0 1001 else te_demo 320 0 1002)\<rparr>"

lemma less_4: "(\<forall>h < (4::nat). P h) = (P 0 \<and> P 1 \<and> P 2 \<and> P 3)"
  by (auto simp: All_less_Suc numeral_eq_Suc)

lemma hash_demo_slots:
  defines "t \<equiv> is_table (spaces hash_demo 16)"
  shows "length t = 4" "slot t 0 = 0" "slot t 1 = 1" "slot t (Suc 0) = 1" "slot t 2 = 2" "slot t 3 = 0"
    "obj_of t 1 = 64" "obj_of t (Suc 0) = 64" "obj_of t 2 = 320"
  by (simp_all add: t_def hash_demo_def slot_def obj_of_def)

lemma hash_demo_hashed: "hashed (is_table (spaces hash_demo 16)) = {1, 2}"
proof -
  let ?t = "is_table (spaces hash_demo 16)"
  have "hashed ?t = slot ?t ` {..<4} - {0}" unfolding hashed_def hash_demo_slots(1) by blast
  moreover have "{..<4} = {0, 1, 2, 3 :: nat}" by auto
  moreover have "slot ?t ` {0, 1, 2, 3} = {0, 1, 2}"
    unfolding image_insert image_empty hash_demo_slots by blast
  ultimately have "hashed ?t = {0, 1, 2} - {0}" by metis
  also have "\<dots> = {1, 2}" by auto
  finally show ?thesis .
qed

lemma hash_demo_ok: "space_table_ok 16 hash_demo"
proof -
  let ?t = "is_table (spaces hash_demo 16)"
  have "inj_on (obj_of ?t) (hashed ?t)"
    by (simp add: hash_demo_slots hash_demo_hashed)
  moreover have "slots_ok ?t {}"
  proof -
    have sl: "slot ?t h = (if h = 1 \<or> h = 2 then h else 0)" if "h < 4" for h
      using that hash_demo_slots less_4 [of "\<lambda>h. slot ?t h = (if h = 1 \<or> h = 2 then h else 0)"] by simp
    have "home ?t 1 = 1" "home ?t 2 = 1"
      by (simp_all only: home_def IH_LOCAL_HASH_def hash_demo_slots) simp_all
    then have start: "s = 1" if "h < 4" "slot ?t h \<noteq> 0" "s < 4" "inside (home ?t (slot ?t h)) s h" for h s
      using that sl [OF that(1)] by (auto simp: inside_def split: if_splits)
    have "slot ?t s \<noteq> 0" if "h < 4" "slot ?t h \<noteq> 0" "s < 4" "inside (home ?t (slot ?t h)) s h" for h s
      unfolding start [OF that] hash_demo_slots by simp
    moreover have "obj_of ?t (slot ?t h) \<noteq> 0" if "h < 4" "slot ?t h \<noteq> 0" for h
      using that sl [OF that(1)] hash_demo_slots(7,9) by (auto split: if_splits)
    moreover have "slot ?t h < 4" if "h < 4" for h using sl [OF that] that by (simp split: if_splits)
    moreover have "h = h'" if "h < 4" "h' < 4" "slot ?t h \<noteq> 0" "slot ?t h = slot ?t h'" for h h'
      using that(3,4) sl [OF that(1)] sl [OF that(2)] by (simp split: if_splits)
    ultimately show ?thesis
      unfolding slots_ok_def hash_demo_slots(1) by blast
  qed
  moreover have "?t \<noteq> []" by (simp add: hash_demo_def)
  moreover have "is_table_size (spaces hash_demo 16) = length ?t" by (simp add: hash_demo_def)
  ultimately show ?thesis by (simp add: space_table_ok_def lhash_inv_def)
qed

lemma hash_demo_map: "local_map (is_table (spaces hash_demo 16)) 320 = Some 2"
proof -
  have "lhash_inv (is_table (spaces hash_demo 16))"
    using hash_demo_ok by (simp add: space_table_ok_def)
  from local_map_Some [OF this, of 320 2] show ?thesis
    by (simp add: hash_demo_hashed hash_demo_slots)
qed

theorem ipc_hash_local_refines_map_witness:
  "\<exists>s'. ipc_hash_local_delete 16 320 2 (Tab 2) hash_demo = Some s' \<and> space_table_ok 16 s'"
  using ipc_hash_local_refines_map [OF hash_demo_ok, of 320] hash_demo_map by auto

text \<open>
  A bucket of the global reverse hash table is a list of splay tree entries.  A lookup ends,
  returns the first entry of the list for the space and the object (with its name), and moves it to
  the front; an insertion puts an entry at the front; a deletion takes it out, wherever it is.  No
  assertion fails, every entry keeps its object, space and name, and the other buckets are not
  changed.
\<close>

theorem ipc_hash_global_refines_list:
  assumes "bucket_list (IH_GLOBAL_HASH sp obj s) s xs" "sp \<noteq> 0" "obj \<noteq> 0"
  shows "(case List.find (\<lambda>e. ite_matches sp obj (tents s e)) xs of
        None \<Rightarrow> ipc_hash_global_lookup sp obj s = Some (None, s)
      | Some e \<Rightarrow> \<exists>s'. ipc_hash_global_lookup sp obj s = Some (Some (te_name (tents s e), e), s') \<and>
          bucket_list (IH_GLOBAL_HASH sp obj s) s' (e # remove1 e xs) \<and> te_key s' = te_key s \<and>
          (\<forall>c ys. c \<noteq> IH_GLOBAL_HASH sp obj s \<longrightarrow> set ys \<inter> set xs = {} \<longrightarrow> bucket_list c s ys \<longrightarrow> bucket_list c s' ys)) \<and>
    (\<forall>e name. check_tree_entry sp obj name e s \<longrightarrow> e \<noteq> 0 \<longrightarrow> e \<notin> set xs \<longrightarrow>
        is_tree_hash (spaces s sp) < is_tree_total (spaces s sp) \<longrightarrow>
        (\<exists>s'. ipc_hash_global_insert sp obj name e s = Some s' \<and>
          bucket_list (IH_GLOBAL_HASH sp obj s) s' (e # xs) \<and> te_key s' = te_key s \<and>
          is_tree_hash (spaces s' sp) = is_tree_hash (spaces s sp) + 1 \<and>
          (\<forall>c ys. c \<noteq> IH_GLOBAL_HASH sp obj s \<longrightarrow> e \<notin> set ys \<longrightarrow> bucket_list c s ys \<longrightarrow> bucket_list c s' ys))) \<and>
    (\<forall>e name. check_tree_entry sp obj name e s \<longrightarrow> e \<in> set xs \<longrightarrow> 0 < is_tree_hash (spaces s sp) \<longrightarrow>
        (\<exists>s'. ipc_hash_global_delete sp obj name e s = Some s' \<and>
          bucket_list (IH_GLOBAL_HASH sp obj s) s' (remove1 e xs) \<and> te_key s' = te_key s \<and>
          is_tree_hash (spaces s' sp) = is_tree_hash (spaces s sp) - 1 \<and>
          (\<forall>c ys. c \<noteq> IH_GLOBAL_HASH sp obj s \<longrightarrow> set ys \<inter> set xs = {} \<longrightarrow> bucket_list c s ys \<longrightarrow> bucket_list c s' ys)))"
  by (intro conjI allI impI bucket_lookup bucket_insert bucket_delete assms)


theorem ipc_hash_global_refines_list_witness:
  "\<exists>s'. ipc_hash_global_lookup 16 192 hash_demo = Some (Some (1001, 7), s') \<and>
    bucket_list 0 s' [7, 3]"
proof -
  have hash: "IH_GLOBAL_HASH 16 192 hash_demo = 0"
    by (simp add: IH_GLOBAL_HASH_def hash_demo_def)
  have "bucket_list 0 hash_demo [3, 7]"
    by (simp add: bucket_list_def bucket_head_def hash_demo_def te_demo_def)
  then have "bucket_list (IH_GLOBAL_HASH 16 192 hash_demo) hash_demo [3, 7]" by (simp add: hash)
  from ipc_hash_global_refines_list [OF this] show ?thesis
    unfolding hash by (auto simp: hash_demo_def ite_matches_def te_demo_def)
qed

end
