(* ===== verification/Ipc_Entry.thy ===== *)
theory Ipc_Entry
  imports Ipc_Hash Ipc_Splay_Traverse
begin

text \<open>
  The translation entries of a space, \<^verbatim>\<open>Kernel/mxwl/ipc/ipc_entry.c\<close>, with the life of a space from
  \<^verbatim>\<open>ipc/ipc_init.c\<close>.  A space keeps the entries of its small names in a table, whose unused entries
  form a free list that starts at entry 0, and all others in a splay tree.

  The state is that of the hash tables, with what the host's allocator will give:
  \<open>ite_zone\<close> are the addresses of the tree entries to come, and \<open>table_memory\<close> says of the table
  allocations to come whether they succeed; when either list is used up, or an address is 0, an
  allocation fails.  The operations are those of one thread: nothing else happens while a space is
  unlocked.  A failed assertion, an access outside a table, a loop that never ends and a second
  \<^verbatim>\<open>free\<close> of the same memory are \<open>None\<close>.
\<close>

section \<open>Data\<close>

record ients = ipcs +
  ite_zone :: "nat list"
  table_memory :: "bool list"
  space_zone :: "nat list"

definition MACH_PORT_TYPE_NONE :: uint32 where "MACH_PORT_TYPE_NONE = 0"
definition MACH_PORT_TYPE_SEND :: uint32 where "MACH_PORT_TYPE_SEND = 0x10000"
definition MACH_PORT_TYPE_RECEIVE :: uint32 where "MACH_PORT_TYPE_RECEIVE = 0x20000"
definition MACH_PORT_TYPE_SEND_ONCE :: uint32 where "MACH_PORT_TYPE_SEND_ONCE = 0x40000"

definition IE_BITS_TYPE_MASK :: uint32 where "IE_BITS_TYPE_MASK = 0x1f0000"
definition IE_BITS_COLLISION :: uint32 where "IE_BITS_COLLISION = 0x800000"
definition IE_BITS_GEN_MASK :: uint32 where "IE_BITS_GEN_MASK = 0"
definition IE_BITS_GEN_ONE :: uint32 where "IE_BITS_GEN_ONE = 0"

definition IE_BITS_TYPE :: "uint32 \<Rightarrow> uint32" where
  "IE_BITS_TYPE bits = bits AND IE_BITS_TYPE_MASK"

definition IE_BITS_GEN :: "uint32 \<Rightarrow> uint32" where
  "IE_BITS_GEN bits = 0"

definition MACH_PORT_GEN :: "mach_port_t \<Rightarrow> uint32" where
  "MACH_PORT_GEN name = 0"

definition MACH_PORT_MAKE :: "nat \<Rightarrow> uint32 \<Rightarrow> mach_port_t" where
  "MACH_PORT_MAKE index gen = signed_take_bit 31 (int index)"

definition MACH_PORT_VALID :: "mach_port_t \<Rightarrow> bool" where
  "MACH_PORT_VALID name \<longleftrightarrow> name \<noteq> 0 \<and> name \<noteq> - 1"

text \<open>The sizes a table goes through; a place in this array stands for an \<^verbatim>\<open>ipc_table_size_t\<close>.\<close>

definition ipc_table_entries :: "nat list" where
  "ipc_table_entries = [64, 128, 256, 512, 1024, 2048, 4096, 8192, 16384, 32768, 65536, 65536]"

definition its_size :: "nat \<Rightarrow> nat option" where
  "its_size its = (if its < length ipc_table_entries then Some (ipc_table_entries ! its) else None)"

definition sizeof_ipc_entry :: nat where "sizeof_ipc_entry = 32"
definition sizeof_ipc_tree_entry :: nat where "sizeof_ipc_tree_entry = 64"
definition PAGE_SIZE :: nat where "PAGE_SIZE = 4096"

definition it_entries_reallocable :: "nat \<Rightarrow> bool" where
  "it_entries_reallocable elems \<longleftrightarrow> PAGE_SIZE \<le> elems * sizeof_ipc_entry"

definition zero_entry :: ipc_entry where
  "zero_entry = \<lparr>ie_bits = 0, ie_object = 0, ie_next = 0, ie_index = 0\<rparr>"

definition zero_tree_entry :: ipc_tree_entry where
  "zero_tree_entry =
     \<lparr>te_bits = 0, te_object = 0, te_request = 0, te_next = 0, te_name = 0, te_space = 0\<rparr>"

definition empty_tree :: "nat ipc_splay_tree" where
  "empty_tree = \<lparr>ist_name = 0, ist_root = ITE_NULL, ist_ltree = [], ist_rtree = []\<rparr>"

section \<open>Memory\<close>

definition ite_alloc :: "'a ients_scheme \<Rightarrow> nat \<times> 'a ients_scheme" where
  "ite_alloc s =
     (case ite_zone s of
        [] \<Rightarrow> (0, s)
      | e # es \<Rightarrow>
          (e, (if e = 0 then s else upd_tent e (\<lambda>_. zero_tree_entry) s)\<lparr>ite_zone := es\<rparr>))"

definition it_entries_alloc :: "'a ients_scheme \<Rightarrow> bool \<times> 'a ients_scheme" where
  "it_entries_alloc s =
     (case table_memory s of [] \<Rightarrow> (False, s) | ok # oks \<Rightarrow> (ok, s\<lparr>table_memory := oks\<rparr>))"

definition is_alloc :: "'a ients_scheme \<Rightarrow> nat \<times> 'a ients_scheme" where
  "is_alloc s =
     (case space_zone s of [] \<Rightarrow> (0, s) | sp # sps \<Rightarrow> (sp, s\<lparr>space_zone := sps\<rparr>))"

section \<open>Tables, entries and the tree of a space\<close>

abbreviation table_of :: "nat \<Rightarrow> 'a ipcs_scheme \<Rightarrow> ipc_entry list" where
  "table_of sp s \<equiv> is_table (spaces s sp)"

definition upd_ent :: "nat \<Rightarrow> nat \<Rightarrow> (ipc_entry \<Rightarrow> ipc_entry) \<Rightarrow> 'a ipcs_scheme \<Rightarrow> 'a ipcs_scheme" where
  "upd_ent sp i f s = upd_space sp (\<lambda>x. x\<lparr>is_table := (is_table x)[i := f (is_table x ! i)]\<rparr>) s"

definition set_tree :: "nat \<Rightarrow> nat ipc_splay_tree \<Rightarrow> 'a ipcs_scheme \<Rightarrow> 'a ipcs_scheme" where
  "set_tree sp t s = upd_space sp (\<lambda>x. x\<lparr>is_tree := t\<rparr>) s"

text \<open>The fields of the entry a reference leads to.\<close>

definition ent_bits :: "nat \<Rightarrow> entry_ref \<Rightarrow> 'a ipcs_scheme \<Rightarrow> uint32 option" where
  "ent_bits sp r s =
     (case r of Tab i \<Rightarrow> map_option ie_bits (tab_at (table_of sp s) i) | Tree e \<Rightarrow> Some (te_bits (tents s e)))"

definition ent_object :: "nat \<Rightarrow> entry_ref \<Rightarrow> 'a ipcs_scheme \<Rightarrow> nat option" where
  "ent_object sp r s =
     (case r of Tab i \<Rightarrow> map_option ie_object (tab_at (table_of sp s) i) | Tree e \<Rightarrow> Some (te_object (tents s e)))"

definition ent_request :: "nat \<Rightarrow> entry_ref \<Rightarrow> 'a ipcs_scheme \<Rightarrow> nat option" where
  "ent_request sp r s =
     (case r of Tab i \<Rightarrow> map_option ie_next (tab_at (table_of sp s) i) | Tree e \<Rightarrow> Some (te_request (tents s e)))"

section \<open>Looking up\<close>

definition ipc_entry_tree_collision ::
  "nat \<Rightarrow> mach_port_t \<Rightarrow> 'a ipcs_scheme \<Rightarrow> (bool \<times> 'a ipcs_scheme) option" where
  "ipc_entry_tree_collision sp name s = do {
     c_assert (is_active (spaces s sp));
     (tree, lower, upper) \<leftarrow> ipc_splay_tree_bounds (is_tree (spaces s sp)) name;
     let index = MACH_PORT_INDEX name;
     Some ((lower \<noteq> - 1 \<and> MACH_PORT_INDEX lower = index) \<or> (upper \<noteq> 0 \<and> MACH_PORT_INDEX upper = index),
           set_tree sp tree s)
   }"

definition entry_tree_lookup ::
  "nat \<Rightarrow> mach_port_t \<Rightarrow> 'a ipcs_scheme \<Rightarrow> (entry_ref option \<times> 'a ipcs_scheme) option" where
  "entry_tree_lookup sp name s = do {
     (tree, e) \<leftarrow> ipc_splay_tree_lookup (is_tree (spaces s sp)) name;
     Some (map_option Tree e, set_tree sp tree s)
   }"

definition ipc_entry_lookup ::
  "nat \<Rightarrow> mach_port_t \<Rightarrow> 'a ipcs_scheme \<Rightarrow> (entry_ref option \<times> 'a ipcs_scheme) option" where
  "ipc_entry_lookup sp name s = do {
     c_assert (is_active (spaces s sp));
     let index = MACH_PORT_INDEX name;
     (entry, s) \<leftarrow>
       (if index < is_table_size (spaces s sp) then do {
          e \<leftarrow> tab_at (table_of sp s) index;
          (if IE_BITS_GEN (ie_bits e) \<noteq> MACH_PORT_GEN name then
             if ie_bits e AND IE_BITS_COLLISION \<noteq> 0 then do {
               c_assert (0 < is_tree_total (spaces s sp));
               entry_tree_lookup sp name s
             }
             else Some (None, s)
           else if IE_BITS_TYPE (ie_bits e) = MACH_PORT_TYPE_NONE then Some (None, s)
           else Some (Some (Tab index), s))
        }
        else if is_tree_total (spaces s sp) = 0 then Some (None, s)
        else entry_tree_lookup sp name s);
     (case entry of
        None \<Rightarrow> Some (None, s)
      | Some r \<Rightarrow> do {
          bits \<leftarrow> ent_bits sp r s;
          c_assert (IE_BITS_TYPE bits \<noteq> 0);
          Some (Some r, s)
        })
   }"

section \<open>Allocation from the free list\<close>

definition ipc_entry_get ::
  "nat \<Rightarrow> 'a ipcs_scheme \<Rightarrow> (kern_return_t \<times> mach_port_t \<times> nat \<times> 'a ipcs_scheme) option" where
  "ipc_entry_get sp s = do {
     c_assert (is_active (spaces s sp));
     head \<leftarrow> tab_at (table_of sp s) 0;
     let first_free = ie_next head;
     if first_free = 0 then Some (KERN_NO_SPACE, 0, 0, s)
     else do {
       free_entry \<leftarrow> tab_at (table_of sp s) first_free;
       let s = upd_ent sp 0 (\<lambda>e. e\<lparr>ie_next := ie_next free_entry\<rparr>) s;
       c_assert (ie_bits free_entry AND NOT IE_BITS_GEN_MASK = 0);
       let gen = ie_bits free_entry + IE_BITS_GEN_ONE;
       let s = upd_ent sp first_free (\<lambda>e. e\<lparr>ie_bits := gen, ie_next := 0\<rparr>) s;
       let new_name = MACH_PORT_MAKE first_free gen;
       c_assert (MACH_PORT_VALID new_name);
       c_assert (ie_object free_entry = 0);
       Some (KERN_SUCCESS, new_name, first_free, s)
     }
   }"

section \<open>Growing the table\<close>

text \<open>The old entries go back into the reverse hash table.\<close>

fun rehash :: "nat \<Rightarrow> nat list \<Rightarrow> 'a ipcs_scheme \<Rightarrow> 'a ipcs_scheme option" where
  "rehash sp [] s = Some s"
| "rehash sp (i # is) s = do {
     e \<leftarrow> tab_at (table_of sp s) i;
     s \<leftarrow> (if IE_BITS_TYPE (ie_bits e) = MACH_PORT_TYPE_SEND
           then ipc_hash_local_insert sp (ie_object e) i (Tab i) s else Some s);
     rehash sp is s
   }"

text \<open>One tree entry whose index the table now has; the first component says whether it moved.\<close>

definition move_entry ::
  "nat \<Rightarrow> nat \<Rightarrow> nat \<Rightarrow> mach_port_t \<Rightarrow> nat \<Rightarrow> 'a ipcs_scheme \<Rightarrow> (bool \<times> 'a ipcs_scheme) option" where
  "move_entry sp osize sz name tentry s = do {
     let gen = MACH_PORT_GEN name;
     let index = MACH_PORT_INDEX name;
     c_assert (te_space (tents s tentry) = sp);
     c_assert (osize \<le> index \<and> index < sz);
     entry \<leftarrow> tab_at (table_of sp s) index;
     let bits = ie_bits entry;
     if bits \<noteq> 0 then do {
       c_assert (IE_BITS_TYPE bits \<noteq> 0);
       c_assert (IE_BITS_GEN bits \<noteq> gen);
       Some (False, upd_ent sp index (\<lambda>e. e\<lparr>ie_bits := bits OR IE_BITS_COLLISION\<rparr>) s)
     }
     else do {
       let bits = te_bits (tents s tentry);
       let type = IE_BITS_TYPE bits;
       c_assert (type \<noteq> MACH_PORT_TYPE_NONE);
       let obj = te_object (tents s tentry);
       let s = upd_ent sp index
         (\<lambda>e. e\<lparr>ie_bits := bits OR gen, ie_object := obj, ie_next := te_request (tents s tentry)\<rparr>) s;
       s \<leftarrow> (if type = MACH_PORT_TYPE_SEND then do {
               s \<leftarrow> ipc_hash_global_delete sp obj name tentry s;
               ipc_hash_local_insert sp obj index (Tab index) s
             }
             else Some s);
       Some (True, upd_space sp (\<lambda>x. x\<lparr>is_tree_total := is_tree_total x - 1\<rparr>) s)
     }
   }"

partial_function (option) move_loop ::
  "nat \<Rightarrow> nat \<Rightarrow> nat \<Rightarrow> nat traversal \<Rightarrow> (mach_port_t \<times> nat) option \<Rightarrow> 'a ipcs_scheme \<Rightarrow>
   (nat traversal \<times> 'a ipcs_scheme) option" where
  "move_loop sp osize sz tr cur s =
     (case cur of
        None \<Rightarrow> Some (tr, s)
      | Some (name, tentry) \<Rightarrow> do {
          (delete, s) \<leftarrow> move_entry sp osize sz name tentry s;
          (tr, cur) \<leftarrow> ipc_splay_traverse_next tr delete;
          move_loop sp osize sz tr cur s
        })"

text \<open>The different indices of the tree entries that the next size would take in.\<close>

partial_function (option) count_loop ::
  "nat traversal \<Rightarrow> (mach_port_t \<times> nat) option \<Rightarrow> nat \<Rightarrow> nat \<Rightarrow> (nat traversal \<times> nat) option" where
  "count_loop tr cur nosmall index =
     (case cur of
        None \<Rightarrow> Some (tr, nosmall)
      | Some (name, tentry) \<Rightarrow> do {
          let nindex = MACH_PORT_INDEX name;
          (tr, cur) \<leftarrow> ipc_splay_traverse_next tr False;
          (if nindex \<noteq> index then count_loop tr cur (nosmall + 1) nindex
           else count_loop tr cur nosmall index)
        })"

definition grow_tree :: "nat \<Rightarrow> nat \<Rightarrow> nat \<Rightarrow> nat \<Rightarrow> 'a ipcs_scheme \<Rightarrow> 'a ipcs_scheme option" where
  "grow_tree sp osize sz nsize s = do {
     (tree, small) \<leftarrow> ipc_splay_tree_split (is_tree (spaces s sp)) (MACH_PORT_MAKE nsize 0) empty_tree;
     (small, move) \<leftarrow> ipc_splay_tree_split small (MACH_PORT_MAKE sz 0) empty_tree;
     (move, ignored) \<leftarrow> ipc_splay_tree_split move (MACH_PORT_MAKE osize 0) empty_tree;
     tr \<leftarrow> ipc_splay_traverse_start move;
     (tr, s) \<leftarrow> move_loop sp osize sz tr (traverse_first tr) s;
     let move = ipc_splay_traverse_finish move tr;
     tr \<leftarrow> ipc_splay_traverse_start small;
     (tr, nosmall) \<leftarrow> count_loop tr (traverse_first tr) 0 0;
     let small = ipc_splay_traverse_finish small tr;
     c_assert (nosmall \<le> nsize - sz);
     c_assert (nosmall \<le> is_tree_total (spaces s sp));
     (tree, small) \<leftarrow> ipc_splay_tree_join tree small;
     (tree, move) \<leftarrow> ipc_splay_tree_join tree move;
     (tree, ignored) \<leftarrow> ipc_splay_tree_join tree ignored;
     Some (upd_space sp (\<lambda>x. x\<lparr>is_tree_small := nosmall, is_tree := tree\<rparr>) s)
   }"

text \<open>The unused new entries go on the free list, the lowest first.\<close>

definition free_entry_step :: "nat \<Rightarrow> ipc_entry list \<times> nat \<Rightarrow> ipc_entry list \<times> nat" where
  "free_entry_step i = (\<lambda>(tab, free_index).
     if ie_bits (tab ! i) = 0
     then (tab[i := (tab ! i)\<lparr>ie_bits := IE_BITS_GEN_MASK, ie_next := free_index\<rparr>], i)
     else (tab, free_index))"

definition free_new_entries :: "nat \<Rightarrow> nat \<Rightarrow> ipc_entry list \<Rightarrow> ipc_entry list" where
  "free_new_entries osize sz tab =
     (let (tab, free_index) = fold free_entry_step (rev [osize..<sz]) (tab, ie_next (tab ! 0))
      in tab[0 := (tab ! 0)\<lparr>ie_next := free_index\<rparr>])"

text \<open>
  The body of the loop; the flag says whether to grow once more.  The old table is freed at the end,
  also when \<^verbatim>\<open>realloc\<close> already has freed or reused it.  Growing while another thread grows the same
  table is a wait that, with one thread, never ends.
\<close>

definition grow_once :: "nat \<Rightarrow> 'a ients_scheme \<Rightarrow> (kern_return_t \<times> bool \<times> 'a ients_scheme) option" where
  "grow_once sp s = do {
     c_assert (is_active (spaces s sp));
     c_assert (\<not> is_growing (spaces s sp));
     let otable = table_of sp s;
     let its = is_table_next (spaces s sp);
     sz \<leftarrow> its_size its;
     c_assert (0 < its);
     osize \<leftarrow> its_size (its - 1);
     nsize \<leftarrow> its_size (its + 1);
     if osize = sz then Some (KERN_NO_SPACE, False, s)
     else do {
       c_assert (osize < sz \<and> sz \<le> nsize);
       let (ok, s) = it_entries_alloc s;
       if \<not> ok then Some (KERN_RESOURCE_SHORTAGE, False, s)
       else do {
         c_assert (is_table_size (spaces s sp) = osize);
         c_assert (osize \<le> length otable);
         let table = map (\<lambda>e. e\<lparr>ie_index := 0\<rparr>) (take osize otable) @ replicate (sz - osize) zero_entry;
         let s = upd_space sp
           (\<lambda>x. x\<lparr>is_table := table, is_table_size := sz, is_table_next := its + 1\<rparr>) s;
         s \<leftarrow> rehash sp [0..<osize] s;
         s \<leftarrow> (if 0 < is_tree_total (spaces s sp) then grow_tree sp osize sz nsize s else Some s);
         let s = upd_space sp (\<lambda>x. x\<lparr>is_table := free_new_entries osize sz (is_table x)\<rparr>) s;
         c_assert (\<not> it_entries_reallocable osize);
         let small = is_tree_small (spaces s sp);
         Some (KERN_SUCCESS,
               0 < small \<and> (nsize - sz) * sizeof_ipc_entry < small * sizeof_ipc_tree_entry, s)
       }
     }
   }"

partial_function (option) ipc_entry_grow_table ::
  "nat \<Rightarrow> 'a ients_scheme \<Rightarrow> (kern_return_t \<times> 'a ients_scheme) option" where
  "ipc_entry_grow_table sp s = do {
     (kr, again, s) \<leftarrow> grow_once sp s;
     if again then ipc_entry_grow_table sp s else Some (kr, s)
   }"

section \<open>Allocation\<close>

partial_function (option) ipc_entry_alloc ::
  "nat \<Rightarrow> 'a ients_scheme \<Rightarrow> (kern_return_t \<times> mach_port_t \<times> nat \<times> 'a ients_scheme) option" where
  "ipc_entry_alloc sp s =
     (if \<not> is_active (spaces s sp) then Some (KERN_INVALID_TASK, 0, 0, s)
      else do {
        (kr, name, entry, s) \<leftarrow> ipc_entry_get sp s;
        if kr = KERN_SUCCESS then Some (kr, name, entry, s)
        else do {
          (kr, s) \<leftarrow> ipc_entry_grow_table sp s;
          if kr \<noteq> KERN_SUCCESS then Some (kr, 0, 0, s) else ipc_entry_alloc sp s
        }
      })"

text \<open>The search for the entry before a given one in the free list.\<close>

partial_function (option) free_before :: "ipc_entry list \<Rightarrow> nat \<Rightarrow> nat \<Rightarrow> nat option" where
  "free_before tab index free_index = do {
     e \<leftarrow> tab_at tab free_index;
     if ie_next e = index then Some free_index else free_before tab index (ie_next e)
   }"

definition rip_free_entry :: "nat \<Rightarrow> nat \<Rightarrow> uint32 \<Rightarrow> 'a ipcs_scheme \<Rightarrow> 'a ipcs_scheme option" where
  "rip_free_entry sp index gen s = do {
     free_index \<leftarrow> free_before (table_of sp s) index 0;
     entry \<leftarrow> tab_at (table_of sp s) index;
     let s = upd_ent sp free_index (\<lambda>e. e\<lparr>ie_next := ie_next entry\<rparr>) s;
     let s = upd_ent sp index (\<lambda>e. e\<lparr>ie_bits := gen\<rparr>) s;
     c_assert (ie_object entry = 0);
     Some (upd_ent sp index (\<lambda>e. e\<lparr>ie_next := 0\<rparr>) s)
   }"

text \<open>The new tree entry goes into the tree.\<close>

definition insert_tree_entry ::
  "nat \<Rightarrow> mach_port_t \<Rightarrow> nat \<Rightarrow> nat \<Rightarrow> nat \<Rightarrow> 'a ipcs_scheme \<Rightarrow> 'a ipcs_scheme option" where
  "insert_tree_entry sp name index sz tree_entry s = do {
     let s = upd_space sp (\<lambda>x. x\<lparr>is_tree_total := is_tree_total x + 1\<rparr>) s;
     s \<leftarrow> (if index < is_table_size (spaces s sp) then do {
             c_assert (index < length (table_of sp s));
             Some (upd_ent sp index (\<lambda>e. e\<lparr>ie_bits := ie_bits e OR IE_BITS_COLLISION\<rparr>) s)
           }
           else if index < sz then do {
             (collides, s) \<leftarrow> ipc_entry_tree_collision sp name s;
             Some (if collides then s else upd_space sp (\<lambda>x. x\<lparr>is_tree_small := is_tree_small x + 1\<rparr>) s)
           }
           else Some s);
     tree \<leftarrow> ipc_splay_tree_insert (is_tree (spaces s sp)) name tree_entry;
     Some (upd_tent tree_entry
             (\<lambda>t. t\<lparr>te_name := name, te_bits := 0, te_object := 0, te_request := 0, te_space := sp\<rparr>)
             (set_tree sp tree s))
   }"

text \<open>One turn of the loop: \<open>Inl\<close> is the result, \<open>Inr\<close> the tree entry to go on with.\<close>

definition alloc_name_turn ::
  "nat \<Rightarrow> mach_port_t \<Rightarrow> nat \<Rightarrow> 'a ients_scheme \<Rightarrow>
   ((kern_return_t \<times> entry_ref option + nat) \<times> 'a ients_scheme) option" where
  "alloc_name_turn sp name tree_entry s =
     (let index = MACH_PORT_INDEX name; gen = MACH_PORT_GEN name in
      if \<not> is_active (spaces s sp) then Some (Inl (KERN_INVALID_TASK, None), s)
      else do {
        used \<leftarrow>
          (if 0 < index \<and> index < is_table_size (spaces s sp) then do {
             e \<leftarrow> tab_at (table_of sp s) index;
             if IE_BITS_TYPE (ie_bits e) \<noteq> 0 then Some (if IE_BITS_GEN (ie_bits e) = gen then Some s else None)
             else do { s \<leftarrow> rip_free_entry sp index gen s; Some (Some s) }
           }
           else Some None);
        (case used of
           Some s \<Rightarrow> Some (Inl (KERN_SUCCESS, Some (Tab index)), s)
         | None \<Rightarrow> do {
             (found, s) \<leftarrow> (if 0 < is_tree_total (spaces s sp) then do {
                              (tree, e) \<leftarrow> ipc_splay_tree_lookup (is_tree (spaces s sp)) name;
                              Some (e, set_tree sp tree s)
                            }
                            else Some (None, s));
             (case found of
                Some e \<Rightarrow> do {
                  c_assert (te_space (tents s e) = sp);
                  c_assert (IE_BITS_TYPE (te_bits (tents s e)) \<noteq> 0);
                  Some (Inl (KERN_SUCCESS, Some (Tree e)), s)
                }
              | None \<Rightarrow> do {
                  let its = is_table_next (spaces s sp);
                  sz \<leftarrow> its_size its;
                  if is_table_size (spaces s sp) \<le> index \<and> index < sz \<and>
                     (sz - is_table_size (spaces s sp)) * sizeof_ipc_entry <
                       (is_tree_small (spaces s sp) + 1) * sizeof_ipc_tree_entry then do {
                    (kr, s) \<leftarrow> ipc_entry_grow_table sp s;
                    c_assert (kr \<noteq> KERN_NO_SPACE);
                    if kr \<noteq> KERN_SUCCESS then Some (Inl (kr, None), s) else Some (Inr tree_entry, s)
                  }
                  else if tree_entry \<noteq> 0 then do {
                    s' \<leftarrow> insert_tree_entry sp name index sz tree_entry s;
                    Some (Inl (KERN_SUCCESS, Some (Tree tree_entry)), s')
                  }
                  else (let (e, s) = ite_alloc s in
                    if e = 0 then Some (Inl (KERN_RESOURCE_SHORTAGE, None), s) else Some (Inr e, s))
                })
           })
      })"

partial_function (option) alloc_name_loop ::
  "nat \<Rightarrow> mach_port_t \<Rightarrow> nat \<Rightarrow> 'a ients_scheme \<Rightarrow> (kern_return_t \<times> entry_ref option \<times> 'a ients_scheme) option" where
  "alloc_name_loop sp name tree_entry s = do {
     (r, s) \<leftarrow> alloc_name_turn sp name tree_entry s;
     (case r of Inl (kr, e) \<Rightarrow> Some (kr, e, s) | Inr e \<Rightarrow> alloc_name_loop sp name e s)
   }"

definition ipc_entry_alloc_name ::
  "nat \<Rightarrow> mach_port_t \<Rightarrow> 'a ients_scheme \<Rightarrow> (kern_return_t \<times> entry_ref option \<times> 'a ients_scheme) option" where
  "ipc_entry_alloc_name sp name s = do {
     c_assert (MACH_PORT_VALID name);
     alloc_name_loop sp name 0 s
   }"

section \<open>Deallocation\<close>

text \<open>An entry of the table with a colliding name in the tree: that one takes its place.\<close>

definition take_from_tree :: "nat \<Rightarrow> nat \<Rightarrow> 'a ipcs_scheme \<Rightarrow> 'a ipcs_scheme option" where
  "take_from_tree sp index s = do {
     (tree, collisions) \<leftarrow> ipc_splay_tree_split (is_tree (spaces s sp)) (MACH_PORT_MAKE (index + 1) 0) empty_tree;
     (collisions, small) \<leftarrow> ipc_splay_tree_split collisions (MACH_PORT_MAKE index 0) empty_tree;
     (tname, tentry) \<leftarrow> ipc_splay_tree_pick collisions;
     c_assert (MACH_PORT_INDEX tname = index);
     let bits = te_bits (tents s tentry);
     let obj = te_object (tents s tentry);
     let s = upd_ent sp index (\<lambda>e. e\<lparr>ie_bits := bits OR MACH_PORT_GEN tname, ie_object := obj,
                                        ie_next := te_request (tents s tentry)\<rparr>) s;
     c_assert (te_space (tents s tentry) = sp);
     s \<leftarrow> (if IE_BITS_TYPE bits = MACH_PORT_TYPE_SEND then do {
             s \<leftarrow> ipc_hash_global_delete sp obj tname tentry s;
             ipc_hash_local_insert sp obj index (Tab index) s
           }
           else Some s);
     collisions \<leftarrow> ipc_splay_tree_delete collisions tname tentry;
     c_assert (0 < is_tree_total (spaces s sp));
     let s = upd_space sp (\<lambda>x. x\<lparr>is_tree_total := is_tree_total x - 1\<rparr>) s;
     (tree, s) \<leftarrow>
       (case ipc_splay_tree_pick collisions of
          None \<Rightarrow> Some (tree, s)
        | Some _ \<Rightarrow> do {
            let s = upd_ent sp index (\<lambda>e. e\<lparr>ie_bits := ie_bits e OR IE_BITS_COLLISION\<rparr>) s;
            (tree, c) \<leftarrow> ipc_splay_tree_join tree collisions;
            Some (tree, s)
          });
     (tree, sm) \<leftarrow> ipc_splay_tree_join tree small;
     Some (set_tree sp tree s)
   }"

definition dealloc_tree_entry :: "nat \<Rightarrow> mach_port_t \<Rightarrow> nat \<Rightarrow> 'a ipcs_scheme \<Rightarrow> 'a ipcs_scheme option" where
  "dealloc_tree_entry sp name tentry s = do {
     let index = MACH_PORT_INDEX name;
     c_assert (te_space (tents s tentry) = sp);
     tree \<leftarrow> ipc_splay_tree_delete (is_tree (spaces s sp)) name tentry;
     let s = set_tree sp tree s;
     c_assert (0 < is_tree_total (spaces s sp));
     let s = upd_space sp (\<lambda>x. x\<lparr>is_tree_total := is_tree_total x - 1\<rparr>) s;
     if index < is_table_size (spaces s sp) then do {
       ientry \<leftarrow> tab_at (table_of sp s) index;
       c_assert (ie_bits ientry AND IE_BITS_COLLISION \<noteq> 0);
       (collides, s) \<leftarrow> ipc_entry_tree_collision sp name s;
       Some (if collides then s
             else upd_ent sp index (\<lambda>e. e\<lparr>ie_bits := ie_bits e AND NOT IE_BITS_COLLISION\<rparr>) s)
     }
     else do {
       sz \<leftarrow> its_size (is_table_next (spaces s sp));
       if index < sz then do {
         (collides, s) \<leftarrow> ipc_entry_tree_collision sp name s;
         if collides then Some s
         else do {
           c_assert (0 < is_tree_small (spaces s sp));
           Some (upd_space sp (\<lambda>x. x\<lparr>is_tree_small := is_tree_small x - 1\<rparr>) s)
         }
       }
       else Some s
     }
   }"

definition ipc_entry_dealloc :: "nat \<Rightarrow> mach_port_t \<Rightarrow> entry_ref \<Rightarrow> 'a ipcs_scheme \<Rightarrow> 'a ipcs_scheme option" where
  "ipc_entry_dealloc sp name entry s = do {
     c_assert (is_active (spaces s sp));
     c_assert (ent_object sp entry s = Some 0);
     c_assert (ent_request sp entry s = Some 0);
     let index = MACH_PORT_INDEX name;
     (case entry of
        Tab i \<Rightarrow>
          if index < is_table_size (spaces s sp) \<and> i = index then do {
            e \<leftarrow> tab_at (table_of sp s) index;
            head \<leftarrow> tab_at (table_of sp s) 0;
            c_assert (IE_BITS_GEN (ie_bits e) = MACH_PORT_GEN name);
            (if ie_bits e AND IE_BITS_COLLISION \<noteq> 0 then take_from_tree sp index s
             else
               (let s = upd_ent sp index
                      (\<lambda>e. e\<lparr>ie_bits := ie_bits e AND IE_BITS_GEN_MASK, ie_next := ie_next head\<rparr>) s
                in Some (upd_ent sp 0 (\<lambda>e. e\<lparr>ie_next := index\<rparr>) s)))
          }
          else None
      | Tree e \<Rightarrow> dealloc_tree_entry sp name e s)
   }"

section \<open>The life of a space\<close>

definition new_space :: "nat \<Rightarrow> nat \<Rightarrow> ipc_space" where
  "new_space elems its =
     \<lparr>is_active = True, is_growing = False, is_table = replicate elems zero_entry, is_table_size = elems,
      is_table_next = (if elems \<noteq> 0 then its + 1 else its), is_tree = ipc_splay_tree_init empty_tree,
      is_tree_total = 0, is_tree_small = 0, is_tree_hash = 0\<rparr>"

definition ipc_space_create :: "nat \<Rightarrow> 'a ients_scheme \<Rightarrow> (kern_return_t \<times> nat \<times> 'a ients_scheme) option" where
  "ipc_space_create table_entries s =
     (let (space, s) = is_alloc s in
      if space = 0 then Some (KERN_FAILURE, 0, s)
      else do {
        elems \<leftarrow> its_size table_entries;
        let (ok, s) = it_entries_alloc s;
        if \<not> ok then Some (KERN_NO_SPACE, 0, s)
        else Some (KERN_SUCCESS, space, upd_space space (\<lambda>_. new_space elems table_entries) s)
      })"

text \<open>The special spaces are made by a copy of the same code, with the array's start.\<close>

definition ipc_space_create_special :: "'a ients_scheme \<Rightarrow> (kern_return_t \<times> nat \<times> 'a ients_scheme) option" where
  "ipc_space_create_special s =
     (let (space, s) = is_alloc s in
      if space = 0 then Some (KERN_FAILURE, 0, s)
      else do {
        elems \<leftarrow> its_size 0;
        let (ok, s) = it_entries_alloc s;
        if \<not> ok then Some (KERN_NO_SPACE, 0, s)
        else Some (KERN_SUCCESS, space, upd_space space (\<lambda>_. new_space elems 0) s)
      })"

text \<open>The kernel's and the reply space, 0 when there is no memory for one; that is not reported.\<close>

definition ipc_mach_compat_init :: "'a ients_scheme \<Rightarrow> (kern_return_t \<times> nat \<times> nat \<times> 'a ients_scheme) option" where
  "ipc_mach_compat_init s = do {
     (kr, ipc_space_kernel, s) \<leftarrow> ipc_space_create_special s;
     (kr, ipc_space_reply, s) \<leftarrow> ipc_space_create_special s;
     Some (KERN_SUCCESS, ipc_space_kernel, ipc_space_reply, s)
   }"

end
