(* ===== verification/Ipc_Entry_Correct.thy ===== *)
theory Ipc_Entry_Correct
  imports Ipc_Entry Ipc_Hash_Correct
begin

text \<open>
  The free list of a space's table, and what allocation and deallocation do to it; the growth of the
  table of a space with an empty tree; names in the splay tree.
\<close>

section \<open>The free list\<close>

fun free_chain :: "ipc_entry list \<Rightarrow> nat \<Rightarrow> nat list \<Rightarrow> bool" where
  "free_chain tab a [] \<longleftrightarrow> a = 0"
| "free_chain tab a (x # xs) \<longleftrightarrow>
     a = x \<and> 0 < x \<and> x < length tab \<and> ie_bits (tab ! x) = 0 \<and> ie_object (tab ! x) = 0 \<and>
     free_chain tab (ie_next (tab ! x)) xs"

definition free_list :: "ipc_entry list \<Rightarrow> nat list \<Rightarrow> bool" where
  "free_list tab xs \<longleftrightarrow> tab \<noteq> [] \<and> distinct xs \<and> free_chain tab (ie_next (tab ! 0)) xs"

text \<open>A space between two operations, with its free list.\<close>

definition space_ok :: "nat \<Rightarrow> nat list \<Rightarrow> 'a ipcs_scheme \<Rightarrow> bool" where
  "space_ok sp xs s \<longleftrightarrow>
     is_active (spaces s sp) \<and> \<not> is_growing (spaces s sp) \<and>
     is_table_size (spaces s sp) = length (table_of sp s) \<and> length (table_of sp s) \<le> 65536 \<and>
     free_list (table_of sp s) xs"

lemma free_chain_members: "free_chain tab a xs \<Longrightarrow> x \<in> set xs \<Longrightarrow> 0 < x \<and> x < length tab \<and> ie_bits (tab ! x) = 0 \<and> ie_object (tab ! x) = 0"
  by (induction xs arbitrary: a) auto

lemma free_chain_other:
  "y \<notin> set xs \<Longrightarrow> free_chain (tab[y := e]) a xs = free_chain tab a xs"
  by (induction xs arbitrary: a) (auto simp: nth_list_update)

lemma upd_ent_simps [simp]:
  "table_of sp (upd_ent sp i f s) = (table_of sp s)[i := f (table_of sp s ! i)]"
  "is_active (spaces (upd_ent sp i f s) sp) = is_active (spaces s sp)"
  "is_growing (spaces (upd_ent sp i f s) sp) = is_growing (spaces s sp)"
  "is_table_size (spaces (upd_ent sp i f s) sp) = is_table_size (spaces s sp)"
  "is_table_next (spaces (upd_ent sp i f s) sp) = is_table_next (spaces s sp)"
  "is_tree (spaces (upd_ent sp i f s) sp) = is_tree (spaces s sp)"
  "is_tree_total (spaces (upd_ent sp i f s) sp) = is_tree_total (spaces s sp)"
  "is_tree_small (spaces (upd_ent sp i f s) sp) = is_tree_small (spaces s sp)"
  "is_tree_hash (spaces (upd_ent sp i f s) sp) = is_tree_hash (spaces s sp)"
  "tents (upd_ent sp i f s) = tents s"
  by (simp_all add: upd_ent_def upd_space_def)

lemma port_make_small: "i < 2 ^ 31 \<Longrightarrow> MACH_PORT_MAKE i gen = int i"
  by (simp add: MACH_PORT_MAKE_def signed_take_bit_int_eq_self)

lemma port_index_small [simp]: "i < 2 ^ 31 \<Longrightarrow> MACH_PORT_INDEX (int i) = i"
  by (simp add: MACH_PORT_INDEX_def take_bit_int_eq_self)

lemma tab_at_lt [simp]: "h < length tab \<Longrightarrow> tab_at tab h = Some (tab ! h)"
  by (simp add: tab_at_def)

text \<open>Taking the head of the free list off, and putting an entry back.\<close>

definition pop_free :: "nat \<Rightarrow> nat \<Rightarrow> 'a ipcs_scheme \<Rightarrow> 'a ipcs_scheme" where
  "pop_free sp x s = upd_ent sp x (\<lambda>e. e\<lparr>ie_bits := 0, ie_next := 0\<rparr>)
     (upd_ent sp 0 (\<lambda>e. e\<lparr>ie_next := ie_next (table_of sp s ! x)\<rparr>) s)"

definition push_free :: "nat \<Rightarrow> nat \<Rightarrow> 'a ipcs_scheme \<Rightarrow> 'a ipcs_scheme" where
  "push_free sp x s = upd_ent sp 0 (\<lambda>e. e\<lparr>ie_next := x\<rparr>)
     (upd_ent sp x (\<lambda>e. e\<lparr>ie_bits := 0, ie_next := ie_next (table_of sp s ! 0)\<rparr>) s)"

lemma pop_free_ok:
  assumes "space_ok sp (x # xs) s"
  shows "space_ok sp xs (pop_free sp x s)"
proof -
  have "0 \<notin> set xs" using assms free_chain_members by (fastforce simp: space_ok_def free_list_def)
  with assms show ?thesis
    by (auto simp: space_ok_def free_list_def pop_free_def free_chain_other nth_list_update)
qed

lemma push_free_ok:
  assumes "space_ok sp xs s" "0 < x" "x < length (table_of sp s)" "x \<notin> set xs"
    and "ie_object (table_of sp s ! x) = 0"
  shows "space_ok sp (x # xs) (push_free sp x s)"
proof -
  have "0 \<notin> set xs" using assms(1) free_chain_members by (fastforce simp: space_ok_def free_list_def)
  with assms show ?thesis
    by (auto simp: space_ok_def free_list_def push_free_def free_chain_other nth_list_update)
qed

text \<open>Neither changes any other entry.\<close>

lemma pop_free_frame:
  "i \<notin> {0, x} \<Longrightarrow> table_of sp (pop_free sp x s) ! i = table_of sp s ! i"
  "0 < x \<Longrightarrow> x < length (table_of sp s) \<Longrightarrow>
    table_of sp (pop_free sp x s) ! x = (table_of sp s ! x)\<lparr>ie_bits := 0, ie_next := 0\<rparr>"
  by (auto simp: pop_free_def)

lemma push_free_frame: "i \<notin> {0, x} \<Longrightarrow> table_of sp (push_free sp x s) ! i = table_of sp s ! i"
  by (auto simp: push_free_def)

lemma get_none: "space_ok sp [] s \<Longrightarrow> ipc_entry_get sp s = Some (KERN_NO_SPACE, 0, 0, s)"
  by (simp add: ipc_entry_get_def space_ok_def free_list_def Let_def)

lemma get_some:
  assumes "space_ok sp (x # xs) s"
  shows "ipc_entry_get sp s = Some (KERN_SUCCESS, int x, x, pop_free sp x s)"
proof -
  have x: "is_active (spaces s sp)" "ie_next (table_of sp s ! 0) = x" "0 < x" "x < length (table_of sp s)"
    "ie_bits (table_of sp s ! x) = 0" "ie_object (table_of sp s ! x) = 0" "table_of sp s \<noteq> []" "x < 2 ^ 31"
    using assms by (auto simp: space_ok_def free_list_def)
  then show ?thesis
    by (simp add: ipc_entry_get_def pop_free_def Let_def IE_BITS_GEN_ONE_def port_make_small MACH_PORT_VALID_def)
qed

lemma dealloc_push:
  assumes "space_ok sp xs s" "0 < x" "x < length (table_of sp s)"
    and "ie_object (table_of sp s ! x) = 0" "ie_next (table_of sp s ! x) = 0"
    and "ie_bits (table_of sp s ! x) AND IE_BITS_COLLISION = 0"
  shows "ipc_entry_dealloc sp (int x) (Tab x) s = Some (push_free sp x s)"
proof -
  have "x < 2 ^ 31" "is_active (spaces s sp)" "0 < length (table_of sp s)"
    "is_table_size (spaces s sp) = length (table_of sp s)"
    using assms(1,3) by (auto simp: space_ok_def)
  with assms show ?thesis
    by (simp add: ipc_entry_dealloc_def ent_object_def ent_request_def push_free_def Let_def
        IE_BITS_GEN_def MACH_PORT_GEN_def IE_BITS_GEN_MASK_def)
qed

section \<open>The search that never ends\<close>

lemma free_before_inv:
  assumes "free_before tab index a = Some r" "a \<in> A" "\<And>b. b \<in> A \<Longrightarrow> ie_next (tab ! b) \<in> A"
  shows "\<exists>b \<in> A. ie_next (tab ! b) = index"
  using assms
proof (induction rule: free_before.raw_induct [rotated, consumes 1, case_names step])
  case (step f tab index a r)
  from step(2) have "a < length tab"
    by (auto simp: tab_at_def split: if_splits)
  with step show ?case by (cases "ie_next (tab ! a) = index") auto
qed

lemma free_chain_head: "free_chain tab a xs \<Longrightarrow> a \<in> insert 0 (set xs)"
  by (cases xs) auto

lemma free_chain_next: "free_chain tab a xs \<Longrightarrow> b \<in> set xs \<Longrightarrow> ie_next (tab ! b) \<in> insert 0 (set xs)"
proof (induction xs arbitrary: a)
  case (Cons x xs)
  then show ?case using free_chain_head [of tab "ie_next (tab ! x)" xs] Cons.IH [of "ie_next (tab ! x)"] by auto
qed simp

lemma rip_not_free:
  assumes "space_ok sp xs s" "index \<notin> set xs" "index \<noteq> 0"
  shows "rip_free_entry sp index gen s = None"
proof -
  have "free_chain (table_of sp s) (ie_next (table_of sp s ! 0)) xs"
    using assms(1) by (simp add: space_ok_def free_list_def)
  from free_chain_head [OF this] free_chain_next [OF this]
  have closed: "ie_next (table_of sp s ! b) \<in> insert 0 (set xs)" if "b \<in> insert 0 (set xs)" for b
    using that by blast
  have "free_before (table_of sp s) index 0 = None"
  proof (cases "free_before (table_of sp s) index 0")
    case (Some r)
    from free_before_inv [OF this, of "insert 0 (set xs)"] closed have
      "\<exists>b \<in> insert 0 (set xs). ie_next (table_of sp s ! b) = index" by blast
    with closed assms(2,3) show ?thesis by (metis insert_iff)
  qed
  then show ?thesis by (simp add: rip_free_entry_def)
qed

lemma alloc_name_hangs:
  assumes "space_ok sp xs s" "index \<notin> set xs" "0 < index" "index < length (table_of sp s)"
    and "IE_BITS_TYPE (ie_bits (table_of sp s ! index)) = 0"
  shows "ipc_entry_alloc_name sp (int index) s = None"
proof -
  have "is_active (spaces s sp)" "is_table_size (spaces s sp) = length (table_of sp s)" "index < 2 ^ 31"
    using assms(1,4) by (auto simp: space_ok_def)
  then have "alloc_name_turn sp (int index) 0 s = None"
    using assms rip_not_free [OF assms(1,2)] by (simp add: alloc_name_turn_def Let_def)
  then have "alloc_name_loop sp (int index) 0 s = None"
    by (subst alloc_name_loop.simps) simp
  then show ?thesis by (simp add: ipc_entry_alloc_name_def)
qed

section \<open>Growing\<close>

lemma rehash_none:
  "(\<And>i. i \<in> set is \<Longrightarrow> i < length (table_of sp s) \<and> IE_BITS_TYPE (ie_bits (table_of sp s ! i)) \<noteq> MACH_PORT_TYPE_SEND) \<Longrightarrow>
   rehash sp is s = Some s"
  by (induction "is") auto

lemma free_new_fold:
  assumes "a \<le> sz" "free_chain tab f xs" "\<forall>x \<in> set xs. x < a" "0 < a" "sz \<le> length tab"
    and "\<forall>i. a \<le> i \<longrightarrow> i < sz \<longrightarrow> ie_bits (tab ! i) = 0 \<longrightarrow> ie_object (tab ! i) = 0"
  defines "r \<equiv> fold free_entry_step (rev [a..<sz]) (tab, f)"
  shows "free_chain (fst r) (snd r) (filter (\<lambda>i. ie_bits (tab ! i) = 0) [a..<sz] @ xs) \<and>
    length (fst r) = length tab \<and> (\<forall>i < a. fst r ! i = tab ! i) \<and>
    (\<forall>i < length tab. ie_bits (fst r ! i) = ie_bits (tab ! i) \<and> ie_object (fst r ! i) = ie_object (tab ! i) \<and>
      ie_index (fst r ! i) = ie_index (tab ! i))"
  unfolding r_def using assms(1,3,4,6)
proof (induction rule: inc_induct)
  case base
  then show ?case using assms(2) by simp
next
  case (step n)
  define q where "q = fold free_entry_step (rev [Suc n..<sz]) (tab, f)"
  have q: "free_chain (fst q) (snd q) (filter (\<lambda>i. ie_bits (tab ! i) = 0) [Suc n..<sz] @ xs)"
    "length (fst q) = length tab" "\<forall>i < Suc n. fst q ! i = tab ! i"
    "\<forall>i < length tab. ie_bits (fst q ! i) = ie_bits (tab ! i) \<and> ie_object (fst q ! i) = ie_object (tab ! i) \<and>
      ie_index (fst q ! i) = ie_index (tab ! i)"
  proof -
    have "\<forall>x \<in> set xs. x < Suc n"
      "\<forall>i. Suc n \<le> i \<longrightarrow> i < sz \<longrightarrow> ie_bits (tab ! i) = 0 \<longrightarrow> ie_object (tab ! i) = 0"
      using step.prems by (auto dest: less_SucI)
    from step.IH [OF this(1) zero_less_Suc this(2)]
    show "free_chain (fst q) (snd q) (filter (\<lambda>i. ie_bits (tab ! i) = 0) [Suc n..<sz] @ xs)"
      "length (fst q) = length tab" "\<forall>i < Suc n. fst q ! i = tab ! i"
      "\<forall>i < length tab. ie_bits (fst q ! i) = ie_bits (tab ! i) \<and> ie_object (fst q ! i) = ie_object (tab ! i) \<and>
      ie_index (fst q ! i) = ie_index (tab ! i)"
      unfolding q_def by blast+
  qed
  have r: "fold free_entry_step (rev [n..<sz]) (tab, f) = free_entry_step n q"
    using step.hyps by (simp add: q_def upt_conv_Cons)
  obtain tb g where qq: "q = (tb, g)" by (cases q)
  have "n < length tab" "n \<notin> set xs" using step.hyps step.prems assms(5) by auto
  then show ?case
    unfolding r using q step.prems step.hyps
    by (auto simp: qq free_entry_step_def upt_conv_Cons free_chain_other nth_list_update IE_BITS_GEN_MASK_def)
qed

lemma free_new_entries_ok:
  assumes "free_list tab xs" "\<forall>x \<in> set xs. x < osize" "0 < osize" "osize \<le> sz" "sz \<le> length tab"
    and "\<forall>i. osize \<le> i \<longrightarrow> i < sz \<longrightarrow> ie_bits (tab ! i) = 0 \<longrightarrow> ie_object (tab ! i) = 0"
  shows "free_list (free_new_entries osize sz tab) (filter (\<lambda>i. ie_bits (tab ! i) = 0) [osize..<sz] @ xs)"
    and "length (free_new_entries osize sz tab) = length tab"
    and "i < length tab \<Longrightarrow> ie_bits (free_new_entries osize sz tab ! i) = ie_bits (tab ! i) \<and>
      ie_object (free_new_entries osize sz tab ! i) = ie_object (tab ! i) \<and>
      ie_index (free_new_entries osize sz tab ! i) = ie_index (tab ! i)"
proof -
  obtain tb g where r: "fold free_entry_step (rev [osize..<sz]) (tab, ie_next (tab ! 0)) = (tb, g)"
    by (cases "fold free_entry_step (rev [osize..<sz]) (tab, ie_next (tab ! 0))")
  have xs: "free_chain tab (ie_next (tab ! 0)) xs" "distinct xs" using assms(1) by (auto simp: free_list_def)
  note f = free_new_fold [OF assms(4) xs(1) assms(2,3,5,6), unfolded r fst_conv snd_conv]
  have eq: "free_new_entries osize sz tab = tb[0 := (tb ! 0)\<lparr>ie_next := g\<rparr>]"
    by (simp add: free_new_entries_def r)
  have "0 \<notin> set xs" using free_chain_members [OF xs(1)] by auto
  then have "0 \<notin> set (filter (\<lambda>i. ie_bits (tab ! i) = 0) [osize..<sz] @ xs)"
    using assms(3) by auto
  moreover have "distinct (filter (\<lambda>i. ie_bits (tab ! i) = 0) [osize..<sz] @ xs)"
    using xs(2) assms(2) by auto
  moreover have "tb \<noteq> []" "0 < length tb" using f assms(3-5) by auto
  ultimately show "free_list (free_new_entries osize sz tab) (filter (\<lambda>i. ie_bits (tab ! i) = 0) [osize..<sz] @ xs)"
    using f unfolding eq by (simp add: free_list_def free_chain_other)
  show "length (free_new_entries osize sz tab) = length tab"
    using f by (simp add: eq)
  show "i < length tab \<Longrightarrow> ie_bits (free_new_entries osize sz tab ! i) = ie_bits (tab ! i) \<and>
      ie_object (free_new_entries osize sz tab ! i) = ie_object (tab ! i) \<and>
      ie_index (free_new_entries osize sz tab ! i) = ie_index (tab ! i)"
    using f by (cases "i = 0") (auto simp: eq nth_list_update)
qed

lemma upd_space_twice: "upd_space sp f (upd_space sp g s) = upd_space sp (\<lambda>x. f (g x)) s"
  by (simp add: upd_space_def)

lemma upd_space_cong: "f (spaces s sp) = g (spaces s sp) \<Longrightarrow> upd_space sp f s = upd_space sp g s"
  by (simp add: upd_space_def)

lemma upd_space_more [simp]:
  "tents (upd_space sp f s) = tents s" "ite_zone (upd_space sp f t) = ite_zone t"
  "table_memory (upd_space sp f t) = table_memory t" "space_zone (upd_space sp f t) = space_zone t"
  by (simp_all add: upd_space_def)

text \<open>The entries that hold send rights, and that no two of them are for one object.\<close>

definition sends :: "ipc_entry list \<Rightarrow> nat set" where
  "sends tab = {i. i < length tab \<and> IE_BITS_TYPE (ie_bits (tab ! i)) = MACH_PORT_TYPE_SEND}"

definition sends_ok :: "ipc_entry list \<Rightarrow> bool" where
  "sends_ok tab \<longleftrightarrow> 0 \<notin> sends tab \<and> (\<forall>i \<in> sends tab. ie_object (tab ! i) \<noteq> 0) \<and>
     inj_on (\<lambda>i. ie_object (tab ! i)) (sends tab)"

lemma contents_bits: "contents t' = contents t \<Longrightarrow> i < length t \<Longrightarrow> ie_bits (t' ! i) = ie_bits (t ! i)"
proof -
  assume eq: "contents t' = contents t" and "i < length t"
  moreover have "ie_bits (contents r ! i) = ie_bits (r ! i)" if "i < length r" for r
    using that by (simp add: contents_def)
  ultimately show ?thesis using contents_length [OF eq] by metis
qed

lemma local_insert_frame:
  "ipc_hash_local_insert sp obj i e s = Some s' \<Longrightarrow> \<exists>t. s' = upd_space sp (\<lambda>x. x\<lparr>is_table := t\<rparr>) s"
  by (auto simp: ipc_hash_local_insert_def Option.bind_eq_Some_conv Let_def)

lemma rehash_ok:
  assumes "space_table_ok sp s" "contents (table_of sp s) = contents tab" "sends_ok tab"
    and "distinct is" "set is \<subseteq> {..<length tab}" "hashed (table_of sp s) \<subseteq> sends tab"
    and "hashed (table_of sp s) \<inter> set is = {}"
  shows "\<exists>t. rehash sp is s = Some (upd_space sp (\<lambda>x. x\<lparr>is_table := t\<rparr>) s) \<and> lhash_inv t \<and>
    contents t = contents tab \<and> hashed t = hashed (table_of sp s) \<union> (sends tab \<inter> set is)"
  using assms
proof (induction "is" arbitrary: s)
  case Nil
  then show ?case
    by (auto simp: upd_space_def space_table_ok_def intro!: exI [of _ "table_of sp s"])
next
  case (Cons i js)
  let ?t = "table_of sp s"
  have i: "i < length ?t" "ie_bits (?t ! i) = ie_bits (tab ! i)" "obj_of ?t i = obj_of tab i"
    using Cons.prems(2,5) contents_length [OF Cons.prems(2)] contents_bits [OF Cons.prems(2)]
      contents_obj [OF Cons.prems(2)] by auto
  show ?case
  proof (cases "i \<in> sends tab")
    case False
    then have "IE_BITS_TYPE (ie_bits (?t ! i)) \<noteq> MACH_PORT_TYPE_SEND"
      using i Cons.prems(5) by (auto simp: sends_def)
    with i Cons.IH [OF Cons.prems(1-3)] Cons.prems(4-7) False show ?thesis by simp
  next
    case True
    then have send: "IE_BITS_TYPE (ie_bits (?t ! i)) = MACH_PORT_TYPE_SEND" "0 < i" "obj_of ?t i \<noteq> 0"
      using i Cons.prems(3) by (auto simp: sends_def sends_ok_def obj_of_def intro: gr0I)
    have "\<forall>j \<in> hashed ?t. obj_of ?t j \<noteq> obj_of ?t i"
    proof
      fix j assume j: "j \<in> hashed ?t"
      then have "j \<in> sends tab" "j \<noteq> i" using Cons.prems(6,7) by auto
      moreover have "obj_of ?t j = obj_of tab j"
        using hashed_bound [of ?t j] j Cons.prems(1) contents_obj [OF Cons.prems(2)]
        by (simp add: space_table_ok_def)
      ultimately show "obj_of ?t j \<noteq> obj_of ?t i"
        using True Cons.prems(3) i(3) by (auto simp: sends_ok_def inj_on_def obj_of_def)
    qed
    from space_insert [OF Cons.prems(1) send(2) i(1) send(3) this] obtain s1 where
      s1: "ipc_hash_local_insert sp (obj_of ?t i) i (Tab i) s = Some s1" "space_table_ok sp s1"
      "hashed (table_of sp s1) = insert i (hashed ?t)" "contents (table_of sp s1) = contents ?t" by blast
    obtain u where u: "s1 = upd_space sp (\<lambda>x. x\<lparr>is_table := u\<rparr>) s"
      using local_insert_frame [OF s1(1)] by blast
    from Cons.IH [OF s1(2)] Cons.prems s1(3,4) True obtain t where
      "rehash sp js s1 = Some (upd_space sp (\<lambda>x. x\<lparr>is_table := t\<rparr>) s1)" "lhash_inv t"
      "contents t = contents tab" "hashed t = hashed (table_of sp s1) \<union> (sends tab \<inter> set js)"
      by auto
    with s1 send i True show ?thesis
      by (intro exI [of _ t]) (auto simp: u upd_space_twice obj_of_def)
  qed
qed

text \<open>A fresh hash table, and the table a growth starts with.\<close>

lemma lhash_inv_fresh: "tab \<noteq> [] \<Longrightarrow> (\<And>e. e \<in> set tab \<Longrightarrow> ie_index e = 0) \<Longrightarrow> lhash_inv tab \<and> hashed tab = {}"
proof -
  assume tab: "tab \<noteq> []" "\<And>e. e \<in> set tab \<Longrightarrow> ie_index e = 0"
  then have zero: "slot tab h = 0" if "h < length tab" for h
    using that by (simp add: slot_def)
  then have "hashed tab = {}" by (auto simp: hashed_def)
  moreover have "slots_ok tab {}" using zero tab(1) by (auto simp: slots_ok_def)
  ultimately show ?thesis using tab(1) by (simp add: lhash_inv_def)
qed

definition grown :: "nat \<Rightarrow> ipc_entry list \<Rightarrow> ipc_entry list" where
  "grown sz tab = map (\<lambda>e. e\<lparr>ie_index := 0\<rparr>) tab @ replicate (sz - length tab) zero_entry"

lemma grown_simps [simp]:
  "length tab \<le> sz \<Longrightarrow> length (grown sz tab) = sz"
  "i < length tab \<Longrightarrow> grown sz tab ! i = (tab ! i)\<lparr>ie_index := 0\<rparr>"
  "length tab \<le> i \<Longrightarrow> i < sz \<Longrightarrow> grown sz tab ! i = zero_entry"
  by (auto simp: grown_def nth_append)

lemma grown_sends: "length tab \<le> sz \<Longrightarrow> sends (grown sz tab) = sends tab"
proof -
  assume le: "length tab \<le> sz"
  have "IE_BITS_TYPE (ie_bits (grown sz tab ! i)) = (if i < length tab then IE_BITS_TYPE (ie_bits (tab ! i)) else 0)"
    if "i < sz" for i
    using that by (auto simp: zero_entry_def IE_BITS_TYPE_def)
  with le show ?thesis by (auto simp: sends_def MACH_PORT_TYPE_SEND_def split: if_splits)
qed

lemma grown_fresh: "tab \<noteq> [] \<Longrightarrow> lhash_inv (grown sz tab) \<and> hashed (grown sz tab) = {}"
  by (rule lhash_inv_fresh) (auto simp: grown_def zero_entry_def)

lemma grown_free: "length tab \<le> sz \<Longrightarrow> free_list tab xs \<Longrightarrow> free_list (grown sz tab) xs"
proof -
  assume le: "length tab \<le> sz"
  have "free_chain tab a ys \<Longrightarrow> free_chain (grown sz tab) a ys" for a ys
    using le by (induction ys arbitrary: a) auto
  then show "free_list tab xs \<Longrightarrow> free_list (grown sz tab) xs"
    using le grown_simps(2) [of 0 tab sz] by (auto simp: free_list_def simp flip: length_greater_0_conv)
qed

lemma free_chain_contents:
  "length t' = length t \<Longrightarrow> (\<And>i. i < length t \<Longrightarrow> ie_bits (t' ! i) = ie_bits (t ! i) \<and> ie_object (t' ! i) = ie_object (t ! i) \<and>
     ie_next (t' ! i) = ie_next (t ! i)) \<Longrightarrow> free_chain t' a xs = free_chain t a xs"
  by (induction xs arbitrary: a) auto

lemma contents_next: "contents t' = contents t \<Longrightarrow> i < length t \<Longrightarrow> ie_next (t' ! i) = ie_next (t ! i)"
proof -
  assume eq: "contents t' = contents t" and "i < length t"
  moreover have "ie_next (contents r ! i) = ie_next (r ! i)" if "i < length r" for r
    using that by (simp add: contents_def)
  ultimately show ?thesis using contents_length [OF eq] by metis
qed

lemma contents_free: "contents t' = contents t \<Longrightarrow> free_list t xs \<Longrightarrow> free_list t' xs"
proof -
  assume eq: "contents t' = contents t"
  note len = contents_length [OF eq]
  have "free_chain t' a xs = free_chain t a xs" for a
    using len contents_bits [OF eq] contents_next [OF eq] contents_obj [OF eq]
    by (intro free_chain_contents) (auto simp: obj_of_def)
  then show "free_list t xs \<Longrightarrow> free_list t' xs"
    using len contents_next [OF eq, of 0] by (auto simp: free_list_def)
qed

section \<open>Growing a space without tree entries\<close>

text \<open>The hash table is in the indices and the objects only.\<close>

lemma lhash_cong:
  assumes "length t' = length t" "\<And>i. i < length t \<Longrightarrow> ie_index (t' ! i) = ie_index (t ! i)"
    and "\<And>i. i < length t \<Longrightarrow> ie_object (t' ! i) = ie_object (t ! i)" "lhash_inv t"
  shows "lhash_inv t' \<and> hashed t' = hashed t"
proof -
  have slot: "slot t' h = slot t h" if "h < length t" for h using assms(2) that by (simp add: slot_def)
  have obj: "obj_of t' i = obj_of t i" "home t' i = home t i" if "i < length t" for i
    using assms(1,3) that by (simp_all add: obj_of_def home_def)
  have hashed: "hashed t' = hashed t" using slot assms(1) by (auto simp: hashed_def)
  moreover have "slots_ok t' {}"
  proof -
    have ok: "slots_ok t {}" using assms(4) by (simp add: lhash_inv_def)
    have less: "slot t h < length t" if "h < length t" for h using slots_okD(1) [OF ok that] by simp
    show ?thesis
      unfolding slots_ok_def assms(1)
    proof (intro conjI allI impI)
      fix h h' s assume h: "h < length t"
      show "slot t' h < length t" using less [OF h] slot [OF h] by simp
      show "h = h'" if "h' < length t" "slot t' h \<noteq> 0" "slot t' h = slot t' h'"
        using slots_ok_inj [OF ok h that(1)] that slot h by simp
      show "obj_of t' (slot t' h) \<noteq> 0" if "slot t' h \<noteq> 0"
        using slots_okD(2) [OF ok h] that slot [OF h] obj(1) [OF less [OF h]] by simp
      show "s \<in> {} \<or> slot t' s \<noteq> 0" if "slot t' h \<noteq> 0" "s < length t" "inside (home t' (slot t' h)) s h"
        using slots_okD(3) [OF ok h] that slot [OF h] slot [OF that(2)] obj(2) [OF less [OF h]] by simp
    qed
  qed
  moreover have "inj_on (obj_of t') (hashed t')"
    unfolding hashed using assms(4) hashed_bound [OF assms(4)] obj(1) by (auto simp: lhash_inv_def inj_on_def)
  ultimately show ?thesis using assms(1,4) by (auto simp: lhash_inv_def)
qed

text \<open>The place in the growth schedule a space is at: the size it has, the next one and the one after.\<close>

definition stage :: "nat \<Rightarrow> nat \<Rightarrow> nat \<Rightarrow> 'a ipcs_scheme \<Rightarrow> bool" where
  "stage sp sz nsize s \<longleftrightarrow>
     (let its = is_table_next (spaces s sp)
      in 0 < its \<and> its_size (its - 1) = Some (length (table_of sp s)) \<and> its_size its = Some sz \<and>
         its_size (its + 1) = Some nsize \<and> length (table_of sp s) < sz \<and> sz \<le> nsize)"

lemma grow_ok:
  assumes "space_ok sp xs s" "stage sp sz nsize s" "sends_ok (table_of sp s)" "sp \<noteq> 0"
    and "is_tree_total (spaces s sp) = 0" "is_tree_small (spaces s sp) = 0"
    and "table_memory s = True # ms" "\<not> it_entries_reallocable (length (table_of sp s))" "sz \<le> 65536"
  defines "osize \<equiv> length (table_of sp s)"
  shows "\<exists>tab. ipc_entry_grow_table sp s = Some (KERN_SUCCESS,
      upd_space sp (\<lambda>x. x\<lparr>is_table := tab, is_table_size := sz, is_table_next := is_table_next x + 1\<rparr>)
        (s\<lparr>table_memory := ms\<rparr>)) \<and>
    length tab = sz \<and> free_list tab ([osize..<sz] @ xs) \<and>
    (\<forall>i < sz. ie_bits (tab ! i) = (if i < osize then ie_bits (table_of sp s ! i) else 0) \<and>
      ie_object (tab ! i) = (if i < osize then ie_object (table_of sp s ! i) else 0)) \<and>
    lhash_inv tab \<and> hashed tab = sends (table_of sp s)"
proof -
  let ?t = "table_of sp s" and ?its = "is_table_next (spaces s sp)"
  have sp: "is_active (spaces s sp)" "\<not> is_growing (spaces s sp)" "is_table_size (spaces s sp) = osize"
    "?t \<noteq> []" "free_list ?t xs" "0 < osize" "osize \<le> 65536"
    using assms(1) by (auto simp: space_ok_def free_list_def osize_def)
  have st: "0 < ?its" "its_size (?its - 1) = Some osize" "its_size ?its = Some sz"
    "its_size (?its + 1) = Some nsize" "osize < sz" "sz \<le> nsize"
    using assms(2) by (auto simp: stage_def Let_def osize_def)
  define s1 where "s1 = upd_space sp (\<lambda>x. x\<lparr>is_table := grown sz ?t, is_table_size := sz, is_table_next := ?its + 1\<rparr>)
    (s\<lparr>table_memory := ms\<rparr>)"
  have t1: "table_of sp s1 = grown sz ?t" by (simp add: s1_def)
  have "space_table_ok sp s1"
    using grown_fresh [OF sp(4), of sz] st(5) assms(4) sp(3) by (simp add: s1_def space_table_ok_def osize_def)
  moreover have "sends_ok (grown sz ?t)"
    using assms(3) grown_sends [of ?t sz] st(5) by (auto simp: sends_ok_def osize_def inj_on_def sends_def)
  moreover have "set [0..<osize] \<subseteq> {..<length (grown sz ?t)}" using st(5) by (auto simp: osize_def)
  moreover have "sends ?t \<inter> set [0..<osize] = sends ?t" by (auto simp: sends_def osize_def)
  ultimately obtain u where u: "rehash sp [0..<osize] s1 = Some (upd_space sp (\<lambda>x. x\<lparr>is_table := u\<rparr>) s1)"
    "contents u = contents (grown sz ?t)" "lhash_inv u" "hashed u = sends ?t"
    using rehash_ok [of sp s1 "grown sz ?t" "[0..<osize]"] grown_fresh [OF sp(4), of sz]
      grown_sends [of ?t sz] st(5)
    by (auto simp: t1 osize_def)
  have len: "length u = sz" using contents_length [OF u(2)] st(5) by (simp add: osize_def)
  have bits: "ie_bits (u ! i) = (if i < osize then ie_bits (?t ! i) else 0) \<and>
    ie_object (u ! i) = (if i < osize then ie_object (?t ! i) else 0)" if "i < sz" for i
    using that contents_bits [OF u(2), of i] contents_obj [OF u(2), of i] st(5) len
    by (cases "i < osize") (simp_all add: osize_def obj_of_def zero_entry_def)
  have free: "free_list u xs"
    using contents_free [OF u(2)] grown_free [OF _ sp(5), of sz] st(5) by (simp add: osize_def)
  have below: "\<forall>x \<in> set xs. x < osize"
    using sp(5) free_chain_members by (auto simp: free_list_def osize_def)
  have new: "\<forall>i. osize \<le> i \<longrightarrow> i < sz \<longrightarrow> ie_bits (u ! i) = 0 \<longrightarrow> ie_object (u ! i) = 0"
    using bits by simp
  define v where "v = free_new_entries osize sz u"
  note fn = free_new_entries_ok [OF free below sp(6) less_imp_le [OF st(5)] _ new, unfolded len, OF order_refl,
      folded v_def]
  have all: "filter (\<lambda>i. ie_bits (u ! i) = 0) [osize..<sz] = [osize..<sz]"
    using bits by (intro filter_True) simp
  have "grow_once sp s = Some (KERN_SUCCESS, False, upd_space sp (\<lambda>x. x\<lparr>is_table := v\<rparr>) (upd_space sp (\<lambda>x. x\<lparr>is_table := u\<rparr>) s1))"
    using sp st assms(5-8) u(1)
    by (simp add: grow_once_def Let_def it_entries_alloc_def osize_def grown_def s1_def v_def upd_space_twice)
  then have "ipc_entry_grow_table sp s = Some (KERN_SUCCESS, upd_space sp (\<lambda>x. x\<lparr>is_table := v, is_table_size := sz,
      is_table_next := is_table_next x + 1\<rparr>) (s\<lparr>table_memory := ms\<rparr>))"
    by (subst ipc_entry_grow_table.simps) (auto simp: s1_def upd_space_twice intro: upd_space_cong)
  moreover have "lhash_inv v \<and> hashed v = sends ?t"
    using lhash_cong [of v u] fn(2,3) u(3,4) by (simp add: len)
  ultimately show ?thesis using fn bits all by (intro exI [of _ v]) (simp add: len)
qed

text \<open>The next growth reallocates, and then frees the table it has already given back.\<close>

lemma grow_double_free:
  assumes "it_entries_reallocable (length (table_of sp s))" "stage sp sz nsize s"
    and "is_table_size (spaces s sp) = length (table_of sp s)"
  shows "ipc_entry_grow_table sp s =
    (if is_active (spaces s sp) \<and> \<not> is_growing (spaces s sp) \<and> (\<nexists>ms. table_memory s = True # ms)
     then Some (KERN_RESOURCE_SHORTAGE, snd (it_entries_alloc s)) else None)"
proof -
  have st: "0 < is_table_next (spaces s sp)" "its_size (is_table_next (spaces s sp) - 1) = Some (length (table_of sp s))"
    "its_size (is_table_next (spaces s sp)) = Some sz" "its_size (is_table_next (spaces s sp) + 1) = Some nsize"
    "length (table_of sp s) < sz" "sz \<le> nsize"
    using assms(2) by (auto simp: stage_def Let_def)
  show ?thesis
  proof (cases "is_active (spaces s sp) \<and> \<not> is_growing (spaces s sp)")
    case False
    then show ?thesis by (subst ipc_entry_grow_table.simps) (auto simp: grow_once_def)
  next
    case True
    show ?thesis
    proof (cases "fst (it_entries_alloc s)")
      case True
      then obtain ms where "table_memory s = True # ms"
        by (auto simp: it_entries_alloc_def split: list.splits)
      then have "grow_once sp s = None"
        using assms(1,3) st
        by (auto simp: grow_once_def Let_def it_entries_alloc_def Option.bind_eq_None_conv)
      with \<open>table_memory s = True # ms\<close> show ?thesis by (subst ipc_entry_grow_table.simps) simp
    next
      case False
      then have "\<nexists>ms. table_memory s = True # ms" by (auto simp: it_entries_alloc_def)
      with False True assms(3) st show ?thesis
        by (subst ipc_entry_grow_table.simps) (simp add: grow_once_def Let_def case_prod_unfold)
    qed
  qed
qed

section \<open>Allocations one after the other\<close>

lemma alloc_get:
  "space_ok sp (x # xs) s \<Longrightarrow> ipc_entry_alloc sp s = Some (KERN_SUCCESS, int x, x, pop_free sp x s)"
  by (subst ipc_entry_alloc.simps) (simp add: get_some, simp add: space_ok_def)

fun alloc_run :: "nat \<Rightarrow> nat \<Rightarrow> 'a ients_scheme \<Rightarrow> (mach_port_t list \<times> 'a ients_scheme) option" where
  "alloc_run 0 sp s = Some ([], s)"
| "alloc_run (Suc n) sp s = do {
     (kr, name, entry, s) \<leftarrow> ipc_entry_alloc sp s;
     c_assert (kr = KERN_SUCCESS);
     (names, s) \<leftarrow> alloc_run n sp s;
     Some (name # names, s)
   }"

lemma pop_free_simps [simp]:
  "is_table_next (spaces (pop_free sp x s) sp) = is_table_next (spaces s sp)"
  "is_table_size (spaces (pop_free sp x s) sp) = is_table_size (spaces s sp)"
  "is_tree_total (spaces (pop_free sp x s) sp) = is_tree_total (spaces s sp)"
  "is_tree_small (spaces (pop_free sp x s) sp) = is_tree_small (spaces s sp)"
  "is_tree (spaces (pop_free sp x s) sp) = is_tree (spaces s sp)"
  "length (table_of sp (pop_free sp x s)) = length (table_of sp s)"
  "tents (pop_free sp x s) = tents s"
  by (simp_all add: pop_free_def)

lemma pop_free_memory [simp]: "table_memory (pop_free sp x s) = table_memory s"
  by (simp add: pop_free_def upd_ent_def)

lemma alloc_run_free:
  "space_ok sp (ys @ xs) s \<Longrightarrow> \<exists>s'. alloc_run (length ys) sp s = Some (map int ys, s') \<and> space_ok sp xs s' \<and>
     is_table_next (spaces s' sp) = is_table_next (spaces s sp) \<and> is_table_size (spaces s' sp) = is_table_size (spaces s sp) \<and>
     length (table_of sp s') = length (table_of sp s) \<and> table_memory s' = table_memory s"
proof (induction ys arbitrary: s)
  case (Cons y ys)
  from Cons.IH [OF pop_free_ok [OF Cons.prems [simplified]]] show ?case
    using alloc_get [OF Cons.prems [simplified]] by auto
qed simp

text \<open>A full table that can still grow: the allocation grows it and takes the first new entry.\<close>

lemma alloc_grow:
  assumes "space_ok sp [] s" "ipc_entry_grow_table sp s = Some (KERN_SUCCESS, s')" "space_ok sp (x # xs) s'"
  shows "ipc_entry_alloc sp s = Some (KERN_SUCCESS, int x, x, pop_free sp x s')"
proof -
  have "is_active (spaces s sp)" using assms(1) by (simp add: space_ok_def)
  with get_none [OF assms(1)] assms(2) alloc_get [OF assms(3)] show ?thesis
    by (subst ipc_entry_alloc.simps) simp
qed

lemma alloc_full_none:
  assumes "space_ok sp [] s" "ipc_entry_grow_table sp s = None"
  shows "ipc_entry_alloc sp s = None"
  using get_none [OF assms(1)] assms by (subst ipc_entry_alloc.simps) (simp add: space_ok_def)

lemma alloc_full_shortage:
  assumes "space_ok sp [] s" "ipc_entry_grow_table sp s = Some (KERN_RESOURCE_SHORTAGE, s')"
  shows "ipc_entry_alloc sp s = Some (KERN_RESOURCE_SHORTAGE, 0, 0, s')"
  using get_none [OF assms(1)] assms by (subst ipc_entry_alloc.simps) (simp add: space_ok_def)

section \<open>A new space\<close>

lemma its_sizes [simp]: "its_size 0 = Some 64" "its_size (Suc 0) = Some 128" "its_size 2 = Some 256" "its_size 3 = Some 512"
  by (simp_all add: its_size_def ipc_table_entries_def)

lemma create_ok:
  assumes "space_zone s = sp # zs" "sp \<noteq> 0" "table_memory s = True # ms"
  shows "\<exists>s'. ipc_space_create 0 s = Some (KERN_SUCCESS, sp, s') \<and> spaces s' sp = new_space 64 0 \<and>
    table_memory s' = ms \<and> ite_zone s' = ite_zone s \<and> tents s' = tents s"
  using assms by (simp add: ipc_space_create_def is_alloc_def it_entries_alloc_def Let_def)

lemma new_space_ok:
  assumes "spaces s sp = new_space 64 0"
  shows "space_ok sp [] s" "stage sp 128 256 s" "sends (table_of sp s) = {}" "is_tree_total (spaces s sp) = 0"
    "is_tree_small (spaces s sp) = 0" "length (table_of sp s) = 64"
  using assms
  by (auto simp: space_ok_def free_list_def new_space_def zero_entry_def stage_def Let_def sends_def IE_BITS_TYPE_def
      MACH_PORT_TYPE_SEND_def numeral_2_eq_2 [symmetric])

text \<open>Sixty-four allocations, and the one after them.\<close>

lemma new_space_run:
  assumes "spaces s sp = new_space 64 0" "sp \<noteq> 0" "table_memory s = True # ms" "0 < k" "k \<le> 64"
  shows "\<exists>s'. alloc_run k sp s = Some (map int [64..<64 + k], s') \<and> space_ok sp [64 + k..<128] s' \<and>
    stage sp 256 512 s' \<and> length (table_of sp s') = 128 \<and> table_memory s' = ms"
proof -
  note new = new_space_ok [OF assms(1)]
  have "sends_ok (table_of sp s)" using new(3) by (simp add: sends_ok_def)
  from grow_ok [OF new(1,2) this assms(2) new(4,5) assms(3)] new(6) obtain tab where
    g: "ipc_entry_grow_table sp s = Some (KERN_SUCCESS,
      upd_space sp (\<lambda>x. x\<lparr>is_table := tab, is_table_size := 128, is_table_next := is_table_next x + 1\<rparr>)
        (s\<lparr>table_memory := ms\<rparr>))" (is "_ = Some (_, ?s1)")
    and tab: "length tab = 128" "free_list tab [64..<128]"
    by (auto simp: it_entries_reallocable_def PAGE_SIZE_def sizeof_ipc_entry_def)
  have "is_active (spaces s sp)" "\<not> is_growing (spaces s sp)" using new(1) by (auto simp: space_ok_def)
  with tab have ok: "space_ok sp [64..<128] ?s1" by (simp add: space_ok_def)
  then have ok': "space_ok sp (64 # [65..<128]) ?s1" by (simp add: upt_conv_Cons)
  note alloc = alloc_grow [OF new(1) g ok']
  obtain j where j: "k = Suc j" using assms(4) by (cases k) auto
  have "[65..<128] = [65..<65 + j] @ [65 + j..<128]"
    using upt_add_eq_append [of 65 "65 + j" "63 - j"] assms(5) j by simp
  with pop_free_ok [OF ok'] have "space_ok sp ([65..<65 + j] @ [65 + j..<128]) (pop_free sp 64 ?s1)" by simp
  from alloc_run_free [OF this] obtain s' where
    s': "alloc_run j sp (pop_free sp 64 ?s1) = Some (map int [65..<65 + j], s')"
    "space_ok sp [65 + j..<128] s'" "is_table_next (spaces s' sp) = 2" "length (table_of sp s') = 128"
    "table_memory s' = ms"
    using tab(1) assms(1) by (auto simp: new_space_def)
  then have "alloc_run k sp s = Some (map int [64..<64 + k], s')"
    using alloc by (simp add: j upt_conv_Cons)
  with s' show ?thesis
    by (auto simp: stage_def Let_def j numeral_3_eq_3 [symmetric] simp flip: numeral_2_eq_2)
qed

section \<open>Names in the tree\<close>

definition tree_ok :: "nat \<Rightarrow> 'a ipcs_scheme \<Rightarrow> bool" where
  "tree_ok sp s \<longleftrightarrow>
     splay_inv (is_tree (spaces s sp)) \<and> is_tree_total (spaces s sp) = length (entries (is_tree (spaces s sp))) \<and>
     (\<forall>name e. tree_map (is_tree (spaces s sp)) name = Some e \<longrightarrow>
        te_space (tents s e) = sp \<and> IE_BITS_TYPE (te_bits (tents s e)) \<noteq> 0)"

text \<open>What a name means in a space: the entry it denotes.\<close>

definition space_map :: "nat \<Rightarrow> 'a ipcs_scheme \<Rightarrow> mach_port_t \<Rightarrow> entry_ref option" where
  "space_map sp s name =
     (let i = MACH_PORT_INDEX name
      in if i < length (table_of sp s)
         then (if IE_BITS_TYPE (ie_bits (table_of sp s ! i)) = 0 then None else Some (Tab i))
         else map_option Tree (tree_map (is_tree (spaces s sp)) name))"

lemma set_tree_simps [simp]:
  "is_tree (spaces (set_tree sp t s) sp) = t" "table_of sp (set_tree sp t s) = table_of sp s"
  "tents (set_tree sp t s) = tents s" "is_active (spaces (set_tree sp t s) sp) = is_active (spaces s sp)"
  "is_growing (spaces (set_tree sp t s) sp) = is_growing (spaces s sp)"
  "is_table_size (spaces (set_tree sp t s) sp) = is_table_size (spaces s sp)"
  "is_table_next (spaces (set_tree sp t s) sp) = is_table_next (spaces s sp)"
  "is_tree_total (spaces (set_tree sp t s) sp) = is_tree_total (spaces s sp)"
  "is_tree_small (spaces (set_tree sp t s) sp) = is_tree_small (spaces s sp)"
  "ite_zone (set_tree sp t r) = ite_zone r"
  by (simp_all add: set_tree_def)

lemma no_entries: "splay_inv t \<Longrightarrow> length (entries t) = 0 \<Longrightarrow> tree_map t = (\<lambda>_. None)"
  by (auto simp: tree_map_def)

lemma set_tree_ok:
  assumes "space_ok sp xs s" "tree_ok sp s" "splay_inv t" "entries t = entries (is_tree (spaces s sp))"
  shows "space_ok sp xs (set_tree sp t s)" "tree_ok sp (set_tree sp t s)" "space_map sp (set_tree sp t s) = space_map sp s"
  using assms by (auto simp: space_ok_def tree_ok_def tree_map_def space_map_def Let_def)

lemma tree_lookup:
  assumes "space_ok sp xs s" "tree_ok sp s"
  shows "\<exists>t. ipc_splay_tree_lookup (is_tree (spaces s sp)) name = Some (t, tree_map (is_tree (spaces s sp)) name) \<and>
    space_ok sp xs (set_tree sp t s) \<and> tree_ok sp (set_tree sp t s) \<and> space_map sp (set_tree sp t s) = space_map sp s \<and>
    tree_map t = tree_map (is_tree (spaces s sp)) \<and> splay_inv t \<and> entries t = entries (is_tree (spaces s sp))"
proof -
  obtain t where "ipc_splay_tree_lookup (is_tree (spaces s sp)) name = Some (t, tree_map (is_tree (spaces s sp)) name)"
    "splay_inv t" "entries t = entries (is_tree (spaces s sp))"
    using lookup_correct assms(2) by (force simp: tree_ok_def)
  with set_tree_ok [OF assms this(2,3)] show ?thesis by (auto simp: tree_map_def)
qed

lemma entry_lookup:
  assumes "space_ok sp xs s" "tree_ok sp s"
  shows "\<exists>s'. ipc_entry_lookup sp name s = Some (space_map sp s name, s') \<and>
    space_ok sp xs s' \<and> tree_ok sp s' \<and> space_map sp s' = space_map sp s \<and> table_of sp s' = table_of sp s"
proof (cases "MACH_PORT_INDEX name < length (table_of sp s)")
  case True
  then show ?thesis
    using assms by (auto simp: ipc_entry_lookup_def space_map_def Let_def IE_BITS_GEN_def MACH_PORT_GEN_def
        MACH_PORT_TYPE_NONE_def ent_bits_def space_ok_def)
next
  case False
  have act: "is_active (spaces s sp)" "is_table_size (spaces s sp) = length (table_of sp s)"
    using assms(1) by (auto simp: space_ok_def)
  let ?m = "tree_map (is_tree (spaces s sp))"
  have map: "space_map sp s name = map_option Tree (?m name)" using False by (simp add: space_map_def Let_def)
  show ?thesis
  proof (cases "is_tree_total (spaces s sp) = 0")
    case True
    then have "?m name = None" using assms(2) no_entries by (fastforce simp: tree_ok_def)
    with True act False map assms show ?thesis by (simp add: ipc_entry_lookup_def Let_def)
  next
    case total: False
    obtain t where t: "ipc_splay_tree_lookup (is_tree (spaces s sp)) name = Some (t, ?m name)"
      "space_ok sp xs (set_tree sp t s)" "tree_ok sp (set_tree sp t s)" "space_map sp (set_tree sp t s) = space_map sp s"
      using tree_lookup [OF assms] by blast
    have "IE_BITS_TYPE (te_bits (tents s e)) \<noteq> 0" if "?m name = Some e" for e
      using assms(2) that by (auto simp: tree_ok_def)
    with t total act False map show ?thesis
      by (auto simp: ipc_entry_lookup_def entry_tree_lookup_def Let_def ent_bits_def split: option.splits)
  qed
qed

text \<open>A name beyond the table and the size it may grow to next.\<close>

definition far_name :: "nat \<Rightarrow> mach_port_t \<Rightarrow> 'a ipcs_scheme \<Rightarrow> bool" where
  "far_name sp name s \<longleftrightarrow> MACH_PORT_VALID name \<and>
     (\<exists>sz. its_size (is_table_next (spaces s sp)) = Some sz \<and> length (table_of sp s) \<le> sz \<and> sz \<le> MACH_PORT_INDEX name)"

text \<open>The lookup a turn starts with, on a name beyond the table.\<close>

lemma turn_lookup:
  assumes "space_ok sp xs s" "tree_ok sp s"
  shows "\<exists>t. (if 0 < is_tree_total (spaces s sp) then do {
       (tree, e) \<leftarrow> ipc_splay_tree_lookup (is_tree (spaces s sp)) name;
       Some (e, set_tree sp tree s)
     } else Some (None, s)) = Some (tree_map (is_tree (spaces s sp)) name, set_tree sp t s) \<and>
    splay_inv t \<and> entries t = entries (is_tree (spaces s sp))"
proof (cases "0 < is_tree_total (spaces s sp)")
  case True
  obtain t where "ipc_splay_tree_lookup (is_tree (spaces s sp)) name = Some (t, tree_map (is_tree (spaces s sp)) name)"
    "splay_inv t" "entries t = entries (is_tree (spaces s sp))"
    using tree_lookup [OF assms, of name] by blast
  with True show ?thesis by auto
next
  case False
  then have "tree_map (is_tree (spaces s sp)) name = None" using assms(2) no_entries by (fastforce simp: tree_ok_def)
  moreover have "set_tree sp (is_tree (spaces s sp)) s = s" by (simp add: set_tree_def upd_space_def)
  ultimately show ?thesis using False assms(2) by (auto simp: tree_ok_def intro!: exI [of _ "is_tree (spaces s sp)"])
qed

lemma far_turn:
  assumes "space_ok sp xs s" "tree_ok sp s" "far_name sp name s"
  shows "\<exists>t. splay_inv t \<and> entries t = entries (is_tree (spaces s sp)) \<and>
    alloc_name_turn sp name e s =
      (case tree_map (is_tree (spaces s sp)) name of
         Some old \<Rightarrow> Some (Inl (KERN_SUCCESS, Some (Tree old)), set_tree sp t s)
       | None \<Rightarrow>
           if e \<noteq> 0 then map_option (\<lambda>s'. (Inl (KERN_SUCCESS, Some (Tree e)), s'))
             (insert_tree_entry sp name (MACH_PORT_INDEX name) (the (its_size (is_table_next (spaces s sp)))) e (set_tree sp t s))
           else (let (e, s) = ite_alloc (set_tree sp t s)
                 in if e = 0 then Some (Inl (KERN_RESOURCE_SHORTAGE, None), s) else Some (Inr e, s)))"
proof -
  obtain t where t: "(if 0 < is_tree_total (spaces s sp) then do {
       (tree, e) \<leftarrow> ipc_splay_tree_lookup (is_tree (spaces s sp)) name;
       Some (e, set_tree sp tree s)
     } else Some (None, s)) = Some (tree_map (is_tree (spaces s sp)) name, set_tree sp t s)"
    "splay_inv t" "entries t = entries (is_tree (spaces s sp))"
    using turn_lookup [OF assms(1,2)] by blast
  obtain sz where sz: "its_size (is_table_next (spaces s sp)) = Some sz" "length (table_of sp s) \<le> sz"
    "sz \<le> MACH_PORT_INDEX name" using assms(3) by (auto simp: far_name_def)
  have act: "is_active (spaces s sp)" "is_table_size (spaces s sp) = length (table_of sp s)"
    using assms(1) by (auto simp: space_ok_def)
  have "te_space (tents s old) = sp \<and> IE_BITS_TYPE (te_bits (tents s old)) \<noteq> 0"
    if "tree_map (is_tree (spaces s sp)) name = Some old" for old
    using assms(2) that by (auto simp: tree_ok_def)
  then have "alloc_name_turn sp name e s =
      (case tree_map (is_tree (spaces s sp)) name of
         Some old \<Rightarrow> Some (Inl (KERN_SUCCESS, Some (Tree old)), set_tree sp t s)
       | None \<Rightarrow>
           if e \<noteq> 0 then map_option (\<lambda>s'. (Inl (KERN_SUCCESS, Some (Tree e)), s'))
             (insert_tree_entry sp name (MACH_PORT_INDEX name) (the (its_size (is_table_next (spaces s sp)))) e (set_tree sp t s))
           else (let (e, s) = ite_alloc (set_tree sp t s)
                 in if e = 0 then Some (Inl (KERN_RESOURCE_SHORTAGE, None), s) else Some (Inr e, s)))"
    using act sz unfolding alloc_name_turn_def Let_def t(1)
    by (auto simp: map_conv_bind_option comp_def split: option.splits)
  with t(2,3) show ?thesis by blast
qed

lemma far_insert:
  assumes "splay_inv (is_tree (spaces s sp))" "tree_map (is_tree (spaces s sp)) name = None"
    and "is_tree_total (spaces s sp) = length (entries (is_tree (spaces s sp)))"
    and "is_table_size (spaces s sp) \<le> sz" "sz \<le> index"
  shows "\<exists>s'. insert_tree_entry sp name index sz e s = Some s' \<and> splay_inv (is_tree (spaces s' sp)) \<and>
    tree_map (is_tree (spaces s' sp)) = (tree_map (is_tree (spaces s sp)))(name \<mapsto> e) \<and>
    is_tree_total (spaces s' sp) = length (entries (is_tree (spaces s' sp))) \<and>
    tents s' = (tents s)(e := (tents s e)\<lparr>te_name := name, te_bits := 0, te_object := 0, te_request := 0, te_space := sp\<rparr>) \<and>
    (\<forall>xs. space_ok sp xs s \<longrightarrow> space_ok sp xs s') \<and> table_of sp s' = table_of sp s"
proof -
  obtain t where t: "ipc_splay_tree_insert (is_tree (spaces s sp)) name e = Some t" "splay_inv t"
    "tree_map t = (tree_map (is_tree (spaces s sp)))(name \<mapsto> e)"
    "length (entries t) = Suc (length (entries (is_tree (spaces s sp))))"
    using insert_correct [OF assms(1,2)] by blast
  with assms(3-5) show ?thesis
    by (simp add: insert_tree_entry_def Let_def upd_tent_def space_ok_def)
qed

lemma ite_alloc_simps:
  "fst (ite_alloc s) = (case ite_zone s of [] \<Rightarrow> 0 | e # es \<Rightarrow> e)"
  "spaces (snd (ite_alloc s)) = spaces s"
  "ite_zone (snd (ite_alloc s)) = tl (ite_zone s)"
  "fst (ite_alloc s) = 0 \<or> x \<noteq> fst (ite_alloc s) \<Longrightarrow> tents (snd (ite_alloc s)) x = tents s x"
  by (auto simp: ite_alloc_def upd_tent_def split: list.splits)

lemma far_space_map: "far_name sp name s \<Longrightarrow> \<not> MACH_PORT_INDEX name < length (table_of sp s)"
  by (auto simp: far_name_def)

lemma alloc_name_far:
  assumes ok: "space_ok sp xs s" "tree_ok sp s" "far_name sp name s"
    and fresh: "\<forall>n e. tree_map (is_tree (spaces s sp)) n = Some e \<longrightarrow> e \<notin> set (ite_zone s)"
  shows "\<exists>s'. ipc_entry_alloc_name sp name s =
      (case space_map sp s name of
         Some r \<Rightarrow> Some (KERN_SUCCESS, Some r, s')
       | None \<Rightarrow> if ite_zone s = [] \<or> hd (ite_zone s) = 0 then Some (KERN_RESOURCE_SHORTAGE, None, s')
                 else Some (KERN_SUCCESS, Some (Tree (hd (ite_zone s))), s')) \<and>
    space_ok sp xs s' \<and> table_of sp s' = table_of sp s \<and>
    space_map sp s' = (if space_map sp s name = None \<and> ite_zone s \<noteq> [] \<and> hd (ite_zone s) \<noteq> 0
      then (space_map sp s)(name \<mapsto> Tree (hd (ite_zone s))) else space_map sp s)"
proof -
  let ?m = "tree_map (is_tree (spaces s sp))"
  have valid: "MACH_PORT_VALID name" using ok(3) by (simp add: far_name_def)
  have sm: "space_map sp s name = map_option Tree (?m name)"
    using far_space_map [OF ok(3)] by (simp add: space_map_def Let_def)
  obtain t where t: "splay_inv t" "entries t = entries (is_tree (spaces s sp))"
    "alloc_name_turn sp name 0 s =
      (case ?m name of
         Some old \<Rightarrow> Some (Inl (KERN_SUCCESS, Some (Tree old)), set_tree sp t s)
       | None \<Rightarrow> (let (e, s) = ite_alloc (set_tree sp t s)
                 in if e = 0 then Some (Inl (KERN_RESOURCE_SHORTAGE, None), s) else Some (Inr e, s)))"
    using far_turn [OF ok, of 0] by auto
  define s1 where "s1 = set_tree sp t s"
  note s1 = set_tree_ok [OF ok(1,2) t(1,2), folded s1_def]
  have start: "ipc_entry_alloc_name sp name s = alloc_name_loop sp name 0 s"
    using valid by (simp add: ipc_entry_alloc_name_def)
  show ?thesis
  proof (cases "?m name")
    case (Some old)
    with t(3) s1 start sm show ?thesis
      by (subst start, subst alloc_name_loop.simps) (auto simp: s1_def)
  next
    case None
    define e where "e = fst (ite_alloc s1)"
    define s2 where "s2 = snd (ite_alloc s1)"
    have zone: "ite_zone s1 = ite_zone s" by (simp add: s1_def)
    have e: "e = (if ite_zone s = [] then 0 else hd (ite_zone s))"
      by (simp add: e_def ite_alloc_simps zone split: list.splits)
    have sp2: "spaces s2 = spaces s1" by (simp add: s2_def ite_alloc_simps)
    have ok2: "space_ok sp xs s2" "space_map sp s2 = space_map sp s" "table_of sp s2 = table_of sp s"
    proof -
      show "space_ok sp xs s2" "table_of sp s2 = table_of sp s"
        using s1(1) by (simp_all add: space_ok_def sp2 s1_def)
      have "space_map sp s2 = space_map sp s1" by (rule ext) (simp add: space_map_def Let_def sp2)
      then show "space_map sp s2 = space_map sp s" using s1(3) by simp
    qed
    have turn: "alloc_name_turn sp name 0 s =
      (if e = 0 then Some (Inl (KERN_RESOURCE_SHORTAGE, None), s2) else Some (Inr e, s2))"
      using t(3) None by (simp add: e_def s2_def s1_def case_prod_unfold Let_def)
    show ?thesis
    proof (cases "e = 0")
      case True
      then have "ite_zone s = [] \<or> hd (ite_zone s) = 0" using e by (auto split: if_splits)
      with True turn ok2 sm None show ?thesis
        by (subst start, subst alloc_name_loop.simps) auto
    next
      case False
      have e': "ite_zone s \<noteq> []" "e = hd (ite_zone s)" "hd (ite_zone s) \<noteq> 0" using e False by (auto split: if_splits)
      have tree2: "tree_map (is_tree (spaces s2 sp)) = ?m" "splay_inv (is_tree (spaces s2 sp))"
        "is_tree_total (spaces s2 sp) = length (entries (is_tree (spaces s2 sp)))"
        using s1(2) t(2) by (auto simp: sp2 tree_ok_def s1_def tree_map_def)
      have "tree_ok sp s2"
      proof -
        have "tents s2 x = tents s x" if "?m n = Some x" for n x
        proof -
          have "e \<in> set (ite_zone s)" using e'(1,2) by simp
          then have "x \<noteq> e" using fresh that by blast
          then have "tents s2 x = tents s1 x" using ite_alloc_simps(4) [of s1 x] by (simp add: s2_def e_def)
          then show ?thesis by (simp add: s1_def)
        qed
        with ok(2) tree2 show ?thesis by (simp add: tree_ok_def)
      qed
      moreover have "far_name sp name s2" using ok(3) by (simp add: far_name_def sp2 s1_def)
      ultimately obtain u where u: "splay_inv u" "entries u = entries (is_tree (spaces s2 sp))"
        "alloc_name_turn sp name e s2 = map_option (\<lambda>s'. (Inl (KERN_SUCCESS, Some (Tree e)), s'))
          (insert_tree_entry sp name (MACH_PORT_INDEX name) (the (its_size (is_table_next (spaces s2 sp)))) e (set_tree sp u s2))"
        using far_turn [OF ok2(1), of name e] None tree2(1) False by auto
      define sz where "sz = the (its_size (is_table_next (spaces s2 sp)))"
      have sz: "is_table_size (spaces s2 sp) \<le> sz" "sz \<le> MACH_PORT_INDEX name"
        using \<open>far_name sp name s2\<close> ok2(1) by (auto simp: far_name_def sz_def space_ok_def)
      have um: "tree_map u = ?m" using u(2) tree2(1) by (simp add: tree_map_def)
      obtain s3 where s3: "insert_tree_entry sp name (MACH_PORT_INDEX name) sz e (set_tree sp u s2) = Some s3"
        "tree_map (is_tree (spaces s3 sp)) = ?m(name \<mapsto> e)"
        "\<forall>xs. space_ok sp xs (set_tree sp u s2) \<longrightarrow> space_ok sp xs s3" "table_of sp s3 = table_of sp s2"
        using far_insert [of "set_tree sp u s2" sp name sz "MACH_PORT_INDEX name" e] u(1,2) um None tree2(3) sz by auto
      have "space_ok sp xs (set_tree sp u s2)" using ok2(1) by (simp add: space_ok_def)
      with s3(3) have "space_ok sp xs s3" by blast
      moreover have "space_map sp s3 = (space_map sp s)(name \<mapsto> Tree e)"
        using far_space_map [OF ok(3)] s3(2,4) ok2(3) by (auto simp: space_map_def Let_def)
      moreover have "alloc_name_loop sp name 0 s = Some (KERN_SUCCESS, Some (Tree e), s3)"
        using turn False u(3) s3(1)
        by (subst alloc_name_loop.simps, simp, subst alloc_name_loop.simps, simp add: sz_def)
      ultimately show ?thesis using start sm None e' s3(4) ok2(3) by auto
    qed
  qed
qed

lemma ksorted_without:
  "ksorted xs \<Longrightarrow> map_of xs n = Some e \<Longrightarrow>
   length (filter (\<lambda>x. fst x < n) xs) + length (filter (\<lambda>x. n < fst x) xs) = length xs - 1"
proof (induction xs)
  case (Cons x xs)
  have up: "\<forall>y \<in> set xs. fst x < fst y" using Cons.prems(1) by (auto simp: above_def keys_of_def)
  show ?case
  proof (cases "fst x = n")
    case True
    then have "filter (\<lambda>y. fst y < n) xs = []" "filter (\<lambda>y. n < fst y) xs = xs"
      using up by (auto simp: filter_empty_conv intro: filter_True)
    with True show ?thesis by simp
  next
    case False
    with Cons.prems have rest: "map_of xs n = Some e" "ksorted xs" by (cases x; auto)+
    moreover from map_of_SomeD [OF rest(1)] have "fst x < n" "xs \<noteq> []" using up by force+
    ultimately show ?thesis using Cons.IH [OF rest(2,1)] by (cases xs) auto
  qed
qed simp

text \<open>Giving a name in the tree back; the deletion from the tree can stop at the assertion of the splay
  tree's deletion.\<close>

lemma dealloc_far:
  assumes "space_ok sp xs s" "tree_ok sp s" "far_name sp name s" "nonneg_keys (entries (is_tree (spaces s sp)))"
    and "space_map sp s name = Some (Tree e)" "te_object (tents s e) = 0" "te_request (tents s e) = 0"
  shows "if filter (\<lambda>x. name < fst x) (entries (is_tree (spaces s sp))) = [] \<or>
       length (filter (\<lambda>x. fst x < name) (entries (is_tree (spaces s sp)))) \<le> 1
     then \<exists>s'. ipc_entry_dealloc sp name (Tree e) s = Some s' \<and> space_ok sp xs s' \<and> tree_ok sp s' \<and>
       space_map sp s' = (space_map sp s)(name := None)
     else ipc_entry_dealloc sp name (Tree e) s = None"
proof -
  let ?t = "is_tree (spaces s sp)"
  have far: "\<not> MACH_PORT_INDEX name < length (table_of sp s)" by (rule far_space_map [OF assms(3)])
  obtain sz where sz: "its_size (is_table_next (spaces s sp)) = Some sz" "\<not> MACH_PORT_INDEX name < sz"
    using assms(3) by (auto simp: far_name_def)
  have present: "tree_map ?t name = Some e" using assms(5) far by (auto simp: space_map_def Let_def)
  have act: "is_active (spaces s sp)" "is_table_size (spaces s sp) = length (table_of sp s)"
    using assms(1) by (auto simp: space_ok_def)
  have inv: "splay_inv ?t" "is_tree_total (spaces s sp) = length (entries ?t)" "te_space (tents s e) = sp"
    using assms(2) present by (auto simp: tree_ok_def)
  have pos: "0 < length (entries ?t)" using present by (auto simp: tree_map_def)
  note del = delete_correct [OF inv(1) assms(4) present]
  have step: "ipc_entry_dealloc sp name (Tree e) s =
    map_option (\<lambda>t. upd_space sp (\<lambda>x. x\<lparr>is_tree_total := is_tree_total x - 1\<rparr>) (set_tree sp t s))
      (ipc_splay_tree_delete ?t name e)"
    using act inv assms(6,7) far sz pos
    by (cases "ipc_splay_tree_delete ?t name e")
       (simp_all add: ipc_entry_dealloc_def dealloc_tree_entry_def ent_object_def ent_request_def Let_def)
  show ?thesis
  proof (cases "filter (\<lambda>x. name < fst x) (entries ?t) = [] \<or> length (filter (\<lambda>x. fst x < name) (entries ?t)) \<le> 1")
    case False
    then show ?thesis using step del by simp
  next
    case True
    then obtain t where t: "ipc_splay_tree_delete ?t name e = Some t" "splay_inv t"
      "entries t = filter (\<lambda>x. fst x < name) (entries ?t) @ filter (\<lambda>x. name < fst x) (entries ?t)"
      using del by (auto split: if_splits)
    have m: "tree_map t = (tree_map ?t)(name := None)" by (rule tree_map_without [OF inv(1) t(2,3)])
    define s' where "s' = upd_space sp (\<lambda>x. x\<lparr>is_tree_total := is_tree_total x - 1\<rparr>) (set_tree sp t s)"
    have "space_ok sp xs s'" using assms(1) by (simp add: space_ok_def s'_def)
    moreover have "tree_ok sp s'"
    proof -
      have "length (entries t) = length (entries ?t) - 1"
        using ksorted_without [OF entries_ksorted [OF inv(1)], of name e] present by (simp add: tree_map_def t(3))
      then show ?thesis using assms(2) m t(2) inv(2) by (auto simp: tree_ok_def s'_def split: if_splits)
    qed
    moreover have "space_map sp s' = (space_map sp s)(name := None)"
      using m far by (auto simp: space_map_def Let_def s'_def)
    ultimately show ?thesis using step t(1) True by (simp add: s'_def)
  qed
qed

end
