(* ===== verification/Ipc_Entry_Props.thy ===== *)
theory Ipc_Entry_Props
  imports Ipc_Entry_Correct
begin

text \<open>
  The properties of the translation entries of a space (\<^verbatim>\<open>Kernel/mxwl/ipc/ipc_entry.c\<close>), with
  instances on a new space.
\<close>

text \<open>A kernel with memory for one space at address 16, two tables and one tree entry at 5.\<close>

definition entry_demo :: ients where
  "entry_demo = \<lparr>ihg_size = 2, ihg_mask = 1, ihg_table = Some [0, 0], tree_entry_max = 0,
     spaces = (\<lambda>_. new_space 64 0), tents = (\<lambda>_. zero_tree_entry),
     ite_zone = [5], table_memory = [True, True, True], space_zone = [16]\<rparr>"

lemma entry_demo_simps [simp]:
  "spaces entry_demo sp = new_space 64 0" "ite_zone entry_demo = [5]"
  "table_memory entry_demo = [True, True, True]" "space_zone entry_demo = [16]"
  "tents entry_demo e = zero_tree_entry"
  by (simp_all add: entry_demo_def)

lemma entry_demo_ok: "space_ok 16 [] entry_demo" "tree_ok 16 entry_demo"
  by (rule new_space_ok, simp)
     (simp add: tree_ok_def new_space_def ipc_splay_tree_init_def empty_tree_def splay_inv_def entries_def tree_map_def)

text \<open>
  C19.  The unused entries of a table are a list: an allocation takes the first one, clears it, and
  fails exactly when there is none; a deallocation puts an unused entry in front.  Every other entry
  stays as it is, no assertion fails, and the list stays a list of distinct unused entries.
\<close>

theorem ipc_entry_free_list:
  assumes "space_ok sp xs s"
  shows "(case xs of
      [] \<Rightarrow> ipc_entry_get sp s = Some (KERN_NO_SPACE, 0, 0, s)
    | x # ys \<Rightarrow> \<exists>s'. ipc_entry_get sp s = Some (KERN_SUCCESS, int x, x, s') \<and> space_ok sp ys s' \<and>
        ie_bits (table_of sp s' ! x) = 0 \<and> ie_object (table_of sp s' ! x) = 0 \<and> ie_next (table_of sp s' ! x) = 0 \<and>
        (\<forall>i. i \<notin> {0, x} \<longrightarrow> table_of sp s' ! i = table_of sp s ! i)) \<and>
    (\<forall>x. 0 < x \<longrightarrow> x < length (table_of sp s) \<longrightarrow> x \<notin> set xs \<longrightarrow> ie_object (table_of sp s ! x) = 0 \<longrightarrow>
      ie_next (table_of sp s ! x) = 0 \<longrightarrow> ie_bits (table_of sp s ! x) AND IE_BITS_COLLISION = 0 \<longrightarrow>
      (\<exists>s'. ipc_entry_dealloc sp (int x) (Tab x) s = Some s' \<and> space_ok sp (x # xs) s' \<and>
        (\<forall>i. i \<notin> {0, x} \<longrightarrow> table_of sp s' ! i = table_of sp s ! i)))"
proof (intro conjI allI impI)
  show "case xs of
      [] \<Rightarrow> ipc_entry_get sp s = Some (KERN_NO_SPACE, 0, 0, s)
    | x # ys \<Rightarrow> \<exists>s'. ipc_entry_get sp s = Some (KERN_SUCCESS, int x, x, s') \<and> space_ok sp ys s' \<and>
        ie_bits (table_of sp s' ! x) = 0 \<and> ie_object (table_of sp s' ! x) = 0 \<and> ie_next (table_of sp s' ! x) = 0 \<and>
        (\<forall>i. i \<notin> {0, x} \<longrightarrow> table_of sp s' ! i = table_of sp s ! i)"
  proof (cases xs)
    case Nil
    with get_none assms show ?thesis by simp
  next
    case (Cons x ys)
    with assms have "0 < x" "x < length (table_of sp s)" "ie_object (table_of sp s ! x) = 0"
      by (auto simp: space_ok_def free_list_def)
    moreover note get_some [OF assms [unfolded Cons]] pop_free_ok [OF assms [unfolded Cons]]
    ultimately show ?thesis
      by (simp add: Cons pop_free_frame)
  qed
  fix x assume x: "0 < x" "x < length (table_of sp s)" "x \<notin> set xs" "ie_object (table_of sp s ! x) = 0"
    "ie_next (table_of sp s ! x) = 0" "ie_bits (table_of sp s ! x) AND IE_BITS_COLLISION = 0"
  show "\<exists>s'. ipc_entry_dealloc sp (int x) (Tab x) s = Some s' \<and> space_ok sp (x # xs) s' \<and>
      (\<forall>i. i \<notin> {0, x} \<longrightarrow> table_of sp s' ! i = table_of sp s ! i)"
    using dealloc_push [OF assms x(1,2,4-6)] push_free_ok [OF assms x(1-4)] push_free_frame by blast
qed

theorem ipc_entry_free_list_witness:
  "\<exists>s'. ipc_entry_dealloc 16 7 (Tab 7) entry_demo = Some s' \<and> space_ok 16 [7] s'"
  using conjunct2 [OF ipc_entry_free_list [OF entry_demo_ok(1)], rule_format, of 7]
  by (auto simp: new_space_def zero_entry_def)

text \<open>
  C20.  A new space gives out the names 64 to 127, in this order: its first table of 64 entries has no
  free list, so the first allocation grows it.  The allocation after these 64 reaches undefined
  behaviour when there is memory: the growth reallocates the table and then frees the table it had.
\<close>

theorem ipc_entry_new_space_allocations:
  assumes "space_zone s = sp # zs" "sp \<noteq> 0" "table_memory s = True # True # ms"
  shows "\<exists>s1. ipc_space_create 0 s = Some (KERN_SUCCESS, sp, s1) \<and>
    (\<forall>k. 0 < k \<longrightarrow> k \<le> 64 \<longrightarrow>
      (\<exists>s'. alloc_run k sp s1 = Some (map int [64..<64 + k], s') \<and>
        (k = 64 \<longrightarrow> ipc_entry_alloc sp s' =
          (if hd (ms @ [False]) then None else Some (KERN_RESOURCE_SHORTAGE, 0, 0, snd (it_entries_alloc s'))))))"
proof -
  obtain s1 where s1: "ipc_space_create 0 s = Some (KERN_SUCCESS, sp, s1)" "spaces s1 sp = new_space 64 0"
    "table_memory s1 = True # ms" using create_ok [OF assms] by blast
  have "\<exists>s'. alloc_run k sp s1 = Some (map int [64..<64 + k], s') \<and>
        (k = 64 \<longrightarrow> ipc_entry_alloc sp s' =
          (if hd (ms @ [False]) then None else Some (KERN_RESOURCE_SHORTAGE, 0, 0, snd (it_entries_alloc s'))))"
    if k: "0 < k" "k \<le> 64" for k
  proof -
    obtain s' where s': "alloc_run k sp s1 = Some (map int [64..<64 + k], s')" "space_ok sp [64 + k..<128] s'"
      "stage sp 256 512 s'" "length (table_of sp s') = 128" "table_memory s' = ms"
      using new_space_run [OF s1(2) assms(2) s1(3) k] by blast
    have "ipc_entry_alloc sp s' =
        (if hd (ms @ [False]) then None else Some (KERN_RESOURCE_SHORTAGE, 0, 0, snd (it_entries_alloc s')))"
      if "k = 64"
    proof -
      have full: "space_ok sp [] s'" using s'(2) that by simp
      then have act: "is_active (spaces s' sp)" "\<not> is_growing (spaces s' sp)"
        "is_table_size (spaces s' sp) = length (table_of sp s')" by (auto simp: space_ok_def)
      have "it_entries_reallocable (length (table_of sp s'))"
        by (simp add: s'(4) it_entries_reallocable_def PAGE_SIZE_def sizeof_ipc_entry_def)
      from grow_double_free [OF this s'(3) act(3)] act s'(5)
      have "ipc_entry_grow_table sp s' = (if hd (ms @ [False]) then None else Some (KERN_RESOURCE_SHORTAGE, snd (it_entries_alloc s')))"
        by (cases ms) auto
      then show ?thesis
        using alloc_full_none [OF full] alloc_full_shortage [OF full] by auto
    qed
    with s'(1) show ?thesis by blast
  qed
  with s1(1) show ?thesis by blast
qed

theorem ipc_entry_new_space_allocations_witness:
  "\<exists>s1 s'. ipc_space_create 0 entry_demo = Some (KERN_SUCCESS, 16, s1) \<and>
    alloc_run 64 16 s1 = Some (map int [64..<128], s') \<and> ipc_entry_alloc 16 s' = None"
proof -
  from ipc_entry_new_space_allocations [of entry_demo 16 "[]" "[True]"] obtain s1 where
    s1: "ipc_space_create 0 entry_demo = Some (KERN_SUCCESS, 16, s1)"
    "\<forall>k. 0 < k \<longrightarrow> k \<le> 64 \<longrightarrow> (\<exists>s'. alloc_run k 16 s1 = Some (map int [64..<64 + k], s') \<and>
        (k = 64 \<longrightarrow> ipc_entry_alloc 16 s' =
          (if hd ([True] @ [False]) then None else Some (KERN_RESOURCE_SHORTAGE, 0, 0, snd (it_entries_alloc s')))))"
    by auto
  from s1(2) [rule_format, of 64] s1(1) show ?thesis by auto
qed

text \<open>
  C21.  Asking for a name in the table whose entry is unused but not on the free list never returns:
  the search for it runs around the free list for ever.  In a new space these are all names below
  64.
\<close>

theorem ipc_entry_alloc_name_never_returns:
  assumes "space_ok sp xs s" "0 < index" "index < length (table_of sp s)" "index \<notin> set xs"
    and "IE_BITS_TYPE (ie_bits (table_of sp s ! index)) = 0"
  shows "ipc_entry_alloc_name sp (int index) s = None"
  using alloc_name_hangs [OF assms(1,4,2,3,5)] .

theorem ipc_entry_alloc_name_never_returns_witness:
  "ipc_entry_alloc_name 16 1 entry_demo = None \<and> ipc_entry_alloc_name 16 63 entry_demo = None"
  using ipc_entry_alloc_name_never_returns [OF entry_demo_ok(1), of 1]
    ipc_entry_alloc_name_never_returns [OF entry_demo_ok(1), of 63]
  by (simp add: new_space_def zero_entry_def IE_BITS_TYPE_def)

text \<open>
  C22.  A space is a map from names to entries.  A lookup returns what the map says and does not change
  it.  Asking for a name beyond the table and its next size returns the entry it has, or gives it a new
  tree entry, or fails for lack of memory and changes nothing.  Giving such a name back removes it,
  except when there are tree names above it and at least two below: then an assertion stops the
  kernel.  The names in the tree are taken not to be negative, which the code does not enforce.
\<close>

theorem ipc_entry_names_as_map:
  assumes "space_ok sp xs s" "tree_ok sp s"
    and "\<forall>n e. tree_map (is_tree (spaces s sp)) n = Some e \<longrightarrow> e \<notin> set (ite_zone s)"
    and "nonneg_keys (entries (is_tree (spaces s sp)))"
  defines "no_memory \<equiv> ite_zone s = [] \<or> hd (ite_zone s) = 0"
  shows "(\<exists>s'. ipc_entry_lookup sp name s = Some (space_map sp s name, s') \<and> space_ok sp xs s' \<and> tree_ok sp s' \<and>
      space_map sp s' = space_map sp s) \<and>
    (far_name sp name s \<longrightarrow> (\<exists>s'. ipc_entry_alloc_name sp name s =
        (case space_map sp s name of
           Some r \<Rightarrow> Some (KERN_SUCCESS, Some r, s')
         | None \<Rightarrow> if no_memory then Some (KERN_RESOURCE_SHORTAGE, None, s')
                   else Some (KERN_SUCCESS, Some (Tree (hd (ite_zone s))), s')) \<and>
      space_ok sp xs s' \<and>
      space_map sp s' = (if space_map sp s name = None \<and> \<not> no_memory
        then (space_map sp s)(name \<mapsto> Tree (hd (ite_zone s))) else space_map sp s))) \<and>
    (far_name sp name s \<longrightarrow> (\<forall>e. space_map sp s name = Some (Tree e) \<longrightarrow> te_object (tents s e) = 0 \<longrightarrow>
      te_request (tents s e) = 0 \<longrightarrow>
      (if filter (\<lambda>x. name < fst x) (entries (is_tree (spaces s sp))) = [] \<or>
          length (filter (\<lambda>x. fst x < name) (entries (is_tree (spaces s sp)))) \<le> 1
       then \<exists>s'. ipc_entry_dealloc sp name (Tree e) s = Some s' \<and> space_ok sp xs s' \<and> tree_ok sp s' \<and>
         space_map sp s' = (space_map sp s)(name := None)
       else ipc_entry_dealloc sp name (Tree e) s = None)))"
proof (intro conjI impI allI)
  show "\<exists>s'. ipc_entry_lookup sp name s = Some (space_map sp s name, s') \<and> space_ok sp xs s' \<and> tree_ok sp s' \<and>
      space_map sp s' = space_map sp s"
    using entry_lookup [OF assms(1,2)] by blast
next
  assume far: "far_name sp name s"
  show "\<exists>s'. ipc_entry_alloc_name sp name s =
        (case space_map sp s name of
           Some r \<Rightarrow> Some (KERN_SUCCESS, Some r, s')
         | None \<Rightarrow> if no_memory then Some (KERN_RESOURCE_SHORTAGE, None, s')
                   else Some (KERN_SUCCESS, Some (Tree (hd (ite_zone s))), s')) \<and>
      space_ok sp xs s' \<and>
      space_map sp s' = (if space_map sp s name = None \<and> \<not> no_memory
        then (space_map sp s)(name \<mapsto> Tree (hd (ite_zone s))) else space_map sp s)"
    using alloc_name_far [OF assms(1,2) far assms(3)] unfolding no_memory_def de_Morgan_disj by blast
  fix e
  assume "space_map sp s name = Some (Tree e)" "te_object (tents s e) = 0" "te_request (tents s e) = 0"
  from dealloc_far [OF assms(1,2) far assms(4) this]
  show "if filter (\<lambda>x. name < fst x) (entries (is_tree (spaces s sp))) = [] \<or>
          length (filter (\<lambda>x. fst x < name) (entries (is_tree (spaces s sp)))) \<le> 1
       then \<exists>s'. ipc_entry_dealloc sp name (Tree e) s = Some s' \<and> space_ok sp xs s' \<and> tree_ok sp s' \<and>
         space_map sp s' = (space_map sp s)(name := None)
       else ipc_entry_dealloc sp name (Tree e) s = None" .
qed

theorem ipc_entry_names_as_map_witness:
  "\<exists>s'. ipc_entry_alloc_name 16 1000 entry_demo = Some (KERN_SUCCESS, Some (Tree 5), s') \<and>
    space_map 16 s' 1000 = Some (Tree 5)"
proof -
  have "tree_map (is_tree (spaces entry_demo 16)) n = None" for n
    by (simp add: new_space_def ipc_splay_tree_init_def empty_tree_def tree_map_def entries_def)
  moreover have "nonneg_keys (entries (is_tree (spaces entry_demo 16)))"
    by (simp add: new_space_def ipc_splay_tree_init_def empty_tree_def nonneg_keys_def entries_def)
  moreover have "MACH_PORT_INDEX 1000 = 1000" using port_index_small [of 1000] by simp
  then have "far_name 16 1000 entry_demo" "space_map 16 entry_demo 1000 = None"
    by (simp_all add: far_name_def new_space_def MACH_PORT_VALID_def space_map_def ipc_splay_tree_init_def
        empty_tree_def tree_map_def entries_def)
  ultimately show ?thesis
    using ipc_entry_names_as_map [OF entry_demo_ok, of 1000] by auto
qed

end
