(* ===== verification/Ipc_Object.thy ===== *)
theory Ipc_Object
  imports Ipc_Entry
begin

text \<open>
  What the ports of the entry layer stand on, \<^verbatim>\<open>Kernel/mxwl/ipc/ipc_stubs.c\<close> with the macros of
  \<^verbatim>\<open>compat/ipc\<close>: the data of ports, queues of threads and of messages, objects with reference counts and
  their names in a space.

  Ports, messages and threads live at addresses; \<open>live_ports\<close> and \<open>live_kmsgs\<close> are the addresses in
  use, and an access to any other is \<open>None\<close>.  \<open>port_zone\<close> and \<open>dn_memory\<close> are what the host's
  allocator will give, as in the entry layer.  The union of \<^verbatim>\<open>receiver\<close>, \<^verbatim>\<open>destination\<close> and
  \<^verbatim>\<open>timestamp\<close> is the one field \<open>ip_data\<close>.  No port is ever in a port set, as nothing makes one; the
  code that looks at the set of a port is modelled all the same.  One thread runs, so a lock is always
  free; what is done to locks is left out.
\<close>

section \<open>Data\<close>

record ipc_thread =
  ith_next :: nat
  ith_prev :: nat
  ith_state :: uint32

record ipc_kmsg =
  ikm_next :: nat
  ikm_prev :: nat
  ikm_size :: "64 word"
  ikm_marequest :: nat
  ikm_remote_port :: mach_port_t

text \<open>A slot of a dead-name request table: a name with its send-once right, or, in the first slot and in
  free ones, the index of the next free slot.  Right and index share their memory, and so do the name
  of the first slot and the size of the table, which is kept beside the slots here.\<close>

record ipc_port_request =
  ipr_notify :: nat
  ipr_name :: mach_port_t

record dn_table =
  ipr_size :: nat
  dn_slots :: "ipc_port_request list"

record ipc_port =
  ip_references :: uint32
  ip_bits :: uint32
  ip_receiver_name :: mach_port_t
  imq_messages :: nat
  imq_threads :: nat
  ip_cur_target :: nat
  ip_data :: nat
  ip_mscount :: "64 word"
  ip_srights :: "64 word"
  ip_sorights :: "64 word"
  ip_nsrequest :: nat
  ip_pdrequest :: nat
  ip_dnrequests :: "dn_table option"
  ip_pset :: nat
  ip_seqno :: "64 word"
  ip_msgcount :: "64 word"
  ip_qlimit :: "64 word"
  ip_blocked :: nat

record ipc_pset =
  ips_references :: uint32
  ips_bits :: uint32

record iports = ients +
  port_heap :: "nat \<Rightarrow> ipc_port"
  live_ports :: "nat list"
  port_zone :: "nat list"
  dn_memory :: "bool list"
  pset_heap :: "nat \<Rightarrow> ipc_pset"
  live_psets :: "nat list"
  ith_heap :: "nat \<Rightarrow> ipc_thread"
  kmsg_heap :: "nat \<Rightarrow> ipc_kmsg"
  live_kmsgs :: "nat list"
  ipc_port_timestamp_data :: uint32

definition MACH_MSG_SUCCESS :: uint32 where "MACH_MSG_SUCCESS = 0"
definition MACH_RCV_PORT_DIED :: uint32 where "MACH_RCV_PORT_DIED = 0x10004010"
definition MACH_PORT_QLIMIT_DEFAULT :: "64 word" where "MACH_PORT_QLIMIT_DEFAULT = 5"
definition MACH_MSG_TYPE_COPY_SEND :: uint32 where "MACH_MSG_TYPE_COPY_SEND = 19"
definition MACH_MSG_TYPE_PORT_SEND :: uint32 where "MACH_MSG_TYPE_PORT_SEND = 20"
definition IOT_PORT :: uint32 where "IOT_PORT = 0"
definition IKOT_NONE :: uint32 where "IKOT_NONE = 0"
definition IP_DEAD :: nat where "IP_DEAD = 2 ^ 64 - 1"
definition IKM_BOGUS :: nat where "IKM_BOGUS = 0xffffff10"

definition IO_BITS_KOTYPE :: uint32 where "IO_BITS_KOTYPE = 0xffff"
definition IO_BITS_ACTIVE :: uint32 where "IO_BITS_ACTIVE = 0x80000000"

definition IP_VALID :: "nat \<Rightarrow> bool" where
  "IP_VALID port \<longleftrightarrow> port \<noteq> 0 \<and> port \<noteq> IP_DEAD"

definition io_active :: "uint32 \<Rightarrow> bool" where
  "io_active bits \<longleftrightarrow> bits <s 0"

definition io_kotype :: "uint32 \<Rightarrow> uint32" where
  "io_kotype bits = bits AND IO_BITS_KOTYPE"

definition io_makebits :: "bool \<Rightarrow> uint32 \<Rightarrow> uint32 \<Rightarrow> uint32" where
  "io_makebits active otype kotype = (if active then IO_BITS_ACTIVE else 0) OR push_bit 16 otype OR kotype"

definition zero_port :: ipc_port where
  "zero_port = \<lparr>ip_references = 0, ip_bits = 0, ip_receiver_name = 0, imq_messages = 0, imq_threads = 0,
     ip_cur_target = 0, ip_data = 0, ip_mscount = 0, ip_srights = 0, ip_sorights = 0, ip_nsrequest = 0,
     ip_pdrequest = 0, ip_dnrequests = None, ip_pset = 0, ip_seqno = 0, ip_msgcount = 0, ip_qlimit = 0,
     ip_blocked = 0\<rparr>"

definition zero_request :: ipc_port_request where
  "zero_request = \<lparr>ipr_notify = 0, ipr_name = 0\<rparr>"

text \<open>The growth schedule of the request tables; a place in it stands for an \<^verbatim>\<open>ipc_table_size_t\<close>.\<close>

definition ipc_table_dnrequests :: "nat list" where
  "ipc_table_dnrequests = [4, 8, 16, 32, 64, 0]"

definition dn_size :: "nat \<Rightarrow> nat option" where
  "dn_size its = (if its < length ipc_table_dnrequests then Some (ipc_table_dnrequests ! its) else None)"

text \<open>A pointer where the code stores it in a port name.\<close>

definition port_as_name :: "nat \<Rightarrow> mach_port_t" where
  "port_as_name p = signed_take_bit 31 (int p)"

section \<open>Access\<close>

definition port_at :: "nat \<Rightarrow> 'a iports_scheme \<Rightarrow> ipc_port option" where
  "port_at p s = (if p \<in> set (live_ports s) then Some (port_heap s p) else None)"

definition upd_port :: "nat \<Rightarrow> (ipc_port \<Rightarrow> ipc_port) \<Rightarrow> 'a iports_scheme \<Rightarrow> 'a iports_scheme" where
  "upd_port p f s = s\<lparr>port_heap := (port_heap s)(p := f (port_heap s p))\<rparr>"

definition kmsg_at :: "nat \<Rightarrow> 'a iports_scheme \<Rightarrow> ipc_kmsg option" where
  "kmsg_at k s = (if k \<in> set (live_kmsgs s) then Some (kmsg_heap s k) else None)"

definition upd_kmsg :: "nat \<Rightarrow> (ipc_kmsg \<Rightarrow> ipc_kmsg) \<Rightarrow> 'a iports_scheme \<Rightarrow> 'a iports_scheme" where
  "upd_kmsg k f s = s\<lparr>kmsg_heap := (kmsg_heap s)(k := f (kmsg_heap s k))\<rparr>"

definition upd_thread :: "nat \<Rightarrow> (ipc_thread \<Rightarrow> ipc_thread) \<Rightarrow> 'a iports_scheme \<Rightarrow> 'a iports_scheme" where
  "upd_thread t f s = s\<lparr>ith_heap := (ith_heap s)(t := f (ith_heap s t))\<rparr>"

abbreviation ip_active :: "ipc_port \<Rightarrow> bool" where
  "ip_active port \<equiv> io_active (ip_bits port)"

definition ip_reference :: "nat \<Rightarrow> 'a iports_scheme \<Rightarrow> 'a iports_scheme" where
  "ip_reference p = upd_port p (\<lambda>x. x\<lparr>ip_references := ip_references x + 1\<rparr>)"

definition ip_release :: "nat \<Rightarrow> 'a iports_scheme \<Rightarrow> 'a iports_scheme" where
  "ip_release p = upd_port p (\<lambda>x. x\<lparr>ip_references := ip_references x - 1\<rparr>)"

text \<open>\<^verbatim>\<open>ipc_object_release\<close>, unlike the original, does not free the object.\<close>

definition ipc_object_release :: "nat \<Rightarrow> 'a iports_scheme \<Rightarrow> 'a iports_scheme option" where
  "ipc_object_release p s = do { _ \<leftarrow> port_at p s; Some (ip_release p s) }"

definition io_free :: "nat \<Rightarrow> 'a iports_scheme \<Rightarrow> 'a iports_scheme" where
  "io_free p s = s\<lparr>live_ports := removeAll p (live_ports s)\<rparr>"

definition ip_check_unlock :: "nat \<Rightarrow> 'a iports_scheme \<Rightarrow> 'a iports_scheme" where
  "ip_check_unlock p s = (if ip_references (port_heap s p) = 0 then io_free p s else s)"

text \<open>\<^verbatim>\<open>io_alloc(IOT_PORT)\<close>: cleared memory.\<close>

definition io_alloc :: "'a iports_scheme \<Rightarrow> nat \<times> 'a iports_scheme" where
  "io_alloc s =
     (case port_zone s of
        [] \<Rightarrow> (0, s)
      | p # ps \<Rightarrow>
          if p = 0 then (0, s\<lparr>port_zone := ps\<rparr>)
          else (p, upd_port p (\<lambda>_. zero_port) (s\<lparr>port_zone := ps, live_ports := p # live_ports s\<rparr>)))"

definition pset_at :: "nat \<Rightarrow> 'a iports_scheme \<Rightarrow> ipc_pset option" where
  "pset_at ps s = (if ps \<in> set (live_psets s) then Some (pset_heap s ps) else None)"

definition ips_check_unlock :: "nat \<Rightarrow> 'a iports_scheme \<Rightarrow> 'a iports_scheme" where
  "ips_check_unlock ps s =
     (if ips_references (pset_heap s ps) = 0 then s\<lparr>live_psets := removeAll ps (live_psets s)\<rparr> else s)"

section \<open>Queues\<close>

text \<open>The macros on queues of threads; \<open>base\<close> is the queue, the first thread of a ring or 0.\<close>

definition ipc_thread_dequeue :: "nat \<Rightarrow> 'a iports_scheme \<Rightarrow> (nat \<times> nat \<times> 'a iports_scheme) option" where
  "ipc_thread_dequeue base s =
     (if base = 0 then Some (0, base, s)
      else do {
        let thread = base;
        let next = ith_next (ith_heap s thread);
        if next = thread then do {
          c_assert (ith_prev (ith_heap s thread) = thread);
          Some (thread, 0, s)
        }
        else
          (let prev = ith_prev (ith_heap s thread);
               s = upd_thread next (\<lambda>t. t\<lparr>ith_prev := prev\<rparr>) s;
               s = upd_thread prev (\<lambda>t. t\<lparr>ith_next := next\<rparr>) s;
               s = upd_thread thread (\<lambda>t. t\<lparr>ith_next := thread, ith_prev := thread\<rparr>) s
           in Some (thread, next, s))
      })"

definition ipc_thread_enqueue :: "nat \<Rightarrow> nat \<Rightarrow> 'a iports_scheme \<Rightarrow> (nat \<times> 'a iports_scheme) option" where
  "ipc_thread_enqueue base thread s =
     (if base = 0 then do {
        c_assert (ith_next (ith_heap s thread) = thread);
        c_assert (ith_prev (ith_heap s thread) = thread);
        Some (thread, s)
      }
      else
        (let last = ith_prev (ith_heap s base);
             s = upd_thread thread (\<lambda>t. t\<lparr>ith_next := base, ith_prev := last\<rparr>) s;
             s = upd_thread base (\<lambda>t. t\<lparr>ith_prev := thread\<rparr>) s;
             s = upd_thread last (\<lambda>t. t\<lparr>ith_next := thread\<rparr>) s
         in Some (base, s)))"

definition ipc_kmsg_dequeue :: "nat \<Rightarrow> 'a iports_scheme \<Rightarrow> (nat \<times> nat \<times> 'a iports_scheme) option" where
  "ipc_kmsg_dequeue base s =
     (if base = 0 then Some (0, base, s)
      else do {
        let kmsg = base;
        k \<leftarrow> kmsg_at kmsg s;
        let next = ikm_next k;
        let bogus = (\<lambda>k. k\<lparr>ikm_next := IKM_BOGUS, ikm_prev := IKM_BOGUS\<rparr>);
        if next = kmsg then do {
          c_assert (ikm_prev k = kmsg);
          Some (kmsg, 0, upd_kmsg kmsg bogus s)
        }
        else do {
          let prev = ikm_prev k;
          _ \<leftarrow> kmsg_at next s;
          _ \<leftarrow> kmsg_at prev s;
          let s = upd_kmsg next (\<lambda>k. k\<lparr>ikm_prev := prev\<rparr>) s;
          let s = upd_kmsg prev (\<lambda>k. k\<lparr>ikm_next := next\<rparr>) s;
          Some (kmsg, next, upd_kmsg kmsg bogus s)
        }
      })"

definition ipc_kmsg_enqueue :: "nat \<Rightarrow> nat \<Rightarrow> 'a iports_scheme \<Rightarrow> (nat \<times> 'a iports_scheme) option" where
  "ipc_kmsg_enqueue base kmsg s =
     (if base = 0 then do {
        _ \<leftarrow> kmsg_at kmsg s;
        Some (kmsg, upd_kmsg kmsg (\<lambda>k. k\<lparr>ikm_next := kmsg, ikm_prev := kmsg\<rparr>) s)
      }
      else do {
        first \<leftarrow> kmsg_at base s;
        _ \<leftarrow> kmsg_at kmsg s;
        let last = ikm_prev first;
        _ \<leftarrow> kmsg_at last s;
        let s = upd_kmsg kmsg (\<lambda>k. k\<lparr>ikm_next := base, ikm_prev := last\<rparr>) s;
        let s = upd_kmsg base (\<lambda>k. k\<lparr>ikm_prev := kmsg\<rparr>) s;
        Some (base, upd_kmsg last (\<lambda>k. k\<lparr>ikm_next := kmsg\<rparr>) s)
      })"

definition ipc_kmsg_queue_next :: "nat \<Rightarrow> nat \<Rightarrow> 'a iports_scheme \<Rightarrow> nat option" where
  "ipc_kmsg_queue_next base kmsg s = do {
     c_assert (kmsg \<noteq> 0);
     k \<leftarrow> kmsg_at kmsg s;
     Some (if ikm_next k = base then 0 else ikm_next k)
   }"

text \<open>\<^verbatim>\<open>ikm_free\<close> calls \<^verbatim>\<open>ipc_kmsg_free\<close> for a size that is not positive, which calls \<^verbatim>\<open>ikm_free\<close> again.\<close>

definition ikm_free :: "nat \<Rightarrow> 'a iports_scheme \<Rightarrow> 'a iports_scheme option" where
  "ikm_free kmsg s = do {
     k \<leftarrow> kmsg_at kmsg s;
     c_assert (0 < sint (ikm_size k));
     Some (s\<lparr>live_kmsgs := removeAll kmsg (live_kmsgs s)\<rparr>)
   }"

definition ipc_kmsg_destroy :: "nat \<Rightarrow> 'a iports_scheme \<Rightarrow> 'a iports_scheme option" where
  "ipc_kmsg_destroy kmsg s =
     (if kmsg = 0 then Some s
      else do {
        k \<leftarrow> kmsg_at kmsg s;
        ikm_free kmsg (if ikm_marequest k \<noteq> 0 then upd_kmsg kmsg (\<lambda>k. k\<lparr>ikm_marequest := 0\<rparr>) s else s)
      })"

text \<open>Waking every thread of a queue with the same result; the queue is empty afterwards.\<close>

partial_function (option) wake_all :: "uint32 \<Rightarrow> nat \<Rightarrow> 'a iports_scheme \<Rightarrow> 'a iports_scheme option" where
  "wake_all reason base s = do {
     (thread, base, s) \<leftarrow> ipc_thread_dequeue base s;
     if thread = 0 then Some s
     else wake_all reason base (upd_thread thread (\<lambda>t. t\<lparr>ith_state := reason\<rparr>) s)
   }"

definition ipc_mqueue_changed :: "nat \<Rightarrow> uint32 \<Rightarrow> 'a iports_scheme \<Rightarrow> 'a iports_scheme option" where
  "ipc_mqueue_changed p reason s = do {
     port \<leftarrow> port_at p s;
     s \<leftarrow> wake_all reason (imq_threads port) s;
     Some (upd_port p (\<lambda>x. x\<lparr>imq_threads := 0\<rparr>) s)
   }"

section \<open>Objects in a space\<close>

text \<open>Setting the object and the type of the entry just made.\<close>

definition fill_entry :: "nat \<Rightarrow> entry_ref \<Rightarrow> nat \<Rightarrow> uint32 \<Rightarrow> 'a ipcs_scheme \<Rightarrow> 'a ipcs_scheme" where
  "fill_entry sp r obj type s =
     (case r of
        Tab i \<Rightarrow> upd_ent sp i (\<lambda>e. e\<lparr>ie_object := obj, ie_bits := ie_bits e OR type\<rparr>) s
      | Tree e \<Rightarrow> upd_tent e (\<lambda>t. t\<lparr>te_object := obj, te_bits := te_bits t OR type\<rparr>) s)"

definition ipc_object_alloc ::
  "nat \<Rightarrow> uint32 \<Rightarrow> uint32 \<Rightarrow> 'a iports_scheme \<Rightarrow> (kern_return_t \<times> mach_port_t \<times> nat \<times> 'a iports_scheme) option" where
  "ipc_object_alloc sp otype obj_type s =
     (let (object, s) = io_alloc s in
      if object = 0 then Some (KERN_RESOURCE_SHORTAGE, 0, 0, s)
      else do {
        let s = upd_port object (\<lambda>x. x\<lparr>ip_references := 1, ip_bits := io_makebits True otype 0\<rparr>) s;
        (kr, name, entry, s) \<leftarrow> ipc_entry_alloc sp s;
        (if kr \<noteq> KERN_SUCCESS then Some (kr, 0, 0, io_free object s)
         else Some (KERN_SUCCESS, name, object, fill_entry sp (Tab entry) object obj_type s))
      })"

definition ipc_object_alloc_name ::
  "nat \<Rightarrow> uint32 \<Rightarrow> uint32 \<Rightarrow> mach_port_t \<Rightarrow> 'a iports_scheme \<Rightarrow> (kern_return_t \<times> nat \<times> 'a iports_scheme) option" where
  "ipc_object_alloc_name sp otype obj_type name s =
     (let (object, s) = io_alloc s in
      if object = 0 then Some (KERN_RESOURCE_SHORTAGE, 0, s)
      else do {
        let s = upd_port object (\<lambda>x. x\<lparr>ip_references := 1, ip_bits := io_makebits True otype 0\<rparr>) s;
        (kr, entry, s) \<leftarrow> ipc_entry_alloc_name sp name s;
        (if kr \<noteq> KERN_SUCCESS then Some (kr, 0, io_free object s)
         else do { r \<leftarrow> entry; Some (KERN_SUCCESS, object, fill_entry sp r object obj_type s) })
      })"

definition ipc_object_copyout ::
  "nat \<Rightarrow> nat \<Rightarrow> uint32 \<Rightarrow> 'a ipcs_scheme \<Rightarrow> (kern_return_t \<times> mach_port_t \<times> 'a ipcs_scheme) option" where
  "ipc_object_copyout sp obj msgt_name s = do {
     (kr, name, entry, s) \<leftarrow> ipc_entry_get sp s;
     (if kr \<noteq> KERN_SUCCESS then Some (kr, 0, s)
      else
        (let s = fill_entry sp (Tab entry) obj MACH_PORT_TYPE_SEND s;
             s = (if msgt_name \<noteq> MACH_MSG_TYPE_COPY_SEND
                  then upd_ent sp entry (\<lambda>e. e\<lparr>ie_bits := ie_bits e OR MACH_PORT_TYPE_SEND_ONCE\<rparr>) s else s)
         in Some (KERN_SUCCESS, name, s)))
   }"

definition ipc_object_translate ::
  "nat \<Rightarrow> mach_port_t \<Rightarrow> 'a ipcs_scheme \<Rightarrow> (kern_return_t \<times> nat \<times> 'a ipcs_scheme) option" where
  "ipc_object_translate sp name s = do {
     (entry, s) \<leftarrow> ipc_entry_lookup sp name s;
     (case entry of
        None \<Rightarrow> Some (KERN_INVALID_NAME, 0, s)
      | Some r \<Rightarrow> do {
          obj \<leftarrow> ent_object sp r s;
          Some (if obj = 0 then (KERN_INVALID_RIGHT, 0, s) else (KERN_SUCCESS, obj, s))
        })
   }"

end
