(* ===== verification/Ipc_Port.thy ===== *)
theory Ipc_Port
  imports Ipc_Object
begin

text \<open>
  The ports of the entry layer, \<^verbatim>\<open>Kernel/mxwl/ipc/ipc_port.c\<close>.  The notifications of
  \<^verbatim>\<open>ipc/ipc_stubs.c\<close> do nothing, so they do not appear; neither do the stubs \<^verbatim>\<open>ipc_pset_remove\<close>,
  \<^verbatim>\<open>ipc_kobject_destroy\<close> and \<^verbatim>\<open>ipc_target_terminate\<close>.
\<close>

definition ipc_port_timestamp :: "'a iports_scheme \<Rightarrow> uint32 \<times> 'a iports_scheme" where
  "ipc_port_timestamp s =
     (ipc_port_timestamp_data s, s\<lparr>ipc_port_timestamp_data := ipc_port_timestamp_data s + 1\<rparr>)"

section \<open>Dead-name requests\<close>

definition slot_at :: "dn_table \<Rightarrow> nat \<Rightarrow> ipc_port_request option" where
  "slot_at table i = (if i < length (dn_slots table) then Some (dn_slots table ! i) else None)"

definition upd_slot :: "nat \<Rightarrow> (ipc_port_request \<Rightarrow> ipc_port_request) \<Rightarrow> dn_table \<Rightarrow> dn_table" where
  "upd_slot i f table = table\<lparr>dn_slots := (dn_slots table)[i := f (dn_slots table ! i)]\<rparr>"

definition ipc_port_dnrequest ::
  "nat \<Rightarrow> mach_port_t \<Rightarrow> nat \<Rightarrow> 'a iports_scheme \<Rightarrow> (kern_return_t \<times> nat \<times> 'a iports_scheme) option" where
  "ipc_port_dnrequest p name soright s = do {
     port \<leftarrow> port_at p s;
     c_assert (ip_active port);
     c_assert (name \<noteq> 0);
     c_assert (soright \<noteq> 0);
     (case ip_dnrequests port of
        None \<Rightarrow> Some (KERN_NO_SPACE, 0, s)
      | Some table \<Rightarrow> do {
          head \<leftarrow> slot_at table 0;
          let index = ipr_notify head;
          if index = 0 then Some (KERN_NO_SPACE, 0, s)
          else do {
            ipr \<leftarrow> slot_at table index;
            c_assert (ipr_name ipr = 0);
            let table = upd_slot 0 (\<lambda>r. r\<lparr>ipr_notify := ipr_notify ipr\<rparr>) table;
            let table = upd_slot index (\<lambda>r. r\<lparr>ipr_name := name, ipr_notify := soright\<rparr>) table;
            Some (KERN_SUCCESS, index, upd_port p (\<lambda>x. x\<lparr>ip_dnrequests := Some table\<rparr>) s)
          }
        })
   }"

definition dn_alloc :: "'a iports_scheme \<Rightarrow> bool \<times> 'a iports_scheme" where
  "dn_alloc s = (case dn_memory s of [] \<Rightarrow> (False, s) | ok # oks \<Rightarrow> (ok, s\<lparr>dn_memory := oks\<rparr>))"

text \<open>The loop that puts the new slots on the free list.\<close>

definition dn_free_step :: "nat \<Rightarrow> ipc_port_request list \<times> nat \<Rightarrow> ipc_port_request list \<times> nat" where
  "dn_free_step i = (\<lambda>(slots, free). (slots[i := \<lparr>ipr_notify = free, ipr_name = 0\<rparr>], i))"

definition dn_grown :: "nat \<Rightarrow> nat \<Rightarrow> nat \<Rightarrow> dn_table option \<Rightarrow> dn_table option" where
  "dn_grown its osize nsize otable = do {
     c_assert (osize < nsize);
     let (slots, free) =
       (case otable of
          None \<Rightarrow> (replicate nsize zero_request, 0)
        | Some t \<Rightarrow> (zero_request # take (osize - 1) (drop 1 (dn_slots t)) @ replicate (nsize - osize) zero_request,
                     ipr_notify (dn_slots t ! 0)));
     let (slots, free) = fold dn_free_step [osize..<nsize] (slots, free);
     Some \<lparr>ipr_size = its, dn_slots = slots[0 := (slots ! 0)\<lparr>ipr_notify := free\<rparr>]\<rparr>
   }"

definition ipc_port_dngrow :: "nat \<Rightarrow> 'a iports_scheme \<Rightarrow> (kern_return_t \<times> 'a iports_scheme) option" where
  "ipc_port_dngrow p s = do {
     port \<leftarrow> port_at p s;
     c_assert (ip_active port);
     let otable = ip_dnrequests port;
     let its = (case otable of None \<Rightarrow> 0 | Some t \<Rightarrow> ipr_size t + 1);
     let s = ip_reference p s;
     nsize \<leftarrow> dn_size its;
     let (ok, s) = (if nsize = 0 then (False, s) else dn_alloc s);
     if \<not> ok then do {
       s \<leftarrow> ipc_object_release p s;
       Some (KERN_RESOURCE_SHORTAGE, s)
     }
     else do {
       let s = ip_release p s;
       osize \<leftarrow> (case otable of None \<Rightarrow> Some 1 | Some t \<Rightarrow> dn_size (ipr_size t));
       ntable \<leftarrow> dn_grown its osize nsize otable;
       Some (KERN_SUCCESS, upd_port p (\<lambda>x. x\<lparr>ip_dnrequests := Some ntable\<rparr>) s)
     }
   }"

definition ipc_port_dncancel ::
  "nat \<Rightarrow> mach_port_t \<Rightarrow> nat \<Rightarrow> 'a iports_scheme \<Rightarrow> (nat \<times> 'a iports_scheme) option" where
  "ipc_port_dncancel p name index s = do {
     port \<leftarrow> port_at p s;
     c_assert (ip_active port);
     c_assert (name \<noteq> 0);
     c_assert (index \<noteq> 0);
     table \<leftarrow> ip_dnrequests port;
     ipr \<leftarrow> slot_at table index;
     head \<leftarrow> slot_at table 0;
     let dnrequest = ipr_notify ipr;
     c_assert (ipr_name ipr = name);
     let table = upd_slot index (\<lambda>r. r\<lparr>ipr_name := 0, ipr_notify := ipr_notify head\<rparr>) table;
     let table = upd_slot 0 (\<lambda>r. r\<lparr>ipr_notify := index\<rparr>) table;
     Some (dnrequest, upd_port p (\<lambda>x. x\<lparr>ip_dnrequests := Some table\<rparr>) s)
   }"

section \<open>Other requests and limits\<close>

definition ipc_port_pdrequest :: "nat \<Rightarrow> nat \<Rightarrow> 'a iports_scheme \<Rightarrow> (nat \<times> 'a iports_scheme) option" where
  "ipc_port_pdrequest p notify s = do {
     port \<leftarrow> port_at p s;
     c_assert (ip_active port);
     Some (ip_pdrequest port, upd_port p (\<lambda>x. x\<lparr>ip_pdrequest := notify\<rparr>) s)
   }"

definition ipc_port_nsrequest ::
  "nat \<Rightarrow> 64 word \<Rightarrow> nat \<Rightarrow> 'a iports_scheme \<Rightarrow> (nat \<times> 'a iports_scheme) option" where
  "ipc_port_nsrequest p sync notify s = do {
     port \<leftarrow> port_at p s;
     c_assert (ip_active port);
     let notify' = (if ip_srights port = 0 \<and> sync \<le> ip_mscount port \<and> notify \<noteq> 0 then 0 else notify);
     Some (ip_nsrequest port, upd_port p (\<lambda>x. x\<lparr>ip_nsrequest := notify'\<rparr>) s)
   }"

text \<open>The loop that lets blocked senders go, at most \<open>n\<close> of them; the result is the new queue.\<close>

fun wake_senders :: "nat \<Rightarrow> nat \<Rightarrow> 'a iports_scheme \<Rightarrow> (nat \<times> 'a iports_scheme) option" where
  "wake_senders 0 base s = Some (base, s)"
| "wake_senders (Suc n) base s = do {
     (th, base, s) \<leftarrow> ipc_thread_dequeue base s;
     if th = 0 then Some (base, s)
     else wake_senders n base (upd_thread th (\<lambda>t. t\<lparr>ith_state := MACH_MSG_SUCCESS\<rparr>) s)
   }"

definition ipc_port_set_qlimit :: "nat \<Rightarrow> 64 word \<Rightarrow> 'a iports_scheme \<Rightarrow> 'a iports_scheme option" where
  "ipc_port_set_qlimit p qlimit s = do {
     port \<leftarrow> port_at p s;
     c_assert (ip_active port);
     (base, s) \<leftarrow> (if ip_qlimit port < qlimit
                   then wake_senders (unat (qlimit - ip_qlimit port)) (ip_blocked port) s
                   else Some (ip_blocked port, s));
     Some (upd_port p (\<lambda>x. x\<lparr>ip_blocked := base, ip_qlimit := qlimit\<rparr>) s)
   }"

text \<open>The queue a port is using: its own, or that of its set.\<close>

datatype mqueue_ref = PortQueue nat | PsetQueue nat

definition ipc_port_lock_mqueue :: "nat \<Rightarrow> 'a iports_scheme \<Rightarrow> (mqueue_ref \<times> 'a iports_scheme) option" where
  "ipc_port_lock_mqueue p s = do {
     port \<leftarrow> port_at p s;
     if ip_pset port \<noteq> 0 then do {
       pset \<leftarrow> pset_at (ip_pset port) s;
       Some (if io_active (ips_bits pset) then (PsetQueue (ip_pset port), s)
             else (PortQueue p, ips_check_unlock (ip_pset port) s))
     }
     else Some (PortQueue p, s)
   }"

definition ipc_port_set_seqno :: "nat \<Rightarrow> 64 word \<Rightarrow> 'a iports_scheme \<Rightarrow> 'a iports_scheme option" where
  "ipc_port_set_seqno p seqno s = do {
     (mqueue, s) \<leftarrow> ipc_port_lock_mqueue p s;
     Some (upd_port p (\<lambda>x. x\<lparr>ip_seqno := seqno\<rparr>) s)
   }"

definition ipc_port_set_mscount :: "nat \<Rightarrow> 64 word \<Rightarrow> 'a iports_scheme \<Rightarrow> 'a iports_scheme option" where
  "ipc_port_set_mscount p mscount s = do {
     port \<leftarrow> port_at p s;
     c_assert (ip_active port);
     Some (upd_port p (\<lambda>x. x\<lparr>ip_mscount := mscount\<rparr>) s)
   }"

definition ipc_port_clear_receiver :: "nat \<Rightarrow> 'a iports_scheme \<Rightarrow> 'a iports_scheme option" where
  "ipc_port_clear_receiver p s = do {
     port \<leftarrow> port_at p s;
     c_assert (ip_active port);
     s \<leftarrow> (if ip_pset port \<noteq> 0 then do { _ \<leftarrow> pset_at (ip_pset port) s; Some (ips_check_unlock (ip_pset port) s) }
           else ipc_mqueue_changed p MACH_RCV_PORT_DIED s);
     s \<leftarrow> ipc_port_set_mscount p 0 s;
     Some (upd_port p (\<lambda>x. x\<lparr>ip_seqno := 0\<rparr>) s)
   }"

section \<open>Making ports\<close>

text \<open>\<^verbatim>\<open>ipc_port_init\<close>, with \<^verbatim>\<open>ipc_target_init\<close> and \<^verbatim>\<open>ipc_mqueue_init\<close>.\<close>

definition ipc_port_init :: "nat \<Rightarrow> nat \<Rightarrow> mach_port_t \<Rightarrow> 'a iports_scheme \<Rightarrow> 'a iports_scheme" where
  "ipc_port_init p sp name = upd_port p (\<lambda>x. x\<lparr>
     ip_references := 1, ip_bits := io_makebits True IOT_PORT 0, ip_receiver_name := name,
     ip_data := sp, ip_mscount := 0, ip_srights := 0, ip_sorights := 0,
     ip_nsrequest := 0, ip_pdrequest := 0, ip_dnrequests := None,
     ip_pset := 0, ip_cur_target := p, ip_seqno := 0, ip_msgcount := 0, ip_qlimit := MACH_PORT_QLIMIT_DEFAULT,
     imq_messages := 0, imq_threads := 0, ip_blocked := 0\<rparr>)"

definition ipc_port_alloc ::
  "nat \<Rightarrow> 'a iports_scheme \<Rightarrow> (kern_return_t \<times> mach_port_t \<times> nat \<times> 'a iports_scheme) option" where
  "ipc_port_alloc sp s = do {
     (kr, name, port, s) \<leftarrow> ipc_object_alloc sp IOT_PORT MACH_PORT_TYPE_RECEIVE s;
     Some (if kr \<noteq> KERN_SUCCESS then (kr, 0, 0, s)
           else (KERN_SUCCESS, name, port, ipc_port_init port sp name s))
   }"

definition ipc_port_alloc_name ::
  "nat \<Rightarrow> mach_port_t \<Rightarrow> 'a iports_scheme \<Rightarrow> (kern_return_t \<times> nat \<times> 'a iports_scheme) option" where
  "ipc_port_alloc_name sp name s = do {
     (kr, port, s) \<leftarrow> ipc_object_alloc_name sp IOT_PORT MACH_PORT_TYPE_RECEIVE name s;
     Some (if kr \<noteq> KERN_SUCCESS then (kr, 0, s)
           else (KERN_SUCCESS, port, ipc_port_init port sp name s))
   }"

definition ipc_port_alloc_special :: "nat \<Rightarrow> 'a iports_scheme \<Rightarrow> nat \<times> 'a iports_scheme" where
  "ipc_port_alloc_special sp s =
     (let (port, s) = io_alloc s
      in if port = 0 then (0, s)
         else (port, ipc_port_init port sp (port_as_name port)
           (upd_port port (\<lambda>x. x\<lparr>ip_references := 1, ip_bits := io_makebits True IOT_PORT 0\<rparr>) s)))"

section \<open>Circles of receive rights in messages\<close>

definition in_transit :: "ipc_port \<Rightarrow> bool" where
  "in_transit port \<longleftrightarrow> ip_active port \<and> ip_receiver_name port = 0 \<and> ip_data port \<noteq> 0"

definition in_limbo :: "ipc_port \<Rightarrow> bool" where
  "in_limbo port \<longleftrightarrow> ip_active port \<and> ip_receiver_name port = 0 \<and> ip_data port = 0"

text \<open>The end of the chain of ports in transit.\<close>

partial_function (option) chain_base :: "nat \<Rightarrow> 'a iports_scheme \<Rightarrow> nat option" where
  "chain_base base s = do {
     port \<leftarrow> port_at base s;
     if \<not> in_transit port then Some base else chain_base (ip_data port) s
   }"

text \<open>The loops that unlock the chain, with their assertions.\<close>

partial_function (option) unlock_circle :: "nat \<Rightarrow> 'a iports_scheme \<Rightarrow> unit option" where
  "unlock_circle dest s =
     (if dest = 0 then Some ()
      else do {
        port \<leftarrow> port_at dest s;
        c_assert (ip_active port);
        c_assert (ip_receiver_name port = 0);
        unlock_circle (ip_data port) s
      })"

partial_function (option) unlock_chain :: "nat \<Rightarrow> nat \<Rightarrow> 'a iports_scheme \<Rightarrow> unit option" where
  "unlock_chain p base s =
     (if p = base then Some ()
      else do {
        port \<leftarrow> port_at p s;
        c_assert (in_transit port);
        unlock_chain (ip_data port) base s
      })"

definition ipc_port_check_circularity ::
  "nat \<Rightarrow> nat \<Rightarrow> 'a iports_scheme \<Rightarrow> (bool \<times> 'a iports_scheme) option" where
  "ipc_port_check_circularity p dest s = do {
     c_assert (p \<noteq> 0);
     c_assert (dest \<noteq> 0);
     if p = dest then Some (True, s)
     else do {
       port \<leftarrow> port_at p s;
       dport \<leftarrow> port_at dest s;
       base \<leftarrow> (if \<not> in_transit dport then Some dest else chain_base dest s);
       if p = base then do {
         c_assert (in_limbo port);
         _ \<leftarrow> unlock_circle dest s;
         Some (True, s)
       }
       else do {
         c_assert (in_limbo port);
         let s = ip_reference dest s;
         let s = upd_port p (\<lambda>x. x\<lparr>ip_data := dest\<rparr>) s;
         _ \<leftarrow> unlock_chain p base s;
         bport \<leftarrow> port_at base s;
         c_assert (\<not> in_transit bport);
         Some (False, s)
       }
     }
   }"

section \<open>Rights\<close>

definition ipc_port_lookup_notify ::
  "nat \<Rightarrow> mach_port_t \<Rightarrow> 'a iports_scheme \<Rightarrow> (nat \<times> 'a iports_scheme) option" where
  "ipc_port_lookup_notify sp name s = do {
     c_assert (is_active (spaces s sp));
     (entry, s) \<leftarrow> ipc_entry_lookup sp name s;
     (case entry of
        None \<Rightarrow> Some (0, s)
      | Some r \<Rightarrow> do {
          bits \<leftarrow> ent_bits sp r s;
          if bits AND MACH_PORT_TYPE_RECEIVE = 0 then Some (0, s)
          else do {
            p \<leftarrow> ent_object sp r s;
            c_assert (p \<noteq> 0);
            port \<leftarrow> port_at p s;
            c_assert (ip_active port);
            c_assert (ip_receiver_name port = name);
            c_assert (ip_data port = sp);
            Some (p, upd_port p (\<lambda>x. x\<lparr>ip_sorights := ip_sorights x + 1\<rparr>) (ip_reference p s))
          }
        })
   }"

definition ipc_port_make_send :: "nat \<Rightarrow> 'a iports_scheme \<Rightarrow> (nat \<times> 'a iports_scheme) option" where
  "ipc_port_make_send p s = do {
     c_assert (IP_VALID p);
     port \<leftarrow> port_at p s;
     c_assert (ip_active port);
     Some (p, ip_reference p
       (upd_port p (\<lambda>x. x\<lparr>ip_mscount := ip_mscount x + 1, ip_srights := ip_srights x + 1\<rparr>) s))
   }"

definition ipc_port_copy_send :: "nat \<Rightarrow> 'a iports_scheme \<Rightarrow> (nat \<times> 'a iports_scheme) option" where
  "ipc_port_copy_send p s =
     (if \<not> IP_VALID p then Some (p, s)
      else do {
        port \<leftarrow> port_at p s;
        if ip_active port then do {
          c_assert (0 < ip_srights port);
          Some (p, upd_port p (\<lambda>x. x\<lparr>ip_srights := ip_srights x + 1\<rparr>) (ip_reference p s))
        }
        else Some (IP_DEAD, s)
      })"

definition ipc_port_release_send :: "nat \<Rightarrow> 'a iports_scheme \<Rightarrow> 'a iports_scheme option" where
  "ipc_port_release_send p s = do {
     c_assert (IP_VALID p);
     _ \<leftarrow> port_at p s;
     let s = ip_release p s;
     port \<leftarrow> port_at p s;
     if \<not> ip_active port then Some (ip_check_unlock p s)
     else do {
       c_assert (0 < ip_srights port);
       let s = upd_port p (\<lambda>x. x\<lparr>ip_srights := ip_srights x - 1\<rparr>) s;
       Some (if ip_srights port - 1 = 0 \<and> ip_nsrequest port \<noteq> 0
             then upd_port p (\<lambda>x. x\<lparr>ip_nsrequest := 0\<rparr>) s else s)
     }
   }"

definition ipc_port_copyout_send :: "nat \<Rightarrow> nat \<Rightarrow> 'a iports_scheme \<Rightarrow> (mach_port_t \<times> 'a iports_scheme) option" where
  "ipc_port_copyout_send sright sp s =
     (if IP_VALID sright then do {
        (kr, name, s) \<leftarrow> ipc_object_copyout sp sright MACH_MSG_TYPE_PORT_SEND s;
        if kr \<noteq> KERN_SUCCESS then do {
          s \<leftarrow> ipc_port_release_send sright s;
          Some (if kr = KERN_INVALID_CAPABILITY then - 2 else 0, s)
        }
        else Some (name, s)
      }
      else Some (port_as_name sright, s))"

definition ipc_port_make_sonce :: "nat \<Rightarrow> 'a iports_scheme \<Rightarrow> (nat \<times> 'a iports_scheme) option" where
  "ipc_port_make_sonce p s = do {
     c_assert (IP_VALID p);
     port \<leftarrow> port_at p s;
     c_assert (ip_active port);
     Some (p, ip_reference p (upd_port p (\<lambda>x. x\<lparr>ip_sorights := ip_sorights x + 1\<rparr>) s))
   }"

definition ipc_port_release_sonce :: "nat \<Rightarrow> 'a iports_scheme \<Rightarrow> 'a iports_scheme option" where
  "ipc_port_release_sonce p s = do {
     c_assert (IP_VALID p);
     port \<leftarrow> port_at p s;
     c_assert (0 < ip_sorights port);
     let s = ip_release p (upd_port p (\<lambda>x. x\<lparr>ip_sorights := ip_sorights x - 1\<rparr>) s);
     Some (if \<not> ip_active port then ip_check_unlock p s else s)
   }"

section \<open>Destroying ports\<close>

text \<open>The loop over the queued messages.\<close>

partial_function (option) destroy_messages :: "nat \<Rightarrow> nat \<Rightarrow> 'a iports_scheme \<Rightarrow> 'a iports_scheme option" where
  "destroy_messages p base s = do {
     (kmsg, base, s) \<leftarrow> ipc_kmsg_dequeue base s;
     if kmsg = 0 then Some s
     else do {
       k \<leftarrow> kmsg_at kmsg s;
       c_assert (ikm_remote_port k = port_as_name p);
       s \<leftarrow> ipc_object_release p s;
       s \<leftarrow> ipc_kmsg_destroy kmsg (upd_kmsg kmsg (\<lambda>k. k\<lparr>ikm_remote_port := 0\<rparr>) s);
       destroy_messages p base s
     }
   }"

text \<open>The slots of a request table that is given up: each request in use has a send-once right.\<close>

definition dn_notify_all :: "nat \<Rightarrow> dn_table \<Rightarrow> unit option" where
  "dn_notify_all sz table =
     c_assert (sz \<le> length (dn_slots table) \<and>
       list_all (\<lambda>r. ipr_name r \<noteq> 0 \<longrightarrow> ipr_notify r \<noteq> 0) (drop 1 (take sz (dn_slots table))))"

text \<open>Destruction proper, after the question of a backup port.\<close>

definition destroy_port :: "nat \<Rightarrow> 'a iports_scheme \<Rightarrow> 'a iports_scheme option" where
  "destroy_port p s = do {
     port \<leftarrow> port_at p s;
     s \<leftarrow> wake_all MACH_MSG_SUCCESS (ip_blocked port) s;
     let s = upd_port p (\<lambda>x. x\<lparr>ip_blocked := 0\<rparr>) s;
     let s = upd_port p (\<lambda>x. x\<lparr>ip_bits := ip_bits x AND NOT IO_BITS_ACTIVE\<rparr>) s;
     let (timestamp, s) = ipc_port_timestamp s;
     let s = upd_port p (\<lambda>x. x\<lparr>ip_data := ip_data x div 2 ^ 32 * 2 ^ 32 + unat timestamp\<rparr>) s;
     c_assert (imq_threads port = 0);
     s \<leftarrow> destroy_messages p (imq_messages port) s;
     let s = upd_port p (\<lambda>x. x\<lparr>imq_messages := 0\<rparr>) s;
     _ \<leftarrow> (case ip_dnrequests port of
             None \<Rightarrow> Some ()
           | Some t \<Rightarrow> do { sz \<leftarrow> dn_size (ipr_size t); dn_notify_all sz t });
     ipc_object_release p s
   }"

definition ipc_port_destroy :: "nat \<Rightarrow> 'a iports_scheme \<Rightarrow> 'a iports_scheme option" where
  "ipc_port_destroy p s = do {
     port \<leftarrow> port_at p s;
     c_assert (ip_active port);
     c_assert (ip_pset port = 0);
     c_assert (ip_mscount port = 0);
     c_assert (ip_seqno port = 0);
     let pdrequest = ip_pdrequest port;
     if pdrequest = 0 then destroy_port p s
     else do {
       let s = upd_port p (\<lambda>x. x\<lparr>ip_pdrequest := 0, ip_receiver_name := 0, ip_data := 0\<rparr>) s;
       (circular, s) \<leftarrow> ipc_port_check_circularity p pdrequest s;
       if \<not> circular then Some s
       else do {
         s \<leftarrow> ipc_port_release_sonce pdrequest s;
         port \<leftarrow> port_at p s;
         c_assert (ip_active port);
         c_assert (ip_pset port = 0);
         c_assert (ip_mscount port = 0);
         c_assert (ip_seqno port = 0);
         c_assert (ip_pdrequest port = 0);
         c_assert (ip_receiver_name port = 0);
         c_assert (ip_data port = 0);
         destroy_port p s
       }
     }
   }"

definition ipc_port_release_receive :: "nat \<Rightarrow> 'a iports_scheme \<Rightarrow> 'a iports_scheme option" where
  "ipc_port_release_receive p s = do {
     c_assert (IP_VALID p);
     port \<leftarrow> port_at p s;
     c_assert (ip_active port);
     c_assert (ip_receiver_name port = 0);
     let dest = ip_data port;
     s \<leftarrow> ipc_port_destroy p s;
     (if dest \<noteq> 0 then ipc_object_release dest s else Some s)
   }"

definition ipc_port_dealloc_special :: "nat \<Rightarrow> nat \<Rightarrow> 'a iports_scheme \<Rightarrow> 'a iports_scheme option" where
  "ipc_port_dealloc_special p sp s = do {
     port \<leftarrow> port_at p s;
     c_assert (ip_active port);
     c_assert (ip_receiver_name port \<noteq> 0);
     c_assert (ip_data port = sp);
     let s = upd_port p (\<lambda>x. x\<lparr>ip_receiver_name := 0\<rparr>) s;
     let s = upd_port p (\<lambda>x. x\<lparr>ip_data := 0\<rparr>) s;
     s \<leftarrow> ipc_port_clear_receiver p s;
     ipc_port_destroy p s
   }"

end
