(* ===== verification/Ipc_Transit.thy ===== *)
theory Ipc_Transit
  imports Ipc_Port
begin

text \<open>
  Ports in transit: the graph in which a port points to the port its receive right has been sent to, and
  what \<^verbatim>\<open>ipc_port_check_circularity\<close> does to it.
\<close>

lemma io_active_bit: "io_active bits \<longleftrightarrow> bit bits 31"
  by (simp add: io_active_def word_sless_alt sint_uint signed_take_bit_negative_iff bit_uint_iff)

definition transit :: "'a iports_scheme \<Rightarrow> (nat \<times> nat) set" where
  "transit s = {(p, d). p \<in> set (live_ports s) \<and> in_transit (port_heap s p) \<and> d = ip_data (port_heap s p)}"

definition transit_ok :: "'a iports_scheme \<Rightarrow> bool" where
  "transit_ok s \<longleftrightarrow> acyclic (transit s) \<and> Range (transit s) \<subseteq> set (live_ports s)"

lemma transit_iff:
  "(p, d) \<in> transit s \<longleftrightarrow> p \<in> set (live_ports s) \<and> in_transit (port_heap s p) \<and> d = ip_data (port_heap s p)"
  by (simp add: transit_def)

lemma wf_transit: "transit_ok s \<Longrightarrow> wf ((transit s)\<inverse>)"
proof -
  assume ok: "transit_ok s"
  have "transit s \<subseteq> set (live_ports s) \<times> set (live_ports s)"
    using ok by (auto simp: transit_ok_def transit_iff)
  then have "finite (transit s)" by (rule finite_subset) simp
  then show ?thesis using ok by (simp add: transit_ok_def finite_acyclic_wf_converse)
qed

text \<open>The loop that looks for the end of the chain, and those that unlock it, end.\<close>

lemma chain_base_end:
  assumes ok: "transit_ok s" and "d \<in> set (live_ports s)"
  shows "\<exists>b. chain_base d s = Some b \<and> (d, b) \<in> (transit s)\<^sup>* \<and> b \<in> set (live_ports s) \<and> \<not> in_transit (port_heap s b)"
  using wf_transit [OF ok] assms(2)
proof (induction d rule: wf_induct_rule)
  case (less d)
  show ?case
  proof (cases "in_transit (port_heap s d)")
    case True
    let ?e = "ip_data (port_heap s d)"
    have edge: "(d, ?e) \<in> transit s" using True less.prems by (simp add: transit_iff)
    then have "?e \<in> set (live_ports s)" using ok by (auto simp: transit_ok_def)
    with less.IH [of ?e] edge obtain b where "chain_base ?e s = Some b" "(?e, b) \<in> (transit s)\<^sup>*"
      "b \<in> set (live_ports s)" "\<not> in_transit (port_heap s b)" by auto
    with edge True less.prems show ?thesis
      by (intro exI [of _ b]) (subst chain_base.simps, auto simp: port_at_def intro: converse_rtrancl_into_rtrancl)
  next
    case False
    with less.prems show ?thesis by (intro exI [of _ d]) (subst chain_base.simps, auto simp: port_at_def)
  qed
qed

lemma transit_fun: "(d, e) \<in> transit s \<Longrightarrow> (d, e') \<in> transit s \<Longrightarrow> e = e'"
  by (simp add: transit_iff)

lemma transit_end: "(d, b) \<in> (transit s)\<^sup>* \<Longrightarrow> \<not> in_transit (port_heap s b) \<Longrightarrow> (d, p) \<in> (transit s)\<^sup>* \<Longrightarrow> (p, b) \<in> (transit s)\<^sup>*"
proof (induction rule: converse_rtrancl_induct)
  case base
  from base(2) show ?case by (cases rule: converse_rtranclE) (use base(1) in \<open>auto simp: transit_iff\<close>)
next
  case (step y z)
  from step.prems(2) show ?case
  proof (cases rule: converse_rtranclE)
    case base
    with step.hyps show ?thesis by (auto intro: converse_rtrancl_into_rtrancl)
  next
    case (step y')
    with step.hyps have "y' = z" by (auto dest: transit_fun)
    with step step.prems(1) \<open>\<lbrakk>\<not> in_transit (port_heap s b); (z, p) \<in> (transit s)\<^sup>*\<rbrakk> \<Longrightarrow> (p, b) \<in> (transit s)\<^sup>*\<close>
    show ?thesis by simp
  qed
qed

lemma unlock_circle_end:
  "(d, p) \<in> (transit s)\<^sup>* \<Longrightarrow> p \<in> set (live_ports s) \<Longrightarrow> in_limbo (port_heap s p) \<Longrightarrow> 0 \<notin> set (live_ports s) \<Longrightarrow>
   unlock_circle d s = Some ()"
proof (induction rule: converse_rtrancl_induct)
  case base
  then have "p \<noteq> 0" by (cases "p = 0") auto
  moreover have "unlock_circle 0 s = Some ()" by (subst unlock_circle.simps) simp
  ultimately show ?case using base by (subst unlock_circle.simps) (auto simp: port_at_def in_limbo_def)
next
  case (step d e)
  then have "d \<noteq> 0" by (cases "d = 0") (auto simp: transit_iff)
  with step show ?case by (subst unlock_circle.simps) (auto simp: port_at_def in_transit_def transit_iff)
qed

lemma unlock_chain_end:
  "(d, b) \<in> (transit s)\<^sup>* \<Longrightarrow> \<not> in_transit (port_heap s b) \<Longrightarrow> unlock_chain d b s = Some ()"
proof (induction rule: converse_rtrancl_induct)
  case base
  then show ?case by (subst unlock_chain.simps) simp
next
  case (step d e)
  then have "d \<noteq> b" by (auto simp: transit_iff)
  with step show ?case by (subst unlock_chain.simps) (auto simp: port_at_def transit_iff)
qed

text \<open>A port in limbo is sent to \<open>dest\<close>: one edge more.\<close>

definition sent_to :: "nat \<Rightarrow> nat \<Rightarrow> 'a iports_scheme \<Rightarrow> 'a iports_scheme" where
  "sent_to p dest s = upd_port p (\<lambda>x. x\<lparr>ip_data := dest\<rparr>) (ip_reference dest s)"

lemma sent_to_simps [simp]:
  "live_ports (sent_to p d s) = live_ports s"
  "in_transit (port_heap (sent_to p d s) q) =
     (if q = p then ip_active (port_heap s p) \<and> ip_receiver_name (port_heap s p) = 0 \<and> d \<noteq> 0 else in_transit (port_heap s q))"
  "ip_data (port_heap (sent_to p d s) q) = (if q = p then d else ip_data (port_heap s q))"
  by (auto simp: sent_to_def upd_port_def ip_reference_def in_transit_def)

lemma limbo_not_transit: "in_limbo port \<Longrightarrow> \<not> in_transit port"
  by (simp add: in_limbo_def in_transit_def)

lemma transit_sent:
  "p \<in> set (live_ports s) \<Longrightarrow> in_limbo (port_heap s p) \<Longrightarrow> d \<noteq> 0 \<Longrightarrow> transit (sent_to p d s) = insert (p, d) (transit s)"
  using limbo_not_transit [of "port_heap s p"] by (auto simp: transit_def in_limbo_def split: if_splits)

lemma transit_ok_sent:
  assumes "transit_ok s" "p \<in> set (live_ports s)" "in_limbo (port_heap s p)" "d \<noteq> 0" "d \<in> set (live_ports s)"
    "(d, p) \<notin> (transit s)\<^sup>*"
  shows "transit_ok (sent_to p d s)"
  using assms by (auto simp: transit_ok_def transit_sent acyclic_insert)

lemma check_circularity_end:
  assumes ok: "transit_ok s" "0 \<notin> set (live_ports s)"
    and p: "p \<in> set (live_ports s)" "in_limbo (port_heap s p)" and d: "d \<in> set (live_ports s)"
  shows "ipc_port_check_circularity p d s =
    (if (d, p) \<in> (transit s)\<^sup>* then Some (True, s) else Some (False, sent_to p d s))"
proof -
  from p d ok(2) have n0: "p \<noteq> 0" "d \<noteq> 0" by metis+
  obtain b where b: "chain_base d s = Some b" "(d, b) \<in> (transit s)\<^sup>*" "b \<in> set (live_ports s)"
    "\<not> in_transit (port_heap s b)" using chain_base_end [OF ok(1) d] by blast
  have base: "(if \<not> in_transit (port_heap s d) then Some d else chain_base d s) = Some b"
  proof (cases "in_transit (port_heap s d)")
    case False
    then have "chain_base d s = Some d" using d by (subst chain_base.simps) (simp add: port_at_def)
    with b(1) False show ?thesis by simp
  qed (use b(1) in simp)
  have np: "\<not> in_transit (port_heap s p)" using p(2) by (simp add: in_limbo_def in_transit_def)
  have reach: "(d, p) \<in> (transit s)\<^sup>* \<longleftrightarrow> p = b"
  proof
    assume "(d, p) \<in> (transit s)\<^sup>*"
    from transit_end [OF b(2,4) this] show "p = b"
      by (cases rule: converse_rtranclE) (use np in \<open>auto simp: transit_iff\<close>)
  qed (use b(2) in simp)
  show ?thesis
  proof (cases "p = d")
    case True
    then show ?thesis using n0 by (simp add: ipc_port_check_circularity_def)
  next
    case neq: False
    show ?thesis
    proof (cases "p = b")
      case True
      with b(2) have "unlock_circle d s = Some ()" using unlock_circle_end p ok(2) by metis
      with True neq n0 p d base reach show ?thesis
        by (simp add: ipc_port_check_circularity_def port_at_def)
    next
      case False
      let ?s = "sent_to p d s"
      have "transit ?s = insert (p, d) (transit s)" using transit_sent p n0 by blast
      then have "(p, b) \<in> (transit ?s)\<^sup>*"
        using b(2) by (auto intro: converse_rtrancl_into_rtrancl rtrancl_mono [THEN subsetD, of "transit s"])
      moreover have nb: "\<not> in_transit (port_heap ?s b)" using b(4) False by simp
      ultimately have "unlock_chain p b ?s = Some ()" by (rule unlock_chain_end)
      moreover have "port_at b ?s = Some (port_heap ?s b)" using b(3) by (simp add: port_at_def)
      ultimately show ?thesis using False neq n0 p d base reach nb
        by (simp add: ipc_port_check_circularity_def port_at_def [of p] port_at_def [of d] Let_def sent_to_def [symmetric])
    qed
  qed
qed

end
