(* ===== verification/Request_Slots.thy ===== *)
theory Request_Slots
  imports Prelude
begin

text \<open>
  The contract of a table of numbered requests: a request that is taken gets a number no other
  outstanding request has, and is given back under that number and its key, once.
\<close>

datatype ('k, 'r) request_op = Register 'k 'r | Cancel nat 'k

text \<open>What a client sees: the number given, a refusal, or the request it gets back.\<close>

datatype ('k, 'r) request_event = Given nat 'k 'r | Refused 'k 'r | Returned nat 'k 'r

text \<open>A run of a client over a table, and the runs that the set of outstanding requests allows.\<close>

fun slots_run ::
  "('k \<Rightarrow> 'r \<Rightarrow> 't \<Rightarrow> (nat option \<times> 't) option) \<Rightarrow> (nat \<Rightarrow> 'k \<Rightarrow> 't \<Rightarrow> ('r \<times> 't) option) \<Rightarrow>
   ('k, 'r) request_op list \<Rightarrow> 't \<Rightarrow> (('k, 'r) request_event list \<times> 't) option" where
  "slots_run reg cancel [] t = Some ([], t)"
| "slots_run reg cancel (Register k r # ops) t = do {
     (i, t) \<leftarrow> reg k r t;
     (es, t) \<leftarrow> slots_run reg cancel ops t;
     Some ((case i of None \<Rightarrow> Refused k r | Some i \<Rightarrow> Given i k r) # es, t)
   }"
| "slots_run reg cancel (Cancel i k # ops) t = do {
     (r, t) \<leftarrow> cancel i k t;
     (es, t) \<leftarrow> slots_run reg cancel ops t;
     Some (Returned i k r # es, t)
   }"

inductive allowed_run ::
  "(nat \<rightharpoonup> 'k \<times> 'r) \<Rightarrow> ('k, 'r) request_op list \<Rightarrow> ('k, 'r) request_event list \<Rightarrow> (nat \<rightharpoonup> 'k \<times> 'r) \<Rightarrow> bool" where
  allowed_Nil: "allowed_run m [] [] m"
| allowed_Given: "m i = None \<Longrightarrow> allowed_run (m(i \<mapsto> (k, r))) ops es m' \<Longrightarrow>
    allowed_run m (Register k r # ops) (Given i k r # es) m'"
| allowed_Refused: "allowed_run m ops es m' \<Longrightarrow> allowed_run m (Register k r # ops) (Refused k r # es) m'"
| allowed_Returned: "m i = Some (k, r) \<Longrightarrow> allowed_run (m(i := None)) ops es m' \<Longrightarrow>
    allowed_run m (Cancel i k # ops) (Returned i k r # es) m'"

inductive_cases allowed_CancelE: "allowed_run m (Cancel i k # ops) es m'"

fun lawful :: "('k \<Rightarrow> 'r \<Rightarrow> bool) \<Rightarrow> ('k, 'r) request_op list \<Rightarrow> bool" where
  "lawful ok [] \<longleftrightarrow> True"
| "lawful ok (Register k r # ops) \<longleftrightarrow> ok k r \<and> lawful ok ops"
| "lawful ok (Cancel i k # ops) \<longleftrightarrow> (\<exists>r. ok k r) \<and> lawful ok ops"

locale request_slots =
  fixes reqs :: "'t \<Rightarrow> nat \<rightharpoonup> 'k \<times> 'r"
    and inv :: "'t \<Rightarrow> bool"
    and ok :: "'k \<Rightarrow> 'r \<Rightarrow> bool"
    and room :: "'t \<Rightarrow> nat"
    and reg :: "'k \<Rightarrow> 'r \<Rightarrow> 't \<Rightarrow> (nat option \<times> 't) option"
    and cancel :: "nat \<Rightarrow> 'k \<Rightarrow> 't \<Rightarrow> ('r \<times> 't) option"
  assumes reg_room: "inv t \<Longrightarrow> ok k r \<Longrightarrow> room t > 0 \<Longrightarrow>
      \<exists>i t'. reg k r t = Some (Some i, t') \<and> inv t' \<and> reqs t i = None \<and> reqs t' = (reqs t)(i \<mapsto> (k, r)) \<and>
        room t = Suc (room t')"
    and reg_full: "inv t \<Longrightarrow> ok k r \<Longrightarrow> room t = 0 \<Longrightarrow> reg k r t = Some (None, t)"
    and cancel_there: "inv t \<Longrightarrow> reqs t i = Some (k, r) \<Longrightarrow>
      \<exists>t'. cancel i k t = Some (r, t') \<and> inv t' \<and> reqs t' = (reqs t)(i := None) \<and> room t' = Suc (room t)"
    and cancel_not: "inv t \<Longrightarrow> \<forall>r. reqs t i \<noteq> Some (k, r) \<Longrightarrow> cancel i k t = None"
begin

text \<open>Every run that the table survives is one the outstanding requests allow, and it stops only at a
  cancellation of what is not outstanding.\<close>

lemma run_allowed:
  "inv t \<Longrightarrow> lawful ok ops \<Longrightarrow> slots_run reg cancel ops t = Some (es, t') \<Longrightarrow>
   inv t' \<and> allowed_run (reqs t) ops es (reqs t')"
proof (induction ops arbitrary: t es)
  case Nil
  then show ?case by (auto intro: allowed_Nil)
next
  case (Cons op ops)
  show ?case
  proof (cases op)
    case (Register k r)
    show ?thesis
    proof (cases "room t")
      case 0
      with Cons.prems Register reg_full [of t k r] obtain es1 where
        "slots_run reg cancel ops t = Some (es1, t')" "es = Refused k r # es1"
        by (auto simp: Option.bind_eq_Some_conv)
      with Cons.IH [of t es1] Cons.prems show ?thesis
        by (auto simp: Register intro: allowed_Refused)
    next
      case (Suc n)
      with Cons.prems Register obtain i t1 where t1: "reg k r t = Some (Some i, t1)" "inv t1" "reqs t i = None"
        "reqs t1 = (reqs t)(i \<mapsto> (k, r))" using reg_room [of t k r] by auto
      with Cons.prems Register obtain es1 where
        "slots_run reg cancel ops t1 = Some (es1, t')" "es = Given i k r # es1"
        by (auto simp: Option.bind_eq_Some_conv)
      with Cons.IH [of t1 es1] Cons.prems t1 show ?thesis
        by (auto simp: Register simp del: fun_upd_apply intro: allowed_Given)
    qed
  next
    case (Cancel i k)
    show ?thesis
    proof (cases "\<exists>r. reqs t i = Some (k, r)")
      case True
      then obtain r t1 where r: "reqs t i = Some (k, r)" and t1: "cancel i k t = Some (r, t1)" "inv t1"
        "reqs t1 = (reqs t)(i := None)" using cancel_there [OF Cons.prems(1)] by blast
      with Cons.prems Cancel obtain es1 where
        "slots_run reg cancel ops t1 = Some (es1, t')" "es = Returned i k r # es1"
        by (auto simp: Option.bind_eq_Some_conv)
      with Cons.IH [of t1 es1] Cons.prems t1 r show ?thesis
        by (auto simp: Cancel simp del: fun_upd_apply intro: allowed_Returned)
    next
      case False
      with Cons.prems Cancel cancel_not [of t i k] show ?thesis by auto
    qed
  qed
qed

lemma run_stops:
  "inv t \<Longrightarrow> lawful ok ops \<Longrightarrow> slots_run reg cancel ops t = None \<Longrightarrow>
   \<exists>ops1 i k ops2 es t1. ops = ops1 @ Cancel i k # ops2 \<and> slots_run reg cancel ops1 t = Some (es, t1) \<and>
     (\<forall>r. reqs t1 i \<noteq> Some (k, r))"
proof (induction ops arbitrary: t)
  case (Cons op ops)
  have step: ?case
    if one: "slots_run reg cancel [op] t = Some ([e], t1)" "inv t1"
      and rest: "slots_run reg cancel (op # ops) t = None \<Longrightarrow> slots_run reg cancel ops t1 = None"
      and app: "\<And>ops1 es t2. slots_run reg cancel ops1 t1 = Some (es, t2) \<Longrightarrow>
        slots_run reg cancel (op # ops1) t = Some (e # es, t2)" for e t1
  proof -
    have "lawful ok ops" using Cons.prems(2) by (cases op) auto
    from Cons.IH [OF one(2) this rest [OF Cons.prems(3)]] obtain ops1 i k ops2 es t2 where
      "ops = ops1 @ Cancel i k # ops2" "slots_run reg cancel ops1 t1 = Some (es, t2)" "\<forall>r. reqs t2 i \<noteq> Some (k, r)"
      by blast
    with app [of ops1 es t2] show ?thesis
      by (intro exI [of _ "op # ops1"] exI [of _ i] exI [of _ k] exI [of _ ops2] exI [of _ "e # es"] exI [of _ t2]) simp
  qed
  show ?case
  proof (cases op)
    case (Register k r)
    obtain i t1 where "reg k r t = Some (i, t1)" "inv t1"
      using Cons.prems Register reg_full [of t k r] reg_room [of t k r] by (cases "room t") auto
    then show ?thesis
      by (intro step [of "case i of None \<Rightarrow> Refused k r | Some i \<Rightarrow> Given i k r" t1])
        (auto simp: Register Option.bind_eq_None_conv case_prod_unfold)
  next
    case (Cancel i k)
    show ?thesis
    proof (cases "\<exists>r. reqs t i = Some (k, r)")
      case True
      then obtain r t1 where "cancel i k t = Some (r, t1)" "inv t1" using cancel_there [OF Cons.prems(1)] by blast
      then show ?thesis
        by (intro step [of "Returned i k r" t1]) (auto simp: Cancel Option.bind_eq_None_conv case_prod_unfold)
    next
      case False
      then show ?thesis
        by (intro exI [of _ "[]"] exI [of _ i] exI [of _ k] exI [of _ ops] exI [of _ "[]"] exI [of _ t])
          (auto simp: Cancel)
    qed
  qed
qed simp

text \<open>A request registered and cancelled comes back, whatever else is registered in between.\<close>

lemma registered_comes_back:
  assumes "inv t" "ok k r" "lawful ok (map (\<lambda>(k, r). Register k r) krs)"
    and "slots_run reg cancel (Register k r # map (\<lambda>(k, r). Register k r) krs) t = Some (Given i k r # es, t')"
  shows "\<exists>t''. cancel i k t' = Some (r, t'')"
proof -
  have keep: "allowed_run m ops es m' \<Longrightarrow> \<forall>j k. Cancel j k \<notin> set ops \<Longrightarrow> m i = Some x \<Longrightarrow> m' i = Some x"
    for m ops es m' x
    by (induction rule: allowed_run.induct) (auto, metis option.distinct(1))
  have no: "\<forall>j k. Cancel j k \<notin> set (map (\<lambda>(k, r). Register k r) krs)" by auto
  from run_allowed [OF assms(1) _ assms(4)] assms(2,3) have "inv t'"
    "allowed_run (reqs t) (Register k r # map (\<lambda>(k, r). Register k r) krs) (Given i k r # es) (reqs t')" by auto
  from this(2) have "reqs t' i = Some (k, r)"
    by (cases rule: allowed_run.cases) (auto dest: keep [OF _ no])
  with cancel_there [OF \<open>inv t'\<close>] show ?thesis by blast
qed

end

end
