(* ===== verification/Ipc_Requests.thy ===== *)
theory Ipc_Requests
  imports Ipc_Port Request_Slots
begin

text \<open>
  The dead-name requests of a port: the table with its free list stands for the map from request numbers
  to names and send-once rights, and satisfies the contract of a table of requests.
\<close>

section \<open>The free list\<close>

fun dn_chain :: "ipc_port_request list \<Rightarrow> nat \<Rightarrow> nat list \<Rightarrow> bool" where
  "dn_chain sl a [] \<longleftrightarrow> a = 0"
| "dn_chain sl a (x # xs) \<longleftrightarrow>
     a = x \<and> 0 < x \<and> x < length sl \<and> ipr_name (sl ! x) = 0 \<and> dn_chain sl (ipr_notify (sl ! x)) xs"

definition dn_ok :: "dn_table \<Rightarrow> nat list \<Rightarrow> bool" where
  "dn_ok t fs \<longleftrightarrow>
     dn_slots t \<noteq> [] \<and> dn_size (ipr_size t) = Some (length (dn_slots t)) \<and>
     distinct fs \<and> dn_chain (dn_slots t) (ipr_notify (dn_slots t ! 0)) fs \<and>
     (\<forall>i < length (dn_slots t). 0 < i \<longrightarrow> i \<notin> set fs \<longrightarrow>
        ipr_name (dn_slots t ! i) \<noteq> 0 \<and> ipr_notify (dn_slots t ! i) \<noteq> 0)"

definition dn_reqs :: "dn_table \<Rightarrow> nat \<rightharpoonup> mach_port_t \<times> nat" where
  "dn_reqs t i =
     (if 0 < i \<and> i < length (dn_slots t) \<and> ipr_name (dn_slots t ! i) \<noteq> 0
      then Some (ipr_name (dn_slots t ! i), ipr_notify (dn_slots t ! i)) else None)"

definition dn_free_count :: "dn_table \<Rightarrow> nat" where
  "dn_free_count t = card {i. 0 < i \<and> i < length (dn_slots t) \<and> ipr_name (dn_slots t ! i) = 0}"

lemma dn_chain_members: "dn_chain sl a xs \<Longrightarrow> x \<in> set xs \<Longrightarrow> 0 < x \<and> x < length sl \<and> ipr_name (sl ! x) = 0"
  by (induction xs arbitrary: a) auto

lemma dn_chain_other: "y \<notin> set xs \<Longrightarrow> dn_chain (sl[y := r]) a xs = dn_chain sl a xs"
  by (induction xs arbitrary: a) (auto simp: nth_list_update)

lemma dn_chain_cong:
  "length sl \<le> length sl' \<Longrightarrow> \<forall>x \<in> set xs. sl' ! x = sl ! x \<Longrightarrow> dn_chain sl a xs \<Longrightarrow> dn_chain sl' a xs"
  by (induction xs arbitrary: a) auto

lemma dn_free_set: "dn_ok t fs \<Longrightarrow> {i. 0 < i \<and> i < length (dn_slots t) \<and> ipr_name (dn_slots t ! i) = 0} = set fs"
  by (auto simp: dn_ok_def dest: dn_chain_members)

lemma dn_free_count: "dn_ok t fs \<Longrightarrow> dn_free_count t = length fs"
  by (simp add: dn_free_count_def dn_free_set) (simp add: dn_ok_def distinct_card)

lemma dn_reqs_free: "dn_ok t fs \<Longrightarrow> i \<in> set fs \<Longrightarrow> dn_reqs t i = None"
  by (auto simp: dn_ok_def dn_reqs_def dest: dn_chain_members)

lemma dn_reqs_Some: "dn_ok t fs \<Longrightarrow> dn_reqs t i = Some (n, so) \<Longrightarrow>
  0 < i \<and> i < length (dn_slots t) \<and> i \<notin> set fs \<and> ipr_name (dn_slots t ! i) = n \<and> ipr_notify (dn_slots t ! i) = so \<and>
  n \<noteq> 0 \<and> so \<noteq> 0"
  by (auto simp: dn_ok_def dn_reqs_def split: if_splits dest: dn_chain_members)

section \<open>The operations on the table\<close>

definition dn_take :: "nat \<Rightarrow> mach_port_t \<Rightarrow> nat \<Rightarrow> dn_table \<Rightarrow> dn_table" where
  "dn_take i name soright t = upd_slot i (\<lambda>r. r\<lparr>ipr_name := name, ipr_notify := soright\<rparr>)
     (upd_slot 0 (\<lambda>r. r\<lparr>ipr_notify := ipr_notify (dn_slots t ! i)\<rparr>) t)"

definition dn_give :: "nat \<Rightarrow> dn_table \<Rightarrow> dn_table" where
  "dn_give i t = upd_slot 0 (\<lambda>r. r\<lparr>ipr_notify := i\<rparr>)
     (upd_slot i (\<lambda>r. r\<lparr>ipr_name := 0, ipr_notify := ipr_notify (dn_slots t ! 0)\<rparr>) t)"

lemma upd_slot_simps [simp]:
  "dn_slots (upd_slot i f t) = (dn_slots t)[i := f (dn_slots t ! i)]"
  "ipr_size (upd_slot i f t) = ipr_size t"
  by (simp_all add: upd_slot_def)

lemma dn_take_ok:
  assumes "dn_ok t (i # fs)" "name \<noteq> 0" "soright \<noteq> 0"
  shows "dn_ok (dn_take i name soright t) fs" "dn_reqs (dn_take i name soright t) = (dn_reqs t)(i \<mapsto> (name, soright))"
proof -
  have i: "0 < i" "i < length (dn_slots t)" "i \<notin> set fs" using assms(1) by (auto simp: dn_ok_def)
  have "0 \<notin> set fs" using assms(1) by (auto simp: dn_ok_def dest: dn_chain_members)
  with i assms show "dn_ok (dn_take i name soright t) fs"
    by (auto simp: dn_ok_def dn_take_def dn_chain_other nth_list_update)
  show "dn_reqs (dn_take i name soright t) = (dn_reqs t)(i \<mapsto> (name, soright))"
    using i assms(2) by (auto simp: fun_eq_iff dn_reqs_def dn_take_def nth_list_update)
qed

lemma dn_give_ok:
  assumes ok: "dn_ok t fs" and i: "dn_reqs t i = Some (name, soright)"
  shows "dn_ok (dn_give i t) (i # fs)" "dn_reqs (dn_give i t) = (dn_reqs t)(i := None)"
proof -
  note i' = dn_reqs_Some [OF ok i]
  have "0 \<notin> set fs" using ok by (auto simp: dn_ok_def dest: dn_chain_members)
  with i' ok show "dn_ok (dn_give i t) (i # fs)"
    by (auto simp: dn_ok_def dn_give_def dn_chain_other nth_list_update)
  show "dn_reqs (dn_give i t) = (dn_reqs t)(i := None)"
    using i' by (auto simp: fun_eq_iff dn_reqs_def dn_give_def nth_list_update split: if_splits)
qed

section \<open>The operations on the port\<close>

definition port_reqs :: "nat \<Rightarrow> 'a iports_scheme \<Rightarrow> nat \<rightharpoonup> mach_port_t \<times> nat" where
  "port_reqs p s = (case ip_dnrequests (port_heap s p) of None \<Rightarrow> Map.empty | Some t \<Rightarrow> dn_reqs t)"

definition port_room :: "nat \<Rightarrow> 'a iports_scheme \<Rightarrow> nat" where
  "port_room p s = (case ip_dnrequests (port_heap s p) of None \<Rightarrow> 0 | Some t \<Rightarrow> dn_free_count t)"

definition port_reqs_ok :: "nat \<Rightarrow> 'a iports_scheme \<Rightarrow> bool" where
  "port_reqs_ok p s \<longleftrightarrow>
     p \<in> set (live_ports s) \<and> ip_active (port_heap s p) \<and>
     (case ip_dnrequests (port_heap s p) of None \<Rightarrow> True | Some t \<Rightarrow> \<exists>fs. dn_ok t fs)"

definition dn_request_ok :: "mach_port_t \<Rightarrow> nat \<Rightarrow> bool" where
  "dn_request_ok name soright \<longleftrightarrow> name \<noteq> 0 \<and> soright \<noteq> 0"

definition register_request :: "nat \<Rightarrow> mach_port_t \<Rightarrow> nat \<Rightarrow> 'a iports_scheme \<Rightarrow> (nat option \<times> 'a iports_scheme) option" where
  "register_request p name soright s =
     map_option (\<lambda>(kr, i, s). (if kr = KERN_SUCCESS then Some i else None, s)) (ipc_port_dnrequest p name soright s)"

definition cancel_request :: "nat \<Rightarrow> nat \<Rightarrow> mach_port_t \<Rightarrow> 'a iports_scheme \<Rightarrow> (nat \<times> 'a iports_scheme) option" where
  "cancel_request p i name s = ipc_port_dncancel p name i s"

abbreviation with_table :: "nat \<Rightarrow> dn_table \<Rightarrow> 'a iports_scheme \<Rightarrow> 'a iports_scheme" where
  "with_table p t \<equiv> upd_port p (\<lambda>x. x\<lparr>ip_dnrequests := Some t\<rparr>)"

lemma with_table_simps [simp]:
  "port_reqs p (with_table p t s) = dn_reqs t"
  "port_room p (with_table p t s) = dn_free_count t"
  "port_reqs_ok p (with_table p t s) \<longleftrightarrow> p \<in> set (live_ports s) \<and> ip_active (port_heap s p) \<and> (\<exists>fs. dn_ok t fs)"
  by (simp_all add: port_reqs_def port_room_def port_reqs_ok_def upd_port_def)

lemma with_table_heap:
  "port_heap (with_table p t s) p = (port_heap s p)\<lparr>ip_dnrequests := Some t\<rparr>"
  "live_ports (with_table p t s) = live_ports s"
  by (simp_all add: upd_port_def)

lemma slot_at_lt [simp]: "i < length (dn_slots t) \<Longrightarrow> slot_at t i = Some (dn_slots t ! i)"
  by (simp add: slot_at_def)

lemma dn_ok_head: "dn_ok t fs \<Longrightarrow> slot_at t 0 = Some (dn_slots t ! 0)"
  by (cases "dn_slots t") (auto simp: dn_ok_def slot_at_def)

lemma dnrequest_full:
  assumes "port_reqs_ok p s" "dn_request_ok name soright" "port_room p s = 0"
  shows "ipc_port_dnrequest p name soright s = Some (KERN_NO_SPACE, 0, s)"
proof (cases "ip_dnrequests (port_heap s p)")
  case None
  with assms show ?thesis
    by (simp add: ipc_port_dnrequest_def port_at_def port_reqs_ok_def dn_request_ok_def)
next
  case (Some t)
  with assms(1) obtain fs where ok: "dn_ok t fs" by (auto simp: port_reqs_ok_def)
  with assms(3) Some have "fs = []" by (simp add: port_room_def dn_free_count)
  with ok Some assms(1,2) dn_ok_head [OF ok] show ?thesis
    by (simp add: ipc_port_dnrequest_def port_at_def port_reqs_ok_def dn_request_ok_def dn_ok_def)
qed

lemma dnrequest_room:
  assumes "port_reqs_ok p s" "dn_request_ok name soright" "port_room p s > 0"
  shows "\<exists>t i fs. ip_dnrequests (port_heap s p) = Some t \<and> dn_ok t (i # fs) \<and>
    ipc_port_dnrequest p name soright s = Some (KERN_SUCCESS, i, with_table p (dn_take i name soright t) s)"
proof -
  from assms(3) obtain t where t: "ip_dnrequests (port_heap s p) = Some t"
    by (auto simp: port_room_def split: option.splits)
  with assms(1) obtain fs where ok: "dn_ok t fs" by (auto simp: port_reqs_ok_def)
  with assms(3) t obtain i fs' where fs: "fs = i # fs'" by (cases fs) (auto simp: port_room_def dn_free_count)
  with ok have "0 < i" "i < length (dn_slots t)" "ipr_notify (dn_slots t ! 0) = i" "ipr_name (dn_slots t ! i) = 0"
    by (auto simp: dn_ok_def)
  with t ok fs assms(1,2) dn_ok_head [OF ok] show ?thesis
    by (intro exI [of _ t] exI [of _ i] exI [of _ fs'])
      (auto simp: ipc_port_dnrequest_def port_at_def port_reqs_ok_def dn_request_ok_def dn_take_def)
qed

lemma dncancel_there:
  assumes "port_reqs_ok p s" "port_reqs p s i = Some (name, soright)"
  shows "\<exists>t fs. ip_dnrequests (port_heap s p) = Some t \<and> dn_ok t fs \<and>
    ipc_port_dncancel p name i s = Some (soright, with_table p (dn_give i t) s)"
proof -
  from assms(2) obtain t where t: "ip_dnrequests (port_heap s p) = Some t" and i: "dn_reqs t i = Some (name, soright)"
    by (auto simp: port_reqs_def split: option.splits)
  with assms(1) obtain fs where ok: "dn_ok t fs" by (auto simp: port_reqs_ok_def)
  from dn_reqs_Some [OF ok i] t ok assms(1) dn_ok_head [OF ok] show ?thesis
    by (intro exI [of _ t] exI [of _ fs])
      (auto simp: ipc_port_dncancel_def port_at_def port_reqs_ok_def dn_give_def Let_def)
qed

lemma dncancel_not:
  assumes "port_reqs_ok p s" "\<forall>soright. port_reqs p s i \<noteq> Some (name, soright)"
  shows "ipc_port_dncancel p name i s = None"
proof (cases "ip_dnrequests (port_heap s p)")
  case None
  with assms(1) show ?thesis by (auto simp: ipc_port_dncancel_def port_at_def c_assert_def)
next
  case (Some t)
  with assms show ?thesis
    by (auto simp: ipc_port_dncancel_def port_reqs_def dn_reqs_def slot_at_def c_assert_def port_at_def)
qed

interpretation dn_slots: request_slots "port_reqs p" "port_reqs_ok p" dn_request_ok "port_room p"
  "register_request p" "cancel_request p" for p
proof
  show "\<exists>i t'. register_request p k r t = Some (Some i, t') \<and> port_reqs_ok p t' \<and> port_reqs p t i = None \<and>
      port_reqs p t' = (port_reqs p t)(i \<mapsto> (k, r)) \<and> port_room p t = Suc (port_room p t')"
    if t: "port_reqs_ok p t" "dn_request_ok k r" "0 < port_room p t" for k r t
  proof -
    from dnrequest_room [OF t] obtain tb i fs where tb: "ip_dnrequests (port_heap t p) = Some tb" "dn_ok tb (i # fs)"
      and r: "ipc_port_dnrequest p k r t = Some (KERN_SUCCESS, i, with_table p (dn_take i k r tb) t)" by blast
    from t(2) dn_take_ok [OF tb(2)] have nt: "dn_ok (dn_take i k r tb) fs"
      "dn_reqs (dn_take i k r tb) = (dn_reqs tb)(i \<mapsto> (k, r))" by (auto simp: dn_request_ok_def)
    have "port_reqs p t = dn_reqs tb" "port_room p t = Suc (length fs)"
      using tb by (simp_all add: port_reqs_def port_room_def dn_free_count)
    then show ?thesis
      using r nt t(1) dn_reqs_free [OF tb(2), of i]
      by (intro exI [of _ i] exI [of _ "with_table p (dn_take i k r tb) t"])
        (auto simp: register_request_def dn_free_count port_reqs_ok_def [of p t] simp del: fun_upd_apply)
  qed
  show "register_request p k r t = Some (None, t)"
    if "port_reqs_ok p t" "dn_request_ok k r" "port_room p t = 0" for k r t
    using dnrequest_full [OF that] by (simp add: register_request_def)
  show "\<exists>t'. cancel_request p i k t = Some (r, t') \<and> port_reqs_ok p t' \<and>
      port_reqs p t' = (port_reqs p t)(i := None) \<and> port_room p t' = Suc (port_room p t)"
    if t: "port_reqs_ok p t" "port_reqs p t i = Some (k, r)" for i k r t
  proof -
    from dncancel_there [OF t] obtain tb fs where tb: "ip_dnrequests (port_heap t p) = Some tb" "dn_ok tb fs"
      and r: "ipc_port_dncancel p k i t = Some (r, with_table p (dn_give i tb) t)" by blast
    have "dn_reqs tb i = Some (k, r)" using t(2) tb(1) by (simp add: port_reqs_def)
    note nt = dn_give_ok [OF tb(2) this]
    have "port_reqs p t = dn_reqs tb" "port_room p t = length fs"
      using tb by (simp_all add: port_reqs_def port_room_def dn_free_count)
    then show ?thesis
      using r nt t(1)
      by (intro exI [of _ "with_table p (dn_give i tb) t"])
        (auto simp: cancel_request_def dn_free_count port_reqs_ok_def [of p t] simp del: fun_upd_apply)
  qed
  show "cancel_request p i k t = None"
    if "port_reqs_ok p t" "\<forall>r. port_reqs p t i \<noteq> Some (k, r)" for i k t
    using dncancel_not [OF that] by (simp add: cancel_request_def)
qed

section \<open>Growing\<close>

lemma dn_free_step_pair [simp]: "dn_free_step i (sl, f) = (sl[i := \<lparr>ipr_notify = f, ipr_name = 0\<rparr>], i)"
  by (simp add: dn_free_step_def)

lemma dn_free_fold:
  assumes "a \<le> n" "dn_chain sl f xs" "\<forall>x \<in> set xs. x < a" "0 < a"
  shows "n \<le> length sl \<Longrightarrow>
    dn_chain (fst (fold dn_free_step [a..<n] (sl, f))) (snd (fold dn_free_step [a..<n] (sl, f))) (rev [a..<n] @ xs) \<and>
    length (fst (fold dn_free_step [a..<n] (sl, f))) = length sl \<and>
    (\<forall>i < a. fst (fold dn_free_step [a..<n] (sl, f)) ! i = sl ! i)"
  using assms(1)
proof (induction rule: dec_induct)
  case base
  then show ?case using assms(2) by simp
next
  case (step n)
  obtain q g where q: "fold dn_free_step [a..<n] (sl, f) = (q, g)" by (cases "fold dn_free_step [a..<n] (sl, f)")
  have "n \<notin> set (rev [a..<n] @ xs)" using assms(3) step.hyps by auto
  then show ?case
    using step.IH step.prems step.hyps assms(4) dn_chain_other [of n "rev [a..<n] @ xs" q _ g]
    by (simp add: q)
qed

lemma dn_grown_new:
  assumes "dn_size its = Some nsize" "1 < nsize"
  shows "\<exists>t. dn_grown its 1 nsize None = Some t \<and> dn_ok t (rev [1..<nsize]) \<and> dn_reqs t = Map.empty \<and>
    length (dn_slots t) = nsize"
proof -
  let ?sl = "replicate nsize zero_request"
  obtain q g where q: "fold dn_free_step [1..<nsize] (?sl, 0) = (q, g)"
    by (cases "fold dn_free_step [1..<nsize] (?sl, 0)")
  have "dn_chain q g (rev [1..<nsize])" "length q = nsize"
    using dn_free_fold [of 1 nsize ?sl 0 "[]", unfolded q] assms(2)
    by simp_all
  then have ok: "dn_ok \<lparr>ipr_size = its, dn_slots = q[0 := (q ! 0)\<lparr>ipr_notify := g\<rparr>]\<rparr> (rev [1..<nsize])"
    using assms by (auto simp: dn_ok_def dn_chain_other)
  have "dn_reqs \<lparr>ipr_size = its, dn_slots = q[0 := (q ! 0)\<lparr>ipr_notify := g\<rparr>]\<rparr> i = None" for i
    using dn_reqs_free [OF ok, of i] \<open>length q = nsize\<close> by (cases "i \<in> set (rev [1..<nsize])") (auto simp: dn_reqs_def)
  moreover have "dn_grown its 1 nsize None = Some \<lparr>ipr_size = its, dn_slots = q[0 := (q ! 0)\<lparr>ipr_notify := g\<rparr>]\<rparr>"
    using assms(2) q by (simp add: dn_grown_def Let_def)
  ultimately show ?thesis
    using ok \<open>length q = nsize\<close>
    by (intro exI [of _ "\<lparr>ipr_size = its, dn_slots = q[0 := (q ! 0)\<lparr>ipr_notify := g\<rparr>]\<rparr>"]) (auto simp: fun_eq_iff)
qed

lemma dn_grown_old:
  assumes ok: "dn_ok t fs" and its: "dn_size its = Some nsize" and n: "length (dn_slots t) < nsize"
  shows "\<exists>t'. dn_grown its (length (dn_slots t)) nsize (Some t) = Some t' \<and>
    dn_ok t' (rev [length (dn_slots t)..<nsize] @ fs) \<and> dn_reqs t' = dn_reqs t \<and> length (dn_slots t') = nsize"
proof -
  define os where "os = length (dn_slots t)"
  define sl where "sl = zero_request # take (os - 1) (drop 1 (dn_slots t)) @ replicate (nsize - os) zero_request"
  have os: "0 < os" "os < nsize" using ok n by (auto simp: os_def dn_ok_def)
  have len: "length sl = nsize" using os by (cases "dn_slots t") (simp_all add: sl_def os_def)
  have same: "sl ! i = dn_slots t ! i" if "0 < i" "i < os" for i
    using that by (cases i) (auto simp: sl_def os_def nth_append)
  let ?g0 = "ipr_notify (dn_slots t ! 0)"
  have fs: "\<forall>x \<in> set fs. 0 < x \<and> x < os" "dn_chain (dn_slots t) ?g0 fs" "distinct fs"
    using ok by (auto simp: dn_ok_def os_def dest: dn_chain_members)
  obtain q g where q: "fold dn_free_step [os..<nsize] (sl, ?g0) = (q, g)"
    by (cases "fold dn_free_step [os..<nsize] (sl, ?g0)")
  have "dn_chain sl ?g0 fs"
    by (rule dn_chain_cong [OF _ _ fs(2)]) (use fs(1) same len os in \<open>auto simp: os_def\<close>)
  from dn_free_fold [OF less_imp_le [OF os(2)] this _ os(1)] fs(1) len
  have qs: "dn_chain q g (rev [os..<nsize] @ fs)" "length q = nsize" "\<forall>i < os. q ! i = sl ! i"
    by (simp_all add: q)
  let ?t = "\<lparr>ipr_size = its, dn_slots = q[0 := (q ! 0)\<lparr>ipr_notify := g\<rparr>]\<rparr>"
  have slot: "dn_slots ?t ! i = dn_slots t ! i" if "0 < i" "i < os" for i
    using that qs(3) same by simp
  have nfs: "0 \<notin> set (rev [os..<nsize] @ fs)" using fs(1) os by auto
  have used: "ipr_name (dn_slots t ! i) \<noteq> 0 \<and> ipr_notify (dn_slots t ! i) \<noteq> 0" if "0 < i" "i < os" "i \<notin> set fs" for i
    using that ok by (auto simp: dn_ok_def os_def)
  have ok': "dn_ok ?t (rev [os..<nsize] @ fs)"
    unfolding dn_ok_def
  proof (intro conjI allI impI)
    fix i assume "i < length (dn_slots ?t)" "0 < i" "i \<notin> set (rev [os..<nsize] @ fs)"
    then have "0 < i" "i < os" "i \<notin> set fs" using qs(2) by auto
    from used [OF this] slot [OF this(1,2)]
    show "ipr_name (dn_slots ?t ! i) \<noteq> 0" "ipr_notify (dn_slots ?t ! i) \<noteq> 0" by metis+
  next
    show "dn_slots ?t \<noteq> []" using qs(2) os by auto
    show "dn_size (ipr_size ?t) = Some (length (dn_slots ?t))" using qs(2) its by simp
    show "distinct (rev [os..<nsize] @ fs)" using fs by auto
    show "dn_chain (dn_slots ?t) (ipr_notify (dn_slots ?t ! 0)) (rev [os..<nsize] @ fs)"
      using qs nfs os by (simp add: dn_chain_other)
  qed
  have "dn_reqs ?t i = dn_reqs t i" for i
  proof (cases "0 < i \<and> i < os")
    case True
    with slot [of i] os qs(2) show ?thesis by (simp add: dn_reqs_def os_def)
  next
    case False
    then have "dn_reqs t i = None" by (auto simp: dn_reqs_def os_def)
    moreover have "dn_reqs ?t i = None"
    proof (cases "0 < i \<and> i < nsize")
      case True
      with False have "i \<in> set (rev [os..<nsize] @ fs)" by auto
      then show ?thesis by (rule dn_reqs_free [OF ok'])
    qed (use qs(2) in \<open>auto simp: dn_reqs_def\<close>)
    ultimately show ?thesis by simp
  qed
  moreover have "dn_grown its (length (dn_slots t)) nsize (Some t) = Some ?t"
    using q os by (simp add: dn_grown_def os_def sl_def Let_def)
  ultimately show ?thesis
    using ok' qs(2) by (intro exI [of _ ?t]) (auto simp: fun_eq_iff os_def)
qed

text \<open>Growing a port's table: the requests stay, and the sizes follow the schedule to its end.\<close>

lemma dn_schedule: "dn_size its = Some n \<Longrightarrow> its < 6 \<and> n = [4, 8, 16, 32, 64, 0] ! its"
  by (auto simp: dn_size_def ipc_table_dnrequests_def split: if_splits)

lemma dn_next_size:
  assumes "dn_size its = Some n" "0 < n"
  shows "dn_size (Suc its) = Some (if its = 4 then 0 else 2 * n)"
proof -
  have "its \<in> {0, 1, 2, 3, 4}" using assms dn_schedule [OF assms(1)] by (cases "its = 5") auto
  with assms show ?thesis by (auto simp: dn_size_def ipc_table_dnrequests_def)
qed

lemma dn_length: "dn_ok t fs \<Longrightarrow> length (dn_slots t) \<in> {4, 8, 16, 32, 64}"
  using dn_schedule [of "ipr_size t" "length (dn_slots t)"] by (auto simp: dn_ok_def less_Suc_eq numeral_eq_Suc)

definition next_dn_size :: "dn_table option \<Rightarrow> nat" where
  "next_dn_size t = (case t of None \<Rightarrow> 4 | Some t \<Rightarrow> if length (dn_slots t) = 64 then 0 else 2 * length (dn_slots t))"

lemma ip_reference_release: "ip_release p (ip_reference p s) = s"
  by (simp add: ip_release_def ip_reference_def upd_port_def)

lemma dn_alloc_frame: "dn_alloc s = (b, s') \<Longrightarrow> s' = s\<lparr>dn_memory := tl (dn_memory s)\<rparr> \<and> b = (dn_memory s \<noteq> [] \<and> hd (dn_memory s))"
  by (auto simp: dn_alloc_def split: list.splits)

lemma dn_alloc_reference:
  "dn_alloc (ip_reference p s) = (b, s') \<longleftrightarrow>
    s' = ip_reference p (s\<lparr>dn_memory := tl (dn_memory s)\<rparr>) \<and> b = (dn_memory s \<noteq> [] \<and> hd (dn_memory s))"
  by (auto simp: dn_alloc_def ip_reference_def upd_port_def split: list.splits)

lemma port_reqs_memory [simp]:
  "port_reqs p (s\<lparr>dn_memory := m\<rparr>) = port_reqs p s" "port_room p (s\<lparr>dn_memory := m\<rparr>) = port_room p s"
  "port_reqs_ok p (s\<lparr>dn_memory := m\<rparr>) = port_reqs_ok p s"
  by (simp_all add: port_reqs_def port_room_def port_reqs_ok_def)

lemma dn_its:
  assumes "port_reqs_ok p s"
  shows "dn_size (case ip_dnrequests (port_heap s p) of None \<Rightarrow> 0 | Some t \<Rightarrow> ipr_size t + 1) =
    Some (next_dn_size (ip_dnrequests (port_heap s p)))"
proof (cases "ip_dnrequests (port_heap s p)")
  case None
  then show ?thesis by (simp add: dn_size_def ipc_table_dnrequests_def next_dn_size_def)
next
  case (Some t)
  with assms obtain fs where "dn_ok t fs" by (auto simp: port_reqs_ok_def)
  then have sz: "dn_size (ipr_size t) = Some (length (dn_slots t))" "0 < length (dn_slots t)" by (auto simp: dn_ok_def)
  have "ipr_size t = 4 \<longleftrightarrow> length (dn_slots t) = 64"
  proof -
    have "ipr_size t \<in> {0, 1, 2, 3, 4}" using sz dn_schedule [OF sz(1)] by (cases "ipr_size t = 5") auto
    with dn_schedule [OF sz(1)] show ?thesis by auto
  qed
  with dn_next_size [OF sz] Some show ?thesis by (simp add: next_dn_size_def)
qed

lemma dngrow_refused:
  assumes "port_reqs_ok p s" and "next_dn_size (ip_dnrequests (port_heap s p)) = 0 \<or> dn_memory s = [] \<or> \<not> hd (dn_memory s)"
  shows "ipc_port_dngrow p s = Some (KERN_RESOURCE_SHORTAGE,
    if next_dn_size (ip_dnrequests (port_heap s p)) = 0 then s else s\<lparr>dn_memory := tl (dn_memory s)\<rparr>)"
proof -
  have live: "p \<in> set (live_ports s)" "ip_active (port_heap s p)" using assms(1) by (auto simp: port_reqs_ok_def)
  have rel: "ipc_object_release p (ip_reference p x) = Some x" if "live_ports x = live_ports s" for x :: "'a iports_scheme"
    using live that by (simp add: ipc_object_release_def port_at_def ip_reference_release) (simp add: ip_reference_def upd_port_def)
  obtain b s' where a: "dn_alloc (ip_reference p s) = (b, s')" by (cases "dn_alloc (ip_reference p s)")
  with assms(2) have "next_dn_size (ip_dnrequests (port_heap s p)) = 0 \<or> \<not> b"
    "s' = ip_reference p (s\<lparr>dn_memory := tl (dn_memory s)\<rparr>)" by (auto simp: dn_alloc_reference)
  with live rel [of s] rel [of "s\<lparr>dn_memory := tl (dn_memory s)\<rparr>"] dn_its [OF assms(1)] a show ?thesis
    by (auto simp: ipc_port_dngrow_def port_at_def Let_def)
qed

lemma dngrow_grows:
  assumes ok: "port_reqs_ok p s" and n: "next_dn_size (ip_dnrequests (port_heap s p)) = n" "0 < n"
    and m: "dn_memory s \<noteq> []" "hd (dn_memory s)"
  shows "\<exists>t fs. ipc_port_dngrow p s = Some (KERN_SUCCESS, with_table p t (s\<lparr>dn_memory := tl (dn_memory s)\<rparr>)) \<and>
    dn_ok t fs \<and> dn_reqs t = port_reqs p s \<and> length (dn_slots t) = n \<and>
    length fs = port_room p s + (case ip_dnrequests (port_heap s p) of None \<Rightarrow> 3 | Some t \<Rightarrow> length (dn_slots t))"
proof -
  let ?s = "s\<lparr>dn_memory := tl (dn_memory s)\<rparr>"
  have live: "p \<in> set (live_ports s)" "ip_active (port_heap s p)" using ok by (auto simp: port_reqs_ok_def)
  have a: "dn_alloc (ip_reference p s) = (True, ip_reference p ?s)" using m by (simp add: dn_alloc_reference)
  note its = dn_its [OF ok, unfolded n(1)]
  show ?thesis
  proof (cases "ip_dnrequests (port_heap s p)")
    case None
    with n have "n = 4" by (simp add: next_dn_size_def)
    with its None dn_grown_new [of 0 n] obtain t where
      "dn_grown 0 1 n None = Some t" "dn_ok t (rev [1..<n])" "dn_reqs t = Map.empty" "length (dn_slots t) = n" by auto
    then show ?thesis using a live its None n(2)
      by (intro exI [of _ t] exI [of _ "rev [1..<n]"])
        (auto simp: ipc_port_dngrow_def port_at_def ip_reference_release port_reqs_def port_room_def \<open>n = 4\<close>)
  next
    case (Some t)
    with ok obtain fs where t: "dn_ok t fs" by (auto simp: port_reqs_ok_def)
    have "length (dn_slots t) < n" using n Some t by (auto simp: next_dn_size_def dn_ok_def split: if_splits)
    with dn_grown_old [OF t, of "ipr_size t + 1" n] its Some obtain t' where
      "dn_grown (ipr_size t + 1) (length (dn_slots t)) n (Some t) = Some t'"
      "dn_ok t' (rev [length (dn_slots t)..<n] @ fs)" "dn_reqs t' = dn_reqs t" "length (dn_slots t') = n" by auto
    moreover have "n = 2 * length (dn_slots t)" using n Some by (auto simp: next_dn_size_def split: if_splits)
    ultimately show ?thesis using a live its Some n(2) t \<open>length (dn_slots t) < n\<close>
      by (intro exI [of _ t'] exI [of _ "rev [length (dn_slots t)..<n] @ fs"])
        (auto simp: ipc_port_dngrow_def port_at_def ip_reference_release port_reqs_def port_room_def dn_free_count
          dn_ok_def [of t])
  qed
qed

end
