(* ===== verification/Ipc_Queue.thy ===== *)
theory Ipc_Queue
  imports Ipc_Port
begin

text \<open>
  The doubly linked rings of threads and of messages stand for lists; taking the first off and adding at
  the end; the loops that empty a queue.
\<close>

section \<open>Rings\<close>

fun links :: "(nat \<Rightarrow> nat) \<Rightarrow> (nat \<Rightarrow> nat) \<Rightarrow> nat list \<Rightarrow> nat \<Rightarrow> bool" where
  "links nx pv [] z \<longleftrightarrow> True"
| "links nx pv [a] z \<longleftrightarrow> nx a = z \<and> pv z = a"
| "links nx pv (a # b # xs) z \<longleftrightarrow> nx a = b \<and> pv b = a \<and> links nx pv (b # xs) z"

definition ring :: "(nat \<Rightarrow> nat) \<Rightarrow> (nat \<Rightarrow> nat) \<Rightarrow> nat \<Rightarrow> nat list \<Rightarrow> bool" where
  "ring nx pv base xs \<longleftrightarrow> distinct xs \<and> 0 \<notin> set xs \<and>
     (case xs of [] \<Rightarrow> base = 0 | x # _ \<Rightarrow> base = x \<and> links nx pv xs x)"

lemma links_snoc: "links nx pv (xs @ [a]) z \<longleftrightarrow> links nx pv xs a \<and> nx a = z \<and> pv z = a"
  by (induction nx pv xs a rule: links.induct) auto

lemma links_Cons: "links nx pv (a # xs) z \<Longrightarrow> links nx pv xs z"
  by (cases xs) auto

lemma links_cong:
  "\<forall>a \<in> set xs. nx' a = nx a \<Longrightarrow> \<forall>b \<in> set (tl xs). pv' b = pv b \<Longrightarrow> xs \<noteq> [] \<longrightarrow> pv' z = pv z \<Longrightarrow>
   links nx pv xs z \<Longrightarrow> links nx' pv' xs z"
  by (induction nx pv xs z rule: links.induct) auto

lemma ring_cong: "\<forall>a \<in> set xs. nx' a = nx a \<and> pv' a = pv a \<Longrightarrow> ring nx pv base xs \<Longrightarrow> ring nx' pv' base xs"
proof (cases xs)
  case (Cons x ys)
  assume "\<forall>a \<in> set xs. nx' a = nx a \<and> pv' a = pv a" "ring nx pv base xs"
  with Cons links_cong [of xs nx' nx pv' pv x] show ?thesis by (simp add: ring_def)
qed (simp add: ring_def)

lemma ring_empty: "ring nx pv 0 xs \<Longrightarrow> xs = []"
  by (auto simp: ring_def split: list.splits)

lemma ring_base: "ring nx pv base (x # xs) \<Longrightarrow> base = x \<and> x \<noteq> 0"
  by (auto simp: ring_def)

lemma ring_single: "ring nx pv base [x] \<longleftrightarrow> base = x \<and> x \<noteq> 0 \<and> nx x = x \<and> pv x = x"
  by (auto simp: ring_def)

text \<open>The second and the last of a ring of two or more.\<close>

lemma ring_two:
  assumes "ring nx pv base (x # y # ys)"
  shows "nx x = y" "pv x = last (y # ys)" "x \<noteq> y" "last (y # ys) \<noteq> x" "y \<noteq> 0"
proof -
  obtain zs l where zl: "y # ys = zs @ [l]" by (cases "y # ys" rule: rev_cases) auto
  have "links nx pv ((x # zs) @ [l]) x" using assms zl by (simp add: ring_def)
  then have "pv x = l" by (simp only: links_snoc)
  moreover have l: "last (y # ys) = l" using zl by simp
  ultimately show "pv x = last (y # ys)" by simp
  show "nx x = y" "x \<noteq> y" "y \<noteq> 0" using assms by (auto simp: ring_def)
  have "l \<in> set (y # ys)" using zl by simp
  then show "last (y # ys) \<noteq> x" unfolding l using assms by (auto simp: ring_def)
qed

lemma ring_unlink:
  assumes "ring nx pv base (x # y # ys)"
    and "\<And>a. a \<noteq> x \<Longrightarrow> nx' a = (if a = last (y # ys) then y else nx a)"
    and "\<And>a. a \<noteq> x \<Longrightarrow> pv' a = (if a = y then last (y # ys) else pv a)"
  shows "ring nx' pv' y (y # ys)"
proof -
  obtain zs l where zl: "y # ys = zs @ [l]" by (cases "y # ys" rule: rev_cases) auto
  then have l: "last (y # ys) = l" by simp
  have d: "distinct (x # zs @ [l])" "0 \<notin> set (x # zs @ [l])" "links nx pv ((x # zs) @ [l]) x"
    using assms(1) zl by (simp_all add: ring_def)
  note nx' = assms(2) [unfolded l] and pv' = assms(3) [unfolded l]
  from d have lk: "links nx pv zs l" by (auto simp only: links_snoc dest: links_Cons)
  have y: "zs \<noteq> [] \<longrightarrow> y = hd zs" "zs = [] \<longrightarrow> y = l" using zl by (cases zs; simp)+
  have "links nx' pv' zs l"
  proof (rule links_cong [OF _ _ _ lk])
    show "\<forall>a \<in> set zs. nx' a = nx a"
    proof
      fix a assume "a \<in> set zs"
      then have "a \<noteq> x" "a \<noteq> l" using d(1) by auto
      then show "nx' a = nx a" using nx' by simp
    qed
    show "\<forall>b \<in> set (tl zs). pv' b = pv b"
    proof
      fix b assume "b \<in> set (tl zs)"
      then have "b \<noteq> y" "b \<noteq> x" using y d(1) by (cases zs; auto)+
      then show "pv' b = pv b" using pv' by simp
    qed
    show "zs \<noteq> [] \<longrightarrow> pv' l = pv l" using y d(1) pv' [of l] by (cases zs) auto
  qed
  moreover have "nx' l = y" using d(1) nx' [of l] by auto
  moreover have "pv' y = l" using d(1) pv' [of y] y by (cases zs) auto
  ultimately have "links nx' pv' (zs @ [l]) y" by (simp add: links_snoc)
  then have "links nx' pv' (y # ys) y" using zl by simp
  then show ?thesis using assms(1) by (auto simp: ring_def)
qed

lemma ring_link:
  assumes "ring nx pv x (x # xs)" and t: "t \<notin> set (x # xs)" "t \<noteq> 0"
    and "\<And>a. nx' a = (if a = t then x else if a = last (x # xs) then t else nx a)"
    and "\<And>a. pv' a = (if a = x then t else if a = t then last (x # xs) else pv a)"
  shows "ring nx' pv' x (x # xs @ [t])"
proof -
  obtain zs l where zl: "x # xs = zs @ [l]" by (cases "x # xs" rule: rev_cases) auto
  then have l: "last (x # xs) = l" by simp
  have d: "distinct (zs @ [l])" "t \<notin> set (zs @ [l])" "links nx pv (zs @ [l]) x" "x \<in> set (zs @ [l])"
    unfolding zl [symmetric] using assms(1) t by (auto simp: ring_def)
  note nx' = assms(4) [unfolded l] and pv' = assms(5) [unfolded l]
  from d have lk: "links nx pv zs l" by (simp only: links_snoc)
  have "links nx' pv' zs l"
  proof (rule links_cong [OF _ _ _ lk])
    show "\<forall>a \<in> set zs. nx' a = nx a"
    proof
      fix a assume "a \<in> set zs"
      then have "a \<noteq> t" "a \<noteq> l" using d(1,2) by auto
      then show "nx' a = nx a" using nx' by simp
    qed
    show "\<forall>b \<in> set (tl zs). pv' b = pv b"
    proof
      fix b assume b: "b \<in> set (tl zs)"
      then have "b \<noteq> x" "b \<noteq> t" using zl d(1,2) by (cases zs; auto)+
      then show "pv' b = pv b" using pv' by simp
    qed
    show "zs \<noteq> [] \<longrightarrow> pv' l = pv l" using zl d(1,2) pv' [of l] by (cases zs) auto
  qed
  moreover have "nx' l = t" "pv' t = l" "nx' t = x" "pv' x = t"
    using d(1,2,4) nx' [of l] nx' [of t] pv' [of t] pv' [of x] by auto
  ultimately have "links nx' pv' ((zs @ [l]) @ [t]) x" by (simp only: links_snoc)
  then have "links nx' pv' (x # xs @ [t]) x" using zl by (metis append_Cons)
  then show ?thesis using assms(1) t by (auto simp: ring_def)
qed

section \<open>Queues of threads\<close>

definition thread_ring :: "(nat \<Rightarrow> ipc_thread) \<Rightarrow> nat \<Rightarrow> nat list \<Rightarrow> bool" where
  "thread_ring h = ring (\<lambda>t. ith_next (h t)) (\<lambda>t. ith_prev (h t))"

definition first_of :: "nat list \<Rightarrow> nat" where
  "first_of xs = (case xs of [] \<Rightarrow> 0 | x # _ \<Rightarrow> x)"

lemma first_of_simps [simp]: "first_of [] = 0" "first_of (x # xs) = x"
  by (simp_all add: first_of_def)

lemma thread_ring_Nil: "thread_ring h base [] \<longleftrightarrow> base = 0"
  by (simp add: thread_ring_def ring_def)

lemma dequeue_none: "ipc_thread_dequeue 0 s = Some (0, 0, s)"
  by (simp add: ipc_thread_dequeue_def)

lemma dequeue_first:
  assumes q: "thread_ring (ith_heap s) base (x # xs)"
  shows "\<exists>h. ipc_thread_dequeue base s = Some (x, first_of xs, s\<lparr>ith_heap := h\<rparr>) \<and> thread_ring h (first_of xs) xs \<and>
    (\<forall>t. ith_state (h t) = ith_state (ith_heap s t)) \<and> (\<forall>t. t \<notin> set (x # xs) \<longrightarrow> h t = ith_heap s t) \<and>
    ith_next (h x) = x \<and> ith_prev (h x) = x"
proof (cases xs)
  case Nil
  with q have "base = x" "x \<noteq> 0" "ith_next (ith_heap s x) = x" "ith_prev (ith_heap s x) = x"
    by (auto simp: thread_ring_def ring_single)
  then show ?thesis
    by (intro exI [of _ "ith_heap s"]) (simp add: Nil ipc_thread_dequeue_def thread_ring_Nil Let_def)
next
  case (Cons y ys)
  let ?l = "last (y # ys)"
  note q' = q [unfolded thread_ring_def Cons]
  note two = ring_two [OF q'] ring_base [OF q']
  define h where "h = (\<lambda>t. let r = ith_heap s t in
    if t = x then r\<lparr>ith_next := x, ith_prev := x\<rparr>
    else r\<lparr>ith_next := (if t = ?l then y else ith_next r), ith_prev := (if t = y then ?l else ith_prev r)\<rparr>)"
  have "ipc_thread_dequeue base s = Some (x, y, s\<lparr>ith_heap := h\<rparr>)"
  proof -
    have "ith_heap (upd_thread x (\<lambda>t. t\<lparr>ith_next := x, ith_prev := x\<rparr>)
       (upd_thread ?l (\<lambda>t. t\<lparr>ith_next := y\<rparr>) (upd_thread y (\<lambda>t. t\<lparr>ith_prev := ?l\<rparr>) s))) = h"
      using two(3,4) by (auto simp: upd_thread_def h_def fun_eq_iff Let_def)
    then have "upd_thread x (\<lambda>t. t\<lparr>ith_next := x, ith_prev := x\<rparr>)
       (upd_thread ?l (\<lambda>t. t\<lparr>ith_next := y\<rparr>) (upd_thread y (\<lambda>t. t\<lparr>ith_prev := ?l\<rparr>) s)) = s\<lparr>ith_heap := h\<rparr>"
      by (simp add: upd_thread_def)
    then show ?thesis using two by (simp add: ipc_thread_dequeue_def Let_def)
  qed
  moreover have "thread_ring h y (y # ys)"
    unfolding thread_ring_def
    by (rule ring_unlink [OF q']) (simp_all add: h_def Let_def)
  moreover have "\<forall>t. t \<notin> set (x # y # ys) \<longrightarrow> h t = ith_heap s t"
  proof (intro allI impI)
    fix t assume t: "t \<notin> set (x # y # ys)"
    then have "t \<noteq> x" "t \<noteq> y" "t \<noteq> ?l" using last_in_set [of "y # ys"] by auto
    then show "h t = ith_heap s t" unfolding h_def Let_def by simp
  qed
  ultimately show ?thesis by (intro exI [of _ h]) (auto simp: Cons h_def Let_def)
qed

text \<open>Setting the state of a thread keeps every queue.\<close>

lemma ring_state:
  "thread_ring (ith_heap (upd_thread t (\<lambda>t. t\<lparr>ith_state := r\<rparr>) s)) base xs = thread_ring (ith_heap s) base xs"
proof -
  have "(\<lambda>u. ith_next (ith_heap (upd_thread t (\<lambda>t. t\<lparr>ith_state := r\<rparr>) s) u)) = (\<lambda>u. ith_next (ith_heap s u))"
    "(\<lambda>u. ith_prev (ith_heap (upd_thread t (\<lambda>t. t\<lparr>ith_state := r\<rparr>) s) u)) = (\<lambda>u. ith_prev (ith_heap s u))"
    by (auto simp: upd_thread_def)
  then show ?thesis by (simp add: thread_ring_def)
qed

lemma upd_thread_heap: "upd_thread t f (s\<lparr>ith_heap := h\<rparr>) = s\<lparr>ith_heap := h(t := f (h t))\<rparr>"
  by (simp add: upd_thread_def)

lemma ring_members: "thread_ring h base xs \<Longrightarrow> distinct xs \<and> 0 \<notin> set xs"
  by (simp add: thread_ring_def ring_def)

lemma wake_all_ends:
  "thread_ring (ith_heap s) base xs \<Longrightarrow>
   \<exists>h. wake_all r base s = Some (s\<lparr>ith_heap := h\<rparr>) \<and>
     (\<forall>t \<in> set xs. h t = \<lparr>ith_next = t, ith_prev = t, ith_state = r\<rparr>) \<and> (\<forall>t. t \<notin> set xs \<longrightarrow> h t = ith_heap s t)"
proof (induction xs arbitrary: base s)
  case Nil
  then show ?case
    by (intro exI [of _ "ith_heap s"], subst wake_all.simps) (simp add: thread_ring_Nil dequeue_none)
next
  case (Cons x xs)
  from dequeue_first [OF Cons.prems] obtain h where
    d: "ipc_thread_dequeue base s = Some (x, first_of xs, s\<lparr>ith_heap := h\<rparr>)" and
    h: "thread_ring h (first_of xs) xs" "\<forall>t. t \<notin> set (x # xs) \<longrightarrow> h t = ith_heap s t"
      "ith_next (h x) = x" "ith_prev (h x) = x" by blast
  have x: "x \<noteq> 0" "x \<notin> set xs" using ring_members [OF Cons.prems] by auto
  let ?s = "upd_thread x (\<lambda>t. t\<lparr>ith_state := r\<rparr>) (s\<lparr>ith_heap := h\<rparr>)"
  have "thread_ring (ith_heap ?s) (first_of xs) xs" using h(1) by (simp add: ring_state)
  from Cons.IH [OF this] obtain h' where
    w: "wake_all r (first_of xs) ?s = Some (?s\<lparr>ith_heap := h'\<rparr>)"
      "\<forall>t \<in> set xs. h' t = \<lparr>ith_next = t, ith_prev = t, ith_state = r\<rparr>" "\<forall>t. t \<notin> set xs \<longrightarrow> h' t = ith_heap ?s t" by blast
  have "h' x = \<lparr>ith_next = x, ith_prev = x, ith_state = r\<rparr>"
    using w(3) x(2) h(3,4) by (simp add: upd_thread_def)
  moreover have "\<forall>t. t \<notin> set (x # xs) \<longrightarrow> h' t = ith_heap s t"
    using w(3) h(2) by (simp add: upd_thread_def)
  moreover have "wake_all r base s = Some (s\<lparr>ith_heap := h'\<rparr>)"
    using d x(1) w(1) by (subst wake_all.simps) (simp add: upd_thread_heap)
  ultimately show ?case using w(2) by (intro exI [of _ h']) simp
qed

lemma wake_senders_ends:
  "thread_ring (ith_heap s) base xs \<Longrightarrow>
   \<exists>h. wake_senders n base s = Some (first_of (drop n xs), s\<lparr>ith_heap := h\<rparr>) \<and>
     thread_ring h (first_of (drop n xs)) (drop n xs) \<and>
     (\<forall>t \<in> set (take n xs). h t = \<lparr>ith_next = t, ith_prev = t, ith_state = MACH_MSG_SUCCESS\<rparr>) \<and>
     (\<forall>t. t \<notin> set (take n xs) \<longrightarrow> ith_state (h t) = ith_state (ith_heap s t)) \<and>
     (\<forall>t. t \<notin> set xs \<longrightarrow> h t = ith_heap s t)"
proof (induction n arbitrary: base s xs)
  case 0
  then have "base = first_of xs" by (cases xs) (auto simp: thread_ring_def ring_def)
  with 0 show ?case by (intro exI [of _ "ith_heap s"]) simp
next
  case (Suc n)
  show ?case
  proof (cases xs)
    case Nil
    with Suc.prems show ?thesis
      by (intro exI [of _ "ith_heap s"]) (simp add: thread_ring_Nil dequeue_none)
  next
    case (Cons x ys)
    from dequeue_first [OF Suc.prems [unfolded Cons]] obtain h where
      d: "ipc_thread_dequeue base s = Some (x, first_of ys, s\<lparr>ith_heap := h\<rparr>)" and
      h: "thread_ring h (first_of ys) ys" "\<forall>t. ith_state (h t) = ith_state (ith_heap s t)"
        "ith_next (h x) = x" "ith_prev (h x) = x" "\<forall>t. t \<notin> set (x # ys) \<longrightarrow> h t = ith_heap s t" by blast
    have x: "x \<noteq> 0" "x \<notin> set ys" using ring_members [OF Suc.prems] Cons by auto
    let ?s = "upd_thread x (\<lambda>t. t\<lparr>ith_state := MACH_MSG_SUCCESS\<rparr>) (s\<lparr>ith_heap := h\<rparr>)"
    have "thread_ring (ith_heap ?s) (first_of ys) ys" using h(1) by (simp add: ring_state)
    from Suc.IH [OF this] obtain h' where
      w: "wake_senders n (first_of ys) ?s = Some (first_of (drop n ys), ?s\<lparr>ith_heap := h'\<rparr>)"
        "thread_ring h' (first_of (drop n ys)) (drop n ys)"
        "\<forall>t \<in> set (take n ys). h' t = \<lparr>ith_next = t, ith_prev = t, ith_state = MACH_MSG_SUCCESS\<rparr>"
        "\<forall>t. t \<notin> set (take n ys) \<longrightarrow> ith_state (h' t) = ith_state (ith_heap ?s t)"
        "\<forall>t. t \<notin> set ys \<longrightarrow> h' t = ith_heap ?s t" by blast
    have "h' x = \<lparr>ith_next = x, ith_prev = x, ith_state = MACH_MSG_SUCCESS\<rparr>"
      using w(5) x(2) h(3,4) by (simp add: upd_thread_def)
    moreover have "wake_senders (Suc n) base s = Some (first_of (drop n ys), s\<lparr>ith_heap := h'\<rparr>)"
      using d x(1) w(1) by (simp add: upd_thread_heap)
    moreover have "\<forall>t. t \<notin> set (take n ys) \<longrightarrow> t \<noteq> x \<longrightarrow> ith_state (h' t) = ith_state (ith_heap s t)"
      using w(4) h(2) by (simp add: upd_thread_def)
    moreover have "\<forall>t. t \<notin> set xs \<longrightarrow> h' t = ith_heap s t"
      using w(5) h(5) by (simp add: upd_thread_def Cons)
    ultimately show ?thesis using w(2,3) by (intro exI [of _ h']) (simp add: Cons)
  qed
qed

text \<open>A thread that waits is added at the end.\<close>

lemma enqueue_last:
  assumes q: "thread_ring (ith_heap s) base xs" and t: "t \<notin> set xs" "t \<noteq> 0"
    and self: "ith_next (ith_heap s t) = t" "ith_prev (ith_heap s t) = t"
  shows "\<exists>h. ipc_thread_enqueue base t s = Some (first_of (xs @ [t]), s\<lparr>ith_heap := h\<rparr>) \<and>
    thread_ring h (first_of (xs @ [t])) (xs @ [t]) \<and> (\<forall>u. ith_state (h u) = ith_state (ith_heap s u)) \<and>
    (\<forall>u. u \<notin> set (xs @ [t]) \<longrightarrow> h u = ith_heap s u)"
proof (cases xs)
  case Nil
  with q t self show ?thesis
    by (intro exI [of _ "ith_heap s"])
      (simp add: thread_ring_Nil ipc_thread_enqueue_def, simp add: thread_ring_def ring_single)
next
  case (Cons x ys)
  note b = ring_base [OF q [unfolded thread_ring_def Cons]]
  have q': "ring (\<lambda>t. ith_next (ith_heap s t)) (\<lambda>t. ith_prev (ith_heap s t)) x (x # ys)"
    using q b by (simp add: thread_ring_def Cons)
  let ?l = "last (x # ys)"
  have prev: "ith_prev (ith_heap s x) = ?l"
    using q' ring_two(2) [of _ _ x x] by (cases ys) (auto simp: ring_single)
  have xt: "x \<noteq> t" "?l \<noteq> t" using t(1) Cons last_in_set [of "x # ys"] by auto
  define h where "h = (\<lambda>u. let r = ith_heap s u in
    if u = t then r\<lparr>ith_next := x, ith_prev := ?l\<rparr>
    else r\<lparr>ith_next := (if u = ?l then t else ith_next r), ith_prev := (if u = x then t else ith_prev r)\<rparr>)"
  have "ith_heap (upd_thread ?l (\<lambda>u. u\<lparr>ith_next := t\<rparr>) (upd_thread x (\<lambda>u. u\<lparr>ith_prev := t\<rparr>)
      (upd_thread t (\<lambda>u. u\<lparr>ith_next := x, ith_prev := ?l\<rparr>) s))) = h"
    using xt by (auto simp: upd_thread_def h_def fun_eq_iff Let_def)
  then have "upd_thread ?l (\<lambda>u. u\<lparr>ith_next := t\<rparr>) (upd_thread x (\<lambda>u. u\<lparr>ith_prev := t\<rparr>)
      (upd_thread t (\<lambda>u. u\<lparr>ith_next := x, ith_prev := ?l\<rparr>) s)) = s\<lparr>ith_heap := h\<rparr>"
    by (simp add: upd_thread_def)
  then have "ipc_thread_enqueue base t s = Some (x, s\<lparr>ith_heap := h\<rparr>)"
    using b prev by (simp add: ipc_thread_enqueue_def Let_def)
  moreover have "thread_ring h x (x # ys @ [t])"
    unfolding thread_ring_def
    by (rule ring_link [OF q']) (use t Cons xt in \<open>auto simp: h_def Let_def\<close>)
  moreover have "\<forall>u. u \<notin> set (x # ys @ [t]) \<longrightarrow> h u = ith_heap s u"
  proof (intro allI impI)
    fix u assume u: "u \<notin> set (x # ys @ [t])"
    then have "u \<noteq> x" "u \<noteq> t" "u \<noteq> ?l" using last_in_set [of "x # ys"] by auto
    then show "h u = ith_heap s u" unfolding h_def Let_def by simp
  qed
  ultimately show ?thesis by (intro exI [of _ h]) (simp add: Cons h_def Let_def)
qed

section \<open>Queues of messages\<close>

definition kmsg_ring :: "(nat \<Rightarrow> ipc_kmsg) \<Rightarrow> nat \<Rightarrow> nat list \<Rightarrow> bool" where
  "kmsg_ring h = ring (\<lambda>t. ikm_next (h t)) (\<lambda>t. ikm_prev (h t))"

text \<open>What dequeueing leaves of a message: all but its links.\<close>

abbreviation kmsg_rest :: "ipc_kmsg \<Rightarrow> 64 word \<times> nat \<times> mach_port_t" where
  "kmsg_rest k \<equiv> (ikm_size k, ikm_marequest k, ikm_remote_port k)"

lemma kmsg_ring_Nil: "kmsg_ring h base [] \<longleftrightarrow> base = 0"
  by (simp add: kmsg_ring_def ring_def)

lemma kmsg_dequeue_none: "ipc_kmsg_dequeue 0 s = Some (0, 0, s)"
  by (simp add: ipc_kmsg_dequeue_def)

lemma kmsg_dequeue_first:
  assumes q: "kmsg_ring (kmsg_heap s) base (x # xs)" and live: "set (x # xs) \<subseteq> set (live_kmsgs s)"
  shows "\<exists>h. ipc_kmsg_dequeue base s = Some (x, first_of xs, s\<lparr>kmsg_heap := h\<rparr>) \<and> kmsg_ring h (first_of xs) xs \<and>
    (\<forall>t. kmsg_rest (h t) = kmsg_rest (kmsg_heap s t)) \<and> (\<forall>t. t \<notin> set (x # xs) \<longrightarrow> h t = kmsg_heap s t)"
proof (cases xs)
  case Nil
  with q have "base = x" "x \<noteq> 0" "ikm_next (kmsg_heap s x) = x" "ikm_prev (kmsg_heap s x) = x"
    by (auto simp: kmsg_ring_def ring_single)
  then show ?thesis using live
    by (intro exI [of _ "(kmsg_heap s)(x := (kmsg_heap s x)\<lparr>ikm_next := IKM_BOGUS, ikm_prev := IKM_BOGUS\<rparr>)"])
      (simp add: Nil ipc_kmsg_dequeue_def kmsg_ring_Nil Let_def kmsg_at_def upd_kmsg_def)
next
  case (Cons y ys)
  let ?l = "last (y # ys)"
  note q' = q [unfolded kmsg_ring_def Cons]
  note two = ring_two [OF q'] ring_base [OF q']
  define h where "h = (\<lambda>t. let r = kmsg_heap s t in
    if t = x then r\<lparr>ikm_next := IKM_BOGUS, ikm_prev := IKM_BOGUS\<rparr>
    else r\<lparr>ikm_next := (if t = ?l then y else ikm_next r), ikm_prev := (if t = y then ?l else ikm_prev r)\<rparr>)"
  have lv: "x \<in> set (live_kmsgs s)" "y \<in> set (live_kmsgs s)" "?l \<in> set (live_kmsgs s)"
    using live Cons last_in_set [of "y # ys"] by auto
  have "ipc_kmsg_dequeue base s = Some (x, y, s\<lparr>kmsg_heap := h\<rparr>)"
  proof -
    have "kmsg_heap (upd_kmsg x (\<lambda>t. t\<lparr>ikm_next := IKM_BOGUS, ikm_prev := IKM_BOGUS\<rparr>)
       (upd_kmsg ?l (\<lambda>t. t\<lparr>ikm_next := y\<rparr>) (upd_kmsg y (\<lambda>t. t\<lparr>ikm_prev := ?l\<rparr>) s))) = h"
      using two(3,4) by (auto simp: upd_kmsg_def h_def fun_eq_iff Let_def)
    then have "upd_kmsg x (\<lambda>t. t\<lparr>ikm_next := IKM_BOGUS, ikm_prev := IKM_BOGUS\<rparr>)
       (upd_kmsg ?l (\<lambda>t. t\<lparr>ikm_next := y\<rparr>) (upd_kmsg y (\<lambda>t. t\<lparr>ikm_prev := ?l\<rparr>) s)) = s\<lparr>kmsg_heap := h\<rparr>"
      by (simp add: upd_kmsg_def)
    then show ?thesis using two lv by (simp add: ipc_kmsg_dequeue_def Let_def kmsg_at_def)
  qed
  moreover have "kmsg_ring h y (y # ys)"
    unfolding kmsg_ring_def
    by (rule ring_unlink [OF q']) (simp_all add: h_def Let_def)
  moreover have "\<forall>t. t \<notin> set (x # y # ys) \<longrightarrow> h t = kmsg_heap s t"
  proof (intro allI impI)
    fix t assume t: "t \<notin> set (x # y # ys)"
    then have "t \<noteq> x" "t \<noteq> y" "t \<noteq> ?l" using last_in_set [of "y # ys"] by auto
    then show "h t = kmsg_heap s t" unfolding h_def Let_def by simp
  qed
  ultimately show ?thesis by (intro exI [of _ h]) (auto simp: Cons h_def Let_def)
qed

text \<open>A queued message of a port as the code expects it.\<close>

definition queued_kmsg :: "nat \<Rightarrow> ipc_kmsg \<Rightarrow> bool" where
  "queued_kmsg p k \<longleftrightarrow> ikm_remote_port k = port_as_name p \<and> 0 < sint (ikm_size k)"

lemma queued_kmsg_rest: "kmsg_rest k = kmsg_rest k' \<Longrightarrow> queued_kmsg p k = queued_kmsg p k'"
  by (simp add: queued_kmsg_def)

lemma kmsg_ring_members: "kmsg_ring h base xs \<Longrightarrow> distinct xs \<and> 0 \<notin> set xs"
  by (simp add: kmsg_ring_def ring_def)

lemma kmsg_ring_other: "kmsg_ring h base xs \<Longrightarrow> x \<notin> set xs \<Longrightarrow> kmsg_ring (h(x := k)) base xs"
  unfolding kmsg_ring_def by (rule ring_cong [rotated]) auto

lemma kmsg_destroy_queued:
  assumes "x \<in> set (live_kmsgs s)" "x \<noteq> 0" "0 < sint (ikm_size (kmsg_heap s x))"
  shows "\<exists>k. ipc_kmsg_destroy x s = Some (s\<lparr>kmsg_heap := (kmsg_heap s)(x := k), live_kmsgs := removeAll x (live_kmsgs s)\<rparr>)"
  using assms
  by (intro exI [of _ "if ikm_marequest (kmsg_heap s x) \<noteq> 0 then (kmsg_heap s x)\<lparr>ikm_marequest := 0\<rparr> else kmsg_heap s x"])
    (simp add: ipc_kmsg_destroy_def kmsg_at_def ikm_free_def upd_kmsg_def)

definition messages_gone :: "nat \<Rightarrow> nat list \<Rightarrow> 'a iports_scheme \<Rightarrow> 'a iports_scheme \<Rightarrow> bool" where
  "messages_gone p xs s s' \<longleftrightarrow> (\<exists>h. s' = s\<lparr>kmsg_heap := h, live_kmsgs := filter (\<lambda>k. k \<notin> set xs) (live_kmsgs s),
     port_heap := (port_heap s)(p := (port_heap s p)\<lparr>ip_references := ip_references (port_heap s p) - of_nat (length xs)\<rparr>)\<rparr>)"

lemma destroy_messages_ends:
  "kmsg_ring (kmsg_heap s) base xs \<Longrightarrow> set xs \<subseteq> set (live_kmsgs s) \<Longrightarrow>
   \<forall>k \<in> set xs. queued_kmsg p (kmsg_heap s k) \<Longrightarrow> p \<in> set (live_ports s) \<Longrightarrow>
   \<exists>s'. destroy_messages p base s = Some s' \<and> messages_gone p xs s s'"
proof (induction xs arbitrary: base s)
  case Nil
  then have "destroy_messages p base s = Some s"
    by (subst destroy_messages.simps) (simp add: kmsg_ring_Nil kmsg_dequeue_none)
  moreover have "messages_gone p [] s s"
    unfolding messages_gone_def by (intro exI [of _ "kmsg_heap s"]) simp
  ultimately show ?case by blast
next
  case (Cons x xs)
  from kmsg_dequeue_first [OF Cons.prems(1,2)] obtain h where
    d: "ipc_kmsg_dequeue base s = Some (x, first_of xs, s\<lparr>kmsg_heap := h\<rparr>)" and
    h: "kmsg_ring h (first_of xs) xs" "\<forall>t. kmsg_rest (h t) = kmsg_rest (kmsg_heap s t)" by blast
  have x: "x \<noteq> 0" "x \<notin> set xs" using kmsg_ring_members [OF Cons.prems(1)] by auto
  have hq: "\<forall>k \<in> set (x # xs). queued_kmsg p (h k)" using Cons.prems(3) h(2) queued_kmsg_rest by blast
  let ?s1 = "ip_release p (s\<lparr>kmsg_heap := h\<rparr>)"
  let ?s2 = "upd_kmsg x (\<lambda>k. k\<lparr>ikm_remote_port := 0\<rparr>) ?s1"
  have s2: "kmsg_heap ?s2 = h(x := (h x)\<lparr>ikm_remote_port := 0\<rparr>)" "live_kmsgs ?s2 = live_kmsgs s" "live_ports ?s2 = live_ports s"
    by (simp_all add: upd_kmsg_def ip_release_def upd_port_def)
  have "x \<in> set (live_kmsgs ?s2)" "0 < sint (ikm_size (kmsg_heap ?s2 x))"
    using Cons.prems(2) hq s2 by (simp_all add: queued_kmsg_def)
  from kmsg_destroy_queued [OF this(1) x(1) this(2)] obtain k where
    k: "ipc_kmsg_destroy x ?s2 = Some (?s2\<lparr>kmsg_heap := (kmsg_heap ?s2)(x := k), live_kmsgs := removeAll x (live_kmsgs ?s2)\<rparr>)"
    by blast
  let ?s3 = "?s2\<lparr>kmsg_heap := (kmsg_heap ?s2)(x := k), live_kmsgs := removeAll x (live_kmsgs ?s2)\<rparr>"
  have h3: "kmsg_heap ?s3 = h(x := k)" "live_kmsgs ?s3 = removeAll x (live_kmsgs s)" "live_ports ?s3 = live_ports s"
    using s2 by simp_all
  have "\<exists>s'. destroy_messages p (first_of xs) ?s3 = Some s' \<and> messages_gone p xs ?s3 s'"
  proof (rule Cons.IH)
    show "kmsg_ring (kmsg_heap ?s3) (first_of xs) xs"
      unfolding h3 by (rule kmsg_ring_other [OF h(1) x(2)])
    show "set xs \<subseteq> set (live_kmsgs ?s3)" using Cons.prems(2) x(2) unfolding h3 by auto
    show "\<forall>k \<in> set xs. queued_kmsg p (kmsg_heap ?s3 k)" using hq x(2) unfolding h3 by auto
    show "p \<in> set (live_ports ?s3)" using Cons.prems(4) unfolding h3 .
  qed
  then obtain s' where s': "destroy_messages p (first_of xs) ?s3 = Some s'" "messages_gone p xs ?s3 s'" by blast
  have "kmsg_at x (s\<lparr>kmsg_heap := h\<rparr>) = Some (h x)" using Cons.prems(2) by (simp add: kmsg_at_def)
  moreover have "ikm_remote_port (h x) = port_as_name p" using hq by (simp add: queued_kmsg_def)
  ultimately have "destroy_messages p base s = Some s'"
    using d x(1) Cons.prems(4) k s'(1)
    by (subst destroy_messages.simps) (simp add: ipc_object_release_def port_at_def)
  moreover have "messages_gone p (x # xs) s s'"
  proof -
    from s'(2) obtain h' where "s' = ?s3\<lparr>kmsg_heap := h', live_kmsgs := filter (\<lambda>k. k \<notin> set xs) (live_kmsgs ?s3),
      port_heap := (port_heap ?s3)(p := (port_heap ?s3 p)\<lparr>ip_references := ip_references (port_heap ?s3 p) - of_nat (length xs)\<rparr>)\<rparr>"
      by (auto simp: messages_gone_def)
    moreover have "filter (\<lambda>k. k \<notin> set xs) (removeAll x L) = filter (\<lambda>k. k \<notin> set (x # xs)) L" for L
      by (induction L) auto
    ultimately show ?thesis
      unfolding messages_gone_def
      by (intro exI [of _ h']) (simp add: upd_kmsg_def ip_release_def upd_port_def diff_diff_eq add.commute)
  qed
  ultimately show ?case by blast
qed

end
