(* ===== verification/Ipc_Port_Correct.thy ===== *)
theory Ipc_Port_Correct
  imports Ipc_Transit Ipc_Requests Ipc_Queue
begin

text \<open>
  Rights and references of a port over runs of the operations on rights, and the death of a port.
\<close>

section \<open>Rights\<close>

datatype right_op = MakeSend | CopySend | ReleaseSend | MakeSonce | ReleaseSonce

fun right_step :: "nat \<Rightarrow> right_op \<Rightarrow> 'a iports_scheme \<Rightarrow> 'a iports_scheme option" where
  "right_step p MakeSend s = map_option snd (ipc_port_make_send p s)"
| "right_step p CopySend s = map_option snd (ipc_port_copy_send p s)"
| "right_step p ReleaseSend s = ipc_port_release_send p s"
| "right_step p MakeSonce s = map_option snd (ipc_port_make_sonce p s)"
| "right_step p ReleaseSonce s = ipc_port_release_sonce p s"

fun right_run :: "nat \<Rightarrow> right_op list \<Rightarrow> 'a iports_scheme \<Rightarrow> 'a iports_scheme option" where
  "right_run p [] s = Some s"
| "right_run p (op # ops) s = right_step p op s \<bind> right_run p ops"

text \<open>What it comes to: the numbers of send and of send-once rights, and the no-senders request,
  which the release of the last send right uses up.\<close>

fun count_step :: "right_op \<Rightarrow> nat \<times> nat \<times> nat \<Rightarrow> (nat \<times> nat \<times> nat) option" where
  "count_step MakeSend (n, m, r) = Some (n + 1, m, r)"
| "count_step CopySend (n, m, r) = (if n = 0 then None else Some (n + 1, m, r))"
| "count_step ReleaseSend (n, m, r) = (if n = 0 then None else Some (n - 1, m, if n = 1 then 0 else r))"
| "count_step MakeSonce (n, m, r) = Some (n, m + 1, r)"
| "count_step ReleaseSonce (n, m, r) = (if m = 0 then None else Some (n, m - 1, r))"

fun count_run :: "right_op list \<Rightarrow> nat \<times> nat \<times> nat \<Rightarrow> (nat \<times> nat \<times> nat) option" where
  "count_run [] c = Some c"
| "count_run (op # ops) c = count_step op c \<bind> count_run ops"

definition right_view :: "nat \<Rightarrow> 'a iports_scheme \<Rightarrow> nat \<times> nat \<times> nat" where
  "right_view p s = (unat (ip_srights (port_heap s p)), unat (ip_sorights (port_heap s p)), ip_nsrequest (port_heap s p))"

text \<open>An active port with \<open>k\<close> references besides those of its rights.\<close>

definition rights_ok :: "nat \<Rightarrow> nat \<Rightarrow> 'a iports_scheme \<Rightarrow> bool" where
  "rights_ok k p s \<longleftrightarrow>
     IP_VALID p \<and> p \<in> set (live_ports s) \<and> ip_active (port_heap s p) \<and>
     unat (ip_references (port_heap s p)) =
       k + unat (ip_srights (port_heap s p)) + unat (ip_sorights (port_heap s p))"

lemma unat_up: "unat (w :: 'b :: len word) + 1 < 2 ^ LENGTH('b) \<Longrightarrow> unat (w + 1) = unat w + 1"
  by (simp add: unat_word_ariths)

lemma unat_down: "0 < unat (w :: 'b :: len word) \<Longrightarrow> unat (w - 1) = unat w - 1"
  by (cases "w = 0") (auto simp: unat_minus_one)

lemma rights_room:
  assumes "rights_ok k p s" "unat (ip_references (port_heap s p)) + 1 < 2 ^ 32"
  shows "unat (ip_references (port_heap s p) + 1) = unat (ip_references (port_heap s p)) + 1"
    "unat (ip_srights (port_heap s p) + 1) = unat (ip_srights (port_heap s p)) + 1"
    "unat (ip_sorights (port_heap s p) + 1) = unat (ip_sorights (port_heap s p)) + 1"
  using assms by (simp_all add: rights_ok_def unat_up)

lemma rights_refs:
  "rights_ok k p s \<Longrightarrow> 0 < unat (ip_srights (port_heap s p)) \<or> 0 < unat (ip_sorights (port_heap s p)) \<Longrightarrow>
   unat (ip_references (port_heap s p) - 1) = unat (ip_references (port_heap s p)) - 1"
  by (rule unat_down) (auto simp: rights_ok_def)

definition counts_as :: "nat \<Rightarrow> nat \<Rightarrow> 'a iports_scheme option \<Rightarrow> (nat \<times> nat \<times> nat) option \<Rightarrow> bool" where
  "counts_as k p r c \<longleftrightarrow>
     (case c of None \<Rightarrow> r = None | Some c \<Rightarrow> \<exists>s'. r = Some s' \<and> rights_ok k p s' \<and> right_view p s' = c)"

lemma right_step_counts:
  assumes ok: "rights_ok k p s" and room: "unat (ip_references (port_heap s p)) + 1 < 2 ^ 32"
  shows "counts_as k p (right_step p op s) (count_step op (right_view p s))"
proof (cases op)
  case MakeSend
  with ok rights_room [OF ok room] show ?thesis
    by (auto simp: counts_as_def right_view_def ipc_port_make_send_def rights_ok_def port_at_def ip_reference_def upd_port_def)
next
  case CopySend
  with ok rights_room [OF ok room] show ?thesis
    by (auto simp: counts_as_def right_view_def ipc_port_copy_send_def rights_ok_def port_at_def ip_reference_def
        upd_port_def unat_eq_zero word_neq_0_conv)
next
  case ReleaseSend
  note defs = counts_as_def right_view_def ipc_port_release_send_def rights_ok_def port_at_def ip_release_def
    upd_port_def Let_def
  show ?thesis
  proof (cases "ip_srights (port_heap s p) = 0")
    case True
    with ReleaseSend ok show ?thesis by (auto simp: defs)
  next
    case False
    then have n: "0 < unat (ip_srights (port_heap s p))" by (simp add: unat_gt_0)
    with rights_refs [OF ok] unat_down [OF n] have
      "unat (ip_references (port_heap s p) - 1) = unat (ip_references (port_heap s p)) - 1"
      "unat (ip_srights (port_heap s p) - 1) = unat (ip_srights (port_heap s p)) - 1" by auto
    moreover have "unat (ip_srights (port_heap s p)) = Suc 0 \<longleftrightarrow> ip_srights (port_heap s p) = 1"
      by (simp add: word_unat_eq_iff)
    ultimately show ?thesis using False n ReleaseSend ok
      by (cases "ip_srights (port_heap s p) = 1") (auto simp: defs word_neq_0_conv)
  qed
next
  case MakeSonce
  with ok rights_room [OF ok room] show ?thesis
    by (auto simp: counts_as_def right_view_def ipc_port_make_sonce_def rights_ok_def port_at_def ip_reference_def upd_port_def)
next
  case ReleaseSonce
  note defs = counts_as_def right_view_def ipc_port_release_sonce_def rights_ok_def port_at_def ip_release_def
    upd_port_def Let_def
  show ?thesis
  proof (cases "ip_sorights (port_heap s p) = 0")
    case True
    with ReleaseSonce ok show ?thesis by (auto simp: defs)
  next
    case False
    then have n: "0 < unat (ip_sorights (port_heap s p))" by (simp add: unat_gt_0)
    with rights_refs [OF ok] unat_down [OF n] have
      "unat (ip_references (port_heap s p) - 1) = unat (ip_references (port_heap s p)) - 1"
      "unat (ip_sorights (port_heap s p) - 1) = unat (ip_sorights (port_heap s p)) - 1" by auto
    with False n ReleaseSonce ok show ?thesis by (auto simp: defs word_neq_0_conv)
  qed
qed

lemma count_step_bound: "count_step op (n, m, r) = Some (n', m', r') \<Longrightarrow> n' + m' \<le> Suc (n + m)"
  by (cases op) (auto split: if_splits)

lemma right_run_counts:
  "rights_ok k p s \<Longrightarrow> unat (ip_references (port_heap s p)) + length ops < 2 ^ 32 \<Longrightarrow>
   counts_as k p (right_run p ops s) (count_run ops (right_view p s))"
proof (induction ops arbitrary: s)
  case Nil
  then show ?case by (simp add: counts_as_def)
next
  case (Cons op ops)
  have step: "counts_as k p (right_step p op s) (count_step op (right_view p s))"
    using right_step_counts [OF Cons.prems(1)] Cons.prems(2) by simp
  show ?case
  proof (cases "count_step op (right_view p s)")
    case None
    with step show ?thesis by (simp add: counts_as_def)
  next
    case (Some c)
    with step obtain s' where s': "right_step p op s = Some s'" "rights_ok k p s'" "right_view p s' = c"
      by (auto simp: counts_as_def)
    obtain n m r n' m' r' where c: "right_view p s = (n, m, r)" "c = (n', m', r')" by (cases "right_view p s", cases c)
    have "n' + m' \<le> Suc (n + m)" using count_step_bound Some c by metis
    then have "unat (ip_references (port_heap s' p)) + length ops < 2 ^ 32"
      using Cons.prems s'(2,3) c by (auto simp: rights_ok_def right_view_def)
    with Cons.IH [OF s'(2)] show ?thesis using s' Some by simp
  qed
qed

section \<open>The death of a port\<close>

definition dead_port :: "uint32 \<Rightarrow> nat \<Rightarrow> ipc_port \<Rightarrow> ipc_port" where
  "dead_port ts n x = x\<lparr>ip_blocked := 0, ip_bits := ip_bits x AND NOT IO_BITS_ACTIVE,
     ip_data := ip_data x div 2 ^ 32 * 2 ^ 32 + unat ts, imq_messages := 0,
     ip_references := ip_references x - of_nat n - 1\<rparr>"

text \<open>A port with blocked senders \<open>bs\<close> and messages \<open>ks\<close> that nobody is waiting to receive from.\<close>

definition port_queues :: "nat \<Rightarrow> nat list \<Rightarrow> nat list \<Rightarrow> 'a iports_scheme \<Rightarrow> bool" where
  "port_queues p bs ks s \<longleftrightarrow>
     imq_threads (port_heap s p) = 0 \<and>
     thread_ring (ith_heap s) (ip_blocked (port_heap s p)) bs \<and>
     kmsg_ring (kmsg_heap s) (imq_messages (port_heap s p)) ks \<and>
     set ks \<subseteq> set (live_kmsgs s) \<and> (\<forall>k \<in> set ks. queued_kmsg p (kmsg_heap s k))"

lemma dn_notify_all_ok: "dn_ok t fs \<Longrightarrow> dn_notify_all (length (dn_slots t)) t = Some ()"
proof -
  assume ok: "dn_ok t fs"
  have "ipr_notify r \<noteq> 0" if r: "r \<in> set (drop 1 (dn_slots t))" "ipr_name r \<noteq> 0" for r
  proof -
    from r(1) obtain i where i: "i < length (drop 1 (dn_slots t))" "drop 1 (dn_slots t) ! i = r"
      unfolding in_set_conv_nth by blast
    then have "r = dn_slots t ! Suc i" "Suc i < length (dn_slots t)" by auto
    moreover have "i + 1 \<notin> set fs" using dn_reqs_free [OF ok, of "i + 1"] calculation r(2) by (auto simp: dn_reqs_def)
    ultimately show ?thesis using ok by (simp add: dn_ok_def)
  qed
  then have "list_all (\<lambda>r. ipr_name r \<noteq> 0 \<longrightarrow> ipr_notify r \<noteq> 0) (drop 1 (dn_slots t))"
    unfolding list_all_iff by blast
  then show ?thesis by (simp add: dn_notify_all_def)
qed

lemma destroy_port_ends:
  assumes ok: "port_reqs_ok p s" and q: "port_queues p bs ks s"
  shows "\<exists>h hk. destroy_port p s = Some (s\<lparr>ith_heap := h, ipc_port_timestamp_data := ipc_port_timestamp_data s + 1,
      kmsg_heap := hk, live_kmsgs := filter (\<lambda>k. k \<notin> set ks) (live_kmsgs s),
      port_heap := (port_heap s)(p := dead_port (ipc_port_timestamp_data s) (length ks) (port_heap s p))\<rparr>) \<and>
    (\<forall>t \<in> set bs. h t = \<lparr>ith_next = t, ith_prev = t, ith_state = MACH_MSG_SUCCESS\<rparr>) \<and>
    (\<forall>t. t \<notin> set bs \<longrightarrow> h t = ith_heap s t)"
proof -
  let ?x = "port_heap s p"
  have live: "p \<in> set (live_ports s)" using ok by (simp add: port_reqs_ok_def)
  obtain h where w: "wake_all MACH_MSG_SUCCESS (ip_blocked ?x) s = Some (s\<lparr>ith_heap := h\<rparr>)"
    and h: "\<forall>t \<in> set bs. h t = \<lparr>ith_next = t, ith_prev = t, ith_state = MACH_MSG_SUCCESS\<rparr>"
      "\<forall>t. t \<notin> set bs \<longrightarrow> h t = ith_heap s t"
    using wake_all_ends [of s "ip_blocked ?x" bs MACH_MSG_SUCCESS] q by (auto simp: port_queues_def)
  define y where "y = ?x\<lparr>ip_blocked := 0, ip_bits := ip_bits ?x AND NOT IO_BITS_ACTIVE,
     ip_data := ip_data ?x div 2 ^ 32 * 2 ^ 32 + unat (ipc_port_timestamp_data s)\<rparr>"
  let ?s = "s\<lparr>ith_heap := h, ipc_port_timestamp_data := ipc_port_timestamp_data s + 1, port_heap := (port_heap s)(p := y)\<rparr>"
  have "\<exists>s'. destroy_messages p (imq_messages ?x) ?s = Some s' \<and> messages_gone p ks ?s s'"
    by (rule destroy_messages_ends) (use q live in \<open>simp_all add: port_queues_def\<close>)
  then obtain hk where d: "destroy_messages p (imq_messages ?x) ?s = Some (?s\<lparr>kmsg_heap := hk,
      live_kmsgs := filter (\<lambda>k. k \<notin> set ks) (live_kmsgs s),
      port_heap := (port_heap s)(p := y\<lparr>ip_references := ip_references y - of_nat (length ks)\<rparr>)\<rparr>)"
    by (auto simp: messages_gone_def)
  have dn: "(case ip_dnrequests ?x of None \<Rightarrow> Some () | Some t \<Rightarrow> dn_size (ipr_size t) \<bind> (\<lambda>sz. dn_notify_all sz t)) = Some ()"
    using ok dn_notify_all_ok by (auto simp: port_reqs_ok_def dn_ok_def split: option.splits)
  have imq: "imq_threads ?x = 0" using q by (simp add: port_queues_def)
  have eq: "upd_port p (\<lambda>x. x\<lparr>ip_data := ip_data x div 2 ^ 32 * 2 ^ 32 + unat (ipc_port_timestamp_data s)\<rparr>)
      ((upd_port p (\<lambda>x. x\<lparr>ip_bits := ip_bits x AND NOT IO_BITS_ACTIVE\<rparr>) (upd_port p (\<lambda>x. x\<lparr>ip_blocked := 0\<rparr>)
        (s\<lparr>ith_heap := h\<rparr>)))\<lparr>ipc_port_timestamp_data := ipc_port_timestamp_data s + 1\<rparr>) = ?s"
    by (simp add: upd_port_def y_def)
  have ts: "ipc_port_timestamp_data (upd_port p f s') = ipc_port_timestamp_data s'" for f and s' :: "'a iports_scheme"
    by (simp add: upd_port_def)
  have "destroy_port p s = Some (?s\<lparr>kmsg_heap := hk, live_kmsgs := filter (\<lambda>k. k \<notin> set ks) (live_kmsgs s),
      port_heap := (port_heap s)(p := dead_port (ipc_port_timestamp_data s) (length ks) ?x)\<rparr>)"
    unfolding destroy_port_def
    using live w d dn imq eq
    by (simp add: port_at_def [of p s] Let_def ipc_port_timestamp_def ts)
      (simp add: ipc_object_release_def port_at_def ip_release_def upd_port_def dead_port_def y_def)
  with h show ?thesis by (intro exI [of _ h] exI [of _ hk]) simp
qed

text \<open>A port ready to be destroyed, and the port taken out of its space.\<close>

definition port_quiet :: "nat \<Rightarrow> 'a iports_scheme \<Rightarrow> bool" where
  "port_quiet p s \<longleftrightarrow> ip_pset (port_heap s p) = 0 \<and> ip_mscount (port_heap s p) = 0 \<and> ip_seqno (port_heap s p) = 0"

definition to_limbo :: "nat \<Rightarrow> 'a iports_scheme \<Rightarrow> 'a iports_scheme" where
  "to_limbo p = upd_port p (\<lambda>x. x\<lparr>ip_pdrequest := 0, ip_receiver_name := 0, ip_data := 0\<rparr>)"

definition backup_released :: "nat \<Rightarrow> 'a iports_scheme \<Rightarrow> 'a iports_scheme" where
  "backup_released b s = ip_release b (upd_port b (\<lambda>x. x\<lparr>ip_sorights := ip_sorights x - 1\<rparr>) s)"

definition port_dies :: "nat \<Rightarrow> nat list \<Rightarrow> nat list \<Rightarrow> 'a iports_scheme \<Rightarrow> 'a iports_scheme \<Rightarrow> bool" where
  "port_dies p bs ks s s' \<longleftrightarrow>
     (\<exists>h hk. s' = s\<lparr>ith_heap := h, ipc_port_timestamp_data := ipc_port_timestamp_data s + 1,
        kmsg_heap := hk, live_kmsgs := filter (\<lambda>k. k \<notin> set ks) (live_kmsgs s),
        port_heap := (port_heap s)(p := dead_port (ipc_port_timestamp_data s) (length ks) (port_heap s p))\<rparr> \<and>
      (\<forall>t \<in> set bs. h t = \<lparr>ith_next = t, ith_prev = t, ith_state = MACH_MSG_SUCCESS\<rparr>) \<and>
      (\<forall>t. t \<notin> set bs \<longrightarrow> h t = ith_heap s t))"

lemma destroy_port_dies:
  "port_reqs_ok p s \<Longrightarrow> port_queues p bs ks s \<Longrightarrow> \<exists>s'. destroy_port p s = Some s' \<and> port_dies p bs ks s s'"
  using destroy_port_ends [of p s bs ks] unfolding port_dies_def by blast

lemma port_dies_simps:
  assumes "port_dies p bs ks s s'"
  shows "live_ports s' = live_ports s" "port_heap s' p = dead_port (ipc_port_timestamp_data s) (length ks) (port_heap s p)"
    "q \<noteq> p \<Longrightarrow> port_heap s' q = port_heap s q" "live_kmsgs s' = filter (\<lambda>k. k \<notin> set ks) (live_kmsgs s)"
  using assms by (auto simp: port_dies_def)

lemma limbo_simps [simp]:
  "live_ports (to_limbo p s) = live_ports s"
  "in_limbo (x\<lparr>ip_pdrequest := 0, ip_receiver_name := 0, ip_data := 0\<rparr>) = ip_active x"
  "port_heap (to_limbo p s) q = (if q = p then (port_heap s p)\<lparr>ip_pdrequest := 0, ip_receiver_name := 0, ip_data := 0\<rparr>
     else port_heap s q)"
  by (simp_all add: to_limbo_def upd_port_def in_limbo_def)

lemma backup_released_simps [simp]:
  "live_ports (backup_released b s) = live_ports s" "ith_heap (backup_released b s) = ith_heap s"
  "kmsg_heap (backup_released b s) = kmsg_heap s" "live_kmsgs (backup_released b s) = live_kmsgs s"
  "ip_bits (port_heap (backup_released b s) q) = ip_bits (port_heap s q)"
  "ip_receiver_name (port_heap (backup_released b s) q) = ip_receiver_name (port_heap s q)"
  "ip_data (port_heap (backup_released b s) q) = ip_data (port_heap s q)"
  "ip_mscount (port_heap (backup_released b s) q) = ip_mscount (port_heap s q)"
  "ip_seqno (port_heap (backup_released b s) q) = ip_seqno (port_heap s q)"
  "ip_pset (port_heap (backup_released b s) q) = ip_pset (port_heap s q)"
  "ip_pdrequest (port_heap (backup_released b s) q) = ip_pdrequest (port_heap s q)"
  "ip_nsrequest (port_heap (backup_released b s) q) = ip_nsrequest (port_heap s q)"
  "ip_dnrequests (port_heap (backup_released b s) q) = ip_dnrequests (port_heap s q)"
  "ip_blocked (port_heap (backup_released b s) q) = ip_blocked (port_heap s q)"
  "imq_threads (port_heap (backup_released b s) q) = imq_threads (port_heap s q)"
  "imq_messages (port_heap (backup_released b s) q) = imq_messages (port_heap s q)"
  by (simp_all add: backup_released_def ip_release_def upd_port_def)

lemma to_limbo_frame [simp]:
  "ith_heap (to_limbo p s) = ith_heap s" "kmsg_heap (to_limbo p s) = kmsg_heap s" "live_kmsgs (to_limbo p s) = live_kmsgs s"
  by (simp_all add: to_limbo_def upd_port_def)

lemma transit_limbo: "transit (to_limbo p s) \<subseteq> transit s"
  by (auto simp: transit_def in_transit_def split: if_splits)

lemma transit_ok_limbo: "transit_ok s \<Longrightarrow> transit_ok (to_limbo p s)"
  using transit_limbo [of p s] by (auto simp: transit_ok_def intro: acyclic_subset)

lemma transit_active:
  assumes "(d, p) \<in> (transit s)\<^sup>*" "ip_active (port_heap s p)"
  shows "ip_active (port_heap s d)"
  using assms(1) by (cases rule: converse_rtranclE) (use assms(2) in \<open>auto simp: transit_iff in_transit_def\<close>)

lemma port_reqs_ok_cong:
  "live_ports s' = live_ports s \<Longrightarrow> ip_active (port_heap s' p) = ip_active (port_heap s p) \<Longrightarrow>
   ip_dnrequests (port_heap s' p) = ip_dnrequests (port_heap s p) \<Longrightarrow> port_reqs_ok p s' = port_reqs_ok p s"
  by (simp add: port_reqs_ok_def)

lemma port_queues_cong:
  "ith_heap s' = ith_heap s \<Longrightarrow> kmsg_heap s' = kmsg_heap s \<Longrightarrow> live_kmsgs s' = live_kmsgs s \<Longrightarrow>
   imq_threads (port_heap s' p) = imq_threads (port_heap s p) \<Longrightarrow>
   ip_blocked (port_heap s' p) = ip_blocked (port_heap s p) \<Longrightarrow>
   imq_messages (port_heap s' p) = imq_messages (port_heap s p) \<Longrightarrow> port_queues p bs ks s' = port_queues p bs ks s"
  by (simp add: port_queues_def)

lemma destroy_without_backup:
  assumes "port_reqs_ok p s" "port_queues p bs ks s" "port_quiet p s" "ip_pdrequest (port_heap s p) = 0"
  shows "\<exists>s'. ipc_port_destroy p s = Some s' \<and> port_dies p bs ks s s'"
  using destroy_port_dies [OF assms(1,2)] assms
  by (auto simp: ipc_port_destroy_def port_quiet_def port_reqs_ok_def port_at_def)

lemma destroy_with_backup:
  assumes ok: "port_reqs_ok p s" "port_quiet p s" and b: "ip_pdrequest (port_heap s p) = b" "b \<noteq> 0"
    and t: "transit_ok s" "0 \<notin> set (live_ports s)" "b \<in> set (live_ports s)"
    and free: "(b, p) \<notin> (transit (to_limbo p s))\<^sup>*"
  shows "ipc_port_destroy p s = Some (sent_to p b (to_limbo p s))"
proof -
  have "p \<in> set (live_ports s)" "ip_active (port_heap s p)" using ok by (auto simp: port_reqs_ok_def)
  with check_circularity_end [of "to_limbo p s" p b] t free
  have "ipc_port_check_circularity p b (to_limbo p s) = Some (False, sent_to p b (to_limbo p s))"
    by (simp add: transit_ok_limbo)
  then show ?thesis using ok b
    by (simp add: ipc_port_destroy_def port_quiet_def port_reqs_ok_def port_at_def to_limbo_def [symmetric] Let_def)
qed

lemma destroy_circular:
  assumes ok: "port_reqs_ok p s" "port_quiet p s" "port_queues p bs ks s" and b: "ip_pdrequest (port_heap s p) = b" "b \<noteq> 0"
    and t: "transit_ok s" "0 \<notin> set (live_ports s)" "b \<in> set (live_ports s)" "IP_VALID b" "0 < ip_sorights (port_heap s b)"
    and circle: "(b, p) \<in> (transit (to_limbo p s))\<^sup>*"
  shows "\<exists>s'. ipc_port_destroy p s = Some s' \<and> port_dies p bs ks (backup_released b (to_limbo p s)) s'"
proof -
  let ?s = "to_limbo p s" and ?r = "backup_released b (to_limbo p s)"
  have live: "p \<in> set (live_ports s)" "ip_active (port_heap s p)" using ok by (auto simp: port_reqs_ok_def)
  with check_circularity_end [of ?s p b] t circle
  have c: "ipc_port_check_circularity p b ?s = Some (True, ?s)"
    by (simp add: transit_ok_limbo)
  have "ip_active (port_heap ?s p)" using live(2) by simp
  then have act: "ip_active (port_heap ?s b)" by (rule transit_active [OF circle])
  have rl: "ipc_port_release_sonce b ?s = Some ?r"
    using t act
    by (auto simp: ipc_port_release_sonce_def port_at_def backup_released_def Let_def)
  have "port_reqs_ok p ?r = port_reqs_ok p s" by (rule port_reqs_ok_cong) simp_all
  moreover have "port_queues p bs ks ?r = port_queues p bs ks s" by (rule port_queues_cong) simp_all
  ultimately obtain s' where s': "destroy_port p ?r = Some s'" "port_dies p bs ks ?r s'"
    using destroy_port_dies ok(1,3) by blast
  have "port_at p ?r = Some (port_heap ?r p)" using live by (simp add: port_at_def)
  with s' live ok(2) b c rl show ?thesis
    by (simp add: ipc_port_destroy_def port_quiet_def port_at_def [of p s] to_limbo_def [symmetric] Let_def)
qed

end
