(* ===== verification/Ipc_Port_Props.thy ===== *)
theory Ipc_Port_Props
  imports Ipc_Port_Correct
begin

text \<open>
  The properties of the ports of the entry layer (\<^verbatim>\<open>Kernel/mxwl/ipc/ipc_port.c\<close>), with instances on a
  kernel of three ports: the one at 8 is on its way to the one at 16, which is in limbo, and the one at 24
  has the name 70 in the space at 99 and one sender blocked, the thread at 4.
\<close>

definition active_port :: ipc_port where
  "active_port = zero_port\<lparr>ip_references := 1, ip_bits := IO_BITS_ACTIVE\<rparr>"

definition port_demo :: iports where
  "port_demo = \<lparr>ihg_size = 2, ihg_mask = 1, ihg_table = Some [0, 0], tree_entry_max = 0,
     spaces = (\<lambda>_. new_space 64 0), tents = (\<lambda>_. zero_tree_entry),
     ite_zone = [], table_memory = [], space_zone = [],
     port_heap = (\<lambda>p. if p = 8 then active_port\<lparr>ip_data := 16\<rparr>
       else if p = 24 then active_port\<lparr>ip_receiver_name := 70, ip_data := 99, ip_sorights := 1, ip_references := 2, ip_blocked := 4\<rparr>
       else active_port),
     live_ports = [8, 16, 24], port_zone = [], dn_memory = [True], pset_heap = (\<lambda>_. \<lparr>ips_references = 0, ips_bits = 0\<rparr>),
     live_psets = [], ith_heap = (\<lambda>t. \<lparr>ith_next = t, ith_prev = t, ith_state = 7\<rparr>),
     kmsg_heap = (\<lambda>_. \<lparr>ikm_next = 0, ikm_prev = 0, ikm_size = 1, ikm_marequest = 0, ikm_remote_port = 0\<rparr>),
     live_kmsgs = [], ipc_port_timestamp_data = 0\<rparr>"

lemma port_demo_simps [simp]:
  "live_ports port_demo = [8, 16, 24]" "port_heap port_demo 8 = active_port\<lparr>ip_data := 16\<rparr>"
  "port_heap port_demo 16 = active_port"
  "port_heap port_demo 24 =
     active_port\<lparr>ip_receiver_name := 70, ip_data := 99, ip_sorights := 1, ip_references := 2, ip_blocked := 4\<rparr>"
  "dn_memory port_demo = [True]" "ith_heap port_demo t = \<lparr>ith_next = t, ith_prev = t, ith_state = 7\<rparr>"
  by (simp_all add: port_demo_def)

lemma active_port_simps [simp]:
  "ip_active active_port" "ip_receiver_name active_port = 0" "ip_data active_port = 0" "ip_references active_port = 1"
  "ip_dnrequests active_port = None" "ip_pset active_port = 0" "ip_mscount active_port = 0" "ip_seqno active_port = 0"
  "ip_pdrequest active_port = 0" "ip_srights active_port = 0" "ip_sorights active_port = 0" "ip_nsrequest active_port = 0"
  "imq_threads active_port = 0" "imq_messages active_port = 0" "ip_blocked active_port = 0"
  by (simp_all add: active_port_def zero_port_def io_active_bit IO_BITS_ACTIVE_def bit_simps)

lemma port_demo_transit: "transit port_demo = {(8, 16)}"
  by (auto simp: transit_def in_transit_def)

lemma port_demo_ok: "transit_ok port_demo"
  by (auto simp: transit_ok_def port_demo_transit acyclic_def trancl_insert)

text \<open>
  C23.  Queueing a port in limbo in a message for another: the check says that this would close a circle
  exactly when it would, and changes nothing then; otherwise the port is in transit to the other, which
  has one reference more, and there is still no circle.  The search for the end of the chain always
  ends and no assertion fails.
\<close>

theorem ipc_port_circularity:
  assumes "transit_ok s" "0 \<notin> set (live_ports s)" "p \<in> set (live_ports s)" "in_limbo (port_heap s p)"
    and "d \<in> set (live_ports s)"
  shows "if \<not> acyclic (insert (p, d) (transit s)) then ipc_port_check_circularity p d s = Some (True, s)
    else \<exists>s'. ipc_port_check_circularity p d s = Some (False, s') \<and> transit s' = insert (p, d) (transit s) \<and>
      transit_ok s' \<and> ip_references (port_heap s' d) = ip_references (port_heap s d) + 1"
proof -
  have ac: "acyclic (insert (p, d) (transit s)) \<longleftrightarrow> (d, p) \<notin> (transit s)\<^sup>*"
    using assms(1) by (simp add: transit_ok_def acyclic_insert)
  have "d \<noteq> 0" using assms(2,5) by metis
  with assms check_circularity_end [OF assms] transit_sent [OF assms(3,4)] transit_ok_sent [OF assms(1,3,4)]
  show ?thesis unfolding ac
    by (auto simp: sent_to_def upd_port_def ip_reference_def)
qed

theorem ipc_port_circularity_witness:
  "ipc_port_check_circularity 16 8 port_demo = Some (True, port_demo) \<and>
   (\<exists>s'. ipc_port_check_circularity 16 24 port_demo = Some (False, s') \<and> transit s' = {(16, 24), (8, 16)})"
proof -
  have "(8 :: nat, 16 :: nat) \<in> {(8, 16)}\<^sup>*" by (rule r_into_rtrancl) simp
  then have "\<not> acyclic (insert (16, 8) (transit port_demo))"
    by (simp add: acyclic_insert [of 16 8] port_demo_transit)
  moreover have "(24 :: nat, 16 :: nat) \<notin> {(8, 16)}\<^sup>*" by (auto elim: converse_rtranclE)
  then have "acyclic (insert (16, 24) (transit port_demo))"
    using port_demo_ok by (simp add: acyclic_insert transit_ok_def port_demo_transit)
  ultimately show ?thesis
    using ipc_port_circularity [OF port_demo_ok, of 16 8] ipc_port_circularity [OF port_demo_ok, of 16 24]
    by (auto simp: in_limbo_def port_demo_transit)
qed

text \<open>
  C24.  Any run of registrations and cancellations of dead-name requests on a port gives every request a
  number that no outstanding request has and gives each back under its number and name exactly once with
  the right it was registered with.  It stops only at a cancellation of what is not outstanding, and
  a request is refused exactly when the table is full.
\<close>

theorem ipc_port_requests_run:
  assumes "port_reqs_ok p s" "lawful dn_request_ok ops"
  shows "(\<forall>es s'. slots_run (register_request p) (cancel_request p) ops s = Some (es, s') \<longrightarrow>
      port_reqs_ok p s' \<and> allowed_run (port_reqs p s) ops es (port_reqs p s')) \<and>
    (slots_run (register_request p) (cancel_request p) ops s = None \<longrightarrow>
      (\<exists>ops1 i k ops2 es s1. ops = ops1 @ Cancel i k # ops2 \<and>
        slots_run (register_request p) (cancel_request p) ops1 s = Some (es, s1) \<and>
        (\<forall>r. port_reqs p s1 i \<noteq> Some (k, r)))) \<and>
    (\<forall>name soright. dn_request_ok name soright \<longrightarrow>
      ((\<exists>s'. ipc_port_dnrequest p name soright s = Some (KERN_NO_SPACE, 0, s')) \<longleftrightarrow> port_room p s = 0))"
proof -
  have "port_room p s = 0" if "dn_request_ok name soright" "ipc_port_dnrequest p name soright s = Some (KERN_NO_SPACE, 0, s')"
    for name soright s'
    using dnrequest_room [OF assms(1) that(1)] that(2) by (cases "port_room p s") auto
  then show ?thesis
    using dn_slots.run_allowed [OF assms] dn_slots.run_stops [OF assms] dnrequest_full [OF assms(1)] by blast
qed

text \<open>
  C25.  Growing the table of requests follows the sizes 4, 8, 16, 32 and 64, one at a time: the first table has
  four slots and the next ones twice those of the last, with one slot lost to the header.  So the first table has
  room for three requests, every other growth adds as much room as the table had slots, and every outstanding
  request keeps its place.  At 64, and without memory, it is refused and the port is as before.
\<close>

theorem ipc_port_dngrow_outcome:
  assumes "port_reqs_ok p s"
  defines "old \<equiv> (case ip_dnrequests (port_heap s p) of None \<Rightarrow> 0 | Some t \<Rightarrow> length (dn_slots t))"
  shows "old \<in> {0, 4, 8, 16, 32, 64} \<and>
    (if old = 64 \<or> dn_memory s = [] \<or> \<not> hd (dn_memory s)
     then \<exists>s'. ipc_port_dngrow p s = Some (KERN_RESOURCE_SHORTAGE, s') \<and> port_heap s' = port_heap s
     else \<exists>t s'. ipc_port_dngrow p s = Some (KERN_SUCCESS, s') \<and> port_reqs_ok p s' \<and>
       ip_dnrequests (port_heap s' p) = Some t \<and> length (dn_slots t) = (if old = 0 then 4 else 2 * old) \<and>
       port_room p s' = port_room p s + (if old = 0 then 3 else old) \<and> port_reqs p s' = port_reqs p s \<and>
       ip_references (port_heap s' p) = ip_references (port_heap s p))"
proof -
  have sizes: "old \<in> {0, 4, 8, 16, 32, 64}" and zero: "old = 0 \<longleftrightarrow> ip_dnrequests (port_heap s p) = None"
    using assms(1) dn_length by (fastforce simp: old_def port_reqs_ok_def split: option.splits)+
  define n where "n = (if old = 0 then 4 else if old = 64 then 0 else 2 * old)"
  have n: "next_dn_size (ip_dnrequests (port_heap s p)) = n"
    using zero by (auto simp: n_def old_def next_dn_size_def split: option.splits)
  show ?thesis
  proof (cases "old = 64 \<or> dn_memory s = [] \<or> \<not> hd (dn_memory s)")
    case True
    then show ?thesis using dngrow_refused [OF assms(1)] n sizes by (auto simp: n_def)
  next
    case False
    then have "0 < n" by (auto simp: n_def)
    with False dngrow_grows [OF assms(1) n] obtain t fs where
      "ipc_port_dngrow p s = Some (KERN_SUCCESS, with_table p t (s\<lparr>dn_memory := tl (dn_memory s)\<rparr>))"
      "dn_ok t fs" "dn_reqs t = port_reqs p s" "length (dn_slots t) = n"
      "length fs = port_room p s + (if old = 0 then 3 else old)"
      using zero by (auto simp: old_def split: option.splits)
    with False assms(1) sizes show ?thesis
      by (auto simp: dn_free_count port_reqs_ok_def [of p s] with_table_heap n_def)
  qed
qed

lemma port_demo_reqs: "port_reqs_ok 24 port_demo"
  by (simp add: port_reqs_ok_def)

theorem ipc_port_dngrow_outcome_witness:
  "\<exists>s' t. ipc_port_dngrow 24 port_demo = Some (KERN_SUCCESS, s') \<and> ip_dnrequests (port_heap s' 24) = Some t \<and>
    length (dn_slots t) = 4 \<and> port_room 24 s' = 3"
  using ipc_port_dngrow_outcome [OF port_demo_reqs] by (auto simp: port_room_def [of 24 port_demo])

theorem ipc_port_requests_run_witness:
  "\<exists>s es. ipc_port_dngrow 24 port_demo = Some (KERN_SUCCESS, s) \<and>
    (\<forall>es s'. slots_run (register_request 24) (cancel_request 24) [Register 64 8, Register 65 16, Cancel 3 64] s = Some (es, s') \<longrightarrow>
      allowed_run (port_reqs 24 s) [Register 64 8, Register 65 16, Cancel 3 64] es (port_reqs 24 s'))"
proof -
  from dngrow_grows [OF port_demo_reqs, of 4] obtain t fs where
    t: "ipc_port_dngrow 24 port_demo = Some (KERN_SUCCESS, with_table 24 t (port_demo\<lparr>dn_memory := tl (dn_memory port_demo)\<rparr>))"
    "dn_ok t fs" by (auto simp: next_dn_size_def)
  let ?s = "with_table 24 t (port_demo\<lparr>dn_memory := tl (dn_memory port_demo)\<rparr>)"
  have "port_reqs_ok 24 ?s" using t(2) by auto
  moreover have "lawful dn_request_ok [Register 64 8, Register 65 16, Cancel 3 64]"
    by (auto simp: dn_request_ok_def)
  ultimately show ?thesis
    using t(1) conjunct1 [OF ipc_port_requests_run] by blast
qed

text \<open>
  C26.  Any run of operations on the rights of an active port, with fewer than \<open>2\<^sup>3\<^sup>2\<close> references in
  reach, does what a pair of counters does: it stops at an assertion exactly when a right is copied or
  released that does not exist, the no-senders request is used up exactly when the last send right goes,
  and the references are always those besides the rights and one for each right.
\<close>

theorem ipc_port_rights_counted:
  assumes "rights_ok k p s" "unat (ip_references (port_heap s p)) + length ops < 2 ^ 32"
  shows "case count_run ops (right_view p s) of
      None \<Rightarrow> right_run p ops s = None
    | Some (n, m, r) \<Rightarrow> \<exists>s'. right_run p ops s = Some s' \<and> ip_active (port_heap s' p) \<and>
        unat (ip_srights (port_heap s' p)) = n \<and> unat (ip_sorights (port_heap s' p)) = m \<and>
        ip_nsrequest (port_heap s' p) = r \<and> unat (ip_references (port_heap s' p)) = k + n + m"
  using right_run_counts [OF assms] unfolding counts_as_def right_view_def rights_ok_def
  by (auto split: option.splits)

theorem ipc_port_rights_counted_witness:
  "right_run 24 [MakeSend, CopySend, ReleaseSend, ReleaseSend, ReleaseSend] port_demo = None \<and>
   (\<exists>s'. right_run 24 [MakeSend, CopySend, ReleaseSonce] port_demo = Some s' \<and>
     unat (ip_srights (port_heap s' 24)) = 2 \<and> unat (ip_references (port_heap s' 24)) = 3)"
proof -
  have "rights_ok 1 24 port_demo" by (simp add: rights_ok_def IP_VALID_def IP_DEAD_def)
  from ipc_port_rights_counted [OF this, of "[MakeSend, CopySend, ReleaseSend, ReleaseSend, ReleaseSend]"]
    ipc_port_rights_counted [OF this, of "[MakeSend, CopySend, ReleaseSonce]"]
  show ?thesis by (auto simp: right_view_def)
qed

text \<open>
  C27.  Destroying a port: without a backup port, or when sending it to the backup port would close a
  circle, it dies: its blocked senders wake up with success, its messages are freed, it is inactive and
  stamped with the time, and has one reference less for its owner and for each message, but it is never
  freed, not even without references.  Otherwise it stays alive, with its messages, on its way to the
  backup port.
\<close>

theorem ipc_port_destroy_outcome:
  assumes "port_reqs_ok p s" "port_queues p bs ks s" "port_quiet p s" "transit_ok s" "0 \<notin> set (live_ports s)"
  defines "b \<equiv> ip_pdrequest (port_heap s p)"
  assumes "b \<noteq> 0 \<longrightarrow> IP_VALID b \<and> b \<in> set (live_ports s) \<and> 0 < ip_sorights (port_heap s b)"
  shows "if b \<noteq> 0 \<and> (b, p) \<notin> (transit (to_limbo p s))\<^sup>*
    then ipc_port_destroy p s = Some (sent_to p b (to_limbo p s))
    else \<exists>s'. ipc_port_destroy p s = Some s' \<and>
      port_dies p bs ks (if b = 0 then s else backup_released b (to_limbo p s)) s' \<and>
      live_ports s' = live_ports s \<and> \<not> ip_active (port_heap s' p)"
proof -
  have inactive: "\<not> ip_active (dead_port ts n x)" for ts n x
    by (simp add: dead_port_def io_active_bit IO_BITS_ACTIVE_def bit_simps)
  show ?thesis
  proof (cases "b = 0")
    case True
    with destroy_without_backup [OF assms(1-3)] obtain s' where
      "ipc_port_destroy p s = Some s'" "port_dies p bs ks s s'" by (auto simp: b_def)
    with True port_dies_simps(1,2) [OF this(2)] inactive show ?thesis by auto
  next
    case False
    show ?thesis
    proof (cases "(b, p) \<in> (transit (to_limbo p s))\<^sup>*")
      case True
      with False assms destroy_circular [OF assms(1,3,2), of b] obtain s' where
        "ipc_port_destroy p s = Some s'" "port_dies p bs ks (backup_released b (to_limbo p s)) s'" by auto
      with True False port_dies_simps(1,2) [OF this(2)] inactive show ?thesis by auto
    next
      case circle: False
      with False assms destroy_with_backup [OF assms(1,3), of b] show ?thesis by simp
    qed
  qed
qed

theorem ipc_port_destroy_outcome_witness:
  "\<exists>s'. ipc_port_destroy 24 port_demo = Some s' \<and> ith_heap s' 4 = \<lparr>ith_next = 4, ith_prev = 4, ith_state = MACH_MSG_SUCCESS\<rparr> \<and>
     ip_references (port_heap s' 24) = 1 \<and> live_ports s' = [8, 16, 24]"
proof -
  have "port_queues 24 [4] [] port_demo"
    by (simp add: port_queues_def thread_ring_def ring_single kmsg_ring_Nil)
  from ipc_port_destroy_outcome [OF port_demo_reqs this _ port_demo_ok] show ?thesis
    by (auto simp: port_quiet_def port_dies_def dead_port_def)
qed

end
