(* ===== verification/Open_Table.thy ===== *)
theory Open_Table
  imports Prelude
begin

text \<open>
  Hash tables with open addressing that are only ever added to: linear probing from the place a key
  hashes to, around the end of the table, up to a place that is free or has the key.  The search runs for
  ever when there is none.
\<close>

partial_function (option) probe :: "('e \<Rightarrow> bool) \<Rightarrow> 'e list \<Rightarrow> nat \<Rightarrow> nat option" where
  "probe stop tab i =
     (if i < length tab then
        if stop (tab ! i) then Some i else probe stop tab ((i + 1) mod length tab)
      else None)"

text \<open>The places in the order in which the search visits them.\<close>

definition place :: "'e list \<Rightarrow> nat \<Rightarrow> nat \<Rightarrow> nat" where
  "place tab h d = (h + d) mod length tab"

lemma place_lt [simp]: "tab \<noteq> [] \<Longrightarrow> place tab h d < length tab"
  by (simp add: place_def)

lemma place_0 [simp]: "h < length tab \<Longrightarrow> place tab h 0 = h"
  by (simp add: place_def)

lemma place_Suc: "place tab h (Suc d) = (place tab h d + 1) mod length tab"
  by (simp add: place_def mod_Suc_eq)

lemma place_surj:
  assumes "h < length tab" "i < length tab"
  shows "\<exists>d < length tab. place tab h d = i"
proof (cases "h \<le> i")
  case True
  then show ?thesis using assms by (intro exI [of _ "i - h"]) (simp add: place_def)
next
  case False
  then have "h + (length tab - h + i) = length tab + i" using assms by simp
  then show ?thesis using assms False
    by (intro exI [of _ "length tab - h + i"]) (simp add: place_def)
qed

lemma place_inj:
  assumes "place tab h d = place tab h e" "d < length tab" "e < length tab"
  shows "d = e"
proof -
  have "int (length tab) dvd (int h + int d) - (int h + int e)"
    using assms(1) by (simp add: place_def mod_eq_dvd_iff flip: of_nat_add of_nat_mod) (metis mod_eq_dvd_iff of_nat_mod of_nat_add)
  then have "int (length tab) dvd int d - int e" by simp
  moreover have "\<bar>int d - int e\<bar> < int (length tab)" using assms(2,3) by simp
  ultimately show ?thesis using dvd_imp_le_int [of "int d - int e" "int (length tab)"] by fastforce
qed

lemma probe_step: "h < length tab \<Longrightarrow>
  probe stop tab (place tab h d) =
    (if stop (tab ! place tab h d) then Some (place tab h d) else probe stop tab (place tab h (Suc d)))"
  using place_lt [of tab h d] by (cases "tab = []") (simp, subst probe.simps, simp add: place_Suc)

lemma probe_found:
  assumes "h < length tab" "stop (tab ! place tab h d)" "\<forall>e < d. \<not> stop (tab ! place tab h e)"
  shows "probe stop tab h = Some (place tab h d)"
proof -
  have "probe stop tab (place tab h (d - k)) = Some (place tab h d)" if "k \<le> d" for k
    using that
  proof (induction k)
    case 0
    then show ?case using assms(1,2) by (simp add: probe_step)
  next
    case (Suc k)
    then have "\<not> stop (tab ! place tab h (d - Suc k))" "Suc (d - Suc k) = d - k" using assms(3) by auto
    with Suc show ?case using assms(1) by (simp add: probe_step [of h tab stop "d - Suc k"])
  qed
  from this [of d] assms(1) show ?thesis by simp
qed

lemma probe_stops: "probe stop tab i = Some j \<Longrightarrow> j < length tab \<and> stop (tab ! j)"
  by (induction arbitrary: rule: probe.raw_induct [rotated, consumes 1, case_names step])
    (auto split: if_splits)

text \<open>So the search ends exactly when there is a place to stop at, and stops at the first.\<close>

lemma probe_first:
  assumes "h < length tab" "\<exists>e \<in> set tab. stop e"
  shows "\<exists>d < length tab. probe stop tab h = Some (place tab h d) \<and> stop (tab ! place tab h d) \<and>
    (\<forall>e < d. \<not> stop (tab ! place tab h e))"
proof -
  from assms(2) obtain i where i: "i < length tab" "stop (tab ! i)" by (auto simp: in_set_conv_nth)
  with place_surj [OF assms(1) i(1)] obtain d0 where d0: "d0 < length tab" "stop (tab ! place tab h d0)" by auto
  define d where "d = (LEAST d. stop (tab ! place tab h d))"
  have "stop (tab ! place tab h d)" "d \<le> d0" unfolding d_def using d0(2) by (auto intro: LeastI Least_le)
  moreover have "\<forall>e < d. \<not> stop (tab ! place tab h e)" unfolding d_def by (auto dest: not_less_Least)
  ultimately show ?thesis using probe_found [OF assms(1)] d0(1) by (intro exI [of _ d]) auto
qed

lemma probe_hangs: "\<forall>e \<in> set tab. \<not> stop e \<Longrightarrow> probe stop tab h = None"
  using probe_stops [of stop tab h] by (cases "probe stop tab h") (auto dest: nth_mem)

section \<open>The contract\<close>

text \<open>\<open>key\<close> is the key of a place that is in use.  The invariant: no place before an entry, on the way from
  where its key hashes to, is free.  A key may be there twice; the first one counts.\<close>

definition probe_ok :: "('e \<Rightarrow> 'k option) \<Rightarrow> ('k \<Rightarrow> nat) \<Rightarrow> 'e list \<Rightarrow> bool" where
  "probe_ok key hash tab \<longleftrightarrow>
     (\<forall>k d. d < length tab \<longrightarrow> key (tab ! place tab (hash k) d) = Some k \<longrightarrow>
        (\<forall>e < d. key (tab ! place tab (hash k) e) \<noteq> None))"

definition table_keys :: "('e \<Rightarrow> 'k option) \<Rightarrow> 'e list \<Rightarrow> 'k set" where
  "table_keys key tab = {k. \<exists>e \<in> set tab. key e = Some k}"

definition free_places :: "('e \<Rightarrow> 'k option) \<Rightarrow> 'e list \<Rightarrow> nat" where
  "free_places key tab = length (filter (\<lambda>e. key e = None) tab)"

locale open_table =
  fixes key :: "'e \<Rightarrow> 'k option" and hash :: "'k \<Rightarrow> nat" and size_of :: nat
  assumes hash_lt: "hash k < size_of"
begin

lemma search_there:
  assumes "length tab = size_of" "probe_ok key hash tab" "k \<in> table_keys key tab"
  shows "\<exists>i < length tab. probe (\<lambda>e. key e = None \<or> key e = Some k) tab (hash k) = Some i \<and> key (tab ! i) = Some k"
proof -
  have h: "hash k < length tab" using hash_lt assms(1) by simp
  from assms(3) have "\<exists>e \<in> set tab. key e = None \<or> key e = Some k" by (auto simp: table_keys_def)
  from probe_first [OF h this] obtain d where d: "d < length tab"
    "probe (\<lambda>e. key e = None \<or> key e = Some k) tab (hash k) = Some (place tab (hash k) d)"
    "key (tab ! place tab (hash k) d) = None \<or> key (tab ! place tab (hash k) d) = Some k"
    "\<forall>e < d. key (tab ! place tab (hash k) e) \<noteq> Some k" by blast
  obtain i where i: "i < length tab" "key (tab ! i) = Some k"
    using assms(3) by (auto simp: table_keys_def in_set_conv_nth)
  with place_surj [OF h i(1)] obtain d' where d': "d' < length tab" "place tab (hash k) d' = i" by blast
  with d(4) i(2) have "d \<le> d'" by (metis not_less)
  moreover have "\<forall>e < d'. key (tab ! place tab (hash k) e) \<noteq> None"
    using assms(2) d' i(2) unfolding probe_ok_def by blast
  ultimately have "key (tab ! place tab (hash k) d) \<noteq> None" using d' i(2) by (cases "d = d'") auto
  moreover have "tab \<noteq> []" using h by auto
  ultimately show ?thesis using d by (intro exI [of _ "place tab (hash k) d"]) auto
qed

text \<open>An entry that is found stays found when another is added.\<close>

lemma search_kept:
  assumes "length tab = size_of" "probe (\<lambda>e. key e = None \<or> key e = Some k) tab (hash k) = Some i" "key (tab ! i) = Some k"
    and "key (tab ! j) = None"
  shows "probe (\<lambda>e. key e = None \<or> key e = Some k) (tab[j := x]) (hash k) = Some i" "tab[j := x] ! i = tab ! i"
proof -
  have h: "hash k < length tab" using hash_lt assms(1) by simp
  have "\<exists>e \<in> set tab. key e = None \<or> key e = Some k" using probe_stops [OF assms(2)] nth_mem by blast
  from probe_first [OF h this] assms(2) obtain d where d: "d < length tab" "i = place tab (hash k) d"
    "\<forall>e < d. \<not> (key (tab ! place tab (hash k) e) = None \<or> key (tab ! place tab (hash k) e) = Some k)" by auto
  have pl: "place (tab[j := x]) = place tab" by (simp add: fun_eq_iff place_def)
  have same: "tab[j := x] ! i' = tab ! i'" if "key (tab ! i') \<noteq> None" for i' using that assms(4) by (metis nth_list_update_neq)
  show i: "tab[j := x] ! i = tab ! i" using same assms(3) by simp
  have "probe (\<lambda>e. key e = None \<or> key e = Some k) (tab[j := x]) (hash k) = Some (place (tab[j := x]) (hash k) d)"
  proof (rule probe_found)
    show "hash k < length (tab[j := x])" using h by simp
    show "key (tab[j := x] ! place (tab[j := x]) (hash k) d) = None \<or> key (tab[j := x] ! place (tab[j := x]) (hash k) d) = Some k"
      unfolding pl using i assms(3) d(2) by simp
    show "\<forall>e < d. \<not> (key (tab[j := x] ! place (tab[j := x]) (hash k) e) = None \<or>
        key (tab[j := x] ! place (tab[j := x]) (hash k) e) = Some k)"
      unfolding pl using d(3) same by simp
  qed
  then show "probe (\<lambda>e. key e = None \<or> key e = Some k) (tab[j := x]) (hash k) = Some i" unfolding pl using d(2) by simp
qed

lemma search_free:
  assumes "length tab = size_of" "k \<notin> table_keys key tab"
  shows "probe (\<lambda>e. key e = None \<or> key e = Some k) tab (hash k) = probe (\<lambda>e. key e = None) tab (hash k)"
proof -
  have h: "hash k < length tab" using hash_lt assms(1) by simp
  have no: "key e \<noteq> Some k" if "e \<in> set tab" for e using assms(2) that by (auto simp: table_keys_def)
  show ?thesis
  proof (cases "\<exists>e \<in> set tab. key e = None")
    case True
    with probe_first [OF h, of "\<lambda>e. key e = None"] obtain d where
      d: "d < length tab" "probe (\<lambda>e. key e = None) tab (hash k) = Some (place tab (hash k) d)"
      "key (tab ! place tab (hash k) d) = None" "\<forall>e < d. key (tab ! place tab (hash k) e) \<noteq> None" by blast
    have "tab \<noteq> []" using h by auto
    then have "\<forall>e < d. key (tab ! place tab (hash k) e) \<noteq> Some k" using no nth_mem place_lt by metis
    with d probe_found [OF h, of "\<lambda>e. key e = None \<or> key e = Some k" d] show ?thesis by auto
  next
    case False
    with no have "\<forall>e \<in> set tab. \<not> (key e = None \<or> key e = Some k)" by auto
    with False show ?thesis by (simp add: probe_hangs)
  qed
qed

lemma free_place:
  assumes "length tab = size_of" "0 < free_places key tab"
  shows "\<exists>i < length tab. probe (\<lambda>e. key e = None) tab (hash k) = Some i \<and> key (tab ! i) = None"
proof -
  have "\<exists>e \<in> set tab. key e = None" using assms(2) by (auto simp: free_places_def filter_empty_conv)
  with probe_first [of "hash k" tab "\<lambda>e. key e = None"] hash_lt assms(1) show ?thesis
    by (metis place_lt length_greater_0_conv less_nat_zero_code linorder_neqE_nat)
qed

lemma no_free_place: "free_places key tab = 0 \<Longrightarrow> probe (\<lambda>e. key e = None) tab h = None"
  by (rule probe_hangs) (auto simp: free_places_def filter_empty_conv)

text \<open>Adding a key in the first free place.\<close>

lemma added:
  assumes tab: "length tab = size_of" "probe_ok key hash tab" and k: "key e = Some k"
    and i: "probe (\<lambda>e. key e = None) tab (hash k) = Some i"
  shows "probe_ok key hash (tab[i := e])" "table_keys key (tab[i := e]) = insert k (table_keys key tab)"
    "free_places key tab = Suc (free_places key (tab[i := e]))"
proof -
  have h: "hash k < length tab" using hash_lt tab(1) by simp
  from probe_stops [OF i] have il: "i < length tab" "key (tab ! i) = None" by auto
  then have ex: "\<exists>e \<in> set tab. key e = None" by (auto intro: nth_mem)
  from probe_first [OF h ex] i obtain d where
    d: "d < length tab" "i = place tab (hash k) d" "\<forall>e < d. key (tab ! place tab (hash k) e) \<noteq> None" by auto
  have pl: "place (tab[i := e]) = place tab" by (simp add: fun_eq_iff place_def)
  show "probe_ok key hash (tab[i := e])"
    unfolding probe_ok_def pl
  proof (intro allI impI)
    fix k' d' e'
    assume d': "d' < length (tab[i := e])" "key (tab[i := e] ! place tab (hash k') d') = Some k'" "e' < d'"
    show "key (tab[i := e] ! place tab (hash k') e') \<noteq> None"
    proof (cases "place tab (hash k') d' = i")
      case True
      then have kk: "k' = k" using d'(2) k il(1) by simp
      have "place tab (hash k) d' = place tab (hash k) d" using True d(2) kk by simp
      moreover have "d' < length tab" using d'(1) by simp
      ultimately have dd: "d' = d" using place_inj d(1) by blast
      have "place tab (hash k) e' \<noteq> place tab (hash k) d"
        using place_inj [of tab "hash k" e' d] d(1) d'(3) dd by auto
      then have "tab[i := e] ! place tab (hash k) e' = tab ! place tab (hash k) e'" using d(2) by simp
      moreover have "key (tab ! place tab (hash k) e') \<noteq> None" using d(3) d'(3) dd by simp
      ultimately show ?thesis using kk by simp
    next
      case False
      then have "key (tab ! place tab (hash k') d') = Some k'" using d'(2) by simp
      with tab(2) d' have *: "key (tab ! place tab (hash k') e') \<noteq> None" unfolding probe_ok_def by simp
      then have "place tab (hash k') e' \<noteq> i" using il(2) by auto
      with * show ?thesis by simp
    qed
  qed
  show "table_keys key (tab[i := e]) = insert k (table_keys key tab)"
  proof -
    have "set (tab[i := e]) = insert e (set (take i tab) \<union> set (drop (Suc i) tab))"
      using il(1) by (simp add: upd_conv_take_nth_drop)
    moreover have "set tab = insert (tab ! i) (set (take i tab) \<union> set (drop (Suc i) tab))"
      using il(1) by (metis id_take_nth_drop list.simps(15) set_append Un_insert_right)
    ultimately show ?thesis using il(2) k unfolding table_keys_def by auto
  qed
  show "free_places key tab = Suc (free_places key (tab[i := e]))"
  proof -
    have "free_places key tab = free_places key (take i tab @ tab ! i # drop (Suc i) tab)"
      using id_take_nth_drop [OF il(1)] by simp
    then show ?thesis using il k by (simp add: free_places_def upd_conv_take_nth_drop)
  qed
qed

lemma search_added:
  assumes "length tab = size_of" "k \<notin> table_keys key tab" "key e = Some k" "probe (\<lambda>e. key e = None) tab (hash k) = Some i"
  shows "probe (\<lambda>e. key e = None \<or> key e = Some k) (tab[i := e]) (hash k) = Some i" "tab[i := e] ! i = e"
proof -
  have h: "hash k < length tab" using hash_lt assms(1) by simp
  from probe_stops [OF assms(4)] have il: "i < length tab" "key (tab ! i) = None" by auto
  then have "\<exists>e \<in> set tab. key e = None" by (auto intro: nth_mem)
  from probe_first [OF h this] assms(4) obtain d where
    d: "d < length tab" "i = place tab (hash k) d" "\<forall>e < d. key (tab ! place tab (hash k) e) \<noteq> None" by auto
  have no: "key (tab ! j) \<noteq> Some k" if "j < length tab" for j
    using assms(2) that by (auto simp: table_keys_def)
  have pl: "place (tab[i := e]) = place tab" by (simp add: fun_eq_iff place_def)
  have ne: "tab \<noteq> []" using h by auto
  have "probe (\<lambda>e. key e = None \<or> key e = Some k) (tab[i := e]) (hash k) = Some (place (tab[i := e]) (hash k) d)"
  proof (rule probe_found)
    show "\<forall>e' < d. \<not> (key (tab[i := e] ! place (tab[i := e]) (hash k) e') = None \<or>
        key (tab[i := e] ! place (tab[i := e]) (hash k) e') = Some k)"
    proof (intro allI impI)
      fix e' assume e': "e' < d"
      then have "place tab (hash k) e' \<noteq> i" using d place_inj [of tab "hash k" e' d] by auto
      then show "\<not> (key (tab[i := e] ! place (tab[i := e]) (hash k) e') = None \<or>
        key (tab[i := e] ! place (tab[i := e]) (hash k) e') = Some k)"
        unfolding pl using d(3) e' no [OF place_lt [OF ne]] by simp
    qed
    show "hash k < length (tab[i := e])" using h by simp
    show "key (tab[i := e] ! place (tab[i := e]) (hash k) d) = None \<or> key (tab[i := e] ! place (tab[i := e]) (hash k) d) = Some k"
      unfolding pl using il(1) assms(3) d(2) by simp
  qed
  then show "probe (\<lambda>e. key e = None \<or> key e = Some k) (tab[i := e]) (hash k) = Some i" unfolding pl using d(2) by simp
  show "tab[i := e] ! i = e" using il(1) by simp
qed

end

end
