(* ===== verification/Objc.thy ===== *)
theory Objc
  imports Open_Table C_Memory
begin

text \<open>
  The Objective-C runtime of the Developer tree, \<^verbatim>\<open>Developer/objc/objcrt.c\<close>: its data, from
  \<^verbatim>\<open>objc/libobjcrt.h\<close>, and the tables of selectors and classes.

  Selectors, classes, lists of methods, protocols and objects live at addresses; 0 is the null pointer.
  \<open>crt_memory\<close> holds the addresses the host's allocator will give, 0 where it refuses.  Only objects are
  ever freed, so only for them the addresses in use are kept; a pointer to anything else that the runtime
  has given out stays good.  Strings are without their NUL, and a \<^verbatim>\<open>const char *\<close> that may be null is
  an option; their copies are never refused memory.  What is printed to the error output is left out.
\<close>

section \<open>Data\<close>

text \<open>The lists with a flexible array that are enlarged by four elements when they are full.\<close>

record 'e grow_list =
  gl_count :: nat
  gl_space :: int
  gl_items :: "'e list"

record objc_selector =
  sel_name :: string
  sel_types :: "string option"
  sel_uid :: uint32

text \<open>Implementations: the functions of the runtime itself, and those of programs.\<close>

datatype objc_imp =
    No_imp | Object_init | Object_free | Object_self | Object_class | Object_class_cls | Root_alloc | Root_new
  | User_imp nat

record objc_method =
  mt_name :: nat
  mt_types :: "string option"
  mt_imp :: objc_imp

record objc_method_list = "objc_method grow_list" +
  ml_next :: nat

record objc_ivar =
  iv_name :: string
  iv_type :: "string option"
  iv_offset :: uint32

record objc_property =
  pr_name :: string
  pr_attributes :: "string option"

record objc_protocol_list =
  pl_count :: nat
  pl_list :: "nat list"

record objc_protocol =
  pt_name :: string
  pt_instanceMethods :: "objc_method grow_list option"
  pt_classMethods :: "objc_method grow_list option"
  pt_protocols :: "objc_protocol_list option"
  pt_properties :: "objc_property grow_list option"

record objc_class =
  isa :: nat
  superclass :: nat
  cls_name :: string
  cls_version :: "64 word"
  instance_size :: "64 word"
  methodLists :: nat
  cls_ivars :: "objc_ivar grow_list option"
  cls_protocols :: "objc_protocol_list option"
  cls_properties :: "objc_property grow_list option"
  cls_info :: uint32

record objc_object =
  ob_isa :: nat
  ob_size :: "64 word"

record objcrt =
  runtime_ready :: bool
  class_hash :: "nat list"
  sel_hash :: "nat list"
  protocol_hash :: "nat list"
  sel_count :: uint32
  class_count :: uint32
  autorelease_pool :: "nat list"
  autorelease_pool_top :: int
  rc_table :: "(nat \<times> 64 word) list"
  exception_handler :: nat
  sel_heap :: "nat \<Rightarrow> objc_selector"
  class_heap :: "nat \<Rightarrow> objc_class"
  mlist_heap :: "nat \<Rightarrow> objc_method_list"
  proto_heap :: "nat \<Rightarrow> objc_protocol"
  obj_heap :: "nat \<Rightarrow> objc_object"
  live_classes :: "nat list"
  live_objs :: "nat list"
  crt_memory :: "nat list"

definition CLASS_HASH_SIZE :: nat where "CLASS_HASH_SIZE = 256"
definition SEL_HASH_SIZE :: nat where "SEL_HASH_SIZE = 512"
definition PROTOCOL_HASH_SIZE :: nat where "PROTOCOL_HASH_SIZE = 64"
definition RC_HASH_SIZE :: nat where "RC_HASH_SIZE = 1024"
definition AUTORELEASE_POOL_SIZE :: int where "AUTORELEASE_POOL_SIZE = 4096"

definition OBJC_CLASS_INFO_NIF :: uint32 where "OBJC_CLASS_INFO_NIF = 1"
definition OBJC_CLASS_INFO_SETUP :: uint32 where "OBJC_CLASS_INFO_SETUP = 2"
definition OBJC_CLASS_INFO_META :: uint32 where "OBJC_CLASS_INFO_META = 4"

definition sizeof_objc_object :: "64 word" where "sizeof_objc_object = 8"
definition sizeof_objc_class :: "64 word" where "sizeof_objc_class = 80"

definition zero_method :: objc_method where
  "zero_method = \<lparr>mt_name = 0, mt_types = None, mt_imp = No_imp\<rparr>"

definition zero_class :: objc_class where
  "zero_class = \<lparr>isa = 0, superclass = 0, cls_name = [], cls_version = 0, instance_size = 0, methodLists = 0,
     cls_ivars = None, cls_protocols = None, cls_properties = None, cls_info = 0\<rparr>"

section \<open>Memory\<close>

definition nonnull :: "nat \<Rightarrow> unit option" where
  "nonnull p = (if p = 0 then None else Some ())"

definition crt_alloc :: "'a objcrt_scheme \<Rightarrow> nat \<times> 'a objcrt_scheme" where
  "crt_alloc s = (case crt_memory s of [] \<Rightarrow> (0, s) | p # ps \<Rightarrow> (p, s\<lparr>crt_memory := ps\<rparr>))"

definition upd_class :: "nat \<Rightarrow> (objc_class \<Rightarrow> objc_class) \<Rightarrow> 'a objcrt_scheme \<Rightarrow> 'a objcrt_scheme" where
  "upd_class c f s = s\<lparr>class_heap := (class_heap s)(c := f (class_heap s c))\<rparr>"

definition upd_mlist :: "nat \<Rightarrow> (objc_method_list \<Rightarrow> objc_method_list) \<Rightarrow> 'a objcrt_scheme \<Rightarrow> 'a objcrt_scheme" where
  "upd_mlist l f s = s\<lparr>mlist_heap := (mlist_heap s)(l := f (mlist_heap s l))\<rparr>"

definition upd_proto :: "nat \<Rightarrow> (objc_protocol \<Rightarrow> objc_protocol) \<Rightarrow> 'a objcrt_scheme \<Rightarrow> 'a objcrt_scheme" where
  "upd_proto p f s = s\<lparr>proto_heap := (proto_heap s)(p := f (proto_heap s p))\<rparr>"

definition gl_new :: "'e \<Rightarrow> 'e grow_list" where
  "gl_new z = \<lparr>gl_count = 0, gl_space = 4, gl_items = replicate 4 z\<rparr>"

text \<open>\<^verbatim>\<open>realloc\<close> for \<open>count + 4\<close> elements; \<open>z\<close> stands for what the new ones hold.\<close>

definition gl_grow :: "'e \<Rightarrow> ('e, 'z) grow_list_scheme \<Rightarrow> ('e, 'z) grow_list_scheme" where
  "gl_grow z l = l\<lparr>gl_space := 4, gl_items := take (gl_count l + 4) (gl_items l @ replicate (gl_count l + 4) z)\<rparr>"

definition gl_push :: "'e \<Rightarrow> ('e, 'z) grow_list_scheme \<Rightarrow> ('e, 'z) grow_list_scheme option" where
  "gl_push e l =
     (if gl_count l < length (gl_items l)
      then Some (l\<lparr>gl_count := gl_count l + 1, gl_space := gl_space l - 1, gl_items := (gl_items l)[gl_count l := e]\<rparr>)
      else None)"

section \<open>Selectors\<close>

definition hash_string :: "string \<Rightarrow> uint32" where
  "hash_string str = foldl (\<lambda>h c. (push_bit 5 h + h) + of_char c) 5381 str"

definition sel_registerName :: "string option \<Rightarrow> 'a objcrt_scheme \<Rightarrow> (nat \<times> 'a objcrt_scheme) option" where
  "sel_registerName name s =
     (case name of
        None \<Rightarrow> Some (0, s)
      | Some name \<Rightarrow> do {
          let idx = unat (hash_string name) mod SEL_HASH_SIZE;
          i \<leftarrow> probe (\<lambda>a. a = 0 \<or> sel_name (sel_heap s a) = name) (sel_hash s) idx;
          if sel_hash s ! i \<noteq> 0 then Some (sel_hash s ! i, s)
          else do {
            let (sel, s) = crt_alloc s;
            nonnull sel;
            let s = s\<lparr>sel_heap := (sel_heap s)(sel := \<lparr>sel_name = name, sel_types = None, sel_uid = sel_count s\<rparr>),
                      sel_count := sel_count s + 1\<rparr>;
            i \<leftarrow> probe (\<lambda>a. a = 0) (sel_hash s) idx;
            Some (sel, s\<lparr>sel_hash := (sel_hash s)[i := sel]\<rparr>)
          }
        })"

definition sel_getUid :: "string option \<Rightarrow> 'a objcrt_scheme \<Rightarrow> (nat \<times> 'a objcrt_scheme) option" where
  "sel_getUid name s = sel_registerName name s"

definition sel_getName :: "nat \<Rightarrow> 'a objcrt_scheme \<Rightarrow> string option" where
  "sel_getName sel s = (if sel = 0 then None else Some (sel_name (sel_heap s sel)))"

definition sel_isEqual :: "nat \<Rightarrow> nat \<Rightarrow> 'a objcrt_scheme \<Rightarrow> bool" where
  "sel_isEqual lhs rhs s =
     (if lhs = rhs then True
      else if lhs = 0 \<or> rhs = 0 then False
      else sel_name (sel_heap s lhs) = sel_name (sel_heap s rhs))"

definition sel_getTypeEncoding :: "nat \<Rightarrow> 'a objcrt_scheme \<Rightarrow> string option" where
  "sel_getTypeEncoding sel s = (if sel = 0 then None else sel_types (sel_heap s sel))"

definition sel_setTypeEncoding :: "nat \<Rightarrow> string option \<Rightarrow> 'a objcrt_scheme \<Rightarrow> 'a objcrt_scheme" where
  "sel_setTypeEncoding sel types s =
     (if sel = 0 then s else s\<lparr>sel_heap := (sel_heap s)(sel := (sel_heap s sel)\<lparr>sel_types := types\<rparr>)\<rparr>)"

section \<open>Classes\<close>

definition alloc_class :: "'a objcrt_scheme \<Rightarrow> (nat \<times> 'a objcrt_scheme) option" where
  "alloc_class s = do {
     let (cls, s) = crt_alloc s;
     nonnull cls;
     Some (cls, upd_class cls (\<lambda>_. zero_class) (s\<lparr>live_classes := cls # live_classes s\<rparr>))
   }"

definition objc_lookUpClass :: "string option \<Rightarrow> 'a objcrt_scheme \<Rightarrow> nat option" where
  "objc_lookUpClass name s =
     (case name of
        None \<Rightarrow> Some 0
      | Some name \<Rightarrow>
          if \<not> runtime_ready s then Some 0
          else do {
            i \<leftarrow> probe (\<lambda>a. a = 0 \<or> cls_name (class_heap s a) = name) (class_hash s)
              (unat (hash_string name) mod CLASS_HASH_SIZE);
            Some (class_hash s ! i)
          })"

definition objc_getClass :: "string option \<Rightarrow> 'a objcrt_scheme \<Rightarrow> nat option" where
  "objc_getClass name s = (if name = None then Some 0 else objc_lookUpClass name s)"

definition objc_getMetaClass :: "string option \<Rightarrow> 'a objcrt_scheme \<Rightarrow> nat option" where
  "objc_getMetaClass name s = do {
     cls \<leftarrow> objc_getClass name s;
     Some (if cls \<noteq> 0 then isa (class_heap s cls) else 0)
   }"

definition class_getName :: "nat \<Rightarrow> 'a objcrt_scheme \<Rightarrow> string" where
  "class_getName cls s = (if cls \<noteq> 0 then cls_name (class_heap s cls) else ''<nil>'')"

definition class_getSuperclass :: "nat \<Rightarrow> 'a objcrt_scheme \<Rightarrow> nat" where
  "class_getSuperclass cls s = (if cls \<noteq> 0 then superclass (class_heap s cls) else 0)"

definition class_isMetaClass :: "nat \<Rightarrow> 'a objcrt_scheme \<Rightarrow> uint32" where
  "class_isMetaClass cls s = (if cls \<noteq> 0 then cls_info (class_heap s cls) AND OBJC_CLASS_INFO_META else 0)"

definition class_getVersion :: "nat \<Rightarrow> 'a objcrt_scheme \<Rightarrow> 64 word" where
  "class_getVersion cls s = (if cls \<noteq> 0 then cls_version (class_heap s cls) else 0)"

definition class_setVersion :: "nat \<Rightarrow> 64 word \<Rightarrow> 'a objcrt_scheme \<Rightarrow> 'a objcrt_scheme" where
  "class_setVersion cls v s = (if cls \<noteq> 0 then upd_class cls (\<lambda>c. c\<lparr>cls_version := v\<rparr>) s else s)"

definition class_getInstanceSize :: "nat \<Rightarrow> 'a objcrt_scheme \<Rightarrow> 64 word" where
  "class_getInstanceSize cls s =
     (if cls = 0 then 0
      else if instance_size (class_heap s cls) < sizeof_objc_object then sizeof_objc_object
      else instance_size (class_heap s cls))"

definition objc_allocateClassPair ::
  "nat \<Rightarrow> string option \<Rightarrow> 64 word \<Rightarrow> 'a objcrt_scheme \<Rightarrow> (nat \<times> 'a objcrt_scheme) option" where
  "objc_allocateClassPair super name extraBytes s =
     (case name of
        None \<Rightarrow> Some (0, s)
      | Some name \<Rightarrow> do {
          (cls, s) \<leftarrow> alloc_class s;
          let sz = (if super \<noteq> 0 then instance_size (class_heap s super) + extraBytes else sizeof_objc_object);
          let s = upd_class cls (\<lambda>c. c\<lparr>cls_name := name, superclass := super, instance_size := sz,
            cls_info := OBJC_CLASS_INFO_NIF\<rparr>) s;
          (meta, s) \<leftarrow> alloc_class s;
          let ms = (if super \<noteq> 0 then isa (class_heap s super) else 0);
          let s = upd_class meta (\<lambda>c. c\<lparr>cls_name := name, superclass := ms, cls_info := OBJC_CLASS_INFO_META,
            instance_size := sizeof_objc_class\<rparr>) s;
          let s = upd_class cls (\<lambda>c. c\<lparr>isa := meta\<rparr>) s;
          Some (cls, upd_class meta (\<lambda>c. c\<lparr>isa := meta\<rparr>) s)
        })"

partial_function (option) objc_resolve_class :: "nat \<Rightarrow> 'a objcrt_scheme \<Rightarrow> 'a objcrt_scheme option" where
  "objc_resolve_class cls s =
     (if cls = 0 \<or> cls_info (class_heap s cls) AND OBJC_CLASS_INFO_SETUP \<noteq> 0 then Some s
      else do {
        let super = superclass (class_heap s cls);
        s \<leftarrow> (if super \<noteq> 0 \<and> cls_info (class_heap s super) AND OBJC_CLASS_INFO_SETUP = 0
              then objc_resolve_class super s else Some s);
        Some (upd_class cls (\<lambda>c. c\<lparr>cls_info := cls_info c OR OBJC_CLASS_INFO_SETUP\<rparr>) s)
      })"

definition objc_registerClassPair :: "nat \<Rightarrow> 'a objcrt_scheme \<Rightarrow> 'a objcrt_scheme option" where
  "objc_registerClassPair cls s =
     (if cls = 0 then Some s
      else do {
        let idx = unat (hash_string (cls_name (class_heap s cls))) mod CLASS_HASH_SIZE;
        i \<leftarrow> probe (\<lambda>a. a = 0) (class_hash s) idx;
        let s = s\<lparr>class_hash := (class_hash s)[i := cls], class_count := class_count s + 1\<rparr>;
        let meta = isa (class_heap s cls);
        s \<leftarrow> (if meta \<noteq> 0 then do {
                i \<leftarrow> probe (\<lambda>a. a = 0) (class_hash s) idx;
                Some (upd_class meta (\<lambda>c. c\<lparr>cls_info := cls_info c OR OBJC_CLASS_INFO_SETUP\<rparr>)
                  (s\<lparr>class_hash := (class_hash s)[i := meta]\<rparr>))
              }
              else Some s);
        objc_resolve_class cls (upd_class cls (\<lambda>c. c\<lparr>cls_info := cls_info c OR OBJC_CLASS_INFO_SETUP\<rparr>) s)
      })"

definition objc_getClassList :: "int \<Rightarrow> 'a objcrt_scheme \<Rightarrow> int \<times> nat list" where
  "objc_getClassList bufferLen s =
     (if bufferLen \<le> 0 then (sint (class_count s), [])
      else
        (let found = filter (\<lambda>a. a \<noteq> 0 \<and> cls_info (class_heap s a) AND OBJC_CLASS_INFO_META = 0) (class_hash s);
             buffer = take (nat bufferLen) found
         in (int (length buffer), buffer)))"

end
