(* ===== verification/Objc_Class.thy ===== *)
theory Objc_Class
  imports Objc
begin

text \<open>
  What classes and protocols of the Objective-C runtime (\<^verbatim>\<open>Developer/objc/objcrt.c\<close>) hold: methods,
  instance variables, properties and protocols.  A method is the address of its list and its index, an
  instance variable or property its class or protocol and its index; the null pointer is \<open>None\<close>.  The
  fresh arrays that the functions named \<^verbatim>\<open>copy\<close> return are lists, and the empty list is the null
  pointer they return instead of an empty array.
\<close>

section \<open>Methods\<close>

definition sel_matches :: "nat \<Rightarrow> nat \<Rightarrow> 'a objcrt_scheme \<Rightarrow> bool" where
  "sel_matches a b s \<longleftrightarrow> a = b \<or> a \<noteq> 0 \<and> b \<noteq> 0 \<and> sel_name (sel_heap s a) = sel_name (sel_heap s b)"

definition method_list_find :: "nat \<Rightarrow> nat \<Rightarrow> 'a objcrt_scheme \<Rightarrow> nat option" where
  "method_list_find list name s =
     (if list = 0 then None
      else find (\<lambda>i. sel_matches (mt_name (gl_items (mlist_heap s list) ! i)) name s) [0..<gl_count (mlist_heap s list)])"

partial_function (option) find_in_lists :: "nat \<Rightarrow> nat \<Rightarrow> 'a objcrt_scheme \<Rightarrow> (nat \<times> nat) option option" where
  "find_in_lists list name s =
     (if list = 0 then Some None
      else case method_list_find list name s of
        Some i \<Rightarrow> Some (Some (list, i))
      | None \<Rightarrow> find_in_lists (ml_next (mlist_heap s list)) name s)"

partial_function (option) find_in_classes :: "nat \<Rightarrow> nat \<Rightarrow> 'a objcrt_scheme \<Rightarrow> (nat \<times> nat) option option" where
  "find_in_classes cur name s =
     (if cur = 0 then Some None
      else do {
        m \<leftarrow> find_in_lists (methodLists (class_heap s cur)) name s;
        case m of Some m \<Rightarrow> Some (Some m) | None \<Rightarrow> find_in_classes (superclass (class_heap s cur)) name s
      })"

definition class_getInstanceMethod :: "nat \<Rightarrow> nat \<Rightarrow> 'a objcrt_scheme \<Rightarrow> (nat \<times> nat) option option" where
  "class_getInstanceMethod cls name s = (if cls = 0 \<or> name = 0 then Some None else find_in_classes cls name s)"

definition class_getClassMethod :: "nat \<Rightarrow> nat \<Rightarrow> 'a objcrt_scheme \<Rightarrow> (nat \<times> nat) option option" where
  "class_getClassMethod cls name s =
     (if cls \<noteq> 0 then class_getInstanceMethod (isa (class_heap s cls)) name s else Some None)"

partial_function (option) all_methods :: "nat \<Rightarrow> 'a objcrt_scheme \<Rightarrow> (nat \<times> nat) list option" where
  "all_methods list s =
     (if list = 0 then Some []
      else do {
        ms \<leftarrow> all_methods (ml_next (mlist_heap s list)) s;
        Some (map (Pair list) [0..<gl_count (mlist_heap s list)] @ ms)
      })"

definition class_copyMethodList :: "nat \<Rightarrow> 'a objcrt_scheme \<Rightarrow> ((nat \<times> nat) list \<times> 'a objcrt_scheme) option" where
  "class_copyMethodList cls s =
     (if cls = 0 then Some ([], s)
      else do {
        ms \<leftarrow> all_methods (methodLists (class_heap s cls)) s;
        if ms = [] then Some ([], s)
        else (let (result, s) = crt_alloc s in Some (if result = 0 then [] else ms, s))
      })"

definition class_addMethod ::
  "nat \<Rightarrow> nat \<Rightarrow> objc_imp \<Rightarrow> string option \<Rightarrow> 'a objcrt_scheme \<Rightarrow> (bool \<times> 'a objcrt_scheme) option" where
  "class_addMethod cls name imp types s =
     (if cls = 0 \<or> name = 0 \<or> imp = No_imp then Some (False, s)
      else do {
        existing \<leftarrow> class_getInstanceMethod cls name s;
        if existing \<noteq> None then Some (False, s)
        else do {
          let list = methodLists (class_heap s cls);
          (list, s) \<leftarrow>
            (if list = 0 \<or> gl_space (mlist_heap s list) \<le> 0 then do {
               let (list, s) = crt_alloc s;
               nonnull list;
               let next = methodLists (class_heap s cls);
               let s = upd_mlist list (\<lambda>_. grow_list.extend (gl_new zero_method) (objc_method_list.fields next)) s;
               Some (list, upd_class cls (\<lambda>c. c\<lparr>methodLists := list\<rparr>) s)
             }
             else Some (list, s));
          l \<leftarrow> gl_push \<lparr>mt_name = name, mt_types = types, mt_imp = imp\<rparr> (mlist_heap s list);
          Some (True, upd_mlist list (\<lambda>_. l) s)
        }
      })"

definition method_at :: "nat \<times> nat \<Rightarrow> 'a objcrt_scheme \<Rightarrow> objc_method" where
  "method_at m s = gl_items (mlist_heap s (fst m)) ! snd m"

definition upd_method :: "nat \<times> nat \<Rightarrow> (objc_method \<Rightarrow> objc_method) \<Rightarrow> 'a objcrt_scheme \<Rightarrow> 'a objcrt_scheme" where
  "upd_method m f s = upd_mlist (fst m) (\<lambda>l. l\<lparr>gl_items := (gl_items l)[snd m := f (gl_items l ! snd m)]\<rparr>) s"

definition class_replaceMethod ::
  "nat \<Rightarrow> nat \<Rightarrow> objc_imp \<Rightarrow> string option \<Rightarrow> 'a objcrt_scheme \<Rightarrow> 'a objcrt_scheme option" where
  "class_replaceMethod cls name imp types s =
     (if cls = 0 \<or> name = 0 \<or> imp = No_imp then Some s
      else do {
        m \<leftarrow> class_getInstanceMethod cls name s;
        case m of
          Some m \<Rightarrow> Some (upd_method m (\<lambda>x. x\<lparr>mt_imp := imp, mt_types := (if types = None then mt_types x else types)\<rparr>) s)
        | None \<Rightarrow> map_option snd (class_addMethod cls name imp types s)
      })"

definition class_hasMethod :: "nat \<Rightarrow> nat \<Rightarrow> 'a objcrt_scheme \<Rightarrow> bool option" where
  "class_hasMethod cls name s = map_option (\<lambda>m. m \<noteq> None) (class_getInstanceMethod cls name s)"

definition class_respondsToSelector :: "nat \<Rightarrow> nat \<Rightarrow> 'a objcrt_scheme \<Rightarrow> bool option" where
  "class_respondsToSelector cls sel s =
     (if cls \<noteq> 0 \<and> sel \<noteq> 0 then map_option (\<lambda>m. m \<noteq> None) (class_getInstanceMethod cls sel s) else Some False)"

definition method_getName :: "(nat \<times> nat) option \<Rightarrow> 'a objcrt_scheme \<Rightarrow> nat" where
  "method_getName m s = (case m of None \<Rightarrow> 0 | Some m \<Rightarrow> mt_name (method_at m s))"

definition method_getImplementation :: "(nat \<times> nat) option \<Rightarrow> 'a objcrt_scheme \<Rightarrow> objc_imp" where
  "method_getImplementation m s = (case m of None \<Rightarrow> No_imp | Some m \<Rightarrow> mt_imp (method_at m s))"

definition method_setImplementation ::
  "(nat \<times> nat) option \<Rightarrow> objc_imp \<Rightarrow> 'a objcrt_scheme \<Rightarrow> objc_imp \<times> 'a objcrt_scheme" where
  "method_setImplementation m imp s =
     (case m of
        None \<Rightarrow> (No_imp, s)
      | Some m \<Rightarrow> (mt_imp (method_at m s), upd_method m (\<lambda>x. x\<lparr>mt_imp := imp\<rparr>) s))"

definition method_getTypeEncoding :: "(nat \<times> nat) option \<Rightarrow> 'a objcrt_scheme \<Rightarrow> string option" where
  "method_getTypeEncoding m s = (case m of None \<Rightarrow> None | Some m \<Rightarrow> mt_types (method_at m s))"

section \<open>Type encodings\<close>

text \<open>Skipping to the first \<^verbatim>\<open>@\<close> or \<^verbatim>\<open>:\<close>, and over one given character.\<close>

definition skip_to_self :: "string \<Rightarrow> string" where
  "skip_to_self = dropWhile (\<lambda>c. c \<noteq> CHR ''@'' \<and> c \<noteq> CHR '':'')"

definition skip_char :: "char \<Rightarrow> string \<Rightarrow> string" where
  "skip_char c str = (case str of [] \<Rightarrow> [] | x # xs \<Rightarrow> if x = c then xs else str)"

definition method_getNumberOfArguments :: "(nat \<times> nat) option \<Rightarrow> 'a objcrt_scheme \<Rightarrow> nat" where
  "method_getNumberOfArguments m s =
     (case m of
        None \<Rightarrow> 2
      | Some m \<Rightarrow>
          case mt_types (method_at m s) of
            None \<Rightarrow> 2
          | Some types \<Rightarrow>
              2 + length (skip_char CHR '':'' (skip_char CHR ''@'' (skip_char CHR ''@'' (skip_to_self types)))))"

text \<open>What is in the buffer afterwards; \<open>None\<close> inside is a buffer left as it was.\<close>

definition method_getReturnType :: "(nat \<times> nat) option \<Rightarrow> nat \<Rightarrow> 'a objcrt_scheme \<Rightarrow> string option" where
  "method_getReturnType m bufLen s =
     (if bufLen = 0 then None
      else case m of
        None \<Rightarrow> Some []
      | Some m \<Rightarrow>
          case mt_types (method_at m s) of
            None \<Rightarrow> Some []
          | Some types \<Rightarrow> Some (if length types < bufLen then types else take (bufLen - 1) types))"

definition method_getArgumentType ::
  "(nat \<times> nat) option \<Rightarrow> nat \<Rightarrow> nat \<Rightarrow> 'a objcrt_scheme \<Rightarrow> string option option" where
  "method_getArgumentType m index bufLen s =
     (if bufLen = 0 then Some None
      else case m of
        None \<Rightarrow> Some (Some [])
      | Some m \<Rightarrow>
          case mt_types (method_at m s) of
            None \<Rightarrow> Some (Some [])
          | Some types \<Rightarrow>
              if index = 0 then Some (Some (take (bufLen - 1) ''@''))
              else if index = 1 then Some (Some (take (bufLen - 1) '':''))
              else
                (case drop (index - 2) (skip_char CHR '':'' (skip_char CHR ''@'' (skip_to_self types))) of
                   [] \<Rightarrow> Some (Some [])
                 | c # _ \<Rightarrow> if bufLen < 2 then None else Some (Some [c])))"

section \<open>Instance variables\<close>

text \<open>The shared steps of adding to a list: making it first, or enlarging it.  \<open>gl_room\<close> gives \<open>None\<close> when the
  host refuses the larger one.\<close>

definition gl_made :: "'e \<Rightarrow> 'e grow_list option \<Rightarrow> 'a objcrt_scheme \<Rightarrow> ('e grow_list \<times> 'a objcrt_scheme) option" where
  "gl_made z l s =
     (case l of
        None \<Rightarrow> do { let (p, s) = crt_alloc s; nonnull p; Some (gl_new z, s) }
      | Some l \<Rightarrow> Some (l, s))"

definition gl_room :: "'e \<Rightarrow> 'e grow_list \<Rightarrow> 'a objcrt_scheme \<Rightarrow> 'e grow_list option \<times> 'a objcrt_scheme" where
  "gl_room z l s =
     (if gl_space l \<le> 0
      then (let (p, s) = crt_alloc s in (if p = 0 then None else Some (gl_grow z l), s))
      else (Some l, s))"

definition class_copyIvarList :: "nat \<Rightarrow> 'a objcrt_scheme \<Rightarrow> ((nat \<times> nat) list \<times> 'a objcrt_scheme) option" where
  "class_copyIvarList cls s =
     (if cls = 0 then Some ([], s)
      else case cls_ivars (class_heap s cls) of
        None \<Rightarrow> Some ([], s)
      | Some l \<Rightarrow>
          if gl_count l = 0 then Some ([], s)
          else do {
            let (result, s) = crt_alloc s;
            nonnull result;
            Some (map (Pair cls) [0..<gl_count l], s)
          })"

definition zero_ivar :: objc_ivar where
  "zero_ivar = \<lparr>iv_name = [], iv_type = None, iv_offset = 0\<rparr>"

definition ivar_at :: "nat \<times> nat \<Rightarrow> 'a objcrt_scheme \<Rightarrow> objc_ivar option" where
  "ivar_at iv s =
     (case cls_ivars (class_heap s (fst iv)) of
        None \<Rightarrow> None
      | Some l \<Rightarrow> if snd iv < gl_count l then Some (gl_items l ! snd iv) else None)"

definition ivar_getName :: "(nat \<times> nat) option \<Rightarrow> 'a objcrt_scheme \<Rightarrow> string option option" where
  "ivar_getName iv s = (case iv of None \<Rightarrow> Some None | Some iv \<Rightarrow> map_option (\<lambda>i. Some (iv_name i)) (ivar_at iv s))"

definition ivar_getTypeEncoding :: "(nat \<times> nat) option \<Rightarrow> 'a objcrt_scheme \<Rightarrow> string option option" where
  "ivar_getTypeEncoding iv s = (case iv of None \<Rightarrow> Some None | Some iv \<Rightarrow> map_option iv_type (ivar_at iv s))"

definition ivar_getOffset :: "(nat \<times> nat) option \<Rightarrow> 'a objcrt_scheme \<Rightarrow> 64 word option" where
  "ivar_getOffset iv s = (case iv of None \<Rightarrow> Some 0 | Some iv \<Rightarrow> map_option (\<lambda>i. ucast (iv_offset i)) (ivar_at iv s))"

text \<open>Rounding up to a multiple of \<open>2 ^ alignment\<close>; a shift by 64 or more is undefined.\<close>

definition align_offset :: "byte \<Rightarrow> 64 word \<Rightarrow> 64 word option" where
  "align_offset alignment offset =
     (if alignment = 0 then Some offset
      else if 64 \<le> alignment then None
      else (let align = push_bit (unat alignment) 1 in Some ((offset + align - 1) AND NOT (align - 1))))"

definition class_addIvar ::
  "nat \<Rightarrow> string option \<Rightarrow> 64 word \<Rightarrow> byte \<Rightarrow> string option \<Rightarrow> 'a objcrt_scheme \<Rightarrow> (bool \<times> 'a objcrt_scheme) option" where
  "class_addIvar cls name sz alignment types s =
     (case name of
        None \<Rightarrow> Some (False, s)
      | Some name \<Rightarrow>
          if cls = 0 \<or> cls_info (class_heap s cls) AND OBJC_CLASS_INFO_NIF = 0 then Some (False, s)
          else do {
            (l, s) \<leftarrow> gl_made zero_ivar (cls_ivars (class_heap s cls)) s;
            let s = upd_class cls (\<lambda>c. c\<lparr>cls_ivars := Some l\<rparr>) s;
            let (room, s) = gl_room zero_ivar l s;
            (case room of
               None \<Rightarrow> Some (False, s)
             | Some l \<Rightarrow> do {
                 offset \<leftarrow> align_offset alignment (instance_size (class_heap s cls));
                 l \<leftarrow> gl_push \<lparr>iv_name = name, iv_type = types, iv_offset = ucast offset\<rparr> l;
                 Some (True, upd_class cls (\<lambda>c. c\<lparr>cls_ivars := Some l, instance_size := offset + sz\<rparr>) s)
               })
          })"

definition objc_offsetOf :: "nat \<Rightarrow> string option \<Rightarrow> 'a objcrt_scheme \<Rightarrow> 64 word" where
  "objc_offsetOf cls name s =
     (case (name, cls_ivars (class_heap s cls)) of
        (Some name, Some l) \<Rightarrow>
          if cls = 0 then 0
          else (case find (\<lambda>i. iv_name (gl_items l ! i) = name) [0..<gl_count l] of
                  None \<Rightarrow> 0 | Some i \<Rightarrow> ucast (iv_offset (gl_items l ! i)))
      | _ \<Rightarrow> 0)"

section \<open>Properties\<close>

definition zero_property :: objc_property where
  "zero_property = \<lparr>pr_name = [], pr_attributes = None\<rparr>"

definition class_copyPropertyList :: "nat \<Rightarrow> 'a objcrt_scheme \<Rightarrow> ((nat \<times> nat) list \<times> 'a objcrt_scheme) option" where
  "class_copyPropertyList cls s =
     (if cls = 0 then Some ([], s)
      else case cls_properties (class_heap s cls) of
        None \<Rightarrow> Some ([], s)
      | Some l \<Rightarrow>
          if gl_count l = 0 then Some ([], s)
          else do {
            let (result, s) = crt_alloc s;
            nonnull result;
            Some (map (Pair cls) [0..<gl_count l], s)
          })"

definition find_property :: "string \<Rightarrow> objc_property grow_list \<Rightarrow> nat option" where
  "find_property name l = find (\<lambda>i. pr_name (gl_items l ! i) = name) [0..<gl_count l]"

definition class_getProperty :: "nat \<Rightarrow> string option \<Rightarrow> 'a objcrt_scheme \<Rightarrow> (nat \<times> nat) option" where
  "class_getProperty cls name s =
     (case (name, cls_properties (class_heap s cls)) of
        (Some name, Some l) \<Rightarrow> if cls = 0 then None else map_option (Pair cls) (find_property name l)
      | _ \<Rightarrow> None)"

definition class_addProperty ::
  "nat \<Rightarrow> string option \<Rightarrow> string option \<Rightarrow> 'a objcrt_scheme \<Rightarrow> (bool \<times> 'a objcrt_scheme) option" where
  "class_addProperty cls name attributes s =
     (case name of
        None \<Rightarrow> Some (False, s)
      | Some name \<Rightarrow>
          if cls = 0 then Some (False, s)
          else do {
            (l, s) \<leftarrow> gl_made zero_property (cls_properties (class_heap s cls)) s;
            let s = upd_class cls (\<lambda>c. c\<lparr>cls_properties := Some l\<rparr>) s;
            let (room, s) = gl_room zero_property l s;
            (case room of
               None \<Rightarrow> Some (False, s)
             | Some l \<Rightarrow> do {
                 l \<leftarrow> gl_push \<lparr>pr_name = name, pr_attributes = attributes\<rparr> l;
                 Some (True, upd_class cls (\<lambda>c. c\<lparr>cls_properties := Some l\<rparr>) s)
               })
          })"

definition class_replaceProperty ::
  "nat \<Rightarrow> string option \<Rightarrow> string option \<Rightarrow> 'a objcrt_scheme \<Rightarrow> 'a objcrt_scheme option" where
  "class_replaceProperty cls name attributes s =
     (case (name, cls_properties (class_heap s cls)) of
        (Some nm, Some l) \<Rightarrow>
          if cls = 0 then Some s
          else (case find_property nm l of
             Some i \<Rightarrow> Some (upd_class cls (\<lambda>c. c\<lparr>cls_properties :=
                 Some (l\<lparr>gl_items := (gl_items l)[i := (gl_items l ! i)\<lparr>pr_attributes := attributes\<rparr>]\<rparr>)\<rparr>) s)
           | None \<Rightarrow> map_option snd (class_addProperty cls name attributes s))
      | _ \<Rightarrow> Some s)"

definition property_at :: "objc_property grow_list option \<Rightarrow> nat \<Rightarrow> objc_property option" where
  "property_at l i = (case l of None \<Rightarrow> None | Some l \<Rightarrow> if i < gl_count l then Some (gl_items l ! i) else None)"

definition property_getName :: "(nat \<times> nat) option \<Rightarrow> 'a objcrt_scheme \<Rightarrow> string option option" where
  "property_getName prop s =
     (case prop of
        None \<Rightarrow> Some None
      | Some p \<Rightarrow> map_option (\<lambda>p. Some (pr_name p)) (property_at (cls_properties (class_heap s (fst p))) (snd p)))"

definition property_getAttributes :: "(nat \<times> nat) option \<Rightarrow> 'a objcrt_scheme \<Rightarrow> string option option" where
  "property_getAttributes prop s =
     (case prop of
        None \<Rightarrow> Some None
      | Some p \<Rightarrow> map_option pr_attributes (property_at (cls_properties (class_heap s (fst p))) (snd p)))"

section \<open>Protocols\<close>

definition objc_allocateProtocol :: "string option \<Rightarrow> 'a objcrt_scheme \<Rightarrow> (nat \<times> 'a objcrt_scheme) option" where
  "objc_allocateProtocol name s =
     (case name of
        None \<Rightarrow> Some (0, s)
      | Some name \<Rightarrow> do {
          let (proto, s) = crt_alloc s;
          nonnull proto;
          let s = upd_proto proto (\<lambda>_. \<lparr>pt_name = name, pt_instanceMethods = None, pt_classMethods = None,
            pt_protocols = None, pt_properties = None\<rparr>) s;
          i \<leftarrow> probe (\<lambda>a. a = 0) (protocol_hash s) (unat (hash_string name) mod PROTOCOL_HASH_SIZE);
          Some (proto, s\<lparr>protocol_hash := (protocol_hash s)[i := proto]\<rparr>)
        })"

definition objc_getProtocol :: "string option \<Rightarrow> 'a objcrt_scheme \<Rightarrow> nat option" where
  "objc_getProtocol name s =
     (case name of
        None \<Rightarrow> Some 0
      | Some name \<Rightarrow> do {
          i \<leftarrow> probe (\<lambda>a. a = 0 \<or> pt_name (proto_heap s a) = name) (protocol_hash s)
            (unat (hash_string name) mod PROTOCOL_HASH_SIZE);
          Some (protocol_hash s ! i)
        })"

definition protocol_addMethodDescription ::
  "nat \<Rightarrow> nat \<Rightarrow> string option \<Rightarrow> bool \<Rightarrow> 'a objcrt_scheme \<Rightarrow> 'a objcrt_scheme option" where
  "protocol_addMethodDescription proto name types isInstance s =
     (if proto = 0 \<or> name = 0 then Some s
      else do {
        let p = proto_heap s proto;
        (l, s) \<leftarrow> gl_made zero_method (if isInstance then pt_instanceMethods p else pt_classMethods p) s;
        let (room, s) = gl_room zero_method l s;
        l \<leftarrow> room;
        l \<leftarrow> gl_push \<lparr>mt_name = name, mt_types = types, mt_imp = No_imp\<rparr> l;
        Some (upd_proto proto (\<lambda>p. if isInstance then p\<lparr>pt_instanceMethods := Some l\<rparr> else p\<lparr>pt_classMethods := Some l\<rparr>) s)
      })"

text \<open>A list of protocols has room for four and is never enlarged.\<close>

definition pl_push :: "nat \<Rightarrow> objc_protocol_list option \<Rightarrow> 'a objcrt_scheme \<Rightarrow> (objc_protocol_list \<times> 'a objcrt_scheme) option" where
  "pl_push e l s = do {
     (l, s) \<leftarrow> (case l of
         None \<Rightarrow> do { let (p, s) = crt_alloc s; nonnull p; Some (\<lparr>pl_count = 0, pl_list = replicate 4 0\<rparr>, s) }
       | Some l \<Rightarrow> Some (l, s));
     if pl_count l < length (pl_list l)
     then Some (l\<lparr>pl_list := (pl_list l)[pl_count l := e], pl_count := pl_count l + 1\<rparr>, s)
     else None
   }"

definition protocol_addProtocol :: "nat \<Rightarrow> nat \<Rightarrow> 'a objcrt_scheme \<Rightarrow> 'a objcrt_scheme option" where
  "protocol_addProtocol proto addition s =
     (if proto = 0 \<or> addition = 0 then Some s
      else do {
        (l, s) \<leftarrow> pl_push addition (pt_protocols (proto_heap s proto)) s;
        Some (upd_proto proto (\<lambda>p. p\<lparr>pt_protocols := Some l\<rparr>) s)
      })"

definition protocol_addProperty :: "nat \<Rightarrow> string option \<Rightarrow> string option \<Rightarrow> 'a objcrt_scheme \<Rightarrow> 'a objcrt_scheme option" where
  "protocol_addProperty proto name attributes s =
     (case name of
        None \<Rightarrow> Some s
      | Some name \<Rightarrow>
          if proto = 0 then Some s
          else do {
            (l, s) \<leftarrow> gl_made zero_property (pt_properties (proto_heap s proto)) s;
            let (room, s) = gl_room zero_property l s;
            l \<leftarrow> room;
            l \<leftarrow> gl_push \<lparr>pr_name = name, pr_attributes = attributes\<rparr> l;
            Some (upd_proto proto (\<lambda>p. p\<lparr>pt_properties := Some l\<rparr>) s)
          })"

definition protocol_getName :: "nat \<Rightarrow> 'a objcrt_scheme \<Rightarrow> string option" where
  "protocol_getName proto s = (if proto = 0 then None else Some (pt_name (proto_heap s proto)))"

text \<open>The protocols of a list, as far as its counter says.\<close>

definition pl_members :: "objc_protocol_list option \<Rightarrow> nat list" where
  "pl_members l = (case l of None \<Rightarrow> [] | Some l \<Rightarrow> take (pl_count l) (pl_list l))"

text \<open>Whether one of a list of protocols conforms to \<open>other\<close>: the loop of
  \<^verbatim>\<open>protocol_conformsToProtocol\<close> with the recursive call inside.\<close>

partial_function (option) conforms_any :: "nat list \<Rightarrow> nat \<Rightarrow> 'a objcrt_scheme \<Rightarrow> bool option" where
  "conforms_any ps other s =
     (case ps of
        [] \<Rightarrow> Some False
      | proto # ps \<Rightarrow> do {
          r \<leftarrow> (if proto = 0 \<or> other = 0 then Some False
                else if proto = other then Some True
                else conforms_any (pl_members (pt_protocols (proto_heap s proto))) other s);
          if r then Some True else conforms_any ps other s
        })"

definition protocol_conformsToProtocol :: "nat \<Rightarrow> nat \<Rightarrow> 'a objcrt_scheme \<Rightarrow> bool option" where
  "protocol_conformsToProtocol proto other s = conforms_any [proto] other s"

definition protocol_isEqual :: "nat \<Rightarrow> nat \<Rightarrow> 'a objcrt_scheme \<Rightarrow> bool" where
  "protocol_isEqual proto other s =
     (if proto = 0 \<or> other = 0 then False
      else if proto = other then True
      else pt_name (proto_heap s proto) = pt_name (proto_heap s other))"

text \<open>A description is a name and a type encoding, either may be null.\<close>

definition protocol_methods :: "nat \<Rightarrow> bool \<Rightarrow> 'a objcrt_scheme \<Rightarrow> objc_method list" where
  "protocol_methods proto isInstance s =
     (let p = proto_heap s proto in
      case (if isInstance then pt_instanceMethods p else pt_classMethods p) of
        None \<Rightarrow> [] | Some l \<Rightarrow> take (gl_count l) (gl_items l))"

definition protocol_copyMethodDescriptionList ::
  "nat \<Rightarrow> bool \<Rightarrow> 'a objcrt_scheme \<Rightarrow> ((string option \<times> string option) list \<times> 'a objcrt_scheme) option" where
  "protocol_copyMethodDescriptionList proto isInstance s =
     (if proto = 0 \<or> protocol_methods proto isInstance s = [] then Some ([], s)
      else do {
        let (result, s) = crt_alloc s;
        nonnull result;
        Some (map (\<lambda>m. (sel_getName (mt_name m) s, mt_types m)) (protocol_methods proto isInstance s), s)
      })"

definition protocol_copyPropertyList :: "nat \<Rightarrow> 'a objcrt_scheme \<Rightarrow> (objc_property list \<times> 'a objcrt_scheme) option" where
  "protocol_copyPropertyList proto s =
     (case pt_properties (proto_heap s proto) of
        None \<Rightarrow> Some ([], s)
      | Some l \<Rightarrow>
          if proto = 0 \<or> gl_count l = 0 then Some ([], s)
          else do {
            let (result, s) = crt_alloc s;
            nonnull result;
            Some (take (gl_count l) (gl_items l), s)
          })"

definition protocol_copyProtocolList :: "nat \<Rightarrow> 'a objcrt_scheme \<Rightarrow> (nat list \<times> 'a objcrt_scheme) option" where
  "protocol_copyProtocolList proto s =
     (case pt_protocols (proto_heap s proto) of
        None \<Rightarrow> Some ([], s)
      | Some l \<Rightarrow>
          if proto = 0 then Some ([], s)
          else do {
            let (result, s) = crt_alloc s;
            nonnull result;
            Some (pl_members (Some l), s)
          })"

definition protocol_getMethodDescription :: "nat \<Rightarrow> nat \<Rightarrow> bool \<Rightarrow> 'a objcrt_scheme \<Rightarrow> string option \<times> string option" where
  "protocol_getMethodDescription proto sel isInstance s =
     (if proto = 0 \<or> sel = 0 then (None, None)
      else case find (\<lambda>m. mt_name m = sel) (protocol_methods proto isInstance s) of
        None \<Rightarrow> (None, None)
      | Some m \<Rightarrow> (sel_getName sel s, mt_types m))"

definition class_addProtocol :: "nat \<Rightarrow> nat \<Rightarrow> 'a objcrt_scheme \<Rightarrow> (bool \<times> 'a objcrt_scheme) option" where
  "class_addProtocol cls protocol s =
     (if cls = 0 \<or> protocol = 0 then Some (False, s)
      else do {
        (l, s) \<leftarrow> pl_push protocol (cls_protocols (class_heap s cls)) s;
        Some (True, upd_class cls (\<lambda>c. c\<lparr>cls_protocols := Some l\<rparr>) s)
      })"

partial_function (option) class_conformsToProtocol :: "nat \<Rightarrow> nat \<Rightarrow> 'a objcrt_scheme \<Rightarrow> bool option" where
  "class_conformsToProtocol cls protocol s =
     (if cls = 0 \<or> protocol = 0 then Some False
      else do {
        r \<leftarrow> conforms_any (pl_members (cls_protocols (class_heap s cls))) protocol s;
        if r then Some True
        else if superclass (class_heap s cls) \<noteq> 0 then class_conformsToProtocol (superclass (class_heap s cls)) protocol s
        else Some False
      })"

end
