(* ===== verification/Objc_Object.thy ===== *)
theory Objc_Object
  imports Objc_Class
begin

text \<open>
  Objects of the Objective-C runtime (\<^verbatim>\<open>Developer/objc/objcrt.c\<close>): instances, sending messages, reference
  counts, the autorelease pool, and the start of the runtime.

  \<open>user\<close> is what the methods of programs do: from the number of an implementation, the receiver, the
  selector and the state to a result and a state; further arguments are left out.  Where the code ends the
  process (\<^verbatim>\<open>abort\<close>), the result is \<open>None\<close>.
\<close>

type_synonym 'a user_methods = "nat \<Rightarrow> nat \<Rightarrow> nat \<Rightarrow> 'a objcrt_scheme \<Rightarrow> (nat \<times> 'a objcrt_scheme) option"

section \<open>Instances\<close>

text \<open>The first word of an object, or of a class, which is an object too.\<close>

definition isa_of :: "nat \<Rightarrow> 'a objcrt_scheme \<Rightarrow> nat option" where
  "isa_of p s =
     (if p \<in> set (live_objs s) then Some (ob_isa (obj_heap s p))
      else if p \<in> set (live_classes s) then Some (isa (class_heap s p))
      else None)"

definition class_createInstance :: "nat \<Rightarrow> 64 word \<Rightarrow> 'a objcrt_scheme \<Rightarrow> nat \<times> 'a objcrt_scheme" where
  "class_createInstance cls extraBytes s =
     (if cls = 0 then (0, s)
      else
        (let sz = class_getInstanceSize cls s + extraBytes;
             (obj, s) = crt_alloc s
         in if obj = 0 then (0, s)
            else (obj, s\<lparr>obj_heap := (obj_heap s)(obj := \<lparr>ob_isa = cls, ob_size = sz\<rparr>), live_objs := obj # live_objs s\<rparr>)))"

definition class_createInstanceFromZone :: "nat \<Rightarrow> 64 word \<Rightarrow> 'a objcrt_scheme \<Rightarrow> nat \<times> 'a objcrt_scheme" where
  "class_createInstanceFromZone cls extraBytes s = class_createInstance cls extraBytes s"

definition object_getClass :: "nat \<Rightarrow> 'a objcrt_scheme \<Rightarrow> nat option" where
  "object_getClass obj s = (if obj = 0 then Some 0 else isa_of obj s)"

text \<open>The copy has what the first bytes hold, the class among them.\<close>

definition object_copy :: "nat \<Rightarrow> 64 word \<Rightarrow> 'a objcrt_scheme \<Rightarrow> (nat \<times> 'a objcrt_scheme) option" where
  "object_copy obj extraBytes s =
     (if obj = 0 then Some (0, s)
      else do {
        cls \<leftarrow> object_getClass obj s;
        let sz = class_getInstanceSize cls s;
        let (new_obj, s) = crt_alloc s;
        if new_obj = 0 then Some (0, s)
        else if obj \<in> set (live_objs s) \<and> sz \<le> ob_size (obj_heap s obj) \<and> sizeof_objc_object \<le> sz
        then Some (new_obj, s\<lparr>obj_heap := (obj_heap s)(new_obj := \<lparr>ob_isa = cls, ob_size = sz + extraBytes\<rparr>),
                             live_objs := new_obj # live_objs s\<rparr>)
        else None
      })"

definition object_dispose :: "nat \<Rightarrow> 'a objcrt_scheme \<Rightarrow> 'a objcrt_scheme option" where
  "object_dispose obj s =
     (if obj = 0 then Some s
      else if obj \<in> set (live_objs s) then Some (s\<lparr>live_objs := removeAll obj (live_objs s)\<rparr>)
      else None)"

definition object_setClass :: "nat \<Rightarrow> nat \<Rightarrow> 'a objcrt_scheme \<Rightarrow> (nat \<times> 'a objcrt_scheme) option" where
  "object_setClass obj cls s =
     (if obj = 0 then Some (0, s)
      else do {
        old \<leftarrow> isa_of obj s;
        Some (old,
          if obj \<in> set (live_objs s) then s\<lparr>obj_heap := (obj_heap s)(obj := (obj_heap s obj)\<lparr>ob_isa := cls\<rparr>)\<rparr>
          else upd_class obj (\<lambda>c. c\<lparr>isa := cls\<rparr>) s)
      })"

definition objc_root_alloc :: "nat \<Rightarrow> 'a objcrt_scheme \<Rightarrow> nat \<times> 'a objcrt_scheme" where
  "objc_root_alloc cls s = class_createInstance cls 0 s"

section \<open>Sending messages\<close>

text \<open>As the search for a method, but a method without an implementation does not count.\<close>

partial_function (option) lookup_in_lists :: "nat \<Rightarrow> nat \<Rightarrow> 'a objcrt_scheme \<Rightarrow> objc_imp option" where
  "lookup_in_lists list sel s =
     (if list = 0 then Some No_imp
      else
        (let imp = (case method_list_find list sel s of
             None \<Rightarrow> No_imp | Some i \<Rightarrow> mt_imp (gl_items (mlist_heap s list) ! i))
         in if imp \<noteq> No_imp then Some imp else lookup_in_lists (ml_next (mlist_heap s list)) sel s))"

partial_function (option) lookup_in_classes :: "nat \<Rightarrow> nat \<Rightarrow> 'a objcrt_scheme \<Rightarrow> objc_imp option" where
  "lookup_in_classes cur sel s =
     (if cur = 0 then Some No_imp
      else do {
        imp \<leftarrow> lookup_in_lists (methodLists (class_heap s cur)) sel s;
        if imp \<noteq> No_imp then Some imp else lookup_in_classes (superclass (class_heap s cur)) sel s
      })"

definition objc_lookup_method :: "nat \<Rightarrow> nat \<Rightarrow> 'a objcrt_scheme \<Rightarrow> objc_imp option" where
  "objc_lookup_method cls sel s = (if cls = 0 \<or> sel = 0 then Some No_imp else lookup_in_classes cls sel s)"

text \<open>\<^verbatim>\<open>objc_msgSend\<close>.  \<open>Root_new\<close> is \<^verbatim>\<open>objc_root_new\<close>, which sends a message itself.\<close>

partial_function (option) objc_msgSend ::
  "'a user_methods \<Rightarrow> nat \<Rightarrow> nat \<Rightarrow> 'a objcrt_scheme \<Rightarrow> (nat \<times> 'a objcrt_scheme) option" where
  "objc_msgSend user self sel s =
     (if self = 0 \<or> sel = 0 then Some (0, s)
      else do {
        cls \<leftarrow> isa_of self s;
        imp \<leftarrow> objc_lookup_method cls sel s;
        case imp of
          No_imp \<Rightarrow> None
        | Object_init \<Rightarrow> Some (self, s)
        | Object_free \<Rightarrow> map_option (Pair 0) (object_dispose self s)
        | Object_self \<Rightarrow> Some (self, s)
        | Object_class \<Rightarrow> map_option (\<lambda>c. (c, s)) (object_getClass self s)
        | Object_class_cls \<Rightarrow> Some (self, s)
        | Root_alloc \<Rightarrow> Some (objc_root_alloc self s)
        | Root_new \<Rightarrow> do {
            let (inst, s) = class_createInstance self 0 s;
            if inst = 0 then Some (0, s)
            else do {
              (sel, s) \<leftarrow> sel_registerName (Some ''init'') s;
              objc_msgSend user inst sel s
            }
          }
        | User_imp f \<Rightarrow> user f self sel s
      })"

text \<open>Calling an implementation, as \<^verbatim>\<open>objc_msgSendSuper\<close> and \<^verbatim>\<open>method_invoke\<close> do.\<close>

definition call_imp ::
  "'a user_methods \<Rightarrow> objc_imp \<Rightarrow> nat \<Rightarrow> nat \<Rightarrow> 'a objcrt_scheme \<Rightarrow> (nat \<times> 'a objcrt_scheme) option" where
  "call_imp user imp self sel s =
     (case imp of
        No_imp \<Rightarrow> None
      | Object_init \<Rightarrow> Some (self, s)
      | Object_free \<Rightarrow> map_option (Pair 0) (object_dispose self s)
      | Object_self \<Rightarrow> Some (self, s)
      | Object_class \<Rightarrow> map_option (\<lambda>c. (c, s)) (object_getClass self s)
      | Object_class_cls \<Rightarrow> Some (self, s)
      | Root_alloc \<Rightarrow> Some (objc_root_alloc self s)
      | Root_new \<Rightarrow> do {
          let (inst, s) = class_createInstance self 0 s;
          if inst = 0 then Some (0, s)
          else do {
            (sel, s) \<leftarrow> sel_registerName (Some ''init'') s;
            objc_msgSend user inst sel s
          }
        }
      | User_imp f \<Rightarrow> user f self sel s)"

definition objc_msgSendSuper ::
  "'a user_methods \<Rightarrow> nat \<Rightarrow> nat \<Rightarrow> nat \<Rightarrow> 'a objcrt_scheme \<Rightarrow> (nat \<times> 'a objcrt_scheme) option" where
  "objc_msgSendSuper user receiver super_class sel s =
     (if receiver = 0 \<or> sel = 0 then Some (0, s)
      else if super_class = 0 then Some (receiver, s)
      else do {
        imp \<leftarrow> objc_lookup_method super_class sel s;
        call_imp user imp receiver sel s
      })"

definition method_invoke ::
  "'a user_methods \<Rightarrow> nat \<Rightarrow> (nat \<times> nat) option \<Rightarrow> 'a objcrt_scheme \<Rightarrow> (nat \<times> 'a objcrt_scheme) option" where
  "method_invoke user receiver m s =
     (case m of
        None \<Rightarrow> Some (0, s)
      | Some m \<Rightarrow>
          if mt_imp (method_at m s) = No_imp then Some (0, s)
          else call_imp user (mt_imp (method_at m s)) receiver (mt_name (method_at m s)) s)"

section \<open>Reference counts\<close>

definition rc_find :: "nat \<Rightarrow> 'a objcrt_scheme \<Rightarrow> (nat \<times> 'a objcrt_scheme) option" where
  "rc_find obj s = do {
     i \<leftarrow> probe (\<lambda>e. fst e = 0 \<or> fst e = obj) (rc_table s) (obj div 16 mod RC_HASH_SIZE);
     Some (i, if fst (rc_table s ! i) = obj then s else s\<lparr>rc_table := (rc_table s)[i := (obj, 1)]\<rparr>)
   }"

definition upd_count :: "nat \<Rightarrow> (64 word \<Rightarrow> 64 word) \<Rightarrow> 'a objcrt_scheme \<Rightarrow> 'a objcrt_scheme" where
  "upd_count i f s = s\<lparr>rc_table := (rc_table s)[i := map_prod id f (rc_table s ! i)]\<rparr>"

definition objc_retain :: "nat \<Rightarrow> 'a objcrt_scheme \<Rightarrow> (nat \<times> 'a objcrt_scheme) option" where
  "objc_retain obj s =
     (if obj = 0 then Some (0, s)
      else do {
        (i, s) \<leftarrow> rc_find obj s;
        Some (obj, upd_count i (\<lambda>c. c + 1) s)
      })"

definition objc_retainReturnValue :: "nat \<Rightarrow> 'a objcrt_scheme \<Rightarrow> (nat \<times> 'a objcrt_scheme) option" where
  "objc_retainReturnValue obj s = objc_retain obj s"

definition objc_release :: "'a user_methods \<Rightarrow> nat \<Rightarrow> 'a objcrt_scheme \<Rightarrow> 'a objcrt_scheme option" where
  "objc_release user obj s =
     (if obj = 0 then Some s
      else do {
        (i, s) \<leftarrow> rc_find obj s;
        let s = (if 0 < snd (rc_table s ! i) then upd_count i (\<lambda>c. c - 1) s else s);
        if snd (rc_table s ! i) = 0 then do {
          (sel, s) \<leftarrow> sel_registerName (Some ''dealloc'') s;
          map_option snd (objc_msgSend user obj sel s)
        }
        else Some s
      })"

definition objc_retainCount :: "nat \<Rightarrow> 'a objcrt_scheme \<Rightarrow> (64 word \<times> 'a objcrt_scheme) option" where
  "objc_retainCount obj s =
     (if obj = 0 then Some (0, s)
      else do {
        (i, s) \<leftarrow> rc_find obj s;
        Some (snd (rc_table s ! i), s)
      })"

section \<open>The autorelease pool\<close>

definition objc_autorelease :: "nat \<Rightarrow> 'a objcrt_scheme \<Rightarrow> (nat \<times> 'a objcrt_scheme) option" where
  "objc_autorelease obj s =
     (if obj = 0 then Some (0, s)
      else if autorelease_pool_top s < AUTORELEASE_POOL_SIZE then
        if 0 \<le> autorelease_pool_top s \<and> nat (autorelease_pool_top s) < length (autorelease_pool s)
        then Some (obj, s\<lparr>autorelease_pool := (autorelease_pool s)[nat (autorelease_pool_top s) := obj],
                         autorelease_pool_top := autorelease_pool_top s + 1\<rparr>)
        else None
      else Some (obj, s))"

definition objc_autoreleaseReturnValue :: "nat \<Rightarrow> 'a objcrt_scheme \<Rightarrow> (nat \<times> 'a objcrt_scheme) option" where
  "objc_autoreleaseReturnValue obj s = objc_autorelease obj s"

definition objc_autoreleasePoolPush :: "'a objcrt_scheme \<Rightarrow> int" where
  "objc_autoreleasePoolPush s = autorelease_pool_top s"

partial_function (option) pool_pop :: "'a user_methods \<Rightarrow> int \<Rightarrow> 'a objcrt_scheme \<Rightarrow> 'a objcrt_scheme option" where
  "pool_pop user popTo s =
     (if autorelease_pool_top s \<le> popTo then Some s
      else
        (let top = autorelease_pool_top s - 1;
             s = s\<lparr>autorelease_pool_top := top\<rparr>
         in if 0 \<le> top \<and> nat top < length (autorelease_pool s) then do {
              s \<leftarrow> objc_release user (autorelease_pool s ! nat top) s;
              pool_pop user popTo s
            }
            else None))"

text \<open>The pool is the number that \<^verbatim>\<open>objc_autoreleasePoolPush\<close> gave, passed as a pointer.\<close>

definition objc_autoreleasePoolPop :: "'a user_methods \<Rightarrow> int \<Rightarrow> 'a objcrt_scheme \<Rightarrow> 'a objcrt_scheme option" where
  "objc_autoreleasePoolPop user pool s = pool_pop user (signed_take_bit 31 pool) s"

section \<open>Exceptions\<close>

definition objc_exception_throw ::
  "(nat \<Rightarrow> nat \<Rightarrow> 'a objcrt_scheme \<Rightarrow> 'a objcrt_scheme option) \<Rightarrow> nat \<Rightarrow> 'a objcrt_scheme \<Rightarrow> 'a objcrt_scheme option" where
  "objc_exception_throw handlers exception s =
     (if exception_handler s \<noteq> 0 then handlers (exception_handler s) exception s else None)"

definition objc_setExceptionHandler :: "nat \<Rightarrow> 'a objcrt_scheme \<Rightarrow> nat \<times> 'a objcrt_scheme" where
  "objc_setExceptionHandler handler s = (exception_handler s, s\<lparr>exception_handler := handler\<rparr>)"

section \<open>The start of the runtime\<close>

text \<open>The state the loader leaves: all variables zero, the tables too.\<close>

definition init_methods :: "nat \<Rightarrow> nat \<Rightarrow> (string \<times> nat \<times> objc_imp) list" where
  "init_methods cls meta =
     [(''init'', cls, Object_init), (''free'', cls, Object_free), (''self'', cls, Object_self), (''class'', cls, Object_class),
      (''class'', meta, Object_class_cls), (''alloc'', meta, Root_alloc), (''new'', meta, Root_new)]"

fun add_methods :: "(string \<times> nat \<times> objc_imp) list \<Rightarrow> 'a objcrt_scheme \<Rightarrow> 'a objcrt_scheme option" where
  "add_methods [] s = Some s"
| "add_methods ((name, cls, imp) # ms) s = do {
     (sel, s) \<leftarrow> sel_registerName (Some name) s;
     (b, s) \<leftarrow> class_addMethod cls sel imp (Some ''@@:'') s;
     add_methods ms s
   }"

definition objc_init :: "'a objcrt_scheme \<Rightarrow> 'a objcrt_scheme option" where
  "objc_init s =
     (if runtime_ready s then Some s
      else do {
        let s = s\<lparr>sel_hash := replicate SEL_HASH_SIZE 0, rc_table := replicate RC_HASH_SIZE (0, 0),
                  autorelease_pool := replicate (nat AUTORELEASE_POOL_SIZE) 0, sel_count := 0, autorelease_pool_top := 0,
                  runtime_ready := True\<rparr>;
        (cls, s) \<leftarrow> objc_allocateClassPair 0 (Some ''Object'') 0 s;
        s \<leftarrow> add_methods (init_methods cls (isa (class_heap s cls))) s;
        objc_registerClassPair cls s
      })"

end
