(* ===== verification/Objc_Tables.thy ===== *)
theory Objc_Tables
  imports Objc_Object
begin

text \<open>
  The four hash tables of the Objective-C runtime as instances of \<^verbatim>\<open>Open_Table\<close>: selectors, classes and
  protocols by name, reference counts by address.
\<close>

section \<open>Keys\<close>

definition sel_key :: "(nat \<Rightarrow> objc_selector) \<Rightarrow> nat \<Rightarrow> string option" where
  "sel_key h a = (if a = 0 then None else Some (sel_name (h a)))"

definition class_key :: "(nat \<Rightarrow> objc_class) \<Rightarrow> nat \<Rightarrow> string option" where
  "class_key h a = (if a = 0 then None else Some (cls_name (h a)))"

definition proto_key :: "(nat \<Rightarrow> objc_protocol) \<Rightarrow> nat \<Rightarrow> string option" where
  "proto_key h a = (if a = 0 then None else Some (pt_name (h a)))"

definition rc_key :: "nat \<times> 64 word \<Rightarrow> nat option" where
  "rc_key e = (if fst e = 0 then None else Some (fst e))"

definition name_place :: "nat \<Rightarrow> string \<Rightarrow> nat" where
  "name_place n name = unat (hash_string name) mod n"

definition rc_place :: "nat \<Rightarrow> nat" where
  "rc_place obj = obj div 16 mod RC_HASH_SIZE"

interpretation sels: open_table "sel_key h" "name_place SEL_HASH_SIZE" SEL_HASH_SIZE for h
  by unfold_locales (simp add: name_place_def SEL_HASH_SIZE_def)

interpretation classes: open_table "class_key h" "name_place CLASS_HASH_SIZE" CLASS_HASH_SIZE for h
  by unfold_locales (simp add: name_place_def CLASS_HASH_SIZE_def)

interpretation protos: open_table "proto_key h" "name_place PROTOCOL_HASH_SIZE" PROTOCOL_HASH_SIZE for h
  by unfold_locales (simp add: name_place_def PROTOCOL_HASH_SIZE_def)

interpretation counts: open_table rc_key rc_place RC_HASH_SIZE
  by unfold_locales (simp add: rc_place_def RC_HASH_SIZE_def)

text \<open>The conditions under which the loops of the runtime stop.\<close>

lemma sel_stop: "(a = 0 \<or> sel_name (h a) = name) = (sel_key h a = None \<or> sel_key h a = Some name)"
  by (simp add: sel_key_def)

lemma sel_free: "(a = 0) = (sel_key h a = None)"
  by (simp add: sel_key_def)

lemma class_stop: "(a = 0 \<or> cls_name (h a) = name) = (class_key h a = None \<or> class_key h a = Some name)"
  by (simp add: class_key_def)

lemma class_free: "(a = 0) = (class_key h a = None)"
  by (simp add: class_key_def)

lemma proto_stop: "(a = 0 \<or> pt_name (h a) = name) = (proto_key h a = None \<or> proto_key h a = Some name)"
  by (simp add: proto_key_def)

lemma proto_free: "(a = 0) = (proto_key h a = None)"
  by (simp add: proto_key_def)

lemma rc_stop: "obj \<noteq> 0 \<Longrightarrow> (fst e = 0 \<or> fst e = obj) = (rc_key e = None \<or> rc_key e = Some obj)"
  by (auto simp: rc_key_def)

text \<open>Keys only depend on the entries.\<close>

lemma probe_ok_cong:
  assumes "\<forall>a \<in> set tab. key a = key' a"
  shows "probe_ok key hash tab = probe_ok key' hash tab"
proof -
  have "key (tab ! place tab h d) = key' (tab ! place tab h d)" if "tab \<noteq> []" for h d
    using bspec [OF assms nth_mem [OF place_lt [OF that]]] .
  then show ?thesis by (cases "tab = []") (simp_all add: probe_ok_def)
qed

lemma table_keys_cong: "\<forall>a \<in> set tab. key a = key' a \<Longrightarrow> table_keys key tab = table_keys key' tab"
  by (auto simp: table_keys_def)

lemma free_places_cong: "\<forall>a \<in> set tab. key a = key' a \<Longrightarrow> free_places key tab = free_places key' tab"
  unfolding free_places_def by (rule arg_cong [of _ _ length], rule filter_cong) auto

lemma probe_ok_empty:
  assumes "\<forall>a \<in> set tab. key a = None"
  shows "probe_ok key hash tab"
proof -
  have "key (tab ! place tab h d) = None" if "tab \<noteq> []" for h d
    using bspec [OF assms nth_mem [OF place_lt [OF that]]] .
  then show ?thesis by (cases "tab = []") (simp_all add: probe_ok_def)
qed

lemma table_keys_empty: "\<forall>a \<in> set tab. key a = None \<Longrightarrow> table_keys key tab = {}"
  by (auto simp: table_keys_def)

lemma free_places_empty: "\<forall>a \<in> set tab. key a = None \<Longrightarrow> free_places key tab = length tab"
  by (simp add: free_places_def)

section \<open>Memory\<close>

text \<open>The addresses to come are new: each is given once, and none is in use.\<close>

definition fresh_memory :: "nat set \<Rightarrow> nat list \<Rightarrow> bool" where
  "fresh_memory used mem \<longleftrightarrow> distinct (filter (\<lambda>p. p \<noteq> 0) mem) \<and> (\<forall>p \<in> set mem. p \<noteq> 0 \<longrightarrow> p \<notin> used)"

lemma fresh_memory_Cons:
  "fresh_memory used (p # ps) \<longleftrightarrow> (p \<noteq> 0 \<longrightarrow> p \<notin> used \<and> p \<notin> set ps) \<and> fresh_memory used ps"
  by (auto simp: fresh_memory_def)

lemma fresh_memory_insert:
  "fresh_memory used (p # ps) \<Longrightarrow> p \<noteq> 0 \<Longrightarrow> used' \<subseteq> insert p used \<Longrightarrow> fresh_memory used' ps"
  by (auto simp: fresh_memory_def)

lemma crt_alloc_Cons: "crt_memory s = p # ps \<Longrightarrow> crt_alloc s = (p, s\<lparr>crt_memory := ps\<rparr>)"
  by (simp add: crt_alloc_def)

section \<open>Selectors\<close>

text \<open>What the table says: the selector of a name.\<close>

definition sel_map :: "'a objcrt_scheme \<Rightarrow> string \<Rightarrow> nat option" where
  "sel_map s name = find (\<lambda>a. a \<noteq> 0 \<and> sel_name (sel_heap s a) = name) (sel_hash s)"

definition sel_ok :: "'a objcrt_scheme \<Rightarrow> bool" where
  "sel_ok s \<longleftrightarrow>
     length (sel_hash s) = SEL_HASH_SIZE \<and>
     probe_ok (sel_key (sel_heap s)) (name_place SEL_HASH_SIZE) (sel_hash s) \<and>
     inj_on (\<lambda>a. sel_name (sel_heap s a)) (set (sel_hash s) - {0}) \<and>
     fresh_memory (set (sel_hash s)) (crt_memory s)"

definition sel_room :: "'a objcrt_scheme \<Rightarrow> nat" where
  "sel_room s = length (filter (\<lambda>a. a = 0) (sel_hash s))"

lemma sel_room_free: "sel_room s = free_places (sel_key (sel_heap s)) (sel_hash s)"
  unfolding sel_room_def free_places_def sel_free [of _ "sel_heap s"] ..

lemma sel_map_iff:
  assumes "sel_ok s"
  shows "sel_map s name = Some a \<longleftrightarrow> a \<in> set (sel_hash s) \<and> a \<noteq> 0 \<and> sel_name (sel_heap s a) = name"
proof
  assume "sel_map s name = Some a"
  then show "a \<in> set (sel_hash s) \<and> a \<noteq> 0 \<and> sel_name (sel_heap s a) = name"
    by (auto simp: sel_map_def find_Some_iff)
next
  assume a: "a \<in> set (sel_hash s) \<and> a \<noteq> 0 \<and> sel_name (sel_heap s a) = name"
  then have "sel_map s name \<noteq> None" by (auto simp: sel_map_def find_None_iff)
  then obtain b where b: "sel_map s name = Some b" by auto
  then have "b \<in> set (sel_hash s) \<and> b \<noteq> 0 \<and> sel_name (sel_heap s b) = name"
    by (auto simp: sel_map_def find_Some_iff)
  with a assms have "a = b" unfolding sel_ok_def by (auto dest: inj_onD)
  with b show "sel_map s name = Some a" by simp
qed

lemma sel_map_None: "sel_map s name = None \<longleftrightarrow> name \<notin> table_keys (sel_key (sel_heap s)) (sel_hash s)"
  by (auto simp: sel_map_def find_None_iff table_keys_def sel_key_def)

lemma sel_stops:
  "(\<lambda>a. a = 0 \<or> sel_name (h a) = name) = (\<lambda>a. sel_key h a = None \<or> sel_key h a = Some name)"
  "(\<lambda>a. a = 0) = (\<lambda>a. sel_key h a = None)"
  by (simp_all only: sel_stop [of _ h] flip: sel_free [of _ h])

lemma sel_search_free:
  assumes "sel_ok s" "sel_map s name = None"
  shows "probe (\<lambda>a. a = 0 \<or> sel_name (sel_heap s a) = name) (sel_hash s) (name_place SEL_HASH_SIZE name) =
    probe (\<lambda>a. a = 0) (sel_hash s) (name_place SEL_HASH_SIZE name)"
  using assms sels.search_free [of "sel_hash s" name "sel_heap s"]
  unfolding sel_stops [of "sel_heap s"] by (simp add: sel_ok_def sel_map_None)

lemma sel_registerName_old:
  assumes "sel_ok s" "sel_map s name = Some a"
  shows "sel_registerName (Some name) s = Some (a, s)"
proof -
  have "name \<in> table_keys (sel_key (sel_heap s)) (sel_hash s)" using assms(2) sel_map_None [of s name] by auto
  with assms(1) sels.search_there [of "sel_hash s" "sel_heap s" name] obtain i where
    i: "i < length (sel_hash s)" "sel_key (sel_heap s) (sel_hash s ! i) = Some name"
      "probe (\<lambda>a. a = 0 \<or> sel_name (sel_heap s a) = name) (sel_hash s) (name_place SEL_HASH_SIZE name) = Some i"
    unfolding sel_stops [of "sel_heap s"] sel_ok_def by blast
  then have "sel_map s name = Some (sel_hash s ! i)" "sel_hash s ! i \<noteq> 0"
    by (auto simp: sel_map_iff [OF assms(1)] sel_key_def split: if_splits)
  with i(3) assms(2) show ?thesis by (simp add: sel_registerName_def name_place_def)
qed

lemma sel_registerName_full:
  assumes "sel_ok s" "sel_map s name = None" "sel_room s = 0"
  shows "sel_registerName (Some name) s = None"
proof -
  have "probe (\<lambda>a. a = 0) (sel_hash s) (name_place SEL_HASH_SIZE name) = None"
    using assms(3) sels.no_free_place [of "sel_heap s" "sel_hash s"]
    unfolding sel_stops(2) [of "sel_heap s"] by (simp add: sel_room_free)
  with sel_search_free [OF assms(1,2)] show ?thesis by (simp add: sel_registerName_def name_place_def)
qed

lemma sel_registerName_refused:
  assumes "sel_ok s" "sel_map s name = None" "\<forall>p ps. crt_memory s = p # ps \<longrightarrow> p = 0"
  shows "sel_registerName (Some name) s = None"
proof -
  have "fst (crt_alloc s) = 0" using assms(3) by (auto simp: crt_alloc_def split: list.splits)
  then obtain s' where a: "crt_alloc s = (0, s')" by (cases "crt_alloc s") auto
  have "sel_hash s ! i = 0" if "probe (\<lambda>a. a = 0) (sel_hash s) (name_place SEL_HASH_SIZE name) = Some i" for i
    using probe_stops [OF that] by simp
  with sel_search_free [OF assms(1,2)] a show ?thesis
    by (cases "probe (\<lambda>a. a = 0) (sel_hash s) (name_place SEL_HASH_SIZE name)")
      (simp_all add: sel_registerName_def name_place_def nonnull_def)
qed

lemma sel_registerName_new:
  assumes s: "sel_ok s" "sel_map s name = None" "0 < sel_room s" "crt_memory s = p # ps" "p \<noteq> 0"
  shows "\<exists>i. sel_registerName (Some name) s =
    Some (p, s\<lparr>sel_hash := (sel_hash s)[i := p], sel_count := sel_count s + 1,
      sel_heap := (sel_heap s)(p := \<lparr>sel_name = name, sel_types = None, sel_uid = sel_count s\<rparr>), crt_memory := ps\<rparr>) \<and>
    i < length (sel_hash s) \<and> sel_hash s ! i = 0 \<and>
    probe (\<lambda>a. a = 0) (sel_hash s) (name_place SEL_HASH_SIZE name) = Some i"
proof -
  have "length (sel_hash s) = SEL_HASH_SIZE" "0 < free_places (sel_key (sel_heap s)) (sel_hash s)"
    using s(1,3) by (simp_all add: sel_ok_def sel_room_free)
  from sels.free_place [OF this, of name] obtain i where
    i: "i < length (sel_hash s)" "sel_hash s ! i = 0"
      "probe (\<lambda>a. a = 0) (sel_hash s) (name_place SEL_HASH_SIZE name) = Some i"
    unfolding sel_stops(2) [of "sel_heap s"] by (auto simp: sel_key_def split: if_splits)
  then show ?thesis using sel_search_free [OF s(1,2)] s(4,5)
    by (intro exI [of _ i]) (simp add: sel_registerName_def name_place_def crt_alloc_Cons nonnull_def)
qed

text \<open>Entering a new name.\<close>

lemma sel_ok_enter:
  assumes s: "sel_ok s" "sel_map s name = None" "crt_memory s = p # ps" "p \<noteq> 0"
    and i: "probe (\<lambda>a. a = 0) (sel_hash s) (name_place SEL_HASH_SIZE name) = Some i"
    and s': "sel_hash s' = (sel_hash s)[i := p]" "sel_heap s' = (sel_heap s)(p := x)" "sel_name x = name" "crt_memory s' = ps"
  shows "sel_ok s' \<and> sel_map s' = (sel_map s)(name \<mapsto> p) \<and> sel_room s = Suc (sel_room s')"
proof -
  let ?h = "sel_heap s" and ?h' = "sel_heap s'" and ?tab = "sel_hash s"
  have p: "p \<notin> set ?tab" "fresh_memory (set ?tab) (p # ps)" using s by (auto simp: sel_ok_def fresh_memory_Cons)
  have same: "\<forall>a \<in> set ?tab. sel_key ?h a = sel_key ?h' a" using p(1) s'(2) by (auto simp: sel_key_def)
  have ok: "length ?tab = SEL_HASH_SIZE" "probe_ok (sel_key ?h') (name_place SEL_HASH_SIZE) ?tab"
    using s(1) unfolding sel_ok_def probe_ok_cong [OF same] by auto
  have k: "sel_key ?h' p = Some name" using s(4) s'(2,3) by (simp add: sel_key_def)
  have "probe (\<lambda>a. sel_key ?h' a = None) ?tab (name_place SEL_HASH_SIZE name) = Some i"
    using i unfolding sel_stops(2) [of ?h'] .
  note new = sels.added [OF ok k this]
  have il: "i < length ?tab" "?tab ! i = 0" using probe_stops [OF i] by auto
  have set': "set (sel_hash s') \<subseteq> insert p (set ?tab)" "p \<in> set (sel_hash s')"
    using s'(1) il(1) by (auto simp: set_update_memI set_update_subset_insert)
  have keep: "a \<in> set (sel_hash s')" if a: "a \<in> set ?tab" "a \<noteq> 0" for a
  proof -
    from a(1) obtain j where j: "j < length ?tab" "?tab ! j = a" by (auto simp: in_set_conv_nth)
    with il(2) a(2) have "j \<noteq> i" by auto
    with j have "sel_hash s' ! j = a" "j < length (sel_hash s')" using s'(1) by simp_all
    then show ?thesis by (metis nth_mem)
  qed
  have name_new: "sel_name (?h a) \<noteq> name" if "a \<in> set ?tab" "a \<noteq> 0" for a
    using s(2) that by (auto simp: sel_map_def find_None_iff)
  have "inj_on (\<lambda>a. sel_name (?h a)) (set ?tab - {0})" using s(1) by (simp add: sel_ok_def)
  then have "inj_on (\<lambda>a. sel_name (?h' a)) (insert p (set ?tab) - {0})"
    using name_new p(1) s'(2,3) unfolding inj_on_def by (auto split: if_splits) (metis neq0_conv)+
  then have inj: "inj_on (\<lambda>a. sel_name (?h' a)) (set (sel_hash s') - {0})"
    using set'(1) by (auto intro: inj_on_subset)
  have ok': "sel_ok s'"
    using new(1) ok(1) inj s'(1,4) fresh_memory_insert [OF p(2) s(4) set'(1)] unfolding sel_ok_def by simp
  moreover have "sel_map s' n = ((sel_map s)(name \<mapsto> p)) n" for n
  proof -
    have "sel_map s' n = Some a \<longleftrightarrow> ((sel_map s)(name \<mapsto> p)) n = Some a" for a
    proof (cases "a = p")
      case True
      then show ?thesis using set'(2) s(4) s'(2,3) p(1)
        by (auto simp: sel_map_iff [OF ok'] sel_map_iff [OF s(1)])
    next
      case False
      then show ?thesis using set'(1) keep s'(2) name_new
        by (auto simp: sel_map_iff [OF ok'] sel_map_iff [OF s(1)])
    qed
    then show ?thesis by (metis not_Some_eq)
  qed
  moreover have "sel_room s = Suc (sel_room s')"
    using new(3) s'(1) unfolding sel_room_free free_places_cong [OF same] by simp
  ultimately show ?thesis by blast
qed

section \<open>Classes\<close>

definition class_ok :: "'a objcrt_scheme \<Rightarrow> bool" where
  "class_ok s \<longleftrightarrow> runtime_ready s \<and> length (class_hash s) = CLASS_HASH_SIZE \<and>
     probe_ok (class_key (class_heap s)) (name_place CLASS_HASH_SIZE) (class_hash s)"

definition class_names :: "'a objcrt_scheme \<Rightarrow> string set" where
  "class_names s = {n. \<exists>a \<in> set (class_hash s). a \<noteq> 0 \<and> cls_name (class_heap s a) = n}"

definition class_room :: "'a objcrt_scheme \<Rightarrow> nat" where
  "class_room s = length (filter (\<lambda>a. a = 0) (class_hash s))"

lemma class_names_keys: "class_names s = table_keys (class_key (class_heap s)) (class_hash s)"
  by (auto simp: class_names_def table_keys_def class_key_def)

lemma class_room_free: "class_room s = free_places (class_key (class_heap s)) (class_hash s)"
  unfolding class_room_def free_places_def class_free [of _ "class_heap s"] ..

lemma class_stops:
  "(\<lambda>a. a = 0 \<or> cls_name (h a) = name) = (\<lambda>a. class_key h a = None \<or> class_key h a = Some name)"
  "(\<lambda>a. a = 0) = (\<lambda>a. class_key h a = None)"
  by (simp_all only: class_stop [of _ h] flip: class_free [of _ h])

lemma class_lookup_probe:
  "runtime_ready s \<Longrightarrow> objc_lookUpClass (Some n) s = map_option ((!) (class_hash s))
    (probe (\<lambda>a. class_key (class_heap s) a = None \<or> class_key (class_heap s) a = Some n) (class_hash s)
      (name_place CLASS_HASH_SIZE n))"
  unfolding objc_lookUpClass_def class_stops [of "class_heap s"] name_place_def
  by (auto simp: map_option_case split: option.splits)

lemma class_lookup_there:
  assumes "class_ok s" "n \<in> class_names s"
  shows "\<exists>i < length (class_hash s). probe (\<lambda>a. class_key (class_heap s) a = None \<or> class_key (class_heap s) a = Some n)
      (class_hash s) (name_place CLASS_HASH_SIZE n) = Some i \<and>
    class_hash s ! i \<noteq> 0 \<and> cls_name (class_heap s (class_hash s ! i)) = n \<and>
    objc_lookUpClass (Some n) s = Some (class_hash s ! i)"
proof -
  from assms classes.search_there [of "class_hash s" "class_heap s" n] obtain i where
    i: "i < length (class_hash s)" "class_key (class_heap s) (class_hash s ! i) = Some n"
      "probe (\<lambda>a. class_key (class_heap s) a = None \<or> class_key (class_heap s) a = Some n)
        (class_hash s) (name_place CLASS_HASH_SIZE n) = Some i"
    unfolding class_ok_def class_names_keys by blast
  with assms(1) show ?thesis
    by (intro exI [of _ i]) (auto simp: class_lookup_probe class_ok_def class_key_def split: if_splits)
qed

lemma class_lookup_free:
  assumes "class_ok s" "n \<notin> class_names s"
  shows "objc_lookUpClass (Some n) s = (if class_room s = 0 then None else Some 0)"
proof -
  let ?p = "probe (\<lambda>a. class_key (class_heap s) a = None) (class_hash s) (name_place CLASS_HASH_SIZE n)"
  have len: "length (class_hash s) = CLASS_HASH_SIZE" using assms(1) by (simp add: class_ok_def)
  have "objc_lookUpClass (Some n) s = map_option ((!) (class_hash s)) ?p"
    using classes.search_free [OF len, of n "class_heap s"] assms by (simp add: class_lookup_probe class_ok_def class_names_keys)
  moreover have "?p = None" if "class_room s = 0"
    using that classes.no_free_place [of "class_heap s" "class_hash s"] by (simp add: class_room_free)
  moreover have "map_option ((!) (class_hash s)) ?p = Some 0" if "class_room s \<noteq> 0"
    using that classes.free_place [OF len, of "class_heap s" n] by (auto simp: class_room_free class_key_def split: if_splits)
  ultimately show ?thesis by simp
qed

text \<open>Entering a class under its name, which may be there already.\<close>

lemma class_enter:
  fixes s :: "'a objcrt_scheme"
  assumes s: "class_ok s" "0 < class_room s" "c \<noteq> 0" "cls_name (class_heap s c) = name"
  obtains i where "probe (\<lambda>a. a = 0) (class_hash s) (name_place CLASS_HASH_SIZE name) = Some i"
    and "\<And>s' :: 'a objcrt_scheme. class_hash s' = (class_hash s)[i := c] \<Longrightarrow> runtime_ready s' \<Longrightarrow>
      \<forall>a. cls_name (class_heap s' a) = cls_name (class_heap s a) \<Longrightarrow>
      class_ok s' \<and> class_room s = Suc (class_room s') \<and> class_names s' = insert name (class_names s) \<and>
      (\<forall>n \<in> class_names s'. objc_lookUpClass (Some n) s' =
        (if n \<in> class_names s then objc_lookUpClass (Some n) s else Some c))"
proof -
  let ?h = "class_heap s" and ?tab = "class_hash s"
  have ok: "length ?tab = CLASS_HASH_SIZE" "probe_ok (class_key ?h) (name_place CLASS_HASH_SIZE) ?tab"
    using s(1) by (simp_all add: class_ok_def)
  from classes.free_place [OF ok(1), of ?h name] s(2) obtain i where
    i: "probe (\<lambda>a. class_key ?h a = None) ?tab (name_place CLASS_HASH_SIZE name) = Some i" "class_key ?h (?tab ! i) = None"
    by (auto simp: class_room_free)
  have k: "class_key ?h c = Some name" using s(3,4) by (simp add: class_key_def)
  note new = classes.added [OF ok k i(1)]
  have res: "class_ok s' \<and> class_room s = Suc (class_room s') \<and> class_names s' = insert name (class_names s) \<and>
      (\<forall>n \<in> class_names s'. objc_lookUpClass (Some n) s' =
        (if n \<in> class_names s then objc_lookUpClass (Some n) s else Some c))"
    if s': "class_hash s' = ?tab[i := c]" "runtime_ready s'" "\<forall>a. cls_name (class_heap s' a) = cls_name (?h a)" for s'
  proof -
    have key: "class_key (class_heap s') = class_key ?h" using s'(3) by (simp add: class_key_def fun_eq_iff)
    have ok': "class_ok s'" using new(1) ok(1) s' unfolding class_ok_def key by simp
    have names: "class_names s' = insert name (class_names s)" using new(2) s'(1) unfolding class_names_keys key by simp
    have room: "class_room s = Suc (class_room s')" using new(3) s'(1) unfolding class_room_free key by simp
    have "objc_lookUpClass (Some n) s' = objc_lookUpClass (Some n) s" if "n \<in> class_names s" for n
    proof -
      from class_lookup_there [OF s(1) that] obtain j where
        j: "probe (\<lambda>a. class_key ?h a = None \<or> class_key ?h a = Some n) ?tab (name_place CLASS_HASH_SIZE n) = Some j"
          "class_key ?h (?tab ! j) = Some n" "objc_lookUpClass (Some n) s = Some (?tab ! j)" by (auto simp: class_key_def)
      from classes.search_kept [OF ok(1) j(1,2) i(2), of c] j(3) s' show ?thesis
        by (simp add: class_lookup_probe key)
    qed
    moreover have "objc_lookUpClass (Some name) s' = Some c" if "name \<notin> class_names s"
      using classes.search_added [OF ok(1) that [unfolded class_names_keys] k i(1)] s'
      by (simp add: class_lookup_probe key)
    ultimately show ?thesis using ok' names room by auto
  qed
  show thesis using that [of i] res i(1) unfolding class_stops(2) [of ?h] by blast
qed

lemma class_no_room: "class_room s = 0 \<Longrightarrow> probe (\<lambda>a. a = 0) (class_hash s) h = None"
  using classes.no_free_place [of "class_heap s" "class_hash s"]
  unfolding class_stops(2) [of "class_heap s"] by (simp add: class_room_free)

lemma setup_bit: "(x OR OBJC_CLASS_INFO_SETUP) AND OBJC_CLASS_INFO_SETUP \<noteq> 0"
proof -
  have "bit ((x OR OBJC_CLASS_INFO_SETUP) AND OBJC_CLASS_INFO_SETUP) 1"
    by (simp add: OBJC_CLASS_INFO_SETUP_def bit_simps)
  then show ?thesis by auto
qed

text \<open>A class marked as set up is not resolved, so its superclasses are not looked at.\<close>

lemma resolve_marked:
  "objc_resolve_class c (upd_class c (\<lambda>x. x\<lparr>cls_info := cls_info x OR OBJC_CLASS_INFO_SETUP\<rparr>) s) =
    Some (upd_class c (\<lambda>x. x\<lparr>cls_info := cls_info x OR OBJC_CLASS_INFO_SETUP\<rparr>) s)"
  using setup_bit [of 0] by (subst objc_resolve_class.simps) (simp add: upd_class_def)

lemma upd_class_names:
  "(\<And>x. cls_name (f x) = cls_name x) \<Longrightarrow> cls_name (class_heap (upd_class c f s) a) = cls_name (class_heap s a)"
  by (simp add: upd_class_def)

lemma upd_class_fields [simp]:
  "class_hash (upd_class c f s) = class_hash s" "runtime_ready (upd_class c f s) = runtime_ready s"
  "class_count (upd_class c f s) = class_count s" "sel_hash (upd_class c f s) = sel_hash s"
  "sel_heap (upd_class c f s) = sel_heap s" "crt_memory (upd_class c f s) = crt_memory s"
  "mlist_heap (upd_class c f s) = mlist_heap s" "proto_heap (upd_class c f s) = proto_heap s"
  "rc_table (upd_class c f s) = rc_table s" "live_classes (upd_class c f s) = live_classes s"
  "live_objs (upd_class c f s) = live_objs s" "obj_heap (upd_class c f s) = obj_heap s"
  by (simp_all add: upd_class_def)

lemma registerClassPair_room:
  fixes s :: "'a objcrt_scheme"
  assumes s: "class_ok s" "cls \<noteq> 0" "meta = isa (class_heap s cls)" "meta \<noteq> 0"
      "name = cls_name (class_heap s cls)" "cls_name (class_heap s meta) = name" "2 \<le> class_room s"
  shows "\<exists>s'. objc_registerClassPair cls s = Some s' \<and> class_ok s' \<and> class_room s = class_room s' + 2 \<and>
    class_names s' = insert name (class_names s) \<and>
    (\<forall>n \<in> class_names s'. objc_lookUpClass (Some n) s' =
      (if n \<in> class_names s then objc_lookUpClass (Some n) s else Some cls))"
proof -
  let ?mark = "\<lambda>c :: objc_class. c\<lparr>cls_info := cls_info c OR OBJC_CLASS_INFO_SETUP\<rparr>"
  have "0 < class_room s" using s(7) by simp
  from class_enter [OF s(1) this s(2) s(5) [symmetric]] obtain i where
    i: "probe (\<lambda>a. a = 0) (class_hash s) (name_place CLASS_HASH_SIZE name) = Some i" and
    en: "\<And>s' :: 'a objcrt_scheme. class_hash s' = (class_hash s)[i := cls] \<Longrightarrow> runtime_ready s' \<Longrightarrow>
      \<forall>a. cls_name (class_heap s' a) = cls_name (class_heap s a) \<Longrightarrow>
      class_ok s' \<and> class_room s = Suc (class_room s') \<and> class_names s' = insert name (class_names s) \<and>
      (\<forall>n \<in> class_names s'. objc_lookUpClass (Some n) s' =
        (if n \<in> class_names s then objc_lookUpClass (Some n) s else Some cls))" by blast
  define s1 where "s1 = s\<lparr>class_hash := (class_hash s)[i := cls], class_count := class_count s + 1\<rparr>"
  have s1: "class_ok s1" "class_room s = Suc (class_room s1)" "class_names s1 = insert name (class_names s)"
    "\<forall>n \<in> class_names s1. objc_lookUpClass (Some n) s1 =
        (if n \<in> class_names s then objc_lookUpClass (Some n) s else Some cls)"
    using en [of s1] s(1) by (simp_all add: s1_def class_ok_def)
  have "0 < class_room s1" "cls_name (class_heap s1 meta) = name" using s1(2) s(6,7) by (simp_all add: s1_def)
  from class_enter [OF s1(1) this(1) s(4) this(2)] obtain j where
    j: "probe (\<lambda>a. a = 0) (class_hash s1) (name_place CLASS_HASH_SIZE name) = Some j" and
    en': "\<And>s' :: 'a objcrt_scheme. class_hash s' = (class_hash s1)[j := meta] \<Longrightarrow> runtime_ready s' \<Longrightarrow>
      \<forall>a. cls_name (class_heap s' a) = cls_name (class_heap s1 a) \<Longrightarrow>
      class_ok s' \<and> class_room s1 = Suc (class_room s') \<and> class_names s' = insert name (class_names s1) \<and>
      (\<forall>n \<in> class_names s'. objc_lookUpClass (Some n) s' =
        (if n \<in> class_names s1 then objc_lookUpClass (Some n) s1 else Some meta))" by blast
  define s3 where "s3 = upd_class cls ?mark (upd_class meta ?mark (s1\<lparr>class_hash := (class_hash s1)[j := meta]\<rparr>))"
  have names: "\<forall>a. cls_name (class_heap s3 a) = cls_name (class_heap s1 a)"
    unfolding s3_def by (simp add: upd_class_def)
  have "runtime_ready s3" using s1(1) by (simp add: s3_def class_ok_def)
  from en' [OF _ this names] have s3: "class_ok s3" "class_room s1 = Suc (class_room s3)"
    "class_names s3 = insert name (class_names s1)"
    "\<forall>n \<in> class_names s3. objc_lookUpClass (Some n) s3 =
        (if n \<in> class_names s1 then objc_lookUpClass (Some n) s1 else Some meta)"
    by (simp_all add: s3_def)
  have "objc_registerClassPair cls s = Some s3"
    using i j s(2,3,4,5) resolve_marked [of cls "upd_class meta ?mark (s1\<lparr>class_hash := (class_hash s1)[j := meta]\<rparr>)"]
    by (simp add: objc_registerClassPair_def name_place_def s1_def s3_def Let_def)
  then show ?thesis using s1 s3 by (intro exI [of _ s3]) auto
qed

lemma registerClassPair_no_room:
  fixes s :: "'a objcrt_scheme"
  assumes s: "class_ok s" "cls \<noteq> 0" "meta = isa (class_heap s cls)" "meta \<noteq> 0"
      "name = cls_name (class_heap s cls)" "cls_name (class_heap s meta) = name" "class_room s < 2"
  shows "objc_registerClassPair cls s = None"
proof (cases "class_room s = 0")
  case True
  then show ?thesis using s(2) by (simp add: objc_registerClassPair_def class_no_room)
next
  case False
  then have "0 < class_room s" by simp
  from class_enter [OF s(1) this s(2) s(5) [symmetric]] obtain i where
    i: "probe (\<lambda>a. a = 0) (class_hash s) (name_place CLASS_HASH_SIZE name) = Some i" and
    en: "\<And>s' :: 'a objcrt_scheme. class_hash s' = (class_hash s)[i := cls] \<Longrightarrow> runtime_ready s' \<Longrightarrow>
      \<forall>a. cls_name (class_heap s' a) = cls_name (class_heap s a) \<Longrightarrow> class_room s = Suc (class_room s')" by metis
  define s1 where "s1 = s\<lparr>class_hash := (class_hash s)[i := cls], class_count := class_count s + 1\<rparr>"
  have "class_room s1 = 0" using en [of s1] s(1,7) by (simp add: s1_def class_ok_def)
  from class_no_room [OF this] i show ?thesis using s(2-5)
    by (simp add: objc_registerClassPair_def name_place_def s1_def)
qed

section \<open>Reference counts\<close>

text \<open>The count of an object: 1 for one that the table does not know.\<close>

definition rc_count :: "'a objcrt_scheme \<Rightarrow> nat \<Rightarrow> 64 word" where
  "rc_count s obj =
     (if obj = 0 then 0 else case map_of (rc_table s) obj of None \<Rightarrow> 1 | Some c \<Rightarrow> c)"

definition rc_known :: "'a objcrt_scheme \<Rightarrow> nat set" where
  "rc_known s = fst ` set (rc_table s) - {0}"

definition rc_room :: "'a objcrt_scheme \<Rightarrow> nat" where
  "rc_room s = length (filter (\<lambda>e. fst e = 0) (rc_table s))"

definition rc_once :: "(nat \<times> 64 word) list \<Rightarrow> bool" where
  "rc_once tab \<longleftrightarrow> (\<forall>i < length tab. \<forall>j < length tab. fst (tab ! i) \<noteq> 0 \<longrightarrow> fst (tab ! i) = fst (tab ! j) \<longrightarrow> i = j)"

definition rc_ok :: "'a objcrt_scheme \<Rightarrow> bool" where
  "rc_ok s \<longleftrightarrow> length (rc_table s) = RC_HASH_SIZE \<and> probe_ok rc_key rc_place (rc_table s) \<and> rc_once (rc_table s)"

lemma rc_known_keys: "rc_known s = table_keys rc_key (rc_table s)"
  by (auto simp: rc_known_def table_keys_def rc_key_def image_iff split: if_splits)

lemma rc_room_free: "rc_room s = free_places rc_key (rc_table s)"
  by (simp add: rc_room_def free_places_def rc_key_def)

lemma rc_stops: "obj \<noteq> 0 \<Longrightarrow>
  (\<lambda>e. fst e = 0 \<or> fst e = obj) = (\<lambda>e. rc_key e = None \<or> rc_key e = Some obj)"
  by (intro ext rc_stop)

lemma rc_count_at:
  assumes "rc_once (rc_table s)" "i < length (rc_table s)" "fst (rc_table s ! i) = obj" "obj \<noteq> 0"
  shows "rc_count s obj = snd (rc_table s ! i)"
proof -
  have "rc_table s ! i \<in> set (rc_table s)" using assms(2) by (rule nth_mem)
  with assms(3) have "map_of (rc_table s) obj \<noteq> None" by (auto simp: map_of_eq_None_iff)
  then obtain c where c: "map_of (rc_table s) obj = Some c" by auto
  from map_of_SomeD [OF this] obtain j where j: "j < length (rc_table s)" "rc_table s ! j = (obj, c)"
    by (auto simp: in_set_conv_nth)
  with assms have "i = j" unfolding rc_once_def by auto
  with c j assms(4) show ?thesis by (simp add: rc_count_def)
qed

lemma rc_count_unknown: "obj \<notin> rc_known s \<Longrightarrow> obj \<noteq> 0 \<Longrightarrow> rc_count s obj = 1"
  by (auto simp: rc_count_def rc_known_def split: option.split dest!: map_of_SomeD) force

lemma rc_known_nth: "obj \<in> rc_known s \<longleftrightarrow> obj \<noteq> 0 \<and> (\<exists>i < length (rc_table s). fst (rc_table s ! i) = obj)"
proof -
  have "obj \<in> fst ` set (rc_table s) \<longleftrightarrow> obj \<in> set (map fst (rc_table s))" by simp
  also have "\<dots> \<longleftrightarrow> (\<exists>i < length (rc_table s). fst (rc_table s ! i) = obj)"
    unfolding in_set_conv_nth by auto
  finally show ?thesis by (auto simp: rc_known_def)
qed

text \<open>Writing an entry, over an old one of the object or in a free place.\<close>

lemma rc_write:
  assumes once: "rc_once (rc_table s)" and i: "i < length (rc_table s)" and e: "fst e = obj" "obj \<noteq> 0"
    and old: "fst (rc_table s ! i) = obj \<or> fst (rc_table s ! i) = 0 \<and> obj \<notin> rc_known s"
    and s': "rc_table s' = (rc_table s)[i := e]"
  shows "rc_once (rc_table s') \<and> rc_known s' = insert obj (rc_known s) \<and> rc_count s' = (rc_count s)(obj := snd e)"
proof -
  have other: "fst (rc_table s ! j) \<noteq> obj" if "j < length (rc_table s)" "j \<noteq> i" for j
    using once i that old e(2) unfolding rc_once_def by (auto simp: rc_known_nth)
  have nth: "rc_table s' ! j = (if j = i then e else rc_table s ! j)" if "j < length (rc_table s)" for j
    using that s' i by (simp add: nth_list_update)
  have len: "length (rc_table s') = length (rc_table s)" using s' by simp
  have once': "rc_once (rc_table s')"
    using once other e(1) unfolding rc_once_def len by (auto simp: nth) (metis (full_types))+
  moreover have known: "obj' \<in> rc_known s' \<longleftrightarrow> obj' \<in> insert obj (rc_known s)" for obj'
  proof (cases "obj' = obj")
    case True
    then show ?thesis using e i nth [OF i] unfolding rc_known_nth len by auto
  next
    case False
    then have "fst (rc_table s' ! j) = obj' \<longleftrightarrow> fst (rc_table s ! j) = obj'" if "obj' \<noteq> 0" "j < length (rc_table s)" for j
      using that old e(1) by (auto simp: nth)
    then show ?thesis using False unfolding rc_known_nth [of _ s'] len by (auto simp: rc_known_nth)
  qed
  moreover have "rc_count s' obj' = ((rc_count s)(obj := snd e)) obj'" for obj'
  proof (cases "obj' = obj")
    case True
    then show ?thesis using rc_count_at [OF once', of i obj] e i nth [OF i] by (simp add: len)
  next
    case False
    show ?thesis
    proof (cases "obj' \<in> rc_known s")
      case True
      then obtain j where j: "j < length (rc_table s)" "fst (rc_table s ! j) = obj'" "obj' \<noteq> 0"
        by (auto simp: rc_known_nth)
      with False old have "j \<noteq> i" by auto
      with j rc_count_at [OF once, of j obj'] rc_count_at [OF once', of j obj'] nth [OF j(1)] False show ?thesis
        by (simp add: len)
    next
      case no: False
      then have "obj' \<notin> rc_known s'" using known False by auto
      with no False show ?thesis by (cases "obj' = 0") (simp_all add: rc_count_unknown, simp add: rc_count_def)
    qed
  qed
  ultimately show ?thesis by blast
qed

lemma probe_ok_same_keys:
  assumes "map key tab = map key tab'" "probe_ok key hash tab"
  shows "probe_ok key hash tab'"
proof -
  have len: "length tab = length tab'" using assms(1) by (metis length_map)
  have "key (tab ! place tab h d) = key (tab' ! place tab h d)" if "tab \<noteq> []" for h d
    using assms(1) place_lt [OF that, of h d] len by (metis nth_map)
  moreover have "place tab = place tab'" using len by (simp add: place_def fun_eq_iff)
  ultimately show ?thesis using assms(2) len by (cases "tab = []") (simp_all add: probe_ok_def)
qed

lemma upd_count_ok:
  fixes s :: "'a objcrt_scheme"
  assumes "rc_ok s" "i < length (rc_table s)" "fst (rc_table s ! i) = obj" "obj \<noteq> 0"
  shows "rc_ok (upd_count i f s) \<and> rc_known (upd_count i f s) = insert obj (rc_known s) \<and>
    rc_count (upd_count i f s) = (rc_count s)(obj := f (rc_count s obj)) \<and> rc_room (upd_count i f s) = rc_room s"
proof -
  have once: "rc_once (rc_table s)" using assms(1) by (simp add: rc_ok_def)
  let ?e = "map_prod id f (rc_table s ! i)"
  have tab: "rc_table (upd_count i f s) = (rc_table s)[i := ?e]" by (simp add: upd_count_def)
  have e: "fst ?e = obj" "snd ?e = f (rc_count s obj)"
    using assms(2-4) rc_count_at [OF once] by (simp_all add: fst_map_prod snd_map_prod)
  have fsts: "map fst ((rc_table s)[i := ?e]) = map fst (rc_table s)"
    using assms(2,3) e(1) by (simp add: map_update list_update_same_conv)
  have keys: "map rc_key tab = map (\<lambda>a. if a = 0 then None else Some a) (map fst tab)" for tab :: "(nat \<times> 64 word) list"
    by (simp add: rc_key_def)
  have "map rc_key (rc_table s) = map rc_key ((rc_table s)[i := ?e])" unfolding keys fsts ..
  then have "probe_ok rc_key rc_place (rc_table (upd_count i f s))"
    using probe_ok_same_keys assms(1) unfolding tab rc_ok_def by blast
  moreover have "rc_room (upd_count i f s) = rc_room s"
  proof -
    have "rc_room s' = length (filter (\<lambda>a. a = 0) (map fst (rc_table s')))" for s' :: "'a objcrt_scheme"
      by (simp add: rc_room_def filter_map o_def)
    then show ?thesis by (simp only: tab fsts)
  qed
  ultimately show ?thesis using rc_write [OF once assms(2) e(1) assms(4) _ tab] assms e(2)
    by (simp add: rc_ok_def tab)
qed

lemma rc_find_ok:
  assumes s: "rc_ok s" "obj \<noteq> 0" "obj \<in> rc_known s \<or> 0 < rc_room s"
  obtains i t where "rc_find obj s = Some (i, s\<lparr>rc_table := t\<rparr>)" "i < length t" "fst (t ! i) = obj"
    "rc_ok (s\<lparr>rc_table := t\<rparr>)" "rc_known (s\<lparr>rc_table := t\<rparr>) = insert obj (rc_known s)"
    "rc_count (s\<lparr>rc_table := t\<rparr>) = rc_count s"
    "rc_room s = rc_room (s\<lparr>rc_table := t\<rparr>) + (if obj \<in> rc_known s then 0 else 1)"
proof (cases "obj \<in> rc_known s")
  case True
  have ok: "length (rc_table s) = RC_HASH_SIZE" "probe_ok rc_key rc_place (rc_table s)" using s(1) by (simp_all add: rc_ok_def)
  from counts.search_there [OF ok True [unfolded rc_known_keys]] obtain i where
    i: "i < length (rc_table s)" "rc_key (rc_table s ! i) = Some obj"
      "probe (\<lambda>e. fst e = 0 \<or> fst e = obj) (rc_table s) (rc_place obj) = Some i"
    unfolding rc_stops [OF s(2)] by blast
  then have "rc_find obj s = Some (i, s\<lparr>rc_table := rc_table s\<rparr>)" "fst (rc_table s ! i) = obj"
    by (auto simp: rc_find_def rc_place_def rc_key_def split: if_splits)
  from that [OF this(1) i(1) this(2)] s(1) True show thesis by (simp add: insert_absorb)
next
  case False
  let ?e = "(obj, 1 :: 64 word)"
  have ok: "length (rc_table s) = RC_HASH_SIZE" "probe_ok rc_key rc_place (rc_table s)" and once: "rc_once (rc_table s)"
    using s(1) by (simp_all add: rc_ok_def)
  have k: "obj \<notin> table_keys rc_key (rc_table s)" "0 < free_places rc_key (rc_table s)" "rc_key ?e = Some obj"
    using False s(2,3) by (simp_all add: rc_known_keys rc_room_free) (simp add: rc_key_def)
  from counts.free_place [OF ok(1) k(2), of obj] obtain i where
    i: "i < length (rc_table s)" "probe (\<lambda>e. rc_key e = None) (rc_table s) (rc_place obj) = Some i" "rc_key (rc_table s ! i) = None"
    by blast
  have "fst (rc_table s ! i) = 0" using i(3) by (simp add: rc_key_def split: if_splits)
  moreover from i(2) have "probe (\<lambda>e. fst e = 0 \<or> fst e = obj) (rc_table s) (rc_place obj) = Some i"
    using counts.search_free [OF ok(1) k(1)] unfolding rc_stops [OF s(2)] by simp
  ultimately have f: "rc_find obj s = Some (i, s\<lparr>rc_table := (rc_table s)[i := ?e]\<rparr>)"
    using s(2) by (simp add: rc_find_def rc_place_def)
  let ?s = "s\<lparr>rc_table := (rc_table s)[i := ?e]\<rparr>"
  have w: "rc_once (rc_table ?s) \<and> rc_known ?s = insert obj (rc_known s) \<and> rc_count ?s = (rc_count s)(obj := snd ?e)"
    using \<open>fst (rc_table s ! i) = 0\<close> False s(2) i(1) by (intro rc_write [OF once]) simp_all
  note new = counts.added [OF ok k(3) i(2)]
  have "rc_ok ?s" using w new(1) ok(1) unfolding rc_ok_def by simp
  moreover have "rc_count ?s = rc_count s" using w rc_count_unknown [OF False s(2)] by auto
  moreover have "rc_room s = Suc (rc_room ?s)" using new(3) by (simp add: rc_room_free)
  ultimately show thesis using that [OF f] w i(1) False by simp
qed

lemma rc_find_full:
  assumes "rc_ok s" "obj \<noteq> 0" "obj \<notin> rc_known s" "rc_room s = 0"
  shows "rc_find obj s = None"
proof -
  have "probe (\<lambda>e. fst e = 0 \<or> fst e = obj) (rc_table s) (rc_place obj) = None"
    using assms counts.search_free [of "rc_table s" obj] counts.no_free_place [of "rc_table s"]
    unfolding rc_stops [OF assms(2)] by (simp add: rc_known_keys rc_room_free rc_ok_def)
  then show ?thesis by (simp add: rc_find_def rc_place_def)
qed

end
