(* ===== verification/Objc_Methods.thy ===== *)
theory Objc_Methods
  imports Objc_Tables
begin

text \<open>
  The methods of classes of the Objective-C runtime: the search through the superclasses as a search in one
  list, and what adding and replacing a method does to it.
\<close>

section \<open>Searching lists\<close>

lemma find_map: "find P (map f xs) = map_option f (find (\<lambda>x. P (f x)) xs)"
  by (induction xs) simp_all

lemma find_concat_cong:
  "\<forall>x \<in> set xs. find P (f x) = find Q (g x) \<Longrightarrow> find P (concat (map f xs)) = find Q (concat (map g xs))"
  by (induction xs) (auto simp: find_append split: option.split)

lemma find_concat_unique:
  assumes "\<forall>x \<in> set xs. find P (f x) = None \<or> find P (f x) = Some m" "\<exists>x \<in> set xs. find P (f x) = Some m"
  shows "find P (concat (map f xs)) = Some m"
  using assms
proof (induction xs)
  case (Cons a xs)
  then show ?case by (cases "find P (f a)") (auto simp: find_append)
qed simp

lemma find_concat_None: "find P (concat (map f xs)) = None \<longleftrightarrow> (\<forall>x \<in> set xs. find P (f x) = None)"
  by (auto simp: find_None_iff)

section \<open>Linked lists\<close>

fun linked :: "(nat \<Rightarrow> nat) \<Rightarrow> nat \<Rightarrow> nat list \<Rightarrow> bool" where
  "linked nx a [] = (a = 0)"
| "linked nx a (x # xs) = (a = x \<and> x \<noteq> 0 \<and> linked nx (nx x) xs)"

lemma hlinked_cong: "\<forall>x \<in> set xs. nx x = nx' x \<Longrightarrow> linked nx a xs = linked nx' a xs"
  by (induction xs arbitrary: a) simp_all

lemma linked_nonzero: "linked nx a xs \<Longrightarrow> 0 \<notin> set xs"
  by (induction xs arbitrary: a) auto

section \<open>The methods a class understands\<close>

definition matches :: "'a objcrt_scheme \<Rightarrow> nat \<Rightarrow> nat \<times> nat \<Rightarrow> bool" where
  "matches s name m = sel_matches (mt_name (method_at m s)) name s"

definition list_methods :: "'a objcrt_scheme \<Rightarrow> nat \<Rightarrow> (nat \<times> nat) list" where
  "list_methods s l = map (Pair l) [0..<gl_count (mlist_heap s l)]"

text \<open>A class \<open>cls\<close> with its superclasses \<open>cs\<close> from itself on, and the lists \<open>ll\<close> of each.\<close>

definition gl_ok :: "('e, 'z) grow_list_scheme \<Rightarrow> bool" where
  "gl_ok l \<longleftrightarrow> 0 \<le> gl_space l \<and> int (gl_count l) + gl_space l = int (length (gl_items l))"

definition hierarchy :: "'a objcrt_scheme \<Rightarrow> nat \<Rightarrow> nat list \<Rightarrow> (nat \<Rightarrow> nat list) \<Rightarrow> bool" where
  "hierarchy s cls cs ll \<longleftrightarrow>
     linked (\<lambda>c. superclass (class_heap s c)) cls cs \<and>
     (\<forall>c \<in> set cs. linked (\<lambda>l. ml_next (mlist_heap s l)) (methodLists (class_heap s c)) (ll c) \<and>
        (\<forall>l \<in> set (ll c). gl_ok (mlist_heap s l)))"

definition visible :: "'a objcrt_scheme \<Rightarrow> nat list \<Rightarrow> (nat \<Rightarrow> nat list) \<Rightarrow> (nat \<times> nat) list" where
  "visible s cs ll = concat (map (\<lambda>c. concat (map (list_methods s) (ll c))) cs)"

lemma find_in_lists_all:
  assumes "linked (\<lambda>l. ml_next (mlist_heap s l)) list ls"
  shows "find_in_lists list name s = Some (find (matches s name) (concat (map (list_methods s) ls)))"
  using assms
proof (induction ls arbitrary: list)
  case Nil
  then show ?case by (simp add: find_in_lists.simps)
next
  case (Cons l ls)
  then have l: "list = l" "l \<noteq> 0"
    "find_in_lists (ml_next (mlist_heap s l)) name s = Some (find (matches s name) (concat (map (list_methods s) ls)))" by auto
  have "find (matches s name) (list_methods s l) = map_option (Pair l) (method_list_find l name s)"
    using l(2) by (simp add: list_methods_def find_map method_list_find_def matches_def method_at_def)
  with l show ?case
    by (subst find_in_lists.simps) (auto simp: find_append split: option.split)
qed

lemma getInstanceMethod_visible:
  assumes "hierarchy s cls cs ll" "name \<noteq> 0"
  shows "class_getInstanceMethod cls name s = Some (find (matches s name) (visible s cs ll))"
proof -
  have "find_in_classes cur name s = Some (find (matches s name) (visible s cs ll))" if "hierarchy s cur cs ll" for cur
    using that
  proof (induction cs arbitrary: cur)
    case Nil
    then show ?case by (simp add: hierarchy_def visible_def find_in_classes.simps)
  next
    case (Cons c cs)
    then have "hierarchy s (superclass (class_heap s c)) cs ll" by (simp add: hierarchy_def)
    from Cons.IH [OF this]
    have rest: "find_in_classes (superclass (class_heap s c)) name s = Some (find (matches s name) (visible s cs ll))" .
    from Cons.prems have "cur = c" "c \<noteq> 0" "linked (\<lambda>l. ml_next (mlist_heap s l)) (methodLists (class_heap s c)) (ll c)"
      by (simp_all add: hierarchy_def)
    with rest find_in_lists_all [OF this(3)] show ?case
      by (subst find_in_classes.simps) (auto simp: visible_def find_append split: option.split)
  qed
  from this [OF assms(1)] show ?thesis
    using assms by (cases cs) (auto simp: class_getInstanceMethod_def hierarchy_def visible_def)
qed

text \<open>Sending a message runs the method that is found, as long as no method lacks an implementation.\<close>

lemma lookup_method_visible:
  assumes h: "hierarchy s cls cs ll" and sel: "sel \<noteq> 0" and imps: "\<forall>m \<in> set (visible s cs ll). mt_imp (method_at m s) \<noteq> No_imp"
  shows "objc_lookup_method cls sel s = map_option (\<lambda>m. method_getImplementation m s) (class_getInstanceMethod cls sel s)"
proof -
  let ?imp = "\<lambda>m. method_getImplementation m s"
  have lists: "lookup_in_lists list sel s = Some (?imp (find (matches s sel) (concat (map (list_methods s) ls))))"
    if "linked (\<lambda>l. ml_next (mlist_heap s l)) list ls"
      "\<forall>m \<in> set (concat (map (list_methods s) ls)). mt_imp (method_at m s) \<noteq> No_imp" for list ls
    using that
  proof (induction ls arbitrary: list)
    case Nil
    then show ?case by (simp add: lookup_in_lists.simps method_getImplementation_def)
  next
    case (Cons l ls)
    then have l: "list = l" "l \<noteq> 0"
      "lookup_in_lists (ml_next (mlist_heap s l)) sel s = Some (?imp (find (matches s sel) (concat (map (list_methods s) ls))))" by auto
    have f: "find (matches s sel) (list_methods s l) = map_option (Pair l) (method_list_find l sel s)"
      using l(2) by (simp add: list_methods_def find_map method_list_find_def matches_def method_at_def)
    show ?case
    proof (cases "method_list_find l sel s")
      case None
      with f l show ?thesis by (subst lookup_in_lists.simps) (simp add: find_append)
    next
      case (Some i)
      with f have "(l, i) \<in> set (list_methods s l)" by (auto simp: find_Some_iff)
      then have "mt_imp (method_at (l, i) s) \<noteq> No_imp" using Cons.prems(2) by simp
      with f l Some show ?thesis
        by (subst lookup_in_lists.simps) (simp add: find_append method_getImplementation_def method_at_def)
    qed
  qed
  have "lookup_in_classes cur sel s = Some (?imp (find (matches s sel) (visible s cs ll)))"
    if "hierarchy s cur cs ll" "\<forall>m \<in> set (visible s cs ll). mt_imp (method_at m s) \<noteq> No_imp" for cur
    using that
  proof (induction cs arbitrary: cur)
    case Nil
    then show ?case by (simp add: hierarchy_def visible_def lookup_in_classes.simps method_getImplementation_def)
  next
    case (Cons c cs)
    then have "hierarchy s (superclass (class_heap s c)) cs ll" "\<forall>m \<in> set (visible s cs ll). mt_imp (method_at m s) \<noteq> No_imp"
      by (simp_all add: hierarchy_def visible_def)
    from Cons.IH [OF this]
    have rest: "lookup_in_classes (superclass (class_heap s c)) sel s = Some (?imp (find (matches s sel) (visible s cs ll)))" .
    from Cons.prems have c: "cur = c" "c \<noteq> 0" "linked (\<lambda>l. ml_next (mlist_heap s l)) (methodLists (class_heap s c)) (ll c)"
      and im: "\<forall>m \<in> set (concat (map (list_methods s) (ll c))). mt_imp (method_at m s) \<noteq> No_imp"
      by (simp_all add: hierarchy_def visible_def)
    have ls: "lookup_in_lists (methodLists (class_heap s c)) sel s = Some (?imp (find (matches s sel) (concat (map (list_methods s) (ll c)))))"
      using lists [OF c(3) im] .
    show ?case
    proof (cases "find (matches s sel) (concat (map (list_methods s) (ll c)))")
      case None
      with ls rest c show ?thesis
        by (subst lookup_in_classes.simps) (simp add: visible_def find_append method_getImplementation_def)
    next
      case (Some m)
      then have "m \<in> set (concat (map (list_methods s) (ll c)))" unfolding find_Some_iff by (metis nth_mem)
      with im have "mt_imp (method_at m s) \<noteq> No_imp" by blast
      with ls c Some show ?thesis
        by (subst lookup_in_classes.simps) (simp add: visible_def find_append method_getImplementation_def)
    qed
  qed
  from this [OF h imps] show ?thesis
    using h sel getInstanceMethod_visible [OF h sel]
    by (cases cs) (auto simp: objc_lookup_method_def hierarchy_def visible_def method_getImplementation_def)
qed

section \<open>Adding a method\<close>

lemma sel_matches_sym: "sel_matches a b s = sel_matches b a s"
  by (auto simp: sel_matches_def)

lemma sel_matches_trans: "sel_matches a b s \<Longrightarrow> sel_matches b c s \<Longrightarrow> sel_matches a c s"
  by (auto simp: sel_matches_def)

text \<open>What a new entry in the list \<open>l\<close> does to searches.\<close>

definition added_at :: "nat \<Rightarrow> objc_method \<Rightarrow> 'a objcrt_scheme \<Rightarrow> 'a objcrt_scheme \<Rightarrow> bool" where
  "added_at l x s s' \<longleftrightarrow> sel_heap s' = sel_heap s \<and> (\<forall>k. k \<noteq> l \<longrightarrow> mlist_heap s' k = mlist_heap s k) \<and>
     gl_count (mlist_heap s' l) = Suc (gl_count (mlist_heap s l)) \<and>
     (\<forall>i < gl_count (mlist_heap s l). gl_items (mlist_heap s' l) ! i = gl_items (mlist_heap s l) ! i) \<and>
     gl_items (mlist_heap s' l) ! gl_count (mlist_heap s l) = x"

lemma added_sel: "added_at l x s s' \<Longrightarrow> sel_matches a b s' = sel_matches a b s"
  by (simp add: added_at_def sel_matches_def)

lemma added_same:
  "added_at l x s s' \<Longrightarrow> k = l \<longrightarrow> i < gl_count (mlist_heap s l) \<Longrightarrow> matches s' name (k, i) = matches s name (k, i)"
  by (cases "k = l") (simp_all add: matches_def method_at_def added_sel, simp_all add: added_at_def)

lemma added_last:
  "added_at l x s s' \<Longrightarrow> matches s' name (l, gl_count (mlist_heap s l)) = sel_matches (mt_name x) name s"
  by (simp add: matches_def method_at_def added_sel) (simp add: added_at_def)

lemma added_find_other:
  assumes "added_at l x s s'" "\<not> sel_matches (mt_name x) name s"
  shows "find (matches s' name) (list_methods s' k) = find (matches s name) (list_methods s k)"
proof -
  note m = added_same [OF assms(1)]
  have new: "\<not> matches s' name (l, gl_count (mlist_heap s l))"
    using assms added_last [OF assms(1)] by simp
  have same: "find (\<lambda>i. matches s' name (k, i)) [0..<gl_count (mlist_heap s k)] =
      find (\<lambda>i. matches s name (k, i)) [0..<gl_count (mlist_heap s k)]"
    by (rule find_cong [OF refl], rule m) auto
  show ?thesis
  proof (cases "k = l")
    case True
    then have "list_methods s' k = list_methods s k @ [(l, gl_count (mlist_heap s l))]"
      using assms(1) by (simp add: list_methods_def added_at_def)
    with same new True show ?thesis
      by (simp add: list_methods_def find_map find_append split: option.split)
  next
    case False
    with assms(1) same show ?thesis by (simp add: list_methods_def find_map added_at_def)
  qed
qed

lemma added_find_new:
  assumes "added_at l x s s'" "sel_matches (mt_name x) name s" "find (matches s name) (list_methods s k) = None"
  shows "find (matches s' name) (list_methods s' k) = (if k = l then Some (l, gl_count (mlist_heap s l)) else None)"
proof -
  note m = added_same [OF assms(1)]
  have new: "matches s' name (l, gl_count (mlist_heap s l))"
    using assms added_last [OF assms(1)] by simp
  have same: "find (\<lambda>i. matches s' name (k, i)) [0..<gl_count (mlist_heap s k)] =
      find (\<lambda>i. matches s name (k, i)) [0..<gl_count (mlist_heap s k)]"
    by (rule find_cong [OF refl], rule m) auto
  have none: "find (\<lambda>i. matches s name (k, i)) [0..<gl_count (mlist_heap s k)] = None"
    using assms(3) by (simp add: list_methods_def find_map)
  show ?thesis
  proof (cases "k = l")
    case True
    then have "list_methods s' k = list_methods s k @ [(l, gl_count (mlist_heap s l))]"
      using assms(1) by (simp add: list_methods_def added_at_def)
    with same none new True show ?thesis
      by (simp add: list_methods_def find_map find_append split: option.split)
  next
    case False
    with assms(1) same none show ?thesis by (simp add: list_methods_def find_map added_at_def)
  qed
qed

lemma added_visible_other:
  assumes "added_at l x s s'" "\<not> sel_matches (mt_name x) name s"
  shows "find (matches s' name) (visible s' cs ll) = find (matches s name) (visible s cs ll)"
  unfolding visible_def using assms by (intro find_concat_cong ballI added_find_other)

lemma added_visible_new:
  assumes "added_at l x s s'" "sel_matches (mt_name x) name s" "find (matches s name) (visible s cs ll) = None"
    and "c \<in> set cs" "l \<in> set (ll c)"
  shows "find (matches s' name) (visible s' cs ll) = Some (l, gl_count (mlist_heap s l))"
proof -
  have none: "find (matches s name) (list_methods s k) = None" if "c' \<in> set cs" "k \<in> set (ll c')" for c' k
    using assms(3) that by (auto simp: visible_def find_concat_None)
  have one: "find (matches s' name) (concat (map (list_methods s') (ll c'))) =
      (if l \<in> set (ll c') then Some (l, gl_count (mlist_heap s l)) else None)" if "c' \<in> set cs" for c'
    using added_find_new [OF assms(1,2) none [OF that]]
    by (auto intro!: find_concat_unique simp: find_concat_None)
  show ?thesis unfolding visible_def using one assms(4,5)
    by (intro find_concat_unique) auto
qed

text \<open>A list that does not exist yet counts as an empty one.\<close>

lemma gl_push_ok:
  assumes "gl_ok l" "0 < gl_space l"
  shows "gl_push e l = Some (l\<lparr>gl_count := gl_count l + 1, gl_space := gl_space l - 1, gl_items := (gl_items l)[gl_count l := e]\<rparr>)"
    "gl_ok (l\<lparr>gl_count := gl_count l + 1, gl_space := gl_space l - 1, gl_items := (gl_items l)[gl_count l := e]\<rparr>)"
  using assms by (simp_all add: gl_push_def gl_ok_def)

lemma sel_matches_nil: "sel_matches a b s \<Longrightarrow> a \<noteq> 0 \<Longrightarrow> b \<noteq> 0"
  by (auto simp: sel_matches_def)

text \<open>Both ways of making room end in a list that is a member of the class and has the new method last.
  \<open>free\<close> is the address that a new list would get.\<close>

definition new_list_at :: "nat \<Rightarrow> nat \<Rightarrow> 'a objcrt_scheme \<Rightarrow> 'a objcrt_scheme" where
  "new_list_at p cls s =
     upd_class cls (\<lambda>c. c\<lparr>methodLists := p\<rparr>)
       (upd_mlist p (\<lambda>_. grow_list.extend (gl_new zero_method) (objc_method_list.fields (methodLists (class_heap s cls)))) s)"

lemma upd_mlist_fields [simp]:
  "sel_heap (upd_mlist l f s) = sel_heap s" "class_heap (upd_mlist l f s) = class_heap s"
  "mlist_heap (upd_mlist l f s) = (mlist_heap s)(l := f (mlist_heap s l))" "crt_memory (upd_mlist l f s) = crt_memory s"
  by (simp_all add: upd_mlist_def)

lemma hierarchy_new_list:
  assumes h: "hierarchy s cls cs ll" and p: "p \<noteq> 0" "\<forall>c \<in> set cs. p \<notin> set (ll c)" and cls: "cls \<noteq> 0"
  shows "hierarchy (new_list_at p cls s) cls cs (ll(cls := p # ll cls))"
    "list_methods (new_list_at p cls s) p = []"
    "c \<in> set cs \<Longrightarrow> k \<in> set (ll c) \<Longrightarrow> list_methods (new_list_at p cls s) k = list_methods s k"
    "k \<noteq> p \<Longrightarrow> matches (new_list_at p cls s) name (k, i) = matches s name (k, i)"
proof -
  let ?s = "new_list_at p cls s"
  have heaps: "mlist_heap ?s = (mlist_heap s)(p := grow_list.extend (gl_new zero_method)
      (objc_method_list.fields (methodLists (class_heap s cls))))"
    "class_heap ?s = (class_heap s)(cls := (class_heap s cls)\<lparr>methodLists := p\<rparr>)" "sel_heap ?s = sel_heap s"
    by (simp_all add: new_list_at_def) (simp add: upd_class_def)
  have new: "gl_ok (mlist_heap ?s p)" "ml_next (mlist_heap ?s p) = methodLists (class_heap s cls)" "gl_count (mlist_heap ?s p) = 0"
    unfolding heaps by (simp_all add: gl_ok_def gl_new_def grow_list.extend_def objc_method_list.fields_def)
  have keep: "linked (\<lambda>l. ml_next (mlist_heap ?s l)) a (ll c) = linked (\<lambda>l. ml_next (mlist_heap s l)) a (ll c)"
    "\<forall>l \<in> set (ll c). gl_ok (mlist_heap ?s l) = gl_ok (mlist_heap s l)" if "c \<in> set cs" for a c
  proof -
    have "\<forall>l \<in> set (ll c). mlist_heap ?s l = mlist_heap s l" using p that by (auto simp: heaps)
    then show "linked (\<lambda>l. ml_next (mlist_heap ?s l)) a (ll c) = linked (\<lambda>l. ml_next (mlist_heap s l)) a (ll c)"
      "\<forall>l \<in> set (ll c). gl_ok (mlist_heap ?s l) = gl_ok (mlist_heap s l)" by (auto intro!: hlinked_cong)
  qed
  have sup: "(\<lambda>c. superclass (class_heap ?s c)) = (\<lambda>c. superclass (class_heap s c))" by (simp add: heaps fun_eq_iff)
  have ml: "methodLists (class_heap ?s c) = (if c = cls then p else methodLists (class_heap s c))" for c by (simp add: heaps)
  show "hierarchy ?s cls cs (ll(cls := p # ll cls))"
    using h keep new p(1) unfolding hierarchy_def sup by (auto simp: ml)
  show "list_methods ?s p = []" using new(3) by (simp add: list_methods_def)
  show "list_methods ?s k = list_methods s k" if "c \<in> set cs" "k \<in> set (ll c)"
    using that p(2) by (auto simp: list_methods_def heaps)
  show "matches ?s name (k, i) = matches s name (k, i)" if "k \<noteq> p"
    using that by (simp add: matches_def method_at_def heaps sel_matches_def)
qed

text \<open>A list without methods is not noticed.\<close>

lemma new_list_visible:
  assumes h: "hierarchy s cls cs ll" and p: "p \<noteq> 0" "\<forall>c \<in> set cs. p \<notin> set (ll c)" and cls: "cls \<noteq> 0"
  shows "find (matches (new_list_at p cls s) name) (visible (new_list_at p cls s) cs (ll(cls := p # ll cls))) =
    find (matches s name) (visible s cs ll)"
proof -
  note new = hierarchy_new_list [OF assms]
  have "find (matches (new_list_at p cls s) name) (list_methods (new_list_at p cls s) k) = find (matches s name) (list_methods s k)"
    if k: "c \<in> set cs" "k \<in> set (ll c)" for c k
  proof -
    have "k \<noteq> p" using p(2) k by auto
    then show ?thesis unfolding new(3) [OF k]
      by (intro find_cong [OF refl]) (auto simp: list_methods_def new(4))
  qed
  with new(2) have "find (matches (new_list_at p cls s) name) (concat (map (list_methods (new_list_at p cls s)) ((ll(cls := p # ll cls)) c))) =
      find (matches s name) (concat (map (list_methods s) (ll c)))" if "c \<in> set cs" for c
    using that by (cases "c = cls") (simp_all add: find_concat_cong)
  then show ?thesis unfolding visible_def by (intro find_concat_cong ballI)
qed

text \<open>Putting the method behind the others of the first list.\<close>

definition pushed_at :: "nat \<Rightarrow> objc_method \<Rightarrow> 'a objcrt_scheme \<Rightarrow> 'a objcrt_scheme" where
  "pushed_at l x s = upd_mlist l (\<lambda>k. k\<lparr>gl_count := gl_count k + 1, gl_space := gl_space k - 1,
     gl_items := (gl_items k)[gl_count k := x]\<rparr>) s"

lemma pushed_added:
  "gl_ok (mlist_heap s l) \<Longrightarrow> 0 < gl_space (mlist_heap s l) \<Longrightarrow> added_at l x s (pushed_at l x s)"
  by (simp add: added_at_def pushed_at_def gl_ok_def nth_list_update)

lemma pushed_hierarchy:
  assumes "hierarchy s cls cs ll" "gl_ok (mlist_heap s l)" "0 < gl_space (mlist_heap s l)"
  shows "hierarchy (pushed_at l x s) cls cs ll"
proof -
  have "(\<lambda>k. ml_next (mlist_heap (pushed_at l x s) k)) = (\<lambda>k. ml_next (mlist_heap s k))"
    by (simp add: pushed_at_def fun_eq_iff)
  moreover have "gl_ok (mlist_heap (pushed_at l x s) k)" if "gl_ok (mlist_heap s k)" for k
    using that assms(2,3) gl_push_ok(2) [of "mlist_heap s l" x] by (simp add: pushed_at_def)
  ultimately show ?thesis using assms(1) by (simp add: hierarchy_def) (simp add: pushed_at_def)
qed

lemma pushed_outcome:
  assumes h: "hierarchy s cls cs ll" and cls: "cls \<noteq> 0" "methodLists (class_heap s cls) = l" "l \<noteq> 0"
    and space: "0 < gl_space (mlist_heap s l)" and name: "mt_name x \<noteq> 0"
    and none: "find (matches s (mt_name x)) (visible s cs ll) = None"
  shows "hierarchy (pushed_at l x s) cls cs ll \<and>
    (\<exists>m. class_getInstanceMethod cls (mt_name x) (pushed_at l x s) = Some (Some m) \<and> method_at m (pushed_at l x s) = x) \<and>
    (\<forall>nm. nm \<noteq> 0 \<longrightarrow> \<not> sel_matches (mt_name x) nm s \<longrightarrow>
      class_getInstanceMethod cls nm (pushed_at l x s) = class_getInstanceMethod cls nm s) \<and>
    (\<forall>m \<in> set (visible s cs ll). method_at m (pushed_at l x s) = method_at m s)"
proof -
  obtain cs' where cs: "cs = cls # cs'" using h cls(1) by (cases cs) (auto simp: hierarchy_def)
  then have l: "cls \<in> set cs" "l \<in> set (ll cls)" using h cls(2,3) by (cases "ll cls"; auto simp: hierarchy_def)+
  then have ok: "gl_ok (mlist_heap s l)" using h by (auto simp: hierarchy_def)
  note add = pushed_added [OF ok space, of x]
  note h' = pushed_hierarchy [OF h ok space, of x]
  have "sel_matches (mt_name x) (mt_name x) s" by (simp add: sel_matches_def)
  from added_visible_new [OF add this none l]
  have "class_getInstanceMethod cls (mt_name x) (pushed_at l x s) = Some (Some (l, gl_count (mlist_heap s l)))"
    using getInstanceMethod_visible [OF h' name] by simp
  moreover have "method_at (l, gl_count (mlist_heap s l)) (pushed_at l x s) = x"
    using add by (simp add: added_at_def method_at_def)
  moreover have "class_getInstanceMethod cls nm (pushed_at l x s) = class_getInstanceMethod cls nm s"
    if "nm \<noteq> 0" "\<not> sel_matches (mt_name x) nm s" for nm
    using added_visible_other [OF add that(2)] getInstanceMethod_visible [OF h' that(1)] getInstanceMethod_visible [OF h that(1)]
    by simp
  moreover have "method_at m (pushed_at l x s) = method_at m s" if "m \<in> set (visible s cs ll)" for m
    using that add by (cases "fst m = l") (auto simp: visible_def list_methods_def method_at_def added_at_def)
  ultimately show ?thesis using h' by blast
qed

lemma addMethod_existing:
  assumes "hierarchy s cls cs ll" "name \<noteq> 0" "find (matches s name) (visible s cs ll) \<noteq> None"
  shows "class_addMethod cls name imp types s = Some (False, s)"
  using assms getInstanceMethod_visible [OF assms(1,2)] by (auto simp: class_addMethod_def)

lemma addMethod_head:
  assumes h: "hierarchy s cls cs ll" and args: "cls \<noteq> 0" "name \<noteq> 0" "imp \<noteq> No_imp"
    and none: "find (matches s name) (visible s cs ll) = None"
    and l: "methodLists (class_heap s cls) = l" "l \<noteq> 0" "0 < gl_space (mlist_heap s l)"
  shows "class_addMethod cls name imp types s = Some (True, pushed_at l \<lparr>mt_name = name, mt_types = types, mt_imp = imp\<rparr> s)"
proof -
  have "l \<in> set (ll cls) \<and> cls \<in> set cs" using h args(1) l(1,2) by (cases cs; cases "ll cls"; auto simp: hierarchy_def)
  then have "gl_ok (mlist_heap s l)" using h by (auto simp: hierarchy_def)
  from gl_push_ok(1) [OF this l(3)] show ?thesis
    using args none l getInstanceMethod_visible [OF h args(2)]
    by (simp add: class_addMethod_def pushed_at_def upd_mlist_def)
qed

lemma addMethod_new_list:
  assumes h: "hierarchy s cls cs ll" and args: "cls \<noteq> 0" "name \<noteq> 0" "imp \<noteq> No_imp"
    and none: "find (matches s name) (visible s cs ll) = None"
    and l: "methodLists (class_heap s cls) = 0 \<or> gl_space (mlist_heap s (methodLists (class_heap s cls))) \<le> 0"
    and p: "crt_memory s = p # ps" "p \<noteq> 0"
  shows "class_addMethod cls name imp types s =
    Some (True, pushed_at p \<lparr>mt_name = name, mt_types = types, mt_imp = imp\<rparr> (new_list_at p cls (s\<lparr>crt_memory := ps\<rparr>)))"
  using args none l p getInstanceMethod_visible [OF h args(2)]
  by (simp add: class_addMethod_def crt_alloc_Cons nonnull_def new_list_at_def pushed_at_def Let_def)
     (simp add: upd_mlist_def upd_class_def gl_push_def gl_new_def grow_list.extend_def objc_method_list.fields_def zero_method_def)

lemma addMethod_refused:
  assumes h: "hierarchy s cls cs ll" and args: "cls \<noteq> 0" "name \<noteq> 0" "imp \<noteq> No_imp"
    and none: "find (matches s name) (visible s cs ll) = None"
    and l: "methodLists (class_heap s cls) = 0 \<or> gl_space (mlist_heap s (methodLists (class_heap s cls))) \<le> 0"
    and p: "fst (crt_alloc s) = 0"
  shows "class_addMethod cls name imp types s = None"
  using args none l p getInstanceMethod_visible [OF h args(2)]
  by (cases "crt_alloc s") (simp add: class_addMethod_def nonnull_def Let_def)

lemma addMethod_new_outcome:
  assumes h: "hierarchy s cls cs ll" and args: "cls \<noteq> 0" "name \<noteq> 0" "imp \<noteq> No_imp"
    and none: "find (matches s name) (visible s cs ll) = None"
    and l: "methodLists (class_heap s cls) = 0 \<or> gl_space (mlist_heap s (methodLists (class_heap s cls))) \<le> 0"
    and m: "crt_memory s = p # ps" "p \<noteq> 0" "\<forall>c \<in> set cs. p \<notin> set (ll c)"
  shows "\<exists>s' ll' m. class_addMethod cls name imp types s = Some (True, s') \<and> hierarchy s' cls cs ll' \<and>
    class_getInstanceMethod cls name s' = Some (Some m) \<and>
    method_at m s' = \<lparr>mt_name = name, mt_types = types, mt_imp = imp\<rparr> \<and>
    (\<forall>nm. nm \<noteq> 0 \<longrightarrow> \<not> sel_matches name nm s \<longrightarrow> class_getInstanceMethod cls nm s' = class_getInstanceMethod cls nm s)"
proof -
  let ?x = "\<lparr>mt_name = name, mt_types = types, mt_imp = imp\<rparr>" and ?t = "s\<lparr>crt_memory := ps\<rparr>"
  let ?u = "new_list_at p cls ?t" and ?ll = "ll(cls := p # ll cls)"
  have ht: "hierarchy ?t cls cs ll" using h by (simp add: hierarchy_def)
  have lm: "list_methods ?t = list_methods s" by (simp add: list_methods_def fun_eq_iff)
  have vis: "matches ?t nm = matches s nm" "visible ?t cs ll = visible s cs ll" for nm
    by (simp add: fun_eq_iff matches_def method_at_def sel_matches_def) (simp only: visible_def lm)
  note new = hierarchy_new_list [OF ht m(2,3) args(1)]
  note same = new_list_visible [OF ht m(2,3) args(1), unfolded vis]
  have ml: "methodLists (class_heap ?u cls) = p" "0 < gl_space (mlist_heap ?u p)"
    by (simp_all add: new_list_at_def) (simp_all add: upd_class_def gl_new_def grow_list.extend_def)
  have "find (matches ?u (mt_name ?x)) (visible ?u cs ?ll) = None" using same none by simp
  from pushed_outcome [OF new(1) args(1) ml(1) m(2) ml(2) _ this] args(2)
  have push: "hierarchy (pushed_at p ?x ?u) cls cs ?ll"
    "\<exists>m. class_getInstanceMethod cls name (pushed_at p ?x ?u) = Some (Some m) \<and> method_at m (pushed_at p ?x ?u) = ?x"
    "\<forall>nm. nm \<noteq> 0 \<longrightarrow> \<not> sel_matches name nm ?u \<longrightarrow>
      class_getInstanceMethod cls nm (pushed_at p ?x ?u) = class_getInstanceMethod cls nm ?u" by simp_all
  have "sel_heap ?u = sel_heap s" by (simp add: new_list_at_def)
  then have "sel_matches a b ?u = sel_matches a b s" for a b by (simp add: sel_matches_def)
  moreover have "class_getInstanceMethod cls nm ?u = class_getInstanceMethod cls nm s" if "nm \<noteq> 0" for nm
    using getInstanceMethod_visible [OF new(1) that] getInstanceMethod_visible [OF h that] same by simp
  ultimately have "\<forall>nm. nm \<noteq> 0 \<longrightarrow> \<not> sel_matches name nm s \<longrightarrow>
      class_getInstanceMethod cls nm (pushed_at p ?x ?u) = class_getInstanceMethod cls nm s" using push(3) by simp
  with push(1,2) addMethod_new_list [OF h args none l m(1,2)] show ?thesis by blast
qed

section \<open>Replacing a method\<close>

lemma visible_in_range:
  assumes "hierarchy s cls cs ll" "m \<in> set (visible s cs ll)"
  shows "snd m < length (gl_items (mlist_heap s (fst m)))"
proof -
  from assms(2) obtain c l where "c \<in> set cs" "l \<in> set (ll c)" "m \<in> set (list_methods s l)" by (auto simp: visible_def)
  moreover from this assms(1) have "gl_ok (mlist_heap s l)" by (auto simp: hierarchy_def)
  ultimately show ?thesis by (auto simp: list_methods_def gl_ok_def)
qed

text \<open>A change that leaves names alone leaves every search alone.\<close>

lemma upd_method_finds:
  assumes h: "hierarchy s c cs ll" and nm: "nm \<noteq> 0" and f: "\<And>x. mt_name (f x) = mt_name x"
  shows "class_getInstanceMethod c nm (upd_method m f s) = class_getInstanceMethod c nm s"
proof -
  let ?s = "upd_method m f s"
  have heap: "mlist_heap ?s l = (if l = fst m
      then (mlist_heap s l)\<lparr>gl_items := (gl_items (mlist_heap s l))[snd m := f (gl_items (mlist_heap s l) ! snd m)]\<rparr> else mlist_heap s l)"
    "class_heap ?s = class_heap s" "sel_heap ?s = sel_heap s" for l
    by (simp_all add: upd_method_def)
  have nx: "(\<lambda>l. ml_next (mlist_heap ?s l)) = (\<lambda>l. ml_next (mlist_heap s l))" by (simp add: heap fun_eq_iff)
  have ok: "gl_ok (mlist_heap ?s l) = gl_ok (mlist_heap s l)" for l by (simp add: heap gl_ok_def)
  have h': "hierarchy ?s c cs ll" using h unfolding hierarchy_def nx ok heap(2) .
  have "mt_name (method_at x ?s) = mt_name (method_at x s)" for x
    using f by (cases "snd m < length (gl_items (mlist_heap s (fst m)))")
      (auto simp: method_at_def heap nth_list_update list_update_beyond not_less)
  then have mt: "matches ?s nm = matches s nm"
    by (simp add: matches_def fun_eq_iff sel_matches_def heap(3))
  have lm: "list_methods ?s = list_methods s" by (simp add: list_methods_def fun_eq_iff heap)
  have "visible ?s cs ll = visible s cs ll" unfolding visible_def lm ..
  then show ?thesis using getInstanceMethod_visible [OF h nm] getInstanceMethod_visible [OF h' nm] mt by simp
qed

section \<open>Messages\<close>

lemma message_outcome:
  assumes h: "hierarchy s cls cs ll" and imps: "\<forall>m \<in> set (visible s cs ll). mt_imp (method_at m s) \<noteq> No_imp"
    and obj: "isa_of self s = Some cls" "cls \<noteq> 0" "self \<noteq> 0" and sel: "sel \<noteq> 0"
  shows "class_getInstanceMethod cls sel s = Some None \<and> objc_msgSend user self sel s = None \<or>
    (\<exists>m. class_getInstanceMethod cls sel s = Some (Some m) \<and> mt_imp (method_at m s) \<noteq> No_imp \<and>
      objc_msgSend user self sel s = call_imp user (mt_imp (method_at m s)) self sel s)"
proof -
  have send: "objc_msgSend user self sel s = call_imp user imp self sel s" if "objc_lookup_method cls sel s = Some imp" for imp
    using obj sel that by (subst objc_msgSend.simps) (cases imp; simp add: call_imp_def)
  have get: "class_getInstanceMethod cls sel s = Some (find (matches s sel) (visible s cs ll))"
    using getInstanceMethod_visible [OF h sel] .
  have look: "objc_lookup_method cls sel s = Some (method_getImplementation (find (matches s sel) (visible s cs ll)) s)"
    using lookup_method_visible [OF h sel imps] get by simp
  show ?thesis
  proof (cases "find (matches s sel) (visible s cs ll)")
    case None
    with send [OF look] get show ?thesis by (simp add: method_getImplementation_def call_imp_def)
  next
    case (Some m)
    then have "m \<in> set (visible s cs ll)" unfolding find_Some_iff by (metis nth_mem)
    with imps have "mt_imp (method_at m s) \<noteq> No_imp" by blast
    with Some send [OF look] get show ?thesis by (simp add: method_getImplementation_def)
  qed
qed

end
