(* ===== verification/Objc_Counts.thy ===== *)
theory Objc_Counts
  imports Objc_Methods
begin

text \<open>
  Reference counts and the autorelease pool of the Objective-C runtime: single operations against the
  function \<open>rc_count\<close>, and runs of them.
\<close>

section \<open>Single operations\<close>

lemma retain_ok:
  assumes "rc_ok s" "obj \<noteq> 0" "obj \<in> rc_known s \<or> 0 < rc_room s"
  shows "\<exists>t. objc_retain obj s = Some (obj, s\<lparr>rc_table := t\<rparr>) \<and> rc_ok (s\<lparr>rc_table := t\<rparr>) \<and>
    rc_known (s\<lparr>rc_table := t\<rparr>) = insert obj (rc_known s) \<and>
    rc_count (s\<lparr>rc_table := t\<rparr>) = (rc_count s)(obj := rc_count s obj + 1) \<and>
    rc_room s = rc_room (s\<lparr>rc_table := t\<rparr>) + (if obj \<in> rc_known s then 0 else 1)"
proof -
  from rc_find_ok [OF assms] obtain i t where f: "rc_find obj s = Some (i, s\<lparr>rc_table := t\<rparr>)" "i < length t" "fst (t ! i) = obj"
    "rc_ok (s\<lparr>rc_table := t\<rparr>)" "rc_known (s\<lparr>rc_table := t\<rparr>) = insert obj (rc_known s)" "rc_count (s\<lparr>rc_table := t\<rparr>) = rc_count s"
    "rc_room s = rc_room (s\<lparr>rc_table := t\<rparr>) + (if obj \<in> rc_known s then 0 else 1)" by blast
  let ?u = "upd_count i (\<lambda>c. c + 1) (s\<lparr>rc_table := t\<rparr>)"
  have u: "rc_ok ?u \<and> rc_known ?u = insert obj (rc_known s) \<and> rc_count ?u = (rc_count s)(obj := rc_count s obj + 1) \<and>
    rc_room ?u = rc_room (s\<lparr>rc_table := t\<rparr>)"
    using upd_count_ok [OF f(4), of i obj "\<lambda>c. c + 1"] f(2,3,5,6) assms(2) by simp
  have "?u = s\<lparr>rc_table := t[i := map_prod id (\<lambda>c. c + 1) (t ! i)]\<rparr>" by (simp add: upd_count_def)
  then show ?thesis using u f(1,7) assms(2)
    by (intro exI [of _ "t[i := map_prod id (\<lambda>c. c + 1) (t ! i)]"]) (simp add: objc_retain_def)
qed

lemma retain_full:
  "rc_ok s \<Longrightarrow> obj \<noteq> 0 \<Longrightarrow> obj \<notin> rc_known s \<Longrightarrow> rc_room s = 0 \<Longrightarrow> objc_retain obj s = None"
  by (simp add: objc_retain_def rc_find_full)

lemma word_le_1: "(x :: 64 word) \<le> 1 \<longleftrightarrow> x = 0 \<or> x = 1"
  by (auto simp: word_le_nat_alt le_Suc_eq word_unat_eq_iff)

text \<open>A release lowers the count, but not below zero, and sends \<^verbatim>\<open>dealloc\<close> whenever it is zero then.\<close>

lemma release_ok:
  assumes "rc_ok s" "obj \<noteq> 0" "obj \<in> rc_known s \<or> 0 < rc_room s"
  shows "\<exists>t. rc_ok (s\<lparr>rc_table := t\<rparr>) \<and> rc_known (s\<lparr>rc_table := t\<rparr>) = insert obj (rc_known s) \<and>
    rc_count (s\<lparr>rc_table := t\<rparr>) = (rc_count s)(obj := (if rc_count s obj = 0 then 0 else rc_count s obj - 1)) \<and>
    rc_room s = rc_room (s\<lparr>rc_table := t\<rparr>) + (if obj \<in> rc_known s then 0 else 1) \<and>
    objc_release user obj s =
      (if rc_count s obj \<le> 1
       then sel_registerName (Some ''dealloc'') (s\<lparr>rc_table := t\<rparr>) \<bind> (\<lambda>(sel, s'). map_option snd (objc_msgSend user obj sel s'))
       else Some (s\<lparr>rc_table := t\<rparr>))"
proof -
  from rc_find_ok [OF assms] obtain i t where f: "rc_find obj s = Some (i, s\<lparr>rc_table := t\<rparr>)" "i < length t" "fst (t ! i) = obj"
    "rc_ok (s\<lparr>rc_table := t\<rparr>)" "rc_known (s\<lparr>rc_table := t\<rparr>) = insert obj (rc_known s)" "rc_count (s\<lparr>rc_table := t\<rparr>) = rc_count s"
    "rc_room s = rc_room (s\<lparr>rc_table := t\<rparr>) + (if obj \<in> rc_known s then 0 else 1)" by blast
  have at: "snd (t ! i) = rc_count s obj"
    using rc_count_at [of "s\<lparr>rc_table := t\<rparr>" i obj] f(2-4,6) assms(2) by (simp add: rc_ok_def)
  show ?thesis
  proof (cases "rc_count s obj = 0")
    case True
    then have "objc_release user obj s =
        sel_registerName (Some ''dealloc'') (s\<lparr>rc_table := t\<rparr>) \<bind> (\<lambda>(sel, s'). map_option snd (objc_msgSend user obj sel s'))"
      using f(1) at assms(2) by (simp add: objc_release_def)
    moreover have "(rc_count s)(obj := 0) = rc_count s" using True by (simp add: fun_upd_idem)
    ultimately show ?thesis using f(4-7) True by (intro exI [of _ t]) simp
  next
    case False
    let ?t = "t[i := map_prod id (\<lambda>c. c - 1) (t ! i)]"
    have eq: "upd_count i (\<lambda>c. c - 1) (s\<lparr>rc_table := t\<rparr>) = s\<lparr>rc_table := ?t\<rparr>" by (simp add: upd_count_def)
    have u: "rc_ok (s\<lparr>rc_table := ?t\<rparr>) \<and> rc_known (s\<lparr>rc_table := ?t\<rparr>) = insert obj (rc_known s) \<and>
      rc_count (s\<lparr>rc_table := ?t\<rparr>) = (rc_count s)(obj := rc_count s obj - 1) \<and>
      rc_room (s\<lparr>rc_table := ?t\<rparr>) = rc_room (s\<lparr>rc_table := t\<rparr>)"
      using upd_count_ok [OF f(4), of i obj "\<lambda>c. c - 1"] f(2,3,5,6) assms(2) unfolding eq by simp
    have "snd (?t ! i) = rc_count s obj - 1" using f(2) at by (simp add: snd_map_prod)
    moreover have "rc_count s obj - 1 = 0 \<longleftrightarrow> rc_count s obj \<le> 1"
      using False by (simp add: word_le_1)
    moreover have "0 < rc_count s obj" using False by (simp add: word_gt_0)
    ultimately have "objc_release user obj s = (if rc_count s obj \<le> 1
       then sel_registerName (Some ''dealloc'') (s\<lparr>rc_table := ?t\<rparr>) \<bind> (\<lambda>(sel, s'). map_option snd (objc_msgSend user obj sel s'))
       else Some (s\<lparr>rc_table := ?t\<rparr>))"
      using f(1,2) at assms(2) eq by (simp add: objc_release_def)
    then show ?thesis using u f(7) False by (intro exI [of _ ?t]) simp
  qed
qed

lemma retainCount_ok:
  assumes "rc_ok s" "obj \<noteq> 0" "obj \<in> rc_known s \<or> 0 < rc_room s"
  shows "map_option fst (objc_retainCount obj s) = Some (rc_count s obj)"
proof -
  from rc_find_ok [OF assms] obtain i t where f: "rc_find obj s = Some (i, s\<lparr>rc_table := t\<rparr>)" "i < length t" "fst (t ! i) = obj"
    "rc_ok (s\<lparr>rc_table := t\<rparr>)" "rc_count (s\<lparr>rc_table := t\<rparr>) = rc_count s" by blast
  have "snd (t ! i) = rc_count s obj"
    using rc_count_at [of "s\<lparr>rc_table := t\<rparr>" i obj] f(2-5) assms(2) by (simp add: rc_ok_def)
  then show ?thesis using f(1) assms(2) by (simp add: objc_retainCount_def)
qed

section \<open>Runs\<close>

datatype rc_op = Retain nat | Release nat

fun op_obj :: "rc_op \<Rightarrow> nat" where
  "op_obj (Retain obj) = obj"
| "op_obj (Release obj) = obj"

fun rc_run :: "'a user_methods \<Rightarrow> rc_op list \<Rightarrow> 'a objcrt_scheme \<Rightarrow> 'a objcrt_scheme option" where
  "rc_run user [] s = Some s"
| "rc_run user (Retain obj # ops) s = objc_retain obj s \<bind> (\<lambda>(r, s). rc_run user ops s)"
| "rc_run user (Release obj # ops) s = objc_release user obj s \<bind> rc_run user ops"

text \<open>The counters that a run keeps; \<open>None\<close> when an object would be released for the last time.\<close>

fun count_run :: "rc_op list \<Rightarrow> (nat \<Rightarrow> 64 word) \<Rightarrow> (nat \<Rightarrow> 64 word) option" where
  "count_run [] c = Some c"
| "count_run (Retain obj # ops) c = count_run ops (c(obj := c obj + 1))"
| "count_run (Release obj # ops) c = (if c obj \<le> 1 then None else count_run ops (c(obj := c obj - 1)))"

text \<open>Room for an object that is used now, and for those that are used later.\<close>

lemma rc_room_step:
  assumes "card (insert obj objs - rc_known s) \<le> rc_room s" "finite objs"
  shows "obj \<in> rc_known s \<or> 0 < rc_room s"
    and "rc_known s' = insert obj (rc_known s) \<Longrightarrow> rc_room s = rc_room s' + (if obj \<in> rc_known s then 0 else 1) \<Longrightarrow>
      card (objs - rc_known s') \<le> rc_room s'"
proof -
  have fin: "finite (insert obj objs - rc_known s)" using assms(2) by simp
  show "obj \<in> rc_known s \<or> 0 < rc_room s"
  proof (rule ccontr)
    assume "\<not> ?thesis"
    then have "obj \<in> insert obj objs - rc_known s" "card (insert obj objs - rc_known s) = 0" using assms(1) by auto
    then show False using fin by (metis card_0_eq empty_iff)
  qed
  assume s': "rc_known s' = insert obj (rc_known s)" "rc_room s = rc_room s' + (if obj \<in> rc_known s then 0 else 1)"
  have "objs - rc_known s' = (insert obj objs - rc_known s) - {obj}" using s'(1) by auto
  then show "card (objs - rc_known s') \<le> rc_room s'"
    using assms(1) s'(2) fin by (cases "obj \<in> rc_known s") (simp_all add: card_Diff_singleton_if)
qed

lemma release_kept:
  assumes "rc_ok s" "obj \<noteq> 0" "obj \<in> rc_known s \<or> 0 < rc_room s" "\<not> rc_count s obj \<le> 1"
  obtains t where "objc_release user obj s = Some (s\<lparr>rc_table := t\<rparr>)" "rc_ok (s\<lparr>rc_table := t\<rparr>)"
    "rc_known (s\<lparr>rc_table := t\<rparr>) = insert obj (rc_known s)"
    "rc_count (s\<lparr>rc_table := t\<rparr>) = (rc_count s)(obj := rc_count s obj - 1)"
    "rc_room s = rc_room (s\<lparr>rc_table := t\<rparr>) + (if obj \<in> rc_known s then 0 else 1)"
proof -
  have "rc_count s obj \<noteq> 0" using assms(4) by auto
  with assms(4) release_ok [OF assms(1-3), of user] that show thesis by auto
qed

lemma rc_run_counts:
  assumes "rc_ok s" "count_run ops (rc_count s) = Some c" "\<forall>x \<in> set ops. op_obj x \<noteq> 0"
    and "card (op_obj ` set ops - rc_known s) \<le> rc_room s"
  shows "\<exists>t. rc_run user ops s = Some (s\<lparr>rc_table := t\<rparr>) \<and> rc_ok (s\<lparr>rc_table := t\<rparr>) \<and> rc_count (s\<lparr>rc_table := t\<rparr>) = c \<and>
    rc_known (s\<lparr>rc_table := t\<rparr>) = op_obj ` set ops \<union> rc_known s"
  using assms
proof (induction ops arbitrary: s)
  case Nil
  then show ?case by (intro exI [of _ "rc_table s"]) simp
next
  case (Cons x ops)
  have o: "op_obj x \<noteq> 0" using Cons.prems(3) by simp
  have card: "card (insert (op_obj x) (op_obj ` set ops) - rc_known s) \<le> rc_room s" using Cons.prems(4) by simp
  note room = rc_room_step(1) [OF card] and step = rc_room_step(2) [OF card]
  show ?case
  proof (cases x)
    case (Retain obj)
    with retain_ok [OF Cons.prems(1) o room] obtain t where
      t: "objc_retain obj s = Some (obj, s\<lparr>rc_table := t\<rparr>)" "rc_ok (s\<lparr>rc_table := t\<rparr>)"
        "rc_known (s\<lparr>rc_table := t\<rparr>) = insert (op_obj x) (rc_known s)"
        "rc_count (s\<lparr>rc_table := t\<rparr>) = (rc_count s)(obj := rc_count s obj + 1)"
        "rc_room s = rc_room (s\<lparr>rc_table := t\<rparr>) + (if op_obj x \<in> rc_known s then 0 else 1)" by auto
    have "count_run ops (rc_count (s\<lparr>rc_table := t\<rparr>)) = Some c" using Cons.prems(2) Retain t(4) by simp
    from Cons.IH [OF t(2) this _ step [OF _ t(3,5)]] Cons.prems(3) t(1,3) Retain show ?thesis by auto
  next
    case (Release obj)
    then have big: "\<not> rc_count s (op_obj x) \<le> 1" using Cons.prems(2) by (simp split: if_splits)
    from release_kept [OF Cons.prems(1) o room big] obtain t where
      t: "objc_release user (op_obj x) s = Some (s\<lparr>rc_table := t\<rparr>)" "rc_ok (s\<lparr>rc_table := t\<rparr>)"
        "rc_known (s\<lparr>rc_table := t\<rparr>) = insert (op_obj x) (rc_known s)"
        "rc_count (s\<lparr>rc_table := t\<rparr>) = (rc_count s)(op_obj x := rc_count s (op_obj x) - 1)"
        "rc_room s = rc_room (s\<lparr>rc_table := t\<rparr>) + (if op_obj x \<in> rc_known s then 0 else 1)" by blast
    have "count_run ops (rc_count (s\<lparr>rc_table := t\<rparr>)) = Some c" using Cons.prems(2) Release t(4) big by simp
    from Cons.IH [OF t(2) this _ step [OF _ t(3,5)]] Cons.prems(3) t(1,3) Release show ?thesis by auto
  qed
qed

section \<open>The pool\<close>

text \<open>Autoreleasing a list of objects: those that find no room are dropped.\<close>

fun autorelease_all :: "nat list \<Rightarrow> 'a objcrt_scheme \<Rightarrow> 'a objcrt_scheme option" where
  "autorelease_all [] s = Some s"
| "autorelease_all (obj # objs) s = objc_autorelease obj s \<bind> (\<lambda>(r, s). autorelease_all objs s)"

definition pool_ok :: "'a objcrt_scheme \<Rightarrow> bool" where
  "pool_ok s \<longleftrightarrow> length (autorelease_pool s) = nat AUTORELEASE_POOL_SIZE \<and>
     0 \<le> autorelease_pool_top s \<and> autorelease_pool_top s \<le> AUTORELEASE_POOL_SIZE"

definition pool_objs :: "'a objcrt_scheme \<Rightarrow> nat list" where
  "pool_objs s = take (nat (autorelease_pool_top s)) (autorelease_pool s)"

lemma pool_size: "AUTORELEASE_POOL_SIZE = 4096"
  by (simp add: AUTORELEASE_POOL_SIZE_def)

lemma autorelease_one:
  assumes "pool_ok s" "obj \<noteq> 0"
  shows "\<exists>p k. objc_autorelease obj s = Some (obj, s\<lparr>autorelease_pool := p, autorelease_pool_top := k\<rparr>) \<and>
    pool_ok (s\<lparr>autorelease_pool := p, autorelease_pool_top := k\<rparr>) \<and>
    pool_objs (s\<lparr>autorelease_pool := p, autorelease_pool_top := k\<rparr>) = take (nat AUTORELEASE_POOL_SIZE) (pool_objs s @ [obj])"
proof (cases "autorelease_pool_top s < AUTORELEASE_POOL_SIZE")
  case True
  let ?n = "nat (autorelease_pool_top s)"
  have n: "?n < length (autorelease_pool s)" "nat (autorelease_pool_top s + 1) = Suc ?n" "length (pool_objs s) = ?n"
    using True assms(1) by (auto simp: pool_ok_def pool_objs_def pool_size)
  have "take (Suc ?n) ((autorelease_pool s)[?n := obj]) = take ?n (autorelease_pool s) @ [obj]"
    using n(1) by (simp add: take_Suc_conv_app_nth)
  then show ?thesis using True assms n
    by (intro exI [of _ "(autorelease_pool s)[?n := obj]"] exI [of _ "autorelease_pool_top s + 1"])
      (auto simp: objc_autorelease_def pool_ok_def pool_objs_def pool_size)
next
  case False
  then have top: "autorelease_pool_top s = AUTORELEASE_POOL_SIZE" using assms(1) by (simp add: pool_ok_def)
  then show ?thesis using assms
    by (intro exI [of _ "autorelease_pool s"] exI [of _ "autorelease_pool_top s"])
      (simp add: objc_autorelease_def pool_objs_def pool_ok_def)
qed

lemma autorelease_all_ok:
  assumes "pool_ok s" "0 \<notin> set objs"
  shows "\<exists>p k. autorelease_all objs s = Some (s\<lparr>autorelease_pool := p, autorelease_pool_top := k\<rparr>) \<and>
    pool_ok (s\<lparr>autorelease_pool := p, autorelease_pool_top := k\<rparr>) \<and>
    pool_objs (s\<lparr>autorelease_pool := p, autorelease_pool_top := k\<rparr>) = take (nat AUTORELEASE_POOL_SIZE) (pool_objs s @ objs)"
  using assms
proof (induction objs arbitrary: s)
  case Nil
  then have "length (pool_objs s) \<le> nat AUTORELEASE_POOL_SIZE" by (simp add: pool_ok_def pool_objs_def)
  with Nil show ?case
    by (intro exI [of _ "autorelease_pool s"] exI [of _ "autorelease_pool_top s"]) simp
next
  case (Cons obj objs)
  then have "obj \<noteq> 0" by auto
  from autorelease_one [OF Cons.prems(1) this] obtain p k where
    one: "objc_autorelease obj s = Some (obj, s\<lparr>autorelease_pool := p, autorelease_pool_top := k\<rparr>)"
      "pool_ok (s\<lparr>autorelease_pool := p, autorelease_pool_top := k\<rparr>)"
      "pool_objs (s\<lparr>autorelease_pool := p, autorelease_pool_top := k\<rparr>) = take (nat AUTORELEASE_POOL_SIZE) (pool_objs s @ [obj])" by blast
  have "0 \<notin> set objs" using Cons.prems(2) by simp
  from Cons.IH [OF one(2) this] obtain p' k' where
    rest: "autorelease_all objs (s\<lparr>autorelease_pool := p, autorelease_pool_top := k\<rparr>) =
        Some (s\<lparr>autorelease_pool := p', autorelease_pool_top := k'\<rparr>)"
      "pool_ok (s\<lparr>autorelease_pool := p', autorelease_pool_top := k'\<rparr>)"
      "pool_objs (s\<lparr>autorelease_pool := p', autorelease_pool_top := k'\<rparr>) =
        take (nat AUTORELEASE_POOL_SIZE) (take (nat AUTORELEASE_POOL_SIZE) (pool_objs s @ [obj]) @ objs)"
    unfolding one(3) by auto
  have "take n (take n xs @ ys) = take n (xs @ ys)" for n and xs ys :: "nat list"
    by (cases "length xs \<le> n") simp_all
  from this [of "nat AUTORELEASE_POOL_SIZE" "pool_objs s @ [obj]" objs] one(1) rest show ?case
    by (intro exI [of _ p'] exI [of _ k']) simp
qed

text \<open>Popping releases what was put in since, the last first.\<close>

lemma rc_fields_same [simp]:
  "rc_ok (s\<lparr>autorelease_pool_top := k\<rparr>) = rc_ok s" "rc_known (s\<lparr>autorelease_pool_top := k\<rparr>) = rc_known s"
  "rc_count (s\<lparr>autorelease_pool_top := k\<rparr>) = rc_count s" "rc_room (s\<lparr>autorelease_pool_top := k\<rparr>) = rc_room s"
  "rc_ok (s\<lparr>autorelease_pool := p\<rparr>) = rc_ok s" "rc_known (s\<lparr>autorelease_pool := p\<rparr>) = rc_known s"
  "rc_count (s\<lparr>autorelease_pool := p\<rparr>) = rc_count s" "rc_room (s\<lparr>autorelease_pool := p\<rparr>) = rc_room s"
  by (simp_all add: rc_ok_def rc_known_def rc_count_def rc_room_def fun_eq_iff)

lemma rc_same:
  assumes "rc_table s' = rc_table s"
  shows "rc_ok s' = rc_ok s" "rc_known s' = rc_known s" "rc_count s' = rc_count s" "rc_room s' = rc_room s"
  using assms by (simp_all add: rc_ok_def rc_known_def rc_count_def rc_room_def fun_eq_iff)

lemma pool_objs_rc [simp]: "pool_objs (s\<lparr>rc_table := t\<rparr>) = pool_objs s"
  by (simp add: pool_objs_def)

lemma pool_pop_ok:
  assumes "pool_ok s" "rc_ok s" "autorelease_pool_top s = int (b + n)" "0 \<notin> set (drop b (pool_objs s))"
    and "count_run (map Release (rev (drop b (pool_objs s)))) (rc_count s) = Some c"
    and "card (set (drop b (pool_objs s)) - rc_known s) \<le> rc_room s"
  shows "\<exists>t. pool_pop user (int b) s = Some (s\<lparr>autorelease_pool_top := int b, rc_table := t\<rparr>) \<and>
    rc_ok (s\<lparr>rc_table := t\<rparr>) \<and> rc_count (s\<lparr>rc_table := t\<rparr>) = c"
  using assms
proof (induction n arbitrary: s)
  case 0
  then have top: "autorelease_pool_top s = int b" by simp
  have "pool_pop user (int b) s = Some (s\<lparr>autorelease_pool_top := int b, rc_table := rc_table s\<rparr>)"
    using top by (subst pool_pop.simps) simp
  moreover have "drop b (pool_objs s) = []" using top by (simp add: pool_objs_def)
  ultimately show ?case using 0
    by (intro exI [of _ "rc_table s"]) simp
next
  case (Suc n)
  let ?s = "s\<lparr>autorelease_pool_top := int (b + n)\<rparr>" and ?o = "autorelease_pool s ! (b + n)"
  have len: "b + n < length (autorelease_pool s)" using Suc.prems(1,3) by (simp add: pool_ok_def pool_size)
  then have objs: "pool_objs s = pool_objs ?s @ [?o]"
    using Suc.prems(3) by (simp add: pool_objs_def take_Suc_conv_app_nth nat_add_distrib)
  have "length (pool_objs ?s) = b + n" using len by (simp add: pool_objs_def nat_add_distrib)
  then have drop: "drop b (pool_objs s) = drop b (pool_objs ?s) @ [?o]" unfolding objs by simp
  have o: "?o \<noteq> 0" using Suc.prems(4) unfolding drop by auto
  have card: "card (insert ?o (set (drop b (pool_objs ?s))) - rc_known ?s) \<le> rc_room ?s"
    using Suc.prems(6) unfolding drop by simp
  have big: "\<not> rc_count ?s ?o \<le> 1" using Suc.prems(5) unfolding drop by (simp split: if_splits)
  have ok: "rc_ok ?s" using Suc.prems(2) by simp
  from release_kept [OF ok o rc_room_step(1) [OF card] big] obtain t where
    t: "objc_release user ?o ?s = Some (?s\<lparr>rc_table := t\<rparr>)" "rc_ok (?s\<lparr>rc_table := t\<rparr>)"
      "rc_known (?s\<lparr>rc_table := t\<rparr>) = insert ?o (rc_known ?s)"
      "rc_count (?s\<lparr>rc_table := t\<rparr>) = (rc_count ?s)(?o := rc_count ?s ?o - 1)"
      "rc_room ?s = rc_room (?s\<lparr>rc_table := t\<rparr>) + (if ?o \<in> rc_known ?s then 0 else 1)" by blast
  have pool: "pool_ok (?s\<lparr>rc_table := t\<rparr>)" using Suc.prems(1,3) by (simp add: pool_ok_def)
  have cr: "count_run (map Release (rev (drop b (pool_objs ?s)))) (rc_count (?s\<lparr>rc_table := t\<rparr>)) = Some c"
    using Suc.prems(5) big unfolding drop t(4) by simp
  have "\<exists>t'. pool_pop user (int b) (?s\<lparr>rc_table := t\<rparr>) = Some (?s\<lparr>rc_table := t, autorelease_pool_top := int b, rc_table := t'\<rparr>) \<and>
      rc_ok (?s\<lparr>rc_table := t, rc_table := t'\<rparr>) \<and> rc_count (?s\<lparr>rc_table := t, rc_table := t'\<rparr>) = c"
  proof (rule Suc.IH [OF pool t(2)])
    show "card (set (drop b (pool_objs (?s\<lparr>rc_table := t\<rparr>))) - rc_known (?s\<lparr>rc_table := t\<rparr>)) \<le> rc_room (?s\<lparr>rc_table := t\<rparr>)"
      using rc_room_step(2) [OF card _ t(3,5)] by simp
  qed (use Suc.prems(4) cr in \<open>simp_all add: drop\<close>)
  then obtain t' where t': "pool_pop user (int b) (?s\<lparr>rc_table := t\<rparr>) = Some (s\<lparr>autorelease_pool_top := int b, rc_table := t'\<rparr>)"
    "rc_ok (s\<lparr>rc_table := t'\<rparr>)" "rc_count (s\<lparr>rc_table := t'\<rparr>) = c"
    using rc_same [of "s\<lparr>rc_table := t'\<rparr>" "?s\<lparr>rc_table := t, rc_table := t'\<rparr>" for t'] by auto
  have "pool_pop user (int b) s = pool_pop user (int b) (?s\<lparr>rc_table := t\<rparr>)"
    using Suc.prems(3) t(1) len by (subst pool_pop.simps) (simp add: Let_def nat_add_distrib)
  with t' show ?case by auto
qed

lemma autorelease_then_pop:
  assumes s: "pool_ok s" "rc_ok s" "0 \<notin> set objs" and held: "held = take (nat (AUTORELEASE_POOL_SIZE - autorelease_pool_top s)) objs"
    and c: "count_run (map Release (rev held)) (rc_count s) = Some c" "card (set held - rc_known s) \<le> rc_room s"
  shows "\<exists>s'. autorelease_all objs s \<bind> objc_autoreleasePoolPop user (objc_autoreleasePoolPush s) = Some s' \<and>
    rc_ok s' \<and> rc_count s' = c \<and> pool_objs s' = pool_objs s"
proof -
  obtain b where b: "autorelease_pool_top s = int b" "b \<le> 4096" using s(1) by (cases "autorelease_pool_top s") (auto simp: pool_ok_def pool_size)
  have len: "length (pool_objs s) = b" using s(1) b by (simp add: pool_ok_def pool_objs_def pool_size)
  from autorelease_all_ok [OF s(1,3)] obtain p k where all:
    "autorelease_all objs s = Some (s\<lparr>autorelease_pool := p, autorelease_pool_top := k\<rparr>)"
    "pool_ok (s\<lparr>autorelease_pool := p, autorelease_pool_top := k\<rparr>)"
    "pool_objs (s\<lparr>autorelease_pool := p, autorelease_pool_top := k\<rparr>) = take (nat AUTORELEASE_POOL_SIZE) (pool_objs s @ objs)" by blast
  let ?u = "s\<lparr>autorelease_pool := p, autorelease_pool_top := k\<rparr>"
  have objs: "pool_objs ?u = pool_objs s @ held"
    unfolding all(3) held using len b by (simp add: pool_size nat_diff_distrib)
  have lp: "length p = 4096" "0 \<le> k" "k \<le> 4096" using all(2) by (simp_all add: pool_ok_def pool_size)
  then have "length (pool_objs ?u) = nat k" by (simp add: pool_objs_def)
  then have k: "k = int (b + length held)" using objs len lp(2) by simp
  have drop: "drop b (pool_objs ?u) = held" using objs len by simp
  have "0 \<notin> set held" using s(3) held by (auto dest: in_set_takeD)
  then have "\<exists>t. pool_pop user (int b) ?u = Some (?u\<lparr>autorelease_pool_top := int b, rc_table := t\<rparr>) \<and>
    rc_ok (?u\<lparr>rc_table := t\<rparr>) \<and> rc_count (?u\<lparr>rc_table := t\<rparr>) = c"
    using pool_pop_ok [OF all(2), of b "length held" c user, unfolded drop] s(2) c k by simp
  then obtain t where t: "pool_pop user (int b) ?u = Some (?u\<lparr>autorelease_pool_top := int b, rc_table := t\<rparr>)"
    "rc_ok (?u\<lparr>rc_table := t\<rparr>)" "rc_count (?u\<lparr>rc_table := t\<rparr>) = c" by blast
  let ?v = "?u\<lparr>autorelease_pool_top := int b, rc_table := t\<rparr>"
  have "signed_take_bit 31 (int b) = int b" using b(2) by (intro signed_take_bit_int_eq_self) simp_all
  then have pop: "objc_autoreleasePoolPop user (objc_autoreleasePoolPush s) ?u = Some ?v"
    using t(1) b(1) by (simp add: objc_autoreleasePoolPop_def objc_autoreleasePoolPush_def)
  have "pool_objs ?v = take b (pool_objs ?u)" using k by (simp add: pool_objs_def nat_add_distrib)
  also have "\<dots> = pool_objs s" using objs len by simp
  finally have "pool_objs ?v = pool_objs s" .
  moreover have "rc_ok ?v" "rc_count ?v = c" using t(2,3) rc_same [of ?v "?u\<lparr>rc_table := t\<rparr>"] by simp_all
  ultimately show ?thesis using pop all(1) by (intro exI [of _ ?v]) simp
qed

end
