(* ===== verification/Objc_Layout.thy ===== *)
theory Objc_Layout
  imports Objc_Methods
begin

text \<open>
  Instance variables of the Objective-C runtime: where \<^verbatim>\<open>class_addIvar\<close> puts them; and which protocols conform
  to which.
\<close>

section \<open>Rounding up\<close>

definition round_up :: "nat \<Rightarrow> nat \<Rightarrow> nat" where
  "round_up n x = (x + 2 ^ n - 1) div 2 ^ n * 2 ^ n"

lemma round_up_bounds: "x \<le> round_up n x" "round_up n x < x + 2 ^ n" "2 ^ n dvd round_up n x"
proof -
  have "round_up n x = (x + 2 ^ n - 1) - (x + 2 ^ n - 1) mod 2 ^ n" by (simp add: round_up_def minus_mod_eq_div_mult)
  moreover have "(x + 2 ^ n - 1) mod 2 ^ n < (2 :: nat) ^ n" by simp
  moreover have "(0 :: nat) < 2 ^ n" by simp
  ultimately show "x \<le> round_up n x" "round_up n x < x + 2 ^ n" by linarith+
  show "2 ^ n dvd round_up n x" by (simp add: round_up_def)
qed

lemma round_up_0 [simp]: "round_up 0 x = x"
  by (simp add: round_up_def)

lemma and_not_low: "(x :: 'a :: len word) AND NOT (2 ^ n - 1) = x - take_bit n x"
proof -
  have "x AND NOT (2 ^ n - 1) = push_bit n (drop_bit n x)"
    unfolding mask_eq_exp_minus_1 [symmetric] by (rule bit_eqI) (auto simp: bit_simps)
  then show ?thesis using bits_ident [of n x] by (metis add_diff_cancel_right')
qed

lemma unat_and_not_low: "unat ((x :: 'a :: len word) AND NOT (2 ^ n - 1)) = unat x div 2 ^ n * 2 ^ n"
proof -
  have t: "unat (take_bit n x) = unat x mod 2 ^ n" by (simp only: unsigned_take_bit_eq) (simp add: take_bit_eq_mod)
  then have "take_bit n x \<le> x" by (simp add: word_le_nat_alt)
  then show ?thesis unfolding and_not_low using t by (simp add: unat_sub minus_mod_eq_div_mult)
qed

lemma align_offset_round_up:
  assumes "a < 64" "unat off + 2 ^ unat a \<le> 2 ^ 64"
  shows "\<exists>r. align_offset a off = Some r \<and> unat r = round_up (unat a) (unat off)"
proof (cases "a = 0")
  case True
  then show ?thesis by (simp add: align_offset_def)
next
  case False
  have a: "unat a < 64" using assms(1) by (simp add: word_less_nat_alt)
  let ?al = "2 ^ unat a :: 64 word"
  have p: "(2 :: nat) ^ unat a < 2 ^ 64" using a by (intro power_strict_increasing) simp_all
  have "?al = of_nat (2 ^ unat a)" by simp
  then have al: "unat ?al = 2 ^ unat a" using p unat_of_nat [of "2 ^ unat a", where 'a = 64] by simp
  have one: "unat (?al - 1) = 2 ^ unat a - 1"
  proof -
    have "1 \<le> ?al" using al by (simp add: word_le_nat_alt)
    from unat_sub [OF this] show ?thesis unfolding al by simp
  qed
  then have "unat off + unat (?al - 1) < 2 ^ LENGTH(64)" using assms(2) by simp
  from unat_add_lem [THEN iffD1, OF this]
  have "unat (off + (?al - 1)) = unat off + (2 ^ unat a - 1)" unfolding one .
  then have "unat (off + ?al - 1) = unat off + (2 ^ unat a - 1)" unfolding add_diff_eq [symmetric] .
  moreover have "unat off + (2 ^ unat a - 1) = unat off + 2 ^ unat a - 1" by simp
  ultimately have "unat (off + ?al - 1) = unat off + 2 ^ unat a - 1" by (rule trans)
  then have "unat ((off + ?al - 1) AND NOT (?al - 1)) = round_up (unat a) (unat off)"
    unfolding unat_and_not_low by (simp add: round_up_def)
  with False assms(1) show ?thesis by (simp add: align_offset_def Let_def not_le)
qed

section \<open>Adding one\<close>

definition ivars_of :: "'a objcrt_scheme \<Rightarrow> nat \<Rightarrow> objc_ivar list" where
  "ivars_of s cls = (case cls_ivars (class_heap s cls) of None \<Rightarrow> [] | Some l \<Rightarrow> take (gl_count l) (gl_items l))"

definition ivars_ok :: "'a objcrt_scheme \<Rightarrow> nat \<Rightarrow> bool" where
  "ivars_ok s cls \<longleftrightarrow> cls \<noteq> 0 \<and> cls_info (class_heap s cls) AND OBJC_CLASS_INFO_NIF \<noteq> 0 \<and>
     (case cls_ivars (class_heap s cls) of None \<Rightarrow> True | Some l \<Rightarrow> gl_ok l)"

lemma gl_new_ok: "gl_ok (gl_new z)"
  by (simp add: gl_ok_def gl_new_def)

lemma gl_grow_ok: "gl_ok l \<Longrightarrow> gl_ok (gl_grow z l) \<and> take (gl_count l) (gl_items (gl_grow z l)) = take (gl_count l) (gl_items l)
    \<and> gl_count (gl_grow z l) = gl_count l \<and> gl_space (gl_grow z l) = 4"
  by (auto simp: gl_ok_def gl_grow_def take_add)

text \<open>Making room and adding never runs over the end of the list.\<close>

lemma gl_push_items:
  assumes "gl_ok l" "0 < gl_space l"
  shows "\<exists>l'. gl_push e l = Some l' \<and> gl_ok l' \<and> take (gl_count l') (gl_items l') = take (gl_count l) (gl_items l) @ [e]"
  using gl_push_ok [OF assms, of e] assms
  by (auto simp: gl_ok_def take_Suc_conv_app_nth)

lemma addIvar_ok:
  assumes s: "ivars_ok s cls" and mem: "crt_memory s \<noteq> []" "0 \<notin> set (crt_memory s)"
    and a: "a < 64" "unat (instance_size (class_heap s cls)) + 2 ^ unat a \<le> 2 ^ 64"
  shows "\<exists>s' off. class_addIvar cls (Some name) sz a types s = Some (True, s') \<and> ivars_ok s' cls \<and>
    unat off = round_up (unat a) (unat (instance_size (class_heap s cls))) \<and>
    instance_size (class_heap s' cls) = off + sz \<and>
    ivars_of s' cls = ivars_of s cls @ [\<lparr>iv_name = name, iv_type = types, iv_offset = ucast off\<rparr>] \<and>
    crt_memory s' \<in> {crt_memory s, tl (crt_memory s)}"
proof -
  from align_offset_round_up [OF a] obtain off where
    off: "align_offset a (instance_size (class_heap s cls)) = Some off"
      "unat off = round_up (unat a) (unat (instance_size (class_heap s cls)))" by blast
  obtain p ps where p: "crt_memory s = p # ps" "p \<noteq> 0" using mem by (cases "crt_memory s") auto
  let ?e = "\<lparr>iv_name = name, iv_type = types, iv_offset = ucast off\<rparr>"
  let ?set = "\<lambda>l. upd_class cls (\<lambda>c. c\<lparr>cls_ivars := Some l\<rparr>)"
  have add: "\<exists>s'. class_addIvar cls (Some name) sz a types s = Some (True, s') \<and> ivars_ok s' cls \<and>
      instance_size (class_heap s' cls) = off + sz \<and> ivars_of s' cls = take (gl_count l') (gl_items l') @ [?e] \<and>
      crt_memory s' \<in> {crt_memory s, tl (crt_memory s)}"
    if l: "gl_made zero_ivar (cls_ivars (class_heap s cls)) s = Some (l, s1)"
        "gl_room zero_ivar l (?set l s1) = (Some l', s2)"
      and l': "gl_ok l'" "0 < gl_space l'"
      and same: "class_heap s2 = (class_heap s)(cls := (class_heap s cls)\<lparr>cls_ivars := Some l\<rparr>)"
        "crt_memory s2 \<in> {crt_memory s, tl (crt_memory s)}" for l l' s1 s2
  proof -
    from gl_push_items [OF l', of ?e] obtain l'' where
      l'': "gl_push ?e l' = Some l''" "gl_ok l''" "take (gl_count l'') (gl_items l'') = take (gl_count l') (gl_items l') @ [?e]" by blast
    let ?s = "upd_class cls (\<lambda>c. c\<lparr>cls_ivars := Some l'', instance_size := off + sz\<rparr>) s2"
    have "class_addIvar cls (Some name) sz a types s = Some (True, ?s)"
      using s l l''(1) off(1) same(1) by (simp add: class_addIvar_def ivars_ok_def)
    moreover have "class_heap ?s cls = (class_heap s cls)\<lparr>cls_ivars := Some l'', instance_size := off + sz\<rparr>"
      by (simp add: upd_class_def same(1))
    ultimately show ?thesis using s l''(2,3) same(2) by (intro exI [of _ ?s]) (simp add: ivars_ok_def ivars_of_def)
  qed
  show ?thesis
  proof (cases "cls_ivars (class_heap s cls)")
    case None
    have "\<exists>s'. class_addIvar cls (Some name) sz a types s = Some (True, s') \<and> ivars_ok s' cls \<and>
      instance_size (class_heap s' cls) = off + sz \<and>
      ivars_of s' cls = take (gl_count (gl_new zero_ivar)) (gl_items (gl_new zero_ivar)) @ [?e] \<and>
      crt_memory s' \<in> {crt_memory s, tl (crt_memory s)}"
      by (rule add [of "gl_new zero_ivar" "s\<lparr>crt_memory := ps\<rparr>" _ "?set (gl_new zero_ivar) (s\<lparr>crt_memory := ps\<rparr>)"])
        (use None p in \<open>simp_all add: gl_made_def gl_room_def crt_alloc_def nonnull_def gl_ok_def gl_new_def upd_class_def\<close>)
    then show ?thesis using off(2) None by (auto simp: ivars_of_def gl_new_def)
  next
    case (Some l)
    have ok: "gl_ok l" using s Some by (simp add: ivars_ok_def)
    have old: "ivars_of s cls = take (gl_count l) (gl_items l)" using Some by (simp add: ivars_of_def)
    show ?thesis
    proof (cases "gl_space l \<le> 0")
      case True
      note g = gl_grow_ok [OF ok, of zero_ivar]
      have "\<exists>s'. class_addIvar cls (Some name) sz a types s = Some (True, s') \<and> ivars_ok s' cls \<and>
        instance_size (class_heap s' cls) = off + sz \<and>
        ivars_of s' cls = take (gl_count (gl_grow zero_ivar l)) (gl_items (gl_grow zero_ivar l)) @ [?e] \<and>
        crt_memory s' \<in> {crt_memory s, tl (crt_memory s)}"
        by (rule add [of l s _ "(?set l s)\<lparr>crt_memory := ps\<rparr>"])
          (use Some True p g in \<open>simp_all add: gl_made_def gl_room_def crt_alloc_def upd_class_def\<close>)
      then show ?thesis using off(2) g old by auto
    next
      case False
      have "\<exists>s'. class_addIvar cls (Some name) sz a types s = Some (True, s') \<and> ivars_ok s' cls \<and>
        instance_size (class_heap s' cls) = off + sz \<and>
        ivars_of s' cls = take (gl_count l) (gl_items l) @ [?e] \<and> crt_memory s' \<in> {crt_memory s, tl (crt_memory s)}"
        by (rule add [of l s _ "?set l s"]) (use Some False ok in \<open>simp_all add: gl_made_def gl_room_def upd_class_def\<close>)
      then show ?thesis using off(2) old by auto
    qed
  qed
qed

section \<open>Adding many\<close>

fun add_ivars :: "nat \<Rightarrow> (string \<times> 64 word \<times> byte) list \<Rightarrow> 'a objcrt_scheme \<Rightarrow> 'a objcrt_scheme option" where
  "add_ivars cls [] s = Some s"
| "add_ivars cls ((name, sz, a) # vs) s =
     class_addIvar cls (Some name) sz a None s \<bind> (\<lambda>(b, s). if b then add_ivars cls vs s else None)"

text \<open>The places the variables get, and where the last one ends.\<close>

fun layout :: "nat \<Rightarrow> (string \<times> 64 word \<times> byte) list \<Rightarrow> nat list" where
  "layout base [] = []"
| "layout base ((name, sz, a) # vs) =
     round_up (unat a) base # layout (round_up (unat a) base + unat sz) vs"

fun layout_end :: "nat \<Rightarrow> (string \<times> 64 word \<times> byte) list \<Rightarrow> nat" where
  "layout_end base [] = base"
| "layout_end base ((name, sz, a) # vs) = layout_end (round_up (unat a) base + unat sz) vs"

text \<open>A bound for it that does not depend on the order.\<close>

definition layout_bound :: "(string \<times> 64 word \<times> byte) list \<Rightarrow> nat" where
  "layout_bound vs = sum_list (map (\<lambda>(name, sz, a). 2 ^ unat a + unat sz) vs)"

lemma layout_length [simp]: "length (layout base vs) = length vs"
  by (induction base vs rule: layout.induct) simp_all

lemma layout_end_ge: "base \<le> layout_end base vs"
proof (induction base vs rule: layout_end.induct)
  case (2 base name sz a vs)
  with round_up_bounds(1) [of base "unat a"] show ?case by simp
qed simp

lemma layout_end_le: "layout_end base vs \<le> base + layout_bound vs"
proof (induction base vs rule: layout_end.induct)
  case (2 base name sz a vs)
  with round_up_bounds(2) [of "unat a" base] show ?case by (simp add: layout_bound_def)
qed (simp add: layout_bound_def)

text \<open>The places are aligned, above the base, and do not overlap.\<close>

lemma layout_places:
  "i < length vs \<Longrightarrow> base \<le> layout base vs ! i \<and> 2 ^ unat (snd (snd (vs ! i))) dvd layout base vs ! i \<and>
    layout base vs ! i + unat (fst (snd (vs ! i))) \<le> layout_end base vs"
proof (induction base vs arbitrary: i rule: layout.induct)
  case (2 base name sz a vs)
  let ?r = "round_up (unat a) base"
  show ?case
  proof (cases i)
    case 0
    then show ?thesis using round_up_bounds [of base "unat a"] round_up_bounds(3) layout_end_ge by simp
  next
    case (Suc j)
    have "?r + unat sz \<le> layout (?r + unat sz) vs ! j \<and> 2 ^ unat (snd (snd (vs ! j))) dvd layout (?r + unat sz) vs ! j \<and>
      layout (?r + unat sz) vs ! j + unat (fst (snd (vs ! j))) \<le> layout_end (?r + unat sz) vs"
      using "2.IH" [of j] "2.prems" Suc by simp
    then show ?thesis using Suc round_up_bounds(1) [of base "unat a"] by simp
  qed
qed simp

lemma layout_disjoint:
  "i < j \<Longrightarrow> j < length vs \<Longrightarrow> layout base vs ! i + unat (fst (snd (vs ! i))) \<le> layout base vs ! j"
proof (induction base vs arbitrary: i j rule: layout.induct)
  case (2 base name sz a vs)
  then obtain k where j: "j = Suc k" by (cases j) auto
  show ?case
  proof (cases i)
    case 0
    then show ?thesis using layout_places [of k vs "round_up (unat a) base + unat sz"] "2.prems" j by simp
  next
    case (Suc l)
    then show ?thesis using "2.IH" [of l k] "2.prems" j by simp
  qed
qed simp

lemma add_ivars_ok:
  assumes "ivars_ok s cls" "length vs \<le> length (crt_memory s)" "0 \<notin> set (crt_memory s)"
    and "\<forall>v \<in> set vs. snd (snd v) < 64" "unat (instance_size (class_heap s cls)) + layout_bound vs < 2 ^ 32"
  shows "\<exists>s'. add_ivars cls vs s = Some s' \<and> ivars_ok s' cls \<and>
    unat (instance_size (class_heap s' cls)) = layout_end (unat (instance_size (class_heap s cls))) vs \<and>
    ivars_of s' cls = ivars_of s cls @ map2 (\<lambda>v off. \<lparr>iv_name = fst v, iv_type = None, iv_offset = of_nat off\<rparr>) vs
      (layout (unat (instance_size (class_heap s cls))) vs)"
  using assms
proof (induction vs arbitrary: s)
  case Nil
  then show ?case by simp
next
  case (Cons v vs)
  obtain name sz a where v: "v = (name, sz, a)" by (cases v) auto
  let ?n = "unat (instance_size (class_heap s cls))" let ?r = "round_up (unat a) ?n"
  have small: "?n + 2 ^ unat a + unat sz + layout_bound vs < 2 ^ 32" "a < 64"
    using Cons.prems(4,5) v by (simp_all add: layout_bound_def)
  then have "?n + 2 ^ unat a \<le> 2 ^ 64" by simp
  moreover have "crt_memory s \<noteq> []" using Cons.prems(2) by auto
  ultimately obtain s' off where s':
    "class_addIvar cls (Some name) sz a None s = Some (True, s')" "ivars_ok s' cls" "unat off = ?r"
    "instance_size (class_heap s' cls) = off + sz"
    "ivars_of s' cls = ivars_of s cls @ [\<lparr>iv_name = name, iv_type = None, iv_offset = ucast off\<rparr>]"
    "crt_memory s' \<in> {crt_memory s, tl (crt_memory s)}"
    using addIvar_ok [OF Cons.prems(1) _ Cons.prems(3) small(2), of name sz None] by blast
  have "unat off + unat sz < 2 ^ LENGTH(64)" using s'(3) small(1) round_up_bounds(2) [of "unat a" ?n] by simp
  from unat_add_lem [THEN iffD1, OF this]
  have size': "unat (instance_size (class_heap s' cls)) = ?r + unat sz" unfolding s'(3,4) .
  have off: "(ucast off :: uint32) = of_nat ?r" unfolding s'(3) [symmetric] by simp
  have "set (crt_memory s') \<subseteq> set (crt_memory s)" "length vs \<le> length (crt_memory s')"
    using s'(6) Cons.prems(2) by (cases "crt_memory s"; auto)+
  moreover have "?r + unat sz + layout_bound vs < 2 ^ 32" using small(1) round_up_bounds(2) [of "unat a" ?n] by linarith
  ultimately obtain t where t: "add_ivars cls vs s' = Some t" "ivars_ok t cls"
    "unat (instance_size (class_heap t cls)) = layout_end (?r + unat sz) vs"
    "ivars_of t cls = ivars_of s' cls @ map2 (\<lambda>v off. \<lparr>iv_name = fst v, iv_type = None, iv_offset = of_nat off\<rparr>) vs
      (layout (?r + unat sz) vs)"
    using Cons.IH [OF s'(2)] Cons.prems(3,4) unfolding size' by auto
  have "add_ivars cls (v # vs) s = Some t" using s'(1) t(1) v by simp
  then show ?case using t(2-4) s'(5) off by (simp add: v)
qed

text \<open>What \<^verbatim>\<open>objc_offsetOf\<close> says of a variable with a name of its own.\<close>

lemma offsetOf_ivar:
  assumes "ivars_ok s cls" "i < length (ivars_of s cls)" "iv_name (ivars_of s cls ! i) = name"
    and "\<forall>j < i. iv_name (ivars_of s cls ! j) \<noteq> name"
  shows "objc_offsetOf cls (Some name) s = ucast (iv_offset (ivars_of s cls ! i))"
proof -
  obtain l where l: "cls_ivars (class_heap s cls) = Some l" "i < gl_count l" "ivars_of s cls = take (gl_count l) (gl_items l)"
    using assms(2) by (auto simp: ivars_of_def split: option.splits)
  then have nth: "ivars_of s cls ! j = gl_items l ! j" if "j \<le> i" for j using that by simp
  have "find (\<lambda>i. iv_name (gl_items l ! i) = name) [0..<gl_count l] = Some i"
    unfolding find_Some_iff using l(2) assms(3,4) nth by (intro exI [of _ i]) auto
  with l(1) assms(1) nth show ?thesis by (simp add: objc_offsetOf_def ivars_ok_def)
qed

section \<open>Conformance\<close>

text \<open>The relation that \<^verbatim>\<open>protocol_addProtocol\<close> builds.\<close>

definition adopts :: "'a objcrt_scheme \<Rightarrow> (nat \<times> nat) set" where
  "adopts s = {(p, q). q \<in> set (pl_members (pt_protocols (proto_heap s p)))}"

lemma conforms_Cons: "conforms_any (p # ps) other s =
    (if p = 0 \<or> other = 0 then Some False
     else if p = other then Some True
     else conforms_any (pl_members (pt_protocols (proto_heap s p))) other s) \<bind>
    (\<lambda>r. if r then Some True else conforms_any ps other s)"
  by (subst conforms_any.simps) simp

lemma conforms_Nil [simp]: "conforms_any [] other s = Some False"
  by (subst conforms_any.simps) simp

text \<open>Without circles, the search ends and says whether the other protocol can be reached.\<close>

lemma conforms_reaches:
  assumes "wf ((adopts s)\<inverse>)" "other \<noteq> 0" "\<forall>p q. (p, q) \<in> adopts s \<longrightarrow> q \<noteq> 0"
  shows "p \<noteq> 0 \<Longrightarrow> conforms_any [p] other s = Some ((p, other) \<in> (adopts s)\<^sup>*)"
  using assms(1)
proof (induction p rule: wf_induct_rule)
  case (less p)
  have list: "conforms_any ps other s = Some (\<exists>q \<in> set ps. (q, other) \<in> (adopts s)\<^sup>*)"
    if "set ps \<subseteq> {q. (p, q) \<in> adopts s}" for ps
    using that
  proof (induction ps)
    case (Cons q ps)
    then have "conforms_any [q] other s = Some ((q, other) \<in> (adopts s)\<^sup>*)" using less.IH assms(3) by auto
    then have "conforms_any (q # ps) other s = (if (q, other) \<in> (adopts s)\<^sup>* then Some True else conforms_any ps other s)"
      unfolding conforms_Cons by (auto simp: Option.bind_eq_Some_conv split: if_splits)
    with Cons show ?case by auto
  qed simp
  have "(p, other) \<in> (adopts s)\<^sup>* \<longleftrightarrow> p = other \<or> (\<exists>q. (p, q) \<in> adopts s \<and> (q, other) \<in> (adopts s)\<^sup>*)"
    by (metis converse_rtranclE converse_rtrancl_into_rtrancl rtrancl.rtrancl_refl)
  moreover have "conforms_any (pl_members (pt_protocols (proto_heap s p))) other s =
      Some (\<exists>q. (p, q) \<in> adopts s \<and> (q, other) \<in> (adopts s)\<^sup>*)"
    using list [of "pl_members (pt_protocols (proto_heap s p))"] by (auto simp: adopts_def)
  ultimately show ?case using less.prems assms(2) unfolding conforms_Cons by auto
qed

lemma conforms_reaches_list:
  assumes "wf ((adopts s)\<inverse>)" "other \<noteq> 0" "\<forall>p q. (p, q) \<in> adopts s \<longrightarrow> q \<noteq> 0" "0 \<notin> set ps"
  shows "conforms_any ps other s = Some (\<exists>p \<in> set ps. (p, other) \<in> (adopts s)\<^sup>*)"
  using assms(4)
proof (induction ps)
  case (Cons q ps)
  then have "conforms_any [q] other s = Some ((q, other) \<in> (adopts s)\<^sup>*)"
    using conforms_reaches [OF assms(1-3), of q] by simp
  then have "conforms_any (q # ps) other s = (if (q, other) \<in> (adopts s)\<^sup>* then Some True else conforms_any ps other s)"
    unfolding conforms_Cons by (auto simp: Option.bind_eq_Some_conv split: if_splits)
  with Cons show ?case by auto
qed simp

lemma class_conforms_reaches:
  assumes p: "wf ((adopts s)\<inverse>)" "other \<noteq> 0" "\<forall>p q. (p, q) \<in> adopts s \<longrightarrow> q \<noteq> 0"
    and cs: "linked (\<lambda>c. superclass (class_heap s c)) cls cs" "\<forall>c \<in> set cs. 0 \<notin> set (pl_members (cls_protocols (class_heap s c)))"
  shows "class_conformsToProtocol cls other s =
    Some (\<exists>c \<in> set cs. \<exists>p \<in> set (pl_members (cls_protocols (class_heap s c))). (p, other) \<in> (adopts s)\<^sup>*)"
  using cs
proof (induction cs arbitrary: cls)
  case Nil
  then show ?case by (subst class_conformsToProtocol.simps) simp
next
  case (Cons c cs)
  let ?sup = "superclass (class_heap s c)"
  have c: "cls = c" "c \<noteq> 0" "linked (\<lambda>c. superclass (class_heap s c)) ?sup cs" using Cons.prems(1) by simp_all
  then have rest: "class_conformsToProtocol ?sup other s =
      Some (\<exists>c \<in> set cs. \<exists>p \<in> set (pl_members (cls_protocols (class_heap s c))). (p, other) \<in> (adopts s)\<^sup>*)"
    using Cons.IH Cons.prems(2) by simp
  have own: "conforms_any (pl_members (cls_protocols (class_heap s c))) other s =
      Some (\<exists>p \<in> set (pl_members (cls_protocols (class_heap s c))). (p, other) \<in> (adopts s)\<^sup>*)"
    using conforms_reaches_list [OF p] Cons.prems(2) by simp
  show ?case
  proof (cases "?sup = 0")
    case True
    then have "cs = []" using c(3) by (cases cs) auto
    with own c p(2) True show ?thesis by (subst class_conformsToProtocol.simps) auto
  next
    case False
    with own rest c p(2) show ?thesis by (subst class_conformsToProtocol.simps) auto
  qed
qed

text \<open>Adopting a protocol adds a pair to the relation, as long as there is room; the fifth runs over the list.\<close>

definition pl_ok :: "objc_protocol_list option \<Rightarrow> bool" where
  "pl_ok l \<longleftrightarrow> (case l of None \<Rightarrow> True | Some l \<Rightarrow> length (pl_list l) = 4 \<and> pl_count l \<le> 4)"

lemma addProtocol_adopts:
  assumes "proto \<noteq> 0" "addition \<noteq> 0" "pl_ok (pt_protocols (proto_heap s proto))" "crt_memory s = p # ps" "p \<noteq> 0"
  shows "if length (pl_members (pt_protocols (proto_heap s proto))) < 4
    then \<exists>s'. protocol_addProtocol proto addition s = Some s' \<and> adopts s' = insert (proto, addition) (adopts s) \<and>
      pl_ok (pt_protocols (proto_heap s' proto))
    else protocol_addProtocol proto addition s = None"
proof (cases "pt_protocols (proto_heap s proto)")
  case None
  let ?l = "\<lparr>pl_count = 1, pl_list = [addition, 0, 0, 0]\<rparr>"
  let ?s = "upd_proto proto (\<lambda>p. p\<lparr>pt_protocols := Some ?l\<rparr>) (s\<lparr>crt_memory := ps\<rparr>)"
  have "protocol_addProtocol proto addition s = Some ?s"
    using assms None by (simp add: protocol_addProtocol_def pl_push_def crt_alloc_Cons nonnull_def numeral_eq_Suc)
  moreover have "adopts ?s = insert (proto, addition) (adopts s)"
    using None by (auto simp: adopts_def upd_proto_def pl_members_def split: if_splits)
  ultimately show ?thesis using None by (simp add: pl_members_def pl_ok_def upd_proto_def)
next
  case (Some l)
  then have l: "length (pl_list l) = 4" "pl_count l \<le> 4" using assms(3) by (simp_all add: pl_ok_def)
  then have n: "length (pl_members (pt_protocols (proto_heap s proto))) = pl_count l" using Some by (simp add: pl_members_def)
  show ?thesis
  proof (cases "pl_count l < 4")
    case True
    let ?l = "l\<lparr>pl_list := (pl_list l)[pl_count l := addition], pl_count := pl_count l + 1\<rparr>"
    let ?s = "upd_proto proto (\<lambda>p. p\<lparr>pt_protocols := Some ?l\<rparr>) s"
    have "protocol_addProtocol proto addition s = Some ?s"
      using assms(1,2) Some True l by (simp add: protocol_addProtocol_def pl_push_def)
    moreover have "set (pl_members (Some ?l)) = insert addition (set (pl_members (Some l)))"
      using True l by (simp add: pl_members_def take_Suc_conv_app_nth)
    then have "adopts ?s = insert (proto, addition) (adopts s)"
      using Some by (auto simp: adopts_def upd_proto_def split: if_splits)
    ultimately show ?thesis using n True l by (simp add: pl_ok_def upd_proto_def)
  next
    case False
    then show ?thesis using assms(1,2) Some l n by (simp add: protocol_addProtocol_def pl_push_def)
  qed
qed

end
