(* ===== verification/Objc_Props.thy ===== *)
theory Objc_Props
  imports Objc_Counts Objc_Layout
begin

text \<open>
  The properties of the Objective-C runtime.  Their witnesses start from the state \<open>crt0\<close>: the runtime is
  ready, the tables are empty, and the host will give the addresses \<open>mem\<close>.
\<close>

definition crt0 :: "nat list \<Rightarrow> objcrt" where
  "crt0 mem =
     \<lparr>runtime_ready = True, class_hash = replicate CLASS_HASH_SIZE 0, sel_hash = replicate SEL_HASH_SIZE 0,
      protocol_hash = replicate PROTOCOL_HASH_SIZE 0, sel_count = 0, class_count = 0,
      autorelease_pool = replicate (nat AUTORELEASE_POOL_SIZE) 0, autorelease_pool_top = 0,
      rc_table = replicate RC_HASH_SIZE (0, 0), exception_handler = 0,
      sel_heap = (\<lambda>_. \<lparr>sel_name = [], sel_types = None, sel_uid = 0\<rparr>), class_heap = (\<lambda>_. zero_class),
      mlist_heap = (\<lambda>_. grow_list.extend (gl_new zero_method) (objc_method_list.fields 0)),
      proto_heap = (\<lambda>_. \<lparr>pt_name = [], pt_instanceMethods = None, pt_classMethods = None, pt_protocols = None,
        pt_properties = None\<rparr>),
      obj_heap = (\<lambda>_. \<lparr>ob_isa = 0, ob_size = 0\<rparr>), live_classes = [], live_objs = [], crt_memory = mem\<rparr>"

lemma crt0_sel_ok: "fresh_memory {} mem \<Longrightarrow> 0 \<notin> set mem \<Longrightarrow> sel_ok (crt0 mem)"
  by (auto simp: sel_ok_def crt0_def sel_key_def fresh_memory_def set_replicate_conv_if intro!: probe_ok_empty)

lemma crt0_class_ok: "class_ok (crt0 mem)"
  by (auto simp: class_ok_def crt0_def class_key_def intro!: probe_ok_empty)

lemma crt0_rc_ok: "rc_ok (crt0 mem)"
  by (auto simp: rc_ok_def crt0_def rc_key_def rc_once_def intro!: probe_ok_empty)

lemma crt0_sel_map: "sel_map (crt0 mem) = Map.empty"
  by (auto simp: sel_map_def crt0_def find_None_iff)

lemma crt0_rooms: "sel_room (crt0 mem) = 512" "class_room (crt0 mem) = 256" "rc_room (crt0 mem) = 1024"
  by (simp_all add: sel_room_def class_room_def rc_room_def crt0_def SEL_HASH_SIZE_def CLASS_HASH_SIZE_def RC_HASH_SIZE_def)

lemma crt0_counts: "rc_known (crt0 mem) = {}" "n \<noteq> 0 \<Longrightarrow> rc_count (crt0 mem) n = 1"
proof -
  show known: "rc_known (crt0 mem) = {}" by (auto simp: rc_known_def crt0_def)
  show "n \<noteq> 0 \<Longrightarrow> rc_count (crt0 mem) n = 1" using known by (intro rc_count_unknown) auto
qed

lemma crt0_memory: "crt_memory (crt0 mem) = mem"
  by (simp add: crt0_def)

section \<open>Selectors\<close>

text \<open>
  C28.  \<^verbatim>\<open>sel_registerName\<close> keeps a map from names to selectors.  A name that is known gives its selector
  and changes nothing.  A new name gets the next address of the host, which then is the selector of that
  name and of no other.  When the table of 512 is full, registering a new name never returns, and when the
  host has no memory it goes on with a null pointer.
\<close>

theorem sel_registerName_outcome:
  assumes "sel_ok s"
  shows "(\<forall>a. sel_map s name = Some a \<longrightarrow> sel_registerName (Some name) s = Some (a, s)) \<and>
    (sel_map s name = None \<longrightarrow>
      (if 0 < sel_room s \<and> crt_memory s \<noteq> [] \<and> hd (crt_memory s) \<noteq> 0
       then \<exists>s'. sel_registerName (Some name) s = Some (hd (crt_memory s), s') \<and> sel_ok s' \<and>
         sel_map s' = (sel_map s)(name \<mapsto> hd (crt_memory s)) \<and> sel_room s = Suc (sel_room s') \<and>
         sel_getName (hd (crt_memory s)) s' = Some name \<and> crt_memory s' = tl (crt_memory s)
       else sel_registerName (Some name) s = None))"
proof (intro conjI impI allI)
  show "sel_registerName (Some name) s = Some (a, s)" if "sel_map s name = Some a" for a
    using sel_registerName_old [OF assms that] .
next
  assume new: "sel_map s name = None"
  let ?p = "hd (crt_memory s)"
  show "if 0 < sel_room s \<and> crt_memory s \<noteq> [] \<and> ?p \<noteq> 0
       then \<exists>s'. sel_registerName (Some name) s = Some (?p, s') \<and> sel_ok s' \<and> sel_map s' = (sel_map s)(name \<mapsto> ?p) \<and>
         sel_room s = Suc (sel_room s') \<and> sel_getName ?p s' = Some name \<and> crt_memory s' = tl (crt_memory s)
       else sel_registerName (Some name) s = None"
  proof (cases "0 < sel_room s \<and> crt_memory s \<noteq> [] \<and> ?p \<noteq> 0")
    case True
    then have p: "crt_memory s = ?p # tl (crt_memory s)" "?p \<noteq> 0" by auto
    let ?x = "\<lparr>sel_name = name, sel_types = None, sel_uid = sel_count s\<rparr>"
    from True have "0 < sel_room s" by simp
    from sel_registerName_new [OF assms new this p] obtain i where
      i: "sel_registerName (Some name) s = Some (?p, s\<lparr>sel_hash := (sel_hash s)[i := ?p], sel_count := sel_count s + 1,
            sel_heap := (sel_heap s)(?p := ?x), crt_memory := tl (crt_memory s)\<rparr>)"
        "probe (\<lambda>a. a = 0) (sel_hash s) (name_place SEL_HASH_SIZE name) = Some i" by blast
    define s' where "s' = s\<lparr>sel_hash := (sel_hash s)[i := ?p], sel_count := sel_count s + 1,
            sel_heap := (sel_heap s)(?p := ?x), crt_memory := tl (crt_memory s)\<rparr>"
    have "sel_ok s' \<and> sel_map s' = (sel_map s)(name \<mapsto> ?p) \<and> sel_room s = Suc (sel_room s')"
      by (rule sel_ok_enter [OF assms new p i(2), of _ ?x]) (simp_all add: s'_def)
    moreover have "sel_getName ?p s' = Some name" "crt_memory s' = tl (crt_memory s)"
      using p(2) by (simp_all add: s'_def sel_getName_def)
    ultimately show ?thesis unfolding if_P [OF True] using i(1) [folded s'_def] by blast
  next
    case False
    have "sel_registerName (Some name) s = None"
    proof (cases "sel_room s = 0")
      case True
      then show ?thesis using sel_registerName_full [OF assms new] by blast
    next
      case no: False
      then have "\<forall>p ps. crt_memory s = p # ps \<longrightarrow> p = 0" using False by auto
      then show ?thesis using sel_registerName_refused [OF assms new] by blast
    qed
    with False show ?thesis by simp
  qed
qed

theorem sel_registerName_outcome_witness:
  "\<exists>s1 s2. sel_registerName (Some ''init'') (crt0 [16, 32]) = Some (16, s1) \<and>
     sel_registerName (Some ''dealloc'') s1 = Some (32, s2) \<and>
     sel_registerName (Some ''init'') s2 = Some (16, s2) \<and> sel_registerName (Some ''copy'') s2 = None"
proof -
  have "sel_ok (crt0 [16, 32])" by (rule crt0_sel_ok) (simp_all add: fresh_memory_def)
  from sel_registerName_outcome [OF this, of "''init''"] obtain s1 where
    s1: "sel_registerName (Some ''init'') (crt0 [16, 32]) = Some (16, s1)" "sel_ok s1"
      "sel_map s1 = [''init'' \<mapsto> 16]" "sel_room s1 = 511" "crt_memory s1 = [32]"
    by (auto simp: crt0_sel_map crt0_rooms crt0_memory)
  from sel_registerName_outcome [OF s1(2), of "''dealloc''"] s1(3-5) obtain s2 where
    s2: "sel_registerName (Some ''dealloc'') s1 = Some (32, s2)" "sel_ok s2"
      "sel_map s2 = [''init'' \<mapsto> 16, ''dealloc'' \<mapsto> 32]" "crt_memory s2 = []" by auto
  from sel_registerName_outcome [OF s2(2), of "''init''"] sel_registerName_outcome [OF s2(2), of "''copy''"] s2(3,4)
  have "sel_registerName (Some ''init'') s2 = Some (16, s2)" "sel_registerName (Some ''copy'') s2 = None" by auto
  with s1(1) s2(1) show ?thesis by blast
qed

section \<open>Classes\<close>

text \<open>
  C29.  \<^verbatim>\<open>objc_registerClassPair\<close> enters a class and its metaclass, which has the same name, so each pair
  takes two of the 256 places: with fewer than two left it never returns.  Otherwise
  \<^verbatim>\<open>objc_lookUpClass\<close> finds the new class under its name, or still the one that had the name before, and
  every other name as before.  A name that no class has gives null as long as a place is left; with none
  left the lookup never returns.
\<close>

theorem class_table_outcome:
  assumes "class_ok s" "cls \<noteq> 0" "isa (class_heap s cls) \<noteq> 0"
    and "cls_name (class_heap s (isa (class_heap s cls))) = cls_name (class_heap s cls)"
  shows "(class_room s < 2 \<longrightarrow> objc_registerClassPair cls s = None) \<and>
    (2 \<le> class_room s \<longrightarrow>
      (\<exists>s'. objc_registerClassPair cls s = Some s' \<and> class_ok s' \<and> class_room s = class_room s' + 2 \<and>
        (\<forall>n. objc_lookUpClass (Some n) s' =
          (if n \<in> class_names s then objc_lookUpClass (Some n) s
           else if n = cls_name (class_heap s cls) then Some cls
           else if class_room s' = 0 then None else Some 0))))"
proof (intro conjI impI)
  show "objc_registerClassPair cls s = None" if "class_room s < 2"
    using registerClassPair_no_room [OF assms(1,2) refl assms(3) refl assms(4) that] .
next
  assume "2 \<le> class_room s"
  from registerClassPair_room [OF assms(1,2) refl assms(3) refl assms(4) this] obtain s' where
    s': "objc_registerClassPair cls s = Some s'" "class_ok s'" "class_room s = class_room s' + 2"
      "class_names s' = insert (cls_name (class_heap s cls)) (class_names s)"
      "\<forall>n \<in> class_names s'. objc_lookUpClass (Some n) s' =
        (if n \<in> class_names s then objc_lookUpClass (Some n) s else Some cls)" by blast
  have "objc_lookUpClass (Some n) s' =
          (if n \<in> class_names s then objc_lookUpClass (Some n) s
           else if n = cls_name (class_heap s cls) then Some cls
           else if class_room s' = 0 then None else Some 0)" for n
    using s'(4,5) class_lookup_free [OF s'(2), of n] by (cases "n \<in> class_names s'") auto
  with s'(1-3) show "\<exists>s'. objc_registerClassPair cls s = Some s' \<and> class_ok s' \<and> class_room s = class_room s' + 2 \<and>
        (\<forall>n. objc_lookUpClass (Some n) s' =
          (if n \<in> class_names s then objc_lookUpClass (Some n) s
           else if n = cls_name (class_heap s cls) then Some cls
           else if class_room s' = 0 then None else Some 0))" by blast
qed

text \<open>Two pairs of the same name: the first stays the one that is found.\<close>

definition named_pairs :: objcrt where
  "named_pairs = upd_class 16 (\<lambda>c. c\<lparr>cls_name := ''A'', isa := 32\<rparr>) (upd_class 32 (\<lambda>c. c\<lparr>cls_name := ''A''\<rparr>)
     (upd_class 48 (\<lambda>c. c\<lparr>cls_name := ''B'', isa := 64\<rparr>) (upd_class 64 (\<lambda>c. c\<lparr>cls_name := ''B''\<rparr>) (crt0 []))))"

theorem class_table_outcome_witness:
  "\<exists>s'. objc_registerClassPair 16 named_pairs = Some s' \<and> objc_lookUpClass (Some ''A'') s' = Some 16 \<and>
     objc_lookUpClass (Some ''B'') s' = Some 0 \<and> class_room s' = 254"
proof -
  have tab: "class_hash named_pairs = replicate CLASS_HASH_SIZE 0" "runtime_ready named_pairs"
    by (simp_all add: named_pairs_def) (simp_all add: crt0_def)
  have ok: "class_ok named_pairs"
    by (auto simp: class_ok_def tab class_key_def intro!: probe_ok_empty)
  have room: "class_room named_pairs = 256" by (simp add: class_room_def tab CLASS_HASH_SIZE_def)
  have names: "class_names named_pairs = {}" by (auto simp: class_names_def tab)
  have cl: "isa (class_heap named_pairs 16) = 32" "cls_name (class_heap named_pairs 16) = ''A''"
    "cls_name (class_heap named_pairs 32) = ''A''"
    by (simp_all add: named_pairs_def upd_class_def)
  from class_table_outcome [OF ok, of 16] show ?thesis by (auto simp: cl room names)
qed

text \<open>A class, a subclass and an instance of it (at 112); the class has a method \<^verbatim>\<open>draw\<close> (selector 64), and
  there is a selector \<^verbatim>\<open>area\<close> (96).\<close>

definition two_classes :: objcrt where
  "two_classes = (crt0 [80])\<lparr>
     sel_heap := (\<lambda>_. \<lparr>sel_name = [], sel_types = None, sel_uid = 0\<rparr>)
       (64 := \<lparr>sel_name = ''draw'', sel_types = None, sel_uid = 0\<rparr>, 96 := \<lparr>sel_name = ''area'', sel_types = None, sel_uid = 1\<rparr>),
     class_heap := (\<lambda>_. zero_class)
       (16 := zero_class\<lparr>cls_name := ''Shape'', methodLists := 48\<rparr>, 32 := zero_class\<lparr>cls_name := ''Circle'', superclass := 16\<rparr>),
     mlist_heap := (\<lambda>_. grow_list.extend (gl_new zero_method) (objc_method_list.fields 0))
       (48 := grow_list.extend \<lparr>gl_count = 1, gl_space = 3,
          gl_items = \<lparr>mt_name = 64, mt_types = None, mt_imp = User_imp 1\<rparr> # replicate 3 zero_method\<rparr> (objc_method_list.fields 0)),
     obj_heap := (\<lambda>_. \<lparr>ob_isa = 0, ob_size = 0\<rparr>)(112 := \<lparr>ob_isa = 32, ob_size = 8\<rparr>), live_objs := [112]\<rparr>"

definition two_lists :: "nat \<Rightarrow> nat list" where
  "two_lists c = (if c = 16 then [48] else [])"

lemma two_hierarchy:
  "hierarchy two_classes 32 [32, 16] two_lists" "hierarchy two_classes 16 [16] two_lists"
  by (simp_all add: hierarchy_def two_classes_def two_lists_def zero_class_def gl_ok_def grow_list.extend_def
    objc_method_list.fields_def)

lemma two_methods:
  "class_getInstanceMethod 32 64 two_classes = Some (Some (48, 0))"
  "class_getInstanceMethod 16 64 two_classes = Some (Some (48, 0))"
  "class_getInstanceMethod 32 96 two_classes = Some None"
  "method_at (48, 0) two_classes = \<lparr>mt_name = 64, mt_types = None, mt_imp = User_imp 1\<rparr>"
  "visible two_classes [32, 16] two_lists = [(48, 0)]"
  by (simp_all add: getInstanceMethod_visible [OF two_hierarchy(1)] getInstanceMethod_visible [OF two_hierarchy(2)]
    visible_def two_lists_def list_methods_def)
    (simp_all add: two_classes_def matches_def method_at_def sel_matches_def grow_list.extend_def objc_method_list.fields_def)

section \<open>Methods\<close>

text \<open>
  C30.  \<^verbatim>\<open>class_addMethod\<close> refuses a method that the class or any of its superclasses has: a subclass cannot
  override what it inherits.  Otherwise, unless a new list is needed and the host has no memory, the new
  method is what \<^verbatim>\<open>class_getInstanceMethod\<close> finds for its selector, and every other selector finds what it
  found before.
\<close>

theorem class_addMethod_outcome:
  assumes h: "hierarchy s cls cs ll" and args: "cls \<noteq> 0" "name \<noteq> 0" "imp \<noteq> No_imp"
    and mem: "crt_memory s \<noteq> []" "\<forall>c \<in> set cs. hd (crt_memory s) \<notin> set (ll c)"
  shows "(class_getInstanceMethod cls name s \<noteq> Some None \<longrightarrow> class_addMethod cls name imp types s = Some (False, s)) \<and>
    (class_getInstanceMethod cls name s = Some None \<longrightarrow>
      class_addMethod cls name imp types s = None \<and> hd (crt_memory s) = 0 \<or>
      (\<exists>s' ll' m. class_addMethod cls name imp types s = Some (True, s') \<and> hierarchy s' cls cs ll' \<and>
        class_getInstanceMethod cls name s' = Some (Some m) \<and>
        method_at m s' = \<lparr>mt_name = name, mt_types = types, mt_imp = imp\<rparr> \<and>
        (\<forall>nm. nm \<noteq> 0 \<longrightarrow> \<not> sel_matches name nm s \<longrightarrow> class_getInstanceMethod cls nm s' = class_getInstanceMethod cls nm s)))"
proof (intro conjI impI)
  show "class_addMethod cls name imp types s = Some (False, s)" if "class_getInstanceMethod cls name s \<noteq> Some None"
    using that getInstanceMethod_visible [OF h args(2)] addMethod_existing [OF h args(2)] by simp
next
  assume "class_getInstanceMethod cls name s = Some None"
  then have none: "find (matches s name) (visible s cs ll) = None" using getInstanceMethod_visible [OF h args(2)] by simp
  let ?x = "\<lparr>mt_name = name, mt_types = types, mt_imp = imp\<rparr>" and ?l = "methodLists (class_heap s cls)"
  show "class_addMethod cls name imp types s = None \<and> hd (crt_memory s) = 0 \<or>
      (\<exists>s' ll' m. class_addMethod cls name imp types s = Some (True, s') \<and> hierarchy s' cls cs ll' \<and>
        class_getInstanceMethod cls name s' = Some (Some m) \<and> method_at m s' = ?x \<and>
        (\<forall>nm. nm \<noteq> 0 \<longrightarrow> \<not> sel_matches name nm s \<longrightarrow> class_getInstanceMethod cls nm s' = class_getInstanceMethod cls nm s))"
  proof (cases "?l \<noteq> 0 \<and> 0 < gl_space (mlist_heap s ?l)")
    case True
    then have l: "?l \<noteq> 0" "0 < gl_space (mlist_heap s ?l)" by simp_all
    have "find (matches s (mt_name ?x)) (visible s cs ll) = None" using none by simp
    from pushed_outcome [OF h args(1) refl l _ this] addMethod_head [OF h args none refl l] args(2) show ?thesis
      by fastforce
  next
    case False
    then have l: "?l = 0 \<or> gl_space (mlist_heap s ?l) \<le> 0" by linarith
    show ?thesis
    proof (cases "hd (crt_memory s) = 0")
      case True
      then have "fst (crt_alloc s) = 0" using mem(1) by (cases "crt_memory s") (simp_all add: crt_alloc_def)
      from addMethod_refused [OF h args none l this] True show ?thesis by simp
    next
      case p: False
      have m: "crt_memory s = hd (crt_memory s) # tl (crt_memory s)" using mem(1) by simp
      from addMethod_new_outcome [OF h args none l m p mem(2)] show ?thesis by blast
    qed
  qed
qed

theorem class_addMethod_outcome_witness:
  "class_addMethod 32 64 (User_imp 2) None two_classes = Some (False, two_classes) \<and>
   (\<exists>s' m. class_addMethod 32 96 (User_imp 2) None two_classes = Some (True, s') \<and>
      class_getInstanceMethod 32 96 s' = Some (Some m) \<and> mt_imp (method_at m s') = User_imp 2 \<and>
      class_getInstanceMethod 32 64 s' = Some (Some (48, 0)))"
proof -
  have mem: "crt_memory two_classes \<noteq> []" "\<forall>c \<in> set [32, 16]. hd (crt_memory two_classes) \<notin> set (two_lists c)"
    "hd (crt_memory two_classes) \<noteq> 0"
    by (simp_all add: two_classes_def crt0_def two_lists_def)
  have args: "(32 :: nat) \<noteq> 0" "(64 :: nat) \<noteq> 0" "(96 :: nat) \<noteq> 0" "User_imp 2 \<noteq> No_imp" by simp_all
  have sm: "\<not> sel_matches 96 64 two_classes" by (simp add: sel_matches_def two_classes_def)
  have no: "class_addMethod 32 64 (User_imp 2) None two_classes = Some (False, two_classes)"
    using class_addMethod_outcome [OF two_hierarchy(1) args(1,2,4) mem(1,2), THEN conjunct1, rule_format] two_methods(1) by simp
  from class_addMethod_outcome [OF two_hierarchy(1) args(1,3,4) mem(1,2), THEN conjunct2, rule_format, OF two_methods(3), of None]
    mem(3) obtain s' m where s':
    "class_addMethod 32 96 (User_imp 2) None two_classes = Some (True, s')" "class_getInstanceMethod 32 96 s' = Some (Some m)"
    "method_at m s' = \<lparr>mt_name = 96, mt_types = None, mt_imp = User_imp 2\<rparr>"
    "\<forall>nm. nm \<noteq> 0 \<longrightarrow> \<not> sel_matches 96 nm two_classes \<longrightarrow>
      class_getInstanceMethod 32 nm s' = class_getInstanceMethod 32 nm two_classes" by blast
  have "class_getInstanceMethod 32 64 s' = Some (Some (48, 0))"
    using s'(4) [rule_format, OF args(2) sm] two_methods(1) by simp
  with no s'(1-3) show ?thesis by (cases m) simp
qed

text \<open>
  C31.  Progress of messages: sent to an object whose class and superclasses all have implementations, a
  message that the class responds to runs the method that \<^verbatim>\<open>class_getInstanceMethod\<close> finds; one that it does
  not respond to ends the process, whatever other methods the class has.  The reference manual of the compiler
  says that the \<^verbatim>\<open>forwardInvocation:\<close> handler is invoked then; the runtime never looks for one.
  A message to the null pointer does nothing.
\<close>

theorem objc_message_dispatch:
  assumes h: "hierarchy s cls cs ll" and imps: "\<forall>m \<in> set (visible s cs ll). mt_imp (method_at m s) \<noteq> No_imp"
    and obj: "isa_of self s = Some cls" "cls \<noteq> 0" "self \<noteq> 0" and sel: "sel \<noteq> 0"
  shows "objc_msgSend user 0 sel s = Some (0, s) \<and>
    (class_respondsToSelector cls sel s = Some False \<and> objc_msgSend user self sel s = None \<or>
     class_respondsToSelector cls sel s = Some True \<and>
       (\<exists>m. class_getInstanceMethod cls sel s = Some (Some m) \<and> mt_imp (method_at m s) \<noteq> No_imp \<and>
         objc_msgSend user self sel s = call_imp user (mt_imp (method_at m s)) self sel s))"
proof -
  have "objc_msgSend user 0 sel s = Some (0, s)" by (subst objc_msgSend.simps) simp
  moreover have "class_respondsToSelector cls sel s = map_option (\<lambda>m. m \<noteq> None) (class_getInstanceMethod cls sel s)"
    using obj(2) sel by (simp add: class_respondsToSelector_def)
  ultimately show ?thesis using message_outcome [OF assms, of user] by auto
qed

theorem objc_message_dispatch_witness:
  "objc_msgSend (\<lambda>f self sel s. Some (f, s)) 112 64 two_classes = Some (1, two_classes) \<and>
   objc_msgSend (\<lambda>f self sel s. Some (f, s)) 112 96 two_classes = None"
proof -
  have imps: "\<forall>m \<in> set (visible two_classes [32, 16] two_lists). mt_imp (method_at m two_classes) \<noteq> No_imp"
    by (simp add: two_methods)
  have isa: "isa_of 112 two_classes = Some 32" by (simp add: isa_of_def two_classes_def)
  from objc_message_dispatch [OF two_hierarchy(1) imps isa, of 64 "\<lambda>f self sel s. Some (f, s)"]
    objc_message_dispatch [OF two_hierarchy(1) imps isa, of 96 "\<lambda>f self sel s. Some (f, s)"]
  show ?thesis by (auto simp: two_methods call_imp_def class_respondsToSelector_def)
qed

text \<open>
  C32.  \<^verbatim>\<open>class_replaceMethod\<close> on a method that is found writes to that method where it is, in the class or in a
  superclass: every class finds the same methods as before, all others are unchanged, and every class that
  finds this one, the superclass and its other subclasses too, now runs the new implementation.
\<close>

theorem class_replaceMethod_reaches_ancestors:
  assumes h: "hierarchy s cls cs ll" and args: "cls \<noteq> 0" "name \<noteq> 0" "imp \<noteq> No_imp"
    and found: "class_getInstanceMethod cls name s = Some (Some m)"
    and other: "hierarchy s c ds kk"
  shows "\<exists>s'. class_replaceMethod cls name imp types s = Some s' \<and>
    (\<forall>nm. nm \<noteq> 0 \<longrightarrow> class_getInstanceMethod c nm s' = class_getInstanceMethod c nm s) \<and>
    mt_imp (method_at m s') = imp \<and> (\<forall>m'. m' \<noteq> m \<longrightarrow> method_at m' s' = method_at m' s)"
proof -
  let ?f = "\<lambda>x. x\<lparr>mt_imp := imp, mt_types := (if types = None then mt_types x else types)\<rparr>"
  have repl: "class_replaceMethod cls name imp types s = Some (upd_method m ?f s)"
    using args found by (simp add: class_replaceMethod_def)
  have "find (matches s name) (visible s cs ll) = Some m"
    using found getInstanceMethod_visible [OF h args(2)] by simp
  then have "m \<in> set (visible s cs ll)" unfolding find_Some_iff by (metis nth_mem)
  from visible_in_range [OF h this] have "mt_imp (method_at m (upd_method m ?f s)) = imp"
    by (simp add: method_at_def upd_method_def)
  moreover have "method_at m' (upd_method m ?f s) = method_at m' s" if "m' \<noteq> m" for m'
    using that by (cases m; cases m') (auto simp: method_at_def upd_method_def)
  moreover have "class_getInstanceMethod c nm (upd_method m ?f s) = class_getInstanceMethod c nm s" if "nm \<noteq> 0" for nm
    using upd_method_finds [OF other that, of ?f m] by simp
  ultimately show ?thesis using repl by blast
qed

theorem class_replaceMethod_reaches_ancestors_witness:
  "\<exists>s'. class_replaceMethod 32 64 (User_imp 2) None two_classes = Some s' \<and>
     class_getInstanceMethod 16 64 s' = Some (Some (48, 0)) \<and> mt_imp (method_at (48, 0) s') = User_imp 2"
proof -
  have args: "(32 :: nat) \<noteq> 0" "(64 :: nat) \<noteq> 0" "User_imp 2 \<noteq> No_imp" by simp_all
  from class_replaceMethod_reaches_ancestors [OF two_hierarchy(1) args two_methods(1) two_hierarchy(2), of None] obtain s' where
    "class_replaceMethod 32 64 (User_imp 2) None two_classes = Some s'"
    "class_getInstanceMethod 16 64 s' = class_getInstanceMethod 16 64 two_classes" "mt_imp (method_at (48, 0) s') = User_imp 2"
    using args(2) by blast
  then show ?thesis by (simp add: two_methods)
qed

section \<open>Reference counts\<close>

text \<open>
  C33.  Any sequence of \<^verbatim>\<open>objc_retain\<close> and \<^verbatim>\<open>objc_release\<close> in which no object loses its last reference, over
  objects that fit into the table of 1024, does what a counter for each object does, an object not seen
  before starting at 1; \<^verbatim>\<open>objc_retainCount\<close> then says the counter.
\<close>

theorem rc_counts_as_map:
  assumes "rc_ok s" "count_run ops (rc_count s) = Some c" "\<forall>x \<in> set ops. op_obj x \<noteq> 0"
    and "card (op_obj ` set ops - rc_known s) \<le> rc_room s" "obj \<noteq> 0"
  shows "\<exists>s'. rc_run user ops s = Some s' \<and> rc_count s' = c \<and> rc_ok s' \<and> rc_known s' = op_obj ` set ops \<union> rc_known s \<and>
    (obj \<in> rc_known s' \<or> 0 < rc_room s' \<longrightarrow> map_option fst (objc_retainCount obj s') = Some (c obj)) \<and>
    (obj \<notin> rc_known s' \<and> rc_room s' = 0 \<longrightarrow> objc_retain obj s' = None \<and> objc_release user obj s' = None)"
proof -
  from rc_run_counts [OF assms(1-4), of user] obtain t where
    t: "rc_run user ops s = Some (s\<lparr>rc_table := t\<rparr>)" "rc_ok (s\<lparr>rc_table := t\<rparr>)" "rc_count (s\<lparr>rc_table := t\<rparr>) = c"
      "rc_known (s\<lparr>rc_table := t\<rparr>) = op_obj ` set ops \<union> rc_known s" by blast
  let ?s = "s\<lparr>rc_table := t\<rparr>"
  have "map_option fst (objc_retainCount obj ?s) = Some (c obj)" if "obj \<in> rc_known ?s \<or> 0 < rc_room ?s"
    using retainCount_ok [OF t(2) assms(5) that] t(3) by simp
  moreover have "obj \<notin> rc_known ?s \<and> rc_room ?s = 0 \<longrightarrow> objc_retain obj ?s = None \<and> objc_release user obj ?s = None"
    using rc_find_full [OF t(2) assms(5)] assms(5) by (simp add: objc_retain_def objc_release_def)
  ultimately show ?thesis using t by (intro exI [of _ ?s]) simp
qed

theorem rc_counts_as_map_witness:
  "\<exists>s'. rc_run (\<lambda>_ _ _ s. Some (0, s)) [Retain 16, Retain 16, Retain 1040, Release 16] (crt0 []) = Some s' \<and>
     map_option fst (objc_retainCount 16 s') = Some 2 \<and> rc_count s' 1040 = 2"
proof -
  let ?ops = "[Retain 16, Retain 16, Retain 1040, Release 16]"
  have "\<exists>c. count_run ?ops (rc_count (crt0 [])) = Some c \<and> c 16 = 2 \<and> c 1040 = 2"
    by (simp add: crt0_counts word_le_1)
  then obtain c where c: "count_run ?ops (rc_count (crt0 [])) = Some c" "c 16 = 2" "c 1040 = 2" by blast
  have "op_obj ` set ?ops = {16, 1040}" by auto
  then have "card (op_obj ` set ?ops - rc_known (crt0 [])) \<le> rc_room (crt0 [])" by (simp add: crt0_rooms crt0_counts)
  from rc_counts_as_map [OF crt0_rc_ok c(1) _ this, of 16 "\<lambda>_ _ _ s. Some (0, s)"] c(2,3)
  show ?thesis by auto
qed

text \<open>
  C34.  The release of an object whose count is 1, or 0 already, sends it \<^verbatim>\<open>dealloc\<close>: when neither its class nor
  a superclass has such a method (the root class of the runtime has none) the process ends there, and
  otherwise the method runs in a state where the count is zero and the table still has the entry, so that
  an object allocated later at this address starts with zero references.
\<close>

theorem release_last_sends_dealloc:
  assumes rc: "rc_ok s" "obj \<noteq> 0" "obj \<in> rc_known s \<or> 0 < rc_room s" "rc_count s obj \<le> 1"
    and sel: "sel_ok s" "sel_map s ''dealloc'' = Some d"
    and cls: "isa_of obj s = Some cls" "cls \<noteq> 0" "hierarchy s cls cs ll"
      "\<forall>m \<in> set (visible s cs ll). mt_imp (method_at m s) \<noteq> No_imp"
  shows "class_getInstanceMethod cls d s = Some None \<and> objc_release user obj s = None \<or>
    (\<exists>m s'. class_getInstanceMethod cls d s = Some (Some m) \<and> rc_count s' = (rc_count s)(obj := 0) \<and> obj \<in> rc_known s' \<and>
      objc_release user obj s = map_option snd (call_imp user (mt_imp (method_at m s)) obj d s'))"
proof -
  from release_ok [OF rc(1-3), of user] rc(4) obtain t where
    t: "rc_known (s\<lparr>rc_table := t\<rparr>) = insert obj (rc_known s)"
      "rc_count (s\<lparr>rc_table := t\<rparr>) = (rc_count s)(obj := (if rc_count s obj = 0 then 0 else rc_count s obj - 1))"
      "objc_release user obj s =
        sel_registerName (Some ''dealloc'') (s\<lparr>rc_table := t\<rparr>) \<bind> (\<lambda>(sel, s'). map_option snd (objc_msgSend user obj sel s'))"
    by auto
  let ?s = "s\<lparr>rc_table := t\<rparr>"
  have zero: "(if rc_count s obj = 0 then 0 else rc_count s obj - 1) = 0" using rc(4) by (auto simp: word_le_1)
  have same: "sel_ok ?s" "sel_map ?s = sel_map s" "isa_of obj ?s = isa_of obj s" "hierarchy ?s cls cs ll"
    using sel(1) cls(3) by (simp_all add: sel_ok_def sel_map_def fun_eq_iff isa_of_def hierarchy_def)
  have meth: "matches ?s = matches s" "list_methods ?s = list_methods s" "method_at m ?s = method_at m s" for m
    by (simp_all add: fun_eq_iff matches_def method_at_def sel_matches_def list_methods_def)
  have vis: "visible ?s cs ll = visible s cs ll" unfolding visible_def meth ..
  have d: "d \<noteq> 0" using sel by (simp add: sel_map_iff)
  have "sel_registerName (Some ''dealloc'') ?s = Some (d, ?s)"
    using sel_registerName_old [OF same(1)] sel(2) same(2) by simp
  then have rel: "objc_release user obj s = map_option snd (objc_msgSend user obj d ?s)" using t(3) by simp
  have get: "class_getInstanceMethod cls d ?s = class_getInstanceMethod cls d s"
    using getInstanceMethod_visible [OF same(4) d] getInstanceMethod_visible [OF cls(3) d] by (simp add: meth vis)
  have "\<forall>m \<in> set (visible ?s cs ll). mt_imp (method_at m ?s) \<noteq> No_imp" using cls(4) by (simp add: meth vis)
  from message_outcome [OF same(4) this _ cls(2) rc(2) d, of user] same(3) cls(1)
  consider "class_getInstanceMethod cls d s = Some None" "objc_msgSend user obj d ?s = None"
    | m where "class_getInstanceMethod cls d s = Some (Some m)"
      "objc_msgSend user obj d ?s = call_imp user (mt_imp (method_at m s)) obj d ?s"
    by (auto simp: get meth)
  then show ?thesis
  proof cases
    case 1
    then show ?thesis using rel by simp
  next
    case (2 m)
    then have "objc_release user obj s = map_option snd (call_imp user (mt_imp (method_at m s)) obj d ?s)" using rel by simp
    moreover have "rc_count ?s = (rc_count s)(obj := 0)" "obj \<in> rc_known ?s" using t(1,2) unfolding zero by simp_all
    ultimately show ?thesis using 2(1) by blast
  qed
qed

text \<open>The instance of \<open>two_classes\<close> has no \<^verbatim>\<open>dealloc\<close>.\<close>

definition dealloc_state :: objcrt where
  "dealloc_state = two_classes\<lparr>sel_hash := (replicate SEL_HASH_SIZE 0)[name_place SEL_HASH_SIZE ''dealloc'' := 80],
     sel_heap := (sel_heap two_classes)(80 := \<lparr>sel_name = ''dealloc'', sel_types = None, sel_uid = 2\<rparr>), crt_memory := []\<rparr>"

theorem release_last_sends_dealloc_witness:
  "class_getInstanceMethod 32 80 dealloc_state = Some None \<and> objc_release (\<lambda>_ _ _ s. Some (0, s)) 112 dealloc_state = None"
proof -
  have z: "sel_hash two_classes = replicate SEL_HASH_SIZE 0" "rc_table two_classes = rc_table (crt0 [])"
    "crt_memory two_classes = [80]"
    by (simp_all add: two_classes_def) (simp_all add: crt0_def)
  have ok0: "sel_ok two_classes"
    by (auto simp: sel_ok_def z sel_key_def fresh_memory_def set_replicate_conv_if intro!: probe_ok_empty)
  have none: "sel_map two_classes ''dealloc'' = None" by (auto simp: sel_map_def z find_None_iff)
  let ?i = "name_place SEL_HASH_SIZE ''dealloc''"
  have i: "?i < SEL_HASH_SIZE" by (simp add: name_place_def SEL_HASH_SIZE_def)
  then have "probe (\<lambda>a. a = 0) (sel_hash two_classes) ?i = Some ?i"
    using probe_found [of ?i "sel_hash two_classes" "\<lambda>a. a = 0" 0] by (simp add: z)
  from sel_ok_enter [OF ok0 none z(3) _ this, of dealloc_state "\<lparr>sel_name = ''dealloc'', sel_types = None, sel_uid = 2\<rparr>"]
  have sel: "sel_ok dealloc_state" "sel_map dealloc_state ''dealloc'' = Some 80"
    by (simp_all add: dealloc_state_def z)
  have "rc_table dealloc_state = rc_table (crt0 [])" by (simp add: dealloc_state_def z(2))
  from rc_same [OF this] have rc: "rc_ok dealloc_state" "rc_room dealloc_state = 1024" "rc_count dealloc_state 112 = 1"
    by (simp_all add: crt0_rc_ok crt0_rooms crt0_counts)
  have h: "hierarchy dealloc_state 32 [32, 16] two_lists"
    using two_hierarchy(1) by (simp add: hierarchy_def dealloc_state_def)
  have vis: "visible dealloc_state [32, 16] two_lists = [(48, 0)]"
    "method_at (48, 0) dealloc_state = method_at (48, 0) two_classes"
    using two_methods(5) by (simp_all add: visible_def list_methods_def two_lists_def dealloc_state_def method_at_def)
  have imps: "\<forall>m \<in> set (visible dealloc_state [32, 16] two_lists). mt_imp (method_at m dealloc_state) \<noteq> No_imp"
    by (simp add: vis two_methods)
  have isa: "isa_of 112 dealloc_state = Some 32" by (simp add: isa_of_def dealloc_state_def two_classes_def)
  have no: "class_getInstanceMethod 32 80 dealloc_state = Some None"
    using getInstanceMethod_visible [OF h, of 80]
    by (simp add: vis matches_def two_methods sel_matches_def) (simp add: dealloc_state_def two_classes_def)
  from release_last_sends_dealloc [OF rc(1) _ _ _ sel isa _ h imps, of "\<lambda>_ _ _ s. Some (0, s)"] no rc(2,3)
  show ?thesis by simp
qed

text \<open>
  Popping a pool that was pushed before releases exactly the objects autoreleased since, the last first,
  and leaves the outer pools as they were, as long as none of these is an object's last reference.  Objects
  beyond the 4096 that the pool can hold are never released.
\<close>

theorem autorelease_pool_drains:
  assumes "pool_ok s" "rc_ok s" "0 \<notin> set objs" "held = take (nat (AUTORELEASE_POOL_SIZE - autorelease_pool_top s)) objs"
    and "count_run (map Release (rev held)) (rc_count s) = Some c" "card (set held - rc_known s) \<le> rc_room s"
  shows "\<exists>s'. autorelease_all objs s \<bind> objc_autoreleasePoolPop user (objc_autoreleasePoolPush s) = Some s' \<and>
    rc_ok s' \<and> rc_count s' = c \<and> pool_objs s' = pool_objs s"
  using autorelease_then_pop [OF assms] .

theorem autorelease_pool_drains_witness:
  "\<exists>s s' :: objcrt. rc_count s 16 = 3 \<and>
     autorelease_all [16, 32, 16] s \<bind> objc_autoreleasePoolPop (\<lambda>_ _ _ s. Some (0, s)) (objc_autoreleasePoolPush s) = Some s' \<and>
     rc_count s' 16 = 1 \<and> rc_count s' 32 = 1 \<and> pool_objs s' = []"
proof -
  let ?u = "\<lambda>(_ :: nat) (_ :: nat) (_ :: nat) s. Some (0 :: nat, s :: objcrt)" and ?ops = "[Retain 16, Retain 16, Retain 32]"
  have "count_run ?ops (rc_count (crt0 [])) = Some ((rc_count (crt0 []))(16 := 3, 32 := 2))" by (simp add: crt0_counts)
  from rc_run_counts [OF crt0_rc_ok this, of ?u] obtain t where
    t: "rc_ok ((crt0 [])\<lparr>rc_table := t\<rparr>)" "rc_count ((crt0 [])\<lparr>rc_table := t\<rparr>) = (rc_count (crt0 []))(16 := 3, 32 := 2)"
      "rc_known ((crt0 [])\<lparr>rc_table := t\<rparr>) = {16, 32}"
    by (auto simp: crt0_rooms crt0_counts)
  let ?s = "(crt0 [])\<lparr>rc_table := t\<rparr>"
  have pool: "pool_ok ?s" "autorelease_pool_top ?s = 0" by (simp_all add: pool_ok_def crt0_def AUTORELEASE_POOL_SIZE_def)
  have held: "[16, 32, 16] = take (nat (AUTORELEASE_POOL_SIZE - autorelease_pool_top ?s)) [16, 32, 16 :: nat]"
    using pool(2) by (simp add: AUTORELEASE_POOL_SIZE_def)
  have "count_run (map Release (rev [16, 32, 16])) (rc_count ?s) = Some ((rc_count ?s)(16 := 2, 32 := 1, 16 := 1))"
    unfolding t(2) by (simp add: word_le_1 fun_upd_twist)
  from autorelease_pool_drains [OF pool(1) t(1) _ held this, of ?u] obtain s' where
    "autorelease_all [16, 32, 16] ?s \<bind> objc_autoreleasePoolPop ?u (objc_autoreleasePoolPush ?s) = Some s'"
    "rc_count s' = (rc_count ?s)(16 := 2, 32 := 1, 16 := 1)" "pool_objs s' = pool_objs ?s" using t(3) by auto
  then show ?thesis using t(2) pool(2) by (intro exI [of _ ?s] exI [of _ s']) (simp add: pool_objs_def)
qed

section \<open>Instance variables\<close>

text \<open>
  C35.  Instance variables added to a new class one after the other, of any sizes and alignments below \<open>2\<^sup>3\<^sup>2\<close>
  in all, all find room in the list; they lie behind what the class had, at multiples of their
  alignment, within the new instance size and without overlap, and \<^verbatim>\<open>objc_offsetOf\<close> gives the place of each.
\<close>

theorem class_ivar_layout:
  assumes s: "ivars_ok s cls" "length vs \<le> length (crt_memory s)" "0 \<notin> set (crt_memory s)"
    and vs: "\<forall>v \<in> set vs. snd (snd v) < 64" "unat (instance_size (class_heap s cls)) + layout_bound vs < 2 ^ 32"
    and names: "distinct (map fst vs)" "\<forall>v \<in> set vs. fst v \<notin> iv_name ` set (ivars_of s cls)"
    and off: "off = (\<lambda>s' i. unat (objc_offsetOf cls (Some (fst (vs ! i))) s'))"
  shows "\<exists>s'. add_ivars cls vs s = Some s' \<and>
    (\<forall>i < length vs. unat (instance_size (class_heap s cls)) \<le> off s' i \<and> 2 ^ unat (snd (snd (vs ! i))) dvd off s' i \<and>
      off s' i + unat (fst (snd (vs ! i))) \<le> unat (instance_size (class_heap s' cls))) \<and>
    (\<forall>j < length vs. \<forall>i < j. off s' i + unat (fst (snd (vs ! i))) \<le> off s' j)"
proof -
  let ?b = "unat (instance_size (class_heap s cls))" let ?k = "length (ivars_of s cls)"
  from add_ivars_ok [OF s vs] obtain s' where
    s': "add_ivars cls vs s = Some s'" "ivars_ok s' cls" "unat (instance_size (class_heap s' cls)) = layout_end ?b vs"
      "ivars_of s' cls = ivars_of s cls @ map2 (\<lambda>v off. \<lparr>iv_name = fst v, iv_type = None, iv_offset = of_nat off\<rparr>) vs (layout ?b vs)"
    by blast
  have at: "off s' i = layout ?b vs ! i" if i: "i < length vs" for i
  proof -
    have nth: "ivars_of s' cls ! (?k + j) = \<lparr>iv_name = fst (vs ! j), iv_type = None, iv_offset = of_nat (layout ?b vs ! j)\<rparr>"
      if "j < length vs" for j using that s'(4) by (simp add: nth_append)
    have "iv_name (ivars_of s' cls ! j) \<noteq> fst (vs ! i)" if j: "j < ?k + i" for j
    proof (cases "j < ?k")
      case True
      have "iv_name (ivars_of s cls ! j) \<in> iv_name ` set (ivars_of s cls)" "vs ! i \<in> set vs" using True i by auto
      then have "iv_name (ivars_of s cls ! j) \<noteq> fst (vs ! i)" using names(2) by metis
      then show ?thesis using True s'(4) by (simp add: nth_append)
    next
      case False
      then obtain l where "j = ?k + l" "l < i" using j by (metis le_Suc_ex add_less_cancel_left not_less)
      then show ?thesis using nth [of l] names(1) i nth_eq_iff_index_eq [OF names(1), of l i] by auto
    qed
    moreover have "?k + i < length (ivars_of s' cls)" using i s'(4) by simp
    ultimately have "objc_offsetOf cls (Some (fst (vs ! i))) s' = ucast (of_nat (layout ?b vs ! i) :: uint32)"
      using offsetOf_ivar [OF s'(2), of "?k + i"] nth [OF i] by simp
    moreover have "layout ?b vs ! i < 2 ^ 32"
      using layout_places [OF i, of ?b] layout_end_le [of ?b vs] vs(2) by linarith
    ultimately show ?thesis unfolding off by (simp add: unsigned_ucast_eq unat_of_nat take_bit_eq_mod)
  qed
  show ?thesis
    using s'(1) layout_places [of _ vs ?b] layout_disjoint [of _ _ vs ?b] at unfolding s'(3) [symmetric]
    by (intro exI [of _ s']) auto
qed

theorem class_ivar_layout_witness:
  "\<exists>s s' :: objcrt. add_ivars 16 [(''a'', 1, 0), (''b'', 8, 3)] s = Some s' \<and> instance_size (class_heap s 16) = 8 \<and>
     9 \<le> unat (objc_offsetOf 16 (Some ''b'') s') \<and> 8 dvd unat (objc_offsetOf 16 (Some ''b'') s')"
proof -
  define s where "s = (crt0 [48, 64])\<lparr>class_heap := (\<lambda>_. zero_class\<lparr>instance_size := 8, cls_info := 1\<rparr>)\<rparr>"
  let ?vs = "[(''a'', 1, 0), (''b'', 8, 3)] :: (string \<times> 64 word \<times> byte) list"
  have s: "class_heap s = (\<lambda>_. zero_class\<lparr>instance_size := 8, cls_info := 1\<rparr>)" "crt_memory s = [48, 64]"
    by (simp_all add: s_def crt0_def)
  have ok: "ivars_ok s 16" "ivars_of s 16 = []"
    by (simp_all add: ivars_ok_def ivars_of_def s zero_class_def OBJC_CLASS_INFO_NIF_def)
  have "\<exists>s'. add_ivars 16 ?vs s = Some s' \<and>
    (\<forall>i < length ?vs. unat (instance_size (class_heap s 16)) \<le> unat (objc_offsetOf 16 (Some (fst (?vs ! i))) s') \<and>
      2 ^ unat (snd (snd (?vs ! i))) dvd unat (objc_offsetOf 16 (Some (fst (?vs ! i))) s') \<and>
      unat (objc_offsetOf 16 (Some (fst (?vs ! i))) s') + unat (fst (snd (?vs ! i))) \<le> unat (instance_size (class_heap s' 16))) \<and>
    (\<forall>j < length ?vs. \<forall>i < j. unat (objc_offsetOf 16 (Some (fst (?vs ! i))) s') + unat (fst (snd (?vs ! i))) \<le>
      unat (objc_offsetOf 16 (Some (fst (?vs ! j))) s'))"
    by (rule class_ivar_layout [OF ok(1) _ _ _ _ _ _ refl]) (simp_all add: s ok layout_bound_def)
  then obtain s' where s': "add_ivars 16 ?vs s = Some s'"
    "\<forall>i < length ?vs. unat (instance_size (class_heap s 16)) \<le> unat (objc_offsetOf 16 (Some (fst (?vs ! i))) s') \<and>
      2 ^ unat (snd (snd (?vs ! i))) dvd unat (objc_offsetOf 16 (Some (fst (?vs ! i))) s') \<and>
      unat (objc_offsetOf 16 (Some (fst (?vs ! i))) s') + unat (fst (snd (?vs ! i))) \<le> unat (instance_size (class_heap s' 16))"
    "\<forall>j < length ?vs. \<forall>i < j. unat (objc_offsetOf 16 (Some (fst (?vs ! i))) s') + unat (fst (snd (?vs ! i))) \<le>
      unat (objc_offsetOf 16 (Some (fst (?vs ! j))) s')" by blast
  from s'(2) [rule_format, of 0] s'(2) [rule_format, of 1] s'(3) [rule_format, of 1 0] s'(1) show ?thesis
    by (intro exI [of _ s] exI [of _ s']) (simp add: s)
qed

section \<open>Protocols\<close>

text \<open>
  C36.  Adopting a protocol adds a pair to the relation between protocols, except that the fifth of one
  protocol is written behind its list.  While the relation has no circle, the recursive searches end:
  a protocol conforms exactly to those it reaches, a class to those that a protocol of itself or of a
  superclass reaches.
\<close>

theorem protocol_conformance_is_reachability:
  assumes s: "proto \<noteq> 0" "addition \<noteq> 0" "pl_ok (pt_protocols (proto_heap s proto))" "crt_memory s \<noteq> []" "hd (crt_memory s) \<noteq> 0"
    and wf: "wf ((adopts s)\<inverse>)" "other \<noteq> 0" "\<forall>p q. (p, q) \<in> adopts s \<longrightarrow> q \<noteq> 0"
    and cs: "linked (\<lambda>c. superclass (class_heap s c)) cls cs" "\<forall>c \<in> set cs. 0 \<notin> set (pl_members (cls_protocols (class_heap s c)))"
  shows "(if length (pl_members (pt_protocols (proto_heap s proto))) < 4
      then \<exists>s'. protocol_addProtocol proto addition s = Some s' \<and> adopts s' = insert (proto, addition) (adopts s)
      else protocol_addProtocol proto addition s = None) \<and>
    protocol_conformsToProtocol proto other s = Some ((proto, other) \<in> (adopts s)\<^sup>*) \<and>
    class_conformsToProtocol cls other s =
      Some (\<exists>c \<in> set cs. \<exists>p \<in> set (pl_members (cls_protocols (class_heap s c))). (p, other) \<in> (adopts s)\<^sup>*)"
proof -
  have "crt_memory s = hd (crt_memory s) # tl (crt_memory s)" using s(4) by simp
  from addProtocol_adopts [OF s(1-3) this s(5)]
  have "if length (pl_members (pt_protocols (proto_heap s proto))) < 4
      then \<exists>s'. protocol_addProtocol proto addition s = Some s' \<and> adopts s' = insert (proto, addition) (adopts s)
      else protocol_addProtocol proto addition s = None" by (auto split: if_splits)
  moreover have "protocol_conformsToProtocol proto other s = Some ((proto, other) \<in> (adopts s)\<^sup>*)"
    using conforms_reaches [OF wf s(1)] by (simp add: protocol_conformsToProtocol_def)
  ultimately show ?thesis using class_conforms_reaches [OF wf cs] by blast
qed

text \<open>A protocol (16) that has adopted another (32), and a class (48) with it.\<close>

definition adopting :: objcrt where
  "adopting = (crt0 [64])\<lparr>
     proto_heap := (proto_heap (crt0 [64]))(16 := (proto_heap (crt0 [64]) 16)\<lparr>pt_protocols := Some \<lparr>pl_count = 1, pl_list = [32, 0, 0, 0]\<rparr>\<rparr>),
     class_heap := (\<lambda>_. zero_class\<lparr>cls_protocols := Some \<lparr>pl_count = 1, pl_list = [16, 0, 0, 0]\<rparr>\<rparr>)\<rparr>"

theorem protocol_conformance_is_reachability_witness:
  "protocol_conformsToProtocol 16 32 adopting = Some True \<and> class_conformsToProtocol 48 32 adopting = Some True \<and>
   (\<exists>s'. protocol_addProtocol 16 80 adopting = Some s' \<and> (16, 80) \<in> adopts s')"
proof -
  have ad: "adopts adopting = {(16, 32)}"
    by (auto simp: adopts_def adopting_def crt0_def pl_members_def split: if_splits)
  have mem: "crt_memory adopting = [64]" "pt_protocols (proto_heap adopting 16) = Some \<lparr>pl_count = 1, pl_list = [32, 0, 0, 0]\<rparr>"
    by (simp_all add: adopting_def crt0_def)
  have cl: "superclass (class_heap adopting c) = 0" "cls_protocols (class_heap adopting c) = Some \<lparr>pl_count = 1, pl_list = [16, 0, 0, 0]\<rparr>" for c
    by (simp_all add: adopting_def zero_class_def)
  have "(adopts adopting)\<inverse> = {(32, 16)}" by (auto simp: ad)
  then have wf: "wf ((adopts adopting)\<inverse>)" by (simp add: wf_insert)
  have "(16, 32) \<in> (adopts adopting)\<^sup>*" unfolding ad by (rule r_into_rtrancl) simp
  with protocol_conformance_is_reachability [of 16 80 adopting 32 48 "[48]"] wf show ?thesis
    by (simp add: mem cl ad pl_ok_def pl_members_def) blast
qed

end
