(* ===== verification/Rb_Tree.thy ===== *)
theory Rb_Tree
  imports Prelude
begin

text \<open>
  The red-black trees of the kernel's library, \<^verbatim>\<open>Kernel/mxwl/libkern/libkern_tree.c\<close>: nodes with pointers to
  their parent and children at addresses, 0 the null pointer.  The nodes are parts of structs of the
  callers, so the comparison is a function of two addresses.  \<open>None\<close> is a dereference of the null pointer or
  a loop that does not end.
\<close>

datatype rb_color = RB_RED | RB_BLACK

record rb_node =
  rb_parent :: nat
  rb_left :: nat
  rb_right :: nat
  rb_col :: rb_color

record rb_root =
  rb_top :: nat
  rb_mem :: "nat \<Rightarrow> rb_node"

definition upd_rb :: "nat \<Rightarrow> (rb_node \<Rightarrow> rb_node) \<Rightarrow> rb_root \<Rightarrow> rb_root" where
  "upd_rb a f t = t\<lparr>rb_mem := (rb_mem t)(a := f (rb_mem t a))\<rparr>"

definition rb_at :: "nat \<Rightarrow> rb_root \<Rightarrow> rb_node option" where
  "rb_at a t = (if a = 0 then None else Some (rb_mem t a))"

text \<open>Writing the pointer by which \<open>old\<close> hangs on its parent, in the order of the tests of the code.\<close>

definition rb_relink :: "nat \<Rightarrow> nat \<Rightarrow> nat \<Rightarrow> rb_root \<Rightarrow> rb_root" where
  "rb_relink parent old new t =
     (if parent = 0 then t\<lparr>rb_top := new\<rparr>
      else if old = rb_left (rb_mem t parent) then upd_rb parent (\<lambda>p. p\<lparr>rb_left := new\<rparr>) t
      else upd_rb parent (\<lambda>p. p\<lparr>rb_right := new\<rparr>) t)"

definition rb_relink_right :: "nat \<Rightarrow> nat \<Rightarrow> nat \<Rightarrow> rb_root \<Rightarrow> rb_root" where
  "rb_relink_right parent old new t =
     (if parent = 0 then t\<lparr>rb_top := new\<rparr>
      else if old = rb_right (rb_mem t parent) then upd_rb parent (\<lambda>p. p\<lparr>rb_right := new\<rparr>) t
      else upd_rb parent (\<lambda>p. p\<lparr>rb_left := new\<rparr>) t)"

text \<open>Setting the parent of a node, if there is one.\<close>

definition rb_adopt :: "nat \<Rightarrow> nat \<Rightarrow> rb_root \<Rightarrow> rb_root" where
  "rb_adopt a p t = (if a \<noteq> 0 then upd_rb a (\<lambda>x. x\<lparr>rb_parent := p\<rparr>) t else t)"

definition rb_rotate_left :: "nat \<Rightarrow> rb_root \<Rightarrow> rb_root option" where
  "rb_rotate_left node t = do {
     n \<leftarrow> rb_at node t;
     let right = rb_right n;
     r \<leftarrow> rb_at right t;
     let t = upd_rb node (\<lambda>n. n\<lparr>rb_right := rb_left r\<rparr>) t;
     let t = rb_adopt (rb_left r) node t;
     let t = upd_rb right (\<lambda>x. x\<lparr>rb_parent := rb_parent (rb_mem t node)\<rparr>) t;
     let t = rb_relink (rb_parent (rb_mem t node)) node right t;
     let t = upd_rb right (\<lambda>x. x\<lparr>rb_left := node\<rparr>) t;
     Some (upd_rb node (\<lambda>n. n\<lparr>rb_parent := right\<rparr>) t)
   }"

definition rb_rotate_right :: "nat \<Rightarrow> rb_root \<Rightarrow> rb_root option" where
  "rb_rotate_right node t = do {
     n \<leftarrow> rb_at node t;
     let left = rb_left n;
     l \<leftarrow> rb_at left t;
     let t = upd_rb node (\<lambda>n. n\<lparr>rb_left := rb_right l\<rparr>) t;
     let t = rb_adopt (rb_right l) node t;
     let t = upd_rb left (\<lambda>x. x\<lparr>rb_parent := rb_parent (rb_mem t node)\<rparr>) t;
     let t = rb_relink_right (rb_parent (rb_mem t node)) node left t;
     let t = upd_rb left (\<lambda>x. x\<lparr>rb_right := node\<rparr>) t;
     Some (upd_rb node (\<lambda>n. n\<lparr>rb_parent := left\<rparr>) t)
   }"

text \<open>The way down to the place of a new node: its parent, and whether it goes to the left.\<close>

partial_function (option) rb_descend ::
  "(nat \<Rightarrow> nat \<Rightarrow> int) \<Rightarrow> nat \<Rightarrow> nat \<Rightarrow> bool \<Rightarrow> nat \<Rightarrow> rb_root \<Rightarrow> (nat \<times> bool) option" where
  "rb_descend cmp node parent side link t =
     (if link = 0 then Some (parent, side)
      else if cmp node link < 0 then rb_descend cmp node link True (rb_left (rb_mem t link)) t
      else rb_descend cmp node link False (rb_right (rb_mem t link)) t)"

definition set_color :: "nat \<Rightarrow> rb_color \<Rightarrow> rb_root \<Rightarrow> rb_root option" where
  "set_color a c t = (if a = 0 then None else Some (upd_rb a (\<lambda>x. x\<lparr>rb_col := c\<rparr>) t))"

partial_function (option) rb_insert_fix :: "nat \<Rightarrow> rb_root \<Rightarrow> rb_root option" where
  "rb_insert_fix node t =
     (if node = rb_top t then Some t
      else do {
        n \<leftarrow> rb_at node t;
        p \<leftarrow> rb_at (rb_parent n) t;
        if rb_col p \<noteq> RB_RED then Some t
        else do {
          let grandparent = rb_parent p;
          g \<leftarrow> rb_at grandparent t;
          if rb_parent n = rb_left g then do {
            let uncle = rb_right g;
            if uncle \<noteq> 0 \<and> rb_col (rb_mem t uncle) = RB_RED then do {
              t \<leftarrow> set_color (rb_parent n) RB_BLACK t;
              t \<leftarrow> set_color uncle RB_BLACK t;
              t \<leftarrow> set_color grandparent RB_RED t;
              rb_insert_fix grandparent t
            }
            else do {
              (node, t) \<leftarrow> (if node = rb_right p
                 then do { t \<leftarrow> rb_rotate_left (rb_parent n) t; Some (rb_parent n, t) }
                 else Some (node, t));
              t \<leftarrow> set_color (rb_parent (rb_mem t node)) RB_BLACK t;
              t \<leftarrow> set_color grandparent RB_RED t;
              t \<leftarrow> rb_rotate_right grandparent t;
              rb_insert_fix node t
            }
          }
          else do {
            let uncle = rb_left g;
            if uncle \<noteq> 0 \<and> rb_col (rb_mem t uncle) = RB_RED then do {
              t \<leftarrow> set_color (rb_parent n) RB_BLACK t;
              t \<leftarrow> set_color uncle RB_BLACK t;
              t \<leftarrow> set_color grandparent RB_RED t;
              rb_insert_fix grandparent t
            }
            else do {
              (node, t) \<leftarrow> (if node = rb_left p
                 then do { t \<leftarrow> rb_rotate_right (rb_parent n) t; Some (rb_parent n, t) }
                 else Some (node, t));
              t \<leftarrow> set_color (rb_parent (rb_mem t node)) RB_BLACK t;
              t \<leftarrow> set_color grandparent RB_RED t;
              t \<leftarrow> rb_rotate_left grandparent t;
              rb_insert_fix node t
            }
          }
        }
      })"

definition rb_insert :: "(nat \<Rightarrow> nat \<Rightarrow> int) \<Rightarrow> nat \<Rightarrow> rb_root \<Rightarrow> rb_root option" where
  "rb_insert cmp node t = do {
     (parent, side) \<leftarrow> rb_descend cmp node 0 True (rb_top t) t;
     rb_at node t;
     let t = upd_rb node (\<lambda>_. \<lparr>rb_parent = parent, rb_left = 0, rb_right = 0, rb_col = RB_RED\<rparr>) t;
     let t = (if parent = 0 then t\<lparr>rb_top := node\<rparr>
              else if side then upd_rb parent (\<lambda>p. p\<lparr>rb_left := node\<rparr>) t
              else upd_rb parent (\<lambda>p. p\<lparr>rb_right := node\<rparr>) t);
     t \<leftarrow> rb_insert_fix node t;
     set_color (rb_top t) RB_BLACK t
   }"

section \<open>Traversal\<close>

partial_function (option) leftmost :: "nat \<Rightarrow> rb_root \<Rightarrow> nat option" where
  "leftmost a t = (if rb_left (rb_mem t a) = 0 then Some a else leftmost (rb_left (rb_mem t a)) t)"

partial_function (option) rightmost :: "nat \<Rightarrow> rb_root \<Rightarrow> nat option" where
  "rightmost a t = (if rb_right (rb_mem t a) = 0 then Some a else rightmost (rb_right (rb_mem t a)) t)"

definition rb_first :: "rb_root \<Rightarrow> nat option" where
  "rb_first t = (if rb_top t = 0 then Some 0 else leftmost (rb_top t) t)"

definition rb_last :: "rb_root \<Rightarrow> nat option" where
  "rb_last t = (if rb_top t = 0 then Some 0 else rightmost (rb_top t) t)"

partial_function (option) up_from_right :: "nat \<Rightarrow> rb_root \<Rightarrow> nat option" where
  "up_from_right a t =
     (let p = rb_parent (rb_mem t a)
      in if p \<noteq> 0 \<and> a = rb_right (rb_mem t p) then up_from_right p t else Some p)"

partial_function (option) up_from_left :: "nat \<Rightarrow> rb_root \<Rightarrow> nat option" where
  "up_from_left a t =
     (let p = rb_parent (rb_mem t a)
      in if p \<noteq> 0 \<and> a = rb_left (rb_mem t p) then up_from_left p t else Some p)"

definition rb_next :: "nat \<Rightarrow> rb_root \<Rightarrow> nat option" where
  "rb_next a t = do {
     n \<leftarrow> rb_at a t;
     if rb_right n \<noteq> 0 then leftmost (rb_right n) t else up_from_right a t
   }"

definition rb_prev :: "nat \<Rightarrow> rb_root \<Rightarrow> nat option" where
  "rb_prev a t = do {
     n \<leftarrow> rb_at a t;
     if rb_left n \<noteq> 0 then rightmost (rb_left n) t else up_from_left a t
   }"

section \<open>Removal\<close>

definition is_black :: "nat \<Rightarrow> rb_root \<Rightarrow> bool" where
  "is_black a t \<longleftrightarrow> a = 0 \<or> rb_col (rb_mem t a) = RB_BLACK"

definition blacken :: "nat \<Rightarrow> rb_root \<Rightarrow> rb_root" where
  "blacken a t = (if a \<noteq> 0 then upd_rb a (\<lambda>x. x\<lparr>rb_col := RB_BLACK\<rparr>) t else t)"

text \<open>
  An iteration of the loop that restores the heights, for a left child and for a right child.  The flag tells
  that the loop is left; else it goes on with the parent.
\<close>

definition right_sibling :: "nat \<Rightarrow> nat \<Rightarrow> rb_root \<Rightarrow> (bool \<times> rb_root) option" where
  "right_sibling sibling parent t = do {
     s \<leftarrow> rb_at sibling t;
     if is_black (rb_left s) t \<and> is_black (rb_right s) t then do {
       t \<leftarrow> set_color sibling RB_RED t;
       Some (False, t)
     }
     else do {
       (sibling, t) \<leftarrow> (if is_black (rb_right s) t then do {
             let t = blacken (rb_left s) t;
             t \<leftarrow> set_color sibling RB_RED t;
             t \<leftarrow> rb_rotate_right sibling t;
             Some (rb_right (rb_mem t parent), t)
           }
           else Some (sibling, t));
       t \<leftarrow> set_color sibling (rb_col (rb_mem t parent)) t;
       t \<leftarrow> set_color parent RB_BLACK t;
       let t = blacken (rb_right (rb_mem t sibling)) t;
       t \<leftarrow> rb_rotate_left parent t;
       Some (True, t)
     }
   }"

definition erase_left :: "nat \<Rightarrow> rb_root \<Rightarrow> (bool \<times> rb_root) option" where
  "erase_left parent t = do {
     p \<leftarrow> rb_at parent t;
     s \<leftarrow> rb_at (rb_right p) t;
     (sibling, t) \<leftarrow> (if rb_col s = RB_RED then do {
           t \<leftarrow> set_color (rb_right p) RB_BLACK t;
           t \<leftarrow> set_color parent RB_RED t;
           t \<leftarrow> rb_rotate_left parent t;
           Some (rb_right (rb_mem t parent), t)
         }
         else Some (rb_right p, t));
     right_sibling sibling parent t
   }"

definition left_sibling :: "nat \<Rightarrow> nat \<Rightarrow> rb_root \<Rightarrow> (bool \<times> rb_root) option" where
  "left_sibling sibling parent t = do {
     s \<leftarrow> rb_at sibling t;
     if is_black (rb_left s) t \<and> is_black (rb_right s) t then do {
       t \<leftarrow> set_color sibling RB_RED t;
       Some (False, t)
     }
     else do {
       (sibling, t) \<leftarrow> (if is_black (rb_left s) t then do {
             let t = blacken (rb_right s) t;
             t \<leftarrow> set_color sibling RB_RED t;
             t \<leftarrow> rb_rotate_left sibling t;
             Some (rb_left (rb_mem t parent), t)
           }
           else Some (sibling, t));
       t \<leftarrow> set_color sibling (rb_col (rb_mem t parent)) t;
       t \<leftarrow> set_color parent RB_BLACK t;
       let t = blacken (rb_left (rb_mem t sibling)) t;
       t \<leftarrow> rb_rotate_right parent t;
       Some (True, t)
     }
   }"

definition erase_right :: "nat \<Rightarrow> rb_root \<Rightarrow> (bool \<times> rb_root) option" where
  "erase_right parent t = do {
     p \<leftarrow> rb_at parent t;
     s \<leftarrow> rb_at (rb_left p) t;
     (sibling, t) \<leftarrow> (if rb_col s = RB_RED then do {
           t \<leftarrow> set_color (rb_left p) RB_BLACK t;
           t \<leftarrow> set_color parent RB_RED t;
           t \<leftarrow> rb_rotate_right parent t;
           Some (rb_left (rb_mem t parent), t)
         }
         else Some (rb_left p, t));
     left_sibling sibling parent t
   }"

partial_function (option) rb_erase_fix :: "nat \<Rightarrow> nat \<Rightarrow> rb_root \<Rightarrow> rb_root option" where
  "rb_erase_fix child parent t =
     (if child \<noteq> rb_top t \<and> is_black child t then do {
        p \<leftarrow> rb_at parent t;
        (out, t) \<leftarrow> (if child = rb_left p then erase_left parent t else erase_right parent t);
        if out then Some (blacken (rb_top t) t)
        else rb_erase_fix parent (rb_parent (rb_mem t parent)) t
      }
      else Some (blacken child t))"

text \<open>
  A node with two children is replaced by the leftmost node of its right subtree.  When that one is not the
  right child itself, its place is taken by its right subtree; the loop then starts at the right child of
  the replacement in its new place.
\<close>

definition lift_out :: "nat \<Rightarrow> nat \<Rightarrow> rb_root \<Rightarrow> rb_root option" where
  "lift_out node replace t = do {
     let up = rb_parent (rb_mem t replace);
     rb_at up t;
     let t = upd_rb up (\<lambda>x. x\<lparr>rb_left := rb_right (rb_mem t replace)\<rparr>) t;
     let t = rb_adopt (rb_right (rb_mem t replace)) (rb_parent (rb_mem t replace)) t;
     let t = upd_rb replace (\<lambda>x. x\<lparr>rb_right := rb_right (rb_mem t node)\<rparr>) t;
     rb_at (rb_right (rb_mem t node)) t;
     Some (upd_rb (rb_right (rb_mem t node)) (\<lambda>x. x\<lparr>rb_parent := replace\<rparr>) t)
   }"

definition put_in_place :: "nat \<Rightarrow> nat \<Rightarrow> rb_root \<Rightarrow> (rb_color \<times> rb_root) option" where
  "put_in_place node replace t = do {
     let t = upd_rb replace (\<lambda>x. x\<lparr>rb_left := rb_left (rb_mem t node)\<rparr>) t;
     rb_at (rb_left (rb_mem t node)) t;
     let t = upd_rb (rb_left (rb_mem t node)) (\<lambda>x. x\<lparr>rb_parent := replace\<rparr>) t;
     let color = rb_col (rb_mem t replace);
     let t = upd_rb replace (\<lambda>x. x\<lparr>rb_col := rb_col (rb_mem t node)\<rparr>) t;
     let t = rb_relink (rb_parent (rb_mem t node)) node replace t;
     Some (color, upd_rb replace (\<lambda>x. x\<lparr>rb_parent := rb_parent (rb_mem t node)\<rparr>) t)
   }"

definition erase_replace :: "nat \<Rightarrow> nat \<Rightarrow> rb_root \<Rightarrow> rb_root option" where
  "erase_replace node replace t = do {
     t \<leftarrow> (if rb_parent (rb_mem t replace) \<noteq> node then lift_out node replace t else Some t);
     (color, t) \<leftarrow> put_in_place node replace t;
     if color = RB_BLACK then rb_erase_fix (rb_right (rb_mem t replace)) replace t else Some t
   }"

definition rb_erase :: "nat \<Rightarrow> rb_root \<Rightarrow> rb_root option" where
  "rb_erase node t = do {
     n \<leftarrow> rb_at node t;
     if rb_left n \<noteq> 0 \<and> rb_right n \<noteq> 0 then do {
       replace \<leftarrow> leftmost (rb_right n) t;
       erase_replace node replace t
     }
     else do {
       let child = (if rb_left n = 0 then rb_right n else rb_left n);
       let t = rb_adopt child (rb_parent n) t;
       let t = rb_relink (rb_parent (rb_mem t node)) node child t;
       if rb_col (rb_mem t node) = RB_BLACK then rb_erase_fix child (rb_parent (rb_mem t node)) t else Some t
     }
   }"

definition rb_init_node :: "nat \<Rightarrow> rb_root \<Rightarrow> rb_root" where
  "rb_init_node a t = upd_rb a (\<lambda>_. \<lparr>rb_parent = 0, rb_left = 0, rb_right = 0, rb_col = RB_RED\<rparr>) t"

end
