(* ===== verification/Rb_Shape.thy ===== *)
theory Rb_Shape
  imports Rb_Tree
begin

section \<open>Trees and contexts in memory\<close>

datatype rbt = Lf | Nd rbt nat rb_color rbt

fun rb_inorder :: "rbt \<Rightarrow> nat list" where
  "rb_inorder Lf = []"
| "rb_inorder (Nd l x c r) = rb_inorder l @ x # rb_inorder r"

text \<open>A step of the way from a node up to the root: the parent, of which the node is the left or right child,
  with the other child.\<close>

datatype frame = FL nat rb_color rbt | FR rbt nat rb_color

fun plug :: "frame list \<Rightarrow> rbt \<Rightarrow> rbt" where
  "plug [] t = t"
| "plug (FL x c r # k) t = plug k (Nd t x c r)"
| "plug (FR l x c # k) t = plug k (Nd l x c t)"

fun nodes_before :: "frame list \<Rightarrow> nat list" where
  "nodes_before [] = []"
| "nodes_before (FL x c r # k) = nodes_before k"
| "nodes_before (FR l x c # k) = nodes_before k @ rb_inorder l @ [x]"

fun nodes_after :: "frame list \<Rightarrow> nat list" where
  "nodes_after [] = []"
| "nodes_after (FL x c r # k) = x # rb_inorder r @ nodes_after k"
| "nodes_after (FR l x c # k) = nodes_after k"

lemma inorder_plug: "rb_inorder (plug k t) = nodes_before k @ rb_inorder t @ nodes_after k"
  by (induction k t rule: plug.induct) simp_all

fun rep :: "(nat \<Rightarrow> rb_node) \<Rightarrow> nat \<Rightarrow> nat \<Rightarrow> rbt \<Rightarrow> bool" where
  "rep h p a Lf = (a = 0)"
| "rep h p a (Nd l x c r) = (a = x \<and> x \<noteq> 0 \<and> rb_parent (h x) = p \<and> rb_col (h x) = c \<and>
     rep h x (rb_left (h x)) l \<and> rep h x (rb_right (h x)) r)"

fun crep :: "(nat \<Rightarrow> rb_node) \<Rightarrow> nat \<Rightarrow> nat \<Rightarrow> nat \<Rightarrow> frame list \<Rightarrow> bool" where
  "crep h tp p a [] = (p = 0 \<and> tp = a)"
| "crep h tp p a (FL x c r # k) = (p = x \<and> x \<noteq> 0 \<and> rb_left (h x) = a \<and> rb_col (h x) = c \<and>
     rep h x (rb_right (h x)) r \<and> crep h tp (rb_parent (h x)) x k)"
| "crep h tp p a (FR l x c # k) = (p = x \<and> x \<noteq> 0 \<and> rb_right (h x) = a \<and> rb_col (h x) = c \<and>
     rep h x (rb_left (h x)) l \<and> crep h tp (rb_parent (h x)) x k)"

definition ctx_nodes :: "frame list \<Rightarrow> nat set" where
  "ctx_nodes k = set (nodes_before k) \<union> set (nodes_after k)"

lemma ctx_nodes_simps [simp]:
  "ctx_nodes [] = {}"
  "ctx_nodes (FL x c r # k) = insert x (set (rb_inorder r) \<union> ctx_nodes k)"
  "ctx_nodes (FR l x c # k) = insert x (set (rb_inorder l) \<union> ctx_nodes k)"
  by (auto simp: ctx_nodes_def)

lemma rep_upd [simp]: "b \<notin> set (rb_inorder t) \<Longrightarrow> rep (h(b := v)) p a t = rep h p a t"
  by (induction h p a t rule: rep.induct) auto

lemma crep_upd [simp]: "b \<notin> ctx_nodes k \<Longrightarrow> crep (h(b := v)) tp p a k = crep h tp p a k"
  by (induction h tp p a k rule: crep.induct) auto

lemma rep_root: "rep h p a t \<Longrightarrow> t = Lf \<and> a = 0 \<or> a \<in> set (rb_inorder t)"
  by (cases t) auto

lemma rep_zero: "rep h p a t \<Longrightarrow> 0 \<notin> set (rb_inorder t)"
  by (induction h p a t rule: rep.induct) auto

lemma crep_zero: "crep h tp p a k \<Longrightarrow> 0 \<notin> ctx_nodes k"
  by (induction h tp p a k rule: crep.induct) (auto dest: rep_zero)

text \<open>A subtree \<open>s\<close> at \<open>a\<close>, the rest of the tree around it.\<close>

definition zrep :: "rb_root \<Rightarrow> nat \<Rightarrow> nat \<Rightarrow> rbt \<Rightarrow> frame list \<Rightarrow> bool" where
  "zrep t p a s k \<longleftrightarrow> rep (rb_mem t) p a s \<and> crep (rb_mem t) (rb_top t) p a k \<and> distinct (rb_inorder (plug k s))"

lemma distinct_plug: "distinct (rb_inorder (plug k s)) \<longleftrightarrow>
    distinct (nodes_before k @ nodes_after k) \<and> distinct (rb_inorder s) \<and> set (rb_inorder s) \<inter> ctx_nodes k = {}"
  by (auto simp: inorder_plug ctx_nodes_def)

text \<open>Going up and down in the tree.\<close>

lemma zrep_FL: "zrep t p a s (FL x c r # k) \<longleftrightarrow> p = x \<and> rb_left (rb_mem t x) = a \<and> zrep t (rb_parent (rb_mem t x)) x (Nd s x c r) k"
  by (auto simp: zrep_def)

lemma zrep_FR: "zrep t p a s (FR l x c # k) \<longleftrightarrow> p = x \<and> rb_right (rb_mem t x) = a \<and> zrep t (rb_parent (rb_mem t x)) x (Nd l x c s) k"
  by (auto simp: zrep_def)

section \<open>Rotations\<close>

lemma rep_cong: "\<forall>b \<in> set (rb_inorder t). h' b = h b \<Longrightarrow> rep h' p a t = rep h p a t"
  by (induction h p a t rule: rep.induct) auto

lemma crep_cong: "\<forall>b \<in> ctx_nodes k. h' b = h b \<Longrightarrow> crep h' tp p a k = crep h tp p a k"
  by (induction k arbitrary: p a rule: nodes_before.induct) (auto simp: rep_cong [of _ h' h])

text \<open>Hanging another subtree into the hole of a context.\<close>

definition relinked :: "nat \<Rightarrow> nat \<Rightarrow> frame list \<Rightarrow> rb_root \<Rightarrow> rb_root" where
  "relinked p a k t =
     (case k of
        [] \<Rightarrow> t\<lparr>rb_top := a\<rparr>
      | FL x c r # _ \<Rightarrow> upd_rb p (\<lambda>n. n\<lparr>rb_left := a\<rparr>) t
      | FR l x c # _ \<Rightarrow> upd_rb p (\<lambda>n. n\<lparr>rb_right := a\<rparr>) t)"

lemma relinked_crep:
  assumes "crep (rb_mem t) (rb_top t) p a k" "distinct (nodes_before k @ nodes_after k)"
  shows "crep (rb_mem (relinked p a' k t)) (rb_top (relinked p a' k t)) p a' k"
    and "b \<notin> ctx_nodes k \<Longrightarrow> rb_mem (relinked p a' k t) b = rb_mem t b"
proof -
  show "crep (rb_mem (relinked p a' k t)) (rb_top (relinked p a' k t)) p a' k"
    using assms by (cases k rule: nodes_before.cases) (auto simp: relinked_def upd_rb_def ctx_nodes_def)
  show "b \<notin> ctx_nodes k \<Longrightarrow> rb_mem (relinked p a' k t) b = rb_mem t b"
    using assms by (cases k rule: nodes_before.cases) (auto simp: relinked_def upd_rb_def)
qed

lemma relink_relinked:
  assumes "crep (rb_mem t) (rb_top t) p a k" "a \<noteq> 0" "a \<notin> ctx_nodes k"
  shows "rb_relink p a a' t = relinked p a' k t"
    and "rb_relink_right p a a' t = relinked p a' k t"
  using assms by (cases k rule: nodes_before.cases; auto simp: rb_relink_def rb_relink_right_def relinked_def dest: rep_root)+

lemma upd_rb_mem: "rb_mem (upd_rb a f t) = (rb_mem t)(a := f (rb_mem t a))" "rb_top (upd_rb a f t) = rb_top t"
  by (simp_all add: upd_rb_def)

text \<open>The middle subtree of a rotation gets another parent.\<close>

lemma adopt_rep:
  assumes "rep (rb_mem t) p a s" "distinct (rb_inorder s)"
  shows "rep (rb_mem (rb_adopt a p' t)) p' a s" "rb_top (rb_adopt a p' t) = rb_top t"
    "b \<notin> set (rb_inorder s) \<Longrightarrow> rb_mem (rb_adopt a p' t) b = rb_mem t b"
  using assms by (cases s; auto simp: rb_adopt_def upd_rb_mem)+

lemma rotate_left_zrep:
  assumes z: "zrep t p x (Nd A x c (Nd B y d C)) k"
  shows "\<exists>t'. rb_rotate_left x t = Some t' \<and> zrep t' p y (Nd (Nd A x c B) y d C) k"
proof -
  have r: "rep (rb_mem t) p x (Nd A x c (Nd B y d C))" and k: "crep (rb_mem t) (rb_top t) p x k"
    and ds: "distinct (nodes_before k @ nodes_after k)" "distinct (rb_inorder (Nd A x c (Nd B y d C)))"
      "set (rb_inorder (Nd A x c (Nd B y d C))) \<inter> ctx_nodes k = {}"
    using z by (simp_all add: zrep_def distinct_plug)
  let ?b = "rb_left (rb_mem t y)"
  define t1 where "t1 = upd_rb x (\<lambda>n. n\<lparr>rb_right := ?b\<rparr>) t"
  define t2 where "t2 = rb_adopt ?b x t1"
  define t3 where "t3 = upd_rb y (\<lambda>n. n\<lparr>rb_parent := p\<rparr>) t2"
  define t4 where "t4 = relinked p y k t3"
  define t5 where "t5 = upd_rb x (\<lambda>n. n\<lparr>rb_parent := y\<rparr>) (upd_rb y (\<lambda>n. n\<lparr>rb_left := x\<rparr>) t4)"
  have "rep (rb_mem t1) y ?b B" using r ds(2) by (simp add: t1_def upd_rb_mem)
  note ad = adopt_rep [OF this, where p' = x, folded t2_def]
  have dB: "distinct (rb_inorder B)" using ds(2) by simp
  have B2: "rep (rb_mem t2) x ?b B" and same2: "\<And>b. b \<notin> set (rb_inorder B) \<Longrightarrow> rb_mem t2 b = rb_mem t1 b" "rb_top t2 = rb_top t"
    using ad dB by (simp_all add: t1_def upd_rb_mem)
  have B3: "rep (rb_mem t3) x ?b B" using B2 ds(2) by (simp add: t3_def upd_rb_mem)
  have k3: "crep (rb_mem t3) (rb_top t3) p x k"
  proof -
    have "\<forall>b \<in> ctx_nodes k. rb_mem t3 b = rb_mem t b"
    proof
      fix b assume "b \<in> ctx_nodes k"
      then have "b \<noteq> x" "b \<noteq> y" "b \<notin> set (rb_inorder B)" using ds(3) by auto
      then show "rb_mem t3 b = rb_mem t b" using same2(1) by (simp add: t3_def t1_def upd_rb_mem)
    qed
    then show ?thesis using k crep_cong [of k "rb_mem t3" "rb_mem t"] by (simp add: t3_def upd_rb_mem same2(2))
  qed
  have k4: "crep (rb_mem t4) (rb_top t4) p y k" and same4: "\<And>b. b \<notin> ctx_nodes k \<Longrightarrow> rb_mem t4 b = rb_mem t3 b"
    using relinked_crep [OF k3 ds(1), where a' = y, folded t4_def] by blast+
  have x3: "rb_mem t3 x = (rb_mem t x)\<lparr>rb_right := ?b\<rparr>" "rb_mem t3 y = (rb_mem t y)\<lparr>rb_parent := p\<rparr>"
    using ds(2) same2(1) by (auto simp: t3_def t1_def upd_rb_mem)
  have other: "rb_mem t5 b = rb_mem t3 b" if "b \<notin> ctx_nodes k" "b \<noteq> x" "b \<noteq> y" for b
    using that same4 by (simp add: t5_def upd_rb_mem)
  have x5: "rb_mem t5 x = (rb_mem t x)\<lparr>rb_right := ?b, rb_parent := y\<rparr>"
    "rb_mem t5 y = (rb_mem t y)\<lparr>rb_parent := p, rb_left := x\<rparr>"
    using same4 [of x] same4 [of y] ds(2,3) x3 by (auto simp: t5_def upd_rb_mem)
  have "rep (rb_mem t5) x ?b B"
    using rep_cong [of B "rb_mem t5" "rb_mem t3"] other ds(2,3) B3 by auto
  moreover have "rep (rb_mem t5) p' a s = rep (rb_mem t) p' a s" if "s = A \<or> s = C" for p' a s
  proof (rule rep_cong)
    show "\<forall>b \<in> set (rb_inorder s). rb_mem t5 b = rb_mem t b"
    proof
      fix b assume b: "b \<in> set (rb_inorder s)"
      then have "b \<notin> ctx_nodes k" "b \<noteq> x" "b \<noteq> y" "b \<notin> set (rb_inorder B)" using that ds(2,3) by auto
      then show "rb_mem t5 b = rb_mem t b" using other same2(1) by (simp add: t3_def t1_def upd_rb_mem)
    qed
  qed
  moreover have "crep (rb_mem t5) (rb_top t5) p y k"
    using k4 ds(3) by (simp add: t5_def upd_rb_mem)
  moreover have "distinct (rb_inorder (plug k (Nd (Nd A x c B) y d C)))" using z by (simp add: zrep_def inorder_plug)
  ultimately have "zrep t5 p y (Nd (Nd A x c B) y d C) k"
    using r by (simp add: zrep_def x5)
  moreover have "rb_rotate_left x t = Some t5"
  proof -
    have "x \<noteq> 0" "y \<noteq> 0" "rb_right (rb_mem t x) = y" using r by simp_all
    moreover have "rb_parent (rb_mem t2 x) = p" "rb_parent (rb_mem t3 x) = p"
      using r x3(1) ds(2) same2(1) [of x] by (auto simp: t1_def upd_rb_mem)
    moreover have "rb_relink p x y t3 = t4" unfolding t4_def
      using relink_relinked(1) [OF k3] r ds(3) by simp
    ultimately show ?thesis
      by (simp add: rb_rotate_left_def rb_at_def Let_def flip: t1_def t2_def t3_def) (simp add: t5_def)
  qed
  ultimately show ?thesis by blast
qed

text \<open>The other rotation is the first one in a mirror.\<close>

definition flip_node :: "rb_node \<Rightarrow> rb_node" where
  "flip_node n = n\<lparr>rb_left := rb_right n, rb_right := rb_left n\<rparr>"

definition flip :: "rb_root \<Rightarrow> rb_root" where
  "flip t = t\<lparr>rb_mem := (\<lambda>a. flip_node (rb_mem t a))\<rparr>"

fun mirror :: "rbt \<Rightarrow> rbt" where
  "mirror Lf = Lf"
| "mirror (Nd l x c r) = Nd (mirror r) x c (mirror l)"

fun mirror_frame :: "frame \<Rightarrow> frame" where
  "mirror_frame (FL x c r) = FR (mirror r) x c"
| "mirror_frame (FR l x c) = FL x c (mirror l)"

lemma flip_fields [simp]:
  "rb_top (flip t) = rb_top t" "rb_left (rb_mem (flip t) a) = rb_right (rb_mem t a)" "rb_right (rb_mem (flip t) a) = rb_left (rb_mem t a)"
  "rb_parent (rb_mem (flip t) a) = rb_parent (rb_mem t a)" "rb_col (rb_mem (flip t) a) = rb_col (rb_mem t a)" "flip (flip t) = t"
  by (simp_all add: flip_def flip_node_def)

lemma inorder_mirror [simp]: "rb_inorder (mirror t) = rev (rb_inorder t)"
  by (induction t) simp_all

lemma rep_flip [simp]: "rep (rb_mem (flip t)) p a (mirror s) = rep (rb_mem t) p a s"
  by (induction s arbitrary: p a) auto

lemma crep_flip [simp]: "crep (rb_mem (flip t)) tp p a (map mirror_frame k) = crep (rb_mem t) tp p a k"
  by (induction k arbitrary: p a rule: nodes_before.induct) auto

lemma plug_mirror: "plug (map mirror_frame k) (mirror s) = mirror (plug k s)"
  by (induction k s rule: plug.induct) (simp_all flip: mirror.simps)

lemma zrep_flip [simp]: "zrep (flip t) p a (mirror s) (map mirror_frame k) = zrep t p a s k"
  by (simp add: zrep_def plug_mirror)

lemma flip_upd:
  "upd_rb a (\<lambda>n. n\<lparr>rb_right := v\<rparr>) (flip t) = flip (upd_rb a (\<lambda>n. n\<lparr>rb_left := v\<rparr>) t)"
  "upd_rb a (\<lambda>n. n\<lparr>rb_left := v\<rparr>) (flip t) = flip (upd_rb a (\<lambda>n. n\<lparr>rb_right := v\<rparr>) t)"
  "upd_rb a (\<lambda>n. n\<lparr>rb_parent := v\<rparr>) (flip t) = flip (upd_rb a (\<lambda>n. n\<lparr>rb_parent := v\<rparr>) t)"
  "(flip t)\<lparr>rb_top := v\<rparr> = flip (t\<lparr>rb_top := v\<rparr>)"
  by (simp_all add: flip_def upd_rb_def fun_eq_iff flip_node_def)

lemma flip_steps:
  "rb_adopt a p (flip t) = flip (rb_adopt a p t)" "rb_relink p a b (flip t) = flip (rb_relink_right p a b t)"
  by (simp_all add: rb_adopt_def rb_relink_def rb_relink_right_def flip_upd)

lemma rotate_right_flip: "rb_rotate_right x t = map_option flip (rb_rotate_left x (flip t))"
proof (cases "x = 0 \<or> rb_left (rb_mem t x) = 0")
  case False
  then show ?thesis
    by (simp add: rb_rotate_left_def rb_rotate_right_def rb_at_def flip_upd flip_steps Let_def)
qed (auto simp: rb_rotate_right_def rb_rotate_left_def rb_at_def)

lemma rotate_right_zrep:
  assumes "zrep t p y (Nd (Nd A x c B) y d C) k"
  shows "\<exists>t'. rb_rotate_right y t = Some t' \<and> zrep t' p x (Nd A x c (Nd B y d C)) k"
proof -
  have "zrep (flip t) p y (Nd (mirror C) y d (Nd (mirror B) x c (mirror A))) (map mirror_frame k)"
    using assms zrep_flip [of t p y "Nd (Nd A x c B) y d C" k] by simp
  from rotate_left_zrep [OF this] obtain u where
    u: "rb_rotate_left y (flip t) = Some u" "zrep u p x (Nd (Nd (mirror C) y d (mirror B)) x c (mirror A)) (map mirror_frame k)" by blast
  then have "zrep (flip u) p x (Nd A x c (Nd B y d C)) k"
    using zrep_flip [of "flip u" p x "Nd A x c (Nd B y d C)" k] by simp
  with u(1) show ?thesis by (simp add: rotate_right_flip)
qed

end
