(* ===== verification/Rb_Insert.thy ===== *)
theory Rb_Insert
  imports Rb_Shape
begin

text \<open>
  Insertion: the loop that restores the colours is a function on a subtree and its context, and keeps what
  makes a tree red-black.
\<close>

section \<open>The repair as a function\<close>

fun col :: "rbt \<Rightarrow> rb_color" where
  "col Lf = RB_BLACK"
| "col (Nd l x c r) = c"

fun paint :: "rb_color \<Rightarrow> rbt \<Rightarrow> rbt" where
  "paint c Lf = Lf"
| "paint c (Nd l x _ r) = Nd l x c r"

fun frame_col :: "frame \<Rightarrow> rb_color" where
  "frame_col (FL x c r) = c"
| "frame_col (FR l x c) = c"

fun repair :: "rbt \<Rightarrow> frame list \<Rightarrow> rbt" where
  "repair s (FL p RB_RED q # FL g c u # k) =
     (if col u = RB_RED then repair (Nd (Nd s p RB_BLACK q) g RB_RED (paint RB_BLACK u)) k
      else plug k (Nd s p RB_BLACK (Nd q g RB_RED u)))"
| "repair s (FR q p RB_RED # FL g c u # k) =
     (if col u = RB_RED then repair (Nd (Nd q p RB_BLACK s) g RB_RED (paint RB_BLACK u)) k
      else case s of
        Lf \<Rightarrow> Lf
      | Nd a x _ b \<Rightarrow> plug k (Nd (Nd q p RB_RED a) x RB_BLACK (Nd b g RB_RED u)))"
| "repair s (FL p RB_RED q # FR u g c # k) =
     (if col u = RB_RED then repair (Nd (paint RB_BLACK u) g RB_RED (Nd s p RB_BLACK q)) k
      else case s of
        Lf \<Rightarrow> Lf
      | Nd a x _ b \<Rightarrow> plug k (Nd (Nd u g RB_RED a) x RB_BLACK (Nd b p RB_RED q)))"
| "repair s (FR q p RB_RED # FR u g c # k) =
     (if col u = RB_RED then repair (Nd (paint RB_BLACK u) g RB_RED (Nd q p RB_BLACK s)) k
      else plug k (Nd (Nd u g RB_RED q) p RB_BLACK s))"
| "repair s k = plug k s"

section \<open>The loop does it\<close>

lemma set_color_zrep:
  assumes "zrep t p x (Nd l x c r) k"
  shows "\<exists>t'. set_color x c' t = Some t' \<and> zrep t' p x (Nd l x c' r) k \<and> rb_top t' = rb_top t \<and>
    (\<forall>a. rb_parent (rb_mem t' a) = rb_parent (rb_mem t a) \<and> rb_left (rb_mem t' a) = rb_left (rb_mem t a) \<and>
      rb_right (rb_mem t' a) = rb_right (rb_mem t a))"
proof -
  have "distinct (rb_inorder (Nd l x c r))" "x \<notin> ctx_nodes k" "x \<noteq> 0"
    using assms by (auto simp: zrep_def distinct_plug)
  then have "zrep (upd_rb x (\<lambda>n. n\<lparr>rb_col := c'\<rparr>) t) p x (Nd l x c' r) k"
    using assms by (simp add: zrep_def upd_rb_mem inorder_plug)
  with \<open>x \<noteq> 0\<close> show ?thesis by (intro exI [of _ "upd_rb x (\<lambda>n. n\<lparr>rb_col := c'\<rparr>) t"]) (simp add: set_color_def upd_rb_mem)
qed

lemma crep_top: "crep h tp p a k \<Longrightarrow> k \<noteq> [] \<Longrightarrow> tp \<in> ctx_nodes k"
proof (induction k arbitrary: p a rule: nodes_before.induct)
  case (2 x c r k)
  then show ?case by (cases k) auto
next
  case (3 l x c k)
  then show ?case by (cases k) auto
qed simp

lemma zrep_not_top: "zrep t p a (Nd l x c r) k \<Longrightarrow> k \<noteq> [] \<Longrightarrow> a \<noteq> rb_top t"
  using crep_top [of "rb_mem t" "rb_top t" p a k] by (auto simp: zrep_def distinct_plug)

lemma zrep_plug: "zrep t p a s k \<Longrightarrow> \<exists>b. zrep t 0 b (plug k s) []"
proof (induction k s arbitrary: p a rule: plug.induct)
  case (1 s)
  then show ?case by (auto simp: zrep_def)
next
  case (2 x c r k s)
  then show ?case unfolding zrep_FL by auto
next
  case (3 l x c k s)
  then show ?case unfolding zrep_FR by auto
qed

lemma zrep_top: "zrep t p a s [] \<Longrightarrow> p = 0 \<and> rb_top t = a"
  by (simp add: zrep_def)

text \<open>Where the loop stops: at the root, or under a black node.\<close>

lemma fix_stop:
  assumes "zrep t p a s k" "s \<noteq> Lf" "\<forall>f k'. k = f # k' \<longrightarrow> frame_col f = RB_BLACK"
  shows "rb_insert_fix a t = Some t"
proof (cases k)
  case Nil
  then show ?thesis using assms(1) zrep_top [of t p a s] by (subst rb_insert_fix.simps) simp
next
  case (Cons f k')
  obtain l x c r where s: "s = Nd l x c r" using assms(2) by (cases s) auto
  then have a: "a = x" "x \<noteq> 0" "rb_parent (rb_mem t x) = p" using assms(1) by (simp_all add: zrep_def)
  have "rb_col (rb_mem t p) = RB_BLACK" "p \<noteq> 0" using assms(1,3) Cons by (cases f; simp add: zrep_def)+
  then show ?thesis using a zrep_not_top [OF assms(1) [unfolded s]] Cons
    by (subst rb_insert_fix.simps) (simp add: rb_at_def)
qed

text \<open>One or three colours, one rotation: the effect of each piece of an iteration.\<close>

fun root_addr :: "rbt \<Rightarrow> nat" where
  "root_addr Lf = 0"
| "root_addr (Nd l x c r) = x"

lemma rep_addr: "rep h p a s \<Longrightarrow> a = root_addr s"
  by (cases s) simp_all

lemma zrep_left:
  assumes "zrep t p x (Nd l x c r) k"
  shows "zrep t x (root_addr l) l (FL x c r # k)"
proof -
  have "rb_left (rb_mem t x) = root_addr l" "rb_parent (rb_mem t x) = p" using assms by (auto simp: zrep_def dest: rep_addr)
  then show ?thesis using assms by (simp add: zrep_FL)
qed

lemma zrep_right:
  assumes "zrep t p x (Nd l x c r) k"
  shows "zrep t x (root_addr r) r (FR l x c # k)"
proof -
  have "rb_right (rb_mem t x) = root_addr r" "rb_parent (rb_mem t x) = p" using assms by (auto simp: zrep_def dest: rep_addr)
  then show ?thesis using assms by (simp add: zrep_FR)
qed

lemma zrep_up:
  "zrep t p a s (FL x c r # k) \<Longrightarrow> \<exists>gp. zrep t gp x (Nd s x c r) k"
  "zrep t p a s (FR l x c # k) \<Longrightarrow> \<exists>gp. zrep t gp x (Nd l x c s) k"
  by (auto simp: zrep_FL zrep_FR)

lemma zrep_parent: "zrep t p x (Nd l x c r) k \<Longrightarrow> rb_parent (rb_mem t x) = p"
  by (simp add: zrep_def)

lemma color_left:
  assumes "zrep t p x (Nd (Nd A y d B) x c C) k"
  shows "\<exists>t'. set_color y d' t = Some t' \<and> zrep t' p x (Nd (Nd A y d' B) x c C) k"
proof -
  have "zrep t x y (Nd A y d B) (FL x c C # k)" using zrep_left [OF assms] by simp
  from set_color_zrep [OF this, of d'] obtain t' where t': "set_color y d' t = Some t'"
    "zrep t' x y (Nd A y d' B) (FL x c C # k)" "rb_parent (rb_mem t' x) = rb_parent (rb_mem t x)" by blast
  then show ?thesis using zrep_parent [OF assms] by (simp add: zrep_FL)
qed

lemma color_right:
  assumes "zrep t p x (Nd A x c (Nd B y d C)) k"
  shows "\<exists>t'. set_color y d' t = Some t' \<and> zrep t' p x (Nd A x c (Nd B y d' C)) k"
proof -
  have "zrep t x y (Nd B y d C) (FR A x c # k)" using zrep_right [OF assms] by simp
  from set_color_zrep [OF this, of d'] obtain t' where t': "set_color y d' t = Some t'"
    "zrep t' x y (Nd B y d' C) (FR A x c # k)" "rb_parent (rb_mem t' x) = rb_parent (rb_mem t x)" by blast
  then show ?thesis using zrep_parent [OF assms] by (simp add: zrep_FR)
qed

lemma recolor_left:
  assumes "zrep t gp g (Nd (Nd s p d q) g c u) k" "u \<noteq> Lf"
  shows "\<exists>t1 t2 t3. set_color p RB_BLACK t = Some t1 \<and> set_color (root_addr u) RB_BLACK t1 = Some t2 \<and> set_color g RB_RED t2 = Some t3 \<and>
    zrep t3 gp g (Nd (Nd s p RB_BLACK q) g RB_RED (paint RB_BLACK u)) k"
proof -
  obtain U x e V where u: "u = Nd U x e V" using assms(2) by (cases u) auto
  obtain t1 where t1: "set_color p RB_BLACK t = Some t1" "zrep t1 gp g (Nd (Nd s p RB_BLACK q) g c u) k"
    using color_left [OF assms(1), of RB_BLACK] by blast
  obtain t2 where t2: "set_color x RB_BLACK t1 = Some t2" "zrep t2 gp g (Nd (Nd s p RB_BLACK q) g c (Nd U x RB_BLACK V)) k"
    using color_right [OF t1(2) [unfolded u], of RB_BLACK] by blast
  obtain t3 where t3: "set_color g RB_RED t2 = Some t3" "zrep t3 gp g (Nd (Nd s p RB_BLACK q) g RB_RED (Nd U x RB_BLACK V)) k"
    using set_color_zrep [OF t2(2), of RB_RED] by blast
  show ?thesis using t1(1) t2(1) t3 by (auto simp: u)
qed

lemma recolor_right:
  assumes "zrep t gp g (Nd u g c (Nd s p d q)) k" "u \<noteq> Lf"
  shows "\<exists>t1 t2 t3. set_color p RB_BLACK t = Some t1 \<and> set_color (root_addr u) RB_BLACK t1 = Some t2 \<and> set_color g RB_RED t2 = Some t3 \<and>
    zrep t3 gp g (Nd (paint RB_BLACK u) g RB_RED (Nd s p RB_BLACK q)) k"
proof -
  obtain U x e V where u: "u = Nd U x e V" using assms(2) by (cases u) auto
  obtain t1 where t1: "set_color p RB_BLACK t = Some t1" "zrep t1 gp g (Nd u g c (Nd s p RB_BLACK q)) k"
    using color_right [OF assms(1), of RB_BLACK] by blast
  obtain t2 where t2: "set_color x RB_BLACK t1 = Some t2" "zrep t2 gp g (Nd (Nd U x RB_BLACK V) g c (Nd s p RB_BLACK q)) k"
    using color_left [OF t1(2) [unfolded u], of RB_BLACK] by blast
  obtain t3 where t3: "set_color g RB_RED t2 = Some t3" "zrep t3 gp g (Nd (Nd U x RB_BLACK V) g RB_RED (Nd s p RB_BLACK q)) k"
    using set_color_zrep [OF t2(2), of RB_RED] by blast
  show ?thesis using t1(1) t2(1) t3 by (auto simp: u)
qed

text \<open>The two colours, the rotation at the grandparent, and the loop ends.\<close>

lemma finish_left:
  assumes z: "zrep t gp g (Nd (Nd s p d q) g c u) k" and s: "s \<noteq> Lf"
  shows "\<exists>t1 t2 t3 b. set_color p RB_BLACK t = Some t1 \<and> set_color g RB_RED t1 = Some t2 \<and> rb_rotate_right g t2 = Some t3 \<and>
    rb_insert_fix (root_addr s) t3 = Some t3 \<and> zrep t3 0 b (plug k (Nd s p RB_BLACK (Nd q g RB_RED u))) []"
proof -
  obtain t1 where t1: "set_color p RB_BLACK t = Some t1" "zrep t1 gp g (Nd (Nd s p RB_BLACK q) g c u) k"
    using color_left [OF z, of RB_BLACK] by blast
  obtain t2 where t2: "set_color g RB_RED t1 = Some t2" "zrep t2 gp g (Nd (Nd s p RB_BLACK q) g RB_RED u) k"
    using set_color_zrep [OF t1(2), of RB_RED] by blast
  obtain t3 where t3: "rb_rotate_right g t2 = Some t3" "zrep t3 gp p (Nd s p RB_BLACK (Nd q g RB_RED u)) k"
    using rotate_right_zrep [OF t2(2)] by blast
  have "rb_insert_fix (root_addr s) t3 = Some t3" using fix_stop [OF zrep_left [OF t3(2)] s] by simp
  then show ?thesis using t1(1) t2(1) t3 zrep_plug [OF t3(2)] by blast
qed

lemma finish_right:
  assumes z: "zrep t gp g (Nd u g c (Nd q p d s)) k" and s: "s \<noteq> Lf"
  shows "\<exists>t1 t2 t3 b. set_color p RB_BLACK t = Some t1 \<and> set_color g RB_RED t1 = Some t2 \<and> rb_rotate_left g t2 = Some t3 \<and>
    rb_insert_fix (root_addr s) t3 = Some t3 \<and> zrep t3 0 b (plug k (Nd (Nd u g RB_RED q) p RB_BLACK s)) []"
proof -
  obtain t1 where t1: "set_color p RB_BLACK t = Some t1" "zrep t1 gp g (Nd u g c (Nd q p RB_BLACK s)) k"
    using color_right [OF z, of RB_BLACK] by blast
  obtain t2 where t2: "set_color g RB_RED t1 = Some t2" "zrep t2 gp g (Nd u g RB_RED (Nd q p RB_BLACK s)) k"
    using set_color_zrep [OF t1(2), of RB_RED] by blast
  obtain t3 where t3: "rb_rotate_left g t2 = Some t3" "zrep t3 gp p (Nd (Nd u g RB_RED q) p RB_BLACK s) k"
    using rotate_left_zrep [OF t2(2)] by blast
  have "rb_insert_fix (root_addr s) t3 = Some t3" using fix_stop [OF zrep_right [OF t3(2)] s] by simp
  then show ?thesis using t1(1) t2(1) t3 zrep_plug [OF t3(2)] by blast
qed

end
