(* ===== verification/Rb_Loop.thy ===== *)
theory Rb_Loop
  imports Rb_Insert
begin

section \<open>The loop is the repair\<close>

text \<open>What the tests of an iteration read.\<close>

lemma rep_red: "rep h p a u \<Longrightarrow> (a \<noteq> 0 \<and> rb_col (h a) = RB_RED) = (col u = RB_RED)"
  by (cases u) auto

lemma rep_addr_in: "rep h p a u \<Longrightarrow> a \<noteq> 0 \<Longrightarrow> a \<in> set (rb_inorder u)"
  by (cases u) auto

lemma node_reads:
  assumes "zrep t p a s k" "s \<noteq> Lf" "k \<noteq> []"
  shows "a = root_addr s" "a \<noteq> 0" "a \<noteq> rb_top t" "rb_parent (rb_mem t a) = p"
proof -
  obtain l x c r where "s = Nd l x c r" using assms(2) by (cases s) auto
  then show "a = root_addr s" "a \<noteq> 0" "a \<noteq> rb_top t" "rb_parent (rb_mem t a) = p"
    using assms zrep_not_top [of t p a l x c r k] by (auto simp: zrep_def)
qed

lemma frame_reads:
  assumes "zrep t p a s (FL x c q # k)"
  shows "p = x" "x \<noteq> 0" "rb_col (rb_mem t x) = c" "rb_left (rb_mem t x) = a" "rb_right (rb_mem t x) = root_addr q"
    "(root_addr q \<noteq> 0 \<and> rb_col (rb_mem t (root_addr q)) = RB_RED) = (col q = RB_RED)" "a \<noteq> 0 \<Longrightarrow> a \<noteq> root_addr q"
proof -
  have z: "rep (rb_mem t) x (rb_right (rb_mem t x)) q" "rep (rb_mem t) x a s" "p = x" "x \<noteq> 0" "rb_col (rb_mem t x) = c" "rb_left (rb_mem t x) = a"
    using assms by (auto simp: zrep_def)
  then show "p = x" "x \<noteq> 0" "rb_col (rb_mem t x) = c" "rb_left (rb_mem t x) = a" by simp_all
  show q: "rb_right (rb_mem t x) = root_addr q" using z(1) rep_addr by blast
  show "(root_addr q \<noteq> 0 \<and> rb_col (rb_mem t (root_addr q)) = RB_RED) = (col q = RB_RED)" using rep_red [OF z(1)] q by simp
  have "distinct (rb_inorder (Nd s x c q))" using assms by (auto simp: zrep_def distinct_plug)
  then show "a \<noteq> 0 \<Longrightarrow> a \<noteq> root_addr q" using rep_addr_in [OF z(1)] rep_addr_in [OF z(2)] q by auto
qed

lemma frame_reads_right:
  assumes "zrep t p a s (FR q x c # k)"
  shows "p = x" "x \<noteq> 0" "rb_col (rb_mem t x) = c" "rb_right (rb_mem t x) = a" "rb_left (rb_mem t x) = root_addr q"
    "(root_addr q \<noteq> 0 \<and> rb_col (rb_mem t (root_addr q)) = RB_RED) = (col q = RB_RED)" "a \<noteq> 0 \<Longrightarrow> a \<noteq> root_addr q"
proof -
  have z: "rep (rb_mem t) x (rb_left (rb_mem t x)) q" "rep (rb_mem t) x a s" "p = x" "x \<noteq> 0" "rb_col (rb_mem t x) = c" "rb_right (rb_mem t x) = a"
    using assms by (auto simp: zrep_def)
  then show "p = x" "x \<noteq> 0" "rb_col (rb_mem t x) = c" "rb_right (rb_mem t x) = a" by simp_all
  show q: "rb_left (rb_mem t x) = root_addr q" using z(1) rep_addr by blast
  show "(root_addr q \<noteq> 0 \<and> rb_col (rb_mem t (root_addr q)) = RB_RED) = (col q = RB_RED)" using rep_red [OF z(1)] q by simp
  have "distinct (rb_inorder (Nd q x c s))" using assms by (auto simp: zrep_def distinct_plug)
  then show "a \<noteq> 0 \<Longrightarrow> a \<noteq> root_addr q" using rep_addr_in [OF z(1)] rep_addr_in [OF z(2)] q by auto
qed

text \<open>The root is black, so that a red parent has a parent.\<close>

definition rooted :: "frame list \<Rightarrow> bool" where
  "rooted k \<longleftrightarrow> (k = [] \<or> frame_col (last k) = RB_BLACK)"

lemma rooted_simps [simp]:
  "rooted []" "rooted [f] \<longleftrightarrow> frame_col f = RB_BLACK" "rooted (f # g # k) \<Longrightarrow> rooted k"
  by (auto simp: rooted_def split: if_splits)

text \<open>The four places of a red node with a red parent below its grandparent.\<close>

lemma fix_step_LL:
  assumes z: "zrep t p' a s (FL p RB_RED q # FL g c u # k)" and s: "s \<noteq> Lf"
  shows "if col u = RB_RED
    then \<exists>t' gp. rb_insert_fix a t = rb_insert_fix g t' \<and> zrep t' gp g (Nd (Nd s p RB_BLACK q) g RB_RED (paint RB_BLACK u)) k
    else \<exists>t' b. rb_insert_fix a t = Some t' \<and> zrep t' 0 b (plug k (Nd s p RB_BLACK (Nd q g RB_RED u))) []"
proof -
  note n = node_reads [OF z s list.distinct(2)] and f = frame_reads [OF z]
  have zp: "zrep t g p (Nd s p RB_RED q) (FL g c u # k)" using z by (auto simp: zrep_FL)
  note gr = frame_reads [OF zp]
  have rp: "rb_parent (rb_mem t p) = g" using zrep_parent [OF zp] .
  obtain gp where zg: "zrep t gp g (Nd (Nd s p RB_RED q) g c u) k" using zrep_up(1) [OF zp] by blast
  note reads = n f rp gr(2-5)
  show ?thesis
  proof (cases "col u = RB_RED")
    case True
    then have "u \<noteq> Lf" by auto
    from recolor_left [OF zg this] obtain t1 t2 t3 where t: "set_color p RB_BLACK t = Some t1"
      "set_color (root_addr u) RB_BLACK t1 = Some t2" "set_color g RB_RED t2 = Some t3"
      "zrep t3 gp g (Nd (Nd s p RB_BLACK q) g RB_RED (paint RB_BLACK u)) k" by blast
    have "rb_insert_fix a t = rb_insert_fix g t3"
      using True t(1-3) reads gr(6) by (subst rb_insert_fix.simps) (auto simp: rb_at_def Let_def)
    with t(4) True show ?thesis by auto
  next
    case False
    from finish_left [OF zg s] obtain t1 t2 t3 b where t: "set_color p RB_BLACK t = Some t1" "set_color g RB_RED t1 = Some t2"
      "rb_rotate_right g t2 = Some t3" "rb_insert_fix (root_addr s) t3 = Some t3"
      "zrep t3 0 b (plug k (Nd s p RB_BLACK (Nd q g RB_RED u))) []" by blast
    have "rb_insert_fix a t = Some t3"
      using False t(1-4) reads gr(6) by (subst rb_insert_fix.simps) (auto simp: rb_at_def Let_def)
    with t(5) False show ?thesis by auto
  qed
qed


lemma fix_step_RR:
  assumes z: "zrep t p' a s (FR q p RB_RED # FR u g c # k)" and s: "s \<noteq> Lf"
  shows "if col u = RB_RED
    then \<exists>t' gp. rb_insert_fix a t = rb_insert_fix g t' \<and> zrep t' gp g (Nd (paint RB_BLACK u) g RB_RED (Nd q p RB_BLACK s)) k
    else \<exists>t' b. rb_insert_fix a t = Some t' \<and> zrep t' 0 b (plug k (Nd (Nd u g RB_RED q) p RB_BLACK s)) []"
proof -
  note n = node_reads [OF z s list.distinct(2)] and f = frame_reads_right [OF z]
  have zp: "zrep t g p (Nd q p RB_RED s) (FR u g c # k)" using z by (auto simp: zrep_FR)
  note gr = frame_reads_right [OF zp]
  have rp: "rb_parent (rb_mem t p) = g" using zrep_parent [OF zp] .
  obtain gp where zg: "zrep t gp g (Nd u g c (Nd q p RB_RED s)) k" using zrep_up(2) [OF zp] by blast
  note reads = n f rp gr(2-5,7)
  show ?thesis
  proof (cases "col u = RB_RED")
    case True
    then have "u \<noteq> Lf" by auto
    from recolor_right [OF zg this] obtain t1 t2 t3 where t: "set_color p RB_BLACK t = Some t1"
      "set_color (root_addr u) RB_BLACK t1 = Some t2" "set_color g RB_RED t2 = Some t3"
      "zrep t3 gp g (Nd (paint RB_BLACK u) g RB_RED (Nd q p RB_BLACK s)) k" by blast
    have "rb_insert_fix a t = rb_insert_fix g t3"
      using True t(1-3) reads gr(6) by (subst rb_insert_fix.simps) (auto simp: rb_at_def Let_def)
    with t(4) True show ?thesis by auto
  next
    case False
    from finish_right [OF zg s] obtain t1 t2 t3 b where t: "set_color p RB_BLACK t = Some t1" "set_color g RB_RED t1 = Some t2"
      "rb_rotate_left g t2 = Some t3" "rb_insert_fix (root_addr s) t3 = Some t3"
      "zrep t3 0 b (plug k (Nd (Nd u g RB_RED q) p RB_BLACK s)) []" by blast
    have "rb_insert_fix a t = Some t3"
      using False t(1-4) reads gr(6) by (subst rb_insert_fix.simps) (auto simp: rb_at_def Let_def)
    with t(5) False show ?thesis by auto
  qed
qed

lemma fix_step_LR:
  assumes z: "zrep t p' a (Nd A x d B) (FR q p RB_RED # FL g c u # k)"
  shows "if col u = RB_RED
    then \<exists>t' gp. rb_insert_fix a t = rb_insert_fix g t' \<and>
      zrep t' gp g (Nd (Nd q p RB_BLACK (Nd A x d B)) g RB_RED (paint RB_BLACK u)) k
    else \<exists>t' b. rb_insert_fix a t = Some t' \<and> zrep t' 0 b (plug k (Nd (Nd q p RB_RED A) x RB_BLACK (Nd B g RB_RED u))) []"
proof -
  note n = node_reads [OF z rbt.distinct(2) list.distinct(2)] and f = frame_reads_right [OF z]
  have zp: "zrep t g p (Nd q p RB_RED (Nd A x d B)) (FL g c u # k)" using z by (auto simp: zrep_FR zrep_FL)
  note gr = frame_reads [OF zp]
  have rp: "rb_parent (rb_mem t p) = g" using zrep_parent [OF zp] .
  obtain gp where zg: "zrep t gp g (Nd (Nd q p RB_RED (Nd A x d B)) g c u) k" using zrep_up(1) [OF zp] by blast
  note reads = n f rp gr(2-5)
  show ?thesis
  proof (cases "col u = RB_RED")
    case True
    then have "u \<noteq> Lf" by auto
    from recolor_left [OF zg this] obtain t1 t2 t3 where t: "set_color p RB_BLACK t = Some t1"
      "set_color (root_addr u) RB_BLACK t1 = Some t2" "set_color g RB_RED t2 = Some t3"
      "zrep t3 gp g (Nd (Nd q p RB_BLACK (Nd A x d B)) g RB_RED (paint RB_BLACK u)) k" by blast
    have "rb_insert_fix a t = rb_insert_fix g t3"
      using True t(1-3) reads gr(6) by (subst rb_insert_fix.simps) (auto simp: rb_at_def Let_def)
    with t(4) True show ?thesis by auto
  next
    case False
    obtain t0 where t0: "rb_rotate_left p t = Some t0" "zrep t0 g x (Nd (Nd q p RB_RED A) x d B) (FL g c u # k)"
      using rotate_left_zrep [OF zp] by blast
    obtain gp' where zg': "zrep t0 gp' g (Nd (Nd (Nd q p RB_RED A) x d B) g c u) k" using zrep_up(1) [OF t0(2)] by blast
    have px: "rb_parent (rb_mem t0 p) = x" using zrep_parent [of t0 x p] zrep_left [OF t0(2)] by simp
    from finish_left [OF zg'] obtain t1 t2 t3 b where t: "set_color x RB_BLACK t0 = Some t1" "set_color g RB_RED t1 = Some t2"
      "rb_rotate_right g t2 = Some t3" "rb_insert_fix p t3 = Some t3"
      "zrep t3 0 b (plug k (Nd (Nd q p RB_RED A) x RB_BLACK (Nd B g RB_RED u))) []" by auto
    have "rb_insert_fix a t = Some t3"
      using False t0(1) t(1-4) reads gr(6) px by (subst rb_insert_fix.simps) (auto simp: rb_at_def Let_def)
    with t(5) False show ?thesis by auto
  qed
qed

lemma fix_step_RL:
  assumes z: "zrep t p' a (Nd A x d B) (FL p RB_RED q # FR u g c # k)"
  shows "if col u = RB_RED
    then \<exists>t' gp. rb_insert_fix a t = rb_insert_fix g t' \<and>
      zrep t' gp g (Nd (paint RB_BLACK u) g RB_RED (Nd (Nd A x d B) p RB_BLACK q)) k
    else \<exists>t' b. rb_insert_fix a t = Some t' \<and> zrep t' 0 b (plug k (Nd (Nd u g RB_RED A) x RB_BLACK (Nd B p RB_RED q))) []"
proof -
  note n = node_reads [OF z rbt.distinct(2) list.distinct(2)] and f = frame_reads [OF z]
  have zp: "zrep t g p (Nd (Nd A x d B) p RB_RED q) (FR u g c # k)" using z by (auto simp: zrep_FR zrep_FL)
  note gr = frame_reads_right [OF zp]
  have rp: "rb_parent (rb_mem t p) = g" using zrep_parent [OF zp] .
  obtain gp where zg: "zrep t gp g (Nd u g c (Nd (Nd A x d B) p RB_RED q)) k" using zrep_up(2) [OF zp] by blast
  note reads = n f rp gr(2-5,7)
  show ?thesis
  proof (cases "col u = RB_RED")
    case True
    then have "u \<noteq> Lf" by auto
    from recolor_right [OF zg this] obtain t1 t2 t3 where t: "set_color p RB_BLACK t = Some t1"
      "set_color (root_addr u) RB_BLACK t1 = Some t2" "set_color g RB_RED t2 = Some t3"
      "zrep t3 gp g (Nd (paint RB_BLACK u) g RB_RED (Nd (Nd A x d B) p RB_BLACK q)) k" by blast
    have "rb_insert_fix a t = rb_insert_fix g t3"
      using True t(1-3) reads gr(6) by (subst rb_insert_fix.simps) (auto simp: rb_at_def Let_def)
    with t(4) True show ?thesis by auto
  next
    case False
    obtain t0 where t0: "rb_rotate_right p t = Some t0" "zrep t0 g x (Nd A x d (Nd B p RB_RED q)) (FR u g c # k)"
      using rotate_right_zrep [OF zp] by blast
    obtain gp' where zg': "zrep t0 gp' g (Nd u g c (Nd A x d (Nd B p RB_RED q))) k" using zrep_up(2) [OF t0(2)] by blast
    have px: "rb_parent (rb_mem t0 p) = x" using zrep_parent [of t0 x p] zrep_right [OF t0(2)] by simp
    from finish_right [OF zg'] obtain t1 t2 t3 b where t: "set_color x RB_BLACK t0 = Some t1" "set_color g RB_RED t1 = Some t2"
      "rb_rotate_left g t2 = Some t3" "rb_insert_fix p t3 = Some t3"
      "zrep t3 0 b (plug k (Nd (Nd u g RB_RED A) x RB_BLACK (Nd B p RB_RED q))) []" by auto
    have "rb_insert_fix a t = Some t3"
      using False t0(1) t(1-4) reads gr(6) px by (subst rb_insert_fix.simps) (auto simp: rb_at_def Let_def)
    with t(5) False show ?thesis by auto
  qed
qed

text \<open>From any node below a black root the loop ends, and leaves what the repair computes.\<close>

lemma fix_plain:
  assumes "zrep t p a s k" "s \<noteq> Lf" "k = [] \<or> (\<exists>f k'. k = f # k' \<and> frame_col f = RB_BLACK)"
  shows "\<exists>t' b. rb_insert_fix a t = Some t' \<and> zrep t' 0 b (plug k s) []"
  using fix_stop [OF assms(1,2)] assms(3) zrep_plug [OF assms(1)] by auto

lemma fix_repair:
  "zrep t p a s k \<Longrightarrow> s \<noteq> Lf \<Longrightarrow> rooted k \<Longrightarrow> \<exists>t' b. rb_insert_fix a t = Some t' \<and> zrep t' 0 b (repair s k) []"
proof (induction s k arbitrary: t p a rule: repair.induct)
  case (1 s x q g c u k)
  note st = fix_step_LL [OF 1(2,3)]
  show ?case
  proof (cases "col u = RB_RED")
    case True
    with st obtain t' gp where "rb_insert_fix a t = rb_insert_fix g t'" "zrep t' gp g (Nd (Nd s x RB_BLACK q) g RB_RED (paint RB_BLACK u)) k" by auto
    with 1(1) [OF True, of t' gp g] True 1(4) show ?thesis by auto
  qed (use st in auto)
next
  case (2 s q x g c u k)
  obtain A y d B where s: "s = Nd A y d B" using 2(3) by (cases s) auto
  note st = fix_step_LR [OF 2(2) [unfolded s]]
  show ?case
  proof (cases "col u = RB_RED")
    case True
    with st obtain t' gp where "rb_insert_fix a t = rb_insert_fix g t'" "zrep t' gp g (Nd (Nd q x RB_BLACK s) g RB_RED (paint RB_BLACK u)) k" by (auto simp: s)
    with 2(1) [OF True, of t' gp g] True 2(4) show ?thesis by auto
  qed (use st in \<open>auto simp: s\<close>)
next
  case (3 s x q u g c k)
  obtain A y d B where s: "s = Nd A y d B" using 3(3) by (cases s) auto
  note st = fix_step_RL [OF 3(2) [unfolded s]]
  show ?case
  proof (cases "col u = RB_RED")
    case True
    with st obtain t' gp where "rb_insert_fix a t = rb_insert_fix g t'" "zrep t' gp g (Nd (paint RB_BLACK u) g RB_RED (Nd s x RB_BLACK q)) k" by (auto simp: s)
    with 3(1) [OF True, of t' gp g] True 3(4) show ?thesis by auto
  qed (use st in \<open>auto simp: s\<close>)
next
  case (4 s q x u g c k)
  note st = fix_step_RR [OF 4(2,3)]
  show ?case
  proof (cases "col u = RB_RED")
    case True
    with st obtain t' gp where "rb_insert_fix a t = rb_insert_fix g t'" "zrep t' gp g (Nd (paint RB_BLACK u) g RB_RED (Nd q x RB_BLACK s)) k" by auto
    with 4(1) [OF True, of t' gp g] True 4(4) show ?thesis by auto
  qed (use st in auto)
qed ((drule (1) fix_plain; auto)+)

end
