(* ===== verification/Rb_Balance.thy ===== *)
theory Rb_Balance
  imports Rb_Loop
begin

section \<open>Red-black trees\<close>

fun bh :: "rbt \<Rightarrow> nat" where
  "bh Lf = 0"
| "bh (Nd l x c r) = bh l + (if c = RB_BLACK then 1 else 0)"

fun bal :: "rbt \<Rightarrow> bool" where
  "bal Lf = True"
| "bal (Nd l x c r) = (bal l \<and> bal r \<and> bh l = bh r)"

fun redok :: "rbt \<Rightarrow> bool" where
  "redok Lf = True"
| "redok (Nd l x c r) = (redok l \<and> redok r \<and> (c = RB_RED \<longrightarrow> col l = RB_BLACK \<and> col r = RB_BLACK))"

definition is_rbt :: "rbt \<Rightarrow> bool" where
  "is_rbt t \<longleftrightarrow> bal t \<and> redok t \<and> col t = RB_BLACK"

text \<open>The same of a context: the heights a subtree of black height \<open>n\<close> fits into, and red steps only below black ones.\<close>

fun cbal :: "frame list \<Rightarrow> nat \<Rightarrow> bool" where
  "cbal [] n = True"
| "cbal (FL x c r # k) n = (bal r \<and> bh r = n \<and> cbal k (n + (if c = RB_BLACK then 1 else 0)))"
| "cbal (FR l x c # k) n = (bal l \<and> bh l = n \<and> cbal k (n + (if c = RB_BLACK then 1 else 0)))"

definition black_above :: "frame list \<Rightarrow> bool" where
  "black_above k \<longleftrightarrow> (\<exists>f k'. k = f # k' \<and> frame_col f = RB_BLACK)"

lemma black_above_simps [simp]: "\<not> black_above []" "black_above (f # k) \<longleftrightarrow> frame_col f = RB_BLACK"
  by (simp_all add: black_above_def)

fun cred :: "frame list \<Rightarrow> bool" where
  "cred [] = True"
| "cred (FL x c r # k) = (redok r \<and> (c = RB_RED \<longrightarrow> col r = RB_BLACK \<and> black_above k) \<and> cred k)"
| "cred (FR l x c # k) = (redok l \<and> (c = RB_RED \<longrightarrow> col l = RB_BLACK \<and> black_above k) \<and> cred k)"

lemma bal_plug: "bal (plug k s) \<longleftrightarrow> bal s \<and> cbal k (bh s)"
  by (induction k s rule: plug.induct) auto

lemma rb_color_cases: "c \<noteq> RB_RED \<longleftrightarrow> c = RB_BLACK" "c \<noteq> RB_BLACK \<longleftrightarrow> c = RB_RED"
  by (cases c; simp)+

lemma redok_plug: "redok s \<Longrightarrow> cred k \<Longrightarrow> col s = RB_BLACK \<or> k = [] \<or> black_above k \<Longrightarrow> redok (plug k s)"
proof (induction k s rule: plug.induct)
  case (2 x c r k t)
  show ?case unfolding plug.simps by (rule 2(1)) (use 2(2-4) in \<open>cases c; auto\<close>)+
next
  case (3 l x c k t)
  show ?case unfolding plug.simps by (rule 3(1)) (use 3(2-4) in \<open>cases c; auto\<close>)+
qed simp

lemma redok_unplug:
  "redok (plug k s) \<Longrightarrow> col (plug k s) = RB_BLACK \<Longrightarrow> redok s \<and> cred k \<and> (col s = RB_RED \<longrightarrow> black_above k)"
proof (induction k s rule: plug.induct)
  case (2 x c r k t)
  then show ?case by (cases c) auto
next
  case (3 l x c k t)
  then show ?case by (cases c) auto
qed simp

lemma cred_rooted: "cred k \<Longrightarrow> rooted k"
proof (induction k rule: cred.induct)
  case (2 x c r k)
  then show ?case by (cases k; cases c) (auto simp: rooted_def)
next
  case (3 l x c k)
  then show ?case by (cases k; cases c) (auto simp: rooted_def)
qed simp

text \<open>The repair of a red node keeps the heights, leaves no red node below a red one, and the order.\<close>

lemma paint_simps [simp]:
  "rb_inorder (paint c t) = rb_inorder t" "bal (paint c t) = bal t" "redok t \<Longrightarrow> redok (paint RB_BLACK t)" "col (paint RB_BLACK t) = RB_BLACK"
  "col t = RB_RED \<Longrightarrow> bh (paint RB_BLACK t) = Suc (bh t)" "bal t \<Longrightarrow> paint c t = Lf \<longleftrightarrow> t = Lf"
  by (cases t; simp)+

lemma inorder_repair: "s \<noteq> Lf \<Longrightarrow> rb_inorder (repair s k) = rb_inorder (plug k s)"
  by (induction s k rule: repair.induct) (auto simp: inorder_plug split: rbt.splits)

lemma bal_repair: "col s = RB_RED \<Longrightarrow> bal s \<Longrightarrow> cred k \<Longrightarrow> cbal k (bh s) \<Longrightarrow> bal (repair s k)"
  by (induction s k rule: repair.induct) (auto simp: bal_plug split: rbt.splits)

lemma redok_repair: "col s = RB_RED \<Longrightarrow> redok s \<Longrightarrow> cred k \<Longrightarrow> redok (repair s k)"
  by (induction s k rule: repair.induct)
    (auto simp: rb_color_cases intro!: redok_plug dest: cred_rooted split: rbt.splits)

section \<open>Height\<close>

fun height :: "rbt \<Rightarrow> nat" where
  "height Lf = 0"
| "height (Nd l x c r) = Suc (max (height l) (height r))"

lemma height_bh: "bal t \<Longrightarrow> redok t \<Longrightarrow> height t \<le> 2 * bh t + (if col t = RB_RED then 1 else 0)"
proof (induction t)
  case (Nd l x c r)
  then show ?case by (cases c; cases "col l"; cases "col r") auto
qed simp

lemma bh_size: "bal t \<Longrightarrow> 2 ^ bh t \<le> Suc (length (rb_inorder t))"
proof (induction t)
  case (Nd l x c r)
  then show ?case by (cases c) auto
qed simp

lemma is_rbt_height:
  assumes "is_rbt t"
  shows "2 ^ (height t div 2) \<le> Suc (length (rb_inorder t))"
proof -
  have "height t \<le> 2 * bh t" using height_bh assms by (force simp: is_rbt_def)
  then have "height t div 2 \<le> bh t" by simp
  then have "(2::nat) ^ (height t div 2) \<le> 2 ^ bh t" by (intro power_increasing) simp_all
  also have "\<dots> \<le> Suc (length (rb_inorder t))" using bh_size assms by (simp add: is_rbt_def)
  finally show ?thesis .
qed

end
