(* ===== verification/Rb_Place.thy ===== *)
theory Rb_Place
  imports Rb_Balance
begin

text \<open>
  Where a new node goes, the whole of an insertion, and sequences of insertions into an empty tree.
\<close>

definition rb_holds :: "rb_root \<Rightarrow> rbt \<Rightarrow> bool" where
  "rb_holds t T \<longleftrightarrow> zrep t 0 (rb_top t) T []"

lemma rb_holds_zrep: "zrep t p a T [] \<Longrightarrow> rb_holds t T"
  by (auto simp: rb_holds_def zrep_def)

text \<open>The comparison orders the nodes by a key.\<close>

definition compares :: "(nat \<Rightarrow> nat \<Rightarrow> int) \<Rightarrow> (nat \<Rightarrow> 'k :: linorder) \<Rightarrow> bool" where
  "compares cmp key \<longleftrightarrow> (\<forall>a b. cmp a b < 0 \<longleftrightarrow> key a < key b)"

fun goes_left :: "frame list \<Rightarrow> bool" where
  "goes_left (FL x c r # k) = True"
| "goes_left _ = False"

definition key_around :: "(nat \<Rightarrow> 'k :: linorder) \<Rightarrow> nat \<Rightarrow> frame list \<Rightarrow> bool" where
  "key_around key n k \<longleftrightarrow> (\<forall>x \<in> set (nodes_before k). key x \<le> key n) \<and> (\<forall>x \<in> set (nodes_after k). key n < key x)"

lemma descend_place:
  assumes "compares cmp key"
  shows "zrep t p a s k \<Longrightarrow> sorted (map key (rb_inorder s)) \<Longrightarrow> key_around key n k \<Longrightarrow> k = [] \<or> side = goes_left k \<Longrightarrow>
    \<exists>p' side' k'. rb_descend cmp n p side a t = Some (p', side') \<and> zrep t p' 0 Lf k' \<and> plug k' Lf = plug k s \<and> key_around key n k' \<and>
      (k' = [] \<or> side' = goes_left k')"
proof (induction s arbitrary: p a k side)
  case Lf
  then show ?case by (subst rb_descend.simps) (auto simp: zrep_def)
next
  case (Nd l x c r)
  have a: "a = x" "x \<noteq> 0" "rb_left (rb_mem t x) = root_addr l" "rb_right (rb_mem t x) = root_addr r"
    using Nd.prems(1) by (auto simp: zrep_def dest: rep_addr)
  have sorted: "sorted (map key (rb_inorder l))" "sorted (map key (rb_inorder r))"
    "\<forall>y \<in> set (rb_inorder l). key y \<le> key x" "\<forall>y \<in> set (rb_inorder r). key x \<le> key y"
    using Nd.prems(2) by (auto simp: sorted_append)
  note z = Nd.prems(1) [unfolded a(1)]
  show ?case
  proof (cases "key n < key x")
    case True
    then have "key_around key n (FL x c r # k)" using Nd.prems(3) sorted(4) by (force simp: key_around_def)
    from Nd.IH(1) [OF zrep_left [OF z] sorted(1) this, of True] True a assms show ?thesis
      by (subst rb_descend.simps) (simp add: compares_def)
  next
    case False
    then have "key_around key n (FR l x c # k)" using Nd.prems(3) sorted(3) by (force simp: key_around_def)
    from Nd.IH(2) [OF zrep_right [OF z] sorted(2) this, of False] False a assms show ?thesis
      by (subst rb_descend.simps) (simp add: compares_def)
  qed
qed

text \<open>The new node hung into its place.\<close>

definition hang :: "nat \<Rightarrow> nat \<Rightarrow> bool \<Rightarrow> rb_root \<Rightarrow> rb_root" where
  "hang node parent side t =
     (let t = upd_rb node (\<lambda>_. \<lparr>rb_parent = parent, rb_left = 0, rb_right = 0, rb_col = RB_RED\<rparr>) t
      in if parent = 0 then t\<lparr>rb_top := node\<rparr>
         else if side then upd_rb parent (\<lambda>p. p\<lparr>rb_left := node\<rparr>) t
         else upd_rb parent (\<lambda>p. p\<lparr>rb_right := node\<rparr>) t)"

lemma hang_zrep:
  assumes z: "zrep t p a Lf k" and n: "n \<noteq> 0" "n \<notin> ctx_nodes k" and side: "k = [] \<or> side = goes_left k"
  shows "zrep (hang n p side t) p n (Nd Lf n RB_RED Lf) k"
proof -
  define t1 where "t1 = upd_rb n (\<lambda>_. \<lparr>rb_parent = p, rb_left = 0, rb_right = 0, rb_col = RB_RED\<rparr>) t"
  have k: "crep (rb_mem t1) (rb_top t1) p a k" and d: "distinct (nodes_before k @ nodes_after k)"
    using z n(2) by (auto simp: zrep_def distinct_plug t1_def upd_rb_mem)
  have h: "hang n p side t = relinked p n k t1"
    using k side by (cases k rule: nodes_before.cases) (auto simp: hang_def relinked_def Let_def t1_def)
  show ?thesis unfolding h using relinked_crep [OF k d, of n] n d
    by (simp add: zrep_def distinct_plug) (simp add: t1_def upd_rb_mem)
qed

theorem rb_insert_place:
  assumes t: "rb_holds t T" "is_rbt T" and s: "sorted (map key (rb_inorder T))" and c: "compares cmp key"
    and n: "n \<noteq> 0" "n \<notin> set (rb_inorder T)"
  shows "\<exists>t' T'. rb_insert cmp n t = Some t' \<and> rb_holds t' T' \<and> is_rbt T' \<and>
    rb_inorder T' = filter (\<lambda>x. key x \<le> key n) (rb_inorder T) @ n # filter (\<lambda>x. key n < key x) (rb_inorder T)"
proof -
  have "zrep t 0 (rb_top t) T []" using t(1) by (simp add: rb_holds_def)
  from descend_place [OF c this s, of n True] obtain p side k where d: "rb_descend cmp n 0 True (rb_top t) t = Some (p, side)"
    "zrep t p 0 Lf k" "plug k Lf = T" "key_around key n k" "k = [] \<or> side = goes_left k" by (auto simp: key_around_def)
  have inT: "rb_inorder T = nodes_before k @ nodes_after k" using d(3) inorder_plug [of k Lf] by simp
  have k: "cbal k 0" "cred k" "rooted k" "n \<notin> ctx_nodes k"
    using t(2) redok_unplug [of k Lf] bal_plug [of k Lf] n(2) d(3) by (auto simp: is_rbt_def inT ctx_nodes_def intro: cred_rooted)
  define N where "N = Nd Lf n RB_RED Lf"
  have N: "N \<noteq> Lf" "col N = RB_RED" "redok N" "bal N" "bh N = 0" "rb_inorder N = [n]" by (simp_all add: N_def)
  have zh: "zrep (hang n p side t) p n N k" unfolding N_def by (rule hang_zrep [OF d(2) n(1) k(4) d(5)])
  from fix_repair [OF zh N(1) k(3)] obtain t1 b where f: "rb_insert_fix n (hang n p side t) = Some t1" "zrep t1 0 b (repair N k) []" by blast
  have R: "rb_inorder (repair N k) = nodes_before k @ n # nodes_after k" "bal (repair N k)" "redok (repair N k)"
    using inorder_repair [OF N(1)] bal_repair [OF N(2,4) k(2)] redok_repair [OF N(2,3) k(2)] k(1) N(5,6) by (simp_all add: inorder_plug)
  then obtain l x c r where T1: "repair N k = Nd l x c r" by (cases "repair N k") auto
  have top: "rb_top t1 = x" "b = x" using f(2) T1 by (simp_all add: zrep_def)
  from set_color_zrep [OF f(2) [unfolded T1 top(2)], of RB_BLACK] obtain t' where t':
    "set_color x RB_BLACK t1 = Some t'" "zrep t' 0 x (Nd l x RB_BLACK r) []" by blast
  have "rb_inorder (Nd l x RB_BLACK r) = filter (\<lambda>x. key x \<le> key n) (rb_inorder T) @ n # filter (\<lambda>x. key n < key x) (rb_inorder T)"
    using R(1) T1 d(4) by (auto simp: inT key_around_def filter_empty_conv not_less intro!: filter_True [symmetric] filter_False [symmetric])
  moreover have "rb_insert cmp n t = Some t'" unfolding rb_insert_def
    using d(1) f(1) t'(1) top n(1) by (simp add: rb_at_def hang_def Let_def)
  moreover have "is_rbt (Nd l x RB_BLACK r)" using R(2,3) T1 by (auto simp: is_rbt_def)
  ultimately show ?thesis using rb_holds_zrep [OF t'(2)] by blast
qed

fun rb_insert_list :: "(nat \<Rightarrow> nat \<Rightarrow> int) \<Rightarrow> nat list \<Rightarrow> rb_root \<Rightarrow> rb_root option" where
  "rb_insert_list cmp [] t = Some t"
| "rb_insert_list cmp (n # ns) t = do { t \<leftarrow> rb_insert cmp n t; rb_insert_list cmp ns t }"

lemma place_sorted:
  fixes key :: "nat \<Rightarrow> 'k :: linorder"
  assumes "sorted (map key xs)"
  shows "sorted (map key (filter (\<lambda>x. key x \<le> key n) xs @ n # filter (\<lambda>x. key n < key x) xs))"
  using assms by (auto simp: sorted_append sorted_filter less_imp_le)

lemma filter_key_split:
  fixes key :: "nat \<Rightarrow> 'k :: linorder"
  shows "filter (\<lambda>x. key x \<le> m \<and> key x = v) xs @ filter (\<lambda>x. m < key x \<and> key x = v) xs = filter (\<lambda>x. key x = v) xs"
proof (cases "v \<le> m")
  case True
  then have "(key x \<le> m \<and> key x = v) = (key x = v)" "(m < key x \<and> key x = v) = False" for x by auto
  then show ?thesis by simp
next
  case False
  then have "(key x \<le> m \<and> key x = v) = False" "(m < key x \<and> key x = v) = (key x = v)" for x by auto
  then show ?thesis by simp
qed

lemma rb_insert_list_sorts:
  fixes key :: "nat \<Rightarrow> 'k :: linorder"
  assumes c: "compares cmp key"
  shows "rb_holds t T \<Longrightarrow> is_rbt T \<Longrightarrow> sorted (map key (rb_inorder T)) \<Longrightarrow> distinct ns \<Longrightarrow> 0 \<notin> set ns \<Longrightarrow> set ns \<inter> set (rb_inorder T) = {} \<Longrightarrow>
    \<exists>t' T'. rb_insert_list cmp ns t = Some t' \<and> rb_holds t' T' \<and> is_rbt T' \<and> sorted (map key (rb_inorder T')) \<and>
      (\<forall>v. filter (\<lambda>x. key x = v) (rb_inorder T') = filter (\<lambda>x. key x = v) (rb_inorder T @ ns)) \<and> length (rb_inorder T') = length (rb_inorder T) + length ns"
proof (induction ns arbitrary: t T)
  case (Cons n ns)
  obtain t1 T1 where t1: "rb_insert cmp n t = Some t1" "rb_holds t1 T1" "is_rbt T1"
    "rb_inorder T1 = filter (\<lambda>x. key x \<le> key n) (rb_inorder T) @ n # filter (\<lambda>x. key n < key x) (rb_inorder T)"
    using rb_insert_place [OF Cons.prems(1-3) c, of n] Cons.prems(5,6) by auto
  have same: "filter (\<lambda>x. key x = v) (rb_inorder T1) = filter (\<lambda>x. key x = v) (rb_inorder T @ [n])" for v
  proof (cases "v = key n")
    case True
    have "(key x \<le> key n \<and> key x = key n) = (key x = key n)" "(key n < key x \<and> key x = key n) = False" for x by auto
    then show ?thesis using True by (simp add: t1(4))
  next
    case False
    then show ?thesis by (simp add: t1(4) filter_key_split)
  qed
  have len: "length (rb_inorder T1) = Suc (length (rb_inorder T))"
    using sum_length_filter_compl [of "\<lambda>x. key x \<le> key n" "rb_inorder T"] by (simp add: t1(4) not_le)
  have "sorted (map key (rb_inorder T1))" unfolding t1(4) by (rule place_sorted [OF Cons.prems(3)])
  moreover have "set (rb_inorder T1) = insert n (set (rb_inorder T))" by (auto simp: t1(4) not_le)
  ultimately obtain t' T' where "rb_insert_list cmp ns t1 = Some t'" "rb_holds t' T'" "is_rbt T'" "sorted (map key (rb_inorder T'))"
    "\<forall>v. filter (\<lambda>x. key x = v) (rb_inorder T') = filter (\<lambda>x. key x = v) (rb_inorder T1 @ ns)" "length (rb_inorder T') = length (rb_inorder T1) + length ns"
    using Cons.IH [OF t1(2,3)] Cons.prems(4-6) by fastforce
  then show ?case using t1(1) same len by (intro exI [of _ t'] exI [of _ T']) (simp only: filter_append, simp)
qed auto

end
