(* ===== verification/Rb_Mend.thy ===== *)
theory Rb_Mend
  imports Rb_Place
begin

text \<open>
  The loop that restores the heights after a removal: what an iteration leaves, for a left child, for a
  right child in the mirror, and for the whole way up.
\<close>

section \<open>The mirror\<close>

lemma flip_colors:
  "set_color a c (flip t) = map_option flip (set_color a c t)" "blacken a (flip t) = flip (blacken a t)"
  "is_black a (flip t) = is_black a t" "rb_at a (flip t) = map_option flip_node (rb_at a t)"
  "flip_node n = n\<lparr>rb_left := rb_right n, rb_right := rb_left n\<rparr>"
  by (auto simp: set_color_def blacken_def is_black_def rb_at_def flip_def upd_rb_def fun_eq_iff flip_node_def)

lemma rotate_left_flip: "rb_rotate_left x (flip t) = map_option flip (rb_rotate_right x t)"
  by (simp add: rotate_right_flip option.map_comp comp_def option.map_ident)

lemma rotate_right_flip': "rb_rotate_right x (flip t) = map_option flip (rb_rotate_left x t)"
  by (simp add: rotate_right_flip)

lemma map_option_bind: "map_option f x \<bind> g = x \<bind> (\<lambda>y. g (f y))"
  by (cases x) simp_all

lemma bind_map_option: "map_option f (x \<bind> g) = x \<bind> (\<lambda>y. map_option f (g y))"
  by (cases x) simp_all

lemma sibling_flip: "right_sibling x p (flip t) = map_option (map_prod id flip) (left_sibling x p t)"
  by (auto simp: right_sibling_def left_sibling_def flip_colors rotate_left_flip rotate_right_flip' map_option_bind bind_map_option
      Let_def case_prod_unfold intro!: Option.bind_cong)

lemma erase_flip: "erase_left p (flip t) = map_option (map_prod id flip) (erase_right p t)"
proof (cases "rb_at p t")
  case (Some n)
  show ?thesis
  proof (cases "rb_at (rb_left n) t")
    case (Some m)
    then show ?thesis using \<open>rb_at p t = Some n\<close>
      by (cases "rb_col m") (simp_all add: erase_left_def erase_right_def flip_colors rotate_left_flip map_option_bind bind_map_option sibling_flip)
  qed (use Some in \<open>simp add: erase_left_def erase_right_def flip_colors\<close>)
qed (simp add: erase_left_def erase_right_def flip_colors)

section \<open>An iteration\<close>

lemma rep_black: "rep (rb_mem t) p a s \<Longrightarrow> is_black a t = (col s = RB_BLACK)"
  by (cases s) (auto simp: is_black_def)

lemma zrep_black: "zrep t p a s k \<Longrightarrow> is_black a t = (col s = RB_BLACK)"
  using rep_black by (auto simp: zrep_def)

lemma blacken_zrep:
  assumes "zrep t p a s k"
  shows "zrep (blacken a t) p a (paint RB_BLACK s) k \<and> rb_top (blacken a t) = rb_top t \<and>
    (\<forall>b. rb_parent (rb_mem (blacken a t) b) = rb_parent (rb_mem t b) \<and> rb_left (rb_mem (blacken a t) b) = rb_left (rb_mem t b) \<and>
      rb_right (rb_mem (blacken a t) b) = rb_right (rb_mem t b))"
proof (cases s)
  case Lf
  then show ?thesis using assms by (auto simp: zrep_def blacken_def)
next
  case (Nd l x c r)
  then have a: "a = x" "x \<noteq> 0" using assms by (auto simp: zrep_def)
  have "blacken x t = the (set_color x RB_BLACK t)" using a(2) by (simp add: blacken_def set_color_def)
  then show ?thesis using set_color_zrep [of t p x l c r k RB_BLACK] assms Nd a(1) by force
qed

lemma blacken_left:
  assumes "zrep t p x (Nd A x c B) k"
  shows "zrep (blacken (root_addr A) t) p x (Nd (paint RB_BLACK A) x c B) k"
  using blacken_zrep [OF zrep_left [OF assms]] zrep_parent [OF assms] by (auto simp: zrep_FL)

lemma blacken_right:
  assumes "zrep t p x (Nd A x c B) k"
  shows "zrep (blacken (root_addr B) t) p x (Nd A x c (paint RB_BLACK B)) k"
  using blacken_zrep [OF zrep_right [OF assms]] zrep_parent [OF assms] by (auto simp: zrep_FR)

lemma zrep_fields:
  assumes "zrep t p x (Nd A x c B) k"
  shows "x \<noteq> 0" "rb_left (rb_mem t x) = root_addr A" "rb_right (rb_mem t x) = root_addr B" "rb_col (rb_mem t x) = c"
    "is_black (root_addr A) t = (col A = RB_BLACK)" "is_black (root_addr B) t = (col B = RB_BLACK)" "rb_at x t = Some (rb_mem t x)"
  using assms zrep_black [OF zrep_left [OF assms]] zrep_black [OF zrep_right [OF assms]]
  by (auto simp: zrep_def rb_at_def dest: rep_addr)

text \<open>What a black sibling with a red child makes of the subtree.\<close>

fun lifted :: "rbt \<Rightarrow> nat \<Rightarrow> rb_color \<Rightarrow> rbt \<Rightarrow> nat \<Rightarrow> rbt \<Rightarrow> rbt" where
  "lifted s p c A x B =
     (if col B = RB_BLACK then (case A of Lf \<Rightarrow> Lf | Nd C y _ D \<Rightarrow> Nd (Nd s p RB_BLACK C) y c (Nd D x RB_BLACK B))
      else Nd (Nd s p RB_BLACK A) x c (paint RB_BLACK B))"

lemma sibling_black:
  assumes z: "zrep t gp p (Nd s p c (Nd A x d B)) k" and b: "col A = RB_BLACK" "col B = RB_BLACK"
  shows "\<exists>t'. right_sibling x p t = Some (False, t') \<and> zrep t' gp p (Nd s p c (Nd A x RB_RED B)) k"
proof -
  have zx: "zrep t p x (Nd A x d B) (FR s p c # k)" using zrep_right [OF z] by simp
  obtain t' where t': "set_color x RB_RED t = Some t'" "zrep t' gp p (Nd s p c (Nd A x RB_RED B)) k"
    using color_right [OF z, of RB_RED] by blast
  then have "right_sibling x p t = Some (False, t')"
    using zrep_fields [OF zx] b by (simp add: right_sibling_def)
  with t'(2) show ?thesis by blast
qed

text \<open>The last steps of that case, with a red outer child.\<close>

lemma sibling_lift:
  assumes z: "zrep t gp p (Nd s p c (Nd A x d B)) k"
  shows "\<exists>t1 t2 t3. set_color x (rb_col (rb_mem t p)) t = Some t1 \<and> set_color p RB_BLACK t1 = Some t2 \<and>
    rb_rotate_left p (blacken (rb_right (rb_mem t2 x)) t2) = Some t3 \<and> zrep t3 gp x (Nd (Nd s p RB_BLACK A) x c (paint RB_BLACK B)) k"
proof -
  obtain t1 where t1: "set_color x c t = Some t1" "zrep t1 gp p (Nd s p c (Nd A x c B)) k" using color_right [OF z, of c] by blast
  obtain t2 where t2: "set_color p RB_BLACK t1 = Some t2" "zrep t2 gp p (Nd s p RB_BLACK (Nd A x c B)) k"
    using set_color_zrep [OF t1(2), of RB_BLACK] by blast
  have zx: "zrep t2 p x (Nd A x c B) (FR s p RB_BLACK # k)" using zrep_right [OF t2(2)] by simp
  define t2' where "t2' = blacken (root_addr B) t2"
  have "zrep t2' p x (Nd A x c (paint RB_BLACK B)) (FR s p RB_BLACK # k)" "rb_parent (rb_mem t2' p) = gp"
    using blacken_right [OF zx] blacken_zrep [OF zrep_right [OF zx]] zrep_parent [OF t2(2)] by (simp_all add: t2'_def)
  then have "zrep t2' gp p (Nd s p RB_BLACK (Nd A x c (paint RB_BLACK B))) k" by (simp add: zrep_FR)
  from rotate_left_zrep [OF this] obtain t3 where "rb_rotate_left p t2' = Some t3"
    "zrep t3 gp x (Nd (Nd s p RB_BLACK A) x c (paint RB_BLACK B)) k" by blast
  then show ?thesis using t1(1) t2(1) zrep_fields(4) [OF z] zrep_fields(3) [OF zx] by (simp add: t2'_def)
qed

lemma sibling_red_child:
  assumes z: "zrep t gp p (Nd s p c (Nd A x d B)) k" and b: "col A = RB_RED \<or> col B = RB_RED"
  shows "\<exists>t'. right_sibling x p t = Some (True, t') \<and> zrep t' gp (root_addr (lifted s p c A x B)) (lifted s p c A x B) k"
proof -
  have zx: "zrep t p x (Nd A x d B) (FR s p c # k)" using zrep_right [OF z] by simp
  show ?thesis
  proof (cases "col B = RB_BLACK")
    case False
    from sibling_lift [OF z] obtain t1 t2 t3 where "set_color x (rb_col (rb_mem t p)) t = Some t1" "set_color p RB_BLACK t1 = Some t2"
      "rb_rotate_left p (blacken (rb_right (rb_mem t2 x)) t2) = Some t3" "zrep t3 gp x (Nd (Nd s p RB_BLACK A) x c (paint RB_BLACK B)) k" by blast
    then show ?thesis using False zrep_fields [OF zx] by (simp add: right_sibling_def Let_def)
  next
    case True
    then obtain C y D where A: "A = Nd C y RB_RED D" using b by (cases A) auto
    define t0 where "t0 = blacken y t"
    have "zrep t0 p x (Nd (Nd C y RB_BLACK D) x d B) (FR s p c # k)" "rb_parent (rb_mem t0 p) = gp"
      using blacken_left [OF zx] blacken_zrep [OF zrep_left [OF zx]] zrep_parent [OF z] by (simp_all add: t0_def A)
    then have z0: "zrep t0 gp p (Nd s p c (Nd (Nd C y RB_BLACK D) x d B)) k" by (simp add: zrep_FR)
    obtain t1 where t1: "set_color x RB_RED t0 = Some t1" "zrep t1 gp p (Nd s p c (Nd (Nd C y RB_BLACK D) x RB_RED B)) k"
      using color_right [OF z0, of RB_RED] by blast
    have "zrep t1 p x (Nd (Nd C y RB_BLACK D) x RB_RED B) (FR s p c # k)" using zrep_right [OF t1(2)] by simp
    from rotate_right_zrep [OF this] obtain t2 where t2: "rb_rotate_right x t1 = Some t2"
      "zrep t2 p y (Nd C y RB_BLACK (Nd D x RB_RED B)) (FR s p c # k)" by blast
    obtain gp' where z2: "zrep t2 gp' p (Nd s p c (Nd C y RB_BLACK (Nd D x RB_RED B))) k" using zrep_up(2) [OF t2(2)] by blast
    have "gp' = gp"
      using z z2 by (cases k rule: nodes_before.cases) (auto simp: zrep_def)
    from sibling_lift [OF z2 [unfolded this]] obtain t3 t4 t5 where "set_color y (rb_col (rb_mem t2 p)) t2 = Some t3" "set_color p RB_BLACK t3 = Some t4"
      "rb_rotate_left p (blacken (rb_right (rb_mem t4 y)) t4) = Some t5" "zrep t5 gp y (Nd (Nd s p RB_BLACK C) y c (Nd D x RB_BLACK B)) k" by auto
    then show ?thesis using True A zrep_fields [OF zx] t1(1) t2(1) zrep_fields(3) [OF z2]
      by (simp add: right_sibling_def Let_def flip: t0_def)
  qed
qed

text \<open>
  What an iteration leaves: a subtree of the old height, or one that lacks a black node and is the next
  child, or a red child below a black parent whose blackening ends the loop.
\<close>

definition mended :: "bool \<Rightarrow> rb_root \<Rightarrow> frame list \<Rightarrow> nat \<Rightarrow> rb_color \<Rightarrow> nat list \<Rightarrow> nat \<Rightarrow> bool" where
  "mended out t k H c xs p \<longleftrightarrow>
     (if out then \<exists>gp T. zrep t gp (root_addr T) T k \<and> bal T \<and> redok T \<and> bh T = H \<and> (col T = RB_RED \<longrightarrow> c = RB_RED) \<and> rb_inorder T = xs
      else (\<exists>gp T. zrep t gp p T k \<and> T \<noteq> Lf \<and> bal T \<and> redok (paint RB_BLACK T) \<and> Suc (bh T) = H \<and> rb_inorder T = xs) \<or>
        (\<exists>gp T f. zrep t gp p T (f # k) \<and> frame_col f = RB_BLACK \<and> col T = RB_RED \<and>
           (let U = plug [f] (paint RB_BLACK T) in bal U \<and> redok U \<and> bh U = H \<and> rb_inorder U = xs)))"

lemma mended_intros:
  "zrep t gp (root_addr T) T k \<and> bal T \<and> redok T \<and> bh T = H \<and> (col T = RB_RED \<longrightarrow> c = RB_RED) \<and> rb_inorder T = xs \<Longrightarrow> mended True t k H c xs p"
  "zrep t gp p T k \<and> T \<noteq> Lf \<and> bal T \<and> redok (paint RB_BLACK T) \<and> Suc (bh T) = H \<and> rb_inorder T = xs \<Longrightarrow> mended False t k H c xs p"
  "zrep t gp p T (f # k) \<and> frame_col f = RB_BLACK \<and> col T = RB_RED \<Longrightarrow>
   (let U = plug [f] (paint RB_BLACK T) in bal U \<and> redok U \<and> bh U = H \<and> rb_inorder U = xs) \<Longrightarrow> mended False t k H c xs p"
  unfolding mended_def by (simp only: if_True if_False, blast)+

definition near :: "bool \<Rightarrow> rb_root \<Rightarrow> nat \<Rightarrow> rbt \<Rightarrow> nat \<Rightarrow> rb_color \<Rightarrow> rbt \<Rightarrow> nat \<Rightarrow> rbt \<Rightarrow> frame list \<Rightarrow> bool" where
  "near out t gp s p c A x B k \<longleftrightarrow>
     (if out then
        (let T = lifted s p c A x B in zrep t gp (root_addr T) T k \<and> bal T \<and> redok T \<and>
           bh T = bh s + 1 + (if c = RB_BLACK then 1 else 0) \<and> (col T = RB_RED \<longrightarrow> c = RB_RED) \<and>
           rb_inorder T = rb_inorder (Nd s p c (Nd A x RB_BLACK B)))
      else
        (let T = Nd s p c (Nd A x RB_RED B) in zrep t gp p T k \<and> bal T \<and> redok (paint RB_BLACK T) \<and>
           bh T = bh s + (if c = RB_BLACK then 1 else 0)))"

lemma near_mended:
  assumes z: "zrep t gp p (Nd s p c (Nd A x RB_BLACK B)) k"
    and b: "bal s" "redok s" "col s = RB_BLACK" "bal A" "bal B" "bh A = bh s" "bh B = bh s" "redok A" "redok B"
  shows "\<exists>out t'. right_sibling x p t = Some (out, t') \<and> near out t' gp s p c A x B k"
proof (cases "col A = RB_BLACK \<and> col B = RB_BLACK")
  case True
  then obtain t' where "right_sibling x p t = Some (False, t')" "zrep t' gp p (Nd s p c (Nd A x RB_RED B)) k"
    using sibling_black [OF z] by blast
  moreover have "near False t' gp s p c A x B k" using calculation(2) True b by (simp add: near_def Let_def)
  ultimately show ?thesis by blast
next
  case False
  then have "col A = RB_RED \<or> col B = RB_RED" by (auto simp: rb_color_cases)
  then obtain t' where t': "right_sibling x p t = Some (True, t')" "zrep t' gp (root_addr (lifted s p c A x B)) (lifted s p c A x B) k"
    using sibling_red_child [OF z] by blast
  have "bal (lifted s p c A x B) \<and> redok (lifted s p c A x B) \<and> bh (lifted s p c A x B) = bh s + 1 + (if c = RB_BLACK then 1 else 0) \<and>
    (col (lifted s p c A x B) = RB_RED \<longrightarrow> c = RB_RED) \<and> rb_inorder (lifted s p c A x B) = rb_inorder (Nd s p c (Nd A x RB_BLACK B))"
    using b False by (cases A; cases "col B"; cases c) (auto simp: rb_color_cases)
  then have "near True t' gp s p c A x B k" using t'(2) by (simp add: near_def Let_def del: lifted.simps)
  with t'(1) show ?thesis by blast
qed

lemma erase_left_mended:
  assumes z: "zrep t gp p (Nd s p c S) k"
    and b: "bal s" "redok s" "col s = RB_BLACK" "bal S" "bh S = Suc (bh s)" "redok S" "c = RB_RED \<longrightarrow> col S = RB_BLACK"
  shows "\<exists>out t'. erase_left p t = Some (out, t') \<and>
    mended out t' k (bh s + 1 + (if c = RB_BLACK then 1 else 0)) c (rb_inorder (Nd s p c S)) p"
proof -
  obtain A x d B where S: "S = Nd A x d B" using b(5) by (cases S) auto
  have zx: "zrep t p x (Nd A x d B) (FR s p c # k)" using zrep_right [OF z] S by simp
  note f = zrep_fields [OF z] zrep_fields [OF zx]
  show ?thesis
  proof (cases d)
    case RB_BLACK
    note z' = z [unfolded S RB_BLACK]
    have "erase_left p t = right_sibling x p t"
      using f S RB_BLACK by (simp add: erase_left_def)
    then obtain out t' where n: "erase_left p t = Some (out, t')" "near out t' gp s p c A x B k"
      using near_mended [OF z' b(1-3)] b S RB_BLACK by auto
    have "mended out t' k (bh s + 1 + (if c = RB_BLACK then 1 else 0)) c (rb_inorder (Nd s p c S)) p"
    proof (cases out)
      case True
      define T where "T = lifted s p c A x B"
      have "zrep t' gp (root_addr T) T k \<and> bal T \<and> redok T \<and> bh T = bh s + 1 + (if c = RB_BLACK then 1 else 0) \<and>
        (col T = RB_RED \<longrightarrow> c = RB_RED) \<and> rb_inorder T = rb_inorder (Nd s p c S)" using n(2) True S by (simp del: lifted.simps add: T_def near_def Let_def)
      then show ?thesis unfolding eqTrueI [OF True] by (rule mended_intros(1))
    next
      case False
      define T where "T = Nd s p c (Nd A x RB_RED B)"
      have "zrep t' gp p T k \<and> T \<noteq> Lf \<and> bal T \<and> redok (paint RB_BLACK T) \<and> Suc (bh T) = bh s + 1 + (if c = RB_BLACK then 1 else 0) \<and>
        rb_inorder T = rb_inorder (Nd s p c S)" using n(2) False S by (simp add: T_def near_def Let_def)
      moreover have "out = False" using False by simp
      ultimately show ?thesis using mended_intros(2) by blast
    qed
    with n(1) show ?thesis by blast
  next
    case RB_RED
    have c: "c = RB_BLACK" using b(7) S RB_RED by (cases c) auto
    have AB: "col A = RB_BLACK" "col B = RB_BLACK" "bal A" "bal B" "bh A = Suc (bh s)" "bh B = Suc (bh s)" "redok A" "redok B"
      using b(4-6) S RB_RED by auto
    obtain C y D where A: "A = Nd C y RB_BLACK D" using AB(1,5) by (cases A) auto
    obtain t1 where t1: "set_color x RB_BLACK t = Some t1" "zrep t1 gp p (Nd s p c (Nd A x RB_BLACK B)) k"
      using color_right [OF z [unfolded S], of RB_BLACK] by blast
    obtain t2 where t2: "set_color p RB_RED t1 = Some t2" "zrep t2 gp p (Nd s p RB_RED (Nd A x RB_BLACK B)) k"
      using set_color_zrep [OF t1(2), of RB_RED] by blast
    obtain t3 where t3: "rb_rotate_left p t2 = Some t3" "zrep t3 gp x (Nd (Nd s p RB_RED A) x RB_BLACK B) k"
      using rotate_left_zrep [OF t2(2)] by blast
    have z3: "zrep t3 x p (Nd s p RB_RED (Nd C y RB_BLACK D)) (FL x RB_BLACK B # k)" using zrep_left [OF t3(2)] A by simp
    have e: "erase_left p t = right_sibling y p t3"
      using f S RB_RED t1(1) t2(1) t3(1) zrep_fields(3) [OF z3] by (simp add: erase_left_def)
    obtain out t' where n: "erase_left p t = Some (out, t')" "near out t' x s p RB_RED C y D (FL x RB_BLACK B # k)"
      unfolding e using near_mended [OF z3 b(1-3)] AB A b(2) by auto
    have "mended out t' k (bh s + 1 + 1) c (rb_inorder (Nd s p c S)) p"
    proof (cases out)
      case True
      define T where "T = Nd (lifted s p RB_RED C y D) x RB_BLACK B"
      have l: "zrep t' x (root_addr (lifted s p RB_RED C y D)) (lifted s p RB_RED C y D) (FL x RB_BLACK B # k)" using n(2) True by (simp del: lifted.simps add: near_def Let_def)
      obtain gp' where "zrep t' gp' (root_addr T) T k" using zrep_up(1) [OF l] by (auto simp: T_def)
      moreover have "bal T \<and> redok T \<and> bh T = bh s + 1 + 1 \<and> (col T = RB_RED \<longrightarrow> c = RB_RED) \<and> rb_inorder T = rb_inorder (Nd s p c S)"
        using n(2) True AB c A by (simp add: T_def S near_def Let_def del: lifted.simps)
      ultimately show ?thesis unfolding eqTrueI [OF True] by (intro mended_intros(1)) blast
    next
      case False
      define T where "T = Nd s p RB_RED (Nd C y RB_RED D)"
      have "zrep t' x p T (FL x RB_BLACK B # k)" "col T = RB_RED" using n(2) False by (simp_all add: T_def near_def Let_def)
      moreover have "let U = plug [FL x RB_BLACK B] (paint RB_BLACK T) in bal U \<and> redok U \<and> bh U = bh s + 1 + 1 \<and> rb_inorder U = rb_inorder (Nd s p c S)"
        using n(2) False AB by (simp add: T_def S A near_def Let_def)
      ultimately show ?thesis using mended_intros(3) [of t' x p T "FL x RB_BLACK B"] False by (metis (full_types) frame_col.simps(1))
    qed
    with n(1) c show ?thesis by auto
  qed
qed

text \<open>The same for a right child, in the mirror.\<close>

lemma col_mirror: "col (mirror t) = col t"
  by (cases t) simp_all

lemma bh_mirror: "bal t \<Longrightarrow> bh (mirror t) = bh t"
  by (induction t) auto

lemma mirror_mirror: "mirror (mirror t) = t"
  by (induction t) simp_all

lemma bal_mirror: "bal (mirror t) = bal t"
  by (induction t) (auto simp: bh_mirror)

lemma redok_mirror: "redok (mirror t) = redok t"
  by (induction t) (auto simp: col_mirror)

lemma paint_mirror: "root_addr (mirror t) = root_addr t" "paint c (mirror t) = mirror (paint c t)" "mirror t = Lf \<longleftrightarrow> t = Lf"
  by (cases t; simp)+

lemmas mirror_facts [simp] = mirror_mirror col_mirror bal_mirror redok_mirror paint_mirror

lemma frame_col_mirror [simp]: "frame_col (mirror_frame f) = frame_col f"
  by (cases f) simp_all

lemma mirror_frame_twice [simp]: "mirror_frame (mirror_frame f) = f"
  by (cases f) simp_all

lemma plug_mirror_frame: "plug [mirror_frame f] (mirror s) = mirror (plug [f] s)"
  by (cases f) simp_all

lemma mended_mirror:
  assumes "mended out (flip t) (map mirror_frame k) H c (rev xs) p"
  shows "mended out t k H c xs p"
proof (cases out)
  case True
  with assms obtain gp T where T: "zrep (flip t) gp (root_addr T) T (map mirror_frame k)" "bal T" "redok T" "bh T = H"
    "col T = RB_RED \<longrightarrow> c = RB_RED" "rb_inorder T = rev xs" unfolding mended_def by (simp only: if_True) blast
  then have "zrep t gp (root_addr (mirror T)) (mirror T) k" using zrep_flip [of t gp "root_addr T" "mirror T" k] by simp
  then have "mended True t k H c xs p"
    using T(2-6) by (intro mended_intros(1) [where T = "mirror T" and gp = gp]) (simp add: bh_mirror)
  with True show ?thesis by simp
next
  case False
  show ?thesis
  proof (cases "\<exists>gp T. zrep (flip t) gp p T (map mirror_frame k) \<and> T \<noteq> Lf \<and> bal T \<and> redok (paint RB_BLACK T) \<and> Suc (bh T) = H \<and> rb_inorder T = rev xs")
    case True
    then obtain gp T where T: "zrep (flip t) gp p T (map mirror_frame k)" "T \<noteq> Lf" "bal T" "redok (paint RB_BLACK T)" "Suc (bh T) = H"
      "rb_inorder T = rev xs" by blast
    have "zrep t gp p (mirror T) k" using zrep_flip [of t gp p "mirror T" k] T(1) by simp
    then have "mended False t k H c xs p"
      using T(2-6) by (intro mended_intros(2) [where T = "mirror T" and gp = gp]) (simp add: bh_mirror)
    with False show ?thesis by simp
  next
    case no: False
    then obtain gp T f where T: "zrep (flip t) gp p T (f # map mirror_frame k)" "frame_col f = RB_BLACK" "col T = RB_RED"
      "bal (plug [f] (paint RB_BLACK T))" "redok (plug [f] (paint RB_BLACK T))" "bh (plug [f] (paint RB_BLACK T)) = H"
      "rb_inorder (plug [f] (paint RB_BLACK T)) = rev xs"
      using assms \<open>\<not> out\<close> unfolding mended_def Let_def by (simp only: if_False) blast
    have "zrep t gp p (mirror T) (mirror_frame f # k)" using zrep_flip [of t gp p "mirror T" "mirror_frame f # k"] T(1) by simp
    then have "mended False t k H c xs p"
      using T(2-7) by (intro mended_intros(3) [where T = "mirror T" and f = "mirror_frame f" and gp = gp])
        (simp_all add: plug_mirror_frame bh_mirror Let_def del: plug.simps)
    with False show ?thesis by simp
  qed
qed

lemma erase_right_mended:
  assumes z: "zrep t gp p (Nd S p c s) k"
    and b: "bal s" "redok s" "col s = RB_BLACK" "bal S" "bh S = Suc (bh s)" "redok S" "c = RB_RED \<longrightarrow> col S = RB_BLACK"
  shows "\<exists>out t'. erase_right p t = Some (out, t') \<and>
    mended out t' k (bh s + 1 + (if c = RB_BLACK then 1 else 0)) c (rb_inorder (Nd S p c s)) p"
proof -
  have "zrep (flip t) gp p (Nd (mirror s) p c (mirror S)) (map mirror_frame k)"
    using zrep_flip [of t gp p "Nd S p c s" k] z by simp
  then obtain out u where u: "erase_left p (flip t) = Some (out, u)"
    "mended out u (map mirror_frame k) (bh s + 1 + (if c = RB_BLACK then 1 else 0)) c (rb_inorder (Nd (mirror s) p c (mirror S))) p"
    using erase_left_mended [of "flip t" gp p "mirror s" c "mirror S" "map mirror_frame k"] b by (auto simp: bh_mirror)
  have "erase_right p t = Some (out, flip u)" using u(1) by (auto simp: erase_flip)
  moreover have "mended out (flip u) k (bh s + 1 + (if c = RB_BLACK then 1 else 0)) c (rb_inorder (Nd S p c s)) p"
    using u(2) by - (rule mended_mirror, simp)
  ultimately show ?thesis by blast
qed

section \<open>The loop\<close>

text \<open>A subtree that lacks a black node, or has a red root to be blackened, in a tree that is else in order.\<close>

definition short :: "rbt \<Rightarrow> frame list \<Rightarrow> bool" where
  "short s k \<longleftrightarrow> bal s \<and> redok (paint RB_BLACK s) \<and> cbal k (Suc (bh s)) \<and> cred k"

lemma rooted_tl: "rooted (f # g # k) = rooted (g # k)"
  by (simp add: rooted_def)

lemma col_plug: "rooted k \<Longrightarrow> k \<noteq> [] \<or> col s = RB_BLACK \<Longrightarrow> col (plug k s) = RB_BLACK"
proof (induction k s rule: plug.induct)
  case (2 x c r k t)
  then show ?case by (cases k) (auto simp: rooted_tl)
next
  case (3 l x c k t)
  then show ?case by (cases k) (auto simp: rooted_tl)
qed simp

lemma rep_zero_top: "zrep t p a s k \<Longrightarrow> k \<noteq> [] \<Longrightarrow> rb_top t \<noteq> 0"
  using crep_top [of "rb_mem t" "rb_top t" p a k] crep_zero [of "rb_mem t" "rb_top t" p a k] unfolding zrep_def by metis

lemma zrep_below_top:
  assumes "zrep t p a s k" "k \<noteq> []"
  shows "a \<noteq> rb_top t"
proof (cases s)
  case Lf
  then show ?thesis using rep_zero_top [OF assms] assms(1) by (auto simp: zrep_def)
qed (use zrep_not_top assms in blast)

text \<open>Where the loop stops at its test.\<close>

lemma mend_stop:
  assumes z: "zrep t p a s k" and s: "k = [] \<or> col s = RB_RED"
    and b: "bal (plug k (paint RB_BLACK s))" "redok (plug k (paint RB_BLACK s))" "rooted k"
  shows "\<exists>t'. rb_erase_fix a p t = Some t' \<and> rb_holds t' (plug k (paint RB_BLACK s)) \<and> is_rbt (plug k (paint RB_BLACK s))"
proof -
  have "\<not> (a \<noteq> rb_top t \<and> is_black a t)" using s zrep_black [OF z] zrep_top [of t p a s] z by auto
  then have "rb_erase_fix a p t = Some (blacken a t)" by (subst rb_erase_fix.simps) (simp only: if_False)
  moreover have "zrep (blacken a t) p a (paint RB_BLACK s) k" using blacken_zrep [OF z] by blast
  then have "rb_holds (blacken a t) (plug k (paint RB_BLACK s))" using zrep_plug rb_holds_zrep by blast
  moreover have "is_rbt (plug k (paint RB_BLACK s))" using b col_plug [of k "paint RB_BLACK s"] by (simp add: is_rbt_def)
  ultimately show ?thesis by blast
qed

lemma mend_red:
  assumes z: "zrep t p a s k" and s: "col s = RB_RED" "short s k"
  shows "\<exists>t' T. rb_erase_fix a p t = Some t' \<and> rb_holds t' T \<and> is_rbt T \<and> rb_inorder T = rb_inorder (plug k s)"
proof -
  have b: "bal s" "redok (paint RB_BLACK s)" "cbal k (Suc (bh s))" "cred k" using s(2) by (simp_all add: short_def)
  then have "bal (plug k (paint RB_BLACK s))" "redok (plug k (paint RB_BLACK s))"
    using s(1) redok_plug [OF b(2,4)] by (simp_all add: bal_plug)
  from mend_stop [OF z _ this cred_rooted [OF b(4)]] s(1) obtain t' where "rb_erase_fix a p t = Some t'"
    "rb_holds t' (plug k (paint RB_BLACK s))" "is_rbt (plug k (paint RB_BLACK s))" by auto
  then show ?thesis by (intro exI [of _ t'] exI [of _ "plug k (paint RB_BLACK s)"]) (simp add: inorder_plug)
qed

text \<open>An iteration and what follows it, whichever side the child is on.\<close>

lemma mend_iterate:
  assumes m: "mended out t k H c xs p"
    and IH: "\<And>t p a s. zrep t p a s k \<Longrightarrow> short s k \<Longrightarrow>
      \<exists>t' T. rb_erase_fix a p t = Some t' \<and> rb_holds t' T \<and> is_rbt T \<and> rb_inorder T = rb_inorder (plug k s)"
    and k: "cbal k H" "cred k" "c = RB_RED \<longrightarrow> black_above k"
  shows "\<exists>t' T. (if out then Some (blacken (rb_top t) t) else rb_erase_fix p (rb_parent (rb_mem t p)) t) = Some t' \<and>
    rb_holds t' T \<and> is_rbt T \<and> rb_inorder T = nodes_before k @ xs @ nodes_after k"
proof (cases out)
  case True
  with m obtain gp T where T: "zrep t gp (root_addr T) T k" "bal T" "redok T" "bh T = H" "col T = RB_RED \<longrightarrow> c = RB_RED" "rb_inorder T = xs"
    unfolding mended_def by (simp only: if_True) blast
  define W where "W = plug k T"
  have h: "col T = RB_BLACK \<or> black_above k" using T(5) k(3) by (cases "col T") auto
  then have "k \<noteq> [] \<or> col T = RB_BLACK" by auto
  from col_plug [OF cred_rooted [OF k(2)] this] have "col W = RB_BLACK" by (simp add: W_def)
  then have W: "bal W" "redok W" "col W = RB_BLACK" "rb_inorder W = nodes_before k @ xs @ nodes_after k"
    using T k h bal_plug redok_plug [OF T(3) k(2)]
    by (auto simp: W_def inorder_plug)
  obtain b where "zrep t 0 b W []" using zrep_plug [OF T(1)] by (auto simp: W_def)
  then have "zrep t 0 (rb_top t) W []" by (auto simp: zrep_def)
  from blacken_zrep [OF this] have "zrep (blacken (rb_top t) t) 0 (rb_top t) (paint RB_BLACK W) []" by blast
  moreover have "paint RB_BLACK W = W" using W(3) by (cases W) auto
  ultimately have "rb_holds (blacken (rb_top t) t) W" by (simp add: rb_holds_zrep)
  then show ?thesis using True W by (auto simp: is_rbt_def)
next
  case False
  show ?thesis
  proof (cases "\<exists>gp T. zrep t gp p T k \<and> T \<noteq> Lf \<and> bal T \<and> redok (paint RB_BLACK T) \<and> Suc (bh T) = H \<and> rb_inorder T = xs")
    case True
    then obtain gp T where T: "zrep t gp p T k" "T \<noteq> Lf" "bal T" "redok (paint RB_BLACK T)" "Suc (bh T) = H" "rb_inorder T = xs" by blast
    have "rb_parent (rb_mem t p) = gp" using T(1,2) by (cases T) (auto simp: zrep_def)
    moreover have "short T k" using T k by (simp add: short_def)
    ultimately show ?thesis using IH [OF T(1)] False T(6) by (simp add: inorder_plug)
  next
    case no: False
    then obtain gp T f where T: "zrep t gp p T (f # k)" "frame_col f = RB_BLACK" "col T = RB_RED"
      "bal (plug [f] (paint RB_BLACK T))" "redok (plug [f] (paint RB_BLACK T))" "bh (plug [f] (paint RB_BLACK T)) = H"
      "rb_inorder (plug [f] (paint RB_BLACK T)) = xs"
      using m \<open>\<not> out\<close> unfolding mended_def Let_def by (simp only: if_False) blast
    define U where "U = plug [f] (paint RB_BLACK T)"
    have U: "plug (f # k) (paint RB_BLACK T) = plug k U" "col U = RB_BLACK" using T(2) by (cases f; simp add: U_def)+
    have "rb_parent (rb_mem t p) = gp" using T(1,3) by (cases T) (auto simp: zrep_def)
    moreover have "bal (plug k U)" "redok (plug k U)" using T(4-6) k(1,2) U(2) bal_plug redok_plug by (simp_all flip: U_def)
    moreover have "rooted (f # k)" using cred_rooted [OF k(2)] T(2) by (auto simp: rooted_def)
    ultimately obtain t' where "rb_erase_fix p (rb_parent (rb_mem t p)) t = Some t'" "rb_holds t' (plug k U)" "is_rbt (plug k U)"
      using mend_stop [OF T(1)] T(3) unfolding U(1) by auto
    then show ?thesis using False T(7) by (intro exI [of _ t'] exI [of _ "plug k U"]) (simp add: inorder_plug flip: U_def)
  qed
qed

lemma erase_fix_mends:
  "zrep t p a s k \<Longrightarrow> short s k \<Longrightarrow>
    \<exists>t' T. rb_erase_fix a p t = Some t' \<and> rb_holds t' T \<and> is_rbt T \<and> rb_inorder T = rb_inorder (plug k s)"
proof (induction k arbitrary: t p a s rule: nodes_before.induct)
  case 1
  then have "short s []" "zrep t p a s []" by simp_all
  with mend_stop [of t p a s "[]"] obtain t' where "rb_erase_fix a p t = Some t'" "rb_holds t' (paint RB_BLACK s)"
    "is_rbt (paint RB_BLACK s)" by (auto simp: short_def)
  then show ?case by (intro exI [of _ t'] exI [of _ "paint RB_BLACK s"]) simp
next
  case (2 x c r k)
  have b: "bal s" "redok (paint RB_BLACK s)" "bal r" "redok r" "bh r = Suc (bh s)" "cred k" "cred (FL x c r # k)"
    "c = RB_RED \<longrightarrow> col r = RB_BLACK \<and> black_above k" "cbal k (bh s + 1 + (if c = RB_BLACK then 1 else 0))" using 2(3) by (simp_all add: short_def)
  show ?case
  proof (cases "col s")
    case RB_RED
    then show ?thesis using mend_red 2(2,3) by blast
  next
    case RB_BLACK
    then have rs: "redok s" using b(2) by (cases s) auto
    note f = frame_reads [OF 2(2)]
    obtain gp where zx: "zrep t gp x (Nd s x c r) k" using zrep_up(1) [OF 2(2)] by blast
    from erase_left_mended [OF zx b(1) rs RB_BLACK b(3,5,4)] b(8) obtain out t' where e: "erase_left x t = Some (out, t')"
      "mended out t' k (bh s + 1 + (if c = RB_BLACK then 1 else 0)) c (rb_inorder (Nd s x c r)) x" by blast
    have "rb_erase_fix a p t = (if out then Some (blacken (rb_top t') t') else rb_erase_fix x (rb_parent (rb_mem t' x)) t')"
      using zrep_below_top [OF 2(2)] zrep_black [OF 2(2)] RB_BLACK f(1,2,4) e(1) by (subst rb_erase_fix.simps) (simp add: rb_at_def)
    then show ?thesis using mend_iterate [OF e(2) 2(1) b(9,6)] b(8) by (simp add: inorder_plug)
  qed
next
  case (3 l x c k)
  have b: "bal s" "redok (paint RB_BLACK s)" "bal l" "redok l" "bh l = Suc (bh s)" "cred k" "cred (FR l x c # k)"
    "c = RB_RED \<longrightarrow> col l = RB_BLACK \<and> black_above k" "cbal k (bh s + 1 + (if c = RB_BLACK then 1 else 0))" using 3(3) by (simp_all add: short_def)
  show ?case
  proof (cases "col s")
    case RB_RED
    then show ?thesis using mend_red 3(2,3) by blast
  next
    case RB_BLACK
    then have rs: "redok s" using b(2) by (cases s) auto
    note f = frame_reads_right [OF 3(2)]
    obtain gp where zx: "zrep t gp x (Nd l x c s) k" using zrep_up(2) [OF 3(2)] by blast
    from erase_right_mended [OF zx b(1) rs RB_BLACK b(3,5,4)] b(8) obtain out t' where e: "erase_right x t = Some (out, t')"
      "mended out t' k (bh s + 1 + (if c = RB_BLACK then 1 else 0)) c (rb_inorder (Nd l x c s)) x" by blast
    have "root_addr l \<noteq> 0" using b(5) zrep_fields(1) [of t x "root_addr l"] zrep_left [OF zx] by (cases l) (auto simp: zrep_def)
    then have "a \<noteq> rb_left (rb_mem t x)" using f(5,7) by auto
    then have "rb_erase_fix a p t = (if out then Some (blacken (rb_top t') t') else rb_erase_fix x (rb_parent (rb_mem t' x)) t')"
      using zrep_below_top [OF 3(2)] zrep_black [OF 3(2)] RB_BLACK f(1,2) e(1) by (subst rb_erase_fix.simps) (simp add: rb_at_def)
    then show ?thesis using mend_iterate [OF e(2) 3(1) b(9,6)] b(8) by (simp add: inorder_plug)
  qed
qed

end
