(* ===== verification/Rb_Erase.thy ===== *)
theory Rb_Erase
  imports Rb_Mend
begin

text \<open>
  Removal of a node, and the traversals.  The removal is right unless the node has two children and its
  successor is a black node that is not its right child.
\<close>

section \<open>Traversal\<close>

lemma leftmost_first: "zrep t p a s k \<Longrightarrow> s \<noteq> Lf \<Longrightarrow> leftmost a t = Some (hd (rb_inorder s))"
proof (induction s arbitrary: p a k)
  case (Nd l x c r)
  then have a: "a = x" by (simp add: zrep_def)
  note z = Nd.prems(1) [unfolded a]
  show ?case
  proof (cases l)
    case Lf
    then show ?thesis using a zrep_fields(2) [OF z] by (subst leftmost.simps) simp
  next
    case (Nd l' y d r')
    then have "root_addr l \<noteq> 0" using zrep_left [OF z] by (auto simp: zrep_def)
    moreover have "leftmost (root_addr l) t = Some (hd (rb_inorder l))" using Nd.IH(1) [OF zrep_left [OF z]] Nd by simp
    ultimately show ?thesis using a zrep_fields(2) [OF z] Nd by (subst leftmost.simps) (simp add: hd_append)
  qed
qed simp

lemma rightmost_last: "zrep t p a s k \<Longrightarrow> s \<noteq> Lf \<Longrightarrow> rightmost a t = Some (last (rb_inorder s))"
proof (induction s arbitrary: p a k)
  case (Nd l x c r)
  then have a: "a = x" by (simp add: zrep_def)
  note z = Nd.prems(1) [unfolded a]
  show ?case
  proof (cases r)
    case Lf
    then show ?thesis using a zrep_fields(3) [OF z] by (subst rightmost.simps) simp
  next
    case (Nd l' y d r')
    then have "root_addr r \<noteq> 0" using zrep_right [OF z] by (auto simp: zrep_def)
    moreover have "rightmost (root_addr r) t = Some (last (rb_inorder r))" using Nd.IH(2) [OF zrep_right [OF z]] Nd by simp
    ultimately show ?thesis using a zrep_fields(3) [OF z] Nd by (subst rightmost.simps) simp
  qed
qed simp

definition head_or_zero :: "nat list \<Rightarrow> nat" where
  "head_or_zero xs = (case xs of [] \<Rightarrow> 0 | x # _ \<Rightarrow> x)"

definition last_or_zero :: "nat list \<Rightarrow> nat" where
  "last_or_zero xs = (if xs = [] then 0 else last xs)"

lemma head_append: "xs \<noteq> [] \<Longrightarrow> head_or_zero (xs @ ys) = hd xs"
  by (cases xs) (simp_all add: head_or_zero_def)

lemma up_right_next: "zrep t p a s k \<Longrightarrow> s \<noteq> Lf \<Longrightarrow> up_from_right a t = Some (head_or_zero (nodes_after k))"
proof (induction k arbitrary: p a s rule: nodes_after.induct)
  case 1
  then show ?case by (cases s) (auto simp: zrep_def head_or_zero_def up_from_right.simps)
next
  case (2 x c r k)
  note n = node_reads [OF 2(2,3) list.distinct(2)] and f = frame_reads [OF 2(2)]
  show ?case using n f by (subst up_from_right.simps) (auto simp: head_or_zero_def)
next
  case (3 l x c k)
  note n = node_reads [OF 3(2,3) list.distinct(2)] and f = frame_reads_right [OF 3(2)]
  obtain gp where "zrep t gp x (Nd l x c s) k" using zrep_up(2) [OF 3(2)] by blast
  from 3(1) [OF this] show ?case using n f by (subst up_from_right.simps) simp
qed

lemma up_left_prev: "zrep t p a s k \<Longrightarrow> s \<noteq> Lf \<Longrightarrow> up_from_left a t = Some (last_or_zero (nodes_before k))"
proof (induction k arbitrary: p a s rule: nodes_after.induct)
  case 1
  then show ?case by (cases s) (auto simp: zrep_def last_or_zero_def up_from_left.simps)
next
  case (3 l x c k)
  note n = node_reads [OF 3(2,3) list.distinct(2)] and f = frame_reads_right [OF 3(2)]
  show ?case using n f by (subst up_from_left.simps) (auto simp: last_or_zero_def)
next
  case (2 x c r k)
  note n = node_reads [OF 2(2,3) list.distinct(2)] and f = frame_reads [OF 2(2)]
  obtain gp where "zrep t gp x (Nd s x c r) k" using zrep_up(1) [OF 2(2)] by blast
  from 2(1) [OF this] show ?case using n f by (subst up_from_left.simps) simp
qed

lemma locate: "zrep t p a s k \<Longrightarrow> x \<in> set (rb_inorder s) \<Longrightarrow>
    \<exists>p' l c r k'. zrep t p' x (Nd l x c r) k' \<and> plug k' (Nd l x c r) = plug k s"
proof (induction s arbitrary: p a k)
  case (Nd l y c r)
  then have a: "a = y" by (simp add: zrep_def)
  note z = Nd.prems(1) [unfolded a]
  consider "x = y" | "x \<in> set (rb_inorder l)" | "x \<in> set (rb_inorder r)" using Nd.prems(2) by auto
  then show ?case
  proof cases
    case 1
    then show ?thesis using z by blast
  next
    case 2
    from Nd.IH(1) [OF zrep_left [OF z] this] show ?thesis by simp
  next
    case 3
    from Nd.IH(2) [OF zrep_right [OF z] this] show ?thesis by simp
  qed
qed simp

lemma rb_holds_locate:
  assumes "rb_holds t T" "rb_inorder T = xs @ x # ys"
  shows "\<exists>p l c r k. zrep t p x (Nd l x c r) k \<and> plug k (Nd l x c r) = T \<and> xs = nodes_before k @ rb_inorder l \<and> ys = rb_inorder r @ nodes_after k"
proof -
  have z: "zrep t 0 (rb_top t) T []" using assms(1) by (simp add: rb_holds_def)
  have "x \<in> set (rb_inorder T)" using assms(2) by simp
  from locate [OF z this] obtain p l c r k where zx: "zrep t p x (Nd l x c r) k" "plug k (Nd l x c r) = T" by auto
  have "(nodes_before k @ rb_inorder l) @ x # (rb_inorder r @ nodes_after k) = xs @ x # ys" using zx(2) assms(2) by (auto simp: inorder_plug)
  moreover have "distinct (xs @ x # ys)" using z assms(2) by (simp add: zrep_def)
  ultimately have "xs = nodes_before k @ rb_inorder l \<and> ys = rb_inorder r @ nodes_after k"
    by (metis append_Cons_eq_iff distinct.simps(2) distinct_append disjoint_iff list.set_intros(1) not_distinct_conv_prefix)
  with zx show ?thesis by blast
qed

lemma rb_traversal:
  assumes "rb_holds t T"
  shows "rb_first t = Some (head_or_zero (rb_inorder T)) \<and> rb_last t = Some (last_or_zero (rb_inorder T)) \<and>
    (\<forall>xs x ys. rb_inorder T = xs @ x # ys \<longrightarrow> rb_next x t = Some (head_or_zero ys) \<and> rb_prev x t = Some (last_or_zero xs))"
proof (intro conjI allI impI)
  have z: "zrep t 0 (rb_top t) T []" using assms by (simp add: rb_holds_def)
  show "rb_first t = Some (head_or_zero (rb_inorder T))" "rb_last t = Some (last_or_zero (rb_inorder T))"
    using leftmost_first [OF z] rightmost_last [OF z] z
    by (cases T; auto simp: rb_first_def rb_last_def zrep_def head_or_zero_def last_or_zero_def hd_append split: list.splits)+
  fix xs x ys assume "rb_inorder T = xs @ x # ys"
  from rb_holds_locate [OF assms this] obtain p l c r k where zx: "zrep t p x (Nd l x c r) k" and e: "xs = nodes_before k @ rb_inorder l" "ys = rb_inorder r @ nodes_after k" by blast
  note f = zrep_fields [OF zx]
  show "rb_next x t = Some (head_or_zero ys)"
  proof (cases r)
    case Lf
    then show ?thesis using f up_right_next [OF zx] e by (simp add: rb_next_def)
  next
    case (Nd l' y d r')
    then have "root_addr r \<noteq> 0" using zrep_right [OF zx] by (auto simp: zrep_def)
    moreover have "leftmost (root_addr r) t = Some (hd (rb_inorder r))" "rb_inorder r \<noteq> []" using leftmost_first [OF zrep_right [OF zx]] Nd by simp_all
    ultimately show ?thesis using f e by (simp add: rb_next_def head_append)
  qed
  show "rb_prev x t = Some (last_or_zero xs)"
  proof (cases l)
    case Lf
    then show ?thesis using f up_left_prev [OF zx] e by (simp add: rb_prev_def)
  next
    case (Nd l' y d r')
    then have "root_addr l \<noteq> 0" using zrep_left [OF zx] by (auto simp: zrep_def)
    moreover have "rightmost (root_addr l) t = Some (last (rb_inorder l))" "rb_inorder l \<noteq> []" using rightmost_last [OF zrep_left [OF zx]] Nd by simp_all
    ultimately show ?thesis using f e by (simp add: rb_prev_def last_or_zero_def)
  qed
qed

section \<open>Removal\<close>

lemma relinked_same: "rb_mem (relinked p a k t) b = rb_mem t b \<or> b = p"
  by (cases k rule: nodes_before.cases) (auto simp: relinked_def upd_rb_def)

text \<open>A node with one child at most is replaced by that child.\<close>

lemma unlink_zrep:
  assumes z: "zrep t p x (Nd l x c r) k" and s: "r = Lf \<and> s = l \<or> l = Lf \<and> s = r"
  defines "t1 \<equiv> rb_adopt (root_addr s) p t"
  shows "rb_parent (rb_mem t1 x) = p" "zrep (rb_relink p x (root_addr s) t1) p (root_addr s) s k"
    "rb_mem (rb_relink p x (root_addr s) t1) x = rb_mem t x"
proof -
  have d: "distinct (nodes_before k @ nodes_after k)" "distinct (rb_inorder s)" "set (rb_inorder s) \<inter> ctx_nodes k = {}"
    "x \<notin> set (rb_inorder s)" "x \<notin> ctx_nodes k" "x \<noteq> 0" and k: "crep (rb_mem t) (rb_top t) p x k"
    using z s by (auto simp: zrep_def distinct_plug)
  have "rep (rb_mem t) x (root_addr s) s" using zrep_left [OF z] zrep_right [OF z] s by (auto simp: zrep_def)
  note ad = adopt_rep [OF this d(2), where p' = p, folded t1_def]
  have x1: "rb_mem t1 x = rb_mem t x" using ad(3) d(4) by simp
  then show "rb_parent (rb_mem t1 x) = p" using zrep_parent [OF z] by simp
  have "\<forall>b \<in> ctx_nodes k. rb_mem t1 b = rb_mem t b" using ad(3) d(3) by blast
  then have k1: "crep (rb_mem t1) (rb_top t1) p x k" using k crep_cong [of k "rb_mem t1" "rb_mem t"] ad(2) by simp
  have e: "rb_relink p x (root_addr s) t1 = relinked p (root_addr s) k t1" using relink_relinked(1) [OF k1 d(6,5)] .
  note rl = relinked_crep [OF k1 d(1), where a' = "root_addr s"]
  have "rep (rb_mem (relinked p (root_addr s) k t1)) p (root_addr s) s"
    using ad(1) rl(2) rep_cong [of s "rb_mem (relinked p (root_addr s) k t1)" "rb_mem t1"] d(3) by blast
  then show "zrep (rb_relink p x (root_addr s) t1) p (root_addr s) s k" using rl(1) d by (auto simp: e zrep_def distinct_plug)
  show "rb_mem (rb_relink p x (root_addr s) t1) x = rb_mem t x" using rl(2) d(5) x1 by (simp add: e)
qed

lemma rbt_place:
  assumes "is_rbt (plug k (Nd l x c r))"
  shows "bal l" "bal r" "bh l = bh r" "redok l" "redok r" "cred k" "cbal k (bh l + (if c = RB_BLACK then 1 else 0))"
    "c = RB_RED \<Longrightarrow> col l = RB_BLACK \<and> col r = RB_BLACK \<and> black_above k" "rooted k"
  using redok_unplug [of k "Nd l x c r"] assms cred_rooted [of k] by (auto simp: is_rbt_def bal_plug)

lemma black_leaf: "bh s = 0 \<Longrightarrow> col s = RB_BLACK \<Longrightarrow> s = Lf"
  by (cases s) auto

lemma redok_paint: "redok s \<Longrightarrow> redok (paint RB_BLACK s)"
  by simp

lemma is_rbt_plug:
  assumes "bal s" "redok s" "cbal k (bh s)" "cred k" "col s = RB_BLACK \<or> black_above k"
  shows "is_rbt (plug k s)"
proof -
  have "k \<noteq> [] \<or> col s = RB_BLACK" using assms(5) by auto
  then have "col (plug k s) = RB_BLACK" using col_plug [OF cred_rooted [OF assms(4)]] by simp
  then show ?thesis using assms redok_plug [OF assms(2,4)] by (auto simp: is_rbt_def bal_plug)
qed

lemma erase_one_child:
  assumes z: "zrep t p x (Nd l x c r) k" and b: "is_rbt (plug k (Nd l x c r))" and one: "l = Lf \<or> r = Lf"
  shows "\<exists>t' T. rb_erase x t = Some t' \<and> rb_holds t' T \<and> is_rbt T \<and> rb_inorder T = nodes_before k @ rb_inorder l @ rb_inorder r @ nodes_after k"
proof -
  define s where "s = (if l = Lf then r else l)"
  have s: "r = Lf \<and> s = l \<or> l = Lf \<and> s = r" "rb_inorder s = rb_inorder l @ rb_inorder r" using one by (auto simp: s_def)
  note f = zrep_fields [OF z] and u = unlink_zrep [OF z s(1)] and pl = rbt_place [OF b]
  define t2 where "t2 = rb_relink p x (root_addr s) (rb_adopt (root_addr s) p t)"
  have "root_addr l = 0 \<longleftrightarrow> l = Lf" using zrep_left [OF z] by (cases l) (auto simp: zrep_def)
  moreover have "root_addr r = 0 \<longleftrightarrow> r = Lf" using zrep_right [OF z] by (cases r) (auto simp: zrep_def)
  ultimately have ch: "(root_addr l \<noteq> 0 \<and> root_addr r \<noteq> 0) = False" "(if root_addr l = 0 then root_addr r else root_addr l) = root_addr s" using one by (auto simp: s_def)
  have e: "rb_erase x t = (if c = RB_BLACK then rb_erase_fix (root_addr s) p t2 else Some t2)"
    by (simp only: rb_erase_def f(7) Option.bind.bind_lunit f(2,3) ch if_False Let_def zrep_parent [OF z] u(1) flip: t2_def)
      (simp add: u(3) [folded t2_def] f(4) zrep_parent [OF z])
  have sb: "bal s" "redok s" "bh s = bh l" using pl(1-5) by (simp_all add: s_def)
  show ?thesis
  proof (cases c)
    case RB_RED
    then have "l = Lf" "r = Lf" using pl(3,8) one black_leaf by auto
    then have sl: "s = Lf" by (simp add: s_def)
    have "is_rbt (plug k Lf)" using is_rbt_plug [of Lf k] pl(6,7) RB_RED \<open>l = Lf\<close> by simp
    moreover have "rb_holds t2 (plug k Lf)" using zrep_plug [OF u(2)] rb_holds_zrep sl by (auto simp: t2_def)
    ultimately show ?thesis using e RB_RED s(2) sl by (intro exI [of _ t2] exI [of _ "plug k Lf"]) (auto simp: inorder_plug)
  next
    case RB_BLACK
    then have "short s k" using sb pl(6,7) by (simp add: short_def)
    from erase_fix_mends [OF u(2) this] show ?thesis using e RB_BLACK s(2) by (simp add: t2_def inorder_plug)
  qed
qed

end
