(* ===== verification/Rb_Replace.thy ===== *)
theory Rb_Replace
  imports Rb_Erase
begin

text \<open>A node with two children gives its place to the leftmost node of its right subtree.\<close>

section \<open>The successor takes the place\<close>

lemma place_zrep:
  assumes n: "rb_left (rb_mem t x) = root_addr l" "rb_parent (rb_mem t x) = p" "rb_col (rb_mem t x) = c" "x \<noteq> 0" "y \<noteq> 0" "l \<noteq> Lf"
    and l: "rep (rb_mem t) x (root_addr l) l" and r: "rep (rb_mem t) y (rb_right (rb_mem t y)) r"
    and k: "crep (rb_mem t) (rb_top t) p x k"
    and d: "distinct (rb_inorder (plug k (Nd l y c r)))" "x \<notin> set (rb_inorder (plug k (Nd l y c r)))"
  shows "\<exists>t'. put_in_place x y t = Some (rb_col (rb_mem t y), t') \<and> zrep t' p y (Nd l y c r) k \<and> rb_right (rb_mem t' y) = rb_right (rb_mem t y)"
proof -
  define t1 where "t1 = upd_rb y (\<lambda>n. n\<lparr>rb_left := root_addr l\<rparr>) t"
  define t2 where "t2 = upd_rb (root_addr l) (\<lambda>n. n\<lparr>rb_parent := y\<rparr>) t1"
  define t3 where "t3 = upd_rb y (\<lambda>n. n\<lparr>rb_col := c\<rparr>) t2"
  have D: "distinct (nodes_before k @ nodes_after k)" "distinct (rb_inorder (Nd l y c r))" "set (rb_inorder (Nd l y c r)) \<inter> ctx_nodes k = {}"
    using d(1) by (simp_all only: distinct_plug)
  have X: "x \<notin> ctx_nodes k" "x \<noteq> y" "x \<notin> set (rb_inorder l)" "x \<notin> set (rb_inorder r)"
    using d(2) by (simp_all add: inorder_plug ctx_nodes_def)
  have al: "root_addr l \<in> set (rb_inorder l)" using n(6) by (cases l) auto
  have same: "rb_mem t3 b = rb_mem t b" if "b \<noteq> y" "b \<noteq> root_addr l" for b
    using that by (simp add: t3_def t2_def t1_def upd_rb_mem)
  have x3: "rb_mem t3 x = rb_mem t x" using same X al by blast
  have y3: "rb_mem t3 y = (rb_mem t y)\<lparr>rb_left := root_addr l, rb_col := c\<rparr>"
    using D(2) al by (auto simp: t3_def t2_def t1_def upd_rb_mem)
  have k3: "crep (rb_mem t3) (rb_top t3) p x k"
  proof -
    have "\<forall>b \<in> ctx_nodes k. rb_mem t3 b = rb_mem t b"
    proof
      fix b assume "b \<in> ctx_nodes k"
      then have "b \<noteq> y" "b \<noteq> root_addr l" using D(3) al by auto
      then show "rb_mem t3 b = rb_mem t b" by (rule same)
    qed
    then show ?thesis using k crep_cong [of k "rb_mem t3" "rb_mem t"] by (simp add: t3_def t2_def t1_def upd_rb_mem)
  qed
  have l3: "rep (rb_mem t3) y (root_addr l) l"
  proof -
    have y: "y \<notin> set (rb_inorder l)" using D(2) by simp
    have "rep (rb_mem t1) x (root_addr l) l" using l y by (simp add: t1_def upd_rb_mem)
    moreover have "t2 = rb_adopt (root_addr l) y t1" using al l rep_zero [of "rb_mem t" x "root_addr l" l] by (auto simp: t2_def rb_adopt_def)
    ultimately have "rep (rb_mem t2) y (root_addr l) l" using adopt_rep(1) [of t1 x "root_addr l" l y] D(2) by simp
    then show ?thesis using y by (simp add: t3_def upd_rb_mem)
  qed
  have r3: "rep (rb_mem t3) y (rb_right (rb_mem t y)) r"
  proof -
    have "\<forall>b \<in> set (rb_inorder r). rb_mem t3 b = rb_mem t b"
    proof
      fix b assume "b \<in> set (rb_inorder r)"
      then have "b \<noteq> y" "b \<noteq> root_addr l" using D(2) al by auto
      then show "rb_mem t3 b = rb_mem t b" by (rule same)
    qed
    then show ?thesis using r rep_cong [of r "rb_mem t3" "rb_mem t"] by simp
  qed
  define t4 where "t4 = relinked p y k t3"
  note rl = relinked_crep [OF k3 D(1), where a' = y, folded t4_def]
  have same4: "rb_mem t4 b = rb_mem t3 b" if "b \<in> set (rb_inorder (Nd l y c r)) \<or> b = x" for b
    using that D(3) X(1) by (intro rl(2)) blast
  have e: "put_in_place x y t = Some (rb_col (rb_mem t y), upd_rb y (\<lambda>n. n\<lparr>rb_parent := p\<rparr>) t4)"
  proof -
    have "rb_relink p x y t3 = t4" unfolding t4_def using relink_relinked(1) [OF k3 n(4) X(1)] .
    moreover have "rb_mem t1 x = rb_mem t x" "rb_mem t2 x = rb_mem t x" using X al by (auto simp: t2_def t1_def upd_rb_mem)
    moreover have "rb_col (rb_mem t2 y) = rb_col (rb_mem t y)" by (simp add: t2_def t1_def upd_rb_mem)
    moreover have "root_addr l \<noteq> 0" using al rep_zero [OF l] by metis
    ultimately show ?thesis using n(1-3) x3 same4 [of x]
      by (simp add: put_in_place_def Let_def rb_at_def flip: t1_def t2_def t3_def)
  qed
  have l4: "rep (rb_mem t4) y (root_addr l) l" using l3 rep_cong [of l "rb_mem t4" "rb_mem t3"] same4 by simp
  have r4: "rep (rb_mem t4) y (rb_right (rb_mem t y)) r" using r3 rep_cong [of r "rb_mem t4" "rb_mem t3"] same4 by simp
  have "y \<notin> ctx_nodes k" "y \<notin> set (rb_inorder l)" "y \<notin> set (rb_inorder r)" using D by auto
  then have "zrep (upd_rb y (\<lambda>n. n\<lparr>rb_parent := p\<rparr>) t4) p y (Nd l y c r) k"
    using l4 r4 rl(1) same4 [of y] y3 n(5) d(1) by (simp add: zrep_def upd_rb_mem)
  moreover have "rb_right (rb_mem (upd_rb y (\<lambda>n. n\<lparr>rb_parent := p\<rparr>) t4) y) = rb_right (rb_mem t y)"
    using same4 [of y] y3 by (simp add: upd_rb_mem)
  ultimately show ?thesis using e by blast
qed


section \<open>The successor\<close>

fun heir :: "rbt \<Rightarrow> rbt" where
  "heir Lf = Lf"
| "heir (Nd Lf x c r) = Nd Lf x c r"
| "heir (Nd (Nd l y d q) x c r) = heir (Nd l y d q)"

lemma plug_append: "plug (fs @ k) s = plug k (plug fs s)"
  by (induction fs s rule: plug.induct) simp_all

definition left_way :: "frame list \<Rightarrow> bool" where
  "left_way fs \<longleftrightarrow> (\<forall>f \<in> set fs. \<exists>x c r. f = FL x c r)"

lemma left_way_simps [simp]: "left_way []" "left_way (FL x c r # fs) = left_way fs" "left_way (FR l x c # fs) = False"
  "left_way (fs @ gs) \<longleftrightarrow> left_way fs \<and> left_way gs"
  by (auto simp: left_way_def)

lemma left_way_before: "left_way fs \<Longrightarrow> nodes_before fs = []"
  by (induction fs rule: nodes_before.induct) simp_all

lemma leftmost_way: "zrep t p a r k \<Longrightarrow> r \<noteq> Lf \<Longrightarrow>
    \<exists>y d R fs up. leftmost a t = Some y \<and> zrep t up y (Nd Lf y d R) (fs @ k) \<and> r = plug fs (Nd Lf y d R) \<and> left_way fs \<and> heir r = Nd Lf y d R"
proof (induction r arbitrary: p a k)
  case (Nd l x c r)
  then have a: "a = x" by (simp add: zrep_def)
  note z = Nd.prems(1) [unfolded a]
  show ?case
  proof (cases l)
    case Lf
    then have "leftmost a t = Some x" using a zrep_fields(2) [OF z] by (subst leftmost.simps) simp
    moreover have "zrep t p x (Nd Lf x c r) ([] @ k)" "Nd l x c r = plug [] (Nd Lf x c r)" "left_way []" "heir (Nd l x c r) = Nd Lf x c r"
      using z Lf by simp_all
    ultimately show ?thesis by blast
  next
    case l: (Nd l' y d r')
    then have "root_addr l \<noteq> 0" using zrep_left [OF z] by (auto simp: zrep_def)
    then have e: "leftmost a t = leftmost (root_addr l) t" using a zrep_fields(2) [OF z] by (subst leftmost.simps) simp
    obtain v e R fs up where v: "leftmost (root_addr l) t = Some v" "zrep t up v (Nd Lf v e R) (fs @ FL x c r # k)" "l = plug fs (Nd Lf v e R)"
      "left_way fs" "heir l = Nd Lf v e R" using Nd.IH(1) [OF zrep_left [OF z]] l by auto
    have "heir (Nd l x c r) = Nd Lf v e R" using v(5) l by simp
    moreover have "leftmost a t = Some v" "zrep t up v (Nd Lf v e R) ((fs @ [FL x c r]) @ k)"
      "Nd l x c r = plug (fs @ [FL x c r]) (Nd Lf v e R)" "left_way (fs @ [FL x c r])" using v \<open>leftmost a t = leftmost (root_addr l) t\<close> by (simp_all add: plug_append)
    ultimately show ?thesis by blast
  qed
qed simp

lemma heir_facts: "r \<noteq> Lf \<Longrightarrow> bal r \<Longrightarrow> redok r \<Longrightarrow> heir r = Nd Lf y d R \<Longrightarrow> bal R \<and> bh R = 0 \<and> redok R \<and> (d = RB_RED \<longrightarrow> R = Lf)"
proof (induction r rule: heir.induct)
  case (2 x c r)
  then show ?case by (cases d) (auto intro: black_leaf)
qed auto

lemma bh_plug_cong: "bh s = bh s' \<Longrightarrow> bh (plug k s) = bh (plug k s')"
  by (induction k s arbitrary: s' rule: plug.induct) simp_all

lemma redok_of_plug: "redok (plug k s) \<Longrightarrow> redok s"
  by (induction k s rule: plug.induct) simp_all

lemma redok_plug_cong: "redok (plug k s) \<Longrightarrow> redok s' \<Longrightarrow> col s' = RB_BLACK \<or> col s' = col s \<Longrightarrow> redok (plug k s')"
proof (induction k s arbitrary: s' rule: plug.induct)
  case (2 x c r k t)
  have "redok (Nd t x c r)" using 2(2) redok_of_plug [of k "Nd t x c r"] by simp
  then show ?case using 2 by auto
next
  case (3 l x c k t)
  have "redok (Nd l x c t)" using 3(2) redok_of_plug [of k "Nd l x c t"] by simp
  then show ?case using 3 by auto
qed simp

text \<open>Taking the successor out of its place.\<close>

lemma climb: "zrep t p a s (fs @ k) \<Longrightarrow> \<exists>p' a'. zrep t p' a' (plug fs s) k"
proof (induction fs s arbitrary: p a rule: plug.induct)
  case (2 x c r fs s)
  from zrep_up(1) 2(2) obtain gp where "zrep t gp x (Nd s x c r) (fs @ k)" by (metis append_Cons)
  from 2(1) [OF this] show ?case by simp
next
  case (3 l x c fs s)
  from zrep_up(2) 3(2) obtain gp where "zrep t gp x (Nd l x c s) (fs @ k)" by (metis append_Cons)
  from 3(1) [OF this] show ?case by simp
qed auto

lemma plug_not_leaf: "fs \<noteq> [] \<Longrightarrow> plug fs s \<noteq> Lf"
  by (induction fs s rule: plug.induct) (metis list.exhaust plug.simps rbt.distinct(2))+

lemma upd_rb_commute:
  "rb_adopt a v (upd_rb b (\<lambda>n. n\<lparr>rb_left := w\<rparr>) t) = upd_rb b (\<lambda>n. n\<lparr>rb_left := w\<rparr>) (rb_adopt a v t)"
  by (auto simp: rb_adopt_def upd_rb_def fun_eq_iff)

lemma adopt_fields: "rb_left (rb_mem (rb_adopt a v t) b) = rb_left (rb_mem t b)" "rb_right (rb_mem (rb_adopt a v t) b) = rb_right (rb_mem t b)"
  by (auto simp: rb_adopt_def upd_rb_def)

lemma lift_out_zrep:
  assumes z: "zrep t up y (Nd Lf y d R) (fs @ FR l x c # k)" and fs: "fs \<noteq> []" "left_way fs"
  shows "\<exists>t' p. lift_out x y t = Some t' \<and> rb_left (rb_mem t' x) = root_addr l \<and> rb_parent (rb_mem t' x) = p \<and> rb_col (rb_mem t' x) = c \<and>
    rep (rb_mem t') x (root_addr l) l \<and> rep (rb_mem t') y (rb_right (rb_mem t' y)) (plug fs R) \<and> crep (rb_mem t') (rb_top t') p x k \<and>
    rb_col (rb_mem t' y) = d \<and> x \<noteq> 0 \<and> y \<noteq> 0"
proof -
  define r where "r = plug fs R"
  obtain w e q fs' where f: "fs = FL w e q # fs'" using fs by (cases fs rule: nodes_before.cases) auto
  have u: "up = w" "w \<noteq> 0" "rb_left (rb_mem t w) = y" using frame_reads [of t up y _ w e q] z f by auto
  define t1 where "t1 = rb_adopt (root_addr R) up t"
  define t2 where "t2 = rb_relink up y (root_addr R) t1"
  have un: "zrep t2 up (root_addr R) R (fs @ FR l x c # k)" "rb_mem t2 y = rb_mem t y"
    using unlink_zrep [OF z, of R] by (simp_all add: t2_def t1_def)
  have t2: "t2 = upd_rb up (\<lambda>n. n\<lparr>rb_left := root_addr R\<rparr>) t1" using u by (simp add: t2_def rb_relink_def t1_def adopt_fields)
  note fy = zrep_fields [OF z] zrep_parent [OF z]
  from climb [OF un(1)] obtain p' a where ca: "zrep t2 p' a r (FR l x c # k)" by (auto simp: r_def)
  have rn: "r \<noteq> Lf" using plug_not_leaf fs(1) by (simp add: r_def)
  then have a: "a = root_addr r" "a \<noteq> 0" using ca by (cases r; auto simp: zrep_def)+
  have ar: "a \<in> set (rb_inorder r)" using a(1) rn by (cases r) auto
  obtain p where zx: "zrep t2 p x (Nd l x c r) k" using zrep_up(2) [OF ca] by blast
  note fx = zrep_fields [OF zx] zrep_parent [OF zx]
  have D: "distinct (rb_inorder (Nd l x c r))" "set (rb_inorder (Nd l x c r)) \<inter> ctx_nodes k = {}" using zx by (simp_all only: zrep_def distinct_plug)
  have y: "y \<notin> set (rb_inorder (Nd l x c r))" "y \<notin> ctx_nodes k"
  proof -
    have "distinct (rb_inorder (plug (fs @ FR l x c # k) (Nd Lf y d R)))" using z by (simp add: zrep_def)
    then show "y \<notin> set (rb_inorder (Nd l x c r))" "y \<notin> ctx_nodes k"
      by (auto simp: plug_append inorder_plug r_def ctx_nodes_def)
  qed
  define t3 where "t3 = upd_rb y (\<lambda>n. n\<lparr>rb_right := a\<rparr>) t2"
  define t4 where "t4 = upd_rb a (\<lambda>n. n\<lparr>rb_parent := y\<rparr>) t3"
  have same: "rb_mem t4 b = rb_mem t2 b" if "b \<noteq> y" "b \<noteq> a" for b using that by (simp add: t4_def t3_def upd_rb_mem)
  have neq: "x \<noteq> y" "x \<noteq> a" "y \<noteq> a" using y(1) ar D(1) by auto
  have x4: "rb_mem t4 x = rb_mem t2 x" using neq(1,2) by (rule same)
  have y4: "rb_mem t4 y = (rb_mem t y)\<lparr>rb_right := a\<rparr>" using neq(3) un(2) by (simp add: t4_def t3_def upd_rb_mem)
  have e: "lift_out x y t = Some t4"
  proof -
    have up: "up \<noteq> 0" using u by simp
    have st: "rb_adopt (root_addr R) up (upd_rb up (\<lambda>n. n\<lparr>rb_left := root_addr R\<rparr>) t) = t2" by (simp add: t2 upd_rb_commute t1_def)
    have yf: "rb_parent (rb_mem (upd_rb up (\<lambda>n. n\<lparr>rb_left := root_addr R\<rparr>) t) y) = up"
      "rb_right (rb_mem (upd_rb up (\<lambda>n. n\<lparr>rb_left := root_addr R\<rparr>) t) y) = root_addr R"
      using fy by (auto simp: upd_rb_mem)
    have xf: "rb_right (rb_mem t2 x) = a" "rb_right (rb_mem t3 x) = a" using fx(3) a(1) neq(1) by (simp_all add: t3_def upd_rb_mem)
    show ?thesis using a(2)
      by (simp add: lift_out_def Let_def rb_at_def fy(3,8) up yf st xf(1) flip: t3_def) (simp add: xf(2) t4_def)
  qed
  have "rep (rb_mem t4) x (root_addr l) l"
  proof -
    have "\<forall>b \<in> set (rb_inorder l). rb_mem t4 b = rb_mem t2 b"
    proof
      fix b assume "b \<in> set (rb_inorder l)"
      then have "b \<noteq> y" "b \<noteq> a" using y(1) D(1) ar by auto
      then show "rb_mem t4 b = rb_mem t2 b" by (rule same)
    qed
    moreover have "rep (rb_mem t2) x (root_addr l) l" using zrep_left [OF zx] by (simp add: zrep_def)
    ultimately show ?thesis using rep_cong [of l "rb_mem t4" "rb_mem t2"] by simp
  qed
  moreover have "rep (rb_mem t4) y a r"
  proof -
    have "rep (rb_mem t2) x a r" using ca zrep_right [OF zx] a(1) by (simp add: zrep_def)
    then have "rep (rb_mem t3) x a r" using y(1) by (simp add: t3_def upd_rb_mem)
    moreover have "t4 = rb_adopt a y t3" using a(2) by (simp add: t4_def rb_adopt_def)
    ultimately show ?thesis using adopt_rep(1) [of t3 x a r y] D(1) by simp
  qed
  moreover have "crep (rb_mem t4) (rb_top t4) p x k"
  proof -
    have "\<forall>b \<in> ctx_nodes k. rb_mem t4 b = rb_mem t2 b"
    proof
      fix b assume "b \<in> ctx_nodes k"
      then have "b \<noteq> y" "b \<noteq> a" using y(2) D(2) ar by auto
      then show "rb_mem t4 b = rb_mem t2 b" by (rule same)
    qed
    then show ?thesis using crep_cong [of k "rb_mem t4" "rb_mem t2"] zx by (simp add: zrep_def t4_def t3_def upd_rb_mem)
  qed
  ultimately show ?thesis using e fx fy y4 x4 by (intro exI [of _ t4] exI [of _ p]) (simp add: r_def)
qed

section \<open>When the removal is right\<close>

lemma heir_leftless: "heir r = Nd l y d R \<Longrightarrow> l = Lf"
  by (induction r rule: heir.induct) auto

lemma heir_root: "heir r = r \<Longrightarrow> r \<noteq> Lf \<Longrightarrow> \<exists>y d R. r = Nd Lf y d R"
  using heir_leftless by (cases r) auto

lemma col_plug_cong: "fs \<noteq> [] \<Longrightarrow> col (plug fs s) = col (plug fs s')"
proof (induction fs arbitrary: s s' rule: nodes_before.induct)
  case (2 x c r k)
  then show ?case by (cases k) auto
next
  case (3 l x c k)
  then show ?case by (cases k) auto
qed simp

lemma zrep_unplug: "zrep t p a (plug fs s) k \<Longrightarrow> \<exists>p' a'. zrep t p' a' s (fs @ k)"
proof (induction fs s arbitrary: p a rule: plug.induct)
  case (2 x c r fs s)
  from 2(1) [OF 2(2) [unfolded plug.simps]] obtain p' a' where z: "zrep t p' a' (Nd s x c r) (fs @ k)" by auto
  then have "a' = x" by (simp add: zrep_def)
  with zrep_left z show ?case by (metis append_Cons)
next
  case (3 l x c fs s)
  from 3(1) [OF 3(2) [unfolded plug.simps]] obtain p' a' where z: "zrep t p' a' (Nd l x c s) (fs @ k)" by auto
  then have "a' = x" by (simp add: zrep_def)
  with zrep_right z show ?case by (metis append_Cons)
qed auto

lemma erase_direct:
  assumes z: "zrep t p x (Nd l x c (Nd Lf y d R)) k" and b: "is_rbt (plug k (Nd l x c (Nd Lf y d R)))" and l: "l \<noteq> Lf"
  shows "\<exists>t' T. rb_erase x t = Some t' \<and> rb_holds t' T \<and> is_rbt T \<and> rb_inorder T = nodes_before k @ rb_inorder l @ y # rb_inorder R @ nodes_after k"
proof -
  note f = zrep_fields [OF z] zrep_parent [OF z] and pl = rbt_place [OF b]
  have zy: "zrep t x y (Nd Lf y d R) (FR l x c # k)" using zrep_right [OF z] by simp
  note fy = zrep_fields [OF zy] zrep_parent [OF zy]
  have lm: "leftmost y t = Some y" using fy(2) by (subst leftmost.simps) simp
  have al: "root_addr l \<noteq> 0" using zrep_left [OF z] l by (cases l) (auto simp: zrep_def)
  have "rep (rb_mem t) x (root_addr l) l" "rep (rb_mem t) y (rb_right (rb_mem t y)) R" "crep (rb_mem t) (rb_top t) p x k"
    using zrep_left [OF z] zrep_right [OF zy] z fy(3) by (simp_all add: zrep_def)
  note pz = place_zrep [OF f(2,8,4,1) fy(1) l this]
  have "distinct (rb_inorder (plug k (Nd l y c R)))" "x \<notin> set (rb_inorder (plug k (Nd l y c R)))"
    using z by (auto simp: zrep_def inorder_plug)
  from pz [OF this] obtain t' where t': "put_in_place x y t = Some (d, t')" "zrep t' p y (Nd l y c R) k" "rb_right (rb_mem t' y) = root_addr R"
    using fy(3,4) by auto
  have e: "rb_erase x t = (if d = RB_BLACK then rb_erase_fix (root_addr R) y t' else Some t')"
    using f fy lm al t'(1,3) by (simp add: rb_erase_def erase_replace_def)
  show ?thesis
  proof (cases d)
    case RB_RED
    then have "is_rbt (plug k (Nd l y c R))" using pl by (intro is_rbt_plug) (cases c; auto)+
    moreover have "rb_holds t' (plug k (Nd l y c R))" using zrep_plug [OF t'(2)] rb_holds_zrep by blast
    ultimately show ?thesis using e RB_RED by (intro exI [of _ t'] exI [of _ "plug k (Nd l y c R)"]) (simp add: inorder_plug)
  next
    case RB_BLACK
    have "short R (FR l y c # k)" using pl RB_BLACK by (auto simp: short_def)
    from erase_fix_mends [OF zrep_right [OF t'(2)] this] show ?thesis using e RB_BLACK by (simp add: inorder_plug)
  qed
qed

text \<open>The successor is deeper in the right subtree: it takes the place of the node, and its right subtree takes its own.\<close>

lemma erase_deep:
  assumes z: "zrep t p x (Nd l x c r) k" and l: "l \<noteq> Lf" and r: "r \<noteq> Lf" and h: "heir r \<noteq> r"
  shows "\<exists>y d R fs t' p'. heir r = Nd Lf y d R \<and> r = plug fs (Nd Lf y d R) \<and> fs \<noteq> [] \<and> left_way fs \<and>
    rb_inorder r = y # rb_inorder (plug fs R) \<and> zrep t' p' y (Nd l y c (plug fs R)) k \<and>
    rb_erase x t = (if d = RB_BLACK then rb_erase_fix (root_addr (plug fs R)) y t' else Some t')"
proof -
  note f = zrep_fields [OF z] zrep_parent [OF z]
  from leftmost_way [OF zrep_right [OF z] r] obtain y d R fs up where y: "leftmost (root_addr r) t = Some y" "zrep t up y (Nd Lf y d R) (fs @ FR l x c # k)"
    "r = plug fs (Nd Lf y d R)" "left_way fs" "heir r = Nd Lf y d R" by blast
  have fs: "fs \<noteq> []" using h y(3,5) by auto
  have D: "distinct (rb_inorder (plug k (Nd l x c r)))" using z by (simp add: zrep_def)
  have a0: "root_addr l \<noteq> 0" "root_addr r \<noteq> 0" using zrep_left [OF z] zrep_right [OF z] l r by (cases l; cases r; auto simp: zrep_def)+
  obtain w e q fs' where fw: "fs = FL w e q # fs'" using fs y(4) by (cases fs rule: nodes_before.cases) auto
  have up: "up \<noteq> x" using frame_reads(1) [of t up y _ w e q] y(2) D by (auto simp: fw y(3) inorder_plug)
  obtain t1 p1 where t1: "lift_out x y t = Some t1" and n: "rb_left (rb_mem t1 x) = root_addr l" "rb_parent (rb_mem t1 x) = p1" "rb_col (rb_mem t1 x) = c"
      "x \<noteq> 0" "y \<noteq> 0" "rep (rb_mem t1) x (root_addr l) l" "rep (rb_mem t1) y (rb_right (rb_mem t1 y)) (plug fs R)"
      "crep (rb_mem t1) (rb_top t1) p1 x k" "rb_col (rb_mem t1 y) = d"
    using lift_out_zrep [OF y(2) fs y(4)] by blast
  have ino: "rb_inorder r = y # rb_inorder (plug fs R)" using y(3,4) by (simp add: inorder_plug left_way_before)
  have "distinct (rb_inorder (plug k (Nd l y c (plug fs R))))" "x \<notin> set (rb_inorder (plug k (Nd l y c (plug fs R))))"
    using D by (auto simp: inorder_plug [of k] ino)
  from place_zrep [OF n(1-5) l n(6-8) this] obtain t' where t': "put_in_place x y t1 = Some (d, t')" "zrep t' p1 y (Nd l y c (plug fs R)) k"
    using n(9) by auto
  have "rb_erase x t = (if d = RB_BLACK then rb_erase_fix (root_addr (plug fs R)) y t' else Some t')"
    using f(1-3,7) a0 y(1) zrep_parent [OF y(2)] up t1 t'(1) zrep_fields(3) [OF t'(2)] by (simp add: rb_erase_def erase_replace_def)
  with y(3-5) fs ino t'(2) show ?thesis by blast
qed

lemma erase_red_heir:
  assumes z: "zrep t p x (Nd l x c r) k" and b: "is_rbt (plug k (Nd l x c r))" and l: "l \<noteq> Lf" and r: "r \<noteq> Lf"
    and h: "heir r \<noteq> r" "col (heir r) = RB_RED"
  shows "\<exists>t' T. rb_erase x t = Some t' \<and> rb_holds t' T \<and> is_rbt T \<and> rb_inorder T = nodes_before k @ rb_inorder l @ rb_inorder r @ nodes_after k"
proof -
  note pl = rbt_place [OF b]
  obtain y d R fs t' p' where y: "heir r = Nd Lf y d R" "r = plug fs (Nd Lf y d R)" "fs \<noteq> []"
    "rb_inorder r = y # rb_inorder (plug fs R)" "zrep t' p' y (Nd l y c (plug fs R)) k"
    "rb_erase x t = (if d = RB_BLACK then rb_erase_fix (root_addr (plug fs R)) y t' else Some t')"
    using erase_deep [OF z l r h(1)] by blast
  have d: "d = RB_RED" using h(2) y(1) by simp
  have R: "R = Lf" using heir_facts [OF r pl(2,5) y(1)] d by blast
  have q: "bal (plug fs R)" "bh (plug fs R) = bh r" "redok (plug fs R)"
    using pl(2,5) d R redok_plug_cong [of fs "Nd Lf y d R" Lf] by (auto simp: y(2) bal_plug intro: bh_plug_cong)
  have "c = RB_RED \<Longrightarrow> col (plug fs R) = RB_BLACK"
    using pl(8) y(2,3) col_plug_cong [of fs R "Nd Lf y d R"] by simp
  then have "is_rbt (plug k (Nd l y c (plug fs R)))" using pl q by (intro is_rbt_plug) (cases c; auto)+
  moreover have "rb_holds t' (plug k (Nd l y c (plug fs R)))" using zrep_plug [OF y(5)] rb_holds_zrep by blast
  ultimately show ?thesis using y(4,6) d by (intro exI [of _ t'] exI [of _ "plug k (Nd l y c (plug fs R))"]) (simp add: inorder_plug [of k])
qed

text \<open>The node in its place, and the order without it.\<close>

lemma erase_place:
  assumes "rb_holds t T" "T = plug k (Nd l x c r)"
  obtains p where "zrep t p x (Nd l x c r) k"
    and "filter (\<lambda>y. y \<noteq> x) (rb_inorder T) = nodes_before k @ rb_inorder l @ rb_inorder r @ nodes_after k"
proof -
  have z0: "zrep t 0 (rb_top t) T []" using assms(1) by (simp add: rb_holds_def)
  from zrep_unplug [OF z0 [unfolded assms(2)]] obtain p a where "zrep t p a (Nd l x c r) k" by auto
  then have z: "zrep t p x (Nd l x c r) k" by (auto simp: zrep_def)
  have D: "distinct (rb_inorder T)" using z0 by (simp add: zrep_def)
  have without: "filter (\<lambda>y. y \<noteq> x) xs = xs" if "x \<notin> set xs" for xs using that by (induction xs) auto
  have "filter (\<lambda>y. y \<noteq> x) (rb_inorder T) = nodes_before k @ rb_inorder l @ rb_inorder r @ nodes_after k"
    using D without by (auto simp: assms(2) inorder_plug)
  with z show ?thesis by (rule that)
qed

theorem rb_erase_removes:
  assumes h: "rb_holds t T" "is_rbt T" "T = plug k (Nd l x c r)" and ok: "l = Lf \<or> heir r = r \<or> col (heir r) = RB_RED"
  shows "\<exists>t' T'. rb_erase x t = Some t' \<and> rb_holds t' T' \<and> is_rbt T' \<and> rb_inorder T' = filter (\<lambda>y. y \<noteq> x) (rb_inorder T)"
proof -
  obtain p where z: "zrep t p x (Nd l x c r) k"
    and fi: "filter (\<lambda>y. y \<noteq> x) (rb_inorder T) = nodes_before k @ rb_inorder l @ rb_inorder r @ nodes_after k"
    using erase_place [OF h(1,3)] .
  note b = h(2) [unfolded h(3)]
  show ?thesis unfolding fi
  proof (cases "l = Lf \<or> r = Lf")
    case True
    then show "\<exists>t' T'. rb_erase x t = Some t' \<and> rb_holds t' T' \<and> is_rbt T' \<and> rb_inorder T' = nodes_before k @ rb_inorder l @ rb_inorder r @ nodes_after k"
      by (rule erase_one_child [OF z b])
  next
    case False
    then have lr: "l \<noteq> Lf" "r \<noteq> Lf" by auto
    show "\<exists>t' T'. rb_erase x t = Some t' \<and> rb_holds t' T' \<and> is_rbt T' \<and> rb_inorder T' = nodes_before k @ rb_inorder l @ rb_inorder r @ nodes_after k"
    proof (cases "heir r = r")
      case True
      then obtain y d R where "r = Nd Lf y d R" using heir_root lr(2) by blast
      with erase_direct [of t p x l c y d R k] z b lr(1) show ?thesis by simp
    next
      case False
      with ok lr have "col (heir r) = RB_RED" by auto
      from erase_red_heir [OF z b lr False this] show ?thesis .
    qed
  qed
qed

end
