(* ===== verification/Rb_Unbalance.thy ===== *)
theory Rb_Unbalance
  imports Rb_Replace
begin

text \<open>
  The removal when the successor is a black node deeper in the right subtree.  The loop starts at the right
  child of the replacement, not at the place the successor left: it ends, but the subtree that lost a black
  node is never touched, and the tree that results is not balanced.
\<close>

section \<open>An iteration above a subtree that is not balanced\<close>

fun sibling_of :: "frame \<Rightarrow> rbt" where
  "sibling_of (FL x c r) = r"
| "sibling_of (FR l x c) = l"

text \<open>What the loop needs on its way up: siblings in order that have a black node.\<close>

definition sound_above :: "frame list \<Rightarrow> bool" where
  "sound_above k \<longleftrightarrow> (\<forall>f \<in> set k. bal (sibling_of f) \<and> redok (sibling_of f) \<and> 0 < bh (sibling_of f))"

lemma sound_above_simps [simp]:
  "sound_above []" "sound_above (f # k) \<longleftrightarrow> bal (sibling_of f) \<and> redok (sibling_of f) \<and> 0 < bh (sibling_of f) \<and> sound_above k"
  by (auto simp: sound_above_def)

lemma sound_above_context: "cbal k n \<Longrightarrow> cred k \<Longrightarrow> 0 < n \<Longrightarrow> sound_above k"
  by (induction k n rule: cbal.induct) auto

text \<open>An iteration keeps the subtree, and so a fault in it; the next one, if any, is at the parent, one step up
  or with a red node there.\<close>

definition torn :: "bool \<Rightarrow> rb_root \<Rightarrow> frame list \<Rightarrow> nat list \<Rightarrow> nat \<Rightarrow> bool" where
  "torn out t k xs p \<longleftrightarrow> (\<exists>gp a T k'. zrep t gp a T k' \<and> \<not> bal T \<and>
     rb_inorder (plug k' T) = nodes_before k @ xs @ nodes_after k \<and> (\<not> out \<longrightarrow> a = p \<and> (k' = k \<or> col T = RB_RED)))"

lemma torn_intro:
  "zrep t gp a T k' \<Longrightarrow> \<not> bal T \<Longrightarrow> rb_inorder (plug k' T) = nodes_before k @ xs @ nodes_after k \<Longrightarrow>
   \<not> out \<longrightarrow> a = p \<and> (k' = k \<or> col T = RB_RED) \<Longrightarrow> torn out t k xs p"
  unfolding torn_def by blast

lemma sibling_torn:
  assumes z: "zrep t gp p (Nd s p c (Nd A x d B)) k" and s: "\<not> bal s"
  shows "\<exists>out t' gp' a T. right_sibling x p t = Some (out, t') \<and> zrep t' gp' a T k \<and> \<not> bal T \<and>
    rb_inorder T = rb_inorder (Nd s p c (Nd A x d B)) \<and> (\<not> out \<longrightarrow> a = p \<and> col T = c)"
proof (cases "col A = RB_BLACK \<and> col B = RB_BLACK")
  case True
  then obtain t' where "right_sibling x p t = Some (False, t')" "zrep t' gp p (Nd s p c (Nd A x RB_RED B)) k"
    using sibling_black [OF z] by blast
  moreover have "\<not> bal (Nd s p c (Nd A x RB_RED B))" "col (Nd s p c (Nd A x RB_RED B)) = c"
    "rb_inorder (Nd s p c (Nd A x RB_RED B)) = rb_inorder (Nd s p c (Nd A x d B))" using s by simp_all
  ultimately show ?thesis by blast
next
  case False
  then have red: "col A = RB_RED \<or> col B = RB_RED" by (auto simp: rb_color_cases)
  define T where "T = lifted s p c A x B"
  obtain t' where "right_sibling x p t = Some (True, t')" "zrep t' gp (root_addr T) T k"
    using sibling_red_child [OF z red] by (auto simp: T_def)
  moreover have "\<not> bal T \<and> rb_inorder T = rb_inorder (Nd s p c (Nd A x d B))"
    using s red by (cases A; cases "col B") (auto simp: T_def)
  ultimately show ?thesis by blast
qed

lemma erase_left_torn:
  assumes z: "zrep t gp p (Nd s p c S) k" and s: "\<not> bal s" and S: "bal S" "redok S" "0 < bh S"
  shows "\<exists>out t'. erase_left p t = Some (out, t') \<and> torn out t' k (rb_inorder (Nd s p c S)) p"
proof -
  obtain A x d B where S': "S = Nd A x d B" using S(3) by (cases S) auto
  have zx: "zrep t p x (Nd A x d B) (FR s p c # k)" using zrep_right [OF z] S' by simp
  note f = zrep_fields [OF z] zrep_fields [OF zx]
  show ?thesis
  proof (cases d)
    case RB_BLACK
    have "erase_left p t = right_sibling x p t" using f S' RB_BLACK by (simp add: erase_left_def)
    moreover obtain out t' gp' a T where n: "right_sibling x p t = Some (out, t')" "zrep t' gp' a T k" "\<not> bal T"
      "rb_inorder T = rb_inorder (Nd s p c S)" "\<not> out \<longrightarrow> a = p \<and> col T = c"
      using sibling_torn [OF z [unfolded S'] s] unfolding S' by blast
    moreover have "torn out t' k (rb_inorder (Nd s p c S)) p"
      using n by (intro torn_intro [OF n(2,3)]) (simp_all add: inorder_plug)
    ultimately show ?thesis by auto
  next
    case RB_RED
    have "col A = RB_BLACK" "0 < bh A" using S S' RB_RED by auto
    then obtain C y D where A: "A = Nd C y RB_BLACK D" by (cases A) auto
    obtain t1 where t1: "set_color x RB_BLACK t = Some t1" "zrep t1 gp p (Nd s p c (Nd A x RB_BLACK B)) k"
      using color_right [OF z [unfolded S'], of RB_BLACK] by blast
    obtain t2 where t2: "set_color p RB_RED t1 = Some t2" "zrep t2 gp p (Nd s p RB_RED (Nd A x RB_BLACK B)) k"
      using set_color_zrep [OF t1(2), of RB_RED] by blast
    obtain t3 where t3: "rb_rotate_left p t2 = Some t3" "zrep t3 gp x (Nd (Nd s p RB_RED A) x RB_BLACK B) k"
      using rotate_left_zrep [OF t2(2)] by blast
    have z3: "zrep t3 x p (Nd s p RB_RED (Nd C y RB_BLACK D)) (FL x RB_BLACK B # k)" using zrep_left [OF t3(2)] A by simp
    have "erase_left p t = right_sibling y p t3"
      using f S' RB_RED t1(1) t2(1) t3(1) zrep_fields(3) [OF z3] by (simp add: erase_left_def)
    moreover obtain out t' gp' a T where n: "right_sibling y p t3 = Some (out, t')" "zrep t' gp' a T (FL x RB_BLACK B # k)" "\<not> bal T"
      "rb_inorder T = rb_inorder (Nd s p RB_RED A)" "\<not> out \<longrightarrow> a = p \<and> col T = RB_RED"
      using sibling_torn [OF z3 s] unfolding A by blast
    moreover have "torn out t' k (rb_inorder (Nd s p c S)) p"
      using n by (intro torn_intro [OF n(2,3)]) (simp_all add: inorder_plug S')
    ultimately show ?thesis by auto
  qed
qed

text \<open>The same for a right child, in the mirror.\<close>

lemma mirror_way_twice [simp]: "map mirror_frame (map mirror_frame k) = k"
  by (induction k) simp_all

lemma nodes_mirror: "nodes_before (map mirror_frame k) = rev (nodes_after k)" "nodes_after (map mirror_frame k) = rev (nodes_before k)"
  by (induction k rule: nodes_before.induct) simp_all

lemma torn_mirror:
  assumes "torn out (flip t) (map mirror_frame k) (rev xs) p"
  shows "torn out t k xs p"
proof -
  from assms obtain gp a T k' where T: "zrep (flip t) gp a T k'" "\<not> bal T"
    "rb_inorder (plug k' T) = rev (nodes_before k @ xs @ nodes_after k)"
    "\<not> out \<longrightarrow> a = p \<and> (k' = map mirror_frame k \<or> col T = RB_RED)"
    unfolding torn_def by (auto simp: nodes_mirror)
  have z: "zrep t gp a (mirror T) (map mirror_frame k')"
    using zrep_flip [of t gp a "mirror T" "map mirror_frame k'"] T(1) by (simp del: map_map)
  have "rb_inorder (plug (map mirror_frame k') (mirror T)) = nodes_before k @ xs @ nodes_after k"
    using T(3) by (simp add: plug_mirror)
  then show ?thesis
    using T(2,4) by (intro torn_intro [OF z]) (auto simp del: map_map)
qed

lemma erase_right_torn:
  assumes z: "zrep t gp p (Nd S p c s) k" and s: "\<not> bal s" and S: "bal S" "redok S" "0 < bh S"
  shows "\<exists>out t'. erase_right p t = Some (out, t') \<and> torn out t' k (rb_inorder (Nd S p c s)) p"
proof -
  have "zrep (flip t) gp p (Nd (mirror s) p c (mirror S)) (map mirror_frame k)"
    using zrep_flip [of t gp p "Nd S p c s" k] z by simp
  then obtain out u where u: "erase_left p (flip t) = Some (out, u)"
    "torn out u (map mirror_frame k) (rb_inorder (Nd (mirror s) p c (mirror S))) p"
    using erase_left_torn [of "flip t" gp p "mirror s" c "mirror S" "map mirror_frame k"] s S by (auto simp: bh_mirror)
  have "erase_right p t = Some (out, flip u)" using u(1) by (auto simp: erase_flip)
  moreover have "torn out (flip u) k (rb_inorder (Nd S p c s)) p"
    using u(2) by - (rule torn_mirror, simp)
  ultimately show ?thesis by blast
qed

section \<open>The loop\<close>

definition unbalanced_result :: "rb_root option \<Rightarrow> nat list \<Rightarrow> bool" where
  "unbalanced_result r xs \<longleftrightarrow> (\<exists>t' T. r = Some t' \<and> rb_holds t' T \<and> rb_inorder T = xs \<and> \<not> bal T)"

lemma unbalanced_stop:
  assumes z: "zrep t p a s k" and s: "k = [] \<or> col s = RB_RED" and b: "\<not> bal s"
  shows "unbalanced_result (rb_erase_fix a p t) (rb_inorder (plug k s))"
proof -
  have "\<not> (a \<noteq> rb_top t \<and> is_black a t)" using s zrep_black [OF z] zrep_top [of t p a s] z by auto
  then have "rb_erase_fix a p t = Some (blacken a t)" by (subst rb_erase_fix.simps) (simp only: if_False)
  moreover have "zrep (blacken a t) p a (paint RB_BLACK s) k" using blacken_zrep [OF z] by blast
  then have "rb_holds (blacken a t) (plug k (paint RB_BLACK s))" using zrep_plug rb_holds_zrep by blast
  moreover have "\<not> bal (plug k (paint RB_BLACK s))" using b by (simp add: bal_plug)
  moreover have "rb_inorder (plug k (paint RB_BLACK s)) = rb_inorder (plug k s)" by (simp add: inorder_plug)
  ultimately show ?thesis unfolding unbalanced_result_def by blast
qed

text \<open>An iteration and what follows it.\<close>

lemma torn_iterate:
  assumes m: "torn out t k xs p"
    and IH: "\<And>t p a s. zrep t p a s k \<Longrightarrow> \<not> bal s \<Longrightarrow> unbalanced_result (rb_erase_fix a p t) (rb_inorder (plug k s))"
  shows "unbalanced_result (if out then Some (blacken (rb_top t) t) else rb_erase_fix p (rb_parent (rb_mem t p)) t)
    (nodes_before k @ xs @ nodes_after k)"
proof -
  from m obtain gp a T k' where T: "zrep t gp a T k'" "\<not> bal T" "rb_inorder (plug k' T) = nodes_before k @ xs @ nodes_after k"
    "\<not> out \<longrightarrow> a = p \<and> (k' = k \<or> col T = RB_RED)" unfolding torn_def by blast
  show ?thesis
  proof (cases out)
    case True
    obtain b where "zrep t 0 b (plug k' T) []" using zrep_plug [OF T(1)] by blast
    then have "zrep t 0 (rb_top t) (plug k' T) []" by (auto simp: zrep_def)
    from blacken_zrep [OF this] have "rb_holds (blacken (rb_top t) t) (paint RB_BLACK (plug k' T))" using rb_holds_zrep by blast
    moreover have "\<not> bal (paint RB_BLACK (plug k' T))" using T(2) by (simp add: bal_plug)
    moreover have "rb_inorder (paint RB_BLACK (plug k' T)) = nodes_before k @ xs @ nodes_after k" using T(3) by simp
    ultimately show ?thesis using True unfolding unbalanced_result_def by auto
  next
    case False
    then have a: "a = p" "k' = k \<or> col T = RB_RED" using T(4) by auto
    have "T \<noteq> Lf" using T(2) by auto
    then have "rb_parent (rb_mem t p) = gp" using T(1) a(1) by (cases T) (auto simp: zrep_def)
    then show ?thesis using IH [of t gp p T] unbalanced_stop [OF T(1) _ T(2)] a T False by auto
  qed
qed

lemma erase_fix_unbalanced:
  "zrep t p a s k \<Longrightarrow> sound_above k \<Longrightarrow> \<not> bal s \<Longrightarrow> unbalanced_result (rb_erase_fix a p t) (rb_inorder (plug k s))"
proof (induction k arbitrary: t p a s rule: nodes_before.induct)
  case 1
  then show ?case by (intro unbalanced_stop) simp_all
next
  case (2 x c r k)
  have k: "bal r" "redok r" "0 < bh r" "sound_above k" using 2(3) by simp_all
  show ?case
  proof (cases "col s")
    case RB_RED
    then show ?thesis using unbalanced_stop 2(2,4) by blast
  next
    case RB_BLACK
    note f = frame_reads [OF 2(2)]
    obtain gp where zx: "zrep t gp x (Nd s x c r) k" using zrep_up(1) [OF 2(2)] by blast
    from erase_left_torn [OF zx 2(4) k(1-3)] obtain out t' where e: "erase_left x t = Some (out, t')"
      "torn out t' k (rb_inorder (Nd s x c r)) x" by blast
    have "rb_erase_fix a p t = (if out then Some (blacken (rb_top t') t') else rb_erase_fix x (rb_parent (rb_mem t' x)) t')"
      using zrep_below_top [OF 2(2)] zrep_black [OF 2(2)] RB_BLACK f(1,2,4) e(1) by (subst rb_erase_fix.simps) (simp add: rb_at_def)
    then show ?thesis using torn_iterate [OF e(2)] 2(1) k(4) by (simp add: inorder_plug)
  qed
next
  case (3 l x c k)
  have k: "bal l" "redok l" "0 < bh l" "sound_above k" using 3(3) by simp_all
  show ?case
  proof (cases "col s")
    case RB_RED
    then show ?thesis using unbalanced_stop 3(2,4) by blast
  next
    case RB_BLACK
    note f = frame_reads_right [OF 3(2)]
    obtain gp where zx: "zrep t gp x (Nd l x c s) k" using zrep_up(2) [OF 3(2)] by blast
    from erase_right_torn [OF zx 3(4) k(1-3)] obtain out t' where e: "erase_right x t = Some (out, t')"
      "torn out t' k (rb_inorder (Nd l x c s)) x" by blast
    have "root_addr l \<noteq> 0" using k(3) zrep_left [OF zx] by (cases l) (auto simp: zrep_def)
    then have "a \<noteq> rb_left (rb_mem t x)" using f(5,7) by auto
    then have "rb_erase_fix a p t = (if out then Some (blacken (rb_top t') t') else rb_erase_fix x (rb_parent (rb_mem t' x)) t')"
      using zrep_below_top [OF 3(2)] zrep_black [OF 3(2)] RB_BLACK f(1,2) e(1) by (subst rb_erase_fix.simps) (simp add: rb_at_def)
    then show ?thesis using torn_iterate [OF e(2)] 3(1) k(4) by (simp add: inorder_plug)
  qed
qed

section \<open>A black successor deeper in the tree\<close>

lemma heir_height: "bal r \<Longrightarrow> bh (heir r) \<le> bh r"
  by (induction r rule: heir.induct) auto

lemma erase_black_heir:
  assumes z: "zrep t p x (Nd l x c r) k" and b: "is_rbt (plug k (Nd l x c r))" and l: "l \<noteq> Lf"
    and h: "heir r \<noteq> r" "col (heir r) = RB_BLACK"
  shows "unbalanced_result (rb_erase x t) (nodes_before k @ rb_inorder l @ rb_inorder r @ nodes_after k)"
proof -
  have r: "r \<noteq> Lf" using h(1) by auto
  note pl = rbt_place [OF b]
  obtain y d R fs t' p' where y: "heir r = Nd Lf y d R" "r = plug fs (Nd Lf y d R)" "fs \<noteq> []" "left_way fs"
    "rb_inorder r = y # rb_inorder (plug fs R)" "zrep t' p' y (Nd l y c (plug fs R)) k"
    "rb_erase x t = (if d = RB_BLACK then rb_erase_fix (root_addr (plug fs R)) y t' else Some t')"
    using erase_deep [OF z l r h(1)] by blast
  have d: "d = RB_BLACK" using h(2) y(1) by simp
  have R: "bh R = 0" using heir_facts [OF r pl(2,5) y(1)] by blast
  obtain w e q fs' where fw: "fs = FL w e q # fs'" using y(3,4) by (cases fs rule: nodes_before.cases) auto
  have "bh q = 1" using pl(2) d by (auto simp: y(2) bal_plug fw)
  then have "\<not> bal (plug fs R)" using R by (simp add: bal_plug fw)
  moreover have "0 < bh r" using heir_height [OF pl(2)] y(1) d by simp
  then have "sound_above (FR l y c # k)"
    using pl(1,3,4) sound_above_context [OF pl(7,6)] by simp
  ultimately have "unbalanced_result (rb_erase_fix (root_addr (plug fs R)) y t') (rb_inorder (plug (FR l y c # k) (plug fs R)))"
    using erase_fix_unbalanced [OF zrep_right [OF y(6)]] by blast
  then show ?thesis using y(5,7) d by (simp add: inorder_plug [of k])
qed

end
