(* ===== verification/Rb_Props.thy ===== *)
theory Rb_Props
  imports Rb_Unbalance "HOL-Library.Multiset"
begin

text \<open>
  The properties of the red-black trees: a tree that insertions build is red-black and in the order of the
  keys, the traversals visit that order, a removal is right unless the successor of the node is a black one
  deeper in the tree, and in that case it always leaves a tree that is not balanced, on which a later call can
  dereference the null pointer.
\<close>

definition rb_none :: rb_root where
  "rb_none = \<lparr>rb_top = 0, rb_mem = (\<lambda>_. \<lparr>rb_parent = 0, rb_left = 0, rb_right = 0, rb_col = RB_RED\<rparr>)\<rparr>"

definition rb_empty :: "rb_root \<Rightarrow> bool" where
  "rb_empty t \<longleftrightarrow> rb_top t = 0"

definition by_number :: "nat \<Rightarrow> nat \<Rightarrow> int" where
  "by_number a b = int a - int b"

lemma by_number_compares: "compares by_number (\<lambda>x. x)"
  by (simp add: compares_def by_number_def)

lemma sort_key_by_filters:
  assumes "\<forall>v. filter (\<lambda>x. f x = v) ys = filter (\<lambda>x. f x = v) xs" "sorted (map f ys)"
  shows "ys = sort_key f xs"
proof (rule properties_for_sort_key [symmetric])
  show "mset ys = mset xs"
  proof (rule multiset_eqI)
    fix x
    have "count (mset zs) x = count (mset (filter (\<lambda>z. f z = f x) zs)) x" for zs by simp
    then show "count (mset ys) x = count (mset xs) x" using assms(1) by metis
  qed
  have "(\<lambda>x. f k = f x) = (\<lambda>x. f x = f k)" for k by auto
  then show "filter (\<lambda>x. f k = f x) ys = filter (\<lambda>x. f k = f x) xs" for k using assms(1) by simp
qed (rule assms(2))

lemma rb_build:
  fixes key :: "nat \<Rightarrow> 'k :: linorder"
  assumes "compares cmp key" "distinct ns" "0 \<notin> set ns"
  shows "\<exists>t T. rb_insert_list cmp ns rb_none = Some t \<and> rb_holds t T \<and> is_rbt T \<and> rb_inorder T = sort_key key ns"
proof -
  have "rb_holds rb_none Lf" by (simp add: rb_holds_def zrep_def rb_none_def)
  moreover have "is_rbt Lf" by (simp add: is_rbt_def)
  ultimately obtain t T where t: "rb_insert_list cmp ns rb_none = Some t" "rb_holds t T" "is_rbt T"
    "sorted (map key (rb_inorder T))" "\<forall>v. filter (\<lambda>x. key x = v) (rb_inorder T) = filter (\<lambda>x. key x = v) ns"
    using rb_insert_list_sorts [OF assms(1), of rb_none Lf ns] assms(2,3) by auto
  with sort_key_by_filters [OF t(5,4)] show ?thesis by blast
qed

text \<open>
  C37.  Any sequence of insertions of distinct nodes ends, and makes a red-black tree whose nodes are, from
  left to right, in the order of the keys, equal keys in the order of insertion.  No path in it is longer than
  twice the logarithm of the number of nodes.
\<close>
theorem rb_insertions_build_red_black_tree:
  fixes key :: "nat \<Rightarrow> 'k :: linorder"
  assumes "compares cmp key" "distinct ns" "0 \<notin> set ns"
  shows "\<exists>t T. rb_insert_list cmp ns rb_none = Some t \<and> rb_holds t T \<and> bal T \<and> redok T \<and> col T = RB_BLACK \<and>
    rb_inorder T = sort_key key ns \<and> 2 ^ (height T div 2) \<le> length ns + 1"
proof -
  obtain t T where t: "rb_insert_list cmp ns rb_none = Some t" "rb_holds t T" "is_rbt T" "rb_inorder T = sort_key key ns"
    using rb_build [OF assms] by blast
  have "2 ^ (height T div 2) \<le> length ns + 1" using is_rbt_height [OF t(3)] t(4) by simp
  with t show ?thesis unfolding is_rbt_def by blast
qed

theorem rb_insertions_build_red_black_tree_witness:
  "\<exists>t T. rb_insert_list by_number [2, 3, 1] rb_none = Some t \<and> rb_holds t T \<and> rb_inorder T = [1, 2, 3]"
proof -
  have "distinct [2, 3, 1 :: nat]" "0 \<notin> set [2, 3, 1 :: nat]" by simp_all
  from rb_insertions_build_red_black_tree [OF by_number_compares this] show ?thesis
    by (auto simp: sort_key_def)
qed

text \<open>
  C38.  In such a tree \<open>rb_first\<close> and \<open>rb_last\<close> give the first and the last node in the order of the keys, and
  from any node \<open>rb_next\<close> and \<open>rb_prev\<close> give its neighbours in that order, the null pointer at the ends.
\<close>
theorem rb_traversals_follow_order:
  fixes key :: "nat \<Rightarrow> 'k :: linorder"
  assumes "compares cmp key" "distinct ns" "0 \<notin> set ns"
  shows "\<exists>t. rb_insert_list cmp ns rb_none = Some t \<and> rb_empty t = (ns = []) \<and>
    rb_first t = Some (head_or_zero (sort_key key ns)) \<and> rb_last t = Some (last_or_zero (sort_key key ns)) \<and>
    (\<forall>xs x ys. sort_key key ns = xs @ x # ys \<longrightarrow>
       rb_next x t = Some (head_or_zero ys) \<and> rb_prev x t = Some (last_or_zero xs))"
proof -
  obtain t T where t: "rb_insert_list cmp ns rb_none = Some t" "rb_holds t T" "rb_inorder T = sort_key key ns"
    using rb_build [OF assms] by blast
  have "rb_empty t = (rb_inorder T = [])" using t(2) by (cases T) (auto simp: rb_empty_def rb_holds_def zrep_def)
  moreover have "(sort_key key ns = []) = (ns = [])" by (metis length_0_conv length_sort)
  ultimately have "rb_empty t = (ns = [])" using t(3) by simp
  with t(1) rb_traversal [OF t(2)] t(3) show ?thesis by auto
qed

theorem rb_traversals_follow_order_witness:
  "\<exists>t. rb_insert_list by_number [2, 3, 1] rb_none = Some t \<and> rb_first t = Some 1 \<and> rb_next 2 t = Some 3 \<and> rb_prev 1 t = Some 0"
proof -
  have d: "distinct [2, 3, 1 :: nat]" "0 \<notin> set [2, 3, 1 :: nat]" by simp_all
  have s: "sort_key (\<lambda>x. x) [2, 3, 1] = [1, 2, 3 :: nat]" by (simp add: sort_key_def)
  obtain t where t: "rb_insert_list by_number [2, 3, 1] rb_none = Some t" "rb_first t = Some (head_or_zero [1, 2, 3])"
    "\<And>xs x ys. [1, 2, 3] = xs @ x # ys \<Longrightarrow> rb_next x t = Some (head_or_zero ys) \<and> rb_prev x t = Some (last_or_zero xs)"
    using rb_traversals_follow_order [OF by_number_compares d] unfolding s by blast
  show ?thesis using t(1,2) t(3) [of "[1]" 2 "[3]"] t(3) [of "[]" 1 "[2, 3]"]
    by (auto simp: head_or_zero_def last_or_zero_def)
qed

text \<open>
  C39.  Removing a node from a red-black tree leaves a red-black tree of the other nodes in their order, when
  the node has no left child, or its successor is its right child (or it has none), or the successor is red.
\<close>
theorem rb_erase_keeps_red_black:
  assumes "rb_holds t T" "is_rbt T" "T = plug k (Nd l x c r)" "l = Lf \<or> heir r = r \<or> col (heir r) = RB_RED"
  shows "\<exists>t' T'. rb_erase x t = Some t' \<and> rb_holds t' T' \<and> is_rbt T' \<and> rb_inorder T' = filter (\<lambda>y. y \<noteq> x) (rb_inorder T)"
  by (rule rb_erase_removes [OF assms])

definition rb_three :: rb_root where
  "rb_three = \<lparr>rb_top = 2, rb_mem = (\<lambda>_. \<lparr>rb_parent = 0, rb_left = 1, rb_right = 3, rb_col = RB_BLACK\<rparr>)
     (1 := \<lparr>rb_parent = 2, rb_left = 0, rb_right = 0, rb_col = RB_BLACK\<rparr>,
      3 := \<lparr>rb_parent = 2, rb_left = 0, rb_right = 0, rb_col = RB_BLACK\<rparr>)\<rparr>"

theorem rb_erase_keeps_red_black_witness:
  "\<exists>t' T'. rb_erase 2 rb_three = Some t' \<and> rb_holds t' T' \<and> is_rbt T' \<and> rb_inorder T' = [1, 3]"
proof -
  let ?l = "Nd Lf 1 RB_BLACK Lf" and ?r = "Nd Lf 3 RB_BLACK Lf"
  have "rb_holds rb_three (Nd ?l 2 RB_BLACK ?r)" by (simp add: rb_holds_def zrep_def rb_three_def)
  moreover have "is_rbt (Nd ?l 2 RB_BLACK ?r)" by (simp add: is_rbt_def)
  ultimately show ?thesis using rb_erase_keeps_red_black [of rb_three "Nd ?l 2 RB_BLACK ?r" "[]" ?l 2 RB_BLACK ?r] by simp
qed

declare rb_descend.simps [code] rb_insert_fix.simps [code] leftmost.simps [code] rb_erase_fix.simps [code] up_from_right.simps [code]

text \<open>
  C40.  In the case left, a left child and a black successor deeper in the right subtree, the removal always goes
  wrong.  The loop starts at the right child of the replacement instead of at the place the successor left: it
  ends, and the tree holds the other nodes in their order, but paths of it differ in their number of black nodes.
\<close>
theorem rb_erase_unbalances:
  assumes "rb_holds t T" "is_rbt T" "T = plug k (Nd l x c r)" "l \<noteq> Lf" "heir r \<noteq> r" "col (heir r) = RB_BLACK"
  shows "\<exists>t' T'. rb_erase x t = Some t' \<and> rb_holds t' T' \<and> rb_inorder T' = filter (\<lambda>y. y \<noteq> x) (rb_inorder T) \<and> \<not> bal T'"
proof -
  obtain p where "zrep t p x (Nd l x c r) k"
    and "filter (\<lambda>y. y \<noteq> x) (rb_inorder T) = nodes_before k @ rb_inorder l @ rb_inorder r @ nodes_after k"
    using erase_place [OF assms(1,3)] .
  with erase_black_heir [of t p x l c r k] assms(2-6) show ?thesis by (auto simp: unbalanced_result_def)
qed

text \<open>A tree of six nodes, which insertions build; the successor of 2 is 3, the left child of its right child.\<close>

definition rb_six :: rb_root where
  "rb_six = \<lparr>rb_top = 2, rb_mem = (\<lambda>_. \<lparr>rb_parent = 0, rb_left = 1, rb_right = 5, rb_col = RB_BLACK\<rparr>)
     (1 := \<lparr>rb_parent = 2, rb_left = 0, rb_right = 0, rb_col = RB_BLACK\<rparr>,
      5 := \<lparr>rb_parent = 2, rb_left = 3, rb_right = 6, rb_col = RB_RED\<rparr>,
      3 := \<lparr>rb_parent = 5, rb_left = 0, rb_right = 4, rb_col = RB_BLACK\<rparr>,
      4 := \<lparr>rb_parent = 3, rb_left = 0, rb_right = 0, rb_col = RB_RED\<rparr>,
      6 := \<lparr>rb_parent = 5, rb_left = 0, rb_right = 0, rb_col = RB_BLACK\<rparr>)\<rparr>"

theorem rb_erase_unbalances_witness:
  "\<exists>t' T'. rb_erase 2 rb_six = Some t' \<and> rb_holds t' T' \<and> rb_inorder T' = [1, 3, 4, 5, 6] \<and> \<not> bal T'"
proof -
  let ?l = "Nd Lf 1 RB_BLACK Lf" and ?r = "Nd (Nd Lf 3 RB_BLACK (Nd Lf 4 RB_RED Lf)) 5 RB_RED (Nd Lf 6 RB_BLACK Lf)"
  have "rb_holds rb_six (Nd ?l 2 RB_BLACK ?r)" by (simp add: rb_holds_def zrep_def rb_six_def)
  moreover have "is_rbt (Nd ?l 2 RB_BLACK ?r)" by (simp add: is_rbt_def)
  ultimately show ?thesis using rb_erase_unbalances [of rb_six "Nd ?l 2 RB_BLACK ?r" "[]" ?l 2 RB_BLACK ?r] by simp
qed

text \<open>
  It can end the program: after the insertion of these six nodes and the removal of 2, the removal of 5, which is
  still in the tree, dereferences the null pointer.
\<close>

lemma rb_erase_dereferences_null:
  "\<exists>t1 t2. rb_insert_list by_number [1, 6, 2, 3, 5, 4] rb_none = Some t1 \<and> rb_erase 2 t1 = Some t2 \<and>
     rb_first t2 = Some 1 \<and> rb_next 4 t2 = Some 5 \<and> rb_erase 5 t2 = None"
proof -
  have a: "(do { t1 \<leftarrow> rb_insert_list by_number [1, 6, 2, 3, 5, 4] rb_none; t2 \<leftarrow> rb_erase 2 t1;
              f \<leftarrow> rb_first t2; n \<leftarrow> rb_next 4 t2; Some (f, n, Option.is_none (rb_erase 5 t2)) }) = Some (1, 5, True)"
    by code_simp
  then show ?thesis by (auto simp: Option.bind_eq_Some_conv Option.is_none_def)
qed

end
