(* ===== verification/Spec2Isabelle.thy ===== *)
theory Spec2Isabelle
  imports Ipc_Splay_Props Mach_Ipc_Props Kernel_Props Loader_Props Server_Props Bsd_Props
    Ipc_Hash_Props Ipc_Entry_Props Ipc_Port_Props Objc_Props Rb_Props
begin

text \<open>
  MINSTEP: the Maxxwell nanokernel, a Mach-like kernel that runs as one process of a host system, with
  its server layer, the BSD server and an Objective-C runtime.  This library models the C code of these
  and states what it does, correct or not.

  \<^bold>\<open>The program and its parts.\<close>  The kernel (\<^verbatim>\<open>Kernel/mxwl/mach/mach_kernel.c\<close>) keeps a table of
  tasks (\<^verbatim>\<open>task/task.c\<close>), each a host process with a list of port rights, and a table of ports
  (\<^verbatim>\<open>mach/mach_port.c\<close>), each a bounded ring of messages with a host descriptor.  \<^verbatim>\<open>ipc/ipc.c\<close> sends and
  receives messages over these ports, makes remote calls, and keeps the bootstrap name service, which the
  kernel's loop serves.  Programs come in through the loader of \<^verbatim>\<open>.mach\<close> binaries (\<^verbatim>\<open>loader/mach_loader.c\<close>).
  On these stand the servers (\<^verbatim>\<open>server/\<close>): a registry of server objects, messages between them, a loader
  and manager that gives each a task and an endpoint port, and the start from the boot arguments.  The
  BSD server (\<^verbatim>\<open>Developer/BSD\<close>) is a process of its own that answers POSIX-like system calls sent as
  messages, with processes, descriptors, signals and memory.
  Beside this stands the entry layer ported from Mach 4 (\<^verbatim>\<open>ipc/ipc_splay.c\<close>, \<^verbatim>\<open>ipc_hash.c\<close>, \<^verbatim>\<open>ipc_entry.c\<close>,
  \<^verbatim>\<open>ipc_port.c\<close>, \<^verbatim>\<open>ipc_init.c\<close>, \<^verbatim>\<open>ipc_stubs.c\<close>): spaces that map names to entries through a growing table
  with a splay tree for names beyond it, reverse hash tables, and ports with rights and requests.  The
  kernel proper initialises it and does not otherwise call it yet.
  Programs in Objective-C run on the runtime library \<^verbatim>\<open>Developer/objc/objcrt.c\<close>: classes and metaclasses with
  lists of methods, selectors, protocols, instances, reference counts and an autorelease pool, in hash
  tables of fixed size.
  The kernel's library \<^verbatim>\<open>Kernel/mxwl/libkern\<close> is built into the kernel; its red-black trees are modelled.
  \<^verbatim>\<open>Kernel/Makefile\<close> builds the kernel with the small stubs \<^verbatim>\<open>mach/ipc.c\<close> and \<^verbatim>\<open>mach/task.c\<close> in places;
  modelled are the full \<^verbatim>\<open>ipc/ipc.c\<close>, \<^verbatim>\<open>task/task.c\<close> and \<^verbatim>\<open>mach/mach_kernel.c\<close>.
\<close>

text \<open>
  \<^bold>\<open>The theories, bottom up.\<close>
  \<^item> \<open>Prelude\<close>, \<open>C_Memory\<close>: return codes, assertions, sorted association lists; byte buffers with fields in
    little-endian order and C strings.
  \<^item> Contracts, as locales: \<open>Fifo\<close> (a bounded message queue), \<open>Name_Table\<close> (a map of names that lookups
    may reorganise), \<open>Request_Slots\<close> (numbered requests).  Each is interpreted on the code's own
    operations: \<open>Fifo\<close> in \<open>Mach_Port_Queue\<close> on the ring of a port, \<open>Name_Table\<close> in \<open>Ipc_Splay_Props\<close> on
    the splay tree, \<open>Request_Slots\<close> in \<open>Ipc_Requests\<close> on the dead-name requests of a port.
  \<^item> Ports and messages: \<open>Mach_Port\<close> (\<^verbatim>\<open>mach_port.c\<close>), \<open>Mach_Ipc\<close> (\<^verbatim>\<open>ipc.c\<close>); what they do in
    \<open>Mach_Port_Correct\<close>, \<open>Mach_Port_Queue\<close> and \<open>Mach_Ipc_Correct\<close>.
  \<^item> The kernel: \<open>Task\<close> (\<^verbatim>\<open>task.c\<close>), \<open>Mach_Kernel\<close> (\<^verbatim>\<open>mach_kernel.c\<close>), \<open>Mach_Loader\<close> (\<^verbatim>\<open>mach_loader.c\<close>), with
    \<open>Task_Correct\<close>.  One record grows by extension along this chain: the port table, the name service, the
    task table, the kernel.
  \<^item> The servers: \<open>Server\<close> (\<^verbatim>\<open>server.c\<close>, \<^verbatim>\<open>registry.c\<close>), \<open>Server_Ipc\<close> (\<^verbatim>\<open>message.c\<close>, \<^verbatim>\<open>ipc.c\<close>), \<open>Server_Manager\<close>
    (\<^verbatim>\<open>loader.c\<close>, \<^verbatim>\<open>manager.c\<close>), \<open>Server_Boot\<close> (\<^verbatim>\<open>bootstrap.c\<close>); \<open>Server_Correct\<close>, \<open>Server_Ipc_Correct\<close>,
    \<open>Server_Room\<close> (when operations succeed) and \<open>Server_States\<close> (an inductive step relation over every
    operation that changes a server, \<^verbatim>\<open>mx_server_set_state\<close> among them; its parameter is the set of servers
    that this is called for with \<^verbatim>\<open>READY\<close> or \<^verbatim>\<open>WAITING\<close>, which nothing else can make a server be).
  \<^item> The BSD server: \<open>Bsd\<close> (\<^verbatim>\<open>bsd.h\<close>), \<open>Bsd_Fd\<close>, \<open>Bsd_Process\<close> (with signals and memory), \<open>Bsd_Syscall\<close>,
    \<open>Bsd_Server\<close> (\<^verbatim>\<open>bsd_ipc.c\<close>, \<^verbatim>\<open>bsd.c\<close>); \<open>Bsd_Fd_Correct\<close>, \<open>Bsd_Correct\<close>.
  \<^item> The entry layer: \<open>Ipc_Splay\<close> and \<open>Ipc_Splay_Traverse\<close> (\<^verbatim>\<open>ipc_splay.c\<close>), \<open>Ipc_Hash\<close> (\<^verbatim>\<open>ipc_hash.c\<close>) with
    \<open>Ipc_Probe\<close> (the invariant of linear probing) and \<open>Ipc_Hash_Correct\<close>, \<open>Ipc_Entry\<close> (\<^verbatim>\<open>ipc_entry.c\<close>, spaces
    of \<^verbatim>\<open>ipc_init.c\<close>) with \<open>Ipc_Entry_Correct\<close>, \<open>Ipc_Object\<close> (\<^verbatim>\<open>ipc_stubs.c\<close> and the macros) and \<open>Ipc_Port\<close>
    (\<^verbatim>\<open>ipc_port.c\<close>) with \<open>Ipc_Transit\<close> (the graph of ports in transit), \<open>Ipc_Requests\<close>, \<open>Ipc_Queue\<close> (rings
    of threads and messages as lists) and \<open>Ipc_Port_Correct\<close>.
  \<^item> The Objective-C runtime: \<open>Open_Table\<close> (the contract of its hash tables, a locale), \<open>Objc\<close> (data, selectors,
    classes), \<open>Objc_Class\<close> (methods, instance variables, properties, protocols), \<open>Objc_Object\<close> (instances,
    messages, counts, the pool, the start); \<open>Objc_Tables\<close> interprets the locale on the four tables, \<open>Objc_Methods\<close>
    turns the search through the superclasses into a search in one list, \<open>Objc_Counts\<close> has reference counts and the
    pool, \<open>Objc_Layout\<close> instance variables and conformance.
  \<^item> The kernel's library: \<open>Rb_Tree\<close> (\<^verbatim>\<open>libkern_tree.c\<close>), nodes with parent pointers at addresses. \<open>Rb_Shape\<close> says what
    tree, or subtree with its surroundings, the memory holds, and that rotations are rotations; \<open>Rb_Insert\<close> and
    \<open>Rb_Loop\<close> turn the loop after an insertion into a function on trees, \<open>Rb_Balance\<close> shows that it keeps colours and
    heights, \<open>Rb_Place\<close> has whole insertions, \<open>Rb_Mend\<close> the loop after a removal, \<open>Rb_Erase\<close> traversals and
    removals of a node with one child, \<open>Rb_Replace\<close> the other removals that are right, \<open>Rb_Unbalance\<close> the ones that
    are not.
  \<^item> The properties, each with an instance, stand in the theories named \<open>_Props\<close>.

  \<^bold>\<open>How the code is rendered.\<close>  A struct is a record, a fixed array of structs a function or list of
  records, a heap object an address with a heap function and the list of the addresses in use; a
  function of the code is a function of the state to \<open>option\<close>, where \<open>None\<close> is what stops the program or is
  undefined in C: a failed assertion, an access outside an array or to memory not in use, a free of what
  is not allocated, a loop that does not end.  Error codes are values of the result.  Loops are structural
  where they run over a list, \<open>fun\<close> with a measure where the code counts, and \<open>partial_function (option)\<close>
  where they follow links: there, that they end is part of the property.  Integers that wrap in the code are
  words; a signed counter that would overflow, as that of the waiting time of a receive, ends in \<open>None\<close>.  Port
  names are the \<^verbatim>\<open>int\<close> the code has, of any sign: the code refuses only 0 and -1 as names, and the properties of
  the splay tree hold for the others too, but for \<open>ipc_entry_names_as_map\<close>, which takes the names in the tree not
  to be negative.  Assertions are on, as the Makefile
  builds.  One thread runs; locks, and the work on locks, are left out.
\<close>

text \<open>
  \<^bold>\<open>What is a parameter.\<close>  The host: what a read, write, poll, fork or allocation gives is an argument or a list
  of results to come (\<open>port_zone\<close>, \<open>ite_zone\<close>, \<open>table_memory\<close>, \<open>dn_memory\<close> for the allocator of the entry layer;
  the replies of the host's system calls for the BSD server, with the promise of POSIX about fresh
  descriptors as the hypothesis \<open>trace_ok\<close>; the file system of the loader).  Other processes: the messages that
  arrive at the loops, and what other threads do while a function sleeps.

  \<^bold>\<open>Bounds.\<close>  There is no fuel: dispatch loops run over the list of the rounds or messages that come.  The tables
  have the sizes of the code (256 ports, 128 tasks, 128 BSD processes); the right counters of a port are
  exact below \<open>2\<^sup>3\<^sup>2\<close> references.

  \<^bold>\<open>What the lemma groups show.\<close>  The table theories give each table an abstract value (a partial map, a list, a
  set of indices) and say what every operation does to it; the invariants are kept by every operation
  and so hold in every reachable state.  The \<open>_Props\<close> theories state what follows for the program:
  refinement of maps, queues and lists; equivalence with closed forms; safety along all runs; round
  trips; outcomes of whole operations with their error paths; termination or its failure.  Several state
  what the code does and should not do; the manifest lists those as findings.

  \<^bold>\<open>Not modelled.\<close>  Input and output proper: logging (\<^verbatim>\<open>klog.c\<close>), the monitor's commands, the terminal, the
  framebuffers of \<^verbatim>\<open>devicekit\<close>, the string functions, lists and the chained hash table of \<^verbatim>\<open>libkern\<close>, the
  programs that boot the kernel, the host abstraction \<^verbatim>\<open>kal\<close>, which only wraps calls of the host.  Threads and
  locks, and with them \<^verbatim>\<open>ipc_sched.c\<close>.  The Objective-C parts (\<^verbatim>\<open>*.m\<close>), among them the Objective-C copies of
  the kernel, which the C code does not call.  The Adobe Display PostScript sources, which are third-party
  code.  The preprocessor of Objective-C, \<^verbatim>\<open>objcpreproc.c\<close>, which is a text transformer outside the
  kernel; of the runtime, printing, and the arguments of a message beyond receiver and selector.
\<close>

end
